(* ===== verification/Prelude.thy ===== *)
theory Prelude
  imports
    Main
    "HOL-Library.Finite_Map"
    "HOL-Library.List_Lexorder"
    "HOL-Library.Char_ord"
    "HOL-Library.Sublist"
begin

section \<open>Shared vocabulary of the figaro development\<close>

text \<open>
  This theory holds what the component theories share: the representation of Go's basic
  data, the parts of Go's standard library that the modelled code calls (\<open>strings\<close>,
  \<open>sort\<close>), and the generic lemmas about them.

  \<^item> A Go \<open>string\<close> or \<open>[]byte\<close> is a \<open>string\<close> of HOL: a list of 8-bit characters, so
    \<open>length\<close> is Go's \<open>len\<close> and \<open>s ! i\<close> is the byte \<open>s[i]\<close>.
  \<^item> A Go \<open>map[string]T\<close> is a finite map \<open>(string, T) fmap\<close>. A nil map and an empty map
    read, range and measure alike, so both are \<open>fmempty\<close>; where the code distinguishes them
    the model uses an \<open>option\<close>.
  \<^item> Go's \<open>sort.Strings\<close> is \<open>sort\<close> at the lexicographic order on byte strings that
    \<open>List_Lexorder\<close> and \<open>Char_ord\<close> give.
  \<^item> A Go \<open>int\<close> is an \<open>int\<close>; where a sum may leave the 64-bit range the wrap-around
    \<open>wrap64\<close> is written out. Logical times (\<open>uint64\<close> counters that start at 1 and grow by
    one per append) are natural numbers.
\<close>

named_theorems go_defs \<open>definitions a component's proofs unfold\<close>
named_theorems wf_intros \<open>preservation of well-formedness by the operations\<close>

type_synonym rawjson = string
type_synonym lt = nat

subsection \<open>64-bit arithmetic\<close>

definition wrap64 :: "int \<Rightarrow> int" where
  "wrap64 x = (x + 2 ^ 63) mod 2 ^ 64 - 2 ^ 63"

lemma wrap64_id [simp]: "- (2 ^ 63) \<le> x \<Longrightarrow> x < 2 ^ 63 \<Longrightarrow> wrap64 x = x"
  by (simp add: wrap64_def)

subsection \<open>Searching a sorted slice: \<open>sort.Search\<close>\<close>

text \<open>
  The binary search of Go's \<open>sort.Search\<close>: the half-open interval \<open>[i, j)\<close> shrinks around
  the first index at which \<open>f\<close> holds.
\<close>

function sort_search_loop :: "(nat \<Rightarrow> bool) \<Rightarrow> nat \<Rightarrow> nat \<Rightarrow> nat" where
  "sort_search_loop f i j =
     (if i < j
      then let h = (i + j) div 2
           in if \<not> f h then sort_search_loop f (h + 1) j else sort_search_loop f i h
      else i)"
  by pat_completeness auto
termination
  by (relation "measure (\<lambda>(f, i, j). j - i)") (auto simp: Let_def)

declare sort_search_loop.simps [simp del]

definition sort_search :: "nat \<Rightarrow> (nat \<Rightarrow> bool) \<Rightarrow> nat" where
  "sort_search n f = sort_search_loop f 0 n"

text \<open>The loop invariant: \<open>f\<close> fails below \<open>i\<close> and holds from \<open>j\<close> on.\<close>

lemma sort_search_loop_inv:
  assumes "i \<le> j" and "j \<le> n"
    and "\<And>a b. a \<le> b \<Longrightarrow> b < n \<Longrightarrow> f a \<Longrightarrow> f b"
    and "\<And>k. k < i \<Longrightarrow> \<not> f k" and "\<And>k. j \<le> k \<Longrightarrow> k < n \<Longrightarrow> f k"
  shows "sort_search_loop f i j \<le> n \<and> (\<forall>k < sort_search_loop f i j. \<not> f k)
    \<and> (\<forall>k. sort_search_loop f i j \<le> k \<and> k < n \<longrightarrow> f k)"
  using assms
proof (induction f i j rule: sort_search_loop.induct)
  case (1 f i j)
  show ?case
  proof (cases "i < j")
    case False
    with "1.prems" have "i = j" by simp
    with "1.prems" show ?thesis by (simp add: sort_search_loop.simps [of f j j])
  next
    case True
    let ?h = "(i + j) div 2"
    have h: "i \<le> ?h" "?h < j" using True by auto
    show ?thesis
    proof (cases "f ?h")
      case hit: True
      have "\<And>k. ?h \<le> k \<Longrightarrow> k < n \<Longrightarrow> f k" using "1.prems"(3) hit by blast
      with "1.IH"(2) [OF True refl] hit "1.prems" h show ?thesis
        by (simp add: sort_search_loop.simps [of f i j] True Let_def)
    next
      case miss: False
      have "\<And>k. k < ?h + 1 \<Longrightarrow> \<not> f k"
        using "1.prems"(2,3) miss h by (metis Suc_eq_plus1 less_Suc_eq_le less_le_trans)
      with "1.IH"(1) [OF True refl] miss "1.prems" h show ?thesis
        by (simp add: sort_search_loop.simps [of f i j] True Let_def)
    qed
  qed
qed

lemma sort_search_spec:
  assumes "\<And>a b. a \<le> b \<Longrightarrow> b < n \<Longrightarrow> f a \<Longrightarrow> f b"
  shows "sort_search n f \<le> n"
    and "k < sort_search n f \<Longrightarrow> \<not> f k"
    and "sort_search n f \<le> k \<Longrightarrow> k < n \<Longrightarrow> f k"
  using sort_search_loop_inv [of 0 n n f] assms unfolding sort_search_def by auto

text \<open>On any predicate the result stays in range.\<close>

lemma sort_search_loop_le: "i \<le> j \<Longrightarrow> sort_search_loop f i j \<le> j"
proof (induction f i j rule: sort_search_loop.induct)
  case (1 f i j)
  show ?case
  proof (cases "i < j")
    case True
    then have "i \<le> (i + j) div 2" "(i + j) div 2 < j" by auto
    with 1 True show ?thesis
      by (cases "f ((i + j) div 2)") (force simp: sort_search_loop.simps [of f i j] Let_def)+
  next
    case False
    with "1.prems" show ?thesis by (simp add: sort_search_loop.simps [of f j j])
  qed
qed

lemma sort_search_le: "sort_search n f \<le> n"
  by (simp add: sort_search_def sort_search_loop_le)

lemma sort_search_at:
  assumes "t \<le> n" and "\<And>i. i < n \<Longrightarrow> f i \<longleftrightarrow> t \<le> i"
  shows "sort_search n f = t"
proof -
  have mono: "\<And>a b. a \<le> b \<Longrightarrow> b < n \<Longrightarrow> f a \<Longrightarrow> f b" using assms(2) by auto
  let ?r = "sort_search n f"
  have "?r \<le> n" using sort_search_spec(1) mono by blast
  moreover have "\<not> t < ?r" using sort_search_spec(2) [of n f t] mono assms \<open>?r \<le> n\<close> by fastforce
  moreover have "\<not> ?r < t" using sort_search_spec(3) [of n f ?r] mono assms by fastforce
  ultimately show ?thesis by simp
qed

text \<open>
  On a list sorted by a key, searching for the first key that is at least \<open>x\<close> splits the
  list into the elements below \<open>x\<close> and those from \<open>x\<close> on.
\<close>

lemma sort_search_sorted:
  fixes g :: "'a \<Rightarrow> 'b :: linorder" and x :: 'b
  assumes "sorted (map g xs)"
  defines "r \<equiv> sort_search (length xs) (\<lambda>i. x \<le> g (xs ! i))"
  shows "take r xs = filter (\<lambda>e. g e < x) xs" and "drop r xs = filter (\<lambda>e. x \<le> g e) xs"
proof -
  have mono: "a \<le> b \<Longrightarrow> b < length xs \<Longrightarrow> x \<le> g (xs ! a) \<Longrightarrow> x \<le> g (xs ! b)" for a b
    using sorted_nth_mono [OF assms(1), of a b] by simp
  note spec = sort_search_spec [of "length xs" "\<lambda>i. x \<le> g (xs ! i)", folded r_def]
  have r: "r \<le> length xs" using spec(1) mono by blast
  have lo: "g e < x" if "e \<in> set (take r xs)" for e
    using that spec(2) mono by (force simp: in_set_conv_nth)
  have hi: "x \<le> g e" if "e \<in> set (drop r xs)" for e
  proof -
    from that obtain i where i: "i < length (drop r xs)" "e = drop r xs ! i"
      by (auto simp: in_set_conv_nth)
    then have "r + i < length xs" by simp
    with spec(3) [of "r + i"] mono i(2) show ?thesis by (simp add: r)
  qed
  have split: "filter P xs = filter P (take r xs) @ filter P (drop r xs)" for P
    by (metis append_take_drop_id filter_append)
  have none: "filter (\<lambda>e. g e < x) (drop r xs) = []" "filter (\<lambda>e. x \<le> g e) (take r xs) = []"
    using lo hi by (auto simp: filter_empty_conv not_less not_le)
  have all: "filter (\<lambda>e. g e < x) (take r xs) = take r xs" "filter (\<lambda>e. x \<le> g e) (drop r xs) = drop r xs"
    using lo hi by (auto intro!: filter_True)
  show "take r xs = filter (\<lambda>e. g e < x) xs" "drop r xs = filter (\<lambda>e. x \<le> g e) xs"
    by (simp_all add: split none all)
qed

subsection \<open>Byte strings: the parts of package \<open>strings\<close> the code calls\<close>

abbreviation nl :: char where "nl \<equiv> CHR 0x0A"
abbreviation cr :: char where "cr \<equiv> CHR 0x0D"

text \<open>\<open>strings.Split(s, sep)\<close> for a one-byte separator: never the empty list.\<close>

fun split_on :: "char \<Rightarrow> string \<Rightarrow> string list" where
  "split_on c [] = [[]]"
| "split_on c (x # xs) =
     (if x = c then [] # split_on c xs
      else (case split_on c xs of [] \<Rightarrow> [[x]] | y # ys \<Rightarrow> (x # y) # ys))"

text \<open>\<open>strings.Join\<close>.\<close>

fun join_with :: "string \<Rightarrow> string list \<Rightarrow> string" where
  "join_with sep [] = []"
| "join_with sep [x] = x"
| "join_with sep (x # y # ys) = x @ sep @ join_with sep (y # ys)"

lemma split_on_ne [simp]: "split_on c s \<noteq> []"
  by (induction s) (auto split: list.splits)

lemma split_on_ne2 [simp]: "[] \<noteq> split_on c s"
  using split_on_ne [of c s] by (simp del: split_on_ne)

lemma join_with_Cons:
  "join_with sep (x # xs) = (if xs = [] then x else x @ sep @ join_with sep xs)"
  by (cases xs) auto

lemma join_split [simp]: "join_with [c] (split_on c s) = s"
  by (induction s) (auto simp: join_with_Cons split: list.splits)

lemma length_split_on: "length (split_on c s) = Suc (count_list s c)"
  by (induction s) (auto split: list.splits)

lemma split_on_no_sep: "x \<in> set (split_on c s) \<Longrightarrow> c \<notin> set x"
  by (induction s arbitrary: x) (auto split: list.splits if_splits)

lemma split_on_plain: "c \<notin> set s \<Longrightarrow> split_on c s = [s]"
  by (induction s) auto

lemma split_on_append_sep: "split_on c (s @ c # t) = split_on c s @ split_on c t"
  by (induction s) (auto split: list.splits)

lemma split_join:
  "xs \<noteq> [] \<Longrightarrow> (\<And>x. x \<in> set xs \<Longrightarrow> c \<notin> set x) \<Longrightarrow> split_on c (join_with [c] xs) = xs"
proof (induction xs)
  case (Cons x xs)
  then show ?case
    by (cases "xs = []") (auto simp: join_with_Cons split_on_plain split_on_append_sep)
qed simp

lemma length_join_with:
  "length (join_with sep xs) = sum_list (map length xs) + length sep * (length xs - 1)"
  by (induction sep xs rule: join_with.induct) auto

lemma join_with_append:
  "xs \<noteq> [] \<Longrightarrow> ys \<noteq> [] \<Longrightarrow> join_with sep (xs @ ys) = join_with sep xs @ sep @ join_with sep ys"
  by (induction xs) (auto simp: join_with_Cons)

text \<open>\<open>strings.HasPrefix\<close>, \<open>strings.HasSuffix\<close>, \<open>strings.Contains\<close>.\<close>

definition has_prefix :: "string \<Rightarrow> string \<Rightarrow> bool" where
  "has_prefix s p \<longleftrightarrow> prefix p s"

definition has_suffix :: "string \<Rightarrow> string \<Rightarrow> bool" where
  "has_suffix s p \<longleftrightarrow> prefix (rev p) (rev s)"

text \<open>\<open>strings.Index\<close>: the offset of the first occurrence, if any.\<close>

fun index_of :: "string \<Rightarrow> string \<Rightarrow> nat option" where
  "index_of [] p = (if p = [] then Some 0 else None)"
| "index_of (x # xs) p = (if prefix p (x # xs) then Some 0 else map_option Suc (index_of xs p))"

definition contains :: "string \<Rightarrow> string \<Rightarrow> bool" where
  "contains s p \<longleftrightarrow> index_of s p \<noteq> None"

lemma index_of_Some:
  "index_of s p = Some i \<Longrightarrow> i + length p \<le> length s \<and> take (length p) (drop i s) = p"
proof (induction s p arbitrary: i rule: index_of.induct)
  case (2 x xs p)
  show ?case
  proof (cases "prefix p (x # xs)")
    case True
    with "2.prems" have "i = 0" by simp
    with True show ?thesis by (metis add_0 append_eq_conv_conj drop0 prefix_def prefix_length_le)
  next
    case False
    with "2.prems" obtain j where "index_of xs p = Some j" "i = Suc j" by auto
    with "2.IH" [OF False] show ?thesis by auto
  qed
qed (auto split: if_splits)

lemma index_of_None: "index_of s p = None \<longleftrightarrow> (\<nexists>a b. s = a @ p @ b)"
proof (induction s p rule: index_of.induct)
  case (2 x xs p)
  show ?case
  proof (cases "prefix p (x # xs)")
    case True
    then show ?thesis by (auto simp: prefix_def) (metis append_Nil)
  next
    case False
    then have "(\<nexists>a b. x # xs = a @ p @ b) \<longleftrightarrow> (\<nexists>a b. xs = a @ p @ b)"
      by (auto simp: prefix_def Cons_eq_append_conv)
    with 2 False show ?thesis by simp
  qed
qed auto

lemma contains_iff: "contains s p \<longleftrightarrow> sublist p s"
  unfolding contains_def sublist_def index_of_None not_not by simp

subsection \<open>Unicode white space and the trimming functions\<close>

text \<open>
  \<open>strings.TrimSpace\<close> drops the runes with property \<open>White_Space\<close>; these are their UTF-8
  encodings. A byte sequence is the encoding of a single rune exactly when it is one of the
  listed sequences, at the front (\<open>DecodeRune\<close>) as at the end (\<open>DecodeLastRune\<close>).
\<close>

definition white_space :: "string list" where
  "white_space =
     [[CHR 0x09], [CHR 0x0A], [CHR 0x0B], [CHR 0x0C], [CHR 0x0D], [CHR 0x20],
      [CHR 0xC2, CHR 0x85], [CHR 0xC2, CHR 0xA0], [CHR 0xE1, CHR 0x9A, CHR 0x80],
      [CHR 0xE2, CHR 0x80, CHR 0x80], [CHR 0xE2, CHR 0x80, CHR 0x81], [CHR 0xE2, CHR 0x80, CHR 0x82],
      [CHR 0xE2, CHR 0x80, CHR 0x83], [CHR 0xE2, CHR 0x80, CHR 0x84], [CHR 0xE2, CHR 0x80, CHR 0x85],
      [CHR 0xE2, CHR 0x80, CHR 0x86], [CHR 0xE2, CHR 0x80, CHR 0x87], [CHR 0xE2, CHR 0x80, CHR 0x88],
      [CHR 0xE2, CHR 0x80, CHR 0x89], [CHR 0xE2, CHR 0x80, CHR 0x8A], [CHR 0xE2, CHR 0x80, CHR 0xA8],
      [CHR 0xE2, CHR 0x80, CHR 0xA9], [CHR 0xE2, CHR 0x80, CHR 0xAF], [CHR 0xE2, CHR 0x81, CHR 0x9F],
      [CHR 0xE3, CHR 0x80, CHR 0x80]]"

text \<open>Drop, repeatedly, any of the given non-empty byte sequences from the front.\<close>

function trim_seqs :: "string list \<Rightarrow> string \<Rightarrow> string" where
  "trim_seqs ws s =
     (case find (\<lambda>w. w \<noteq> [] \<and> prefix w s) ws of
        None \<Rightarrow> s
      | Some w \<Rightarrow> trim_seqs ws (drop (length w) s))"
  by pat_completeness auto
termination
proof (relation "measure (\<lambda>(ws, s). length s)")
  fix ws s w
  assume "find (\<lambda>w. w \<noteq> [] \<and> prefix w s) ws = Some (w :: string)"
  then have "w \<noteq> []" "prefix w s" by (auto simp: find_Some_iff)
  then show "((ws, drop (length w) s), (ws, s)) \<in> measure (\<lambda>(ws, s). length s)"
    by (cases s) auto
qed simp

declare trim_seqs.simps [simp del]

definition trim_space :: "string \<Rightarrow> string" where
  "trim_space s = rev (trim_seqs (map rev white_space) (rev (trim_seqs white_space s)))"

text \<open>\<open>strings.TrimRight(s, cutset)\<close> for a cutset of ASCII characters.\<close>

definition trim_right :: "char list \<Rightarrow> string \<Rightarrow> string" where
  "trim_right cs s = rev (dropWhile (\<lambda>c. c \<in> set cs) (rev s))"

lemma trim_seqs_suffix: "suffix (trim_seqs ws s) s"
proof (induction ws s rule: trim_seqs.induct)
  case (1 ws s)
  show ?case
  proof (cases "find (\<lambda>w. w \<noteq> [] \<and> prefix w s) ws")
    case None
    then show ?thesis by (simp add: trim_seqs.simps [of ws s])
  next
    case (Some w)
    with "1.IH" have "suffix (trim_seqs ws (drop (length w) s)) s"
      by (meson suffix_drop suffix_order.trans)
    with Some show ?thesis by (simp add: trim_seqs.simps [of ws s])
  qed
qed

lemma trim_space_length: "length (trim_space s) \<le> length s"
  unfolding trim_space_def
  by (metis length_rev suffix_length_le trim_seqs_suffix order_trans)

lemma trim_space_Nil [simp]: "trim_space [] = []"
  using trim_space_length [of "[]"] by simp

lemma trim_right_prefix: "prefix (trim_right cs s) s"
  unfolding trim_right_def
  by (metis rev_rev_ident suffix_dropWhile suffix_to_prefix)

subsection \<open>Generic facts about slices\<close>

text \<open>The last \<open>n\<close> elements of a slice, \<open>xs[len(xs)-n:]\<close>.\<close>

definition last_n :: "nat \<Rightarrow> 'a list \<Rightarrow> 'a list" where
  "last_n n xs = drop (length xs - n) xs"

lemma length_last_n [simp]: "length (last_n n xs) = min n (length xs)"
  by (simp add: last_n_def)

lemma suffix_last_n [simp]: "suffix (last_n n xs) xs"
  by (simp add: last_n_def suffix_drop)

lemma last_n_all [simp]: "length xs \<le> n \<Longrightarrow> last_n n xs = xs"
  by (simp add: last_n_def)

lemma suffix_same_length: "suffix xs zs \<Longrightarrow> suffix ys zs \<Longrightarrow> length xs = length ys \<Longrightarrow> xs = ys"
  by (auto simp: suffix_def)

lemma sum_list_mono_suffix: "suffix xs ys \<Longrightarrow> sum_list xs \<le> sum_list (ys :: nat list)"
  by (auto simp: suffix_def)

text \<open>Folding single-key deletions is deleting the set of keys.\<close>

lemma fold_fmdrop: "fold fmdrop ks m = fmdrop_set (set ks) m"
proof (induction ks arbitrary: m)
  case (Cons k ks)
  then show ?case by (auto intro!: fmap_ext)
qed (auto intro!: fmap_ext)

text \<open>Removing the first occurrence from a list without duplicates removes the element.\<close>

lemma set_remove1_distinct: "distinct xs \<Longrightarrow> set (remove1 x xs) = set xs - {x}"
  by simp

lemma fold_remove1:
  "distinct xs \<Longrightarrow> set (fold remove1 ks xs) = set xs - set ks \<and> distinct (fold remove1 ks xs)"
proof (induction ks arbitrary: xs)
  case (Cons k ks)
  then show ?case using Cons.IH [of "remove1 k xs"] by (auto simp: distinct_remove1)
qed simp

subsection \<open>Ranging over a map\<close>

text \<open>The keys of a map in ascending order, for the loops that range over one.\<close>

definition fmkeys :: "('k :: linorder, 'v) fmap \<Rightarrow> 'k list" where
  "fmkeys m = sorted_list_of_fset (fmdom m)"

lemma fmkeys_props [simp]:
  "set (fmkeys m) = fmdom' m" "distinct (fmkeys m)" "sorted (fmkeys m)"
  by (simp_all add: fmkeys_def fmdom'_alt_def sorted_list_of_fset.rep_eq)

lemma fmkeys_single [simp]: "fmkeys (fmupd k v fmempty) = [k]"
  by (rule sorted_distinct_set_unique) (simp_all add: fmdom'_alt_def)

lemma fmdom_card_0: "fcard (fmdom m) = 0 \<longleftrightarrow> m = fmempty"
proof
  assume "fcard (fmdom m) = 0"
  then have "fmdom m = {||}" by (simp add: fcard_0_eq)
  then show "m = fmempty" by (intro fmap_ext) (simp add: fmdom_notD)
qed simp

lemma fmkeys_empty [simp]: "fmkeys fmempty = []"
  using fmkeys_props(1) [of fmempty] by (simp del: fmkeys_props)

text \<open>
  Setting fields of a record one after the other: what a getter sees at the end, when setting
  another field does not change it. The first form is for writes that are idempotent.
\<close>

lemma fold_upd_get:
  assumes other: "\<And>m f v. f \<noteq> k \<Longrightarrow> g (upd m f v) = g m"
    and same: "\<And>m v. g (upd m k v) = h v (g m)" and idem: "\<And>v x. h v (h v x) = h v x"
  shows "g (fold (\<lambda>f m. upd m f (val f)) ks m) = (if k \<in> set ks then h (val k) (g m) else g m)"
proof (induction ks arbitrary: m)
  case (Cons f ks)
  then show ?case by (cases "f = k") (simp_all add: other same idem)
qed simp

lemma fold_upd_get_distinct:
  assumes other: "\<And>m f v. f \<noteq> k \<Longrightarrow> g (upd m f v) = g m"
    and same: "\<And>m v. g (upd m k v) = h v (g m)" and "distinct ks"
  shows "g (fold (\<lambda>f m. upd m f (val f)) ks m) = (if k \<in> set ks then h (val k) (g m) else g m)"
  using assms(3)
proof (induction ks arbitrary: m)
  case (Cons f ks)
  then show ?case by (cases "f = k") (auto simp: other same)
qed simp

subsection \<open>Decimal notation: \<open>fmt.Sprintf("%d", n)\<close> on natural numbers\<close>

fun show_nat :: "nat \<Rightarrow> string" where
  "show_nat n = (if n < 10 then [char_of (48 + n)] else show_nat (n div 10) @ [char_of (48 + n mod 10)])"

declare show_nat.simps [simp del]

lemma digit_code: "d < 10 \<Longrightarrow> of_char (char_of (48 + d) :: char) = 48 + d" for d :: nat
  by simp

lemma show_nat_unfold:
  "show_nat n = (if n < 10 then [] else show_nat (n div 10)) @ [char_of (48 + n mod 10)]"
  by (subst show_nat.simps) simp

lemma show_nat_ne: "show_nat n \<noteq> []"
  by (subst show_nat_unfold) simp

lemma show_nat_inj: "show_nat n = show_nat m \<Longrightarrow> n = m"
proof (induction n arbitrary: m rule: less_induct)
  case (less n)
  let ?pre = "\<lambda>k. if k < 10 then [] else show_nat (k div 10)"
  have eq: "?pre n @ [char_of (48 + n mod 10)] = ?pre m @ [char_of (48 + m mod 10)]"
    using less.prems by (subst (asm) (1 2) show_nat_unfold)
  then have "(char_of (48 + n mod 10) :: char) = char_of (48 + m mod 10)" and pre: "?pre n = ?pre m" by auto
  then have d: "n mod 10 = m mod 10" using digit_code [of "n mod 10"] digit_code [of "m mod 10"] by simp
  show ?case
  proof (cases "n < 10")
    case True
    with pre have "m < 10" using show_nat_ne [of "m div 10"] by (cases "m < 10") simp_all
    with True d show ?thesis by simp
  next
    case False
    with pre have "\<not> m < 10" using show_nat_ne [of "n div 10"] by (cases "m < 10") simp_all
    with pre False have "show_nat (n div 10) = show_nat (m div 10)" by simp
    with less.IH [of "n div 10" "m div 10"] False have "n div 10 = m div 10" by simp
    with d show ?thesis by (metis div_mult_mod_eq)
  qed
qed

subsection \<open>More of \<open>strings\<close> and \<open>strconv\<close>\<close>

text \<open>\<open>strings.ReplaceAll\<close>: replacement of the non-overlapping occurrences of a non-empty text, from the left.\<close>

function replace_all :: "string \<Rightarrow> string \<Rightarrow> string \<Rightarrow> string" where
  "replace_all old new s =
     (if old = [] \<or> s = [] then s
      else if has_prefix s old then new @ replace_all old new (drop (length old) s)
      else hd s # replace_all old new (tl s))"
  by pat_completeness auto
termination
  by (relation "measure (\<lambda>(_, _, s). length s)") auto

declare replace_all.simps [simp del]

text \<open>\<open>strings.ToLower\<close> on ASCII letters.\<close>

definition to_lower :: "string \<Rightarrow> string" where
  "to_lower s = map (\<lambda>c. if CHR ''A'' \<le> c \<and> c \<le> CHR ''Z'' then char_of (of_char c + 32 :: nat) else c) s"

text \<open>\<open>strconv.ParseUint(s, 10, 64)\<close>.\<close>

definition digit_val :: "char \<Rightarrow> nat option" where
  "digit_val c = (let n = of_char c :: nat in if 48 \<le> n \<and> n \<le> 57 then Some (n - 48) else None)"

fun digits_val :: "nat \<Rightarrow> string \<Rightarrow> nat option" where
  "digits_val n [] = Some n"
| "digits_val n (c # s) = (case digit_val c of None \<Rightarrow> None | Some d \<Rightarrow> digits_val (10 * n + d) s)"

definition parse_uint64 :: "string \<Rightarrow> nat option" where
  "parse_uint64 s =
     (if s = [] then None
      else case digits_val 0 s of None \<Rightarrow> None | Some n \<Rightarrow> (if n < 2 ^ 64 then Some n else None))"

text \<open>\<open>strconv.Atoi\<close>: an optional sign and decimal digits, within 64 bits.\<close>

definition signed_digits :: "string \<Rightarrow> bool \<times> string" where
  "signed_digits s =
     (case s of
        [] \<Rightarrow> (False, [])
      | c # r \<Rightarrow> (if c = CHR ''-'' then (True, r) else if c = CHR ''+'' then (False, r) else (False, s)))"

definition int64_of :: "bool \<Rightarrow> nat \<Rightarrow> int option" where
  "int64_of neg n = (let v = (if neg then - int n else int n) in if - (2 ^ 63) \<le> v \<and> v < 2 ^ 63 then Some v else None)"

definition Atoi :: "string \<Rightarrow> int option" where
  "Atoi s =
     (let (neg, ds) = signed_digits s
      in if ds = [] then None else case digits_val 0 ds of None \<Rightarrow> None | Some n \<Rightarrow> int64_of neg n)"

lemma int64_of_range: "int64_of neg n = Some v \<Longrightarrow> - (2 ^ 63) \<le> v \<and> v < 2 ^ 63"
  by (auto simp: int64_of_def Let_def split: if_splits)

lemma Atoi_range: "Atoi s = Some v \<Longrightarrow> - (2 ^ 63) \<le> v \<and> v < 2 ^ 63"
  by (auto simp: Atoi_def Let_def split: prod.splits if_splits option.splits dest: int64_of_range)

text \<open>\<open>fmt.Sprintf("%d", n)\<close> on integers.\<close>

definition show_int :: "int \<Rightarrow> string" where
  "show_int n = (if n < 0 then CHR ''-'' # show_nat (nat (- n)) else show_nat (nat n))"

end
