(* ===== verification/Message.thy ===== *)
theory Message
  imports Prelude
begin

section \<open>The message IR (\<open>internal/message\<close>)\<close>

text \<open>
  The provider-agnostic conversation record of \<open>message.go\<close> and the chalkboard delta of
  \<open>patch.go\<close>: roles, content blocks, messages, the ceremonial/conversational distinction and
  the interrupt sentinel. The tag types of the source (\<open>Role\<close>, \<open>ContentType\<close>,
  \<open>StopReason\<close>, \<open>InterruptReason\<close>) are open string types whose zero value \<open>""\<close> occurs, so
  they stay strings here, with the source's constants as abbreviations.
\<close>

subsection \<open>Tags\<close>

type_synonym role = string

abbreviation RoleUser :: role where "RoleUser \<equiv> ''user''"
abbreviation RoleAssistant :: role where "RoleAssistant \<equiv> ''assistant''"
abbreviation RoleToolResult :: role where "RoleToolResult \<equiv> ''tool_result''"
abbreviation RoleSystem :: role where "RoleSystem \<equiv> ''system''"
abbreviation RoleSystemInterrupt :: role where "RoleSystemInterrupt \<equiv> ''system.interrupt''"
abbreviation RoleGenesis :: role where "RoleGenesis \<equiv> ''genesis''"

abbreviation InterruptFault :: string where "InterruptFault \<equiv> ''fault''"
abbreviation InterruptUserInterrupt :: string where "InterruptUserInterrupt \<equiv> ''user_interrupt''"
abbreviation InterruptAgentExit :: string where "InterruptAgentExit \<equiv> ''agent_exit''"

abbreviation StopEnd :: string where "StopEnd \<equiv> ''stop''"
abbreviation StopLength :: string where "StopLength \<equiv> ''length''"
abbreviation StopToolInvoke :: string where "StopToolInvoke \<equiv> ''tool_invoke''"
abbreviation StopError :: string where "StopError \<equiv> ''error''"
abbreviation StopAborted :: string where "StopAborted \<equiv> ''aborted''"

abbreviation ContentProse :: string where "ContentProse \<equiv> ''prose''"
abbreviation ContentImage :: string where "ContentImage \<equiv> ''image''"
abbreviation ContentThinking :: string where "ContentThinking \<equiv> ''thinking''"
abbreviation ContentToolInvoke :: string where "ContentToolInvoke \<equiv> ''tool_invoke''"
abbreviation ContentToolResult :: string where "ContentToolResult \<equiv> ''tool_result''"
abbreviation ContentInterrupt :: string where "ContentInterrupt \<equiv> ''interrupt''"

subsection \<open>Data\<close>

text \<open>
  A decoded JSON value (\<open>interface{}\<close> as \<open>encoding/json\<close> produces it); a number keeps its
  text. The members of an object are listed by ascending key, so equal Go maps are equal here
  (\<open>reflect.DeepEqual\<close> is equality).
\<close>

datatype json =
    JNull
  | JBool bool
  | JNum string
  | JStr string
  | JArr "json list"
  | JObj "(string \<times> json) list"

text \<open>A \<open>map[string]interface{}\<close> that may be nil.\<close>

type_synonym args = "(string \<times> json) list option"

record content =
  c_type :: string
  c_text :: string
  c_mime_type :: string
  c_data :: string
  c_tool_call_id :: string
  c_tool_name :: string
  c_arguments :: args
  c_is_error :: bool
  c_reason :: string

record usage =
  InputTokens :: int
  OutputTokens :: int
  CacheReadTokens :: int
  CacheWriteTokens :: int

record patch =
  p_set :: "(string, rawjson) fmap"
  p_remove :: "string list"

record message =
  m_role :: role
  m_content :: "content list"
  m_patches :: "patch list"
  m_usage :: "usage option"
  m_stop_reason :: string
  m_tool_call_id :: string
  m_tool_name :: string
  m_logical_time :: lt
  m_timestamp :: int

text \<open>The zero values \<open>Content{}\<close>, \<open>Patch{}\<close> and \<open>Message{}\<close>.\<close>

definition zero_content :: content where
  "zero_content = \<lparr>c_type = [], c_text = [], c_mime_type = [], c_data = [], c_tool_call_id = [],
     c_tool_name = [], c_arguments = None, c_is_error = False, c_reason = []\<rparr>"

definition zero_patch :: patch where
  "zero_patch = \<lparr>p_set = fmempty, p_remove = []\<rparr>"

definition zero_message :: message where
  "zero_message = \<lparr>m_role = [], m_content = [], m_patches = [], m_usage = None, m_stop_reason = [],
     m_tool_call_id = [], m_tool_name = [], m_logical_time = 0, m_timestamp = 0\<rparr>"

lemmas zero_defs = zero_content_def zero_patch_def zero_message_def

definition patch_IsEmpty :: "patch \<Rightarrow> bool" where
  "patch_IsEmpty p \<longleftrightarrow> fcard (fmdom (p_set p)) = 0 \<and> length (p_remove p) = 0"

lemma patch_IsEmpty_iff [simp]: "patch_IsEmpty p \<longleftrightarrow> p_set p = fmempty \<and> p_remove p = []"
  unfolding patch_IsEmpty_def fmdom_card_0 by simp

subsection \<open>Constructors\<close>

definition TextContent :: "string \<Rightarrow> content" where
  "TextContent text = zero_content\<lparr>c_type := ContentProse, c_text := text\<rparr>"

definition ImageContent :: "string \<Rightarrow> string \<Rightarrow> content" where
  "ImageContent mimeType data = zero_content\<lparr>c_type := ContentImage, c_mime_type := mimeType, c_data := data\<rparr>"

definition ToolResultContent :: "string \<Rightarrow> string \<Rightarrow> string \<Rightarrow> bool \<Rightarrow> content" where
  "ToolResultContent toolCallID toolName text isErr =
     zero_content\<lparr>c_type := ContentToolResult, c_tool_call_id := toolCallID, c_tool_name := toolName,
       c_text := text, c_is_error := isErr\<rparr>"

definition InterruptContent :: "string \<Rightarrow> string \<Rightarrow> string \<Rightarrow> string \<Rightarrow> content" where
  "InterruptContent toolCallID toolName reason text =
     zero_content\<lparr>c_type := ContentInterrupt, c_tool_call_id := toolCallID, c_tool_name := toolName,
       c_reason := reason, c_text := text\<rparr>"

lemmas content_ctors [go_defs] = TextContent_def ImageContent_def ToolResultContent_def InterruptContent_def zero_defs

subsection \<open>Structural and conversational messages\<close>

definition IsGenesis :: "message \<Rightarrow> bool" where
  "IsGenesis m \<longleftrightarrow> m_role m = RoleGenesis"

text \<open>The loop over the content of a user message, with its early returns.\<close>

fun user_marker_scan :: "content list \<Rightarrow> bool" where
  "user_marker_scan [] = True"
| "user_marker_scan (c # cs) =
     (if c_type c = ContentProse \<and> c_text c \<noteq> [] then False
      else if c_type c = ContentImage \<or> c_type c = ContentToolResult then False
      else user_marker_scan cs)"

definition IsCeremonial :: "message \<Rightarrow> bool" where
  "IsCeremonial m =
     (if m_role m = RoleGenesis then True
      else if m_role m = RoleUser then user_marker_scan (m_content m)
      else False)"

fun count_loop :: "int \<Rightarrow> message list \<Rightarrow> int" where
  "count_loop n [] = n"
| "count_loop n (m # ms) = count_loop (if \<not> IsCeremonial m then n + 1 else n) ms"

definition CountMessages :: "message list \<Rightarrow> int" where
  "CountMessages msgs = count_loop 0 msgs"

text \<open>A block that makes a user message a turn.\<close>

definition renderable :: "content \<Rightarrow> bool" where
  "renderable c \<longleftrightarrow> (c_type c = ContentProse \<and> c_text c \<noteq> [])
     \<or> c_type c = ContentImage \<or> c_type c = ContentToolResult"

lemma user_marker_scan_iff: "user_marker_scan cs \<longleftrightarrow> (\<forall>c \<in> set cs. \<not> renderable c)"
  by (induction cs) (auto simp: renderable_def)

lemma count_loop_eq: "count_loop n ms = n + int (length (filter (\<lambda>m. \<not> IsCeremonial m) ms))"
  by (induction ms arbitrary: n) auto

lemma CountMessages_eq: "CountMessages ms = int (length (filter (\<lambda>m. \<not> IsCeremonial m) ms))"
  by (simp add: CountMessages_def count_loop_eq)

lemma CountMessages_append: "CountMessages (xs @ ys) = CountMessages xs + CountMessages ys"
  by (simp add: CountMessages_eq)

subsection \<open>The interrupt sentinel\<close>

fun sentinel_blocks :: "string \<Rightarrow> string \<Rightarrow> content list \<Rightarrow> content list" where
  "sentinel_blocks reason text [] = []"
| "sentinel_blocks reason text (c # cs) =
     (if c_type c \<noteq> ContentToolInvoke then sentinel_blocks reason text cs
      else InterruptContent (c_tool_call_id c) (c_tool_name c) reason text # sentinel_blocks reason text cs)"

definition NewInterruptSentinel :: "string \<Rightarrow> string \<Rightarrow> content list \<Rightarrow> message" where
  "NewInterruptSentinel reason text calls =
     zero_message\<lparr>m_role := RoleSystemInterrupt, m_content := sentinel_blocks reason text calls\<rparr>"

definition IsInterruptSentinel :: "message \<Rightarrow> bool" where
  "IsInterruptSentinel m \<longleftrightarrow> m_role m = RoleSystemInterrupt"

fun dangling_ids :: "content list \<Rightarrow> string list" where
  "dangling_ids [] = []"
| "dangling_ids (c # cs) =
     (if c_type c = ContentInterrupt \<and> c_tool_call_id c \<noteq> [] then c_tool_call_id c # dangling_ids cs
      else dangling_ids cs)"

definition DanglingToolCallIDs :: "message \<Rightarrow> string list" where
  "DanglingToolCallIDs m = (if \<not> IsInterruptSentinel m then [] else dangling_ids (m_content m))"

lemma dangling_ids_sentinel:
  "dangling_ids (sentinel_blocks r t cs) =
     filter (\<lambda>i. i \<noteq> []) (map c_tool_call_id (filter (\<lambda>c. c_type c = ContentToolInvoke) cs))"
  by (induction cs) (auto simp: go_defs)

subsection \<open>Properties\<close>

text \<open>
  the interrupt sentinel is lossless on what the next turn needs: reading the dangling tool
  calls back from \<open>NewInterruptSentinel(reason, text, calls)\<close> gives the (non-empty) ids of
  exactly the tool invocations among \<open>calls\<close>, in order, whatever reason and text it carries, and
  the sentinel is never mistaken for a ceremonial message.
\<close>

theorem sentinel_roundtrip:
  "DanglingToolCallIDs (NewInterruptSentinel reason txt calls) =
     filter (\<lambda>i. i \<noteq> []) (map c_tool_call_id (filter (\<lambda>c. c_type c = ContentToolInvoke) calls))
   \<and> \<not> IsCeremonial (NewInterruptSentinel reason txt calls)"
  by (simp add: DanglingToolCallIDs_def NewInterruptSentinel_def IsInterruptSentinel_def IsCeremonial_def
      dangling_ids_sentinel zero_message_def)

text \<open>
  \<open>CountMessages\<close> counts the conversational messages: a genesis message never counts, a
  user message counts when one of its blocks is non-empty prose, an image or a tool result, and
  every other message counts.
\<close>

theorem CountMessages_spec:
  "CountMessages ms = int (length (filter (\<lambda>m. m_role m \<noteq> RoleGenesis
     \<and> (m_role m = RoleUser \<longrightarrow> (\<exists>c \<in> set (m_content m). renderable c))) ms))"
proof -
  have "\<not> IsCeremonial m \<longleftrightarrow> m_role m \<noteq> RoleGenesis
      \<and> (m_role m = RoleUser \<longrightarrow> (\<exists>c \<in> set (m_content m). renderable c))" for m
    by (auto simp: IsCeremonial_def user_marker_scan_iff)
  then show ?thesis by (simp add: CountMessages_eq)
qed

theorem CountMessages_spec_witness:
  "CountMessages [zero_message\<lparr>m_role := RoleGenesis\<rparr>, zero_message\<lparr>m_role := RoleUser\<rparr>,
     zero_message\<lparr>m_role := RoleUser, m_content := [TextContent ''hi'']\<rparr>,
     zero_message\<lparr>m_role := RoleAssistant\<rparr>] = 2"
  by (subst CountMessages_spec) (simp add: renderable_def go_defs)

end
