(* ===== verification/Json_Struct.thy ===== *)
theory Json_Struct
  imports Message
begin

section \<open>Structs and JSON values (\<open>encoding/json\<close>)\<close>

text \<open>
  How \<open>encoding/json\<close> fills the fields of a Go struct from a JSON object and writes them back.
  The bytes of a JSON text are read by a parameter \<open>parse\<close> and written by a parameter \<open>print\<close>
  of the definitions that need them; here are the rules of the second step, from a JSON value to
  typed fields.

  A member fills the field whose name it equals up to the case of ASCII letters, a missing
  member or \<open>null\<close> leaves the zero value, and a value of another type is an error. A number
  fills an \<open>int\<close> when it is written as a decimal integer of 64 bits.
\<close>

definition member :: "json \<Rightarrow> string \<Rightarrow> json option" where
  "member j name =
     (case j of
        JObj ms \<Rightarrow> map_option snd (find (\<lambda>kv. to_lower (fst kv) = to_lower name) (rev ms))
      | _ \<Rightarrow> None)"

text \<open>The object a struct is filled from; \<open>null\<close> fills nothing.\<close>

definition as_object :: "json option \<Rightarrow> json option" where
  "as_object v =
     (case v of None \<Rightarrow> Some (JObj []) | Some JNull \<Rightarrow> Some (JObj []) | Some (JObj ms) \<Rightarrow> Some (JObj ms) | Some _ \<Rightarrow> None)"

definition as_string :: "json option \<Rightarrow> string option" where
  "as_string v = (case v of None \<Rightarrow> Some [] | Some JNull \<Rightarrow> Some [] | Some (JStr s) \<Rightarrow> Some s | Some _ \<Rightarrow> None)"

definition as_int :: "json option \<Rightarrow> int option" where
  "as_int v = (case v of None \<Rightarrow> Some 0 | Some JNull \<Rightarrow> Some 0 | Some (JNum s) \<Rightarrow> Atoi s | Some _ \<Rightarrow> None)"

definition as_bool :: "json option \<Rightarrow> bool option" where
  "as_bool v = (case v of None \<Rightarrow> Some False | Some JNull \<Rightarrow> Some False | Some (JBool b) \<Rightarrow> Some b | Some _ \<Rightarrow> None)"

definition as_list :: "(json \<Rightarrow> 'a option) \<Rightarrow> json option \<Rightarrow> 'a list option" where
  "as_list f v =
     (case v of
        None \<Rightarrow> Some []
      | Some JNull \<Rightarrow> Some []
      | Some (JArr xs) \<Rightarrow> those (map f xs)
      | Some _ \<Rightarrow> None)"

text \<open>A \<open>string\<close> read on its own: \<open>var s string; json.Unmarshal(raw, &s)\<close>.\<close>

definition unmarshal_string :: "(rawjson \<Rightarrow> json option) \<Rightarrow> rawjson \<Rightarrow> string option" where
  "unmarshal_string parse raw = (case parse raw of None \<Rightarrow> None | Some j \<Rightarrow> as_string (Some j))"

definition unmarshal_int :: "(rawjson \<Rightarrow> json option) \<Rightarrow> rawjson \<Rightarrow> int option" where
  "unmarshal_int parse raw = (case parse raw of None \<Rightarrow> None | Some j \<Rightarrow> as_int (Some j))"

text \<open>
  Members that are written: \<open>omit\<close> is the rule of \<open>omitempty\<close>. The keys of an object are listed
  in ascending order.
\<close>

definition omit :: "bool \<Rightarrow> string \<Rightarrow> json \<Rightarrow> (string \<times> json) list" where
  "omit zero k v = (if zero then [] else [(k, v)])"

lemma member_simps [simp]:
  "member (JObj []) k = None"
  "member (JObj (ms @ [kv])) k = (if to_lower (fst kv) = to_lower k then Some (snd kv) else member (JObj ms) k)"
  by (simp_all add: member_def)

lemma member_Cons:
  "member (JObj (kv # ms)) k =
     (case member (JObj ms) k of Some v \<Rightarrow> Some v | None \<Rightarrow> if to_lower (fst kv) = to_lower k then Some (snd kv) else None)"
  by (induction ms rule: rev_induct) (auto simp: member_def split: option.splits)

lemma member_append:
  "member (JObj (xs @ ys)) k = (case member (JObj ys) k of Some v \<Rightarrow> Some v | None \<Rightarrow> member (JObj xs) k)"
  by (induction ys rule: rev_induct) (auto simp flip: append_assoc split: option.splits)

lemma member_omit: "member (JObj (omit e n v)) k = (if \<not> e \<and> to_lower n = to_lower k then Some v else None)"
  by (simp add: omit_def member_def)

lemmas struct_simps = as_object_def as_string_def as_int_def as_bool_def as_list_def

lemma as_string_omit [simp]: "as_string (if s \<noteq> [] then Some (JStr s) else None) = Some s"
  by (simp add: as_string_def)

subsection \<open>Reading back a printed integer\<close>

lemma digit_val_char: "d < 10 \<Longrightarrow> digit_val (char_of (48 + d)) = Some d"
  by (simp add: digit_val_def Let_def)

lemma digits_val_append: "digits_val n (s @ t) = (case digits_val n s of None \<Rightarrow> None | Some m \<Rightarrow> digits_val m t)"
  by (induction n s rule: digits_val.induct) (auto split: option.splits)

lemma digits_val_show: "digits_val 0 (show_nat n) = Some n"
proof (induction n rule: less_induct)
  case (less n)
  show ?case
  proof (cases "n < 10")
    case True
    then show ?thesis by (subst show_nat.simps) (simp add: digit_val_char)
  next
    case False
    then have "digits_val 0 (show_nat (n div 10)) = Some (n div 10)" by (intro less.IH) simp
    with False show ?thesis by (subst show_nat.simps) (simp add: digits_val_append digit_val_char)
  qed
qed

lemma show_nat_head: "show_nat n = c # s \<Longrightarrow> c \<noteq> CHR ''-'' \<and> c \<noteq> CHR ''+''"
proof -
  assume "show_nat n = c # s"
  with digits_val_show [of n] have "digit_val c \<noteq> None" by (auto split: option.splits)
  then show ?thesis by (auto simp: digit_val_def Let_def split: if_splits)
qed

lemma Atoi_show_int: "- (2 ^ 63) \<le> i \<Longrightarrow> i < 2 ^ 63 \<Longrightarrow> Atoi (show_int i) = Some i"
proof -
  assume r: "- (2 ^ 63) \<le> i" "i < 2 ^ 63"
  have "signed_digits (show_nat n) = (False, show_nat n)" for n
    using show_nat_head [of n] by (auto simp: signed_digits_def split: list.splits)
  moreover have "signed_digits (CHR ''-'' # s) = (True, s)" for s by (simp add: signed_digits_def)
  ultimately show ?thesis using r
    by (simp add: Atoi_def show_int_def digits_val_show show_nat_ne int64_of_def Let_def)
qed

subsection \<open>A small concrete codec\<close>

text \<open>
  A codec for finitely many values, for the concrete instances of statements that take a codec:
  the \<open>i\<close>-th value is written as \<open>#\<close> followed by \<open>i\<close> marks; further texts are listed with
  the values they stand for.
\<close>

definition table_print :: "json list \<Rightarrow> json \<Rightarrow> rawjson" where
  "table_print js j = CHR ''#'' # replicate (length (takeWhile (\<lambda>x. x \<noteq> j) js)) (CHR ''x'')"

definition table_parse :: "json list \<Rightarrow> (rawjson \<times> json) list \<Rightarrow> rawjson \<Rightarrow> json option" where
  "table_parse js texts s =
     (case s of
        [] \<Rightarrow> None
      | c # r \<Rightarrow> (if c = CHR ''#'' then (if length r < length js then Some (js ! length r) else None) else map_of texts s))"

lemma table_codec: "j \<in> set js \<Longrightarrow> table_parse js texts (table_print js j) = Some j"
proof -
  assume j: "j \<in> set js"
  let ?n = "length (takeWhile (\<lambda>x. x \<noteq> j) js)"
  have n: "?n < length js" using j by (metis (mono_tags, lifting) length_takeWhile_le nat_less_le takeWhile_eq_all_conv takeWhile_eq_take take_all_iff)
  with nth_length_takeWhile [of "\<lambda>x. x \<noteq> j" js] show ?thesis by (simp add: table_parse_def table_print_def)
qed

lemma table_print_ne [simp]: "table_print js j \<noteq> []"
  by (simp add: table_print_def)

end
