(* ===== verification/Store_Log.thy ===== *)
theory Store_Log
  imports Prelude
begin

section \<open>Append-only logs (\<open>internal/store\<close>: \<open>log.go\<close>, \<open>mem_log.go\<close>, \<open>cached_log.go\<close>)\<close>

text \<open>
  The \<open>Log\<close> interface of the store and its two in-memory implementations: \<open>MemLog\<close>, which
  keeps its rows, and \<open>cachedLog\<close>, a read-through view over another log. The rows carry the
  log's own time \<open>LT\<close> and the main-log time \<open>FigaroLT\<close>; the paged reads binary-search on
  \<open>FigaroLT\<close>. The mutexes of the source make every operation atomic, so an operation is a
  function on the state.
\<close>

record 'a log_entry =
  LT :: lt
  FigaroLT :: lt
  Payload :: 'a
  Fingerprint :: string

text \<open>A Go run-time panic.\<close>

datatype runtime_panic = SliceBoundsOutOfRange

subsection \<open>Paged reads\<close>

text \<open>The backward scan of \<open>readPage\<close>: newest first, at most \<open>n\<close> rows below \<open>before\<close>.\<close>

fun page_back :: "lt \<Rightarrow> nat \<Rightarrow> 'a log_entry list \<Rightarrow> 'a log_entry list" where
  "page_back before 0 rows = []"
| "page_back before (Suc n) [] = []"
| "page_back before (Suc n) (r # rs) =
     (if FigaroLT r < before then r # page_back before n rs else page_back before (Suc n) rs)"

text \<open>
  \<open>rows[start:end]\<close> with \<open>end\<close> computed as \<open>start + n\<close> in 64-bit arithmetic: a wrapped \<open>end\<close>
  below \<open>start\<close> makes the slice expression panic.
\<close>

definition slice_from :: "'a log_entry list \<Rightarrow> nat \<Rightarrow> int \<Rightarrow> runtime_panic + 'a log_entry list" where
  "slice_from rows start n =
     (let end0 = int (length rows);
          end1 = (if n > 0 \<and> wrap64 (int start + n) < end0 then wrap64 (int start + n) else end0)
      in if end1 < int start then Inl SliceBoundsOutOfRange
         else Inr (take (nat end1 - start) (drop start rows)))"

definition readPage :: "'a log_entry list \<Rightarrow> lt \<Rightarrow> lt \<Rightarrow> int \<Rightarrow> runtime_panic + ('a log_entry list \<times> nat)" where
  "readPage rows from before n =
     (let total = length rows
      in if before > 0 then
           (if n \<le> 0 then Inr ([], total) else Inr (rev (page_back before (nat n) (rev rows)), total))
         else
           (let start = (if from > 0 then sort_search (length rows) (\<lambda>i. from \<le> FigaroLT (rows ! i)) else 0)
            in case slice_from rows start n of Inl e \<Rightarrow> Inl e | Inr out \<Rightarrow> Inr (out, total)))"

text \<open>\<open>ReadFrom\<close> of both logs.\<close>

definition readFrom :: "'a log_entry list \<Rightarrow> lt \<Rightarrow> int \<Rightarrow> runtime_panic + 'a log_entry list" where
  "readFrom rows figaroLT n =
     slice_from rows (sort_search (length rows) (\<lambda>i. figaroLT \<le> FigaroLT (rows ! i))) n"

text \<open>\<open>TailSnapshot\<close> of both logs and the fallback in \<open>log.go\<close>.\<close>

definition tailSnapshot :: "'a log_entry list \<Rightarrow> int \<Rightarrow> 'a log_entry list" where
  "tailSnapshot rows n =
     (if n \<le> 0 \<or> length rows = 0 then []
      else let n' = (if n > int (length rows) then int (length rows) else n)
           in drop (length rows - nat n') rows)"

lemma page_back_eq: "page_back b n rs = take n (filter (\<lambda>r. FigaroLT r < b) rs)"
  by (induction b n rs rule: page_back.induct) auto

lemma rev_take_rev: "rev (take n (rev xs)) = last_n n xs"
  by (simp add: last_n_def take_rev)

lemma readPage_before:
  "0 < b \<Longrightarrow> 0 < n \<Longrightarrow>
     readPage rows from b n = Inr (last_n (nat n) (filter (\<lambda>r. FigaroLT r < b) rows), length rows)"
  by (simp add: readPage_def Let_def page_back_eq rev_take_rev flip: rev_filter)

lemma slice_from_ok:
  assumes "start \<le> length rows" and "int (length rows) + n < 2 ^ 63"
  shows "slice_from rows start n = Inr (if n > 0 then take (nat n) (drop start rows) else drop start rows)"
proof -
  have "wrap64 (int start + n) = int start + n" if "n > 0" using assms that by (intro wrap64_id) auto
  with assms show ?thesis by (auto simp: slice_from_def Let_def nat_add_distrib)
qed

lemma readFrom_ok:
  assumes "sorted (map FigaroLT rows)" and "int (length rows) + n < 2 ^ 63"
  shows "readFrom rows k n =
    Inr (let sel = filter (\<lambda>e. k \<le> FigaroLT e) rows in if n > 0 then take (nat n) sel else sel)"
  unfolding readFrom_def
  by (simp add: slice_from_ok [OF sort_search_le assms(2)] sort_search_sorted(2) [OF assms(1)])

lemma readPage_from:
  assumes "sorted (map FigaroLT rows)" and "int (length rows) + n < 2 ^ 63"
  shows "readPage rows from 0 n =
    Inr (let sel = filter (\<lambda>e. from \<le> FigaroLT e) rows in if n > 0 then take (nat n) sel else sel, length rows)"
  unfolding readPage_def
  using slice_from_ok [OF sort_search_le assms(2)] slice_from_ok [of 0 rows n] assms(2)
  by (simp add: sort_search_sorted(2) [OF assms(1)] Let_def)

lemma tailSnapshot_eq: "tailSnapshot rows n = last_n (nat n) rows"
  by (auto simp: tailSnapshot_def last_n_def)

text \<open>
  Backward paging: the client asks for the page before the first row of the page it holds.
  With strictly increasing \<open>FigaroLT\<close> the pages tile the log.
\<close>

fun pages_back :: "nat \<Rightarrow> nat \<Rightarrow> 'a log_entry list \<Rightarrow> lt \<Rightarrow> 'a log_entry list" where
  "pages_back 0 n rows b = []"
| "pages_back (Suc fuel) n rows b =
     (case readPage rows 0 b (int n) of
        Inl _ \<Rightarrow> []
      | Inr (pg, _) \<Rightarrow> (case pg of [] \<Rightarrow> [] | e # _ \<Rightarrow> pages_back fuel n rows (FigaroLT e) @ pg))"

lemma filter_below_split:
  assumes "sorted_wrt (<) (map FigaroLT rows)"
    and "last_n n (filter (\<lambda>r. FigaroLT r < b) rows) = e # es"
  shows "filter (\<lambda>r. FigaroLT r < b) rows = filter (\<lambda>r. FigaroLT r < FigaroLT e) rows @ e # es"
proof -
  let ?F = "filter (\<lambda>r. FigaroLT r < b) rows"
  have srt: "sorted_wrt (<) (map FigaroLT ?F)"
    using assms(1) by (simp add: sorted_wrt_map sorted_wrt_filter)
  obtain zs where F: "?F = zs @ e # es"
    using assms(2) suffix_last_n [of n ?F] by (auto simp: suffix_def)
  have "e \<in> set ?F" unfolding F by simp
  then have "FigaroLT e < b" by simp
  then have "filter (\<lambda>r. FigaroLT r < FigaroLT e) rows = filter (\<lambda>r. FigaroLT r < FigaroLT e) ?F"
    by (simp add: conj_commute) (rule filter_cong, auto)
  also have "\<dots> = zs" using srt unfolding F by (auto simp: sorted_wrt_append filter_empty_conv intro!: filter_True)
  finally show ?thesis using F by simp
qed

lemma pages_back_all:
  assumes "sorted_wrt (<) (map FigaroLT rows)" and "0 < n" and "0 < b"
    and "\<forall>r \<in> set rows. 0 < FigaroLT r"
    and "length (filter (\<lambda>r. FigaroLT r < b) rows) < fuel"
  shows "pages_back fuel n rows b = filter (\<lambda>r. FigaroLT r < b) rows"
  using assms(3,5)
proof (induction fuel arbitrary: b)
  case (Suc fuel)
  let ?F = "filter (\<lambda>r. FigaroLT r < b) rows"
  show ?case
  proof (cases "last_n n ?F")
    case Nil
    then have "min n (length ?F) = 0" by (metis length_last_n list.size(3))
    with assms(2) Suc.prems Nil show ?thesis by (simp add: readPage_before)
  next
    case (Cons e es)
    note split = filter_below_split [OF assms(1) Cons]
    have "e \<in> set ?F" unfolding split by simp
    then have "e \<in> set rows" by simp
    then have "0 < FigaroLT e" using assms(4) by blast
    moreover have "length (filter (\<lambda>r. FigaroLT r < FigaroLT e) rows) < fuel"
      using Suc.prems(2) split by simp
    ultimately have "pages_back fuel n rows (FigaroLT e) = filter (\<lambda>r. FigaroLT r < FigaroLT e) rows"
      by (rule Suc.IH)
    with Cons split assms(2) Suc.prems show ?thesis by (simp add: readPage_before)
  qed
qed simp

subsection \<open>The contract of a log\<close>

text \<open>
  What the agent, the projections and the cache rely on: appending adds one row at the end and
  keeps its payload and fingerprint, a lookup returns the newest row with the key, the tail is
  the last row, clearing empties the log. An operation that fails returns its error.
\<close>

locale log_store =
  fixes log_read :: "'s \<Rightarrow> 'a log_entry list"
    and log_append :: "'s \<Rightarrow> 'a log_entry \<Rightarrow> 'err + ('a log_entry \<times> 's)"
    and log_lookup :: "'s \<Rightarrow> lt \<Rightarrow> 'a log_entry option"
    and log_peek :: "'s \<Rightarrow> 'a log_entry option"
    and log_clear :: "'s \<Rightarrow> 'err + 's"
    and log_inv :: "'s \<Rightarrow> bool"
  assumes append_inv: "log_inv s \<Longrightarrow> log_append s e = Inr (e', s') \<Longrightarrow> log_inv s'"
    and append_read: "log_inv s \<Longrightarrow> log_append s e = Inr (e', s') \<Longrightarrow> log_read s' = log_read s @ [e']"
    and append_payload: "log_inv s \<Longrightarrow> log_append s e = Inr (e', s') \<Longrightarrow>
      Payload e' = Payload e \<and> Fingerprint e' = Fingerprint e"
    and lookup_read: "log_inv s \<Longrightarrow> log_lookup s k = find (\<lambda>e. FigaroLT e = k) (rev (log_read s))"
    and peek_read: "log_inv s \<Longrightarrow> log_peek s = (if log_read s = [] then None else Some (last (log_read s)))"
    and clear_inv: "log_inv s \<Longrightarrow> log_clear s = Inr s' \<Longrightarrow> log_inv s'"
    and clear_read: "log_inv s \<Longrightarrow> log_clear s = Inr s' \<Longrightarrow> log_read s' = []"
begin

text \<open>A sequence of appends; an append that fails leaves the log as it was.\<close>

fun append_all :: "'s \<Rightarrow> 'a log_entry list \<Rightarrow> 's" where
  "append_all s [] = s"
| "append_all s (e # es) =
     (case log_append s e of Inl _ \<Rightarrow> append_all s es | Inr (_, s') \<Rightarrow> append_all s' es)"

lemma append_all_inv: "log_inv s \<Longrightarrow> log_inv (append_all s es)"
  by (induction es arbitrary: s) (auto split: sum.splits intro: append_inv)

text \<open>Rows are never rewritten: what was read before is a prefix of what is read later.\<close>

lemma append_only: "log_inv s \<Longrightarrow> prefix (log_read s) (log_read (append_all s es))"
proof (induction es arbitrary: s)
  case (Cons e es)
  show ?case
  proof (cases "log_append s e")
    case (Inr r)
    obtain e' s' where r: "r = (e', s')" by (cases r)
    from Cons.prems Inr r have "prefix (log_read s) (log_read s')"
      by (simp add: append_read)
    moreover have "prefix (log_read s') (log_read (append_all s' es))"
      using Cons.IH append_inv [OF Cons.prems] Inr r by blast
    ultimately show ?thesis by (simp add: Inr r)
  qed (simp add: Cons)
qed simp

lemma append_peek: "log_inv s \<Longrightarrow> log_append s e = Inr (e', s') \<Longrightarrow> log_peek s' = Some e'"
  by (simp add: peek_read append_inv append_read)

lemma append_lookup:
  "log_inv s \<Longrightarrow> log_append s e = Inr (e', s') \<Longrightarrow>
     log_lookup s' k = (if FigaroLT e' = k then Some e' else log_lookup s k)"
  by (simp add: lookup_read append_inv append_read)

end

subsection \<open>The index from main time to row\<close>

text \<open>Both logs keep a map from \<open>FigaroLT\<close> to the newest row that carries it.\<close>

definition fk_index :: "'a log_entry list \<Rightarrow> (lt, nat) fmap" where
  "fk_index rows = fold (\<lambda>i m. fmupd (FigaroLT (rows ! i)) i m) [0..<length rows] fmempty"

lemma fk_index_Nil [simp]: "fk_index [] = fmempty"
  by (simp add: fk_index_def)

lemma fk_index_snoc [simp]: "fk_index (rows @ [e]) = fmupd (FigaroLT e) (length rows) (fk_index rows)"
proof -
  have "fold (\<lambda>i m. fmupd (FigaroLT ((rows @ [e]) ! i)) i m) [0..<length rows] fmempty = fk_index rows"
    unfolding fk_index_def by (intro fold_cong) (auto simp: nth_append)
  then show ?thesis by (simp add: fk_index_def)
qed

lemma fk_index_lookup:
  "map_option (\<lambda>i. rows ! i) (fmlookup (fk_index rows) k) = find (\<lambda>e. FigaroLT e = k) (rev rows)"
  and fk_index_bound: "fmlookup (fk_index rows) k = Some i \<Longrightarrow> i < length rows"
proof (induction rows arbitrary: i rule: rev_induct)
  case (snoc e rows)
  { case 1
    show ?case
      using snoc(1,2) by (auto simp: nth_append simp flip: snoc(1) split: option.splits intro!: option.map_cong0)
  next
    case 2
    then show ?case using snoc(2) by (auto split: if_splits simp: less_SucI)
  }
qed auto

subsection \<open>\<open>MemLog\<close>\<close>

record 'a mem_log =
  ml_entries :: "'a log_entry list"
  ml_byFigaroLT :: "(lt, nat) fmap"
  ml_nextLT :: lt

definition NewMemLog :: "'a mem_log" where
  "NewMemLog = \<lparr>ml_entries = [], ml_byFigaroLT = fmempty, ml_nextLT = 1\<rparr>"

definition ml_Read :: "'a mem_log \<Rightarrow> 'a log_entry list" where
  "ml_Read s = ml_entries s"

definition ml_Len :: "'a mem_log \<Rightarrow> nat" where
  "ml_Len s = length (ml_entries s)"

definition ml_TailSnapshot :: "'a mem_log \<Rightarrow> int \<Rightarrow> 'a log_entry list" where
  "ml_TailSnapshot s n = tailSnapshot (ml_entries s) n"

definition ml_ReadFrom :: "'a mem_log \<Rightarrow> lt \<Rightarrow> int \<Rightarrow> runtime_panic + 'a log_entry list" where
  "ml_ReadFrom s figaroLT n = readFrom (ml_entries s) figaroLT n"

definition ml_ReadPage :: "'a mem_log \<Rightarrow> lt \<Rightarrow> lt \<Rightarrow> int \<Rightarrow> runtime_panic + ('a log_entry list \<times> nat)" where
  "ml_ReadPage s from before n = readPage (ml_entries s) from before n"

definition ml_Lookup :: "'a mem_log \<Rightarrow> lt \<Rightarrow> 'a log_entry option" where
  "ml_Lookup s figaroLT =
     (case fmlookup (ml_byFigaroLT s) figaroLT of None \<Rightarrow> None | Some idx \<Rightarrow> Some (ml_entries s ! idx))"

definition ml_PeekTail :: "'a mem_log \<Rightarrow> 'a log_entry option" where
  "ml_PeekTail s = (if length (ml_entries s) = 0 then None else Some (ml_entries s ! (length (ml_entries s) - 1)))"

definition ml_appendLocked :: "'a mem_log \<Rightarrow> 'a log_entry \<Rightarrow> 'a log_entry \<times> 'a mem_log" where
  "ml_appendLocked s e =
     (let e1 = e\<lparr>LT := ml_nextLT s\<rparr>;
          e2 = (if FigaroLT e1 = 0 then e1\<lparr>FigaroLT := LT e1\<rparr> else e1);
          idx = length (ml_entries s)
      in (e2, s\<lparr>ml_entries := ml_entries s @ [e2],
               ml_byFigaroLT := fmupd (FigaroLT e2) idx (ml_byFigaroLT s),
               ml_nextLT := ml_nextLT s + 1\<rparr>))"

definition ml_Append :: "'a mem_log \<Rightarrow> 'a log_entry \<Rightarrow> 'err + ('a log_entry \<times> 'a mem_log)" where
  "ml_Append s e = Inr (ml_appendLocked s e)"

definition ml_Clear :: "'a mem_log \<Rightarrow> 'err + 'a mem_log" where
  "ml_Clear s = Inr (s\<lparr>ml_entries := [], ml_byFigaroLT := fmempty, ml_nextLT := 1\<rparr>)"

text \<open>The invariant: times are consecutive from 1 and the index is the index of the rows.\<close>

definition ml_wf :: "'a mem_log \<Rightarrow> bool" where
  "ml_wf s \<longleftrightarrow> ml_nextLT s = length (ml_entries s) + 1
     \<and> map LT (ml_entries s) = [1..<length (ml_entries s) + 1]
     \<and> ml_byFigaroLT s = fk_index (ml_entries s)"

lemma ml_wf_new [wf_intros]: "ml_wf NewMemLog"
  by (simp add: ml_wf_def NewMemLog_def)

lemma ml_wf_append [wf_intros]: "ml_wf s \<Longrightarrow> ml_wf (snd (ml_appendLocked s e))"
  by (auto simp: ml_wf_def ml_appendLocked_def Let_def)

lemma ml_append_read: "ml_entries (snd (ml_appendLocked s e)) = ml_entries s @ [fst (ml_appendLocked s e)]"
  by (simp add: ml_appendLocked_def Let_def)

lemma ml_append_payload:
  "Payload (fst (ml_appendLocked s e)) = Payload e" "Fingerprint (fst (ml_appendLocked s e)) = Fingerprint e"
  by (simp_all add: ml_appendLocked_def Let_def)

lemma ml_lookup_eq:
  assumes "ml_wf s"
  shows "ml_Lookup s k = find (\<lambda>e. FigaroLT e = k) (rev (ml_entries s))"
proof -
  have "ml_Lookup s k = map_option (\<lambda>i. ml_entries s ! i) (fmlookup (fk_index (ml_entries s)) k)"
    using assms by (auto simp: ml_Lookup_def ml_wf_def split: option.splits)
  then show ?thesis by (simp only: fk_index_lookup)
qed

interpretation memlog: log_store ml_Read ml_Append ml_Lookup ml_PeekTail ml_Clear ml_wf
proof
  fix s :: "'a mem_log" and e e' s'
  assume wf: "ml_wf s"
  { assume "ml_Append s e = Inr (e', s')"
    then have eq: "e' = fst (ml_appendLocked s e)" "s' = snd (ml_appendLocked s e)"
      by (simp_all add: ml_Append_def prod_eq_iff)
    show "ml_wf s'" using wf by (simp add: eq wf_intros)
    show "ml_Read s' = ml_Read s @ [e']" by (simp add: eq ml_Read_def ml_append_read)
    show "Payload e' = Payload e \<and> Fingerprint e' = Fingerprint e" by (simp add: eq ml_append_payload) }
  show "ml_Lookup s k = find (\<lambda>e. FigaroLT e = k) (rev (ml_Read s))" for k
    using wf by (simp add: ml_lookup_eq ml_Read_def)
  show "ml_PeekTail s = (if ml_Read s = [] then None else Some (last (ml_Read s)))"
    by (simp add: ml_PeekTail_def ml_Read_def last_conv_nth)
  { fix s'' assume "ml_Clear s = Inr s''"
    then show "ml_wf s''" "ml_Read s'' = []" by (auto simp: ml_Clear_def ml_wf_def ml_Read_def) }
qed

subsection \<open>\<open>cachedLog\<close>\<close>

text \<open>
  The cache holds the inner log, a copy of its rows and the index of the copy. The operations
  take the inner log's operations as arguments.
\<close>

record ('s, 'a) cached_log =
  cl_inner :: 's
  cl_rows :: "'a log_entry list"
  cl_byFK :: "(lt, nat) fmap"

fun cl_load :: "('s, 'a) cached_log \<Rightarrow> 'a log_entry list \<Rightarrow> ('s, 'a) cached_log" where
  "cl_load c [] = c"
| "cl_load c (e # es) =
     cl_load (c\<lparr>cl_byFK := fmupd (FigaroLT e) (length (cl_rows c)) (cl_byFK c), cl_rows := cl_rows c @ [e]\<rparr>) es"

definition newCachedLog :: "('s \<Rightarrow> 'a log_entry list) \<Rightarrow> 's \<Rightarrow> ('s, 'a) cached_log" where
  "newCachedLog i_read inner = cl_load \<lparr>cl_inner = inner, cl_rows = [], cl_byFK = fmempty\<rparr> (i_read inner)"

definition cl_Read :: "('s, 'a) cached_log \<Rightarrow> 'a log_entry list" where
  "cl_Read c = cl_rows c"

definition cl_Len :: "('s, 'a) cached_log \<Rightarrow> nat" where
  "cl_Len c = length (cl_rows c)"

definition cl_TailSnapshot :: "('s, 'a) cached_log \<Rightarrow> int \<Rightarrow> 'a log_entry list" where
  "cl_TailSnapshot c n = tailSnapshot (cl_rows c) n"

definition cl_ReadFrom :: "('s, 'a) cached_log \<Rightarrow> lt \<Rightarrow> int \<Rightarrow> runtime_panic + 'a log_entry list" where
  "cl_ReadFrom c figaroLT n = readFrom (cl_rows c) figaroLT n"

definition cl_ReadPage :: "('s, 'a) cached_log \<Rightarrow> lt \<Rightarrow> lt \<Rightarrow> int \<Rightarrow> runtime_panic + ('a log_entry list \<times> nat)" where
  "cl_ReadPage c from before n = readPage (cl_rows c) from before n"

definition cl_Lookup :: "('s, 'a) cached_log \<Rightarrow> lt \<Rightarrow> 'a log_entry option" where
  "cl_Lookup c figaroLT = (case fmlookup (cl_byFK c) figaroLT of Some i \<Rightarrow> Some (cl_rows c ! i) | None \<Rightarrow> None)"

definition cl_PeekTail :: "('s, 'a) cached_log \<Rightarrow> 'a log_entry option" where
  "cl_PeekTail c = (if length (cl_rows c) = 0 then None else Some (cl_rows c ! (length (cl_rows c) - 1)))"

definition cl_Append ::
  "('s \<Rightarrow> 'a log_entry \<Rightarrow> 'err + ('a log_entry \<times> 's)) \<Rightarrow> ('s, 'a) cached_log \<Rightarrow> 'a log_entry
     \<Rightarrow> 'err + ('a log_entry \<times> ('s, 'a) cached_log)" where
  "cl_Append i_append c e =
     (case i_append (cl_inner c) e of
        Inl err \<Rightarrow> Inl err
      | Inr (stamped, inner') \<Rightarrow>
          Inr (stamped, c\<lparr>cl_inner := inner',
                          cl_byFK := fmupd (FigaroLT stamped) (length (cl_rows c)) (cl_byFK c),
                          cl_rows := cl_rows c @ [stamped]\<rparr>))"

definition cl_Clear :: "('s \<Rightarrow> 'err + 's) \<Rightarrow> ('s, 'a) cached_log \<Rightarrow> 'err + ('s, 'a) cached_log" where
  "cl_Clear i_clear c =
     (case i_clear (cl_inner c) of
        Inl err \<Rightarrow> Inl err
      | Inr inner' \<Rightarrow> Inr (c\<lparr>cl_inner := inner', cl_rows := [], cl_byFK := fmempty\<rparr>))"

text \<open>Coherence: the rows are the inner log's rows and the index is theirs.\<close>

definition cl_coherent ::
  "('s \<Rightarrow> 'a log_entry list) \<Rightarrow> ('s \<Rightarrow> bool) \<Rightarrow> ('s, 'a) cached_log \<Rightarrow> bool" where
  "cl_coherent i_read i_inv c \<longleftrightarrow>
     i_inv (cl_inner c) \<and> cl_rows c = i_read (cl_inner c) \<and> cl_byFK c = fk_index (cl_rows c)"

lemma cl_load_eq:
  "cl_byFK c = fk_index (cl_rows c) \<Longrightarrow>
     cl_load c es = c\<lparr>cl_rows := cl_rows c @ es, cl_byFK := fk_index (cl_rows c @ es)\<rparr>"
proof (induction es arbitrary: c)
  case (Cons e es)
  then show ?case using Cons.IH [of "c\<lparr>cl_byFK := fmupd (FigaroLT e) (length (cl_rows c)) (cl_byFK c), cl_rows := cl_rows c @ [e]\<rparr>"]
    by (simp add: Cons.prems)
qed simp

lemma newCachedLog_coherent [wf_intros]: "i_inv inner \<Longrightarrow> cl_coherent i_read i_inv (newCachedLog i_read inner)"
  by (simp add: newCachedLog_def cl_load_eq cl_coherent_def)

text \<open>A cache over any log that keeps the contract keeps it too.\<close>

locale inner_log = log_store

sublocale inner_log \<subseteq> cached: log_store cl_Read "cl_Append log_append" cl_Lookup cl_PeekTail
  "cl_Clear log_clear" "cl_coherent log_read log_inv"
proof
  fix c :: "('a, 'b) cached_log" and e e' c'
  assume coh: "cl_coherent log_read log_inv c"
  then have inv: "log_inv (cl_inner c)" and rows: "cl_rows c = log_read (cl_inner c)"
    and idx: "cl_byFK c = fk_index (cl_rows c)" by (auto simp: cl_coherent_def)
  { assume "cl_Append log_append c e = Inr (e', c')"
    then obtain i' where app: "log_append (cl_inner c) e = Inr (e', i')"
      and c': "c' = c\<lparr>cl_inner := i', cl_byFK := fmupd (FigaroLT e') (length (cl_rows c)) (cl_byFK c),
        cl_rows := cl_rows c @ [e']\<rparr>"
      by (auto simp: cl_Append_def split: sum.splits)
    show "cl_coherent log_read log_inv c'"
      using append_inv [OF inv app] append_read [OF inv app] rows idx by (simp add: c' cl_coherent_def)
    show "cl_Read c' = cl_Read c @ [e']" by (simp add: c' cl_Read_def)
    show "Payload e' = Payload e \<and> Fingerprint e' = Fingerprint e" by (rule append_payload [OF inv app]) }
  show "cl_Lookup c k = find (\<lambda>e. FigaroLT e = k) (rev (cl_Read c))" for k
    by (simp add: cl_Lookup_def cl_Read_def idx flip: fk_index_lookup split: option.splits)
  show "cl_PeekTail c = (if cl_Read c = [] then None else Some (last (cl_Read c)))"
    by (simp add: cl_PeekTail_def cl_Read_def last_conv_nth)
  { fix c'' assume "cl_Clear log_clear c = Inr c''"
    then obtain i' where clr: "log_clear (cl_inner c) = Inr i'"
      and c'': "c'' = c\<lparr>cl_inner := i', cl_rows := [], cl_byFK := fmempty\<rparr>"
      by (auto simp: cl_Clear_def split: sum.splits)
    show "cl_coherent log_read log_inv c''"
      using clear_inv [OF inv clr] clear_read [OF inv clr] by (simp add: c'' cl_coherent_def)
    show "cl_Read c'' = []" by (simp add: c'' cl_Read_def) }
qed

interpretation memcache: inner_log ml_Read ml_Append ml_Lookup ml_PeekTail ml_Clear ml_wf
  by unfold_locales

subsection \<open>Properties\<close>

text \<open>
  a \<open>MemLog\<close> stays well-formed under any sequence of appends (own times consecutive from 1,
  the index pointing at the newest row of each main time) and never rewrites a row: what was
  read before is a prefix of what is read later.
\<close>

theorem MemLog_append_only:
  fixes es :: "'a log_entry list"
  assumes "ml_wf s"
  defines "s' \<equiv> foldl (\<lambda>m e. snd (ml_appendLocked m e)) s es"
  shows "ml_wf s' \<and> prefix (ml_Read s) (ml_Read s') \<and> map LT (ml_Read s') = [1..<length (ml_Read s) + length es + 1]
    \<and> map Payload (ml_Read s') = map Payload (ml_Read s) @ map Payload es"
proof -
  have main: "ml_wf s' \<and> prefix (ml_Read s) (ml_Read s')
      \<and> map Payload (ml_Read s') = map Payload (ml_Read s) @ map Payload es"
    unfolding s'_def
  proof (induction es rule: rev_induct)
    case (snoc e es)
    then show ?case by (simp add: ml_Read_def ml_append_read ml_append_payload wf_intros)
  qed (simp add: assms(1))
  then have "length (ml_Read s') = length (ml_Read s) + length es" by (metis length_append length_map)
  with main show ?thesis by (simp add: ml_wf_def ml_Read_def)
qed

theorem MemLog_append_only_witness:
  "map LT (ml_Read (foldl (\<lambda>m e. snd (ml_appendLocked m e)) NewMemLog
     [\<lparr>LT = 0, FigaroLT = 7, Payload = ''x'', Fingerprint = []\<rparr>, \<lparr>LT = 0, FigaroLT = 0, Payload = ''y'', Fingerprint = []\<rparr>]))
   = [1, 2]"
  using MemLog_append_only [OF ml_wf_new, of "[\<lparr>LT = 0, FigaroLT = 7, Payload = ''x'', Fingerprint = []\<rparr>,
    \<lparr>LT = 0, FigaroLT = 0, Payload = ''y'', Fingerprint = []\<rparr>]"]
  by (simp add: NewMemLog_def ml_Read_def upt_rec)



text \<open>
  \<open>readPage\<close> returns the right page on both of its paths, together with the size of the
  whole log: with \<open>before\<close> set, the newest \<open>n\<close> rows older than \<open>before\<close> in log order; otherwise
  the first \<open>n\<close> rows (all of them for \<open>n \<le> 0\<close>) from \<open>from\<close> on, by binary search.
\<close>

theorem readPage_correct:
  assumes "sorted (map FigaroLT rows)" and "int (length rows) + n < 2 ^ 63"
  shows "readPage rows from before n =
    Inr (if before > 0 then last_n (nat n) (filter (\<lambda>r. FigaroLT r < before) rows)
         else (let sel = filter (\<lambda>r. from \<le> FigaroLT r) rows in if n > 0 then take (nat n) sel else sel),
         length rows)"
proof (cases "before > 0 \<and> n > 0")
  case False
  then show ?thesis using readPage_from [OF assms, of "from"] by (auto simp: readPage_def last_n_def)
qed (simp add: readPage_before)

theorem readPage_correct_witness:
  "let row = (\<lambda>i. \<lparr>LT = i, FigaroLT = i, Payload = (), Fingerprint = []\<rparr>)
   in readPage (map row [1, 2, 3, 4]) 0 4 2 = Inr (map row [2, 3], 4)
      \<and> readPage (map row [1, 2, 3, 4]) 3 0 1 = Inr (map row [3], 4)"
  unfolding Let_def by (subst (1 2) readPage_correct) (simp_all add: last_n_def)

text \<open>
  a client that pages backwards (each request asking for the \<open>n\<close> rows before the first row it
  holds) sees every row exactly once and in order: the pages, joined, are the log.
\<close>

theorem backward_paging_tiles:
  assumes "sorted_wrt (<) (map FigaroLT rows)" and "0 < n" and "0 < b"
    and "\<forall>r \<in> set rows. 0 < FigaroLT r \<and> FigaroLT r < b"
  shows "pages_back (Suc (length rows)) n rows b = rows"
proof -
  have "filter (\<lambda>r. FigaroLT r < b) rows = rows" using assms(4) by (simp add: filter_id_conv)
  then show ?thesis using pages_back_all [of rows n b "Suc (length rows)"] assms by simp
qed

theorem backward_paging_tiles_witness:
  "let row = (\<lambda>i. \<lparr>LT = i, FigaroLT = i, Payload = (), Fingerprint = []\<rparr>)
   in pages_back 6 2 (map row [1, 2, 3, 5, 8]) 9 = map row [1, 2, 3, 5, 8]"
proof -
  let ?rows = "map (\<lambda>i. \<lparr>LT = i, FigaroLT = i, Payload = (), Fingerprint = []\<rparr>) [1, 2, 3, 5, 8]"
  have "pages_back (Suc (length ?rows)) 2 ?rows 9 = ?rows" by (rule backward_paging_tiles) simp_all
  then show ?thesis by (simp only: Let_def length_map) (simp add: numeral_eq_Suc)
qed

text \<open>
  the page size is added to the start index in 64-bit arithmetic: with a size near the largest
  \<open>int\<close> the sum wraps below the start and the slice expression panics.
\<close>

theorem readFrom_overflow_panics:
  "readFrom [\<lparr>LT = 1, FigaroLT = 1, Payload = (), Fingerprint = []\<rparr>,
      \<lparr>LT = 2, FigaroLT = 2, Payload = (), Fingerprint = []\<rparr>] 2 (2 ^ 63 - 1) = Inl SliceBoundsOutOfRange"
  by (simp add: readFrom_def sort_search_def sort_search_loop.simps slice_from_def wrap64_def Let_def)

end
