(* ===== verification/Delta_Codec.thy ===== *)
theory Delta_Codec
  imports Prelude
begin

section \<open>The interface of state deltas\<close>

text \<open>
  Three components of figaro ship state as deltas: the chalkboard (\<open>Snapshot.Diff\<close> and
  \<open>Snapshot.Apply\<close>), the live document (\<open>livedoc.Diff\<close> and \<open>livedoc.Apply\<close>) and the node
  list of a live unit (\<open>DiffNodes\<close> and \<open>ApplyOp\<close>). What their clients rely on is stated here
  once: a replica that holds a state and folds in the deltas of every later state holds the
  last one. \<open>ok\<close> is the condition under which a delta between two states exists.
\<close>

locale delta_codec =
  fixes apply_d :: "'s \<Rightarrow> 'd \<Rightarrow> 's"
    and diff :: "'s \<Rightarrow> 's \<Rightarrow> 'd"
    and ok :: "'s \<Rightarrow> 's \<Rightarrow> bool"
  assumes apply_diff: "ok old new \<Longrightarrow> apply_d old (diff old new) = new"
begin

fun deltas :: "'s \<Rightarrow> 's list \<Rightarrow> 'd list" where
  "deltas s [] = []"
| "deltas s (t # ts) = diff s t # deltas t ts"

fun chain :: "'s \<Rightarrow> 's list \<Rightarrow> bool" where
  "chain s [] = True"
| "chain s (t # ts) = (ok s t \<and> chain t ts)"

lemma replica_converges: "chain s ts \<Longrightarrow> foldl apply_d s (deltas s ts) = last (s # ts)"
  by (induction ts arbitrary: s) (auto simp: apply_diff)

lemma deltas_append: "deltas s (ts @ us) = deltas s ts @ deltas (last (s # ts)) us"
  by (induction ts arbitrary: s) auto

lemma chain_append: "chain s (ts @ us) \<longleftrightarrow> chain s ts \<and> chain (last (s # ts)) us"
  by (induction ts arbitrary: s) auto

text \<open>The same with the delta stream written out over consecutive states.\<close>

lemma deltas_zip: "deltas s ts = map (\<lambda>(a, b). diff a b) (zip (s # ts) ts)"
  by (induction ts arbitrary: s) auto

lemma chain_zip: "chain s ts \<longleftrightarrow> (\<forall>(a, b) \<in> set (zip (s # ts) ts). ok a b)"
  by (induction ts arbitrary: s) auto

lemma replica_zip:
  assumes "\<forall>(a, b) \<in> set (zip (s # ts) ts). ok a b"
  shows "foldl apply_d s (map (\<lambda>(a, b). diff a b) (zip (s # ts) ts)) = last (s # ts)"
  using replica_converges [of s ts] assms by (simp add: chain_zip flip: deltas_zip)

text \<open>A replica that stops and resumes from the state it reached loses nothing.\<close>

lemma replica_resumes:
  assumes "chain s (ts @ us)"
  shows "foldl apply_d (foldl apply_d s (deltas s ts)) (deltas (last (s # ts)) us) = last (s # ts @ us)"
  using assms replica_converges [of s ts] replica_converges [of "last (s # ts)" us]
  by (auto simp: chain_append last_append split: if_splits)

end

text \<open>Deltas that compose: merging two deltas is applying one after the other.\<close>

locale delta_compose = delta_codec +
  fixes merge :: "'b \<Rightarrow> 'b \<Rightarrow> 'b"
    and unit :: 'b
    and clean :: "'b \<Rightarrow> bool"
  assumes merge_apply: "clean p \<Longrightarrow> apply_d s (merge p q) = apply_d (apply_d s p) q"
    and merge_clean: "clean p \<Longrightarrow> clean q \<Longrightarrow> clean (merge p q)"
    and unit_apply: "apply_d s unit = s"
    and unit_clean: "clean unit"
begin

text \<open>A log of deltas may be squashed into one: the reader reaches the same state.\<close>

lemma squash_clean: "clean p \<Longrightarrow> (\<And>q. q \<in> set qs \<Longrightarrow> clean q) \<Longrightarrow> clean (foldl merge p qs)"
  by (induction qs arbitrary: p) (auto intro: merge_clean)

lemma squash_apply:
  "clean p \<Longrightarrow> (\<And>q. q \<in> set qs \<Longrightarrow> clean q) \<Longrightarrow>
     apply_d s (foldl merge p qs) = foldl apply_d (apply_d s p) qs"
proof (induction qs rule: rev_induct)
  case (snoc q qs)
  then have "clean (foldl merge p qs)" by (intro squash_clean) auto
  with snoc show ?case by (simp add: merge_apply)
qed simp

lemma squash_log:
  "(\<And>q. q \<in> set qs \<Longrightarrow> clean q) \<Longrightarrow> apply_d s (foldl merge unit qs) = foldl apply_d s qs"
  using squash_apply [of unit qs s] by (simp add: unit_clean unit_apply)

end

end
