(* ===== verification/Chalkboard.thy ===== *)
theory Chalkboard
  imports Message Delta_Codec
begin

section \<open>The chalkboard (\<open>internal/chalkboard\<close>)\<close>

text \<open>
  The per-aria key-value state: \<open>Snapshot\<close> with \<open>Diff\<close>, \<open>Apply\<close> and \<open>Merge\<close>
  (\<open>chalkboard.go\<close>), the entries and rendered bodies of a patch (\<open>chalkboard.go\<close>,
  \<open>render.go\<close>), and the file-backed \<open>State\<close> handle (\<open>state.go\<close>). JSON text is opaque here, as
  in the source (\<open>json.RawMessage\<close>): the decoders of \<open>encoding/json\<close> and the user's templates
  are arguments of the definitions that call them. Go ranges over a map in an unspecified
  order; the loops whose body could see the order run over the sorted keys.
\<close>

type_synonym snapshot = "(string, rawjson) fmap"

subsection \<open>Snapshots and patches\<close>

definition snap_Clone :: "snapshot \<Rightarrow> snapshot" where
  "snap_Clone s = fmap_of_list (map (\<lambda>k. (k, the (fmlookup s k))) (fmkeys s))"

definition snap_Lookup :: "(rawjson \<Rightarrow> string option) \<Rightarrow> snapshot \<Rightarrow> string \<Rightarrow> string option" where
  "snap_Lookup unmarshal s key = (case fmlookup s key of Some raw \<Rightarrow> unmarshal raw | None \<Rightarrow> None)"

definition snap_Diff :: "snapshot \<Rightarrow> snapshot \<Rightarrow> patch" where
  "snap_Diff s prev =
     \<lparr>p_set = fmfilter (\<lambda>k. fmlookup prev k = None \<or> fmlookup prev k \<noteq> fmlookup s k) s,
      p_remove = sort (filter (\<lambda>k. fmlookup s k = None) (fmkeys prev))\<rparr>"

definition snap_Apply :: "snapshot \<Rightarrow> patch \<Rightarrow> snapshot" where
  "snap_Apply s p = fold fmdrop (p_remove p) (s ++\<^sub>f p_set p)"

fun removeString :: "string list \<Rightarrow> string \<Rightarrow> string list" where
  "removeString [] s = []"
| "removeString (x # xs) s = (if x = s then xs else x # removeString xs s)"

definition containsString :: "string list \<Rightarrow> string \<Rightarrow> bool" where
  "containsString xs s \<longleftrightarrow> s \<in> set xs"

text \<open>The second half of \<open>Merge\<close>: \<open>q\<close>'s removals drop earlier sets and are recorded once.\<close>

fun merge_removes :: "snapshot \<Rightarrow> string list \<Rightarrow> string list \<Rightarrow> snapshot \<times> string list" where
  "merge_removes st rem [] = (st, rem)"
| "merge_removes st rem (k # ks) =
     merge_removes (fmdrop k st) (if \<not> containsString rem k then rem @ [k] else rem) ks"

definition Merge :: "patch \<Rightarrow> patch \<Rightarrow> patch" where
  "Merge p q =
     (let st = p_set p ++\<^sub>f p_set q;
          rem = fold (\<lambda>k xs. removeString xs k) (fmkeys (p_set q)) (p_remove p);
          (st', rem') = merge_removes st rem (p_remove q)
      in \<lparr>p_set = st', p_remove = sort rem'\<rparr>)"

subsubsection \<open>Lookup characterisations\<close>

lemma fmlookup_Apply:
  "fmlookup (snap_Apply s p) k =
     (if k \<in> set (p_remove p) then None
      else case fmlookup (p_set p) k of Some v \<Rightarrow> Some v | None \<Rightarrow> fmlookup s k)"
  by (auto simp: snap_Apply_def fold_fmdrop split: option.splits)

lemma snap_Clone_id [simp]: "snap_Clone s = s"
proof (rule fmap_ext)
  fix k
  show "fmlookup (snap_Clone s) k = fmlookup s k"
  proof (cases "fmlookup s k")
    case None
    then have "k \<notin> set (fmkeys s)" by (auto simp: fmdom'_alt_def fmdom_notI)
    then have "map_of (map (\<lambda>k. (k, the (fmlookup s k))) (fmkeys s)) k = None"
      by (auto simp: map_of_eq_None_iff)
    with None show ?thesis by (simp add: snap_Clone_def fmlookup_of_list)
  next
    case (Some v)
    then have "k \<in> set (fmkeys s)" by (auto simp: fmdom'I)
    then have "map_of (map (\<lambda>k. (k, the (fmlookup s k))) (fmkeys s)) k = Some (the (fmlookup s k))"
      by (simp add: map_of_map_restrict)
    with Some show ?thesis by (simp add: snap_Clone_def fmlookup_of_list)
  qed
qed

lemma removeString_remove1 [simp]: "removeString xs s = remove1 s xs"
  by (induction xs) auto

lemma fmlookup_merge_removes:
  "fmlookup (fst (merge_removes st rem ks)) k = (if k \<in> set ks then None else fmlookup st k)"
  by (induction ks arbitrary: st rem) auto

lemma set_merge_removes: "set (snd (merge_removes st rem ks)) = set rem \<union> set ks"
  by (induction ks arbitrary: st rem) (auto simp: containsString_def)

lemma distinct_merge_removes: "distinct rem \<Longrightarrow> distinct (snd (merge_removes st rem ks))"
  by (induction ks arbitrary: st rem) (auto simp: containsString_def)

lemma Merge_simps:
  "p_set (Merge p q) = fst (merge_removes (p_set p ++\<^sub>f p_set q)
     (fold remove1 (fmkeys (p_set q)) (p_remove p)) (p_remove q))"
  "set (p_remove (Merge p q)) = set (fold remove1 (fmkeys (p_set q)) (p_remove p)) \<union> set (p_remove q)"
  "distinct (p_remove p) \<Longrightarrow> distinct (p_remove (Merge p q))"
  "sorted (p_remove (Merge p q))"
proof -
  show "p_set (Merge p q) = fst (merge_removes (p_set p ++\<^sub>f p_set q)
     (fold remove1 (fmkeys (p_set q)) (p_remove p)) (p_remove q))"
    by (simp add: Merge_def Let_def split_beta)
  show "set (p_remove (Merge p q)) = set (fold remove1 (fmkeys (p_set q)) (p_remove p)) \<union> set (p_remove q)"
    by (simp add: Merge_def Let_def split_beta set_merge_removes)
  show "distinct (p_remove p) \<Longrightarrow> distinct (p_remove (Merge p q))"
    by (simp add: Merge_def Let_def split_beta distinct_merge_removes fold_remove1)
  show "sorted (p_remove (Merge p q))"
    by (simp add: Merge_def Let_def split_beta)
qed

subsubsection \<open>The laws of the delta interface\<close>

lemma Apply_Diff: "snap_Apply prev (snap_Diff s prev) = s"
proof (rule fmap_ext)
  fix k
  show "fmlookup (snap_Apply prev (snap_Diff s prev)) k = fmlookup s k"
    by (cases "fmlookup s k"; cases "fmlookup prev k")
       (auto simp: fmlookup_Apply snap_Diff_def fmlookup_dom'_iff)
qed

lemma Merge_Apply:
  assumes "distinct (p_remove p)"
  shows "snap_Apply s (Merge p q) = snap_Apply (snap_Apply s p) q"
proof (rule fmap_ext)
  fix k
  have dom: "k \<in> fmdom' m \<longleftrightarrow> fmlookup m k \<noteq> None" for m :: snapshot
    by (simp add: fmlookup_dom'_iff)
  have rem: "k \<in> set (p_remove (Merge p q)) \<longleftrightarrow>
      k \<in> set (p_remove q) \<or> (k \<in> set (p_remove p) \<and> fmlookup (p_set q) k = None)"
    using fold_remove1 [OF assms, of "fmkeys (p_set q)"] by (auto simp: Merge_simps dom)
  show "fmlookup (snap_Apply s (Merge p q)) k = fmlookup (snap_Apply (snap_Apply s p) q) k"
    unfolding fmlookup_Apply rem Merge_simps(1) fmlookup_merge_removes fmlookup_add
    by (cases "fmlookup (p_set q) k") (simp_all add: dom fmdom'_alt_def fmlookup_dom_iff)
qed

lemma Apply_zero: "snap_Apply s zero_patch = s"
  by (simp add: snap_Apply_def zero_patch_def)

lemma Apply_empty: "patch_IsEmpty p \<Longrightarrow> snap_Apply s p = s"
  by (simp add: snap_Apply_def)

interpretation chalk: delta_compose snap_Apply "\<lambda>old new. snap_Diff new old" "\<lambda>_ _. True"
  Merge zero_patch "\<lambda>p. distinct (p_remove p)"
proof
  show "snap_Apply old (snap_Diff new old) = new" for old new by (rule Apply_Diff)
  show "distinct (p_remove p) \<Longrightarrow> snap_Apply s (Merge p q) = snap_Apply (snap_Apply s p) q"
    for s p q by (rule Merge_Apply)
  show "distinct (p_remove p) \<Longrightarrow> distinct (p_remove q) \<Longrightarrow> distinct (p_remove (Merge p q))"
    for p q by (simp add: Merge_simps)
  show "snap_Apply s zero_patch = s" for s by (rule Apply_zero)
  show "distinct (p_remove zero_patch)" by (simp add: zero_patch_def)
qed


subsection \<open>Entries and rendered bodies\<close>

record entry =
  e_key :: string
  e_old :: "rawjson option"
  e_new :: "rawjson option"

definition decodeStringOrRaw :: "(rawjson \<Rightarrow> string option) \<Rightarrow> rawjson option \<Rightarrow> string" where
  "decodeStringOrRaw unmarshal raw =
     (case raw of
        None \<Rightarrow> []
      | Some r \<Rightarrow> (if length r = 0 then [] else case unmarshal r of Some s \<Rightarrow> s | None \<Rightarrow> r))"

definition NewString :: "(rawjson \<Rightarrow> string option) \<Rightarrow> entry \<Rightarrow> string" where
  "NewString unmarshal e = decodeStringOrRaw unmarshal (e_new e)"

definition OldString :: "(rawjson \<Rightarrow> string option) \<Rightarrow> entry \<Rightarrow> string" where
  "OldString unmarshal e = decodeStringOrRaw unmarshal (e_old e)"

definition IsRemoval :: "entry \<Rightarrow> bool" where
  "IsRemoval e \<longleftrightarrow> e_new e = None"

definition PatchEntries :: "patch \<Rightarrow> snapshot \<Rightarrow> entry list" where
  "PatchEntries p prev =
     map (\<lambda>k. \<lparr>e_key = k, e_old = fmlookup prev k, e_new = fmlookup (p_set p) k\<rparr>)
       (sort (fmkeys (p_set p) @ filter (\<lambda>k. fmlookup (p_set p) k = None) (p_remove p)))"

definition genericBody :: "(rawjson \<Rightarrow> string option) \<Rightarrow> entry \<Rightarrow> string" where
  "genericBody unmarshal e =
     (if IsRemoval e then []
      else if NewString unmarshal e \<noteq> [] then NewString unmarshal e
      else (case e_new e of Some r \<Rightarrow> r | None \<Rightarrow> []))"

text \<open>
  \<open>Render\<close>: \<open>tmpls k\<close> is the compiled template for key \<open>k\<close>, if there is one; executing it
  yields text or an error.
\<close>

fun render_entries ::
  "(rawjson \<Rightarrow> string option) \<Rightarrow> (string \<Rightarrow> (entry \<Rightarrow> 'e + string) option) \<Rightarrow> entry list
     \<Rightarrow> 'e + (string \<times> string) list" where
  "render_entries unmarshal tmpls [] = Inr []"
| "render_entries unmarshal tmpls (e # es) =
     (if has_prefix (e_key e) ''system.'' then render_entries unmarshal tmpls es
      else
        (case (case tmpls (e_key e) of
                 None \<Rightarrow> Inr (genericBody unmarshal e)
               | Some t \<Rightarrow> (case t e of Inl err \<Rightarrow> Inl err | Inr out \<Rightarrow> Inr (trim_space out))) of
           Inl err \<Rightarrow> Inl err
         | Inr body \<Rightarrow>
             (case render_entries unmarshal tmpls es of
                Inl err \<Rightarrow> Inl err
              | Inr rest \<Rightarrow> Inr (if body = [] then rest else (e_key e, body) # rest))))"

definition Render ::
  "(rawjson \<Rightarrow> string option) \<Rightarrow> patch \<Rightarrow> snapshot \<Rightarrow> (string \<Rightarrow> (entry \<Rightarrow> 'e + string) option)
     \<Rightarrow> 'e + (string \<times> string) list" where
  "Render unmarshal p prev tmpls =
     (if patch_IsEmpty p then Inr [] else render_entries unmarshal tmpls (PatchEntries p prev))"

lemma render_entries_keys:
  "render_entries u tm es = Inr rs \<Longrightarrow> (k, b) \<in> set rs \<Longrightarrow>
     k \<in> e_key ` set es \<and> \<not> has_prefix k ''system.'' \<and> b \<noteq> []"
  by (induction es arbitrary: rs) (auto split: if_splits sum.splits)

lemma PatchEntries_keys:
  "e_key ` set (PatchEntries p prev) = fmdom' (p_set p) \<union> set (p_remove p)"
  by (auto simp: PatchEntries_def image_iff fmlookup_dom'_iff)

subsection \<open>The file-backed state handle\<close>

text \<open>
  \<open>State\<close> holds the snapshot of one aria and flushes it to a file. The file system is a finite
  map from paths to contents; every system call that can fail takes its outcome from
  \<open>faults\<close>: \<open>write_fault = Some junk\<close> is a write that failed and left \<open>junk\<close> in the file. The
  JSON encoder and decoder of a snapshot are the arguments \<open>marshal\<close> and \<open>unmarshal\<close>.
\<close>

record cb_state =
  st_snapshot :: snapshot
  st_path :: string
  st_dirty :: bool

type_synonym fs = "(string, string) fmap"

record os_faults =
  read_fault :: bool
  mkdir_fault :: bool
  write_fault :: "string option"
  rename_fault :: bool

datatype state_error = ReadError | ParseError | MkdirError | MarshalError | WriteError | RenameError

definition state_Open ::
  "(string \<Rightarrow> snapshot option) \<Rightarrow> os_faults \<Rightarrow> fs \<Rightarrow> string \<Rightarrow> state_error + cb_state" where
  "state_Open unmarshal faults files path =
     (let s = \<lparr>st_snapshot = fmempty, st_path = path, st_dirty = False\<rparr>
      in if read_fault faults then Inl ReadError
         else case fmlookup files path of
                None \<Rightarrow> Inr s
              | Some data \<Rightarrow>
                  (if length data = 0 then Inr s
                   else case unmarshal data of
                          None \<Rightarrow> Inl ParseError
                        | Some snap \<Rightarrow> Inr (s\<lparr>st_snapshot := snap\<rparr>)))"

definition state_Snapshot :: "cb_state \<Rightarrow> snapshot" where
  "state_Snapshot s = snap_Clone (st_snapshot s)"

definition state_Apply :: "cb_state \<Rightarrow> patch \<Rightarrow> cb_state \<times> snapshot" where
  "state_Apply s p =
     (if patch_IsEmpty p then (s, state_Snapshot s)
      else let s' = s\<lparr>st_snapshot := snap_Apply (st_snapshot s) p, st_dirty := True\<rparr>
           in (s', state_Snapshot s'))"

definition state_Save ::
  "(snapshot \<Rightarrow> string option) \<Rightarrow> os_faults \<Rightarrow> fs \<Rightarrow> cb_state \<Rightarrow> (state_error option \<times> cb_state) \<times> fs" where
  "state_Save marshal faults files s =
     (if \<not> st_dirty s \<or> st_path s = [] then ((None, s), files)
      else if mkdir_fault faults then ((Some MkdirError, s), files)
      else case marshal (st_snapshot s) of
             None \<Rightarrow> ((Some MarshalError, s), files)
           | Some data \<Rightarrow>
               (let tmp = st_path s @ ''.tmp''
                in case write_fault faults of
                     Some junk \<Rightarrow> ((Some WriteError, s), fmupd tmp junk files)
                   | None \<Rightarrow>
                       (if rename_fault faults then ((Some RenameError, s), fmdrop tmp (fmupd tmp data files))
                        else ((None, s\<lparr>st_dirty := False\<rparr>),
                              fmupd (st_path s) data (fmdrop tmp (fmupd tmp data files))))))"

definition state_Close ::
  "(snapshot \<Rightarrow> string option) \<Rightarrow> os_faults \<Rightarrow> fs \<Rightarrow> cb_state \<Rightarrow> (state_error option \<times> cb_state) \<times> fs" where
  "state_Close = state_Save"

lemma state_Snapshot_eq [simp]: "state_Snapshot s = st_snapshot s"
  by (simp add: state_Snapshot_def)

lemma state_Apply_snapshot: "st_snapshot (fst (state_Apply s p)) = snap_Apply (st_snapshot s) p"
  by (simp add: state_Apply_def Let_def Apply_empty)

lemma tmp_neq: "s @ ''.tmp'' \<noteq> s" "s \<noteq> s @ ''.tmp''"
  by simp_all

subsection \<open>Properties\<close>

text \<open>
  a replica that folds in the patch between every two consecutive snapshots
  (\<open>Snapshot.Diff\<close>, then \<open>Snapshot.Apply\<close>) holds the last snapshot, for every sequence of
  snapshots.
\<close>

theorem chalkboard_replica:
  "foldl snap_Apply s (map (\<lambda>(old, new). snap_Diff new old) (zip (s # ts) ts)) = last (s # ts)"
  by (rule chalk.replica_zip) simp

text \<open>
  C9: squashing a log of patches with \<open>Merge\<close> loses nothing: applying the merged patch is
  applying the patches one after the other, provided no patch lists a key twice in its removals.
\<close>

theorem Merge_squash:
  assumes "\<forall>q \<in> set qs. distinct (p_remove q)"
  shows "snap_Apply s (foldl Merge zero_patch qs) = foldl snap_Apply s qs"
  by (rule chalk.squash_log) (use assms in blast)

theorem Merge_squash_witness:
  "snap_Apply (fmap_of_list [(''a'', ''1'')])
     (foldl Merge zero_patch [\<lparr>p_set = fmempty, p_remove = [''a'']\<rparr>,
        \<lparr>p_set = fmap_of_list [(''a'', ''2''), (''b'', ''3'')], p_remove = []\<rparr>])
   = foldl snap_Apply (fmap_of_list [(''a'', ''1'')])
       [\<lparr>p_set = fmempty, p_remove = [''a'']\<rparr>,
        \<lparr>p_set = fmap_of_list [(''a'', ''2''), (''b'', ''3'')], p_remove = []\<rparr>]"
  by (rule Merge_squash) simp

text \<open>
  without that proviso the law fails: \<open>removeString\<close> drops one occurrence only, so a key removed
  twice by the first patch and set by the second is lost.
\<close>

theorem Merge_duplicate_remove:
  "fmlookup (snap_Apply fmempty (Merge \<lparr>p_set = fmempty, p_remove = [''a'', ''a'']\<rparr>
       \<lparr>p_set = fmap_of_list [(''a'', ''1'')], p_remove = []\<rparr>)) ''a'' = None
   \<and> fmlookup (snap_Apply (snap_Apply fmempty \<lparr>p_set = fmempty, p_remove = [''a'', ''a'']\<rparr>)
       \<lparr>p_set = fmap_of_list [(''a'', ''1'')], p_remove = []\<rparr>) ''a'' = Some ''1''"
  by (simp add: fmlookup_Apply Merge_simps)

text \<open>
  \<open>Render\<close> shows the model exactly what changed and nothing of the system's own keys: every
  rendered reminder belongs to a key the patch sets or removes, no key starts with
  \<open>system.\<close>, no body is empty.
\<close>

theorem Render_scope:
  assumes "Render unmarshal p prev tmpls = Inr rs" and "(k, b) \<in> set rs"
  shows "(k \<in> fmdom' (p_set p) \<or> k \<in> set (p_remove p)) \<and> \<not> has_prefix k ''system.'' \<and> b \<noteq> []"
proof -
  have "render_entries unmarshal tmpls (PatchEntries p prev) = Inr rs"
    using assms by (auto simp: Render_def simp del: patch_IsEmpty_iff split: if_splits)
  from render_entries_keys [OF this assms(2)] show ?thesis by (simp add: PatchEntries_keys)
qed

theorem Render_scope_witness:
  "let p = \<lparr>p_set = fmap_of_list [(''cwd'', ''/tmp'')], p_remove = []\<rparr>;
       r = Render (\<lambda>r. None) p fmempty (\<lambda>k. None) :: unit + (string \<times> string) list
   in r = Inr [(''cwd'', ''/tmp'')] \<and> ''cwd'' \<in> fmdom' (p_set p) \<and> \<not> has_prefix ''cwd'' ''system.''"
proof -
  let ?p = "\<lparr>p_set = fmap_of_list [(''cwd'', ''/tmp'')], p_remove = []\<rparr>"
  have "fmlookup (p_set ?p) ''cwd'' \<noteq> None" by simp
  then have "\<not> patch_IsEmpty ?p" by (metis fmempty_lookup patch_IsEmpty_iff)
  then have r: "(Render (\<lambda>r. None) ?p fmempty (\<lambda>k. None) :: unit + (string \<times> string) list) = Inr [(''cwd'', ''/tmp'')]"
    by (simp add: Render_def PatchEntries_def has_prefix_def genericBody_def IsRemoval_def NewString_def
        decodeStringOrRaw_def del: patch_IsEmpty_iff)
  from Render_scope [OF r, of "''cwd''" "''/tmp''"] r show ?thesis by (simp add: Let_def)
qed

text \<open>
  C33: \<open>State.Save\<close> is atomic. Whatever system call fails, the state file holds either what it
  held before or the complete new encoding, no path but the state file and its temporary sibling
  changes, and after an error the handle is as it was (still dirty, so a later save retries).
\<close>

theorem Save_atomic:
  assumes "state_Save marshal faults files s = ((err, s'), files')"
  shows "(fmlookup files' (st_path s) = fmlookup files (st_path s)
           \<or> fmlookup files' (st_path s) = marshal (st_snapshot s))
    \<and> (err \<noteq> None \<longrightarrow> s' = s \<and> fmlookup files' (st_path s) = fmlookup files (st_path s))
    \<and> (\<forall>q. q \<noteq> st_path s \<and> q \<noteq> st_path s @ ''.tmp'' \<longrightarrow> fmlookup files' q = fmlookup files q)"
  using assms unfolding state_Save_def
  by (cases "marshal (st_snapshot s)"; cases "write_fault faults")
     (auto simp: Let_def split: if_splits)

theorem Save_atomic_witness:
  "let s = \<lparr>st_snapshot = fmempty, st_path = ''p'', st_dirty = True\<rparr>;
       faults = \<lparr>read_fault = False, mkdir_fault = False, write_fault = Some ''{'', rename_fault = False\<rparr>;
       r = state_Save (\<lambda>_. Some ''{}'') faults (fmap_of_list [(''p'', ''old'')]) s
   in fst r = (Some WriteError, s) \<and> fmlookup (snd r) ''p'' = Some ''old''"
proof -
  let ?s = "\<lparr>st_snapshot = fmempty, st_path = ''p'', st_dirty = True\<rparr>"
  let ?f = "\<lparr>read_fault = False, mkdir_fault = False, write_fault = Some ''{'', rename_fault = False\<rparr>"
  let ?files = "fmap_of_list [(''p'', ''old'')]"
  have r: "state_Save (\<lambda>_. Some ''{}'') ?f ?files ?s = ((Some WriteError, ?s), fmupd ''p.tmp'' ''{'' ?files)"
    by (simp add: state_Save_def Let_def)
  show ?thesis using Save_atomic [OF r] unfolding Let_def r by (simp add: fmlookup_of_list)
qed

text \<open>
  what a successful \<open>Save\<close> wrote, \<open>Open\<close> reads back: the reopened handle has the snapshot
  that was saved and is clean. \<open>roundtrip\<close> is what the code relies on from \<open>encoding/json\<close>:
  decoding the encoding of a snapshot gives the snapshot, and the encoding is not empty.
\<close>

theorem Save_Open_roundtrip:
  assumes roundtrip: "\<And>snap data. marshal snap = Some data \<Longrightarrow> data \<noteq> [] \<and> unmarshal data = Some snap"
    and save: "state_Save marshal faults files s = ((None, s'), files')"
    and dirty: "st_dirty s" "st_path s \<noteq> []"
    and ok: "\<not> read_fault faults'"
  shows "state_Open unmarshal faults' files' (st_path s) = Inr (s\<lparr>st_dirty := False\<rparr>)"
proof -
  obtain data where data: "marshal (st_snapshot s) = Some data"
    using save dirty unfolding state_Save_def by (cases "marshal (st_snapshot s)") (auto split: if_splits)
  have "fmlookup files' (st_path s) = Some data"
    using save dirty data unfolding state_Save_def
    by (cases "write_fault faults") (auto simp: Let_def split: if_splits)
  with roundtrip [OF data] ok show ?thesis by (cases s) (simp add: state_Open_def Let_def)
qed

theorem Save_Open_roundtrip_witness:
  "let enc = (\<lambda>s. if s = fmempty then Some ''{}'' else None);
       dec = (\<lambda>d. if d = ''{}'' then Some fmempty else None);
       s = \<lparr>st_snapshot = fmempty, st_path = ''p'', st_dirty = True\<rparr>;
       f = \<lparr>read_fault = False, mkdir_fault = False, write_fault = None, rename_fault = False\<rparr>
   in state_Open dec f (snd (state_Save enc f fmempty s)) ''p'' = Inr (s\<lparr>st_dirty := False\<rparr>)"
proof -
  let ?enc = "\<lambda>s. if s = fmempty then Some ''{}'' else None"
  let ?dec = "\<lambda>d. if d = ''{}'' then Some fmempty else None"
  let ?s = "\<lparr>st_snapshot = fmempty, st_path = ''p'', st_dirty = True\<rparr>"
  let ?f = "\<lparr>read_fault = False, mkdir_fault = False, write_fault = None, rename_fault = False\<rparr>"
  have rt: "?enc snap = Some data \<Longrightarrow> data \<noteq> [] \<and> ?dec data = Some snap" for snap data
    by (simp split: if_splits)
  have sv: "state_Save ?enc ?f fmempty ?s = ((None, ?s\<lparr>st_dirty := False\<rparr>), snd (state_Save ?enc ?f fmempty ?s))"
    by (simp add: state_Save_def Let_def)
  show ?thesis using Save_Open_roundtrip [OF rt sv, of ?f] by (simp add: Let_def)
qed

end
