(* ===== verification/Projection.thy ===== *)
theory Projection
  imports Store_Log Chalkboard
begin

section \<open>Projecting the log onto a provider's wire format (\<open>internal/provider/projection.go\<close>, \<open>registry.go\<close>)\<close>

text \<open>
  A provider translates every row of the main log to wire bytes. \<open>ProjectIncrementally\<close> resumes
  an earlier projection when its watermark still fits the log, takes bytes from a per-aria
  translation cache where the cache has them, encodes the rest and stores them in the cache. The
  log, the cache and the encoder are what the configuration names: the rows of the log are a
  list, the cache is a state with the operations of the \<open>Log\<close> interface as arguments (\<open>lookup\<close>,
  \<open>add\<close>), the encoder is a function of the message and the snapshot before it.
\<close>

record 't incremental_projection =
  ip_State :: 't
  ip_Chalkboard :: snapshot
  ip_Fingerprint :: string
  ip_Entries :: nat
  ip_LastLT :: lt

record projection_stats =
  st_Entries :: nat
  st_StartIndex :: nat
  st_Cached :: nat
  st_Encoded :: nat

record ('t, 'c, 'e) projection_config =
  pc_Log :: "message log_entry list"
  pc_Cache :: "'c option"
  pc_Chalkboard :: "(lt \<Rightarrow> patch list) option"
  pc_Previous :: "'t incremental_projection option"
  pc_Fingerprint :: string
  pc_Initial :: 't
  pc_Encode :: "message \<Rightarrow> snapshot \<Rightarrow> 'e + rawjson list"
  pc_Append :: "'t \<Rightarrow> rawjson list \<Rightarrow> lt \<Rightarrow> 't"

type_synonym wire_entry = "rawjson list log_entry"

text \<open>The variables of the loop; \<open>pj_errors\<close> is what \<open>HandleCacheError\<close> was called with.\<close>

record ('t, 'c, 'ce) projecting =
  pj_state :: 't
  pj_snap :: snapshot
  pj_cache :: "'c option"
  pj_cached :: nat
  pj_encoded :: nat
  pj_errors :: "(lt \<times> 'ce) list"

definition message_of :: "(lt \<Rightarrow> patch list) option \<Rightarrow> message log_entry \<Rightarrow> message" where
  "message_of chalk entry =
     (let msg = (Payload entry)\<lparr>m_logical_time := LT entry\<rparr>
      in case chalk of None \<Rightarrow> msg | Some at_lt \<Rightarrow> msg\<lparr>m_patches := at_lt (LT entry)\<rparr>)"

text \<open>A cached row counts when its fingerprint is absent or current and it has bytes.\<close>

definition usable :: "string \<Rightarrow> wire_entry option \<Rightarrow> rawjson list option" where
  "usable fp hit =
     (case hit of
        Some cached \<Rightarrow>
          (if (Fingerprint cached = [] \<or> Fingerprint cached = fp) \<and> length (Payload cached) > 0
           then Some (Payload cached) else None)
      | None \<Rightarrow> None)"

definition cached_bytes ::
  "('c \<Rightarrow> lt \<Rightarrow> wire_entry option) \<Rightarrow> string \<Rightarrow> 'c option \<Rightarrow> lt \<Rightarrow> rawjson list option" where
  "cached_bytes lookup fp cache k = (case cache of None \<Rightarrow> None | Some c \<Rightarrow> usable fp (lookup c k))"

text \<open>The store of fresh bytes in the cache: an append that fails is reported and ignored.\<close>

definition store_bytes ::
  "('c \<Rightarrow> wire_entry \<Rightarrow> 'ce + (wire_entry \<times> 'c)) \<Rightarrow> string \<Rightarrow> lt \<Rightarrow> rawjson list
     \<Rightarrow> ('t, 'c, 'ce) projecting \<Rightarrow> ('t, 'c, 'ce) projecting" where
  "store_bytes add fp k encoded s =
     (case pj_cache s of
        None \<Rightarrow> s
      | Some c \<Rightarrow>
          (if length encoded > 0 then
             (case add c \<lparr>LT = 0, FigaroLT = k, Payload = encoded, Fingerprint = fp\<rparr> of
                Inl err \<Rightarrow> s\<lparr>pj_errors := pj_errors s @ [(k, err)]\<rparr>
              | Inr (_, c') \<Rightarrow> s\<lparr>pj_cache := Some c'\<rparr>)
           else s))"

text \<open>The tail of the loop body: append the bytes to the state, apply the patches.\<close>

definition take_bytes ::
  "('t \<Rightarrow> rawjson list \<Rightarrow> lt \<Rightarrow> 't) \<Rightarrow> lt \<Rightarrow> message \<Rightarrow> rawjson list
     \<Rightarrow> ('t, 'c, 'ce) projecting \<Rightarrow> ('t, 'c, 'ce) projecting" where
  "take_bytes append_state k msg encoded s =
     s\<lparr>pj_state := (if length encoded > 0 then append_state (pj_state s) encoded k else pj_state s),
       pj_snap := foldl snap_Apply (pj_snap s) (m_patches msg)\<rparr>"

definition project_entry ::
  "('c \<Rightarrow> lt \<Rightarrow> wire_entry option) \<Rightarrow> ('c \<Rightarrow> wire_entry \<Rightarrow> 'ce + (wire_entry \<times> 'c))
     \<Rightarrow> ('t, 'c, 'e) projection_config \<Rightarrow> message log_entry \<Rightarrow> ('t, 'c, 'ce) projecting
     \<Rightarrow> 'e option \<times> ('t, 'c, 'ce) projecting" where
  "project_entry lookup add config entry s =
     (let msg = message_of (pc_Chalkboard config) entry; k = LT entry; fp = pc_Fingerprint config
      in if m_role msg = RoleGenesis then (None, s)
         else case cached_bytes lookup fp (pj_cache s) k of
           Some encoded \<Rightarrow>
             (None, take_bytes (pc_Append config) k msg encoded (s\<lparr>pj_cached := pj_cached s + 1\<rparr>))
         | None \<Rightarrow>
             (case pc_Encode config msg (pj_snap s) of
                Inl err \<Rightarrow> (Some err, s)
              | Inr encoded \<Rightarrow>
                  (None, take_bytes (pc_Append config) k msg encoded
                     (store_bytes add fp k encoded (s\<lparr>pj_encoded := pj_encoded s + 1\<rparr>)))))"

fun project_loop ::
  "('c \<Rightarrow> lt \<Rightarrow> wire_entry option) \<Rightarrow> ('c \<Rightarrow> wire_entry \<Rightarrow> 'ce + (wire_entry \<times> 'c))
     \<Rightarrow> ('t, 'c, 'e) projection_config \<Rightarrow> message log_entry list \<Rightarrow> ('t, 'c, 'ce) projecting
     \<Rightarrow> 'e option \<times> ('t, 'c, 'ce) projecting" where
  "project_loop lookup add config [] s = (None, s)"
| "project_loop lookup add config (entry # rest) s =
     (case project_entry lookup add config entry s of
        (Some err, s') \<Rightarrow> (Some err, s')
      | (None, s') \<Rightarrow> project_loop lookup add config rest s')"

text \<open>The retained projection, if its watermark fits the log.\<close>

definition resume_point :: "('t, 'c, 'e) projection_config \<Rightarrow> 't incremental_projection option" where
  "resume_point config =
     (case pc_Previous config of
        None \<Rightarrow> None
      | Some previous \<Rightarrow>
          (if ip_Fingerprint previous = pc_Fingerprint config
              \<and> ip_Entries previous \<le> length (pc_Log config)
              \<and> (ip_Entries previous = 0
                 \<or> LT (pc_Log config ! (ip_Entries previous - 1)) = ip_LastLT previous)
           then Some previous else None))"

definition last_lt :: "message log_entry list \<Rightarrow> lt" where
  "last_lt entries = (if length entries > 0 then LT (entries ! (length entries - 1)) else 0)"

definition ProjectIncrementally ::
  "('c \<Rightarrow> lt \<Rightarrow> wire_entry option) \<Rightarrow> ('c \<Rightarrow> wire_entry \<Rightarrow> 'ce + (wire_entry \<times> 'c))
     \<Rightarrow> ('t, 'c, 'e) projection_config
     \<Rightarrow> ('e + 't incremental_projection) \<times> projection_stats \<times> 'c option \<times> (lt \<times> 'ce) list" where
  "ProjectIncrementally lookup add config =
     (let entries = pc_Log config;
          (state, snap, start) = (case resume_point config of
             Some previous \<Rightarrow> (ip_State previous, ip_Chalkboard previous, ip_Entries previous)
           | None \<Rightarrow> (pc_Initial config, fmempty, 0));
          (err, s) = project_loop lookup add config (drop start entries)
             \<lparr>pj_state = state, pj_snap = snap, pj_cache = pc_Cache config, pj_cached = 0,
              pj_encoded = 0, pj_errors = []\<rparr>;
          stats = \<lparr>st_Entries = length entries, st_StartIndex = start, st_Cached = pj_cached s,
                   st_Encoded = pj_encoded s\<rparr>
      in (case err of
            Some e \<Rightarrow> Inl e
          | None \<Rightarrow> Inr \<lparr>ip_State = pj_state s, ip_Chalkboard = pj_snap s,
                        ip_Fingerprint = pc_Fingerprint config, ip_Entries = length entries,
                        ip_LastLT = last_lt entries\<rparr>,
          stats, pj_cache s, pj_errors s))"

subsection \<open>Encoded messages and the stale cache\<close>

record encoded_messages =
  em_PerMessage :: "rawjson list list"
  em_LogicalTimes :: "lt list"

definition no_messages :: encoded_messages where
  "no_messages = \<lparr>em_PerMessage = [], em_LogicalTimes = []\<rparr>"

definition AppendEncodedMessage :: "encoded_messages \<Rightarrow> rawjson list \<Rightarrow> lt \<Rightarrow> encoded_messages" where
  "AppendEncodedMessage state encoded k =
     state\<lparr>em_PerMessage := em_PerMessage state @ [encoded],
           em_LogicalTimes := em_LogicalTimes state @ [k]\<rparr>"

text \<open>Returns the stale fingerprint, whether the cache was cleared, the error and the cache.\<close>

definition ClearStaleTranslationCache ::
  "('c \<Rightarrow> wire_entry option) \<Rightarrow> ('c \<Rightarrow> 'ce + 'c) \<Rightarrow> 'c \<Rightarrow> string
     \<Rightarrow> (string \<times> bool \<times> 'ce option) \<times> 'c" where
  "ClearStaleTranslationCache peek clear cache fingerprint =
     (case peek cache of
        None \<Rightarrow> (([], False, None), cache)
      | Some entry \<Rightarrow>
          (if Fingerprint entry = [] \<or> Fingerprint entry = fingerprint then (([], False, None), cache)
           else case clear cache of
             Inl err \<Rightarrow> ((Fingerprint entry, True, Some err), cache)
           | Inr cache' \<Rightarrow> ((Fingerprint entry, True, None), cache')))"

subsection \<open>The registry of providers\<close>

text \<open>A registration is kept under its name; \<open>'r\<close> is the rest of it (factories and hints).\<close>

record 'r registration =
  pr_Name :: string
  pr_rest :: 'r

type_synonym 'r providers = "(string, 'r registration) fmap"

definition prov_Register :: "'r providers \<Rightarrow> 'r registration \<Rightarrow> 'r providers" where
  "prov_Register registry r = fmupd (pr_Name r) r registry"

definition prov_Lookup :: "'r providers \<Rightarrow> string \<Rightarrow> 'r registration option" where
  "prov_Lookup registry name = fmlookup registry name"

definition prov_Names :: "'r providers \<Rightarrow> string list" where
  "prov_Names registry = sort (fmkeys registry)"

subsection \<open>The reference projection\<close>

text \<open>
  What a projection is meant to compute, with no cache and no resumption: the bytes of each row
  are those \<open>held\<close> records for it, otherwise its encoding.
\<close>

fun reference_projection ::
  "(lt \<Rightarrow> rawjson list option) \<Rightarrow> ('t, 'c, 'e) projection_config \<Rightarrow> message log_entry list
     \<Rightarrow> 't \<times> snapshot \<Rightarrow> 'e + 't \<times> snapshot" where
  "reference_projection held config [] ts = Inr ts"
| "reference_projection held config (entry # rest) (t, snap) =
     (let msg = message_of (pc_Chalkboard config) entry
      in if m_role msg = RoleGenesis then reference_projection held config rest (t, snap)
         else case (case held (LT entry) of Some b \<Rightarrow> Inr b | None \<Rightarrow> pc_Encode config msg snap) of
           Inl err \<Rightarrow> Inl err
         | Inr b \<Rightarrow> reference_projection held config rest
             (if b = [] then t else pc_Append config t b (LT entry), foldl snap_Apply snap (m_patches msg)))"

lemma reference_cong:
  "(\<And>k. k \<in> LT ` set es \<Longrightarrow> held k = held' k) \<Longrightarrow>
     reference_projection held config es ts = reference_projection held' config es ts"
  by (induction held config es ts rule: reference_projection.induct)
    (auto simp: Let_def split: option.splits sum.splits)

lemma reference_append:
  "reference_projection held config (xs @ ys) ts =
     (case reference_projection held config xs ts of
        Inl e \<Rightarrow> Inl e | Inr ts' \<Rightarrow> reference_projection held config ys ts')"
  by (induction held config xs ts rule: reference_projection.induct)
    (auto simp: Let_def split: option.splits sum.splits)

lemma project_loop_append:
  "project_loop lookup add config (xs @ ys) s =
     (case project_loop lookup add config xs s of
        (Some e, s') \<Rightarrow> (Some e, s') | (None, s') \<Rightarrow> project_loop lookup add config ys s')"
  by (induction xs arbitrary: s) (auto split: prod.splits option.splits)

lemma usable_nonempty: "usable fp hit = Some b \<Longrightarrow> b \<noteq> []"
  by (auto simp: usable_def split: option.splits if_splits)

lemma cached_bytes_nonempty: "cached_bytes lookup fp c k = Some b \<Longrightarrow> b \<noteq> []"
  by (auto simp: cached_bytes_def split: option.splits dest: usable_nonempty)

lemma reference_config [simp]:
  "reference_projection held (config\<lparr>pc_Log := l\<rparr>) es ts = reference_projection held config es ts"
  "reference_projection held (config\<lparr>pc_Cache := c\<rparr>) es ts = reference_projection held config es ts"
  "reference_projection held (config\<lparr>pc_Previous := p\<rparr>) es ts = reference_projection held config es ts"
  by (induction es arbitrary: ts; case_tac ts; auto simp: Let_def split: option.splits sum.splits)+

text \<open>
  A projection that can be resumed: it is the reference projection of the rows below its
  watermark.
\<close>

definition retained ::
  "(lt \<Rightarrow> rawjson list option) \<Rightarrow> ('t, 'c, 'e) projection_config \<Rightarrow> message log_entry list
     \<Rightarrow> 't incremental_projection \<Rightarrow> bool" where
  "retained held config rows p \<longleftrightarrow>
     ip_Fingerprint p = pc_Fingerprint config \<and> ip_Entries p \<le> length rows
     \<and> ip_LastLT p = last_lt (take (ip_Entries p) rows)
     \<and> reference_projection held config (take (ip_Entries p) rows) (pc_Initial config, fmempty) =
         Inr (ip_State p, ip_Chalkboard p)"

lemma retained_config [simp]:
  "retained held (config\<lparr>pc_Log := l\<rparr>) = retained held config"
  "retained held (config\<lparr>pc_Cache := c\<rparr>) = retained held config"
  "retained held (config\<lparr>pc_Previous := p\<rparr>) = retained held config"
  by (simp_all add: retained_def fun_eq_iff)

lemma retained_prefix: "retained held config xs p \<Longrightarrow> prefix xs ys \<Longrightarrow> retained held config ys p"
  by (auto simp: retained_def prefix_def)

lemma retained_cong:
  "retained held config xs p \<Longrightarrow> (\<And>k. k \<in> LT ` set (take (ip_Entries p) xs) \<Longrightarrow> held' k = held k) \<Longrightarrow>
     retained held' config xs p"
  using reference_cong [of "take (ip_Entries p) xs" held' held config] by (simp add: retained_def)

lemma retained_resumes:
  assumes "retained held config (pc_Log config) p" and "pc_Previous config = Some p"
  shows "resume_point config = Some p"
proof -
  have "LT (pc_Log config ! (ip_Entries p - 1)) = ip_LastLT p" if "ip_Entries p \<noteq> 0"
    using assms(1) that by (auto simp: retained_def last_lt_def)
  with assms show ?thesis by (auto simp: resume_point_def retained_def)
qed

definition outcome ::
  "('e + 't incremental_projection) \<times> projection_stats \<times> 'c option \<times> (lt \<times> 'ce) list \<Rightarrow> 'e + 't \<times> snapshot" where
  "outcome r = (case fst r of Inl e \<Rightarrow> Inl e | Inr p \<Rightarrow> Inr (ip_State p, ip_Chalkboard p))"

text \<open>
  How a provider calls it: the projection it keeps is replaced by a new one that succeeds and
  kept otherwise; the cache is what the call leaves.
\<close>

definition project_once ::
  "('c \<Rightarrow> lt \<Rightarrow> wire_entry option) \<Rightarrow> ('c \<Rightarrow> wire_entry \<Rightarrow> 'ce + (wire_entry \<times> 'c))
     \<Rightarrow> ('t, 'c, 'e) projection_config \<Rightarrow> 't incremental_projection option \<times> 'c option
     \<Rightarrow> message log_entry list \<Rightarrow> 't incremental_projection option \<times> 'c option" where
  "project_once lookup add config pc rows =
     (let (prev, cache) = pc;
          (r, _, cache', _) = ProjectIncrementally lookup add
             (config\<lparr>pc_Log := rows, pc_Cache := cache, pc_Previous := prev\<rparr>)
      in (case r of Inr p \<Rightarrow> Some p | Inl _ \<Rightarrow> prev, cache'))"

subsection \<open>A cache that keeps its keys\<close>

text \<open>
  The cache is a log that keeps the main time it is given. Then a projection through the cache
  computes the reference projection of what the cache held at the start, and what it adds to the
  cache does not change the reference projection.
\<close>

locale translation_cache = log_store log_read log_append log_lookup log_peek log_clear log_inv
  for log_read :: "'s \<Rightarrow> wire_entry list"
    and log_append :: "'s \<Rightarrow> wire_entry \<Rightarrow> 'err + (wire_entry \<times> 's)"
    and log_lookup :: "'s \<Rightarrow> lt \<Rightarrow> wire_entry option"
    and log_peek :: "'s \<Rightarrow> wire_entry option"
    and log_clear :: "'s \<Rightarrow> 'err + 's"
    and log_inv :: "'s \<Rightarrow> bool" +
  assumes append_key: "log_inv s \<Longrightarrow> log_append s e = Inr (e', s') \<Longrightarrow> FigaroLT e \<noteq> 0 \<Longrightarrow>
    FigaroLT e' = FigaroLT e"
begin

abbreviation held :: "string \<Rightarrow> 's option \<Rightarrow> lt \<Rightarrow> rawjson list option" where
  "held \<equiv> cached_bytes log_lookup"

abbreviation cache_ok :: "'s option \<Rightarrow> bool" where
  "cache_ok c \<equiv> (case c of None \<Rightarrow> True | Some s \<Rightarrow> log_inv s)"

lemma store_bytes_held:
  fixes b :: "rawjson list"
  assumes "cache_ok (pj_cache s)" and "k \<noteq> 0" and "held fp (pj_cache s) k = None"
  defines "s' \<equiv> store_bytes log_append fp k b s"
  shows "cache_ok (pj_cache s')" "pj_state s' = pj_state s" "pj_snap s' = pj_snap s"
    and "j \<noteq> k \<Longrightarrow> held fp (pj_cache s') j = held fp (pj_cache s) j"
    and "held fp (pj_cache s') k = None \<or> b \<noteq> [] \<and> held fp (pj_cache s') k = Some b"
proof -
  have "cache_ok (pj_cache s') \<and> pj_state s' = pj_state s \<and> pj_snap s' = pj_snap s
      \<and> (j \<noteq> k \<longrightarrow> held fp (pj_cache s') j = held fp (pj_cache s) j)
      \<and> (held fp (pj_cache s') k = None \<or> b \<noteq> [] \<and> held fp (pj_cache s') k = Some b)"
  proof (cases "pj_cache s")
    case (Some c)
    let ?e = "\<lparr>LT = 0, FigaroLT = k, Payload = b, Fingerprint = fp\<rparr>"
    show ?thesis
    proof (cases "b \<noteq> [] \<and> (\<exists>e' c'. log_append c ?e = Inr (e', c'))")
      case True
      then obtain e' c' where app: "log_append c ?e = Inr (e', c')" and b: "b \<noteq> []" by blast
      have inv: "log_inv c" using assms(1) Some by simp
      have "FigaroLT e' = k" "Payload e' = b" "Fingerprint e' = fp"
        using append_key [OF inv app] append_payload [OF inv app] assms(2) by simp_all
      with app b Some inv show ?thesis
        by (simp add: s'_def store_bytes_def append_inv [OF inv app] cached_bytes_def usable_def
            append_lookup [OF inv app])
    next
      case False
      then show ?thesis using assms(1,3) Some
        by (cases "log_append c ?e") (auto simp: s'_def store_bytes_def)
    qed
  qed (use assms in \<open>simp add: s'_def store_bytes_def\<close>)
  then show "cache_ok (pj_cache s')" "pj_state s' = pj_state s" "pj_snap s' = pj_snap s"
    "j \<noteq> k \<Longrightarrow> held fp (pj_cache s') j = held fp (pj_cache s) j"
    "held fp (pj_cache s') k = None \<or> b \<noteq> [] \<and> held fp (pj_cache s') k = Some b" by blast+
qed

text \<open>One row: the outcome, and what the cache holds afterwards.\<close>

lemma project_entry_ref:
  fixes config :: "('t, 's, 'e) projection_config"
  assumes "cache_ok (pj_cache s)" and "LT x \<noteq> 0"
  defines "fp \<equiv> pc_Fingerprint config"
  assumes step: "project_entry log_lookup log_append config x s = (err, s')"
  shows "cache_ok (pj_cache s')" "k \<noteq> LT x \<Longrightarrow> held fp (pj_cache s') k = held fp (pj_cache s) k"
    and "reference_projection (held fp (pj_cache s)) config [x] (pj_state s, pj_snap s) =
      (case err of Some e \<Rightarrow> Inl e | None \<Rightarrow> Inr (pj_state s', pj_snap s'))"
    and "reference_projection (held fp (pj_cache s')) config [x] (pj_state s, pj_snap s) =
      (case err of Some e \<Rightarrow> Inl e | None \<Rightarrow> Inr (pj_state s', pj_snap s'))"
    and "held fp (pj_cache s') (LT x) = Some b \<Longrightarrow> held fp (pj_cache s) (LT x) = Some b
      \<or> pc_Encode config (message_of (pc_Chalkboard config) x) (pj_snap s) = Inr b"
proof -
  let ?m = "message_of (pc_Chalkboard config) x"
  let ?goal = "cache_ok (pj_cache s') \<and> (k \<noteq> LT x \<longrightarrow> held fp (pj_cache s') k = held fp (pj_cache s) k)
    \<and> reference_projection (held fp (pj_cache s)) config [x] (pj_state s, pj_snap s) =
      (case err of Some e \<Rightarrow> Inl e | None \<Rightarrow> Inr (pj_state s', pj_snap s'))
    \<and> reference_projection (held fp (pj_cache s')) config [x] (pj_state s, pj_snap s) =
      (case err of Some e \<Rightarrow> Inl e | None \<Rightarrow> Inr (pj_state s', pj_snap s'))
    \<and> (held fp (pj_cache s') (LT x) = Some b \<longrightarrow> held fp (pj_cache s) (LT x) = Some b
        \<or> pc_Encode config ?m (pj_snap s) = Inr b)"
  have ?goal
  proof (cases "m_role ?m = RoleGenesis")
    case True
    then show ?thesis using step assms(1) by (auto simp: project_entry_def Let_def)
  next
    case False
    show ?thesis
    proof (cases "held fp (pj_cache s) (LT x)")
      case (Some b)
      then have "b \<noteq> []" by (rule cached_bytes_nonempty)
      with Some False step assms(1) show ?thesis
        by (auto simp: project_entry_def Let_def fp_def take_bytes_def)
    next
      case None
      show ?thesis
      proof (cases "pc_Encode config ?m (pj_snap s)")
        case (Inl e)
        with None False step assms(1) show ?thesis by (auto simp: project_entry_def Let_def fp_def)
      next
        case (Inr b)
        let ?s = "s\<lparr>pj_encoded := pj_encoded s + 1\<rparr>"
        have s': "s' = take_bytes (pc_Append config) (LT x) ?m b (store_bytes log_append fp (LT x) b ?s)"
          and err: "err = None"
          using None False Inr step by (auto simp: project_entry_def Let_def fp_def)
        have "cache_ok (pj_cache ?s)" "held fp (pj_cache ?s) (LT x) = None" using assms(1) None by simp_all
        note st = store_bytes_held [OF this(1) assms(2) this(2), where b = b]
        show ?thesis using st(1) st(2,3) st(4) [where j = k] st(5) False None Inr
          by (auto simp: s' err take_bytes_def Let_def split: option.splits)
      qed
    qed
  qed
  then show "cache_ok (pj_cache s')" "k \<noteq> LT x \<Longrightarrow> held fp (pj_cache s') k = held fp (pj_cache s) k"
    "reference_projection (held fp (pj_cache s)) config [x] (pj_state s, pj_snap s) =
      (case err of Some e \<Rightarrow> Inl e | None \<Rightarrow> Inr (pj_state s', pj_snap s'))"
    "reference_projection (held fp (pj_cache s')) config [x] (pj_state s, pj_snap s) =
      (case err of Some e \<Rightarrow> Inl e | None \<Rightarrow> Inr (pj_state s', pj_snap s'))"
    "held fp (pj_cache s') (LT x) = Some b \<Longrightarrow> held fp (pj_cache s) (LT x) = Some b
      \<or> pc_Encode config (message_of (pc_Chalkboard config) x) (pj_snap s) = Inr b" by blast+
qed

lemma project_loop_ref:
  fixes config :: "('t, 's, 'e) projection_config"
  defines "fp \<equiv> pc_Fingerprint config"
  assumes "cache_ok (pj_cache s)" and "distinct (map LT es)" and "0 \<notin> LT ` set es"
    and "project_loop log_lookup log_append config es s = (err, s')"
  shows "cache_ok (pj_cache s') \<and> (\<forall>k. k \<notin> LT ` set es \<longrightarrow> held fp (pj_cache s') k = held fp (pj_cache s) k)
    \<and> reference_projection (held fp (pj_cache s)) config es (pj_state s, pj_snap s) =
      (case err of Some e \<Rightarrow> Inl e | None \<Rightarrow> Inr (pj_state s', pj_snap s'))
    \<and> reference_projection (held fp (pj_cache s')) config es (pj_state s, pj_snap s) =
      (case err of Some e \<Rightarrow> Inl e | None \<Rightarrow> Inr (pj_state s', pj_snap s'))"
  using assms(2-)
proof (induction es arbitrary: s)
  case (Cons x es)
  obtain e1 s1 where step: "project_entry log_lookup log_append config x s = (e1, s1)" by fastforce
  have x0: "LT x \<noteq> 0" using Cons.prems(3) by (auto simp: image_iff)
  note st = project_entry_ref [OF Cons.prems(1) x0 step, folded fp_def]
  let ?H = "held fp (pj_cache s)" and ?H1 = "held fp (pj_cache s1)" and ?H2 = "held fp (pj_cache s')"
  have split: "reference_projection H config (x # es) ts = (case reference_projection H config [x] ts of
      Inl e \<Rightarrow> Inl e | Inr ts' \<Rightarrow> reference_projection H config es ts')" for H ts
    using reference_append [of H config "[x]" es ts] by simp
  show ?case
  proof (cases e1)
    case (Some e)
    then show ?thesis using st Cons.prems step by (auto simp: split simp del: reference_projection.simps)
  next
    case None
    have "project_loop log_lookup log_append config es s1 = (err, s')" using Cons.prems(4) step None by simp
    note ih = Cons.IH [OF st(1) _ _ this]
    have "LT x \<notin> LT ` set es" using Cons.prems(2) by simp
    then have H: "\<And>k. k \<in> LT ` set es \<Longrightarrow> ?H k = ?H1 k" using st(2) by metis
    have H2: "\<And>k. k \<in> LT ` set [x] \<Longrightarrow> ?H2 k = ?H1 k" using ih Cons.prems(2,3) by auto
    show ?thesis
      using ih Cons.prems(2,3) st(2-4) None reference_cong [of es ?H ?H1 config] H
        reference_cong [of "[x]" ?H2 ?H1 config] H2
      by (auto simp: split simp del: reference_projection.simps)
  qed
qed simp

text \<open>What the loop adds to the cache are encodings of the rows.\<close>

lemma project_loop_adds:
  fixes config :: "('t, 's, 'e) projection_config"
  defines "fp \<equiv> pc_Fingerprint config"
  assumes "cache_ok (pj_cache s)" and "distinct (map LT es)" and "0 \<notin> LT ` set es"
    and "project_loop log_lookup log_append config es s = (err, s')"
    and "x \<in> set es" and "held fp (pj_cache s') (LT x) = Some b"
  shows "held fp (pj_cache s) (LT x) = Some b
    \<or> (\<exists>snap. pc_Encode config (message_of (pc_Chalkboard config) x) snap = Inr b)"
  using assms(2-)
proof (induction es arbitrary: s)
  case (Cons y es)
  obtain e1 s1 where step: "project_entry log_lookup log_append config y s = (e1, s1)" by fastforce
  have y0: "LT y \<noteq> 0" and dist: "LT y \<notin> LT ` set es" using Cons.prems(2,3) by (auto simp: image_iff)
  note st = project_entry_ref [OF Cons.prems(1) y0 step, folded fp_def]
  have before: ?case if "held fp (pj_cache s1) (LT x) = Some b"
  proof (cases "x = y")
    case True
    then show ?thesis using st(5) [of b] that by auto
  next
    case False
    then have "LT x \<noteq> LT y" using Cons.prems(5) dist by (metis image_eqI set_ConsD)
    then show ?thesis using st(2) [of "LT x"] that by simp
  qed
  show ?case
  proof (cases e1)
    case (Some e)
    then show ?thesis using before Cons.prems(4,6) step by simp
  next
    case None
    have run: "project_loop log_lookup log_append config es s1 = (err, s')" using Cons.prems(4) step None by simp
    show ?thesis
    proof (cases "x \<in> set es")
      case True
      then have "LT x \<noteq> LT y" using dist by (metis image_eqI)
      then show ?thesis using Cons.IH [OF st(1) _ _ run True Cons.prems(6)] Cons.prems(2,3) st(2) [of "LT x"] by auto
    next
      case False
      then have "LT x \<notin> LT ` set es" using Cons.prems(5) dist by simp
      then have "held fp (pj_cache s') (LT x) = held fp (pj_cache s1) (LT x)"
        using project_loop_ref [OF st(1) _ _ run] Cons.prems(2,3) by (simp add: fp_def)
      then show ?thesis using before Cons.prems(6) by simp
    qed
  qed
qed simp

text \<open>
  A whole projection, resumed or not, computes the reference projection of the log, and both its
  result and the projection it resumed can be resumed again.
\<close>

lemma project_retained:
  fixes config :: "('t, 's, 'e) projection_config"
  defines "fp \<equiv> pc_Fingerprint config" and "rows \<equiv> pc_Log config"
  assumes ok: "cache_ok (pc_Cache config)" and dist: "distinct (map LT rows)" and pos: "0 \<notin> LT ` set rows"
    and prev: "\<And>p. pc_Previous config = Some p \<Longrightarrow> retained (held fp (pc_Cache config)) config rows p"
    and run: "ProjectIncrementally log_lookup log_append config = (r, st, c', errs)"
  shows "cache_ok c'" and "k \<notin> LT ` set rows \<Longrightarrow> held fp c' k = held fp (pc_Cache config) k"
    and "reference_projection (held fp (pc_Cache config)) config rows (pc_Initial config, fmempty) =
      (case r of Inl e \<Rightarrow> Inl e | Inr p \<Rightarrow> Inr (ip_State p, ip_Chalkboard p))"
    and "r = Inr p \<Longrightarrow> retained (held fp c') config rows p \<and> ip_Entries p = length rows"
    and "pc_Previous config = Some p \<Longrightarrow> retained (held fp c') config rows p"
    and "reference_projection (held fp c') config rows (pc_Initial config, fmempty) =
      reference_projection (held fp (pc_Cache config)) config rows (pc_Initial config, fmempty)"
    and "x \<in> set rows \<Longrightarrow> held fp c' (LT x) = Some b \<Longrightarrow> held fp (pc_Cache config) (LT x) = Some b
      \<or> (\<exists>snap. pc_Encode config (message_of (pc_Chalkboard config) x) snap = Inr b)"
proof -
  let ?H = "held fp (pc_Cache config)" and ?H' = "held fp c'"
  define n where "n = (case resume_point config of Some q \<Rightarrow> ip_Entries q | None \<Rightarrow> 0)"
  define ts where "ts = (case resume_point config of
    Some q \<Rightarrow> (ip_State q, ip_Chalkboard q) | None \<Rightarrow> (pc_Initial config, fmempty))"
  let ?s = "\<lparr>pj_state = fst ts, pj_snap = snd ts, pj_cache = pc_Cache config, pj_cached = 0,
    pj_encoded = 0, pj_errors = []\<rparr> :: ('t, 's, 'err) projecting"
  obtain err s' where loop: "project_loop log_lookup log_append config (drop n rows) ?s = (err, s')"
    by fastforce
  have r: "r = (case err of Some e \<Rightarrow> Inl e | None \<Rightarrow> Inr \<lparr>ip_State = pj_state s', ip_Chalkboard = pj_snap s',
      ip_Fingerprint = fp, ip_Entries = length rows, ip_LastLT = last_lt rows\<rparr>)" and c': "c' = pj_cache s'"
    using run loop unfolding ProjectIncrementally_def n_def ts_def fp_def rows_def
    by (auto simp: Let_def split: prod.splits option.splits)
  have "distinct (map LT (drop n rows))" "0 \<notin> LT ` set (drop n rows)"
    using dist pos by (auto simp: distinct_drop drop_map [symmetric] dest: in_set_dropD)
  note lp = project_loop_ref [OF _ this loop, folded fp_def, simplified, OF ok]
    and adds = project_loop_adds [OF _ this loop, folded fp_def, simplified, OF ok]
  show "cache_ok c'" using lp by (simp add: c')
  show "k \<notin> LT ` set rows \<Longrightarrow> ?H' k = ?H k" using lp by (auto simp: c' dest: in_set_dropD)
  have same: "?H' j = ?H j" if "j \<in> LT ` set (take m rows)" "m \<le> n" for j m
  proof -
    have "j \<notin> LT ` set (drop n rows)"
      using dist that set_take_subset_set_take [of m n rows]
      by (subst (asm) append_take_drop_id [of n rows, symmetric]) (auto simp del: append_take_drop_id)
    then show ?thesis using lp by (simp add: c')
  qed
  have rp: "resume_point config = (case pc_Previous config of None \<Rightarrow> None | Some q \<Rightarrow> Some q)"
    using prev retained_resumes [of ?H config] unfolding rows_def
    by (cases "pc_Previous config") (auto simp: resume_point_def)
  have head: "reference_projection ?H config (take n rows) (pc_Initial config, fmempty) = Inr ts"
    using prev by (cases "pc_Previous config") (auto simp: rp n_def ts_def retained_def)
  have head': "reference_projection ?H' config (take n rows) (pc_Initial config, fmempty) = Inr ts"
    using head reference_cong [of "take n rows" ?H' ?H config] same by auto
  have full: "reference_projection H config rows (pc_Initial config, fmempty) =
      reference_projection H config (drop n rows) ts"
    if "reference_projection H config (take n rows) (pc_Initial config, fmempty) = Inr ts" for H
    using reference_append [of H config "take n rows" "drop n rows"] that by simp
  show "reference_projection ?H config rows (pc_Initial config, fmempty) =
      (case r of Inl e \<Rightarrow> Inl e | Inr p \<Rightarrow> Inr (ip_State p, ip_Chalkboard p))"
    using full [OF head] lp by (auto simp: r split: option.splits)
  show "r = Inr p \<Longrightarrow> retained ?H' config rows p \<and> ip_Entries p = length rows"
    using full [OF head'] lp by (auto simp: r c' retained_def fp_def split: option.splits)
  show "retained ?H' config rows p" if "pc_Previous config = Some p"
    using retained_cong [OF prev [OF that], of ?H'] same [of _ "ip_Entries p"] that by (auto simp: rp n_def)
  show "reference_projection ?H' config rows (pc_Initial config, fmempty) =
      reference_projection ?H config rows (pc_Initial config, fmempty)"
    using full [OF head] full [OF head'] lp by (simp add: c')
  show "held fp (pc_Cache config) (LT x) = Some b \<or> (\<exists>snap. pc_Encode config (message_of (pc_Chalkboard config) x) snap = Inr b)"
    if x: "x \<in> set rows" and h: "held fp c' (LT x) = Some b"
  proof (cases "x \<in> set (drop n rows)")
    case True
    then show ?thesis using adds h by (simp add: c')
  next
    case False
    then have "x \<in> set (take n rows)" using x by (metis Un_iff append_take_drop_id set_append)
    then have "?H' (LT x) = ?H (LT x)" using same [of "LT x" n] by simp
    then show ?thesis using h by simp
  qed
qed

text \<open>The provider's use: each projection resumes the last one that succeeded.\<close>

lemma project_once_step:
  fixes config :: "('t, 's, 'e) projection_config"
  defines "fp \<equiv> pc_Fingerprint config" and "ini \<equiv> (pc_Initial config, fmempty)"
  assumes "cache_ok c" and "prefix rows rows2" and "distinct (map LT rows2)" and "0 \<notin> LT ` set rows2"
    and "\<And>p. prev = Some p \<Longrightarrow> retained (held fp c) config rows p"
    and "project_once log_lookup log_append config (prev, c) rows = (prev', c')"
  shows "cache_ok c'" and "prev' = Some p \<Longrightarrow> retained (held fp c') config rows2 p"
    and "reference_projection (held fp c') config rows2 ini = reference_projection (held fp c) config rows2 ini"
proof -
  let ?config = "config\<lparr>pc_Log := rows, pc_Cache := c, pc_Previous := prev\<rparr>"
  obtain r st errs where run: "ProjectIncrementally log_lookup log_append ?config = (r, st, c', errs)"
    and prev': "prev' = (case r of Inr p \<Rightarrow> Some p | Inl _ \<Rightarrow> prev)"
    using assms(8) by (auto simp: project_once_def split: prod.splits)
  have dist: "distinct (map LT rows)" "0 \<notin> LT ` set rows" using assms(4-6) by (auto simp: prefix_def)
  note pr = project_retained [of ?config, simplified, folded fp_def, OF assms(3) dist assms(7) run]
  show "cache_ok c'" using pr(1) by simp
  show "prev' = Some p \<Longrightarrow> retained (held fp c') config rows2 p"
    using pr(4,5) retained_prefix [OF _ assms(4)] by (auto simp: prev' split: sum.splits)
  obtain ys where rows2: "rows2 = rows @ ys" using assms(4) by (auto simp: prefix_def)
  have "\<And>k. k \<in> LT ` set ys \<Longrightarrow> held fp c' k = held fp c k"
    using pr(2) assms(5) unfolding rows2 by auto
  then show "reference_projection (held fp c') config rows2 ini = reference_projection (held fp c) config rows2 ini"
    using pr(6) reference_cong [of ys "held fp c'" "held fp c" config]
    unfolding rows2 ini_def by (simp add: reference_append split: sum.splits)
qed

lemma project_run_exact:
  fixes config :: "('t, 's, 'e) projection_config"
  defines "fp \<equiv> pc_Fingerprint config" and "ini \<equiv> (pc_Initial config, fmempty)"
  assumes "cache_ok c" and "sorted_wrt prefix (logs @ [rows])" and "distinct (map LT rows)" and "0 \<notin> LT ` set rows"
    and "foldl (project_once log_lookup log_append config) (None, c) logs = (prev, c')"
  shows "outcome (ProjectIncrementally log_lookup log_append
      (config\<lparr>pc_Log := rows, pc_Cache := c', pc_Previous := prev\<rparr>)) =
    reference_projection (held fp c) config rows ini"
proof -
  have "cache_ok c' \<and> (\<forall>p. prev = Some p \<longrightarrow> retained (held fp c') config rows p)
      \<and> reference_projection (held fp c') config rows ini = reference_projection (held fp c) config rows ini"
    using assms(4-)
  proof (induction logs arbitrary: rows prev c' rule: rev_induct)
    case (snoc l logs)
    obtain prev1 c1 where one: "foldl (project_once log_lookup log_append config) (None, c) logs = (prev1, c1)"
      by fastforce
    have pre: "prefix l rows" and srt: "sorted_wrt prefix (logs @ [rows])" "sorted_wrt prefix (logs @ [l])"
      using snoc.prems(1) by (auto simp: sorted_wrt_append)
    have dl: "distinct (map LT l)" "0 \<notin> LT ` set l" using pre snoc.prems(2,3) by (auto simp: prefix_def)
    note ihl = snoc.IH [OF srt(2) dl one] and ihr = snoc.IH [OF srt(1) snoc.prems(2,3) one]
    have "project_once log_lookup log_append config (prev1, c1) l = (prev, c')" using snoc.prems(4) one by simp
    note st = project_once_step [OF conjunct1 [OF ihl] pre snoc.prems(2,3) _ this, folded fp_def ini_def]
    show ?case using st ihl ihr by auto
  qed (use assms(3) in auto)
  then have ok: "cache_ok c'" and prev: "\<And>p. prev = Some p \<Longrightarrow> retained (held fp c') config rows p"
    and ref: "reference_projection (held fp c') config rows ini = reference_projection (held fp c) config rows ini"
    by auto
  let ?config = "config\<lparr>pc_Log := rows, pc_Cache := c', pc_Previous := prev\<rparr>"
  obtain r st c2 errs where run: "ProjectIncrementally log_lookup log_append ?config = (r, st, c2, errs)"
    using prod_cases4 by blast
  show ?thesis
    using project_retained(3) [of ?config, simplified, folded fp_def ini_def, OF ok assms(5,6) prev run]
    by (simp add: run ref outcome_def)
qed

end

subsection \<open>The logs of the store are such caches\<close>

lemma ml_append_key: "ml_appendLocked s e = (e', s') \<Longrightarrow> FigaroLT e \<noteq> 0 \<Longrightarrow> FigaroLT e' = FigaroLT e"
  by (auto simp: ml_appendLocked_def Let_def)

interpretation mem_cache: translation_cache ml_Read ml_Append ml_Lookup ml_PeekTail ml_Clear ml_wf
  by unfold_locales (auto simp: ml_Append_def intro: ml_append_key)

interpretation file_cache: translation_cache cl_Read "cl_Append ml_Append" cl_Lookup cl_PeekTail
  "cl_Clear ml_Clear" "cl_coherent ml_Read ml_wf"
  by unfold_locales (auto simp: cl_Append_def ml_Append_def intro: ml_append_key split: prod.splits)

subsection \<open>Properties\<close>

text \<open>
  C6: incremental projection is exact. However many projections a provider made before, each over
  a longer log, each resuming the last one that succeeded and reusing the cache they share, the
  next projection computes what a projection from scratch computes: every row's bytes are those
  the cache held at the very start, otherwise its encoding under the chalkboard before it; the
  first encoding error is reported. Neither the watermark nor the bytes cached in between show.
\<close>

theorem incremental_projection_exact:
  fixes config :: "('t, (rawjson list mem_log, rawjson list) cached_log, 'e) projection_config"
    and add :: "(rawjson list mem_log, rawjson list) cached_log \<Rightarrow> wire_entry \<Rightarrow>
      unit + wire_entry \<times> (rawjson list mem_log, rawjson list) cached_log"
  assumes "add = cl_Append ml_Append" and "cl_coherent ml_Read ml_wf c"
    and "sorted_wrt prefix (logs @ [rows])" and "distinct (map LT rows)" and "0 \<notin> LT ` set rows"
    and "foldl (project_once cl_Lookup add config) (None, Some c) logs = (prev, c')"
  shows "outcome (ProjectIncrementally cl_Lookup add
      (config\<lparr>pc_Log := rows, pc_Cache := c', pc_Previous := prev\<rparr>)) =
    reference_projection (cached_bytes cl_Lookup (pc_Fingerprint config) (Some c)) config rows
      (pc_Initial config, fmempty)"
  using assms(6) unfolding assms(1)
  by (intro file_cache.project_run_exact [OF _ assms(3-5)]) (simp_all add: assms(2))

definition demo_config :: "(encoded_messages, (rawjson list mem_log, rawjson list) cached_log, unit) projection_config" where
  "demo_config = \<lparr>pc_Log = [], pc_Cache = None, pc_Chalkboard = None, pc_Previous = None, pc_Fingerprint = ''v5'',
     pc_Initial = no_messages, pc_Encode = \<lambda>m _. Inr [m_role m], pc_Append = AppendEncodedMessage\<rparr>"

theorem incremental_projection_exact_witness:
  "let row = (\<lambda>i r. \<lparr>LT = i, FigaroLT = i, Payload = zero_message\<lparr>m_role := r\<rparr>, Fingerprint = []\<rparr>);
       add = (cl_Append ml_Append :: _ \<Rightarrow> _ \<Rightarrow> unit + _);
       run = foldl (project_once cl_Lookup add demo_config) (None, Some (newCachedLog ml_Read NewMemLog)) [[row 1 RoleUser]]
   in outcome (ProjectIncrementally cl_Lookup add (demo_config\<lparr>pc_Log := [row 1 RoleUser, row 2 RoleAssistant],
        pc_Cache := snd run, pc_Previous := fst run\<rparr>)) =
      Inr (\<lparr>em_PerMessage = [[''user''], [''assistant'']], em_LogicalTimes = [1, 2]\<rparr>, fmempty)"
  unfolding Let_def
  by (subst incremental_projection_exact [where c = "newCachedLog ml_Read NewMemLog" and logs = "[_]", OF refl _ _ _ _ surjective_pairing])
    (auto simp: cl_coherent_def ml_wf_def demo_config_def message_of_def cached_bytes_def usable_def newCachedLog_def
      cl_Lookup_def NewMemLog_def ml_Read_def zero_message_def AppendEncodedMessage_def no_messages_def)

end
