(* ===== verification/Utf8.thy ===== *)
theory Utf8
  imports Prelude
begin

section \<open>UTF-8 as Go's \<open>unicode/utf8\<close> reads it\<close>

text \<open>
  Two views of a byte string that the code uses. \<open>RuneStart\<close> tells a continuation byte from any
  other byte; the boundary arithmetic of \<open>livedoc\<close> and \<open>tool\<close> rests on it. The conversion
  \<open>[]rune(s)\<close> decodes a string into runes, replacing each byte that starts no valid encoding by
  the replacement rune U+FFFD; a rune is represented here by its UTF-8 encoding.
\<close>

definition RuneStart :: "char \<Rightarrow> bool" where
  "RuneStart b \<longleftrightarrow> \<not> (128 \<le> (of_char b :: nat) \<and> (of_char b :: nat) < 192)"

subsection \<open>The shape of encoded text\<close>

text \<open>The number of bytes a leading byte announces; 0 for a byte that leads nothing.\<close>

definition lead_len :: "char \<Rightarrow> nat" where
  "lead_len b = (let n = (of_char b :: nat) in
     if n < 128 then 1 else if n < 192 then 0 else if n < 224 then 2 else if n < 240 then 3
     else if n < 248 then 4 else 0)"

text \<open>
  \<open>utf8_shape s\<close>: every leading byte is followed by the continuation bytes it announces. Every
  valid UTF-8 string has this shape (validity also excludes overlong forms and surrogates).
\<close>

function utf8_shape :: "string \<Rightarrow> bool" where
  "utf8_shape [] = True"
| "utf8_shape (b # bs) =
     (let n = lead_len b in
      n > 0 \<and> n - 1 \<le> length bs \<and> (\<forall>c \<in> set (take (n - 1) bs). \<not> RuneStart c)
      \<and> utf8_shape (drop (n - 1) bs))"
  by pat_completeness auto
termination
  by (relation "measure length") (auto simp: Let_def)

lemma lead_len_start: "lead_len b > 0 \<Longrightarrow> RuneStart b"
  by (auto simp: lead_len_def RuneStart_def Let_def split: if_splits)

lemma utf8_shape_hd: "utf8_shape s \<Longrightarrow> s = [] \<or> RuneStart (s ! 0)"
  by (cases s) (auto simp: Let_def lead_len_start)

lemma utf8_shape_append: "utf8_shape xs \<Longrightarrow> utf8_shape (xs @ ys) \<longleftrightarrow> utf8_shape ys"
  by (induction xs rule: utf8_shape.induct) (auto simp: Let_def)

text \<open>Cutting before a leading byte keeps the shape of both parts.\<close>

lemma utf8_shape_cut:
  "utf8_shape s \<Longrightarrow> i < length s \<Longrightarrow> RuneStart (s ! i) \<Longrightarrow> utf8_shape (take i s) \<and> utf8_shape (drop i s)"
proof (induction s arbitrary: i rule: utf8_shape.induct)
  case (2 b bs)
  define n where "n = lead_len b"
  have n: "n > 0" "n - 1 \<le> length bs" "\<forall>c \<in> set (take (n - 1) bs). \<not> RuneStart c"
    and rest: "utf8_shape (drop (n - 1) bs)"
    using "2.prems"(1) by (auto simp: Let_def n_def)
  show ?case
  proof (cases "i < n")
    case True
    have "i = 0"
    proof (rule ccontr)
      assume "i \<noteq> 0"
      then have "bs ! (i - 1) \<in> set (take (n - 1) bs)" using True n(2)
        by (auto simp: in_set_conv_nth intro!: exI [of _ "i - 1"])
      with n(3) "2.prems"(3) \<open>i \<noteq> 0\<close> show False by (simp add: nth_Cons')
    qed
    with "2.prems"(1) show ?thesis by simp
  next
    case False
    let ?k = "i - n"
    have i: "i = Suc (n - 1 + ?k)" using False n(1) by simp
    have k: "?k < length (drop (n - 1) bs)" "RuneStart (drop (n - 1) bs ! ?k)"
      using "2.prems"(2,3) n(2) by (subst (asm) (1 2) i, simp)+
    have IH: "utf8_shape (take ?k (drop (n - 1) bs)) \<and> utf8_shape (drop ?k (drop (n - 1) bs))"
      using "2.IH" [OF n_def rest k] by simp
    have "take i (b # bs) = b # take (n - 1) bs @ take ?k (drop (n - 1) bs)"
      by (subst i) (simp add: take_add)
    moreover have "drop i (b # bs) = drop ?k (drop (n - 1) bs)"
      by (subst i) (simp add: add.commute)
    ultimately show ?thesis using IH n by (simp add: Let_def flip: n_def)
  qed
qed simp

text \<open>A rune boundary of a string: its ends and the positions of leading bytes.\<close>

definition rune_boundary :: "string \<Rightarrow> nat \<Rightarrow> bool" where
  "rune_boundary s i \<longleftrightarrow> i = 0 \<or> i = length s \<or> (i < length s \<and> RuneStart (s ! i))"

lemma boundary_take_shape:
  "utf8_shape s \<Longrightarrow> rune_boundary s i \<Longrightarrow> utf8_shape (take i s)"
  using utf8_shape_cut by (auto simp: rune_boundary_def)

lemma shared_prefix_boundary:
  assumes "utf8_shape old" "utf8_shape new" "rune_boundary old a" "take a old = take a new" "a \<le> length new"
  shows "rune_boundary new a"
proof -
  have "utf8_shape (take a new)" using boundary_take_shape assms by metis
  then have "utf8_shape (drop a new)" using assms(2) utf8_shape_append by (metis append_take_drop_id)
  then show ?thesis using utf8_shape_hd [of "drop a new"] assms(5)
    by (cases "a < length new") (auto simp: rune_boundary_def)
qed

subsection \<open>Decoding: \<open>[]rune(s)\<close>\<close>

definition byte_in :: "nat \<Rightarrow> nat \<Rightarrow> char \<Rightarrow> bool" where
  "byte_in lo hi b \<longleftrightarrow> lo \<le> (of_char b :: nat) \<and> (of_char b :: nat) \<le> hi"

text \<open>The accept range of the second byte, which some leading bytes narrow.\<close>

definition accept_lo :: "char \<Rightarrow> nat" where
  "accept_lo b = (if byte_in 0xE0 0xE0 b then 0xA0 else if byte_in 0xF0 0xF0 b then 0x90 else 0x80)"

definition accept_hi :: "char \<Rightarrow> nat" where
  "accept_hi b = (if byte_in 0xED 0xED b then 0x9F else if byte_in 0xF4 0xF4 b then 0x8F else 0xBF)"

text \<open>The width of the valid encoding at the front of the string; 0 when there is none.\<close>

definition rune_width :: "string \<Rightarrow> nat" where
  "rune_width s =
     (case s of
        [] \<Rightarrow> 0
      | b # bs \<Rightarrow>
          if byte_in 0 0x7F b then 1
          else if byte_in 0xC2 0xDF b then
            (if length bs \<ge> 1 \<and> byte_in 0x80 0xBF (bs ! 0) then 2 else 0)
          else if byte_in 0xE0 0xEF b then
            (if length bs \<ge> 2
                \<and> byte_in (accept_lo b) (accept_hi b) (bs ! 0)
                \<and> byte_in 0x80 0xBF (bs ! 1) then 3 else 0)
          else if byte_in 0xF0 0xF4 b then
            (if length bs \<ge> 3
                \<and> byte_in (accept_lo b) (accept_hi b) (bs ! 0)
                \<and> byte_in 0x80 0xBF (bs ! 1) \<and> byte_in 0x80 0xBF (bs ! 2) then 4 else 0)
          else 0)"

definition rune_error :: string where
  "rune_error = [CHR 0xEF, CHR 0xBF, CHR 0xBD]"

function runes :: "string \<Rightarrow> string list" where
  "runes [] = []"
| "runes (b # bs) =
     (let w = rune_width (b # bs) in
      if w = 0 then rune_error # runes bs else take w (b # bs) # runes (drop w (b # bs)))"
  by pat_completeness auto
termination
  by (relation "measure length") (auto simp: Let_def)

text \<open>\<open>utf8.Valid\<close>: no byte decodes to an error.\<close>

function utf8_valid :: "string \<Rightarrow> bool" where
  "utf8_valid [] = True"
| "utf8_valid (b # bs) =
     (let w = rune_width (b # bs) in if w = 0 then False else utf8_valid (drop w (b # bs)))"
  by pat_completeness auto
termination
  by (relation "measure length") (auto simp: Let_def)

declare runes.simps(2) [simp del] utf8_valid.simps(2) [simp del]

lemma rune_width_le: "rune_width s \<le> length s"
  by (auto simp: rune_width_def split: list.splits)

lemma concat_runes: "utf8_valid s \<Longrightarrow> concat (runes s) = s"
proof (induction s rule: utf8_valid.induct)
  case (2 b bs)
  then show ?case by (auto simp: utf8_valid.simps(2) runes.simps(2) Let_def split: if_splits)
qed simp

lemma runes_nonempty: "r \<in> set (runes s) \<Longrightarrow> r \<noteq> []"
proof (induction s rule: runes.induct)
  case (2 b bs)
  then show ?case by (auto simp: runes.simps(2) Let_def rune_error_def split: if_splits)
qed simp

lemma byte_in_shape:
  "byte_in 0 0x7F b \<Longrightarrow> lead_len b = 1"
  "byte_in 0xC2 0xDF b \<Longrightarrow> lead_len b = 2"
  "byte_in 0xE0 0xEF b \<Longrightarrow> lead_len b = 3"
  "byte_in 0xF0 0xF4 b \<Longrightarrow> lead_len b = 4"
  "byte_in lo hi b \<Longrightarrow> 128 \<le> lo \<Longrightarrow> hi < 192 \<Longrightarrow> \<not> RuneStart b"
  by (auto simp: byte_in_def lead_len_def RuneStart_def)

lemma accept_range: "128 \<le> accept_lo b" "accept_hi b < 192"
  by (simp_all add: accept_lo_def accept_hi_def)

lemma take_upto3:
  "length xs \<ge> Suc 0 \<Longrightarrow> take (Suc 0) xs = [xs ! 0]"
  "length xs \<ge> 2 \<Longrightarrow> take 2 xs = [xs ! 0, xs ! 1]"
  "length xs \<ge> 3 \<Longrightarrow> take 3 xs = [xs ! 0, xs ! 1, xs ! 2]"
  by (auto simp: list_eq_iff_nth_eq less_Suc_eq numeral_eq_Suc)

lemma rune_width_shape:
  assumes "rune_width (b # bs) = w" "w > 0"
  shows "lead_len b = w \<and> w - 1 \<le> length bs \<and> (\<forall>c \<in> set (take (w - 1) bs). \<not> RuneStart c)"
  using assms
  by (auto simp: rune_width_def take_upto3 byte_in_shape accept_range split: if_splits)

lemma utf8_valid_shape: "utf8_valid s \<Longrightarrow> utf8_shape s"
proof (induction s rule: utf8_valid.induct)
  case (2 b bs)
  define w where "w = rune_width (b # bs)"
  have w: "w > 0" and v: "utf8_valid (drop w (b # bs))"
    using "2.prems" by (auto simp: utf8_valid.simps(2) Let_def w_def split: if_splits)
  have "utf8_shape (drop w (b # bs))" using "2.IH" [OF w_def _ v] w by simp
  moreover have "drop w (b # bs) = drop (w - 1) bs" using w by (cases w) auto
  ultimately show ?case
    using rune_width_shape [OF w_def [symmetric] w] w by (simp add: Let_def)
qed simp

end
