(* ===== verification/Livedoc.thy ===== *)
theory Livedoc
  imports Message Utf8 Delta_Codec
begin

section \<open>The live document (\<open>internal/livedoc\<close>)\<close>

text \<open>
  \<open>livedoc.go\<close>: single-region splices of a byte string, with \<open>Diff\<close> aligned to rune
  boundaries; \<open>node.go\<close>: the typed node list of a live unit and its positional ops. The loops
  of \<open>Diff\<close> are kept as index loops.
\<close>

subsection \<open>Splices\<close>

record delta =
  At :: int
  Del :: int
  Ins :: string

text \<open>\<open>Apply\<close> clamps malformed offsets; the sum \<open>at + d.Del\<close> is 64-bit.\<close>

definition splice :: "string \<Rightarrow> delta \<Rightarrow> string" where
  "splice blob d =
     (let len = int (length blob);
          at0 = (if At d < 0 then 0 else At d);
          at = (if at0 > len then len else at0);
          end0 = wrap64 (at + Del d);
          end1 = (if end0 < at then at else end0);
          end2 = (if end1 > len then len else end1)
      in take (nat at) blob @ Ins d @ drop (nat end2) blob)"

function prefix_loop :: "string \<Rightarrow> string \<Rightarrow> nat \<Rightarrow> nat" where
  "prefix_loop old new a =
     (if a < length old \<and> a < length new \<and> old ! a = new ! a then prefix_loop old new (a + 1) else a)"
  by pat_completeness auto
termination
  by (relation "measure (\<lambda>(old, new, a). length old - a)") auto

function suffix_loop :: "string \<Rightarrow> string \<Rightarrow> nat \<Rightarrow> nat \<Rightarrow> nat" where
  "suffix_loop old new a z =
     (if z < length old - a \<and> z < length new - a
         \<and> old ! (length old - 1 - z) = new ! (length new - 1 - z)
      then suffix_loop old new a (z + 1) else z)"
  by pat_completeness auto
termination
  by (relation "measure (\<lambda>(old, new, a, z). length old - z)") auto

declare prefix_loop.simps [simp del] suffix_loop.simps [simp del]

fun prefix_backoff :: "string \<Rightarrow> nat \<Rightarrow> nat" where
  "prefix_backoff old 0 = 0"
| "prefix_backoff old (Suc a) =
     (if Suc a < length old \<and> \<not> RuneStart (old ! Suc a) then prefix_backoff old a else Suc a)"

fun suffix_backoff :: "string \<Rightarrow> nat \<Rightarrow> nat" where
  "suffix_backoff old 0 = 0"
| "suffix_backoff old (Suc z) =
     (if \<not> RuneStart (old ! (length old - Suc z)) then suffix_backoff old z else Suc z)"

definition Diff :: "string \<Rightarrow> string \<Rightarrow> delta option" where
  "Diff old new =
     (if old = new then None
      else
        let a0 = prefix_loop old new 0;
            z0 = suffix_loop old new a0 0;
            a = prefix_backoff old a0;
            z = suffix_backoff old z0
        in Some \<lparr>At = int a, Del = int (length old) - int a - int z,
                 Ins = drop a (take (length new - z) new)\<rparr>)"

subsubsection \<open>What the loops compute\<close>

lemma prefix_loop_spec:
  assumes "a \<le> length old" "a \<le> length new" "take a old = take a new"
  defines "r \<equiv> prefix_loop old new a"
  shows "a \<le> r \<and> r \<le> length old \<and> r \<le> length new \<and> take r old = take r new
    \<and> (r < length old \<and> r < length new \<longrightarrow> old ! r \<noteq> new ! r)"
  using assms(1-3) unfolding r_def
proof (induction old new a rule: prefix_loop.induct)
  case (1 old new a)
  show ?case
  proof (cases "a < length old \<and> a < length new \<and> old ! a = new ! a")
    case True
    then have "take (a + 1) old = take (a + 1) new" using "1.prems" by (simp add: take_Suc_conv_app_nth)
    with "1.IH" [OF True] True show ?thesis by (simp add: prefix_loop.simps [of old new a])
  next
    case False
    with "1.prems" show ?thesis by (auto simp: prefix_loop.simps [of old new a])
  qed
qed

lemma drop_Suc_suffix:
  assumes "z < length xs" "z < length ys" "xs ! (length xs - 1 - z) = ys ! (length ys - 1 - z)"
    and "drop (length xs - z) xs = drop (length ys - z) ys"
  shows "drop (length xs - (z + 1)) xs = drop (length ys - (z + 1)) ys"
proof -
  have "drop (length s - (z + 1)) s = s ! (length s - 1 - z) # drop (length s - z) s"
    if "z < length s" for s :: "'a list"
    using that Cons_nth_drop_Suc [of "length s - 1 - z" s] by (simp add: Suc_diff_Suc)
  with assms show ?thesis by metis
qed

lemma suffix_loop_spec:
  assumes "z \<le> length old - a" "z \<le> length new - a"
    and "drop (length old - z) old = drop (length new - z) new"
  defines "r \<equiv> suffix_loop old new a z"
  shows "z \<le> r \<and> r \<le> length old - a \<and> r \<le> length new - a
    \<and> drop (length old - r) old = drop (length new - r) new
    \<and> (r < length old - a \<and> r < length new - a \<longrightarrow> old ! (length old - 1 - r) \<noteq> new ! (length new - 1 - r))"
  using assms(1-3) unfolding r_def
proof (induction old new a z rule: suffix_loop.induct)
  case (1 old new a z)
  show ?case
  proof (cases "z < length old - a \<and> z < length new - a \<and> old ! (length old - 1 - z) = new ! (length new - 1 - z)")
    case True
    then have "drop (length old - (z + 1)) old = drop (length new - (z + 1)) new"
      using "1.prems"(3) by (intro drop_Suc_suffix) auto
    with "1.IH" [OF True] True show ?thesis by (simp add: suffix_loop.simps [of old new a z])
  next
    case False
    with "1.prems" show ?thesis by (auto simp: suffix_loop.simps [of old new a z])
  qed
qed

lemma prefix_backoff_le: "prefix_backoff old a \<le> a"
  by (induction a) (auto simp: le_SucI)

lemma prefix_backoff_boundary: "a \<le> length old \<Longrightarrow> rune_boundary old (prefix_backoff old a)"
  by (induction a) (auto simp: rune_boundary_def)

lemma suffix_backoff_le: "suffix_backoff old z \<le> z"
  by (induction z) (auto simp: le_SucI)

lemma suffix_backoff_start:
  "suffix_backoff old z = 0 \<or> RuneStart (old ! (length old - suffix_backoff old z))"
  by (induction z) auto

text \<open>The common prefix and suffix that \<open>Diff\<close> settles on.\<close>

lemma Diff_parts:
  assumes "Diff old new = Some d"
  obtains a z where
    "At d = int a" "Del d = int (length old) - int a - int z" "Ins d = drop a (take (length new - z) new)"
    "a + z \<le> length old" "a + z \<le> length new"
    "take a old = take a new" "drop (length old - z) old = drop (length new - z) new"
    "rune_boundary old a" "z = 0 \<or> RuneStart (old ! (length old - z))"
proof -
  define a0 where "a0 = prefix_loop old new 0"
  define z0 where "z0 = suffix_loop old new a0 0"
  define a where "a = prefix_backoff old a0"
  define z where "z = suffix_backoff old z0"
  have a0: "a0 \<le> length old" "a0 \<le> length new" "take a0 old = take a0 new"
    using prefix_loop_spec [of 0 old new] by (auto simp: a0_def)
  have z0: "z0 \<le> length old - a0" "z0 \<le> length new - a0"
      "drop (length old - z0) old = drop (length new - z0) new"
    using suffix_loop_spec [of 0 old a0 new] by (auto simp: z0_def)
  have le: "a \<le> a0" "z \<le> z0" by (simp_all add: a_def z_def prefix_backoff_le suffix_backoff_le)
  have pre: "take a old = take a new" using a0(3) le(1) by (metis min.absorb2 take_take min.commute)
  have suf: "drop (length old - z) old = drop (length new - z) new"
  proof -
    have "drop (z0 - z) (drop (length s - z0) s) = drop (length s - z) s" if "z0 \<le> length s" for s :: string
      using that le(2) by (simp add: le_diff_conv)
    then show ?thesis using z0 le a0 by (metis diff_le_self order_trans)
  qed
  show thesis
  proof (rule that [of a z])
    show "At d = int a" "Del d = int (length old) - int a - int z" "Ins d = drop a (take (length new - z) new)"
      using assms by (auto simp: Diff_def Let_def a_def z_def a0_def z0_def split: if_splits)
    show "a + z \<le> length old" "a + z \<le> length new" using le a0 z0 by auto
    show "take a old = take a new" by (rule pre)
    show "drop (length old - z) old = drop (length new - z) new" by (rule suf)
    show "rune_boundary old a" using a0(1) by (simp add: a_def prefix_backoff_boundary)
    show "z = 0 \<or> RuneStart (old ! (length old - z))" unfolding z_def by (rule suffix_backoff_start)
  qed
qed

lemma splice_Diff:
  assumes "Diff old new = Some d" and "int (length old) < 2 ^ 63"
  shows "splice old d = new"
proof -
  obtain a z where p: "At d = int a" "Del d = int (length old) - int a - int z"
      "Ins d = drop a (take (length new - z) new)"
      "a + z \<le> length old" "a + z \<le> length new" "take a old = take a new"
      "drop (length old - z) old = drop (length new - z) new"
    by (rule Diff_parts [OF assms(1)])
  have w: "wrap64 (int a + Del d) = int (length old - z)"
    using p(2,4) assms(2) by (subst wrap64_id) auto
  have n: "nat (int (length old) - int z) = length old - z" by simp
  have "splice old d = take a old @ Ins d @ drop (length old - z) old"
    using p(4) by (simp add: splice_def Let_def p(1) w n)
  also have "\<dots> = take a new @ drop a (take (length new - z) new) @ drop (length new - z) new"
    by (simp only: p(3,6,7))
  also have "\<dots> = take a (take (length new - z) new) @ drop a (take (length new - z) new) @ drop (length new - z) new"
    using p(5) by (simp add: min_def)
  also have "\<dots> = new" by (simp only: append_take_drop_id append_assoc [symmetric])
  finally show ?thesis .
qed

text \<open>A text field as the delta interface sees it: no delta when the texts agree.\<close>

definition splice_opt :: "string \<Rightarrow> delta option \<Rightarrow> string" where
  "splice_opt s d = (case d of None \<Rightarrow> s | Some d' \<Rightarrow> splice s d')"

definition short :: "string \<Rightarrow> bool" where
  "short s \<longleftrightarrow> int (length s) < 2 ^ 63"

lemma splice_opt_Diff: "short old \<Longrightarrow> splice_opt old (Diff old new) = new"
proof (cases "Diff old new")
  case None
  then have "old = new" by (simp add: Diff_def Let_def split: if_splits)
  with None show ?thesis by (simp add: splice_opt_def)
next
  case (Some d)
  moreover assume "short old"
  ultimately show ?thesis by (simp add: splice_opt_def short_def splice_Diff)
qed

interpretation blob: delta_codec splice_opt Diff "\<lambda>old new. short old"
  by unfold_locales (rule splice_opt_Diff)


subsubsection \<open>Alignment and minimality\<close>

lemma Diff_aligned_old:
  assumes "Diff old new = Some d"
  shows "rune_boundary old (nat (At d)) \<and> rune_boundary old (nat (At d + Del d))"
proof -
  obtain a z where p: "At d = int a" "Del d = int (length old) - int a - int z" "a + z \<le> length old"
      "rune_boundary old a" "z = 0 \<or> RuneStart (old ! (length old - z))"
    by (rule Diff_parts [OF assms])
  have "nat (At d + Del d) = length old - z" using p(1-3) by (simp add: nat_diff_distrib)
  moreover have "rune_boundary old (length old - z)"
    using p(3,5) by (auto simp: rune_boundary_def)
  ultimately show ?thesis using p(1,4) by simp
qed

lemma Diff_aligned_new:
  assumes "Diff old new = Some d" and "utf8_shape old" and "utf8_shape new"
  shows "rune_boundary new (nat (At d)) \<and> rune_boundary new (nat (At d) + length (Ins d))"
proof -
  obtain a z where p: "At d = int a" "Ins d = drop a (take (length new - z) new)"
      "a + z \<le> length old" "a + z \<le> length new" "take a old = take a new"
      "drop (length old - z) old = drop (length new - z) new"
      "rune_boundary old a" "z = 0 \<or> RuneStart (old ! (length old - z))"
    by (rule Diff_parts [OF assms(1)])
  have "rune_boundary new a"
    using shared_prefix_boundary [OF assms(2,3) p(7,5)] p(4) by simp
  moreover have "rune_boundary new (length new - z)"
  proof (cases "z = 0")
    case False
    then have "new ! (length new - z) = old ! (length old - z)"
      using p(3,4,6) by (metis Nat.add_0_right add_leD2 diff_diff_cancel diff_le_self drop_eq_Nil
          leD linorder_le_less_linear nth_drop zero_less_iff_neq_zero diff_self_eq_0 hd_drop_conv_nth
          diff_less le_trans not_gr_zero)
    with False p(4,8) show ?thesis by (auto simp: rune_boundary_def)
  qed (simp add: rune_boundary_def)
  moreover have "nat (At d) + length (Ins d) = length new - z" using p(1,2,4) by simp
  ultimately show ?thesis using p(1) by simp
qed

text \<open>
  On text whose bytes all start a rune (ASCII) no back-off happens, and the splice is minimal:
  no splice that turns one text into the other deletes or inserts fewer bytes.
\<close>

lemma prefix_backoff_ascii:
  "(\<And>b. b \<in> set old \<Longrightarrow> RuneStart b) \<Longrightarrow> prefix_backoff old a = a"
  by (cases a) auto

lemma suffix_backoff_ascii:
  "(\<And>b. b \<in> set old \<Longrightarrow> RuneStart b) \<Longrightarrow> z \<le> length old \<Longrightarrow> suffix_backoff old z = z"
  by (cases z) auto

lemma Diff_ascii:
  assumes "Diff old new = Some d" and "\<And>b. b \<in> set old \<Longrightarrow> RuneStart b"
  defines "a \<equiv> prefix_loop old new 0"
  defines "z \<equiv> suffix_loop old new a 0"
  shows "Del d = int (length old - a - z)" and "length (Ins d) = length new - a - z"
proof -
  have a: "a \<le> length old" "a \<le> length new"
    using prefix_loop_spec [of 0 old new] by (auto simp: a_def)
  have z: "z \<le> length old - a" "z \<le> length new - a"
    using suffix_loop_spec [of 0 old a new] by (auto simp: z_def)
  have "prefix_backoff old a = a" "suffix_backoff old z = z"
    using assms(2) z a by (auto intro: prefix_backoff_ascii suffix_backoff_ascii)
  with assms(1) have d: "d = \<lparr>At = int a, Del = int (length old) - int a - int z,
      Ins = drop a (take (length new - z) new)\<rparr>"
    by (auto simp: Diff_def Let_def a_def z_def split: if_splits)
  show "Del d = int (length old - a - z)" "length (Ins d) = length new - a - z"
    using a z by (simp_all add: d)
qed

lemma common_prefix_bound:
  assumes "take p old = take p new" "p \<le> length old" "p \<le> length new"
  shows "p \<le> prefix_loop old new 0"
proof (rule ccontr)
  define r where "r = prefix_loop old new 0"
  assume "\<not> p \<le> prefix_loop old new 0"
  then have "r < p" by (simp add: r_def)
  moreover from this have "old ! r \<noteq> new ! r"
    using prefix_loop_spec [of 0 old new] assms(2,3) by (auto simp: r_def)
  ultimately show False using assms(1) by (metis nth_take)
qed

lemma common_suffix_bound:
  assumes "drop (length old - q) old = drop (length new - q) new" "q \<le> length old - a" "q \<le> length new - a"
  shows "q \<le> suffix_loop old new a 0"
proof (rule ccontr)
  define r where "r = suffix_loop old new a 0"
  assume "\<not> q \<le> suffix_loop old new a 0"
  then have "r < q" by (simp add: r_def)
  then have ne: "old ! (length old - 1 - r) \<noteq> new ! (length new - 1 - r)"
    using suffix_loop_spec [of 0 old a new] assms(2,3) by (auto simp: r_def)
  have "s ! (length s - 1 - r) = drop (length s - q) s ! (q - 1 - r)" if "q \<le> length s" for s :: string
    using that \<open>r < q\<close> by simp
  with ne assms show False by (metis diff_le_self order_trans)
qed

lemma Diff_minimal_aux:
  assumes "Diff old new = Some d" and "\<And>b. b \<in> set old \<Longrightarrow> RuneStart b"
    and "old = p @ x @ q" and "new = p @ y @ q"
  shows "Del d \<le> int (length x)" and "length (Ins d) \<le> length y"
proof -
  define a where "a = prefix_loop old new 0"
  define z where "z = suffix_loop old new a 0"
  have p: "length p \<le> a" unfolding a_def by (rule common_prefix_bound) (simp_all add: assms(3,4))
  have a: "a \<le> length old" "a \<le> length new"
    using prefix_loop_spec [of 0 old new] by (auto simp: a_def)
  define q' where "q' = min (length q) (min (length old - a) (length new - a))"
  have suf: "drop (length s - q') s = drop (length q - q') q" if "s = r @ q" for s r :: string
    using that by (simp add: q'_def)
  have "q' \<le> z" unfolding z_def
    by (rule common_suffix_bound) (use suf [of old "p @ x"] suf [of new "p @ y"] assms(3,4) in \<open>auto simp: q'_def\<close>)
  then have "length old - a - z \<le> length x" "length new - a - z \<le> length y"
    using p a assms(3,4) by (auto simp: q'_def min_def split: if_splits)
  with Diff_ascii [OF assms(1,2)] show "Del d \<le> int (length x)" "length (Ins d) \<le> length y"
    by (simp_all add: a_def z_def)
qed

subsection \<open>Nodes and their ops\<close>

abbreviation NodeProse :: string where "NodeProse \<equiv> ''prose''"
abbreviation NodeThinking :: string where "NodeThinking \<equiv> ''thinking''"
abbreviation NodeTool :: string where "NodeTool \<equiv> ''tool''"
abbreviation NodeSteering :: string where "NodeSteering \<equiv> ''steering''"

abbreviation StatusRunning :: string where "StatusRunning \<equiv> ''running''"
abbreviation StatusOK :: string where "StatusOK \<equiv> ''ok''"
abbreviation StatusError :: string where "StatusError \<equiv> ''error''"

abbreviation OpOpen :: string where "OpOpen \<equiv> ''open''"
abbreviation OpPatch :: string where "OpPatch \<equiv> ''patch''"
abbreviation OpSet :: string where "OpSet \<equiv> ''set''"

record node =
  n_type :: string
  n_version :: int
  n_markdown :: string
  n_id :: string
  n_name :: string
  n_args :: args
  n_status :: string
  n_output :: string
  n_summary :: string
  n_started_at :: int
  n_finished_at :: int

record node_op =
  op_kind :: string
  op_index :: int
  op_node :: "node option"
  op_field :: string
  op_at :: int
  op_del :: int
  op_ins :: string
  op_status :: string
  op_name :: string
  op_args :: args
  op_started_at :: int
  op_finished_at :: int

definition zero_node :: node where
  "zero_node = \<lparr>n_type = [], n_version = 0, n_markdown = [], n_id = [], n_name = [], n_args = None,
     n_status = [], n_output = [], n_summary = [], n_started_at = 0, n_finished_at = 0\<rparr>"

definition zero_op :: node_op where
  "zero_op = \<lparr>op_kind = [], op_index = 0, op_node = None, op_field = [], op_at = 0, op_del = 0,
     op_ins = [], op_status = [], op_name = [], op_args = None, op_started_at = 0, op_finished_at = 0\<rparr>"

definition args_len :: "args \<Rightarrow> nat" where
  "args_len a = (case a of None \<Rightarrow> 0 | Some kvs \<Rightarrow> length kvs)"

definition sameArgs :: "args \<Rightarrow> args \<Rightarrow> bool" where
  "sameArgs a b = (if args_len a \<noteq> args_len b then False else a = b)"

lemma sameArgs_iff [simp]: "sameArgs a b \<longleftrightarrow> a = b"
  by (auto simp: sameArgs_def)

text \<open>The patch op for a string field: empty when the texts agree.\<close>

definition patch_op :: "nat \<Rightarrow> string \<Rightarrow> string \<Rightarrow> string \<Rightarrow> node_op list" where
  "patch_op i field old new =
     (case Diff old new of
        None \<Rightarrow> []
      | Some d \<Rightarrow> [zero_op\<lparr>op_kind := OpPatch, op_index := int i, op_field := field,
                    op_at := At d, op_del := Del d, op_ins := Ins d\<rparr>])"

definition set_op :: "nat \<Rightarrow> node \<Rightarrow> node \<Rightarrow> node_op list" where
  "set_op i old n =
     (if n_status old \<noteq> n_status n \<or> n_name old \<noteq> n_name n \<or> \<not> sameArgs (n_args old) (n_args n)
         \<or> n_started_at old \<noteq> n_started_at n \<or> n_finished_at old \<noteq> n_finished_at n
      then [zero_op\<lparr>op_kind := OpSet, op_index := int i, op_status := n_status n, op_name := n_name n,
             op_args := n_args n, op_started_at := n_started_at n, op_finished_at := n_finished_at n\<rparr>]
      else [])"

text \<open>The body of the loop of \<open>DiffNodes\<close> at index \<open>i\<close>.\<close>

definition diff_at :: "node list \<Rightarrow> node list \<Rightarrow> nat \<Rightarrow> node_op list" where
  "diff_at old nxt i =
     (if i \<ge> length old
      then [zero_op\<lparr>op_kind := OpOpen, op_index := int i, op_node := Some (nxt ! i)\<rparr>]
      else let oN = old ! i; n = nxt ! i in
        if n_type n = NodeProse \<or> n_type n = NodeThinking
        then patch_op i ''markdown'' (n_markdown oN) (n_markdown n)
        else if n_type n = NodeTool
        then patch_op i ''output'' (n_output oN) (n_output n) @ set_op i oN n
        else [])"

definition DiffNodes :: "node list \<Rightarrow> node list \<Rightarrow> node_op list" where
  "DiffNodes old nxt = concat (map (diff_at old nxt) [0..<length nxt])"

definition in_range :: "int \<Rightarrow> 'a list \<Rightarrow> bool" where
  "in_range i xs \<longleftrightarrow> 0 \<le> i \<and> i < int (length xs)"

definition apply_patch :: "node \<Rightarrow> node_op \<Rightarrow> node" where
  "apply_patch n op =
     (let d = \<lparr>At = op_at op, Del = op_del op, Ins = op_ins op\<rparr> in
      if op_field op = ''output'' then n\<lparr>n_output := splice (n_output n) d\<rparr>
      else n\<lparr>n_markdown := splice (n_markdown n) d\<rparr>)"

definition apply_set :: "node \<Rightarrow> node_op \<Rightarrow> node" where
  "apply_set n op =
     (let n1 = n\<lparr>n_status := op_status op\<rparr>;
          n2 = (if op_name op \<noteq> [] then n1\<lparr>n_name := op_name op\<rparr> else n1);
          n3 = (if op_args op \<noteq> None then n2\<lparr>n_args := op_args op\<rparr> else n2);
          n4 = (if op_started_at op \<noteq> 0 then n3\<lparr>n_started_at := op_started_at op\<rparr> else n3)
      in if op_finished_at op \<noteq> 0 then n4\<lparr>n_finished_at := op_finished_at op\<rparr> else n4)"

definition ApplyOp :: "node list \<Rightarrow> node_op \<Rightarrow> node list" where
  "ApplyOp nodes op =
     (if op_kind op = OpOpen then
        (case op_node op of None \<Rightarrow> nodes | Some n \<Rightarrow> nodes @ [n])
      else if op_kind op = OpPatch then
        (if \<not> in_range (op_index op) nodes then nodes
         else nodes[nat (op_index op) := apply_patch (nodes ! nat (op_index op)) op])
      else if op_kind op = OpSet then
        (if \<not> in_range (op_index op) nodes then nodes
         else nodes[nat (op_index op) := apply_set (nodes ! nat (op_index op)) op])
      else nodes)"

subsubsection \<open>Ops replay the list\<close>

text \<open>
  What an update of one node may change so that its ops carry it: the streamed text of a prose
  or thinking node; the output and the scalar state of a tool node, none of which is cleared
  once set. (A \<open>Set\<close> op cannot clear a field: the zero value means "leave alone".)
\<close>

definition kept :: "'a \<Rightarrow> 'a \<Rightarrow> 'a \<Rightarrow> bool" where
  "kept z old new \<longleftrightarrow> (new = z \<longrightarrow> old = z)"

definition node_ok :: "node \<Rightarrow> node \<Rightarrow> bool" where
  "node_ok old n \<longleftrightarrow>
     (if n_type n = NodeProse \<or> n_type n = NodeThinking
      then n = old\<lparr>n_markdown := n_markdown n\<rparr> \<and> short (n_markdown old)
      else if n_type n = NodeTool
      then n = old\<lparr>n_output := n_output n, n_status := n_status n, n_name := n_name n, n_args := n_args n,
                  n_started_at := n_started_at n, n_finished_at := n_finished_at n\<rparr>
        \<and> short (n_output old)
        \<and> kept [] (n_name old) (n_name n) \<and> kept None (n_args old) (n_args n)
        \<and> kept 0 (n_started_at old) (n_started_at n) \<and> kept 0 (n_finished_at old) (n_finished_at n)
      else n = old)"

definition nodes_ok :: "node list \<Rightarrow> node list \<Rightarrow> bool" where
  "nodes_ok old nxt \<longleftrightarrow> length old \<le> length nxt \<and> (\<forall>i < length old. node_ok (old ! i) (nxt ! i))"

definition put_text :: "string \<Rightarrow> string \<Rightarrow> node \<Rightarrow> node" where
  "put_text field t n = (if field = ''output'' then n\<lparr>n_output := t\<rparr> else n\<lparr>n_markdown := t\<rparr>)"

definition get_text :: "string \<Rightarrow> node \<Rightarrow> string" where
  "get_text field n = (if field = ''output'' then n_output n else n_markdown n)"

lemma foldl_patch_op:
  assumes "i < length xs" and "short old" and "get_text f (xs ! i) = old"
  shows "foldl ApplyOp xs (patch_op i f old new) = xs[i := put_text f new (xs ! i)]"
proof (cases "Diff old new")
  case None
  then have "old = new" by (simp add: Diff_def Let_def split: if_splits)
  then have "put_text f new (xs ! i) = xs ! i" using assms(3) by (auto simp: put_text_def get_text_def)
  with None show ?thesis by (simp add: patch_op_def)
next
  case (Some d)
  have "splice old \<lparr>At = At d, Del = Del d, Ins = Ins d\<rparr> = new"
    using splice_Diff [OF Some] assms(2) by (cases d) (simp add: short_def)
  then have "apply_patch (xs ! i) (zero_op\<lparr>op_kind := OpPatch, op_index := int i, op_field := f,
      op_at := At d, op_del := Del d, op_ins := Ins d\<rparr>) = put_text f new (xs ! i)"
    using assms(3) by (cases "f = ''output''") (simp_all add: apply_patch_def zero_op_def put_text_def get_text_def)
  with Some assms(1) show ?thesis
    by (simp add: patch_op_def ApplyOp_def in_range_def zero_op_def)
qed

lemma foldl_set_op:
  assumes "i < length xs" and "xs ! i = old"
    and "kept [] (n_name old) (n_name n)" "kept None (n_args old) (n_args n)"
    and "kept 0 (n_started_at old) (n_started_at n)" "kept 0 (n_finished_at old) (n_finished_at n)"
  shows "foldl ApplyOp xs (set_op i old n) =
    xs[i := old\<lparr>n_status := n_status n, n_name := n_name n, n_args := n_args n,
                n_started_at := n_started_at n, n_finished_at := n_finished_at n\<rparr>]"
proof -
  have "apply_set old (zero_op\<lparr>op_kind := OpSet, op_index := int i, op_status := n_status n,
      op_name := n_name n, op_args := n_args n, op_started_at := n_started_at n,
      op_finished_at := n_finished_at n\<rparr>)
    = old\<lparr>n_status := n_status n, n_name := n_name n, n_args := n_args n,
          n_started_at := n_started_at n, n_finished_at := n_finished_at n\<rparr>"
    using assms(3-6) by (auto simp: apply_set_def zero_op_def kept_def Let_def)
  moreover have "old\<lparr>n_status := n_status n, n_name := n_name n, n_args := n_args n,
      n_started_at := n_started_at n, n_finished_at := n_finished_at n\<rparr> = old" if "set_op i old n = []"
    using that by (cases old) (auto simp: set_op_def split: if_splits)
  moreover have "xs[i := old] = xs" using assms(2) by (metis list_update_id)
  ultimately show ?thesis using assms(1,2)
    by (cases "set_op i old n = []") (auto simp: set_op_def ApplyOp_def in_range_def zero_op_def split: if_splits)
qed

lemma foldl_diff_at:
  assumes "i < length xs" and "xs ! i = old ! i" and "i < length old" and "node_ok (old ! i) (nxt ! i)"
  shows "foldl ApplyOp xs (diff_at old nxt i) = xs[i := nxt ! i]"
proof -
  let ?o = "old ! i" and ?n = "nxt ! i"
  consider (prose) "n_type ?n = NodeProse \<or> n_type ?n = NodeThinking" | (tool) "n_type ?n = NodeTool"
    | (other) "n_type ?n \<notin> {NodeProse, NodeThinking, NodeTool}" by blast
  then show ?thesis
  proof cases
    case prose
    then have "diff_at old nxt i = patch_op i ''markdown'' (n_markdown ?o) (n_markdown ?n)"
      using assms(3) by (auto simp: diff_at_def Let_def)
    moreover have "put_text ''markdown'' (n_markdown ?n) ?o = ?n" "short (n_markdown ?o)"
      using prose assms(4) by (auto simp: node_ok_def put_text_def split: if_splits)
    ultimately show ?thesis using assms(1,2) by (simp add: foldl_patch_op get_text_def)
  next
    case tool
    let ?o' = "put_text ''output'' (n_output ?n) ?o"
    have ok: "short (n_output ?o)" "kept [] (n_name ?o) (n_name ?n)" "kept None (n_args ?o) (n_args ?n)"
        "kept 0 (n_started_at ?o) (n_started_at ?n)" "kept 0 (n_finished_at ?o) (n_finished_at ?n)"
      and n: "?n = ?o\<lparr>n_output := n_output ?n, n_status := n_status ?n, n_name := n_name ?n,
           n_args := n_args ?n, n_started_at := n_started_at ?n, n_finished_at := n_finished_at ?n\<rparr>"
      using tool assms(4) by (auto simp: node_ok_def)
    have "set_op i ?o ?n = set_op i ?o' ?n" by (simp add: set_op_def put_text_def)
    then have "diff_at old nxt i = patch_op i ''output'' (n_output ?o) (n_output ?n) @ set_op i ?o' ?n"
      using assms(3) tool by (simp add: diff_at_def Let_def)
    moreover have "foldl ApplyOp (xs[i := ?o']) (set_op i ?o' ?n) = xs[i := ?n]"
      using assms(1) ok n by (subst foldl_set_op) (auto simp: put_text_def)
    ultimately show ?thesis using assms(1,2) ok(1) by (simp add: foldl_patch_op get_text_def)
  next
    case other
    then have "?n = ?o" using assms(4) by (simp add: node_ok_def)
    moreover from this have "xs[i := ?n] = xs" using assms(2) by (metis list_update_id)
    ultimately show ?thesis using other assms(1-3) by (simp add: diff_at_def Let_def)
  qed
qed

lemma foldl_DiffNodes_upto:
  assumes "nodes_ok old nxt" and "k \<le> length nxt"
  shows "foldl ApplyOp old (concat (map (diff_at old nxt) [0..<k])) = take k nxt @ drop k old"
  using assms(2)
proof (induction k)
  case (Suc k)
  let ?xs = "take k nxt @ drop k old"
  have IH: "foldl ApplyOp old (concat (map (diff_at old nxt) [0..<k])) = ?xs" using Suc by simp
  show ?case
  proof (cases "k < length old")
    case True
    then have "?xs ! k = old ! k" "k < length ?xs" using Suc.prems by (simp_all add: nth_append)
    moreover have "node_ok (old ! k) (nxt ! k)" using assms(1) True by (simp add: nodes_ok_def)
    ultimately have "foldl ApplyOp ?xs (diff_at old nxt k) = ?xs[k := nxt ! k]"
      using True by (simp add: foldl_diff_at)
    also have "\<dots> = take (Suc k) nxt @ drop (Suc k) old"
      using Suc.prems True by (simp add: list_update_append take_Suc_conv_app_nth Cons_nth_drop_Suc [symmetric])
    finally show ?thesis using IH by simp
  next
    case False
    then have "foldl ApplyOp ?xs (diff_at old nxt k) = take (Suc k) nxt"
      using Suc.prems by (simp add: diff_at_def ApplyOp_def zero_op_def take_Suc_conv_app_nth)
    with IH False show ?thesis by simp
  qed
qed simp

lemma foldl_DiffNodes: "nodes_ok old nxt \<Longrightarrow> foldl ApplyOp old (DiffNodes old nxt) = nxt"
  using foldl_DiffNodes_upto [of old nxt "length nxt"] by (simp add: DiffNodes_def nodes_ok_def)

interpretation unit_ops: delta_codec "foldl ApplyOp" DiffNodes nodes_ok
  by unfold_locales (rule foldl_DiffNodes)

subsection \<open>Properties\<close>

text \<open>
  a consumer that splices in the deltas between every two consecutive versions of a text
  holds the last version (for texts shorter than \<open>2 ^ 63\<close> bytes, the range of Go's \<open>int\<close>).
\<close>

theorem splice_replica:
  assumes "\<forall>t \<in> set (s # ts). short t"
  shows "foldl splice_opt s (map (\<lambda>(old, new). Diff old new) (zip (s # ts) ts)) = last (s # ts)"
  by (rule blob.replica_zip) (use assms in \<open>auto dest: set_zip_leftD simp del: set_simps\<close>)

theorem splice_replica_witness:
  "foldl splice_opt ''he'' (map (\<lambda>(old, new). Diff old new) (zip [''he'', ''hello'', ''yellow''] [''hello'', ''yellow''])) = ''yellow''"
  using splice_replica [of "''he''" "[''hello'', ''yellow'']"] by (simp add: short_def)

text \<open>
  \<open>Diff\<close> never cuts a rune: on valid UTF-8 texts the deleted region starts and ends on rune
  boundaries of the old text and the inserted region on rune boundaries of the new one, so that
  a consumer that renders between deltas always holds valid text.
\<close>

theorem Diff_rune_aligned:
  assumes "utf8_valid old" and "utf8_valid new" and "Diff old new = Some d"
  shows "rune_boundary old (nat (At d)) \<and> rune_boundary old (nat (At d + Del d))
    \<and> rune_boundary new (nat (At d)) \<and> rune_boundary new (nat (At d) + length (Ins d))"
  using Diff_aligned_old [OF assms(3)] Diff_aligned_new [OF assms(3)] assms(1,2) utf8_valid_shape by blast

theorem Diff_rune_aligned_witness:
  "let old = [CHR ''a'', CHR 0xC3, CHR 0xA9]; new = [CHR ''a'', CHR 0xC3, CHR 0xAA]
   in Diff old new = Some \<lparr>At = 1, Del = 2, Ins = [CHR 0xC3, CHR 0xAA]\<rparr> \<and> rune_boundary old 1"
proof -
  let ?old = "[CHR ''a'', CHR 0xC3, CHR 0xA9]" and ?new = "[CHR ''a'', CHR 0xC3, CHR 0xAA]"
  have d: "Diff ?old ?new = Some \<lparr>At = 1, Del = 2, Ins = [CHR 0xC3, CHR 0xAA]\<rparr>" by code_simp
  have "utf8_valid ?old" "utf8_valid ?new" by code_simp+
  from Diff_rune_aligned [OF this d] d show ?thesis by (simp add: Let_def)
qed

text \<open>
  on single-byte text the splice is minimal: whatever common prefix and suffix one cuts off,
  \<open>Diff\<close> deletes no more and inserts no more than the two middles.
\<close>

theorem Diff_minimal:
  assumes "\<forall>b \<in> set (p @ x @ q). RuneStart b" and "Diff (p @ x @ q) (p @ y @ q) = Some d"
  shows "Del d \<le> int (length x) \<and> length (Ins d) \<le> length y"
  using Diff_minimal_aux [OF assms(2) _ refl refl] assms(1) by blast

theorem Diff_minimal_witness:
  "Diff (''a'' @ ''bc'' @ ''d'') (''a'' @ ''bx'' @ ''d'') = Some \<lparr>At = 2, Del = 1, Ins = ''x''\<rparr>
   \<and> Del \<lparr>At = 2, Del = 1, Ins = ''x''\<rparr> \<le> int (length ''bc'')"
proof -
  have d: "Diff (''a'' @ ''bc'' @ ''d'') (''a'' @ ''bx'' @ ''d'') = Some \<lparr>At = 2, Del = 1, Ins = ''x''\<rparr>" by code_simp
  show ?thesis using Diff_minimal [OF _ d] d by (simp add: RuneStart_def)
qed

text \<open>
  a consumer that folds the ops of \<open>DiffNodes\<close> between every two consecutive node lists of a
  live unit holds the last list, when every step is an update of the kind the unit makes: nodes
  only appended, text replaced, tool state set and not cleared.
\<close>

theorem node_ops_replica:
  assumes "\<forall>(old, nxt) \<in> set (zip (u # us) us). nodes_ok old nxt"
  shows "foldl (foldl ApplyOp) u (map (\<lambda>(old, nxt). DiffNodes old nxt) (zip (u # us) us)) = last (u # us)"
  by (rule unit_ops.replica_zip [OF assms])

theorem node_ops_replica_witness:
  "let p0 = zero_node\<lparr>n_type := NodeProse, n_markdown := ''hi''\<rparr>; p1 = p0\<lparr>n_markdown := ''hi you''\<rparr>;
       t0 = zero_node\<lparr>n_type := NodeTool, n_status := StatusRunning\<rparr>;
       t1 = t0\<lparr>n_name := ''bash'', n_output := ''ok'', n_status := StatusOK\<rparr>
   in foldl (foldl ApplyOp) [] (map (\<lambda>(old, nxt). DiffNodes old nxt)
        (zip [[], [p0], [p1, t0], [p1, t1]] [[p0], [p1, t0], [p1, t1]])) = [p1, t1]"
  using node_ops_replica [of "[]" "[[zero_node\<lparr>n_type := NodeProse, n_markdown := ''hi''\<rparr>],
     [zero_node\<lparr>n_type := NodeProse, n_markdown := ''hi you''\<rparr>, zero_node\<lparr>n_type := NodeTool, n_status := StatusRunning\<rparr>],
     [zero_node\<lparr>n_type := NodeProse, n_markdown := ''hi you''\<rparr>,
      zero_node\<lparr>n_type := NodeTool, n_name := ''bash'', n_output := ''ok'', n_status := StatusOK\<rparr>]]"]
  by (simp add: nodes_ok_def node_ok_def zero_node_def kept_def short_def less_Suc_eq)

end
