(* ===== verification/Partial_JSON.thy ===== *)
theory Partial_JSON
  imports Prelude
begin

section \<open>Streaming field extraction (\<open>internal/partialjson\<close>)\<close>

text \<open>
  \<open>StringField\<close> reads a top-level string field from a JSON object that may be cut off anywhere.
  The parser state of the source is the input with an index; it only moves forward and only looks
  at the rest, so the state here is the rest of the input. A scanner that fails is \<open>None\<close>.
\<close>

subsection \<open>Runes and escapes\<close>

type_synonym rune = nat

definition IsSurrogate :: "rune \<Rightarrow> bool" where
  "IsSurrogate r \<longleftrightarrow> 0xD800 \<le> r \<and> r < 0xE000"

text \<open>\<open>utf16.DecodeRune\<close> and \<open>utf8.AppendRune\<close>.\<close>

definition DecodeRune :: "rune \<Rightarrow> rune \<Rightarrow> rune" where
  "DecodeRune r1 r2 =
     (if 0xD800 \<le> r1 \<and> r1 < 0xDC00 \<and> 0xDC00 \<le> r2 \<and> r2 < 0xE000
      then (r1 - 0xD800) * 0x400 + (r2 - 0xDC00) + 0x10000 else 0xFFFD)"

definition encode3 :: "rune \<Rightarrow> string" where
  "encode3 r = [char_of (0xE0 + r div 0x1000), char_of (0x80 + r div 0x40 mod 0x40), char_of (0x80 + r mod 0x40)]"

definition AppendRune :: "rune \<Rightarrow> string" where
  "AppendRune r =
     (if r < 0x80 then [char_of r]
      else if r < 0x800 then [char_of (0xC0 + r div 0x40), char_of (0x80 + r mod 0x40)]
      else if IsSurrogate r \<or> r > 0x10FFFF then encode3 0xFFFD
      else if r < 0x10000 then encode3 r
      else [char_of (0xF0 + r div 0x40000), char_of (0x80 + r div 0x1000 mod 0x40),
            char_of (0x80 + r div 0x40 mod 0x40), char_of (0x80 + r mod 0x40)])"

definition hexval :: "char \<Rightarrow> nat option" where
  "hexval c =
     (let n = of_char c in
      if 48 \<le> n \<and> n \<le> 57 then Some (n - 48)
      else if 97 \<le> n \<and> n \<le> 102 then Some (n - 97 + 10)
      else if 65 \<le> n \<and> n \<le> 70 then Some (n - 65 + 10)
      else None)"

fun hex_loop :: "nat \<Rightarrow> string \<Rightarrow> nat option" where
  "hex_loop r [] = Some r"
| "hex_loop r (c # cs) = (case hexval c of None \<Rightarrow> None | Some v \<Rightarrow> hex_loop ((r * 16 + v) mod 0x10000) cs)"

definition parseHex4 :: "string \<Rightarrow> nat option" where
  "parseHex4 b = hex_loop 0 (take 4 b)"

abbreviation bslash :: char where "bslash \<equiv> CHR 0x5C"
abbreviation dquote :: char where "dquote \<equiv> CHR 0x22"

text \<open>The one-letter escapes and the runes they stand for.\<close>

definition simple_escapes :: "(char \<times> rune) list" where
  "simple_escapes =
     [(dquote, 0x22), (bslash, 0x5C), (CHR ''/'', 0x2F), (CHR ''n'', 0x0A), (CHR ''t'', 0x09),
      (CHR ''r'', 0x0D), (CHR ''b'', 0x08), (CHR ''f'', 0x0C)]"

definition decodeEscape :: "string \<Rightarrow> (nat \<times> rune) option" where
  "decodeEscape b =
     (if length b < 2 then None
      else case map_of simple_escapes (b ! 1) of
             Some r \<Rightarrow> Some (2, r)
           | None \<Rightarrow>
               (if b ! 1 = CHR ''u'' then
                  (if length b < 6 then None
                   else case parseHex4 (take 4 (drop 2 b)) of None \<Rightarrow> None | Some v \<Rightarrow> Some (6, v))
                else None))"

lemma decodeEscape_n: "decodeEscape b = Some (n, r) \<Longrightarrow> 2 \<le> n \<and> n \<le> length b"
  by (auto simp: decodeEscape_def split: if_splits option.splits)

lemma decodeEscape_append: "decodeEscape b = Some nr \<Longrightarrow> decodeEscape (b @ ys) = Some nr"
  by (auto simp: decodeEscape_def nth_append split: if_splits option.splits)

subsection \<open>Scanners\<close>

definition is_ws :: "char \<Rightarrow> bool" where
  "is_ws c \<longleftrightarrow> c \<in> {CHR 0x20, CHR 0x09, CHR 0x0A, CHR 0x0D}"

fun skipWS :: "string \<Rightarrow> string option" where
  "skipWS [] = None"
| "skipWS (c # cs) = (if is_ws c then skipWS cs else Some (c # cs))"

definition surrogate_tail :: "string \<Rightarrow> nat \<Rightarrow> bool" where
  "surrogate_tail s n \<longleftrightarrow> s ! n = bslash \<and> s ! (n + 1) = CHR ''u''"

text \<open>
  One escape inside a complete string: what it appends to \<open>buf\<close> and the bytes it takes, or
  \<open>None\<close> where \<open>parseCompleteString\<close> gives up.
\<close>

definition complete_escape :: "string \<Rightarrow> (string \<times> nat) option" where
  "complete_escape s =
     (if length s < 2 then None
      else case decodeEscape s of
             None \<Rightarrow> None
           | Some (n, r) \<Rightarrow>
               (if IsSurrogate r then
                  (if n + 6 > length s \<or> \<not> surrogate_tail s n then None
                   else case decodeEscape (drop n s) of
                          None \<Rightarrow> None
                        | Some (_, r2) \<Rightarrow> Some (AppendRune (DecodeRune r r2), n + 6))
                else Some (AppendRune r, n)))"

lemma complete_escape_n: "complete_escape s = Some (out, k) \<Longrightarrow> 2 \<le> k \<and> k \<le> length s"
  by (auto simp: complete_escape_def split: if_splits option.splits dest: decodeEscape_n)

text \<open>The loop of \<open>parseCompleteString\<close>, after the opening quote.\<close>

function complete_loop :: "string \<Rightarrow> string \<Rightarrow> (string \<times> string) option" where
  "complete_loop buf [] = None"
| "complete_loop buf (c # cs) =
     (if c = dquote then Some (buf, cs)
      else if c \<noteq> bslash then complete_loop (buf @ [c]) cs
      else case complete_escape (c # cs) of
             None \<Rightarrow> None
           | Some (out, k) \<Rightarrow> complete_loop (buf @ out) (drop k (c # cs)))"
  by pat_completeness auto
termination
  by (relation "measure (\<lambda>(buf, s). length s)") (auto dest: complete_escape_n)

declare complete_loop.simps(2) [simp del]

definition parseCompleteString :: "string \<Rightarrow> (string \<times> string) option" where
  "parseCompleteString s = (case s of [] \<Rightarrow> None | c # cs \<Rightarrow> if c \<noteq> dquote then None else complete_loop [] cs)"

text \<open>The number of bytes a leading byte announces, 0 for none: the \<open>want\<close> of the source.\<close>

definition want_bytes :: "char \<Rightarrow> nat" where
  "want_bytes c =
     (let n = (of_char c :: nat) in
      if 0xC0 \<le> n \<and> n < 0xE0 then 2 else if 0xE0 \<le> n \<and> n < 0xF0 then 3
      else if 0xF0 \<le> n \<and> n < 0xF8 then 4 else 0)"

text \<open>
  One iteration of the loop of \<open>decodeTolerant\<close>: what it appends to \<open>buf\<close> and the bytes it
  takes, or \<open>None\<close> where the source returns \<open>string(buf)\<close>.
\<close>

definition tolerant_escape :: "string \<Rightarrow> (string \<times> nat) option" where
  "tolerant_escape s =
     (if length s < 2 then None
      else case decodeEscape s of
             None \<Rightarrow> None
           | Some (n, r) \<Rightarrow>
               (if IsSurrogate r then
                  (if n + 6 > length s then None
                   else if \<not> surrogate_tail s n then Some (AppendRune 0xFFFD, n)
                   else case decodeEscape (drop n s) of
                          None \<Rightarrow> None
                        | Some (_, r2) \<Rightarrow> Some (AppendRune (DecodeRune r r2), n + 6))
                else Some (AppendRune r, n)))"

definition tolerant_step :: "string \<Rightarrow> (string \<times> nat) option" where
  "tolerant_step s =
     (case s of
        [] \<Rightarrow> None
      | c # cs \<Rightarrow>
          (if c = dquote then None
           else if c = bslash then tolerant_escape s
           else if (of_char c :: nat) < 0x80 then Some ([c], 1)
           else if want_bytes c = 0 then Some ([c], 1)
           else if want_bytes c > length s then None
           else Some (take (want_bytes c) s, want_bytes c)))"

lemma tolerant_escape_n: "tolerant_escape s = Some (out, k) \<Longrightarrow> 2 \<le> k \<and> k \<le> length s"
  by (auto simp: tolerant_escape_def split: if_splits option.splits dest: decodeEscape_n)

lemma tolerant_step_n:
  assumes "tolerant_step s = Some (out, k)"
  shows "0 < k \<and> k \<le> length s"
proof (cases s)
  case (Cons c cs)
  show ?thesis
  proof (cases "c = bslash")
    case True
    then show ?thesis using assms Cons tolerant_escape_n [of s out k] by (simp add: tolerant_step_def)
  next
    case False
    then show ?thesis using assms Cons by (auto simp: tolerant_step_def split: if_splits)
  qed
qed (use assms in \<open>simp add: tolerant_step_def\<close>)

text \<open>\<open>decodeTolerant\<close>: what it appends to \<open>buf\<close> from the rest of the input on.\<close>

function decodeTolerant :: "string \<Rightarrow> string" where
  "decodeTolerant s =
     (case tolerant_step s of None \<Rightarrow> [] | Some (out, k) \<Rightarrow> out @ decodeTolerant (drop k s))"
  by pat_completeness auto
termination
  by (relation "measure length") (auto dest: tolerant_step_n)

declare decodeTolerant.simps [simp del]

text \<open>One iteration of \<open>skipString\<close> that neither ends nor fails: the bytes it takes.\<close>

definition skip_escape :: "string \<Rightarrow> nat option" where
  "skip_escape s =
     (if length s < 2 then None
      else if s ! 1 = CHR ''u'' then (if length s < 6 then None else Some 6)
      else Some 2)"

lemma skip_escape_n: "skip_escape s = Some k \<Longrightarrow> 2 \<le> k \<and> k \<le> length s"
  by (auto simp: skip_escape_def split: if_splits)

function skip_string_loop :: "string \<Rightarrow> string option" where
  "skip_string_loop [] = None"
| "skip_string_loop (c # cs) =
     (if c = bslash then
        (case skip_escape (c # cs) of None \<Rightarrow> None | Some k \<Rightarrow> skip_string_loop (drop k (c # cs)))
      else if c = dquote then Some cs
      else skip_string_loop cs)"
  by pat_completeness auto
termination
  by (relation "measure length") (auto dest: skip_escape_n)

declare skip_string_loop.simps(2) [simp del]

definition skipString :: "string \<Rightarrow> string option" where
  "skipString s = (case s of [] \<Rightarrow> None | c # cs \<Rightarrow> if c \<noteq> dquote then None else skip_string_loop cs)"

text \<open>
  The scanners are extension-stable: what they make of an input they make of every longer input,
  leaving the longer rest. Each recursion is followed by one induction on the length.
\<close>

definition stable :: "(string \<Rightarrow> string option) \<Rightarrow> string \<Rightarrow> bool" where
  "stable f s \<longleftrightarrow> (\<forall>r. f s = Some r \<longrightarrow> length r < length s \<and> (\<forall>ys. f (s @ ys) = Some (r @ ys)))"

lemma stableD: "stable f s \<Longrightarrow> f s = Some r \<Longrightarrow> length r < length s" "stable f s \<Longrightarrow> f s = Some r \<Longrightarrow> f (s @ ys) = Some (r @ ys)"
  by (simp_all add: stable_def)

lemma stable_step:
  "f s = f r \<Longrightarrow> (\<And>ys. f (s @ ys) = f (r @ ys)) \<Longrightarrow> length r \<le> length s \<Longrightarrow> stable f r \<Longrightarrow> stable f s"
  unfolding stable_def by (metis order_less_le_trans)

lemma skip_escape_append: "skip_escape s = Some k \<Longrightarrow> skip_escape (s @ ys) = Some k"
  by (auto simp: skip_escape_def nth_append split: if_splits)

lemma skip_string_loop_stable: "stable skip_string_loop s"
proof (induction s rule: length_induct)
  case (1 s)
  show ?case
  proof (cases s)
    case (Cons c cs)
    show ?thesis
    proof (cases "c = bslash")
      case True
      show ?thesis
      proof (cases "skip_escape s")
        case (Some k)
        then have k: "2 \<le> k" "k \<le> length s" using skip_escape_n by auto
        then have "stable skip_string_loop (drop k s)" using 1 Cons by simp
        moreover have "skip_string_loop (s @ ys) = skip_string_loop (drop k s @ ys)" for ys
        proof -
          have "skip_string_loop (s @ ys) = skip_string_loop (drop k (s @ ys))"
            using True Cons skip_escape_append [OF Some, of ys] by (simp add: skip_string_loop.simps(2))
          with k show ?thesis by simp
        qed
        moreover have "skip_string_loop s = skip_string_loop (drop k s)"
          using True Cons Some by (simp add: skip_string_loop.simps(2))
        ultimately show ?thesis by (auto intro: stable_step)
      qed (use True Cons in \<open>simp add: stable_def skip_string_loop.simps(2)\<close>)
    next
      case False
      have "stable skip_string_loop cs" using 1 Cons by simp
      with False Cons show ?thesis by (auto simp: stable_def skip_string_loop.simps(2))
    qed
  qed (simp add: stable_def)
qed

lemma skipString_stable: "stable skipString s"
  using skip_string_loop_stable [of "tl s"] by (cases s) (auto simp: stable_def skipString_def)

text \<open>The depth is decremented before it is compared with 0, so it is an integer.\<close>

definition opens :: "char \<Rightarrow> bool" where
  "opens c \<longleftrightarrow> c = CHR ''{'' \<or> c = CHR ''[''"

definition closes :: "char \<Rightarrow> bool" where
  "closes c \<longleftrightarrow> c = CHR ''}'' \<or> c = CHR '']''"

function skip_container_loop :: "int \<Rightarrow> string \<Rightarrow> string option" where
  "skip_container_loop depth [] = None"
| "skip_container_loop depth (c # cs) =
     (if c = dquote then
        (case skipString (c # cs) of None \<Rightarrow> None | Some r \<Rightarrow> skip_container_loop depth r)
      else if opens c then skip_container_loop (depth + 1) cs
      else if closes c then (if depth - 1 = 0 then Some cs else skip_container_loop (depth - 1) cs)
      else skip_container_loop depth cs)"
  by pat_completeness auto
termination
  by (relation "measure (\<lambda>(d, s). length s)") (auto dest: stableD(1) [OF skipString_stable])

declare skip_container_loop.simps(2) [simp del]

definition skipContainer :: "string \<Rightarrow> string option" where
  "skipContainer s = skip_container_loop 0 s"

lemma skip_container_loop_stable: "stable (skip_container_loop d) s"
proof (induction s arbitrary: d rule: length_induct)
  case (1 s)
  show ?case
  proof (cases s)
    case (Cons c cs)
    have cs: "stable (skip_container_loop d') cs" for d' using 1 Cons by simp
    show ?thesis
    proof (cases "c = dquote")
      case True
      show ?thesis
      proof (cases "skipString s")
        case (Some r)
        have r: "length r < length s" "skipString (s @ ys) = Some (r @ ys)" for ys
          using stableD [OF skipString_stable Some] by auto
        have "skip_container_loop d s = skip_container_loop d r"
          using True Cons Some by (simp add: skip_container_loop.simps(2))
        moreover have "skip_container_loop d (s @ ys) = skip_container_loop d (r @ ys)" for ys
          using True Cons r(2) [of ys] by (simp add: skip_container_loop.simps(2))
        moreover have "stable (skip_container_loop d) r" using 1 r(1) by blast
        ultimately show ?thesis using r(1) by (auto intro: stable_step)
      qed (use True Cons in \<open>simp add: stable_def skip_container_loop.simps(2)\<close>)
    next
      case False
      then show ?thesis using cs [of d] cs [of "d + 1"] cs [of "d - 1"] Cons
        unfolding stable_def by (simp add: skip_container_loop.simps(2) less_SucI)
    qed
  qed (simp add: stable_def)
qed

definition skipLiteral :: "string \<Rightarrow> string option" where
  "skipLiteral s =
     (if prefix ''true'' s then Some (drop 4 s)
      else if prefix ''false'' s then Some (drop 5 s)
      else if prefix ''null'' s then Some (drop 4 s)
      else None)"

definition is_num :: "char \<Rightarrow> bool" where
  "is_num c \<longleftrightarrow> (48 \<le> (of_char c :: nat) \<and> (of_char c :: nat) \<le> 57) \<or> c \<in> {CHR ''.'', CHR ''e'', CHR ''E'', CHR ''+'', CHR ''-''}"

definition skipNumber :: "string \<Rightarrow> string option" where
  "skipNumber s =
     (let s1 = (case s of [] \<Rightarrow> [] | c # cs \<Rightarrow> if c = CHR ''-'' then cs else s);
          r = dropWhile is_num s1
      in if r = [] then None else if length r < length s then Some r else None)"

definition skipValue :: "string \<Rightarrow> string option" where
  "skipValue s =
     (case skipWS s of
        None \<Rightarrow> None
      | Some t \<Rightarrow>
          (case t of
             [] \<Rightarrow> skipNumber t
           | c # _ \<Rightarrow>
               (if c = dquote then skipString t
                else if c = CHR ''{'' \<or> c = CHR ''['' then skipContainer t
                else if c = CHR ''t'' \<or> c = CHR ''f'' \<or> c = CHR ''n'' then skipLiteral t
                else skipNumber t)))"

subsubsection \<open>The remaining scanners are stable\<close>

lemma skipWS_length: "skipWS s = Some t \<Longrightarrow> length t \<le> length s \<and> t \<noteq> []"
  by (induction s) (auto split: if_splits)

lemma skipWS_append: "skipWS s = Some t \<Longrightarrow> skipWS (s @ ys) = Some (t @ ys)"
  by (induction s) (auto split: if_splits)

lemma skipLiteral_stable: "stable skipLiteral s"
  unfolding stable_def skipLiteral_def
  by (auto simp: prefix_def split: if_splits)

lemma dropWhile_stops: "dropWhile P xs \<noteq> [] \<Longrightarrow> dropWhile P (xs @ ys) = dropWhile P xs @ ys"
  by (induction xs) auto

lemma skipNumber_stable: "stable skipNumber s"
  unfolding stable_def skipNumber_def
  by (cases s) (auto simp: Let_def dropWhile_stops split: if_splits)

lemma skipValue_stable: "stable skipValue s"
proof (cases "skipWS s")
  case (Some t)
  then obtain c cs where t: "t = c # cs" using skipWS_length by (cases t) auto
  define f where "f = (if c = dquote then skipString else if opens c then skipContainer
      else if c = CHR ''t'' \<or> c = CHR ''f'' \<or> c = CHR ''n'' then skipLiteral else skipNumber)"
  have "skipValue s = f t" using Some by (simp add: skipValue_def f_def t opens_def)
  moreover have "skipValue (s @ ys) = f (t @ ys)" for ys
    using skipWS_append [OF Some, of ys] by (simp add: skipValue_def f_def t opens_def)
  moreover have "stable skipContainer t"
    using skip_container_loop_stable [of 0 t] by (simp add: stable_def skipContainer_def)
  then have "stable f t" by (simp add: f_def skipString_stable skipLiteral_stable skipNumber_stable)
  moreover have "length t \<le> length s" using skipWS_length [OF Some] by simp
  ultimately show ?thesis unfolding stable_def by (metis order_less_le_trans)
qed (simp add: stable_def skipValue_def)

lemma complete_escape_append:
  assumes "complete_escape s = Some p" shows "complete_escape (s @ ys) = Some p"
proof (cases "decodeEscape s")
  case (Some nr)
  obtain n r where nr: "nr = (n, r)" by (cases nr)
  note e = decodeEscape_append [OF Some, of ys]
  show ?thesis
  proof (cases "IsSurrogate r")
    case True
    then have n: "n + 6 \<le> length s" "surrogate_tail s n" using assms Some nr
      by (auto simp: complete_escape_def split: if_splits)
    with True assms Some nr obtain m r2 where r2: "decodeEscape (drop n s) = Some (m, r2)"
      by (auto simp: complete_escape_def split: if_splits option.splits)
    have "surrogate_tail (s @ ys) n" using n by (simp add: surrogate_tail_def nth_append)
    moreover have "decodeEscape (drop n (s @ ys)) = Some (m, r2)"
      using decodeEscape_append [OF r2, of ys] n(1) by simp
    ultimately show ?thesis using True assms Some nr e n r2 by (simp add: complete_escape_def split: if_splits)
  qed (use assms Some nr e in \<open>simp add: complete_escape_def split: if_splits\<close>)
qed (use assms in \<open>simp add: complete_escape_def split: if_splits\<close>)

text \<open>The complete-string loop, as a scanner that also yields the decoded text.\<close>

lemma complete_loop_stable:
  "complete_loop buf s = Some (v, r) \<Longrightarrow>
     length r < length s \<and> complete_loop buf (s @ ys) = Some (v, r @ ys)"
proof (induction s arbitrary: buf rule: length_induct)
  case (1 s)
  from "1.prems" obtain c cs where Cons: "s = c # cs" by (cases s) auto
  show ?case
  proof (cases "c = bslash")
    case True
    with 1 Cons obtain out k where k: "complete_escape s = Some (out, k)"
      by (auto simp: complete_loop.simps(2) split: option.splits)
    note bnd = complete_escape_n [OF k]
    have "complete_loop (buf @ out) (drop k s) = Some (v, r)"
      using "1.prems" True Cons k by (simp add: complete_loop.simps(2))
    moreover have "length (drop k s) < length s" using bnd Cons by simp
    ultimately have IH: "length r < length (drop k s) \<and> complete_loop (buf @ out) (drop k s @ ys) = Some (v, r @ ys)"
      using "1.IH" by blast
    have "complete_loop buf (s @ ys) = complete_loop (buf @ out) (drop k (s @ ys))"
      using True Cons complete_escape_append [OF k, of ys] by (simp add: complete_loop.simps(2))
    with IH bnd show ?thesis by auto
  next
    case False
    show ?thesis
    proof (cases "c = dquote")
      case True
      with "1.prems" Cons show ?thesis by (simp add: complete_loop.simps(2))
    next
      case nq: False
      with "1.prems" Cons False have "complete_loop (buf @ [c]) cs = Some (v, r)" by (simp add: complete_loop.simps(2))
      then have "length r < length cs \<and> complete_loop (buf @ [c]) (cs @ ys) = Some (v, r @ ys)"
        using "1.IH" Cons by simp
      with nq False Cons show ?thesis by (simp add: complete_loop.simps(2))
    qed
  qed
qed

lemma parseCompleteString_stable:
  "parseCompleteString s = Some (v, r) \<Longrightarrow> length r < length s \<and> parseCompleteString (s @ ys) = Some (v, r @ ys)"
  using complete_loop_stable [of "[]" "tl s" v r ys]
  by (cases s) (auto simp: parseCompleteString_def split: if_splits)

text \<open>A tolerant step that is taken is taken on every longer input.\<close>

lemma tolerant_escape_append:
  assumes "tolerant_escape s = Some p" shows "tolerant_escape (s @ ys) = Some p"
proof (cases "decodeEscape s")
  case (Some nr)
  obtain n r where nr: "nr = (n, r)" by (cases nr)
  note e = decodeEscape_append [OF Some, of ys]
  show ?thesis
  proof (cases "IsSurrogate r")
    case True
    then have n: "n + 6 \<le> length s" using assms Some nr by (auto simp: tolerant_escape_def split: if_splits)
    then have tail: "surrogate_tail (s @ ys) n \<longleftrightarrow> surrogate_tail s n" by (simp add: surrogate_tail_def nth_append)
    have "decodeEscape (drop n (s @ ys)) = decodeEscape (drop n s)" if "surrogate_tail s n"
    proof -
      from that True assms Some nr n obtain mr where "decodeEscape (drop n s) = Some mr"
        by (auto simp: tolerant_escape_def split: if_splits option.splits)
      from decodeEscape_append [OF this, of ys] this n show ?thesis by simp
    qed
    with True assms Some nr e n tail show ?thesis by (simp add: tolerant_escape_def split: if_splits)
  qed (use assms Some nr e in \<open>simp add: tolerant_escape_def split: if_splits\<close>)
qed (use assms in \<open>simp add: tolerant_escape_def split: if_splits\<close>)

lemma tolerant_step_append: "tolerant_step s = Some p \<Longrightarrow> tolerant_step (s @ ys) = Some p"
proof (cases s)
  case (Cons c cs)
  assume a: "tolerant_step s = Some p"
  have "take w (c # cs @ ys) = take w (c # cs)" if "w \<le> length s" for w
    using that Cons take_append [of w "c # cs" ys] by simp
  with a show ?thesis
    using tolerant_escape_append [of s p ys] Cons by (cases "c = bslash") (simp_all add: tolerant_step_def split: if_splits)
qed (simp add: tolerant_step_def)

lemma decodeTolerant_mono: "prefix (decodeTolerant s) (decodeTolerant (s @ ys))"
proof (induction s rule: decodeTolerant.induct)
  case (1 s)
  show ?case
  proof (cases "tolerant_step s")
    case None
    then show ?thesis by (simp add: decodeTolerant.simps [of s])
  next
    case (Some p)
    obtain out k where p: "p = (out, k)" by (cases p)
    have "prefix (decodeTolerant (drop k s)) (decodeTolerant (drop k s @ ys))" using 1 Some p by blast
    moreover have "k \<le> length s" using tolerant_step_n Some p by blast
    ultimately show ?thesis using Some p tolerant_step_append [OF Some, of ys]
      by (simp add: decodeTolerant.simps [of s] decodeTolerant.simps [of "s @ ys"])
  qed
qed

subsection \<open>The field\<close>

text \<open>The loop of \<open>StringField\<close> over the members of the object.\<close>

function field_loop :: "string \<Rightarrow> string \<Rightarrow> string option" where
  "field_loop name s =
     (case skipWS s of None \<Rightarrow> None | Some s1 \<Rightarrow>
        if hd s1 = CHR ''}'' then None
        else case parseCompleteString s1 of None \<Rightarrow> None | Some (key, s2) \<Rightarrow>
          case skipWS s2 of None \<Rightarrow> None | Some s3 \<Rightarrow>
            if hd s3 \<noteq> CHR '':'' then None
            else case skipWS (tl s3) of None \<Rightarrow> None | Some s4 \<Rightarrow>
              if key = name then (if hd s4 \<noteq> dquote then None else Some (decodeTolerant (tl s4)))
              else case skipValue s4 of None \<Rightarrow> None | Some s5 \<Rightarrow>
                case skipWS s5 of None \<Rightarrow> None | Some s6 \<Rightarrow>
                  if hd s6 \<noteq> CHR '','' then None else field_loop name (tl s6))"
  by pat_completeness auto
termination
proof (relation "measure (\<lambda>(name, s). length s)", goal_cases)
  case (2 name s s1 kr key s2 s3 s4 s5 s6)
  have "length s1 \<le> length s" using skipWS_length 2 by blast
  moreover have "length s2 < length s1" using parseCompleteString_stable 2 by blast
  moreover have "length s3 \<le> length s2" using skipWS_length 2 by blast
  moreover have "length s4 \<le> length (tl s3)" using skipWS_length 2 by blast
  moreover have "length s5 < length s4" using stableD(1) [OF skipValue_stable] 2 by blast
  moreover have "length s6 \<le> length s5" using skipWS_length 2 by blast
  ultimately show ?case by simp
qed simp

declare field_loop.simps [simp del]

definition StringField :: "string \<Rightarrow> string \<Rightarrow> string option" where
  "StringField data name =
     (case skipWS data of
        None \<Rightarrow> None
      | Some s \<Rightarrow> (if hd s \<noteq> CHR ''{'' then None else field_loop name (tl s)))"

text \<open>One member of the object, on an input and on a longer one.\<close>

lemma field_loop_mono:
  "field_loop name s = Some v \<Longrightarrow> \<exists>v'. field_loop name (s @ ys) = Some v' \<and> prefix v v'"
proof (induction name s rule: field_loop.induct)
  case (1 name s)
  note unf = field_loop.simps [of name s] field_loop.simps [of name "s @ ys"]
  obtain s1 where s1: "skipWS s = Some s1" "hd s1 \<noteq> CHR ''}''" "s1 \<noteq> []"
    using "1.prems" skipWS_length by (auto simp: unf split: option.splits if_splits)
  obtain key s2 where s2: "parseCompleteString s1 = Some (key, s2)"
    using "1.prems" s1 by (auto simp: unf split: option.splits)
  obtain s3 where s3: "skipWS s2 = Some s3" "hd s3 = CHR '':''" "s3 \<noteq> []"
    using "1.prems" s1 s2 skipWS_length by (auto simp: unf split: option.splits if_splits)
  obtain s4 where s4: "skipWS (tl s3) = Some s4" "s4 \<noteq> []"
    using "1.prems" s1 s2 s3 skipWS_length by (auto simp: unf split: option.splits)
  note ext = skipWS_append [OF s1(1), of ys] parseCompleteString_stable [OF s2, of ys, THEN conjunct2]
    skipWS_append [OF s3(1), of ys] skipWS_append [OF s4(1), of ys]
  note known = s1 s2 s3 s4 ext
  show ?case
  proof (cases "key = name")
    case True
    with "1.prems" known show ?thesis by (auto simp: unf decodeTolerant_mono split: if_splits)
  next
    case False
    with "1.prems" known obtain s5 where s5: "skipValue s4 = Some s5"
      by (auto simp: unf split: option.splits)
    with "1.prems" known False obtain s6 where s6: "skipWS s5 = Some s6" "hd s6 = CHR '',''" "s6 \<noteq> []"
      using skipWS_length by (auto simp: unf split: option.splits if_splits)
    note ext2 = stableD(2) [OF skipValue_stable s5, of ys] skipWS_append [OF s6(1), of ys]
    have "field_loop name (tl s6) = Some v" using "1.prems" known False s5 s6 by (simp add: unf)
    then obtain v' where v': "field_loop name (tl s6 @ ys) = Some v'" "prefix v v'"
      using "1.IH" [OF s1(1,2) s2 refl s3(1) _ s4(1) False s5 s6(1)] s3(2) s6(2) by auto
    show ?thesis
    proof (intro exI conjI)
      show "field_loop name (s @ ys) = Some v'"
        using known False s5 s6 ext2 v'(1) by (simp add: unf(2))
    qed (rule v'(2))
  qed
qed

subsection \<open>Properties\<close>

text \<open>
  the live preview never rewrites what it has shown: when a prefix of the streamed JSON
  already yields a value for the field, every longer input yields a value too, and the earlier
  value is a prefix of it, wherever the input is cut.
\<close>

theorem StringField_monotone:
  assumes "StringField data name = Some v"
  shows "\<exists>v'. StringField (data @ more) name = Some v' \<and> prefix v v'"
proof -
  obtain s where s: "skipWS data = Some s" "hd s = CHR ''{''" "field_loop name (tl s) = Some v" "s \<noteq> []"
    using assms skipWS_length by (auto simp: StringField_def split: option.splits if_splits)
  from field_loop_mono [OF s(3), of more] skipWS_append [OF s(1), of more] s(2,4) show ?thesis
    by (auto simp: StringField_def)
qed

theorem StringField_monotone_witness:
  "StringField (''{'' @ [dquote] @ ''c'' @ [dquote] @ '':'' @ [dquote] @ ''a'' @ [bslash]) ''c'' = Some ''a''
   \<and> (\<exists>v'. StringField ((''{'' @ [dquote] @ ''c'' @ [dquote] @ '':'' @ [dquote] @ ''a'' @ [bslash]) @ ''nb'') ''c'' = Some v' \<and> prefix ''a'' v')"
proof -
  have "StringField (''{'' @ [dquote] @ ''c'' @ [dquote] @ '':'' @ [dquote] @ ''a'' @ [bslash]) ''c'' = Some ''a''" by code_simp
  from StringField_monotone [OF this] this show ?thesis by blast
qed

definition plain :: "string \<Rightarrow> bool" where
  "plain s \<longleftrightarrow> (\<forall>c \<in> set s. c \<noteq> dquote \<and> c \<noteq> bslash \<and> (of_char c :: nat) < 0x80)"

lemma complete_loop_plain: "plain k \<Longrightarrow> complete_loop buf (k @ dquote # r) = Some (buf @ k, r)"
  by (induction k arbitrary: buf) (simp_all add: complete_loop.simps(2) plain_def)

lemma decodeTolerant_plain:
  "plain v \<Longrightarrow> decodeTolerant v = v" "plain v \<Longrightarrow> decodeTolerant (v @ dquote # r) = v"
  by (induction v) (simp_all add: decodeTolerant.simps [of "_ # _"] decodeTolerant.simps [of "[]"] tolerant_step_def plain_def)

text \<open>
  the value is the field's: on an object whose first member is the field, with a name and a
  value of plain bytes (ASCII, no quote, no backslash), the closing quote seen, \<open>StringField\<close>
  returns exactly the value, and the part of it that has arrived when it is cut off.
\<close>

theorem StringField_plain:
  assumes "plain name" and "plain v"
  shows "StringField (''{'' @ [dquote] @ name @ [dquote] @ '':'' @ [dquote] @ v @ [dquote] @ rest) name = Some v
    \<and> StringField (''{'' @ [dquote] @ name @ [dquote] @ '':'' @ [dquote] @ v) name = Some v"
  using assms
  by (simp add: StringField_def field_loop.simps is_ws_def parseCompleteString_def complete_loop_plain decodeTolerant_plain)

theorem StringField_plain_witness:
  "StringField (''{'' @ [dquote] @ ''cmd'' @ [dquote] @ '':'' @ [dquote] @ ''ls'' @ [dquote] @ ''}'') ''cmd'' = Some ''ls''"
  using StringField_plain [of "''cmd''" "''ls''" "''}''"] by (simp add: plain_def)

end
