(* ===== verification/Compose.thy ===== *)
theory Compose
  imports Livedoc Partial_JSON
begin

section \<open>From messages to nodes (\<open>internal/compose\<close>)\<close>

text \<open>
  The translation of the messages of a turn into the node list of a live unit, and of a whole log
  into committed units. The hooks \<open>summarize\<close> and \<open>previewArg\<close> may be nil; \<open>sprint\<close> is
  \<open>fmt.Sprintf("%v", v)\<close> on a decoded JSON value. A nil Go map reads like an empty one.
\<close>

type_synonym tool_summary = "string \<Rightarrow> args \<Rightarrow> string"
type_synonym preview_arg = "string \<Rightarrow> string"

record tool_timing =
  tt_started_at :: int
  tt_finished_at :: int

record hooks =
  h_summarize :: "tool_summary option"
  h_previewArg :: "preview_arg option"
  h_sprint :: "json \<Rightarrow> string"

definition nodeID :: "lt \<Rightarrow> nat \<Rightarrow> string" where
  "nodeID t blockIdx = show_nat t @ ''.'' @ show_nat blockIdx"

definition composeBashCap :: nat where
  "composeBashCap = 200"

definition tailBound :: "string \<Rightarrow> string" where
  "tailBound text =
     (if text = [] then []
      else let lines = split_on nl (trim_right [nl] text);
               kept = (if length lines > composeBashCap then drop (length lines - composeBashCap) lines else lines)
           in join_with [nl] kept)"

fun hasToolResult_scan :: "content list \<Rightarrow> bool" where
  "hasToolResult_scan [] = False"
| "hasToolResult_scan (c # cs) = (if c_type c = ContentToolResult then True else hasToolResult_scan cs)"

definition hasToolResult :: "message \<Rightarrow> bool" where
  "hasToolResult m = hasToolResult_scan (m_content m)"

definition messageText :: "message \<Rightarrow> string" where
  "messageText m =
     join_with [nl] (map c_text (filter (\<lambda>c. c_type c = ContentProse \<and> trim_space (c_text c) \<noteq> []) (m_content m)))"

definition index_block :: "content \<Rightarrow> (string, content) fmap \<Rightarrow> (string, content) fmap" where
  "index_block c out = (if c_type c = ContentToolResult \<and> c_tool_call_id c \<noteq> [] then fmupd (c_tool_call_id c) c out else out)"

definition indexResults :: "message list \<Rightarrow> (string, content) fmap" where
  "indexResults msgs = fold (\<lambda>m out. fold index_block (m_content m) out) msgs fmempty"

definition summaryFor :: "hooks \<Rightarrow> string \<Rightarrow> args \<Rightarrow> string" where
  "summaryFor h name as =
     (let custom = (case h_summarize h of None \<Rightarrow> [] | Some f \<Rightarrow> f name as)
      in if custom \<noteq> [] then custom
         else case as of
                None \<Rightarrow> []
              | Some kvs \<Rightarrow>
                  (if length kvs = 0 then []
                   else join_with '' '' (map (\<lambda>k. k @ ''='' @ h_sprint h (the (map_of kvs k))) (sort (map fst kvs)))))"

definition str_at :: "(string, string) fmap \<Rightarrow> string \<Rightarrow> string" where
  "str_at m k = (case fmlookup m k of Some v \<Rightarrow> v | None \<Rightarrow> [])"

text \<open>The generation-phase preview: the streamed value of the tool's body argument.\<close>

definition preview :: "hooks \<Rightarrow> string \<Rightarrow> string \<Rightarrow> string" where
  "preview h name raw =
     (case h_previewArg h of
        None \<Rightarrow> []
      | Some pa \<Rightarrow>
          (if pa name \<noteq> [] \<and> raw \<noteq> [] then tailBound (case StringField raw (pa name) of Some v \<Rightarrow> v | None \<Rightarrow> [])
           else []))"

record tool_inputs =
  ti_partials :: "(string, string) fmap"
  ti_argPartials :: "(string, string) fmap"
  ti_timings :: "(string, tool_timing) fmap"

definition no_inputs :: tool_inputs where
  "no_inputs = \<lparr>ti_partials = fmempty, ti_argPartials = fmempty, ti_timings = fmempty\<rparr>"

definition toolNode :: "hooks \<Rightarrow> (string, content) fmap \<Rightarrow> tool_inputs \<Rightarrow> content \<Rightarrow> node" where
  "toolNode h results ti call =
     (let name = (if c_tool_name call = [] then ''tool'' else c_tool_name call);
          n0 = zero_node\<lparr>n_type := NodeTool, n_id := c_tool_call_id call, n_name := name, n_args := c_arguments call,
                 n_summary := summaryFor h name (c_arguments call)\<rparr>;
          n1 = (case fmlookup (ti_timings ti) (c_tool_call_id call) of
                  None \<Rightarrow> n0
                | Some t \<Rightarrow> n0\<lparr>n_started_at := tt_started_at t, n_finished_at := tt_finished_at t\<rparr>)
      in case fmlookup results (c_tool_call_id call) of
           Some res \<Rightarrow>
             n1\<lparr>n_status := (if c_is_error res then StatusError else StatusOK), n_output := tailBound (c_text res)\<rparr>
         | None \<Rightarrow>
             (let out = tailBound (str_at (ti_partials ti) (c_tool_call_id call))
              in n1\<lparr>n_status := StatusRunning,
                    n_output := (if out = [] then preview h name (str_at (ti_argPartials ti) (c_tool_call_id call)) else out)\<rparr>))"

definition text_node :: "string \<Rightarrow> lt \<Rightarrow> nat \<Rightarrow> content \<Rightarrow> node list" where
  "text_node ty t ci c =
     (if trim_space (c_text c) = [] then []
      else [zero_node\<lparr>n_id := nodeID t ci, n_type := ty, n_markdown := trim_right [nl] (c_text c)\<rparr>])"

text \<open>The nodes of one block of a tool-result message, and of one block of an assistant message.\<close>

definition steering_block :: "message \<Rightarrow> nat \<times> content \<Rightarrow> node list" where
  "steering_block m = (\<lambda>(ci, c). if c_type c = ContentProse then text_node NodeSteering (m_logical_time m) ci c else [])"

definition assistant_block :: "hooks \<Rightarrow> (string, content) fmap \<Rightarrow> tool_inputs \<Rightarrow> message \<Rightarrow> nat \<times> content \<Rightarrow> node list" where
  "assistant_block h results ti m =
     (\<lambda>(ci, c).
        if c_type c = ContentProse then text_node NodeProse (m_logical_time m) ci c
        else if c_type c = ContentThinking then text_node NodeThinking (m_logical_time m) ci c
        else if c_type c = ContentToolInvoke then [toolNode h results ti c]
        else [])"

definition message_nodes :: "hooks \<Rightarrow> (string, content) fmap \<Rightarrow> tool_inputs \<Rightarrow> message \<Rightarrow> node list" where
  "message_nodes h results ti m =
     (if m_role m = RoleUser then
        (if hasToolResult m then concat (map (steering_block m) (enumerate 0 (m_content m))) else [])
      else if m_role m \<noteq> RoleAssistant then []
      else concat (map (assistant_block h results ti m) (enumerate 0 (m_content m))))"

definition Nodes :: "hooks \<Rightarrow> message list \<Rightarrow> tool_inputs \<Rightarrow> node list" where
  "Nodes h msgs ti = (let results = indexResults msgs in concat (map (message_nodes h results ti) msgs))"

record unit_rec =
  u_role :: string
  u_nodes :: "node list"
  u_lt :: lt

text \<open>The closure \<open>flush\<close> and the loop of \<open>Units\<close>, with the unit list and the group as state.\<close>

definition flush :: "hooks \<Rightarrow> unit_rec list \<times> message list \<Rightarrow> unit_rec list \<times> message list" where
  "flush h st =
     (let (units, group) = st
      in if length group = 0 then (units, group)
         else let nodes = Nodes h group no_inputs
              in (if length nodes > 0
                  then units @ [\<lparr>u_role = ''assistant'', u_nodes = nodes, u_lt = m_logical_time (group ! (length group - 1))\<rparr>]
                  else units, []))"

definition is_prompt :: "message \<Rightarrow> bool" where
  "is_prompt m \<longleftrightarrow> m_role m = RoleUser \<and> \<not> hasToolResult m \<and> messageText m \<noteq> []"

definition prompt_unit :: "message \<Rightarrow> unit_rec" where
  "prompt_unit m = \<lparr>u_role = ''user'', u_nodes = [zero_node\<lparr>n_type := NodeProse, n_markdown := messageText m\<rparr>],
     u_lt = m_logical_time m\<rparr>"

definition units_step :: "hooks \<Rightarrow> message \<Rightarrow> unit_rec list \<times> message list \<Rightarrow> unit_rec list \<times> message list" where
  "units_step h m st =
     (let (units, group) = (if is_prompt m then (let (us, g) = flush h st in (us @ [prompt_unit m], g)) else st)
      in (units, group @ [m]))"

definition Units :: "hooks \<Rightarrow> message list \<Rightarrow> unit_rec list" where
  "Units h msgs = fst (flush h (fold (units_step h) msgs ([], [])))"

subsection \<open>Splitting the log at a prompt\<close>

lemma hasToolResult_iff: "hasToolResult m \<longleftrightarrow> (\<exists>c \<in> set (m_content m). c_type c = ContentToolResult)"
proof -
  have "hasToolResult_scan cs \<longleftrightarrow> (\<exists>c \<in> set cs. c_type c = ContentToolResult)" for cs
    by (induction cs) auto
  then show ?thesis by (simp add: hasToolResult_def)
qed

lemma index_no_results: "\<not> hasToolResult m \<Longrightarrow> fold index_block (m_content m) out = out"
proof -
  have "\<forall>c \<in> set cs. c_type c \<noteq> ContentToolResult \<Longrightarrow> fold index_block cs out = out" for cs
    by (induction cs) (auto simp: index_block_def)
  then show "\<not> hasToolResult m \<Longrightarrow> fold index_block (m_content m) out = out" by (auto simp: hasToolResult_iff)
qed

text \<open>A user message without results adds nothing to the nodes of its group.\<close>

lemma Nodes_skip_user: "m_role m = RoleUser \<Longrightarrow> \<not> hasToolResult m \<Longrightarrow> Nodes h (m # ms) ti = Nodes h ms ti"
  by (simp add: Nodes_def indexResults_def index_no_results message_nodes_def Let_def)

lemma flush_group: "snd (flush h st) = []"
  by (auto simp: flush_def Let_def split_beta)

lemma flush_units: "fst (flush h (us, g)) = us @ fst (flush h ([], g))"
  by (auto simp: flush_def Let_def)

lemma flush_prompt: "is_prompt m \<Longrightarrow> fst (flush h ([], m # g)) = fst (flush h ([], g))"
  by (cases g) (auto simp: flush_def is_prompt_def Nodes_skip_user Let_def, simp add: Nodes_def)

lemma units_step_prefix:
  "fold (units_step h) ms (us @ vs, g) = (let (us', g') = fold (units_step h) ms (vs, g) in (us @ us', g'))"
proof (induction ms arbitrary: vs g)
  case (Cons m ms)
  have "units_step h m (us @ vs, g) = (let (us', g') = units_step h m (vs, g) in (us @ us', g'))"
    using flush_units [of h "us @ vs" g] flush_units [of h vs g] flush_group [of h]
    by (auto simp: units_step_def Let_def split_beta)
  then show ?case using Cons.IH by (simp add: Let_def split_beta)
qed simp

text \<open>A leading prompt in the group is invisible to the rest of the loop.\<close>

lemma units_loop_prompt_head:
  assumes "is_prompt p"
  shows "fst (flush h (fold (units_step h) ms (us, p # g))) = fst (flush h (fold (units_step h) ms (us, g)))"
proof (induction ms arbitrary: us g)
  case Nil
  then show ?case using flush_units [of h us "p # g"] flush_units [of h us g] flush_prompt [OF assms, of h g] by simp
next
  case (Cons m ms)
  show ?case
  proof (cases "is_prompt m")
    case True
    have "units_step h m (us, p # g) = units_step h m (us, g)"
      using True flush_units [of h us "p # g"] flush_units [of h us g] flush_prompt [OF assms, of h g]
        flush_group [of h "(us, p # g)"] flush_group [of h "(us, g)"]
      by (simp add: units_step_def Let_def split_beta)
    then show ?thesis by simp
  next
    case False
    then show ?thesis using Cons.IH [of us "g @ [m]"] by (simp add: units_step_def)
  qed
qed

subsection \<open>Ids\<close>

definition digits :: "char set" where
  "digits = (\<lambda>d. char_of (48 + d)) ` {..<10 :: nat}"

lemma show_nat_digits: "set (show_nat n) \<subseteq> digits"
  by (induction n rule: show_nat.induct) (subst show_nat.simps, auto simp: digits_def)

lemma dot_no_digit: "CHR ''.'' \<notin> digits"
proof
  assume "CHR ''.'' \<in> digits"
  then obtain d :: nat where "d < 10" "CHR ''.'' = char_of (48 + d)" by (auto simp: digits_def)
  then have "(of_char (CHR ''.'') :: nat) = 48 + d" using digit_code by metis
  then show False by simp
qed

lemma sep_unique:
  assumes "a @ c # b = a' @ c # b'" "c \<notin> set a" "c \<notin> set a'" shows "a = a' \<and> b = b'"
  using assms by (auto simp: append_eq_append_conv2 Cons_eq_append_conv append_eq_Cons_conv)

lemma nodeID_inj: "nodeID a i = nodeID b j \<Longrightarrow> a = b \<and> i = j"
proof -
  have no: "CHR ''.'' \<notin> set (show_nat k)" for k using show_nat_digits dot_no_digit by blast
  assume "nodeID a i = nodeID b j"
  then have "show_nat a @ CHR ''.'' # show_nat i = show_nat b @ CHR ''.'' # show_nat j" by (simp add: nodeID_def)
  from sep_unique [OF this no no] show ?thesis using show_nat_inj by blast
qed

text \<open>The nodes that are not tools, in terms of their coordinates.\<close>

definition own_ids :: "node list \<Rightarrow> string list" where
  "own_ids ns = map n_id (filter (\<lambda>n. n_type n \<noteq> NodeTool) ns)"

lemma own_ids_append [simp]: "own_ids (xs @ ys) = own_ids xs @ own_ids ys" "own_ids [] = []"
  by (simp_all add: own_ids_def)

lemma block_ids:
  assumes "\<And>i c. own_ids (f (i, c)) = [] \<or> own_ids (f (i, c)) = [nodeID t i]"
  shows "distinct (own_ids (concat (map f (enumerate k cs))))
    \<and> set (own_ids (concat (map f (enumerate k cs)))) \<subseteq> nodeID t ` {k..}"
proof (induction cs arbitrary: k)
  case (Cons c cs)
  have IH: "distinct (own_ids (concat (map f (enumerate (Suc k) cs))))"
    "set (own_ids (concat (map f (enumerate (Suc k) cs)))) \<subseteq> nodeID t ` {Suc k..}" using Cons by blast+
  have "nodeID t k \<notin> nodeID t ` {Suc k..}" by (auto dest: nodeID_inj)
  then have "nodeID t k \<notin> set (own_ids (concat (map f (enumerate (Suc k) cs))))" using IH(2) by blast
  moreover have "nodeID t ` {Suc k..} \<subseteq> nodeID t ` {k..}" by auto
  ultimately show ?case using IH assms [of k c] by auto
qed simp

lemma text_node_ids: "own_ids (text_node ty t i c) = [] \<or> own_ids (text_node ty t i c) = [nodeID t i]"
  by (simp add: text_node_def own_ids_def)

lemma toolNode_type: "n_type (toolNode h r ti c) = NodeTool"
  by (simp add: toolNode_def Let_def zero_node_def split: option.split)

lemma message_ids:
  "distinct (own_ids (message_nodes h r ti m))
   \<and> set (own_ids (message_nodes h r ti m)) \<subseteq> nodeID (m_logical_time m) ` UNIV"
proof -
  have "own_ids (steering_block m (i, c)) = [] \<or> own_ids (steering_block m (i, c)) = [nodeID (m_logical_time m) i]" for i c
    using text_node_ids by (simp add: steering_block_def)
  moreover have "own_ids (assistant_block h r ti m (i, c)) = [] \<or> own_ids (assistant_block h r ti m (i, c)) = [nodeID (m_logical_time m) i]" for i c
    using text_node_ids by (simp add: assistant_block_def toolNode_type own_ids_def [of "[_]"])
  ultimately show ?thesis
    using block_ids [of "steering_block m" "m_logical_time m" 0 "m_content m"]
      block_ids [of "assistant_block h r ti m" "m_logical_time m" 0 "m_content m"]
    unfolding message_nodes_def by (cases "m_role m = RoleUser"; cases "hasToolResult m"; cases "m_role m = RoleAssistant") auto
qed

lemma disjoint_subsets: "A \<inter> B = {} \<Longrightarrow> X \<subseteq> A \<Longrightarrow> Y \<subseteq> B \<Longrightarrow> X \<inter> Y = {}"
  by blast

lemma nodes_ids:
  "distinct (map m_logical_time ms) \<Longrightarrow>
     distinct (own_ids (concat (map (message_nodes h r ti) ms)))
     \<and> set (own_ids (concat (map (message_nodes h r ti) ms))) \<subseteq> (\<Union>t \<in> m_logical_time ` set ms. nodeID t ` UNIV)"
proof (induction ms)
  case (Cons m ms)
  then have IH: "distinct (own_ids (concat (map (message_nodes h r ti) ms)))"
    "set (own_ids (concat (map (message_nodes h r ti) ms))) \<subseteq> (\<Union>t \<in> m_logical_time ` set ms. nodeID t ` UNIV)"
    by auto
  have "nodeID (m_logical_time m) ` UNIV \<inter> (\<Union>t \<in> m_logical_time ` set ms. nodeID t ` UNIV) = {}"
    using Cons.prems by (auto dest: nodeID_inj)
  from disjoint_subsets [OF this message_ids [of h r ti m, THEN conjunct2] IH(2)]
  have "set (own_ids (message_nodes h r ti m)) \<inter> set (own_ids (concat (map (message_nodes h r ti) ms))) = {}" .
  then show ?case using IH message_ids [of h r ti m] by auto
qed simp

subsection \<open>Properties\<close>

text \<open>
  a catch-up replays the log prompt by prompt: at every user prompt the units of the whole log
  are the units of what precedes it, the prompt's own unit, and the units of what follows it. So
  the units of finished turns never change as the log grows.
\<close>

theorem Units_split_at_prompt:
  assumes "is_prompt p"
  shows "Units h (xs @ p # ys) = Units h xs @ prompt_unit p # Units h ys"
proof -
  obtain us g where st: "fold (units_step h) xs ([], []) = (us, g)" by fastforce
  have "units_step h p (us, g) = ((fst (flush h (us, g)) @ [prompt_unit p]) @ [], [p])"
    using assms flush_group [of h "(us, g)"] by (simp add: units_step_def Let_def split_beta)
  then have "Units h (xs @ p # ys) =
      fst (flush h (fold (units_step h) ys ((fst (flush h (us, g)) @ [prompt_unit p]) @ [], [p])))"
    by (simp add: Units_def st)
  also have "\<dots> = (fst (flush h (us, g)) @ [prompt_unit p]) @ fst (flush h (fold (units_step h) ys ([], [p])))"
  proof -
    obtain us' g' where f: "fold (units_step h) ys ([], [p]) = (us', g')" by fastforce
    then show ?thesis
      using units_step_prefix [of h ys "fst (flush h (us, g)) @ [prompt_unit p]" "[]" "[p]"]
        flush_units [of h "(fst (flush h (us, g)) @ [prompt_unit p]) @ us'" g'] flush_units [of h us' g']
      by simp
  qed
  also have "fst (flush h (fold (units_step h) ys ([], [p]))) = Units h ys"
    using units_loop_prompt_head [OF assms, of h ys "[]" "[]"] by (simp add: Units_def)
  finally show ?thesis by (simp add: Units_def st)
qed

theorem Units_split_at_prompt_witness:
  "let h = \<lparr>h_summarize = None, h_previewArg = None, h_sprint = (\<lambda>_. [])\<rparr>;
       p = zero_message\<lparr>m_role := RoleUser, m_content := [TextContent ''hi''], m_logical_time := 3\<rparr>;
       a = zero_message\<lparr>m_role := RoleAssistant, m_content := [TextContent ''yo''], m_logical_time := 4\<rparr>
   in map u_role (Units h ([] @ p # [a])) = [''user'', ''assistant'']"
proof -
  let ?h = "\<lparr>h_summarize = None, h_previewArg = None, h_sprint = (\<lambda>_ :: json. [])\<rparr>"
  let ?p = "zero_message\<lparr>m_role := RoleUser, m_content := [TextContent ''hi''], m_logical_time := 3\<rparr>"
  let ?a = "zero_message\<lparr>m_role := RoleAssistant, m_content := [TextContent ''yo''], m_logical_time := 4\<rparr>"
  have "is_prompt ?p" by code_simp
  from Units_split_at_prompt [OF this, of ?h "[]" "[?a]"]
  have "map u_role (Units ?h ([] @ ?p # [?a])) = map u_role (Units ?h []) @ u_role (prompt_unit ?p) # map u_role (Units ?h [?a])" by simp
  moreover have "map u_role (Units ?h []) = []" "u_role (prompt_unit ?p) = ''user''" "map u_role (Units ?h [?a]) = [''assistant'']"
    by code_simp+
  ultimately show ?thesis by (simp add: Let_def)
qed

text \<open>
  the ids minted for prose, thinking and steering nodes are unique within a unit, when the
  messages of the turn have distinct logical times: the live stream can address a node by its id.
\<close>

theorem Nodes_ids_distinct:
  assumes "distinct (map m_logical_time msgs)"
  shows "distinct (map n_id (filter (\<lambda>n. n_type n \<noteq> NodeTool) (Nodes h msgs ti)))"
  using nodes_ids [OF assms] by (simp add: Nodes_def Let_def own_ids_def)

theorem Nodes_ids_distinct_witness:
  "let h = \<lparr>h_summarize = None, h_previewArg = None, h_sprint = (\<lambda>_. [])\<rparr>;
       m = (\<lambda>t. zero_message\<lparr>m_role := RoleAssistant, m_content := [TextContent ''a'', TextContent ''b''], m_logical_time := t\<rparr>)
   in distinct (map n_id (filter (\<lambda>n. n_type n \<noteq> NodeTool) (Nodes h [m 1, m 11] no_inputs)))"
  unfolding Let_def by (rule Nodes_ids_distinct) simp

lemma toolNode_done:
  "fmlookup r (c_tool_call_id c) \<noteq> None \<Longrightarrow> ti_timings ti = ti_timings ti' \<Longrightarrow> toolNode h r ti c = toolNode h r ti' c"
  by (auto simp: toolNode_def Let_def)

text \<open>
  once every tool call of a turn has its result, the live composition and the catch-up
  composition agree: streamed output and streamed arguments no longer influence any node.
\<close>

theorem live_composition_settles:
  assumes "\<And>m c. m \<in> set msgs \<Longrightarrow> c \<in> set (m_content m) \<Longrightarrow> c_type c = ContentToolInvoke \<Longrightarrow>
      fmlookup (indexResults msgs) (c_tool_call_id c) \<noteq> None"
    and "ti_timings ti = ti_timings ti'"
  shows "Nodes h msgs ti = Nodes h msgs ti'"
proof -
  let ?r = "indexResults msgs"
  have "message_nodes h ?r ti m = message_nodes h ?r ti' m" if "m \<in> set msgs" for m
  proof -
    have "assistant_block h ?r ti m ic = assistant_block h ?r ti' m ic" if "ic \<in> set (enumerate 0 (m_content m))" for ic
    proof (cases ic)
      case (Pair i c)
      then have "c \<in> set (m_content m)" using that by (auto simp: in_set_enumerate_eq)
      with Pair assms(1) [OF \<open>m \<in> set msgs\<close>] show ?thesis
        by (auto simp: assistant_block_def intro: toolNode_done assms(2))
    qed
    then show ?thesis by (simp add: message_nodes_def cong: map_cong)
  qed
  then show ?thesis by (simp add: Nodes_def Let_def cong: map_cong)
qed

theorem live_composition_settles_witness:
  "let h = \<lparr>h_summarize = None, h_previewArg = None, h_sprint = (\<lambda>_. [])\<rparr>;
       call = zero_content\<lparr>c_type := ContentToolInvoke, c_tool_call_id := ''t1'', c_tool_name := ''bash''\<rparr>;
       msgs = [zero_message\<lparr>m_role := RoleAssistant, m_content := [call]\<rparr>,
               zero_message\<lparr>m_role := RoleUser, m_content := [ToolResultContent ''t1'' ''bash'' ''done'' False]\<rparr>]
   in Nodes h msgs (no_inputs\<lparr>ti_partials := fmap_of_list [(''t1'', ''partial'')]\<rparr>) = Nodes h msgs no_inputs"
proof -
  let ?call = "zero_content\<lparr>c_type := ContentToolInvoke, c_tool_call_id := ''t1'', c_tool_name := ''bash''\<rparr>"
  let ?msgs = "[zero_message\<lparr>m_role := RoleAssistant, m_content := [?call]\<rparr>,
               zero_message\<lparr>m_role := RoleUser, m_content := [ToolResultContent ''t1'' ''bash'' ''done'' False]\<rparr>]"
  have "fmlookup (indexResults ?msgs) ''t1'' \<noteq> None"
    by (simp add: indexResults_def index_block_def go_defs)
  then have "m \<in> set ?msgs \<Longrightarrow> c \<in> set (m_content m) \<Longrightarrow> c_type c = ContentToolInvoke \<Longrightarrow>
      fmlookup (indexResults ?msgs) (c_tool_call_id c) \<noteq> None" for m c
    by (auto simp: go_defs)
  from live_composition_settles [OF this] show ?thesis by (simp add: Let_def no_inputs_def)
qed

lemma count_join: "(\<And>x. x \<in> set xs \<Longrightarrow> c \<notin> set x) \<Longrightarrow> count_list (join_with [c] xs) c = length xs - 1"
  by (induction xs) (auto simp: join_with_Cons count_list_0_iff neq_Nil_conv)

lemma tailBound_lines: "count_list (tailBound t) nl < composeBashCap"
proof (cases "t = []")
  case False
  let ?lines = "split_on nl (trim_right [nl] t)"
  define kept where "kept = (if length ?lines > composeBashCap then drop (length ?lines - composeBashCap) ?lines else ?lines)"
  have "\<And>x. x \<in> set kept \<Longrightarrow> nl \<notin> set x" by (auto simp: kept_def dest: in_set_dropD split_on_no_sep split: if_splits)
  then have "count_list (join_with [nl] kept) nl = length kept - 1" by (rule count_join)
  moreover have "length kept \<le> composeBashCap" "0 < composeBashCap" by (simp_all add: kept_def composeBashCap_def)
  moreover have "tailBound t = join_with [nl] kept" using False by (simp add: tailBound_def kept_def Let_def)
  ultimately show ?thesis by simp
qed (simp add: tailBound_def composeBashCap_def)

text \<open>
  a tool node carries at most 200 lines of output, whether it is running or done.
\<close>

theorem toolNode_output_bounded: "count_list (n_output (toolNode h results ti c)) nl < 200"
proof -
  have "n_output (toolNode h results ti c) \<in> range tailBound"
    by (auto simp: toolNode_def preview_def Let_def zero_node_def tailBound_def [of "[]"] image_iff
        intro: exI [of _ "[]"] split: option.splits)
  then show ?thesis using tailBound_lines by (auto simp: composeBashCap_def)
qed

end
