(* ===== verification/Tool_Output.thy ===== *)
theory Tool_Output
  imports Prelude
begin

section \<open>Bounded tails of streamed tool output (\<open>internal/toolout\<close>)\<close>

text \<open>
  The governor keeps, per tool call, the last lines of what has streamed so far. \<open>clampTail\<close>
  counts lines and skips over the surplus newlines from the front.
\<close>

record governor =
  gv_maxLines :: int
  gv_tails :: "(string, string) fmap"
  gv_dirty :: bool

definition defaultMaxLines :: int where
  "defaultMaxLines = 10"

definition gv_New :: "int \<Rightarrow> governor" where
  "gv_New maxLines =
     \<lparr>gv_maxLines = (if maxLines \<le> 0 then defaultMaxLines else maxLines), gv_tails = fmempty, gv_dirty = False\<rparr>"

text \<open>\<open>strings.IndexByte\<close>.\<close>

fun index_byte :: "char \<Rightarrow> string \<Rightarrow> nat option" where
  "index_byte c [] = None"
| "index_byte c (x # xs) = (if x = c then Some 0 else map_option Suc (index_byte c xs))"

text \<open>The loop that advances \<open>idx\<close> past \<open>skip\<close> newlines; the rest of the text is the state.\<close>

fun skip_lines :: "nat \<Rightarrow> string \<Rightarrow> string" where
  "skip_lines 0 s = s"
| "skip_lines (Suc k) s = (case index_byte nl s of None \<Rightarrow> [] | Some j \<Rightarrow> skip_lines k (drop (j + 1) s))"

definition line_count :: "string \<Rightarrow> int" where
  "line_count s = int (count_list s nl) + (if \<not> has_suffix s [nl] then 1 else 0)"

definition clampTail :: "string \<Rightarrow> int \<Rightarrow> string" where
  "clampTail s n =
     (if s = [] then s
      else if line_count s \<le> n then s
      else skip_lines (nat (line_count s - n)) s)"

definition gv_Tail :: "governor \<Rightarrow> string \<Rightarrow> string" where
  "gv_Tail g key = (case fmlookup (gv_tails g) key of Some t \<Rightarrow> t | None \<Rightarrow> [])"

definition gv_Feed :: "governor \<Rightarrow> string \<Rightarrow> string \<Rightarrow> governor" where
  "gv_Feed g key chunk =
     (if chunk = [] then g
      else g\<lparr>gv_tails := fmupd key (clampTail (gv_Tail g key @ chunk) (gv_maxLines g)) (gv_tails g),
             gv_dirty := True\<rparr>)"

definition gv_Tails :: "governor \<Rightarrow> (string, string) fmap" where
  "gv_Tails g = gv_tails g"

definition gv_Dirty :: "governor \<Rightarrow> bool" where
  "gv_Dirty g = gv_dirty g"

definition gv_ClearDirty :: "governor \<Rightarrow> governor" where
  "gv_ClearDirty g = g\<lparr>gv_dirty := False\<rparr>"

definition gv_Drop :: "governor \<Rightarrow> string \<Rightarrow> governor" where
  "gv_Drop g key = g\<lparr>gv_tails := fmdrop key (gv_tails g)\<rparr>"

subsection \<open>Lines\<close>

lemma has_suffix_nl: "has_suffix s [c] \<longleftrightarrow> s \<noteq> [] \<and> last s = c"
  by (cases s rule: rev_cases) (auto simp: has_suffix_def)

lemma index_byte_split: "index_byte c (a @ c # b) = Some (length a)" if "c \<notin> set a"
  using that by (induction a) auto

lemma skip_lines_Suc: "nl \<notin> set a \<Longrightarrow> skip_lines (Suc k) (a @ nl # b) = skip_lines k b"
  by (simp add: index_byte_split)

text \<open>Text with a newline splits at the first one.\<close>

lemma first_nl: "0 < count_list s nl \<Longrightarrow> \<exists>a b. s = a @ nl # b \<and> nl \<notin> set a"
  by (metis count_list_0_iff less_numeral_extra(3) split_list_first)

lemma skip_lines_props:
  "k \<le> count_list s nl \<Longrightarrow>
     skip_lines k (s @ t) = skip_lines k s @ t \<and> suffix (skip_lines k s) s
     \<and> count_list (skip_lines k s) nl = count_list s nl - k"
proof (induction k arbitrary: s)
  case (Suc k)
  then obtain a b where s: "s = a @ nl # b" "nl \<notin> set a" using first_nl [of s] by auto
  then have "count_list s nl = Suc (count_list b nl)" by simp
  with Suc.prems have "k \<le> count_list b nl" by simp
  note IH = Suc.IH [OF this]
  have skip: "skip_lines (Suc k) s = skip_lines k b" "skip_lines (Suc k) (s @ t) = skip_lines k (b @ t)"
    using skip_lines_Suc [OF s(2)] by (simp_all add: s(1) del: skip_lines.simps)
  have "suffix (skip_lines k b) (a @ nl # b)" using IH by (intro suffix_appendI suffix_ConsI) blast
  with IH show ?case unfolding skip using \<open>count_list s nl = Suc (count_list b nl)\<close> by (simp add: s(1))
qed simp

lemma skip_lines_add: "k \<le> count_list s nl \<Longrightarrow> skip_lines (k + m) s = skip_lines m (skip_lines k s)"
proof (induction k arbitrary: s)
  case (Suc k)
  then obtain a b where s: "s = a @ nl # b" "nl \<notin> set a" using first_nl [of s] by auto
  with Suc show ?case using skip_lines_Suc [OF s(2), of _ b] by (simp del: skip_lines.simps(2))
qed simp

text \<open>Skipping \<open>k\<close> of the lines of a longer text leaves the others.\<close>

lemma line_count_skip:
  assumes "k \<le> count_list s nl" and "s @ t \<noteq> []" and "int k < line_count (s @ t)"
  shows "line_count (skip_lines k s @ t) = line_count (s @ t) - int k"
proof (cases "skip_lines k s @ t = []")
  case True
  then have "t = []" "skip_lines k s = []" by auto
  then have "count_list s nl = k" using skip_lines_props [OF assms(1), of "[]"] assms(1) by auto
  with assms(3) \<open>t = []\<close> have "\<not> has_suffix s [nl]" by (auto simp: line_count_def split: if_splits)
  moreover have "skip_lines k s = [] \<Longrightarrow> k \<le> count_list s nl \<Longrightarrow> 0 < k \<Longrightarrow> has_suffix s [nl]" for s
  proof (induction k arbitrary: s)
    case (Suc k)
    then obtain a b where s: "s = a @ nl # b" "nl \<notin> set a" using first_nl [of s] by auto
    have b: "skip_lines k b = []" using Suc.prems(1) skip_lines_Suc [OF s(2)] s(1) by simp
    show ?case
    proof (cases "k = 0")
      case True
      with b show ?thesis by (simp add: s has_suffix_nl)
    next
      case False
      then have "has_suffix b [nl]" using Suc.IH [OF b] Suc.prems(2) s by simp
      then show ?thesis by (simp add: s has_suffix_nl)
    qed
  qed simp
  ultimately have "k = 0" using assms(1) \<open>skip_lines k s = []\<close> by blast
  with assms(2) \<open>skip_lines k s = []\<close> \<open>t = []\<close> show ?thesis by simp
next
  case False
  have "last (skip_lines k s @ t) = last (s @ t)"
    using False skip_lines_props [OF assms(1), of "[]"] by (metis append_assoc last_appendR suffix_def)
  then have "has_suffix (skip_lines k s @ t) [nl] \<longleftrightarrow> has_suffix (s @ t) [nl]"
    using False assms(2) by (simp add: has_suffix_nl)
  moreover have "count_list (skip_lines k s @ t) nl = count_list (s @ t) nl - k"
    using skip_lines_props [OF assms(1), of "[]"] assms(1) by simp
  ultimately show ?thesis using assms(1) by (simp add: line_count_def of_nat_diff)
qed

lemma line_count_mono: "c \<noteq> [] \<Longrightarrow> line_count s \<le> line_count (s @ c)"
proof -
  assume c: "c \<noteq> []"
  then have "0 < count_list c nl" if "last c = nl"
    using that by (metis count_list_0_iff last_in_set neq0_conv)
  with c show ?thesis by (fastforce simp: line_count_def has_suffix_nl)
qed

lemma line_count_le: "line_count s \<le> int (count_list s nl) + 1" "int (count_list s nl) \<le> line_count s"
  by (simp_all add: line_count_def)

lemma clampTail_append:
  assumes "0 < n"
  shows "clampTail (clampTail s n @ c) n = clampTail (s @ c) n"
proof (cases "c = [] \<or> line_count s \<le> n \<or> s = []")
  case False
  define k where "k = nat (line_count s - n)"
  have k: "int k = line_count s - n" "k \<le> count_list s nl"
    using False assms line_count_le(1) [of s] by (auto simp: k_def)
  have lc: "n < line_count (s @ c)" "line_count s \<le> line_count (s @ c)"
    using False line_count_mono [of c s] by auto
  have t: "clampTail s n = skip_lines k s" using False by (simp add: clampTail_def k_def)
  have l: "line_count (skip_lines k s @ c) = line_count (s @ c) - int k"
    using k lc assms by (intro line_count_skip) (use False in auto)
  have r: "clampTail (s @ c) n = skip_lines (k + (nat (line_count (s @ c) - n) - k)) (s @ c)"
    using lc k False by (simp add: clampTail_def k_def nat_mono)
  also have "\<dots> = skip_lines (nat (line_count (s @ c) - n) - k) (skip_lines k (s @ c))"
    using k(2) by (intro skip_lines_add) (simp add: trans_le_add1)
  also have "skip_lines k (s @ c) = skip_lines k s @ c" using skip_lines_props [OF k(2)] by blast
  finally have r': "clampTail (s @ c) n = skip_lines (nat (line_count (s @ c) - n) - k) (skip_lines k s @ c)" .
  have "nat (line_count (s @ c) - n) - k = nat (line_count (skip_lines k s @ c) - n)" using l k by simp
  then show ?thesis unfolding t r' using False
    by (cases "line_count (skip_lines k s @ c) \<le> n") (simp_all add: clampTail_def)
next
  case True
  have idem: "clampTail (clampTail s n) n = clampTail s n"
  proof (cases "s = [] \<or> line_count s \<le> n")
    case False
    define k where "k = nat (line_count s - n)"
    have k: "int k = line_count s - n" "k \<le> count_list s nl"
      using False assms line_count_le(1) [of s] by (auto simp: k_def)
    have "line_count (skip_lines k s @ []) = line_count (s @ []) - int k"
      using k assms False by (intro line_count_skip) auto
    then show ?thesis using False k by (simp add: clampTail_def flip: k_def)
  qed (auto simp: clampTail_def)
  from True show ?thesis
  proof (elim disjE)
    assume "line_count s \<le> n"
    then have "clampTail s n = s" by (simp add: clampTail_def)
    then show ?thesis by simp
  next
    assume "c = []"
    then show ?thesis by (simp add: idem)
  qed (simp add: clampTail_def)
qed

lemma clampTail_lines:
  assumes "0 < n" shows "s = [] \<or> line_count (clampTail s n) \<le> n"
proof (cases "s = [] \<or> line_count s \<le> n")
  case False
  define k where "k = nat (line_count s - n)"
  have k: "int k = line_count s - n" "k \<le> count_list s nl"
    using False assms line_count_le(1) [of s] by (auto simp: k_def)
  have "line_count (skip_lines k s @ []) = line_count (s @ []) - int k"
    using k assms False by (intro line_count_skip) auto
  then show ?thesis using False k by (simp add: clampTail_def flip: k_def)
qed (auto simp: clampTail_def)

lemma clampTail_suffix: "0 < n \<Longrightarrow> suffix (clampTail s n) s"
  using skip_lines_props [of "nat (line_count s - n)" s "[]"] line_count_le(1) [of s]
  by (auto simp: clampTail_def)

subsection \<open>Properties\<close>

lemma Feed_Tail:
  "gv_Tail (gv_Feed g k ch) k' = (if k' = k \<and> ch \<noteq> [] then clampTail (gv_Tail g k @ ch) (gv_maxLines g) else gv_Tail g k')"
  "gv_maxLines (gv_Feed g k ch) = gv_maxLines g"
  by (auto simp: gv_Feed_def gv_Tail_def)

text \<open>
  the bounded tail of a stream does not depend on how the stream was cut into chunks: after
  feeding any chunks under a key, the tail is the clamp of everything fed, it is at most
  \<open>maxLines\<close> lines long, and the tails of other keys are untouched.
\<close>

theorem governor_chunking:
  fixes k k' :: string and m :: int
  defines "g chunks \<equiv> foldl (\<lambda>g ch. gv_Feed g k ch) (gv_New m) chunks"
  shows "gv_Tail (g chunks) k = clampTail (concat chunks) (gv_maxLines (gv_New m))
    \<and> (gv_Tail (g chunks) k = [] \<or> line_count (gv_Tail (g chunks) k) \<le> gv_maxLines (gv_New m))
    \<and> (k' \<noteq> k \<longrightarrow> gv_Tail (g chunks) k' = [])"
proof -
  let ?n = "gv_maxLines (gv_New m)"
  have n: "0 < ?n" by (simp add: gv_New_def defaultMaxLines_def)
  have "gv_Tail (g chunks) k = clampTail (concat chunks) ?n \<and> gv_maxLines (g chunks) = ?n
      \<and> (k' \<noteq> k \<longrightarrow> gv_Tail (g chunks) k' = [])" for k'
  proof (induction chunks rule: rev_induct)
    case Nil
    show ?case by (simp add: g_def gv_New_def gv_Tail_def clampTail_def)
  next
    case (snoc ch chunks)
    have "g (chunks @ [ch]) = gv_Feed (g chunks) k ch" by (simp add: g_def)
    with snoc show ?case by (simp add: Feed_Tail clampTail_append [OF n])
  qed
  moreover have "clampTail (concat chunks) ?n = [] \<or> line_count (clampTail (concat chunks) ?n) \<le> ?n"
    using clampTail_lines [OF n, of "concat chunks"] by (metis clampTail_def)
  ultimately show ?thesis by simp
qed

theorem governor_chunking_witness:
  "gv_Tail (foldl (\<lambda>g ch. gv_Feed g ''t'' ch) (gv_New 2) [''a'', [nl] @ ''b'' @ [nl], ''c'' @ [nl] @ ''d'']) ''t'' = ''c'' @ [nl] @ ''d''"
proof -
  have "clampTail (concat [''a'', [nl] @ ''b'' @ [nl], ''c'' @ [nl] @ ''d'']) 2 = ''c'' @ [nl] @ ''d''" by code_simp
  then show ?thesis using governor_chunking [where k = "''t''" and m = 2 and k' = "''u''" and chunks = "[''a'', [nl] @ ''b'' @ [nl], ''c'' @ [nl] @ ''d'']"]
    by (simp add: gv_New_def)
qed

end
