(* ===== verification/Inbox.thy ===== *)
theory Inbox
  imports Message
begin

section \<open>The inbox of an aria (\<open>internal/figaro/inbox.go\<close>)\<close>

text \<open>
  The FIFO of user-RPC events that the actor goroutine serves. Every method holds the mutex, so a
  method is one step. \<open>wake\<close> is the one-place channel: the boolean says whether a signal is
  buffered, and a send on a full channel is dropped. \<open>Recv\<close> blocks on an empty open inbox; the
  outcome \<open>Blocked\<close> stands for that. The closure and the reply channel of a fork event are
  represented by a ticket number.
\<close>

datatype event_type = EventUserPrompt | EventSet | EventFork

text \<open>\<open>rpc.ChalkboardInput\<close>: the client's view of the chalkboard and its explicit patch.\<close>

record chalkboard_input =
  ci_context :: "(string, rawjson) fmap option"
  ci_patch :: "patch option"

record event =
  ev_typ :: event_type
  ev_text :: string
  ev_chalkboard :: "chalkboard_input option"
  ev_setPatch :: patch
  ev_fork :: nat

record inbox =
  ib_queue :: "event list"
  ib_wake :: bool
  ib_closed :: bool

datatype recv_result = Blocked | Closed | Received event

definition NewInbox :: inbox where
  "NewInbox = \<lparr>ib_queue = [], ib_wake = False, ib_closed = False\<rparr>"

definition ib_Send :: "inbox \<Rightarrow> event \<Rightarrow> bool \<times> inbox" where
  "ib_Send b evt =
     (if ib_closed b then (False, b)
      else (True, b\<lparr>ib_queue := ib_queue b @ [evt], ib_wake := True\<rparr>))"

text \<open>A receive on the wake channel.\<close>

definition ib_Wake :: "inbox \<Rightarrow> bool \<times> inbox" where
  "ib_Wake b = (ib_wake b, b\<lparr>ib_wake := False\<rparr>)"

definition ib_Recv :: "inbox \<Rightarrow> recv_result \<times> inbox" where
  "ib_Recv b =
     (case ib_queue b of
        [] \<Rightarrow> (if ib_closed b then (Closed, b) else (Blocked, b))
      | evt # rest \<Rightarrow> (Received evt, b\<lparr>ib_queue := rest\<rparr>))"

text \<open>The counting loop of the two \<open>TakeReady\<close> methods.\<close>

fun ready_count :: "event_type \<Rightarrow> event list \<Rightarrow> nat" where
  "ready_count t [] = 0"
| "ready_count t (e # es) = (if ev_typ e = t then Suc (ready_count t es) else 0)"

definition signalReadyForkLocked :: "inbox \<Rightarrow> inbox" where
  "signalReadyForkLocked b =
     (if length (ib_queue b) = 0 \<or> ev_typ (ib_queue b ! 0) \<noteq> EventFork then b else b\<lparr>ib_wake := True\<rparr>)"

definition TakeReadyUserPrompts :: "inbox \<Rightarrow> event list \<times> inbox" where
  "TakeReadyUserPrompts b =
     (let n = ready_count EventUserPrompt (ib_queue b)
      in (take n (ib_queue b), signalReadyForkLocked (b\<lparr>ib_queue := drop n (ib_queue b)\<rparr>)))"

definition TakeReadyForks :: "inbox \<Rightarrow> event list \<times> inbox" where
  "TakeReadyForks b =
     (let n = ready_count EventFork (ib_queue b)
      in (take n (ib_queue b), b\<lparr>ib_queue := drop n (ib_queue b)\<rparr>))"

definition ib_Prepend :: "inbox \<Rightarrow> event list \<Rightarrow> bool \<times> inbox" where
  "ib_Prepend b events =
     (if length events = 0 then (True, b)
      else if ib_closed b then (False, b)
      else (True, b\<lparr>ib_queue := events @ ib_queue b, ib_wake := True\<rparr>))"

definition IsIdle :: "inbox \<Rightarrow> bool" where
  "IsIdle b \<longleftrightarrow> length (ib_queue b) = 0"

definition ib_Close :: "inbox \<Rightarrow> inbox" where
  "ib_Close b = (if ib_closed b then b else b\<lparr>ib_closed := True\<rparr>)"

lemma ready_count_takeWhile:
  "take (ready_count t es) es = takeWhile (\<lambda>e. ev_typ e = t) es"
  "drop (ready_count t es) es = dropWhile (\<lambda>e. ev_typ e = t) es"
  by (induction es) auto

lemma signal_queue [simp]: "ib_queue (signalReadyForkLocked b) = ib_queue b" "ib_closed (signalReadyForkLocked b) = ib_closed b"
  by (simp_all add: signalReadyForkLocked_def)

subsection \<open>Traces\<close>

text \<open>
  A trace of operations, as the methods run one after the other under the mutex, with the events
  that were accepted and the events that were handed out. \<open>OpRestore\<close> puts back the last events
  handed out, the only use the agent makes of \<open>Prepend\<close>.
\<close>

datatype inbox_op = OpSend event | OpRecv | OpPrompts | OpForks | OpRestore nat | OpClose | OpWake

record trace =
  tr_inbox :: inbox
  tr_accepted :: "event list"
  tr_taken :: "event list"

definition tr_step :: "trace \<Rightarrow> inbox_op \<Rightarrow> trace" where
  "tr_step t op =
     (case op of
        OpSend e \<Rightarrow>
          (let (ok, b) = ib_Send (tr_inbox t) e
           in t\<lparr>tr_inbox := b, tr_accepted := tr_accepted t @ (if ok then [e] else [])\<rparr>)
      | OpRecv \<Rightarrow>
          (let (r, b) = ib_Recv (tr_inbox t)
           in t\<lparr>tr_inbox := b, tr_taken := tr_taken t @ (case r of Received e \<Rightarrow> [e] | _ \<Rightarrow> [])\<rparr>)
      | OpPrompts \<Rightarrow> (let (es, b) = TakeReadyUserPrompts (tr_inbox t) in t\<lparr>tr_inbox := b, tr_taken := tr_taken t @ es\<rparr>)
      | OpForks \<Rightarrow> (let (es, b) = TakeReadyForks (tr_inbox t) in t\<lparr>tr_inbox := b, tr_taken := tr_taken t @ es\<rparr>)
      | OpRestore n \<Rightarrow>
          (let (ok, b) = ib_Prepend (tr_inbox t) (last_n n (tr_taken t))
           in t\<lparr>tr_inbox := b,
                tr_taken := (if ok then take (length (tr_taken t) - n) (tr_taken t) else tr_taken t)\<rparr>)
      | OpClose \<Rightarrow> t\<lparr>tr_inbox := ib_Close (tr_inbox t)\<rparr>
      | OpWake \<Rightarrow> t\<lparr>tr_inbox := snd (ib_Wake (tr_inbox t))\<rparr>)"

definition tr_init :: trace where
  "tr_init = \<lparr>tr_inbox = NewInbox, tr_accepted = [], tr_taken = []\<rparr>"

definition tr_inv :: "trace \<Rightarrow> bool" where
  "tr_inv t \<longleftrightarrow> tr_taken t @ ib_queue (tr_inbox t) = tr_accepted t"

lemma tr_inv_step: "tr_inv t \<Longrightarrow> tr_inv (tr_step t op)"
proof (cases op)
  case (OpRestore n)
  assume inv: "tr_inv t"
  define xs ys where "xs = take (length (tr_taken t) - n) (tr_taken t)" and "ys = last_n n (tr_taken t)"
  have "tr_taken t = xs @ ys" by (simp add: xs_def ys_def last_n_def)
  moreover have "tr_step t op =
      (let (ok, b) = ib_Prepend (tr_inbox t) ys in t\<lparr>tr_inbox := b, tr_taken := (if ok then xs else tr_taken t)\<rparr>)"
    unfolding OpRestore tr_step_def xs_def ys_def by simp
  ultimately show ?thesis using inv by (auto simp: tr_inv_def ib_Prepend_def)
next
  case OpPrompts
  assume "tr_inv t"
  with OpPrompts show ?thesis by (simp add: tr_inv_def tr_step_def TakeReadyUserPrompts_def Let_def)
next
  case OpForks
  assume "tr_inv t"
  with OpForks show ?thesis by (simp add: tr_inv_def tr_step_def TakeReadyForks_def Let_def)
next
  case OpRecv
  assume "tr_inv t"
  with OpRecv show ?thesis
    by (cases "ib_queue (tr_inbox t)") (auto simp: tr_inv_def tr_step_def ib_Recv_def)
qed (auto simp: tr_inv_def tr_step_def ib_Send_def ib_Close_def ib_Wake_def)

subsection \<open>Properties\<close>

text \<open>
  C34: the inbox is a FIFO that loses and duplicates nothing: after any sequence of sends,
  receives, prompt and fork batches, restores of unprocessed events, closing and wake-ups, the
  events handed out followed by the events still queued are exactly the events accepted, in the
  order they were accepted.
\<close>

theorem inbox_fifo:
  "tr_taken (foldl tr_step tr_init ops) @ ib_queue (tr_inbox (foldl tr_step tr_init ops))
   = tr_accepted (foldl tr_step tr_init ops)"
proof -
  have "tr_inv (foldl tr_step tr_init ops)"
    by (induction ops rule: rev_induct) (simp_all add: tr_inv_step, simp add: tr_inv_def tr_init_def NewInbox_def)
  then show ?thesis by (simp add: tr_inv_def)
qed

text \<open>
  \<open>TakeReadyUserPrompts\<close> takes the longest run of prompts at the head and nothing behind it,
  so a prompt never overtakes a control or fork event; a fork that the batch uncovers raises the
  wake signal, so that a turn in progress services it.
\<close>

theorem TakeReadyUserPrompts_prefix:
  assumes "TakeReadyUserPrompts b = (es, b')"
  shows "ib_queue b = es @ ib_queue b' \<and> (\<forall>e \<in> set es. ev_typ e = EventUserPrompt)
    \<and> (ib_queue b' \<noteq> [] \<longrightarrow> ev_typ (hd (ib_queue b')) \<noteq> EventUserPrompt)
    \<and> (ib_queue b' \<noteq> [] \<and> ev_typ (hd (ib_queue b')) = EventFork \<longrightarrow> ib_wake b')"
proof -
  have q: "es = takeWhile (\<lambda>e. ev_typ e = EventUserPrompt) (ib_queue b)"
    "ib_queue b' = dropWhile (\<lambda>e. ev_typ e = EventUserPrompt) (ib_queue b)"
    using assms by (auto simp: TakeReadyUserPrompts_def Let_def ready_count_takeWhile)
  have "ib_wake b'" if "ib_queue b' \<noteq> []" "ev_typ (hd (ib_queue b')) = EventFork"
    using assms that by (auto simp: TakeReadyUserPrompts_def Let_def signalReadyForkLocked_def hd_conv_nth split: if_splits)
  then show ?thesis unfolding q using hd_dropWhile [of "\<lambda>e. ev_typ e = EventUserPrompt" "ib_queue b"]
    by (auto dest: set_takeWhileD)
qed

theorem TakeReadyUserPrompts_prefix_witness:
  "let p = \<lparr>ev_typ = EventUserPrompt, ev_text = ''hi'', ev_chalkboard = None, ev_setPatch = zero_patch, ev_fork = 0\<rparr>;
       f = p\<lparr>ev_typ := EventFork\<rparr>;
       r = TakeReadyUserPrompts (NewInbox\<lparr>ib_queue := [p, f, p]\<rparr>)
   in fst r = [p] \<and> ib_queue (snd r) = [f, p] \<and> ib_wake (snd r)"
proof -
  let ?p = "\<lparr>ev_typ = EventUserPrompt, ev_text = ''hi'', ev_chalkboard = None, ev_setPatch = zero_patch, ev_fork = 0\<rparr>"
  let ?f = "?p\<lparr>ev_typ := EventFork\<rparr>"
  let ?b = "NewInbox\<lparr>ib_queue := [?p, ?f, ?p]\<rparr>"
  have r: "TakeReadyUserPrompts ?b = ([?p], ?b\<lparr>ib_queue := [?f, ?p], ib_wake := True\<rparr>)"
    by (simp add: TakeReadyUserPrompts_def signalReadyForkLocked_def)
  show ?thesis using TakeReadyUserPrompts_prefix [OF r] r by (simp add: Let_def)
qed

fun drain :: "nat \<Rightarrow> inbox \<Rightarrow> recv_result list" where
  "drain 0 b = []"
| "drain (Suc n) b = (let (r, b') = ib_Recv b in r # drain n b')"

lemma drain_Nil: "ib_closed b \<Longrightarrow> ib_queue b = [] \<Longrightarrow> drain n b = replicate n Closed"
  by (induction n) (simp_all add: ib_Recv_def)

lemma drain_closed:
  "ib_closed b \<Longrightarrow> ib_queue b = es \<Longrightarrow> drain (length es + n) b = map Received es @ replicate n Closed"
proof (induction es arbitrary: b)
  case (Cons e es)
  then show ?case using Cons.IH [of "b\<lparr>ib_queue := es\<rparr>"] by (simp add: ib_Recv_def)
qed (simp add: drain_Nil)

lemma Close_simps: "ib_closed (ib_Close b)" "ib_queue (ib_Close b) = ib_queue b"
  by (simp_all add: ib_Close_def)

text \<open>
  closing is final and lossless: a closed inbox accepts nothing more, and receiving hands out
  what was queued and then reports that it is closed, without ever blocking.
\<close>

theorem Close_drains:
  "drain (length (ib_queue b) + n) (ib_Close b) = map Received (ib_queue b) @ replicate n Closed
   \<and> fst (ib_Send (ib_Close b) e) = False"
  using drain_closed [OF Close_simps, of b n] by (simp add: Close_simps ib_Send_def)

end
