(* ===== verification/Turn_State.thy ===== *)
theory Turn_State
  imports Compose Store_Log Tool_Output Inbox
begin

section \<open>One turn of the agent (\<open>internal/figaro\<close>: \<open>turn.go\<close>, \<open>turn_seal.go\<close>, \<open>repair.go\<close>)\<close>

text \<open>
  The state the drain loop keeps for a turn: the message assembled from the provider's stream, the
  turn record that survives an interruption, the tools in flight and their timings, and the
  operations that put the outcome into the log. The log is an argument of the operations that
  append (\<open>i_append\<close>, the \<open>Append\<close> of the \<open>Log\<close> interface); the clock is the argument \<open>now\<close>.
\<close>

definition new_entry :: "message \<Rightarrow> message log_entry" where
  "new_entry m = \<lparr>LT = 0, FigaroLT = 0, Payload = m, Fingerprint = []\<rparr>"

subsection \<open>Assembling the streamed message (\<open>asm\<close>)\<close>

record asm =
  as_msg :: message
  as_toolIdx :: "(string, nat) fmap"

definition newAsm :: "role \<Rightarrow> asm" where
  "newAsm r = \<lparr>as_msg = zero_message\<lparr>m_role := r\<rparr>, as_toolIdx = fmempty\<rparr>"

abbreviation as_content :: "asm \<Rightarrow> content list" where
  "as_content s \<equiv> m_content (as_msg s)"

definition put_content :: "content list \<Rightarrow> asm \<Rightarrow> asm" where
  "put_content cs s = s\<lparr>as_msg := (as_msg s)\<lparr>m_content := cs\<rparr>\<rparr>"

definition addText :: "asm \<Rightarrow> string \<Rightarrow> string \<Rightarrow> asm" where
  "addText s kind txt =
     (if txt = [] then s
      else let cs = as_content s; n = length cs
           in if n > 0 \<and> c_type (cs ! (n - 1)) = kind
              then put_content (cs[n - 1 := (cs ! (n - 1))\<lparr>c_text := c_text (cs ! (n - 1)) @ txt\<rparr>]) s
              else put_content (cs @ [zero_content\<lparr>c_type := kind, c_text := txt\<rparr>]) s)"

definition toolOpen :: "asm \<Rightarrow> string \<Rightarrow> string \<Rightarrow> asm" where
  "toolOpen s tid name =
     (let cs = as_content s
      in (put_content (cs @ [zero_content\<lparr>c_type := ContentToolInvoke, c_tool_call_id := tid, c_tool_name := name\<rparr>]) s)
           \<lparr>as_toolIdx := fmupd tid (length cs) (as_toolIdx s)\<rparr>)"

text \<open>An index out of range would panic; the result is \<open>None\<close> there.\<close>

definition toolReady :: "asm \<Rightarrow> string \<Rightarrow> string \<Rightarrow> args \<Rightarrow> asm option" where
  "toolReady s tid name as =
     (let s1 = (if fmlookup (as_toolIdx s) tid = None then toolOpen s tid name else s);
          i = the (fmlookup (as_toolIdx s1) tid);
          as1 = (case as of None \<Rightarrow> Some [] | Some a \<Rightarrow> Some a)
      in if i < length (as_content s1) then
           (let c1 = (as_content s1 ! i)\<lparr>c_arguments := as1\<rparr>;
                c2 = (if name \<noteq> [] then c1\<lparr>c_tool_name := name\<rparr> else c1)
            in Some (put_content ((as_content s1)[i := c2]) s1))
         else None)"

definition asm_message :: "asm \<Rightarrow> message option" where
  "asm_message s = (if length (as_content s) = 0 then None else Some (as_msg s))"

text \<open>The index of a tool call points at its block.\<close>

definition asm_inv :: "asm \<Rightarrow> bool" where
  "asm_inv s \<longleftrightarrow> (\<forall>tid i. fmlookup (as_toolIdx s) tid = Some i \<longrightarrow>
     i < length (as_content s) \<and> c_type (as_content s ! i) = ContentToolInvoke \<and> c_tool_call_id (as_content s ! i) = tid)"

lemma put_content_simps [simp]:
  "as_content (put_content cs s) = cs" "as_toolIdx (put_content cs s) = as_toolIdx s"
  by (simp_all add: put_content_def)

lemma asm_inv_new [wf_intros]: "asm_inv (newAsm r)"
  by (simp add: asm_inv_def newAsm_def)

lemma asm_inv_addText [wf_intros]: "asm_inv s \<Longrightarrow> asm_inv (addText s kind txt)"
  by (auto simp: asm_inv_def addText_def Let_def nth_append nth_list_update intro: less_SucI)

lemma toolOpen_simps:
  "as_content (toolOpen s tid name) = as_content s @ [zero_content\<lparr>c_type := ContentToolInvoke, c_tool_call_id := tid, c_tool_name := name\<rparr>]"
  "as_toolIdx (toolOpen s tid name) = fmupd tid (length (as_content s)) (as_toolIdx s)"
  by (simp_all add: toolOpen_def put_content_def Let_def)

lemma asm_inv_toolOpen [wf_intros]: "asm_inv s \<Longrightarrow> asm_inv (toolOpen s tid name)"
  by (auto simp: asm_inv_def toolOpen_simps nth_append less_SucI)

lemma toolReady_Some:
  assumes "asm_inv s"
  shows "\<exists>s'. toolReady s tid name as = Some s' \<and> asm_inv s' \<and>
    (\<exists>i < length (as_content s'). c_tool_call_id (as_content s' ! i) = tid \<and> c_type (as_content s' ! i) = ContentToolInvoke
       \<and> c_arguments (as_content s' ! i) \<noteq> None)"
proof -
  define s1 where "s1 = (if fmlookup (as_toolIdx s) tid = None then toolOpen s tid name else s)"
  have s1: "asm_inv s1" using assms by (simp add: s1_def wf_intros)
  have "fmlookup (as_toolIdx s1) tid \<noteq> None" by (auto simp: s1_def toolOpen_simps)
  then obtain i where i: "fmlookup (as_toolIdx s1) tid = Some i" by auto
  then have b: "i < length (as_content s1)" "c_type (as_content s1 ! i) = ContentToolInvoke" "c_tool_call_id (as_content s1 ! i) = tid"
    using s1 by (auto simp: asm_inv_def)
  define c2 where "c2 = (let c1 = (as_content s1 ! i)\<lparr>c_arguments := (case as of None \<Rightarrow> Some [] | Some a \<Rightarrow> Some a)\<rparr>
      in if name \<noteq> [] then c1\<lparr>c_tool_name := name\<rparr> else c1)"
  have c2: "c_type c2 = ContentToolInvoke" "c_tool_call_id c2 = tid" "c_arguments c2 \<noteq> None"
    using b by (auto simp: c2_def Let_def split: option.splits)
  have r: "toolReady s tid name as = Some (put_content ((as_content s1)[i := c2]) s1)"
    using i b(1) by (simp add: toolReady_def s1_def [symmetric] c2_def Let_def)
  have "asm_inv (put_content ((as_content s1)[i := c2]) s1)"
    using s1 b c2 by (auto simp: asm_inv_def nth_list_update)
  with r show ?thesis
    by (intro exI [of _ "put_content ((as_content s1)[i := c2]) s1"] conjI exI [of _ i]) (simp_all add: b(1) c2)
qed

subsection \<open>Tool calls and their results\<close>

definition assistantToolInvokes :: "message \<Rightarrow> content list" where
  "assistantToolInvokes m =
     (if m_role m \<noteq> RoleAssistant then [] else filter (\<lambda>c. c_type c = ContentToolInvoke) (m_content m))"

record tool_outcome =
  oc_content :: "content list"
  oc_isErr :: bool

definition zero_outcome :: tool_outcome where
  "zero_outcome = \<lparr>oc_content = [], oc_isErr = False\<rparr>"

definition toolOutcomeText :: "tool_outcome \<Rightarrow> string" where
  "toolOutcomeText oc = concat (map c_text (filter (\<lambda>c. c_type c = ContentProse) (oc_content oc)))"

definition assemble_one :: "string fset \<Rightarrow> (string, tool_outcome) fmap \<Rightarrow> content \<Rightarrow> content" where
  "assemble_one expect outcomes tc =
     (if c_tool_call_id tc |\<notin>| expect
      then ToolResultContent (c_tool_call_id tc) (c_tool_name tc) ''Error: missing tool_call_id'' True
      else let oc = (case fmlookup outcomes (c_tool_call_id tc) of Some oc \<Rightarrow> oc | None \<Rightarrow> zero_outcome)
           in ToolResultContent (c_tool_call_id tc) (c_tool_name tc) (toolOutcomeText oc) (oc_isErr oc))"

definition assembleToolResults ::
  "bool \<Rightarrow> int \<Rightarrow> content list \<Rightarrow> string fset \<Rightarrow> (string, tool_outcome) fmap \<Rightarrow> message" where
  "assembleToolResults interrupted now calls expect outcomes =
     (let results = map (assemble_one expect outcomes) calls;
          results' =
            (if interrupted
             then map2 (\<lambda>tc r. if c_type r = []
                    then ToolResultContent (c_tool_call_id tc) (c_tool_name tc) ''interrupted: tool execution was cancelled'' True
                    else r) calls results
             else results)
      in zero_message\<lparr>m_role := RoleUser, m_content := results', m_timestamp := now\<rparr>)"

definition tailRepairNotice :: string where
  "tailRepairNotice = ''process died mid-turn; output not captured''"

definition repairInterruptedTail ::
  "('l \<Rightarrow> message log_entry option) \<Rightarrow> ('l \<Rightarrow> message log_entry \<Rightarrow> 'err + (message log_entry \<times> 'l)) \<Rightarrow> int
     \<Rightarrow> 'l \<Rightarrow> message log_entry option \<times> 'l" where
  "repairInterruptedTail i_peek i_append now log =
     (case i_peek log of
        None \<Rightarrow> (None, log)
      | Some tail \<Rightarrow>
          (if m_role (Payload tail) \<noteq> RoleAssistant then (None, log)
           else let calls = assistantToolInvokes (Payload tail)
                in if length calls = 0 then (None, log)
                   else let results = map (\<lambda>c. ToolResultContent (c_tool_call_id c) (c_tool_name c) tailRepairNotice True) calls
                        in case i_append log (new_entry (zero_message\<lparr>m_role := RoleUser, m_content := results, m_timestamp := now\<rparr>)) of
                             Inl _ \<Rightarrow> (None, log)
                           | Inr (stamped, log') \<Rightarrow> (Some stamped, log')))"

subsubsection \<open>Pairing\<close>

text \<open>
  What the provider requires of a conversation: every assistant message that calls tools is
  followed by a user message with one result per call, in the order of the calls.
\<close>

definition result_ids :: "message \<Rightarrow> string list" where
  "result_ids m = map c_tool_call_id (filter (\<lambda>c. c_type c = ContentToolResult) (m_content m))"

definition invoke_ids :: "message \<Rightarrow> string list" where
  "invoke_ids m = map c_tool_call_id (assistantToolInvokes m)"

definition answers :: "message \<Rightarrow> message \<Rightarrow> bool" where
  "answers r m \<longleftrightarrow> m_role r = RoleUser \<and> result_ids r = invoke_ids m"

fun paired_open :: "message list \<Rightarrow> bool" where
  "paired_open [] = True"
| "paired_open [m] = True"
| "paired_open (m # r # ms) = ((invoke_ids m = [] \<or> answers r m) \<and> paired_open (r # ms))"

definition paired :: "message list \<Rightarrow> bool" where
  "paired ms \<longleftrightarrow> paired_open ms \<and> (ms = [] \<or> invoke_ids (last ms) = [])"

lemma paired_open_snoc:
  "ms \<noteq> [] \<Longrightarrow> paired_open (ms @ [r]) \<longleftrightarrow> paired_open ms \<and> (invoke_ids (last ms) = [] \<or> answers r (last ms))"
  by (induction ms rule: paired_open.induct) auto

lemma paired_snoc_plain: "paired ms \<Longrightarrow> invoke_ids m = [] \<Longrightarrow> paired (ms @ [m])"
  by (cases "ms = []") (auto simp: paired_def paired_open_snoc)

lemma paired_snoc_open: "paired ms \<Longrightarrow> paired_open (ms @ [m])"
  by (cases "ms = []") (auto simp: paired_def paired_open_snoc)

lemma paired_answer:
  assumes "paired_open (ms @ [m])" and "answers r m"
  shows "paired (ms @ [m, r])"
proof -
  have "invoke_ids r = []" using assms(2) by (simp add: answers_def invoke_ids_def assistantToolInvokes_def)
  moreover have "paired_open ((ms @ [m]) @ [r])" using assms by (subst paired_open_snoc) simp_all
  ultimately show ?thesis by (simp add: paired_def)
qed

lemma answers_results:
  assumes "map c_tool_call_id rs = invoke_ids m" and "\<And>c. c \<in> set rs \<Longrightarrow> c_type c = ContentToolResult"
  shows "answers (zero_message\<lparr>m_role := RoleUser, m_content := rs, m_timestamp := now\<rparr>) m"
proof -
  have "filter (\<lambda>c. c_type c = ContentToolResult) rs = rs" using assms(2) by (simp add: filter_id_conv)
  with assms(1) show ?thesis by (simp add: answers_def result_ids_def zero_message_def)
qed

lemma ToolResultContent_simps [simp]:
  "c_type (ToolResultContent i n t e) = ContentToolResult" "c_tool_call_id (ToolResultContent i n t e) = i"
  "c_is_error (ToolResultContent i n t e) = e" "c_text (ToolResultContent i n t e) = t"
  by (simp_all add: go_defs)

lemma assemble_one_simps [simp]:
  "c_type (assemble_one ex oc tc) = ContentToolResult" "c_tool_call_id (assemble_one ex oc tc) = c_tool_call_id tc"
  by (simp_all add: assemble_one_def Let_def)

text \<open>No result is ever left blank, so the pass over an interrupted turn changes nothing.\<close>

lemma assemble_interrupt_noop:
  "m_content (assembleToolResults interrupted now calls expect outcomes) = map (assemble_one expect outcomes) calls"
proof -
  have "map2 (\<lambda>tc r. if c_type r = [] then f tc else r) calls (map (assemble_one expect outcomes) calls)
      = map (assemble_one expect outcomes) calls" for f
    by (induction calls) simp_all
  then show ?thesis by (simp add: assembleToolResults_def Let_def)
qed

lemma assemble_answers:
  "m_role m = RoleAssistant \<Longrightarrow> answers (assembleToolResults interrupted now (assistantToolInvokes m) expect outcomes) m"
  using assemble_interrupt_noop [of interrupted now "assistantToolInvokes m" expect outcomes]
  by (simp add: answers_def result_ids_def invoke_ids_def assembleToolResults_def Let_def comp_def filter_True zero_message_def)

subsection \<open>The turn record\<close>

record turn_tool =
  tn_id :: string
  tn_name :: string
  tn_status :: string
  tn_outputTail :: string
  tn_result :: string
  tn_isError :: bool

definition zero_tool :: turn_tool where
  "zero_tool = \<lparr>tn_id = [], tn_name = [], tn_status = [], tn_outputTail = [], tn_result = [], tn_isError = False\<rparr>"

record turn_state =
  ts_assistant :: message
  ts_tools :: "turn_tool list"
  ts_states :: "(string, turn_tool) fmap"
  ts_committed :: bool

definition newTurnState :: turn_state where
  "newTurnState = \<lparr>ts_assistant = zero_message\<lparr>m_role := RoleAssistant\<rparr>, ts_tools = [], ts_states = fmempty, ts_committed = False\<rparr>"

definition complete_block :: "content \<Rightarrow> bool" where
  "complete_block c \<longleftrightarrow> \<not> (c_type c = ContentToolInvoke \<and> (c_tool_call_id c = [] \<or> c_tool_name c = [] \<or> c_arguments c = None))"

definition partialAssistant :: "message option \<Rightarrow> message" where
  "partialAssistant mo =
     (let out = zero_message\<lparr>m_role := RoleAssistant\<rparr>
      in case mo of
           None \<Rightarrow> out
         | Some m \<Rightarrow> out\<lparr>m_timestamp := m_timestamp m, m_usage := m_usage m, m_stop_reason := m_stop_reason m,
                        m_content := filter complete_block (m_content m)\<rparr>)"

definition toolsFromAssistant :: "message \<Rightarrow> turn_tool list" where
  "toolsFromAssistant m =
     map (\<lambda>c. zero_tool\<lparr>tn_id := c_tool_call_id c, tn_name := c_tool_name c, tn_status := ''pending''\<rparr>)
       (filter (\<lambda>c. \<not> (c_type c \<noteq> ContentToolInvoke \<or> c_tool_call_id c = [])) (m_content m))"

definition mergeTurnTools :: "turn_tool list \<Rightarrow> turn_tool list \<Rightarrow> (string, turn_tool) fmap \<Rightarrow> turn_tool list" where
  "mergeTurnTools current previous states =
     (let byID = fold (\<lambda>t m. fmupd (tn_id t) t m) previous fmempty
      in map (\<lambda>c. let c1 = (case fmlookup byID (tn_id c) of Some prior \<Rightarrow> prior | None \<Rightarrow> c)
                  in case fmlookup states (tn_id c1) of Some st \<Rightarrow> st | None \<Rightarrow> c1) current)"

definition noteAssistant :: "turn_state option \<Rightarrow> message option \<Rightarrow> turn_state option" where
  "noteAssistant turn m =
     (case turn of
        None \<Rightarrow> None
      | Some t \<Rightarrow>
          (let a = partialAssistant m
           in Some (t\<lparr>ts_assistant := a, ts_tools := mergeTurnTools (toolsFromAssistant a) (ts_tools t) (ts_states t)\<rparr>)))"

definition liveOutputTail :: nat where
  "liveOutputTail = 200"

definition boundedToolTail :: "string \<Rightarrow> string" where
  "boundedToolTail text =
     (let lines = split_on nl text;
          kept = (if length lines > liveOutputTail then drop (length lines - liveOutputTail) lines else lines);
          joined = join_with [nl] kept
      in if length joined > 65536 then drop (length joined - 65536) joined else joined)"

text \<open>The streamed tail and the terminal text of a finished tool, joined without repetition.\<close>

definition combine_output :: "string \<Rightarrow> string \<Rightarrow> string" where
  "combine_output terminal streamed =
     (if terminal = [] then streamed
      else if streamed = [] \<or> contains terminal streamed then terminal
      else if contains streamed terminal then streamed
      else streamed @ [nl] @ terminal)"

definition update_first :: "string \<Rightarrow> turn_tool \<Rightarrow> turn_tool list \<Rightarrow> turn_tool list" where
  "update_first tid t ts =
     (case find (\<lambda>i. tn_id (ts ! i) = tid) [0..<length ts] of None \<Rightarrow> ts | Some i \<Rightarrow> ts[i := t])"

text \<open>The updated entry of one tool, from its previous entry.\<close>

definition noted_tool :: "governor option \<Rightarrow> turn_tool \<Rightarrow> string \<Rightarrow> string \<Rightarrow> string \<Rightarrow> bool \<Rightarrow> string option \<Rightarrow> turn_tool" where
  "noted_tool gov t0 tid name status isErr terminalText =
     (let t1 = t0\<lparr>tn_id := tid\<rparr>;
          t2 = (if name \<noteq> [] then t1\<lparr>tn_name := name\<rparr> else t1);
          t3 = (if status \<noteq> [] then t2\<lparr>tn_status := status\<rparr> else t2);
          t4 = t3\<lparr>tn_isError := isErr\<rparr>
      in case terminalText of
           Some txt \<Rightarrow>
             (let combined = combine_output (trim_space txt)
                    (case gov of None \<Rightarrow> [] | Some g \<Rightarrow> trim_space (gv_Tail g tid))
              in t4\<lparr>tn_result := combined, tn_outputTail := boundedToolTail combined\<rparr>)
         | None \<Rightarrow> (case gov of None \<Rightarrow> t4 | Some g \<Rightarrow> t4\<lparr>tn_outputTail := gv_Tail g tid\<rparr>))"

definition noteTool ::
  "governor option \<Rightarrow> turn_state option \<Rightarrow> string \<Rightarrow> string \<Rightarrow> string \<Rightarrow> bool \<Rightarrow> string option \<Rightarrow> turn_state option" where
  "noteTool gov turn tid name status isErr terminalText =
     (case turn of
        None \<Rightarrow> None
      | Some ts \<Rightarrow>
          (let t0 = (case fmlookup (ts_states ts) tid of Some t \<Rightarrow> t | None \<Rightarrow> zero_tool);
               t = noted_tool gov t0 tid name status isErr terminalText
           in Some (ts\<lparr>ts_states := fmupd tid t (ts_states ts), ts_tools := update_first tid t (ts_tools ts)\<rparr>)))"

definition interruptedToolNotice :: string where
  "interruptedToolNotice = ''interrupted: tool execution did not complete''"

definition truncatedNotice :: string where
  "truncatedNotice = [nl, nl] @ ''[output truncated: process interrupted before the full result was recorded]''"

definition interrupted_result :: "turn_tool \<Rightarrow> content" where
  "interrupted_result t =
     (let text = trim_space (tn_outputTail t)
      in if tn_status t = ''ok'' \<or> tn_status t = ''error'' then
           ToolResultContent (tn_id t) (tn_name t)
             (if trim_space (tn_result t) \<noteq> [] then trim_space (tn_result t)
              else if text \<noteq> [] then text @ truncatedNotice else text)
             (tn_status t = ''error'' \<or> tn_isError t)
         else ToolResultContent (tn_id t) (tn_name t)
                ((if text \<noteq> [] then text @ [nl, nl] else text) @ interruptedToolNotice) True)"

definition interruptedToolResults :: "turn_tool list \<Rightarrow> content list" where
  "interruptedToolResults tools = map interrupted_result (filter (\<lambda>t. tn_id t \<noteq> []) tools)"

datatype 'err seal_error = SealAssistant 'err | SealResults 'err

definition user_results :: "int \<Rightarrow> content list \<Rightarrow> message" where
  "user_results now cs = zero_message\<lparr>m_role := RoleUser, m_content := cs, m_timestamp := now\<rparr>"

text \<open>
  \<open>sealTurn\<close>: the turn record becomes log entries. The result is the messages appended, the
  error if an append failed, and the log; the record itself is dropped in every case.
\<close>

definition sealTurn ::
  "('l \<Rightarrow> message log_entry \<Rightarrow> 'err + (message log_entry \<times> 'l)) \<Rightarrow> int \<Rightarrow> 'l \<Rightarrow> turn_state option
     \<Rightarrow> (message list \<times> 'err seal_error option) \<times> 'l" where
  "sealTurn i_append now log turn =
     (case turn of
        None \<Rightarrow> (([], None), log)
      | Some t \<Rightarrow>
          (let tools = interruptedToolResults (ts_tools t)
           in if ts_committed t then
                (if length tools = 0 then (([], None), log)
                 else case i_append log (new_entry (user_results now tools)) of
                        Inl err \<Rightarrow> (([], Some (SealResults err)), log)
                      | Inr (e, log') \<Rightarrow> (([Payload e], None), log'))
              else
                (let a1 = (ts_assistant t)\<lparr>m_role := RoleAssistant, m_stop_reason := StopAborted\<rparr>;
                     a2 = (if m_timestamp a1 = 0 then a1\<lparr>m_timestamp := now\<rparr> else a1)
                 in if length (m_content a1) = 0 then (([], None), log)
                    else case i_append log (new_entry a2) of
                           Inl err \<Rightarrow> (([], Some (SealAssistant err)), log)
                         | Inr (e, log1) \<Rightarrow>
                             (if length tools > 0 then
                                (case i_append log1 (new_entry (user_results now tools)) of
                                   Inl err \<Rightarrow> (([Payload e], Some (SealResults err)), log1)
                                 | Inr (e2, log2) \<Rightarrow> (([Payload e, Payload e2], None), log2))
                              else (([Payload e], None), log1)))))"

subsubsection \<open>The tools of the record are the calls of its message\<close>

definition ts_inv :: "turn_state \<Rightarrow> bool" where
  "ts_inv t \<longleftrightarrow> (\<forall>tid st. fmlookup (ts_states t) tid = Some st \<longrightarrow> tn_id st = tid)
     \<and> m_role (ts_assistant t) = RoleAssistant
     \<and> (\<forall>c \<in> set (m_content (ts_assistant t)). complete_block c)
     \<and> map tn_id (ts_tools t) = invoke_ids (ts_assistant t)"

lemma ts_inv_new [wf_intros]: "ts_inv newTurnState"
  by (simp add: ts_inv_def newTurnState_def invoke_ids_def assistantToolInvokes_def zero_message_def)

definition keyed :: "(string, turn_tool) fmap \<Rightarrow> bool" where
  "keyed m \<longleftrightarrow> (\<forall>k t. fmlookup m k = Some t \<longrightarrow> tn_id t = k)"

lemma keyed_upd: "keyed m \<Longrightarrow> tn_id t = k \<Longrightarrow> keyed (fmupd k t m)"
  by (auto simp: keyed_def)

lemma keyed_fold: "keyed m \<Longrightarrow> keyed (fold (\<lambda>t m. fmupd (tn_id t) t m) ts m)"
  by (induction ts arbitrary: m) (simp_all add: keyed_upd)

lemma byID_id: "fmlookup (fold (\<lambda>t m. fmupd (tn_id t) t m) (ts :: turn_tool list) fmempty) k = Some t \<Longrightarrow> tn_id t = k"
  using keyed_fold [of fmempty ts] by (simp add: keyed_def)

lemma mergeTurnTools_ids:
  assumes "\<And>tid st. fmlookup states tid = Some st \<Longrightarrow> tn_id st = tid"
  shows "map tn_id (mergeTurnTools current previous states) = map tn_id current"
proof -
  let ?byID = "fold (\<lambda>t m. fmupd (tn_id t) t m) previous fmempty"
  define pick where "pick c = (case fmlookup ?byID (tn_id c) of Some prior \<Rightarrow> prior | None \<Rightarrow> c)" for c
  define known where "known c = (case fmlookup states (tn_id c) of Some st \<Rightarrow> st | None \<Rightarrow> c)" for c
  have "tn_id (known c) = tn_id c" for c using assms by (auto simp: known_def split: option.splits)
  moreover have "tn_id (pick c) = tn_id c" for c by (auto simp: pick_def split: option.splits dest: byID_id)
  moreover have "mergeTurnTools current previous states = map (\<lambda>c. known (pick c)) current"
    by (simp add: mergeTurnTools_def Let_def known_def pick_def)
  ultimately show ?thesis by simp
qed

lemma toolsFromAssistant_ids:
  assumes "m_role m = RoleAssistant" "\<forall>c \<in> set (m_content m). complete_block c"
  shows "map tn_id (toolsFromAssistant m) = invoke_ids m"
proof -
  have "filter (\<lambda>c. \<not> (c_type c \<noteq> ContentToolInvoke \<or> c_tool_call_id c = [])) (m_content m)
      = filter (\<lambda>c. c_type c = ContentToolInvoke) (m_content m)"
    using assms(2) by (intro filter_cong) (auto simp: complete_block_def)
  then show ?thesis using assms(1)
    by (simp add: toolsFromAssistant_def invoke_ids_def assistantToolInvokes_def zero_tool_def comp_def)
qed

lemma partialAssistant_complete:
  "m_role (partialAssistant mo) = RoleAssistant" "\<forall>c \<in> set (m_content (partialAssistant mo)). complete_block c"
  by (auto simp: partialAssistant_def Let_def zero_message_def split: option.splits)

lemma ts_inv_noteAssistant [wf_intros]:
  assumes "ts_inv t" and "noteAssistant (Some t) m = Some t'"
  shows "ts_inv t'"
proof -
  let ?a = "partialAssistant m"
  have t': "t' = t\<lparr>ts_assistant := ?a, ts_tools := mergeTurnTools (toolsFromAssistant ?a) (ts_tools t) (ts_states t)\<rparr>"
    using assms(2) by (simp add: noteAssistant_def Let_def)
  have "map tn_id (mergeTurnTools (toolsFromAssistant ?a) (ts_tools t) (ts_states t)) = invoke_ids ?a"
    using assms(1) mergeTurnTools_ids [of "ts_states t"] toolsFromAssistant_ids [OF partialAssistant_complete]
    by (simp add: ts_inv_def)
  with assms(1) partialAssistant_complete show ?thesis by (simp add: ts_inv_def t')
qed

lemma update_first_ids: "tn_id t = tid \<Longrightarrow> map tn_id (update_first tid t ts) = map tn_id ts"
  by (auto simp: update_first_def find_Some_iff map_update list_update_same_conv split: option.splits)

lemma ts_inv_noteTool [wf_intros]:
  assumes "ts_inv t" and "noteTool gov (Some t) tid name status isErr term = Some t'"
  shows "ts_inv t'"
proof -
  have "tn_id (noted_tool gov t0 tid name status isErr term) = tid" for t0
    by (simp add: noted_tool_def Let_def split: option.split)
  with assms show ?thesis
    by (auto simp: noteTool_def Let_def ts_inv_def update_first_ids split: if_splits)
qed

lemma interrupted_result_simps [simp]:
  "c_type (interrupted_result t) = ContentToolResult" "c_tool_call_id (interrupted_result t) = tn_id t"
  by (simp_all add: interrupted_result_def Let_def)

lemma seal_ids:
  assumes "ts_inv t"
  shows "map c_tool_call_id (interruptedToolResults (ts_tools t)) = invoke_ids (ts_assistant t)"
proof -
  have "\<forall>tid \<in> set (invoke_ids (ts_assistant t)). tid \<noteq> []"
    using assms by (auto simp: ts_inv_def invoke_ids_def assistantToolInvokes_def complete_block_def)
  then have "\<forall>u \<in> set (ts_tools t). tn_id u \<noteq> []"
    using assms by (simp add: ts_inv_def flip: list.set_map) (metis imageI list.set_map)
  then have "filter (\<lambda>u. tn_id u \<noteq> []) (ts_tools t) = ts_tools t" by (simp add: filter_id_conv)
  then show ?thesis using assms by (simp add: interruptedToolResults_def comp_def ts_inv_def)
qed

subsection \<open>Dispatch, timings, the deferred log\<close>

text \<open>
  The dispatcher's table of tools in flight. \<open>dispatch\<close> returns whether the call is pending and
  the table; the goroutines it has started are the list \<open>sd_launched\<close>.
\<close>

record spec_dispatcher =
  sd_pending :: "(string, content) fmap"
  sd_launched :: "content list"

definition newSpecDispatcher :: spec_dispatcher where
  "newSpecDispatcher = \<lparr>sd_pending = fmempty, sd_launched = []\<rparr>"

definition dispatch :: "spec_dispatcher \<Rightarrow> content \<Rightarrow> bool \<times> spec_dispatcher" where
  "dispatch sd tc =
     (if c_type tc \<noteq> ContentToolInvoke \<or> c_tool_call_id tc = [] then (False, sd)
      else case fmlookup (sd_pending sd) (c_tool_call_id tc) of
             Some _ \<Rightarrow> (True, sd)
           | None \<Rightarrow> (True, sd\<lparr>sd_pending := fmupd (c_tool_call_id tc) tc (sd_pending sd),
                            sd_launched := sd_launched sd @ [tc]\<rparr>))"

definition sd_inv :: "spec_dispatcher \<Rightarrow> bool" where
  "sd_inv sd \<longleftrightarrow> distinct (map c_tool_call_id (sd_launched sd))
     \<and> fmdom' (sd_pending sd) = c_tool_call_id ` set (sd_launched sd)"

lemma sd_inv_dispatch: "sd_inv sd \<Longrightarrow> sd_inv (snd (dispatch sd tc))"
  by (auto simp: sd_inv_def dispatch_def fmlookup_dom'_iff split: option.splits)
     (metis fmdom'_notI imageI option.distinct(1))

lemma dispatch_ids:
  "c_tool_call_id ` set (sd_launched (snd (dispatch sd tc))) = c_tool_call_id ` set (sd_launched sd)
     \<union> (if c_type tc = ContentToolInvoke \<and> c_tool_call_id tc \<noteq> [] then {c_tool_call_id tc} else {})"
  if "sd_inv sd"
  using that by (auto simp: sd_inv_def dispatch_def fmlookup_dom'_iff split: option.splits)

definition startToolTiming :: "int \<Rightarrow> (string, tool_timing) fmap \<Rightarrow> string \<Rightarrow> int \<Rightarrow> (string, tool_timing) fmap" where
  "startToolTiming now timings tid at =
     (if tid = [] then timings
      else let at1 = (if at = 0 then now else at);
               t = (case fmlookup timings tid of Some t \<Rightarrow> t | None \<Rightarrow> \<lparr>tt_started_at = 0, tt_finished_at = 0\<rparr>)
           in if tt_started_at t = 0 then fmupd tid (t\<lparr>tt_started_at := at1\<rparr>) timings else timings)"

definition finishToolTiming :: "int \<Rightarrow> (string, tool_timing) fmap \<Rightarrow> string \<Rightarrow> int \<Rightarrow> (string, tool_timing) fmap" where
  "finishToolTiming now timings tid at =
     (if tid = [] then timings
      else let at1 = (if at = 0 then now else at);
               timings1 = startToolTiming now timings tid at1;
               t = (case fmlookup timings1 tid of Some t \<Rightarrow> t | None \<Rightarrow> \<lparr>tt_started_at = 0, tt_finished_at = 0\<rparr>)
           in if tt_finished_at t = 0 then fmupd tid (t\<lparr>tt_finished_at := at1\<rparr>) timings1 else timings1)"

text \<open>The log facade the provider appends to: it stages one entry and stamps the next time.\<close>

record 'l deferred_log =
  dl_base :: 'l
  dl_next :: lt
  dl_item :: "message log_entry option"

definition newDeferredAppendLog :: "('l \<Rightarrow> message log_entry option) \<Rightarrow> 'l \<Rightarrow> 'l deferred_log" where
  "newDeferredAppendLog i_peek base =
     \<lparr>dl_base = base, dl_next = (case i_peek base of Some tail \<Rightarrow> LT tail + 1 | None \<Rightarrow> 1), dl_item = None\<rparr>"

definition dl_Append :: "'l deferred_log \<Rightarrow> message log_entry \<Rightarrow> string + (message log_entry \<times> 'l deferred_log)" where
  "dl_Append l e =
     (if dl_item l \<noteq> None then Inl ''provider appended more than one assistant message''
      else let e1 = e\<lparr>LT := dl_next l, FigaroLT := dl_next l\<rparr> in Inr (e1, l\<lparr>dl_item := Some e1\<rparr>))"

definition dl_take :: "'l deferred_log \<Rightarrow> message \<Rightarrow> message log_entry" where
  "dl_take l fallback = (case dl_item l of Some e \<Rightarrow> e | None \<Rightarrow> new_entry fallback)"

definition nextIndex :: "('l \<Rightarrow> message log_entry option) \<Rightarrow> 'l \<Rightarrow> lt" where
  "nextIndex i_peek log = (case i_peek log of Some e \<Rightarrow> LT e + 1 | None \<Rightarrow> 1)"

definition sealedTail :: "('l \<Rightarrow> message log_entry option) \<Rightarrow> 'l \<Rightarrow> lt \<Rightarrow> role \<Rightarrow> message log_entry option" where
  "sealedTail i_peek log expectIdx r =
     (case i_peek log of
        None \<Rightarrow> None
      | Some e \<Rightarrow> (if LT e \<noteq> expectIdx \<or> m_role (Payload e) \<noteq> r then None else Some e))"

subsection \<open>Composing the turn\<close>

definition stamped :: "message log_entry \<Rightarrow> message" where
  "stamped e = (Payload e)\<lparr>m_logical_time := LT e\<rparr>"

text \<open>\<open>entries\<close> is \<open>ReadFrom(turnStartLT+1, 0)\<close>.\<close>

definition composeTurn_msgs :: "lt \<Rightarrow> message log_entry list \<Rightarrow> message option \<Rightarrow> message list" where
  "composeTurn_msgs turnStartLT entries inflight =
     (let n = length entries;
          msgs = map stamped entries;
          live = (case inflight of
                    Some m \<Rightarrow> (if n > 0 \<and> m_role (Payload (entries ! (n - 1))) = RoleAssistant then None else Some m)
                  | None \<Rightarrow> None)
      in case live of
           None \<Rightarrow> msgs
         | Some m \<Rightarrow>
             (let t = (if n > 0 then LT (entries ! (n - 1)) + 1 else turnStartLT + 1)
              in msgs @ [m\<lparr>m_logical_time := t\<rparr>]))"

definition composeTurn :: "hooks \<Rightarrow> tool_inputs \<Rightarrow> lt \<Rightarrow> message log_entry list \<Rightarrow> message option \<Rightarrow> node list" where
  "composeTurn h ti turnStartLT entries inflight = Nodes h (composeTurn_msgs turnStartLT entries inflight) ti"

lemma window_drop:
  assumes "map FigaroLT rows = [1..<n + 1]" and "t \<le> n"
  shows "readFrom rows (t + 1) 0 = Inr (drop t rows)"
proof -
  have len: "length rows = n" using arg_cong [OF assms(1), of length] by simp
  have nth: "FigaroLT (rows ! i) = i + 1" if "i < n" for i
    using arg_cong [OF assms(1), of "\<lambda>xs. xs ! i"] that len by (simp add: nth_map nth_upt del: upt_Suc)
  have "sort_search (length rows) (\<lambda>i. t + 1 \<le> FigaroLT (rows ! i)) = t"
    using assms(2) len nth by (intro sort_search_at) auto
  then show ?thesis using assms(2) len by (simp add: readFrom_def slice_from_def Let_def)
qed

subsection \<open>Properties\<close>

text \<open>
  after a crash in the middle of a tool round, the repair at the next start restores the
  pairing of tool calls and results: when every assistant message but possibly the last one was
  answered, every one is answered afterwards; nothing already logged is changed, and a second
  repair does nothing.
\<close>

theorem repair_restores_pairing:
  assumes "ml_wf log" and "paired_open (map Payload (ml_Read log))"
    and "repairInterruptedTail ml_PeekTail (ml_Append :: _ \<Rightarrow> _ \<Rightarrow> unit + _) now log = (r, log')"
  shows "paired (map Payload (ml_Read log')) \<and> prefix (ml_Read log) (ml_Read log')
    \<and> repairInterruptedTail ml_PeekTail (ml_Append :: _ \<Rightarrow> _ \<Rightarrow> unit + _) now' log' = (None, log')"
proof (cases "ml_Read log = []")
  case True
  then have "ml_PeekTail log = None" by (simp add: ml_PeekTail_def ml_Read_def)
  with assms(3) True show ?thesis by (auto simp: repairInterruptedTail_def paired_def)
next
  case False
  obtain es e where es: "ml_Read log = es @ [e]" using False by (cases "ml_Read log" rule: rev_cases) auto
  have peek: "ml_PeekTail log = Some e" using memlog.peek_read [OF assms(1)] es by simp
  let ?m = "Payload e"
  show ?thesis
  proof (cases "m_role ?m \<noteq> RoleAssistant \<or> assistantToolInvokes ?m = []")
    case True
    then have "invoke_ids ?m = []" by (auto simp: invoke_ids_def assistantToolInvokes_def)
    moreover have "repairInterruptedTail ml_PeekTail (ml_Append :: _ \<Rightarrow> _ \<Rightarrow> unit + _) n log = (None, log)" for n
      using True peek by (auto simp: repairInterruptedTail_def Let_def)
    ultimately show ?thesis using assms(2,3) es by (simp add: paired_def)
  next
    case call: False
    let ?rs = "map (\<lambda>c. ToolResultContent (c_tool_call_id c) (c_tool_name c) tailRepairNotice True) (assistantToolInvokes ?m)"
    let ?msg = "zero_message\<lparr>m_role := RoleUser, m_content := ?rs, m_timestamp := now\<rparr>"
    have log': "log' = snd (ml_appendLocked log (new_entry ?msg))"
      using assms(3) peek call by (auto simp: repairInterruptedTail_def Let_def ml_Append_def split: prod.splits)
    define e' where "e' = fst (ml_appendLocked log (new_entry ?msg))"
    have rd: "ml_Read log' = es @ [e, e']" and pl: "Payload e' = ?msg"
      using es by (simp_all add: log' e'_def ml_Read_def ml_append_read ml_append_payload new_entry_def)
    have ans: "answers ?msg ?m" by (rule answers_results) (auto simp: invoke_ids_def comp_def)
    have "ml_wf log'" using assms(1) by (simp add: log' wf_intros)
    from memlog.peek_read [OF this] rd have "ml_PeekTail log' = Some e'" by simp
    then have "repairInterruptedTail ml_PeekTail (ml_Append :: _ \<Rightarrow> _ \<Rightarrow> unit + _) now' log' = (None, log')"
      by (simp add: repairInterruptedTail_def pl)
    moreover have "paired (map Payload (ml_Read log'))"
      using paired_answer [OF _ ans] assms(2) es by (simp add: rd pl)
    ultimately show ?thesis using es by (simp add: rd)
  qed
qed

definition sample_call :: content where
  "sample_call = zero_content\<lparr>c_type := ContentToolInvoke, c_tool_call_id := ''t1'', c_tool_name := ''bash''\<rparr>"

theorem repair_restores_pairing_witness:
  "let m = zero_message\<lparr>m_role := RoleAssistant, m_content := [sample_call]\<rparr>;
       log = snd (ml_appendLocked NewMemLog (new_entry m));
       log' = snd (repairInterruptedTail ml_PeekTail (ml_Append :: _ \<Rightarrow> _ \<Rightarrow> unit + _) 5 log)
   in paired (map Payload (ml_Read log'))"
proof -
  let ?m = "zero_message\<lparr>m_role := RoleAssistant, m_content := [sample_call]\<rparr>"
  let ?log = "snd (ml_appendLocked NewMemLog (new_entry ?m))"
  let ?r = "repairInterruptedTail ml_PeekTail (ml_Append :: _ \<Rightarrow> _ \<Rightarrow> unit + _) 5 ?log"
  have "ml_wf ?log" by (intro wf_intros)
  moreover have "paired_open (map Payload (ml_Read ?log))" by (simp add: ml_Read_def ml_append_read NewMemLog_def)
  ultimately show ?thesis using repair_restores_pairing [of ?log 5 "fst ?r" "snd ?r"] by (simp add: Let_def)
qed

text \<open>
  speculative dispatch and the reconciliation after the stream may present the same call any
  number of times, in any order; each tool call id is launched at most once, and exactly the ids
  of well-formed invocations are launched.
\<close>

theorem dispatch_once:
  defines "run tcs \<equiv> fold (\<lambda>tc sd. snd (dispatch sd tc)) tcs newSpecDispatcher"
  shows "distinct (map c_tool_call_id (sd_launched (run tcs)))
    \<and> c_tool_call_id ` set (sd_launched (run tcs))
        = c_tool_call_id ` {tc \<in> set tcs. c_type tc = ContentToolInvoke \<and> c_tool_call_id tc \<noteq> []}"
proof -
  have "sd_inv (run tcs) \<and> c_tool_call_id ` set (sd_launched (run tcs))
        = c_tool_call_id ` {tc \<in> set tcs. c_type tc = ContentToolInvoke \<and> c_tool_call_id tc \<noteq> []}"
  proof (induction tcs rule: rev_induct)
    case Nil
    then show ?case by (simp add: run_def sd_inv_def newSpecDispatcher_def)
  next
    case (snoc tc tcs)
    have step: "run (tcs @ [tc]) = snd (dispatch (run tcs) tc)" by (simp add: run_def)
    show ?case using snoc sd_inv_dispatch [of "run tcs" tc] dispatch_ids [of "run tcs" tc] unfolding step by auto
  qed
  then show ?thesis by (simp add: sd_inv_def)
qed

text \<open>
  the pass of \<open>assembleToolResults\<close> that is meant to mark unfinished tools of an interrupted
  turn never fires: the first pass has filled every slot, so a dispatched tool without an outcome
  is reported as a success with empty text, interrupted or not.
\<close>

theorem interrupted_pass_is_dead:
  assumes "tc \<in> set calls" and "c_tool_call_id tc |\<in>| expect" and "fmlookup outcomes (c_tool_call_id tc) = None"
  shows "ToolResultContent (c_tool_call_id tc) (c_tool_name tc) [] False
    \<in> set (m_content (assembleToolResults True now calls expect outcomes))"
proof -
  have "assemble_one expect outcomes tc = ToolResultContent (c_tool_call_id tc) (c_tool_name tc) [] False"
    using assms(2,3) by (simp add: assemble_one_def toolOutcomeText_def zero_outcome_def)
  then show ?thesis using assms(1) by (auto simp: assemble_interrupt_noop image_iff intro!: bexI [of _ tc])
qed

theorem interrupted_pass_is_dead_witness:
  "ToolResultContent ''t1'' ''bash'' [] False
    \<in> set (m_content (assembleToolResults True 5 [sample_call] {|''t1''|} fmempty))"
  using interrupted_pass_is_dead [of sample_call "[sample_call]" "{|''t1''|}" fmempty 5]
  by (simp add: sample_call_def zero_content_def)

text \<open>
  the live frame does not jump when the streamed message seals. Composing the turn with the
  message in flight gives the nodes, ids included, that composing it from the log gives once the
  message is appended; and composing both at that moment still counts the message once.
\<close>

theorem composeTurn_seal_stable:
  fixes log :: "message mem_log"
  assumes "ml_wf log" and "turnStartLT \<le> length (ml_Read log)"
    and "\<forall>e \<in> set (ml_Read log). FigaroLT e = LT e"
    and "ml_ReadFrom log (turnStartLT + 1) 0 = Inr w" and "w = [] \<or> m_role (Payload (last w)) \<noteq> RoleAssistant"
    and "m_role m = RoleAssistant"
    and "ml_ReadFrom (snd (ml_appendLocked log (new_entry m))) (turnStartLT + 1) 0 = Inr w'"
  shows "composeTurn h ti turnStartLT w (Some m) = composeTurn h ti turnStartLT w' None
    \<and> composeTurn h ti turnStartLT w' (Some m) = composeTurn h ti turnStartLT w' None"
proof -
  define n where "n = length (ml_Read log)"
  define e where "e = fst (ml_appendLocked log (new_entry m))"
  have e: "LT e = n + 1" "FigaroLT e = n + 1" "Payload e = m"
    using assms(1) by (simp_all add: e_def ml_appendLocked_def Let_def new_entry_def n_def ml_Read_def ml_wf_def)
  have lts: "map FigaroLT (ml_Read log) = [1..<n + 1]"
    using assms(1,3) by (simp add: ml_wf_def n_def ml_Read_def cong: map_cong)
  have w: "w = drop turnStartLT (ml_Read log)"
    using assms(2,4) window_drop [OF lts] by (simp add: ml_ReadFrom_def n_def flip: ml_Read_def)
  have rd': "ml_Read (snd (ml_appendLocked log (new_entry m))) = ml_Read log @ [e]"
    by (simp add: ml_Read_def ml_append_read e_def)
  have "map FigaroLT (ml_Read log @ [e]) = [1..<Suc n + 1]" using lts e by simp
  from window_drop [OF this, of turnStartLT] assms(2,7) rd' have w': "w' = w @ [e]"
    by (simp add: ml_ReadFrom_def w n_def flip: ml_Read_def)
  have last: "w \<noteq> [] \<Longrightarrow> LT (w ! (length w - 1)) = n"
  proof -
    assume "w \<noteq> []"
    then have "last w = last (ml_Read log)" "ml_Read log \<noteq> []" by (auto simp: w)
    moreover have "last (map FigaroLT (ml_Read log)) = n" using lts \<open>ml_Read log \<noteq> []\<close> by (simp add: n_def Suc_le_eq)
    ultimately show ?thesis using assms(3) \<open>w \<noteq> []\<close> by (simp add: last_map flip: last_conv_nth One_nat_def)
  qed
  have "w = [] \<Longrightarrow> turnStartLT = n" using assms(2) by (simp add: w n_def)
  then have "composeTurn_msgs turnStartLT w (Some m) = composeTurn_msgs turnStartLT w' None"
    using assms(5) last by (auto simp: composeTurn_msgs_def Let_def w' stamped_def e last_conv_nth)
  moreover have "composeTurn_msgs turnStartLT w' (Some m) = composeTurn_msgs turnStartLT w' None"
    using assms(6) by (simp add: composeTurn_msgs_def Let_def w' e nth_append)
  ultimately show ?thesis by (simp add: composeTurn_def)
qed

theorem composeTurn_seal_stable_witness:
  "let m0 = zero_message\<lparr>m_role := RoleUser, m_content := [TextContent ''hi'']\<rparr>;
       m = zero_message\<lparr>m_role := RoleAssistant, m_content := [TextContent ''yes'']\<rparr>;
       log = snd (ml_appendLocked NewMemLog (new_entry m0));
       log' = snd (ml_appendLocked log (new_entry m));
       h = \<lparr>h_summarize = None, h_previewArg = None, h_sprint = (\<lambda>_. [])\<rparr>
   in composeTurn h no_inputs 1 [] (Some m) = composeTurn h no_inputs 1 (drop 1 (ml_Read log')) None"
proof -
  let ?u = "zero_message\<lparr>m_role := RoleUser, m_content := [TextContent ''hi'']\<rparr>"
  let ?m = "zero_message\<lparr>m_role := RoleAssistant, m_content := [TextContent ''yes'']\<rparr>"
  let ?log = "snd (ml_appendLocked NewMemLog (new_entry ?u))"
  let ?log' = "snd (ml_appendLocked ?log (new_entry ?m))"
  have wf: "ml_wf ?log" by (intro wf_intros)
  have rd: "ml_Read ?log = [\<lparr>LT = 1, FigaroLT = 1, Payload = ?u, Fingerprint = []\<rparr>]"
    by (simp add: ml_Read_def ml_appendLocked_def NewMemLog_def new_entry_def Let_def)
  have rd': "ml_Read ?log' = ml_Read ?log @ [\<lparr>LT = 2, FigaroLT = 2, Payload = ?m, Fingerprint = []\<rparr>]"
    by (simp add: ml_Read_def ml_appendLocked_def NewMemLog_def new_entry_def Let_def)
  have "ml_ReadFrom ?log (1 + 1) 0 = Inr []" "ml_ReadFrom ?log' (1 + 1) 0 = Inr (drop 1 (ml_Read ?log'))"
    using window_drop [of "ml_Read ?log" 1 1] window_drop [of "ml_Read ?log'" 2 1]
    by (simp_all add: ml_ReadFrom_def rd rd' upt_rec flip: ml_Read_def)
  with composeTurn_seal_stable [OF wf, of 1] rd show ?thesis by (simp add: Let_def zero_message_def)
qed

end
