(* ===== verification/Anthropic_Wire.thy ===== *)
theory Anthropic_Wire
  imports Json_Struct Projection Turn_State
begin

section \<open>The Anthropic wire format (\<open>internal/provider/anthropic/anthropic.go\<close>)\<close>

text \<open>
  The native request of the Anthropic Messages API: its structs, the rules by which their fields
  are written to JSON and read back, the translation of a message of the log to a native message
  and back, and the assembly of a request from per-message bytes, with the system prefix, the
  cache breakpoints, the per-message tags and the thinking budget.

  \<open>print\<close> and \<open>parse\<close> stand for the JSON text of a value (\<open>encoding/json\<close>); \<open>Templates\<close> is the
  set of compiled reminder templates, as in the chalkboard's \<open>Render\<close>.
\<close>

subsection \<open>Native types\<close>

text \<open>
  What an \<open>interface{}\<close> field of a block holds: nothing, a decoded value (a string, a possibly
  nil map, an array, another scalar), the raw bytes \<open>{}\<close>, or the list of text blocks that the
  encoder puts into a tool result (given by their texts).
\<close>

datatype go_any =
    GNil
  | GStr string
  | GMap args
  | GArr "json list"
  | GScalar json
  | GRawEmptyObject
  | GTextBlocks "string list"

record native_block =
  nb_Type :: string
  nb_Text :: string
  nb_Thinking :: string
  nb_Signature :: string
  nb_Data :: string
  nb_ID :: string
  nb_Name :: string
  nb_Input :: go_any
  nb_ToolUseID :: string
  nb_IsError :: bool
  nb_Content :: go_any
  nb_Source :: go_any
  nb_CacheControl :: "string option"

record native_usage =
  nu_InputTokens :: int
  nu_OutputTokens :: int
  nu_CacheRead :: int
  nu_CacheCreate :: int

record native_message =
  nm_Role :: string
  nm_Content :: "native_block list"
  nm_StopReason :: string
  nm_Model :: string
  nm_Usage :: "native_usage option"

record native_tool =
  nt_Name :: string
  nt_Description :: string
  nt_InputSchema :: json
  nt_CacheControl :: "string option"

record system_block =
  sb_Type :: string
  sb_Text :: string
  sb_CacheControl :: "string option"

record thinking_param =
  tp_Type :: string
  tp_BudgetTokens :: int
  tp_Display :: string

record native_request =
  rq_Model :: string
  rq_MaxTokens :: int
  rq_System :: "system_block list"
  rq_Messages :: "native_message list"
  rq_Tools :: "native_tool list"
  rq_Stream :: bool
  rq_Thinking :: "thinking_param option"

text \<open>The zero values.\<close>

definition zero_block :: native_block where
  "zero_block = \<lparr>nb_Type = [], nb_Text = [], nb_Thinking = [], nb_Signature = [], nb_Data = [], nb_ID = [],
     nb_Name = [], nb_Input = GNil, nb_ToolUseID = [], nb_IsError = False, nb_Content = GNil,
     nb_Source = GNil, nb_CacheControl = None\<rparr>"

definition zero_usage :: native_usage where
  "zero_usage = \<lparr>nu_InputTokens = 0, nu_OutputTokens = 0, nu_CacheRead = 0, nu_CacheCreate = 0\<rparr>"

definition zero_native :: native_message where
  "zero_native = \<lparr>nm_Role = [], nm_Content = [], nm_StopReason = [], nm_Model = [], nm_Usage = None\<rparr>"

lemmas native_zero = zero_block_def zero_usage_def zero_native_def

subsection \<open>Blocks that may be replayed\<close>

definition validNativeBlock :: "native_block \<Rightarrow> bool" where
  "validNativeBlock b =
     (if nb_Type b = ''text'' then trim_space (nb_Text b) \<noteq> []
      else if nb_Type b = ''thinking'' then trim_space (nb_Thinking b) \<noteq> []
      else if nb_Type b = ''redacted_thinking'' then nb_Data b \<noteq> []
      else if nb_Type b = ''tool_use'' then nb_ID b \<noteq> [] \<and> nb_Input b \<noteq> GNil
      else if nb_Type b = [] then False
      else True)"

definition is_map :: "go_any \<Rightarrow> bool" where
  "is_map v = (case v of GMap _ \<Rightarrow> True | _ \<Rightarrow> False)"

text \<open>Returns \<open>(keep, fatal)\<close>.\<close>

definition cacheableNativeBlock :: "native_block \<Rightarrow> bool \<times> bool" where
  "cacheableNativeBlock b =
     (if nb_Type b = ''text'' then (trim_space (nb_Text b) \<noteq> [], False)
      else if nb_Type b = ''thinking'' then (nb_Signature b \<noteq> [] \<or> trim_space (nb_Thinking b) \<noteq> [], False)
      else if nb_Type b = ''redacted_thinking'' then (nb_Data b \<noteq> [], False)
      else if nb_Type b = ''tool_use'' then
        (if nb_ID b = [] then (False, False)
         else if \<not> is_map (nb_Input b) then (False, True)
         else (True, False))
      else if nb_Type b = [] then (False, False)
      else (True, False))"

subsection \<open>From native to the log\<close>

definition item_text :: "json \<Rightarrow> string" where
  "item_text item = (case item of JObj mm \<Rightarrow> (case map_of mm ''text'' of Some (JStr t) \<Rightarrow> t | _ \<Rightarrow> []) | _ \<Rightarrow> [])"

definition result_text :: "go_any \<Rightarrow> string" where
  "result_text v = (case v of GStr s \<Rightarrow> s | GArr items \<Rightarrow> concat (map item_text items) | _ \<Rightarrow> [])"

definition decode_block :: "native_block \<Rightarrow> content list" where
  "decode_block b =
     (if \<not> validNativeBlock b then []
      else if nb_Type b = ''text'' then [zero_content\<lparr>c_type := ContentProse, c_text := nb_Text b\<rparr>]
      else if nb_Type b = ''thinking'' then [zero_content\<lparr>c_type := ContentThinking, c_text := nb_Thinking b\<rparr>]
      else if nb_Type b = ''tool_use'' then
        [zero_content\<lparr>c_type := ContentToolInvoke, c_tool_call_id := nb_ID b, c_tool_name := nb_Name b,
           c_arguments := (case nb_Input b of GMap m \<Rightarrow> m | _ \<Rightarrow> None)\<rparr>]
      else if nb_Type b = ''tool_result'' then
        [zero_content\<lparr>c_type := ContentToolResult, c_tool_call_id := nb_ToolUseID b,
           c_text := result_text (nb_Content b), c_is_error := nb_IsError b\<rparr>]
      else [])"

definition stop_of :: "string \<Rightarrow> string" where
  "stop_of r =
     (if r = ''end_turn'' \<or> r = ''stop'' then StopEnd
      else if r = ''max_tokens'' \<or> r = ''length'' then StopLength
      else if r = ''tool_use'' then StopToolInvoke
      else [])"

definition decodeNativeMessage :: "native_message \<Rightarrow> message" where
  "decodeNativeMessage nm =
     zero_message\<lparr>m_role := nm_Role nm, m_content := concat (map decode_block (nm_Content nm)),
       m_stop_reason := stop_of (nm_StopReason nm),
       m_usage := map_option (\<lambda>u. \<lparr>InputTokens = nu_InputTokens u, OutputTokens = nu_OutputTokens u,
         CacheReadTokens = nu_CacheRead u, CacheWriteTokens = nu_CacheCreate u\<rparr>) (nm_Usage nm)\<rparr>"

subsection \<open>JSON of the native types\<close>

definition any_json :: "go_any \<Rightarrow> json" where
  "any_json v =
     (case v of
        GNil \<Rightarrow> JNull
      | GStr s \<Rightarrow> JStr s
      | GMap None \<Rightarrow> JNull
      | GMap (Some ms) \<Rightarrow> JObj ms
      | GArr xs \<Rightarrow> JArr xs
      | GScalar j \<Rightarrow> j
      | GRawEmptyObject \<Rightarrow> JObj []
      | GTextBlocks ts \<Rightarrow> JArr (map (\<lambda>t. JObj (omit (t = []) ''text'' (JStr t) @ [(''type'', JStr ''text'')])) ts))"

definition json_any :: "json \<Rightarrow> go_any" where
  "json_any j =
     (case j of
        JNull \<Rightarrow> GNil
      | JStr s \<Rightarrow> GStr s
      | JObj ms \<Rightarrow> GMap (Some ms)
      | JArr xs \<Rightarrow> GArr xs
      | _ \<Rightarrow> GScalar j)"

definition cache_control_json :: "string \<Rightarrow> json" where
  "cache_control_json t = JObj [(''type'', JStr t)]"

definition str_member :: "string \<Rightarrow> string \<Rightarrow> (string \<times> json) list" where
  "str_member k s = omit (s = []) k (JStr s)"

definition any_member :: "string \<Rightarrow> go_any \<Rightarrow> (string \<times> json) list" where
  "any_member k v = omit (v = GNil) k (any_json v)"

definition cc_member :: "string option \<Rightarrow> (string \<times> json) list" where
  "cc_member cc = (case cc of None \<Rightarrow> [] | Some t \<Rightarrow> [(''cache_control'', cache_control_json t)])"

text \<open>\<open>nativeBlock.MarshalJSON\<close>: a thinking block keeps its (possibly empty) text.\<close>

definition block_json :: "native_block \<Rightarrow> json" where
  "block_json b =
     (if nb_Type b = ''thinking''
      then JObj (str_member ''signature'' (nb_Signature b)
             @ [(''thinking'', JStr (nb_Thinking b)), (''type'', JStr (nb_Type b))])
      else JObj (cc_member (nb_CacheControl b) @ any_member ''content'' (nb_Content b)
             @ str_member ''data'' (nb_Data b) @ str_member ''id'' (nb_ID b) @ any_member ''input'' (nb_Input b)
             @ omit (\<not> nb_IsError b) ''is_error'' (JBool True) @ str_member ''name'' (nb_Name b)
             @ str_member ''signature'' (nb_Signature b) @ any_member ''source'' (nb_Source b)
             @ str_member ''text'' (nb_Text b) @ str_member ''thinking'' (nb_Thinking b)
             @ str_member ''tool_use_id'' (nb_ToolUseID b) @ [(''type'', JStr (nb_Type b))]))"

definition int_member :: "string \<Rightarrow> int \<Rightarrow> (string \<times> json) list" where
  "int_member k i = omit (i = 0) k (JNum (show_int i))"

definition usage_json :: "native_usage \<Rightarrow> json" where
  "usage_json u = JObj (int_member ''cache_creation_input_tokens'' (nu_CacheCreate u)
     @ int_member ''cache_read_input_tokens'' (nu_CacheRead u) @ int_member ''input_tokens'' (nu_InputTokens u)
     @ int_member ''output_tokens'' (nu_OutputTokens u))"

definition native_json :: "native_message \<Rightarrow> json" where
  "native_json nm = JObj ([(''content'', JArr (map block_json (nm_Content nm)))]
     @ str_member ''model'' (nm_Model nm) @ [(''role'', JStr (nm_Role nm))]
     @ str_member ''stop_reason'' (nm_StopReason nm)
     @ (case nm_Usage nm of None \<Rightarrow> [] | Some u \<Rightarrow> [(''usage'', usage_json u)]))"

text \<open>Reading the structs back.\<close>

definition any_field :: "json \<Rightarrow> string \<Rightarrow> go_any" where
  "any_field j k = (case member j k of None \<Rightarrow> GNil | Some v \<Rightarrow> json_any v)"

definition cc_field :: "json \<Rightarrow> string option option" where
  "cc_field j =
     (case member j ''cache_control'' of
        None \<Rightarrow> Some None
      | Some JNull \<Rightarrow> Some None
      | Some v \<Rightarrow> (case as_object (Some v) of
           None \<Rightarrow> None
         | Some obj \<Rightarrow> map_option Some (as_string (member obj ''type''))))"

definition json_block :: "json \<Rightarrow> native_block option" where
  "json_block v =
     (case as_object (Some v) of
        None \<Rightarrow> None
      | Some j \<Rightarrow>
          (case (as_string (member j ''type''), as_string (member j ''text''), as_string (member j ''thinking''),
                 as_string (member j ''signature''), as_string (member j ''data''), as_string (member j ''id''),
                 as_string (member j ''name''), as_string (member j ''tool_use_id''), as_bool (member j ''is_error''),
                 cc_field j) of
             (Some ty, Some tx, Some th, Some sg, Some da, Some bid, Some nam, Some tu, Some ie, Some cc) \<Rightarrow>
               Some \<lparr>nb_Type = ty, nb_Text = tx, nb_Thinking = th, nb_Signature = sg, nb_Data = da, nb_ID = bid,
                 nb_Name = nam, nb_Input = any_field j ''input'', nb_ToolUseID = tu, nb_IsError = ie,
                 nb_Content = any_field j ''content'', nb_Source = any_field j ''source'', nb_CacheControl = cc\<rparr>
           | _ \<Rightarrow> None))"

definition json_usage :: "json \<Rightarrow> native_usage option" where
  "json_usage v =
     (case as_object (Some v) of
        None \<Rightarrow> None
      | Some j \<Rightarrow>
          (case (as_int (member j ''input_tokens''), as_int (member j ''output_tokens''),
                 as_int (member j ''cache_read_input_tokens''), as_int (member j ''cache_creation_input_tokens'')) of
             (Some inp, Some out, Some rd, Some wr) \<Rightarrow>
               Some \<lparr>nu_InputTokens = inp, nu_OutputTokens = out, nu_CacheRead = rd, nu_CacheCreate = wr\<rparr>
           | _ \<Rightarrow> None))"

definition usage_field :: "json \<Rightarrow> native_usage option option" where
  "usage_field j =
     (case member j ''usage'' of
        None \<Rightarrow> Some None
      | Some JNull \<Rightarrow> Some None
      | Some v \<Rightarrow> map_option Some (json_usage v))"

definition json_native :: "json \<Rightarrow> native_message option" where
  "json_native v =
     (case as_object (Some v) of
        None \<Rightarrow> None
      | Some j \<Rightarrow>
          (case (as_string (member j ''role''), as_list json_block (member j ''content''),
                 as_string (member j ''stop_reason''), as_string (member j ''model''), usage_field j) of
             (Some ro, Some cs, Some sr, Some mo, Some us) \<Rightarrow>
               Some \<lparr>nm_Role = ro, nm_Content = cs, nm_StopReason = sr, nm_Model = mo, nm_Usage = us\<rparr>
           | _ \<Rightarrow> None))"

subsection \<open>From the log to native\<close>

text \<open>The provider: its settings, the cache it opened and the projection it keeps.\<close>

type_synonym 'e templates = "string \<Rightarrow> (entry \<Rightarrow> 'e + string) option"

record ('e, 'c) anthropic =
  an_Model :: string
  an_MaxTokens :: int
  an_ReminderRenderer :: string
  an_Templates :: "'e templates option"
  an_CacheNamespace :: string
  an_cache :: "'c option"
  an_projection :: "encoded_messages incremental_projection option"

abbreviation quot :: string where "quot \<equiv> [CHR 0x22]"
abbreviation newline :: string where "newline \<equiv> [CHR 0x0A]"

definition escapeAttr :: "string \<Rightarrow> string" where
  "escapeAttr s =
     (let s1 = replace_all ''&'' ''&amp;'' s;
          s2 = replace_all quot ''&quot;'' s1
      in replace_all ''<'' ''&lt;'' s2)"

definition text_block :: "string \<Rightarrow> native_block" where
  "text_block t = zero_block\<lparr>nb_Type := ''text'', nb_Text := t\<rparr>"

definition reminder :: "string \<times> string \<Rightarrow> native_block" where
  "reminder r = text_block (''<system-reminder name='' @ quot @ escapeAttr (fst r) @ quot @ ''>'' @ newline
     @ snd r @ newline @ ''</system-reminder>'')"

fun patch_blocks ::
  "(rawjson \<Rightarrow> string option) \<Rightarrow> 'e templates \<Rightarrow> patch list \<Rightarrow> snapshot \<Rightarrow> native_block list \<times> snapshot" where
  "patch_blocks unmarshal tmpls [] snap = ([], snap)"
| "patch_blocks unmarshal tmpls (p # ps) snap =
     (let here = (case Render unmarshal p snap tmpls of Inl _ \<Rightarrow> [] | Inr rendered \<Rightarrow> map reminder rendered);
          (rest, snap') = patch_blocks unmarshal tmpls ps (snap_Apply snap p)
      in (here @ rest, snap'))"

definition renderPatchBlocks ::
  "(rawjson \<Rightarrow> string option) \<Rightarrow> ('e, 'c) anthropic \<Rightarrow> patch list \<Rightarrow> snapshot \<Rightarrow> native_block list \<times> snapshot" where
  "renderPatchBlocks unmarshal a patches prevSnap =
     (case an_Templates a of
        None \<Rightarrow> ([], foldl snap_Apply prevSnap patches)
      | Some tmpls \<Rightarrow>
          (if length patches = 0 then ([], prevSnap)
           else patch_blocks unmarshal tmpls patches prevSnap))"

definition result_block :: "string \<Rightarrow> bool \<Rightarrow> string \<Rightarrow> native_block" where
  "result_block callID isErr t = zero_block\<lparr>nb_Type := ''tool_result'', nb_ToolUseID := callID,
     nb_IsError := isErr, nb_Content := GTextBlocks [t]\<rparr>"

definition user_block :: "content \<Rightarrow> native_block list" where
  "user_block c =
     (if c_type c = ContentProse then [text_block (c_text c)]
      else if c_type c = ContentImage then
        [zero_block\<lparr>nb_Type := ''image'', nb_Source := GMap (Some [(''data'', JStr (c_data c)),
           (''media_type'', JStr (c_mime_type c)), (''type'', JStr ''base64'')])\<rparr>]
      else if c_type c = ContentToolResult then
        [result_block (c_tool_call_id c) (c_is_error c) (if c_text c = [] then ''(empty)'' else c_text c)]
      else [])"

definition assistant_block_of :: "content \<Rightarrow> native_block list" where
  "assistant_block_of c =
     (if c_type c = ContentProse then [text_block (c_text c)]
      else if c_type c = ContentThinking then [zero_block\<lparr>nb_Type := ''thinking'', nb_Thinking := c_text c\<rparr>]
      else if c_type c = ContentToolInvoke then
        [zero_block\<lparr>nb_Type := ''tool_use'', nb_ID := c_tool_call_id c, nb_Name := c_tool_name c,
           nb_Input := (case c_arguments c of None \<Rightarrow> GRawEmptyObject | Some [] \<Rightarrow> GRawEmptyObject
                        | Some ms \<Rightarrow> GMap (Some ms))\<rparr>]
      else [])"

definition interrupt_block :: "content \<Rightarrow> native_block list" where
  "interrupt_block c =
     (if c_type c \<noteq> ContentInterrupt \<or> c_tool_call_id c = [] then []
      else [result_block (c_tool_call_id c) True
              (if c_text c = [] then ''(tool execution was interrupted)'' else c_text c)])"

text \<open>\<open>None\<close> is the message that has no wire form (\<open>ok = false\<close>).\<close>

definition renderMessage ::
  "(rawjson \<Rightarrow> string option) \<Rightarrow> ('e, 'c) anthropic \<Rightarrow> message \<Rightarrow> snapshot \<Rightarrow> native_message option \<times> snapshot" where
  "renderMessage unmarshal a msg prevSnap =
     (let native = (\<lambda>r blocks. if length blocks = 0 then None else Some (zero_native\<lparr>nm_Role := r, nm_Content := blocks\<rparr>))
      in if m_role msg = RoleUser then
           (let (reminders, snap') = renderPatchBlocks unmarshal a (m_patches msg) prevSnap
            in (native ''user'' (concat (map user_block (m_content msg)) @ reminders), snap'))
         else if m_role msg = RoleAssistant then
           (native ''assistant'' (concat (map assistant_block_of (m_content msg))), prevSnap)
         else if m_role msg = RoleSystemInterrupt then
           (native ''user'' (concat (map interrupt_block (m_content msg))), prevSnap)
         else (None, prevSnap))"

text \<open>
  \<open>encode\<close>. The fields of a native message hold values that \<open>encoding/json\<close> can write, so the
  marshalling does not fail.
\<close>

definition encode ::
  "(json \<Rightarrow> rawjson) \<Rightarrow> (rawjson \<Rightarrow> string option) \<Rightarrow> ('e, 'c) anthropic \<Rightarrow> message \<Rightarrow> snapshot
     \<Rightarrow> 'err + rawjson list" where
  "encode print unmarshal a msg prevSnapshot =
     (case fst (renderMessage unmarshal a msg prevSnapshot) of
        None \<Rightarrow> Inr []
      | Some nm \<Rightarrow> Inr [print (native_json nm)])"

subsection \<open>The system prefix and the tools\<close>

record provider_tool =
  pt_Name :: string
  pt_Description :: string
  pt_Parameters :: json

definition projectTools :: "provider_tool list \<Rightarrow> native_tool list" where
  "projectTools ts = map (\<lambda>t. \<lparr>nt_Name = pt_Name t, nt_Description = pt_Description t,
     nt_InputSchema = pt_Parameters t, nt_CacheControl = None\<rparr>) ts"

definition readCredo :: "(rawjson \<Rightarrow> json option) \<Rightarrow> snapshot \<Rightarrow> string" where
  "readCredo parse snapshot =
     (case fmlookup snapshot ''system.credo'' of
        None \<Rightarrow> []
      | Some raw \<Rightarrow>
          (let env = (case parse raw of
                 None \<Rightarrow> None
               | Some v \<Rightarrow> (case as_object (Some v) of
                    None \<Rightarrow> None
                  | Some j \<Rightarrow> (case (as_string (member j ''content''), as_string (member j ''frontmatter'')) of
                       (Some c, Some f) \<Rightarrow> Some (c, f) | _ \<Rightarrow> None)));
               bare = (case unmarshal_string parse raw of Some s \<Rightarrow> s | None \<Rightarrow> [])
           in case env of
                Some (c, f) \<Rightarrow> (if c \<noteq> [] then c else if f \<noteq> [] then f else bare)
              | None \<Rightarrow> bare))"

definition claudeCodePreamble :: string where
  "claudeCodePreamble = ''You are Claude Code, Anthropic's official CLI for Claude.''"

definition identityPreamble :: string where
  "identityPreamble = ''IMPORTANT: The following is your true identity and personality. '' @
     ''Adopt it fully. Do not identify as Claude Code '' @ [CHR 0xE2, CHR 0x80, CHR 0x94]
     @ '' follow the persona below.'' @ newline @ newline"

definition systemBlocks :: "(rawjson \<Rightarrow> json option) \<Rightarrow> snapshot \<Rightarrow> bool \<Rightarrow> system_block list" where
  "systemBlocks parse snapshot oauth =
     (let systemText = readCredo parse snapshot;
          block = (\<lambda>t. \<lparr>sb_Type = ''text'', sb_Text = t, sb_CacheControl = None\<rparr>)
      in if oauth then block claudeCodePreamble # (if systemText \<noteq> [] then [block (identityPreamble @ systemText)] else [])
         else if systemText \<noteq> [] then [block systemText] else [])"

subsection \<open>Cache breakpoints, tags and thinking\<close>

definition update_last :: "('a \<Rightarrow> 'a) \<Rightarrow> 'a list \<Rightarrow> 'a list" where
  "update_last f xs = (if xs = [] then [] else butlast xs @ [f (last xs)])"

definition mark_block :: "string \<Rightarrow> native_message \<Rightarrow> native_message" where
  "mark_block setting m = m\<lparr>nm_Content := update_last (\<lambda>b. b\<lparr>nb_CacheControl := Some setting\<rparr>) (nm_Content m)\<rparr>"

definition markCacheBreakpoints :: "string \<Rightarrow> native_request \<Rightarrow> native_request" where
  "markCacheBreakpoints setting req =
     (let n = length (rq_Messages req)
      in req\<lparr>rq_System := update_last (\<lambda>b. b\<lparr>sb_CacheControl := Some setting\<rparr>) (rq_System req),
             rq_Tools := update_last (\<lambda>t. t\<lparr>nt_CacheControl := Some setting\<rparr>) (rq_Tools req),
             rq_Messages := (if n \<ge> 2 then (rq_Messages req)[n - 2 := mark_block setting (rq_Messages req ! (n - 2))]
                             else rq_Messages req)\<rparr>)"

text \<open>The index of the last message with a time, if the time is not 0.\<close>

definition lastIdx :: "lt list \<Rightarrow> lt \<Rightarrow> nat option" where
  "lastIdx msgLTs k = (if k = 0 then None else find (\<lambda>i. msgLTs ! i = k) (rev [0..<length msgLTs]))"

definition tag_control :: "json \<Rightarrow> string option" where
  "tag_control v = (case as_object (Some v) of None \<Rightarrow> None | Some j \<Rightarrow> as_string (member j ''cache_control''))"

definition json_tags :: "json \<Rightarrow> (string \<times> string) list option" where
  "json_tags v =
     (case v of
        JNull \<Rightarrow> Some []
      | JObj ms \<Rightarrow> those (map (\<lambda>kv. map_option (\<lambda>c. (fst kv, c)) (tag_control (snd kv))) ms)
      | _ \<Rightarrow> None)"

definition apply_tag :: "lt list \<Rightarrow> string \<times> string \<Rightarrow> native_request \<Rightarrow> native_request" where
  "apply_tag msgLTs tag req =
     (if snd tag = [] then req
      else case parse_uint64 (fst tag) of
        None \<Rightarrow> req
      | Some k \<Rightarrow> (case lastIdx msgLTs k of
           None \<Rightarrow> req
         | Some idx \<Rightarrow> req\<lparr>rq_Messages := (rq_Messages req)[idx := mark_block (snd tag) (rq_Messages req ! idx)]\<rparr>))"

text \<open>
  Go leaves the order in which the tags are visited open; it shows only when two keys spell the
  same time (\<open>"7"\<close> and \<open>"07"\<close>). Here they are visited by ascending key.
\<close>

definition applyMessageTags ::
  "(rawjson \<Rightarrow> json option) \<Rightarrow> lt list \<Rightarrow> snapshot \<Rightarrow> native_request \<Rightarrow> native_request" where
  "applyMessageTags parse msgLTs snapshot req =
     (case fmlookup snapshot ''system.tags'' of
        None \<Rightarrow> req
      | Some raw \<Rightarrow>
          (if length raw = 0 then req
           else case parse raw of
             None \<Rightarrow> req
           | Some v \<Rightarrow> (case json_tags v of None \<Rightarrow> req | Some tags \<Rightarrow> fold (apply_tag msgLTs) tags req)))"

definition isAdaptiveModel :: "string \<Rightarrow> bool" where
  "isAdaptiveModel model \<longleftrightarrow>
     list_ex (contains model) [''opus-4.6'', ''opus-4.7'', ''opus-4.8'', ''sonnet-4.6'', ''sonnet-4.7'', ''sonnet-5'']"

text \<open>\<open>fmt.Sscanf(s, "%d", \<dots>)\<close>: blanks, a sign, digits; what follows is not read.\<close>

definition sscanf_int :: "string \<Rightarrow> int option" where
  "sscanf_int s =
     (let (neg, r) = signed_digits (trim_seqs (filter (\<lambda>w. w \<noteq> newline) white_space) s);
          ds = takeWhile (\<lambda>c. digit_val c \<noteq> None) r
      in if ds = [] then None else case digits_val 0 ds of None \<Rightarrow> None | Some n \<Rightarrow> int64_of neg n)"

definition thinking_budget :: "(rawjson \<Rightarrow> json option) \<Rightarrow> snapshot \<Rightarrow> int" where
  "thinking_budget parse snap =
     (case fmlookup snap ''system.thinking_budget'' of
        None \<Rightarrow> 0
      | Some raw \<Rightarrow>
          (if length raw = 0 then 0
           else let budget = (case unmarshal_int parse raw of Some b \<Rightarrow> b | None \<Rightarrow> 0)
                in if budget = 0 then
                     (case unmarshal_string parse raw of
                        Some s \<Rightarrow> (case sscanf_int s of Some b \<Rightarrow> b | None \<Rightarrow> 0)
                      | None \<Rightarrow> 0)
                   else budget))"

definition thinking_effort :: "(rawjson \<Rightarrow> json option) \<Rightarrow> snapshot \<Rightarrow> string" where
  "thinking_effort parse snap =
     (case fmlookup snap ''system.thinking_effort'' of
        None \<Rightarrow> []
      | Some raw \<Rightarrow> (if length raw = 0 then [] else case unmarshal_string parse raw of Some s \<Rightarrow> s | None \<Rightarrow> []))"

definition enabled_thinking :: "int \<Rightarrow> thinking_param" where
  "enabled_thinking budget = \<lparr>tp_Type = ''enabled'', tp_BudgetTokens = budget, tp_Display = ''summarized''\<rparr>"

definition applyThinking ::
  "(rawjson \<Rightarrow> json option) \<Rightarrow> snapshot \<Rightarrow> string \<Rightarrow> native_request \<Rightarrow> native_request" where
  "applyThinking parse snap model req =
     (let budget = thinking_budget parse snap; effort = thinking_effort parse snap
      in if budget \<le> 0 \<and> effort = [] then req
         else if isAdaptiveModel model then req\<lparr>rq_Thinking := Some (enabled_thinking 10000)\<rparr>
         else let b1 = (if budget \<le> 0 then 10000 else budget);
                  b2 = (if b1 < 1024 then 1024 else b1)
              in req\<lparr>rq_Thinking := Some (enabled_thinking b2),
                     rq_MaxTokens := (if rq_MaxTokens req \<le> b2 then wrap64 (b2 + 4096) else rq_MaxTokens req)\<rparr>)"

subsection \<open>The request\<close>

datatype assemble_error = UnmarshalCached

fun gather_raws :: "(rawjson \<Rightarrow> json option) \<Rightarrow> rawjson list \<Rightarrow> assemble_error + native_message list" where
  "gather_raws parse [] = Inr []"
| "gather_raws parse (raw # raws) =
     (if length raw = 0 then gather_raws parse raws
      else case Option.bind (parse raw) json_native of
        None \<Rightarrow> Inl UnmarshalCached
      | Some nm \<Rightarrow> (case gather_raws parse raws of Inl e \<Rightarrow> Inl e | Inr rest \<Rightarrow> Inr (nm # rest)))"

text \<open>The messages with their times; an entry without a time has time 0.\<close>

fun gather_messages ::
  "(rawjson \<Rightarrow> json option) \<Rightarrow> rawjson list list \<Rightarrow> lt list \<Rightarrow> assemble_error + (native_message \<times> lt) list" where
  "gather_messages parse [] lts = Inr []"
| "gather_messages parse (e # es) lts =
     (let k = (case lts of [] \<Rightarrow> 0 | t # _ \<Rightarrow> t)
      in case gather_raws parse e of
           Inl err \<Rightarrow> Inl err
         | Inr nms \<Rightarrow>
             (case gather_messages parse es (tl lts) of
                Inl err \<Rightarrow> Inl err
              | Inr rest \<Rightarrow> Inr (map (\<lambda>nm. (nm, k)) nms @ rest)))"

definition request_tokens :: "('e, 'c) anthropic \<Rightarrow> int \<Rightarrow> int" where
  "request_tokens a maxTokens =
     (let n1 = (if maxTokens = 0 then an_MaxTokens a else maxTokens) in if n1 = 0 then 8192 else n1)"

definition projectMessagesWithLTs ::
  "(rawjson \<Rightarrow> json option) \<Rightarrow> ('e, 'c) anthropic \<Rightarrow> rawjson list list \<Rightarrow> lt list \<Rightarrow> snapshot
     \<Rightarrow> provider_tool list \<Rightarrow> int \<Rightarrow> bool \<Rightarrow> string \<Rightarrow> assemble_error + native_request" where
  "projectMessagesWithLTs parse a perMessage lts snapshot ts maxTokens oauth model =
     (case gather_messages parse perMessage lts of
        Inl err \<Rightarrow> Inl err
      | Inr pairs \<Rightarrow>
          (let req = \<lparr>rq_Model = model, rq_MaxTokens = request_tokens a maxTokens,
                      rq_System = systemBlocks parse snapshot oauth, rq_Messages = map fst pairs,
                      rq_Tools = projectTools ts, rq_Stream = True, rq_Thinking = None\<rparr>;
               req1 = (case snap_Lookup (unmarshal_string parse) snapshot ''system.cache_control'' of
                  None \<Rightarrow> req | Some setting \<Rightarrow> markCacheBreakpoints setting req)
           in Inr (applyThinking parse snapshot model (applyMessageTags parse (map snd pairs) snapshot req1))))"

definition projectMessagesWithModel ::
  "(rawjson \<Rightarrow> json option) \<Rightarrow> ('e, 'c) anthropic \<Rightarrow> rawjson list list \<Rightarrow> snapshot
     \<Rightarrow> provider_tool list \<Rightarrow> int \<Rightarrow> bool \<Rightarrow> string \<Rightarrow> assemble_error + native_request" where
  "projectMessagesWithModel parse a perMessage snapshot ts maxTokens oauth model =
     projectMessagesWithLTs parse a perMessage [] snapshot ts maxTokens oauth model"

subsection \<open>Writing and reading a native message\<close>

text \<open>What a block is after it was written and read back.\<close>

definition wire_any :: "go_any \<Rightarrow> go_any" where
  "wire_any v = json_any (any_json v)"

definition wire_norm :: "native_block \<Rightarrow> native_block" where
  "wire_norm b =
     (if nb_Type b = ''thinking''
      then zero_block\<lparr>nb_Type := nb_Type b, nb_Thinking := nb_Thinking b, nb_Signature := nb_Signature b\<rparr>
      else b\<lparr>nb_Input := wire_any (nb_Input b), nb_Content := wire_any (nb_Content b), nb_Source := wire_any (nb_Source b)\<rparr>)"

lemma lower_names:
  "to_lower ''cache_control'' = ''cache_control''"
  "to_lower ''content'' = ''content''"
  "to_lower ''data'' = ''data''"
  "to_lower ''id'' = ''id''"
  "to_lower ''input'' = ''input''"
  "to_lower ''is_error'' = ''is_error''"
  "to_lower ''name'' = ''name''"
  "to_lower ''signature'' = ''signature''"
  "to_lower ''source'' = ''source''"
  "to_lower ''text'' = ''text''"
  "to_lower ''thinking'' = ''thinking''"
  "to_lower ''tool_use_id'' = ''tool_use_id''"
  "to_lower ''type'' = ''type''"
  "to_lower ''model'' = ''model''"
  "to_lower ''role'' = ''role''"
  "to_lower ''stop_reason'' = ''stop_reason''"
  "to_lower ''usage'' = ''usage''"
  "to_lower ''cache_creation_input_tokens'' = ''cache_creation_input_tokens''"
  "to_lower ''cache_read_input_tokens'' = ''cache_read_input_tokens''"
  "to_lower ''input_tokens'' = ''input_tokens''"
  "to_lower ''output_tokens'' = ''output_tokens''"
  by code_simp+

lemma member_str: "member (JObj (str_member n s)) k = (if s \<noteq> [] \<and> to_lower n = to_lower k then Some (JStr s) else None)"
  by (simp add: str_member_def member_omit)

lemma member_any: "member (JObj (any_member n v)) k = (if v \<noteq> GNil \<and> to_lower n = to_lower k then Some (any_json v) else None)"
  by (simp add: any_member_def member_omit)

lemma member_int: "member (JObj (int_member n i)) k = (if i \<noteq> 0 \<and> to_lower n = to_lower k then Some (JNum (show_int i)) else None)"
  by (simp add: int_member_def member_omit)

lemma member_cc: "member (JObj (cc_member cc)) k =
  (if to_lower ''cache_control'' = to_lower k then map_option cache_control_json cc else None)"
  by (simp add: cc_member_def member_Cons split: option.splits)

lemma member_one: "member (JObj [(n, v)]) k = (if to_lower n = to_lower k then Some v else None)"
  by (simp add: member_Cons)

lemmas member_rules = member_append member_str member_any member_int member_cc member_one member_omit member_Cons lower_names

lemma wire_any_simps [simp]: "wire_any GNil = GNil" "wire_any (GStr s) = GStr s" "wire_any (GMap (Some ms)) = GMap (Some ms)"
  "wire_any (GMap None) = GNil" "wire_any GRawEmptyObject = GMap (Some [])"
  by (simp_all add: wire_any_def any_json_def json_any_def)

lemma block_roundtrip: "json_block (block_json b) = Some (wire_norm b)"
proof (cases "nb_Type b = ''thinking''")
  case True
  then show ?thesis
    by (simp add: json_block_def block_json_def member_rules struct_simps any_field_def cc_field_def wire_norm_def zero_block_def)
next
  case False
  have any: "any_field (block_json b) ''input'' = wire_any (nb_Input b)"
    "any_field (block_json b) ''content'' = wire_any (nb_Content b)"
    "any_field (block_json b) ''source'' = wire_any (nb_Source b)"
    using False by (simp_all add: any_field_def block_json_def member_rules wire_any_def any_json_def json_any_def)
  have cc: "cc_field (block_json b) = Some (nb_CacheControl b)"
    using False by (cases "nb_CacheControl b")
      (simp_all add: cc_field_def block_json_def member_rules cache_control_json_def struct_simps)
  have obj: "as_object (Some (block_json b)) = Some (block_json b)"
    by (simp add: block_json_def as_object_def)
  have strs: "as_string (member (block_json b) ''type'') = Some (nb_Type b)"
    "as_string (member (block_json b) ''text'') = Some (nb_Text b)"
    "as_string (member (block_json b) ''thinking'') = Some (nb_Thinking b)"
    "as_string (member (block_json b) ''signature'') = Some (nb_Signature b)"
    "as_string (member (block_json b) ''data'') = Some (nb_Data b)"
    "as_string (member (block_json b) ''id'') = Some (nb_ID b)"
    "as_string (member (block_json b) ''name'') = Some (nb_Name b)"
    "as_string (member (block_json b) ''tool_use_id'') = Some (nb_ToolUseID b)"
    "as_bool (member (block_json b) ''is_error'') = Some (nb_IsError b)"
    using False by (simp_all add: block_json_def member_rules struct_simps)
  show ?thesis unfolding json_block_def obj by (simp add: any cc strs wire_norm_def False)
qed

lemma those_map_Some: "(\<And>x. x \<in> set xs \<Longrightarrow> f x = Some (g x)) \<Longrightarrow> those (map f xs) = Some (map g xs)"
  by (induction xs) auto

definition usage_ok :: "native_usage \<Rightarrow> bool" where
  "usage_ok u \<longleftrightarrow> list_all (\<lambda>i. - (2 ^ 63) \<le> i \<and> i < 2 ^ 63)
     [nu_InputTokens u, nu_OutputTokens u, nu_CacheRead u, nu_CacheCreate u]"

lemma usage_roundtrip: "usage_ok u \<Longrightarrow> json_usage (usage_json u) = Some u"
  by (simp add: json_usage_def usage_json_def usage_ok_def member_rules struct_simps Atoi_show_int)

lemma native_roundtrip:
  assumes "\<And>u. nm_Usage nm = Some u \<Longrightarrow> usage_ok u"
  shows "json_native (native_json nm) = Some (nm\<lparr>nm_Content := map wire_norm (nm_Content nm)\<rparr>)"
proof -
  have "as_object (Some (native_json nm)) = Some (native_json nm)" by (simp add: native_json_def as_object_def)
  moreover have "as_list json_block (member (native_json nm) ''content'') = Some (map wire_norm (nm_Content nm))"
    by (cases "nm_Usage nm") (simp_all add: native_json_def member_rules as_list_def comp_def block_roundtrip those_map_Some)
  moreover have "as_string (member (native_json nm) ''role'') = Some (nm_Role nm)"
    "as_string (member (native_json nm) ''stop_reason'') = Some (nm_StopReason nm)"
    "as_string (member (native_json nm) ''model'') = Some (nm_Model nm)"
    by (cases "nm_Usage nm"; simp add: native_json_def member_rules as_string_def)+
  moreover have "usage_field (native_json nm) = Some (nm_Usage nm)"
  proof (cases "nm_Usage nm")
    case (Some u)
    then show ?thesis using usage_roundtrip [OF assms [OF Some]]
      by (simp add: usage_field_def native_json_def member_rules usage_json_def)
  qed (simp add: usage_field_def native_json_def member_rules)
  ultimately show ?thesis by (simp add: json_native_def)
qed

subsection \<open>Tool calls on the wire\<close>

text \<open>
  The rule of the API: an assistant message with \<open>tool_use\<close> blocks is followed by a user message
  with one \<open>tool_result\<close> block per call, in the order of the calls.
\<close>

definition use_ids :: "native_message \<Rightarrow> string list" where
  "use_ids nm = map nb_ID (filter (\<lambda>b. nb_Type b = ''tool_use'') (nm_Content nm))"

definition wire_result_ids :: "native_message \<Rightarrow> string list" where
  "wire_result_ids nm = map nb_ToolUseID (filter (\<lambda>b. nb_Type b = ''tool_result'') (nm_Content nm))"

definition wire_answers :: "native_message \<Rightarrow> native_message \<Rightarrow> bool" where
  "wire_answers r m \<longleftrightarrow> nm_Role r = ''user'' \<and> wire_result_ids r = use_ids m"

fun wire_paired :: "native_message list \<Rightarrow> bool" where
  "wire_paired [] = True"
| "wire_paired (m # ms) = ((use_ids m = [] \<or> (ms \<noteq> [] \<and> wire_answers (hd ms) m)) \<and> wire_paired ms)"

text \<open>What the rule looks at.\<close>

definition shape :: "native_message \<Rightarrow> string \<times> string list \<times> string list" where
  "shape nm = (nm_Role nm, use_ids nm, wire_result_ids nm)"

lemma wire_paired_shape: "map shape xs = map shape ys \<Longrightarrow> wire_paired xs = wire_paired ys"
proof (induction xs arbitrary: ys)
  case (Cons x xs)
  then obtain y zs where ys: "ys = y # zs" by (cases ys) auto
  with Cons.prems have sh: "shape x = shape y" "map shape xs = map shape zs" by simp_all
  then have "xs \<noteq> [] \<Longrightarrow> zs \<noteq> [] \<and> shape (hd xs) = shape (hd zs)" "zs \<noteq> [] \<Longrightarrow> xs \<noteq> []"
    by (cases xs; cases zs; simp)+
  with Cons.IH [OF sh(2)] sh(1) show ?case by (auto simp: ys shape_def wire_answers_def)
qed simp

lemma wire_norm_ids [simp]: "nb_Type (wire_norm b) = nb_Type b"
  "nb_Type b \<noteq> ''thinking'' \<Longrightarrow> nb_ID (wire_norm b) = nb_ID b"
  "nb_Type b \<noteq> ''thinking'' \<Longrightarrow> nb_ToolUseID (wire_norm b) = nb_ToolUseID b"
  by (simp_all add: wire_norm_def zero_block_def)

lemma shape_norm [simp]: "shape (nm\<lparr>nm_Content := map wire_norm (nm_Content nm)\<rparr>) = shape nm"
  by (auto simp: shape_def use_ids_def wire_result_ids_def filter_map comp_def)

lemma filter_update_last:
  "(\<And>x. P (f x) = P x) \<Longrightarrow> (\<And>x. g (f x) = g x) \<Longrightarrow> map g (filter P (update_last f xs)) = map g (filter P xs)"
  by (cases xs rule: rev_cases) (auto simp: update_last_def)

lemma shape_mark [simp]: "shape (mark_block t m) = shape m"
  by (simp add: shape_def mark_block_def use_ids_def wire_result_ids_def filter_update_last)

lemma shape_update: "map shape (xs[i := mark_block t (xs ! i)]) = map shape xs"
proof (cases "i < length xs")
  case True
  then have "shape (mark_block t (xs ! i)) = map shape xs ! i" by simp
  then show ?thesis by (simp add: map_update)
qed (simp add: list_update_beyond)

lemma shape_breakpoints [simp]: "map shape (rq_Messages (markCacheBreakpoints t req)) = map shape (rq_Messages req)"
  by (simp add: markCacheBreakpoints_def Let_def shape_update)

lemma shape_tag [simp]: "map shape (rq_Messages (apply_tag lts tag req)) = map shape (rq_Messages req)"
  by (simp add: apply_tag_def shape_update split: option.splits)

lemma shape_tags [simp]: "map shape (rq_Messages (applyMessageTags parse lts snap req)) = map shape (rq_Messages req)"
proof -
  have "map shape (rq_Messages (fold (apply_tag lts) ts r)) = map shape (rq_Messages r)" for ts r
    by (induction ts arbitrary: r) simp_all
  then show ?thesis by (simp add: applyMessageTags_def split: option.splits)
qed

lemma shape_thinking [simp]: "rq_Messages (applyThinking parse snap model req) = rq_Messages req"
  by (simp add: applyThinking_def Let_def)

lemma project_shapes:
  assumes "gather_messages parse per lts = Inr pairs"
    and "projectMessagesWithLTs parse a per lts snap ts n oauth model = Inr req"
  shows "map shape (rq_Messages req) = map (shape \<circ> fst) pairs"
  using assms by (auto simp: projectMessagesWithLTs_def Let_def split: option.splits)

subsubsection \<open>The messages of the log\<close>

lemma paired_Cons:
  "paired (m # ms) \<longleftrightarrow> (invoke_ids m = [] \<or> (ms \<noteq> [] \<and> answers (hd ms) m)) \<and> paired ms"
  by (cases ms) (auto simp: paired_def)

lemma user_block_ids:
  "filter (\<lambda>b. nb_Type b = ''tool_result'') (concat (map user_block cs)) =
     concat (map user_block (filter (\<lambda>c. c_type c = ContentToolResult) cs))"
  "filter (\<lambda>b. nb_Type b = ''tool_use'') (concat (map user_block cs)) = []"
  by (induction cs) (auto simp: user_block_def text_block_def result_block_def zero_block_def)

lemma patch_blocks_text: "b \<in> set (fst (patch_blocks u tm ps snap)) \<Longrightarrow> nb_Type b = ''text''"
  by (induction u tm ps snap rule: patch_blocks.induct)
    (auto simp: Let_def reminder_def text_block_def zero_block_def split: prod.splits sum.splits)

lemma reminders_text: "b \<in> set (fst (renderPatchBlocks u a ps snap)) \<Longrightarrow> nb_Type b = ''text''"
  by (auto simp: renderPatchBlocks_def split: option.splits if_splits dest: patch_blocks_text)

lemma reminders_no_tools:
  "filter (\<lambda>b. nb_Type b = ''tool_result'') (fst (renderPatchBlocks u a ps snap)) = []"
  "filter (\<lambda>b. nb_Type b = ''tool_use'') (fst (renderPatchBlocks u a ps snap)) = []"
  by (auto simp: filter_empty_conv dest: reminders_text)

text \<open>The shape of a rendered message.\<close>

lemma render_user:
  assumes "m_role m = RoleUser" and "fst (renderMessage u a m snap) = Some nm"
  shows "nm_Role nm = ''user''" "use_ids nm = []" "wire_result_ids nm = result_ids m"
proof -
  let ?bs = "concat (map user_block (m_content m)) @ fst (renderPatchBlocks u a (m_patches m) snap)"
  have nm: "nm = zero_native\<lparr>nm_Role := ''user'', nm_Content := ?bs\<rparr>"
    using assms by (auto simp: renderMessage_def Let_def split: prod.splits if_splits)
  have "concat (map user_block (filter (\<lambda>c. c_type c = ContentToolResult) cs)) =
      map (\<lambda>c. result_block (c_tool_call_id c) (c_is_error c) (if c_text c = [] then ''(empty)'' else c_text c))
        (filter (\<lambda>c. c_type c = ContentToolResult) cs)" for cs
    by (induction cs) (auto simp: user_block_def)
  then show "nm_Role nm = ''user''" "use_ids nm = []" "wire_result_ids nm = result_ids m"
    by (simp_all add: nm zero_native_def use_ids_def wire_result_ids_def user_block_ids reminders_no_tools
        result_ids_def comp_def result_block_def zero_block_def)
qed

lemma render_user_some:
  "m_role m = RoleUser \<Longrightarrow> result_ids m \<noteq> [] \<Longrightarrow> \<exists>nm. fst (renderMessage u a m snap) = Some nm"
proof -
  assume m: "m_role m = RoleUser" "result_ids m \<noteq> []"
  then obtain c where "c \<in> set (m_content m)" "c_type c = ContentToolResult"
    by (auto simp: result_ids_def filter_empty_conv)
  moreover from this have "user_block c \<noteq> []" by (simp add: user_block_def)
  ultimately have "concat (map user_block (m_content m)) \<noteq> []" by auto
  with m show ?thesis by (auto simp: renderMessage_def Let_def split: prod.splits)
qed

lemma render_assistant:
  assumes "m_role m = RoleAssistant"
  shows "fst (renderMessage u a m snap) = Some nm \<Longrightarrow> use_ids nm = invoke_ids m"
    and "invoke_ids m \<noteq> [] \<Longrightarrow> \<exists>nm. fst (renderMessage u a m snap) = Some nm"
proof -
  have "map nb_ID (filter (\<lambda>b. nb_Type b = ''tool_use'') (concat (map assistant_block_of cs))) =
      map c_tool_call_id (filter (\<lambda>c. c_type c = ContentToolInvoke) cs)" for cs
    by (induction cs) (auto simp: assistant_block_of_def text_block_def zero_block_def)
  with assms show "fst (renderMessage u a m snap) = Some nm \<Longrightarrow> use_ids nm = invoke_ids m"
    by (auto simp: renderMessage_def Let_def use_ids_def zero_native_def invoke_ids_def assistantToolInvokes_def split: if_splits)
  assume "invoke_ids m \<noteq> []"
  then obtain c where "c \<in> set (m_content m)" "c_type c = ContentToolInvoke"
    by (auto simp: invoke_ids_def assistantToolInvokes_def filter_empty_conv split: if_splits)
  moreover from this have "assistant_block_of c \<noteq> []" by (simp add: assistant_block_of_def)
  ultimately have "concat (map assistant_block_of (m_content m)) \<noteq> []" by auto
  with assms show "\<exists>nm. fst (renderMessage u a m snap) = Some nm" by (auto simp: renderMessage_def Let_def)
qed

lemma render_other:
  assumes "m_role m \<noteq> RoleAssistant" and "fst (renderMessage u a m snap) = Some nm"
  shows "use_ids nm = []"
proof (cases "m_role m = RoleUser")
  case False
  have "filter (\<lambda>b. nb_Type b = ''tool_use'') (concat (map interrupt_block cs)) = []" for cs
    by (induction cs) (auto simp: interrupt_block_def result_block_def zero_block_def)
  with False assms show ?thesis
    by (auto simp: renderMessage_def Let_def use_ids_def zero_native_def split: if_splits)
qed (use render_user assms in blast)

subsubsection \<open>From rows to the request\<close>

text \<open>
  The JSON text of a native message can be read back: what the code relies on of
  \<open>encoding/json\<close>, asked of the messages at hand (it holds for text in UTF-8).
\<close>

definition readable :: "(json \<Rightarrow> rawjson) \<Rightarrow> (rawjson \<Rightarrow> json option) \<Rightarrow> native_message \<Rightarrow> bool" where
  "readable print parse nm \<longleftrightarrow> print (native_json nm) \<noteq> [] \<and> parse (print (native_json nm)) = Some (native_json nm)"

text \<open>Bytes that stand for a message of the log: its tool calls, and the results of a user message.\<close>

definition carries ::
  "(json \<Rightarrow> rawjson) \<Rightarrow> (rawjson \<Rightarrow> json option) \<Rightarrow> message \<Rightarrow> rawjson list \<Rightarrow> bool" where
  "carries print parse m b \<longleftrightarrow> (\<exists>nm. b = [print (native_json nm)] \<and> readable print parse nm \<and> nm_Usage nm = None
     \<and> use_ids nm = invoke_ids m
     \<and> (m_role m = RoleUser \<longrightarrow> nm_Role nm = ''user'' \<and> wire_result_ids nm = result_ids m))"

definition renders_readable ::
  "(json \<Rightarrow> rawjson) \<Rightarrow> (rawjson \<Rightarrow> json option) \<Rightarrow> (rawjson \<Rightarrow> string option) \<Rightarrow> ('e, 'c) anthropic
     \<Rightarrow> message \<Rightarrow> bool" where
  "renders_readable print parse u a m \<longleftrightarrow>
     (\<forall>snap nm. fst (renderMessage u a m snap) = Some nm \<longrightarrow> readable print parse nm)"

lemma message_of_simps [simp]:
  "m_role (message_of chalk x) = m_role (Payload x)" "m_content (message_of chalk x) = m_content (Payload x)"
  "invoke_ids (message_of chalk x) = invoke_ids (Payload x)" "result_ids (message_of chalk x) = result_ids (Payload x)"
  by (simp_all add: message_of_def Let_def invoke_ids_def result_ids_def assistantToolInvokes_def split: option.splits)

lemma render_usage: "fst (renderMessage u a m snap) = Some nm \<Longrightarrow> nm_Usage nm = None"
  by (auto simp: renderMessage_def Let_def zero_native_def split: if_splits prod.splits)

lemma encode_carries:
  assumes "renders_readable print parse u a m"
  shows "(encode print u a m snap :: 'err + rawjson list) = Inr [] \<and> invoke_ids m = [] \<and> (m_role m = RoleUser \<longrightarrow> result_ids m = [])
    \<or> (\<exists>b. (encode print u a m snap :: 'err + rawjson list) = Inr b \<and> carries print parse m b)"
proof (cases "fst (renderMessage u a m snap)")
  case None
  have "invoke_ids m = []"
    using render_assistant(2) [of m u a snap] None
    by (cases "m_role m = RoleAssistant") (auto simp: invoke_ids_def assistantToolInvokes_def)
  moreover have "m_role m = RoleUser \<longrightarrow> result_ids m = []" using render_user_some [of m u a snap] None by auto
  ultimately show ?thesis using None by (simp add: encode_def)
next
  case (Some nm)
  have "use_ids nm = invoke_ids m"
    using render_assistant(1) [OF _ Some] render_other [OF _ Some]
    by (cases "m_role m = RoleAssistant") (auto simp: invoke_ids_def assistantToolInvokes_def)
  then have "carries print parse m [print (native_json nm)]"
    using assms Some render_usage [OF Some] render_user [OF _ Some]
    unfolding carries_def renders_readable_def by blast
  with Some show ?thesis by (simp add: encode_def)
qed

lemma gather_carries:
  assumes "carries print parse m b"
  obtains nm where "gather_raws parse b = Inr [nm]" "use_ids nm = invoke_ids m"
    "m_role m = RoleUser \<Longrightarrow> nm_Role nm = ''user'' \<and> wire_result_ids nm = result_ids m"
proof -
  obtain nm where nm: "b = [print (native_json nm)]" "readable print parse nm" "nm_Usage nm = None"
    "use_ids nm = invoke_ids m" "m_role m = RoleUser \<longrightarrow> nm_Role nm = ''user'' \<and> wire_result_ids nm = result_ids m"
    using assms by (auto simp: carries_def)
  let ?nm = "nm\<lparr>nm_Content := map wire_norm (nm_Content nm)\<rparr>"
  have "json_native (native_json nm) = Some ?nm" using nm(3) by (intro native_roundtrip) simp
  then have "gather_raws parse b = Inr [?nm]" using nm(1,2) by (simp add: readable_def)
  moreover have "shape ?nm = shape nm" by simp
  ultimately show thesis using that [of ?nm] nm(4,5) unfolding shape_def by auto
qed

lemma gather_append:
  assumes "gather_messages parse es lts = Inr xs" and "length lts = length es"
    and "gather_messages parse es' lts' = Inr ys"
  shows "gather_messages parse (es @ es') (lts @ lts') = Inr (xs @ ys)"
  using assms
proof (induction es arbitrary: lts xs)
  case (Cons e es)
  then obtain k ks where lts: "lts = k # ks" by (cases lts) auto
  from Cons show ?case unfolding lts by (auto split: sum.splits)
qed simp

text \<open>
  The reference projection of a paired log, its bytes taken from a cache that carries the rows or
  freshly encoded, makes a paired list of native messages.
\<close>

lemma reference_paired:
  fixes config :: "(encoded_messages, 'k, 'err) projection_config"
  assumes "pc_Encode config = encode print u a" and "pc_Append config = AppendEncodedMessage"
    and "\<And>x. x \<in> set rows \<Longrightarrow> renders_readable print parse u a (message_of (pc_Chalkboard config) x)"
    and "\<And>x b. x \<in> set rows \<Longrightarrow> held (LT x) = Some b \<Longrightarrow> carries print parse (Payload x) b"
    and "paired (map Payload rows)"
  shows "\<exists>em snap' per lts pairs. reference_projection held config rows (em0, snap) = Inr (em, snap')
    \<and> em_PerMessage em = em_PerMessage em0 @ per \<and> em_LogicalTimes em = em_LogicalTimes em0 @ lts
    \<and> length per = length lts \<and> gather_messages parse per lts = Inr pairs \<and> wire_paired (map fst pairs)
    \<and> (rows \<noteq> [] \<and> m_role (Payload (hd rows)) = RoleUser \<and> result_ids (Payload (hd rows)) \<noteq> [] \<longrightarrow>
        pairs \<noteq> [] \<and> nm_Role (fst (hd pairs)) = ''user''
        \<and> wire_result_ids (fst (hd pairs)) = result_ids (Payload (hd rows)))"
  using assms(3-)
proof (induction rows arbitrary: em0 snap)
  case (Cons x rows)
  let ?m = "message_of (pc_Chalkboard config) x"
  have pr: "paired (map Payload rows)"
    and nxt: "invoke_ids (Payload x) = [] \<or> (rows \<noteq> [] \<and> answers (Payload (hd rows)) (Payload x))"
    using Cons.prems(3) by (auto simp: paired_Cons hd_map)
  have "\<And>y. y \<in> set rows \<Longrightarrow> renders_readable print parse u a (message_of (pc_Chalkboard config) y)"
    "\<And>y b. y \<in> set rows \<Longrightarrow> held (LT y) = Some b \<Longrightarrow> carries print parse (Payload y) b"
    using Cons.prems(1,2) by simp_all
  note ih = Cons.IH [OF this pr]
  have skip: ?case
    if "reference_projection held config (x # rows) (em0, snap) = reference_projection held config rows (em0, snap2)"
      "m_role ?m = RoleUser \<longrightarrow> result_ids ?m = []" for snap2
  proof -
    obtain em snap' per lts pairs where "reference_projection held config rows (em0, snap2) = Inr (em, snap')"
      "em_PerMessage em = em_PerMessage em0 @ per" "em_LogicalTimes em = em_LogicalTimes em0 @ lts"
      "length per = length lts" "gather_messages parse per lts = Inr pairs" "wire_paired (map fst pairs)"
      using ih [of em0 snap2] by blast
    with that show ?thesis
      by (intro exI [of _ em] exI [of _ snap'] exI [of _ per] exI [of _ lts] exI [of _ pairs])
        (auto simp del: reference_projection.simps)
  qed
  show ?case
  proof (cases "m_role ?m = RoleGenesis")
    case True
    then show ?thesis by (intro skip) auto
  next
    case False
    define b where "b = (case held (LT x) of Some b \<Rightarrow> b | None \<Rightarrow> projr (encode print u a ?m snap :: 'err + _))"
    have step: "reference_projection held config (x # rows) (em0, snap) = reference_projection held config rows
        (if b = [] then em0 else AppendEncodedMessage em0 b (LT x), foldl snap_Apply snap (m_patches ?m))"
      and b: "b = [] \<and> invoke_ids ?m = [] \<and> (m_role ?m = RoleUser \<longrightarrow> result_ids ?m = []) \<or> carries print parse ?m b"
      using False Cons.prems(2) [of x] encode_carries [OF Cons.prems(1) [of x], of snap, where 'err = 'err] assms(1,2)
      by (auto simp: b_def Let_def carries_def split: option.splits sum.splits)
    show ?thesis
    proof (cases "b = []")
      case True
      then show ?thesis using step b by (intro skip) (auto simp: carries_def)
    next
      case bne: False
      then have "carries print parse ?m b" using b by simp
      then obtain nm where nm: "gather_raws parse b = Inr [nm]" "use_ids nm = invoke_ids ?m"
        "m_role ?m = RoleUser \<Longrightarrow> nm_Role nm = ''user'' \<and> wire_result_ids nm = result_ids ?m"
        by (rule gather_carries) blast
      let ?em = "AppendEncodedMessage em0 b (LT x)"
      have em1: "em_PerMessage ?em = em_PerMessage em0 @ [b]" "em_LogicalTimes ?em = em_LogicalTimes em0 @ [LT x]"
        by (simp_all add: AppendEncodedMessage_def)
      obtain em snap' per lts pairs where
        ref: "reference_projection held config rows (AppendEncodedMessage em0 b (LT x), foldl snap_Apply snap (m_patches ?m)) = Inr (em, snap')"
        and em: "em_PerMessage em = em_PerMessage em0 @ b # per" "em_LogicalTimes em = em_LogicalTimes em0 @ LT x # lts"
        and g: "length per = length lts" "gather_messages parse per lts = Inr pairs" "wire_paired (map fst pairs)"
        and hd: "rows \<noteq> [] \<and> m_role (Payload (hd rows)) = RoleUser \<and> result_ids (Payload (hd rows)) \<noteq> [] \<longrightarrow>
          pairs \<noteq> [] \<and> nm_Role (fst (hd pairs)) = ''user'' \<and> wire_result_ids (fst (hd pairs)) = result_ids (Payload (hd rows))"
        using ih [of ?em "foldl snap_Apply snap (m_patches ?m)"] unfolding em1 append_assoc append_Cons append_Nil
        by blast
      have "gather_messages parse (b # per) (LT x # lts) = Inr ((nm, LT x) # pairs)" using nm(1) g(2) by simp
      moreover have "wire_paired (map fst ((nm, LT x) # pairs))"
        using g(3) nxt hd nm(2) by (auto simp: wire_answers_def answers_def hd_map)
      ultimately show ?thesis using ref em g(1) step bne nm(3)
        by (intro exI [of _ em] exI [of _ snap'] exI [of _ "b # per"] exI [of _ "LT x # lts"]
            exI [of _ "(nm, LT x) # pairs"]) simp
    qed
  qed
qed simp

subsection \<open>Thinking budgets\<close>

text \<open>
  On a model without adaptive thinking an enabled budget is at least 1024 tokens and leaves room
  for the answer: it is below \<open>max_tokens\<close>, as the API demands.
\<close>

lemma thinking_fits:
  assumes "\<not> isAdaptiveModel model" and "thinking_budget parse snap < 2 ^ 62"
    and "rq_Thinking req = None" and "rq_Thinking (applyThinking parse snap model req) = Some tp"
  shows "1024 \<le> tp_BudgetTokens tp \<and> tp_BudgetTokens tp < rq_MaxTokens (applyThinking parse snap model req)"
  using assms by (auto simp: applyThinking_def Let_def enabled_thinking_def split: if_splits)

text \<open>
  On an adaptive model the budget is 10000 whatever \<open>max_tokens\<close> is: with the default of 8192 the
  request asks for more thinking than it allows in total.
\<close>

lemma adaptive_budget_exceeds:
  assumes "isAdaptiveModel model" and "0 < thinking_budget parse snap" and "rq_MaxTokens req = 8192"
  shows "\<exists>tp. rq_Thinking (applyThinking parse snap model req) = Some tp
    \<and> rq_MaxTokens (applyThinking parse snap model req) < tp_BudgetTokens tp"
  using assms by (simp add: applyThinking_def enabled_thinking_def)

end
