(* ===== verification/Tokens.thy ===== *)
theory Tokens
  imports Message
begin

section \<open>Context-size estimation (\<open>internal/tokens\<close>)\<close>

text \<open>
  \<open>ContextSize\<close> takes the usage that the newest metered message reports as a watermark and
  estimates the messages after it. \<open>marshal\<close> is \<open>json.Marshal\<close> on tool arguments.
\<close>

definition content_chars :: "((string \<times> json) list \<Rightarrow> string option) \<Rightarrow> content \<Rightarrow> int" where
  "content_chars marshal c =
     (if c_type c = ContentProse \<or> c_type c = ContentThinking then int (length (c_text c))
      else if c_type c = ContentImage then 4800
      else if c_type c = ContentToolInvoke then
        int (length (c_tool_name c))
        + (case c_arguments c of
             None \<Rightarrow> 0
           | Some a \<Rightarrow> (case marshal a of Some b \<Rightarrow> int (length b) | None \<Rightarrow> 0))
      else if c_type c = ContentToolResult then
        int (length (c_tool_call_id c)) + int (length (c_tool_name c)) + int (length (c_text c))
      else 0)"

definition EstimateMessage :: "((string \<times> json) list \<Rightarrow> string option) \<Rightarrow> message \<Rightarrow> int" where
  "EstimateMessage marshal m =
     (let chars = foldl (\<lambda>n c. n + content_chars marshal c) 0 (m_content m)
      in if chars = 0 then 0 else (chars + 3) div 4)"

text \<open>The backward scan for the newest message with usage data; -1 when there is none.\<close>

fun watermark_scan :: "message list \<Rightarrow> nat \<Rightarrow> int" where
  "watermark_scan msgs 0 = -1"
| "watermark_scan msgs (Suc i) = (if m_usage (msgs ! i) \<noteq> None then int i else watermark_scan msgs i)"

definition estimate_all :: "((string \<times> json) list \<Rightarrow> string option) \<Rightarrow> message list \<Rightarrow> int" where
  "estimate_all marshal msgs = foldl (\<lambda>n m. n + EstimateMessage marshal m) 0 msgs"

definition ContextSize :: "((string \<times> json) list \<Rightarrow> string option) \<Rightarrow> message list \<Rightarrow> int \<times> bool" where
  "ContextSize marshal msgs =
     (if length msgs = 0 then (0, True)
      else let watermark = watermark_scan msgs (length msgs)
           in if watermark < 0 then (estimate_all marshal msgs, False)
              else let u = the (m_usage (msgs ! nat watermark));
                       base = InputTokens u + OutputTokens u
                   in if watermark = int (length msgs) - 1 then (base, True)
                      else (base + estimate_all marshal (drop (nat watermark + 1) msgs), False))"

lemma foldl_plus: "foldl (\<lambda>n x. n + f x) a xs = a + (\<Sum>x\<leftarrow>xs. f x)" for a :: int
  by (induction xs arbitrary: a) simp_all

lemma estimate_all_eq: "estimate_all marshal msgs = (\<Sum>m\<leftarrow>msgs. EstimateMessage marshal m)"
  by (simp add: estimate_all_def foldl_plus)

lemma watermark_scan_spec:
  assumes "n \<le> length msgs"
  shows "(\<exists>i < n. watermark_scan msgs n = int i \<and> m_usage (msgs ! i) \<noteq> None \<and> (\<forall>j < n. i < j \<longrightarrow> m_usage (msgs ! j) = None))
    \<or> (watermark_scan msgs n = -1 \<and> (\<forall>j < n. m_usage (msgs ! j) = None))"
  using assms
proof (induction n)
  case (Suc n)
  show ?case
  proof (cases "m_usage (msgs ! n)")
    case None
    with Suc show ?thesis by (auto simp: less_Suc_eq)
  qed auto
qed simp

lemma watermark_scan_append: "n \<le> length xs \<Longrightarrow> watermark_scan (xs @ ys) n = watermark_scan xs n"
  by (induction n) (auto simp: nth_append)

lemma content_chars_nonneg: "0 \<le> content_chars marshal c"
  by (auto simp: content_chars_def split: option.splits)

lemma EstimateMessage_nonneg: "0 \<le> EstimateMessage marshal m"
proof -
  have "0 \<le> (\<Sum>c\<leftarrow>m_content m. content_chars marshal c)"
    by (intro sum_list_nonneg) (auto simp: content_chars_nonneg)
  then show ?thesis by (auto simp: EstimateMessage_def Let_def foldl_plus intro!: pos_imp_zdiv_nonneg_iff [THEN iffD2])
qed

lemma ContextSize_snoc:
  shows "m_usage m = None \<Longrightarrow>
      ContextSize marshal (msgs @ [m]) = (fst (ContextSize marshal msgs) + EstimateMessage marshal m, False)"
    and "m_usage m = Some u \<Longrightarrow> ContextSize marshal (msgs @ [m]) = (InputTokens u + OutputTokens u, True)"
proof -
  have w: "watermark_scan (msgs @ [m]) (Suc (length msgs)) =
      (if m_usage m \<noteq> None then int (length msgs) else watermark_scan msgs (length msgs))"
    by (simp add: watermark_scan_append)
  show "ContextSize marshal (msgs @ [m]) = (InputTokens u + OutputTokens u, True)" if "m_usage m = Some u"
    using that w by (simp add: ContextSize_def Let_def)
  show "ContextSize marshal (msgs @ [m]) = (fst (ContextSize marshal msgs) + EstimateMessage marshal m, False)"
    if none: "m_usage m = None"
  proof (cases "watermark_scan msgs (length msgs) < 0")
    case True
    then show ?thesis using none w by (simp add: ContextSize_def Let_def estimate_all_eq)
  next
    case False
    then obtain i where i: "i < length msgs" "watermark_scan msgs (length msgs) = int i"
      using watermark_scan_spec [of "length msgs" msgs] by auto
    with none w show ?thesis
      by (auto simp: ContextSize_def Let_def nth_append estimate_all_eq)
  qed
qed

subsection \<open>Properties\<close>

text \<open>
  the context size is incremental in the log: after the newest message that reports usage,
  the size is exactly what that message reports, and every message appended after it adds its own
  non-negative estimate, no more of the history being needed.
\<close>

theorem ContextSize_incremental:
  assumes "m_usage m = Some u" and "\<forall>m' \<in> set later. m_usage m' = None"
  shows "ContextSize marshal (history @ m # later) =
      (InputTokens u + OutputTokens u + (\<Sum>m'\<leftarrow>later. EstimateMessage marshal m'), later = [])
    \<and> (\<forall>m' \<in> set later. 0 \<le> EstimateMessage marshal m')"
  using assms(2)
proof (induction later rule: rev_induct)
  case Nil
  show ?case using ContextSize_snoc(2) [OF assms(1), of marshal history] by simp
next
  case (snoc m' later)
  then have "ContextSize marshal ((history @ m # later) @ [m']) =
      (fst (ContextSize marshal (history @ m # later)) + EstimateMessage marshal m', False)"
    by (intro ContextSize_snoc(1)) simp
  with snoc show ?case by (simp add: EstimateMessage_nonneg)
qed

theorem ContextSize_incremental_witness:
  "let m = zero_message\<lparr>m_role := RoleUser, m_content := [TextContent ''hello'']\<rparr>;
       a = zero_message\<lparr>m_role := RoleAssistant, m_usage := Some \<lparr>InputTokens = 90, OutputTokens = 10, CacheReadTokens = 0, CacheWriteTokens = 0\<rparr>\<rparr>
   in ContextSize (\<lambda>_. None) ([m] @ a # [m]) = (102, False)"
proof -
  let ?u = "\<lparr>InputTokens = 90, OutputTokens = 10, CacheReadTokens = 0, CacheWriteTokens = 0\<rparr>"
  let ?m = "zero_message\<lparr>m_role := RoleUser, m_content := [TextContent ''hello'']\<rparr>"
  let ?a = "zero_message\<lparr>m_role := RoleAssistant, m_usage := Some ?u\<rparr>"
  have "ContextSize (\<lambda>_. None) ([?m] @ ?a # [?m]) =
      (InputTokens ?u + OutputTokens ?u + (\<Sum>m'\<leftarrow>[?m]. EstimateMessage (\<lambda>_. None) m'), [?m] = [])"
    using ContextSize_incremental [of ?a ?u "[?m]" "\<lambda>_. None" "[?m]"] by (simp add: zero_message_def)
  then show ?thesis by (simp add: EstimateMessage_def content_chars_def go_defs)
qed

end
