(* ===== verification/Aria_Wire.thy ===== *)
theory Aria_Wire
  imports Complex_Main Livedoc
begin

section \<open>The live stream (\<open>internal/livelog/aria\<close>)\<close>

text \<open>
  The server and the client of figaro's paginated read API: \<open>server.go\<close> keeps the closed messages
  and at most one open message and broadcasts versioned field deltas, \<open>client.go\<close> folds the pages
  into a replica. Subscribers are mailboxes: a push callback appends the page it is given. The
  client's callbacks are the events that \<open>Apply\<close> returns, in the order of the calls.

  A nil node list and an empty one differ here (\<open>Committed.Full\<close> tests for nil), so node lists of
  messages are optional. A Go map range is a fold over the ascending keys.
\<close>

subsection \<open>The wire (\<open>types.go\<close>)\<close>

text \<open>The values of \<open>map[string]any\<close> that a delta carries.\<close>

datatype field_val = VNil | VStr string | VInt64 int | VInt int | VFloat64 rat | VMap "(string \<times> json) list"

record node_delta =
  nd_id :: string
  nd_set :: "(string, field_val) fmap"
  nd_unset :: "string list"
  nd_patch :: "(string, delta) fmap"

definition nd_Empty :: "node_delta \<Rightarrow> bool" where
  "nd_Empty d \<longleftrightarrow> fcard (fmdom (nd_set d)) = 0 \<and> length (nd_unset d) = 0 \<and> fcard (fmdom (nd_patch d)) = 0"

record live =
  l_lt :: int
  l_v :: int
  l_role :: string
  l_nodes :: "node_delta list"

record committed =
  cm_lt :: int
  cm_v :: int
  cm_role :: string
  cm_nodes :: "node list option"

definition cm_Full :: "committed \<Rightarrow> bool" where
  "cm_Full c \<longleftrightarrow> cm_nodes c \<noteq> None"

record aria_metrics =
  am_context_tokens :: int
  am_context_limit :: int
  am_context_exact :: bool
  am_tokens_in :: int
  am_tokens_out :: int
  am_cache_read :: int
  am_cache_write :: int
  am_mantra :: string

record aria_read =
  ar_committed :: "committed list"
  ar_live :: "live option"
  ar_metrics :: "aria_metrics option"

definition ar_Empty :: "aria_read \<Rightarrow> bool" where
  "ar_Empty r \<longleftrightarrow> length (ar_committed r) = 0 \<and> ar_live r = None \<and> ar_metrics r = None"

definition zero_read :: aria_read where
  "zero_read = \<lparr>ar_committed = [], ar_live = None, ar_metrics = None\<rparr>"

record aria_msg =
  msg_lt :: int
  msg_role :: string
  msg_nodes :: "node list option"

subsection \<open>Field deltas\<close>

text \<open>The accumulators of \<open>delta\<close>: the maps \<open>set\<close> and \<open>patch\<close> and the list \<open>unset\<close>.\<close>

record delta_acc =
  da_set :: "(string, field_val) fmap"
  da_unset :: "string list"
  da_patch :: "(string, delta) fmap"

definition da_scalar :: "string \<Rightarrow> string \<Rightarrow> string \<Rightarrow> delta_acc \<Rightarrow> delta_acc" where
  "da_scalar field ov nv a =
     (if nv = ov then a
      else if nv = [] then a\<lparr>da_unset := da_unset a @ [field]\<rparr>
      else a\<lparr>da_set := fmupd field (VStr nv) (da_set a)\<rparr>)"

definition da_scalarInt :: "string \<Rightarrow> int \<Rightarrow> int \<Rightarrow> delta_acc \<Rightarrow> delta_acc" where
  "da_scalarInt field ov nv a =
     (if ov = nv then a
      else if nv = 0 then a\<lparr>da_unset := da_unset a @ [field]\<rparr>
      else a\<lparr>da_set := fmupd field (VInt64 nv) (da_set a)\<rparr>)"

definition da_streamed :: "string \<Rightarrow> string \<Rightarrow> string \<Rightarrow> delta_acc \<Rightarrow> delta_acc" where
  "da_streamed field ov nv a =
     (if nv = ov then a
      else if nv = [] then a\<lparr>da_unset := da_unset a @ [field]\<rparr>
      else if ov = [] then a\<lparr>da_set := fmupd field (VStr nv) (da_set a)\<rparr>
      else case Diff ov nv of
             Some dl \<Rightarrow> a\<lparr>da_patch := fmupd field dl (da_patch a)\<rparr>
           | None \<Rightarrow> a\<lparr>da_set := fmupd field (VStr nv) (da_set a)\<rparr>)"

definition da_args :: "args \<Rightarrow> args \<Rightarrow> delta_acc \<Rightarrow> delta_acc" where
  "da_args ov nv a =
     (if ov = nv then a
      else case nv of
             None \<Rightarrow> a\<lparr>da_unset := da_unset a @ [''args'']\<rparr>
           | Some m \<Rightarrow> a\<lparr>da_set := fmupd ''args'' (VMap m) (da_set a)\<rparr>)"

definition da_type :: "string \<Rightarrow> string \<Rightarrow> delta_acc \<Rightarrow> delta_acc" where
  "da_type ov nv a = (if nv \<noteq> ov then a\<lparr>da_set := fmupd ''type'' (VStr nv) (da_set a)\<rparr> else a)"

definition set_if :: "bool \<Rightarrow> string \<Rightarrow> field_val \<Rightarrow> (string, field_val) fmap \<Rightarrow> (string, field_val) fmap" where
  "set_if b field v m = (if b then fmupd field v m else m)"

definition fullSet :: "string \<Rightarrow> node \<Rightarrow> node_delta" where
  "fullSet nid n =
     (let s0 = fmupd ''type'' (VStr (n_type n)) fmempty;
          s1 = set_if (n_name n \<noteq> []) ''name'' (VStr (n_name n)) s0;
          s2 = set_if (n_summary n \<noteq> []) ''summary'' (VStr (n_summary n)) s1;
          s3 = (case n_args n of None \<Rightarrow> s2 | Some m \<Rightarrow> fmupd ''args'' (VMap m) s2);
          s4 = set_if (n_status n \<noteq> []) ''status'' (VStr (n_status n)) s3;
          s5 = set_if (n_started_at n \<noteq> 0) ''started_at'' (VInt64 (n_started_at n)) s4;
          s6 = set_if (n_finished_at n \<noteq> 0) ''finished_at'' (VInt64 (n_finished_at n)) s5;
          s7 = set_if (n_markdown n \<noteq> []) ''markdown'' (VStr (n_markdown n)) s6;
          s8 = set_if (n_output n \<noteq> []) ''output'' (VStr (n_output n)) s7
      in \<lparr>nd_id = nid, nd_set = s8, nd_unset = [], nd_patch = fmempty\<rparr>)"

definition delta_fields :: "node \<Rightarrow> node \<Rightarrow> delta_acc" where
  "delta_fields old n =
     da_args (n_args old) (n_args n)
       (da_streamed ''output'' (n_output old) (n_output n)
       (da_streamed ''markdown'' (n_markdown old) (n_markdown n)
       (da_scalarInt ''finished_at'' (n_finished_at old) (n_finished_at n)
       (da_scalarInt ''started_at'' (n_started_at old) (n_started_at n)
       (da_scalar ''status'' (n_status old) (n_status n)
       (da_scalar ''summary'' (n_summary old) (n_summary n)
       (da_scalar ''name'' (n_name old) (n_name n)
       (da_type (n_type old) (n_type n)
         \<lparr>da_set = fmempty, da_unset = [], da_patch = fmempty\<rparr>))))))))"

definition node_delta_of :: "string \<Rightarrow> node option \<Rightarrow> node \<Rightarrow> node_delta" where
  "node_delta_of nid old n =
     (case old of
        None \<Rightarrow> fullSet nid n
      | Some o' \<Rightarrow>
          (let a = delta_fields o' n
           in \<lparr>nd_id = nid, nd_set = da_set a, nd_unset = da_unset a, nd_patch = da_patch a\<rparr>))"

subsubsection \<open>Folding a delta\<close>

definition asStr :: "field_val \<Rightarrow> string" where
  "asStr v = (case v of VStr s \<Rightarrow> s | _ \<Rightarrow> [])"

text \<open>\<open>int64(f)\<close> truncates towards zero (the value out of range is left to the platform).\<close>

definition asInt64 :: "field_val \<Rightarrow> int" where
  "asInt64 v =
     (case v of VInt64 n \<Rightarrow> n | VInt n \<Rightarrow> n
      | VFloat64 r \<Rightarrow> (if 0 \<le> r then floor r else ceiling r) | _ \<Rightarrow> 0)"

definition asArgs :: "field_val \<Rightarrow> args \<Rightarrow> args" where
  "asArgs v cur = (case v of VNil \<Rightarrow> None | VMap m \<Rightarrow> Some m | _ \<Rightarrow> cur)"

definition setField :: "node \<Rightarrow> string \<Rightarrow> field_val \<Rightarrow> node" where
  "setField n field v =
     (if field = ''type'' then n\<lparr>n_type := asStr v\<rparr>
      else if field = ''name'' then n\<lparr>n_name := asStr v\<rparr>
      else if field = ''summary'' then n\<lparr>n_summary := asStr v\<rparr>
      else if field = ''status'' then n\<lparr>n_status := asStr v\<rparr>
      else if field = ''markdown'' then n\<lparr>n_markdown := asStr v\<rparr>
      else if field = ''output'' then n\<lparr>n_output := asStr v\<rparr>
      else if field = ''id'' then n\<lparr>n_id := asStr v\<rparr>
      else if field = ''started_at'' then n\<lparr>n_started_at := asInt64 v\<rparr>
      else if field = ''finished_at'' then n\<lparr>n_finished_at := asInt64 v\<rparr>
      else if field = ''args'' then n\<lparr>n_args := asArgs v (n_args n)\<rparr>
      else n)"

definition patchField :: "node \<Rightarrow> string \<Rightarrow> delta \<Rightarrow> node" where
  "patchField n f dl =
     (if f = ''markdown'' then n\<lparr>n_markdown := splice (n_markdown n) dl\<rparr>
      else if f = ''output'' then n\<lparr>n_output := splice (n_output n) dl\<rparr>
      else n)"

definition foldDelta :: "node \<Rightarrow> node_delta \<Rightarrow> node" where
  "foldDelta n d =
     (let n1 = fold (\<lambda>k m. setField m k (the (fmlookup (nd_set d) k))) (fmkeys (nd_set d)) n;
          n2 = fold (\<lambda>f m. setField m f VNil) (nd_unset d) n1
      in fold (\<lambda>f m. patchField m f (the (fmlookup (nd_patch d) f))) (fmkeys (nd_patch d)) n2)"

text \<open>What the wire carries of a node: everything but its id (sent as the key) and its version.\<close>

definition wire :: "node \<Rightarrow> node" where
  "wire n = n\<lparr>n_id := [], n_version := 0\<rparr>"

lemma wire_wire [simp]: "wire (wire n) = wire n"
  by (simp add: wire_def)

text \<open>The value of a field after the sets and unsets of a delta.\<close>

definition field_after :: "(field_val \<Rightarrow> 'a \<Rightarrow> 'a) \<Rightarrow> string \<Rightarrow> node_delta \<Rightarrow> 'a \<Rightarrow> 'a" where
  "field_after h k d x =
     (let y = (case fmlookup (nd_set d) k of Some v \<Rightarrow> h v x | None \<Rightarrow> x)
      in if k \<in> set (nd_unset d) then h VNil y else y)"

definition text_after :: "string \<Rightarrow> node_delta \<Rightarrow> string \<Rightarrow> string" where
  "text_after k d x =
     (let y = field_after (\<lambda>v _. asStr v) k d x
      in case fmlookup (nd_patch d) k of Some dl \<Rightarrow> splice y dl | None \<Rightarrow> y)"

lemma fmkeys_iff [simp]: "k \<in> fmdom' m \<longleftrightarrow> (\<exists>v. fmlookup m k = Some v)"
  by (auto simp: fmlookup_dom'_iff)

lemma sets_get:
  assumes other: "\<And>m f v. f \<noteq> k \<Longrightarrow> g (setField m f v) = g m"
    and same: "\<And>m v. g (setField m k v) = h v (g m)" and idem: "\<And>v x. h v (h v x) = h v x"
  shows "g (fold (\<lambda>f m. setField m f VNil) (nd_unset d)
      (fold (\<lambda>k m. setField m k (the (fmlookup (nd_set d) k))) (fmkeys (nd_set d)) n)) = field_after h k d (g n)"
  by (auto simp: fold_upd_get [where g = g and upd = setField and k = k and h = h, OF other same idem]
      field_after_def Let_def split: option.splits)

lemma patches_other:
  assumes "\<And>m f v. g (patchField m f v) = g m"
  shows "g (fold (\<lambda>f m. patchField m f (the (fmlookup ps f))) ks n) = g n"
  by (induction ks arbitrary: n) (simp_all add: assms)

lemma patches_get:
  assumes "\<And>m f v. f \<noteq> k \<Longrightarrow> g (patchField m f v) = g m"
    and "\<And>m v. g (patchField m k v) = splice (g m) v"
  shows "g (fold (\<lambda>f m. patchField m f (the (fmlookup ps f))) (fmkeys ps) n)
    = (case fmlookup ps k of Some dl \<Rightarrow> splice (g n) dl | None \<Rightarrow> g n)"
  using fold_upd_get_distinct [where g = g and upd = patchField and k = k and h = "\<lambda>v x. splice x v",
      OF assms fmkeys_props(2), of "\<lambda>f. the (fmlookup ps f)" ps n]
  by (auto split: option.splits)

lemma foldDelta_fields:
  "n_type (foldDelta n d) = field_after (\<lambda>v _. asStr v) ''type'' d (n_type n)"
  "n_name (foldDelta n d) = field_after (\<lambda>v _. asStr v) ''name'' d (n_name n)"
  "n_summary (foldDelta n d) = field_after (\<lambda>v _. asStr v) ''summary'' d (n_summary n)"
  "n_status (foldDelta n d) = field_after (\<lambda>v _. asStr v) ''status'' d (n_status n)"
  "n_id (foldDelta n d) = field_after (\<lambda>v _. asStr v) ''id'' d (n_id n)"
  "n_started_at (foldDelta n d) = field_after (\<lambda>v _. asInt64 v) ''started_at'' d (n_started_at n)"
  "n_finished_at (foldDelta n d) = field_after (\<lambda>v _. asInt64 v) ''finished_at'' d (n_finished_at n)"
  "n_args (foldDelta n d) = field_after asArgs ''args'' d (n_args n)"
  "n_markdown (foldDelta n d) = text_after ''markdown'' d (n_markdown n)"
  "n_output (foldDelta n d) = text_after ''output'' d (n_output n)"
  "n_version (foldDelta n d) = n_version n"
proof -
  have p: "n_type (patchField m f v) = n_type m" "n_name (patchField m f v) = n_name m"
    "n_summary (patchField m f v) = n_summary m" "n_status (patchField m f v) = n_status m"
    "n_id (patchField m f v) = n_id m" "n_started_at (patchField m f v) = n_started_at m"
    "n_finished_at (patchField m f v) = n_finished_at m" "n_args (patchField m f v) = n_args m"
    "n_version (patchField m f v) = n_version m" for m f v
    by (simp_all add: patchField_def)
  have ver: "n_version (fold (\<lambda>f m. setField m f (val f)) ks m) = n_version m" for val ks m
    by (induction ks arbitrary: m) (simp_all add: setField_def)
  have idem: "asArgs v (asArgs v x) = asArgs v x" for v x by (cases v) (simp_all add: asArgs_def)
  note unf = foldDelta_def Let_def
  show "n_type (foldDelta n d) = field_after (\<lambda>v _. asStr v) ''type'' d (n_type n)"
    unfolding unf patches_other [where g = n_type, OF p(1)] by (rule sets_get) (simp_all add: setField_def)
  show "n_name (foldDelta n d) = field_after (\<lambda>v _. asStr v) ''name'' d (n_name n)"
    unfolding unf patches_other [where g = n_name, OF p(2)] by (rule sets_get) (simp_all add: setField_def)
  show "n_summary (foldDelta n d) = field_after (\<lambda>v _. asStr v) ''summary'' d (n_summary n)"
    unfolding unf patches_other [where g = n_summary, OF p(3)] by (rule sets_get) (simp_all add: setField_def)
  show "n_status (foldDelta n d) = field_after (\<lambda>v _. asStr v) ''status'' d (n_status n)"
    unfolding unf patches_other [where g = n_status, OF p(4)] by (rule sets_get) (simp_all add: setField_def)
  show "n_id (foldDelta n d) = field_after (\<lambda>v _. asStr v) ''id'' d (n_id n)"
    unfolding unf patches_other [where g = n_id, OF p(5)] by (rule sets_get) (simp_all add: setField_def)
  show "n_started_at (foldDelta n d) = field_after (\<lambda>v _. asInt64 v) ''started_at'' d (n_started_at n)"
    unfolding unf patches_other [where g = n_started_at, OF p(6)] by (rule sets_get) (simp_all add: setField_def)
  show "n_finished_at (foldDelta n d) = field_after (\<lambda>v _. asInt64 v) ''finished_at'' d (n_finished_at n)"
    unfolding unf patches_other [where g = n_finished_at, OF p(7)] by (rule sets_get) (simp_all add: setField_def)
  show "n_args (foldDelta n d) = field_after asArgs ''args'' d (n_args n)"
    unfolding unf patches_other [where g = n_args, OF p(8)] by (rule sets_get) (simp_all add: setField_def idem)
  show "n_version (foldDelta n d) = n_version n"
    unfolding unf patches_other [where g = n_version, OF p(9)] by (simp add: ver)
  have "n_markdown (fold (\<lambda>f m. setField m f VNil) (nd_unset d)
      (fold (\<lambda>k m. setField m k (the (fmlookup (nd_set d) k))) (fmkeys (nd_set d)) n))
      = field_after (\<lambda>v _. asStr v) ''markdown'' d (n_markdown n)"
    by (rule sets_get) (simp_all add: setField_def)
  then show "n_markdown (foldDelta n d) = text_after ''markdown'' d (n_markdown n)"
    unfolding unf text_after_def by (subst patches_get [where k = "''markdown''"]) (simp_all add: patchField_def split: option.split)
  have "n_output (fold (\<lambda>f m. setField m f VNil) (nd_unset d)
      (fold (\<lambda>k m. setField m k (the (fmlookup (nd_set d) k))) (fmkeys (nd_set d)) n))
      = field_after (\<lambda>v _. asStr v) ''output'' d (n_output n)"
    by (rule sets_get) (simp_all add: setField_def)
  then show "n_output (foldDelta n d) = text_after ''output'' d (n_output n)"
    unfolding unf text_after_def by (subst patches_get [where k = "''output''"]) (simp_all add: patchField_def split: option.split)
qed

text \<open>What the accumulators hold, field by field.\<close>

lemma da_lookup [simp]:
  "fmlookup (da_set (da_scalar f ov nv a)) k = (if k = f \<and> nv \<noteq> ov \<and> nv \<noteq> [] then Some (VStr nv) else fmlookup (da_set a) k)"
  "fmlookup (da_set (da_scalarInt f oi ni a)) k = (if k = f \<and> ni \<noteq> oi \<and> ni \<noteq> 0 then Some (VInt64 ni) else fmlookup (da_set a) k)"
  "fmlookup (da_set (da_streamed f ov nv a)) k = (if k = f \<and> nv \<noteq> ov \<and> nv \<noteq> [] \<and> ov = [] then Some (VStr nv) else fmlookup (da_set a) k)"
  "fmlookup (da_set (da_type ov nv a)) k = (if k = ''type'' \<and> nv \<noteq> ov then Some (VStr nv) else fmlookup (da_set a) k)"
  "fmlookup (da_set (da_args oa na a)) k = (if k = ''args'' \<and> na \<noteq> oa \<and> na \<noteq> None then Some (VMap (the na)) else fmlookup (da_set a) k)"
  by (auto simp: da_scalar_def da_scalarInt_def da_streamed_def da_type_def da_args_def Diff_def Let_def split: option.splits)

lemma da_unset_iff [simp]:
  "k \<in> set (da_unset (da_scalar f ov nv a)) \<longleftrightarrow> (k = f \<and> nv \<noteq> ov \<and> nv = []) \<or> k \<in> set (da_unset a)"
  "k \<in> set (da_unset (da_scalarInt f oi ni a)) \<longleftrightarrow> (k = f \<and> ni \<noteq> oi \<and> ni = 0) \<or> k \<in> set (da_unset a)"
  "k \<in> set (da_unset (da_streamed f ov nv a)) \<longleftrightarrow> (k = f \<and> nv \<noteq> ov \<and> nv = []) \<or> k \<in> set (da_unset a)"
  "k \<in> set (da_unset (da_type ov nv a)) \<longleftrightarrow> k \<in> set (da_unset a)"
  "k \<in> set (da_unset (da_args oa na a)) \<longleftrightarrow> (k = ''args'' \<and> na \<noteq> oa \<and> na = None) \<or> k \<in> set (da_unset a)"
  by (auto simp: da_scalar_def da_scalarInt_def da_streamed_def da_type_def da_args_def split: option.splits)

lemma da_patch_lookup [simp]:
  "da_patch (da_scalar f ov nv a) = da_patch a"
  "da_patch (da_scalarInt f oi ni a) = da_patch a"
  "fmlookup (da_patch (da_streamed f ov nv a)) k =
     (if k = f \<and> nv \<noteq> ov \<and> nv \<noteq> [] \<and> ov \<noteq> [] then Diff ov nv else fmlookup (da_patch a) k)"
  "da_patch (da_type ov nv a) = da_patch a"
  "da_patch (da_args oa na a) = da_patch a"
  by (auto simp: da_scalar_def da_scalarInt_def da_streamed_def da_type_def da_args_def Diff_def Let_def split: option.splits)

lemma Diff_Some: "old \<noteq> new \<Longrightarrow> \<exists>d. Diff old new = Some d"
  by (simp add: Diff_def Let_def)

text \<open>A replica of the old node that folds in the delta is a replica of the new node.\<close>

definition texts_short :: "node \<Rightarrow> bool" where
  "texts_short n \<longleftrightarrow> short (n_markdown n) \<and> short (n_output n)"

lemma text_after_Diff:
  assumes "short old"
    and "fmlookup (nd_set d) k = (if new \<noteq> old \<and> new \<noteq> [] \<and> old = [] then Some (VStr new) else None)"
    and "k \<in> set (nd_unset d) \<longleftrightarrow> new \<noteq> old \<and> new = []"
    and "fmlookup (nd_patch d) k = (if new \<noteq> old \<and> new \<noteq> [] \<and> old \<noteq> [] then Diff old new else None)"
  shows "text_after k d old = new"
proof (cases "new \<noteq> old \<and> new \<noteq> [] \<and> old \<noteq> []")
  case True
  then obtain dl where dl: "Diff old new = Some dl" using Diff_Some by metis
  with True assms show ?thesis
    by (simp add: text_after_def field_after_def splice_Diff [OF dl] short_def)
next
  case False
  with assms(2-4) show ?thesis by (auto simp: text_after_def field_after_def asStr_def)
qed

lemma node_eqI:
  assumes "n_type a = n_type b" "n_version a = n_version b" "n_markdown a = n_markdown b" "n_id a = n_id b"
    "n_name a = n_name b" "n_args a = n_args b" "n_status a = n_status b" "n_output a = n_output b"
    "n_summary a = n_summary b" "n_started_at a = n_started_at b" "n_finished_at a = n_finished_at b"
  shows "a = (b :: node)"
  using assms by (cases a, cases b) simp

lemma foldDelta_update:
  assumes "texts_short old"
  shows "foldDelta (wire old) (node_delta_of nid (Some old) n) = wire n"
proof (rule node_eqI)
  let ?d = "node_delta_of nid (Some old) n"
  note simps = foldDelta_fields node_delta_of_def Let_def delta_fields_def wire_def field_after_def asStr_def asInt64_def asArgs_def
  show "n_markdown (foldDelta (wire old) ?d) = n_markdown (wire n)"
    unfolding foldDelta_fields
    by (simp add: wire_def) (rule text_after_Diff, use assms in \<open>simp_all add: texts_short_def node_delta_of_def delta_fields_def Let_def\<close>)
  show "n_output (foldDelta (wire old) ?d) = n_output (wire n)"
    unfolding foldDelta_fields
    by (simp add: wire_def) (rule text_after_Diff, use assms in \<open>simp_all add: texts_short_def node_delta_of_def delta_fields_def Let_def\<close>)
  show "n_type (foldDelta (wire old) ?d) = n_type (wire n)" "n_name (foldDelta (wire old) ?d) = n_name (wire n)"
    "n_status (foldDelta (wire old) ?d) = n_status (wire n)" "n_summary (foldDelta (wire old) ?d) = n_summary (wire n)"
    "n_started_at (foldDelta (wire old) ?d) = n_started_at (wire n)"
    "n_finished_at (foldDelta (wire old) ?d) = n_finished_at (wire n)"
    "n_version (foldDelta (wire old) ?d) = n_version (wire n)" "n_id (foldDelta (wire old) ?d) = n_id (wire n)"
    by (simp_all add: simps)
  show "n_args (foldDelta (wire old) ?d) = n_args (wire n)" by (cases "n_args n") (simp_all add: simps)
qed

lemma set_if_lookup [simp]: "fmlookup (set_if b f v m) k = (if k = f \<and> b then Some v else fmlookup m k)"
  by (simp add: set_if_def)

lemma fullSet_rest [simp]: "nd_unset (fullSet nid n) = []" "nd_patch (fullSet nid n) = fmempty" "nd_id (fullSet nid n) = nid"
  by (simp_all add: fullSet_def Let_def)

text \<open>
  A snapshot delta rebuilds the node from nothing, and leaves a replica that is up to date as it
  is. (On a stale replica it does not clear a field that has become empty since.)
\<close>

lemma foldDelta_fullSet:
  assumes "base = zero_node \<or> base = wire n"
  shows "foldDelta base (fullSet nid n) = wire n"
proof (rule node_eqI)
  let ?d = "fullSet nid n"
  note simps = foldDelta_fields wire_def field_after_def text_after_def asStr_def asInt64_def asArgs_def
    fullSet_def Let_def zero_node_def
  show "n_type (foldDelta base ?d) = n_type (wire n)" "n_name (foldDelta base ?d) = n_name (wire n)"
    "n_status (foldDelta base ?d) = n_status (wire n)" "n_summary (foldDelta base ?d) = n_summary (wire n)"
    "n_started_at (foldDelta base ?d) = n_started_at (wire n)"
    "n_finished_at (foldDelta base ?d) = n_finished_at (wire n)"
    "n_version (foldDelta base ?d) = n_version (wire n)" "n_id (foldDelta base ?d) = n_id (wire n)"
    "n_markdown (foldDelta base ?d) = n_markdown (wire n)" "n_output (foldDelta base ?d) = n_output (wire n)"
    using assms by (cases "n_args n"; auto simp: simps)+
  show "n_args (foldDelta base ?d) = n_args (wire n)"
    using assms by (cases "n_args n") (auto simp: simps)
qed

lemma nd_Empty_iff: "nd_Empty d \<longleftrightarrow> nd_set d = fmempty \<and> nd_unset d = [] \<and> nd_patch d = fmempty"
  unfolding nd_Empty_def fmdom_card_0 by simp

lemma foldDelta_Empty: "nd_Empty d \<Longrightarrow> foldDelta n d = n"
  by (simp add: nd_Empty_iff foldDelta_def)

lemma fullSet_not_Empty: "\<not> nd_Empty (fullSet nid n)"
proof
  assume "nd_Empty (fullSet nid n)"
  then have "fmlookup (nd_set (fullSet nid n)) ''type'' = None" by (simp add: nd_Empty_iff)
  then show False by (simp add: fullSet_def Let_def split: option.splits)
qed

end
