(* ===== verification/Aria_Server.thy ===== *)
theory Aria_Server
  imports Aria_Wire
begin

section \<open>The aria server (\<open>internal/livelog/aria/server.go\<close>)\<close>

text \<open>
  The authoritative state: closed messages, at most one open message, and the mailboxes of the
  subscribers. Every method holds the mutex while it changes the state, so a method is one step;
  the callbacks run after it and only append to the mailboxes.
\<close>

record open_msg =
  om_lt :: int
  om_role :: string
  om_order :: "string list"
  om_block :: "(string, node) fmap"
  om_ver :: int

record aria_server =
  sv_closed :: "aria_msg list"
  sv_open :: "open_msg option"
  sv_subs :: "(int, aria_read list) fmap"
  sv_nextID :: int

definition NewServer :: aria_server where
  "NewServer = \<lparr>sv_closed = [], sv_open = None, sv_subs = fmempty, sv_nextID = 0\<rparr>"

definition LastCommittedLT :: "aria_server \<Rightarrow> int" where
  "LastCommittedLT s = (if length (sv_closed s) = 0 then 0 else msg_lt (sv_closed s ! (length (sv_closed s) - 1)))"

definition HasOpen :: "aria_server \<Rightarrow> bool" where
  "HasOpen s \<longleftrightarrow> sv_open s \<noteq> None"

definition sv_Restore :: "aria_server \<Rightarrow> aria_msg list \<Rightarrow> aria_server" where
  "sv_Restore s messages = s\<lparr>sv_closed := messages, sv_open := None\<rparr>"

definition deliver :: "aria_read \<Rightarrow> aria_server \<Rightarrow> aria_server" where
  "deliver r s = s\<lparr>sv_subs := fmmap (\<lambda>box. box @ [r]) (sv_subs s)\<rparr>"

definition sv_Open :: "aria_server \<Rightarrow> int \<Rightarrow> string \<Rightarrow> aria_server" where
  "sv_Open s lt role =
     s\<lparr>sv_open := Some \<lparr>om_lt = lt, om_role = role, om_order = [], om_block = fmempty, om_ver = 0\<rparr>\<rparr>"

definition blockID :: "nat \<Rightarrow> node \<Rightarrow> string" where
  "blockID i n = (if n_id n \<noteq> [] then n_id n else ''n'' @ show_nat i)"

definition put_block :: "string \<Rightarrow> node \<Rightarrow> open_msg \<Rightarrow> open_msg" where
  "put_block nid n om =
     om\<lparr>om_order := (if fmlookup (om_block om) nid = None then om_order om @ [nid] else om_order om),
        om_block := fmupd nid n (om_block om)\<rparr>"

text \<open>The loop of \<open>Update\<close> over the new node list, collecting the non-empty deltas.\<close>

fun update_loop :: "nat \<Rightarrow> node list \<Rightarrow> open_msg \<Rightarrow> open_msg \<times> node_delta list" where
  "update_loop i [] om = (om, [])"
| "update_loop i (n # ns) om =
     (let nid = blockID i n;
          d = node_delta_of nid (fmlookup (om_block om) nid) n;
          (om', ds) = update_loop (i + 1) ns (put_block nid n om)
      in (om', if \<not> nd_Empty d then d # ds else ds))"

definition sv_Update :: "aria_server \<Rightarrow> node list \<Rightarrow> aria_server" where
  "sv_Update s nodes =
     (case sv_open s of
        None \<Rightarrow> s
      | Some om \<Rightarrow>
          (let (om', deltas) = update_loop 0 nodes om
           in if length deltas = 0 then s\<lparr>sv_open := Some om'\<rparr>
              else let v = om_ver om';
                       role = (if v = 0 then om_role om' else [])
                   in deliver (zero_read\<lparr>ar_live := Some \<lparr>l_lt = om_lt om', l_v = v, l_role = role, l_nodes = deltas\<rparr>\<rparr>)
                        (s\<lparr>sv_open := Some (om'\<lparr>om_ver := v + 1\<rparr>)\<rparr>)))"

definition block_at :: "(string, node) fmap \<Rightarrow> string \<Rightarrow> node" where
  "block_at b nid = (case fmlookup b nid of Some n \<Rightarrow> n | None \<Rightarrow> zero_node)"

text \<open>\<open>m.Nodes\<close> starts nil and is appended to: a message without blocks keeps nil nodes.\<close>

definition sealed_nodes :: "open_msg \<Rightarrow> node list option" where
  "sealed_nodes om = (if om_order om = [] then None else Some (map (block_at (om_block om)) (om_order om)))"

definition sv_Close :: "aria_server \<Rightarrow> aria_server" where
  "sv_Close s =
     (case sv_open s of
        None \<Rightarrow> s
      | Some om \<Rightarrow>
          (let m = \<lparr>msg_lt = om_lt om, msg_role = om_role om, msg_nodes = sealed_nodes om\<rparr>;
               lastV = (if om_ver om - 1 < 0 then 0 else om_ver om - 1)
           in deliver (zero_read\<lparr>ar_committed := [\<lparr>cm_lt = msg_lt m, cm_v = lastV, cm_role = [], cm_nodes = None\<rparr>]\<rparr>)
                (s\<lparr>sv_closed := sv_closed s @ [m], sv_open := None\<rparr>)))"

definition sv_Abandon :: "aria_server \<Rightarrow> aria_server" where
  "sv_Abandon s = s\<lparr>sv_open := None\<rparr>"

definition committed_of :: "aria_msg \<Rightarrow> committed" where
  "committed_of m = \<lparr>cm_lt = msg_lt m, cm_v = 0, cm_role = msg_role m, cm_nodes = msg_nodes m\<rparr>"

definition sv_Commit :: "aria_server \<Rightarrow> aria_msg \<Rightarrow> aria_server" where
  "sv_Commit s m =
     deliver (zero_read\<lparr>ar_committed := [committed_of m]\<rparr>) (s\<lparr>sv_closed := sv_closed s @ [m]\<rparr>)"

definition sv_Subscribe :: "aria_server \<Rightarrow> int \<times> aria_server" where
  "sv_Subscribe s =
     (sv_nextID s, s\<lparr>sv_subs := fmupd (sv_nextID s) [] (sv_subs s), sv_nextID := sv_nextID s + 1\<rparr>)"

definition sv_cancel :: "aria_server \<Rightarrow> int \<Rightarrow> aria_server" where
  "sv_cancel s i = s\<lparr>sv_subs := fmdrop i (sv_subs s)\<rparr>"

definition sv_ReadBefore :: "aria_server \<Rightarrow> int \<Rightarrow> int \<Rightarrow> aria_read" where
  "sv_ReadBefore s beforeLT limit =
     (if beforeLT \<le> 0 \<or> limit \<le> 0 then zero_read
      else let hi = sort_search (length (sv_closed s)) (\<lambda>i. beforeLT \<le> msg_lt (sv_closed s ! i));
               lo = (if int hi - limit < 0 then 0 else int hi - limit)
           in zero_read\<lparr>ar_committed := map committed_of (drop (nat lo) (take hi (sv_closed s)))\<rparr>)"

definition live_snapshot :: "open_msg \<Rightarrow> live" where
  "live_snapshot om =
     \<lparr>l_lt = om_lt om, l_v = (if om_ver om - 1 < 0 then 0 else om_ver om - 1), l_role = om_role om,
      l_nodes = map (\<lambda>nid. fullSet nid (block_at (om_block om) nid)) (om_order om)\<rparr>"

definition sv_Read :: "aria_server \<Rightarrow> int \<Rightarrow> aria_read" where
  "sv_Read s sinceLT =
     zero_read\<lparr>ar_committed := map committed_of (filter (\<lambda>m. \<not> msg_lt m \<le> sinceLT) (sv_closed s)),
       ar_live := (case sv_open s of
                     Some om \<Rightarrow> (if length (om_order om) > 0 then Some (live_snapshot om) else None)
                   | None \<Rightarrow> None)\<rparr>"

lemma deliver_simps [simp]:
  "sv_closed (deliver r s) = sv_closed s" "sv_open (deliver r s) = sv_open s" "sv_nextID (deliver r s) = sv_nextID s"
  "fmlookup (sv_subs (deliver r s)) k = map_option (\<lambda>box. box @ [r]) (fmlookup (sv_subs s) k)"
  by (simp_all add: deliver_def)

subsection \<open>The well-formedness of the open message\<close>

definition om_wf :: "open_msg \<Rightarrow> bool" where
  "om_wf om \<longleftrightarrow> distinct (om_order om) \<and> set (om_order om) = fmdom' (om_block om)
     \<and> (\<forall>nid n. fmlookup (om_block om) nid = Some n \<longrightarrow> texts_short n)"

lemma put_block_keeps [simp]:
  "om_lt (put_block nid n om) = om_lt om" "om_role (put_block nid n om) = om_role om"
  "om_ver (put_block nid n om) = om_ver om" "fmlookup (om_block (put_block nid n om)) nid' = (if nid' = nid then Some n else fmlookup (om_block om) nid')"
  by (simp_all add: put_block_def)

lemma put_block_wf: "om_wf om \<Longrightarrow> texts_short n \<Longrightarrow> om_wf (put_block nid n om)"
  by (auto simp: om_wf_def put_block_def split: if_splits)

lemma put_block_order: "prefix (om_order om) (om_order (put_block nid n om))"
  "om_wf om \<Longrightarrow> om_order (put_block nid n om) \<noteq> []"
  by (auto simp: put_block_def om_wf_def) (metis empty_iff fmdom'I)

lemma update_loop_Cons:
  "fst (update_loop i (n # ns) om) = fst (update_loop (i + 1) ns (put_block (blockID i n) n om))"
  by (simp add: Let_def split_beta)

declare update_loop.simps(2) [simp del]
lemmas update_loop_fst = update_loop.simps(1) update_loop_Cons

lemma update_loop_keeps:
  "om_lt (fst (update_loop i ns om)) = om_lt om" "om_role (fst (update_loop i ns om)) = om_role om"
  "om_ver (fst (update_loop i ns om)) = om_ver om"
  by (induction ns arbitrary: i om) (simp_all add: update_loop_fst)

lemma update_loop_wf:
  "om_wf om \<Longrightarrow> (\<forall>n \<in> set ns. texts_short n) \<Longrightarrow> om_wf (fst (update_loop i ns om))"
  by (induction ns arbitrary: i om) (simp_all add: update_loop_fst put_block_wf)

lemma update_loop_prefix: "prefix (om_order om) (om_order (fst (update_loop i ns om)))"
proof (induction ns arbitrary: i om)
  case (Cons n ns)
  show ?case unfolding update_loop_Cons
    by (rule prefix_order.trans [OF put_block_order(1) Cons.IH])
qed simp

text \<open>The first frame goes out exactly when the first block appears.\<close>

lemma update_loop_order:
  assumes "om_wf om"
  shows "ns \<noteq> [] \<Longrightarrow> om_order (fst (update_loop i ns om)) \<noteq> []"
    and "om_order om = [] \<Longrightarrow> snd (update_loop i ns om) = [] \<Longrightarrow> ns = []"
proof -
  show "om_order (fst (update_loop i ns om)) \<noteq> []" if "ns \<noteq> []"
  proof (cases ns)
    case (Cons n ms)
    then show ?thesis
      using put_block_order(2) [OF assms] update_loop_prefix [of "put_block (blockID i n) n om" "i + 1" ms]
      by (auto simp: update_loop_Cons)
  qed (use that in simp)
  show "ns = []" if "om_order om = []" "snd (update_loop i ns om) = []"
  proof (cases ns)
    case (Cons n ms)
    have "fmlookup (om_block om) (blockID i n) = None"
      using assms that(1) by (auto simp: om_wf_def fmlookup_dom'_iff)
    then have "snd (update_loop i ns om) \<noteq> []"
      by (simp add: Cons update_loop.simps(2) Let_def split_beta node_delta_of_def fullSet_not_Empty)
    with that(2) show ?thesis by simp
  qed
qed

end
