(* ===== verification/Agent_State.thy ===== *)
theory Agent_State
  imports Turn_State Tokens Aria_Server Chalkboard
begin

section \<open>The agent actor (\<open>internal/figaro/agent.go\<close>, \<open>chalkboard.go\<close>, the prompt part of \<open>turn.go\<close>)\<close>

text \<open>
  The state of one agent and the operations of its actor goroutine outside the provider round:
  metrics, chalkboard input, user and control messages, live emission, the end of a turn and the
  reconciliation after a failure. The store behind the agent is a state \<open>'l\<close> with the operations
  \<open>store_ops\<close>: the log of the aria and the three calls of the \<open>Backend\<close> interface the agent makes
  (\<open>so_backed\<close> is false for an ephemeral agent, whose backend is nil). \<open>agent_env\<close> holds what the
  agent gets from outside: the decoders of \<open>encoding/json\<close>, the compose hooks, the provider's name
  and context limits. \<open>ag_clock\<close> is the time, in milliseconds, the operation reads. Log lines and
  telemetry are left out; \<open>Backend.Kick\<close> only wakes the flusher and changes nothing modelled.
\<close>

record assistant_cache =
  ca_Namespace :: string
  ca_Payload :: "rawjson list"
  ca_Fingerprint :: string

record aria_meta =
  am_MessageCount :: int
  am_TurnCount :: int
  am_TokensIn :: int
  am_TokensOut :: int
  am_CacheReadTokens :: int
  am_CacheWriteTokens :: int
  am_LastActiveMS :: int
  am_LastFigaroLT :: lt
  am_Provider :: string
  am_Model :: string
  am_Mantra :: string
  am_Cwd :: string
  am_LoadoutName :: string
  am_LoadoutVersion :: string
  am_ContextTokens :: int
  am_ContextLimit :: int
  am_ContextExact :: bool
  am_CreatedAtMS :: int

record 'l store_ops =
  so_read :: "'l \<Rightarrow> message log_entry list"
  so_append :: "'l \<Rightarrow> message log_entry \<Rightarrow> string + (message log_entry \<times> 'l)"
  so_peek :: "'l \<Rightarrow> message log_entry option"
  so_readFrom :: "'l \<Rightarrow> lt \<Rightarrow> message log_entry list"
  so_backed :: bool
  so_applyChalkboard :: "'l \<Rightarrow> patch \<Rightarrow> string + 'l"
  so_cacheAppend :: "'l \<Rightarrow> lt \<Rightarrow> assistant_cache \<Rightarrow> string + 'l"
  so_setMeta :: "'l \<Rightarrow> aria_meta \<Rightarrow> 'l"

record agent_env =
  en_hooks :: hooks
  en_marshal :: "(string \<times> json) list \<Rightarrow> string option"
  en_string :: "rawjson \<Rightarrow> string option"
  en_int :: "rawjson \<Rightarrow> int option"
  en_quote :: "string \<Rightarrow> rawjson"
  en_contextLimit :: "(string \<Rightarrow> snapshot \<Rightarrow> int) option"
  en_provider :: string

record metrics =
  mt_tokensIn :: int
  mt_tokensOut :: int
  mt_cacheRead :: int
  mt_cacheWrite :: int
  mt_messageCount :: int
  mt_turnCount :: int
  mt_metricsLT :: lt
  mt_contextTokens :: int
  mt_contextExact :: bool
  mt_contextLimit :: int
  mt_model :: string
  mt_mantra :: string
  mt_cwd :: string
  mt_loadoutName :: string
  mt_loadoutVer :: string

definition zero_metrics :: metrics where
  "zero_metrics = \<lparr>mt_tokensIn = 0, mt_tokensOut = 0, mt_cacheRead = 0, mt_cacheWrite = 0, mt_messageCount = 0, mt_turnCount = 0,
     mt_metricsLT = 0, mt_contextTokens = 0, mt_contextExact = False, mt_contextLimit = 0, mt_model = [], mt_mantra = [],
     mt_cwd = [], mt_loadoutName = [], mt_loadoutVer = []\<rparr>"

text \<open>An environment for examples: strings stand for their own JSON, no hooks, no limits.\<close>

definition plain_env :: agent_env where
  "plain_env = \<lparr>en_hooks = \<lparr>h_summarize = None, h_previewArg = None, h_sprint = (\<lambda>_. [])\<rparr>, en_marshal = (\<lambda>_. None),
     en_string = Some, en_int = (\<lambda>_. None), en_quote = (\<lambda>s. s), en_contextLimit = None, en_provider = ''p''\<rparr>"

text \<open>What the agent itself fans out, beside the frames of the aria server.\<close>

datatype notification = TurnDone string bool | AriaFrame aria_read

record 'l agent =
  ag_store :: 'l
  ag_chalkboard :: snapshot
  ag_inlineBoot :: "patch option"
  ag_inbox :: inbox
  ag_inTurn :: bool
  ag_interrupted :: bool
  ag_cancelled :: bool
  ag_turnStartLT :: lt
  ag_gov :: "governor option"
  ag_lastEmit :: "int option"
  ag_argPartials :: "(string, string) fmap"
  ag_toolTimings :: "(string, tool_timing) fmap"
  ag_turn :: "turn_state option"
  ag_ariaSrv :: aria_server
  ag_unitLT :: int
  ag_metrics :: metrics
  ag_createdAt :: int
  ag_lastActive :: int
  ag_clock :: int
  ag_sent :: "notification list"
  ag_forks :: "nat list"

subsection \<open>Metrics\<close>

definition snapshotString :: "agent_env \<Rightarrow> snapshot \<Rightarrow> string \<Rightarrow> string" where
  "snapshotString env snap key =
     (case fmlookup snap key of
        None \<Rightarrow> []
      | Some raw \<Rightarrow> (case en_string env raw of Some s \<Rightarrow> s | None \<Rightarrow> []))"

definition snapshotContextLimit :: "agent_env \<Rightarrow> snapshot \<Rightarrow> int" where
  "snapshotContextLimit env snap =
     (case fmlookup snap ''system.max_context_tokens'' of
        None \<Rightarrow> 0
      | Some raw \<Rightarrow> (case en_int env raw of None \<Rightarrow> 0 | Some limit \<Rightarrow> (if limit \<le> 0 then 0 else limit)))"

definition sumUsage :: "message list \<Rightarrow> int \<times> int \<times> int \<times> int" where
  "sumUsage msgs = foldl (\<lambda>(i, out, crd, cw) m.
     case m_usage m of
       None \<Rightarrow> (i, out, crd, cw)
     | Some u \<Rightarrow> (i + InputTokens u, out + OutputTokens u, crd + CacheReadTokens u, cw + CacheWriteTokens u))
     (0, 0, 0, 0) msgs"

definition unwrapMessages :: "message log_entry list \<Rightarrow> message list" where
  "unwrapMessages entries = map stamped entries"

text \<open>The fields both refreshes take from the chalkboard.\<close>

definition board_metrics :: "agent_env \<Rightarrow> snapshot \<Rightarrow> metrics \<Rightarrow> metrics" where
  "board_metrics env snap mt =
     (let model = snapshotString env snap ''system.model'';
          l0 = (case en_contextLimit env of None \<Rightarrow> 0 | Some f \<Rightarrow> f model snap);
          limit = (if l0 = 0 then snapshotContextLimit env snap else l0)
      in mt\<lparr>mt_contextLimit := limit, mt_model := model, mt_mantra := snapshotString env snap ''mantra'',
            mt_cwd := snapshotString env snap ''system.cwd'',
            mt_loadoutName := snapshotString env snap ''system.loadout_name'',
            mt_loadoutVer := snapshotString env snap ''system.loadout_version''\<rparr>)"

definition refreshMetricsFrom :: "agent_env \<Rightarrow> snapshot \<Rightarrow> message list \<Rightarrow> metrics \<Rightarrow> metrics" where
  "refreshMetricsFrom env snap msgs mt =
     (let (i, out, crd, cw) = sumUsage msgs;
          (ctx, exact) = ContextSize (en_marshal env) msgs;
          turns = foldl (\<lambda>n m. if m_role m = RoleAssistant then n + 1 else n) 0 msgs;
          top = foldl (\<lambda>t m. if m_logical_time m > t then m_logical_time m else t) 0 msgs
      in board_metrics env snap
           (mt\<lparr>mt_tokensIn := i, mt_tokensOut := out, mt_cacheRead := crd, mt_cacheWrite := cw,
               mt_messageCount := CountMessages msgs, mt_turnCount := turns, mt_metricsLT := top,
               mt_contextTokens := ctx, mt_contextExact := exact\<rparr>))"

definition metrics_step :: "agent_env \<Rightarrow> metrics \<Rightarrow> message log_entry \<Rightarrow> metrics" where
  "metrics_step env mt e =
     (let m = Payload e;
          mt1 = (case m_usage m of
                   Some u \<Rightarrow> mt\<lparr>mt_tokensIn := mt_tokensIn mt + InputTokens u,
                                mt_tokensOut := mt_tokensOut mt + OutputTokens u,
                                mt_cacheRead := mt_cacheRead mt + CacheReadTokens u,
                                mt_cacheWrite := mt_cacheWrite mt + CacheWriteTokens u,
                                mt_contextTokens := InputTokens u + OutputTokens u,
                                mt_contextExact := True\<rparr>
                 | None \<Rightarrow> mt\<lparr>mt_contextTokens := mt_contextTokens mt + EstimateMessage (en_marshal env) m,
                              mt_contextExact := False\<rparr>);
          mt2 = (if \<not> IsCeremonial m then mt1\<lparr>mt_messageCount := mt_messageCount mt1 + 1\<rparr> else mt1);
          mt3 = (if m_role m = RoleAssistant then mt2\<lparr>mt_turnCount := mt_turnCount mt2 + 1\<rparr> else mt2)
      in mt3\<lparr>mt_metricsLT := LT e\<rparr>)"

definition refresh_metrics :: "'l store_ops \<Rightarrow> agent_env \<Rightarrow> 'l \<Rightarrow> snapshot \<Rightarrow> metrics \<Rightarrow> metrics" where
  "refresh_metrics S env st snap mt =
     (if mt_metricsLT mt > 0 \<and> (case so_peek S st of None \<Rightarrow> True | Some tail \<Rightarrow> LT tail < mt_metricsLT mt)
      then refreshMetricsFrom env snap (unwrapMessages (so_read S st)) mt
      else board_metrics env snap (foldl (metrics_step env) mt (so_readFrom S st (mt_metricsLT mt + 1))))"

definition refreshMetrics :: "'l store_ops \<Rightarrow> agent_env \<Rightarrow> 'l agent \<Rightarrow> 'l agent" where
  "refreshMetrics S env a = a\<lparr>ag_metrics := refresh_metrics S env (ag_store a) (ag_chalkboard a) (ag_metrics a)\<rparr>"

definition sessionMetrics :: "metrics \<Rightarrow> aria_metrics" where
  "sessionMetrics mt =
     \<lparr>am_context_tokens = mt_contextTokens mt, am_context_limit = mt_contextLimit mt, am_context_exact = mt_contextExact mt,
      am_tokens_in = mt_tokensIn mt, am_tokens_out = mt_tokensOut mt, am_cache_read = mt_cacheRead mt,
      am_cache_write = mt_cacheWrite mt, am_mantra = mt_mantra mt\<rparr>"

definition agent_meta :: "agent_env \<Rightarrow> 'l agent \<Rightarrow> aria_meta" where
  "agent_meta env a =
     (let mt = ag_metrics a
      in \<lparr>am_MessageCount = mt_messageCount mt, am_TurnCount = mt_turnCount mt, am_TokensIn = mt_tokensIn mt,
          am_TokensOut = mt_tokensOut mt, am_CacheReadTokens = mt_cacheRead mt, am_CacheWriteTokens = mt_cacheWrite mt,
          am_LastActiveMS = ag_lastActive a, am_LastFigaroLT = mt_metricsLT mt, am_Provider = en_provider env,
          am_Model = mt_model mt, am_Mantra = mt_mantra mt, am_Cwd = mt_cwd mt, am_LoadoutName = mt_loadoutName mt,
          am_LoadoutVersion = mt_loadoutVer mt, am_ContextTokens = mt_contextTokens mt,
          am_ContextLimit = mt_contextLimit mt, am_ContextExact = mt_contextExact mt, am_CreatedAtMS = ag_createdAt a\<rparr>)"

definition publishMetadata :: "'l store_ops \<Rightarrow> agent_env \<Rightarrow> 'l agent \<Rightarrow> 'l agent" where
  "publishMetadata S env a =
     (if \<not> so_backed S then a else a\<lparr>ag_store := so_setMeta S (ag_store a) (agent_meta env a)\<rparr>)"

definition fanOut :: "notification \<Rightarrow> 'l agent \<Rightarrow> 'l agent" where
  "fanOut n a = a\<lparr>ag_sent := ag_sent a @ [n]\<rparr>"

subsection \<open>The chalkboard of the agent\<close>

definition chalkboardString :: "agent_env \<Rightarrow> 'l agent \<Rightarrow> string \<Rightarrow> string" where
  "chalkboardString env a key = snapshotString env (ag_chalkboard a) key"

definition withoutSystemNS :: "snapshot \<Rightarrow> snapshot" where
  "withoutSystemNS s = fmfilter (\<lambda>k. \<not> has_prefix k ''system.'') s"

definition additivePatch :: "snapshot \<Rightarrow> snapshot \<Rightarrow> patch" where
  "additivePatch ctx snap = \<lparr>p_set = fmfilter (\<lambda>k. \<not> (fmlookup snap k \<noteq> None \<and> fmlookup snap k = fmlookup ctx k)) ctx, p_remove = []\<rparr>"

definition combineChalkboardInput :: "snapshot \<Rightarrow> chalkboard_input option \<Rightarrow> patch" where
  "combineChalkboardInput snap input =
     (case input of
        None \<Rightarrow> zero_patch
      | Some ci \<Rightarrow>
          (let clientPatch = (case ci_patch ci of Some p \<Rightarrow> p | None \<Rightarrow> zero_patch);
               ctxPatch = (case ci_context ci of
                             Some ctx \<Rightarrow> additivePatch (withoutSystemNS ctx) snap
                           | None \<Rightarrow> zero_patch)
           in if \<not> patch_IsEmpty ctxPatch \<and> \<not> patch_IsEmpty clientPatch then Merge ctxPatch clientPatch
              else if \<not> patch_IsEmpty ctxPatch then ctxPatch
              else if \<not> patch_IsEmpty clientPatch then clientPatch
              else zero_patch))"

text \<open>\<open>Set\<close>: the patch is queued for the actor; the keys set and removed are returned.\<close>

definition agent_Set :: "'l agent \<Rightarrow> patch \<Rightarrow> (string list \<times> string list) \<times> 'l agent" where
  "agent_Set a p =
     (if patch_IsEmpty p then (([], []), a)
      else ((fmkeys (p_set p), p_remove p),
            a\<lparr>ag_inbox := snd (ib_Send (ag_inbox a)
              \<lparr>ev_typ = EventSet, ev_text = [], ev_chalkboard = None, ev_setPatch = p, ev_fork = 0\<rparr>)\<rparr>))"

text \<open>\<open>load\<close> is the outfitter: the loadout's patch, or an error.\<close>

definition ApplyLoadout :: "(string \<Rightarrow> string + patch) option \<Rightarrow> 'l agent \<Rightarrow> string \<Rightarrow> (string + string list) \<times> 'l agent" where
  "ApplyLoadout outfitter a name =
     (case outfitter of
        None \<Rightarrow> (Inl ''loadout requires an outfitter'', a)
      | Some load \<Rightarrow>
          (if name = [] then (Inl ''loadout name required'', a)
           else case load name of
                  Inl err \<Rightarrow> (Inl err, a)
                | Inr loaded \<Rightarrow>
                    (if patch_IsEmpty loaded then (Inr [], a)
                     else let additive = additivePatch (p_set loaded) (ag_chalkboard a)
                          in if fcard (fmdom (p_set additive)) = 0 then (Inr [], a)
                             else let ((st, _), a') = agent_Set a additive in (Inr st, a'))))"

text \<open>\<open>string(r[:n])\<close> re-encodes the runes, so a byte that is no rune becomes U+FFFD; the ellipsis is U+2026.\<close>

definition ellipsis :: string where
  "ellipsis = [CHR 0xE2, CHR 0x80, CHR 0xA6]"

definition firstChars :: "string \<Rightarrow> nat \<Rightarrow> string" where
  "firstChars s n =
     (let s1 = trim_space (map (\<lambda>c. if c = nl then CHR '' '' else c) s);
          r = runes s1
      in if length r \<le> n then s1 else trim_space (concat (take n r)) @ ellipsis)"

subsection \<open>Live emission\<close>

definition emitSnapshot :: "string \<Rightarrow> node list \<Rightarrow> 'l agent \<Rightarrow> 'l agent" where
  "emitSnapshot role nodes a =
     (let u = ag_unitLT a + 1;
          srv = sv_Open (ag_ariaSrv a) u role
      in a\<lparr>ag_unitLT := u, ag_ariaSrv := (if length nodes > 0 then sv_Update srv nodes else srv)\<rparr>)"

definition emitDelta :: "node list \<Rightarrow> 'l agent \<Rightarrow> 'l agent" where
  "emitDelta nodes a = a\<lparr>ag_ariaSrv := sv_Update (ag_ariaSrv a) nodes\<rparr>"

definition emitCommit :: "'l agent \<Rightarrow> 'l agent" where
  "emitCommit a = a\<lparr>ag_ariaSrv := sv_Close (ag_ariaSrv a)\<rparr>"

definition abandonLive :: "'l agent \<Rightarrow> 'l agent" where
  "abandonLive a = a\<lparr>ag_ariaSrv := sv_Abandon (ag_ariaSrv a)\<rparr>"

definition live_nodes :: "'l store_ops \<Rightarrow> agent_env \<Rightarrow> 'l agent \<Rightarrow> message option \<Rightarrow> node list" where
  "live_nodes S env a inflight =
     composeTurn (en_hooks env)
       \<lparr>ti_partials = (case ag_gov a of Some g \<Rightarrow> gv_Tails g | None \<Rightarrow> fmempty),
        ti_argPartials = ag_argPartials a, ti_timings = ag_toolTimings a\<rparr>
       (ag_turnStartLT a) (so_readFrom S (ag_store a) (ag_turnStartLT a + 1)) inflight"

definition liveEmitInterval :: int where
  "liveEmitInterval = 90"

definition emitLive :: "'l store_ops \<Rightarrow> agent_env \<Rightarrow> message option \<Rightarrow> bool \<Rightarrow> 'l agent \<Rightarrow> 'l agent" where
  "emitLive S env inflight force a =
     (if ag_interrupted a then a
      else if \<not> force \<and> (case ag_lastEmit a of Some t \<Rightarrow> ag_clock a - t < liveEmitInterval | None \<Rightarrow> False) then a
      else emitDelta (live_nodes S env a inflight) (a\<lparr>ag_lastEmit := Some (ag_clock a)\<rparr>))"

definition startAssistantUnit :: "'l store_ops \<Rightarrow> 'l agent \<Rightarrow> 'l agent" where
  "startAssistantUnit S a =
     emitSnapshot ''assistant'' []
       (a\<lparr>ag_turnStartLT := (case so_peek S (ag_store a) of Some tail \<Rightarrow> FigaroLT tail | None \<Rightarrow> 0),
          ag_gov := Some (gv_New (int liveOutputTail)), ag_lastEmit := None, ag_argPartials := fmempty,
          ag_toolTimings := fmempty, ag_turn := Some newTurnState\<rparr>)"

subsection \<open>The end of a turn\<close>

definition finishTurn :: "'l store_ops \<Rightarrow> agent_env \<Rightarrow> string \<Rightarrow> 'l agent \<Rightarrow> 'l agent" where
  "finishTurn S env reason a =
     publishMetadata S env (fanOut (TurnDone reason (IsIdle (ag_inbox a))) (a\<lparr>ag_lastActive := ag_clock a\<rparr>))"

definition endTurn :: "'l store_ops \<Rightarrow> agent_env \<Rightarrow> string \<Rightarrow> 'l agent \<Rightarrow> 'l agent" where
  "endTurn S env reason a = finishTurn S env reason (emitCommit (refreshMetrics S env a))"

definition endTurnDiscarding :: "'l store_ops \<Rightarrow> agent_env \<Rightarrow> string \<Rightarrow> 'l agent \<Rightarrow> 'l agent" where
  "endTurnDiscarding S env reason a = finishTurn S env reason (abandonLive (refreshMetrics S env a))"

definition history_of :: "unit_rec list \<Rightarrow> aria_msg list" where
  "history_of units = map (\<lambda>(i, u). \<lparr>msg_lt = int i + 1, msg_role = u_role u, msg_nodes = Some (u_nodes u)\<rparr>) (enumerate 0 units)"

definition reconcileAriaServer :: "'l store_ops \<Rightarrow> agent_env \<Rightarrow> 'l agent \<Rightarrow> 'l agent" where
  "reconcileAriaServer S env a =
     (let oldCommitted = LastCommittedLT (ag_ariaSrv a);
          hadOpen = HasOpen (ag_ariaSrv a);
          history = history_of (Units (en_hooks env) (unwrapMessages (so_read S (ag_store a))));
          a1 = a\<lparr>ag_ariaSrv := sv_Restore (ag_ariaSrv a) history, ag_unitLT := int (length history)\<rparr>;
          mt = Some (sessionMetrics (ag_metrics a));
          a2 = fold (\<lambda>m. fanOut (AriaFrame (zero_read\<lparr>ar_committed := [committed_of m], ar_metrics := mt\<rparr>)))
                 (filter (\<lambda>m. \<not> msg_lt m \<le> oldCommitted) history) a1
      in if hadOpen \<and> int (length history) \<le> oldCommitted
         then fanOut (AriaFrame (zero_read\<lparr>ar_live := Some \<lparr>l_lt = ag_unitLT a2 + 1, l_v = 0, l_role = ''assistant'', l_nodes = []\<rparr>,
                       ar_metrics := mt\<rparr>)) (a2\<lparr>ag_unitLT := ag_unitLT a2 + 1\<rparr>)
         else a2)"

subsection \<open>The contract of the store\<close>

text \<open>
  What the agent relies on: an append adds one row with the next time, the reads agree with the
  rows, and the other calls leave the rows alone. A call that fails leaves the store as it was.
\<close>

definition rows_timed :: "message log_entry list \<Rightarrow> bool" where
  "rows_timed rows \<longleftrightarrow> sorted_wrt (<) (map LT rows) \<and> (\<forall>e \<in> set rows. FigaroLT e = LT e \<and> LT e > 0)"

locale agent_store =
  fixes S :: "'l store_ops" and st_inv :: "'l \<Rightarrow> bool"
  assumes append_inv: "st_inv s \<Longrightarrow> so_append S s (new_entry m) = Inr (e, s') \<Longrightarrow> st_inv s'"
    and append_read: "st_inv s \<Longrightarrow> so_append S s (new_entry m) = Inr (e, s') \<Longrightarrow> so_read S s' = so_read S s @ [e]"
    and append_payload: "st_inv s \<Longrightarrow> so_append S s (new_entry m) = Inr (e, s') \<Longrightarrow> Payload e = m"
    and peek_read: "st_inv s \<Longrightarrow> so_peek S s = (if so_read S s = [] then None else Some (last (so_read S s)))"
    and readFrom_read: "st_inv s \<Longrightarrow> so_readFrom S s k = filter (\<lambda>e. k \<le> FigaroLT e) (so_read S s)"
    and timed: "st_inv s \<Longrightarrow> rows_timed (so_read S s)"
    and chalk_rows: "st_inv s \<Longrightarrow> so_applyChalkboard S s p = Inr s' \<Longrightarrow> st_inv s' \<and> so_read S s' = so_read S s"
    and cache_rows: "st_inv s \<Longrightarrow> so_cacheAppend S s k c = Inr s' \<Longrightarrow> st_inv s' \<and> so_read S s' = so_read S s"
    and meta_rows: "st_inv s \<Longrightarrow> st_inv (so_setMeta S s mm) \<and> so_read S (so_setMeta S s mm) = so_read S s"

definition metrics_ok :: "agent_env \<Rightarrow> message list \<Rightarrow> metrics \<Rightarrow> bool" where
  "metrics_ok env msgs mt \<longleftrightarrow>
     (mt_tokensIn mt, mt_tokensOut mt, mt_cacheRead mt, mt_cacheWrite mt) = sumUsage msgs
     \<and> (mt_contextTokens mt, mt_contextExact mt) = ContextSize (en_marshal env) msgs
     \<and> mt_messageCount mt = CountMessages msgs
     \<and> mt_turnCount mt = foldl (\<lambda>n m. if m_role m = RoleAssistant then n + 1 else n) 0 msgs
     \<and> mt_metricsLT mt = foldl (\<lambda>t m. if m_logical_time m > t then m_logical_time m else t) 0 msgs"

lemma metrics_ok_From: "metrics_ok env msgs (refreshMetricsFrom env snap msgs mt)"
  by (simp add: metrics_ok_def refreshMetricsFrom_def board_metrics_def Let_def split: prod.split)

lemma metrics_ok_determines:
  assumes "metrics_ok env msgs mt"
  shows "board_metrics env snap mt = refreshMetricsFrom env snap msgs mt'"
proof -
  have "sumUsage msgs = (mt_tokensIn mt, mt_tokensOut mt, mt_cacheRead mt, mt_cacheWrite mt)"
    "ContextSize (en_marshal env) msgs = (mt_contextTokens mt, mt_contextExact mt)"
    using assms by (simp_all add: metrics_ok_def)
  with assms show ?thesis
    by (cases mt) (simp add: metrics_ok_def refreshMetricsFrom_def board_metrics_def Let_def)
qed

lemma stamped_simps [simp]:
  "m_usage (stamped e) = m_usage (Payload e)" "m_role (stamped e) = m_role (Payload e)"
  "m_logical_time (stamped e) = LT e" "m_content (stamped e) = m_content (Payload e)"
  "IsCeremonial (stamped e) = IsCeremonial (Payload e)"
  "EstimateMessage marshal (stamped e) = EstimateMessage marshal (Payload e)"
  by (simp_all add: stamped_def IsCeremonial_def IsGenesis_def EstimateMessage_def)

lemma sumUsage_snoc:
  "sumUsage (ms @ [m]) = (case sumUsage ms of (i, out, crd, cw) \<Rightarrow>
     (case m_usage m of None \<Rightarrow> (i, out, crd, cw)
      | Some u \<Rightarrow> (i + InputTokens u, out + OutputTokens u, crd + CacheReadTokens u, cw + CacheWriteTokens u)))"
  by (simp add: sumUsage_def split: prod.split)

lemma metrics_step_simps:
  "mt_messageCount (metrics_step env mt e) = mt_messageCount mt + (if IsCeremonial (Payload e) then 0 else 1)"
  "mt_turnCount (metrics_step env mt e) = (if m_role (Payload e) = RoleAssistant then mt_turnCount mt + 1 else mt_turnCount mt)"
  "mt_metricsLT (metrics_step env mt e) = LT e"
  by (simp_all add: metrics_step_def Let_def split: option.split)

lemma metrics_ok_step:
  assumes "metrics_ok env (unwrapMessages es) mt" and "mt_metricsLT mt < LT e"
  shows "metrics_ok env (unwrapMessages (es @ [e])) (metrics_step env mt e)"
proof -
  let ?ms = "unwrapMessages es"
  note ok = assms(1) [unfolded metrics_ok_def]
  have "(mt_tokensIn (metrics_step env mt e), mt_tokensOut (metrics_step env mt e), mt_cacheRead (metrics_step env mt e),
      mt_cacheWrite (metrics_step env mt e)) = sumUsage (?ms @ [stamped e])"
    using ok unfolding sumUsage_snoc
    by (cases "sumUsage ?ms") (simp add: metrics_step_def Let_def split: option.split)
  moreover have "(mt_contextTokens (metrics_step env mt e), mt_contextExact (metrics_step env mt e))
      = ContextSize (en_marshal env) (?ms @ [stamped e])"
  proof (cases "m_usage (Payload e)")
    case None
    moreover have "fst (ContextSize (en_marshal env) ?ms) = mt_contextTokens mt" using ok by (metis fst_conv)
    ultimately show ?thesis
      using ContextSize_snoc(1) [of "stamped e" "en_marshal env" ?ms] by (simp add: metrics_step_def Let_def)
  next
    case (Some u)
    then show ?thesis
      using ContextSize_snoc(2) [of "stamped e" u "en_marshal env" ?ms] by (simp add: metrics_step_def Let_def)
  qed
  moreover have "mt_messageCount (metrics_step env mt e) = CountMessages (?ms @ [stamped e])"
    using ok by (simp add: metrics_step_simps CountMessages_append) (simp add: CountMessages_eq)
  ultimately show ?thesis
    using ok assms(2) by (simp add: metrics_ok_def unwrapMessages_def metrics_step_simps)
qed

lemma metrics_ok_steps:
  assumes "metrics_ok env (unwrapMessages es) mt" and "sorted_wrt (<) (map LT new)" and "\<forall>e \<in> set new. mt_metricsLT mt < LT e"
  shows "metrics_ok env (unwrapMessages (es @ new)) (foldl (metrics_step env) mt new)"
  using assms
proof (induction new arbitrary: es mt)
  case (Cons e new)
  have "metrics_ok env (unwrapMessages (es @ [e])) (metrics_step env mt e)" using Cons.prems by (intro metrics_ok_step) simp_all
  from Cons.IH [OF this] Cons.prems show ?case by (auto simp: metrics_step_simps)
qed simp

lemma top_time:
  assumes "rows_timed rows"
  shows "foldl (\<lambda>t m. if m_logical_time m > t then m_logical_time m else t) 0 (unwrapMessages rows)
    = (if rows = [] then 0 else LT (last rows))"
  using assms
proof (induction rows rule: rev_induct)
  case (snoc e rows)
  then have "rows_timed rows" by (auto simp: rows_timed_def sorted_wrt_append)
  moreover have "rows \<noteq> [] \<Longrightarrow> LT (last rows) < LT e"
    using snoc.prems by (auto simp: rows_timed_def sorted_wrt_append)
  moreover have "0 < LT e" using snoc.prems by (simp add: rows_timed_def)
  ultimately show ?case using snoc.IH by (simp add: unwrapMessages_def)
qed (simp add: unwrapMessages_def)

context agent_store
begin

lemma refresh_exact:
  assumes "st_inv st" and "rows_timed (so_read S st)"
    and "so_read S st = old @ new" and "metrics_ok env (unwrapMessages old) mt"
  shows "refresh_metrics S env st snap mt = refreshMetricsFrom env snap (unwrapMessages (so_read S st)) mt"
proof -
  have told: "rows_timed old" and inc: "\<forall>x \<in> set old. \<forall>y \<in> set new. LT x < LT y" and tnew: "sorted_wrt (<) (map LT new)"
    using assms(2,3) by (auto simp: rows_timed_def sorted_wrt_append)
  have top: "mt_metricsLT mt = (if old = [] then 0 else LT (last old))"
    using assms(4) top_time [OF told] by (simp add: metrics_ok_def)
  have pos: "\<forall>y \<in> set new. mt_metricsLT mt < LT y"
    using inc assms(2,3) by (auto simp: top rows_timed_def)
  have below: "\<forall>x \<in> set old. LT x \<le> mt_metricsLT mt"
  proof
    fix x assume "x \<in> set old"
    then have "old = butlast old @ [last old]" by (cases old) auto
    then have "x = last old \<or> x \<in> set (butlast old)" using \<open>x \<in> set old\<close> by (metis Un_iff empty_iff set_append set_ConsD empty_set)
    moreover have "sorted_wrt (<) (map LT (butlast old @ [last old]))"
      using told \<open>old = butlast old @ [last old]\<close> by (simp add: rows_timed_def)
    ultimately have "LT x \<le> LT (last old)" by (auto simp: sorted_wrt_append)
    then show "LT x \<le> mt_metricsLT mt" using \<open>x \<in> set old\<close> by (auto simp: top)
  qed
  have win: "so_readFrom S st (mt_metricsLT mt + 1) = new"
    using readFrom_read [OF assms(1)] assms(2,3) below pos by (auto simp: rows_timed_def filter_empty_conv filter_id_conv Suc_le_eq)
  have "\<not> (mt_metricsLT mt > 0 \<and> (case so_peek S st of None \<Rightarrow> True | Some tail \<Rightarrow> LT tail < mt_metricsLT mt))"
    using pos last_in_set [of new]
    by (cases "new = []") (simp_all add: peek_read [OF assms(1)] assms(3) top last_append not_less order_less_imp_le)
  then have "refresh_metrics S env st snap mt = board_metrics env snap (foldl (metrics_step env) mt new)"
    unfolding refresh_metrics_def win by (rule if_not_P)
  also have "\<dots> = refreshMetricsFrom env snap (unwrapMessages (old @ new)) mt"
    by (rule metrics_ok_determines [OF metrics_ok_steps [OF assms(4) tnew pos]])
  finally show ?thesis by (simp add: assms(3))
qed

end

text \<open>The store of an ephemeral agent is a \<open>MemLog\<close>; the backend calls are never reached.\<close>

definition mem_ops :: "message mem_log store_ops" where
  "mem_ops = \<lparr>so_read = ml_Read, so_append = ml_Append, so_peek = ml_PeekTail,
     so_readFrom = (\<lambda>s k. case ml_ReadFrom s k 0 of Inr es \<Rightarrow> es | Inl _ \<Rightarrow> []),
     so_backed = False, so_applyChalkboard = (\<lambda>s _. Inr s), so_cacheAppend = (\<lambda>s _ _. Inr s), so_setMeta = (\<lambda>s _. s)\<rparr>"

definition mem_inv :: "message mem_log \<Rightarrow> bool" where
  "mem_inv s \<longleftrightarrow> ml_wf s \<and> (\<forall>e \<in> set (ml_entries s). FigaroLT e = LT e)"

lemma mem_inv_new [wf_intros]: "mem_inv NewMemLog"
  by (simp add: mem_inv_def wf_intros) (simp add: NewMemLog_def)

lemma mem_inv_append [wf_intros]: "mem_inv s \<Longrightarrow> mem_inv (snd (ml_appendLocked s (new_entry m)))"
  by (auto simp: mem_inv_def wf_intros) (auto simp: ml_appendLocked_def Let_def new_entry_def)

lemma mem_rows_timed: "mem_inv s \<Longrightarrow> rows_timed (ml_entries s)"
proof -
  assume "mem_inv s"
  then have "map LT (ml_entries s) = [1..<length (ml_entries s) + 1]" and fk: "\<forall>e \<in> set (ml_entries s). FigaroLT e = LT e"
    by (simp_all add: mem_inv_def ml_wf_def)
  moreover from this(1) have "\<forall>t \<in> set (map LT (ml_entries s)). 0 < t" by (metis atLeastLessThan_iff set_upt zero_less_one order_less_le_trans)
  then have "\<forall>e \<in> set (ml_entries s). 0 < LT e" by simp
  ultimately show "rows_timed (ml_entries s)" by (simp add: rows_timed_def del: upt_Suc)
qed

lemma readFrom_all:
  assumes "sorted (map FigaroLT rows)"
  shows "readFrom rows k 0 = Inr (filter (\<lambda>e. k \<le> FigaroLT e) rows)"
proof -
  let ?i = "sort_search (length rows) (\<lambda>i. k \<le> FigaroLT (rows ! i))"
  have "?i \<le> length rows" by (rule sort_search_le)
  moreover have "drop ?i rows = filter (\<lambda>e. k \<le> FigaroLT e) rows" by (rule sort_search_sorted(2) [OF assms])
  moreover from this have "length (filter (\<lambda>e. k \<le> FigaroLT e) rows) = length rows - ?i" by (metis length_drop)
  ultimately show ?thesis by (simp add: readFrom_def slice_from_def Let_def)
qed

lemma mem_last_time: "mem_inv s \<Longrightarrow> (if ml_entries s = [] then 0 else LT (last (ml_entries s))) = length (ml_entries s)"
proof -
  assume "mem_inv s"
  then have "map LT (ml_entries s) = [1..<length (ml_entries s) + 1]" by (simp add: mem_inv_def ml_wf_def)
  then have "ml_entries s \<noteq> [] \<Longrightarrow> LT (last (ml_entries s)) = last [1..<length (ml_entries s) + 1]"
    by (metis last_map)
  then show ?thesis by (auto simp: Suc_le_eq)
qed

interpretation ephemeral: agent_store mem_ops mem_inv
proof
  fix s :: "message mem_log" and m e s' k
  assume i: "mem_inv s"
  { assume "so_append mem_ops s (new_entry m) = Inr (e, s')"
    then have eq: "e = fst (ml_appendLocked s (new_entry m))" "s' = snd (ml_appendLocked s (new_entry m))"
      by (simp_all add: mem_ops_def ml_Append_def prod_eq_iff)
    show "mem_inv s'" using i by (simp add: eq wf_intros)
    show "so_read mem_ops s' = so_read mem_ops s @ [e]" by (simp add: eq mem_ops_def ml_Read_def ml_append_read)
    show "Payload e = m" by (simp add: eq ml_append_payload new_entry_def) }
  show "so_peek mem_ops s = (if so_read mem_ops s = [] then None else Some (last (so_read mem_ops s)))"
    by (simp add: mem_ops_def ml_PeekTail_def ml_Read_def last_conv_nth)
  have timed: "rows_timed (ml_entries s)" by (rule mem_rows_timed [OF i])
  then show "rows_timed (so_read mem_ops s)" by (simp add: mem_ops_def ml_Read_def)
  have "map FigaroLT (ml_entries s) = map LT (ml_entries s)" using timed by (simp add: rows_timed_def)
  then have "sorted (map FigaroLT (ml_entries s))"
    using timed unfolding rows_timed_def strict_sorted_iff by metis
  then show "so_readFrom mem_ops s k = filter (\<lambda>e. k \<le> FigaroLT e) (so_read mem_ops s)"
    by (simp add: mem_ops_def ml_ReadFrom_def ml_Read_def readFrom_all)
qed (auto simp: mem_ops_def)

subsection \<open>Properties\<close>



end
