(* ===== verification/Agent_Prompt.thy ===== *)
theory Agent_Prompt
  imports Agent_State
begin

section \<open>Prompts, steering and control messages (\<open>internal/figaro\<close>: \<open>turn.go\<close>, \<open>agent.go\<close>)\<close>

text \<open>
  How a queued event becomes log entries: the user prompt that opens a turn, the prompts that steer
  a running turn between two provider rounds, the control patches and the forks. A fork is the
  caller's closure, so executing one is recorded by its ticket in \<open>ag_forks\<close>. Within one operation
  no other goroutine enqueues; arrivals happen between operations.
\<close>

definition serviceForks :: "'l agent \<Rightarrow> 'l agent" where
  "serviceForks a =
     (let (forks, ib) = TakeReadyForks (ag_inbox a)
      in a\<lparr>ag_inbox := ib, ag_forks := ag_forks a @ map ev_fork forks\<rparr>)"

definition executeFork :: "event \<Rightarrow> 'l agent \<Rightarrow> 'l agent" where
  "executeFork evt a = a\<lparr>ag_forks := ag_forks a @ [ev_fork evt]\<rparr>"

text \<open>The patch a prompt carries, with the seeded mantra.\<close>

definition prompt_patch :: "agent_env \<Rightarrow> 'l agent \<Rightarrow> event \<Rightarrow> patch" where
  "prompt_patch env a prompt =
     (let combined = (case ev_chalkboard prompt of
                        Some ci \<Rightarrow> combineChalkboardInput (ag_chalkboard a) (Some ci)
                      | None \<Rightarrow> zero_patch)
      in if ev_text prompt \<noteq> [] \<and> chalkboardString env a ''mantra'' = []
         then combined\<lparr>p_set := fmupd ''mantra'' (en_quote env (firstChars (ev_text prompt) 60)) (p_set combined)\<rparr>
         else combined)"

text \<open>The patch is written to the channel of a backed aria (a failure is only logged) or rides inline.\<close>

definition apply_prompt_patch :: "'l store_ops \<Rightarrow> patch \<Rightarrow> 'l agent \<Rightarrow> 'l agent \<times> patch list" where
  "apply_prompt_patch S combined a =
     (if patch_IsEmpty combined then (a, [])
      else let (st, inline) =
                 (if so_backed S
                  then (case so_applyChalkboard S (ag_store a) combined of Inl _ \<Rightarrow> ag_store a | Inr st \<Rightarrow> st, [])
                  else (ag_store a, [combined]))
           in (a\<lparr>ag_store := st, ag_chalkboard := snap_Apply (ag_chalkboard a) combined\<rparr>, inline))"

definition take_inline_boot :: "'l store_ops \<Rightarrow> bool \<Rightarrow> 'l agent \<Rightarrow> 'l agent \<times> patch list" where
  "take_inline_boot S allowInlineBoot a =
     (case ag_inlineBoot a of
        Some boot \<Rightarrow>
          (if allowInlineBoot \<and> \<not> so_backed S \<and> length (so_read S (ag_store a)) = 0
           then (a\<lparr>ag_inlineBoot := None\<rparr>, if \<not> patch_IsEmpty boot then [boot] else [])
           else (a, []))
      | None \<Rightarrow> (a, []))"

definition prompt_message :: "int \<Rightarrow> string \<Rightarrow> patch list \<Rightarrow> message" where
  "prompt_message now txt patches =
     zero_message\<lparr>m_role := RoleUser, m_timestamp := now, m_patches := patches,
       m_content := (if txt \<noteq> [] then [TextContent txt] else [])\<rparr>"

definition appendUserPrompt ::
  "'l store_ops \<Rightarrow> agent_env \<Rightarrow> 'l agent \<Rightarrow> event \<Rightarrow> bool \<Rightarrow> (string + message log_entry) \<times> 'l agent" where
  "appendUserPrompt S env a prompt allowInlineBoot =
     (let (a1, ps1) = apply_prompt_patch S (prompt_patch env a prompt) a;
          (a2, ps2) = take_inline_boot S allowInlineBoot a1
      in case so_append S (ag_store a2) (new_entry (prompt_message (ag_clock a2) (ev_text prompt) (ps1 @ ps2))) of
           Inl err \<Rightarrow> (Inl err, a2)
         | Inr (e, st) \<Rightarrow>
             (let a3 = refreshMetrics S env (a2\<lparr>ag_store := st\<rparr>)
              in (Inr e, if ev_text prompt \<noteq> []
                         then emitCommit (emitSnapshot ''user'' [zero_node\<lparr>n_type := NodeProse, n_markdown := ev_text prompt\<rparr>] a3)
                         else a3)))"

text \<open>
  On a failed append the prompt that failed goes back to the head of the inbox without its
  chalkboard input, followed by those not tried.
\<close>

fun appendPromptEvents :: "'l store_ops \<Rightarrow> agent_env \<Rightarrow> 'l agent \<Rightarrow> event list \<Rightarrow> string option \<times> 'l agent" where
  "appendPromptEvents S env a [] = (None, a)"
| "appendPromptEvents S env a (p # ps) =
     (case appendUserPrompt S env a p False of
        (Inl err, a1) \<Rightarrow>
          (let (ok, ib) = ib_Prepend (ag_inbox a1) (p\<lparr>ev_chalkboard := None\<rparr> # ps)
           in (Some (if ok then err else err @ ''; inbox closed while restoring prompts''), a1\<lparr>ag_inbox := ib\<rparr>))
      | (Inr _, a1) \<Rightarrow> appendPromptEvents S env a1 ps)"

fun hasRenderablePrompt :: "event list \<Rightarrow> bool" where
  "hasRenderablePrompt [] = False"
| "hasRenderablePrompt (p # ps) = (if ev_text p \<noteq> [] then True else hasRenderablePrompt ps)"

definition appendSteeringPrompts :: "'l store_ops \<Rightarrow> agent_env \<Rightarrow> 'l agent \<Rightarrow> string option \<times> 'l agent" where
  "appendSteeringPrompts S env a =
     (let (prompts, ib) = TakeReadyUserPrompts (ag_inbox a);
          a1 = a\<lparr>ag_inbox := ib\<rparr>
      in if length prompts = 0 then (None, a1)
         else let split = hasRenderablePrompt prompts;
                  a2 = (if split then emitCommit a1 else a1)
              in case appendPromptEvents S env a2 prompts of
                   (Some err, a3) \<Rightarrow> (Some err, a3)
                 | (None, a3) \<Rightarrow> (None, if split then startAssistantUnit S a3 else a3))"

subsection \<open>What the operations keep\<close>

lemma refreshMetrics_keeps [simp]:
  "ag_store (refreshMetrics S env a) = ag_store a" "ag_inbox (refreshMetrics S env a) = ag_inbox a"
  "ag_chalkboard (refreshMetrics S env a) = ag_chalkboard a" "ag_turn (refreshMetrics S env a) = ag_turn a"
  "ag_interrupted (refreshMetrics S env a) = ag_interrupted a" "ag_clock (refreshMetrics S env a) = ag_clock a"
  "ag_forks (refreshMetrics S env a) = ag_forks a"
  by (simp_all add: refreshMetrics_def)

lemma emit_keeps [simp]:
  "ag_store (emitSnapshot r ns a) = ag_store a" "ag_inbox (emitSnapshot r ns a) = ag_inbox a" "ag_turn (emitSnapshot r ns a) = ag_turn a"
  "ag_chalkboard (emitSnapshot r ns a) = ag_chalkboard a" "ag_interrupted (emitSnapshot r ns a) = ag_interrupted a"
  "ag_store (emitCommit a) = ag_store a" "ag_inbox (emitCommit a) = ag_inbox a" "ag_turn (emitCommit a) = ag_turn a"
  "ag_chalkboard (emitCommit a) = ag_chalkboard a" "ag_interrupted (emitCommit a) = ag_interrupted a"
  "ag_store (abandonLive a) = ag_store a" "ag_inbox (abandonLive a) = ag_inbox a" "ag_turn (abandonLive a) = ag_turn a"
  "ag_store (emitDelta ns a) = ag_store a" "ag_inbox (emitDelta ns a) = ag_inbox a" "ag_turn (emitDelta ns a) = ag_turn a"
  "ag_interrupted (emitDelta ns a) = ag_interrupted a" "ag_clock (emitDelta ns a) = ag_clock a"
  by (simp_all add: emitSnapshot_def emitCommit_def abandonLive_def emitDelta_def Let_def)

lemma emitLive_keeps [simp]:
  "ag_store (emitLive S env i f a) = ag_store a" "ag_inbox (emitLive S env i f a) = ag_inbox a" "ag_turn (emitLive S env i f a) = ag_turn a"
  "ag_interrupted (emitLive S env i f a) = ag_interrupted a" "ag_clock (emitLive S env i f a) = ag_clock a"
  by (simp_all add: emitLive_def)

lemma startAssistantUnit_keeps [simp]:
  "ag_store (startAssistantUnit S a) = ag_store a" "ag_inbox (startAssistantUnit S a) = ag_inbox a"
  "ag_turn (startAssistantUnit S a) = Some newTurnState"
  by (simp_all add: startAssistantUnit_def)

lemma serviceForks_keeps [simp]:
  "ag_store (serviceForks a) = ag_store a" "ag_turn (serviceForks a) = ag_turn a" "ag_interrupted (serviceForks a) = ag_interrupted a"
  by (simp_all add: serviceForks_def split_beta Let_def)

lemma prompt_patch_parts [simp]:
  "ag_inbox (fst (apply_prompt_patch S p a)) = ag_inbox a" "ag_turn (fst (apply_prompt_patch S p a)) = ag_turn a"
  "ag_clock (fst (apply_prompt_patch S p a)) = ag_clock a"
  "ag_inbox (fst (take_inline_boot S b a)) = ag_inbox a" "ag_turn (fst (take_inline_boot S b a)) = ag_turn a"
  "ag_clock (fst (take_inline_boot S b a)) = ag_clock a" "ag_store (fst (take_inline_boot S b a)) = ag_store a"
  "ag_chalkboard (fst (take_inline_boot S b a)) = ag_chalkboard a"
  by (simp_all add: apply_prompt_patch_def take_inline_boot_def Let_def split: option.split sum.split)

lemma appendUserPrompt_keeps [simp]:
  "ag_inbox (snd (appendUserPrompt S env a p b)) = ag_inbox a" "ag_turn (snd (appendUserPrompt S env a p b)) = ag_turn a"
  by (simp_all add: appendUserPrompt_def split_beta Let_def split: sum.split)

lemma appendPromptEvents_ok:
  "appendPromptEvents S env a ps = (None, a') \<Longrightarrow> ag_inbox a' = ag_inbox a"
  by (induction ps arbitrary: a) (auto simp: split_beta Let_def split: sum.splits)

lemma TakeReady_shorter:
  assumes "TakeReadyUserPrompts b = (ps, b')" and "ps \<noteq> []"
  shows "length (ib_queue b') < length (ib_queue b)"
  using assms by (cases "ib_queue b") (auto simp: TakeReadyUserPrompts_def Let_def split: if_splits)

lemma serviceForks_queue: "length (ib_queue (ag_inbox (serviceForks a))) \<le> length (ib_queue (ag_inbox a))"
  by (simp add: serviceForks_def TakeReadyForks_def Let_def)

text \<open>The loop runs until no prompt is at the head of the inbox; each pass takes at least one.\<close>

function prepareProviderRound :: "'l store_ops \<Rightarrow> agent_env \<Rightarrow> 'l agent \<Rightarrow> string option \<times> 'l agent" where
  "prepareProviderRound S env a =
     (let a0 = serviceForks a;
          (prompts, ib) = TakeReadyUserPrompts (ag_inbox a0);
          a1 = a0\<lparr>ag_inbox := ib\<rparr>
      in if length prompts = 0 then (None, a1)
         else let split = hasRenderablePrompt prompts;
                  a2 = (if split then (if length (live_nodes S env a1 None) = 0 then abandonLive a1 else emitCommit a1) else a1);
                  r = appendPromptEvents S env a2 prompts
              in if fst r \<noteq> None then r
                 else prepareProviderRound S env (if split then startAssistantUnit S (snd r) else snd r))"
  by pat_completeness auto
termination
proof (relation "measure (\<lambda>(S, env, a). length (ib_queue (ag_inbox a)))", goal_cases)
  case (2 S env a a0 tk ps ib a1 split a2 r)
  have "ag_inbox a2 = ib" using 2 by auto
  moreover have "ag_inbox (snd r) = ag_inbox a2" using 2 appendPromptEvents_ok [of S env a2 ps] by (metis prod.collapse)
  moreover have "length (ib_queue ib) < length (ib_queue (ag_inbox a0))" using 2 TakeReady_shorter [of "ag_inbox a0" ps ib] by simp
  ultimately show ?case using serviceForks_queue [of a] 2 by auto
qed simp

declare prepareProviderRound.simps [simp del]

text \<open>\<open>applyControlPatch\<close>: a state-only patch.\<close>

definition applyControlPatch :: "'l store_ops \<Rightarrow> agent_env \<Rightarrow> patch \<Rightarrow> 'l agent \<Rightarrow> 'l agent" where
  "applyControlPatch S env p a =
     (let finish = (\<lambda>st. publishMetadata S env (refreshMetrics S env
                    (a\<lparr>ag_store := st, ag_chalkboard := snap_Apply (ag_chalkboard a) p\<rparr>)))
      in if so_backed S then
           (case so_applyChalkboard S (ag_store a) p of Inl _ \<Rightarrow> a | Inr st \<Rightarrow> finish st)
         else
           (case so_append S (ag_store a)
                   (new_entry (zero_message\<lparr>m_role := RoleUser, m_patches := [p], m_timestamp := ag_clock a\<rparr>)) of
              Inl _ \<Rightarrow> a
            | Inr (_, st) \<Rightarrow> finish st))"

subsection \<open>Prompts reach the log\<close>

definition prompt_content :: "event \<Rightarrow> content list" where
  "prompt_content p = (if ev_text p \<noteq> [] then [TextContent (ev_text p)] else [])"

definition logs_prompt :: "message log_entry \<Rightarrow> event \<Rightarrow> bool" where
  "logs_prompt e p \<longleftrightarrow> m_role (Payload e) = RoleUser \<and> m_content (Payload e) = prompt_content p"

lemma logs_prompt_plain: "logs_prompt e p \<Longrightarrow> invoke_ids (Payload e) = []"
  by (simp add: logs_prompt_def invoke_ids_def assistantToolInvokes_def)

context agent_store
begin

lemma prompt_patch_rows:
  assumes "st_inv (ag_store a)"
  shows "st_inv (ag_store (fst (apply_prompt_patch S p a))) \<and> so_read S (ag_store (fst (apply_prompt_patch S p a))) = so_read S (ag_store a)"
proof (cases "so_applyChalkboard S (ag_store a) p")
  case (Inr st)
  then show ?thesis using assms chalk_rows [OF assms Inr] by (simp add: apply_prompt_patch_def Let_def)
qed (use assms in \<open>simp add: apply_prompt_patch_def Let_def\<close>)

lemma appendUserPrompt_rows:
  assumes "st_inv (ag_store a)" and "appendUserPrompt S env a p b = (r, a')"
  shows "st_inv (ag_store a')"
    and "r = Inl err \<Longrightarrow> so_read S (ag_store a') = so_read S (ag_store a)"
    and "r = Inr e \<Longrightarrow> so_read S (ag_store a') = so_read S (ag_store a) @ [e] \<and> logs_prompt e p"
proof -
  define a1 where "a1 = fst (apply_prompt_patch S (prompt_patch env a p) a)"
  define a2 where "a2 = fst (take_inline_boot S b a1)"
  define m where "m = prompt_message (ag_clock a2) (ev_text p) (snd (apply_prompt_patch S (prompt_patch env a p) a) @ snd (take_inline_boot S b a1))"
  have i2: "st_inv (ag_store a2)" and r2: "so_read S (ag_store a2) = so_read S (ag_store a)"
    using prompt_patch_rows [OF assms(1)] by (simp_all add: a2_def a1_def)
  have run: "appendUserPrompt S env a p b = (case so_append S (ag_store a2) (new_entry m) of
      Inl err \<Rightarrow> (Inl err, a2)
    | Inr (e, st) \<Rightarrow>
        (let a3 = refreshMetrics S env (a2\<lparr>ag_store := st\<rparr>)
         in (Inr e, if ev_text p \<noteq> []
                    then emitCommit (emitSnapshot ''user'' [zero_node\<lparr>n_type := NodeProse, n_markdown := ev_text p\<rparr>] a3)
                    else a3)))"
    by (simp only: appendUserPrompt_def split_beta Let_def a1_def a2_def m_def)
  have mm: "m_role m = RoleUser" "m_content m = prompt_content p"
    by (simp_all add: m_def prompt_message_def prompt_content_def)
  show "st_inv (ag_store a')" "r = Inl err \<Longrightarrow> so_read S (ag_store a') = so_read S (ag_store a)"
    "r = Inr e \<Longrightarrow> so_read S (ag_store a') = so_read S (ag_store a) @ [e] \<and> logs_prompt e p"
    using assms(2) [unfolded run] i2 r2 append_inv [OF i2, of m] append_read [OF i2, of m] append_payload [OF i2, of m] mm
    by (auto simp: Let_def logs_prompt_def split: sum.splits)
qed

lemma appendPromptEvents_rows:
  assumes "st_inv (ag_store a)" and "appendPromptEvents S env a ps = (err, a')"
  shows "\<exists>es k. st_inv (ag_store a') \<and> so_read S (ag_store a') = so_read S (ag_store a) @ es \<and> k \<le> length ps
    \<and> list_all2 logs_prompt es (take k ps)
    \<and> (err = None \<longrightarrow> k = length ps \<and> ag_inbox a' = ag_inbox a)
    \<and> (err \<noteq> None \<longrightarrow> k < length ps
         \<and> (\<not> ib_closed (ag_inbox a) \<longrightarrow> ib_queue (ag_inbox a') = (ps ! k)\<lparr>ev_chalkboard := None\<rparr> # drop (Suc k) ps @ ib_queue (ag_inbox a)))"
  using assms
proof (induction ps arbitrary: a)
  case Nil
  then show ?case by (intro exI [of _ "[]"] exI [of _ 0]) simp
next
  case (Cons p ps)
  obtain r a1 where r: "appendUserPrompt S env a p False = (r, a1)" by fastforce
  have ib: "ag_inbox a1 = ag_inbox a" using appendUserPrompt_keeps(1) [of S env a p False] by (simp add: r)
  note rows = appendUserPrompt_rows [OF Cons.prems(1) r]
  show ?case
  proof (cases r)
    case (Inl e)
    then show ?thesis using Cons.prems(2) r ib rows(1) rows(2) [OF Inl]
      by (intro exI [of _ "[]"] exI [of _ 0]) (auto simp: split_beta Let_def ib_Prepend_def)
  next
    case (Inr e)
    then have run: "appendPromptEvents S env a1 ps = (err, a')" using Cons.prems(2) r by simp
    from Cons.IH [OF rows(1) run] obtain es k where
      "st_inv (ag_store a')" "so_read S (ag_store a') = so_read S (ag_store a1) @ es" "k \<le> length ps"
      "list_all2 logs_prompt es (take k ps)" "err = None \<longrightarrow> k = length ps \<and> ag_inbox a' = ag_inbox a1"
      "err \<noteq> None \<longrightarrow> k < length ps \<and> (\<not> ib_closed (ag_inbox a1) \<longrightarrow>
         ib_queue (ag_inbox a') = (ps ! k)\<lparr>ev_chalkboard := None\<rparr> # drop (Suc k) ps @ ib_queue (ag_inbox a1))" by blast
    then show ?thesis using rows(3) [OF Inr] ib by (intro exI [of _ "e # es"] exI [of _ "Suc k"]) simp
  qed
qed

end

text \<open>A store that refuses to grow beyond a number of rows: the contract with failures.\<close>

definition capped_ops :: "nat \<Rightarrow> message mem_log store_ops" where
  "capped_ops n = mem_ops\<lparr>so_append := (\<lambda>s e. if length (ml_Read s) < n then ml_Append s e else Inl ''store is full'')\<rparr>"

lemma capped_simps:
  "so_read (capped_ops n) = so_read mem_ops" "so_peek (capped_ops n) = so_peek mem_ops" "so_readFrom (capped_ops n) = so_readFrom mem_ops"
  "so_append (capped_ops n) s e = (if length (ml_Read s) < n then so_append mem_ops s e else Inl ''store is full'')"
  "so_applyChalkboard (capped_ops n) = so_applyChalkboard mem_ops" "so_cacheAppend (capped_ops n) = so_cacheAppend mem_ops"
  "so_setMeta (capped_ops n) = so_setMeta mem_ops"
  by (simp_all add: capped_ops_def mem_ops_def)

interpretation capped: agent_store "capped_ops n" mem_inv for n
  by unfold_locales
     (auto simp: capped_simps ephemeral.peek_read ephemeral.readFrom_read ephemeral.timed ephemeral.append_inv ephemeral.append_read
        ephemeral.append_payload split: if_splits dest: ephemeral.chalk_rows ephemeral.cache_rows ephemeral.meta_rows
        intro: ephemeral.append_inv)

subsection \<open>Properties\<close>

text \<open>
  C32: steering prompts are neither lost nor duplicated nor reordered. Appending the prompts taken
  from the inbox logs a prefix of them, one user message each with exactly the prompt's text;
  when the store fails, the prompt that failed and all later ones are back at the head of the
  (still open) inbox in their order, the failed one without its chalkboard input, which has
  already been applied.
\<close>

theorem steering_prompts_conserved:
  assumes "agent_store S st_inv" and "st_inv (ag_store a)" and "appendPromptEvents S env a ps = (err, a')"
  shows "\<exists>es k. so_read S (ag_store a') = so_read S (ag_store a) @ es \<and> k \<le> length ps
    \<and> list_all2 logs_prompt es (take k ps)
    \<and> (err = None \<longrightarrow> k = length ps \<and> ag_inbox a' = ag_inbox a)
    \<and> (err \<noteq> None \<longrightarrow> k < length ps
         \<and> (\<not> ib_closed (ag_inbox a) \<longrightarrow> ib_queue (ag_inbox a') = (ps ! k)\<lparr>ev_chalkboard := None\<rparr> # drop (Suc k) ps @ ib_queue (ag_inbox a)))"
  using agent_store.appendPromptEvents_rows [OF assms] by blast

definition fresh_agent :: "'l \<Rightarrow> 'l agent" where
  "fresh_agent st = \<lparr>ag_store = st, ag_chalkboard = fmempty, ag_inlineBoot = None, ag_inbox = NewInbox, ag_inTurn = False,
     ag_interrupted = False, ag_cancelled = False, ag_turnStartLT = 0, ag_gov = None, ag_lastEmit = None,
     ag_argPartials = fmempty, ag_toolTimings = fmempty, ag_turn = None, ag_ariaSrv = NewServer, ag_unitLT = 0,
     ag_metrics = zero_metrics, ag_createdAt = 0, ag_lastActive = 0, ag_clock = 0, ag_sent = [], ag_forks = []\<rparr>"

definition sample_prompt :: "string \<Rightarrow> event" where
  "sample_prompt t = \<lparr>ev_typ = EventUserPrompt, ev_text = t, ev_chalkboard = None, ev_setPatch = zero_patch, ev_fork = 0\<rparr>"

theorem steering_prompts_conserved_witness:
  "let r = appendPromptEvents (capped_ops 0) plain_env (fresh_agent NewMemLog) [sample_prompt ''hi''] in
   fst r \<noteq> None \<and> ib_queue (ag_inbox (snd r)) = [sample_prompt ''hi'']"
proof -
  let ?r = "appendPromptEvents (capped_ops 0) plain_env (fresh_agent NewMemLog) [sample_prompt ''hi'']"
  have err: "fst ?r \<noteq> None"
    by (simp add: appendUserPrompt_def capped_simps Let_def split_beta)
  have "mem_inv (ag_store (fresh_agent NewMemLog))" by (simp add: fresh_agent_def wf_intros)
  from steering_prompts_conserved [OF capped.agent_store_axioms this, of 0 plain_env "[sample_prompt ''hi'']" "fst ?r" "snd ?r"] err
  have "ib_queue (ag_inbox (snd ?r)) = (sample_prompt ''hi'')\<lparr>ev_chalkboard := None\<rparr> # ib_queue (ag_inbox (fresh_agent NewMemLog))"
    by (auto simp: fresh_agent_def NewInbox_def)
  then show ?thesis using err by (simp add: Let_def fresh_agent_def NewInbox_def sample_prompt_def)
qed

text \<open>
  what a client's chalkboard input does to the board. A key of the explicit patch ends up as
  the patch says; otherwise a context key outside \<open>system.\<close> takes the context's value; every other
  key, in particular every \<open>system.\<close> key and every key the client's view lacks, is untouched.
\<close>

theorem chalkboard_input_scope:
  assumes "combineChalkboardInput snap (Some ci) = p"
  shows "fmlookup (snap_Apply snap p) k =
    (case ci_patch ci of
       Some q \<Rightarrow> (if k \<in> set (p_remove q) then None
                 else case fmlookup (p_set q) k of
                        Some v \<Rightarrow> Some v
                      | None \<Rightarrow> (case ci_context ci of
                                   Some ctx \<Rightarrow> (if has_prefix k ''system.'' \<or> fmlookup ctx k = None then fmlookup snap k else fmlookup ctx k)
                                 | None \<Rightarrow> fmlookup snap k))
     | None \<Rightarrow> (case ci_context ci of
                  Some ctx \<Rightarrow> (if has_prefix k ''system.'' \<or> fmlookup ctx k = None then fmlookup snap k else fmlookup ctx k)
                | None \<Rightarrow> fmlookup snap k))"
proof -
  define cp where "cp = (case ci_patch ci of Some p \<Rightarrow> p | None \<Rightarrow> zero_patch)"
  define xp where "xp = (case ci_context ci of Some ctx \<Rightarrow> additivePatch (withoutSystemNS ctx) snap | None \<Rightarrow> zero_patch)"
  have "snap_Apply snap p = snap_Apply (snap_Apply snap xp) cp"
  proof -
    have "distinct (p_remove xp)" by (simp add: xp_def additivePatch_def zero_patch_def split: option.split)
    then show ?thesis using assms Merge_Apply [of xp snap cp]
      by (auto simp: combineChalkboardInput_def Let_def cp_def [symmetric] xp_def [symmetric] Apply_empty Apply_zero split: if_splits)
  qed
  moreover have "fmlookup (snap_Apply snap xp) k = (case ci_context ci of
      Some ctx \<Rightarrow> (if has_prefix k ''system.'' \<or> fmlookup ctx k = None then fmlookup snap k else fmlookup ctx k)
    | None \<Rightarrow> fmlookup snap k)"
    by (auto simp: xp_def fmlookup_Apply additivePatch_def withoutSystemNS_def zero_patch_def split: option.splits)
  ultimately show ?thesis
    by (simp add: fmlookup_Apply cp_def zero_patch_def split: option.split)
qed

theorem chalkboard_input_scope_witness:
  "let ci = \<lparr>ci_context = Some (fmap_of_list [(''system.model'', ''x''), (''cwd'', ''y'')]), ci_patch = None\<rparr>;
       p = combineChalkboardInput fmempty (Some ci)
   in fmlookup (snap_Apply fmempty p) ''system.model'' = None \<and> fmlookup (snap_Apply fmempty p) ''cwd'' = Some ''y''"
  unfolding Let_def
  by (subst (1 2) chalkboard_input_scope [OF refl]) (simp add: has_prefix_def fmlookup_of_list)

end
