(* ===== verification/Turn_Round.thy ===== *)
theory Turn_Round
  imports Agent_Prompt
begin

section \<open>A provider round and a turn (\<open>internal/figaro/turn.go\<close>: \<open>driveOneRound\<close>, \<open>collectToolResults\<close>, \<open>runTurn\<close>)\<close>

text \<open>
  The drain loop of a round as a step function. The provider, the tools and the user run
  concurrently with it; their sends, in the order the loop receives them, are the inputs of the
  steps, and an input also carries what happens between two receives: the provider staging its
  message in the log facade, the dispatcher goroutine launching a tool, an interrupt, new inbox
  events, the passing of time. A handler is one step. \<open>None\<close> is a panic of the handler. The
  emission \<open>emitLive\<close> has no failure path, so the branches on its error are not reached and are left out.
\<close>

datatype bus_event =
    EvDelta content
  | EvToolStart string string
  | EvToolArgs string string
  | EvToolReady string string args
  | EvFigaro message "assistant_cache option"

datatype tool_event =
    ToolBegin string string int
  | ToolChunk string string string
  | ToolEnd string string int tool_outcome

datatype drain_input =
    InBus bus_event
  | InTool tool_event
  | InWake
  | InStage "message log_entry"
  | InReady content
  | InInterrupt
  | InEnqueue event
  | InClock int

text \<open>The variables of \<open>driveOneRound\<close>.\<close>

record 'l drain =
  dr_agent :: "'l agent"
  dr_asm :: asm
  dr_log :: "'l deferred_log"
  dr_idx :: lt
  dr_sealedInline :: bool
  dr_metricsReady :: bool
  dr_roundErr :: "string option"
  dr_toolBuf :: "tool_event list"
  dr_spec :: spec_dispatcher
  dr_forkWake :: bool
  dr_awaiting :: bool
  dr_acks :: "string option list"

definition agent_Interrupt :: "'l agent \<Rightarrow> 'l agent" where
  "agent_Interrupt a = (if \<not> ag_inTurn a then a else a\<lparr>ag_interrupted := True, ag_cancelled := True\<rparr>)"

definition cancelCurrentTurn :: "'l agent \<Rightarrow> 'l agent" where
  "cancelCurrentTurn a = (if ag_inTurn a then a\<lparr>ag_cancelled := True\<rparr> else a)"

definition commitAssistantCache :: "'l store_ops \<Rightarrow> 'l \<Rightarrow> lt \<Rightarrow> assistant_cache option \<Rightarrow> string option \<times> 'l" where
  "commitAssistantCache S st t cache =
     (case cache of
        None \<Rightarrow> (None, st)
      | Some c \<Rightarrow>
          (if \<not> so_backed S then (None, st)
           else if ca_Namespace c = [] then (Some ''provider assistant cache namespace is empty'', st)
           else case so_cacheAppend S st t c of Inl err \<Rightarrow> (Some err, st) | Inr st' \<Rightarrow> (None, st')))"

definition start_round :: "'l store_ops \<Rightarrow> 'l agent \<Rightarrow> 'l drain" where
  "start_round S a =
     \<lparr>dr_agent = (if ag_turn a = None then a\<lparr>ag_turn := Some newTurnState\<rparr> else a), dr_asm = newAsm RoleAssistant,
      dr_log = newDeferredAppendLog (so_peek S) (ag_store a), dr_idx = nextIndex (so_peek S) (ag_store a),
      dr_sealedInline = False, dr_metricsReady = False, dr_roundErr = None, dr_toolBuf = [],
      dr_spec = newSpecDispatcher, dr_forkWake = True, dr_awaiting = False, dr_acks = []\<rparr>"

subsection \<open>Phase 1: the stream\<close>

definition bus_asm :: "bus_event \<Rightarrow> asm \<Rightarrow> asm option" where
  "bus_asm ev s =
     (case ev of
        EvDelta c \<Rightarrow> Some (addText s (c_type c) (c_text c))
      | EvToolStart tid name \<Rightarrow> Some (toolOpen s tid name)
      | EvToolArgs _ _ \<Rightarrow> Some s
      | EvToolReady tid name as \<Rightarrow> toolReady s tid name as
      | EvFigaro _ _ \<Rightarrow> Some s)"

definition bus_force :: "bus_event \<Rightarrow> bool" where
  "bus_force ev = (case ev of EvDelta _ \<Rightarrow> False | EvToolArgs _ _ \<Rightarrow> False | _ \<Rightarrow> True)"

definition bus_partials :: "bus_event \<Rightarrow> 'l agent \<Rightarrow> 'l agent" where
  "bus_partials ev a =
     (case ev of
        EvToolArgs tid p \<Rightarrow> a\<lparr>ag_argPartials := fmupd tid (str_at (ag_argPartials a) tid @ p) (ag_argPartials a)\<rparr>
      | _ \<Rightarrow> a)"

definition note_assistant :: "message option \<Rightarrow> 'l agent \<Rightarrow> 'l agent" where
  "note_assistant m a = a\<lparr>ag_turn := noteAssistant (ag_turn a) m\<rparr>"

definition note_tool :: "string \<Rightarrow> string \<Rightarrow> string \<Rightarrow> bool \<Rightarrow> string option \<Rightarrow> 'l agent \<Rightarrow> 'l agent" where
  "note_tool tid name status isErr txt a = a\<lparr>ag_turn := noteTool (ag_gov a) (ag_turn a) tid name status isErr txt\<rparr>"

definition with_err :: "string \<Rightarrow> 'l drain \<Rightarrow> 'l drain" where
  "with_err err d = d\<lparr>dr_roundErr := Some err, dr_agent := cancelCurrentTurn (dr_agent d)\<rparr>"

text \<open>The provider's message is appended by the drain loop, once, before the provider is acknowledged.\<close>

definition after_append ::
  "'l store_ops \<Rightarrow> agent_env \<Rightarrow> content list \<Rightarrow> assistant_cache option \<Rightarrow> message log_entry \<Rightarrow> 'l \<Rightarrow> 'l drain \<Rightarrow> 'l drain" where
  "after_append S env calls cache e st d =
     (let a = dr_agent d;
          turn = map_option (\<lambda>t. t\<lparr>ts_committed := True\<rparr>) (ag_turn a)
      in if LT e \<noteq> dr_idx d \<or> FigaroLT e \<noteq> dr_idx d
         then with_err (''assistant seal LT mismatch: predicted '' @ show_nat (dr_idx d) @ '', got lt='' @ show_nat (LT e)
                @ '' main_lt='' @ show_nat (FigaroLT e)) (d\<lparr>dr_agent := a\<lparr>ag_store := st, ag_turn := turn\<rparr>\<rparr>)
         else case commitAssistantCache S st (dr_idx d) cache of
                (Some err, st2) \<Rightarrow> with_err err (d\<lparr>dr_agent := a\<lparr>ag_store := st2, ag_turn := turn\<rparr>\<rparr>)
              | (None, st2) \<Rightarrow>
                  d\<lparr>dr_sealedInline := True,
                    dr_agent := refreshMetrics S env (a\<lparr>ag_store := st2, ag_turn := (if length calls = 0 then None else turn)\<rparr>)\<rparr>)"

definition seal_inline :: "'l store_ops \<Rightarrow> agent_env \<Rightarrow> message \<Rightarrow> assistant_cache option \<Rightarrow> 'l drain \<Rightarrow> 'l drain" where
  "seal_inline S env m cache d =
     (let staged = dl_take (dr_log d) m;
          d1 = d\<lparr>dr_agent := note_assistant (Some (Payload staged)) (dr_agent d)\<rparr>
      in case so_append S (ag_store (dr_agent d1)) (new_entry (Payload staged)) of
           Inl err \<Rightarrow> with_err (''append assistant: '' @ err) d1
         | Inr (e, st) \<Rightarrow> after_append S env (assistantToolInvokes (Payload staged)) cache e st d1)"

definition inflight :: "'l drain \<Rightarrow> message option" where
  "inflight d = (if dr_sealedInline d then None else asm_message (dr_asm d))"

definition emit_round :: "'l store_ops \<Rightarrow> agent_env \<Rightarrow> bool \<Rightarrow> 'l drain \<Rightarrow> 'l drain" where
  "emit_round S env force d =
     (if dr_roundErr d = None then d\<lparr>dr_agent := emitLive S env (inflight d) force (dr_agent d)\<rparr> else d)"

definition on_figaro :: "'l store_ops \<Rightarrow> agent_env \<Rightarrow> message \<Rightarrow> assistant_cache option \<Rightarrow> 'l drain \<Rightarrow> 'l drain" where
  "on_figaro S env m cache d =
     (let live = (dr_roundErr d = None \<and> \<not> ag_interrupted (dr_agent d));
          d1 = (if live then seal_inline S env m cache d else d);
          ack = (if live then dr_roundErr d1
                 else case dr_roundErr d of Some err \<Rightarrow> Some err | None \<Rightarrow> Some ''context canceled'');
          d2 = emit_round S env True d1
      in d2\<lparr>dr_acks := dr_acks d2 @ [ack], dr_awaiting := True, dr_forkWake := False\<rparr>)"

definition fold_bus :: "'l store_ops \<Rightarrow> agent_env \<Rightarrow> bus_event \<Rightarrow> asm \<Rightarrow> 'l drain \<Rightarrow> 'l drain" where
  "fold_bus S env ev s d =
     (let a0 = (if dr_metricsReady d then dr_agent d else refreshMetrics S env (dr_agent d))
      in d\<lparr>dr_metricsReady := True, dr_asm := s, dr_agent := note_assistant (asm_message s) (bus_partials ev a0)\<rparr>)"

definition on_bus :: "'l store_ops \<Rightarrow> agent_env \<Rightarrow> bus_event \<Rightarrow> 'l drain \<Rightarrow> 'l drain option" where
  "on_bus S env ev d =
     (case bus_asm ev (dr_asm d) of
        None \<Rightarrow> None
      | Some s \<Rightarrow>
          (let d1 = fold_bus S env ev s d
           in Some (case ev of
                EvFigaro m cache \<Rightarrow> on_figaro S env m cache d1
              | _ \<Rightarrow> emit_round S env (bus_force ev) d1)))"

text \<open>A tool event updates the timing, the live tail and the turn record.\<close>

definition tool_note :: "tool_event \<Rightarrow> 'l agent \<Rightarrow> 'l agent" where
  "tool_note te a =
     (case te of
        ToolBegin tid name t \<Rightarrow>
          note_tool tid name ''running'' False None
            (a\<lparr>ag_toolTimings := startToolTiming (ag_clock a) (ag_toolTimings a) tid t\<rparr>)
      | ToolChunk tid name chunk \<Rightarrow>
          note_tool tid name ''running'' False None (a\<lparr>ag_gov := map_option (\<lambda>g. gv_Feed g tid chunk) (ag_gov a)\<rparr>)
      | ToolEnd tid name t oc \<Rightarrow>
          note_tool tid name (if oc_isErr oc then ''error'' else ''ok'') (oc_isErr oc) (Some (toolOutcomeText oc))
            (a\<lparr>ag_toolTimings := finishToolTiming (ag_clock a) (ag_toolTimings a) tid t\<rparr>))"

definition tool_force :: "tool_event \<Rightarrow> bool" where
  "tool_force te = (case te of ToolChunk _ _ _ \<Rightarrow> False | _ \<Rightarrow> True)"

definition on_tool :: "'l store_ops \<Rightarrow> agent_env \<Rightarrow> tool_event \<Rightarrow> 'l drain \<Rightarrow> 'l drain" where
  "on_tool S env te d =
     emit_round S env (tool_force te) (d\<lparr>dr_toolBuf := dr_toolBuf d @ [te], dr_agent := tool_note te (dr_agent d)\<rparr>)"

text \<open>What happens beside the receives of the loop; shared by the two phases.\<close>

definition outside :: "drain_input \<Rightarrow> 'l agent \<Rightarrow> 'l agent" where
  "outside i a =
     (case i of
        InInterrupt \<Rightarrow> agent_Interrupt a
      | InEnqueue e \<Rightarrow> a\<lparr>ag_inbox := snd (ib_Send (ag_inbox a) e)\<rparr>
      | InClock t \<Rightarrow> a\<lparr>ag_clock := t\<rparr>
      | _ \<Rightarrow> a)"

definition wake_forks :: "'l agent \<Rightarrow> 'l agent" where
  "wake_forks a = (let (w, ib) = ib_Wake (ag_inbox a); a1 = a\<lparr>ag_inbox := ib\<rparr> in if w then serviceForks a1 else a1)"

definition drain_step :: "'l store_ops \<Rightarrow> agent_env \<Rightarrow> drain_input \<Rightarrow> 'l drain \<Rightarrow> 'l drain option" where
  "drain_step S env i d =
     (case i of
        InBus ev \<Rightarrow> on_bus S env ev d
      | InTool te \<Rightarrow> Some (on_tool S env te d)
      | InWake \<Rightarrow> Some (if dr_forkWake d then d\<lparr>dr_agent := wake_forks (dr_agent d)\<rparr> else d)
      | InStage e \<Rightarrow> Some (case dl_Append (dr_log d) e of Inl _ \<Rightarrow> d | Inr (_, l) \<Rightarrow> d\<lparr>dr_log := l\<rparr>)
      | InReady tc \<Rightarrow> Some (if ag_interrupted (dr_agent d) then d else d\<lparr>dr_spec := snd (dispatch (dr_spec d) tc)\<rparr>)
      | _ \<Rightarrow> Some (d\<lparr>dr_agent := outside i (dr_agent d)\<rparr>))"

fun drain_loop :: "'l store_ops \<Rightarrow> agent_env \<Rightarrow> drain_input list \<Rightarrow> 'l drain \<Rightarrow> 'l drain option" where
  "drain_loop S env [] d = Some d"
| "drain_loop S env (i # is) d =
     (case drain_step S env i d of None \<Rightarrow> None | Some d' \<Rightarrow> drain_loop S env is d')"

subsection \<open>Phase 2: the tools\<close>

definition expect_ids :: "spec_dispatcher \<Rightarrow> content list \<Rightarrow> spec_dispatcher \<times> string fset" where
  "expect_ids sd calls =
     fold (\<lambda>tc (sd, ex). case dispatch sd tc of (p, sd') \<Rightarrow> (sd', if p then finsert (c_tool_call_id tc) ex else ex)) calls (sd, {||})"

definition end_outcomes :: "tool_event list \<Rightarrow> (string, tool_outcome) fmap" where
  "end_outcomes buf = fold (\<lambda>te m. case te of ToolEnd tid _ _ oc \<Rightarrow> fmupd tid oc m | _ \<Rightarrow> m) buf fmempty"

text \<open>
  The loop over live tool events. It ends when as many outcomes as expected calls are there, or
  on the cancelled context; with no more input and neither of these it is still waiting (\<open>None\<close>).
  Any input may find the context cancelled, which the loop may then notice.
\<close>

datatype collect_input = CiIn drain_input | CiDone

fun collect_loop ::
  "'l store_ops \<Rightarrow> agent_env \<Rightarrow> nat \<Rightarrow> collect_input list \<Rightarrow> (string, tool_outcome) fmap \<Rightarrow> 'l agent
     \<Rightarrow> ((string, tool_outcome) fmap \<times> 'l agent) option" where
  "collect_loop S env n [] outcomes a = (if fcard (fmdom outcomes) < n then None else Some (outcomes, a))"
| "collect_loop S env n (i # is) outcomes a =
     (if \<not> fcard (fmdom outcomes) < n then Some (outcomes, a)
      else case i of
             CiDone \<Rightarrow> (if ag_cancelled a then Some (outcomes, a) else collect_loop S env n is outcomes a)
           | CiIn InWake \<Rightarrow> collect_loop S env n is outcomes (wake_forks a)
           | CiIn (InTool te) \<Rightarrow>
               collect_loop S env n is (case te of ToolEnd tid _ _ oc \<Rightarrow> fmupd tid oc outcomes | _ \<Rightarrow> outcomes)
                 (emitLive S env None (tool_force te) (tool_note te a))
           | CiIn j \<Rightarrow> collect_loop S env n is outcomes (outside j a))"

definition collectToolResults ::
  "'l store_ops \<Rightarrow> agent_env \<Rightarrow> content list \<Rightarrow> spec_dispatcher \<Rightarrow> tool_event list \<Rightarrow> collect_input list \<Rightarrow> 'l agent
     \<Rightarrow> (message \<times> 'l agent) option" where
  "collectToolResults S env calls spec buf inputs a =
     (let (spec', expect) = expect_ids spec calls
      in case collect_loop S env (fcard expect) inputs (end_outcomes buf) a of
           None \<Rightarrow> None
         | Some (outcomes, a1) \<Rightarrow>
             (let a2 = emitLive S env None True a1
              in Some (assembleToolResults (ag_interrupted a2) (ag_clock a2) calls expect outcomes, a2)))"

subsection \<open>The end of the round\<close>

definition seal_turn :: "'l store_ops \<Rightarrow> 'l agent \<Rightarrow> (message list \<times> string seal_error option) \<times> 'l agent" where
  "seal_turn S a =
     (let (r, st) = sealTurn (so_append S) (ag_clock a) (ag_store a) (ag_turn a)
      in (r, a\<lparr>ag_store := st, ag_turn := None\<rparr>))"

definition seal_text :: "string seal_error \<Rightarrow> string" where
  "seal_text e = (case e of
     SealAssistant err \<Rightarrow> ''seal interrupted assistant: '' @ err
   | SealResults err \<Rightarrow> ''seal interrupted tool results: '' @ err)"

definition sealed_err :: "string \<Rightarrow> string seal_error option \<Rightarrow> string" where
  "sealed_err err se = (case se of None \<Rightarrow> err | Some e \<Rightarrow> err @ ''; seal interrupted turn: '' @ seal_text e)"

definition recompose :: "'l store_ops \<Rightarrow> agent_env \<Rightarrow> 'l agent \<Rightarrow> 'l agent" where
  "recompose S env a = emitDelta (live_nodes S env a None) a"

text \<open>The exit on an error found in phase 1 (\<open>forks\<close>) or 2: seal what there is; a unit that reached the log is committed.\<close>

definition exit_error :: "'l store_ops \<Rightarrow> agent_env \<Rightarrow> bool \<Rightarrow> string \<Rightarrow> string \<Rightarrow> 'l agent \<Rightarrow> 'l agent" where
  "exit_error S env forks pre err a =
     (let ((msgs, se), a1) = seal_turn S a;
          reason = ''error: '' @ pre @ sealed_err err se;
          f = (if forks then serviceForks else (\<lambda>x. x))
      in if length msgs > 0 then endTurn S env reason (f (recompose S env a1))
         else finishTurn S env reason (f (reconcileAriaServer S env a1)))"

definition exit_interrupted :: "'l store_ops \<Rightarrow> agent_env \<Rightarrow> bool \<Rightarrow> 'l agent \<Rightarrow> 'l agent" where
  "exit_interrupted S env forks a =
     (let ((msgs, se), a1) = seal_turn S a
      in case se of
           Some e \<Rightarrow> finishTurn S env (''error: interrupt recovery: '' @ seal_text e) (reconcileAriaServer S env a1)
         | None \<Rightarrow>
             (let a2 = (if length msgs > 0 then recompose S env a1 else a1);
                  a3 = (if forks then serviceForks a2 else a2)
              in endTurn S env ''interrupted'' a3))"

definition exit_send_error :: "'l store_ops \<Rightarrow> agent_env \<Rightarrow> bool \<Rightarrow> string \<Rightarrow> 'l agent \<Rightarrow> 'l agent" where
  "exit_send_error S env sealed err a =
     (if ag_turn a = None then
        (if sealed then endTurn S env (''error: '' @ err) (serviceForks a)
         else endTurnDiscarding S env (''error: '' @ err) (serviceForks a))
      else
        (let ((msgs, se), a1) = seal_turn S a;
             reason = ''error: '' @ sealed_err err se;
             a2 = (if length msgs > 0 then recompose S env a1
                   else if se \<noteq> None then reconcileAriaServer S env a1 else a1);
             a3 = serviceForks a2
         in if se \<noteq> None then finishTurn S env reason a3 else endTurn S env reason a3))"

definition exit_unsealed :: "'l store_ops \<Rightarrow> agent_env \<Rightarrow> 'l agent \<Rightarrow> 'l agent" where
  "exit_unsealed S env a =
     (let a1 = wake_forks a
      in if ag_turn a1 \<noteq> None then
           (case so_append S (ag_store a1)
                   (new_entry (zero_message\<lparr>m_role := RoleAssistant, m_stop_reason := StopEnd, m_timestamp := ag_clock a1\<rparr>)) of
              Inl err \<Rightarrow> finishTurn S env (''error: append empty assistant: '' @ err)
                           (reconcileAriaServer S env (a1\<lparr>ag_turn := None\<rparr>))
            | Inr (_, st) \<Rightarrow> endTurn S env StopEnd (serviceForks (a1\<lparr>ag_store := st, ag_turn := None\<rparr>)))
         else endTurn S env StopEnd (serviceForks a1))"

text \<open>Phase 2 and what follows: \<open>True\<close> when the turn is over.\<close>

definition tool_phase ::
  "'l store_ops \<Rightarrow> agent_env \<Rightarrow> content list \<Rightarrow> collect_input list \<Rightarrow> 'l drain \<Rightarrow> (bool \<times> 'l agent) option" where
  "tool_phase S env calls inputs d =
     (let a0 = (if dr_awaiting d then serviceForks (dr_agent d) else dr_agent d);
          a1 = wake_forks a0
      in case collectToolResults S env calls (dr_spec d) (dr_toolBuf d) inputs a1 of
           None \<Rightarrow> None
         | Some (resultTic, a2) \<Rightarrow>
             Some (if ag_interrupted a2 then (True, exit_interrupted S env False a2)
                   else case so_append S (ag_store a2) (new_entry resultTic) of
                          Inl err \<Rightarrow> (True, exit_error S env False ''append tool_result: '' err a2)
                        | Inr (_, st) \<Rightarrow>
                            (let a3 = recompose S env (refreshMetrics S env (a2\<lparr>ag_store := st, ag_turn := None\<rparr>))
                             in case appendSteeringPrompts S env a3 of
                                  (Some err, a4) \<Rightarrow> (True, endTurn S env (''error: append steering prompt: '' @ err) a4)
                                | (None, a4) \<Rightarrow> (False, a4))))"

definition finish_round ::
  "'l store_ops \<Rightarrow> agent_env \<Rightarrow> string option \<Rightarrow> collect_input list \<Rightarrow> 'l drain \<Rightarrow> (bool \<times> 'l agent) option" where
  "finish_round S env sendErr inputs d =
     (let a = dr_agent d
      in case dr_roundErr d of
           Some err \<Rightarrow> Some (True, exit_error S env True [] err (wake_forks a))
         | None \<Rightarrow>
             (let sealEntry = sealedTail (so_peek S) (ag_store a) (dr_idx d) RoleAssistant;
                  a1 = (if sealEntry \<noteq> None \<and> \<not> ag_interrupted a then recompose S env a else a)
              in if ag_interrupted a1 then Some (True, exit_interrupted S env True a1)
                 else case sendErr of
                        Some err \<Rightarrow> Some (True, exit_send_error S env (sealEntry \<noteq> None) err a1)
                      | None \<Rightarrow>
                          (case sealEntry of
                             None \<Rightarrow> Some (True, exit_unsealed S env a1)
                           | Some e \<Rightarrow>
                               (let calls = assistantToolInvokes (Payload e);
                                    stop = (if m_stop_reason (Payload e) = [] then StopEnd else m_stop_reason (Payload e))
                                in if length calls = 0
                                   then Some (True, endTurn S env stop (serviceForks (wake_forks (a1\<lparr>ag_turn := None\<rparr>))))
                                   else tool_phase S env calls inputs (d\<lparr>dr_agent := a1\<rparr>)))))"

text \<open>One round: the inputs of phase 1, what \<open>Send\<close> returned, the inputs of phase 2.\<close>

record round_inputs =
  ri_stream :: "drain_input list"
  ri_sendErr :: "string option"
  ri_tools :: "collect_input list"

definition driveOneRound ::
  "'l store_ops \<Rightarrow> agent_env \<Rightarrow> bool \<Rightarrow> round_inputs \<Rightarrow> 'l agent \<Rightarrow> (bool \<times> 'l agent) option" where
  "driveOneRound S env allowSteering ri a =
     (case (if allowSteering then prepareProviderRound S env a else (None, serviceForks a)) of
        (Some err, a1) \<Rightarrow> Some (True, endTurn S env (''error: append steering prompt: '' @ err) a1)
      | (None, a1) \<Rightarrow>
          (case drain_loop S env (ri_stream ri) (start_round S a1) of
             None \<Rightarrow> None
           | Some d \<Rightarrow> finish_round S env (ri_sendErr ri) (ri_tools ri) d))"

text \<open>The rounds of a turn; \<open>None\<close> when the inputs end before the turn does (or on a panic).\<close>

fun run_rounds :: "'l store_ops \<Rightarrow> agent_env \<Rightarrow> bool \<Rightarrow> round_inputs list \<Rightarrow> 'l agent \<Rightarrow> 'l agent option" where
  "run_rounds S env allowSteering [] a = None"
| "run_rounds S env allowSteering (ri # ris) a =
     (case driveOneRound S env allowSteering ri a of
        None \<Rightarrow> None
      | Some (stop, a') \<Rightarrow> (if stop then Some a' else run_rounds S env True ris a'))"

definition repair_tail :: "'l store_ops \<Rightarrow> 'l agent \<Rightarrow> 'l agent" where
  "repair_tail S a = a\<lparr>ag_store := snd (repairInterruptedTail (so_peek S) (so_append S) (ag_clock a) (ag_store a))\<rparr>"

definition runTurn :: "'l store_ops \<Rightarrow> agent_env \<Rightarrow> event \<Rightarrow> round_inputs list \<Rightarrow> 'l agent \<Rightarrow> 'l agent option" where
  "runTurn S env prompt rounds a =
     (let a1 = a\<lparr>ag_lastActive := ag_clock a, ag_inTurn := True, ag_cancelled := False, ag_interrupted := False\<rparr>;
          stop = (\<lambda>x. x\<lparr>ag_inTurn := False\<rparr>)
      in case appendUserPrompt S env (repair_tail S a1) prompt True of
           (Inl err, a2) \<Rightarrow> Some (stop (endTurn S env (''error: append message: '' @ err) a2))
         | (Inr _, a2) \<Rightarrow> map_option stop (run_rounds S env False rounds (startAssistantUnit S a2)))"

end
