(* ===== verification/Anthropic_Stream.thy ===== *)
theory Anthropic_Stream
  imports Anthropic_Wire Turn_Round
begin

section \<open>The event stream of an answer (\<open>internal/provider/anthropic/anthropic.go\<close>)\<close>

text \<open>
  The answer to a request is a stream of server-sent events. \<open>foldSSEEvent\<close> folds one event into
  the native message under construction and announces it on the agent's bus; \<open>drainSSE\<close> reads the
  lines until \<open>message_stop\<close>. The scanner, the context and the timeout are the inputs of the loop.
  The bus events are those the drain loop of the agent receives.
\<close>

subsection \<open>One event\<close>

record stream_state =
  ss_nm :: native_message
  ss_usage :: native_usage
  ss_stopReason :: string

record block_start =
  bs_Index :: int
  bs_Type :: string
  bs_ID :: string
  bs_Name :: string
  bs_Signature :: string
  bs_Data :: string

definition json_block_start :: "json \<Rightarrow> block_start option" where
  "json_block_start v =
     (case as_object (Some v) of
        None \<Rightarrow> None
      | Some j \<Rightarrow>
          (case as_object (member j ''content_block'') of
             None \<Rightarrow> None
           | Some cb \<Rightarrow>
               (case (as_int (member j ''index''), as_string (member cb ''type''), as_string (member cb ''id''),
                      as_string (member cb ''name''), as_string (member cb ''signature''), as_string (member cb ''data'')) of
                  (Some i, Some ty, Some bid, Some nam, Some sg, Some da) \<Rightarrow>
                    Some \<lparr>bs_Index = i, bs_Type = ty, bs_ID = bid, bs_Name = nam, bs_Signature = sg, bs_Data = da\<rparr>
                | _ \<Rightarrow> None)))"

record block_delta =
  bd_Index :: int
  bd_Type :: string
  bd_Text :: string
  bd_Thinking :: string
  bd_PartialJSON :: string
  bd_Signature :: string

definition json_block_delta :: "json \<Rightarrow> block_delta option" where
  "json_block_delta v =
     (case as_object (Some v) of
        None \<Rightarrow> None
      | Some j \<Rightarrow>
          (case as_object (member j ''delta'') of
             None \<Rightarrow> None
           | Some d \<Rightarrow>
               (case (as_int (member j ''index''), as_string (member d ''type''), as_string (member d ''text''),
                      as_string (member d ''thinking''), as_string (member d ''partial_json''), as_string (member d ''signature'')) of
                  (Some i, Some ty, Some tx, Some th, Some pj, Some sg) \<Rightarrow>
                    Some \<lparr>bd_Index = i, bd_Type = ty, bd_Text = tx, bd_Thinking = th, bd_PartialJSON = pj, bd_Signature = sg\<rparr>
                | _ \<Rightarrow> None)))"

text \<open>The struct of \<open>content_block_stop\<close> has an untagged field \<open>Index\<close>, filled from \<open>index\<close>.\<close>

definition json_block_stop :: "json \<Rightarrow> int option" where
  "json_block_stop v = (case as_object (Some v) of None \<Rightarrow> None | Some j \<Rightarrow> as_int (member j ''Index''))"

definition json_message_start :: "json \<Rightarrow> (int \<times> int \<times> int) option" where
  "json_message_start v =
     (case Option.bind (Option.bind (as_object (Some v)) (\<lambda>j. as_object (member j ''message'')))
             (\<lambda>m. as_object (member m ''usage'')) of
        None \<Rightarrow> None
      | Some u \<Rightarrow>
          (case (as_int (member u ''input_tokens''), as_int (member u ''cache_read_input_tokens''),
                 as_int (member u ''cache_creation_input_tokens'')) of
             (Some inp, Some rd, Some wr) \<Rightarrow> Some (inp, rd, wr)
           | _ \<Rightarrow> None))"

definition json_message_delta :: "json \<Rightarrow> (string \<times> int) option" where
  "json_message_delta v =
     (case as_object (Some v) of
        None \<Rightarrow> None
      | Some j \<Rightarrow>
          (case (as_object (member j ''delta''), as_object (member j ''usage'')) of
             (Some d, Some u) \<Rightarrow>
               (case (as_string (member d ''stop_reason''), as_int (member u ''output_tokens'')) of
                  (Some sr, Some out) \<Rightarrow> Some (sr, out)
                | _ \<Rightarrow> None)
           | _ \<Rightarrow> None))"

definition pad_blocks :: "nat \<Rightarrow> native_block list \<Rightarrow> native_block list" where
  "pad_blocks i bs = bs @ replicate (i + 1 - length bs) zero_block"

definition set_block :: "nat \<Rightarrow> native_block \<Rightarrow> stream_state \<Rightarrow> stream_state" where
  "set_block i b ss = ss\<lparr>ss_nm := (ss_nm ss)\<lparr>nm_Content := (nm_Content (ss_nm ss))[i := b]\<rparr>\<rparr>"

text \<open>
  The content block of a start event, if its type is known. Indexing with a negative number
  panics: the result of the whole step is \<open>None\<close> there.
\<close>

definition opened_block :: "block_start \<Rightarrow> native_block option" where
  "opened_block st =
     (if bs_Type st = ''text'' then Some (zero_block\<lparr>nb_Type := ''text''\<rparr>)
      else if bs_Type st = ''thinking'' then Some (zero_block\<lparr>nb_Type := ''thinking'', nb_Signature := bs_Signature st\<rparr>)
      else if bs_Type st = ''redacted_thinking'' then Some (zero_block\<lparr>nb_Type := ''redacted_thinking'', nb_Data := bs_Data st\<rparr>)
      else if bs_Type st = ''tool_use'' then
        Some (zero_block\<lparr>nb_Type := ''tool_use'', nb_ID := bs_ID st, nb_Name := bs_Name st\<rparr>)
      else None)"

definition on_block_start :: "block_start \<Rightarrow> stream_state \<Rightarrow> (stream_state \<times> bus_event list) option" where
  "on_block_start st ss =
     (let ss1 = (if bs_Index st < 0 then ss
                 else ss\<lparr>ss_nm := (ss_nm ss)\<lparr>nm_Content := pad_blocks (nat (bs_Index st)) (nm_Content (ss_nm ss))\<rparr>\<rparr>)
      in case opened_block st of
           None \<Rightarrow> Some (ss1, [])
         | Some b \<Rightarrow>
             (if bs_Index st < 0 then None
              else Some (set_block (nat (bs_Index st)) b ss1,
                     if bs_Type st = ''tool_use'' then [EvToolStart (bs_ID st) (bs_Name st)] else [])))"

definition fold_delta :: "block_delta \<Rightarrow> native_block \<Rightarrow> native_block \<times> bus_event list" where
  "fold_delta d b =
     (if bd_Type d = ''text_delta'' then
        (b\<lparr>nb_Text := nb_Text b @ bd_Text d\<rparr>,
         if bd_Text d \<noteq> [] then [EvDelta (zero_content\<lparr>c_type := ContentProse, c_text := bd_Text d\<rparr>)] else [])
      else if bd_Type d = ''thinking_delta'' then
        (b\<lparr>nb_Thinking := nb_Thinking b @ bd_Thinking d\<rparr>,
         if bd_Thinking d \<noteq> [] then [EvDelta (zero_content\<lparr>c_type := ContentThinking, c_text := bd_Thinking d\<rparr>)] else [])
      else if bd_Type d = ''signature_delta'' then (b\<lparr>nb_Signature := nb_Signature b @ bd_Signature d\<rparr>, [])
      else if bd_Type d = ''input_json_delta'' then
        (b\<lparr>nb_Input := (case nb_Input b of GStr s \<Rightarrow> GStr (s @ bd_PartialJSON d) | _ \<Rightarrow> GStr (bd_PartialJSON d))\<rparr>,
         if bd_PartialJSON d \<noteq> [] then [EvToolArgs (nb_ID b) (bd_PartialJSON d)] else [])
      else (b, []))"

definition on_block_delta :: "block_delta \<Rightarrow> stream_state \<Rightarrow> (stream_state \<times> bus_event list) option" where
  "on_block_delta d ss =
     (if bd_Index d \<ge> int (length (nm_Content (ss_nm ss))) then Some (ss, [])
      else if bd_Index d < 0 then None
      else let i = nat (bd_Index d); (b, evs) = fold_delta d (nm_Content (ss_nm ss) ! i)
           in Some (set_block i b ss, evs))"

text \<open>The input of a finished tool call: its text decoded into a map, an absent input is the empty map.\<close>

definition json_args :: "json \<Rightarrow> args option" where
  "json_args v = (case v of JObj ms \<Rightarrow> Some (Some ms) | JNull \<Rightarrow> Some None | _ \<Rightarrow> None)"

definition finish_input :: "(rawjson \<Rightarrow> json option) \<Rightarrow> go_any \<Rightarrow> go_any" where
  "finish_input parse v =
     (case v of
        GStr s \<Rightarrow>
          (if s = [] then v
           else case Option.bind (parse s) json_args of Some m \<Rightarrow> GMap m | None \<Rightarrow> v)
      | GNil \<Rightarrow> GMap (Some [])
      | _ \<Rightarrow> v)"

definition on_block_stop ::
  "(rawjson \<Rightarrow> json option) \<Rightarrow> int \<Rightarrow> stream_state \<Rightarrow> (stream_state \<times> bus_event list) option" where
  "on_block_stop parse idx ss =
     (if idx \<ge> int (length (nm_Content (ss_nm ss))) then Some (ss, [])
      else if idx < 0 then None
      else let i = nat idx; b = nm_Content (ss_nm ss) ! i
           in if nb_Type b = ''tool_use'' then
                (let b' = b\<lparr>nb_Input := finish_input parse (nb_Input b)\<rparr>
                 in Some (set_block i b' ss,
                      case nb_Input b' of GMap m \<Rightarrow> [EvToolReady (nb_ID b') (nb_Name b') m] | _ \<Rightarrow> []))
              else Some (ss, []))"

definition foldSSEEvent ::
  "(rawjson \<Rightarrow> json option) \<Rightarrow> string \<Rightarrow> rawjson \<Rightarrow> stream_state \<Rightarrow> (stream_state \<times> bus_event list) option" where
  "foldSSEEvent parse eventType data ss =
     (if eventType = ''content_block_start'' then
        (case Option.bind (parse data) json_block_start of None \<Rightarrow> Some (ss, []) | Some st \<Rightarrow> on_block_start st ss)
      else if eventType = ''content_block_delta'' then
        (case Option.bind (parse data) json_block_delta of None \<Rightarrow> Some (ss, []) | Some d \<Rightarrow> on_block_delta d ss)
      else if eventType = ''content_block_stop'' then
        (case Option.bind (parse data) json_block_stop of None \<Rightarrow> Some (ss, []) | Some i \<Rightarrow> on_block_stop parse i ss)
      else if eventType = ''message_start'' then
        (case Option.bind (parse data) json_message_start of
              None \<Rightarrow> Some (ss, [])
            | Some (inp, rd, wr) \<Rightarrow>
                Some (ss\<lparr>ss_usage := (ss_usage ss)\<lparr>nu_InputTokens := inp, nu_CacheRead := rd, nu_CacheCreate := wr\<rparr>\<rparr>, []))
      else if eventType = ''message_delta'' then
        (case Option.bind (parse data) json_message_delta of
              None \<Rightarrow> Some (ss, [])
            | Some (sr, out) \<Rightarrow>
                Some (ss\<lparr>ss_usage := (ss_usage ss)\<lparr>nu_OutputTokens := out\<rparr>,
                         ss_stopReason := (if sr \<noteq> [] then sr else ss_stopReason ss)\<rparr>, []))
      else if eventType = ''error'' then Some (ss\<lparr>ss_stopReason := ''error''\<rparr>, [])
      else Some (ss, []))"

subsection \<open>The loop over the lines\<close>

datatype scan = ScanLine string | ScanError string | ScanCancelled | ScanTimeout

datatype stream_error = StreamScanner string | StreamEnded | StreamCancelled | StreamTimeout | StreamEvent string | StreamPanic

definition new_stream :: "string \<Rightarrow> stream_state" where
  "new_stream model = \<lparr>ss_nm = zero_native\<lparr>nm_Role := ''assistant'', nm_Model := model\<rparr>, ss_usage = zero_usage, ss_stopReason = []\<rparr>"

definition finalizeClean :: "stream_state \<Rightarrow> native_message" where
  "finalizeClean ss = (ss_nm ss)\<lparr>nm_StopReason := (if ss_stopReason ss = [] then ''end_turn'' else ss_stopReason ss),
     nm_Usage := Some (ss_usage ss)\<rparr>"

text \<open>The end of the list is the end of the stream.\<close>

fun drain_lines ::
  "(rawjson \<Rightarrow> json option) \<Rightarrow> string \<Rightarrow> stream_state \<Rightarrow> scan list \<Rightarrow> (stream_error + native_message) \<times> bus_event list" where
  "drain_lines parse eventType ss [] = (Inl StreamEnded, [])"
| "drain_lines parse eventType ss (ScanError err # rest) = (Inl (StreamScanner err), [])"
| "drain_lines parse eventType ss (ScanCancelled # rest) = (Inl StreamCancelled, [])"
| "drain_lines parse eventType ss (ScanTimeout # rest) = (Inl StreamTimeout, [])"
| "drain_lines parse eventType ss (ScanLine line # rest) =
     (if has_prefix line ''event: '' then drain_lines parse (drop (length ''event: '') line) ss rest
      else if \<not> has_prefix line ''data: '' then drain_lines parse eventType ss rest
      else let data = drop (length ''data: '') line
           in case foldSSEEvent parse eventType data ss of
                None \<Rightarrow> (Inl StreamPanic, [])
              | Some (ss', evs) \<Rightarrow>
                  (if eventType = ''message_stop'' then (Inr (finalizeClean ss'), evs)
                   else if eventType = ''error'' then (Inl (StreamEvent data), evs)
                   else case drain_lines parse eventType ss' rest of (r, evs') \<Rightarrow> (r, evs @ evs')))"

definition drainSSE ::
  "(rawjson \<Rightarrow> json option) \<Rightarrow> string \<Rightarrow> scan list \<Rightarrow> (stream_error + native_message) \<times> bus_event list" where
  "drainSSE parse model inputs = drain_lines parse [] (new_stream model) inputs"

subsection \<open>The stream of an answer\<close>

text \<open>
  The events the API sends for an answer made of content blocks: each block is opened, grows by
  deltas and is closed, one after the other; then the stop reason and \<open>message_stop\<close>. A text
  comes in pieces, a thinking block has pieces of text and of signature, the input of a tool call
  comes in pieces of JSON text.
\<close>

datatype api_block =
    ApiText "string list"
  | ApiThinking string "string list" "string list"
  | ApiRedacted string
  | ApiTool string string "string list"

type_synonym api_event = "string \<times> json"

definition ev_start :: "nat \<Rightarrow> (string \<times> json) list \<Rightarrow> api_event" where
  "ev_start i cb = (''content_block_start'', JObj [(''content_block'', JObj cb), (''index'', JNum (show_nat i))])"

definition ev_delta :: "nat \<Rightarrow> string \<Rightarrow> string \<Rightarrow> string \<Rightarrow> api_event" where
  "ev_delta i ty k d = (''content_block_delta'', JObj [(''delta'', JObj [(k, JStr d), (''type'', JStr ty)]), (''index'', JNum (show_nat i))])"

definition ev_stop :: "nat \<Rightarrow> api_event" where
  "ev_stop i = (''content_block_stop'', JObj [(''index'', JNum (show_nat i))])"

fun block_events :: "nat \<Rightarrow> api_block \<Rightarrow> api_event list" where
  "block_events i (ApiText ds) =
     [ev_start i [(''type'', JStr ''text'')]] @ map (ev_delta i ''text_delta'' ''text'') ds @ [ev_stop i]"
| "block_events i (ApiThinking sg ds sgs) =
     [ev_start i [(''signature'', JStr sg), (''type'', JStr ''thinking'')]]
       @ map (ev_delta i ''thinking_delta'' ''thinking'') ds
       @ map (ev_delta i ''signature_delta'' ''signature'') sgs @ [ev_stop i]"
| "block_events i (ApiRedacted da) =
     [ev_start i [(''data'', JStr da), (''type'', JStr ''redacted_thinking'')], ev_stop i]"
| "block_events i (ApiTool tid nam ds) =
     [ev_start i [(''id'', JStr tid), (''name'', JStr nam), (''type'', JStr ''tool_use'')]]
       @ map (ev_delta i ''input_json_delta'' ''partial_json'') ds @ [ev_stop i]"

fun blocks_events :: "nat \<Rightarrow> api_block list \<Rightarrow> api_event list" where
  "blocks_events i [] = []"
| "blocks_events i (b # bs) = block_events i b @ blocks_events (Suc i) bs"

definition answer_events :: "api_block list \<Rightarrow> string \<Rightarrow> api_event list" where
  "answer_events bs stop = blocks_events 0 bs
     @ [(''message_delta'', JObj [(''delta'', JObj [(''stop_reason'', JStr stop)])]), (''message_stop'', JObj [])]"

definition sse_lines :: "(json \<Rightarrow> rawjson) \<Rightarrow> api_event list \<Rightarrow> scan list" where
  "sse_lines print evs =
     concat (map (\<lambda>(t, j). [ScanLine (''event: '' @ t), ScanLine (''data: '' @ print j), ScanLine []]) evs)"

text \<open>What the fold makes of a block, and what it announces.\<close>

definition streamed_input :: "(rawjson \<Rightarrow> json option) \<Rightarrow> string list \<Rightarrow> go_any" where
  "streamed_input parse ds = finish_input parse (if ds = [] then GNil else GStr (concat ds))"

fun streamed :: "(rawjson \<Rightarrow> json option) \<Rightarrow> api_block \<Rightarrow> native_block" where
  "streamed parse (ApiText ds) = text_block (concat ds)"
| "streamed parse (ApiThinking sg ds sgs) =
     zero_block\<lparr>nb_Type := ''thinking'', nb_Thinking := concat ds, nb_Signature := sg @ concat sgs\<rparr>"
| "streamed parse (ApiRedacted da) = zero_block\<lparr>nb_Type := ''redacted_thinking'', nb_Data := da\<rparr>"
| "streamed parse (ApiTool tid nam ds) =
     zero_block\<lparr>nb_Type := ''tool_use'', nb_ID := tid, nb_Name := nam, nb_Input := streamed_input parse ds\<rparr>"

definition deltas_of :: "string \<Rightarrow> string list \<Rightarrow> bus_event list" where
  "deltas_of kind ds = map (\<lambda>d. EvDelta (zero_content\<lparr>c_type := kind, c_text := d\<rparr>)) (filter (\<lambda>d. d \<noteq> []) ds)"

fun announced :: "(rawjson \<Rightarrow> json option) \<Rightarrow> api_block \<Rightarrow> bus_event list" where
  "announced parse (ApiText ds) = deltas_of ContentProse ds"
| "announced parse (ApiThinking sg ds sgs) = deltas_of ContentThinking ds"
| "announced parse (ApiRedacted da) = []"
| "announced parse (ApiTool tid nam ds) =
     EvToolStart tid nam # map (EvToolArgs tid) (filter (\<lambda>d. d \<noteq> []) ds)
       @ (case streamed_input parse ds of GMap m \<Rightarrow> [EvToolReady tid nam m] | _ \<Rightarrow> [])"

subsubsection \<open>Folding the events\<close>

fun fold_events ::
  "(json \<Rightarrow> rawjson) \<Rightarrow> (rawjson \<Rightarrow> json option) \<Rightarrow> api_event list \<Rightarrow> stream_state \<Rightarrow> (stream_state \<times> bus_event list) option" where
  "fold_events print parse [] ss = Some (ss, [])"
| "fold_events print parse ((t, j) # evs) ss =
     (case foldSSEEvent parse t (print j) ss of
        None \<Rightarrow> None
      | Some (ss', out) \<Rightarrow> map_option (\<lambda>(ss'', out'). (ss'', out @ out')) (fold_events print parse evs ss'))"

lemma fold_events_append:
  "fold_events print parse (xs @ ys) ss =
     (case fold_events print parse xs ss of
        None \<Rightarrow> None
      | Some (ss', out) \<Rightarrow> map_option (\<lambda>(ss'', out'). (ss'', out @ out')) (fold_events print parse ys ss'))"
  by (induction print parse xs ss rule: fold_events.induct)
    (auto split: option.splits prod.splits simp: option.map_comp comp_def case_prod_beta option.map_id)

lemma drain_events:
  assumes "fold_events print parse evs ss = Some (ss', out)"
    and "\<And>t j. (t, j) \<in> set evs \<Longrightarrow> t \<noteq> ''message_stop'' \<and> t \<noteq> ''error''"
  shows "\<exists>et'. drain_lines parse et ss (sse_lines print evs @ rest) =
    (case drain_lines parse et' ss' rest of (r, out') \<Rightarrow> (r, out @ out'))"
  using assms
proof (induction evs arbitrary: ss out et)
  case Nil
  then show ?case by (auto simp: sse_lines_def)
next
  case (Cons e evs)
  obtain t j where e: "e = (t, j)" by (cases e)
  from Cons.prems(1) obtain ss1 out1 out2 where one: "foldSSEEvent parse t (print j) ss = Some (ss1, out1)"
    and two: "fold_events print parse evs ss1 = Some (ss', out2)" and out: "out = out1 @ out2"
    by (auto simp: e split: option.splits)
  have t: "t \<noteq> ''message_stop''" "t \<noteq> ''error''" using Cons.prems(2) [of t j] by (simp_all add: e)
  obtain et' where "drain_lines parse t ss1 (sse_lines print evs @ rest) =
      (case drain_lines parse et' ss' rest of (r, out') \<Rightarrow> (r, out2 @ out'))"
    using Cons.IH [OF two] Cons.prems(2) by (meson list.set_intros(2))
  then have "drain_lines parse et ss (sse_lines print (e # evs) @ rest) =
      (case drain_lines parse et' ss' rest of (r, out') \<Rightarrow> (r, out @ out'))"
    using t one out by (simp add: sse_lines_def e has_prefix_def split: prod.splits)
  then show ?case by blast
qed

text \<open>Reading the events.\<close>

lemma event_names:
  "to_lower ''index'' = ''index''" "to_lower ''Index'' = ''index''" "to_lower ''content_block'' = ''content_block''"
  "to_lower ''delta'' = ''delta''" "to_lower ''partial_json'' = ''partial_json''" "to_lower ''stop_reason'' = ''stop_reason''"
  "to_lower ''usage'' = ''usage''"
  by code_simp+

lemma as_int_index: "i < 2 ^ 63 \<Longrightarrow> as_int (Some (JNum (show_nat i))) = Some (int i)"
  using Atoi_show_int [of "int i"] by (simp add: as_int_def show_int_def)

lemmas event_simps = member_rules event_names struct_simps

lemma json_start_ev:
  assumes "i < 2 ^ 63"
  shows "json_block_start (snd (ev_start i [(''type'', JStr ''text'')])) =
      Some \<lparr>bs_Index = int i, bs_Type = ''text'', bs_ID = [], bs_Name = [], bs_Signature = [], bs_Data = []\<rparr>"
    "json_block_start (snd (ev_start i [(''signature'', JStr sg), (''type'', JStr ''thinking'')])) =
      Some \<lparr>bs_Index = int i, bs_Type = ''thinking'', bs_ID = [], bs_Name = [], bs_Signature = sg, bs_Data = []\<rparr>"
    "json_block_start (snd (ev_start i [(''data'', JStr da), (''type'', JStr ''redacted_thinking'')])) =
      Some \<lparr>bs_Index = int i, bs_Type = ''redacted_thinking'', bs_ID = [], bs_Name = [], bs_Signature = [], bs_Data = da\<rparr>"
    "json_block_start (snd (ev_start i [(''id'', JStr tid), (''name'', JStr nam), (''type'', JStr ''tool_use'')])) =
      Some \<lparr>bs_Index = int i, bs_Type = ''tool_use'', bs_ID = tid, bs_Name = nam, bs_Signature = [], bs_Data = []\<rparr>"
  using as_int_index [OF assms] by (simp_all add: json_block_start_def ev_start_def event_simps)

lemma json_delta_ev:
  assumes "i < 2 ^ 63"
  shows "json_block_delta (snd (ev_delta i ty ''text'' d)) =
      Some \<lparr>bd_Index = int i, bd_Type = ty, bd_Text = d, bd_Thinking = [], bd_PartialJSON = [], bd_Signature = []\<rparr>"
    "json_block_delta (snd (ev_delta i ty ''thinking'' d)) =
      Some \<lparr>bd_Index = int i, bd_Type = ty, bd_Text = [], bd_Thinking = d, bd_PartialJSON = [], bd_Signature = []\<rparr>"
    "json_block_delta (snd (ev_delta i ty ''partial_json'' d)) =
      Some \<lparr>bd_Index = int i, bd_Type = ty, bd_Text = [], bd_Thinking = [], bd_PartialJSON = d, bd_Signature = []\<rparr>"
    "json_block_delta (snd (ev_delta i ty ''signature'' d)) =
      Some \<lparr>bd_Index = int i, bd_Type = ty, bd_Text = [], bd_Thinking = [], bd_PartialJSON = [], bd_Signature = d\<rparr>"
  using as_int_index [OF assms] by (simp_all add: json_block_delta_def ev_delta_def event_simps)

lemma json_stop_ev: "i < 2 ^ 63 \<Longrightarrow> json_block_stop (snd (ev_stop i)) = Some (int i)"
  using as_int_index by (simp add: json_block_stop_def ev_stop_def event_simps)

text \<open>The state while the last block grows.\<close>

definition at_block :: "stream_state \<Rightarrow> native_block list \<Rightarrow> native_block \<Rightarrow> stream_state" where
  "at_block ss cs b = ss\<lparr>ss_nm := (ss_nm ss)\<lparr>nm_Content := cs @ [b]\<rparr>\<rparr>"

fun run_deltas :: "(string \<Rightarrow> block_delta) \<Rightarrow> native_block \<Rightarrow> string list \<Rightarrow> native_block \<times> bus_event list" where
  "run_deltas mk b [] = (b, [])"
| "run_deltas mk b (d # ds) =
     (case fold_delta (mk d) b of (b1, out) \<Rightarrow> (case run_deltas mk b1 ds of (b2, out') \<Rightarrow> (b2, out @ out')))"

lemma delta_step:
  "bd_Index d = int (length cs) \<Longrightarrow>
     on_block_delta d (at_block ss cs b) = Some (at_block ss cs (fst (fold_delta d b)), snd (fold_delta d b))"
  by (simp add: on_block_delta_def at_block_def set_block_def Let_def split: prod.splits)

lemma deltas_fold:
  assumes "\<And>d. d \<in> set ds \<Longrightarrow> parse (print (snd (ev_delta i ty k d))) = Some (snd (ev_delta i ty k d))"
    and "\<And>d. json_block_delta (snd (ev_delta i ty k d)) = Some (mk d)" and "\<And>d. bd_Index (mk d) = int i"
    and "i = length cs"
  shows "fold_events print parse (map (ev_delta i ty k) ds) (at_block ss cs b) =
    Some (at_block ss cs (fst (run_deltas mk b ds)), snd (run_deltas mk b ds))"
  using assms(1)
proof (induction ds arbitrary: b)
  case (Cons d ds)
  define j where "j = snd (ev_delta i ty k d)"
  have e: "ev_delta i ty k d = (''content_block_delta'', j)" by (simp add: ev_delta_def j_def)
  have "parse (print j) = Some j" "json_block_delta j = Some (mk d)"
    using Cons.prems [of d] assms(2) [of d] by (simp_all add: j_def)
  then have "foldSSEEvent parse ''content_block_delta'' (print j) (at_block ss cs b) =
      Some (at_block ss cs (fst (fold_delta (mk d) b)), snd (fold_delta (mk d) b))"
    using assms(3,4) by (simp add: foldSSEEvent_def delta_step)
  then have "fold_events print parse (map (ev_delta i ty k) (d # ds)) (at_block ss cs b) =
      map_option (\<lambda>(ss'', out'). (ss'', snd (fold_delta (mk d) b) @ out'))
        (fold_events print parse (map (ev_delta i ty k) ds) (at_block ss cs (fst (fold_delta (mk d) b))))"
    by (simp add: e)
  then show ?case using Cons.IH [of "fst (fold_delta (mk d) b)"] Cons.prems by (simp split: prod.splits)
qed simp

definition text_delta :: "nat \<Rightarrow> string \<Rightarrow> block_delta" where
  "text_delta i d = \<lparr>bd_Index = int i, bd_Type = ''text_delta'', bd_Text = d, bd_Thinking = [], bd_PartialJSON = [], bd_Signature = []\<rparr>"
definition thinking_delta :: "nat \<Rightarrow> string \<Rightarrow> block_delta" where
  "thinking_delta i d = \<lparr>bd_Index = int i, bd_Type = ''thinking_delta'', bd_Text = [], bd_Thinking = d, bd_PartialJSON = [], bd_Signature = []\<rparr>"
definition input_delta :: "nat \<Rightarrow> string \<Rightarrow> block_delta" where
  "input_delta i d = \<lparr>bd_Index = int i, bd_Type = ''input_json_delta'', bd_Text = [], bd_Thinking = [], bd_PartialJSON = d, bd_Signature = []\<rparr>"
definition signature_delta :: "nat \<Rightarrow> string \<Rightarrow> block_delta" where
  "signature_delta i d = \<lparr>bd_Index = int i, bd_Type = ''signature_delta'', bd_Text = [], bd_Thinking = [], bd_PartialJSON = [], bd_Signature = d\<rparr>"

lemmas delta_defs = text_delta_def thinking_delta_def input_delta_def signature_delta_def

lemma json_deltas:
  assumes "i < 2 ^ 63"
  shows "json_block_delta (snd (ev_delta i ''text_delta'' ''text'' d)) = Some (text_delta i d)"
    "json_block_delta (snd (ev_delta i ''thinking_delta'' ''thinking'' d)) = Some (thinking_delta i d)"
    "json_block_delta (snd (ev_delta i ''input_json_delta'' ''partial_json'' d)) = Some (input_delta i d)"
    "json_block_delta (snd (ev_delta i ''signature_delta'' ''signature'' d)) = Some (signature_delta i d)"
  by (simp_all add: json_delta_ev [OF assms] delta_defs)

lemma delta_index [simp]: "bd_Index (text_delta i d) = int i" "bd_Index (thinking_delta i d) = int i"
  "bd_Index (input_delta i d) = int i" "bd_Index (signature_delta i d) = int i"
  by (simp_all add: delta_defs)

lemma run_text: "run_deltas (text_delta i) b ds = (b\<lparr>nb_Text := nb_Text b @ concat ds\<rparr>, deltas_of ContentProse ds)"
  by (induction ds arbitrary: b) (simp_all add: fold_delta_def delta_defs deltas_of_def)

lemma run_thinking: "run_deltas (thinking_delta i) b ds = (b\<lparr>nb_Thinking := nb_Thinking b @ concat ds\<rparr>, deltas_of ContentThinking ds)"
  by (induction ds arbitrary: b) (simp_all add: fold_delta_def delta_defs deltas_of_def)

lemma run_signature: "run_deltas (signature_delta i) b ds = (b\<lparr>nb_Signature := nb_Signature b @ concat ds\<rparr>, [])"
  by (induction ds arbitrary: b) (simp_all add: fold_delta_def delta_defs)

lemma run_input:
  "run_deltas (input_delta i) b ds =
     (b\<lparr>nb_Input := (if ds = [] then nb_Input b else GStr ((case nb_Input b of GStr s \<Rightarrow> s | _ \<Rightarrow> []) @ concat ds))\<rparr>,
      map (EvToolArgs (nb_ID b)) (filter (\<lambda>d. d \<noteq> []) ds))"
proof (induction ds arbitrary: b)
  case (Cons d ds)
  show ?case by (simp add: fold_delta_def delta_defs Cons.IH [unfolded delta_defs] split: go_any.splits)
qed simp

lemma open_step:
  assumes "opened_block st = Some b" and "bs_Index st = int (length (nm_Content (ss_nm ss)))"
  shows "on_block_start st ss = Some (at_block ss (nm_Content (ss_nm ss)) b,
    if bs_Type st = ''tool_use'' then [EvToolStart (bs_ID st) (bs_Name st)] else [])"
  using assms by (simp add: on_block_start_def set_block_def at_block_def pad_blocks_def Let_def)

lemma stop_step:
  "on_block_stop parse (int (length cs)) (at_block ss cs b) =
     Some (if nb_Type b = ''tool_use''
       then (at_block ss cs (b\<lparr>nb_Input := finish_input parse (nb_Input b)\<rparr>),
             case finish_input parse (nb_Input b) of GMap m \<Rightarrow> [EvToolReady (nb_ID b) (nb_Name b) m] | _ \<Rightarrow> [])
       else (at_block ss cs b, []))"
  by (simp add: on_block_stop_def at_block_def set_block_def Let_def split: go_any.splits)

lemma at_block_same [simp]: "at_block (at_block ss cs b) cs' b' = at_block ss cs' b'"
  by (simp add: at_block_def)

lemma zero_block_sel [simp]:
  "nb_Type zero_block = []" "nb_Text zero_block = []" "nb_Thinking zero_block = []" "nb_Signature zero_block = []"
  "nb_Data zero_block = []" "nb_ID zero_block = []" "nb_Name zero_block = []" "nb_Input zero_block = GNil"
  "nb_ToolUseID zero_block = []" "nb_CacheControl zero_block = None"
  by (simp_all add: zero_block_def)

text \<open>A block, from its start to its stop.\<close>

definition events_read :: "(json \<Rightarrow> rawjson) \<Rightarrow> (rawjson \<Rightarrow> json option) \<Rightarrow> api_event list \<Rightarrow> bool" where
  "events_read print parse evs \<longleftrightarrow> (\<forall>(t, j) \<in> set evs. parse (print j) = Some j)"

lemma events_readD: "events_read print parse evs \<Longrightarrow> e \<in> set evs \<Longrightarrow> parse (print (snd e)) = Some (snd e)"
  by (auto simp: events_read_def)

lemma fold_start:
  assumes "parse (print (snd (ev_start i cb))) = Some (snd (ev_start i cb))"
    and "json_block_start (snd (ev_start i cb)) = Some st" and "opened_block st \<noteq> None"
    and "bs_Index st = int i" and "i = length (nm_Content (ss_nm ss))"
  shows "fold_events print parse (ev_start i cb # evs) ss =
    map_option (\<lambda>(ss'', out'). (ss'', (if bs_Type st = ''tool_use'' then [EvToolStart (bs_ID st) (bs_Name st)] else []) @ out'))
      (fold_events print parse evs (at_block ss (nm_Content (ss_nm ss)) (the (opened_block st))))"
proof -
  have "fold_events print parse ((''content_block_start'', snd (ev_start i cb)) # evs) ss =
    map_option (\<lambda>(ss'', out'). (ss'', (if bs_Type st = ''tool_use'' then [EvToolStart (bs_ID st) (bs_Name st)] else []) @ out'))
      (fold_events print parse evs (at_block ss (nm_Content (ss_nm ss)) (the (opened_block st))))"
    using assms by (auto simp: foldSSEEvent_def open_step)
  then show ?thesis by (simp add: ev_start_def)
qed

lemma fold_stop:
  assumes "parse (print (snd (ev_stop i))) = Some (snd (ev_stop i))" and "i < 2 ^ 63" and "i = length cs"
  shows "fold_events print parse [ev_stop i] (at_block ss cs b) = on_block_stop parse (int i) (at_block ss cs b)"
proof -
  have "fold_events print parse [(''content_block_stop'', snd (ev_stop i))] (at_block ss cs b) =
      on_block_stop parse (int i) (at_block ss cs b)"
    using assms by (simp add: foldSSEEvent_def json_stop_ev stop_step)
  then show ?thesis by (simp add: ev_stop_def)
qed

lemma block_fold:
  assumes "events_read print parse (block_events i b)" and "i = length (nm_Content (ss_nm ss))" and "i < 2 ^ 63"
  shows "fold_events print parse (block_events i b) ss =
    Some (at_block ss (nm_Content (ss_nm ss)) (streamed parse b), announced parse b)"
proof -
  let ?cs = "nm_Content (ss_nm ss)"
  have "ev_stop i \<in> set (block_events i b)" by (cases b) simp_all
  then have p: "parse (print (snd (ev_stop i))) = Some (snd (ev_stop i))" by (rule events_readD [OF assms(1)])
  have stop: "fold_events print parse [ev_stop i] (at_block ss ?cs bk) =
     Some (if nb_Type bk = ''tool_use''
       then (at_block ss ?cs (bk\<lparr>nb_Input := finish_input parse (nb_Input bk)\<rparr>),
             case finish_input parse (nb_Input bk) of GMap m \<Rightarrow> [EvToolReady (nb_ID bk) (nb_Name bk) m] | _ \<Rightarrow> [])
       else (at_block ss ?cs bk, []))" for bk
    using fold_stop [where print = print and parse = parse, OF p assms(3,2), of ss bk] by (simp only: assms(2) stop_step)
  show ?thesis
  proof (cases b)
    case (ApiText ds)
    have r: "parse (print (snd e)) = Some (snd e)" if "e \<in> set (block_events i (ApiText ds))" for e
      using events_readD assms(1) that by (simp add: ApiText)
    have d: "fold_events print parse (map (ev_delta i ''text_delta'' ''text'') ds) (at_block ss (nm_Content (ss_nm ss)) bk) =
        Some (at_block ss (nm_Content (ss_nm ss)) (fst (run_deltas (text_delta i) bk ds)), snd (run_deltas (text_delta i) bk ds))" for bk
      by (intro deltas_fold r json_deltas assms(2,3)) simp_all
    show ?thesis unfolding ApiText block_events.simps append_Cons append_Nil
      by (subst fold_start [OF _ json_start_ev(1) [OF assms(3)]])
        (simp_all add: opened_block_def assms(2) [symmetric] fold_events_append d run_text stop r assms(3)
          text_block_def)
  next
    case (ApiThinking sg ds sgs)
    have r: "parse (print (snd e)) = Some (snd e)" if "e \<in> set (block_events i (ApiThinking sg ds sgs))" for e
      using events_readD assms(1) that by (simp add: ApiThinking)
    have d: "fold_events print parse (map (ev_delta i ''thinking_delta'' ''thinking'') ds) (at_block ss (nm_Content (ss_nm ss)) bk) =
        Some (at_block ss (nm_Content (ss_nm ss)) (fst (run_deltas (thinking_delta i) bk ds)), snd (run_deltas (thinking_delta i) bk ds))" for bk
      by (intro deltas_fold r json_deltas assms(2,3)) simp_all
    have d2: "fold_events print parse (map (ev_delta i ''signature_delta'' ''signature'') sgs) (at_block ss (nm_Content (ss_nm ss)) bk) =
        Some (at_block ss (nm_Content (ss_nm ss)) (fst (run_deltas (signature_delta i) bk sgs)), snd (run_deltas (signature_delta i) bk sgs))" for bk
      by (intro deltas_fold r json_deltas assms(2,3)) simp_all
    show ?thesis unfolding ApiThinking block_events.simps append_Cons append_Nil
      by (subst fold_start [OF _ json_start_ev(2) [OF assms(3)]])
        (simp_all add: opened_block_def assms(2) [symmetric] fold_events_append d d2 run_thinking run_signature stop r assms(3))
  next
    case (ApiRedacted da)
    have r: "parse (print (snd e)) = Some (snd e)" if "e \<in> set (block_events i (ApiRedacted da))" for e
      using events_readD assms(1) that by (simp add: ApiRedacted)
    show ?thesis unfolding ApiRedacted block_events.simps
      by (subst fold_start [OF _ json_start_ev(3) [OF assms(3)]])
        (simp_all add: opened_block_def assms(2) [symmetric] stop r assms(3))
  next
    case (ApiTool tid nam ds)
    have r: "parse (print (snd e)) = Some (snd e)" if "e \<in> set (block_events i (ApiTool tid nam ds))" for e
      using events_readD assms(1) that by (simp add: ApiTool)
    have d: "fold_events print parse (map (ev_delta i ''input_json_delta'' ''partial_json'') ds) (at_block ss (nm_Content (ss_nm ss)) bk) =
        Some (at_block ss (nm_Content (ss_nm ss)) (fst (run_deltas (input_delta i) bk ds)), snd (run_deltas (input_delta i) bk ds))" for bk
      by (intro deltas_fold r json_deltas assms(2,3)) simp_all
    show ?thesis unfolding ApiTool block_events.simps append_Cons append_Nil
      by (subst fold_start [OF _ json_start_ev(4) [OF assms(3)]])
        (simp_all add: opened_block_def assms(2) [symmetric] fold_events_append d run_input stop r assms(3)
          streamed_input_def split: go_any.splits)
  qed
qed

lemma events_read_append: "events_read print parse (xs @ ys) \<longleftrightarrow> events_read print parse xs \<and> events_read print parse ys"
  by (auto simp: events_read_def)

lemma blocks_fold:
  assumes "events_read print parse (blocks_events i bs)" and "i = length (nm_Content (ss_nm ss))" and "i + length bs < 2 ^ 63"
  shows "fold_events print parse (blocks_events i bs) ss =
    Some (ss\<lparr>ss_nm := (ss_nm ss)\<lparr>nm_Content := nm_Content (ss_nm ss) @ map (streamed parse) bs\<rparr>\<rparr>,
          concat (map (announced parse) bs))"
  using assms
proof (induction bs arbitrary: i ss)
  case (Cons b bs)
  let ?ss = "at_block ss (nm_Content (ss_nm ss)) (streamed parse b)"
  have "fold_events print parse (block_events i b) ss = Some (?ss, announced parse b)"
    using Cons.prems by (intro block_fold) (simp_all add: events_read_append)
  moreover have "Suc i = length (nm_Content (ss_nm ?ss))" by (simp add: at_block_def Cons.prems(2))
  note Cons.IH [OF _ this]
  ultimately show ?case using Cons.prems(1,3) by (simp add: events_read_append fold_events_append at_block_def)
qed simp

lemma block_event_names: "(t, j) \<in> set (block_events i b) \<Longrightarrow> t \<noteq> ''message_stop'' \<and> t \<noteq> ''error''"
  by (cases b) (auto simp: ev_start_def ev_delta_def ev_stop_def)

lemma blocks_event_names: "(t, j) \<in> set (blocks_events i bs) \<Longrightarrow> t \<noteq> ''message_stop'' \<and> t \<noteq> ''error''"
  by (induction i bs rule: blocks_events.induct) (auto dest: block_event_names)

text \<open>The whole answer.\<close>

definition answer_message :: "(rawjson \<Rightarrow> json option) \<Rightarrow> string \<Rightarrow> api_block list \<Rightarrow> string \<Rightarrow> native_message" where
  "answer_message parse model bs stop = zero_native\<lparr>nm_Role := ''assistant'', nm_Model := model,
     nm_Content := map (streamed parse) bs, nm_StopReason := (if stop = [] then ''end_turn'' else stop),
     nm_Usage := Some zero_usage\<rparr>"

lemma drain_answer:
  assumes "events_read print parse (answer_events bs stop)" and "length bs < 2 ^ 63"
  shows "drainSSE parse model (sse_lines print (answer_events bs stop)) =
    (Inr (answer_message parse model bs stop), concat (map (announced parse) bs))"
proof -
  let ?md = "(''message_delta'', JObj [(''delta'', JObj [(''stop_reason'', JStr stop)])]) :: api_event"
  let ?ms = "(''message_stop'', JObj []) :: api_event"
  define ss1 where "ss1 = (new_stream model)\<lparr>ss_nm := (ss_nm (new_stream model))\<lparr>nm_Content := map (streamed parse) bs\<rparr>\<rparr>"
  have read: "events_read print parse (blocks_events 0 bs)" "parse (print (snd ?md)) = Some (snd ?md)"
    using assms(1) by (auto simp: answer_events_def events_read_def)
  have one: "fold_events print parse (blocks_events 0 bs) (new_stream model) = Some (ss1, concat (map (announced parse) bs))"
    using blocks_fold [OF read(1), of "new_stream model"] assms(2) by (simp add: ss1_def new_stream_def zero_native_def)
  define ss2 where "ss2 = ss1\<lparr>ss_stopReason := stop\<rparr>"
  have "json_message_delta (snd ?md) = Some (stop, 0)"
    by (simp add: json_message_delta_def event_simps)
  then have "foldSSEEvent parse ''message_delta'' (print (snd ?md)) ss1 = Some (ss2, [])"
    using read(2) by (simp add: foldSSEEvent_def ss2_def ss1_def new_stream_def zero_usage_def)
  then have two: "fold_events print parse (blocks_events 0 bs @ [?md]) (new_stream model) =
      Some (ss2, concat (map (announced parse) bs))"
    using one by (simp add: fold_events_append)
  have "sse_lines print (answer_events bs stop) = sse_lines print (blocks_events 0 bs @ [?md]) @ sse_lines print [?ms]"
    by (simp add: answer_events_def sse_lines_def)
  moreover have "t \<noteq> ''message_stop'' \<and> t \<noteq> ''error''" if "(t, j) \<in> set (blocks_events 0 bs @ [?md])" for t j
    using that by (auto dest: blocks_event_names)
  ultimately obtain et' where "drainSSE parse model (sse_lines print (answer_events bs stop)) =
      (case drain_lines parse et' ss2 (sse_lines print [?ms]) of (r, out') \<Rightarrow> (r, concat (map (announced parse) bs) @ out'))"
    using drain_events [OF two, where rest = "sse_lines print [?ms]" and et = "[]"] unfolding drainSSE_def by metis
  moreover have "drain_lines parse et' ss2 (sse_lines print [?ms]) = (Inr (finalizeClean ss2), [])"
    by (simp add: sse_lines_def has_prefix_def foldSSEEvent_def)
  ultimately show ?thesis
    by (simp add: finalizeClean_def ss2_def ss1_def answer_message_def new_stream_def zero_native_def)
qed

subsection \<open>The live message\<close>

text \<open>What the agent's drain loop assembles from the bus events.\<close>

fun fold_asm :: "bus_event list \<Rightarrow> asm \<Rightarrow> asm option" where
  "fold_asm [] s = Some s"
| "fold_asm (ev # evs) s = Option.bind (bus_asm ev s) (fold_asm evs)"

lemma fold_asm_append: "fold_asm (xs @ ys) s = Option.bind (fold_asm xs s) (fold_asm ys)"
  by (induction xs arbitrary: s) (auto split: bind_splits)

lemma put_put [simp]: "put_content a (put_content b s) = put_content a s" "put_content (as_content s) s = s"
  by (simp_all add: put_content_def)

lemma deltas_continue:
  assumes "as_content s = cs @ [c]" and "c_type c = kind"
  shows "fold_asm (deltas_of kind ds) s = Some (put_content (cs @ [c\<lparr>c_text := c_text c @ concat ds\<rparr>]) s)"
  using assms
proof (induction ds arbitrary: s c)
  case (Cons d ds)
  show ?case
  proof (cases "d = []")
    case False
    let ?c = "c\<lparr>c_text := c_text c @ d\<rparr>"
    have "addText s kind d = put_content (cs @ [?c]) s" using Cons.prems False by (simp add: addText_def Let_def)
    then show ?thesis using Cons.IH [of "put_content (cs @ [?c]) s" ?c] Cons.prems False
      by (simp add: deltas_of_def bus_asm_def zero_content_def)
  qed (use Cons in \<open>simp add: deltas_of_def\<close>)
next
  case Nil
  then show ?case using put_put(2) [of s] by (simp add: deltas_of_def)
qed

lemma deltas_begin:
  assumes "as_content s = [] \<or> c_type (last (as_content s)) \<noteq> kind"
  shows "fold_asm (deltas_of kind ds) s = Some (put_content (as_content s
    @ (if concat ds = [] then [] else [zero_content\<lparr>c_type := kind, c_text := concat ds\<rparr>])) s)"
proof (induction ds)
  case (Cons d ds)
  show ?case
  proof (cases "d = []")
    case False
    let ?c = "zero_content\<lparr>c_type := kind, c_text := d\<rparr>"
    have "addText s kind d = put_content (as_content s @ [?c]) s"
      using assms False by (auto simp: addText_def Let_def last_conv_nth)
    then show ?thesis
      using deltas_continue [of "put_content (as_content s @ [?c]) s" "as_content s" ?c kind ds] False
      by (simp add: deltas_of_def bus_asm_def zero_content_def)
  qed (use Cons in \<open>simp add: deltas_of_def\<close>)
qed (simp add: deltas_of_def)

lemma args_ignored: "fold_asm (map (EvToolArgs tid) ds) s = Some s"
  by (induction ds) (simp_all add: bus_asm_def)

text \<open>
  Blocks for which the live message and the sealed one are built alike: a text or thinking block
  is empty or not blank, a tool call has an id and an object as its input.
\<close>

fun settled :: "(rawjson \<Rightarrow> json option) \<Rightarrow> api_block \<Rightarrow> bool" where
  "settled parse (ApiText ds) = (concat ds = [] \<or> trim_space (concat ds) \<noteq> [])"
| "settled parse (ApiThinking sg ds sgs) = (concat ds = [] \<or> trim_space (concat ds) \<noteq> [])"
| "settled parse (ApiRedacted da) = True"
| "settled parse (ApiTool tid nam ds) =
     (tid \<noteq> [] \<and> (case streamed_input parse ds of GMap (Some ms) \<Rightarrow> True | _ \<Rightarrow> False))"

definition sealed_contents :: "(rawjson \<Rightarrow> json option) \<Rightarrow> api_block list \<Rightarrow> content list" where
  "sealed_contents parse bs = concat (map (decode_block \<circ> streamed parse) bs)"

definition apart :: "content \<Rightarrow> content \<Rightarrow> bool" where
  "apart a b \<longleftrightarrow> c_type a \<noteq> c_type b \<or> c_type a = ContentToolInvoke"

lemma block_live:
  assumes "settled parse b" and "\<And>c. c \<in> set (decode_block (streamed parse b)) \<Longrightarrow> as_content s = [] \<or> apart (last (as_content s)) c"
  shows "\<exists>s'. fold_asm (announced parse b) s = Some s' \<and> as_content s' = as_content s @ decode_block (streamed parse b)"
proof (cases b)
  case (ApiText ds)
  show ?thesis
  proof (cases "concat ds = []")
    case True
    then have "filter (\<lambda>d. d \<noteq> []) ds = []" "trim_space (concat ds) = []"
      by (simp_all only: trim_space_Nil) (simp add: filter_empty_conv)
    then show ?thesis by (simp add: ApiText deltas_of_def decode_block_def validNativeBlock_def text_block_def zero_block_def)
  next
    case False
    have dec: "decode_block (streamed parse b) = [zero_content\<lparr>c_type := ContentProse, c_text := concat ds\<rparr>]"
      using assms(1) False by (auto simp: ApiText decode_block_def validNativeBlock_def text_block_def zero_block_def)
    have "as_content s = [] \<or> c_type (last (as_content s)) \<noteq> ContentProse"
      using assms(2) by (auto simp: dec apart_def zero_content_def)
    then show ?thesis unfolding dec using deltas_begin [of s ContentProse ds] False by (simp add: ApiText)
  qed
next
  case (ApiThinking sg ds sgs)
  show ?thesis
  proof (cases "concat ds = []")
    case True
    then have "filter (\<lambda>d. d \<noteq> []) ds = []" "trim_space (concat ds) = []"
      by (simp_all only: trim_space_Nil) (simp add: filter_empty_conv)
    then show ?thesis by (simp add: ApiThinking deltas_of_def decode_block_def validNativeBlock_def zero_block_def)
  next
    case False
    have dec: "decode_block (streamed parse b) = [zero_content\<lparr>c_type := ContentThinking, c_text := concat ds\<rparr>]"
      using assms(1) False by (auto simp: ApiThinking decode_block_def validNativeBlock_def zero_block_def)
    have "as_content s = [] \<or> c_type (last (as_content s)) \<noteq> ContentThinking"
      using assms(2) by (auto simp: dec apart_def zero_content_def)
    then show ?thesis unfolding dec using deltas_begin [of s ContentThinking ds] False by (simp add: ApiThinking)
  qed
next
  case (ApiRedacted da)
  then show ?thesis by (simp add: decode_block_def validNativeBlock_def zero_block_def)
next
  case (ApiTool tid nam ds)
  obtain ms where ms: "streamed_input parse ds = GMap (Some ms)" and tid: "tid \<noteq> []"
    using assms(1) by (auto simp: ApiTool split: go_any.splits option.splits)
  have "decode_block (streamed parse b) = [zero_content\<lparr>c_type := ContentToolInvoke, c_tool_call_id := tid,
      c_tool_name := nam, c_arguments := Some ms\<rparr>]"
    by (simp add: ApiTool ms tid decode_block_def validNativeBlock_def zero_block_def)
  moreover have "fold_asm (announced parse b) s = toolReady (toolOpen s tid nam) tid nam (Some ms)"
    by (simp add: ApiTool ms bus_asm_def fold_asm_append args_ignored split: bind_splits)
  ultimately show ?thesis by (simp add: toolReady_def toolOpen_simps Let_def nth_append zero_content_def)
qed

lemma blocks_live:
  assumes "list_all (settled parse) bs" and "successively apart (as_content s @ sealed_contents parse bs)"
  shows "\<exists>s'. fold_asm (concat (map (announced parse) bs)) s = Some s' \<and> as_content s' = as_content s @ sealed_contents parse bs"
  using assms
proof (induction bs arbitrary: s)
  case (Cons b bs)
  let ?d = "decode_block (streamed parse b)"
  have len: "length ?d \<le> 1" by (simp add: decode_block_def)
  have "as_content s = [] \<or> apart (last (as_content s)) c" if "c \<in> set ?d" for c
    using Cons.prems(2) that len
    by (cases ?d) (auto simp: sealed_contents_def successively_append_iff)
  then obtain s1 where s1: "fold_asm (announced parse b) s = Some s1" "as_content s1 = as_content s @ ?d"
    using block_live [of parse b s] Cons.prems(1) by auto
  have "successively apart (as_content s1 @ sealed_contents parse bs)"
    using Cons.prems(2) by (simp add: s1(2) sealed_contents_def)
  from Cons.IH [OF _ this] Cons.prems(1) show ?case
    by (auto simp: s1 fold_asm_append sealed_contents_def)
qed (simp add: sealed_contents_def)

subsection \<open>Properties\<close>

text \<open>
  C7: the live message is the sealed message. For every answer the API streams block by block,
  cut into pieces in any way, the fold returns exactly the blocks of the answer, and what the
  agent has assembled from the bus events by then has the same contents, in the same order, as
  the message that is sealed: text and thinking joined, every tool call with its decoded input.
  (No text or thinking block is blank without being empty, two neighbouring visible blocks are
  not both text or both thinking, and the input of each tool call is a JSON object.)
\<close>

theorem stream_live_is_sealed:
  assumes "events_read print parse (answer_events bs stop)" and "length bs < 2 ^ 63"
    and "list_all (settled parse) bs" and "successively apart (sealed_contents parse bs)"
  shows "\<exists>nm out s. drainSSE parse model (sse_lines print (answer_events bs stop)) = (Inr nm, out)
    \<and> nm_Content nm = map (streamed parse) bs
    \<and> fold_asm out (newAsm RoleAssistant) = Some s \<and> as_content s = m_content (decodeNativeMessage nm)"
proof -
  have "as_content (newAsm RoleAssistant) = []" by (simp add: newAsm_def zero_message_def)
  then obtain s where "fold_asm (concat (map (announced parse) bs)) (newAsm RoleAssistant) = Some s"
    "as_content s = sealed_contents parse bs" using blocks_live [OF assms(3), of "newAsm RoleAssistant"] assms(4) by auto
  with drain_answer [OF assms(1,2), of model] show ?thesis
    by (simp add: answer_message_def zero_native_def decodeNativeMessage_def zero_message_def sealed_contents_def)
qed

definition demo_answer :: "api_block list" where
  "demo_answer = [ApiThinking [] [''h'', ''m''] [''sig''], ApiText [''o'', ''k''], ApiTool ''t1'' ''bash'' [[], ''{'', ''}'']]"

definition demo_print :: "json \<Rightarrow> rawjson" where
  "demo_print = table_print (map snd (answer_events demo_answer ''tool_use''))"

definition demo_parse :: "rawjson \<Rightarrow> json option" where
  "demo_parse = table_parse (map snd (answer_events demo_answer ''tool_use'')) [(''{}'', JObj [])]"

lemma demo_read: "events_read demo_print demo_parse (answer_events demo_answer ''tool_use'')"
  unfolding events_read_def demo_print_def demo_parse_def using table_codec by force

lemma trim_plain: "trim_space ''hm'' = ''hm''" "trim_space ''ok'' = ''ok''"
  by code_simp+

theorem stream_live_is_sealed_witness:
  "\<exists>nm out s. drainSSE demo_parse ''m'' (sse_lines demo_print (answer_events demo_answer ''tool_use'')) = (Inr nm, out)
    \<and> fold_asm out (newAsm RoleAssistant) = Some s
    \<and> map c_type (as_content s) = [ContentThinking, ContentProse, ContentToolInvoke]
    \<and> as_content s = m_content (decodeNativeMessage nm)"
proof -
  have inp: "streamed_input demo_parse [[], ''{'', ''}''] = GMap (Some [])"
    by (simp add: streamed_input_def finish_input_def demo_parse_def table_parse_def json_args_def)
  have st: "list_all (settled demo_parse) demo_answer"
    by (simp add: demo_answer_def inp trim_plain)
  have sc: "sealed_contents demo_parse demo_answer = [zero_content\<lparr>c_type := ContentThinking, c_text := ''hm''\<rparr>,
      zero_content\<lparr>c_type := ContentProse, c_text := ''ok''\<rparr>,
      zero_content\<lparr>c_type := ContentToolInvoke, c_tool_call_id := ''t1'', c_tool_name := ''bash'', c_arguments := Some []\<rparr>]"
    by (simp add: sealed_contents_def demo_answer_def inp decode_block_def validNativeBlock_def text_block_def trim_plain zero_block_def)
  have "successively apart (sealed_contents demo_parse demo_answer)" by (simp add: sc apart_def zero_content_def)
  with stream_live_is_sealed [OF demo_read _ st, of "''m''"] obtain nm out s where
    r: "drainSSE demo_parse ''m'' (sse_lines demo_print (answer_events demo_answer ''tool_use'')) = (Inr nm, out)"
    "nm_Content nm = map (streamed demo_parse) demo_answer"
    "fold_asm out (newAsm RoleAssistant) = Some s" "as_content s = m_content (decodeNativeMessage nm)"
    by (auto simp: demo_answer_def)
  have "m_content (decodeNativeMessage nm) = sealed_contents demo_parse demo_answer"
    by (simp add: decodeNativeMessage_def zero_message_def r(2) sealed_contents_def)
  with r sc show ?thesis by (simp add: zero_content_def)
qed

text \<open>
  A blank text block breaks this: the deltas open a block in the live message, while the decoder
  drops the block from the sealed one, so every later block is one place further in the live
  message than in the log.
\<close>

theorem blank_text_shifts_live:
  assumes "bs = [ApiText [newline], ApiTool tid nam ds]" and "settled parse (ApiTool tid nam ds)"
    and "events_read print parse (answer_events bs stop)"
  shows "\<exists>nm out s. drainSSE parse model (sse_lines print (answer_events bs stop)) = (Inr nm, out)
    \<and> fold_asm out (newAsm RoleAssistant) = Some s
    \<and> map c_type (as_content s) = [ContentProse, ContentToolInvoke]
    \<and> map c_type (m_content (decodeNativeMessage nm)) = [ContentToolInvoke]"
proof -
  have blank: "trim_space newline = []" by code_simp
  obtain ms where ms: "streamed_input parse ds = GMap (Some ms)" and tid: "tid \<noteq> []"
    using assms(2) by (auto split: go_any.splits option.splits)
  let ?s = "newAsm RoleAssistant"
  have "as_content ?s = []" by (simp add: newAsm_def zero_message_def)
  then have one: "fold_asm (announced parse (ApiText [newline])) ?s =
      Some (put_content [zero_content\<lparr>c_type := ContentProse, c_text := newline\<rparr>] ?s)"
    using deltas_begin [of ?s ContentProse "[newline]"] by simp
  have dec: "decode_block (streamed parse (ApiTool tid nam ds)) = [zero_content\<lparr>c_type := ContentToolInvoke,
      c_tool_call_id := tid, c_tool_name := nam, c_arguments := Some ms\<rparr>]"
    by (simp add: ms tid decode_block_def validNativeBlock_def zero_block_def)
  let ?s1 = "put_content [zero_content\<lparr>c_type := ContentProse, c_text := newline\<rparr>] ?s"
  have "apart (last (as_content ?s1)) c" if "c \<in> set (decode_block (streamed parse (ApiTool tid nam ds)))" for c
    using that unfolding dec by (simp add: apart_def zero_content_def)
  then obtain s2 where two: "fold_asm (announced parse (ApiTool tid nam ds)) ?s1 = Some s2"
    "as_content s2 = as_content ?s1 @ decode_block (streamed parse (ApiTool tid nam ds))"
    using block_live [OF assms(2), of ?s1] by blast
  have "fold_asm (concat (map (announced parse) bs)) ?s = Some s2"
    using one two(1) by (simp add: assms(1) fold_asm_append del: announced.simps)
  moreover have "map c_type (as_content s2) = [ContentProse, ContentToolInvoke]" unfolding two(2) dec by (simp add: zero_content_def)
  moreover have "decode_block (text_block newline) = []"
    by (simp add: decode_block_def validNativeBlock_def text_block_def blank)
  then have "m_content (decodeNativeMessage (answer_message parse model bs stop)) =
      decode_block (streamed parse (ApiTool tid nam ds))"
    by (simp add: assms(1) answer_message_def zero_native_def decodeNativeMessage_def zero_message_def)
  ultimately show ?thesis
    using drain_answer [OF assms(3), of model] unfolding dec by (simp add: assms(1) zero_content_def del: streamed.simps announced.simps)
qed

end
