(* ===== verification/Anthropic_Retry.thy ===== *)
theory Anthropic_Retry
  imports Json_Struct
begin

section \<open>Authenticated requests with retries (\<open>internal/provider/anthropic/anthropic.go\<close>)\<close>

text \<open>
  \<open>doWithAuthRetry\<close>: one retry with a fresh token after a 401, five more attempts after
  transient failures, with exponential backoff or the server's \<open>Retry-After\<close>. What the outside
  world does in the \<open>n\<close>-th pass through the loop (the HTTP exchange, the token resolver, the
  cancellation of the context) is the input \<open>world n\<close>; the trace records what the loop does.
  Durations are \<open>int64\<close> nanoseconds.
\<close>

subsection \<open>Headers\<close>

definition apiVersion :: string where "apiVersion = ''2023-06-01''"
definition claudeCodeVersion :: string where "claudeCodeVersion = ''2.1.62''"
definition betaModels :: string where "betaModels = ''claude-code-20250219,oauth-2025-04-20''"
definition betaMessages :: string where
  "betaMessages = ''claude-code-20250219,oauth-2025-04-20,fine-grained-tool-streaming-2025-05-14,prompt-caching-2024-07-31''"

definition isOAuthToken :: "string \<Rightarrow> bool" where
  "isOAuthToken key \<longleftrightarrow> contains key ''sk-ant-oat''"

text \<open>The headers a request gets, by name.\<close>

definition setAuthHeaders :: "string \<Rightarrow> string \<Rightarrow> (string, string) fmap \<Rightarrow> (string, string) fmap" where
  "setAuthHeaders apiKey betas h =
     (let h1 = fmupd ''anthropic-version'' apiVersion h
      in if isOAuthToken apiKey then
           fmupd ''anthropic-dangerous-direct-browser-access'' ''true''
             (fmupd ''x-app'' ''cli''
             (fmupd ''User-Agent'' (''claude-cli/'' @ claudeCodeVersion)
             (fmupd ''anthropic-beta'' betas
             (fmupd ''Authorization'' (''Bearer '' @ apiKey) h1))))
         else fmupd ''x-api-key'' apiKey h1)"

subsection \<open>Transient failures and delays\<close>

definition maxTransientRetries :: nat where "maxTransientRetries = 5"
definition retryBaseDelay :: int where "retryBaseDelay = 1000000000"
definition retryMaxDelay :: int where "retryMaxDelay = 30 * 1000000000"

definition isTransientStatus :: "int \<Rightarrow> bool" where
  "isTransientStatus code \<longleftrightarrow> code = 429 \<or> code = 529 \<or> (code \<ge> 500 \<and> code \<le> 599)"

definition backoffDelay :: "nat \<Rightarrow> int" where
  "backoffDelay attempt =
     (let d = wrap64 (retryBaseDelay * 2 ^ attempt) in if d > retryMaxDelay \<or> d \<le> 0 then retryMaxDelay else d)"

text \<open>\<open>h\<close> is the value of the header, empty when it is absent.\<close>

definition parseRetryAfter :: "string \<Rightarrow> int" where
  "parseRetryAfter h =
     (if h \<noteq> [] then
        (case Atoi (trim_space h) of
           Some secs \<Rightarrow> (if secs \<ge> 0 then wrap64 (secs * 1000000000) else 0)
         | None \<Rightarrow> 0)
      else 0)"

subsection \<open>The loop\<close>

datatype http_outcome =
    HttpError bool string    \<comment> \<open>whether the context had ended; the error\<close>
  | HttpResponse int string string  \<comment> \<open>status, \<open>Retry-After\<close>, body\<close>

record pass_world =
  pw_sleep_ok :: bool
  pw_build_err :: "string option"
  pw_http :: http_outcome
  pw_invalidate_err :: "string option"
  pw_resolve :: "string + string"

datatype retry_error =
    ResolveToken string
  | ContextEnded
  | BuildRequest string
  | HttpCancelled string
  | ResolveAfter401 "string option" string
  | InvalidateFailed string
  | TokenUnchanged
  | GivingUp "retry_cause option"
and retry_cause = Network string | TransientStatus int

datatype retry_event =
    Slept int
  | Called string http_outcome
  | Invalidated string

function (sequential) retry_loop ::
  "(nat \<Rightarrow> pass_world) \<Rightarrow> nat \<Rightarrow> nat \<Rightarrow> bool \<Rightarrow> string \<Rightarrow> retry_cause option \<Rightarrow> int
     \<Rightarrow> (retry_error + int \<times> string) \<times> string \<times> retry_event list" where
  "retry_loop world n attempt authRetried apiKey lastErr delay =
     (if attempt > maxTransientRetries then (Inl (GivingUp lastErr), apiKey, [])
      else if delay > 0 \<and> \<not> pw_sleep_ok (world n) then (Inl ContextEnded, apiKey, [])
      else
        let slept = (if delay > 0 then [Slept delay] else [])
        in case pw_build_err (world n) of
             Some err \<Rightarrow> (Inl (BuildRequest err), apiKey, slept)
           | None \<Rightarrow>
               (let tr = slept @ [Called apiKey (pw_http (world n))]
                in case pw_http (world n) of
                     HttpError cancelled err \<Rightarrow>
                       (if cancelled then (Inl (HttpCancelled err), apiKey, tr)
                        else case retry_loop world (n + 1) (attempt + 1) authRetried apiKey (Some (Network err))
                               (backoffDelay attempt) of (r, k, tr') \<Rightarrow> (r, k, tr @ tr'))
                   | HttpResponse status ra body \<Rightarrow>
                       (if status = 401 \<and> \<not> authRetried then
                          (let tr1 = tr @ [Invalidated apiKey]; ierr = pw_invalidate_err (world n)
                           in case pw_resolve (world n) of
                                Inl rerr \<Rightarrow> (Inl (ResolveAfter401 ierr rerr), apiKey, tr1)
                              | Inr newKey \<Rightarrow>
                                  (if newKey = apiKey then
                                     (case ierr of
                                        Some e \<Rightarrow> (Inl (InvalidateFailed e), apiKey, tr1)
                                      | None \<Rightarrow> (Inl TokenUnchanged, apiKey, tr1))
                                   else case retry_loop world (n + 1) attempt True newKey lastErr 0 of
                                          (r, k, tr') \<Rightarrow> (r, k, tr1 @ tr')))
                        else if isTransientStatus status then
                          (case retry_loop world (n + 1) (attempt + 1) authRetried apiKey (Some (TransientStatus status))
                               (if parseRetryAfter ra > 0 then parseRetryAfter ra else backoffDelay attempt) of
                             (r, k, tr') \<Rightarrow> (r, k, tr @ tr'))
                        else (Inr (status, body), apiKey, tr))))"
  by pat_completeness auto
termination
  by (relation "measure (\<lambda>(world, n, attempt, authRetried, k, e, d).
        2 * (maxTransientRetries + 1 - attempt) + (if authRetried then 0 else 1))")
    (auto simp: maxTransientRetries_def)

declare retry_loop.simps [simp del]

definition doWithAuthRetry ::
  "(string + string) \<Rightarrow> (nat \<Rightarrow> pass_world) \<Rightarrow> (retry_error + int \<times> string) \<times> string \<times> retry_event list" where
  "doWithAuthRetry resolved world =
     (case resolved of
        Inl err \<Rightarrow> (Inl (ResolveToken err), [], [])
      | Inr apiKey \<Rightarrow> retry_loop world 0 0 False apiKey None 0)"

subsection \<open>Listing the models\<close>

record model_info =
  mi_ID :: string
  mi_Name :: string
  mi_Provider :: string

datatype models_error = RequestFailed retry_error | ModelsStatus int string | DecodeModels

definition model_of :: "json \<Rightarrow> model_info option" where
  "model_of v =
     (case as_object (Some v) of
        None \<Rightarrow> None
      | Some j \<Rightarrow> (case (as_string (member j ''id''), as_string (member j ''display_name'')) of
           (Some i, Some nam) \<Rightarrow> Some \<lparr>mi_ID = i, mi_Name = nam, mi_Provider = ''anthropic''\<rparr> | _ \<Rightarrow> None))"

definition an_Models ::
  "(rawjson \<Rightarrow> json option) \<Rightarrow> (string + string) \<Rightarrow> (nat \<Rightarrow> pass_world) \<Rightarrow> models_error + model_info list" where
  "an_Models parse resolved world =
     (case fst (doWithAuthRetry resolved world) of
        Inl err \<Rightarrow> Inl (RequestFailed err)
      | Inr (status, body) \<Rightarrow>
          (if status \<noteq> 200 then Inl (ModelsStatus status body)
           else case Option.bind (Option.bind (parse body) (\<lambda>v. as_object (Some v))) (\<lambda>j. as_list model_of (member j ''data'')) of
             None \<Rightarrow> Inl DecodeModels
           | Some ms \<Rightarrow> Inr ms))"

subsection \<open>Bounds\<close>

definition calls :: "retry_event list \<Rightarrow> http_outcome list" where
  "calls tr = List.map_filter (\<lambda>e. case e of Called _ r \<Rightarrow> Some r | _ \<Rightarrow> None) tr"

definition invalidations :: "retry_event list \<Rightarrow> string list" where
  "invalidations tr = List.map_filter (\<lambda>e. case e of Invalidated k \<Rightarrow> Some k | _ \<Rightarrow> None) tr"

definition sleeps :: "retry_event list \<Rightarrow> int list" where
  "sleeps tr = List.map_filter (\<lambda>e. case e of Slept d \<Rightarrow> Some d | _ \<Rightarrow> None) tr"

text \<open>A failure worth a retry: an error of the network or a transient status.\<close>

definition transient :: "http_outcome \<Rightarrow> bool" where
  "transient r = (case r of HttpError cancelled _ \<Rightarrow> \<not> cancelled | HttpResponse status _ _ \<Rightarrow> isTransientStatus status)"

lemma trace_append [simp]:
  "calls (a @ b) = calls a @ calls b" "invalidations (a @ b) = invalidations a @ invalidations b"
  "sleeps (a @ b) = sleeps a @ sleeps b" "calls [] = []" "invalidations [] = []" "sleeps [] = []"
  "calls (Slept d # t) = calls t" "calls (Called k r # t) = r # calls t" "calls (Invalidated k # t) = calls t"
  "invalidations (Slept d # t) = invalidations t" "invalidations (Called k r # t) = invalidations t"
  "invalidations (Invalidated k # t) = k # invalidations t"
  "sleeps (Slept d # t) = d # sleeps t" "sleeps (Called k r # t) = sleeps t" "sleeps (Invalidated k # t) = sleeps t"
  by (simp_all add: calls_def invalidations_def sleeps_def List.map_filter_def)

lemma backoff_bounds: "0 < backoffDelay attempt" "backoffDelay attempt \<le> retryMaxDelay"
  by (auto simp: backoffDelay_def Let_def retryMaxDelay_def)

lemma backoff_values:
  "backoffDelay 0 = 1000000000" "backoffDelay 1 = 2000000000" "backoffDelay 2 = 4000000000"
  "backoffDelay 3 = 8000000000" "backoffDelay 4 = 16000000000" "backoffDelay 5 = 30000000000"
  by (simp_all add: backoffDelay_def retryBaseDelay_def retryMaxDelay_def wrap64_def)

text \<open>The delay after a failed attempt.\<close>

definition delay_after :: "nat \<Rightarrow> http_outcome \<Rightarrow> int" where
  "delay_after attempt r =
     (case r of
        HttpResponse _ ra _ \<Rightarrow> (if parseRetryAfter ra > 0 then parseRetryAfter ra else backoffDelay attempt)
      | HttpError _ _ \<Rightarrow> backoffDelay attempt)"

definition unhinted :: "http_outcome \<Rightarrow> bool" where
  "unhinted r = (case r of HttpResponse _ ra _ \<Rightarrow> ra = [] | HttpError _ _ \<Rightarrow> True)"

text \<open>One pass: it ends, retries after a transient failure, or retries with a fresh token.\<close>

lemma retry_cases:
  assumes "retry_loop world n attempt authRetried apiKey lastErr delay = (r, k, tr)"
    and "attempt \<le> maxTransientRetries"
  defines "sl \<equiv> if delay > 0 then [Slept delay] else []" and "out \<equiv> pw_http (world n)"
  obtains
    (Failed) e tr1 where "r = Inl e" "\<And>c. e \<noteq> GivingUp c" "tr = [] \<or> tr = sl @ tr1"
      "tr1 = [] \<or> tr1 = [Called apiKey out] \<and> \<not> transient out
        \<or> tr1 = [Called apiKey out, Invalidated apiKey] \<and> \<not> authRetried \<and> \<not> transient out"
  | (Answered) status ra body where "r = Inr (status, body)" "out = HttpResponse status ra body" "tr = sl @ [Called apiKey out]"
      "\<not> transient out" "status = 401 \<Longrightarrow> authRetried"
  | (Again) e tr' where "transient out" "tr = sl @ Called apiKey out # tr'"
      "retry_loop world (n + 1) (attempt + 1) authRetried apiKey e (delay_after attempt out) = (r, k, tr')"
  | (Fresh) key tr' where "\<not> authRetried" "\<not> transient out" "tr = sl @ Called apiKey out # Invalidated apiKey # tr'"
      "retry_loop world (n + 1) attempt True key lastErr 0 = (r, k, tr')"
proof -
  have unf: "retry_loop world n attempt authRetried apiKey lastErr delay = (r, k, tr)"
    and at: "\<not> attempt > maxTransientRetries" using assms by simp_all
  show thesis
  proof (cases "delay > 0 \<and> \<not> pw_sleep_ok (world n)")
    case True
    then show ?thesis using unf at Failed [of ContextEnded "[]"] by (subst (asm) retry_loop.simps) auto
  next
    case awake: False
    show ?thesis
    proof (cases "pw_build_err (world n)")
      case (Some err)
      then show ?thesis using unf at awake Failed [of "BuildRequest err" "[]"]
        by (subst (asm) retry_loop.simps) (auto simp: sl_def)
    next
      case built: None
      show ?thesis
      proof (cases "pw_http (world n)")
        case (HttpError cancelled err)
        show ?thesis
        proof (cases cancelled)
          case True
          then show ?thesis using unf at awake built HttpError Failed [of "HttpCancelled err" "[Called apiKey out]"]
            by (subst (asm) retry_loop.simps) (auto simp: sl_def out_def transient_def)
        next
          case False
          then show ?thesis using unf at awake built HttpError Again [of _ "Some (Network err)"]
            by (subst (asm) retry_loop.simps)
              (auto simp: sl_def out_def transient_def delay_after_def split: prod.splits)
        qed
      next
        case (HttpResponse status ra body)
        consider (fresh) "status = 401" "\<not> authRetried" | (trans) "isTransientStatus status" "\<not> (status = 401 \<and> \<not> authRetried)"
          | (fin) "\<not> isTransientStatus status" "\<not> (status = 401 \<and> \<not> authRetried)" by blast
        then show ?thesis
        proof cases
          case fresh
          have nt: "\<not> transient out" using fresh by (simp add: out_def HttpResponse transient_def isTransientStatus_def)
          show ?thesis
          proof (cases "\<exists>key. pw_resolve (world n) = Inr key \<and> key \<noteq> apiKey")
            case True
            then show ?thesis using unf at awake built HttpResponse fresh nt Fresh
              by (subst (asm) retry_loop.simps) (auto simp: sl_def out_def split: prod.splits)
          next
            case False
            then show ?thesis using unf at awake built HttpResponse fresh nt
                Failed [of _ "[Called apiKey out, Invalidated apiKey]"]
              by (subst (asm) retry_loop.simps) (auto simp: sl_def out_def Let_def split: sum.splits option.splits if_splits)
          qed
        next
          case trans
          then show ?thesis using unf at awake built HttpResponse Again [of _ "Some (TransientStatus status)"]
            by (subst (asm) retry_loop.simps)
              (auto simp: sl_def out_def transient_def delay_after_def split: prod.splits)
        next
          case fin
          then show ?thesis using unf at awake built HttpResponse Answered [of status body ra]
            by (subst (asm) retry_loop.simps) (auto simp: sl_def out_def transient_def)
        qed
      qed
    qed
  qed
qed

lemma delay_pos: "0 < delay_after attempt r"
  by (simp add: delay_after_def backoff_bounds split: http_outcome.splits)

lemma delay_plain: "unhinted r \<Longrightarrow> delay_after attempt r = backoffDelay attempt"
  by (auto simp: delay_after_def unhinted_def parseRetryAfter_def split: http_outcome.splits)

definition backoff_sum :: "nat \<Rightarrow> int" where
  "backoff_sum attempt = sum_list (map backoffDelay [attempt..<maxTransientRetries])"

lemma backoff_sum_rec: "attempt < maxTransientRetries \<Longrightarrow> backoff_sum attempt = backoffDelay attempt + backoff_sum (attempt + 1)"
  by (simp add: backoff_sum_def upt_conv_Cons)

definition gave_up :: "retry_error + int \<times> string \<Rightarrow> bool" where
  "gave_up r = (case r of Inl (GivingUp _) \<Rightarrow> True | _ \<Rightarrow> False)"

lemma gave_up_simps [simp]: "gave_up (Inl (GivingUp c))" "\<not> gave_up (Inr x)"
  "(\<And>c. e \<noteq> GivingUp c) \<Longrightarrow> \<not> gave_up (Inl e)"
  by (auto simp: gave_up_def split: retry_error.splits)

text \<open>What a loop that starts at \<open>attempt\<close> can still do.\<close>

definition within_budget :: "nat \<Rightarrow> bool \<Rightarrow> int \<Rightarrow> (retry_error + int \<times> string) \<Rightarrow> retry_event list \<Rightarrow> bool" where
  "within_budget attempt authRetried delay r tr \<longleftrightarrow>
     length (filter transient (calls tr)) + (if gave_up r then 0 else 1) \<le> maxTransientRetries + 1 - attempt
     \<and> length (calls tr) \<le> length (filter transient (calls tr)) + (if gave_up r then 0 else 1) + length (invalidations tr)
     \<and> length (invalidations tr) \<le> (if authRetried then 0 else 1)
     \<and> (gave_up r \<longrightarrow> length (filter transient (calls tr)) = maxTransientRetries + 1 - attempt)
     \<and> (\<forall>status body. r = Inr (status, body) \<longrightarrow> \<not> isTransientStatus status
          \<and> (status = 401 \<longrightarrow> authRetried \<or> invalidations tr \<noteq> []))
     \<and> (list_all unhinted (calls tr) \<longrightarrow> sum_list (sleeps tr) \<le> delay + backoff_sum attempt)
     \<and> (attempt > maxTransientRetries \<longrightarrow> tr = [])"

lemma backoff_sum_nonneg: "0 \<le> backoff_sum attempt"
  unfolding backoff_sum_def by (rule sum_list_nonneg) (auto intro: less_imp_le backoff_bounds)

lemma retry_within_budget:
  assumes "retry_loop world n attempt authRetried apiKey lastErr delay = (r, k, tr)"
    and "attempt \<le> maxTransientRetries + 1" and "0 \<le> delay"
  shows "within_budget attempt authRetried delay r tr"
  using assms
proof (induction "2 * (maxTransientRetries + 1 - attempt) + (if authRetried then 0 else 1)" arbitrary: n attempt authRetried apiKey lastErr delay tr
    rule: less_induct)
  case less
  show ?case
  proof (cases "attempt \<le> maxTransientRetries")
    case False
    with less.prems show ?thesis
      by (subst (asm) retry_loop.simps) (auto simp: within_budget_def backoff_sum_def)
  next
    case True
    note nonneg = backoff_sum_nonneg [of attempt]
    from less.prems(1) True show ?thesis
    proof (cases rule: retry_cases)
      case (Failed e tr1)
      then show ?thesis using less.prems(3) nonneg True by (auto simp: within_budget_def)
    next
      case (Answered status ra body)
      then show ?thesis using less.prems(3) nonneg True by (auto simp: within_budget_def transient_def)
    next
      case (Again e tr')
      have "within_budget (attempt + 1) authRetried (delay_after attempt (pw_http (world n))) r tr'"
        by (rule less.hyps [OF _ Again(3)]) (use True less_imp_le [OF delay_pos] in auto)
      moreover have "sum_list (sleeps tr') \<le> backoff_sum attempt" if "list_all unhinted (calls tr)"
        using that Again(2) calculation True nonneg delay_plain [of "pw_http (world n)" attempt] backoff_sum_rec [of attempt]
        by (cases "attempt = maxTransientRetries") (auto simp: within_budget_def)
      ultimately show ?thesis using Again(1,2) True less.prems(3) by (auto simp: within_budget_def)
    next
      case (Fresh key tr')
      have "within_budget attempt True 0 r tr'"
        by (rule less.hyps [OF _ Fresh(4)]) (use True Fresh(1) in auto)
      then show ?thesis using Fresh(1-3) True less.prems(3) by (auto simp: within_budget_def)
    qed
  qed
qed

subsection \<open>Properties\<close>

text \<open>
  C20: the retries of one request are bounded whatever the network, the server and the token
  resolver do: at most seven HTTP calls and one invalidated token; it gives up only after six
  transient failures; a response it returns is never a transient status, and is a 401 only after
  a fresh token was tried. When the server never sets \<open>Retry-After\<close> it sleeps 31 seconds at most
  in total.
\<close>

theorem retry_bounded:
  assumes "doWithAuthRetry resolved world = (r, k, tr)"
  shows "length (calls tr) \<le> 7 \<and> length (invalidations tr) \<le> 1
    \<and> (gave_up r \<longrightarrow> length (filter transient (calls tr)) = 6)
    \<and> (\<forall>status body. r = Inr (status, body) \<longrightarrow> \<not> isTransientStatus status \<and> (status = 401 \<longrightarrow> invalidations tr \<noteq> []))
    \<and> (list_all unhinted (calls tr) \<longrightarrow> sum_list (sleeps tr) \<le> 31 * 1000000000)"
proof (cases resolved)
  case (Inl err)
  then show ?thesis using assms by (auto simp: doWithAuthRetry_def gave_up_def)
next
  case (Inr key)
  then have "within_budget 0 False 0 r tr"
    using assms by (intro retry_within_budget [where attempt = 0]) (auto simp: doWithAuthRetry_def)
  moreover have "backoff_sum 0 = 31 * 1000000000"
    by (simp add: backoff_sum_def maxTransientRetries_def upt_rec backoffDelay_def retryBaseDelay_def retryMaxDelay_def wrap64_def)
  ultimately show ?thesis by (auto simp: within_budget_def maxTransientRetries_def split: if_splits)
qed

definition demo_world :: "nat \<Rightarrow> pass_world" where
  "demo_world n = \<lparr>pw_sleep_ok = True, pw_build_err = None,
     pw_http = (if n = 0 then HttpResponse 401 [] [] else if n < 3 then HttpResponse 529 [] [] else HttpResponse 200 [] ''ok''),
     pw_invalidate_err = None, pw_resolve = Inr ''new''\<rparr>"

theorem retry_bounded_witness:
  "\<exists>tr. doWithAuthRetry (Inr ''old'') demo_world = (Inr (200, ''ok''), ''new'', tr)
     \<and> length (calls tr) \<le> 7 \<and> invalidations tr = [''old''] \<and> sum_list (sleeps tr) \<le> 31 * 1000000000"
proof -
  have run: "doWithAuthRetry (Inr ''old'') demo_world = (Inr (200, ''ok''), ''new'',
      [Called ''old'' (HttpResponse 401 [] []), Invalidated ''old'', Called ''new'' (HttpResponse 529 [] []),
       Slept 1000000000, Called ''new'' (HttpResponse 529 [] []), Slept 2000000000, Called ''new'' (HttpResponse 200 [] ''ok'')])"
    by (simp add: doWithAuthRetry_def demo_world_def retry_loop.simps maxTransientRetries_def isTransientStatus_def
        parseRetryAfter_def backoff_values [simplified])
  show ?thesis unfolding run using retry_bounded [OF run] by (auto simp: unhinted_def)
qed

end
