(* ===== verification/Anthropic_Send.thy ===== *)
theory Anthropic_Send
  imports Anthropic_Stream Anthropic_Retry
begin

section \<open>One turn with the provider (\<open>internal/provider/anthropic/anthropic.go\<close>: \<open>Send\<close>)\<close>

text \<open>
  \<open>Send\<close> brings the projection up to date, assembles the request, posts it with retries, folds
  the answer and lands it: in the log, on the bus (with the bytes for the translation cache) and
  in the retained projection. The log is the agent's log facade (\<open>i_read\<close>, \<open>i_append\<close>); the
  translation cache is a log of its own, whose operations are arguments too. \<open>an_cache\<close> holds the
  opened cache itself.
\<close>

subsection \<open>Settings\<close>

record send_knobs =
  kn_Model :: string
  kn_MaxTokens :: int
  kn_ReminderRenderer :: string

definition New :: "send_knobs \<Rightarrow> ('e, 'c) anthropic" where
  "New k = \<lparr>an_Model = kn_Model k, an_MaxTokens = kn_MaxTokens k,
     an_ReminderRenderer = (if kn_ReminderRenderer k = [] then ''tag'' else kn_ReminderRenderer k),
     an_Templates = None, an_CacheNamespace = ''anthropic'', an_cache = None, an_projection = None\<rparr>"

definition an_Fingerprint :: "('e, 'c) anthropic \<Rightarrow> string" where
  "an_Fingerprint a =
     (let rr = (if an_ReminderRenderer a = [] then ''tag'' else an_ReminderRenderer a) in ''anthropic/'' @ rr @ ''/v5'')"

definition SetModel :: "string \<Rightarrow> ('e, 'c) anthropic \<Rightarrow> ('e, 'c) anthropic" where
  "SetModel model a = a\<lparr>an_Model := model\<rparr>"

definition resolveModel :: "(rawjson \<Rightarrow> json option) \<Rightarrow> ('e, 'c) anthropic \<Rightarrow> snapshot \<Rightarrow> string" where
  "resolveModel parse a snap =
     (case snap_Lookup (unmarshal_string parse) snap ''system.model'' of Some v \<Rightarrow> v | None \<Rightarrow> an_Model a)"

subsection \<open>The translation cache\<close>

definition invalidateIfStale ::
  "('c \<Rightarrow> wire_entry option) \<Rightarrow> ('c \<Rightarrow> 'ce + 'c) \<Rightarrow> ('e, 'c) anthropic \<Rightarrow> 'c \<Rightarrow> bool \<times> 'c" where
  "invalidateIfStale peek clear a s =
     (case ClearStaleTranslationCache peek clear s (an_Fingerprint a) of
        ((_, _, Some _), s') \<Rightarrow> (False, s')
      | ((_, _, None), s') \<Rightarrow> (True, s'))"

text \<open>\<open>open_cache\<close> is \<open>CacheOpen\<close>, if there is one.\<close>

definition cacheFor ::
  "('c \<Rightarrow> wire_entry option) \<Rightarrow> ('c \<Rightarrow> 'ce + 'c) \<Rightarrow> (string \<Rightarrow> 'ce + 'c) option \<Rightarrow> string
     \<Rightarrow> ('e, 'c) anthropic \<Rightarrow> 'c option \<times> ('e, 'c) anthropic" where
  "cacheFor peek clear open_cache aria a =
     (case open_cache of
        None \<Rightarrow> (None, a)
      | Some op \<Rightarrow>
          (if aria = [] then (None, a)
           else case an_cache a of
             Some c \<Rightarrow> (Some c, a)
           | None \<Rightarrow>
               (case op aria of
                  Inl _ \<Rightarrow> (None, a)
                | Inr s \<Rightarrow>
                    (case invalidateIfStale peek clear a s of
                       (False, _) \<Rightarrow> (None, a)
                     | (True, s') \<Rightarrow> (Some s', a\<lparr>an_cache := Some s'\<rparr>)))))"

text \<open>The loop of \<open>assistantCacheNative\<close> over the blocks of the answer.\<close>

fun cache_blocks :: "native_block list \<Rightarrow> native_block list \<Rightarrow> native_block list" where
  "cache_blocks content [] = content"
| "cache_blocks content (b # bs) =
     (case cacheableNativeBlock b of
        (_, True) \<Rightarrow> []
      | (keep, False) \<Rightarrow> cache_blocks (if keep then content @ [b] else content) bs)"

definition cached_native :: "native_message \<Rightarrow> native_message" where
  "cached_native msg = msg\<lparr>nm_StopReason := [], nm_Model := [], nm_Usage := None, nm_Content := cache_blocks [] (nm_Content msg)\<rparr>"

definition assistantCacheNative ::
  "(json \<Rightarrow> rawjson) \<Rightarrow> ('e, 'c) anthropic \<Rightarrow> native_message \<Rightarrow> assistant_cache" where
  "assistantCacheNative print a msg =
     \<lparr>ca_Namespace = an_CacheNamespace a,
      ca_Payload = (if length (cache_blocks [] (nm_Content msg)) = 0 then [] else [print (native_json (cached_native msg))]),
      ca_Fingerprint = an_Fingerprint a\<rparr>"

definition assistantCache ::
  "(json \<Rightarrow> rawjson) \<Rightarrow> (rawjson \<Rightarrow> string option) \<Rightarrow> ('e, 'c) anthropic \<Rightarrow> message \<Rightarrow> 'err + assistant_cache" where
  "assistantCache print unmarshal a msg =
     (case encode print unmarshal a msg fmempty of
        Inl err \<Rightarrow> Inl err
      | Inr encoded \<Rightarrow> Inr \<lparr>ca_Namespace = an_CacheNamespace a, ca_Payload = encoded, ca_Fingerprint = an_Fingerprint a\<rparr>)"

subsection \<open>The projection\<close>

definition anthropic_projection ::
  "(json \<Rightarrow> rawjson) \<Rightarrow> (rawjson \<Rightarrow> json option) \<Rightarrow> ('e, 'c) anthropic \<Rightarrow> message log_entry list \<Rightarrow> 'c option
     \<Rightarrow> (lt \<Rightarrow> patch list) option \<Rightarrow> (encoded_messages, 'c, unit) projection_config" where
  "anthropic_projection print parse a rows cache chalk =
     \<lparr>pc_Log = rows, pc_Cache = cache, pc_Chalkboard = chalk, pc_Previous = an_projection a,
      pc_Fingerprint = an_Fingerprint a, pc_Initial = no_messages,
      pc_Encode = encode print (unmarshal_string parse) a, pc_Append = AppendEncodedMessage\<rparr>"

text \<open>Returns the bytes per message with their times, the provider and the cache.\<close>

definition catchUp ::
  "(json \<Rightarrow> rawjson) \<Rightarrow> (rawjson \<Rightarrow> json option) \<Rightarrow> ('c \<Rightarrow> lt \<Rightarrow> wire_entry option)
     \<Rightarrow> ('c \<Rightarrow> wire_entry \<Rightarrow> 'ce + (wire_entry \<times> 'c)) \<Rightarrow> message log_entry list \<Rightarrow> 'c option
     \<Rightarrow> (lt \<Rightarrow> patch list) option \<Rightarrow> ('e, 'c) anthropic
     \<Rightarrow> (rawjson list list \<times> lt list) \<times> ('e, 'c) anthropic \<times> 'c option" where
  "catchUp print parse lookup add rows cache chalk a =
     (case ProjectIncrementally lookup add (anthropic_projection print parse a rows cache chalk) of
        (Inl _, _, cache', _) \<Rightarrow> (([], []), a, cache')
      | (Inr p, _, cache', _) \<Rightarrow>
          ((em_PerMessage (ip_State p), em_LogicalTimes (ip_State p)), a\<lparr>an_projection := Some p\<rparr>, cache'))"

definition acceptAssistantProjection :: "lt \<Rightarrow> rawjson list \<Rightarrow> ('e, 'c) anthropic \<Rightarrow> ('e, 'c) anthropic" where
  "acceptAssistantProjection k encoded a =
     (case an_projection a of
        None \<Rightarrow> a
      | Some p \<Rightarrow> a\<lparr>an_projection := Some (p\<lparr>ip_State := AppendEncodedMessage (ip_State p) encoded k,
           ip_Entries := ip_Entries p + 1, ip_LastLT := k\<rparr>)\<rparr>)"

subsection \<open>\<open>Send\<close>\<close>

record send_input =
  si_AriaID :: string
  si_Snapshot :: snapshot
  si_Chalkboard :: "(lt \<Rightarrow> patch list) option"
  si_Tools :: "provider_tool list"
  si_MaxTokens :: int

record ('l, 'c, 'ce) send_ops =
  o_print :: "json \<Rightarrow> rawjson"
  o_parse :: "rawjson \<Rightarrow> json option"
  o_read :: "'l \<Rightarrow> message log_entry list"
  o_append :: "'l \<Rightarrow> message log_entry \<Rightarrow> string + (message log_entry \<times> 'l)"
  o_lookup :: "'c \<Rightarrow> lt \<Rightarrow> wire_entry option"
  o_add :: "'c \<Rightarrow> wire_entry \<Rightarrow> 'ce + (wire_entry \<times> 'c)"
  o_peek :: "'c \<Rightarrow> wire_entry option"
  o_clear :: "'c \<Rightarrow> 'ce + 'c"
  o_open :: "(string \<Rightarrow> 'ce + 'c) option"

text \<open>What the outside does during one call: tokens, HTTP, the lines of the answer, the clock.\<close>

record send_world =
  sw_resolve :: "string + string"
  sw_resolveRetry :: "string + string"
  sw_passes :: "nat \<Rightarrow> pass_world"
  sw_stream :: "scan list"
  sw_now :: int

datatype send_error =
    EmptyContext
  | SendToken string
  | SendAssemble assemble_error
  | SendRequest retry_error
  | SendStatus int string
  | SendTransport string
  | SendStream stream_error
  | AppendAssistant string

text \<open>The outcome: error, provider, log, bus events, the request that was posted.\<close>

record ('e, 'c, 'l) sent =
  se_err :: "send_error option"
  se_provider :: "('e, 'c) anthropic"
  se_log :: 'l
  se_bus :: "bus_event list"
  se_request :: "native_request option"

definition failed :: "send_error \<Rightarrow> ('e, 'c) anthropic \<Rightarrow> 'l \<Rightarrow> bus_event list \<Rightarrow> native_request option \<Rightarrow> ('e, 'c, 'l) sent" where
  "failed err a l evs req = \<lparr>se_err = Some err, se_provider = a, se_log = l, se_bus = evs, se_request = req\<rparr>"

text \<open>The end of \<open>Send\<close>: what happens with the answer.\<close>

definition land_answer ::
  "('l, 'c, 'ce) send_ops \<Rightarrow> int \<Rightarrow> native_message \<Rightarrow> bus_event list \<Rightarrow> native_request option \<Rightarrow> 'l
     \<Rightarrow> ('e, 'c) anthropic \<Rightarrow> ('e, 'c, 'l) sent" where
  "land_answer ops now nm evs req l a =
     (if length (nm_Content nm) = 0 then \<lparr>se_err = None, se_provider = a, se_log = l, se_bus = evs, se_request = req\<rparr>
      else
        let msg0 = decodeNativeMessage nm;
            msg = (if m_timestamp msg0 = 0 then msg0\<lparr>m_timestamp := now\<rparr> else msg0)
        in case o_append ops l (new_entry msg) of
             Inl err \<Rightarrow> failed (AppendAssistant err) a l evs req
           | Inr (e, l') \<Rightarrow>
               (let native = assistantCacheNative (o_print ops) a nm
                in \<lparr>se_err = None, se_provider = acceptAssistantProjection (LT e) (ca_Payload native) a, se_log = l',
                    se_bus = evs @ [EvFigaro (msg\<lparr>m_logical_time := LT e\<rparr>) (Some native)], se_request = req\<rparr>))"

text \<open>The start, shared by both senders: the cache and the projection.\<close>

definition prepare ::
  "('l, 'c, 'ce) send_ops \<Rightarrow> send_input \<Rightarrow> 'l \<Rightarrow> ('e, 'c) anthropic \<Rightarrow> (rawjson list list \<times> lt list) \<times> ('e, 'c) anthropic" where
  "prepare ops inp l a =
     (let (cache, a1) = cacheFor (o_peek ops) (o_clear ops) (o_open ops) (si_AriaID inp) a;
          (bytes, a2, cache') = catchUp (o_print ops) (o_parse ops) (o_lookup ops) (o_add ops) (o_read ops l) cache (si_Chalkboard inp) a1
      in (bytes, if cache = None then a2 else a2\<lparr>an_cache := cache'\<rparr>))"

definition Send ::
  "('l, 'c, 'ce) send_ops \<Rightarrow> send_world \<Rightarrow> send_input \<Rightarrow> 'l \<Rightarrow> ('e, 'c) anthropic \<Rightarrow> ('e, 'c, 'l) sent" where
  "Send ops w inp l a =
     (let ((perMessage, lts), a1) = prepare ops inp l a
      in if length perMessage = 0 then failed EmptyContext a1 l [] None
         else case sw_resolve w of
           Inl err \<Rightarrow> failed (SendToken err) a1 l [] None
         | Inr apiKey \<Rightarrow>
             (let model = resolveModel (o_parse ops) a1 (si_Snapshot inp)
              in case projectMessagesWithLTs (o_parse ops) a1 perMessage lts (si_Snapshot inp) (si_Tools inp)
                        (si_MaxTokens inp) (isOAuthToken apiKey) model of
                   Inl err \<Rightarrow> failed (SendAssemble err) a1 l [] None
                 | Inr req \<Rightarrow>
                     (case fst (doWithAuthRetry (sw_resolveRetry w) (sw_passes w)) of
                        Inl err \<Rightarrow> failed (SendRequest err) a1 l [] (Some req)
                      | Inr (status, body) \<Rightarrow>
                          (if status \<noteq> 200 then failed (SendStatus status body) a1 l [] (Some req)
                           else case drainSSE (o_parse ops) model (sw_stream w) of
                             (Inl err, evs) \<Rightarrow> failed (SendStream err) a1 l evs (Some req)
                           | (Inr nm, evs) \<Rightarrow> land_answer ops (sw_now w) nm evs (Some req) l a1))))"

definition SendWithTransport ::
  "('l, 'c, 'ce) send_ops \<Rightarrow> send_world \<Rightarrow> (native_request \<Rightarrow> string + int \<times> string) \<Rightarrow> bool \<Rightarrow> send_input
     \<Rightarrow> 'l \<Rightarrow> ('e, 'c) anthropic \<Rightarrow> ('e, 'c, 'l) sent" where
  "SendWithTransport ops w fn oauth inp l a =
     (let ((perMessage, lts), a1) = prepare ops inp l a
      in if length perMessage = 0 then failed EmptyContext a1 l [] None
         else
           let model = resolveModel (o_parse ops) a1 (si_Snapshot inp)
           in case projectMessagesWithLTs (o_parse ops) a1 perMessage lts (si_Snapshot inp) (si_Tools inp)
                     (si_MaxTokens inp) oauth model of
                Inl err \<Rightarrow> failed (SendAssemble err) a1 l [] None
              | Inr req \<Rightarrow>
                  (case fn req of
                     Inl err \<Rightarrow> failed (SendTransport err) a1 l [] (Some req)
                   | Inr (status, body) \<Rightarrow>
                       (if status \<noteq> 200 then failed (SendStatus status body) a1 l [] (Some req)
                        else case drainSSE (o_parse ops) model (sw_stream w) of
                          (Inl err, evs) \<Rightarrow> failed (SendStream err) a1 l evs (Some req)
                        | (Inr nm, evs) \<Rightarrow> land_answer ops (sw_now w) nm evs (Some req) l a1)))"

subsection \<open>The provider beside the log\<close>

text \<open>
  The life of the provider next to a growing log: it catches up, the agent appends messages, an
  answer is landed (appended, its bytes committed to the cache by the agent and accepted into
  the projection), the process restarts with the cache it finds.
\<close>

inductive provider_run ::
  "(json \<Rightarrow> rawjson) \<Rightarrow> (rawjson \<Rightarrow> json option) \<Rightarrow> ('c \<Rightarrow> lt \<Rightarrow> wire_entry option)
     \<Rightarrow> ('c \<Rightarrow> wire_entry \<Rightarrow> 'ce + (wire_entry \<times> 'c)) \<Rightarrow> (lt \<Rightarrow> patch list) option
     \<Rightarrow> 'c \<Rightarrow> ('e, 'c) anthropic \<Rightarrow> 'c \<Rightarrow> message log_entry list \<Rightarrow> bool"
  for print :: "json \<Rightarrow> rawjson" and parse :: "rawjson \<Rightarrow> json option"
    and lookup :: "'c \<Rightarrow> lt \<Rightarrow> wire_entry option"
    and add :: "'c \<Rightarrow> wire_entry \<Rightarrow> 'ce + (wire_entry \<times> 'c)" and chalk :: "(lt \<Rightarrow> patch list) option" and c0 :: 'c
where
  start: "an_projection a = None \<Longrightarrow> provider_run print parse lookup add chalk c0 a c0 []"
| catch_up: "provider_run print parse lookup add chalk c0 a c rows \<Longrightarrow>
    catchUp print parse lookup add rows (Some c) chalk a = (bytes, a', Some c') \<Longrightarrow>
    provider_run print parse lookup add chalk c0 a' c' rows"
| logged: "provider_run print parse lookup add chalk c0 a c rows \<Longrightarrow> LT x \<notin> LT ` set rows \<Longrightarrow> LT x \<noteq> 0 \<Longrightarrow>
    renders_readable print parse (unmarshal_string parse) a (message_of chalk x) \<Longrightarrow>
    provider_run print parse lookup add chalk c0 a c (rows @ [x])"
| answered: "provider_run print parse lookup add chalk c0 a c rows \<Longrightarrow>
    catchUp print parse lookup add rows (Some c) chalk a = ((per, lts), a1, Some c1) \<Longrightarrow> per \<noteq> [] \<Longrightarrow>
    nm_Role nm = ''assistant'' \<Longrightarrow> Payload x = (decodeNativeMessage nm)\<lparr>m_timestamp := now\<rparr> \<Longrightarrow>
    LT x \<notin> LT ` set rows \<Longrightarrow> LT x \<noteq> 0 \<Longrightarrow> m_patches (message_of chalk x) = [] \<Longrightarrow>
    renders_readable print parse (unmarshal_string parse) a (message_of chalk x) \<Longrightarrow>
    readable print parse (cached_native nm) \<Longrightarrow>
    ca = assistantCacheNative print a1 nm \<Longrightarrow> ca_Payload ca \<noteq> [] \<Longrightarrow>
    add c1 \<lparr>LT = 0, FigaroLT = LT x, Payload = ca_Payload ca, Fingerprint = ca_Fingerprint ca\<rparr> = Inr (e, c2) \<Longrightarrow>
    provider_run print parse lookup add chalk c0 (acceptAssistantProjection (LT x) (ca_Payload ca) a1) c2 (rows @ [x])"
| restart: "provider_run print parse lookup add chalk c0 a c rows \<Longrightarrow>
    provider_run print parse lookup add chalk c0 (a\<lparr>an_projection := None\<rparr>) c rows"

lemma render_update [simp]:
  "renderMessage u (a\<lparr>an_projection := p\<rparr>) = renderMessage u a"
  "encode print u (a\<lparr>an_projection := p\<rparr>) = encode print u a"
  "renders_readable print parse u (a\<lparr>an_projection := p\<rparr>) = renders_readable print parse u a"
  "an_Fingerprint (a\<lparr>an_projection := p\<rparr>) = an_Fingerprint a"
proof -
  show r: "renderMessage u (a\<lparr>an_projection := p\<rparr>) = renderMessage u a"
    by (simp add: renderMessage_def renderPatchBlocks_def fun_eq_iff Let_def)
  show "encode print u (a\<lparr>an_projection := p\<rparr>) = encode print u a" by (simp add: encode_def fun_eq_iff r)
  show "renders_readable print parse u (a\<lparr>an_projection := p\<rparr>) = renders_readable print parse u a"
    by (simp add: renders_readable_def fun_eq_iff r)
qed (simp add: an_Fingerprint_def)

lemma projection_sel [simp]:
  "pc_Log (anthropic_projection print parse a rows c chalk) = rows"
  "pc_Cache (anthropic_projection print parse a rows c chalk) = c"
  "pc_Chalkboard (anthropic_projection print parse a rows c chalk) = chalk"
  "pc_Previous (anthropic_projection print parse a rows c chalk) = an_projection a"
  "pc_Fingerprint (anthropic_projection print parse a rows c chalk) = an_Fingerprint a"
  "pc_Initial (anthropic_projection print parse a rows c chalk) = no_messages"
  "pc_Encode (anthropic_projection print parse a rows c chalk) = encode print (unmarshal_string parse) a"
  "pc_Append (anthropic_projection print parse a rows c chalk) = AppendEncodedMessage"
  by (simp_all add: anthropic_projection_def)

lemma projection_update:
  "anthropic_projection print parse (a\<lparr>an_projection := p\<rparr>) rows c chalk =
     (anthropic_projection print parse a rows' c' chalk)\<lparr>pc_Log := rows, pc_Cache := c, pc_Previous := p\<rparr>"
  by (simp add: anthropic_projection_def)

lemma accept_as_update:
  "an_projection a = Some p \<Longrightarrow> acceptAssistantProjection k b a = a\<lparr>an_projection := Some (p\<lparr>ip_State :=
     AppendEncodedMessage (ip_State p) b k, ip_Entries := ip_Entries p + 1, ip_LastLT := k\<rparr>)\<rparr>"
  by (simp add: acceptAssistantProjection_def)

text \<open>What is cached of an answer has the tool calls of the message that is logged.\<close>

lemma cache_blocks_ids:
  assumes "cache_blocks acc bs \<noteq> []"
  shows "map nb_ID (filter (\<lambda>b. nb_Type b = ''tool_use'') (cache_blocks acc bs)) =
    map nb_ID (filter (\<lambda>b. nb_Type b = ''tool_use'') acc)
      @ map c_tool_call_id (filter (\<lambda>c. c_type c = ContentToolInvoke) (concat (map decode_block bs)))"
  using assms
proof (induction acc bs rule: cache_blocks.induct)
  case (2 content b bs)
  obtain keep fatal where kf: "cacheableNativeBlock b = (keep, fatal)" by fastforce
  with "2.prems" have fatal: "\<not> fatal" by auto
  let ?c = "if keep then content @ [b] else content"
  have ih: "map nb_ID (filter (\<lambda>b. nb_Type b = ''tool_use'') (cache_blocks ?c bs)) =
      map nb_ID (filter (\<lambda>b. nb_Type b = ''tool_use'') ?c)
      @ map c_tool_call_id (filter (\<lambda>c. c_type c = ContentToolInvoke) (concat (map decode_block bs)))"
    using "2.IH" [OF kf [symmetric]] "2.prems" kf fatal by simp
  have "map nb_ID (filter (\<lambda>b. nb_Type b = ''tool_use'') (if keep then [b] else [])) =
      map c_tool_call_id (filter (\<lambda>c. c_type c = ContentToolInvoke) (decode_block b))"
  proof (cases "nb_Type b = ''tool_use''")
    case True
    then show ?thesis using kf fatal
      by (auto simp: cacheableNativeBlock_def decode_block_def validNativeBlock_def zero_content_def is_map_def
          split: if_splits go_any.splits)
  qed (auto simp: decode_block_def zero_content_def)
  with ih kf fatal show ?case by (cases keep) auto
qed simp

lemma cached_carries:
  assumes "nm_Role nm = ''assistant''" and "readable print parse (cached_native nm)"
    and "ca_Payload (assistantCacheNative print a nm) \<noteq> []"
  shows "carries print parse ((decodeNativeMessage nm)\<lparr>m_timestamp := now\<rparr>) (ca_Payload (assistantCacheNative print a nm))"
proof -
  have ne: "cache_blocks [] (nm_Content nm) \<noteq> []" using assms(3) by (auto simp: assistantCacheNative_def)
  have "use_ids (cached_native nm) = invoke_ids ((decodeNativeMessage nm)\<lparr>m_timestamp := now\<rparr>)"
    using cache_blocks_ids [OF ne] assms(1)
    by (simp add: use_ids_def cached_native_def invoke_ids_def assistantToolInvokes_def decodeNativeMessage_def zero_message_def)
  then show ?thesis using assms ne
    by (auto simp: carries_def assistantCacheNative_def cached_native_def decodeNativeMessage_def zero_message_def)
qed

context translation_cache
begin

definition provider_inv ::
  "(json \<Rightarrow> rawjson) \<Rightarrow> (rawjson \<Rightarrow> json option) \<Rightarrow> (lt \<Rightarrow> patch list) option \<Rightarrow> ('e, 's) anthropic \<Rightarrow> 's
     \<Rightarrow> message log_entry list \<Rightarrow> bool" where
  "provider_inv print parse chalk a c rows \<longleftrightarrow>
     log_inv c \<and> distinct (map LT rows) \<and> 0 \<notin> LT ` set rows
     \<and> (\<forall>k. k \<notin> LT ` set rows \<longrightarrow> held (an_Fingerprint a) (Some c) k = None)
     \<and> (\<forall>x \<in> set rows. renders_readable print parse (unmarshal_string parse) a (message_of chalk x)
          \<and> (\<forall>b. held (an_Fingerprint a) (Some c) (LT x) = Some b \<longrightarrow> carries print parse (Payload x) b))
     \<and> (\<forall>p. an_projection a = Some p \<longrightarrow>
          retained (held (an_Fingerprint a) (Some c)) (anthropic_projection print parse a rows (Some c) chalk) rows p)"

lemma catchUp_cases:
  assumes inv: "provider_inv print parse chalk a c rows"
    and run: "catchUp print parse log_lookup log_append rows (Some c) chalk a = ((per, lts), a', c')"
  defines "fp \<equiv> an_Fingerprint a" and "config \<equiv> anthropic_projection print parse a rows (Some c) chalk"
  shows "cache_ok c'" and "k \<notin> LT ` set rows \<Longrightarrow> held fp c' k = None"
    and "x \<in> set rows \<Longrightarrow> held fp c' (LT x) = Some b \<Longrightarrow> carries print parse (Payload x) b"
    and "an_projection a' = Some p \<Longrightarrow> retained (held fp c') config rows p"
    and "\<exists>q. a' = a\<lparr>an_projection := q\<rparr>"
    and "reference_projection (held fp (Some c)) config rows (no_messages, fmempty) = Inr (em, snap) \<Longrightarrow>
      per = em_PerMessage em \<and> lts = em_LogicalTimes em"
    and "per \<noteq> [] \<Longrightarrow> \<exists>p. an_projection a' = Some p \<and> ip_Entries p = length rows"
proof -
  obtain r st errs where pi: "ProjectIncrementally log_lookup log_append config = (r, st, c', errs)"
    and out: "(case r of Inl _ \<Rightarrow> per = [] \<and> lts = [] \<and> a' = a
      | Inr p \<Rightarrow> per = em_PerMessage (ip_State p) \<and> lts = em_LogicalTimes (ip_State p) \<and> a' = a\<lparr>an_projection := Some p\<rparr>)"
    using run unfolding catchUp_def config_def by (auto split: prod.splits sum.splits)
  have fields: "pc_Fingerprint config = fp" "pc_Log config = rows" "pc_Cache config = Some c" "pc_Previous config = an_projection a"
    "pc_Initial config = no_messages" "pc_Encode config = encode print (unmarshal_string parse) a" "pc_Chalkboard config = chalk"
    by (simp_all add: config_def fp_def)
  have "log_inv c" "distinct (map LT rows)" "0 \<notin> LT ` set rows"
    and prev: "\<And>p. an_projection a = Some p \<Longrightarrow> retained (held fp (Some c)) config rows p"
    using inv by (simp_all add: provider_inv_def fp_def config_def)
  then have pr: "cache_ok c'" "\<And>k. k \<notin> LT ` set rows \<Longrightarrow> held fp c' k = held fp (Some c) k"
    "reference_projection (held fp (Some c)) config rows (no_messages, fmempty) =
      (case r of Inl e \<Rightarrow> Inl e | Inr p \<Rightarrow> Inr (ip_State p, ip_Chalkboard p))"
    "\<And>p. r = Inr p \<Longrightarrow> retained (held fp c') config rows p \<and> ip_Entries p = length rows"
    "\<And>p. an_projection a = Some p \<Longrightarrow> retained (held fp c') config rows p"
    "\<And>x b. x \<in> set rows \<Longrightarrow> held fp c' (LT x) = Some b \<Longrightarrow> held fp (Some c) (LT x) = Some b
      \<or> (\<exists>snap. encode print (unmarshal_string parse) a (message_of chalk x) snap = (Inr b :: unit + _))"
    using project_retained [OF _ _ _ _ pi, unfolded fields] by simp_all
  show "cache_ok c'" by (rule pr(1))
  show "held fp c' k = None" if "k \<notin> LT ` set rows" using pr(2) [OF that] inv that by (simp add: provider_inv_def fp_def)
  show "carries print parse (Payload x) b" if x: "x \<in> set rows" and h: "held fp c' (LT x) = Some b"
    using pr(6) [OF x h]
  proof
    assume "held fp (Some c) (LT x) = Some b"
    then show ?thesis using inv x by (simp add: provider_inv_def fp_def)
  next
    assume "\<exists>snap. encode print (unmarshal_string parse) a (message_of chalk x) snap = (Inr b :: unit + _)"
    then obtain snap where e: "encode print (unmarshal_string parse) a (message_of chalk x) snap = (Inr b :: unit + _)" by blast
    have "renders_readable print parse (unmarshal_string parse) a (message_of chalk x)"
      using inv x by (simp add: provider_inv_def)
    from encode_carries [OF this, of snap, where 'err = unit] e cached_bytes_nonempty [OF h]
    have "carries print parse (message_of chalk x) b" by auto
    then show ?thesis by (simp add: carries_def)
  qed
  show "retained (held fp c') config rows p" if "an_projection a' = Some p"
    using that out pr(4,5) by (auto split: sum.splits)
  show "\<exists>q. a' = a\<lparr>an_projection := q\<rparr>" using out by (cases r) (auto intro: exI [of _ "an_projection a"])
  show "per = em_PerMessage em \<and> lts = em_LogicalTimes em"
    if "reference_projection (held fp (Some c)) config rows (no_messages, fmempty) = Inr (em, snap)"
    using that pr(3) out by (auto split: sum.splits)
  show "\<exists>p. an_projection a' = Some p \<and> ip_Entries p = length rows" if "per \<noteq> []"
    using that out pr(4) by (auto split: sum.splits)
qed

lemma inv_catch_up:
  assumes "provider_inv print parse chalk a c rows"
    and "catchUp print parse log_lookup log_append rows (Some c) chalk a = (bytes, a', Some c')"
  shows "provider_inv print parse chalk a' c' rows"
proof -
  obtain per lts where b: "bytes = (per, lts)" by (cases bytes)
  note cu = catchUp_cases [OF assms(1) assms(2) [unfolded b]]
  obtain q where a': "a' = a\<lparr>an_projection := q\<rparr>" using cu(5) by blast
  show ?thesis using assms(1) cu(1-4)
    by (auto simp: provider_inv_def a' projection_update [where c' = "Some c" and rows' = rows])
qed

lemma inv_logged:
  assumes "provider_inv print parse chalk a c rows" and "LT x \<notin> LT ` set rows" and "LT x \<noteq> 0"
    and "renders_readable print parse (unmarshal_string parse) a (message_of chalk x)"
  shows "provider_inv print parse chalk a c (rows @ [x])"
proof -
  have eq: "anthropic_projection print parse a (rows @ [x]) (Some c) chalk =
      (anthropic_projection print parse a rows (Some c) chalk)\<lparr>pc_Log := rows @ [x]\<rparr>"
    by (simp add: anthropic_projection_def)
  have "retained H (anthropic_projection print parse a (rows @ [x]) (Some c) chalk) (rows @ [x]) p"
    if "retained H (anthropic_projection print parse a rows (Some c) chalk) rows p" for H p
    unfolding eq using retained_prefix [OF that, of "rows @ [x]"] by simp
  with assms show ?thesis by (auto simp: provider_inv_def)
qed

lemma inv_answered:
  assumes inv: "provider_inv print parse chalk a c rows"
    and cu: "catchUp print parse log_lookup log_append rows (Some c) chalk a = ((per, lts), a1, Some c1)" and ne: "per \<noteq> []"
    and nm: "nm_Role nm = ''assistant''" and x: "Payload x = (decodeNativeMessage nm)\<lparr>m_timestamp := now\<rparr>"
    and fresh: "LT x \<notin> LT ` set rows" "LT x \<noteq> 0" and patches: "m_patches (message_of chalk x) = []"
    and rd: "renders_readable print parse (unmarshal_string parse) a (message_of chalk x)"
    and cn: "readable print parse (cached_native nm)"
    and ca: "ca = assistantCacheNative print a1 nm" "ca_Payload ca \<noteq> []"
    and add: "log_append c1 \<lparr>LT = 0, FigaroLT = LT x, Payload = ca_Payload ca, Fingerprint = ca_Fingerprint ca\<rparr> = Inr (e, c2)"
  shows "provider_inv print parse chalk (acceptAssistantProjection (LT x) (ca_Payload ca) a1) c2 (rows @ [x])"
proof -
  let ?fp = "an_Fingerprint a" and ?b = "ca_Payload ca"
  have inv1: "provider_inv print parse chalk a1 c1 rows" by (rule inv_catch_up [OF inv cu])
  obtain q where a1: "a1 = a\<lparr>an_projection := q\<rparr>" using catchUp_cases(5) [OF inv cu] by blast
  obtain p where p: "an_projection a1 = Some p" "ip_Entries p = length rows" using catchUp_cases(7) [OF inv cu ne] by blast
  have li: "log_inv c1" using inv1 by (simp add: provider_inv_def)
  have e: "FigaroLT e = LT x" "Payload e = ?b" "Fingerprint e = ?fp"
    using append_key [OF li add] append_payload [OF li add] fresh(2) ca(1) by (simp_all add: assistantCacheNative_def a1)
  have held2: "held ?fp (Some c2) k = (if k = LT x then Some ?b else held ?fp (Some c1) k)" for k
    using e ca(2) append_lookup [OF li add, of k] by (auto simp: cached_bytes_def usable_def)
  have car: "carries print parse (Payload x) ?b" unfolding x ca(1) by (rule cached_carries [OF nm cn ca(2) [unfolded ca(1)]])
  let ?conf = "anthropic_projection print parse a rows (Some c) chalk"
  let ?p = "p\<lparr>ip_State := AppendEncodedMessage (ip_State p) ?b (LT x), ip_Entries := ip_Entries p + 1, ip_LastLT := LT x\<rparr>"
  have conf: "anthropic_projection print parse (a\<lparr>an_projection := q'\<rparr>) rows' c' chalk =
      ?conf\<lparr>pc_Log := rows', pc_Cache := c', pc_Previous := q'\<rparr>" for q' rows' c'
    by (rule projection_update)
  have ret: "retained (held ?fp (Some c1)) ?conf rows p"
    using inv1 p(1) by (simp add: provider_inv_def a1 conf)
  have old: "k \<noteq> LT x" if "k \<in> LT ` set (take (ip_Entries p) rows)" for k
    using fresh(1) that image_mono [OF set_take_subset, of LT "ip_Entries p" rows] by blast
  have "retained (held ?fp (Some c2)) ?conf rows p"
    by (rule retained_cong [OF ret], drule old) (simp add: held2)
  then have ref: "reference_projection (held ?fp (Some c2)) ?conf rows (no_messages, fmempty) = Inr (ip_State p, ip_Chalkboard p)"
    using p(2) by (simp add: retained_def)
  have role: "m_role (message_of chalk x) \<noteq> RoleGenesis"
    by (simp add: x decodeNativeMessage_def nm)
  have "reference_projection (held ?fp (Some c2)) ?conf (rows @ [x]) (no_messages, fmempty) =
      Inr (AppendEncodedMessage (ip_State p) ?b (LT x), ip_Chalkboard p)"
    using ca(2) role patches by (simp add: reference_append ref held2 Let_def)
  then have "retained (held ?fp (Some c2)) ?conf (rows @ [x]) ?p"
    using ret p(2) by (simp add: retained_def last_lt_def nth_append)
  moreover have "acceptAssistantProjection (LT x) ?b a1 = a\<lparr>an_projection := Some ?p\<rparr>"
    using accept_as_update [OF p(1)] by (simp add: a1)
  moreover have "LT y \<noteq> LT x" if "y \<in> set rows" for y using fresh(1) that by (metis image_eqI)
  ultimately show ?thesis using inv1 fresh rd car append_inv [OF li add]
    by (simp add: provider_inv_def conf held2 a1)
qed

lemma inv_restart: "provider_inv print parse chalk a c rows \<Longrightarrow> provider_inv print parse chalk (a\<lparr>an_projection := None\<rparr>) c rows"
  by (simp add: provider_inv_def)

lemma run_inv:
  assumes "provider_run print parse log_lookup log_append chalk c0 a c rows" and "log_inv c0" and "log_read c0 = []"
  shows "provider_inv print parse chalk a c rows"
  using assms(1)
proof (induction rule: provider_run.induct)
  case (start a)
  have "held fp (Some c0) k = None" for fp k using assms(2,3) by (simp add: cached_bytes_def usable_def lookup_read)
  with start assms(2) show ?case by (simp add: provider_inv_def)
next
  case (catch_up a c rows bytes a' c')
  then show ?case by (blast intro: inv_catch_up)
next
  case (logged a c rows x)
  then show ?case by (blast intro: inv_logged)
next
  case (answered a c rows per lts a1 c1 nm x now ca e c2)
  then show ?case by (blast intro: inv_answered)
next
  case (restart a c rows)
  then show ?case by (blast intro: inv_restart)
qed

text \<open>The next request of a provider in such a state.\<close>

lemma next_request_paired:
  assumes inv: "provider_inv print parse chalk a c rows" and "paired (map Payload rows)"
    and run: "catchUp print parse log_lookup log_append rows (Some c) chalk a = ((per, lts), a', c')"
  shows "\<exists>req. projectMessagesWithLTs parse a2 per lts snap ts n oauth model = Inr req \<and> wire_paired (rq_Messages req)"
proof -
  let ?conf = "anthropic_projection print parse a rows (Some c) chalk" and ?H = "held (an_Fingerprint a) (Some c)"
  have c1: "pc_Encode ?conf = encode print (unmarshal_string parse) a" "pc_Append ?conf = AppendEncodedMessage"
    by simp_all
  have c2: "renders_readable print parse (unmarshal_string parse) a (message_of (pc_Chalkboard ?conf) x)" if "x \<in> set rows" for x
    using inv that by (simp add: provider_inv_def)
  have c3: "carries print parse (Payload x) b" if "x \<in> set rows" "?H (LT x) = Some b" for x b
    using inv that by (simp add: provider_inv_def)
  have none: "em_PerMessage no_messages = []" "em_LogicalTimes no_messages = []" by (simp_all add: no_messages_def)
  obtain em snap' pairs where ref: "reference_projection ?H ?conf rows (no_messages, fmempty) = Inr (em, snap')"
    and g: "gather_messages parse (em_PerMessage em) (em_LogicalTimes em) = Inr pairs" and w: "wire_paired (map fst pairs)"
    using reference_paired [where rows = rows and held = ?H and ?em0.0 = no_messages and snap = fmempty, OF c1 c2 c3 assms(2)]
    unfolding none append_Nil by blast
  have eq: "per = em_PerMessage em" "lts = em_LogicalTimes em" using catchUp_cases(6) [OF inv run ref] by simp_all
  obtain req where req: "projectMessagesWithLTs parse a2 per lts snap ts n oauth model = Inr req"
    using g unfolding eq projectMessagesWithLTs_def by (simp add: Let_def)
  have "map shape (rq_Messages req) = map shape (map fst pairs)"
    using project_shapes [OF _ req] g by (simp add: eq)
  with w req show ?thesis using wire_paired_shape by blast
qed

end

subsection \<open>Properties\<close>

text \<open>
  C5: every request answers every tool call. Whatever the provider did before (projections,
  landed answers whose blocks could be cached, messages logged by the agent, restarts), when the
  log pairs each tool call with its result, \<open>Send\<close> posts a request in which each assistant message
  with \<open>tool_use\<close> blocks is followed by a user message with exactly their \<open>tool_result\<close> blocks,
  in order; it never fails to assemble the request. Only an empty context or a missing token keeps it from posting.
\<close>

theorem requests_pair_tool_calls:
  fixes ops :: "('l, (rawjson list mem_log, rawjson list) cached_log, unit) send_ops"
  assumes "provider_run (o_print ops) (o_parse ops) (o_lookup ops) (o_add ops) (si_Chalkboard inp)
      (newCachedLog ml_Read NewMemLog) a c (o_read ops l)"
    and "o_lookup ops = cl_Lookup" and "o_add ops = cl_Append ml_Append"
    and "an_cache a = Some c" and "o_open ops = Some f" and "si_AriaID inp \<noteq> []"
    and "paired (map Payload (o_read ops l))"
  shows "(\<exists>req. se_request (Send ops w inp l a) = Some req \<and> wire_paired (rq_Messages req))
    \<or> se_err (Send ops w inp l a) = Some EmptyContext \<or> (\<exists>err. sw_resolve w = Inl err)"
proof -
  have inv: "file_cache.provider_inv (o_print ops) (o_parse ops) (si_Chalkboard inp) a c (o_read ops l)"
    by (rule file_cache.run_inv [OF assms(1) [unfolded assms(2,3)]])
      (simp_all add: cl_coherent_def ml_wf_def newCachedLog_def cl_Read_def ml_Read_def NewMemLog_def)
  have cf: "cacheFor (o_peek ops) (o_clear ops) (o_open ops) (si_AriaID inp) a = (Some c, a)"
    using assms(4-6) by (simp add: cacheFor_def)
  obtain per lts a1 c1 where cu: "catchUp (o_print ops) (o_parse ops) (o_lookup ops) (o_add ops) (o_read ops l) (Some c)
      (si_Chalkboard inp) a = ((per, lts), a1, c1)" by (metis prod.exhaust)
  have prep: "prepare ops inp l a = ((per, lts), a1\<lparr>an_cache := c1\<rparr>)" using cu cf by (simp add: prepare_def)
  define a2 where "a2 = a1\<lparr>an_cache := c1\<rparr>"
  have req: "\<exists>req. projectMessagesWithLTs (o_parse ops) a2 per lts (si_Snapshot inp) (si_Tools inp) (si_MaxTokens inp) oauth model
      = Inr req \<and> wire_paired (rq_Messages req)" for oauth model
    by (rule file_cache.next_request_paired [OF inv assms(7) cu [unfolded assms(2,3)]])
  show ?thesis
  proof (cases "per = [] \<or> (\<exists>err. sw_resolve w = Inl err)")
    case True
    then show ?thesis using prep by (auto simp: Send_def failed_def)
  next
    case False
    then obtain key where key: "sw_resolve w = Inr key" by (cases "sw_resolve w") auto
    obtain r where r: "projectMessagesWithLTs (o_parse ops) a2 per lts (si_Snapshot inp) (si_Tools inp) (si_MaxTokens inp)
        (isOAuthToken key) (resolveModel (o_parse ops) a2 (si_Snapshot inp)) = Inr r" "wire_paired (rq_Messages r)"
      using req by blast
    have "se_request (Send ops w inp l a) = Some r"
      using False key r(1) prep
      by (auto simp: Send_def a2_def [symmetric] Let_def failed_def land_answer_def split: prod.splits sum.splits)
    with r(2) show ?thesis by blast
  qed
qed

lemma render_plain:
  "an_Templates a = None \<Longrightarrow> fst (renderMessage u a m snap) = fst (renderMessage (\<lambda>_. None) a m fmempty)"
  by (simp add: renderMessage_def renderPatchBlocks_def Let_def)

definition demo_messages :: "message list" where
  "demo_messages = [zero_message\<lparr>m_role := RoleUser, m_content := [TextContent ''go'']\<rparr>,
     zero_message\<lparr>m_role := RoleAssistant, m_content := [zero_content\<lparr>c_type := ContentToolInvoke, c_tool_call_id := ''t1'', c_tool_name := ''bash''\<rparr>]\<rparr>,
     zero_message\<lparr>m_role := RoleUser, m_content := [ToolResultContent ''t1'' ''bash'' ''done'' False]\<rparr>]"

definition demo_row :: "nat \<Rightarrow> message log_entry" where
  "demo_row i = \<lparr>LT = i + 1, FigaroLT = i + 1, Payload = demo_messages ! i, Fingerprint = []\<rparr>"

definition demo_provider :: "(unit, (rawjson list mem_log, rawjson list) cached_log) anthropic" where
  "demo_provider = (New \<lparr>kn_Model = ''m'', kn_MaxTokens = 100, kn_ReminderRenderer = []\<rparr>)\<lparr>an_cache := Some (newCachedLog ml_Read NewMemLog)\<rparr>"

definition demo_values :: "json list" where
  "demo_values = map (\<lambda>m. native_json (the (fst (renderMessage (\<lambda>_. None) demo_provider m fmempty)))) demo_messages"

definition demo_ops :: "(message log_entry list, (rawjson list mem_log, rawjson list) cached_log, unit) send_ops" where
  "demo_ops = \<lparr>o_print = table_print demo_values, o_parse = table_parse demo_values [], o_read = (\<lambda>l. l), o_append = (\<lambda>_ _. Inl ''full''),
     o_lookup = cl_Lookup, o_add = cl_Append ml_Append, o_peek = cl_PeekTail, o_clear = cl_Clear ml_Clear,
     o_open = Some (\<lambda>_. Inl ())\<rparr>"

definition demo_input :: send_input where
  "demo_input = \<lparr>si_AriaID = ''aria'', si_Snapshot = fmempty, si_Chalkboard = None, si_Tools = [], si_MaxTokens = 0\<rparr>"

definition demo_send :: send_world where
  "demo_send = \<lparr>sw_resolve = Inr ''key'', sw_resolveRetry = Inr ''key'', sw_passes = demo_world, sw_stream = [], sw_now = 7\<rparr>"

lemma send_empty:
  "se_err (Send ops w inp l a) = Some EmptyContext \<Longrightarrow> fst (fst (prepare ops inp l a)) = []"
  by (auto simp: Send_def failed_def land_answer_def Let_def split: prod.splits sum.splits if_splits)

lemma demo_render:
  assumes "i < 3"
  shows "\<exists>nm. fst (renderMessage u demo_provider (message_of None (demo_row i)) snap) = Some nm \<and> native_json nm \<in> set demo_values"
proof -
  let ?m = "demo_messages ! i"
  have mo: "fst (renderMessage u demo_provider (message_of None (demo_row i)) snap) = fst (renderMessage (\<lambda>_. None) demo_provider ?m fmempty)"
    using render_plain [of demo_provider u "message_of None (demo_row i)" snap]
    by (simp add: demo_provider_def New_def renderMessage_def renderPatchBlocks_def Let_def demo_row_def message_of_def)
  have "?m \<in> set demo_messages" using assms by (intro nth_mem) (simp add: demo_messages_def)
  moreover have tm: "an_Templates demo_provider = None" by (simp add: demo_provider_def New_def)
  consider "i = 0" | "i = 1" | "i = 2" using assms by linarith
  then have "fst (renderMessage (\<lambda>_. None) demo_provider ?m fmempty) \<noteq> None"
    by cases (simp_all add: demo_messages_def renderMessage_def zero_message_def tm user_block_def assistant_block_of_def
        renderPatchBlocks_def content_ctors)
  ultimately show ?thesis unfolding mo demo_values_def by (metis (no_types, lifting) image_eqI option.exhaust_sel option.sel set_map)
qed

theorem requests_pair_tool_calls_witness:
  "\<exists>req. se_request (Send demo_ops demo_send demo_input [demo_row 0, demo_row 1, demo_row 2] demo_provider) = Some req
     \<and> wire_paired (rq_Messages req)"
proof -
  let ?c = "newCachedLog ml_Read NewMemLog :: (rawjson list mem_log, rawjson list) cached_log"
  let ?run = "provider_run (o_print demo_ops) (o_parse demo_ops) (o_lookup demo_ops) (o_add demo_ops) (si_Chalkboard demo_input) ?c demo_provider ?c"
  have rd: "renders_readable (o_print demo_ops) (o_parse demo_ops) (unmarshal_string (o_parse demo_ops)) demo_provider (message_of (si_Chalkboard demo_input) (demo_row i))"
    if "i < 3" for i
    unfolding renders_readable_def
  proof (intro allI impI)
    fix snap nm
    assume "fst (renderMessage (unmarshal_string (o_parse demo_ops)) demo_provider (message_of (si_Chalkboard demo_input) (demo_row i)) snap) = Some nm"
    with demo_render [OF that, of "unmarshal_string (o_parse demo_ops)" snap] have "native_json nm \<in> set demo_values"
      by (simp add: demo_input_def)
    then show "readable (o_print demo_ops) (o_parse demo_ops) nm" by (simp add: readable_def demo_ops_def table_codec)
  qed
  have LTs: "LT (demo_row i) = i + 1" for i by (simp add: demo_row_def)
  have "an_projection demo_provider = None" by (simp add: demo_provider_def New_def)
  then have "?run []" by (rule provider_run.start)
  then have "?run ([] @ [demo_row 0])" by (rule provider_run.logged) (simp_all add: LTs rd)
  then have "?run (([] @ [demo_row 0]) @ [demo_row 1])" by (rule provider_run.logged) (simp_all add: LTs rd)
  then have run: "?run ((([] @ [demo_row 0]) @ [demo_row 1]) @ [demo_row 2])" by (rule provider_run.logged) (simp_all add: LTs rd)
  have pd: "paired (map Payload (o_read demo_ops [demo_row 0, demo_row 1, demo_row 2]))"
    by (simp add: demo_ops_def demo_row_def demo_messages_def paired_def invoke_ids_def answers_def result_ids_def
        assistantToolInvokes_def zero_message_def zero_content_def content_ctors)
  have inv: "file_cache.provider_inv (o_print demo_ops) (o_parse demo_ops) None demo_provider ?c [demo_row 0, demo_row 1, demo_row 2]"
    using file_cache.run_inv [where ?c0.0 = ?c and a = demo_provider and c = ?c] run
    by (simp add: demo_ops_def demo_input_def cl_coherent_def ml_wf_def newCachedLog_def cl_Read_def ml_Read_def NewMemLog_def)
  have enc: "\<exists>raw. encode (o_print demo_ops) u demo_provider (message_of None (demo_row i)) snap = (Inr [raw] :: unit + _)" if "i < 3" for i u snap
    using demo_render [OF that, of u snap] by (auto simp: encode_def)
  obtain bytes a1 c1 where cu: "catchUp (o_print demo_ops) (o_parse demo_ops) cl_Lookup (cl_Append ml_Append :: _ \<Rightarrow> _ \<Rightarrow> unit + _) [demo_row 0, demo_row 1, demo_row 2] (Some ?c)
      None demo_provider = (bytes, a1, c1)" by (metis prod.exhaust)
  obtain per lts where bt: "bytes = (per, lts)" by (cases bytes)
  obtain r0 r1 r2 where raws: "encode (o_print demo_ops) (unmarshal_string (o_parse demo_ops)) demo_provider (message_of None (demo_row 0)) fmempty = (Inr [r0] :: unit + _)"
    "encode (o_print demo_ops) (unmarshal_string (o_parse demo_ops)) demo_provider (message_of None (demo_row 1)) fmempty = (Inr [r1] :: unit + _)"
    "encode (o_print demo_ops) (unmarshal_string (o_parse demo_ops)) demo_provider (message_of None (demo_row 2)) fmempty = (Inr [r2] :: unit + _)"
    using enc [of 0 "unmarshal_string (o_parse demo_ops)" fmempty] enc [of 1 "unmarshal_string (o_parse demo_ops)" fmempty]
      enc [of 2 "unmarshal_string (o_parse demo_ops)" fmempty] that by auto
  have "cached_bytes cl_Lookup fp (Some ?c) k = None" for fp k
    by (simp add: cached_bytes_def usable_def cl_Lookup_def newCachedLog_def ml_Read_def NewMemLog_def)
  moreover have "m_role (Payload (demo_row i)) \<noteq> RoleGenesis \<and> m_patches (message_of None (demo_row i)) = []" if i: "i < 3" for i
  proof -
    consider "i = 0" | "i = 1" | "i = 2" using i by linarith
    then show ?thesis by cases (simp_all add: demo_row_def demo_messages_def message_of_def zero_message_def)
  qed
  ultimately have "reference_projection (cached_bytes cl_Lookup (an_Fingerprint demo_provider) (Some ?c))
      (anthropic_projection (o_print demo_ops) (o_parse demo_ops) demo_provider [demo_row 0, demo_row 1, demo_row 2] (Some ?c) None)
      [demo_row 0, demo_row 1, demo_row 2] (no_messages, fmempty) =
      Inr (AppendEncodedMessage (AppendEncodedMessage (AppendEncodedMessage no_messages [r0] (LT (demo_row 0))) [r1] (LT (demo_row 1))) [r2] (LT (demo_row 2)), fmempty)"
    by (simp add: Let_def raws [simplified])
  from file_cache.catchUp_cases(6) [OF inv cu [unfolded bt] this] have "fst bytes \<noteq> []"
    by (simp add: bt AppendEncodedMessage_def)
  then have "fst (fst (prepare demo_ops demo_input [demo_row 0, demo_row 1, demo_row 2] demo_provider)) \<noteq> []"
    using cu by (simp add: prepare_def cacheFor_def demo_ops_def demo_input_def demo_provider_def)
  then have ne: "se_err (Send demo_ops demo_send demo_input [demo_row 0, demo_row 1, demo_row 2] demo_provider) \<noteq> Some EmptyContext"
    using send_empty [of demo_ops demo_send demo_input "[demo_row 0, demo_row 1, demo_row 2]" demo_provider] by auto
  show ?thesis
    using requests_pair_tool_calls [where ops = demo_ops and inp = demo_input and a = demo_provider and c = ?c
        and l = "[demo_row 0, demo_row 1, demo_row 2]" and w = demo_send and f = "\<lambda>_. Inl ()"] run pd ne
    by (simp add: demo_ops_def demo_input_def demo_send_def demo_provider_def)
qed

text \<open>A prompt, the answer to it and the result of its tool call.\<close>

definition orphan_log :: "string \<Rightarrow> string \<Rightarrow> native_message \<Rightarrow> message log_entry list" where
  "orphan_log tid result nm =
     [\<lparr>LT = 1, FigaroLT = 1, Payload = zero_message\<lparr>m_role := RoleUser, m_content := [TextContent ''go'']\<rparr>, Fingerprint = []\<rparr>,
      \<lparr>LT = 2, FigaroLT = 2, Payload = decodeNativeMessage nm, Fingerprint = []\<rparr>,
      \<lparr>LT = 3, FigaroLT = 3, Payload = zero_message\<lparr>m_role := RoleUser, m_content := [ToolResultContent tid [] result False]\<rparr>, Fingerprint = []\<rparr>]"

definition prompt_native :: native_message where
  "prompt_native = zero_native\<lparr>nm_Role := ''user'', nm_Content := [text_block ''go'']\<rparr>"

definition result_native :: "string \<Rightarrow> string \<Rightarrow> native_message" where
  "result_native tid result = zero_native\<lparr>nm_Role := ''user'',
     nm_Content := [result_block tid False (if result = [] then ''(empty)'' else result)]\<rparr>"

text \<open>The second projection, after the answer was landed.\<close>

definition after_landing ::
  "(json \<Rightarrow> rawjson) \<Rightarrow> (rawjson \<Rightarrow> json option) \<Rightarrow> message log_entry list \<Rightarrow> native_message \<Rightarrow> ('e, unit) anthropic
     \<Rightarrow> rawjson list list \<times> lt list" where
  "after_landing print parse rows nm a =
     (let nolookup = (\<lambda>_ _. None); noadd = (\<lambda>_ _. Inl ());
          (_, a1, _) = catchUp print parse nolookup noadd (take 1 rows) None None a;
          a2 = acceptAssistantProjection (LT (rows ! 1)) (ca_Payload (assistantCacheNative print a1 nm)) a1
      in fst (catchUp print parse nolookup noadd rows None None a2))"

lemma encode_prompt:
  "an_Templates a = None \<Longrightarrow> encode print u a (message_of None (orphan_log tid result nm ! 0)) snap = Inr [print (native_json prompt_native)]"
  by (simp add: encode_def renderMessage_def renderPatchBlocks_def orphan_log_def message_of_def zero_message_def
      content_ctors user_block_def text_block_def prompt_native_def)

lemma encode_result:
  "an_Templates a = None \<Longrightarrow> encode print u a (message_of None (orphan_log tid result nm ! 2)) snap = Inr [print (native_json (result_native tid result))]"
  by (simp add: encode_def renderMessage_def renderPatchBlocks_def orphan_log_def message_of_def zero_message_def
      content_ctors user_block_def result_native_def)

lemma after_landing_empty:
  assumes "an_Templates a = None" and "an_projection a = None" and "ca_Payload (assistantCacheNative print a nm) = []"
  shows "after_landing print parse (orphan_log tid result nm) nm a =
    ([[print (native_json prompt_native)], [], [print (native_json (result_native tid result))]], [1, 2, 3])"
proof -
  define r0 where "r0 = orphan_log tid result nm ! 0"
  define r1 where "r1 = orphan_log tid result nm ! 1"
  define r2 where "r2 = orphan_log tid result nm ! 2"
  have rows: "orphan_log tid result nm = [r0, r1, r2]" by (simp add: r0_def r1_def r2_def orphan_log_def)
  have sel: "LT r0 = 1" "LT r1 = 2" "LT r2 = 3" "m_role (Payload r0) \<noteq> RoleGenesis" "m_role (Payload r2) \<noteq> RoleGenesis"
    "m_patches (message_of None r0) = []"
    by (simp_all add: r0_def r1_def r2_def orphan_log_def zero_message_def message_of_def)
  have enc: "encode print u a (message_of None r0) snap = (Inr [print (native_json prompt_native)] :: unit + _)"
    "encode print u a (message_of None r2) snap = (Inr [print (native_json (result_native tid result))] :: unit + _)" for u snap
    unfolding r0_def r2_def by (simp_all only: encode_prompt [OF assms(1)] encode_result [OF assms(1)])
  let ?p = "\<lparr>ip_State = AppendEncodedMessage no_messages [print (native_json prompt_native)] 1, ip_Chalkboard = fmempty,
    ip_Fingerprint = an_Fingerprint a, ip_Entries = 1, ip_LastLT = 1\<rparr>"
  have one: "catchUp print parse (\<lambda>_ _. None) (\<lambda>_ _. Inl ()) [r0] None None a =
      (([[print (native_json prompt_native)]], [1]), a\<lparr>an_projection := Some ?p\<rparr>, None)"
    using assms(2) by (simp add: catchUp_def ProjectIncrementally_def resume_point_def project_entry_def cached_bytes_def
        enc store_bytes_def take_bytes_def sel last_lt_def AppendEncodedMessage_def no_messages_def Let_def)
  let ?a2 = "a\<lparr>an_projection := Some (?p\<lparr>ip_State := AppendEncodedMessage (ip_State ?p) [] 2, ip_Entries := Suc (Suc 0), ip_LastLT := 2\<rparr>)\<rparr>"
  have two: "fst (catchUp print parse (\<lambda>_ _. None) (\<lambda>_ _. Inl ()) [r0, r1, r2] None None ?a2) =
      ([[print (native_json prompt_native)], [], [print (native_json (result_native tid result))]], [1, 2, 3])"
    by (simp add: catchUp_def ProjectIncrementally_def resume_point_def project_entry_def cached_bytes_def
        enc store_bytes_def take_bytes_def sel AppendEncodedMessage_def no_messages_def Let_def)
  have "ca_Payload (assistantCacheNative print (a\<lparr>an_projection := q\<rparr>) nm) = []" for q
    using assms(3) by (simp add: assistantCacheNative_def)
  then show ?thesis using two by (simp add: after_landing_def rows one acceptAssistantProjection_def sel)
qed

text \<open>
  C38: a tool call without arguments loses its assistant message. When the only input delta of a
  \<open>tool_use\<close> block is the empty text, its input stays that text: the message is logged with the
  call, but has no bytes to cache. The empty bytes are nevertheless accepted into the retained
  projection, so the next request has the result of the call and no message that makes the call,
  although the log is paired.
\<close>

theorem argless_call_orphaned:
  assumes "tid \<noteq> []" and "events_read print parse (answer_events [ApiTool tid nam [[]]] stop)"
    and "drainSSE parse model (sse_lines print (answer_events [ApiTool tid nam [[]]] stop)) = (Inr nm, evs)"
    and "an_Templates a = None" and "an_projection a = None"
    and "readable print parse prompt_native" and "readable print parse (result_native tid result)"
    and "after_landing print parse (orphan_log tid result nm) nm a = (per, lts)"
  shows "paired (map Payload (orphan_log tid result nm))
    \<and> (\<exists>req. projectMessagesWithLTs parse a per lts snap ts n oauth model = Inr req
         \<and> map shape (rq_Messages req) = [(''user'', [], []), (''user'', [], [tid])])"
proof -
  have nm: "nm = answer_message parse model [ApiTool tid nam [[]]] stop"
    using drain_answer [OF assms(2), of model] assms(3) by simp
  have inp: "streamed_input parse [[]] = GStr []" by (simp add: streamed_input_def finish_input_def)
  have pay: "ca_Payload (assistantCacheNative print a nm) = []" using assms(1)
    by (simp add: nm assistantCacheNative_def answer_message_def zero_native_def cacheableNativeBlock_def inp is_map_def)
  have call: "invoke_ids (decodeNativeMessage nm) = [tid]" using assms(1)
    by (simp add: nm answer_message_def zero_native_def decodeNativeMessage_def zero_message_def inp decode_block_def
        validNativeBlock_def zero_content_def invoke_ids_def assistantToolInvokes_def)
  have "paired (map Payload (orphan_log tid result nm))"
    by (simp add: orphan_log_def paired_def call answers_def result_ids_def zero_message_def content_ctors)
      (simp add: invoke_ids_def assistantToolInvokes_def)
  moreover have per: "per = [[print (native_json prompt_native)], [], [print (native_json (result_native tid result))]]" "lts = [1, 2, 3]"
    using after_landing_empty [OF assms(4,5) pay] assms(8) by simp_all
  have "json_native (native_json prompt_native) = Some (prompt_native\<lparr>nm_Content := map wire_norm (nm_Content prompt_native)\<rparr>)"
    "json_native (native_json (result_native tid result)) =
      Some ((result_native tid result)\<lparr>nm_Content := map wire_norm (nm_Content (result_native tid result))\<rparr>)"
    by (rule native_roundtrip; simp add: prompt_native_def result_native_def zero_native_def)+
  then have g: "gather_messages parse per lts =
      Inr [(prompt_native\<lparr>nm_Content := map wire_norm (nm_Content prompt_native)\<rparr>, 1),
           ((result_native tid result)\<lparr>nm_Content := map wire_norm (nm_Content (result_native tid result))\<rparr>, 3)]"
    using assms(6,7) by (simp add: per readable_def)
  then obtain req where req: "projectMessagesWithLTs parse a per lts snap ts n oauth model = Inr req"
    by (simp add: projectMessagesWithLTs_def Let_def)
  have "map shape (rq_Messages req) = [shape prompt_native, shape (result_native tid result)]"
    using project_shapes [OF g req] by simp
  moreover have "shape prompt_native = (''user'', [], [])" "shape (result_native tid result) = (''user'', [], [tid])"
    by (simp_all add: shape_def prompt_native_def result_native_def use_ids_def wire_result_ids_def zero_native_def
        text_block_def result_block_def)
  ultimately show ?thesis using req by auto
qed

definition orphan_values :: "json list" where
  "orphan_values = native_json prompt_native # native_json (result_native ''t1'' ''done'')
     # map snd (answer_events [ApiTool ''t1'' ''ls'' [[]]] ''tool_use'')"

theorem argless_call_orphaned_witness:
  "\<exists>nm evs per lts req. drainSSE (table_parse orphan_values []) ''m'' (sse_lines (table_print orphan_values)
       (answer_events [ApiTool ''t1'' ''ls'' [[]]] ''tool_use'')) = (Inr nm, evs)
     \<and> after_landing (table_print orphan_values) (table_parse orphan_values []) (orphan_log ''t1'' ''done'' nm) nm
         (New \<lparr>kn_Model = ''m'', kn_MaxTokens = 100, kn_ReminderRenderer = []\<rparr> :: (unit, unit) anthropic) = (per, lts)
     \<and> projectMessagesWithLTs (table_parse orphan_values [])
         (New \<lparr>kn_Model = ''m'', kn_MaxTokens = 100, kn_ReminderRenderer = []\<rparr> :: (unit, unit) anthropic) per lts fmempty [] 0 False ''m'' = Inr req
     \<and> map shape (rq_Messages req) = [(''user'', [], []), (''user'', [], [''t1''])]"
proof -
  let ?print = "table_print orphan_values" and ?parse = "table_parse orphan_values []"
  let ?a = "New \<lparr>kn_Model = ''m'', kn_MaxTokens = 100, kn_ReminderRenderer = []\<rparr> :: (unit, unit) anthropic"
  have ev: "events_read ?print ?parse (answer_events [ApiTool ''t1'' ''ls'' [[]]] ''tool_use'')"
    unfolding events_read_def by (force intro: table_codec simp: orphan_values_def)
  obtain nm evs where dr: "drainSSE ?parse ''m'' (sse_lines ?print (answer_events [ApiTool ''t1'' ''ls'' [[]]] ''tool_use'')) = (Inr nm, evs)"
    using drain_answer [OF ev, of "''m''"] by auto
  obtain per lts where al: "after_landing ?print ?parse (orphan_log ''t1'' ''done'' nm) nm ?a = (per, lts)" by fastforce
  have "readable ?print ?parse prompt_native" "readable ?print ?parse (result_native ''t1'' ''done'')"
    by (simp_all add: readable_def table_codec orphan_values_def)
  from argless_call_orphaned [OF _ ev dr _ _ this al, of fmempty "[]" 0 False] dr al show ?thesis
    by (auto simp: New_def)
qed

end
