(* ===== verification/Registry.thy ===== *)
theory Registry
  imports Chalkboard
begin

section \<open>The supervisor's registry (\<open>internal/angelus/registry.go\<close>, \<open>bindings.go\<close>)\<close>

text \<open>
  The registry of running figaros and of the shells (process ids) bound to them, its persistence
  across a restart of the supervisor and the reaping of dead shells. Figaros are values of a type
  \<open>'f\<close> whose method \<open>ID()\<close> is the parameter \<open>ID\<close>. \<open>Kill\<close> holds the lock twice, around the call
  of the figaro's own \<open>Kill\<close> that may take long: its two critical sections are the operations
  \<open>kill_begin\<close> and \<open>kill_finish\<close>, between which any other operation may run. The theory shows that
  under every such interleaving the two indices agree, that the registry implements a plain table
  of bindings, and that bindings survive a save and a restore exactly for the shells that survive.
  \<open>/proc\<close> (\<open>proc\<close>), the liveness test of the platform (\<open>alive\<close>) and \<open>encoding/json\<close> are
  parameters. Where Go ranges over a map the model takes the keys in ascending order; the
  theorems do not depend on it.
\<close>

record 'f registry =
  rg_figaros :: "(string, 'f) fmap"
  rg_pidToFigaro :: "(int, string) fmap"
  rg_pidToLT :: "(int, lt) fmap"
  rg_figaroPIDs :: "(string, int fset) fmap"
  rg_killing :: "string fset"
  rg_draining :: bool

text \<open>\<open>NilMapWrite\<close> is the panic of an assignment into the nil map \<open>figaroPIDs[id]\<close>.\<close>

datatype reg_error = ShuttingDown | AlreadyRegistered string | FigaroNotFound string | NilMapWrite

definition NewRegistry :: "'f registry" where
  "NewRegistry = \<lparr>rg_figaros = fmempty, rg_pidToFigaro = fmempty, rg_pidToLT = fmempty, rg_figaroPIDs = fmempty,
     rg_killing = {||}, rg_draining = False\<rparr>"

subsection \<open>Operations\<close>

definition rg_Register :: "('f \<Rightarrow> string) \<Rightarrow> 'f \<Rightarrow> 'f registry \<Rightarrow> reg_error option \<times> 'f registry" where
  "rg_Register ID f r =
     (if rg_draining r then (Some ShuttingDown, r)
      else if fmlookup (rg_figaros r) (ID f) \<noteq> None then (Some (AlreadyRegistered (ID f)), r)
      else (None, r\<lparr>rg_figaros := fmupd (ID f) f (rg_figaros r),
                    rg_figaroPIDs := fmupd (ID f) {||} (rg_figaroPIDs r)\<rparr>))"

definition rg_Get :: "'f registry \<Rightarrow> string \<Rightarrow> 'f option" where
  "rg_Get r i = fmlookup (rg_figaros r) i"

definition kill_begin :: "string \<Rightarrow> 'f registry \<Rightarrow> (reg_error + 'f) \<times> 'f registry" where
  "kill_begin i r =
     (case fmlookup (rg_figaros r) i of
        None \<Rightarrow> (Inl (FigaroNotFound i), r)
      | Some f \<Rightarrow> (if i |\<in>| rg_killing r then (Inl (FigaroNotFound i), r)
                  else (Inr f, r\<lparr>rg_killing := finsert i (rg_killing r)\<rparr>)))"

definition pids_of :: "'f registry \<Rightarrow> string \<Rightarrow> int fset" where
  "pids_of r i = (case fmlookup (rg_figaroPIDs r) i of None \<Rightarrow> {||} | Some s \<Rightarrow> s)"

definition kill_finish :: "string \<Rightarrow> 'f registry \<Rightarrow> 'f registry" where
  "kill_finish i r =
     r\<lparr>rg_pidToFigaro := fmdrop_fset (pids_of r i) (rg_pidToFigaro r),
       rg_figaroPIDs := fmdrop i (rg_figaroPIDs r),
       rg_figaros := fmdrop i (rg_figaros r),
       rg_killing := rg_killing r |-| {|i|}\<rparr>"

definition unbindLocked :: "int \<Rightarrow> 'f registry \<Rightarrow> 'f registry" where
  "unbindLocked pid r =
     (case fmlookup (rg_pidToFigaro r) pid of
        None \<Rightarrow> r
      | Some i \<Rightarrow>
          (let r1 = r\<lparr>rg_pidToFigaro := fmdrop pid (rg_pidToFigaro r), rg_pidToLT := fmdrop pid (rg_pidToLT r)\<rparr>
           in case fmlookup (rg_figaroPIDs r) i of
                None \<Rightarrow> r1
              | Some pids \<Rightarrow> r1\<lparr>rg_figaroPIDs := fmupd i (pids |-| {|pid|}) (rg_figaroPIDs r)\<rparr>))"

definition rg_Bind :: "int \<Rightarrow> string \<Rightarrow> lt \<Rightarrow> 'f registry \<Rightarrow> reg_error option \<times> 'f registry" where
  "rg_Bind pid i t r =
     (if fmlookup (rg_figaros r) i = None then (Some (FigaroNotFound i), r)
      else if fmlookup (rg_pidToFigaro r) pid = Some i
      then (None, r\<lparr>rg_pidToLT := fmupd pid t (rg_pidToLT r)\<rparr>)
      else let r1 = unbindLocked pid r;
               r2 = r1\<lparr>rg_pidToFigaro := fmupd pid i (rg_pidToFigaro r1), rg_pidToLT := fmupd pid t (rg_pidToLT r1)\<rparr>
           in case fmlookup (rg_figaroPIDs r2) i of
                None \<Rightarrow> (Some NilMapWrite, r2)
              | Some pids \<Rightarrow> (None, r2\<lparr>rg_figaroPIDs := fmupd i (finsert pid pids) (rg_figaroPIDs r2)\<rparr>))"

text \<open>Reading a missing key of \<open>pidToLT\<close> gives Go's zero value.\<close>

definition lt_of :: "'f registry \<Rightarrow> int \<Rightarrow> lt" where
  "lt_of r pid = (case fmlookup (rg_pidToLT r) pid of None \<Rightarrow> 0 | Some t \<Rightarrow> t)"

definition rg_Resolve :: "'f registry \<Rightarrow> int \<Rightarrow> string \<times> 'f option \<times> lt" where
  "rg_Resolve r pid =
     (case fmlookup (rg_pidToFigaro r) pid of
        None \<Rightarrow> ([], None, 0)
      | Some i \<Rightarrow> (i, fmlookup (rg_figaros r) i, lt_of r pid))"

definition rg_Unbind :: "int \<Rightarrow> 'f registry \<Rightarrow> 'f registry" where
  "rg_Unbind pid r = unbindLocked pid r"

definition BoundPIDs :: "'f registry \<Rightarrow> string \<Rightarrow> int list" where
  "BoundPIDs r i = sorted_list_of_fset (pids_of r i)"

definition rg_All :: "'f registry \<Rightarrow> 'f list" where
  "rg_All r = map (\<lambda>i. the (fmlookup (rg_figaros r) i)) (fmkeys (rg_figaros r))"

definition rg_List :: "('f \<Rightarrow> 'info) \<Rightarrow> 'f registry \<Rightarrow> 'info list" where
  "rg_List Info r = map Info (rg_All r)"

definition BoundPIDsByFigaro :: "'f registry \<Rightarrow> (string, int list) fmap" where
  "BoundPIDsByFigaro r = fmmap sorted_list_of_fset (rg_figaroPIDs r)"

definition AllPIDs :: "'f registry \<Rightarrow> int list" where
  "AllPIDs r = fmkeys (rg_pidToFigaro r)"

definition FigaroCount :: "'f registry \<Rightarrow> nat" where
  "FigaroCount r = fcard (fmdom (rg_figaros r))"

definition SetDraining :: "'f registry \<Rightarrow> 'f registry" where
  "SetDraining r = r\<lparr>rg_draining := True\<rparr>"

definition IsDraining :: "'f registry \<Rightarrow> bool" where
  "IsDraining r = rg_draining r"

definition BoundPIDCount :: "'f registry \<Rightarrow> nat" where
  "BoundPIDCount r = fcard (fmdom (rg_pidToFigaro r))"

text \<open>The monitor's pass over the bound shells.\<close>

definition reapDeadPIDs :: "(int \<Rightarrow> bool) \<Rightarrow> 'f registry \<Rightarrow> 'f registry" where
  "reapDeadPIDs alive r = fold (\<lambda>pid r. if \<not> alive pid then rg_Unbind pid r else r) (AllPIDs r) r"

subsection \<open>Interleaved operations and their invariant\<close>

text \<open>
  One step is one critical section. \<open>kill_finish\<close> runs for an id whose \<open>kill_begin\<close> has run, in the
  goroutine that ran it; every other step may come in between.
\<close>

inductive reg_step :: "('f \<Rightarrow> string) \<Rightarrow> 'f registry \<Rightarrow> 'f registry \<Rightarrow> bool" for ID where
  register: "reg_step ID r (snd (rg_Register ID f r))"
| kill_begins: "reg_step ID r (snd (kill_begin i r))"
| kill_finishes: "i |\<in>| rg_killing r \<Longrightarrow> reg_step ID r (kill_finish i r)"
| bind_pid: "reg_step ID r (snd (rg_Bind pid i t r))"
| unbind_pid: "reg_step ID r (rg_Unbind pid r)"
| drain: "reg_step ID r (SetDraining r)"

inductive reg_reachable :: "('f \<Rightarrow> string) \<Rightarrow> 'f registry \<Rightarrow> bool" for ID where
  new: "reg_reachable ID NewRegistry"
| step: "reg_reachable ID r \<Longrightarrow> reg_step ID r r' \<Longrightarrow> reg_reachable ID r'"

definition reg_inv :: "('f \<Rightarrow> string) \<Rightarrow> 'f registry \<Rightarrow> bool" where
  "reg_inv ID r \<longleftrightarrow>
     (\<forall>i f. fmlookup (rg_figaros r) i = Some f \<longrightarrow> ID f = i) \<and>
     (\<forall>i. fmlookup (rg_figaroPIDs r) i = None \<longleftrightarrow> fmlookup (rg_figaros r) i = None) \<and>
     (\<forall>pid i. fmlookup (rg_pidToFigaro r) pid = Some i \<longleftrightarrow> pid |\<in>| pids_of r i) \<and>
     (\<forall>pid. fmlookup (rg_pidToLT r) pid = None \<longrightarrow> fmlookup (rg_pidToFigaro r) pid = None) \<and>
     (\<forall>i. i |\<in>| rg_killing r \<longrightarrow> fmlookup (rg_figaros r) i \<noteq> None)"

lemma reg_invD:
  assumes "reg_inv ID r"
  shows "fmlookup (rg_figaros r) i = Some f \<Longrightarrow> ID f = i"
    and "fmlookup (rg_figaroPIDs r) i = None \<longleftrightarrow> fmlookup (rg_figaros r) i = None"
    and "fmlookup (rg_pidToFigaro r) pid = Some i \<longleftrightarrow> pid |\<in>| pids_of r i"
    and "fmlookup (rg_pidToLT r) pid = None \<Longrightarrow> fmlookup (rg_pidToFigaro r) pid = None"
    and "i |\<in>| rg_killing r \<Longrightarrow> fmlookup (rg_figaros r) i \<noteq> None"
  using assms unfolding reg_inv_def by blast+

lemma pids_of_upd [simp]:
  "fmlookup (rg_figaroPIDs r') i = Some s \<Longrightarrow> pids_of r' i = s"
  "fmlookup (rg_figaroPIDs r') i = None \<Longrightarrow> pids_of r' i = {||}"
  by (simp_all add: pids_of_def)

lemma pids_of_cong: "fmlookup (rg_figaroPIDs r') i = fmlookup (rg_figaroPIDs r) i \<Longrightarrow> pids_of r' i = pids_of r i"
  by (simp add: pids_of_def)

lemma bound_registered:
  assumes "reg_inv ID r" and "fmlookup (rg_pidToFigaro r) pid = Some i"
  shows "fmlookup (rg_figaros r) i \<noteq> None" "fmlookup (rg_figaroPIDs r) i = Some (pids_of r i)"
proof -
  have "pid |\<in>| pids_of r i" using reg_invD(3) assms by blast
  then show *: "fmlookup (rg_figaroPIDs r) i = Some (pids_of r i)" by (cases "fmlookup (rg_figaroPIDs r) i") auto
  then show "fmlookup (rg_figaros r) i \<noteq> None" using reg_invD(2) [OF assms(1)] by (metis option.discI)
qed

text \<open>What each operation does to the tables, for a registry that satisfies the invariant.\<close>

lemma unbindLocked_lookup:
  assumes "reg_inv ID r"
  shows "rg_figaros (unbindLocked pid r) = rg_figaros r" "rg_killing (unbindLocked pid r) = rg_killing r"
    "rg_draining (unbindLocked pid r) = rg_draining r"
    "rg_pidToFigaro (unbindLocked pid r) = fmdrop pid (rg_pidToFigaro r)"
    "fmlookup (rg_figaroPIDs (unbindLocked pid r)) i = map_option (\<lambda>s. s |-| {|pid|}) (fmlookup (rg_figaroPIDs r) i)"
    "q \<noteq> pid \<Longrightarrow> fmlookup (rg_pidToLT (unbindLocked pid r)) q = fmlookup (rg_pidToLT r) q"
proof -
  show "rg_figaros (unbindLocked pid r) = rg_figaros r" "rg_killing (unbindLocked pid r) = rg_killing r"
    "rg_draining (unbindLocked pid r) = rg_draining r"
    "q \<noteq> pid \<Longrightarrow> fmlookup (rg_pidToLT (unbindLocked pid r)) q = fmlookup (rg_pidToLT r) q"
    by (auto simp: unbindLocked_def Let_def split: option.split)
  show "rg_pidToFigaro (unbindLocked pid r) = fmdrop pid (rg_pidToFigaro r)"
    by (auto simp: unbindLocked_def Let_def split: option.split intro!: fmap_ext)
  show "fmlookup (rg_figaroPIDs (unbindLocked pid r)) i = map_option (\<lambda>s. s |-| {|pid|}) (fmlookup (rg_figaroPIDs r) i)"
  proof (cases "fmlookup (rg_pidToFigaro r) pid")
    case None
    have "s |-| {|pid|} = s" if "fmlookup (rg_figaroPIDs r) i = Some s" for s
      using that None reg_invD(3) [OF assms, of pid i] by fastforce
    with None show ?thesis by (cases "fmlookup (rg_figaroPIDs r) i") (auto simp: unbindLocked_def)
  next
    case (Some j)
    have "s |-| {|pid|} = s" if "fmlookup (rg_figaroPIDs r) i = Some s" "i \<noteq> j" for s
      using that Some reg_invD(3) [OF assms, of pid i] by fastforce
    moreover obtain u where "fmlookup (rg_figaroPIDs r) j = Some u" using bound_registered(2) [OF assms Some] by blast
    ultimately show ?thesis
      using Some by (cases "fmlookup (rg_figaroPIDs r) i") (auto simp: unbindLocked_def Let_def)
  qed
qed

lemma pids_of_unbind: "reg_inv ID r \<Longrightarrow> pids_of (unbindLocked pid r) i = pids_of r i |-| {|pid|}"
  by (simp add: pids_of_def unbindLocked_lookup split: option.split)

lemma unbindLocked_inv [wf_intros]: "reg_inv ID r \<Longrightarrow> reg_inv ID (unbindLocked pid r)"
proof -
  assume inv: "reg_inv ID r"
  have "fmlookup (rg_pidToFigaro (unbindLocked pid r)) q = None" if "fmlookup (rg_pidToLT (unbindLocked pid r)) q = None" for q
    using that reg_invD(4) [OF inv] unbindLocked_lookup(4,6) [OF inv] by (cases "q = pid") auto
  then show ?thesis
    using reg_invD [OF inv] unfolding reg_inv_def pids_of_unbind [OF inv] unbindLocked_lookup(1-5) [OF inv]
    by simp
qed

lemma Register_inv [wf_intros]: "reg_inv ID r \<Longrightarrow> reg_inv ID (snd (rg_Register ID f r))"
proof -
  assume inv: "reg_inv ID r"
  have *: "pids_of (snd (rg_Register ID f r)) i = pids_of r i" for i
    using reg_invD(2) [OF inv, of "ID f"] by (auto simp: rg_Register_def pids_of_def split: option.split)
  show ?thesis
    unfolding reg_inv_def * using inv by (auto simp: rg_Register_def reg_inv_def)
qed

lemma kill_begin_inv [wf_intros]: "reg_inv ID r \<Longrightarrow> reg_inv ID (snd (kill_begin i r))"
  by (auto simp: kill_begin_def reg_inv_def pids_of_def split: option.split)

lemma kill_finish_inv [wf_intros]: "reg_inv ID r \<Longrightarrow> reg_inv ID (kill_finish i r)"
proof -
  assume inv: "reg_inv ID r"
  have p: "pids_of (kill_finish i r) j = (if j = i then {||} else pids_of r j)" for j
    by (simp add: pids_of_def kill_finish_def)
  have "fmlookup (rg_pidToFigaro (kill_finish i r)) pid = Some j \<longleftrightarrow> pid |\<in>| pids_of (kill_finish i r) j" for pid j
    unfolding p using reg_invD(3) [OF inv, of pid j] reg_invD(3) [OF inv, of pid i]
    by (auto simp: kill_finish_def)
  then show ?thesis
    using inv unfolding reg_inv_def by (auto simp: kill_finish_def)
qed

lemma SetDraining_inv [wf_intros]: "reg_inv ID r \<Longrightarrow> reg_inv ID (SetDraining r)"
  by (simp add: SetDraining_def reg_inv_def pids_of_def)

lemma rg_Bind_ok:
  fixes pid :: int and t :: lt
  assumes inv: "reg_inv ID r" and reg: "fmlookup (rg_figaros r) i \<noteq> None"
  defines "r' \<equiv> snd (rg_Bind pid i t r)"
  shows "fst (rg_Bind pid i t r) = None" "rg_figaros r' = rg_figaros r" "rg_killing r' = rg_killing r"
    "rg_draining r' = rg_draining r"
    "fmlookup (rg_pidToFigaro r') q = (if q = pid then Some i else fmlookup (rg_pidToFigaro r) q)"
    "fmlookup (rg_pidToLT r') q = (if q = pid then Some t else fmlookup (rg_pidToLT r) q)"
    "fmlookup (rg_figaroPIDs r') j
       = map_option (\<lambda>s. if j = i then finsert pid s else s |-| {|pid|}) (fmlookup (rg_figaroPIDs r) j)"
proof -
  obtain f where f: "fmlookup (rg_figaros r) i = Some f" using reg by auto
  then obtain s where s: "fmlookup (rg_figaroPIDs r) i = Some s" using reg_invD(2) [OF inv, of i] by force
  show "fst (rg_Bind pid i t r) = None" "rg_figaros r' = rg_figaros r" "rg_killing r' = rg_killing r"
    "rg_draining r' = rg_draining r"
    "fmlookup (rg_pidToFigaro r') q = (if q = pid then Some i else fmlookup (rg_pidToFigaro r) q)"
    "fmlookup (rg_pidToLT r') q = (if q = pid then Some t else fmlookup (rg_pidToLT r) q)"
    by (simp_all add: r'_def rg_Bind_def f s Let_def unbindLocked_lookup [OF inv])
  show "fmlookup (rg_figaroPIDs r') j
       = map_option (\<lambda>s. if j = i then finsert pid s else s |-| {|pid|}) (fmlookup (rg_figaroPIDs r) j)"
  proof (cases "fmlookup (rg_pidToFigaro r) pid = Some i")
    case True
    then have in_i: "pid |\<in>| s" using reg_invD(3) [OF inv, of pid i] s by simp
    have "u |-| {|pid|} = u" if "fmlookup (rg_figaroPIDs r) j = Some u" "j \<noteq> i" for u
      using that True reg_invD(3) [OF inv, of pid j] by fastforce
    with True in_i show ?thesis
      by (cases "fmlookup (rg_figaroPIDs r) j") (auto simp: r'_def rg_Bind_def f s)
  next
    case False
    then have out: "pid |\<notin>| s" using reg_invD(3) [OF inv, of pid i] s by simp
    then have [simp]: "s |-| {|pid|} = s" by fastforce
    show ?thesis using False s by (cases "j = i") (simp_all add: r'_def rg_Bind_def f Let_def unbindLocked_lookup [OF inv])
  qed
qed

lemma rg_Bind_missing: "fmlookup (rg_figaros r) i = None \<Longrightarrow> rg_Bind pid i t r = (Some (FigaroNotFound i), r)"
  by (simp add: rg_Bind_def)

lemma rg_Bind_inv [wf_intros]: "reg_inv ID r \<Longrightarrow> reg_inv ID (snd (rg_Bind pid i t r))"
proof (cases "fmlookup (rg_figaros r) i = None")
  case True
  then show "reg_inv ID r \<Longrightarrow> reg_inv ID (snd (rg_Bind pid i t r))" by (simp add: rg_Bind_missing)
next
  case False
  assume inv: "reg_inv ID r"
  note ok = rg_Bind_ok [OF inv False]
  obtain s where s: "fmlookup (rg_figaroPIDs r) i = Some s" using False reg_invD(2) [OF inv, of i] by force
  have p: "pids_of (snd (rg_Bind pid i t r)) j = (if j = i then finsert pid s else pids_of r j |-| {|pid|})" for j
    by (auto simp: pids_of_def ok s split: option.split)
  have "fmlookup (rg_pidToFigaro (snd (rg_Bind pid i t r))) q = Some j \<longleftrightarrow> q |\<in>| pids_of (snd (rg_Bind pid i t r)) j" for q j
    unfolding p using reg_invD(3) [OF inv, of q j] s by (auto simp: ok)
  then show ?thesis using inv unfolding reg_inv_def by (simp add: ok)
qed

lemma NewRegistry_inv [wf_intros]: "reg_inv ID NewRegistry"
  by (simp add: reg_inv_def NewRegistry_def pids_of_def)

lemma reg_step_inv: "reg_step ID r r' \<Longrightarrow> reg_inv ID r \<Longrightarrow> reg_inv ID r'"
  by (induction rule: reg_step.induct) (auto intro: wf_intros simp: rg_Unbind_def)

lemma reachable_inv: "reg_reachable ID r \<Longrightarrow> reg_inv ID r"
  by (induction rule: reg_reachable.induct) (auto intro: wf_intros reg_step_inv)

subsection \<open>The table of bindings the registry implements\<close>

text \<open>
  The abstract view: which figaros run, and where each shell is attached, with the fork point
  that waits for its next prompt. The code keeps the second index \<open>figaroPIDs\<close> and leaves an
  entry of \<open>pidToLT\<close> behind when a figaro is killed; neither shows here.
\<close>

record 'f binding_table =
  bt_live :: "string \<Rightarrow> 'f option"
  bt_at :: "int \<Rightarrow> (string \<times> lt) option"

definition table_of :: "'f registry \<Rightarrow> 'f binding_table" where
  "table_of r = \<lparr>bt_live = fmlookup (rg_figaros r),
     bt_at = (\<lambda>pid. map_option (\<lambda>i. (i, lt_of r pid)) (fmlookup (rg_pidToFigaro r) pid))\<rparr>"

definition table_bind :: "int \<Rightarrow> string \<Rightarrow> lt \<Rightarrow> 'f binding_table \<Rightarrow> 'f binding_table" where
  "table_bind pid i t b = (if bt_live b i = None then b else b\<lparr>bt_at := (bt_at b)(pid \<mapsto> (i, t))\<rparr>)"

definition table_unbind :: "int \<Rightarrow> 'f binding_table \<Rightarrow> 'f binding_table" where
  "table_unbind pid b = b\<lparr>bt_at := (bt_at b)(pid := None)\<rparr>"

definition table_kill :: "string \<Rightarrow> 'f binding_table \<Rightarrow> 'f binding_table" where
  "table_kill i b = b\<lparr>bt_live := (bt_live b)(i := None),
     bt_at := (\<lambda>pid. case bt_at b pid of None \<Rightarrow> None | Some (j, t) \<Rightarrow> (if j = i then None else Some (j, t)))\<rparr>"

lemma table_of_sel [simp]:
  "bt_live (table_of r) = fmlookup (rg_figaros r)"
  "bt_at (table_of r) pid = map_option (\<lambda>i. (i, lt_of r pid)) (fmlookup (rg_pidToFigaro r) pid)"
  by (simp_all add: table_of_def)

lemma table_eqI:
  "(\<And>i. bt_live a i = bt_live b i) \<Longrightarrow> (\<And>p. bt_at a p = bt_at b p) \<Longrightarrow> a = (b :: 'f binding_table)"
  by (cases a; cases b) auto

lemma table_Bind: "reg_inv ID r \<Longrightarrow> table_of (snd (rg_Bind pid i t r)) = table_bind pid i t (table_of r)"
proof (cases "fmlookup (rg_figaros r) i = None")
  case False
  assume "reg_inv ID r"
  note ok = rg_Bind_ok [OF this False, of pid t]
  show ?thesis
    by (rule table_eqI) (use False in \<open>auto simp: table_bind_def ok lt_of_def\<close>)
qed (simp add: rg_Bind_missing table_bind_def)

lemma table_Unbind: "reg_inv ID r \<Longrightarrow> table_of (rg_Unbind pid r) = table_unbind pid (table_of r)"
  by (rule table_eqI) (auto simp: table_unbind_def rg_Unbind_def unbindLocked_lookup lt_of_def)

lemma table_kill_finish: "reg_inv ID r \<Longrightarrow> table_of (kill_finish i r) = table_kill i (table_of r)"
proof (rule table_eqI)
  fix pid
  assume "reg_inv ID r"
  from reg_invD(3) [OF this, of pid] show "bt_at (table_of (kill_finish i r)) pid = bt_at (table_kill i (table_of r)) pid"
    by (cases "fmlookup (rg_pidToFigaro r) pid") (auto simp: table_kill_def kill_finish_def lt_of_def)
qed (simp add: table_kill_def kill_finish_def)

lemma reap_fold:
  fixes alive :: "int \<Rightarrow> bool" and ps :: "int list"
  assumes "reg_inv ID r"
  defines "r' \<equiv> fold (\<lambda>pid r. if \<not> alive pid then rg_Unbind pid r else r) ps r"
  shows "reg_inv ID r' \<and> bt_live (table_of r') = bt_live (table_of r)
    \<and> (\<forall>pid. bt_at (table_of r') pid = (if pid \<in> set ps \<and> \<not> alive pid then None else bt_at (table_of r) pid))"
  using assms(1) unfolding r'_def
proof (induction ps arbitrary: r)
  case (Cons p ps)
  let ?r = "if \<not> alive p then rg_Unbind p r else r"
  have inv: "reg_inv ID ?r" using Cons.prems by (simp add: rg_Unbind_def unbindLocked_inv)
  have "bt_live (table_of ?r) = bt_live (table_of r)"
    "bt_at (table_of ?r) pid = (if pid = p \<and> \<not> alive p then None else bt_at (table_of r) pid)" for pid
    using table_Unbind [OF Cons.prems, of p] by (auto simp: table_unbind_def simp del: table_of_sel)
  with Cons.IH [OF inv] show ?case by (auto simp del: table_of_sel)
qed simp

subsection \<open>Persisted bindings\<close>

record binding_entry =
  be_PID :: int
  be_FigaroID :: string
  be_StartTime :: nat

text \<open>\<open>bytes.Fields\<close>: the maximal runs of bytes between white space; \<open>cur\<close> is the open run.\<close>

function fields_loop :: "string \<Rightarrow> string \<Rightarrow> string list" where
  "fields_loop cur [] = (if cur = [] then [] else [cur])"
| "fields_loop cur (c # s) =
     (case find (\<lambda>w. w \<noteq> [] \<and> prefix w (c # s)) white_space of
        Some w \<Rightarrow> (if cur = [] then [] else [cur]) @ fields_loop [] (drop (length w) (c # s))
      | None \<Rightarrow> fields_loop (cur @ [c]) s)"
  by pat_completeness auto
termination
proof (relation "measure (\<lambda>(cur, s). length s)")
  fix cur c s w
  assume "find (\<lambda>w. w \<noteq> [] \<and> prefix w (c # s)) white_space = Some (w :: string)"
  then have "w \<noteq> []" by (auto simp: find_Some_iff)
  then show "(([], drop (length w) (c # s)), (cur, c # s)) \<in> measure (\<lambda>(cur, s). length s)" by (cases w) auto
qed auto

definition fields :: "string \<Rightarrow> string list" where
  "fields s = fields_loop [] s"

text \<open>The bytes after the last occurrence of a byte: \<open>s[bytes.LastIndexByte(s, c)+1:]\<close>, if it occurs.\<close>

definition after_last :: "char \<Rightarrow> string \<Rightarrow> string option" where
  "after_last c s = (if c \<in> set s then Some (rev (takeWhile (\<lambda>x. x \<noteq> c) (rev s))) else None)"

definition pidStartTime :: "(int \<Rightarrow> string option) \<Rightarrow> int \<Rightarrow> nat" where
  "pidStartTime proc pid =
     (case proc pid of
        None \<Rightarrow> 0
      | Some data \<Rightarrow>
          (case after_last (CHR '')'') data of
             None \<Rightarrow> 0
           | Some rest \<Rightarrow>
               (if rest = [] then 0
                else let fs = fields rest
                     in if length fs < 20 then 0
                        else case parse_uint64 (fs ! 19) of None \<Rightarrow> 0 | Some v \<Rightarrow> v)))"

definition binding_entries :: "('f \<Rightarrow> string) \<Rightarrow> (int \<Rightarrow> nat) \<Rightarrow> 'f registry \<Rightarrow> binding_entry list" where
  "binding_entries ID start r =
     concat (map (\<lambda>i. map (\<lambda>pid. \<lparr>be_PID = pid, be_FigaroID = i, be_StartTime = start pid\<rparr>) (BoundPIDs r i))
       (rg_List ID r))"

datatype save_error = NilRegistry | SaveFailed state_error

definition SaveBindings ::
  "('f \<Rightarrow> string) \<Rightarrow> (int \<Rightarrow> string option) \<Rightarrow> (binding_entry list \<Rightarrow> string option) \<Rightarrow> os_faults
     \<Rightarrow> 'f registry option \<Rightarrow> string \<Rightarrow> fs \<Rightarrow> save_error option \<times> fs" where
  "SaveBindings ID proc marshal faults reg path files =
     (case reg of
        None \<Rightarrow> (Some NilRegistry, files)
      | Some r \<Rightarrow>
          (case marshal (binding_entries ID (pidStartTime proc) r) of
             None \<Rightarrow> (Some (SaveFailed MarshalError), files)
           | Some data \<Rightarrow>
               (if mkdir_fault faults then (Some (SaveFailed MkdirError), files)
                else let tmp = path @ ''.tmp''
                     in case write_fault faults of
                          Some junk \<Rightarrow> (Some (SaveFailed WriteError), fmupd tmp junk files)
                        | None \<Rightarrow>
                            (if rename_fault faults then (Some (SaveFailed RenameError), fmdrop tmp (fmupd tmp data files))
                             else (None, fmupd path data (fmdrop tmp (fmupd tmp data files)))))))"

text \<open>
  The restorer may do more than register a figaro (it opens the aria's store): its state is the
  registry and a rest \<open>'b\<close>. The counters are those the code logs.
\<close>

definition restore_binding ::
  "(int \<Rightarrow> bool) \<Rightarrow> (int \<Rightarrow> nat) \<Rightarrow> (string \<Rightarrow> 'f registry \<times> 'b \<Rightarrow> 'e option \<times> ('f registry \<times> 'b)) option
     \<Rightarrow> binding_entry \<Rightarrow> (nat \<times> nat) \<times> ('f registry \<times> 'b) \<Rightarrow> (nat \<times> nat) \<times> ('f registry \<times> 'b)" where
  "restore_binding alive start restore b st =
     (let ((restored, skipped), w) = st
      in if \<not> alive (be_PID b) then ((restored, skipped + 1), w)
         else if be_StartTime b \<noteq> 0 \<and> start (be_PID b) \<noteq> be_StartTime b then ((restored, skipped + 1), w)
         else let (err, w1) = (case restore of None \<Rightarrow> (None, w) | Some f \<Rightarrow> f (be_FigaroID b) w)
              in if err \<noteq> None then ((restored, skipped + 1), w1)
                 else let (berr, r2) = rg_Bind (be_PID b) (be_FigaroID b) 0 (fst w1)
                      in if berr \<noteq> None then ((restored, skipped + 1), (r2, snd w1))
                         else ((restored + 1, skipped), (r2, snd w1)))"

definition RestoreBindings ::
  "(int \<Rightarrow> bool) \<Rightarrow> (int \<Rightarrow> string option) \<Rightarrow> (string \<Rightarrow> binding_entry list option) \<Rightarrow> os_faults
     \<Rightarrow> (string \<Rightarrow> 'f registry \<times> 'b \<Rightarrow> 'e option \<times> ('f registry \<times> 'b)) option
     \<Rightarrow> string \<Rightarrow> fs \<Rightarrow> 'f registry \<times> 'b \<Rightarrow> ((nat \<times> nat) \<times> ('f registry \<times> 'b)) \<times> fs" where
  "RestoreBindings alive proc unmarshal faults restore path files w =
     (if read_fault faults then (((0, 0), w), files)
      else case fmlookup files path of
             None \<Rightarrow> (((0, 0), w), files)
           | Some data \<Rightarrow>
               (case unmarshal data of
                  None \<Rightarrow> (((0, 0), w), fmdrop path files)
                | Some bs \<Rightarrow> (fold (restore_binding alive (pidStartTime proc) restore) bs ((0, 0), w), fmdrop path files)))"

subsection \<open>What restoring relies on\<close>

text \<open>A saved binding survives when its process still runs and is the one that was saved.\<close>

definition survives :: "(int \<Rightarrow> bool) \<Rightarrow> (int \<Rightarrow> nat) \<Rightarrow> binding_entry \<Rightarrow> bool" where
  "survives alive start b \<longleftrightarrow> alive (be_PID b) \<and> (be_StartTime b = 0 \<or> start (be_PID b) = be_StartTime b)"

text \<open>
  The contract of the callback that revives an aria (\<open>AriaRestorer\<close>): when it succeeds the aria is
  registered; it touches neither other figaros nor any binding; and it does succeed for the arias
  that are \<open>good\<close>, which neither reviving another aria nor binding a shell changes.
\<close>

locale aria_restorer =
  fixes ID :: "'f \<Rightarrow> string"
    and restore :: "string \<Rightarrow> 'f registry \<times> 'b \<Rightarrow> 'e option \<times> ('f registry \<times> 'b)"
    and good :: "'f registry \<times> 'b \<Rightarrow> string \<Rightarrow> bool"
  assumes restored: "restore i w = (None, w') \<Longrightarrow> fmlookup (rg_figaros (fst w')) i \<noteq> None"
    and keeps_inv: "reg_inv ID (fst w) \<Longrightarrow> reg_inv ID (fst (snd (restore i w)))"
    and keeps_bindings: "bt_at (table_of (fst (snd (restore i w)))) = bt_at (table_of (fst w))"
    and good_ok: "good w i \<Longrightarrow> fst (restore i w) = None"
    and good_restore: "good w j \<Longrightarrow> good (snd (restore i w)) j"
    and good_bind: "good (r, b) j \<Longrightarrow> good (snd (rg_Bind pid i t r), b) j"
begin

lemma restore_binding_skip:
  "\<not> survives alive start b \<Longrightarrow> restore_binding alive start (Some restore) b ((a, s), w) = ((a, s + 1), w)"
  by (auto simp: survives_def restore_binding_def)

lemma restore_binding_step:
  assumes inv: "reg_inv ID (fst w)" and ok: "survives alive start b"
    and step: "restore_binding alive start (Some restore) b ((a, s), w) = ((a', s'), w')"
  shows "reg_inv ID (fst w')" "a' + s' = Suc (a + s)"
    "bt_at (table_of (fst w')) pid = bt_at (table_of (fst w)) pid
       \<or> pid = be_PID b \<and> bt_at (table_of (fst w')) pid = Some (be_FigaroID b, 0)"
    "good w j \<Longrightarrow> good w' j"
    "good w (be_FigaroID b) \<Longrightarrow> bt_at (table_of (fst w')) (be_PID b) = Some (be_FigaroID b, 0)"
proof -
  let ?i = "be_FigaroID b"
  obtain err r1 b1 where r: "restore ?i w = (err, (r1, b1))" by (metis prod.exhaust)
  have inv1: "reg_inv ID r1" and at1: "bt_at (table_of r1) = bt_at (table_of (fst w))"
    using keeps_inv [OF inv, of ?i] keeps_bindings [of ?i w] r by simp_all
  have good1: "good w j \<Longrightarrow> good (r1, b1) j" for j using good_restore [of w j ?i] r by simp
  obtain berr r2 where bd: "rg_Bind (be_PID b) ?i 0 r1 = (berr, r2)" by fastforce
  have inv2: "reg_inv ID r2" and t2: "table_of r2 = table_bind (be_PID b) ?i 0 (table_of r1)"
    using rg_Bind_inv [OF inv1, of "be_PID b" ?i 0] table_Bind [OF inv1, of "be_PID b" ?i 0] bd by simp_all
  have good2: "good (r1, b1) j \<Longrightarrow> good (r2, b1) j" for j using good_bind [of r1 b1 j "be_PID b" ?i 0] bd by simp
  have w': "w' = (if err \<noteq> None then (r1, b1) else (r2, b1))" and cnt: "a' + s' = Suc (a + s)"
    using step ok r bd by (auto simp: restore_binding_def survives_def Let_def split: if_splits)
  show "reg_inv ID (fst w')" using inv1 inv2 by (simp add: w')
  show "a' + s' = Suc (a + s)" by (rule cnt)
  show "bt_at (table_of (fst w')) pid = bt_at (table_of (fst w)) pid
       \<or> pid = be_PID b \<and> bt_at (table_of (fst w')) pid = Some (?i, 0)"
    unfolding w' using at1 t2 by (auto simp: table_bind_def simp del: table_of_sel)
  show "good w j \<Longrightarrow> good w' j" using good1 good2 by (simp add: w')
  assume g: "good w ?i"
  then have e: "err = None" using good_ok [OF g] r by simp
  then have "fmlookup (rg_figaros r1) ?i \<noteq> None" using restored r by fastforce
  then show "bt_at (table_of (fst w')) (be_PID b) = Some (?i, 0)"
    using e t2 by (auto simp: w' table_bind_def simp del: table_of_sel(2))
qed

lemma restore_bindings_fold:
  assumes "reg_inv ID (fst w)" and "distinct (map be_PID bs)"
    and "fold (restore_binding alive start (Some restore)) bs ((a, s), w) = ((a', s'), w')"
  shows "reg_inv ID (fst w') \<and> a' + s' = a + s + length bs
    \<and> (\<forall>pid. bt_at (table_of (fst w')) pid = bt_at (table_of (fst w)) pid
         \<or> (\<exists>b \<in> set bs. be_PID b = pid \<and> survives alive start b \<and> bt_at (table_of (fst w')) pid = Some (be_FigaroID b, 0)))
    \<and> (\<forall>b \<in> set bs. survives alive start b \<and> good w (be_FigaroID b)
         \<longrightarrow> bt_at (table_of (fst w')) (be_PID b) = Some (be_FigaroID b, 0))"
  using assms
proof (induction bs arbitrary: a s w)
  case (Cons b bs)
  obtain a1 s1 w1 where st: "restore_binding alive start (Some restore) b ((a, s), w) = ((a1, s1), w1)"
    by (metis prod.exhaust)
  with Cons.prems(3) have rest: "fold (restore_binding alive start (Some restore)) bs ((a1, s1), w1) = ((a', s'), w')" by simp
  have dist: "distinct (map be_PID bs)" and fresh: "\<forall>c \<in> set bs. be_PID c \<noteq> be_PID b" using Cons.prems(2) by (auto simp: rev_image_eqI)
  show ?case
  proof (cases "survives alive start b")
    case False
    from restore_binding_skip [OF this, of a s w] st have "a1 = a" "s1 = s + 1" "w1 = w" by auto
    with Cons.IH [OF _ dist rest] Cons.prems(1) False show ?thesis by auto
  next
    case True
    note step = restore_binding_step [OF Cons.prems(1) True st]
    note IH = Cons.IH [OF step(1) dist rest]
    have "bt_at (table_of (fst w')) (be_PID b) = bt_at (table_of (fst w1)) (be_PID b)" using IH fresh by blast
    with IH step True show ?thesis by (auto simp del: table_of_sel) (metis)+
  qed
qed auto

end

lemma sorted_list_of_fset_set [simp]: "set (sorted_list_of_fset s) = fset s"
  by (simp add: sorted_list_of_fset.rep_eq)

lemma BoundPIDs_iff: "reg_inv ID r \<Longrightarrow> pid \<in> set (BoundPIDs r i) \<longleftrightarrow> fmlookup (rg_pidToFigaro r) pid = Some i"
  using reg_invD(3) by (fastforce simp: BoundPIDs_def)

subsection \<open>What is saved\<close>

lemma rg_List_ID: "reg_inv ID r \<Longrightarrow> rg_List ID r = fmkeys (rg_figaros r)"
proof -
  assume inv: "reg_inv ID r"
  have "ID (the (fmlookup (rg_figaros r) i)) = i" if "i \<in> set (fmkeys (rg_figaros r))" for i
    using that reg_invD(1) [OF inv, of i] by (auto simp: fmlookup_dom'_iff)
  then show ?thesis unfolding rg_List_def rg_All_def map_map comp_def by (rule map_idI)
qed

lemma binding_entries_iff:
  assumes "reg_inv ID r"
  shows "e \<in> set (binding_entries ID start r) \<longleftrightarrow>
    fmlookup (rg_pidToFigaro r) (be_PID e) = Some (be_FigaroID e) \<and> be_StartTime e = start (be_PID e)"
proof -
  have reg: "fmlookup (rg_pidToFigaro r) p = Some i \<Longrightarrow> i \<in> set (fmkeys (rg_figaros r))" for p i
    using bound_registered(1) [OF assms] by (auto simp: fmlookup_dom'_iff)
  show ?thesis
    by (cases e) (fastforce simp: binding_entries_def rg_List_ID [OF assms] BoundPIDs_iff [OF assms] image_iff dest: reg)
qed

lemma distinct_concat_map:
  assumes "distinct ks" and "\<And>k. k \<in> set ks \<Longrightarrow> distinct (map g (f k))"
    and "\<And>k l x y. x \<in> set (f k) \<Longrightarrow> y \<in> set (f l) \<Longrightarrow> g x = g y \<Longrightarrow> k = l"
  shows "distinct (map g (concat (map f ks)))"
  using assms(1,2)
proof (induction ks)
  case (Cons k ks)
  have "x \<in> set (f k) \<Longrightarrow> l \<in> set ks \<Longrightarrow> y \<in> set (f l) \<Longrightarrow> g x \<noteq> g y" for x y l
    using assms(3) [of x k y l] Cons.prems(1) by auto
  with Cons show ?case by (simp, blast)
qed simp

lemma binding_entries_pids:
  assumes "reg_inv ID r"
  shows "distinct (map be_PID (binding_entries ID start r))" and "length (binding_entries ID start r) = BoundPIDCount r"
proof -
  show d: "distinct (map be_PID (binding_entries ID start r))"
    unfolding binding_entries_def rg_List_ID [OF assms]
  proof (rule distinct_concat_map)
    fix k l :: string and x y :: binding_entry
    assume "x \<in> set (map (\<lambda>pid. \<lparr>be_PID = pid, be_FigaroID = k, be_StartTime = start pid\<rparr>) (BoundPIDs r k))"
      "y \<in> set (map (\<lambda>pid. \<lparr>be_PID = pid, be_FigaroID = l, be_StartTime = start pid\<rparr>) (BoundPIDs r l))" "be_PID x = be_PID y"
    then show "k = l" by (auto simp: BoundPIDs_iff [OF assms])
  qed (simp_all add: comp_def BoundPIDs_def sorted_list_of_fset.rep_eq)
  have "be_PID ` set (binding_entries ID start r) = fmdom' (rg_pidToFigaro r)"
  proof (intro set_eqI iffI)
    fix p assume "p \<in> fmdom' (rg_pidToFigaro r)"
    then obtain i where "fmlookup (rg_pidToFigaro r) p = Some i" by (auto simp: fmlookup_dom'_iff)
    then have "\<lparr>be_PID = p, be_FigaroID = i, be_StartTime = start p\<rparr> \<in> set (binding_entries ID start r)"
      by (simp add: binding_entries_iff [OF assms])
    then show "p \<in> be_PID ` set (binding_entries ID start r)" by (metis binding_entry.select_convs(1) image_eqI)
  qed (auto simp: binding_entries_iff [OF assms] fmlookup_dom'_iff)
  then show "length (binding_entries ID start r) = BoundPIDCount r"
    using distinct_card [OF d] by (simp add: BoundPIDCount_def fcard.rep_eq fmdom'_alt_def)
qed

lemma SaveBindings_file:
  assumes "SaveBindings ID proc marshal faults (Some r) path files = (None, files1)"
  obtains data where "marshal (binding_entries ID (pidStartTime proc) r) = Some data" "fmlookup files1 path = Some data"
  using assms by (auto simp: SaveBindings_def Let_def split: option.splits if_splits)

subsection \<open>Properties\<close>

text \<open>A figaro \<open>a\<close> with the shell 7 bound to it, waiting to fork at 3.\<close>

definition reg_example :: "string registry" where
  "reg_example = snd (rg_Bind 7 ''a'' 3 (snd (rg_Register (\<lambda>f. f) ''a'' NewRegistry)))"

lemma reg_example_reachable: "reg_reachable (\<lambda>f. f) reg_example"
  unfolding reg_example_def
  by (rule reg_reachable.step [OF reg_reachable.step [OF reg_reachable.new reg_step.register] reg_step.bind_pid])

lemma reg_example_tables:
  "rg_figaros reg_example = fmupd ''a'' ''a'' fmempty" "rg_pidToFigaro reg_example = fmupd 7 ''a'' fmempty"
  "rg_pidToLT reg_example = fmupd 7 3 fmempty" "fmlookup (rg_figaroPIDs reg_example) ''a'' = Some {|7|}"
  by (simp_all add: reg_example_def rg_Bind_def rg_Register_def NewRegistry_def unbindLocked_def Let_def)

text \<open>
  The two indices of the registry agree in every state it can reach, also while kills are under way:
  \<open>BoundPIDs\<close> lists exactly the shells that \<open>Resolve\<close> finds on the figaro, each once; \<open>Resolve\<close> never names a
  figaro that is not running; and \<open>Bind\<close> never writes into a missing set (Go would panic).
\<close>

theorem registry_consistent:
  assumes "reg_reachable ID r"
  shows "(pid \<in> set (BoundPIDs r i) \<longleftrightarrow> (\<exists>f t. rg_Resolve r pid = (i, Some f, t) \<and> ID f = i))
    \<and> distinct (BoundPIDs r i)
    \<and> (rg_Resolve r pid = ([], None, 0) \<or> fst (snd (rg_Resolve r pid)) \<noteq> None)
    \<and> fst (rg_Bind pid i n r) \<noteq> Some NilMapWrite"
proof -
  note inv = reachable_inv [OF assms]
  have "fst (rg_Bind pid i n r) \<noteq> Some NilMapWrite"
    using rg_Bind_ok(1) [OF inv] by (cases "fmlookup (rg_figaros r) i") (simp_all add: rg_Bind_missing)
  moreover have "distinct (BoundPIDs r i)" by (simp add: BoundPIDs_def sorted_list_of_fset.rep_eq)
  ultimately show ?thesis
    using bound_registered(1) [OF inv, of pid] reg_invD(1) [OF inv] BoundPIDs_iff [OF inv, of pid i]
    by (cases "fmlookup (rg_pidToFigaro r) pid") (fastforce simp: rg_Resolve_def)+
qed

theorem registry_consistent_witness:
  "reg_reachable (\<lambda>f. f) reg_example \<and> 7 \<in> set (BoundPIDs reg_example ''a'')"
proof -
  have "rg_Resolve reg_example 7 = (''a'', Some ''a'', 3)" by (simp add: rg_Resolve_def reg_example_tables lt_of_def)
  then show ?thesis
    using registry_consistent [OF reg_example_reachable, of 7 "''a''" 0] reg_example_reachable by simp
qed

text \<open>
  C15: The registry implements the table of bindings: on every reachable state each operation, errors
  included, acts as the table's, and \<open>Resolve\<close> reads the table. A rebind replaces the fork
  point, a kill frees every shell of the figaro, and the monitor frees exactly the dead shells.
\<close>

theorem registry_refines_table:
  assumes "reg_reachable ID r"
  shows "table_of (snd (rg_Bind pid i n r)) = table_bind pid i n (table_of r)
    \<and> (fst (rg_Bind pid i n r) = None \<longleftrightarrow> bt_live (table_of r) i \<noteq> None)
    \<and> table_of (rg_Unbind pid r) = table_unbind pid (table_of r)
    \<and> table_of (kill_finish i r) = table_kill i (table_of r)
    \<and> table_of (snd (kill_begin i r)) = table_of r
    \<and> table_of (snd (rg_Register ID f r)) =
        (if rg_draining r \<or> bt_live (table_of r) (ID f) \<noteq> None then table_of r
         else (table_of r)\<lparr>bt_live := (bt_live (table_of r))(ID f \<mapsto> f)\<rparr>)
    \<and> rg_Resolve r pid = (case bt_at (table_of r) pid of None \<Rightarrow> ([], None, 0) | Some (j, t) \<Rightarrow> (j, bt_live (table_of r) j, t))
    \<and> table_of (reapDeadPIDs alive r) =
        (table_of r)\<lparr>bt_at := (\<lambda>q. if alive q then bt_at (table_of r) q else None)\<rparr>"
proof (intro conjI)
  note inv = reachable_inv [OF assms]
  show "table_of (snd (rg_Bind pid i n r)) = table_bind pid i n (table_of r)" by (rule table_Bind [OF inv])
  show "fst (rg_Bind pid i n r) = None \<longleftrightarrow> bt_live (table_of r) i \<noteq> None"
    using rg_Bind_ok(1) [OF inv] by (cases "fmlookup (rg_figaros r) i") (simp_all add: rg_Bind_missing)
  show "table_of (rg_Unbind pid r) = table_unbind pid (table_of r)" by (rule table_Unbind [OF inv])
  show "table_of (kill_finish i r) = table_kill i (table_of r)" by (rule table_kill_finish [OF inv])
  show "table_of (snd (kill_begin i r)) = table_of r"
    by (rule table_eqI) (auto simp: kill_begin_def lt_of_def split: option.split)
  show "table_of (snd (rg_Register ID f r)) =
        (if rg_draining r \<or> bt_live (table_of r) (ID f) \<noteq> None then table_of r
         else (table_of r)\<lparr>bt_live := (bt_live (table_of r))(ID f \<mapsto> f)\<rparr>)"
    by (rule table_eqI) (auto simp: rg_Register_def lt_of_def)
  show "rg_Resolve r pid = (case bt_at (table_of r) pid of None \<Rightarrow> ([], None, 0) | Some (j, t) \<Rightarrow> (j, bt_live (table_of r) j, t))"
    by (simp add: rg_Resolve_def split: option.split)
  have all: "q \<in> set (AllPIDs r) \<longleftrightarrow> fmlookup (rg_pidToFigaro r) q \<noteq> None" for q by (simp add: AllPIDs_def fmlookup_dom'_iff)
  show "table_of (reapDeadPIDs alive r) = (table_of r)\<lparr>bt_at := (\<lambda>q. if alive q then bt_at (table_of r) q else None)\<rparr>"
    by (rule table_eqI) (use reap_fold [OF inv, of alive "AllPIDs r"] in \<open>auto simp: reapDeadPIDs_def all\<close>)
qed

theorem registry_refines_table_witness:
  "bt_at (table_of (kill_finish ''a'' reg_example)) 7 = None \<and> bt_at (table_of reg_example) 7 = Some (''a'', 3)"
  using registry_refines_table [OF reg_example_reachable, of 7 "''a''" 0]
  by (simp add: table_kill_def reg_example_tables lt_of_def)

text \<open>
  What the table does not show: \<open>Kill\<close> frees the shells of the figaro in \<open>pidToFigaro\<close> only. Their
  fork points stay in \<open>pidToLT\<close>, which no operation but a new \<open>Bind\<close> of the same process id and a
  later \<open>Unbind\<close> ever removes.
\<close>

theorem kill_leaks_fork_point:
  "fmlookup (rg_pidToFigaro (kill_finish ''a'' reg_example)) 7 = None
   \<and> fmlookup (rg_pidToLT (kill_finish ''a'' reg_example)) 7 = Some 3
   \<and> rg_Unbind 7 (kill_finish ''a'' reg_example) = kill_finish ''a'' reg_example"
  by (simp add: kill_finish_def reg_example_tables pids_of_def rg_Unbind_def unbindLocked_def)

end
