(* ===== verification/Turn_Pairing.thy ===== *)
theory Turn_Pairing
  imports Turn_Round
begin

section \<open>Every way a round can end leaves the conversation paired\<close>

text \<open>
  The proof that the log the provider will read stays well-formed: each assistant message with tool
  calls is followed by the user message with their results, however the round is interrupted,
  cancelled or failed. Before the provider's message is sealed the log is as it was at the start of
  the round and the turn record is open; afterwards the log has exactly that message more and the
  turn record lists its calls. Both are kept by every step; every exit then restores pairing.
\<close>

subsection \<open>What the steps keep\<close>

definition good_msg :: "message \<Rightarrow> bool" where
  "good_msg m \<longleftrightarrow> m_role m = RoleAssistant \<and> (\<forall>c \<in> set (m_content m). complete_block c)"

definition open_turn :: "turn_state option \<Rightarrow> bool" where
  "open_turn to \<longleftrightarrow> (case to of None \<Rightarrow> False | Some t \<Rightarrow> ts_inv t \<and> \<not> ts_committed t)"

definition sealed_turn :: "message \<Rightarrow> turn_state option \<Rightarrow> bool" where
  "sealed_turn m to \<longleftrightarrow> (case to of
     None \<Rightarrow> invoke_ids m = []
   | Some t \<Rightarrow> ts_inv t \<and> ts_committed t \<and> invoke_ids (ts_assistant t) = invoke_ids m)"

lemma open_turn_new [simp]: "open_turn (Some newTurnState)"
  by (simp add: open_turn_def wf_intros) (simp add: newTurnState_def)

lemma noteTool_fields:
  assumes "noteTool gov (Some t) tid name status isErr tx = Some t'"
  shows "ts_assistant t' = ts_assistant t" "ts_committed t' = ts_committed t"
  using assms by (auto simp: noteTool_def Let_def)

lemma noteTool_cases:
  obtains "turn = None" "noteTool gov turn tid name status isErr tx = None"
  | t t' where "turn = Some t" "noteTool gov turn tid name status isErr tx = Some t'"
  by (cases turn) (auto simp: noteTool_def Let_def)

lemma noteTool_keeps:
  "open_turn turn \<Longrightarrow> open_turn (noteTool gov turn tid name status isErr tx)"
  "sealed_turn m turn \<Longrightarrow> sealed_turn m (noteTool gov turn tid name status isErr tx)"
  by (rule noteTool_cases [of turn gov tid name status isErr tx];
      auto simp: open_turn_def sealed_turn_def noteTool_fields dest: ts_inv_noteTool)+

lemma noteAssistant_fields:
  assumes "noteAssistant (Some t) m = Some t'"
  shows "ts_assistant t' = partialAssistant m" "ts_committed t' = ts_committed t"
  using assms by (auto simp: noteAssistant_def Let_def)

lemma noteAssistant_open: "open_turn turn \<Longrightarrow> open_turn (noteAssistant turn m)"
proof (cases turn)
  case (Some t)
  then obtain t' where "noteAssistant (Some t) m = Some t'" by (simp add: noteAssistant_def Let_def)
  then show "open_turn turn \<Longrightarrow> ?thesis"
    using Some ts_inv_noteAssistant [of t m t'] noteAssistant_fields [of t m t'] by (simp add: open_turn_def)
qed (simp add: open_turn_def)

lemma partialAssistant_good: "good_msg m \<Longrightarrow> invoke_ids (partialAssistant (Some m)) = invoke_ids m"
proof -
  assume "good_msg m"
  then have "filter complete_block (m_content m) = m_content m" and r: "m_role m = RoleAssistant"
    by (simp_all add: good_msg_def filter_id_conv)
  then have "m_content (partialAssistant (Some m)) = m_content m" by (simp add: partialAssistant_def Let_def)
  then show ?thesis using r partialAssistant_complete(1) [of "Some m"] by (simp add: invoke_ids_def assistantToolInvokes_def)
qed

lemma tool_note_keeps [simp]:
  "ag_store (tool_note te a) = ag_store a" "ag_interrupted (tool_note te a) = ag_interrupted a"
  "open_turn (ag_turn a) \<Longrightarrow> open_turn (ag_turn (tool_note te a))"
  "sealed_turn m (ag_turn a) \<Longrightarrow> sealed_turn m (ag_turn (tool_note te a))"
  by (simp_all add: tool_note_def note_tool_def noteTool_keeps split: tool_event.split)

lemma outside_keeps [simp]: "ag_store (outside i a) = ag_store a" "ag_turn (outside i a) = ag_turn a"
  by (simp_all add: outside_def agent_Interrupt_def split: drain_input.split)

lemma wake_forks_keeps [simp]:
  "ag_store (wake_forks a) = ag_store a" "ag_turn (wake_forks a) = ag_turn a" "ag_interrupted (wake_forks a) = ag_interrupted a"
  by (simp_all add: wake_forks_def Let_def split_beta)

lemma bus_partials_keeps [simp]:
  "ag_store (bus_partials ev a) = ag_store a" "ag_turn (bus_partials ev a) = ag_turn a"
  "ag_interrupted (bus_partials ev a) = ag_interrupted a"
  by (simp_all add: bus_partials_def split: bus_event.split)

lemma note_assistant_keeps [simp]:
  "ag_store (note_assistant m a) = ag_store a" "ag_turn (note_assistant m a) = noteAssistant (ag_turn a) m"
  "ag_interrupted (note_assistant m a) = ag_interrupted a"
  by (simp_all add: note_assistant_def)

lemma with_err_keeps [simp]:
  "ag_store (dr_agent (with_err err d)) = ag_store (dr_agent d)" "ag_turn (dr_agent (with_err err d)) = ag_turn (dr_agent d)"
  "dr_asm (with_err err d) = dr_asm d" "dr_log (with_err err d) = dr_log d" "dr_idx (with_err err d) = dr_idx d"
  "dr_roundErr (with_err err d) = Some err"
  by (simp_all add: with_err_def cancelCurrentTurn_def)

lemma emit_round_keeps [simp]:
  "ag_store (dr_agent (emit_round S env f d)) = ag_store (dr_agent d)" "ag_turn (dr_agent (emit_round S env f d)) = ag_turn (dr_agent d)"
  "dr_asm (emit_round S env f d) = dr_asm d" "dr_log (emit_round S env f d) = dr_log d" "dr_idx (emit_round S env f d) = dr_idx d"
  "dr_roundErr (emit_round S env f d) = dr_roundErr d"
  by (simp_all add: emit_round_def)

lemma end_keeps [simp]:
  "ag_turn (publishMetadata S env a) = ag_turn a" "ag_turn (fanOut n a) = ag_turn a" "ag_store (fanOut n a) = ag_store a"
  "ag_turn (finishTurn S env r a) = ag_turn a" "ag_turn (endTurn S env r a) = ag_turn a"
  by (simp_all add: publishMetadata_def fanOut_def finishTurn_def endTurn_def)

lemma fan_all_store [simp]: "ag_store (fold (\<lambda>m. fanOut (f m)) ms a) = ag_store a"
  by (induction ms arbitrary: a) simp_all

lemma reconcile_store [simp]: "ag_store (reconcileAriaServer S env a) = ag_store a"
  by (simp add: reconcileAriaServer_def Let_def)

lemma recompose_keeps [simp]: "ag_store (recompose S env a) = ag_store a" "ag_turn (recompose S env a) = ag_turn a"
  "ag_interrupted (recompose S env a) = ag_interrupted a"
  by (simp_all add: recompose_def)

lemma bus_asm_ok:
  assumes "asm_inv s"
  shows "\<exists>s'. bus_asm ev s = Some s' \<and> asm_inv s'"
  using assms toolReady_Some [OF assms] by (cases ev) (auto simp: bus_asm_def wf_intros, blast+)

lemma collect_loop_keeps:
  assumes "collect_loop S env n is outcomes a = Some (outs, a')"
  shows "ag_store a' = ag_store a" and "sealed_turn m (ag_turn a) \<Longrightarrow> sealed_turn m (ag_turn a')"
  using assms
  by (induction S env n "is" outcomes a rule: collect_loop.induct)
     (auto split: if_splits collect_input.splits drain_input.splits)

subsection \<open>Rounds do not get stuck\<close>

lemma seal_inline_asm [simp]: "dr_asm (seal_inline S env m cache d) = dr_asm d"
  by (simp add: seal_inline_def after_append_def Let_def split_beta split: sum.split option.split)

lemma step_total:
  assumes "asm_inv (dr_asm d)"
  shows "\<exists>d'. drain_step S env i d = Some d' \<and> asm_inv (dr_asm d')"
proof (cases i)
  case (InBus ev)
  obtain s where "bus_asm ev (dr_asm d) = Some s" "asm_inv s" using bus_asm_ok [OF assms] by auto
  then show ?thesis
    by (simp add: InBus drain_step_def on_bus_def on_figaro_def fold_bus_def Let_def split: bus_event.split)
next
  case (InStage e)
  then show ?thesis using assms by (simp add: drain_step_def split_beta split: sum.split)
qed (use assms in \<open>simp_all add: drain_step_def on_tool_def\<close>)

lemma loop_total: "asm_inv (dr_asm d) \<Longrightarrow> \<exists>d'. drain_loop S env is d = Some d'"
proof (induction "is" arbitrary: d)
  case (Cons i "is")
  obtain d1 where "drain_step S env i d = Some d1" "asm_inv (dr_asm d1)" using step_total [OF Cons.prems] by blast
  with Cons.IH show ?case by simp
qed simp

lemma start_asm: "asm_inv (dr_asm (start_round S a))"
  by (simp add: start_round_def wf_intros)

lemma finish_send_error: "\<exists>a'. finish_round S env (Some err) inputs d = Some (True, a')"
  by (simp add: finish_round_def Let_def split: option.split)

text \<open>The ids whose end is among the inputs of phase 2.\<close>

definition ended_ids :: "collect_input list \<Rightarrow> string fset" where
  "ended_ids is = fset_of_list (concat (map (\<lambda>i. case i of CiIn (InTool (ToolEnd tid _ _ _)) \<Rightarrow> [tid] | _ \<Rightarrow> []) is))"

lemma ended_ids_Cons:
  "ended_ids (i # is) = (case i of CiIn (InTool (ToolEnd tid _ _ _)) \<Rightarrow> finsert tid (ended_ids is) | _ \<Rightarrow> ended_ids is)"
  by (simp add: ended_ids_def split: collect_input.split drain_input.split tool_event.split)

lemma collect_progress:
  "ex |\<subseteq>| fmdom outcomes |\<union>| ended_ids is \<Longrightarrow> \<exists>r. collect_loop S env (fcard ex) is outcomes a = Some r"
proof (induction "is" arbitrary: outcomes a)
  case Nil
  then have "fcard ex \<le> fcard (fmdom outcomes)" by (intro fcard_mono) (simp add: ended_ids_def)
  then show ?case by simp
next
  case (Cons i "is")
  have IH: "ex |\<subseteq>| fmdom o' |\<union>| ended_ids is \<Longrightarrow> \<exists>r1 r2. collect_loop S env (fcard ex) is o' a' = Some (r1, r2)" for o' a'
    using Cons.IH [of o' a'] by auto
  show ?case
    using Cons.prems by (auto simp: ended_ids_Cons intro!: IH split: collect_input.split drain_input.split tool_event.split)
qed

lemma collect_terminates:
  assumes "snd (expect_ids spec calls) |\<subseteq>| fmdom (end_outcomes buf) |\<union>| ended_ids inputs"
  shows "collectToolResults S env calls spec buf inputs a \<noteq> None"
proof -
  obtain r where "collect_loop S env (fcard (snd (expect_ids spec calls))) inputs (end_outcomes buf) a = Some r"
    using collect_progress [OF assms] by blast
  then show ?thesis by (cases r) (simp add: collectToolResults_def split_beta Let_def)
qed

lemma expect_ids_sub: "fset (snd (expect_ids spec calls)) \<subseteq> c_tool_call_id ` set calls"
proof -
  have "fset (snd (fold (\<lambda>tc (sd, ex). case dispatch sd tc of (p, sd') \<Rightarrow> (sd', if p then finsert (c_tool_call_id tc) ex else ex)) calls (sd, ex)))
      \<subseteq> fset ex \<union> c_tool_call_id ` set calls" for sd ex
  proof (induction calls arbitrary: sd ex)
    case (Cons tc calls)
    obtain p sd' where "dispatch sd tc = (p, sd')" by fastforce
    then show ?case using Cons [of sd' "if p then finsert (c_tool_call_id tc) ex else ex"] by auto
  qed simp
  from this [of spec "{||}"] show ?thesis by (simp add: expect_ids_def)
qed

subsection \<open>The stream of a round\<close>

text \<open>
  What the round relies on from the provider: the message it assembles has the assistant role and
  complete tool calls, and it is the last thing it pushes.
\<close>

definition is_bus :: "drain_input \<Rightarrow> bool" where
  "is_bus i = (case i of InBus _ \<Rightarrow> True | _ \<Rightarrow> False)"

definition is_figaro :: "drain_input \<Rightarrow> bool" where
  "is_figaro i = (case i of InBus (EvFigaro _ _) \<Rightarrow> True | _ \<Rightarrow> False)"

definition input_ok :: "drain_input \<Rightarrow> bool" where
  "input_ok i = (case i of InBus (EvFigaro m _) \<Rightarrow> good_msg m | InStage e \<Rightarrow> good_msg (Payload e) | _ \<Rightarrow> True)"

fun stream_ok :: "drain_input list \<Rightarrow> bool" where
  "stream_ok [] = True"
| "stream_ok (i # is) = (input_ok i \<and> (is_figaro i \<longrightarrow> list_all (\<lambda>j. \<not> is_bus j) is) \<and> stream_ok is)"

definition staged_ok :: "'l deferred_log \<Rightarrow> bool" where
  "staged_ok l \<longleftrightarrow> (case dl_item l of None \<Rightarrow> True | Some e \<Rightarrow> good_msg (Payload e))"

lemma staged_take: "staged_ok l \<Longrightarrow> good_msg m \<Longrightarrow> good_msg (Payload (dl_take l m))"
  by (simp add: staged_ok_def dl_take_def new_entry_def split: option.splits)

lemma staged_append: "staged_ok l \<Longrightarrow> good_msg (Payload e) \<Longrightarrow> dl_Append l e = Inr (e', l') \<Longrightarrow> staged_ok l'"
  by (auto simp: staged_ok_def dl_Append_def Let_def split: if_splits)

definition next_time :: "message log_entry list \<Rightarrow> lt" where
  "next_time rows = (if rows = [] then 1 else LT (last rows) + 1)"

context agent_store
begin

definition drain_base :: "message log_entry list \<Rightarrow> 'l drain \<Rightarrow> bool" where
  "drain_base R d \<longleftrightarrow> asm_inv (dr_asm d) \<and> st_inv (ag_store (dr_agent d)) \<and> dr_idx d = next_time R \<and> staged_ok (dr_log d)"

definition drain_open :: "message log_entry list \<Rightarrow> 'l drain \<Rightarrow> bool" where
  "drain_open R d \<longleftrightarrow> drain_base R d \<and> so_read S (ag_store (dr_agent d)) = R \<and> open_turn (ag_turn (dr_agent d))"

definition drain_sealed :: "message log_entry list \<Rightarrow> 'l drain \<Rightarrow> bool" where
  "drain_sealed R d \<longleftrightarrow> drain_base R d \<and> (\<exists>e. so_read S (ag_store (dr_agent d)) = R @ [e]
     \<and> m_role (Payload e) = RoleAssistant \<and> sealed_turn (Payload e) (ag_turn (dr_agent d))
     \<and> (dr_roundErr d = None \<longrightarrow> LT e = dr_idx d))"

lemmas drain_defs = drain_base_def drain_open_def drain_sealed_def

lemma nextIndex_time: "st_inv s \<Longrightarrow> nextIndex (so_peek S) s = next_time (so_read S s)"
  by (simp add: nextIndex_def next_time_def peek_read)

lemma start_open:
  assumes "st_inv (ag_store a)" and "ag_turn a = None \<or> open_turn (ag_turn a)"
  shows "drain_open (so_read S (ag_store a)) (start_round S a)"
proof -
  let ?d = "start_round S a"
  have "open_turn (ag_turn (dr_agent ?d))" using assms(2) by (cases "ag_turn a = None") (auto simp: start_round_def)
  moreover have "ag_store (dr_agent ?d) = ag_store a" by (simp add: start_round_def)
  moreover have "asm_inv (dr_asm ?d)" "staged_ok (dr_log ?d)" "dr_idx ?d = next_time (so_read S (ag_store a))"
    using nextIndex_time [OF assms(1)] asm_inv_new by (simp_all add: start_round_def staged_ok_def newDeferredAppendLog_def)
  ultimately show ?thesis using assms(1) by (simp add: drain_defs)
qed

lemma sealed_after_commit:
  assumes "good_msg m" and "open_turn turn"
  shows "sealed_turn m (map_option (\<lambda>t. t\<lparr>ts_committed := True\<rparr>) (noteAssistant turn (Some m)))"
proof -
  obtain t where t: "turn = Some t" "ts_inv t" using assms(2) by (auto simp: open_turn_def split: option.splits)
  then obtain t' where t': "noteAssistant (Some t) (Some m) = Some t'" by (simp add: noteAssistant_def Let_def)
  have "ts_inv t'" "ts_assistant t' = partialAssistant (Some m)"
    using ts_inv_noteAssistant [OF t(2) t'] noteAssistant_fields [OF t'] by simp_all
  then show ?thesis using t t' partialAssistant_good [OF assms(1)] by (simp add: sealed_turn_def ts_inv_def)
qed

lemma cache_commit_rows:
  assumes "st_inv st" and "commitAssistantCache S st k cache = (ce, st2)"
  shows "st_inv st2 \<and> so_read S st2 = so_read S st"
proof (cases cache)
  case (Some c)
  show ?thesis
  proof (cases "so_cacheAppend S st k c")
    case (Inr st')
    with Some assms cache_rows [OF assms(1) Inr] show ?thesis by (simp add: commitAssistantCache_def split: if_splits)
  qed (use Some assms in \<open>auto simp: commitAssistantCache_def split: if_splits\<close>)
qed (use assms in \<open>auto simp: commitAssistantCache_def\<close>)

lemma after_append_sealed:
  assumes "drain_base R d" and "st_inv st" and "so_read S st = R @ [e]" and "m_role (Payload e) = RoleAssistant"
    and "sealed_turn (Payload e) (map_option (\<lambda>t. t\<lparr>ts_committed := True\<rparr>) (ag_turn (dr_agent d)))"
    and "calls = assistantToolInvokes (Payload e)"
  shows "drain_sealed R (after_append S env calls cache e st d)"
proof (cases "LT e \<noteq> dr_idx d \<or> FigaroLT e \<noteq> dr_idx d")
  case True
  then have "after_append S env calls cache e st d = with_err (''assistant seal LT mismatch: predicted '' @ show_nat (dr_idx d)
      @ '', got lt='' @ show_nat (LT e) @ '' main_lt='' @ show_nat (FigaroLT e))
      (d\<lparr>dr_agent := (dr_agent d)\<lparr>ag_store := st, ag_turn := map_option (\<lambda>t. t\<lparr>ts_committed := True\<rparr>) (ag_turn (dr_agent d))\<rparr>\<rparr>)"
    by (simp add: after_append_def Let_def)
  then show ?thesis using assms by (simp add: drain_defs)
next
  case False
  obtain ce st2 where ce: "commitAssistantCache S st (dr_idx d) cache = (ce, st2)" by fastforce
  then have st2: "st_inv st2" "so_read S st2 = R @ [e]"
    using assms(2,3) cache_commit_rows [OF assms(2) ce] by simp_all
  have none: "calls = [] \<Longrightarrow> sealed_turn (Payload e) None" using assms(6) by (simp add: sealed_turn_def invoke_ids_def)
  show ?thesis
  proof (cases ce)
    case None
    then show ?thesis using False ce st2 assms(1,4,5) none
      by (cases "calls = []") (simp_all add: after_append_def Let_def drain_defs)
  next
    case (Some err)
    then show ?thesis using False ce st2 assms(1,4,5) by (simp add: after_append_def Let_def drain_defs)
  qed
qed

lemma seal_inline_phase:
  assumes "drain_open R d" and "good_msg m"
  shows "drain_open R (seal_inline S env m cache d) \<or> drain_sealed R (seal_inline S env m cache d)"
proof -
  define p where "p = Payload (dl_take (dr_log d) m)"
  define d1 where "d1 = d\<lparr>dr_agent := note_assistant (Some p) (dr_agent d)\<rparr>"
  have p: "good_msg p" using assms staged_take by (auto simp: drain_defs p_def)
  have d1: "drain_open R d1" using assms(1) noteAssistant_open by (simp add: drain_defs d1_def)
  have st: "st_inv (ag_store (dr_agent d1))" "so_read S (ag_store (dr_agent d1)) = R" using d1 by (simp_all add: drain_defs)
  have run: "seal_inline S env m cache d = (case so_append S (ag_store (dr_agent d1)) (new_entry p) of
      Inl err \<Rightarrow> with_err (''append assistant: '' @ err) d1
    | Inr (e, st) \<Rightarrow> after_append S env (assistantToolInvokes p) cache e st d1)"
    by (simp only: seal_inline_def Let_def p_def d1_def)
  show ?thesis
  proof (cases "so_append S (ag_store (dr_agent d1)) (new_entry p)")
    case (Inl err)
    then show ?thesis using d1 by (simp add: run drain_defs)
  next
    case (Inr r)
    obtain e st' where r: "so_append S (ag_store (dr_agent d1)) (new_entry p) = Inr (e, st')" using Inr by (cases r) simp
    have rows: "st_inv st'" "so_read S st' = R @ [e]" "Payload e = p"
      using append_inv [OF st(1) r] append_read [OF st(1) r] append_payload [OF st(1) r] st(2) by simp_all
    have "sealed_turn p (map_option (\<lambda>t. t\<lparr>ts_committed := True\<rparr>) (ag_turn (dr_agent d1)))"
      using sealed_after_commit [OF p] assms(1) by (simp add: d1_def drain_defs)
    then have "drain_sealed R (after_append S env (assistantToolInvokes p) cache e st' d1)"
      using d1 p rows by (intro after_append_sealed) (simp_all add: drain_open_def good_msg_def)
    then show ?thesis by (simp add: run r)
  qed
qed

lemma drain_pads:
  "drain_open R (x\<lparr>dr_acks := k, dr_awaiting := w, dr_forkWake := f\<rparr>) = drain_open R x"
  "drain_sealed R (x\<lparr>dr_acks := k, dr_awaiting := w, dr_forkWake := f\<rparr>) = drain_sealed R x"
  "drain_open R (emit_round S env b x) = drain_open R x" "drain_sealed R (emit_round S env b x) = drain_sealed R x"
  by (simp_all add: drain_defs)

lemma fold_bus_open: "drain_open R d \<Longrightarrow> asm_inv s \<Longrightarrow> drain_open R (fold_bus S env ev s d)"
  using noteAssistant_open by (simp add: drain_defs fold_bus_def Let_def)

lemma on_figaro_phase:
  "drain_open R d \<Longrightarrow> good_msg m \<Longrightarrow> drain_open R (on_figaro S env m cache d) \<or> drain_sealed R (on_figaro S env m cache d)"
  using seal_inline_phase [of R d m env cache] by (auto simp: on_figaro_def Let_def drain_pads)

lemma on_bus_open:
  assumes "drain_open R d" and "input_ok (InBus ev)"
  shows "\<exists>d'. on_bus S env ev d = Some d' \<and> (drain_open R d' \<or> (is_figaro (InBus ev) \<and> drain_sealed R d'))"
proof -
  obtain s where s: "bus_asm ev (dr_asm d) = Some s" "asm_inv s"
    using bus_asm_ok [of "dr_asm d" ev] assms(1) by (auto simp: drain_defs)
  note o1 = fold_bus_open [OF assms(1) s(2)]
  show ?thesis
  proof (cases ev)
    case (EvFigaro m cache)
    with assms(2) on_figaro_phase [OF o1, of m] s(1) show ?thesis
      by (auto simp: on_bus_def input_ok_def is_figaro_def)
  qed (use s(1) o1 in \<open>simp_all add: on_bus_def drain_pads\<close>)
qed

lemma step_open:
  assumes "drain_open R d" and "input_ok i"
  shows "\<exists>d'. drain_step S env i d = Some d' \<and> (drain_open R d' \<or> (is_figaro i \<and> drain_sealed R d'))"
proof (cases i)
  case (InBus ev)
  then show ?thesis using on_bus_open assms by (simp add: drain_step_def)
next
  case (InTool te)
  then show ?thesis using assms(1) by (simp add: drain_step_def on_tool_def drain_pads) (simp add: drain_defs)
next
  case (InStage e)
  then show ?thesis using assms staged_append [of "dr_log d" e]
    by (auto simp: drain_step_def drain_defs input_ok_def split: sum.split)
qed (use assms(1) in \<open>simp_all add: drain_step_def drain_defs\<close>)

lemma step_sealed:
  assumes "drain_sealed R d" and "input_ok i" and "\<not> is_bus i"
  shows "\<exists>d'. drain_step S env i d = Some d' \<and> drain_sealed R d'"
proof (cases i)
  case (InTool te)
  then show ?thesis using assms(1) by (simp add: drain_step_def on_tool_def drain_pads) (auto simp: drain_defs)
next
  case (InStage e)
  then show ?thesis using assms staged_append [of "dr_log d" e]
    by (auto simp: drain_step_def drain_defs input_ok_def split: sum.split)
qed (use assms in \<open>auto simp: drain_step_def drain_defs is_bus_def\<close>)

lemma loop_sealed:
  "drain_sealed R d \<Longrightarrow> list_all (\<lambda>j. \<not> is_bus j) is \<Longrightarrow> stream_ok is \<Longrightarrow> \<exists>d'. drain_loop S env is d = Some d' \<and> drain_sealed R d'"
proof (induction "is" arbitrary: d)
  case (Cons i "is")
  then obtain d1 where "drain_step S env i d = Some d1" "drain_sealed R d1" using step_sealed [of R d i env] by auto
  with Cons show ?case by simp
qed simp

lemma loop_phase:
  "drain_open R d \<Longrightarrow> stream_ok is \<Longrightarrow> \<exists>d'. drain_loop S env is d = Some d' \<and> (drain_open R d' \<or> drain_sealed R d')"
proof (induction "is" arbitrary: d)
  case (Cons i "is")
  then obtain d1 where d1: "drain_step S env i d = Some d1" "drain_open R d1 \<or> (is_figaro i \<and> drain_sealed R d1)"
    using step_open [of R d i env] by auto
  show ?case
  proof (cases "drain_open R d1")
    case True
    with Cons d1 show ?thesis by simp
  next
    case False
    with d1 Cons.prems loop_sealed [of R d1 "is" env] show ?thesis by auto
  qed
qed simp


subsubsection \<open>The exits\<close>

definition rows_of :: "'l agent \<Rightarrow> message list" where
  "rows_of a = map Payload (so_read S (ag_store a))"

definition reliable :: bool where
  "reliable \<longleftrightarrow> (\<forall>s m. st_inv s \<longrightarrow> (\<exists>e s'. so_append S s (new_entry m) = Inr (e, s')))"

text \<open>\<open>sure\<close> says that nothing went wrong while results were recorded.\<close>

definition ended :: "bool \<Rightarrow> message list \<Rightarrow> 'l agent \<Rightarrow> bool" where
  "ended sure R a \<longleftrightarrow> st_inv (ag_store a) \<and> prefix R (rows_of a) \<and> paired_open (rows_of a) \<and> (sure \<longrightarrow> paired (rows_of a))"

lemma reliable_no: "so_append S s (new_entry m) = Inl err \<Longrightarrow> st_inv s \<Longrightarrow> \<not> reliable"
  unfolding reliable_def by (metis Inl_Inr_False)

lemma ended_same: "ag_store a' = ag_store a \<Longrightarrow> ended sure R a' = ended sure R a"
  by (simp add: ended_def rows_of_def)

lemma ended_weaken: "ended sure R a \<Longrightarrow> (sure' \<Longrightarrow> sure) \<Longrightarrow> ended sure' R a"
  by (auto simp: ended_def)

lemma ended_sure: "ended True R a \<Longrightarrow> ended sure R a"
  by (auto simp: ended_def)

lemma ended_publish: "ended sure R a \<Longrightarrow> ended sure R (publishMetadata S env a)"
  using meta_rows [of "ag_store a"] by (auto simp: publishMetadata_def ended_def rows_of_def)

lemma ended_finish: "ended sure R a \<Longrightarrow> ended sure R (finishTurn S env r a)"
  unfolding finishTurn_def by (rule ended_publish) (subst ended_same [of _ a], simp_all)

lemma ended_end: "ended sure R a \<Longrightarrow> ended sure R (endTurn S env r a)"
  unfolding endTurn_def by (rule ended_finish) (subst ended_same [of _ a], simp_all)

lemma ended_discard: "ended sure R a \<Longrightarrow> ended sure R (endTurnDiscarding S env r a)"
  unfolding endTurnDiscarding_def by (rule ended_finish) (subst ended_same [of _ a], simp_all)

lemmas ended_rules = ended_finish ended_end ended_discard

lemma answer_appended:
  assumes "st_inv s" and "so_read S s = R @ [e]" and "paired_open (map Payload R @ [Payload e])"
    and "answers r (Payload e)" and "so_append S s (new_entry r) = Inr (e', s')"
  shows "st_inv s' \<and> so_read S s' = R @ [e, e'] \<and> paired (map Payload (R @ [e, e']))"
  using append_inv [OF assms(1,5)] append_read [OF assms(1,5)] append_payload [OF assms(1,5)] assms(2)
    paired_answer [OF assms(3,4)] by simp

lemma tools_answer:
  assumes "ts_inv t" and "invoke_ids (ts_assistant t) = invoke_ids m"
  shows "answers (user_results now (interruptedToolResults (ts_tools t))) m"
    and "interruptedToolResults (ts_tools t) = [] \<Longrightarrow> invoke_ids m = []"
proof -
  have ids: "map c_tool_call_id (interruptedToolResults (ts_tools t)) = invoke_ids m" using seal_ids [OF assms(1)] assms(2) by simp
  then show "answers (user_results now (interruptedToolResults (ts_tools t))) m"
    unfolding user_results_def by (rule answers_results) (auto simp: interruptedToolResults_def)
  show "interruptedToolResults (ts_tools t) = [] \<Longrightarrow> invoke_ids m = []" using ids by simp
qed

lemma seal_committed:
  assumes "st_inv (ag_store a)" and rows: "so_read S (ag_store a) = R @ [e]" and "paired (map Payload R)"
    and "sealed_turn (Payload e) (ag_turn a)" and run: "seal_turn S a = ((msgs, se), a1)"
  shows "ended (se = None) (map Payload R) a1 \<and> (reliable \<longrightarrow> se = None)"
proof (cases "ag_turn a")
  case None
  then show ?thesis
    using assms paired_snoc_plain [OF assms(3), of "Payload e"] by (auto simp: seal_turn_def sealTurn_def sealed_turn_def ended_def rows_of_def paired_def)
next
  case (Some t)
  then have t: "ts_inv t" "ts_committed t" "invoke_ids (ts_assistant t) = invoke_ids (Payload e)" using assms(4) by (simp_all add: sealed_turn_def)
  let ?tools = "interruptedToolResults (ts_tools t)"
  note ans = tools_answer [OF t(1,3)]
  have po: "paired_open (map Payload R @ [Payload e])" using paired_snoc_open [OF assms(3)] .
  show ?thesis
  proof (cases "so_append S (ag_store a) (new_entry (user_results (ag_clock a) ?tools))")
    case (Inl err)
    then show ?thesis
      using Some t(2) run assms(1) rows po ans(2) paired_snoc_plain [OF assms(3), of "Payload e"]
      by (auto simp: seal_turn_def sealTurn_def Let_def ended_def rows_of_def reliable_no split: if_splits)
  next
    case (Inr r)
    then obtain e' s' where app: "so_append S (ag_store a) (new_entry (user_results (ag_clock a) ?tools)) = Inr (e', s')" by (cases r) auto
    from answer_appended [OF assms(1) rows po ans(1) app]
    have "st_inv s'" "so_read S s' = R @ [e, e']" "paired (map Payload (R @ [e, e']))" by simp_all
    then show ?thesis
      using Some t(2) run assms(1) rows po ans(2) app paired_snoc_plain [OF assms(3), of "Payload e"]
      by (auto simp: seal_turn_def sealTurn_def Let_def ended_def rows_of_def paired_def split: if_splits)
  qed
qed

lemma seal_uncommitted:
  assumes "st_inv (ag_store a)" and rows: "so_read S (ag_store a) = R" and pr: "paired (map Payload R)"
    and "open_turn (ag_turn a)" and run: "seal_turn S a = ((msgs, se), a1)"
  shows "ended (se = None) (map Payload R) a1 \<and> (reliable \<longrightarrow> se = None)"
proof -
  obtain t where t: "ag_turn a = Some t" "ts_inv t" "\<not> ts_committed t" using assms(4) by (auto simp: open_turn_def split: option.splits)
  define m where "m = (let a1 = (ts_assistant t)\<lparr>m_role := RoleAssistant, m_stop_reason := StopAborted\<rparr>
      in if m_timestamp a1 = 0 then a1\<lparr>m_timestamp := ag_clock a\<rparr> else a1)"
  have m: "m_role m = RoleAssistant" "m_content m = m_content (ts_assistant t)" by (simp_all add: m_def Let_def)
  then have ids: "invoke_ids (ts_assistant t) = invoke_ids m"
    using t(2) by (simp add: invoke_ids_def assistantToolInvokes_def ts_inv_def)
  let ?tools = "interruptedToolResults (ts_tools t)"
  note ans = tools_answer [OF t(2) ids]
  have seal: "sealTurn (so_append S) (ag_clock a) (ag_store a) (ag_turn a) =
     (if m_content (ts_assistant t) = [] then (([], None), ag_store a)
      else case so_append S (ag_store a) (new_entry m) of
             Inl err \<Rightarrow> (([], Some (SealAssistant err)), ag_store a)
           | Inr (e, log1) \<Rightarrow>
               (if length ?tools > 0 then
                  (case so_append S log1 (new_entry (user_results (ag_clock a) ?tools)) of
                     Inl err \<Rightarrow> (([Payload e], Some (SealResults err)), log1)
                   | Inr (e2, log2) \<Rightarrow> (([Payload e, Payload e2], None), log2))
                else (([Payload e], None), log1)))"
    using t by (simp add: sealTurn_def Let_def m_def)
  have po: "paired_open (map Payload R)" using pr by (simp add: paired_def)
  show ?thesis
  proof (cases "so_append S (ag_store a) (new_entry m)")
    case (Inl err)
    then show ?thesis using run assms(1) rows pr po
      by (auto simp: seal_turn_def seal ended_def rows_of_def reliable_no split: if_splits)
  next
    case (Inr r)
    then obtain e s1 where app: "so_append S (ag_store a) (new_entry m) = Inr (e, s1)" by (cases r) auto
    have s1: "st_inv s1" "so_read S s1 = R @ [e]" "Payload e = m"
      using append_inv [OF assms(1) app] append_read [OF assms(1) app] append_payload [OF assms(1) app] rows by simp_all
    have po1: "paired_open (map Payload R @ [Payload e])" using paired_snoc_open [OF pr] .
    show ?thesis
    proof (cases "so_append S s1 (new_entry (user_results (ag_clock a) ?tools))")
      case (Inl err)
      have fin: "?tools = [] \<Longrightarrow> paired (map Payload R @ [Payload e])" using paired_snoc_plain [OF pr, of m] ans(2) s1(3) by simp
      show ?thesis using run assms(1) rows pr po app s1 po1 fin Inl
        by (auto simp: seal_turn_def seal ended_def rows_of_def reliable_no split: if_splits)
    next
      case (Inr r)
      then obtain e2 s2 where app2: "so_append S s1 (new_entry (user_results (ag_clock a) ?tools)) = Inr (e2, s2)" by (cases r) auto
      have fin: "?tools = [] \<Longrightarrow> paired (map Payload R @ [Payload e])" using paired_snoc_plain [OF pr, of m] ans(2) s1(3) by simp
      have fin2: "st_inv s2 \<and> so_read S s2 = R @ [e, e2] \<and> paired (map Payload (R @ [e, e2]))"
        using answer_appended [OF s1(1,2) po1 _ app2] ans(1) s1(3) by simp
      then show ?thesis using run assms(1) rows pr po app s1 po1 fin app2
        by (auto simp: seal_turn_def seal ended_def rows_of_def paired_def split: if_splits)
    qed
  qed
qed


definition sealable :: "message log_entry list \<Rightarrow> 'l agent \<Rightarrow> bool" where
  "sealable R a \<longleftrightarrow> st_inv (ag_store a) \<and> paired (map Payload R)
     \<and> ((so_read S (ag_store a) = R \<and> open_turn (ag_turn a))
        \<or> (\<exists>e. so_read S (ag_store a) = R @ [e] \<and> sealed_turn (Payload e) (ag_turn a)))"

lemma sealable_same: "ag_store a' = ag_store a \<Longrightarrow> ag_turn a' = ag_turn a \<Longrightarrow> sealable R a' = sealable R a"
  by (simp add: sealable_def)

lemma seal_ended:
  assumes "sealable R a" and "seal_turn S a = ((msgs, se), a1)"
  shows "ended reliable (map Payload R) a1"
proof -
  have "ended (se = None) (map Payload R) a1 \<and> (reliable \<longrightarrow> se = None)"
    using assms seal_committed [of a R _ msgs se a1] seal_uncommitted [of a R msgs se a1] by (auto simp: sealable_def)
  then show ?thesis using ended_weaken by blast
qed

lemma exit_error_ended: "sealable R a \<Longrightarrow> ended reliable (map Payload R) (exit_error S env forks pre err a)"
proof -
  assume "sealable R a"
  obtain msgs se a1 where run: "seal_turn S a = ((msgs, se), a1)" by (metis surj_pair)
  have e: "ended reliable (map Payload R) a1" by (rule seal_ended [OF \<open>sealable R a\<close> run])
  show ?thesis unfolding exit_error_def run
    by (auto simp: Let_def intro!: ended_rules ended_same [of _ a1, THEN iffD2] e)
qed

lemma exit_interrupted_ended: "sealable R a \<Longrightarrow> ended reliable (map Payload R) (exit_interrupted S env forks a)"
proof -
  assume "sealable R a"
  obtain msgs se a1 where run: "seal_turn S a = ((msgs, se), a1)" by (metis surj_pair)
  have e: "ended reliable (map Payload R) a1" by (rule seal_ended [OF \<open>sealable R a\<close> run])
  show ?thesis unfolding exit_interrupted_def run
    by (auto simp: Let_def split: option.split intro!: ended_rules ended_same [of _ a1, THEN iffD2] e)
qed

lemma sealable_none_ended: "sealable R a \<Longrightarrow> ag_turn a = None \<Longrightarrow> ended sure (map Payload R) a"
  using paired_snoc_plain [of "map Payload R"] by (auto simp: sealable_def open_turn_def sealed_turn_def ended_def rows_of_def paired_def)

lemma exit_send_error_ended: "sealable R a \<Longrightarrow> ended reliable (map Payload R) (exit_send_error S env sealed err a)"
proof (cases "ag_turn a = None")
  case True
  assume "sealable R a"
  then have "ended reliable (map Payload R) (serviceForks a)"
    using sealable_none_ended [OF _ True] by (subst ended_same [of _ a]) simp_all
  then show ?thesis by (simp add: exit_send_error_def True ended_rules)
next
  case False
  assume "sealable R a"
  obtain msgs se a1 where run: "seal_turn S a = ((msgs, se), a1)" by (metis surj_pair)
  have e: "ended reliable (map Payload R) a1" by (rule seal_ended [OF \<open>sealable R a\<close> run])
  show ?thesis unfolding exit_send_error_def run
    by (auto simp: False Let_def intro!: ended_rules ended_same [of _ a1, THEN iffD2] e)
qed

lemma plain_append_ended:
  assumes "st_inv (ag_store a)" and "paired (rows_of a)" and "invoke_ids m = []"
    and "so_append S (ag_store a) (new_entry m) = Inr (e, st)" and "ag_store a' = st"
  shows "ended True (rows_of a) a'"
  using append_inv [OF assms(1,4)] append_read [OF assms(1,4)] append_payload [OF assms(1,4)] assms(5)
    paired_snoc_plain [OF assms(2,3)] by (simp add: ended_def rows_of_def paired_def)

lemma exit_unsealed_ended:
  assumes "st_inv (ag_store a)" and "paired (rows_of a)"
  shows "ended True (rows_of a) (exit_unsealed S env a)"
proof -
  define m where "m = zero_message\<lparr>m_role := RoleAssistant, m_stop_reason := StopEnd, m_timestamp := ag_clock (wake_forks a)\<rparr>"
  have plain: "invoke_ids m = []" by (simp add: m_def invoke_ids_def assistantToolInvokes_def zero_message_def)
  have same: "ended True (rows_of a) a" using assms by (simp add: ended_def paired_def)
  show ?thesis
  proof (cases "ag_turn a = None")
    case True
    then show ?thesis unfolding exit_unsealed_def
      by (auto simp: Let_def intro!: ended_rules ended_same [of _ a, THEN iffD2] same)
  next
    case False
    show ?thesis
    proof (cases "so_append S (ag_store a) (new_entry m)")
      case (Inl err)
      then show ?thesis unfolding exit_unsealed_def
        by (auto simp: False Let_def m_def intro!: ended_rules ended_same [of _ a, THEN iffD2] same)
    next
      case (Inr r)
      then obtain e st where app: "so_append S (ag_store a) (new_entry m) = Inr (e, st)" by (cases r) auto
      have "ended True (rows_of a) (serviceForks (wake_forks a\<lparr>ag_store := st, ag_turn := None\<rparr>))"
        by (rule plain_append_ended [OF assms plain app]) simp
      then show ?thesis using False app unfolding exit_unsealed_def
        by (simp add: Let_def m_def ended_end)
    qed
  qed
qed

subsubsection \<open>Prompts between rounds\<close>

lemma prompts_paired: "list_all2 logs_prompt es ps \<Longrightarrow> paired ms \<Longrightarrow> paired (ms @ map Payload es)"
proof (induction es arbitrary: ps ms)
  case (Cons e es)
  then obtain p ps' where ps: "ps = p # ps'" "logs_prompt e p" "list_all2 logs_prompt es ps'" by (auto simp: list_all2_Cons1)
  have "paired (ms @ [Payload e])" using Cons.prems(2) logs_prompt_plain [OF ps(2)] by (rule paired_snoc_plain)
  from Cons.IH [OF ps(3) this] show ?case by simp
qed simp

lemma prompts_ended:
  assumes "st_inv (ag_store a)" and "paired (rows_of a)" and "appendPromptEvents S env a ps = (err, a')"
  shows "ended True (rows_of a) a'"
proof -
  from appendPromptEvents_rows [OF assms(1,3)] obtain es k where
    "st_inv (ag_store a')" "so_read S (ag_store a') = so_read S (ag_store a) @ es" "list_all2 logs_prompt es (take k ps)" by blast
  then show ?thesis using prompts_paired [of es "take k ps" "rows_of a"] assms(2) by (simp add: ended_def rows_of_def paired_def)
qed

lemma prompts_turn: "ag_turn (snd (appendPromptEvents S env a ps)) = ag_turn a"
proof (induction ps arbitrary: a)
  case (Cons p ps)
  show ?case
  proof (cases "appendUserPrompt S env a p False")
    case (Pair r a1)
    then have "ag_turn a1 = ag_turn a" using appendUserPrompt_keeps(2) [of S env a p False] by simp
    with Pair Cons show ?thesis by (cases r) (simp_all add: split_beta Let_def)
  qed
qed simp

definition between :: "'l agent \<Rightarrow> bool" where
  "between a \<longleftrightarrow> st_inv (ag_store a) \<and> paired (rows_of a) \<and> (ag_turn a = None \<or> open_turn (ag_turn a))"

lemma steering_between:
  assumes "between a" and "appendSteeringPrompts S env a = (err, a')"
  shows "ended True (rows_of a) a' \<and> between a'"
proof -
  obtain prompts ib where tk: "TakeReadyUserPrompts (ag_inbox a) = (prompts, ib)" by fastforce
  define a2 where "a2 = (if hasRenderablePrompt prompts then emitCommit (a\<lparr>ag_inbox := ib\<rparr>) else a\<lparr>ag_inbox := ib\<rparr>)"
  have a2: "ag_store a2 = ag_store a" "ag_turn a2 = ag_turn a" by (simp_all add: a2_def)
  obtain e3 a3 where ap: "appendPromptEvents S env a2 prompts = (e3, a3)" by fastforce
  have r2: "rows_of a2 = rows_of a" using a2 by (simp add: rows_of_def)
  have e: "ended True (rows_of a) a3" using prompts_ended [of a2 env prompts e3 a3] ap assms(1) a2 r2 by (simp add: between_def)
  have t3: "ag_turn a3 = ag_turn a" using prompts_turn [of env a2 prompts] ap a2 by simp
  have res: "a' = (if prompts = [] then a\<lparr>ag_inbox := ib\<rparr> else if e3 = None \<and> hasRenderablePrompt prompts then startAssistantUnit S a3 else a3)"
    using assms(2) tk ap by (auto simp: appendSteeringPrompts_def a2_def Let_def split: option.splits if_splits)
  have "ended True (rows_of a) a'"
    using e assms(1) by (auto simp: res between_def ended_def rows_of_def paired_def)
  moreover have "ag_turn a' = None \<or> open_turn (ag_turn a')" using assms(1) t3 by (auto simp: res between_def)
  ultimately show ?thesis by (simp add: between_def ended_def)
qed

lemma ended_trans: "ended True R a \<Longrightarrow> ended sure (rows_of a) a' \<Longrightarrow> ended sure R a'"
  by (auto simp: ended_def intro: prefix_order.trans)

lemma ended_self: "between a \<Longrightarrow> ended True (rows_of a) a"
  by (simp add: between_def ended_def paired_def)

lemma prepare_between:
  "S' = S \<Longrightarrow> between a \<Longrightarrow> prepareProviderRound S' env a = (err, a') \<Longrightarrow> ended True (rows_of a) a' \<and> between a'"
proof (induction S' env a rule: prepareProviderRound.induct)
  case (1 S' env a)
  define a0 where "a0 = serviceForks a"
  obtain prompts ib where tk: "TakeReadyUserPrompts (ag_inbox a0) = (prompts, ib)" by fastforce
  define a1 where "a1 = a0\<lparr>ag_inbox := ib\<rparr>"
  define a2 where "a2 = (if hasRenderablePrompt prompts
    then (if length (live_nodes S' env a1 None) = 0 then abandonLive a1 else emitCommit a1) else a1)"
  define r where "r = appendPromptEvents S' env a2 prompts"
  define a3 where "a3 = (if hasRenderablePrompt prompts then startAssistantUnit S' (snd r) else snd r)"
  have run: "prepareProviderRound S' env a = (if length prompts = 0 then (None, a1)
      else if fst r \<noteq> None then r else prepareProviderRound S' env a3)"
    unfolding prepareProviderRound.simps [of S' env a] a0_def [symmetric] tk Let_def split_beta fst_conv snd_conv
    by (simp only: a1_def a2_def r_def a3_def Let_def)
  have IH: "prompts \<noteq> [] \<Longrightarrow> fst r = None \<Longrightarrow> between a3 \<Longrightarrow> prepareProviderRound S' env a3 = (err, a')
      \<Longrightarrow> ended True (rows_of a3) a' \<and> between a'"
    using "1.IH" [OF a0_def refl tk [symmetric] a1_def _ refl a2_def r_def] "1.prems"(1)
    by (simp add: a3_def)
  have keep: "ag_store a1 = ag_store a" "ag_turn a1 = ag_turn a" "ag_store a2 = ag_store a" "ag_turn a2 = ag_turn a"
    by (simp_all add: a2_def a1_def a0_def)
  have rows: "rows_of a1 = rows_of a" "rows_of a2 = rows_of a" using keep by (simp_all add: rows_of_def)
  have b1: "between a1" using "1.prems"(2) keep rows by (simp add: between_def)
  have er: "ended True (rows_of a) (snd r)"
    using prompts_ended [of a2 env prompts "fst r" "snd r"] "1.prems"(1,2) keep rows by (simp add: r_def between_def)
  have tr: "ag_turn (snd r) = ag_turn a" using prompts_turn [of env a2 prompts] "1.prems"(1) keep by (simp add: r_def)
  have br: "between (snd r)" using er tr "1.prems"(2) by (simp add: between_def ended_def)
  have s3: "ag_store a3 = ag_store (snd r)" by (simp add: a3_def)
  then have e3: "ended True (rows_of a) a3" using er ended_same by blast
  have b3: "between a3" using e3 br by (auto simp: between_def ended_def a3_def)
  show ?case
  proof (cases "prompts = []")
    case True
    then show ?thesis using run "1.prems"(3) b1 ended_self [OF b1] rows by simp
  next
    case p: False
    show ?thesis
    proof (cases "fst r = None")
      case True
      then show ?thesis using IH [OF p True b3] run p "1.prems"(3) ended_trans [OF e3] by auto
    next
      case False
      then show ?thesis using run p "1.prems"(3) er br by (metis length_0_conv snd_conv)
    qed
  qed
qed


subsubsection \<open>The round and the turn\<close>

definition round_end :: "message list \<Rightarrow> bool \<Rightarrow> 'l agent \<Rightarrow> bool" where
  "round_end R stop a \<longleftrightarrow> ended reliable R a \<and> (\<not> stop \<longrightarrow> between a)"

lemma collect_keeps:
  assumes "collectToolResults S env calls spec buf inputs a = Some (tic, a')"
  shows "ag_store a' = ag_store a" and "sealed_turn m (ag_turn a) \<Longrightarrow> sealed_turn m (ag_turn a')"
    and "\<exists>now expect outcomes i. tic = assembleToolResults i now calls expect outcomes"
  using assms
  by (auto simp: collectToolResults_def Let_def split_beta split: option.splits dest: collect_loop_keeps)

lemma tool_phase_end:
  assumes "st_inv (ag_store (dr_agent d))" and rows: "so_read S (ag_store (dr_agent d)) = R @ [e]" and pr: "paired (map Payload R)"
    and role: "m_role (Payload e) = RoleAssistant" and "sealed_turn (Payload e) (ag_turn (dr_agent d))"
    and run: "tool_phase S env (assistantToolInvokes (Payload e)) inputs d = Some (stop, a')"
  shows "round_end (map Payload R) stop a'"
proof -
  let ?calls = "assistantToolInvokes (Payload e)"
  define a1 where "a1 = wake_forks (if dr_awaiting d then serviceForks (dr_agent d) else dr_agent d)"
  have a1: "ag_store a1 = ag_store (dr_agent d)" "ag_turn a1 = ag_turn (dr_agent d)" by (simp_all add: a1_def)
  obtain tic a2 where col: "collectToolResults S env ?calls (dr_spec d) (dr_toolBuf d) inputs a1 = Some (tic, a2)"
    using run by (auto simp: tool_phase_def Let_def a1_def [symmetric] split: option.splits)
  have a2: "ag_store a2 = ag_store (dr_agent d)" "sealed_turn (Payload e) (ag_turn a2)"
    using collect_keeps [OF col] a1 assms(5) by simp_all
  have seal: "sealable R a2" using assms(1) rows pr a2 by (auto simp: sealable_def)
  have out: "(stop, a') = (if ag_interrupted a2 then (True, exit_interrupted S env False a2)
      else case so_append S (ag_store a2) (new_entry tic) of
             Inl err \<Rightarrow> (True, exit_error S env False ''append tool_result: '' err a2)
           | Inr (_, st) \<Rightarrow>
               (let a3 = recompose S env (refreshMetrics S env (a2\<lparr>ag_store := st, ag_turn := None\<rparr>))
                in case appendSteeringPrompts S env a3 of
                     (Some err, a4) \<Rightarrow> (True, endTurn S env (''error: append steering prompt: '' @ err) a4)
                   | (None, a4) \<Rightarrow> (False, a4)))"
    using run col unfolding tool_phase_def Let_def a1_def [symmetric] by simp
  show ?thesis
  proof (cases "ag_interrupted a2")
    case True
    then show ?thesis using out exit_interrupted_ended [OF seal] by (simp add: round_end_def)
  next
    case noint: False
    show ?thesis
    proof (cases "so_append S (ag_store a2) (new_entry tic)")
      case (Inl err)
      then show ?thesis using out noint exit_error_ended [OF seal] by (simp add: round_end_def)
    next
      case (Inr r)
      then obtain e' st where app: "so_append S (ag_store a2) (new_entry tic) = Inr (e', st)" by (cases r) auto
      define a3 where "a3 = recompose S env (refreshMetrics S env (a2\<lparr>ag_store := st, ag_turn := None\<rparr>))"
      have "answers tic (Payload e)" using collect_keeps(3) [OF col] assemble_answers [OF role] by auto
      from answer_appended [OF _ _ paired_snoc_open [OF pr] this app] assms(1) rows a2(1)
      have st: "st_inv st" "so_read S st = R @ [e, e']" "paired (map Payload (R @ [e, e']))" by simp_all
      have b3: "between a3" using st by (simp add: between_def a3_def rows_of_def)
      have e3: "ended True (map Payload R) a3" using st by (simp add: ended_def a3_def rows_of_def paired_def)
      obtain err a4 where sp: "appendSteeringPrompts S env a3 = (err, a4)" by fastforce
      have e4: "ended True (map Payload R) a4" "between a4" using steering_between [OF b3 sp] ended_trans [OF e3] by auto
      have "(stop, a') = (case err of Some er \<Rightarrow> (True, endTurn S env (''error: append steering prompt: '' @ er) a4) | None \<Rightarrow> (False, a4))"
        using out noint app sp by (simp add: Let_def a3_def [symmetric])
      then show ?thesis using e4 by (cases err) (simp_all add: round_end_def ended_sure ended_end)
    qed
  qed
qed

lemma finish_round_end:
  assumes "drain_open R d \<or> drain_sealed R d" and pr: "paired (map Payload R)"
    and run: "finish_round S env sendErr inputs d = Some (stop, a')"
  shows "round_end (map Payload R) stop a'"
proof -
  let ?a = "dr_agent d"
  have inv: "st_inv (ag_store ?a)" and idx: "dr_idx d = next_time R" using assms(1) by (auto simp: drain_defs)
  have seal: "sealable R ?a" using assms(1) pr by (auto simp: drain_defs sealable_def)
  show ?thesis
  proof (cases "dr_roundErr d")
    case (Some err)
    then show ?thesis using run exit_error_ended [of R "wake_forks ?a"] seal
      by (auto simp: finish_round_def round_end_def sealable_same [of "wake_forks ?a" ?a])
  next
    case noerr: None
    define tail where "tail = sealedTail (so_peek S) (ag_store ?a) (dr_idx d) RoleAssistant"
    define a1 where "a1 = (if tail \<noteq> None \<and> \<not> ag_interrupted ?a then recompose S env ?a else ?a)"
    have a1: "ag_store a1 = ag_store ?a" "ag_turn a1 = ag_turn ?a" "ag_interrupted a1 = ag_interrupted ?a" by (simp_all add: a1_def)
    have seal1: "sealable R a1" using seal a1 sealable_same by blast
    have tail_open: "drain_open R d \<Longrightarrow> tail = None"
      using inv idx by (auto simp: tail_def sealedTail_def peek_read drain_open_def next_time_def)
    have tail_sealed: "so_read S (ag_store ?a) = R @ [e] \<Longrightarrow> m_role (Payload e) = RoleAssistant \<Longrightarrow> LT e = dr_idx d \<Longrightarrow> tail = Some e" for e
      using inv by (simp add: tail_def sealedTail_def peek_read)
    show ?thesis
    proof (cases "ag_interrupted ?a")
      case True
      then show ?thesis using run noerr exit_interrupted_ended [OF seal] exit_interrupted_ended [OF seal1] a1(3)
        by (auto simp: finish_round_def Let_def round_end_def tail_def [symmetric] a1_def [symmetric])
    next
      case noint: False
      show ?thesis
      proof (cases sendErr)
        case (Some err)
        then have "stop" "a' = exit_send_error S env (tail \<noteq> None) err a1"
          using run noerr noint a1(3) unfolding finish_round_def Let_def tail_def [symmetric] a1_def [symmetric] by simp_all
        then show ?thesis using exit_send_error_ended [OF seal1] by (simp add: round_end_def)
      next
        case nosend: None
        have out: "(case tail of None \<Rightarrow> Some (True, exit_unsealed S env a1)
            | Some e \<Rightarrow> (if length (assistantToolInvokes (Payload e)) = 0
                then Some (True, endTurn S env (if m_stop_reason (Payload e) = [] then StopEnd else m_stop_reason (Payload e))
                       (serviceForks (wake_forks (a1\<lparr>ag_turn := None\<rparr>))))
                else tool_phase S env (assistantToolInvokes (Payload e)) inputs (d\<lparr>dr_agent := a1\<rparr>))) = Some (stop, a')"
          using run noerr noint nosend a1(3) unfolding finish_round_def Let_def tail_def [symmetric] a1_def [symmetric] by simp
        show ?thesis
        proof (cases "drain_open R d")
          case True
          have "rows_of a1 = map Payload R" using True a1 by (simp add: rows_of_def drain_open_def)
          with exit_unsealed_ended [of a1 env] inv pr a1(1) out tail_open [OF True] show ?thesis
            by (auto simp: round_end_def ended_def)
        next
          case False
          then obtain e where e: "so_read S (ag_store ?a) = R @ [e]" "m_role (Payload e) = RoleAssistant"
            "sealed_turn (Payload e) (ag_turn ?a)" "LT e = dr_idx d"
            using assms(1) noerr by (auto simp: drain_sealed_def)
          note tl = tail_sealed [OF e(1,2,4)]
          show ?thesis
          proof (cases "assistantToolInvokes (Payload e) = []")
            case True
            then have "paired (map Payload (R @ [e]))" using paired_snoc_plain [OF pr] by (simp add: invoke_ids_def)
            then have "ended True (map Payload R) (serviceForks (wake_forks (a1\<lparr>ag_turn := None\<rparr>)))"
              using e(1) inv a1(1) by (simp add: ended_def rows_of_def paired_def)
            moreover have "stop" "\<exists>r. a' = endTurn S env r (serviceForks (wake_forks (a1\<lparr>ag_turn := None\<rparr>)))"
              using out unfolding tl option.case True by auto
            ultimately show ?thesis by (auto simp add: round_end_def ended_sure ended_end)
          next
            case calls: False
            then have "tool_phase S env (assistantToolInvokes (Payload e)) inputs (d\<lparr>dr_agent := a1\<rparr>) = Some (stop, a')"
              using out tl by simp
            then show ?thesis using tool_phase_end [of "d\<lparr>dr_agent := a1\<rparr>" R e] e inv pr a1 by simp
          qed
        qed
      qed
    qed
  qed
qed

lemma round_pairs:
  assumes "between a" and "stream_ok (ri_stream ri)" and "driveOneRound S env b ri a = Some (stop, a')"
  shows "round_end (rows_of a) stop a'"
proof -
  obtain err a1 where prep: "(if b then prepareProviderRound S env a else (None, serviceForks a)) = (err, a1)" by fastforce
  have a1: "ended True (rows_of a) a1 \<and> between a1"
  proof (cases b)
    case True
    then show ?thesis using prepare_between [OF refl assms(1)] prep by simp
  next
    case False
    then have "a1 = serviceForks a" using prep by simp
    then show ?thesis using assms(1) by (auto simp: between_def ended_def rows_of_def paired_def)
  qed
  show ?thesis
  proof (cases err)
    case (Some er)
    then have "stop" "a' = endTurn S env (''error: append steering prompt: '' @ er) a1"
      using assms(3) prep unfolding driveOneRound_def prep by simp_all
    then show ?thesis using a1 by (simp add: round_end_def ended_sure ended_end)
  next
    case None
    have "drain_open (so_read S (ag_store a1)) (start_round S a1)" using a1 by (intro start_open) (auto simp: between_def)
    from loop_phase [OF this assms(2), of env] obtain d where d: "drain_loop S env (ri_stream ri) (start_round S a1) = Some d"
      "drain_open (so_read S (ag_store a1)) d \<or> drain_sealed (so_read S (ag_store a1)) d" by blast
    have "finish_round S env (ri_sendErr ri) (ri_tools ri) d = Some (stop, a')" using assms(3) prep None d(1) by (simp add: driveOneRound_def)
    from finish_round_end [OF d(2) _ this] a1 have "round_end (rows_of a1) stop a'" by (simp add: between_def rows_of_def)
    then show ?thesis using a1 ended_trans by (auto simp: round_end_def)
  qed
qed

lemma rounds_pair:
  "between a \<Longrightarrow> \<forall>ri \<in> set ris. stream_ok (ri_stream ri) \<Longrightarrow> run_rounds S env b ris a = Some a' \<Longrightarrow> ended reliable (rows_of a) a'"
proof (induction ris arbitrary: a b)
  case (Cons ri ris)
  obtain stop a1 where r: "driveOneRound S env b ri a = Some (stop, a1)" using Cons.prems(3) by (auto split: option.splits)
  have re: "round_end (rows_of a) stop a1" using round_pairs [OF Cons.prems(1) _ r] Cons.prems(2) by simp
  show ?case
  proof (cases stop)
    case True
    then show ?thesis using re r Cons.prems(3) by (simp add: round_end_def)
  next
    case False
    then have "between a1" "prefix (rows_of a) (rows_of a1)" using re by (auto simp: round_end_def ended_def)
    moreover from this(1) have "ended reliable (rows_of a1) a'" using Cons False r by simp
    ultimately show ?thesis by (auto simp: ended_def intro: prefix_order.trans)
  qed
qed simp


lemma repair_pairs:
  assumes reliable and "st_inv (ag_store a)" and "paired_open (rows_of a)"
  shows "ended True (rows_of a) (repair_tail S a) \<and> ag_turn (repair_tail S a) = ag_turn a"
proof -
  let ?go = "\<lambda>m. zero_message\<lparr>m_role := RoleUser, m_content := map (\<lambda>c. ToolResultContent (c_tool_call_id c) (c_tool_name c)
    tailRepairNotice True) (assistantToolInvokes m), m_timestamp := ag_clock a\<rparr>"
  show ?thesis
  proof (cases "so_read S (ag_store a)" rule: rev_cases)
    case Nil
    then show ?thesis using assms(2) by (simp add: repair_tail_def repairInterruptedTail_def peek_read ended_def rows_of_def paired_def)
  next
    case (snoc R e)
    have peek: "so_peek S (ag_store a) = Some e" using peek_read [OF assms(2)] snoc by simp
    show ?thesis
    proof (cases "invoke_ids (Payload e) = []")
      case True
      then have "m_role (Payload e) \<noteq> RoleAssistant \<or> assistantToolInvokes (Payload e) = []" by (simp add: invoke_ids_def)
      then have "repair_tail S a = a" using peek by (auto simp: repair_tail_def repairInterruptedTail_def Let_def)
      then show ?thesis using assms(2,3) snoc True by (simp add: ended_def rows_of_def paired_def)
    next
      case False
      then have calls: "m_role (Payload e) = RoleAssistant" "assistantToolInvokes (Payload e) \<noteq> []"
        by (auto simp: invoke_ids_def assistantToolInvokes_def split: if_splits)
      obtain e' s' where app: "so_append S (ag_store a) (new_entry (?go (Payload e))) = Inr (e', s')"
        using assms(1,2) unfolding reliable_def by blast
      then have rep: "repair_tail S a = a\<lparr>ag_store := s'\<rparr>"
        using peek calls by (simp add: repair_tail_def repairInterruptedTail_def Let_def)
      have "answers (?go (Payload e)) (Payload e)" by (rule answers_results) (auto simp: invoke_ids_def comp_def)
      from answer_appended [OF assms(2) snoc _ this app] assms(3) snoc
      show ?thesis by (simp add: rep ended_def rows_of_def paired_def)
    qed
  qed
qed

lemma turn_pairs:
  assumes reliable and "st_inv (ag_store a)" and "paired_open (rows_of a)"
    and "\<forall>ri \<in> set rounds. stream_ok (ri_stream ri)" and "runTurn S env prompt rounds a = Some a'"
  shows "ended True (rows_of a) a'"
proof -
  define a1 where "a1 = a\<lparr>ag_lastActive := ag_clock a, ag_inTurn := True, ag_cancelled := False, ag_interrupted := False\<rparr>"
  have a1: "rows_of a1 = rows_of a" "st_inv (ag_store a1)" using assms(2) by (simp_all add: a1_def rows_of_def)
  define b where "b = repair_tail S a1"
  have b: "ended True (rows_of a) b" using repair_pairs [OF assms(1) a1(2)] assms(3) a1(1) by (simp add: b_def)
  then have bi: "st_inv (ag_store b)" "paired (rows_of b)" by (auto simp: ended_def)
  obtain r a2 where r: "appendUserPrompt S env b prompt True = (r, a2)" by fastforce
  note rows = appendUserPrompt_rows [OF bi(1) r]
  have run: "(case r of
      Inl err \<Rightarrow> Some (endTurn S env (''error: append message: '' @ err) a2 \<lparr>ag_inTurn := False\<rparr>)
    | Inr _ \<Rightarrow> map_option (\<lambda>x. x\<lparr>ag_inTurn := False\<rparr>) (run_rounds S env False rounds (startAssistantUnit S a2))) = Some a'"
    using assms(5) r unfolding runTurn_def Let_def a1_def [symmetric] b_def [symmetric] by simp
  show ?thesis
  proof (cases r)
    case (Inl err)
    then have "ended True (rows_of b) a2" using rows(1) rows(2) [OF Inl] bi by (simp add: ended_def rows_of_def paired_def)
    then have "ended True (rows_of a) (endTurn S env (''error: append message: '' @ err) a2)" using b ended_trans ended_end by blast
    then show ?thesis using run Inl by (auto simp: ended_def rows_of_def)
  next
    case (Inr e)
    then obtain a3 where a3: "run_rounds S env False rounds (startAssistantUnit S a2) = Some a3" "a' = a3\<lparr>ag_inTurn := False\<rparr>"
      using run by auto
    have e2: "ended True (rows_of b) a2"
      using rows(1) rows(3) [OF Inr] bi paired_snoc_plain [OF bi(2)] logs_prompt_plain by (auto simp: ended_def rows_of_def paired_def)
    then have "between (startAssistantUnit S a2)" by (simp add: between_def ended_def rows_of_def)
    from rounds_pair [OF this assms(4) a3(1)] have "ended True (rows_of (startAssistantUnit S a2)) a3" using assms(1) by simp
    moreover have "rows_of (startAssistantUnit S a2) = rows_of a2" by (simp add: rows_of_def)
    ultimately have "ended True (rows_of a) a3" using b e2 ended_trans by metis
    then show ?thesis by (simp add: a3(2) ended_def rows_of_def)
  qed
qed

end

subsection \<open>Properties\<close>


text \<open>
  on a store whose appends succeed, a whole turn restores full pairing from any log in which
  only the last message may be unanswered (a crash in the middle of a tool round), for every
  number of rounds, every interleaving of the stream, the tools, interrupts and new prompts, and
  every way the turn ends.
\<close>

theorem turn_restores_pairing:
  assumes "agent_store S st_inv" and "\<forall>s m. st_inv s \<longrightarrow> (\<exists>e s'. so_append S s (new_entry m) = Inr (e, s'))"
    and "st_inv (ag_store a)" and "paired_open (map Payload (so_read S (ag_store a)))"
    and "\<forall>ri \<in> set rounds. stream_ok (ri_stream ri)" and "runTurn S env prompt rounds a = Some a'"
  shows "paired (map Payload (so_read S (ag_store a')))
    \<and> prefix (map Payload (so_read S (ag_store a))) (map Payload (so_read S (ag_store a')))"
proof -
  have "agent_store.reliable S st_inv" using assms(2) by (simp add: agent_store.reliable_def [OF assms(1)])
  from agent_store.turn_pairs [OF assms(1) this assms(3) _ assms(5,6)] assms(4) show ?thesis
    by (simp add: agent_store.ended_def [OF assms(1)] agent_store.rows_of_def [OF assms(1)])
qed

definition sample_args_call :: content where
  "sample_args_call = zero_content\<lparr>c_type := ContentToolInvoke, c_tool_call_id := ''t1'', c_tool_name := ''bash'', c_arguments := Some []\<rparr>"

text \<open>A round in which the provider calls a tool and its connection breaks before the tool finishes.\<close>

definition sample_round :: round_inputs where
  "sample_round = \<lparr>ri_stream = [InBus (EvDelta (TextContent ''ok'')), InBus (EvToolReady ''t1'' ''bash'' None),
       InBus (EvFigaro (zero_message\<lparr>m_role := RoleAssistant, m_content := [sample_args_call]\<rparr>) None)],
     ri_sendErr = Some ''connection reset'', ri_tools = []\<rparr>"

lemma sample_round_ok: "stream_ok (ri_stream sample_round)"
  by (simp add: sample_round_def input_ok_def is_figaro_def is_bus_def good_msg_def complete_block_def sample_args_call_def zero_content_def)

lemma fresh_rows: "so_read mem_ops NewMemLog = []"
  by (simp add: mem_ops_def ml_Read_def NewMemLog_def)

lemma sample_round_runs: "\<exists>a'. driveOneRound S env False sample_round a = Some (True, a')"
proof -
  obtain d where d: "drain_loop S env (ri_stream sample_round) (start_round S (serviceForks a)) = Some d"
    using loop_total [OF start_asm] by blast
  have "ri_sendErr sample_round = Some ''connection reset''" by (simp add: sample_round_def)
  then obtain a' where "finish_round S env (ri_sendErr sample_round) (ri_tools sample_round) d = Some (True, a')"
    using finish_send_error by metis
  with d show ?thesis by (simp add: driveOneRound_def)
qed


theorem turn_restores_pairing_witness:
  "\<exists>a'. runTurn mem_ops plain_env (sample_prompt ''hi'') [sample_round] (fresh_agent NewMemLog) = Some a'
     \<and> paired (map Payload (so_read mem_ops (ag_store a')))"
proof -
  let ?a = "fresh_agent NewMemLog :: message mem_log agent"
  have "run_rounds mem_ops plain_env False [sample_round] b \<noteq> None" for b :: "message mem_log agent"
    using sample_round_runs [of mem_ops plain_env b] by auto
  then have "runTurn mem_ops plain_env (sample_prompt ''hi'') [sample_round] ?a \<noteq> None"
    by (simp add: runTurn_def Let_def split_beta del: run_rounds.simps split: sum.split)
  then obtain a' where r: "runTurn mem_ops plain_env (sample_prompt ''hi'') [sample_round] ?a = Some a'" by blast
  have "\<forall>s m. mem_inv s \<longrightarrow> (\<exists>e s'. so_append mem_ops s (new_entry m) = Inr (e, s'))"
    by (simp add: mem_ops_def ml_Append_def)
  moreover have "mem_inv (ag_store ?a)" "paired_open (map Payload (so_read mem_ops (ag_store ?a)))"
    using fresh_rows by (simp_all add: fresh_agent_def wf_intros)
  moreover have "\<forall>ri \<in> set [sample_round]. stream_ok (ri_stream ri)" using sample_round_ok by simp
  ultimately show ?thesis using turn_restores_pairing [OF ephemeral.agent_store_axioms _ _ _ _ r] r by blast
qed



end
