(* ===== verification/Turn_Signals.thy ===== *)
theory Turn_Signals
  imports Turn_Round
begin

section \<open>Every turn is signalled once\<close>

text \<open>
  A client waits for \<open>turn.done\<close> to know that the agent is idle again. The lemmas count the
  signals: no operation inside a turn sends one, each exit of a round sends exactly one.
\<close>

definition is_done :: "notification \<Rightarrow> bool" where
  "is_done n = (case n of TurnDone _ _ \<Rightarrow> True | AriaFrame _ \<Rightarrow> False)"

definition dones :: "'l agent \<Rightarrow> nat" where
  "dones a = length (filter is_done (ag_sent a))"

named_theorems quiet

lemma sent_dones: "ag_sent a' = ag_sent a \<Longrightarrow> dones a' = dones a"
  by (simp add: dones_def)

lemma quiet_state [quiet]:
  "dones (a\<lparr>ag_store := st\<rparr>) = dones a" "dones (a\<lparr>ag_turn := t\<rparr>) = dones a" "dones (a\<lparr>ag_inbox := ib\<rparr>) = dones a"
  "dones (a\<lparr>ag_store := st, ag_turn := t\<rparr>) = dones a" "dones (a\<lparr>ag_inTurn := b\<rparr>) = dones a"
  "dones (a\<lparr>ag_lastActive := n, ag_inTurn := b, ag_cancelled := b1, ag_interrupted := b2\<rparr>) = dones a"
  "dones (a\<lparr>ag_toolTimings := tm\<rparr>) = dones a" "dones (a\<lparr>ag_gov := g\<rparr>) = dones a" "dones (a\<lparr>ag_lastActive := n\<rparr>) = dones a"
  by (simp_all add: dones_def)

lemma quiet_ops [quiet]:
  "dones (refreshMetrics S env a) = dones a" "dones (emitSnapshot r ns a) = dones a" "dones (emitDelta ns a) = dones a"
  "dones (emitCommit a) = dones a" "dones (abandonLive a) = dones a" "dones (emitLive S env i f a) = dones a"
  "dones (startAssistantUnit S a) = dones a" "dones (serviceForks a) = dones a" "dones (wake_forks a) = dones a"
  "dones (publishMetadata S env a) = dones a" "dones (recompose S env a) = dones a" "dones (repair_tail S a) = dones a"
  "dones (outside inp a) = dones a" "dones (tool_note te a) = dones a" "dones (note_assistant m a) = dones a"
  "dones (bus_partials ev a) = dones a" "dones (cancelCurrentTurn a) = dones a"
  by (simp_all add: dones_def refreshMetrics_def emitSnapshot_def emitDelta_def emitCommit_def abandonLive_def emitLive_def
      startAssistantUnit_def serviceForks_def wake_forks_def publishMetadata_def recompose_def repair_tail_def outside_def
      agent_Interrupt_def tool_note_def note_tool_def note_assistant_def bus_partials_def cancelCurrentTurn_def Let_def split_beta
      split: drain_input.split tool_event.split bus_event.split)

lemma quiet_frames [quiet]: "dones (fold (\<lambda>m. fanOut (AriaFrame (f m))) ms a) = dones a" "dones (fanOut (AriaFrame r) a) = dones a"
proof -
  show "dones (fold (\<lambda>m. fanOut (AriaFrame (f m))) ms a) = dones a"
    by (induction ms arbitrary: a) (simp_all add: dones_def fanOut_def is_done_def)
qed (simp add: dones_def fanOut_def is_done_def)

lemma quiet_reconcile [quiet]: "dones (reconcileAriaServer S env a) = dones a"
proof -
  have "dones (b\<lparr>ag_ariaSrv := sv, ag_unitLT := u\<rparr>) = dones b" "dones (b\<lparr>ag_unitLT := u\<rparr>) = dones b" for b :: "'a agent" and sv u
    by (simp_all add: dones_def)
  then show ?thesis by (simp add: reconcileAriaServer_def Let_def quiet)
qed

lemma quiet_patch [quiet]: "dones (fst (apply_prompt_patch S p a)) = dones a" "dones (fst (take_inline_boot S b a)) = dones a"
  by (simp_all add: dones_def apply_prompt_patch_def take_inline_boot_def Let_def split_beta split: option.split)

lemma quiet_prompt [quiet]: "dones (snd (appendUserPrompt S env a p b)) = dones a"
  by (simp add: appendUserPrompt_def split_beta Let_def quiet split: sum.split)

lemma quiet_prompts [quiet]: "dones (snd (appendPromptEvents S env a ps)) = dones a"
proof (induction ps arbitrary: a)
  case (Cons p ps)
  have "dones (snd (appendUserPrompt S env a p False)) = dones a" by (rule quiet)
  with Cons show ?case by (simp add: split_beta Let_def quiet split: sum.split)
qed simp

lemma quiet_steering [quiet]: "dones (snd (appendSteeringPrompts S env a)) = dones a"
proof -
  obtain prompts ib where tk: "TakeReadyUserPrompts (ag_inbox a) = (prompts, ib)" by fastforce
  define a2 where "a2 = (if hasRenderablePrompt prompts then emitCommit (a\<lparr>ag_inbox := ib\<rparr>) else a\<lparr>ag_inbox := ib\<rparr>)"
  obtain err a3 where r: "appendPromptEvents S env a2 prompts = (err, a3)" by fastforce
  have "dones a2 = dones a" by (simp add: a2_def quiet)
  then have "dones a3 = dones a" using quiet_prompts [of S env a2 prompts] r by simp
  then show ?thesis using tk r by (auto simp: appendSteeringPrompts_def Let_def a2_def [symmetric] quiet split: option.split)
qed

lemma quiet_prepare [quiet]: "dones (snd (prepareProviderRound S env a)) = dones a"
proof (induction S env a rule: prepareProviderRound.induct)
  case (1 S env a)
  define a0 where "a0 = serviceForks a"
  obtain prompts ib where tk: "TakeReadyUserPrompts (ag_inbox a0) = (prompts, ib)" by fastforce
  define a1 where "a1 = a0\<lparr>ag_inbox := ib\<rparr>"
  define a2 where "a2 = (if hasRenderablePrompt prompts
    then (if length (live_nodes S env a1 None) = 0 then abandonLive a1 else emitCommit a1) else a1)"
  define r where "r = appendPromptEvents S env a2 prompts"
  define a3 where "a3 = (if hasRenderablePrompt prompts then startAssistantUnit S (snd r) else snd r)"
  have run: "prepareProviderRound S env a = (if length prompts = 0 then (None, a1)
      else if fst r \<noteq> None then r else prepareProviderRound S env a3)"
    unfolding prepareProviderRound.simps [of S env a] a0_def [symmetric] tk Let_def split_beta fst_conv snd_conv
    by (simp only: a1_def a2_def r_def a3_def Let_def)
  have "dones a2 = dones a" by (simp add: a2_def a1_def a0_def quiet)
  then have r: "dones (snd r) = dones a" by (simp add: r_def quiet)
  have "prompts \<noteq> [] \<Longrightarrow> fst r = None \<Longrightarrow> dones (snd (prepareProviderRound S env a3)) = dones a3"
    using "1.IH" [OF a0_def refl tk [symmetric] a1_def _ refl a2_def r_def] by (simp add: a3_def)
  then show ?case unfolding run using r by (simp add: a3_def a1_def a0_def quiet)
qed

lemma quiet_seal [quiet]: "dones (snd (seal_turn S a)) = dones a"
  by (simp add: seal_turn_def split_beta Let_def quiet)

lemma finish_done [quiet]:
  "dones (finishTurn S env r a) = Suc (dones a)" "dones (endTurn S env r a) = Suc (dones a)"
  "dones (endTurnDiscarding S env r a) = Suc (dones a)"
  by (simp_all add: finishTurn_def endTurn_def endTurnDiscarding_def quiet)
     (simp_all add: fanOut_def dones_def is_done_def refreshMetrics_def emitCommit_def abandonLive_def)

lemma exits_done [quiet]:
  "dones (exit_error S env f p e a) = Suc (dones a)" "dones (exit_interrupted S env f a) = Suc (dones a)"
  "dones (exit_send_error S env b e a) = Suc (dones a)" "dones (exit_unsealed S env a) = Suc (dones a)"
  using quiet_seal [of S a]
  by (simp_all add: exit_error_def exit_interrupted_def exit_send_error_def exit_unsealed_def Let_def split_beta quiet
      split: option.split sum.split)

lemma quiet_drain [quiet]:
  "dones (dr_agent (emit_round S env f d)) = dones (dr_agent d)" "dones (dr_agent (with_err e d)) = dones (dr_agent d)"
  "dones (dr_agent (seal_inline S env m cache d)) = dones (dr_agent d)" "dones (dr_agent (on_figaro S env m cache d)) = dones (dr_agent d)"
  "dones (dr_agent (fold_bus S env ev s d)) = dones (dr_agent d)" "dones (dr_agent (on_tool S env te d)) = dones (dr_agent d)"
proof -
  show 1: "dones (dr_agent (emit_round S env f d)) = dones (dr_agent d)" "dones (dr_agent (with_err e d)) = dones (dr_agent d)"
    for f e and d :: "'a drain" by (simp_all add: emit_round_def with_err_def quiet)
  show 2: "dones (dr_agent (seal_inline S env m cache d)) = dones (dr_agent d)"
    by (simp add: seal_inline_def after_append_def Let_def split_beta 1 quiet split: sum.split option.split)
  show "dones (dr_agent (on_figaro S env m cache d)) = dones (dr_agent d)" by (simp add: on_figaro_def Let_def 1 2)
  show "dones (dr_agent (fold_bus S env ev s d)) = dones (dr_agent d)" by (simp add: fold_bus_def Let_def quiet)
  show "dones (dr_agent (on_tool S env te d)) = dones (dr_agent d)" by (simp add: on_tool_def 1 quiet)
qed

lemma quiet_step: "drain_step S env i d = Some d' \<Longrightarrow> dones (dr_agent d') = dones (dr_agent d)"
  by (cases i)
     (auto simp: drain_step_def on_bus_def Let_def quiet split: option.splits bus_event.splits sum.splits if_splits)

lemma quiet_loop: "drain_loop S env is d = Some d' \<Longrightarrow> dones (dr_agent d') = dones (dr_agent d)"
proof (induction "is" arbitrary: d)
  case (Cons i "is")
  then obtain d1 where "drain_step S env i d = Some d1" "drain_loop S env is d1 = Some d'" by (auto split: option.splits)
  with Cons.IH quiet_step show ?case by metis
qed simp

lemma quiet_collect_loop: "collect_loop S env n is outcomes a = Some (outs, a') \<Longrightarrow> dones a' = dones a"
  by (induction S env n "is" outcomes a rule: collect_loop.induct)
     (auto simp: quiet split: if_splits collect_input.splits drain_input.splits)

lemma quiet_collect: "collectToolResults S env calls spec buf inputs a = Some (tic, a') \<Longrightarrow> dones a' = dones a"
  by (auto simp: collectToolResults_def Let_def split_beta quiet dest: quiet_collect_loop split: option.splits)

definition done_after :: "bool \<Rightarrow> 'l agent \<Rightarrow> 'l agent \<Rightarrow> bool" where
  "done_after stop a a' \<longleftrightarrow> dones a' = dones a + (if stop then 1 else 0)"

lemma tool_phase_done:
  assumes "tool_phase S env calls inputs d = Some (stop, a')"
  shows "done_after stop (dr_agent d) a'"
proof -
  define a1 where "a1 = wake_forks (if dr_awaiting d then serviceForks (dr_agent d) else dr_agent d)"
  obtain tic a2 where col: "collectToolResults S env calls (dr_spec d) (dr_toolBuf d) inputs a1 = Some (tic, a2)"
    using assms by (auto simp: tool_phase_def Let_def a1_def [symmetric] split: option.splits)
  have a2: "dones a2 = dones (dr_agent d)" using quiet_collect [OF col] by (simp add: a1_def quiet)
  define a3 where "a3 st = recompose S env (refreshMetrics S env (a2\<lparr>ag_store := st, ag_turn := None\<rparr>))" for st
  have a3: "appendSteeringPrompts S env (a3 st) = (err, a4) \<Longrightarrow> dones a4 = dones (dr_agent d)" for st err a4
    using quiet_steering [of S env "a3 st"] a2 by (simp add: a3_def quiet)
  have "(stop, a') = (if ag_interrupted a2 then (True, exit_interrupted S env False a2)
      else case so_append S (ag_store a2) (new_entry tic) of
             Inl err \<Rightarrow> (True, exit_error S env False ''append tool_result: '' err a2)
           | Inr (_, st) \<Rightarrow>
               (case appendSteeringPrompts S env (a3 st) of
                  (Some err, a4) \<Rightarrow> (True, endTurn S env (''error: append steering prompt: '' @ err) a4)
                | (None, a4) \<Rightarrow> (False, a4)))"
    using assms col unfolding tool_phase_def Let_def a1_def [symmetric] a3_def by simp
  then show ?thesis using a2 by (auto simp: done_after_def quiet dest: a3 split: if_splits sum.splits prod.splits option.splits)
qed

lemma finish_round_done:
  assumes "finish_round S env sendErr inputs d = Some (stop, a')"
  shows "done_after stop (dr_agent d) a'"
proof (cases "dr_roundErr d")
  case (Some err)
  then show ?thesis using assms by (auto simp: finish_round_def done_after_def quiet)
next
  case noerr: None
  define tail where "tail = sealedTail (so_peek S) (ag_store (dr_agent d)) (dr_idx d) RoleAssistant"
  define a1 where "a1 = (if tail \<noteq> None \<and> \<not> ag_interrupted (dr_agent d) then recompose S env (dr_agent d) else dr_agent d)"
  have a1: "dones a1 = dones (dr_agent d)" by (simp add: a1_def quiet)
  have out: "(if ag_interrupted a1 then Some (True, exit_interrupted S env True a1)
      else case sendErr of
             Some err \<Rightarrow> Some (True, exit_send_error S env (tail \<noteq> None) err a1)
           | None \<Rightarrow> (case tail of None \<Rightarrow> Some (True, exit_unsealed S env a1)
               | Some e \<Rightarrow> (if length (assistantToolInvokes (Payload e)) = 0
                   then Some (True, endTurn S env (if m_stop_reason (Payload e) = [] then StopEnd else m_stop_reason (Payload e))
                          (serviceForks (wake_forks (a1\<lparr>ag_turn := None\<rparr>))))
                   else tool_phase S env (assistantToolInvokes (Payload e)) inputs (d\<lparr>dr_agent := a1\<rparr>)))) = Some (stop, a')"
    using assms noerr unfolding finish_round_def Let_def tail_def [symmetric] a1_def [symmetric] by simp
  have tp: "tool_phase S env calls inputs (d\<lparr>dr_agent := a1\<rparr>) = Some (stop, a') \<Longrightarrow> done_after stop (dr_agent d) a'" for calls
    using tool_phase_done [of S env calls inputs "d\<lparr>dr_agent := a1\<rparr>"] a1 by (simp add: done_after_def)
  show ?thesis
  proof (cases "ag_interrupted a1 \<or> sendErr \<noteq> None \<or> tail = None")
    case True
    then show ?thesis using out a1 by (auto simp: done_after_def quiet split: if_splits option.splits)
  next
    case False
    then obtain e where "tail = Some e" by auto
    with out False tp a1 show ?thesis
      by (cases "assistantToolInvokes (Payload e) = []") (auto simp: done_after_def quiet)
  qed
qed

lemma round_done:
  assumes "driveOneRound S env steer ri a = Some (stop, a')"
  shows "done_after stop a a'"
proof -
  obtain err a1 where prep: "(if steer then prepareProviderRound S env a else (None, serviceForks a)) = (err, a1)" by fastforce
  have a1: "dones a1 = dones a"
    using prep quiet_prepare [of S env a] by (cases steer) (auto simp: quiet)
  show ?thesis
  proof (cases err)
    case (Some er)
    then have "stop" "\<exists>r. a' = endTurn S env r a1" using assms unfolding driveOneRound_def prep by auto
    then show ?thesis using a1 by (auto simp: done_after_def quiet)
  next
    case None
    then obtain d where d: "drain_loop S env (ri_stream ri) (start_round S a1) = Some d"
        "finish_round S env (ri_sendErr ri) (ri_tools ri) d = Some (stop, a')"
      using assms unfolding driveOneRound_def prep by (auto split: option.splits)
    have "dones (dr_agent (start_round S a1)) = dones a1" by (simp add: start_round_def quiet)
    then have "dones (dr_agent d) = dones a" using quiet_loop [OF d(1)] a1 by simp
    then show ?thesis using finish_round_done [OF d(2)] by (simp add: done_after_def)
  qed
qed

lemma rounds_done: "run_rounds S env b ris a = Some a' \<Longrightarrow> dones a' = Suc (dones a)"
proof (induction ris arbitrary: a b)
  case (Cons ri ris)
  then obtain stop a1 where r: "driveOneRound S env b ri a = Some (stop, a1)"
    "(if stop then Some a1 else run_rounds S env True ris a1) = Some a'" by (auto split: option.splits)
  show ?case using round_done [OF r(1)] r(2) Cons.IH by (cases stop) (auto simp: done_after_def)
qed simp

subsection \<open>Properties\<close>



end
