(* ===== verification/Agent_Life.thy ===== *)
theory Agent_Life
  imports Turn_Pairing Turn_Signals
begin

section \<open>The life of an agent (\<open>NewAgent\<close>, \<open>act\<close>, \<open>runWithRecovery\<close>)\<close>

text \<open>
  Start, service loop and crash recovery of the agent. \<open>NewAgent\<close> takes over a log that may end in
  an interrupted tool round; the drain loop \<open>act\<close> serves the inbox; when a panic escapes,
  \<open>runWithRecovery\<close> seals what the turn left, repairs the tail and serves on. A run is a list of
  inputs: events that arrive, a turn of the loop with everything the provider and the tools send
  during it, or a panic between two events of some round. \<open>newLog\<close> reopens the log: a backend
  memoizes one instance per aria, so a backed agent gets the rows it had; an ephemeral one starts
  from an empty log. The fallback of a backed agent to a memory log, when the backend cannot open
  the aria, is not modelled.
\<close>

record agent_config =
  cf_ID :: string
  cf_SocketPath :: string
  cf_Chalkboard :: "snapshot option"
  cf_InlineBoot :: "patch option"
  cf_CreatedAt :: "int option"
  cf_LastActive :: "int option"

definition NewAgent :: "'l store_ops \<Rightarrow> agent_env \<Rightarrow> agent_config \<Rightarrow> int \<Rightarrow> 'l \<Rightarrow> 'l agent" where
  "NewAgent S env cfg now lg =
     (let createdAt = (case cf_CreatedAt cfg of Some t \<Rightarrow> t | None \<Rightarrow> now);
          lastActive = (case cf_LastActive cfg of Some t \<Rightarrow> t | None \<Rightarrow> now);
          figLog = snd (repairInterruptedTail (so_peek S) (so_append S) now lg);
          board = (case cf_Chalkboard cfg of Some s \<Rightarrow> s | None \<Rightarrow> fmempty);
          messages = unwrapMessages (so_read S figLog);
          history = history_of (Units (en_hooks env) messages);
          srv = fold (\<lambda>m s. sv_Commit s m) history NewServer;
          a = \<lparr>ag_store = figLog, ag_chalkboard = board, ag_inlineBoot = cf_InlineBoot cfg, ag_inbox = NewInbox, ag_inTurn = False,
               ag_interrupted = False, ag_cancelled = False, ag_turnStartLT = 0, ag_gov = None, ag_lastEmit = None,
               ag_argPartials = fmempty, ag_toolTimings = fmempty, ag_turn = None, ag_ariaSrv = snd (sv_Subscribe srv),
               ag_unitLT = int (length history), ag_metrics = refreshMetricsFrom env board messages zero_metrics,
               ag_createdAt = createdAt, ag_lastActive = lastActive, ag_clock = now, ag_sent = [], ag_forks = []\<rparr>
      in publishMetadata S env a)"

definition newLog :: "'l store_ops \<Rightarrow> 'l \<Rightarrow> 'l agent \<Rightarrow> 'l" where
  "newLog S fresh a = (if so_backed S then ag_store a else fresh)"

text \<open>What the agent tells about itself.\<close>

record figaro_info =
  fi_ID :: string
  fi_State :: string
  fi_Provider :: string
  fi_Model :: string
  fi_MessageCount :: int
  fi_TokensIn :: int
  fi_TokensOut :: int
  fi_CacheReadTokens :: int
  fi_CacheWriteTokens :: int
  fi_ContextTokens :: int
  fi_ContextLimit :: int
  fi_ContextExact :: bool
  fi_CreatedAt :: int
  fi_LastActive :: int
  fi_Mantra :: string
  fi_Cwd :: string
  fi_LoadoutName :: string
  fi_LoadoutVersion :: string
  fi_LastFigaroLT :: lt

definition agent_Info :: "agent_env \<Rightarrow> string \<Rightarrow> 'l agent \<Rightarrow> figaro_info" where
  "agent_Info env i a =
     (let mt = ag_metrics a
      in \<lparr>fi_ID = i, fi_State = (if ag_inTurn a \<or> \<not> IsIdle (ag_inbox a) then ''active'' else ''idle''),
          fi_Provider = en_provider env, fi_Model = mt_model mt, fi_MessageCount = mt_messageCount mt,
          fi_TokensIn = mt_tokensIn mt, fi_TokensOut = mt_tokensOut mt, fi_CacheReadTokens = mt_cacheRead mt,
          fi_CacheWriteTokens = mt_cacheWrite mt, fi_ContextTokens = mt_contextTokens mt,
          fi_ContextLimit = mt_contextLimit mt, fi_ContextExact = mt_contextExact mt, fi_CreatedAt = ag_createdAt a,
          fi_LastActive = ag_lastActive a, fi_Mantra = mt_mantra mt, fi_Cwd = mt_cwd mt, fi_LoadoutName = mt_loadoutName mt,
          fi_LoadoutVersion = mt_loadoutVer mt, fi_LastFigaroLT = mt_metricsLT mt\<rparr>)"

definition SubmitPrompt :: "string \<Rightarrow> chalkboard_input option \<Rightarrow> 'l agent \<Rightarrow> 'l agent" where
  "SubmitPrompt txt cb a =
     a\<lparr>ag_inbox := snd (ib_Send (ag_inbox a)
        \<lparr>ev_typ = EventUserPrompt, ev_text = txt, ev_chalkboard = cb, ev_setPatch = zero_patch, ev_fork = 0\<rparr>)\<rparr>"

text \<open>One turn of the loop \<open>act\<close>: an event is taken and served; \<open>rounds\<close> is what happens during a turn.\<close>

definition act_event :: "'l store_ops \<Rightarrow> agent_env \<Rightarrow> round_inputs list \<Rightarrow> event \<Rightarrow> 'l agent \<Rightarrow> 'l agent option" where
  "act_event S env rounds evt a =
     (case ev_typ evt of
        EventUserPrompt \<Rightarrow> runTurn S env evt rounds a
      | EventSet \<Rightarrow> Some (applyControlPatch S env (ev_setPatch evt) a)
      | EventFork \<Rightarrow> Some (executeFork evt a))"

definition act_step :: "'l store_ops \<Rightarrow> agent_env \<Rightarrow> round_inputs list \<Rightarrow> 'l agent \<Rightarrow> 'l agent option" where
  "act_step S env rounds a =
     (case ib_Recv (ag_inbox a) of
        (Received evt, ib) \<Rightarrow> act_event S env rounds evt (a\<lparr>ag_inbox := ib\<rparr>)
      | (_, ib) \<Rightarrow> Some a)"

text \<open>The body of \<open>runWithRecovery\<close> after a panic.\<close>

definition recoverAgent :: "'l store_ops \<Rightarrow> agent_env \<Rightarrow> 'l \<Rightarrow> 'l agent \<Rightarrow> 'l agent" where
  "recoverAgent S env fresh a =
     (let a1 = a\<lparr>ag_store := newLog S fresh a, ag_inTurn := False, ag_cancelled := ag_cancelled a \<or> ag_inTurn a, ag_interrupted := False\<rparr>;
          a2 = snd (seal_turn S a1);
          a3 = refreshMetrics S env (repair_tail S a2);
          crashMsg = ''agent crashed and was restarted'' @
            (if so_backed S then ''; context restored from last checkpoint'' else ''; context lost'')
      in finishTurn S env (''error: '' @ crashMsg) (reconcileAriaServer S env a3))"

text \<open>
  A panic inside a turn: after the prompt was logged and some rounds were completed, the next round
  panics between two events of its stream. \<open>None\<close> when the turn does not get that far.
\<close>

fun rounds_on :: "'l store_ops \<Rightarrow> agent_env \<Rightarrow> bool \<Rightarrow> round_inputs list \<Rightarrow> 'l agent \<Rightarrow> (bool \<times> 'l agent) option" where
  "rounds_on S env b [] a = Some (b, a)"
| "rounds_on S env b (ri # ris) a =
     (case driveOneRound S env b ri a of
        Some (False, a') \<Rightarrow> rounds_on S env True ris a'
      | _ \<Rightarrow> None)"

definition panic_point ::
  "'l store_ops \<Rightarrow> agent_env \<Rightarrow> event \<Rightarrow> round_inputs list \<Rightarrow> drain_input list \<Rightarrow> 'l agent \<Rightarrow> 'l agent option" where
  "panic_point S env prompt rounds is a =
     (let a1 = a\<lparr>ag_lastActive := ag_clock a, ag_inTurn := True, ag_cancelled := False, ag_interrupted := False\<rparr>
      in case appendUserPrompt S env (repair_tail S a1) prompt True of
           (Inl err, a2) \<Rightarrow> None
         | (Inr _, a2) \<Rightarrow>
             (case rounds_on S env False rounds (startAssistantUnit S a2) of
                None \<Rightarrow> None
              | Some (b, a3) \<Rightarrow>
                  (case (if b then prepareProviderRound S env a3 else (None, serviceForks a3)) of
                     (Some err, a4) \<Rightarrow> None
                   | (None, a4) \<Rightarrow> map_option dr_agent (drain_loop S env is (start_round S a4)))))"

datatype life_input =
    Arrive event
  | Interrupting
  | Serve "round_inputs list"
  | Panic "round_inputs list" "drain_input list"

definition life_step :: "'l store_ops \<Rightarrow> agent_env \<Rightarrow> 'l \<Rightarrow> life_input \<Rightarrow> 'l agent \<Rightarrow> 'l agent option" where
  "life_step S env fresh i a =
     (case i of
        Arrive e \<Rightarrow> Some (a\<lparr>ag_inbox := snd (ib_Send (ag_inbox a) e)\<rparr>)
      | Interrupting \<Rightarrow> Some (agent_Interrupt a)
      | Serve rounds \<Rightarrow> act_step S env rounds a
      | Panic rounds is \<Rightarrow>
          (case ib_Recv (ag_inbox a) of
             (Received evt, ib) \<Rightarrow>
               (if ev_typ evt = EventUserPrompt
                then map_option (recoverAgent S env fresh) (panic_point S env evt rounds is (a\<lparr>ag_inbox := ib\<rparr>))
                else None)
           | _ \<Rightarrow> None))"

fun life :: "'l store_ops \<Rightarrow> agent_env \<Rightarrow> 'l \<Rightarrow> life_input list \<Rightarrow> 'l agent \<Rightarrow> 'l agent option" where
  "life S env fresh [] a = Some a"
| "life S env fresh (i # is) a =
     (case life_step S env fresh i a of None \<Rightarrow> None | Some a' \<Rightarrow> life S env fresh is a')"

definition life_input_ok :: "life_input \<Rightarrow> bool" where
  "life_input_ok i =
     (case i of
        Serve rounds \<Rightarrow> list_all (\<lambda>ri. stream_ok (ri_stream ri)) rounds
      | Panic rounds is \<Rightarrow> list_all (\<lambda>ri. stream_ok (ri_stream ri)) rounds \<and> stream_ok is
      | _ \<Rightarrow> True)"

subsection \<open>The log through the life of the agent\<close>

context agent_store
begin

definition at_rest :: "'l agent \<Rightarrow> bool" where
  "at_rest a \<longleftrightarrow> st_inv (ag_store a) \<and> paired (rows_of a)"

lemma at_rest_same: "ag_store a' = ag_store a \<Longrightarrow> at_rest a' = at_rest a"
  by (simp add: at_rest_def rows_of_def)

lemma ended_rest: "ended True R a \<Longrightarrow> at_rest a \<and> prefix R (rows_of a)"
  by (simp add: ended_def at_rest_def)

lemma rest_ended: "at_rest a \<Longrightarrow> ended True (rows_of a) a"
  by (simp add: at_rest_def ended_def paired_def)

lemma NewAgent_rest:
  assumes reliable and "st_inv lg" and "paired_open (map Payload (so_read S lg))"
  shows "ended True (map Payload (so_read S lg)) (NewAgent S env cfg now lg)"
proof -
  let ?a = "(fresh_agent lg)\<lparr>ag_clock := now\<rparr>"
  have st: "ag_store (repair_tail S ?a) = snd (repairInterruptedTail (so_peek S) (so_append S) now lg)"
    by (simp add: repair_tail_def fresh_agent_def)
  have "ended True (map Payload (so_read S lg)) (repair_tail S ?a)"
    using repair_pairs [OF assms(1), of ?a] assms(2,3) by (simp add: rows_of_def fresh_agent_def)
  then show ?thesis
    unfolding NewAgent_def Let_def by (intro ended_publish) (simp add: ended_def rows_of_def st)
qed

lemma control_rest:
  assumes "at_rest a"
  shows "ended True (rows_of a) (applyControlPatch S env p a)"
proof -
  let ?f = "\<lambda>st. publishMetadata S env (refreshMetrics S env (a\<lparr>ag_store := st, ag_chalkboard := snap_Apply (ag_chalkboard a) p\<rparr>))"
  have f: "ended True (rows_of a) (?f st)" if "ended True (rows_of a) (a\<lparr>ag_store := st\<rparr>)" for st
    using that by (intro ended_publish) (simp add: ended_def rows_of_def refreshMetrics_def)
  have inv: "st_inv (ag_store a)" "paired (rows_of a)" using assms by (simp_all add: at_rest_def)
  show ?thesis
  proof (cases "so_backed S")
    case True
    show ?thesis
    proof (cases "so_applyChalkboard S (ag_store a) p")
      case (Inr st)
      then have "ended True (rows_of a) (a\<lparr>ag_store := st\<rparr>)"
        using chalk_rows [OF inv(1) Inr] inv(2) by (simp add: ended_def rows_of_def paired_def)
      then show ?thesis using f True Inr by (simp add: applyControlPatch_def)
    qed (use True rest_ended [OF assms] in \<open>simp add: applyControlPatch_def\<close>)
  next
    case False
    let ?m = "zero_message\<lparr>m_role := RoleUser, m_patches := [p], m_timestamp := ag_clock a\<rparr>"
    show ?thesis
    proof (cases "so_append S (ag_store a) (new_entry ?m)")
      case (Inr r)
      obtain e st where r: "r = (e, st)" by fastforce
      have "invoke_ids ?m = []" by (simp add: invoke_ids_def assistantToolInvokes_def zero_message_def)
      then have "ended True (rows_of a) (a\<lparr>ag_store := st\<rparr>)"
        using append_inv [OF inv(1)] append_read [OF inv(1)] append_payload [OF inv(1)] Inr r paired_snoc_plain [OF inv(2), of ?m]
        by (auto simp: ended_def rows_of_def paired_def)
      then show ?thesis using f False Inr r by (simp add: applyControlPatch_def)
    qed (use False rest_ended [OF assms] in \<open>simp add: applyControlPatch_def\<close>)
  qed
qed

lemma rounds_on_between:
  "between a \<Longrightarrow> \<forall>ri \<in> set ris. stream_ok (ri_stream ri) \<Longrightarrow> rounds_on S env b ris a = Some (b', a') \<Longrightarrow>
   between a' \<and> prefix (rows_of a) (rows_of a')"
proof (induction ris arbitrary: a b)
  case (Cons ri ris)
  obtain a1 where r: "driveOneRound S env b ri a = Some (False, a1)" "rounds_on S env True ris a1 = Some (b', a')"
    using Cons.prems(3) by (auto split: option.splits bool.splits prod.splits)
  have "round_end (rows_of a) False a1" using round_pairs [OF Cons.prems(1) _ r(1)] Cons.prems(2) by simp
  then have "between a1" "prefix (rows_of a) (rows_of a1)" by (auto simp: round_end_def ended_def)
  with Cons.IH [OF this(1) _ r(2)] Cons.prems(2) show ?case by (auto intro: prefix_order.trans)
qed simp

lemma round_start:
  assumes "between a" and "(if b then prepareProviderRound S env a else (None, serviceForks a)) = (err, a1)"
  shows "ended True (rows_of a) a1 \<and> between a1"
proof (cases b)
  case True
  then show ?thesis using prepare_between [OF refl assms(1)] assms(2) by simp
next
  case False
  then have "a1 = serviceForks a" using assms(2) by simp
  then show ?thesis using assms(1) by (auto simp: between_def ended_def rows_of_def paired_def)
qed

lemma panic_sealable:
  assumes reliable and "at_rest a" and "\<forall>ri \<in> set rounds. stream_ok (ri_stream ri)" and "stream_ok is"
    and "panic_point S env prompt rounds is a = Some a'"
  shows "\<exists>R. sealable R a' \<and> prefix (rows_of a) (map Payload R)"
proof -
  define a1 where "a1 = a\<lparr>ag_lastActive := ag_clock a, ag_inTurn := True, ag_cancelled := False, ag_interrupted := False\<rparr>"
  have a1: "st_inv (ag_store a1)" "rows_of a1 = rows_of a" "paired_open (rows_of a1)"
    using assms(2) by (simp_all add: a1_def at_rest_def rows_of_def paired_def)
  define b where "b = repair_tail S a1"
  have b: "at_rest b" "prefix (rows_of a) (rows_of b)"
    using repair_pairs [OF assms(1) a1(1,3)] ended_rest a1(2) by (auto simp: b_def)
  obtain r a2 where r: "appendUserPrompt S env b prompt True = (r, a2)" by fastforce
  obtain e where e: "r = Inr e" using assms(5) r
    unfolding panic_point_def Let_def a1_def [symmetric] b_def [symmetric] by (cases r) auto
  have binv: "st_inv (ag_store b)" using b(1) by (simp add: at_rest_def)
  note rows = appendUserPrompt_rows [OF binv r]
  define c where "c = startAssistantUnit S a2"
  have c: "between c" "prefix (rows_of b) (rows_of c)"
    using rows(1) rows(3) [OF e] b(1) paired_snoc_plain [of "rows_of b"] logs_prompt_plain
    by (auto simp: c_def between_def at_rest_def rows_of_def)
  have run: "(case rounds_on S env False rounds c of
       None \<Rightarrow> None
     | Some (b, a3) \<Rightarrow>
         (case (if b then prepareProviderRound S env a3 else (None, serviceForks a3)) of
            (Some err, a4) \<Rightarrow> None
          | (None, a4) \<Rightarrow> map_option dr_agent (drain_loop S env is (start_round S a4)))) = Some a'"
    using assms(5) r e unfolding panic_point_def Let_def a1_def [symmetric] b_def [symmetric] c_def by simp
  then obtain st a3 where a3: "rounds_on S env False rounds c = Some (st, a3)" by (auto split: option.splits)
  obtain err a4 where a4: "(if st then prepareProviderRound S env a3 else (None, serviceForks a3)) = (err, a4)" by fastforce
  with run a3 have err: "err = None" by (auto split: option.splits)
  obtain d where d: "drain_loop S env is (start_round S a4) = Some d" "a' = dr_agent d"
    using run a3 a4 err by auto
  have b3: "between a3" "prefix (rows_of c) (rows_of a3)" using rounds_on_between [OF c(1) assms(3) a3] by auto
  have b4: "between a4" "prefix (rows_of a3) (rows_of a4)" using round_start [OF b3(1) a4] by (auto simp: ended_def)
  have "drain_open (so_read S (ag_store a4)) (start_round S a4)" using b4(1) by (intro start_open) (auto simp: between_def)
  from loop_phase [OF this assms(4), of env] d(1)
  have "drain_open (so_read S (ag_store a4)) d \<or> drain_sealed (so_read S (ag_store a4)) d" by auto
  then have "sealable (so_read S (ag_store a4)) a'"
    using b4(1) d(2) by (auto simp: drain_defs sealable_def between_def rows_of_def)
  moreover have "prefix (rows_of a) (map Payload (so_read S (ag_store a4)))"
    using b(2) c(2) b3(2) b4(2) by (metis prefix_order.trans rows_of_def)
  ultimately show ?thesis by blast
qed

lemma recover_rest:
  assumes reliable and "so_backed S" and "sealable R a"
  shows "ended True (map Payload R) (recoverAgent S env fresh a)"
proof -
  define a1 where "a1 = a\<lparr>ag_store := newLog S fresh a, ag_inTurn := False, ag_cancelled := ag_cancelled a \<or> ag_inTurn a, ag_interrupted := False\<rparr>"
  have "sealable R a1" using assms(2,3) by (subst sealable_same [of a1 a]) (simp_all add: a1_def newLog_def)
  moreover obtain msgs se a2 where seal: "seal_turn S a1 = ((msgs, se), a2)" by (metis surj_pair)
  ultimately have a2: "ended True (map Payload R) a2" using seal_ended [of R a1] assms(1) by simp
  then have "ended True (rows_of a2) (repair_tail S a2)" using repair_pairs [OF assms(1)] by (simp add: ended_def)
  with a2 have a3: "ended True (map Payload R) (repair_tail S a2)" by (rule ended_trans)
  have "recoverAgent S env fresh a = finishTurn S env
      (''error: '' @ ''agent crashed and was restarted'' @ (if so_backed S then ''; context restored from last checkpoint'' else ''; context lost''))
      (reconcileAriaServer S env (refreshMetrics S env (repair_tail S a2)))"
    unfolding recoverAgent_def Let_def a1_def [symmetric] seal by simp
  moreover have "ended True (map Payload R) (reconcileAriaServer S env (refreshMetrics S env (repair_tail S a2)))"
    by (subst ended_same [of _ "repair_tail S a2"]) (simp_all add: a3)
  ultimately show ?thesis using ended_finish by simp
qed

lemma act_rest:
  assumes reliable and "at_rest a" and "\<forall>ri \<in> set rounds. stream_ok (ri_stream ri)" and "act_event S env rounds evt a = Some a'"
  shows "ended True (rows_of a) a'"
proof (cases "ev_typ evt")
  case EventUserPrompt
  then show ?thesis using turn_pairs [OF assms(1) _ _ assms(3)] assms(2,4) by (simp add: act_event_def at_rest_def paired_def)
next
  case EventSet
  then show ?thesis using control_rest [OF assms(2)] assms(4) by (auto simp: act_event_def)
next
  case EventFork
  then show ?thesis using rest_ended [OF assms(2)] assms(4)
    by (auto simp: act_event_def executeFork_def ended_def rows_of_def)
qed

lemma step_rest:
  assumes "reliable" "at_rest a" "life_input_ok i" "so_backed S \<or> (\<forall>rs is. i \<noteq> Panic rs is)" "life_step S env fresh i a = Some a'"
  shows "ended True (rows_of a) a'"
proof -
  have inbox: "at_rest (a\<lparr>ag_inbox := ib\<rparr>)" "rows_of (a\<lparr>ag_inbox := ib\<rparr>) = rows_of a" for ib
    using assms(2) by (simp_all add: at_rest_def rows_of_def)
  have same: "ended True (rows_of a) x" if "ag_store x = ag_store a" for x
    using rest_ended [OF assms(2)] ended_same [OF that] by simp
  show ?thesis
  proof (cases i)
    case (Serve rounds)
    obtain res ib where recv: "ib_Recv (ag_inbox a) = (res, ib)" by fastforce
    show ?thesis
    proof (cases res)
      case (Received evt)
      then have "act_event S env rounds evt (a\<lparr>ag_inbox := ib\<rparr>) = Some a'"
        using assms(5) Serve recv by (simp add: life_step_def act_step_def)
      from act_rest [OF assms(1) inbox(1) _ this] assms(3) Serve show ?thesis
        by (simp add: inbox(2) life_input_ok_def list_all_iff)
    qed (use assms(5) Serve recv same in \<open>auto simp: life_step_def act_step_def\<close>)
  next
    case (Panic rounds "is")
    obtain res ib where recv: "ib_Recv (ag_inbox a) = (res, ib)" by fastforce
    then obtain evt a1 where evt: "res = Received evt" and pp: "panic_point S env evt rounds is (a\<lparr>ag_inbox := ib\<rparr>) = Some a1"
      and a': "a' = recoverAgent S env fresh a1"
      using assms(5) Panic by (auto simp: life_step_def split: recv_result.splits if_splits)
    have backed: "so_backed S" using assms(4) Panic by blast
    obtain R where "sealable R a1" "prefix (rows_of a) (map Payload R)"
      using panic_sealable [OF assms(1) inbox(1) _ _ pp] assms(3) Panic by (auto simp: inbox(2) life_input_ok_def list_all_iff)
    with recover_rest [OF assms(1) backed, of R a1 env fresh] show ?thesis
      by (auto simp: a' ended_def intro: prefix_order.trans)
  qed (use assms(5) same in \<open>auto simp: life_step_def agent_Interrupt_def\<close>)
qed

lemma life_rest:
  "reliable \<Longrightarrow> at_rest a \<Longrightarrow> \<forall>i \<in> set is. life_input_ok i \<Longrightarrow> so_backed S \<or> (\<forall>rs es. Panic rs es \<notin> set is) \<Longrightarrow>
   life S env fresh is a = Some a' \<Longrightarrow> ended True (rows_of a) a'"
proof (induction "is" arbitrary: a)
  case (Cons i "is")
  obtain a1 where a1: "life_step S env fresh i a = Some a1" "life S env fresh is a1 = Some a'"
    using Cons.prems(5) by (auto split: option.splits)
  have e1: "ended True (rows_of a) a1"
    using step_rest [OF Cons.prems(1,2) _ _ a1(1)] Cons.prems(3,4) by auto
  then have "ended True (rows_of a1) a'"
    using Cons.IH [OF Cons.prems(1) _ _ _ a1(2)] ended_rest [OF e1] Cons.prems(3,4) by auto
  with e1 show ?case by (rule ended_trans)
qed (simp add: rest_ended)

end

subsection \<open>A store with a backend\<close>

text \<open>
  What the backend keeps for one aria: the log, the chalkboard channel with every patch under the
  logical time of the message it will ride on, the cached encodings by logical time, the summary.
\<close>

record kept_store =
  kp_log :: "message mem_log"
  kp_board :: "(lt \<times> patch) list"
  kp_cache :: "(lt \<times> assistant_cache) list"
  kp_meta :: "aria_meta option"

definition kept_ops :: "kept_store store_ops" where
  "kept_ops = \<lparr>so_read = (\<lambda>s. so_read mem_ops (kp_log s)),
     so_append = (\<lambda>s e. case so_append mem_ops (kp_log s) e of Inl err \<Rightarrow> Inl err | Inr (e', l) \<Rightarrow> Inr (e', s\<lparr>kp_log := l\<rparr>)),
     so_peek = (\<lambda>s. so_peek mem_ops (kp_log s)), so_readFrom = (\<lambda>s k. so_readFrom mem_ops (kp_log s) k),
     so_backed = True, so_applyChalkboard = (\<lambda>s p. Inr (s\<lparr>kp_board := kp_board s @ [(ml_nextLT (kp_log s), p)]\<rparr>)),
     so_cacheAppend = (\<lambda>s k c. Inr (s\<lparr>kp_cache := kp_cache s @ [(k, c)]\<rparr>)), so_setMeta = (\<lambda>s m. s\<lparr>kp_meta := Some m\<rparr>)\<rparr>"

definition kept_inv :: "kept_store \<Rightarrow> bool" where
  "kept_inv s \<longleftrightarrow> mem_inv (kp_log s)"

interpretation kept: agent_store kept_ops kept_inv
  by unfold_locales
     (auto simp: kept_ops_def kept_inv_def ephemeral.peek_read ephemeral.readFrom_read ephemeral.timed
        split: sum.splits prod.splits intro: ephemeral.append_inv ephemeral.append_read ephemeral.append_payload)

lemma kept_reliable: "\<exists>e s'. so_append kept_ops s (new_entry m) = Inr (e, s')"
  by (simp add: kept_ops_def mem_ops_def ml_Append_def split_beta)

subsection \<open>Properties\<close>


text \<open>A log that ends in a tool call nobody answered, and a panic in the next turn after the provider announced a tool.\<close>

definition broken_log :: kept_store where
  "broken_log = \<lparr>kp_log = snd (ml_appendLocked NewMemLog (new_entry (zero_message\<lparr>m_role := RoleAssistant, m_content := [sample_args_call]\<rparr>))),
     kp_board = [], kp_cache = [], kp_meta = None\<rparr>"

definition broken_life :: "life_input list" where
  "broken_life = [Arrive (sample_prompt ''hi''), Panic [] [InBus (EvDelta (TextContent ''ok''))]]"

definition plain_config :: agent_config where
  "plain_config = \<lparr>cf_ID = ''a'', cf_SocketPath = ''a.sock'', cf_Chalkboard = None, cf_InlineBoot = None, cf_CreatedAt = None, cf_LastActive = None\<rparr>"

lemma broken_life_runs: "\<exists>a'. life kept_ops plain_env fresh broken_life (NewAgent kept_ops plain_env plain_config 0 broken_log) = Some a'"
proof -
  let ?a = "NewAgent kept_ops plain_env plain_config 0 broken_log"
  have ib: "ag_inbox ?a = NewInbox" by (simp add: NewAgent_def Let_def publishMetadata_def kept_ops_def)
  have send: "ib_Recv (snd (ib_Send NewInbox e)) = (Received e, snd (ib_Send NewInbox e)\<lparr>ib_queue := []\<rparr>)" for e
    by (simp add: ib_Recv_def ib_Send_def NewInbox_def)
  have prompt: "\<exists>e a'. appendUserPrompt kept_ops plain_env b (sample_prompt ''hi'') True = (Inr e, a')" for b
    using kept_reliable by (auto simp: appendUserPrompt_def split_beta Let_def split: sum.split) (metis Inl_Inr_False)
  have pp: "\<exists>a'. panic_point kept_ops plain_env (sample_prompt ''hi'') [] es b = Some a'" for es and b :: "kept_store agent"
  proof -
    obtain e a2 where "appendUserPrompt kept_ops plain_env
        (repair_tail kept_ops (b\<lparr>ag_lastActive := ag_clock b, ag_inTurn := True, ag_cancelled := False, ag_interrupted := False\<rparr>))
        (sample_prompt ''hi'') True = (Inr e, a2)" using prompt by blast
    moreover obtain d where "drain_loop kept_ops plain_env es (start_round kept_ops (serviceForks (startAssistantUnit kept_ops a2))) = Some d"
      using loop_total [OF start_asm] by blast
    ultimately show ?thesis by (simp add: panic_point_def Let_def)
  qed
  have kind: "ev_typ (sample_prompt ''hi'') = EventUserPrompt" by (simp add: sample_prompt_def)
  obtain x where "panic_point kept_ops plain_env (sample_prompt ''hi'') [] [InBus (EvDelta (TextContent ''ok''))]
      (?a\<lparr>ag_inbox := snd (ib_Send NewInbox (sample_prompt ''hi''))\<lparr>ib_queue := []\<rparr>\<rparr>) = Some x" using pp by blast
  then show ?thesis by (simp add: broken_life_def life_step_def ib send kind)
qed


text \<open>
  C37: For an ephemeral agent recovery does harm. It starts from an empty log and then seals the turn that
  panicked; when the assistant message of that turn was already logged, only the results of
  its tool calls are appended, so the new conversation opens with results for calls it does not contain.
\<close>

theorem ephemeral_recovery_orphans:
  assumes "ag_turn a = Some t" and "ts_committed t" and "interruptedToolResults (ts_tools t) \<noteq> []"
  shows "\<exists>m. map Payload (so_read mem_ops (ag_store (recoverAgent mem_ops env NewMemLog a))) = [m]
    \<and> m_role m = RoleUser \<and> result_ids m \<noteq> []"
proof -
  let ?m = "user_results (ag_clock a) (interruptedToolResults (ts_tools t))"
  let ?l = "snd (ml_appendLocked NewMemLog (new_entry ?m))"
  have rows: "map Payload (ml_Read ?l) = [?m]"
    by (simp add: ml_Read_def ml_append_read NewMemLog_def) (simp add: ml_appendLocked_def Let_def new_entry_def)
  have peek: "\<exists>e. ml_PeekTail ?l = Some e \<and> Payload e = ?m"
    by (simp add: ml_PeekTail_def ml_appendLocked_def NewMemLog_def Let_def new_entry_def)
  have nofix: "snd (repairInterruptedTail ml_PeekTail ml_Append now ?l) = ?l" for now
    using peek by (auto simp: repairInterruptedTail_def user_results_def)
  have "ag_store (snd (seal_turn mem_ops (a\<lparr>ag_store := NewMemLog, ag_inTurn := b, ag_cancelled := c, ag_interrupted := d\<rparr>))) = ?l" for b c d
    using assms by (simp add: seal_turn_def sealTurn_def mem_ops_def ml_Append_def split_beta Let_def)
  moreover have "ag_clock (snd (seal_turn mem_ops x)) = ag_clock x" for x :: "message mem_log agent"
    by (simp add: seal_turn_def split_beta Let_def)
  ultimately have "ag_store (recoverAgent mem_ops env NewMemLog a) = ?l"
    using nofix by (simp add: recoverAgent_def Let_def newLog_def mem_ops_def finishTurn_def publishMetadata_def repair_tail_def fanOut_def)
  moreover have kind: "c_type (interrupted_result u) = ContentToolResult" for u
    by (simp add: interrupted_result_def ToolResultContent_def Let_def)
  then have "result_ids ?m \<noteq> []"
    using assms(3) by (auto simp: result_ids_def user_results_def interruptedToolResults_def filter_empty_conv kind)
  ultimately show ?thesis using rows by (simp add: mem_ops_def user_results_def)
qed

theorem ephemeral_recovery_orphans_witness:
  "let t = newTurnState\<lparr>ts_committed := True, ts_tools := toolsFromAssistant (zero_message\<lparr>m_content := [sample_args_call]\<rparr>)\<rparr>;
       a = (fresh_agent NewMemLog)\<lparr>ag_turn := Some t\<rparr>
   in \<exists>m. map Payload (so_read mem_ops (ag_store (recoverAgent mem_ops plain_env NewMemLog a))) = [m] \<and> result_ids m \<noteq> []"
proof -
  let ?t = "newTurnState\<lparr>ts_committed := True, ts_tools := toolsFromAssistant (zero_message\<lparr>m_content := [sample_args_call]\<rparr>)\<rparr>"
  have "interruptedToolResults (ts_tools ?t) \<noteq> []"
    by (simp add: interruptedToolResults_def toolsFromAssistant_def sample_args_call_def zero_content_def)
  from ephemeral_recovery_orphans [OF _ _ this, of "(fresh_agent NewMemLog)\<lparr>ag_turn := Some ?t\<rparr>" plain_env]
  show ?thesis unfolding Let_def by auto
qed

end
