(* ===== verification/Protocol.thy ===== *)
theory Protocol
  imports Registry Agent_Life
begin

section \<open>The supervisor's requests (\<open>internal/angelus/protocol.go\<close>)\<close>

text \<open>
  The JSON-RPC handlers of the supervisor that create, revive, bind and kill arias. The state is
  the registry and the backend: \<open>'b\<close> with the operations \<open>backend_ops\<close> the handlers call (the
  \<open>Backend\<close> interface; \<open>bo_store\<close> gives the calls an agent makes on its own aria). An entry of the
  registry is a handle, the two values of the agent that never change. What the daemon gets from
  outside is \<open>proto_env\<close>: the decoders of \<open>encoding/json\<close>, the provider factory, the loadouts on
  disk, the working directory, the environment and the clock. Requests arrive decoded; a handler
  runs as one step (the interleaving of restores and kills is \<open>Restore_Race\<close>). Log lines,
  spans and the goroutine that serves the agent's socket are left out.
\<close>

subsection \<open>Validated ids (\<open>internal/rpc/aria_id.go\<close>)\<close>

datatype id_error = IdEmpty | IdTooLong | IdInvalidChar nat

definition id_char :: "char \<Rightarrow> bool" where
  "id_char c \<longleftrightarrow> (CHR ''a'' \<le> c \<and> c \<le> CHR ''z'') \<or> (CHR ''A'' \<le> c \<and> c \<le> CHR ''Z'') \<or> (CHR ''0'' \<le> c \<and> c \<le> CHR ''9'')
     \<or> c = CHR ''-'' \<or> c = CHR ''_''"

fun scan_id :: "nat \<Rightarrow> string \<Rightarrow> id_error option" where
  "scan_id n [] = None"
| "scan_id n (c # cs) = (if id_char c then scan_id (n + 1) cs else Some (IdInvalidChar n))"

definition MaxAriaIDLen :: nat where
  "MaxAriaIDLen = 64"

definition ValidateAriaID :: "string \<Rightarrow> id_error option" where
  "ValidateAriaID i =
     (if length i = 0 then Some IdEmpty else if length i > MaxAriaIDLen then Some IdTooLong else scan_id 0 i)"

subsection \<open>The environment reader (\<open>internal/chalkboard/env.go\<close>)\<close>

definition EnvironmentAllowlist :: "string list" where
  "EnvironmentAllowlist = [''FIGARO_WIRE_DIR'']"

definition EnvironmentSnapshot :: "(string \<Rightarrow> rawjson) \<Rightarrow> (string \<Rightarrow> string) \<Rightarrow> snapshot" where
  "EnvironmentSnapshot quote getenv =
     fold (\<lambda>name s. if getenv name = [] then s else fmupd (''system.environment.'' @ to_lower name) (quote (getenv name)) s)
       EnvironmentAllowlist fmempty"

definition EnvironmentPatch :: "(string \<Rightarrow> rawjson) \<Rightarrow> (string \<Rightarrow> string) \<Rightarrow> patch" where
  "EnvironmentPatch quote getenv = \<lparr>p_set = EnvironmentSnapshot quote getenv, p_remove = []\<rparr>"

subsection \<open>Interfaces\<close>

record node_view =
  nv_ID :: string
  nv_Parent :: string
  nv_Kind :: string
  nv_Loadout :: string
  nv_Version :: string
  nv_Frozen :: bool
  nv_Trunk :: string
  nv_Vector :: "int list"
  nv_BranchedLT :: lt

record owner_info =
  ow_Trunk :: string
  ow_Loadout :: string
  ow_IsRoot :: bool

datatype promote_error = AtStump | PromoteFailed string

record 'b backend_ops =
  bo_store :: "string \<Rightarrow> 'b store_ops"
  bo_rows :: "'b \<Rightarrow> string \<Rightarrow> string + message log_entry list"
  bo_chalkboardState :: "'b \<Rightarrow> string \<Rightarrow> string + snapshot"
  bo_applyChalkboard :: "'b \<Rightarrow> string \<Rightarrow> patch \<Rightarrow> string + 'b"
  bo_createLoadout :: "'b \<Rightarrow> string \<Rightarrow> patch \<Rightarrow> (string + string) \<times> 'b"
  bo_createConversation :: "'b \<Rightarrow> string \<Rightarrow> string + (string \<times> 'b)"
  bo_fork :: "'b \<Rightarrow> string \<Rightarrow> string + ((string \<times> string) \<times> 'b)"
  bo_forkAt :: "'b \<Rightarrow> string \<Rightarrow> lt \<Rightarrow> string + ((string \<times> string) \<times> 'b)"
  bo_promote :: "'b \<Rightarrow> string \<Rightarrow> int \<Rightarrow> promote_error + (int \<times> 'b)"
  bo_ownerResolution :: "'b \<Rightarrow> string \<Rightarrow> lt \<Rightarrow> string + owner_info"
  bo_node :: "'b \<Rightarrow> string \<Rightarrow> node_view option"
  bo_nodes :: "'b \<Rightarrow> node_view list"
  bo_conversations :: "'b \<Rightarrow> node_view list"
  bo_conversationIDs :: "'b \<Rightarrow> string list"
  bo_meta :: "'b \<Rightarrow> string \<Rightarrow> aria_meta option"
  bo_setMeta :: "'b \<Rightarrow> string \<Rightarrow> aria_meta \<Rightarrow> string + 'b"
  bo_remove :: "'b \<Rightarrow> string \<Rightarrow> bool \<Rightarrow> string option \<times> 'b"

record knobs =
  kn_Model :: string
  kn_MaxTokens :: int
  kn_ReminderRenderer :: string
  kn_UseOfficialSDK :: bool

record proto_env =
  pe_string :: "rawjson \<Rightarrow> string option"
  pe_int :: "rawjson \<Rightarrow> int option"
  pe_bool :: "rawjson \<Rightarrow> bool option"
  pe_quote :: "string \<Rightarrow> rawjson"
  pe_factory :: "string \<Rightarrow> knobs \<Rightarrow> string option"
  pe_agentEnv :: "string \<Rightarrow> agent_env"
  pe_loadout :: "string \<Rightarrow> string + patch"
  pe_templates :: bool
  pe_cwd :: string
  pe_getenv :: "string \<Rightarrow> string"
  pe_socketDir :: string
  pe_now :: int

record figaro_handle =
  fh_ID :: string
  fh_SocketPath :: string

type_synonym 'b world = "figaro_handle registry \<times> 'b"

datatype proto_error =
    NoDefaultLoadout
  | LoadoutNotFound string string
  | NoProvider string
  | ProviderFailed string
  | BackendFailed string
  | RegistryFailed reg_error
  | NoBackend
  | ChalkboardUnavailable string
  | InvalidID id_error

subsection \<open>Reading a loadout patch or a chalkboard\<close>

text \<open>A missing key, or a value of another JSON type, reads as Go's zero value.\<close>

definition raw_value :: "(rawjson \<Rightarrow> 'v option) \<Rightarrow> 'v \<Rightarrow> snapshot \<Rightarrow> string \<Rightarrow> 'v" where
  "raw_value dec z s k = (case fmlookup s k of None \<Rightarrow> z | Some raw \<Rightarrow> (case dec raw of None \<Rightarrow> z | Some v \<Rightarrow> v))"

definition patchString :: "proto_env \<Rightarrow> patch \<Rightarrow> string \<Rightarrow> string" where
  "patchString E p k = raw_value (pe_string E) [] (p_set p) k"

definition patchInt :: "proto_env \<Rightarrow> patch \<Rightarrow> string \<Rightarrow> int" where
  "patchInt E p k = raw_value (pe_int E) 0 (p_set p) k"

definition patchBool :: "proto_env \<Rightarrow> patch \<Rightarrow> string \<Rightarrow> bool" where
  "patchBool E p k = raw_value (pe_bool E) False (p_set p) k"

definition knobsFromPatch :: "proto_env \<Rightarrow> patch \<Rightarrow> knobs" where
  "knobsFromPatch E p = \<lparr>kn_Model = patchString E p ''system.model'', kn_MaxTokens = patchInt E p ''system.max_tokens'',
     kn_ReminderRenderer = patchString E p ''system.reminder_renderer'', kn_UseOfficialSDK = patchBool E p ''system.use_official_sdk''\<rparr>"

definition runtimeFillins :: "proto_env \<Rightarrow> string \<Rightarrow> string \<Rightarrow> patch" where
  "runtimeFillins E ariaID cwd =
     (let s1 = (if ariaID \<noteq> [] then fmupd ''aria_id'' (pe_quote E ariaID) fmempty else fmempty);
          s2 = fmupd ''system.root'' (pe_quote E cwd) (fmupd ''system.cwd'' (pe_quote E cwd) s1)
      in \<lparr>p_set = s2 ++\<^sub>f p_set (EnvironmentPatch (pe_quote E) (pe_getenv E)), p_remove = []\<rparr>)"

definition convBootPatch :: "proto_env \<Rightarrow> patch option \<Rightarrow> string \<Rightarrow> string \<Rightarrow> patch" where
  "convBootPatch E reqPatch ariaID cwd =
     (let p = runtimeFillins E ariaID cwd
      in case reqPatch of
           None \<Rightarrow> p
         | Some q \<Rightarrow> \<lparr>p_set = p_set p ++\<^sub>f p_set q, p_remove = p_remove p @ p_remove q\<rparr>)"

definition bootPatchEphemeral :: "proto_env \<Rightarrow> patch \<Rightarrow> string \<Rightarrow> string \<Rightarrow> patch" where
  "bootPatchEphemeral E base ariaID cwd =
     (let s = p_set base ++\<^sub>f p_set (runtimeFillins E ariaID cwd);
          s1 = (if fmlookup s ''system.max_tokens'' = None then fmupd ''system.max_tokens'' ''8192'' s else s)
      in \<lparr>p_set = s1, p_remove = p_remove base\<rparr>)"

definition withAriaID :: "proto_env \<Rightarrow> patch \<Rightarrow> string \<Rightarrow> patch" where
  "withAriaID E p ariaID = p\<lparr>p_set := fmupd ''aria_id'' (pe_quote E ariaID) (p_set p)\<rparr>"

text \<open>The working directory the tools of an agent see, read from its chalkboard at every call.\<close>

definition cwdFromChalkboard :: "proto_env \<Rightarrow> snapshot option \<Rightarrow> string \<Rightarrow> string" where
  "cwdFromChalkboard E board fallback =
     (case board of
        None \<Rightarrow> fallback
      | Some s \<Rightarrow> (case snap_Lookup (pe_string E) s ''system.cwd'' of
                     Some d \<Rightarrow> (if d \<noteq> [] then d else fallback)
                   | None \<Rightarrow> fallback))"

subsection \<open>Building and registering an agent\<close>

definition sock_path :: "proto_env \<Rightarrow> string \<Rightarrow> string" where
  "sock_path E i = pe_socketDir E @ ''/'' @ i @ ''.sock''"

text \<open>\<open>NewAgent\<close> on the aria's own log, then \<open>Register\<close>; a refused agent is killed, what it wrote stays.\<close>

definition start_backed ::
  "'b backend_ops \<Rightarrow> proto_env \<Rightarrow> string \<Rightarrow> agent_config \<Rightarrow> 'b world \<Rightarrow> (proto_error + figaro_handle) \<times> 'b world" where
  "start_backed B E provName cfg w =
     (let (r, b) = w;
          b1 = ag_store (NewAgent (bo_store B (cf_ID cfg)) (pe_agentEnv E provName) cfg (pe_now E) b);
          h = \<lparr>fh_ID = cf_ID cfg, fh_SocketPath = cf_SocketPath cfg\<rparr>
      in case rg_Register fh_ID h r of
           (Some e, r1) \<Rightarrow> (Inl (RegistryFailed e), (r1, b1))
         | (None, r1) \<Rightarrow> (Inr h, (r1, b1)))"

definition openAriaChalkboard :: "'b backend_ops option \<Rightarrow> proto_env \<Rightarrow> 'b \<Rightarrow> string \<Rightarrow> snapshot option" where
  "openAriaChalkboard B E b i =
     (case B of
        None \<Rightarrow> None
      | Some ops \<Rightarrow> (if \<not> pe_templates E then None
                    else case bo_chalkboardState ops b i of
                           Inl _ \<Rightarrow> None
                         | Inr snap \<Rightarrow> Some (if fcard (fmdom snap) > 0 then snap_Apply fmempty \<lparr>p_set = snap, p_remove = []\<rparr> else fmempty)))"

definition board_knobs :: "proto_env \<Rightarrow> snapshot \<Rightarrow> knobs" where
  "board_knobs E cb = \<lparr>kn_Model = raw_value (pe_string E) [] cb ''system.model'',
     kn_MaxTokens = raw_value (pe_int E) 0 cb ''system.max_tokens'',
     kn_ReminderRenderer = raw_value (pe_string E) [] cb ''system.reminder_renderer'',
     kn_UseOfficialSDK = raw_value (pe_bool E) False cb ''system.use_official_sdk''\<rparr>"

definition restoreOne :: "'b backend_ops \<Rightarrow> proto_env \<Rightarrow> string \<Rightarrow> 'b world \<Rightarrow> (proto_error + figaro_handle) \<times> 'b world" where
  "restoreOne B E i w =
     (case openAriaChalkboard (Some B) E (snd w) i of
        None \<Rightarrow> (Inl (ChalkboardUnavailable i), w)
      | Some cb \<Rightarrow>
          (let provName = raw_value (pe_string E) [] cb ''system.provider''
           in case pe_factory E provName (board_knobs E cb) of
                Some err \<Rightarrow> (Inl (ProviderFailed err), w)
              | None \<Rightarrow>
                  (let times = (case bo_meta B (snd w) i of
                                  None \<Rightarrow> (None, None)
                                | Some m \<Rightarrow> (if am_CreatedAtMS m \<noteq> 0 then Some (am_CreatedAtMS m) else None,
                                             if am_LastActiveMS m \<noteq> 0 then Some (am_LastActiveMS m) else None))
                   in start_backed B E provName
                        \<lparr>cf_ID = i, cf_SocketPath = sock_path E i, cf_Chalkboard = Some cb, cf_InlineBoot = None,
                         cf_CreatedAt = fst times, cf_LastActive = snd times\<rparr> w)))"

definition restoreByID :: "'b backend_ops option \<Rightarrow> proto_env \<Rightarrow> string \<Rightarrow> 'b world \<Rightarrow> (proto_error + figaro_handle) \<times> 'b world" where
  "restoreByID B E i w =
     (case rg_Get (fst w) i of
        Some f \<Rightarrow> (Inr f, w)
      | None \<Rightarrow> (case B of
                   None \<Rightarrow> (Inl NoBackend, w)
                 | Some ops \<Rightarrow> restoreOne ops E i w))"

subsection \<open>\<open>create\<close>\<close>

record create_request =
  cq_Loadout :: string
  cq_Patch :: "patch option"
  cq_Ephemeral :: bool

text \<open>
  \<open>reloadConfigIfChanged\<close>: a default loadout in memory is kept; otherwise the configuration on disk,
  when there is one that parses, decides.
\<close>

definition reloadConfigIfChanged :: "string option \<Rightarrow> string \<Rightarrow> string" where
  "reloadConfigIfChanged disk mem = (if mem \<noteq> [] then mem else case disk of None \<Rightarrow> mem | Some fresh \<Rightarrow> fresh)"

definition create_base :: "patch \<Rightarrow> patch option \<Rightarrow> patch" where
  "create_base loadoutPatch reqPatch =
     (case reqPatch of
        None \<Rightarrow> loadoutPatch
      | Some q \<Rightarrow> \<lparr>p_set = p_set loadoutPatch ++\<^sub>f p_set q, p_remove = p_remove loadoutPatch @ p_remove q\<rparr>)"

text \<open>The conversation of a backed aria: loadout node, fork, boot transition, current chalkboard.\<close>

definition create_conversation ::
  "'b backend_ops \<Rightarrow> proto_env \<Rightarrow> string \<Rightarrow> patch \<Rightarrow> patch option \<Rightarrow> 'b \<Rightarrow> (string + (string \<times> snapshot)) \<times> 'b" where
  "create_conversation B E name loadoutPatch reqPatch b =
     (case bo_createLoadout B b name loadoutPatch of
        (Inl err, b1) \<Rightarrow> (Inl err, b1)
      | (Inr loadoutID, b1) \<Rightarrow>
          (case bo_createConversation B b1 loadoutID of
             Inl err \<Rightarrow> (Inl err, b1)
           | Inr (i, b2) \<Rightarrow>
               (let boot = convBootPatch E reqPatch i (pe_cwd E)
                in case (if \<not> patch_IsEmpty boot then bo_applyChalkboard B b2 i boot else Inr b2) of
                     Inl err \<Rightarrow> (Inl err, b2)
                   | Inr b3 \<Rightarrow>
                       (case bo_chalkboardState B b3 i of
                          Inl err \<Rightarrow> (Inl err, b3)
                        | Inr snap \<Rightarrow> (Inr (i, snap_Apply fmempty \<lparr>p_set = snap, p_remove = []\<rparr>), b3)))))"

text \<open>\<open>uuid\<close> is the fresh id of an ephemeral aria, whose agent lives on a log of its own.\<close>

definition create ::
  "'b backend_ops option \<Rightarrow> proto_env \<Rightarrow> string option \<Rightarrow> string \<Rightarrow> string \<Rightarrow> create_request \<Rightarrow> 'b world
     \<Rightarrow> (proto_error + (figaro_handle \<times> agent_config)) \<times> 'b world" where
  "create B E disk mem uuid req w =
     (let name = (if cq_Loadout req = [] then reloadConfigIfChanged disk mem else cq_Loadout req)
      in if name = [] then (Inl NoDefaultLoadout, w)
         else case pe_loadout E name of
                Inl err \<Rightarrow> (Inl (LoadoutNotFound name err), w)
              | Inr loadoutPatch \<Rightarrow>
                  (let base = create_base loadoutPatch (cq_Patch req);
                       provName = patchString E base ''system.provider''
                   in if provName = [] then (Inl (NoProvider name), w)
                      else case pe_factory E provName (knobsFromPatch E base) of
                             Some err \<Rightarrow> (Inl (ProviderFailed err), w)
                           | None \<Rightarrow>
                               (case (if cq_Ephemeral req then None else B) of
                                  None \<Rightarrow>
                                    (let boot = withAriaID E (bootPatchEphemeral E base [] (pe_cwd E)) uuid;
                                         cfg = \<lparr>cf_ID = uuid, cf_SocketPath = sock_path E uuid,
                                                cf_Chalkboard = Some (snap_Apply fmempty boot), cf_InlineBoot = Some boot,
                                                cf_CreatedAt = None, cf_LastActive = None\<rparr>;
                                         h = \<lparr>fh_ID = uuid, fh_SocketPath = cf_SocketPath cfg\<rparr>
                                     in case rg_Register fh_ID h (fst w) of
                                          (Some e, r1) \<Rightarrow> (Inl (RegistryFailed e), (r1, snd w))
                                        | (None, r1) \<Rightarrow> (Inr (h, cfg), (r1, snd w)))
                                | Some ops \<Rightarrow>
                                    (case create_conversation ops E name loadoutPatch (cq_Patch req) (snd w) of
                                       (Inl err, b1) \<Rightarrow> (Inl (BackendFailed err), (fst w, b1))
                                     | (Inr (i, cb), b1) \<Rightarrow>
                                         (let cfg = \<lparr>cf_ID = i, cf_SocketPath = sock_path E i, cf_Chalkboard = Some cb,
                                                     cf_InlineBoot = None, cf_CreatedAt = None, cf_LastActive = None\<rparr>
                                          in case start_backed ops E provName cfg (fst w, b1) of
                                               (Inl e, w1) \<Rightarrow> (Inl e, w1)
                                             | (Inr h, w1) \<Rightarrow> (Inr (h, cfg), w1))))))"

subsection \<open>The other requests\<close>

text \<open>\<open>Registry.Kill\<close> without interference.\<close>

definition rg_Kill :: "string \<Rightarrow> 'f registry \<Rightarrow> reg_error option \<times> 'f registry" where
  "rg_Kill i r = (case kill_begin i r of (Inl e, r1) \<Rightarrow> (Some e, r1) | (Inr _, r1) \<Rightarrow> (None, kill_finish i r1))"

definition kill :: "'b backend_ops option \<Rightarrow> string \<Rightarrow> bool \<Rightarrow> 'b world \<Rightarrow> proto_error option \<times> 'b world" where
  "kill B i recursive w =
     (let (err, r1) = (if rg_Get (fst w) i \<noteq> None then rg_Kill i (fst w) else (None, fst w))
      in case err of
           Some e \<Rightarrow> (Some (RegistryFailed e), (r1, snd w))
         | None \<Rightarrow>
             (case B of
                None \<Rightarrow> (None, (r1, snd w))
              | Some ops \<Rightarrow> (case bo_remove ops (snd w) i recursive of
                               (Some e, b1) \<Rightarrow> (Some (BackendFailed e), (r1, b1))
                             | (None, b1) \<Rightarrow> (None, (r1, b1)))))"

definition bind :: "'b backend_ops option \<Rightarrow> proto_env \<Rightarrow> int \<Rightarrow> string \<Rightarrow> lt \<Rightarrow> 'b world \<Rightarrow> proto_error option \<times> 'b world" where
  "bind B E pid i t w =
     (case restoreByID B E i w of
        (Inl e, w1) \<Rightarrow> (Some e, w1)
      | (Inr _, w1) \<Rightarrow>
          (case rg_Bind pid i t (fst w1) of
             (Some e, r2) \<Rightarrow> (Some (RegistryFailed e), (r2, snd w1))
           | (None, r2) \<Rightarrow> (None, (r2, snd w1))))"

definition attach :: "'b backend_ops option \<Rightarrow> proto_env \<Rightarrow> string \<Rightarrow> 'b world \<Rightarrow> (proto_error + string) \<times> 'b world" where
  "attach B E i w =
     (case ValidateAriaID i of
        Some e \<Rightarrow> (Inl (InvalidID e), w)
      | None \<Rightarrow> (case restoreByID B E i w of
                   (Inl e, w1) \<Rightarrow> (Inl e, w1)
                 | (Inr h, w1) \<Rightarrow> (Inr (fh_SocketPath h), w1)))"

text \<open>\<open>Found\<close> with the id, the socket and the fork point, or not found.\<close>

definition resolve :: "int \<Rightarrow> figaro_handle registry \<Rightarrow> (string \<times> string \<times> lt) option" where
  "resolve pid r =
     (case rg_Resolve r pid of
        (i, None, t) \<Rightarrow> None
      | (i, Some f, t) \<Rightarrow> Some (i, fh_SocketPath f, t))"

definition promote :: "'b backend_ops option \<Rightarrow> string \<Rightarrow> int \<Rightarrow> 'b \<Rightarrow> (string option + (int \<times> bool)) \<times> 'b" where
  "promote B i levels b =
     (case B of
        None \<Rightarrow> (Inl None, b)
      | Some ops \<Rightarrow>
          (case bo_promote ops b i levels of
             Inl AtStump \<Rightarrow> (Inr (0, True), b)
           | Inl (PromoteFailed e) \<Rightarrow> (Inl (Some e), b)
           | Inr (climbed, b1) \<Rightarrow> (Inr (climbed, False), b1)))"

text \<open>How the restorer looks to \<open>RestoreBindings\<close> (\<open>Handlers.Restore\<close>).\<close>

definition restore_error :: "'b backend_ops option \<Rightarrow> proto_env \<Rightarrow> string \<Rightarrow> 'b world \<Rightarrow> proto_error option \<times> 'b world" where
  "restore_error B E i w = (case restoreByID B E i w of (Inl e, w1) \<Rightarrow> (Some e, w1) | (Inr _, w1) \<Rightarrow> (None, w1))"

subsection \<open>Reviving arias meets the restorer's contract\<close>

text \<open>
  What reviving relies on from the backend: the calls an agent makes while it starts (the repair
  of the tail, the summary) leave the chalkboard of every aria alone.
\<close>

locale board_backend =
  fixes B :: "'b backend_ops"
  assumes append_board: "so_append (bo_store B i) b e = Inr (e', b') \<Longrightarrow> bo_chalkboardState B b' j = bo_chalkboardState B b j"
    and meta_board: "bo_chalkboardState B (so_setMeta (bo_store B i) b m) j = bo_chalkboardState B b j"
begin

lemma repair_board:
  "bo_chalkboardState B (snd (repairInterruptedTail (so_peek (bo_store B i)) (so_append (bo_store B i)) now b)) j = bo_chalkboardState B b j"
  by (auto simp: repairInterruptedTail_def Let_def append_board split: option.split sum.split)

lemma NewAgent_board: "bo_chalkboardState B (ag_store (NewAgent (bo_store B i) env cfg now b)) j = bo_chalkboardState B b j"
  by (simp add: NewAgent_def Let_def publishMetadata_def meta_board repair_board)

end

text \<open>An aria can be revived when its chalkboard is readable and its provider can be built.\<close>

definition revivable :: "'b backend_ops \<Rightarrow> proto_env \<Rightarrow> 'b \<Rightarrow> string \<Rightarrow> bool" where
  "revivable B E b i \<longleftrightarrow>
     (case openAriaChalkboard (Some B) E b i of
        None \<Rightarrow> False
      | Some cb \<Rightarrow> pe_factory E (raw_value (pe_string E) [] cb ''system.provider'') (board_knobs E cb) = None)"

definition can_restore :: "'b backend_ops \<Rightarrow> proto_env \<Rightarrow> 'b world \<Rightarrow> string \<Rightarrow> bool" where
  "can_restore B E w i \<longleftrightarrow> rg_Get (fst w) i \<noteq> None \<or> (\<not> rg_draining (fst w) \<and> revivable B E (snd w) i)"

lemma start_backed_cases:
  assumes "start_backed B E prov cfg w = (res, w')"
  shows "fst w' = snd (rg_Register fh_ID \<lparr>fh_ID = cf_ID cfg, fh_SocketPath = cf_SocketPath cfg\<rparr> (fst w))"
    and "snd w' = ag_store (NewAgent (bo_store B (cf_ID cfg)) (pe_agentEnv E prov) cfg (pe_now E) (snd w))"
    and "(\<exists>h. res = Inr h) \<longleftrightarrow> \<not> rg_draining (fst w) \<and> rg_Get (fst w) (cf_ID cfg) = None"
    and "res = Inr h \<Longrightarrow> fh_ID h = cf_ID cfg \<and> rg_Get (fst w') (cf_ID cfg) = Some h"
  using assms by (auto simp: start_backed_def split_beta Let_def rg_Register_def rg_Get_def split: option.splits if_splits)

lemma restoreOne_cases:
  obtains (fails) e where "restoreOne B E i w = (Inl e, w)" "\<not> revivable B E (snd w) i"
    | (starts) cfg prov where "restoreOne B E i w = start_backed B E prov cfg w" "cf_ID cfg = i" "revivable B E (snd w) i"
proof (cases "revivable B E (snd w) i")
  case True
  then show ?thesis using that(2)
    by (auto simp: revivable_def restoreOne_def Let_def split: option.splits)
next
  case False
  then show ?thesis using that(1)
    by (auto simp: revivable_def restoreOne_def Let_def split: option.splits)
qed

lemma Register_keeps:
  "rg_pidToFigaro (snd (rg_Register ID f r)) = rg_pidToFigaro r" "rg_pidToLT (snd (rg_Register ID f r)) = rg_pidToLT r"
  "rg_draining (snd (rg_Register ID f r)) = rg_draining r"
  "rg_Get r j = Some g \<Longrightarrow> rg_Get (snd (rg_Register ID f r)) j = Some g"
  by (auto simp: rg_Register_def rg_Get_def)

lemma Bind_keeps: "rg_Get (snd (rg_Bind pid i t r)) j = rg_Get r j" "rg_draining (snd (rg_Bind pid i t r)) = rg_draining r"
  by (simp_all add: rg_Bind_def rg_Get_def unbindLocked_def Let_def split: option.split)

context board_backend
begin

lemma revivable_new: "revivable B E (ag_store (NewAgent (bo_store B i) env cfg now b)) j = revivable B E b j"
  by (simp add: revivable_def openAriaChalkboard_def NewAgent_board)

text \<open>Everything a revival does to the world, in one lemma.\<close>

lemma restore_error_effect:
  assumes "restore_error (Some B) E i w = (err, w')"
  shows "(err = None \<longrightarrow> rg_Get (fst w') i \<noteq> None) \<and> (can_restore B E w i \<longrightarrow> err = None)
    \<and> (fst w' = fst w \<or> (\<exists>h. fst w' = snd (rg_Register fh_ID h (fst w)))) \<and> (\<forall>j. revivable B E (snd w') j = revivable B E (snd w) j)"
proof (cases "rg_Get (fst w) i")
  case (Some f)
  then show ?thesis using assms by (simp add: restore_error_def restoreByID_def)
next
  case None
  obtain res w1 where r: "restoreOne B E i w = (res, w1)" by (metis prod.exhaust)
  have out: "w' = w1" "err = None \<longleftrightarrow> (\<exists>h. res = Inr h)"
    using assms None r by (auto simp: restore_error_def restoreByID_def split: sum.splits)
  show ?thesis
  proof (cases rule: restoreOne_cases [of B E i w])
    case (fails e)
    then show ?thesis using out r None by (auto simp: can_restore_def)
  next
    case (starts cfg prov)
    then have s: "start_backed B E prov cfg w = (res, w1)" using r by simp
    note sb = start_backed_cases [OF s]
    have "revivable B E (snd w1) j = revivable B E (snd w) j" for j using sb(2) revivable_new by simp
    moreover have "res = Inr h \<Longrightarrow> rg_Get (fst w1) i \<noteq> None" for h using sb(4) starts(2) by auto
    ultimately show ?thesis using out sb(1,3) None starts(2,3) by (auto simp: can_restore_def)
  qed
qed

end

sublocale board_backend \<subseteq> restorer: aria_restorer fh_ID "restore_error (Some B) E" "can_restore B E" for E
proof
  fix i j :: string and w w' :: "'b world" and r :: "figaro_handle registry" and b :: 'b and pid t
  obtain err w1 where rs: "restore_error (Some B) E i w = (err, w1)" by (metis prod.exhaust)
  note eff = restore_error_effect [OF rs]
  show "restore_error (Some B) E i w = (None, w') \<Longrightarrow> fmlookup (rg_figaros (fst w')) i \<noteq> None"
    using eff rs by (simp add: rg_Get_def)
  show "reg_inv fh_ID (fst w) \<Longrightarrow> reg_inv fh_ID (fst (snd (restore_error (Some B) E i w)))"
    using eff rs Register_inv by fastforce
  show "bt_at (table_of (fst (snd (restore_error (Some B) E i w)))) = bt_at (table_of (fst w))"
    using eff rs by (auto simp: table_of_def lt_of_def Register_keeps fun_eq_iff)
  show "can_restore B E w i \<Longrightarrow> fst (restore_error (Some B) E i w) = None" using eff rs by simp
  show "can_restore B E w j \<Longrightarrow> can_restore B E (snd (restore_error (Some B) E i w)) j"
    using eff rs by (auto simp: can_restore_def Register_keeps)
  show "can_restore B E (r, b) j \<Longrightarrow> can_restore B E (snd (rg_Bind pid i t r), b) j"
    by (simp add: can_restore_def Bind_keeps)
qed

context board_backend
begin

lemmas restored_bindings = restorer.restore_bindings_fold

end

subsection \<open>A backend in memory\<close>

text \<open>
  Arias by id, each with its log, board and summary; the board an aria inherited from its loadout is
  its first patch. Calls on an unknown aria fail.
\<close>

record mem_backend =
  mb_arias :: "(string, kept_store) fmap"
  mb_next :: nat

definition kept_empty :: "(lt \<times> patch) list \<Rightarrow> kept_store" where
  "kept_empty ps = \<lparr>kp_log = NewMemLog, kp_board = ps, kp_cache = [], kp_meta = None\<rparr>"

definition on_aria :: "mem_backend \<Rightarrow> string \<Rightarrow> 'v \<Rightarrow> (kept_store \<Rightarrow> 'v) \<Rightarrow> 'v" where
  "on_aria b i z f = (case fmlookup (mb_arias b) i of None \<Rightarrow> z | Some s \<Rightarrow> f s)"

definition put_aria :: "mem_backend \<Rightarrow> string \<Rightarrow> kept_store \<Rightarrow> mem_backend" where
  "put_aria b i s = b\<lparr>mb_arias := fmupd i s (mb_arias b)\<rparr>"

definition mem_aria :: "string \<Rightarrow> mem_backend store_ops" where
  "mem_aria i = \<lparr>so_read = (\<lambda>b. on_aria b i [] (so_read kept_ops)),
     so_append = (\<lambda>b e. on_aria b i (Inl ''no such aria'')
        (\<lambda>s. case so_append kept_ops s e of Inl err \<Rightarrow> Inl err | Inr (e', s') \<Rightarrow> Inr (e', put_aria b i s'))),
     so_peek = (\<lambda>b. on_aria b i None (so_peek kept_ops)), so_readFrom = (\<lambda>b k. on_aria b i [] (\<lambda>s. so_readFrom kept_ops s k)),
     so_backed = True,
     so_applyChalkboard = (\<lambda>b p. on_aria b i (Inl ''no such aria'')
        (\<lambda>s. case so_applyChalkboard kept_ops s p of Inl err \<Rightarrow> Inl err | Inr s' \<Rightarrow> Inr (put_aria b i s'))),
     so_cacheAppend = (\<lambda>b k c. on_aria b i (Inl ''no such aria'')
        (\<lambda>s. case so_cacheAppend kept_ops s k c of Inl err \<Rightarrow> Inl err | Inr s' \<Rightarrow> Inr (put_aria b i s'))),
     so_setMeta = (\<lambda>b m. on_aria b i b (\<lambda>s. put_aria b i (so_setMeta kept_ops s m)))\<rparr>"

definition mem_board :: "mem_backend \<Rightarrow> string \<Rightarrow> string + snapshot" where
  "mem_board b i = on_aria b i (Inl ''no such aria'') (\<lambda>s. Inr (foldl snap_Apply fmempty (map snd (kp_board s))))"

definition mem_new :: "string \<Rightarrow> (lt \<times> patch) list \<Rightarrow> mem_backend \<Rightarrow> string \<times> mem_backend" where
  "mem_new pre ps b =
     (let i = pre @ show_nat (mb_next b) in (i, put_aria (b\<lparr>mb_next := mb_next b + 1\<rparr>) i (kept_empty ps)))"

definition mem_backend :: "mem_backend backend_ops" where
  "mem_backend = \<lparr>bo_store = mem_aria, bo_rows = (\<lambda>b i. on_aria b i (Inl ''no such aria'') (\<lambda>s. Inr (so_read kept_ops s))),
     bo_chalkboardState = mem_board,
     bo_applyChalkboard = (\<lambda>b i p. so_applyChalkboard (mem_aria i) b p),
     bo_createLoadout = (\<lambda>b name p. apfst Inr (mem_new ''l'' [(1, p)] b)),
     bo_createConversation = (\<lambda>b l. on_aria b l (Inl ''no such loadout'') (\<lambda>s. Inr (mem_new ''c'' (kp_board s) b))),
     bo_fork = (\<lambda>b i. on_aria b i (Inl ''no such aria'')
        (\<lambda>s. let (alt, b') = mem_new ''c'' (kp_board s) b in Inr ((i, alt), put_aria b' alt s))),
     bo_forkAt = (\<lambda>b i t. Inl ''not supported''), bo_promote = (\<lambda>b i n. Inl AtStump),
     bo_ownerResolution = (\<lambda>b i t. Inr \<lparr>ow_Trunk = i, ow_Loadout = [], ow_IsRoot = False\<rparr>),
     bo_node = (\<lambda>b i. None), bo_nodes = (\<lambda>b. []), bo_conversations = (\<lambda>b. []),
     bo_conversationIDs = (\<lambda>b. fmkeys (mb_arias b)), bo_meta = (\<lambda>b i. on_aria b i None kp_meta),
     bo_setMeta = (\<lambda>b i m. Inr (so_setMeta (mem_aria i) b m)), bo_remove = (\<lambda>b i rec. (None, b\<lparr>mb_arias := fmdrop i (mb_arias b)\<rparr>))\<rparr>"

interpretation in_memory: board_backend mem_backend
proof
  fix i j :: string and b b' :: mem_backend and e e' m
  show "so_append (bo_store mem_backend i) b e = Inr (e', b') \<Longrightarrow>
    bo_chalkboardState mem_backend b' j = bo_chalkboardState mem_backend b j"
    by (auto simp: mem_backend_def mem_aria_def mem_board_def on_aria_def put_aria_def kept_ops_def mem_ops_def ml_Append_def
        split: option.splits prod.splits if_splits)
  show "bo_chalkboardState mem_backend (so_setMeta (bo_store mem_backend i) b m) j = bo_chalkboardState mem_backend b j"
    by (simp add: mem_backend_def mem_aria_def mem_board_def on_aria_def put_aria_def kept_ops_def split: option.split)
qed

subsection \<open>Properties\<close>

text \<open>
  C16: Bindings survive a restart of the supervisor exactly for the shells that survive it. After a save,
  and a restore into a new registry, a shell is bound only where it was bound, only if its process
  still runs and is the one that was saved, and with no pending fork point; it is bound whenever in
  addition its aria can be revived. Every saved binding is counted as restored or skipped, and the
  file is gone. \<open>roundtrip\<close> is what the code relies on from \<open>encoding/json\<close>.
\<close>

theorem bindings_survive_restart:
  assumes "board_backend B" and "reg_reachable fh_ID r"
    and roundtrip: "\<And>es d. marshal es = Some d \<Longrightarrow> unmarshal d = Some es"
    and save: "SaveBindings fh_ID proc marshal faults (Some r) path files = (None, files1)"
    and "\<not> read_fault faults'"
    and run: "RestoreBindings alive proc' unmarshal faults' (Some (restore_error (Some B) E)) path files1 (NewRegistry, b) = (((n, k), w'), files2)"
  shows "(bt_at (table_of (fst w')) pid = Some (i, t) \<longrightarrow> t = 0 \<and> bt_at (table_of r) pid = Some (i, lt_of r pid)
        \<and> alive pid \<and> (pidStartTime proc pid = 0 \<or> pidStartTime proc' pid = pidStartTime proc pid))
    \<and> (bt_at (table_of r) pid = Some (i, t) \<and> alive pid \<and> pidStartTime proc' pid = pidStartTime proc pid \<and> revivable B E b i
        \<longrightarrow> bt_at (table_of (fst w')) pid = Some (i, 0))
    \<and> n + k = BoundPIDCount r \<and> fmlookup files2 path = None"
proof -
  note inv = reachable_inv [OF assms(2)]
  let ?es = "binding_entries fh_ID (pidStartTime proc) r"
  obtain data where data: "marshal ?es = Some data" "fmlookup files1 path = Some data" by (rule SaveBindings_file [OF save])
  have fld: "fold (restore_binding alive (pidStartTime proc') (Some (restore_error (Some B) E))) ?es ((0, 0), (NewRegistry, b)) = ((n, k), w')"
    and files: "fmlookup files2 path = None"
    using run assms(5) data roundtrip [OF data(1)] by (auto simp: RestoreBindings_def)
  have empty: "bt_at (table_of (NewRegistry :: figaro_handle registry)) pid = None" by (simp add: NewRegistry_def)
  have new: "reg_inv fh_ID (fst (NewRegistry :: figaro_handle registry, b))" by (simp add: NewRegistry_inv)
  note F = board_backend.restored_bindings [OF assms(1) new binding_entries_pids(1) [OF inv] fld]
  note iff = binding_entries_iff [OF inv, where start = "pidStartTime proc"]
  have "t = 0 \<and> bt_at (table_of r) pid = Some (i, lt_of r pid)
        \<and> alive pid \<and> (pidStartTime proc pid = 0 \<or> pidStartTime proc' pid = pidStartTime proc pid)"
    if at: "bt_at (table_of (fst w')) pid = Some (i, t)"
  proof -
    from F empty have "bt_at (table_of (fst w')) pid = None
      \<or> (\<exists>e \<in> set ?es. be_PID e = pid \<and> survives alive (pidStartTime proc') e \<and> bt_at (table_of (fst w')) pid = Some (be_FigaroID e, 0))"
      by (metis fst_conv)
    with at obtain e where "e \<in> set ?es" "be_PID e = pid" "survives alive (pidStartTime proc') e" "i = be_FigaroID e" "t = 0"
      by auto
    then show ?thesis using iff [of e] by (auto simp: survives_def)
  qed
  moreover have "bt_at (table_of (fst w')) pid = Some (i, 0)"
    if at: "bt_at (table_of r) pid = Some (i, t)" and sv: "alive pid" "pidStartTime proc' pid = pidStartTime proc pid" "revivable B E b i"
  proof -
    let ?e = "\<lparr>be_PID = pid, be_FigaroID = i, be_StartTime = pidStartTime proc pid\<rparr>"
    have "?e \<in> set ?es" using at iff [of ?e] by auto
    moreover have "survives alive (pidStartTime proc') ?e" using sv by (simp add: survives_def)
    moreover have "can_restore B E (NewRegistry, b) i" using sv(3) by (simp add: can_restore_def NewRegistry_def)
    ultimately show ?thesis using F by fastforce
  qed
  moreover have "n + k = BoundPIDCount r" using F binding_entries_pids(2) [OF inv, of "pidStartTime proc"] by simp
  ultimately show ?thesis using files by blast
qed


text \<open>An environment for examples: strings stand for their own JSON, every provider can be built.\<close>

definition plain_proto :: proto_env where
  "plain_proto = \<lparr>pe_string = Some, pe_int = (\<lambda>_. None), pe_bool = (\<lambda>_. None), pe_quote = (\<lambda>s. s), pe_factory = (\<lambda>_ _. None),
     pe_agentEnv = (\<lambda>_. plain_env), pe_loadout = (\<lambda>_. Inr \<lparr>p_set = fmap_of_list [(''system.provider'', ''p'')], p_remove = []\<rparr>),
     pe_templates = True, pe_cwd = ''/tmp'', pe_getenv = (\<lambda>_. []), pe_socketDir = ''/run'', pe_now = 0\<rparr>"

definition one_aria :: mem_backend where
  "one_aria = \<lparr>mb_arias = fmupd ''a'' (kept_empty []) fmempty, mb_next = 1\<rparr>"

definition one_binding :: "figaro_handle registry" where
  "one_binding = snd (rg_Bind 7 ''a'' 3 (snd (rg_Register fh_ID \<lparr>fh_ID = ''a'', fh_SocketPath = ''a.sock''\<rparr> NewRegistry)))"

lemma one_binding_reachable: "reg_reachable fh_ID one_binding"
  unfolding one_binding_def
  by (rule reg_reachable.step [OF reg_reachable.step [OF reg_reachable.new reg_step.register] reg_step.bind_pid])

lemma one_binding_at: "bt_at (table_of one_binding) pid = (if pid = 7 then Some (''a'', 3) else None)"
  by (simp add: one_binding_def rg_Bind_def rg_Register_def NewRegistry_def unbindLocked_def Let_def lt_of_def)

lemma one_binding_entries: "binding_entries fh_ID (\<lambda>_. 0) one_binding = [\<lparr>be_PID = 7, be_FigaroID = ''a'', be_StartTime = 0\<rparr>]"
proof -
  let ?es = "binding_entries fh_ID (\<lambda>_. 0) one_binding"
  note inv = reachable_inv [OF one_binding_reachable]
  have pid: "fmlookup (rg_pidToFigaro one_binding) p = (if p = 7 then Some ''a'' else None)" for p
    by (simp add: one_binding_def rg_Bind_def rg_Register_def NewRegistry_def unbindLocked_def Let_def)
  have "rg_pidToFigaro one_binding = fmupd 7 ''a'' fmempty" by (rule fmap_ext) (simp add: pid)
  then have len: "length ?es = 1" using binding_entries_pids(2) [OF inv, of "\<lambda>_. 0"] by (simp add: BoundPIDCount_def fcard.rep_eq)
  have "\<lparr>be_PID = 7, be_FigaroID = ''a'', be_StartTime = 0\<rparr> \<in> set ?es" by (simp add: binding_entries_iff [OF inv] pid)
  with len show ?thesis by (cases ?es) auto
qed

theorem bindings_survive_restart_witness:
  "let marshal = (\<lambda>es. if es = [\<lparr>be_PID = 7, be_FigaroID = ''a'', be_StartTime = 0\<rparr>] then Some ''x'' else None);
       unmarshal = (\<lambda>d. if d = ''x'' then Some [\<lparr>be_PID = 7, be_FigaroID = ''a'', be_StartTime = 0\<rparr>] else None);
       faults = \<lparr>read_fault = False, mkdir_fault = False, write_fault = None, rename_fault = False\<rparr>;
       files = snd (SaveBindings fh_ID (\<lambda>_. None) marshal faults (Some one_binding) ''p'' fmempty);
       r = RestoreBindings (\<lambda>_. True) (\<lambda>_. None) unmarshal faults (Some (restore_error (Some mem_backend) plain_proto)) ''p'' files (NewRegistry, one_aria)
   in bt_at (table_of (fst (snd (fst r)))) 7 = Some (''a'', 0)"
proof -
  let ?e = "\<lparr>be_PID = 7, be_FigaroID = ''a'', be_StartTime = 0\<rparr>"
  let ?m = "\<lambda>es. if es = [?e] then Some ''x'' else None"
  let ?u = "\<lambda>d. if d = ''x'' then Some [?e] else None"
  let ?f = "\<lparr>read_fault = False, mkdir_fault = False, write_fault = None, rename_fault = False\<rparr>"
  let ?files = "snd (SaveBindings fh_ID (\<lambda>_. None) ?m ?f (Some one_binding) ''p'' fmempty)"
  let ?r = "RestoreBindings (\<lambda>_. True) (\<lambda>_. None) ?u ?f (Some (restore_error (Some mem_backend) plain_proto)) ''p'' ?files (NewRegistry, one_aria)"
  have st: "pidStartTime (\<lambda>_. None) = (\<lambda>_. 0)" by (simp add: pidStartTime_def fun_eq_iff)
  have save: "SaveBindings fh_ID (\<lambda>_. None) ?m ?f (Some one_binding) ''p'' fmempty = (None, ?files)"
    by (simp add: SaveBindings_def st one_binding_entries Let_def)
  obtain n k w' files2 where run: "?r = (((n, k), w'), files2)" by (metis prod.exhaust)
  have "?m es = Some d \<Longrightarrow> ?u d = Some es" for es d by (simp split: if_splits)
  moreover have "revivable mem_backend plain_proto one_aria ''a''"
    by (simp add: revivable_def openAriaChalkboard_def plain_proto_def mem_backend_def mem_board_def on_aria_def one_aria_def kept_empty_def)
  ultimately have "bt_at (table_of (fst w')) 7 = Some (''a'', 0)"
    using bindings_survive_restart [OF in_memory.board_backend_axioms one_binding_reachable _ save _ run, of 7 "''a''" 3]
    by (simp add: one_binding_at st del: table_of_sel)
  then show ?thesis unfolding Let_def run by simp
qed

end
