(* ===== verification/Figwal.thy ===== *)
theory Figwal
  imports Protocol
begin

section \<open>The write-ahead log library under the store (\<open>figwal/xwal\<close>)\<close>

text \<open>
  The store keeps its arias in a forest of write-ahead logs, the module \<open>figwal/xwal\<close>, which is
  not part of the repository. Here is its interface as the store calls it: a state \<open>'w\<close> with the
  operations \<open>figwal\<close>, and the contract \<open>figwal_store\<close> the store relies on, as the comments in
  \<open>xwal_store.go\<close>, \<open>xwal_log.go\<close> and \<open>xwal_backend.go\<close> state it. A trunk is addressed by its id, the
  id of the aria; the handle that \<open>Head\<close> returns is used and closed inside one call, so the reads
  on a handle are reads of the trunk. A trunk has channels of records; the main channel is the
  message log. The last section is a forest in memory that keeps the contract.
\<close>

subsection \<open>The interface\<close>

record xwal_record =
  xr_ChannelLT :: lt
  xr_MainLT :: lt
  xr_Payload :: string
  xr_Meta :: string

record channel_info =
  ch_Name :: string
  ch_First :: lt
  ch_Last :: lt

record trunk_info =
  tr_ID :: string
  tr_Parent :: string
  tr_Stump :: string
  tr_BranchedLT :: lt

record trunk_owner =
  xo_Trunk :: string
  xo_Stump :: string
  xo_IsRoot :: bool

text \<open>An error is its text; an operation that fails leaves the forest as it was.\<close>

record 'w figwal =
  fw_Head :: "'w \<Rightarrow> string \<Rightarrow> string option"
  fw_Channels :: "'w \<Rightarrow> string \<Rightarrow> channel_info list"
  fw_ReadAt :: "'w \<Rightarrow> string \<Rightarrow> string \<Rightarrow> lt \<Rightarrow> string + xwal_record"
  fw_Lookup :: "'w \<Rightarrow> string \<Rightarrow> string \<Rightarrow> lt \<Rightarrow> string + xwal_record option"
  fw_Append :: "'w \<Rightarrow> string \<Rightarrow> string \<Rightarrow> lt \<Rightarrow> string \<Rightarrow> string \<Rightarrow> string + (lt \<times> 'w)"
  fw_Clear :: "'w \<Rightarrow> string \<Rightarrow> string \<Rightarrow> string + 'w"
  fw_Version :: "'w \<Rightarrow> nat"
  fw_ListLight :: "'w \<Rightarrow> trunk_info list"
  fw_Stumps :: "'w \<Rightarrow> string list"
  fw_CreateStump :: "'w \<Rightarrow> string \<Rightarrow> string + 'w"
  fw_StumpHead :: "'w \<Rightarrow> string \<Rightarrow> string option"
  fw_StumpAppendMain :: "'w \<Rightarrow> string \<Rightarrow> string \<Rightarrow> string + (lt \<times> 'w)"
  fw_StumpAppend :: "'w \<Rightarrow> string \<Rightarrow> string \<Rightarrow> lt \<Rightarrow> string \<Rightarrow> string + (lt \<times> 'w)"
  fw_FlushCoherent :: "'w \<Rightarrow> string \<Rightarrow> string option"
  fw_SpawnUnderStump :: "'w \<Rightarrow> string \<Rightarrow> string + (string \<times> 'w)"
  fw_SpawnUnderRoot :: "'w \<Rightarrow> string + (string \<times> 'w)"
  fw_ForkTail :: "'w \<Rightarrow> string \<Rightarrow> string + (string \<times> 'w)"
  fw_ForkAt :: "'w \<Rightarrow> string \<Rightarrow> lt \<Rightarrow> string + (string \<times> 'w)"
  fw_Owner :: "'w \<Rightarrow> string \<Rightarrow> lt \<Rightarrow> string + trunk_owner"
  fw_Promote :: "'w \<Rightarrow> string \<Rightarrow> int \<Rightarrow> promote_error + (int \<times> 'w)"
  fw_Remove :: "'w \<Rightarrow> string \<Rightarrow> bool \<Rightarrow> string + 'w"

abbreviation chanIR :: string where "chanIR \<equiv> ''ir''"
abbreviation chanChalkboard :: string where "chanChalkboard \<equiv> ''chalkboard''"

subsection \<open>What is in a channel\<close>

text \<open>
  The bounds of a channel as \<open>Channels\<close> reports them: an absent channel is empty, and \<open>first = 0\<close>
  with \<open>last > 0\<close> means that the records start at 1.
\<close>

definition channel_bounds :: "'w figwal \<Rightarrow> 'w \<Rightarrow> string \<Rightarrow> string \<Rightarrow> lt \<times> lt" where
  "channel_bounds F w i ch =
     (case find (\<lambda>c. ch_Name c = ch) (fw_Channels F w i) of
        None \<Rightarrow> (0, 0)
      | Some c \<Rightarrow> (if ch_First c = 0 \<and> ch_Last c > 0 then 1 else ch_First c, ch_Last c))"

definition times_of :: "lt \<times> lt \<Rightarrow> lt list" where
  "times_of fl = (if fst fl = 0 then [] else [fst fl..<Suc (snd fl)])"

definition read_ok :: "'w figwal \<Rightarrow> 'w \<Rightarrow> string \<Rightarrow> string \<Rightarrow> lt \<Rightarrow> xwal_record list" where
  "read_ok F w i ch t = (case fw_ReadAt F w i ch t of Inr r \<Rightarrow> [r] | Inl _ \<Rightarrow> [])"

definition records :: "'w figwal \<Rightarrow> 'w \<Rightarrow> string \<Rightarrow> string \<Rightarrow> xwal_record list" where
  "records F w i ch = concat (map (read_ok F w i ch) (times_of (channel_bounds F w i ch)))"

definition trunk_live :: "'w figwal \<Rightarrow> 'w \<Rightarrow> string \<Rightarrow> bool" where
  "trunk_live F w i \<longleftrightarrow> fw_Head F w i = None"

text \<open>The time the next message of a trunk will have.\<close>

definition next_main :: "'w figwal \<Rightarrow> 'w \<Rightarrow> string \<Rightarrow> lt" where
  "next_main F w i = (if records F w i chanIR = [] then 1 else xr_ChannelLT (last (records F w i chanIR)) + 1)"

subsection \<open>The contract\<close>

text \<open>The version of the forest never goes back, and while it stays the listings stay.\<close>

definition same_tree :: "'w figwal \<Rightarrow> 'w \<Rightarrow> 'w \<Rightarrow> bool" where
  "same_tree F w w' \<longleftrightarrow> fw_Version F w \<le> fw_Version F w'
     \<and> (fw_Version F w' = fw_Version F w \<longrightarrow> fw_ListLight F w' = fw_ListLight F w \<and> fw_Stumps F w' = fw_Stumps F w)"

definition keeps_records :: "'w figwal \<Rightarrow> 'w \<Rightarrow> 'w \<Rightarrow> bool" where
  "keeps_records F w w' \<longleftrightarrow> (\<forall>j ch. trunk_live F w j \<longrightarrow> trunk_live F w' j \<longrightarrow> records F w' j ch = records F w j ch)"

definition same_trunks :: "'w figwal \<Rightarrow> 'w \<Rightarrow> 'w \<Rightarrow> bool" where
  "same_trunks F w w' \<longleftrightarrow> (\<forall>j. trunk_live F w' j = trunk_live F w j) \<and> keeps_records F w w' \<and> same_tree F w w'"

definition new_trunk :: "'w figwal \<Rightarrow> 'w \<Rightarrow> string \<Rightarrow> 'w \<Rightarrow> bool" where
  "new_trunk F w i w' \<longleftrightarrow> \<not> trunk_live F w i \<and> (\<forall>j. trunk_live F w' j \<longleftrightarrow> trunk_live F w j \<or> j = i) \<and> keeps_records F w w' \<and> same_tree F w w'"

text \<open>One channel of one trunk changes, to \<open>rs\<close>.\<close>

definition sets_channel :: "'w figwal \<Rightarrow> 'w \<Rightarrow> string \<Rightarrow> string \<Rightarrow> xwal_record list \<Rightarrow> 'w \<Rightarrow> bool" where
  "sets_channel F w i ch rs w' \<longleftrightarrow> trunk_live F w i \<and> (\<forall>j. fw_Head F w' j = fw_Head F w j) \<and> same_tree F w w'
     \<and> (\<forall>j c. trunk_live F w j \<longrightarrow> records F w' j c = (if j = i \<and> c = ch then rs else records F w j c))"

locale figwal_store =
  fixes F :: "'w figwal"
  assumes readable: "trunk_live F w i \<Longrightarrow> t \<in> set (times_of (channel_bounds F w i ch)) \<Longrightarrow> \<exists>r. fw_ReadAt F w i ch t = Inr r"
    and main_times: "trunk_live F w i \<Longrightarrow> sorted_wrt (<) (map xr_ChannelLT (records F w i chanIR))
      \<and> (\<forall>r \<in> set (records F w i chanIR). xr_MainLT r = xr_ChannelLT r \<and> xr_ChannelLT r > 0)"
    and append_main: "fw_Append F w i chanIR k p m = Inr (t, w') \<Longrightarrow> t = next_main F w i"
    and append_records: "fw_Append F w i ch k p m = Inr (t, w') \<Longrightarrow>
      sets_channel F w i ch (records F w i ch @ [\<lparr>xr_ChannelLT = t,
        xr_MainLT = (if ch = chanIR then t else if k = 0 then next_main F w i else k), xr_Payload = p, xr_Meta = m\<rparr>]) w'"
    and clear_records: "fw_Clear F w i ch = Inr w' \<Longrightarrow> sets_channel F w i ch [] w'"
    and stump_created: "fw_CreateStump F w s = Inr w' \<Longrightarrow> same_trunks F w w' \<and> set (fw_Stumps F w') = insert s (set (fw_Stumps F w))"
    and stump_main: "fw_StumpAppendMain F w s p = Inr (t, w') \<Longrightarrow> same_trunks F w w' \<and> set (fw_Stumps F w') = set (fw_Stumps F w)"
    and stump_append: "fw_StumpAppend F w s ch k p = Inr (t, w') \<Longrightarrow> same_trunks F w w' \<and> set (fw_Stumps F w') = set (fw_Stumps F w)"
    and spawned: "fw_SpawnUnderStump F w s = Inr (i, w') \<Longrightarrow> new_trunk F w i w'"
    and spawned_root: "fw_SpawnUnderRoot F w = Inr (i, w') \<Longrightarrow> new_trunk F w i w'"
    and forked: "fw_ForkTail F w j = Inr (i, w') \<Longrightarrow> new_trunk F w i w'"
    and forked_at: "fw_ForkAt F w j k = Inr (i, w') \<Longrightarrow> new_trunk F w i w'"
    and promoted: "fw_Promote F w i n = Inr (c, w') \<Longrightarrow> same_trunks F w w'"
    and removed: "fw_Remove F w i recursive = Inr w' \<Longrightarrow> \<not> trunk_live F w' i \<and> (\<forall>j. trunk_live F w' j \<longrightarrow> trunk_live F w j)
      \<and> (\<not> recursive \<longrightarrow> (\<forall>j. trunk_live F w j \<longrightarrow> j \<noteq> i \<longrightarrow> trunk_live F w' j)) \<and> keeps_records F w w' \<and> same_tree F w w'"
begin

lemma next_main_above: "trunk_live F w i \<Longrightarrow> r \<in> set (records F w i chanIR) \<Longrightarrow> xr_ChannelLT r < next_main F w i"
proof -
  assume l: "trunk_live F w i" and r: "r \<in> set (records F w i chanIR)"
  let ?R = "records F w i chanIR"
  have ne: "?R \<noteq> []" using r by auto
  have "sorted_wrt (<) (map xr_ChannelLT (butlast ?R @ [last ?R]))" using main_times [OF l] ne by simp
  then have "x \<in> set (butlast ?R) \<Longrightarrow> xr_ChannelLT x < xr_ChannelLT (last ?R)" for x
    by (auto simp: sorted_wrt_append)
  moreover have "r \<in> set (butlast ?R) \<or> r = last ?R" using r ne by (metis append_butlast_last_id in_set_conv_decomp rotate1.simps(2) set_ConsD set_rotate1)
  ultimately show ?thesis using ne by (auto simp: next_main_def intro: less_SucI)
qed

end

subsection \<open>A forest in memory\<close>

text \<open>
  Each trunk keeps all its records, those it shares with the trunk it was forked from included; the
  position of a record in its channel is its time. A new id is longer than every id in use.
\<close>

type_synonym mem_chans = "(string, (lt \<times> string \<times> string) list) fmap"

record mem_trunk =
  mk_parent :: string
  mk_stump :: string
  mk_base :: nat
  mk_branched :: lt
  mk_chans :: mem_chans

record mem_wal =
  mw_trunks :: "(string, mem_trunk) fmap"
  mw_stumps :: "(string, mem_chans) fmap"
  mw_version :: nat

definition chan_of :: "mem_chans \<Rightarrow> string \<Rightarrow> (lt \<times> string \<times> string) list" where
  "chan_of cs ch = (case fmlookup cs ch of None \<Rightarrow> [] | Some xs \<Rightarrow> xs)"

definition add_record :: "mem_chans \<Rightarrow> string \<Rightarrow> lt \<Rightarrow> string \<Rightarrow> string \<Rightarrow> lt \<times> mem_chans" where
  "add_record cs ch k p m =
     (let t = length (chan_of cs ch) + 1;
          key = (if ch = chanIR then t else if k = 0 then length (chan_of cs chanIR) + 1 else k)
      in (t, fmupd ch (chan_of cs ch @ [(key, p, m)]) cs))"

definition mem_record :: "nat \<Rightarrow> string \<Rightarrow> lt \<times> string \<times> string \<Rightarrow> xwal_record" where
  "mem_record n ch x =
     \<lparr>xr_ChannelLT = n, xr_MainLT = (if ch = chanIR then n else fst x), xr_Payload = fst (snd x), xr_Meta = snd (snd x)\<rparr>"

definition mem_chan :: "mem_wal \<Rightarrow> string \<Rightarrow> string \<Rightarrow> (lt \<times> string \<times> string) list" where
  "mem_chan w i ch = (case fmlookup (mw_trunks w) i of None \<Rightarrow> [] | Some k \<Rightarrow> chan_of (mk_chans k) ch)"

definition mint :: "mem_wal \<Rightarrow> string" where
  "mint w = replicate (Suc (fold max (map length (fmkeys (mw_trunks w))) 0)) CHR ''t''"

definition plant :: "mem_trunk \<Rightarrow> mem_wal \<Rightarrow> string + (string \<times> mem_wal)" where
  "plant k w = Inr (mint w, w\<lparr>mw_trunks := fmupd (mint w) k (mw_trunks w), mw_version := mw_version w + 1\<rparr>)"

fun grows_from :: "nat \<Rightarrow> mem_wal \<Rightarrow> string \<Rightarrow> string \<Rightarrow> bool" where
  "grows_from 0 w i j = False"
| "grows_from (Suc n) w i j =
     (j = i \<or> (case fmlookup (mw_trunks w) j of None \<Rightarrow> False | Some k \<Rightarrow> mk_parent k \<noteq> [] \<and> grows_from n w i (mk_parent k)))"

definition mem_Append :: "mem_wal \<Rightarrow> string \<Rightarrow> string \<Rightarrow> lt \<Rightarrow> string \<Rightarrow> string \<Rightarrow> string + (lt \<times> mem_wal)" where
  "mem_Append w i ch k p m =
     (case fmlookup (mw_trunks w) i of
        None \<Rightarrow> Inl ''unknown trunk''
      | Some tr \<Rightarrow> (case add_record (mk_chans tr) ch k p m of
          (t, cs) \<Rightarrow> Inr (t, w\<lparr>mw_trunks := fmupd i (tr\<lparr>mk_chans := cs\<rparr>) (mw_trunks w)\<rparr>)))"

definition mem_Remove :: "mem_wal \<Rightarrow> string \<Rightarrow> bool \<Rightarrow> string + mem_wal" where
  "mem_Remove w i recursive =
     (if fmlookup (mw_trunks w) i = None then Inl ''unknown trunk''
      else if \<not> recursive \<and> list_ex (\<lambda>j. (case fmlookup (mw_trunks w) j of None \<Rightarrow> False | Some k \<Rightarrow> mk_parent k = i)) (fmkeys (mw_trunks w))
      then Inl ''trunk has branches''
      else Inr (w\<lparr>mw_trunks := (if recursive then fmfilter (\<lambda>j. \<not> grows_from (Suc (fcard (fmdom (mw_trunks w)))) w i j) (mw_trunks w)
                                else fmdrop i (mw_trunks w)), mw_version := mw_version w + 1\<rparr>))"

definition on_stump :: "mem_wal \<Rightarrow> string \<Rightarrow> string \<Rightarrow> lt \<Rightarrow> string \<Rightarrow> string + (lt \<times> mem_wal)" where
  "on_stump w s ch k p =
     (case fmlookup (mw_stumps w) s of
        None \<Rightarrow> Inl ''unknown stump''
      | Some cs \<Rightarrow> (case add_record cs ch k p [] of (t, cs') \<Rightarrow> Inr (t, w\<lparr>mw_stumps := fmupd s cs' (mw_stumps w)\<rparr>)))"

definition mem_figwal :: "mem_wal figwal" where
  "mem_figwal = \<lparr>
     fw_Head = (\<lambda>w i. if fmlookup (mw_trunks w) i = None then Some ''unknown trunk'' else None),
     fw_Channels = (\<lambda>w i. case fmlookup (mw_trunks w) i of None \<Rightarrow> []
       | Some k \<Rightarrow> map (\<lambda>ch. \<lparr>ch_Name = ch, ch_First = 0, ch_Last = length (chan_of (mk_chans k) ch)\<rparr>) (fmkeys (mk_chans k))),
     fw_ReadAt = (\<lambda>w i ch t. if 0 < t \<and> t \<le> length (mem_chan w i ch) then Inr (mem_record t ch (mem_chan w i ch ! (t - 1))) else Inl ''no record''),
     fw_Lookup = (\<lambda>w i ch k. Inr None),
     fw_Append = mem_Append,
     fw_Clear = (\<lambda>w i ch. case fmlookup (mw_trunks w) i of None \<Rightarrow> Inl ''unknown trunk''
       | Some k \<Rightarrow> Inr (w\<lparr>mw_trunks := fmupd i (k\<lparr>mk_chans := fmdrop ch (mk_chans k)\<rparr>) (mw_trunks w)\<rparr>)),
     fw_Version = mw_version,
     fw_ListLight = (\<lambda>w. map (\<lambda>i. case fmlookup (mw_trunks w) i of
         None \<Rightarrow> \<lparr>tr_ID = i, tr_Parent = [], tr_Stump = [], tr_BranchedLT = 0\<rparr>
       | Some k \<Rightarrow> \<lparr>tr_ID = i, tr_Parent = mk_parent k, tr_Stump = mk_stump k, tr_BranchedLT = mk_branched k\<rparr>) (fmkeys (mw_trunks w))),
     fw_Stumps = (\<lambda>w. fmkeys (mw_stumps w)),
     fw_CreateStump = (\<lambda>w s. if fmlookup (mw_stumps w) s \<noteq> None then Inl ''stump exists''
       else Inr (w\<lparr>mw_stumps := fmupd s fmempty (mw_stumps w), mw_version := mw_version w + 1\<rparr>)),
     fw_StumpHead = (\<lambda>w s. if fmlookup (mw_stumps w) s = None then Some ''unknown stump'' else None),
     fw_StumpAppendMain = (\<lambda>w s p. on_stump w s chanIR 0 p),
     fw_StumpAppend = on_stump,
     fw_FlushCoherent = (\<lambda>w s. None),
     fw_SpawnUnderStump = (\<lambda>w s. case fmlookup (mw_stumps w) s of None \<Rightarrow> Inl ''unknown stump''
       | Some cs \<Rightarrow> plant \<lparr>mk_parent = [], mk_stump = s, mk_base = length (chan_of cs chanIR), mk_branched = length (chan_of cs chanIR), mk_chans = cs\<rparr> w),
     fw_SpawnUnderRoot = plant \<lparr>mk_parent = [], mk_stump = [], mk_base = 0, mk_branched = 0, mk_chans = fmempty\<rparr>,
     fw_ForkTail = (\<lambda>w i. case fmlookup (mw_trunks w) i of None \<Rightarrow> Inl ''unknown trunk''
       | Some k \<Rightarrow> plant (k\<lparr>mk_parent := i, mk_branched := length (chan_of (mk_chans k) chanIR)\<rparr>) w),
     fw_ForkAt = (\<lambda>w i t. case fmlookup (mw_trunks w) i of None \<Rightarrow> Inl ''unknown trunk''
       | Some k \<Rightarrow> plant (k\<lparr>mk_parent := i, mk_branched := t, mk_chans := fmmap (filter (\<lambda>x. fst x \<le> t)) (mk_chans k)\<rparr>) w),
     fw_Owner = (\<lambda>w i t. case fmlookup (mw_trunks w) i of None \<Rightarrow> Inl ''unknown trunk''
       | Some k \<Rightarrow> Inr (if t = 0 then \<lparr>xo_Trunk = [], xo_Stump = [], xo_IsRoot = True\<rparr>
           else if t \<le> mk_base k then \<lparr>xo_Trunk = [], xo_Stump = mk_stump k, xo_IsRoot = False\<rparr>
           else \<lparr>xo_Trunk = i, xo_Stump = [], xo_IsRoot = False\<rparr>)),
     fw_Promote = (\<lambda>w i n. case fmlookup (mw_trunks w) i of None \<Rightarrow> Inl (PromoteFailed ''unknown trunk'')
       | Some k \<Rightarrow> (case fmlookup (mw_trunks w) (mk_parent k) of None \<Rightarrow> Inl AtStump
           | Some up \<Rightarrow> Inr (1, w\<lparr>mw_trunks := fmupd i (k\<lparr>mk_parent := mk_parent up\<rparr>) (mw_trunks w), mw_version := mw_version w + 1\<rparr>))),
     fw_Remove = mem_Remove\<rparr>"

definition empty_wal :: mem_wal where
  "empty_wal = \<lparr>mw_trunks = fmempty, mw_stumps = fmempty, mw_version = 0\<rparr>"

lemma mem_sel:
  "fw_Head mem_figwal = (\<lambda>w i. if fmlookup (mw_trunks w) i = None then Some ''unknown trunk'' else None)"
  "fw_Channels mem_figwal = (\<lambda>w i. case fmlookup (mw_trunks w) i of None \<Rightarrow> []
       | Some k \<Rightarrow> map (\<lambda>ch. \<lparr>ch_Name = ch, ch_First = 0, ch_Last = length (chan_of (mk_chans k) ch)\<rparr>) (fmkeys (mk_chans k)))"
  "fw_ReadAt mem_figwal = (\<lambda>w i ch t. if 0 < t \<and> t \<le> length (mem_chan w i ch) then Inr (mem_record t ch (mem_chan w i ch ! (t - 1))) else Inl ''no record'')"
  "fw_Lookup mem_figwal = (\<lambda>w i ch k. Inr None)"
  "fw_Append mem_figwal = mem_Append"
  "fw_Clear mem_figwal = (\<lambda>w i ch. case fmlookup (mw_trunks w) i of None \<Rightarrow> Inl ''unknown trunk''
       | Some k \<Rightarrow> Inr (w\<lparr>mw_trunks := fmupd i (k\<lparr>mk_chans := fmdrop ch (mk_chans k)\<rparr>) (mw_trunks w)\<rparr>))"
  "fw_Version mem_figwal = mw_version"
  "fw_ListLight mem_figwal = (\<lambda>w. map (\<lambda>i. case fmlookup (mw_trunks w) i of
         None \<Rightarrow> \<lparr>tr_ID = i, tr_Parent = [], tr_Stump = [], tr_BranchedLT = 0\<rparr>
       | Some k \<Rightarrow> \<lparr>tr_ID = i, tr_Parent = mk_parent k, tr_Stump = mk_stump k, tr_BranchedLT = mk_branched k\<rparr>) (fmkeys (mw_trunks w)))"
  "fw_Stumps mem_figwal = (\<lambda>w. fmkeys (mw_stumps w))"
  "fw_CreateStump mem_figwal = (\<lambda>w s. if fmlookup (mw_stumps w) s \<noteq> None then Inl ''stump exists''
       else Inr (w\<lparr>mw_stumps := fmupd s fmempty (mw_stumps w), mw_version := mw_version w + 1\<rparr>))"
  "fw_StumpHead mem_figwal = (\<lambda>w s. if fmlookup (mw_stumps w) s = None then Some ''unknown stump'' else None)"
  "fw_StumpAppendMain mem_figwal = (\<lambda>w s p. on_stump w s chanIR 0 p)"
  "fw_StumpAppend mem_figwal = on_stump"
  "fw_FlushCoherent mem_figwal = (\<lambda>w s. None)"
  "fw_SpawnUnderStump mem_figwal = (\<lambda>w s. case fmlookup (mw_stumps w) s of None \<Rightarrow> Inl ''unknown stump''
       | Some cs \<Rightarrow> plant \<lparr>mk_parent = [], mk_stump = s, mk_base = length (chan_of cs chanIR), mk_branched = length (chan_of cs chanIR), mk_chans = cs\<rparr> w)"
  "fw_SpawnUnderRoot mem_figwal = plant \<lparr>mk_parent = [], mk_stump = [], mk_base = 0, mk_branched = 0, mk_chans = fmempty\<rparr>"
  "fw_ForkTail mem_figwal = (\<lambda>w i. case fmlookup (mw_trunks w) i of None \<Rightarrow> Inl ''unknown trunk''
       | Some k \<Rightarrow> plant (k\<lparr>mk_parent := i, mk_branched := length (chan_of (mk_chans k) chanIR)\<rparr>) w)"
  "fw_ForkAt mem_figwal = (\<lambda>w i t. case fmlookup (mw_trunks w) i of None \<Rightarrow> Inl ''unknown trunk''
       | Some k \<Rightarrow> plant (k\<lparr>mk_parent := i, mk_branched := t, mk_chans := fmmap (filter (\<lambda>x. fst x \<le> t)) (mk_chans k)\<rparr>) w)"
  "fw_Owner mem_figwal = (\<lambda>w i t. case fmlookup (mw_trunks w) i of None \<Rightarrow> Inl ''unknown trunk''
       | Some k \<Rightarrow> Inr (if t = 0 then \<lparr>xo_Trunk = [], xo_Stump = [], xo_IsRoot = True\<rparr>
           else if t \<le> mk_base k then \<lparr>xo_Trunk = [], xo_Stump = mk_stump k, xo_IsRoot = False\<rparr>
           else \<lparr>xo_Trunk = i, xo_Stump = [], xo_IsRoot = False\<rparr>))"
  "fw_Promote mem_figwal = (\<lambda>w i n. case fmlookup (mw_trunks w) i of None \<Rightarrow> Inl (PromoteFailed ''unknown trunk'')
       | Some k \<Rightarrow> (case fmlookup (mw_trunks w) (mk_parent k) of None \<Rightarrow> Inl AtStump
           | Some up \<Rightarrow> Inr (1, w\<lparr>mw_trunks := fmupd i (k\<lparr>mk_parent := mk_parent up\<rparr>) (mw_trunks w), mw_version := mw_version w + 1\<rparr>)))"
  "fw_Remove mem_figwal = mem_Remove"
  by (simp_all add: mem_figwal_def)

lemma mem_live: "trunk_live mem_figwal w i \<longleftrightarrow> fmlookup (mw_trunks w) i \<noteq> None"
  by (simp add: trunk_live_def mem_sel)

lemma mem_channels: "fmlookup (mw_trunks w) i = Some k \<Longrightarrow> fw_Channels mem_figwal w i =
    map (\<lambda>ch. \<lparr>ch_Name = ch, ch_First = 0, ch_Last = length (chan_of (mk_chans k) ch)\<rparr>) (fmkeys (mk_chans k))"
  by (simp add: mem_sel)

lemma find_name: "distinct ns \<Longrightarrow> find (\<lambda>c. ch_Name c = ch) (map (\<lambda>n. \<lparr>ch_Name = n, ch_First = 0, ch_Last = f n\<rparr>) ns) =
    (if ch \<in> set ns then Some \<lparr>ch_Name = ch, ch_First = 0, ch_Last = f ch\<rparr> else None)"
  by (induction ns) auto

lemma mem_bounds: "channel_bounds mem_figwal w i ch = (if mem_chan w i ch = [] then 0 else 1, length (mem_chan w i ch))"
proof (cases "fmlookup (mw_trunks w) i")
  case None
  then show ?thesis by (simp add: channel_bounds_def mem_sel mem_chan_def)
next
  case (Some k)
  then have "channel_bounds mem_figwal w i ch = (if ch \<in> fmdom' (mk_chans k) then
      (if chan_of (mk_chans k) ch = [] then 0 else 1, length (chan_of (mk_chans k) ch)) else (0, 0))"
    using find_name [of "fmkeys (mk_chans k)" ch "\<lambda>c. length (chan_of (mk_chans k) c)"]
    by (simp add: channel_bounds_def mem_channels)
  moreover have "ch \<notin> fmdom' (mk_chans k) \<Longrightarrow> chan_of (mk_chans k) ch = []"
    by (simp add: chan_of_def fmlookup_dom'_iff)
  ultimately show ?thesis using Some by (simp add: mem_chan_def)
qed

lemma mem_records: "records mem_figwal w i ch = map (\<lambda>n. mem_record (Suc n) ch (mem_chan w i ch ! n)) [0..<length (mem_chan w i ch)]"
proof -
  have "map (read_ok mem_figwal w i ch) [1..<Suc (length (mem_chan w i ch))] =
      map (\<lambda>n. [mem_record (Suc n) ch (mem_chan w i ch ! n)]) [0..<length (mem_chan w i ch)]"
    by (simp add: map_Suc_upt [symmetric] read_ok_def mem_sel del: upt_Suc)
  then show ?thesis by (auto simp: records_def times_of_def mem_bounds concat_map_singleton simp del: upt_Suc)
qed

lemma mem_next: "next_main mem_figwal w i = length (mem_chan w i chanIR) + 1"
  by (cases "mem_chan w i chanIR") (simp_all add: next_main_def mem_records mem_record_def)

lemma mem_records_cong: "mem_chan w' j c = mem_chan w j c \<Longrightarrow> records mem_figwal w' j c = records mem_figwal w j c"
  by (simp add: mem_records)

lemma mem_records_snoc:
  "mem_chan w' j c = mem_chan w j c @ [x] \<Longrightarrow>
     records mem_figwal w' j c = records mem_figwal w j c @ [mem_record (Suc (length (mem_chan w j c))) c x]"
  by (simp add: mem_records nth_append)

lemma fold_max_start: "n \<le> fold max ns (n :: nat)"
proof (induction ns arbitrary: n)
  case (Cons x ns)
  show ?case using Cons.IH [of "max x n"] by simp
qed simp

lemma fold_max_ge: "m \<in> set ns \<Longrightarrow> m \<le> fold max ns (n :: nat)"
proof (induction ns arbitrary: n)
  case (Cons x ns)
  then show ?case using fold_max_start [of "max x n" ns] by auto
qed simp

lemma mint_fresh: "fmlookup (mw_trunks w) (mint w) = None"
proof (rule ccontr)
  assume "fmlookup (mw_trunks w) (mint w) \<noteq> None"
  then have "length (mint w) \<in> set (map length (fmkeys (mw_trunks w)))"
    by (auto simp: fmlookup_dom'_iff)
  then have "length (mint w) \<le> fold max (map length (fmkeys (mw_trunks w))) 0" by (rule fold_max_ge)
  then show False by (simp add: mint_def)
qed

lemma mem_plant: "plant k w = Inr (i, w') \<Longrightarrow> new_trunk mem_figwal w i w'"
  using mint_fresh [of w]
  by (auto simp: plant_def new_trunk_def mem_live keeps_records_def same_tree_def mem_chan_def mem_sel
      intro!: mem_records_cong split: if_splits)

text \<open>A trunk whose channels stay, in a forest that may have a new version.\<close>

lemma mem_same_trunks:
  assumes "\<And>j. map_option mk_chans (fmlookup (mw_trunks w') j) = map_option mk_chans (fmlookup (mw_trunks w) j)"
    and "mw_version w' = mw_version w + 1 \<or> mw_trunks w' = mw_trunks w \<and> mw_version w' = mw_version w \<and> fmdom (mw_stumps w') = fmdom (mw_stumps w)"
  shows "same_trunks mem_figwal w w'"
proof -
  have "(fmlookup (mw_trunks w') j = None) = (fmlookup (mw_trunks w) j = None)" for j
    using assms(1) [of j] by (metis option.map_disc_iff)
  moreover have "mem_chan w' j c = mem_chan w j c" for j c
    using assms(1) [of j] by (auto simp: mem_chan_def split: option.splits)
  moreover have "same_tree mem_figwal w w'"
    using assms(2) by (auto simp: same_tree_def mem_sel fmkeys_def)
  ultimately show ?thesis by (auto simp: same_trunks_def mem_live keeps_records_def intro: mem_records_cong)
qed

lemma mem_set_chan:
  assumes "fmlookup (mw_trunks w) i = Some k" and "\<And>c. c \<noteq> ch \<Longrightarrow> chan_of cs c = chan_of (mk_chans k) c"
    and "w' = w\<lparr>mw_trunks := fmupd i (k\<lparr>mk_chans := cs\<rparr>) (mw_trunks w)\<rparr>" and "rs = records mem_figwal w' i ch"
  shows "sets_channel mem_figwal w i ch rs w'"
proof -
  have "mem_chan w' j c = mem_chan w j c" if "j \<noteq> i \<or> c \<noteq> ch" for j c
    using that assms(1-3) by (auto simp: mem_chan_def)
  moreover have "fw_ListLight mem_figwal w' = fw_ListLight mem_figwal w"
  proof -
    have "fmdom (mw_trunks w') = fmdom (mw_trunks w)" using assms(1,3) by (auto simp: fmdomI)
    then have "fmkeys (mw_trunks w') = fmkeys (mw_trunks w)" by (simp add: fmkeys_def)
    then show ?thesis using assms(1,3) by (auto simp: mem_sel)
  qed
  ultimately show ?thesis using assms(1,3,4)
    by (auto simp: sets_channel_def mem_live same_tree_def mem_sel intro: mem_records_cong)
qed

lemma mem_appended:
  assumes "mem_Append w i ch k p m = Inr (t, w')"
  shows "t = length (mem_chan w i ch) + 1"
    and "sets_channel mem_figwal w i ch (records mem_figwal w i ch @ [\<lparr>xr_ChannelLT = t,
        xr_MainLT = (if ch = chanIR then t else if k = 0 then next_main mem_figwal w i else k), xr_Payload = p, xr_Meta = m\<rparr>]) w'"
proof -
  obtain tr cs where tr: "fmlookup (mw_trunks w) i = Some tr" and add: "add_record (mk_chans tr) ch k p m = (t, cs)"
    and w': "w' = w\<lparr>mw_trunks := fmupd i (tr\<lparr>mk_chans := cs\<rparr>) (mw_trunks w)\<rparr>"
    using assms by (auto simp: mem_Append_def split: option.splits prod.splits)
  have chan: "mem_chan w i c = chan_of (mk_chans tr) c" for c by (simp add: mem_chan_def tr)
  show t: "t = length (mem_chan w i ch) + 1" using add by (simp add: add_record_def Let_def chan)
  let ?key = "if ch = chanIR then t else if k = 0 then next_main mem_figwal w i else k"
  have cs: "cs = fmupd ch (mem_chan w i ch @ [(?key, p, m)]) (mk_chans tr)"
    using add by (auto simp: add_record_def Let_def chan mem_next)
  then have "mem_chan w' i ch = mem_chan w i ch @ [(?key, p, m)]"
    by (simp add: mem_chan_def w' chan_of_def)
  then have "records mem_figwal w' i ch = records mem_figwal w i ch @ [mem_record t ch (?key, p, m)]"
    using mem_records_snoc t by simp
  moreover have "mem_record t ch (?key, p, m) = \<lparr>xr_ChannelLT = t, xr_MainLT = ?key, xr_Payload = p, xr_Meta = m\<rparr>"
    by (simp add: mem_record_def)
  ultimately show "sets_channel mem_figwal w i ch (records mem_figwal w i ch @ [\<lparr>xr_ChannelLT = t,
        xr_MainLT = ?key, xr_Payload = p, xr_Meta = m\<rparr>]) w'"
    by (intro mem_set_chan [OF tr _ w']) (auto simp: cs chan_of_def)
qed

lemma mem_removed:
  assumes "mem_Remove w i recursive = Inr w'"
  shows "\<not> trunk_live mem_figwal w' i \<and> (\<forall>j. trunk_live mem_figwal w' j \<longrightarrow> trunk_live mem_figwal w j)
      \<and> (\<not> recursive \<longrightarrow> (\<forall>j. trunk_live mem_figwal w j \<longrightarrow> j \<noteq> i \<longrightarrow> trunk_live mem_figwal w' j))
      \<and> keeps_records mem_figwal w w' \<and> same_tree mem_figwal w w'"
  using assms
  by (auto simp: mem_Remove_def mem_live keeps_records_def mem_chan_def same_tree_def mem_sel
      split: if_splits intro!: mem_records_cong)

lemma on_stump_same: "on_stump w s ch k p = Inr (t, w') \<Longrightarrow>
    same_trunks mem_figwal w w' \<and> set (fw_Stumps mem_figwal w') = set (fw_Stumps mem_figwal w)"
  by (auto simp: on_stump_def fmdomI finsert_absorb mem_sel fmdom'I split: option.splits prod.splits intro!: mem_same_trunks)

interpretation mem_forest: figwal_store mem_figwal
proof
  fix w w' :: mem_wal and i j ch s p m :: string and k t :: lt and n c :: int and recursive
  show "trunk_live mem_figwal w i \<Longrightarrow> t \<in> set (times_of (channel_bounds mem_figwal w i ch)) \<Longrightarrow> \<exists>r. fw_ReadAt mem_figwal w i ch t = Inr r"
    by (auto simp: mem_bounds times_of_def mem_sel split: if_splits)
  show "sorted_wrt (<) (map xr_ChannelLT (records mem_figwal w i chanIR))
      \<and> (\<forall>r \<in> set (records mem_figwal w i chanIR). xr_MainLT r = xr_ChannelLT r \<and> xr_ChannelLT r > 0)"
    by (auto simp: mem_records mem_record_def sorted_wrt_map)
  show "t = next_main mem_figwal w i" if "fw_Append mem_figwal w i chanIR k p m = Inr (t, w')"
    using that mem_appended(1) [of w i chanIR k p m t w'] by (simp add: mem_next mem_sel)
  show "sets_channel mem_figwal w i ch (records mem_figwal w i ch @ [\<lparr>xr_ChannelLT = t,
        xr_MainLT = (if ch = chanIR then t else if k = 0 then next_main mem_figwal w i else k), xr_Payload = p, xr_Meta = m\<rparr>]) w'"
    if "fw_Append mem_figwal w i ch k p m = Inr (t, w')"
    using mem_appended(2) [of w i ch k p m t w'] that by (simp add: mem_sel)
  show "sets_channel mem_figwal w i ch [] w'" if clr: "fw_Clear mem_figwal w i ch = Inr w'"
  proof -
    obtain tr where tr: "fmlookup (mw_trunks w) i = Some tr"
      and w': "w' = w\<lparr>mw_trunks := fmupd i (tr\<lparr>mk_chans := fmdrop ch (mk_chans tr)\<rparr>) (mw_trunks w)\<rparr>"
      using clr by (auto simp: mem_sel split: option.splits)
    have "records mem_figwal w' i ch = []" by (simp add: mem_records mem_chan_def w' chan_of_def)
    then show ?thesis by (intro mem_set_chan [OF tr _ w']) (auto simp: chan_of_def)
  qed
  show "same_trunks mem_figwal w w' \<and> set (fw_Stumps mem_figwal w') = insert s (set (fw_Stumps mem_figwal w))"
    if "fw_CreateStump mem_figwal w s = Inr w'"
    using that by (intro conjI mem_same_trunks) (auto simp: mem_sel split: if_splits)
  show "same_trunks mem_figwal w w' \<and> set (fw_Stumps mem_figwal w') = set (fw_Stumps mem_figwal w)" if "fw_StumpAppendMain mem_figwal w s p = Inr (t, w')"
    using on_stump_same [of w s chanIR 0 p t w'] that by (simp add: mem_sel)
  show "same_trunks mem_figwal w w' \<and> set (fw_Stumps mem_figwal w') = set (fw_Stumps mem_figwal w)" if "fw_StumpAppend mem_figwal w s ch k p = Inr (t, w')"
    using on_stump_same [of w s ch k p t w'] that by (simp add: mem_sel)
  show "new_trunk mem_figwal w i w'" if "fw_SpawnUnderStump mem_figwal w s = Inr (i, w')"
    using that by (auto simp: mem_sel split: option.splits intro: mem_plant)
  show "new_trunk mem_figwal w i w'" if "fw_SpawnUnderRoot mem_figwal w = Inr (i, w')"
    using that by (auto simp: mem_sel intro: mem_plant)
  show "new_trunk mem_figwal w i w'" if "fw_ForkTail mem_figwal w j = Inr (i, w')"
    using that by (auto simp: mem_sel split: option.splits intro: mem_plant)
  show "new_trunk mem_figwal w i w'" if "fw_ForkAt mem_figwal w j k = Inr (i, w')"
    using that by (auto simp: mem_sel split: option.splits intro: mem_plant)
  show "same_trunks mem_figwal w w'" if "fw_Promote mem_figwal w i n = Inr (c, w')"
    using that by (intro mem_same_trunks) (auto simp: mem_sel split: option.splits if_splits)
qed (use mem_removed in \<open>simp add: mem_sel\<close>)

end
