(* ===== verification/Xwal_Log.thy ===== *)
theory Xwal_Log
  imports Figwal Projection
begin

section \<open>A channel of an aria as a log (\<open>internal/store/xwal_log.go\<close>)\<close>

text \<open>
  \<open>xwalLog\<close> shows one channel of a trunk as a \<open>Log\<close>: every call opens the trunk, works on the
  channel and closes it. The payload of a row is JSON: \<open>row_codec\<close> holds \<open>json.Marshal\<close> and
  \<open>json.Unmarshal\<close> at the type of the payload, its zero value, and the two at \<open>string\<close> for the
  fingerprint in the meta slot. A value that JSON does not change is \<open>json_stable\<close>. The last section
  is the cached log over such a channel, which is what the provider's translation cache is.
\<close>

record 'a row_codec =
  rc_marshal :: "'a \<Rightarrow> string option"
  rc_unmarshal :: "string \<Rightarrow> 'a option"
  rc_zero :: 'a
  rc_quote :: "string \<Rightarrow> string"
  rc_unquote :: "string \<Rightarrow> string option"

subsection \<open>Rows and records\<close>

definition encodeMeta :: "'a row_codec \<Rightarrow> string \<Rightarrow> string" where
  "encodeMeta J fp = (if fp = [] then [] else rc_quote J fp)"

definition decodeMeta :: "'a row_codec \<Rightarrow> string \<Rightarrow> string" where
  "decodeMeta J meta = (if length meta = 0 then [] else case rc_unquote J meta of Some fp \<Rightarrow> fp | None \<Rightarrow> [])"

definition decodeRecord :: "'a row_codec \<Rightarrow> xwal_record \<Rightarrow> 'a log_entry option" where
  "decodeRecord J r =
     (case (if length (xr_Payload r) > 0 then rc_unmarshal J (xr_Payload r) else Some (rc_zero J)) of
        None \<Rightarrow> None
      | Some v \<Rightarrow> Some \<lparr>LT = xr_ChannelLT r, FigaroLT = xr_MainLT r, Payload = v, Fingerprint = decodeMeta J (xr_Meta r)\<rparr>)"

subsection \<open>The operations\<close>

definition xl_row :: "'w figwal \<Rightarrow> 'a row_codec \<Rightarrow> string \<Rightarrow> string \<Rightarrow> 'w \<Rightarrow> lt \<Rightarrow> 'a log_entry list" where
  "xl_row F J i ch w t =
     (case fw_ReadAt F w i ch t of
        Inl _ \<Rightarrow> []
      | Inr r \<Rightarrow> (case decodeRecord J r of Some e \<Rightarrow> [e] | None \<Rightarrow> []))"

definition xl_Read :: "'w figwal \<Rightarrow> 'a row_codec \<Rightarrow> string \<Rightarrow> string \<Rightarrow> 'w \<Rightarrow> 'a log_entry list" where
  "xl_Read F J i ch w =
     (if \<not> trunk_live F w i then []
      else concat (map (xl_row F J i ch w) (times_of (channel_bounds F w i ch))))"

definition xl_Len :: "'w figwal \<Rightarrow> string \<Rightarrow> string \<Rightarrow> 'w \<Rightarrow> nat" where
  "xl_Len F i ch w =
     (if \<not> trunk_live F w i then 0
      else case channel_bounds F w i ch of
             (lo, hi) \<Rightarrow> (if hi > 0 \<and> hi \<ge> lo then hi - lo + 1 else 0))"

fun scan_from :: "(lt \<Rightarrow> string + xwal_record) \<Rightarrow> 'a row_codec \<Rightarrow> lt \<Rightarrow> int \<Rightarrow> 'a log_entry list \<Rightarrow> lt list \<Rightarrow> 'a log_entry list" where
  "scan_from rd J figaroLT n out [] = out"
| "scan_from rd J figaroLT n out (t # ts) =
     (if n > 0 \<and> int (length out) \<ge> n then out
      else case rd t of
             Inl _ \<Rightarrow> scan_from rd J figaroLT n out ts
           | Inr r \<Rightarrow>
               (if xr_MainLT r < figaroLT then scan_from rd J figaroLT n out ts
                else case decodeRecord J r of
                       Some e \<Rightarrow> scan_from rd J figaroLT n (out @ [e]) ts
                     | None \<Rightarrow> scan_from rd J figaroLT n out ts))"

definition xl_ReadFrom :: "'w figwal \<Rightarrow> 'a row_codec \<Rightarrow> string \<Rightarrow> string \<Rightarrow> 'w \<Rightarrow> lt \<Rightarrow> int \<Rightarrow> 'a log_entry list" where
  "xl_ReadFrom F J i ch w figaroLT n =
     (if \<not> trunk_live F w i then []
      else scan_from (fw_ReadAt F w i ch) J figaroLT n [] (times_of (channel_bounds F w i ch)))"

definition xl_ReadPage ::
  "'w figwal \<Rightarrow> 'a row_codec \<Rightarrow> string \<Rightarrow> string \<Rightarrow> 'w \<Rightarrow> lt \<Rightarrow> lt \<Rightarrow> int \<Rightarrow> runtime_panic + ('a log_entry list \<times> nat)" where
  "xl_ReadPage F J i ch w from before n = readPage (xl_Read F J i ch w) from before n"

text \<open>The library's index first, then the first record with the key.\<close>

definition xl_Lookup :: "'w figwal \<Rightarrow> 'a row_codec \<Rightarrow> string \<Rightarrow> string \<Rightarrow> 'w \<Rightarrow> lt \<Rightarrow> 'a log_entry option" where
  "xl_Lookup F J i ch w figaroLT =
     (if \<not> trunk_live F w i then None
      else case (case fw_Lookup F w i ch figaroLT of
                   Inr (Some r) \<Rightarrow> Some r
                 | _ \<Rightarrow> find (\<lambda>r. xr_MainLT r = figaroLT) (records F w i ch)) of
             None \<Rightarrow> None
           | Some r \<Rightarrow> decodeRecord J r)"

definition xl_PeekTail :: "'w figwal \<Rightarrow> 'a row_codec \<Rightarrow> string \<Rightarrow> string \<Rightarrow> 'w \<Rightarrow> 'a log_entry option" where
  "xl_PeekTail F J i ch w =
     (if \<not> trunk_live F w i then None
      else case channel_bounds F w i ch of
             (lo, hi) \<Rightarrow>
               (if lo = 0 \<or> hi < lo then None
                else case fw_ReadAt F w i ch hi of Inl _ \<Rightarrow> None | Inr r \<Rightarrow> decodeRecord J r))"

definition xl_Append ::
  "'w figwal \<Rightarrow> 'a row_codec \<Rightarrow> string \<Rightarrow> string \<Rightarrow> bool \<Rightarrow> 'w \<Rightarrow> 'a log_entry \<Rightarrow> string + ('a log_entry \<times> 'w)" where
  "xl_Append F J i ch isMain w e =
     (case rc_marshal J (Payload e) of
        None \<Rightarrow> Inl ''xwalLog append marshal''
      | Some payload \<Rightarrow>
          (if isMain then
             (case fw_Append F w i ch 0 payload (encodeMeta J (Fingerprint e)) of
                Inl err \<Rightarrow> Inl err
              | Inr (t, w') \<Rightarrow> Inr (e\<lparr>LT := t, FigaroLT := t\<rparr>, w'))
           else
             (case fw_Append F w i ch (FigaroLT e) payload (encodeMeta J (Fingerprint e)) of
                Inl err \<Rightarrow> Inl err
              | Inr (t, w') \<Rightarrow> Inr (e\<lparr>LT := t\<rparr>, w'))))"

definition xl_Clear :: "'w figwal \<Rightarrow> string \<Rightarrow> string \<Rightarrow> 'w \<Rightarrow> string + 'w" where
  "xl_Clear F i ch w = fw_Clear F w i ch"

subsection \<open>Reading back\<close>

definition decoded :: "'a row_codec \<Rightarrow> xwal_record list \<Rightarrow> 'a log_entry list" where
  "decoded J rs = concat (map (\<lambda>r. case decodeRecord J r of Some e \<Rightarrow> [e] | None \<Rightarrow> []) rs)"

lemma decoded_simps [simp]: "decoded J [] = []" "decoded J (rs @ rs') = decoded J rs @ decoded J rs'"
  by (simp_all add: decoded_def)

lemma xl_Read_records: "trunk_live F w i \<Longrightarrow> xl_Read F J i ch w = decoded J (records F w i ch)"
proof -
  have "concat (map (xl_row F J i ch w) ts) = decoded J (concat (map (read_ok F w i ch) ts))" for ts
    by (induction ts) (simp_all add: xl_row_def read_ok_def decoded_def split: sum.split)
  then show "trunk_live F w i \<Longrightarrow> ?thesis" by (simp add: xl_Read_def records_def)
qed

text \<open>A bounded scan is the beginning of the selection.\<close>

lemma scan_from_eq:
  "0 < n \<Longrightarrow> int (length out) \<le> n \<Longrightarrow> scan_from rd J k n out ts = take (nat n)
     (out @ concat (map (\<lambda>t. case rd t of Inl _ \<Rightarrow> [] | Inr r \<Rightarrow> if xr_MainLT r < k then [] else
       (case decodeRecord J r of Some e \<Rightarrow> [e] | None \<Rightarrow> [])) ts))"
  by (induction rd J k n out ts rule: scan_from.induct) (auto simp: take_Cons' split: sum.split option.split)

text \<open>What JSON gives back unchanged.\<close>

definition json_stable :: "'a row_codec \<Rightarrow> 'a \<Rightarrow> bool" where
  "json_stable J v \<longleftrightarrow> (case rc_marshal J v of None \<Rightarrow> True | Some raw \<Rightarrow> raw \<noteq> [] \<and> rc_unmarshal J raw = Some v)"

definition stable_row :: "'a row_codec \<Rightarrow> 'a log_entry \<Rightarrow> bool" where
  "stable_row J e \<longleftrightarrow> json_stable J (Payload e)
     \<and> (Fingerprint e \<noteq> [] \<longrightarrow> rc_quote J (Fingerprint e) \<noteq> [] \<and> rc_unquote J (rc_quote J (Fingerprint e)) = Some (Fingerprint e))"

context figwal_store
begin

text \<open>An append of a stable row is read back as the row it returned.\<close>

lemma xl_append_sets:
  assumes "xl_Append F J i ch isMain w e = Inr (e', w')" and "isMain = (ch = chanIR)"
  obtains r where "sets_channel F w i ch (records F w i ch @ [r]) w'"
    and "xr_ChannelLT r = LT e'" "ch = chanIR \<Longrightarrow> LT e' = next_main F w i"
    and "stable_row J e \<Longrightarrow> ch = chanIR \<or> FigaroLT e \<noteq> 0 \<Longrightarrow> decodeRecord J r = Some e'"
    and "Payload e' = Payload e" "Fingerprint e' = Fingerprint e"
    and "FigaroLT e' = (if ch = chanIR then LT e' else FigaroLT e)"
proof -
  obtain payload t where m: "rc_marshal J (Payload e) = Some payload"
    and app: "fw_Append F w i ch (if ch = chanIR then 0 else FigaroLT e) payload (encodeMeta J (Fingerprint e)) = Inr (t, w')"
    and e': "e' = (if ch = chanIR then e\<lparr>LT := t, FigaroLT := t\<rparr> else e\<lparr>LT := t\<rparr>)"
    using assms by (auto simp: xl_Append_def split: option.splits sum.splits if_splits prod.splits)
  let ?k = "if ch = chanIR then 0 else FigaroLT e"
  let ?r = "\<lparr>xr_ChannelLT = t, xr_MainLT = (if ch = chanIR then t else if ?k = 0 then next_main F w i else ?k),
    xr_Payload = payload, xr_Meta = encodeMeta J (Fingerprint e)\<rparr>"
  have "decodeMeta J (encodeMeta J (Fingerprint e)) = Fingerprint e" if "stable_row J e"
    using that by (auto simp: stable_row_def decodeMeta_def encodeMeta_def)
  then have "decodeRecord J ?r = Some e'" if "stable_row J e" and "ch = chanIR \<or> FigaroLT e \<noteq> 0"
    using that m by (auto simp: decodeRecord_def e' stable_row_def json_stable_def)
  moreover have "ch = chanIR \<Longrightarrow> t = next_main F w i" using append_main [of w i ?k payload _ t w'] app by auto
  ultimately show ?thesis
    using append_records [OF app] by (intro that [of ?r]) (auto simp: e')
qed

end

subsection \<open>The cached log over a channel\<close>

text \<open>
  Whatever the library does, the cache keeps the contract of a log and of a translation cache: its
  answers come from the rows it holds. That they are the rows on disk is shown with the backend.
\<close>

interpretation disk_cache: translation_cache cl_Read "cl_Append (xl_Append F J i ch False)" cl_Lookup cl_PeekTail
  "cl_Clear (xl_Clear F i ch)" "\<lambda>c. cl_byFK c = fk_index (cl_rows c)" for F :: "'w figwal" and J i ch
proof
  fix c c' :: "('w, rawjson list) cached_log" and e e'
  assume idx: "cl_byFK c = fk_index (cl_rows c)"
  { assume app: "cl_Append (xl_Append F J i ch False) c e = Inr (e', c')"
    then have "xl_Append F J i ch False (cl_inner c) e = Inr (e', cl_inner c')"
      and c': "cl_rows c' = cl_rows c @ [e']" "cl_byFK c' = fmupd (FigaroLT e') (length (cl_rows c)) (cl_byFK c)"
      by (auto simp: cl_Append_def split: sum.splits)
    then have e': "Payload e' = Payload e" "Fingerprint e' = Fingerprint e" "FigaroLT e' = FigaroLT e"
      by (auto simp: xl_Append_def split: option.splits sum.splits)
    show "cl_byFK c' = fk_index (cl_rows c')" by (simp add: c' idx)
    show "cl_Read c' = cl_Read c @ [e']" by (simp add: cl_Read_def c')
    show "Payload e' = Payload e \<and> Fingerprint e' = Fingerprint e" using e' by simp
    show "FigaroLT e' = FigaroLT e" by (rule e'(3)) }
  show "cl_Lookup c k = find (\<lambda>e. FigaroLT e = k) (rev (cl_Read c))" for k
    by (simp add: cl_Lookup_def cl_Read_def idx flip: fk_index_lookup split: option.splits)
  show "cl_PeekTail c = (if cl_Read c = [] then None else Some (last (cl_Read c)))"
    by (simp add: cl_PeekTail_def cl_Read_def last_conv_nth)
  show "cl_Clear (xl_Clear F i ch) c = Inr c' \<Longrightarrow> cl_byFK c' = fk_index (cl_rows c')"
    "cl_Clear (xl_Clear F i ch) c = Inr c' \<Longrightarrow> cl_Read c' = []"
    by (auto simp: cl_Clear_def cl_Read_def split: sum.splits)
qed

end
