(* ===== verification/Xwal_Store.thy ===== *)
theory Xwal_Store
  imports Xwal_Log
begin

section \<open>The tree of arias (\<open>internal/store/xwal_store.go\<close>)\<close>

text \<open>
  The policy over the forest of logs: a loadout is a stump under the root, a conversation is spawned
  under a loadout, a fork is a branch of a conversation. The state is the forest and the topology
  read from it last. What the store gets from outside is \<open>store_env\<close>: JSON at the types it writes,
  the content hash of the log library and the clock. The mutex makes each operation one step; the
  counter of forest scans, which only a benchmark reads, is left out.
\<close>

subsection \<open>Names and stamps\<close>

definition hex_digit :: "nat \<Rightarrow> char" where
  "hex_digit n = ''0123456789abcdef'' ! (n mod 16)"

text \<open>\<open>rnd\<close> are the four random bytes.\<close>

definition hexTrunkID :: "string \<Rightarrow> string" where
  "hexTrunkID rnd = concat (map (\<lambda>b. [hex_digit (of_char b div 16), hex_digit (of_char b)]) rnd)"

abbreviation keyLoadoutName :: string where "keyLoadoutName \<equiv> ''system.loadout_name''"
abbreviation keyLoadoutVer :: string where "keyLoadoutVer \<equiv> ''system.loadout_version''"
abbreviation rootID :: string where "rootID \<equiv> ''null''"
abbreviation kindNull :: string where "kindNull \<equiv> ''null''"
abbreviation kindLoadout :: string where "kindLoadout \<equiv> ''loadout''"
abbreviation kindConversation :: string where "kindConversation \<equiv> ''conversation''"

record store_env =
  se_patch :: "patch row_codec"
  se_snapshot :: "snapshot row_codec"
  se_message :: "message row_codec"
  se_hash :: "string \<Rightarrow> string + string"
  se_quote :: "string \<Rightarrow> rawjson"
  se_now :: int

definition chalkboardReduce :: "store_env \<Rightarrow> string \<Rightarrow> string \<Rightarrow> string option" where
  "chalkboardReduce N state delta =
     (case (if length state > 0 then rc_unmarshal (se_snapshot N) state else Some fmempty) of
        None \<Rightarrow> None
      | Some snap \<Rightarrow>
          (case rc_unmarshal (se_patch N) delta of
             None \<Rightarrow> None
           | Some p \<Rightarrow> rc_marshal (se_snapshot N) (snap_Apply snap p)))"

definition transChannel :: "string \<Rightarrow> string" where
  "transChannel provider = ''translations-v2/'' @ provider"

record store_options =
  sp_Main :: string
  sp_Codec :: string
  sp_Genesis :: string
  sp_Opaque :: "string list"

definition storeOptions :: "store_env \<Rightarrow> store_options" where
  "storeOptions N = \<lparr>sp_Main = chanIR, sp_Codec = ''jsonl'',
     sp_Genesis = (case rc_marshal (se_message N) (zero_message\<lparr>m_role := RoleGenesis\<rparr>) of Some raw \<Rightarrow> raw | None \<Rightarrow> []),
     sp_Opaque = [transChannel ''anthropic'', transChannel ''copilot-messages'', transChannel ''copilot-responses'']\<rparr>"

definition loadoutStump :: "string \<Rightarrow> string \<Rightarrow> string" where
  "loadoutStump name ver = name @ ''@'' @ ver"

fun split_back :: "string \<Rightarrow> nat \<Rightarrow> string \<times> string" where
  "split_back key 0 = (key, [])"
| "split_back key (Suc i) = (if key ! i = CHR ''@'' then (take i key, drop (i + 1) key) else split_back key i)"

definition splitLoadoutKey :: "string \<Rightarrow> string \<times> string" where
  "splitLoadoutKey key = split_back key (length key)"

definition contentVersion :: "store_env \<Rightarrow> patch \<Rightarrow> string + string" where
  "contentVersion N patch =
     (case rc_marshal (se_patch N) patch of None \<Rightarrow> Inl ''marshal'' | Some body \<Rightarrow> se_hash N body)"

definition stampLoadout :: "store_env \<Rightarrow> patch \<Rightarrow> string \<Rightarrow> string \<Rightarrow> patch" where
  "stampLoadout N p name ver =
     \<lparr>p_set = fmupd keyLoadoutVer (se_quote N ver) (fmupd keyLoadoutName (se_quote N name) (p_set p)), p_remove = p_remove p\<rparr>"

subsection \<open>The topology\<close>

record topology =
  tp_version :: nat
  tp_nodes :: "node_view list"
  tp_conversations :: "node_view list"
  tp_conversationIDs :: "string list"
  tp_byID :: "(string, node_view) fmap"

record 'w xwal_store =
  xs_trunks :: 'w
  xs_topology :: "topology option"

definition view :: "trunk_info \<Rightarrow> (string, int list) fmap \<Rightarrow> node_view" where
  "view t vec =
     (let parent = (if tr_Parent t = [] then (if tr_Stump t \<noteq> [] then tr_Stump t else rootID) else tr_Parent t)
      in \<lparr>nv_ID = tr_ID t, nv_Parent = parent, nv_Kind = kindConversation, nv_Loadout = [], nv_Version = [], nv_Frozen = False,
          nv_Trunk = tr_ID t, nv_Vector = (case fmlookup vec (tr_ID t) of Some v \<Rightarrow> v | None \<Rightarrow> []), nv_BranchedLT = tr_BranchedLT t\<rparr>)"

text \<open>A branch of a listed conversation, or a root of the fork forest.\<close>

definition is_branch :: "trunk_info list \<Rightarrow> trunk_info \<Rightarrow> bool" where
  "is_branch infos ti \<longleftrightarrow> tr_Parent ti \<noteq> [] \<and> tr_Parent ti \<in> set (map tr_ID infos)"

definition kids_of :: "trunk_info list \<Rightarrow> string \<Rightarrow> string list" where
  "kids_of infos p = sort (map tr_ID (filter (\<lambda>ti. is_branch infos ti \<and> tr_Parent ti = p) infos))"

definition roots_of :: "trunk_info list \<Rightarrow> string list" where
  "roots_of infos = sort (map tr_ID (filter (\<lambda>ti. \<not> is_branch infos ti) infos))"

text \<open>
  \<open>assign\<close> calls itself for the children of a node. The fuel is the depth it may still go; the
  number of trunks is enough (\<open>locate_depth\<close> below).
\<close>

fun assign :: "(string \<Rightarrow> string list) \<Rightarrow> nat \<Rightarrow> string \<Rightarrow> int list \<Rightarrow> (string, int list) fmap \<Rightarrow> (string, int list) fmap" where
  "assign kids 0 i pre vec = vec"
| "assign kids (Suc n) i pre vec =
     foldl (\<lambda>v (k, c). assign kids n c (pre @ [int k]) v) (fmupd i pre vec) (enumerate 0 (kids i))"

definition vectorsLocked :: "trunk_info list \<Rightarrow> (string, int list) fmap" where
  "vectorsLocked infos =
     foldl (\<lambda>v (k, r). assign (kids_of infos) (length infos) r [int k] v) fmempty (enumerate 0 (roots_of infos))"

definition root_node :: node_view where
  "root_node = \<lparr>nv_ID = rootID, nv_Parent = [], nv_Kind = kindNull, nv_Loadout = [], nv_Version = [], nv_Frozen = False,
     nv_Trunk = rootID, nv_Vector = [], nv_BranchedLT = 0\<rparr>"

definition loadout_node :: "string \<Rightarrow> node_view" where
  "loadout_node s = (case splitLoadoutKey s of (name, ver) \<Rightarrow>
     \<lparr>nv_ID = s, nv_Parent = rootID, nv_Kind = kindLoadout, nv_Loadout = name, nv_Version = ver, nv_Frozen = False,
      nv_Trunk = [], nv_Vector = [], nv_BranchedLT = 0\<rparr>)"

definition scan_topology :: "'w figwal \<Rightarrow> 'w \<Rightarrow> topology" where
  "scan_topology F w =
     (let infos = fw_ListLight F w;
          vec = vectorsLocked infos;
          conversations = map (\<lambda>t. view t vec) infos;
          nodes = conversations @ [root_node] @ map loadout_node (fw_Stumps F w)
      in \<lparr>tp_version = fw_Version F w, tp_nodes = nodes, tp_conversations = conversations,
          tp_conversationIDs = map nv_ID conversations,
          tp_byID = foldl (\<lambda>m n. fmupd (nv_ID n) n m) fmempty nodes\<rparr>)"

definition topologySnapshot :: "'w figwal \<Rightarrow> 'w xwal_store \<Rightarrow> topology \<times> 'w xwal_store" where
  "topologySnapshot F s =
     (case xs_topology s of
        Some t \<Rightarrow> (if tp_version t = fw_Version F (xs_trunks s) then (t, s)
                   else let t' = scan_topology F (xs_trunks s) in (t', s\<lparr>xs_topology := Some t'\<rparr>))
      | None \<Rightarrow> (let t' = scan_topology F (xs_trunks s) in (t', s\<lparr>xs_topology := Some t'\<rparr>)))"

definition st_Conversations :: "'w figwal \<Rightarrow> 'w xwal_store \<Rightarrow> node_view list \<times> 'w xwal_store" where
  "st_Conversations F s = apfst tp_conversations (topologySnapshot F s)"

definition st_ConversationIDs :: "'w figwal \<Rightarrow> 'w xwal_store \<Rightarrow> string list \<times> 'w xwal_store" where
  "st_ConversationIDs F s = apfst tp_conversationIDs (topologySnapshot F s)"

definition st_Nodes :: "'w figwal \<Rightarrow> 'w xwal_store \<Rightarrow> node_view list \<times> 'w xwal_store" where
  "st_Nodes F s = apfst tp_nodes (topologySnapshot F s)"

definition st_Node :: "'w figwal \<Rightarrow> 'w xwal_store \<Rightarrow> string \<Rightarrow> node_view option \<times> 'w xwal_store" where
  "st_Node F s i = apfst (\<lambda>t. fmlookup (tp_byID t) i) (topologySnapshot F s)"

subsection \<open>The operations on the tree\<close>

text \<open>\<open>mkdir\<close> and \<open>opened\<close> are the answers of the file system and of the log library.\<close>

definition OpenXwalStore :: "string \<Rightarrow> string option \<Rightarrow> string + 'w \<Rightarrow> string + 'w xwal_store" where
  "OpenXwalStore dir mkdir opened =
     (if dir = [] then Inl ''xwal store: empty root''
      else case mkdir of
             Some err \<Rightarrow> Inl err
           | None \<Rightarrow> (case opened of Inl err \<Rightarrow> Inl err | Inr w \<Rightarrow> Inr \<lparr>xs_trunks = w, xs_topology = None\<rparr>))"

definition OpenNode :: "'w figwal \<Rightarrow> 'w xwal_store \<Rightarrow> string \<Rightarrow> string option" where
  "OpenNode F s i = fw_Head F (xs_trunks s) i"

text \<open>The birth message of a loadout: two appends and a flush; what was written before an error stays.\<close>

definition writeStumpBirth :: "'w figwal \<Rightarrow> store_env \<Rightarrow> string \<Rightarrow> patch \<Rightarrow> 'w \<Rightarrow> string option \<times> 'w" where
  "writeStumpBirth F N stump cbPatch w =
     (case fw_StumpHead F w stump of
        Some err \<Rightarrow> (Some err, w)
      | None \<Rightarrow>
          (let gen = (case rc_marshal (se_message N) (zero_message\<lparr>m_role := RoleUser, m_timestamp := se_now N\<rparr>) of Some raw \<Rightarrow> raw | None \<Rightarrow> []);
               pb = (case rc_marshal (se_patch N) cbPatch of Some raw \<Rightarrow> raw | None \<Rightarrow> [])
           in case fw_StumpAppendMain F w stump gen of
                Inl err \<Rightarrow> (Some err, w)
              | Inr (glt, w1) \<Rightarrow>
                  (case fw_StumpAppend F w1 stump chanChalkboard glt pb of
                     Inl err \<Rightarrow> (Some err, w1)
                   | Inr (_, w2) \<Rightarrow> (fw_FlushCoherent F w2 stump, w2))))"

definition st_CreateLoadout :: "'w figwal \<Rightarrow> store_env \<Rightarrow> string \<Rightarrow> patch \<Rightarrow> 'w xwal_store \<Rightarrow> (string + string) \<times> 'w xwal_store" where
  "st_CreateLoadout F N name patch s =
     (case contentVersion N patch of
        Inl err \<Rightarrow> (Inl err, s)
      | Inr ver \<Rightarrow>
          (let stump = loadoutStump name ver
           in if stump \<in> set (fw_Stumps F (xs_trunks s)) then (Inr stump, s)
              else case fw_CreateStump F (xs_trunks s) stump of
                     Inl err \<Rightarrow> (Inl (''xwal store: create loadout stump: '' @ err), s)
                   | Inr w1 \<Rightarrow>
                       (case writeStumpBirth F N stump (stampLoadout N patch name ver) w1 of
                          (Some err, w2) \<Rightarrow> (Inl err, s\<lparr>xs_trunks := w2\<rparr>)
                        | (None, w2) \<Rightarrow> (Inr stump, s\<lparr>xs_trunks := w2\<rparr>))))"

definition st_CreateConversation :: "'w figwal \<Rightarrow> string \<Rightarrow> 'w xwal_store \<Rightarrow> string + (string \<times> 'w xwal_store)" where
  "st_CreateConversation F loadoutID s =
     (case fw_SpawnUnderStump F (xs_trunks s) loadoutID of
        Inl err \<Rightarrow> Inl (''xwal store: spawn conversation: '' @ err)
      | Inr (i, w) \<Rightarrow> Inr (i, s\<lparr>xs_trunks := w\<rparr>))"

definition st_Fork :: "'w figwal \<Rightarrow> string \<Rightarrow> 'w xwal_store \<Rightarrow> string + ((string \<times> string) \<times> 'w xwal_store)" where
  "st_Fork F i s =
     (case fw_ForkTail F (xs_trunks s) i of
        Inl err \<Rightarrow> Inl err
      | Inr (alt, w) \<Rightarrow> Inr ((i, alt), s\<lparr>xs_trunks := w\<rparr>))"

definition st_ForkAt :: "'w figwal \<Rightarrow> string \<Rightarrow> lt \<Rightarrow> 'w xwal_store \<Rightarrow> string + ((string \<times> string) \<times> 'w xwal_store)" where
  "st_ForkAt F i atMainLT s =
     (case fw_Owner F (xs_trunks s) i atMainLT of
        Inl err \<Rightarrow> Inl err
      | Inr owner \<Rightarrow>
          (case (if xo_IsRoot owner then fw_SpawnUnderRoot F (xs_trunks s)
                 else if xo_Stump owner \<noteq> [] then fw_SpawnUnderStump F (xs_trunks s) (xo_Stump owner)
                 else fw_ForkAt F (xs_trunks s) i atMainLT) of
             Inl err \<Rightarrow> Inl err
           | Inr (alt, w) \<Rightarrow> Inr ((i, alt), s\<lparr>xs_trunks := w\<rparr>)))"

definition st_Promote :: "'w figwal \<Rightarrow> string \<Rightarrow> int \<Rightarrow> 'w xwal_store \<Rightarrow> promote_error + (int \<times> 'w xwal_store)" where
  "st_Promote F i levels s =
     (case fw_Promote F (xs_trunks s) i levels of
        Inl err \<Rightarrow> Inl err
      | Inr (climbed, w) \<Rightarrow> Inr (climbed, s\<lparr>xs_trunks := w\<rparr>))"

definition OwnerOf :: "'w figwal \<Rightarrow> string \<Rightarrow> lt \<Rightarrow> 'w xwal_store \<Rightarrow> string + trunk_owner" where
  "OwnerOf F i atMainLT s = fw_Owner F (xs_trunks s) i atMainLT"

definition RemoveLeaf :: "'w figwal \<Rightarrow> string \<Rightarrow> bool \<Rightarrow> 'w xwal_store \<Rightarrow> string option \<times> 'w xwal_store" where
  "RemoveLeaf F i recursive s =
     (case fw_Remove F (xs_trunks s) i recursive of
        Inl err \<Rightarrow> (Some err, s)
      | Inr w \<Rightarrow> (None, s\<lparr>xs_trunks := w\<rparr>))"

subsection \<open>Names read back\<close>

lemma split_back_stump:
  "CHR ''@'' \<notin> set ver \<Longrightarrow> k \<le> length ver \<Longrightarrow> split_back (name @ CHR ''@'' # ver) (Suc (length name + k)) = (name, ver)"
proof (induction k)
  case (Suc k)
  then have "(name @ CHR ''@'' # ver) ! Suc (length name + k) \<noteq> CHR ''@''"
    by (simp add: nth_append) (metis Suc_le_eq nth_mem)
  then have "split_back (name @ CHR ''@'' # ver) (Suc (Suc (length name + k))) = split_back (name @ CHR ''@'' # ver) (Suc (length name + k))"
    by (simp only: split_back.simps if_False)
  with Suc show ?case by simp
qed simp

lemma split_stump: "CHR ''@'' \<notin> set ver \<Longrightarrow> splitLoadoutKey (loadoutStump name ver) = (name, ver)"
  using split_back_stump [of ver "length ver" name] by (simp add: splitLoadoutKey_def loadoutStump_def)

lemma hex_digit_id: "id_char (hex_digit n)"
proof -
  have "list_all (\<lambda>k. id_char (''0123456789abcdef'' ! k)) [0..<16]" by (simp add: id_char_def upt_rec)
  then show ?thesis by (simp add: hex_digit_def list_all_iff)
qed

lemma scan_id_ok: "\<forall>c \<in> set s. id_char c \<Longrightarrow> scan_id n s = None"
  by (induction s arbitrary: n) auto

subsection \<open>Addresses in the fork forest\<close>

text \<open>
  The node at a path of child indices, from a node and from the roots. A vector is such a path.
\<close>

fun walk :: "(string \<Rightarrow> string list) \<Rightarrow> string \<Rightarrow> nat list \<Rightarrow> string option" where
  "walk kids i [] = Some i"
| "walk kids i (k # ks) = (if k < length (kids i) then walk kids (kids i ! k) ks else None)"

definition locate :: "trunk_info list \<Rightarrow> nat list \<Rightarrow> string option" where
  "locate infos v =
     (case v of [] \<Rightarrow> None
      | k # ks \<Rightarrow> (if k < length (roots_of infos) then walk (kids_of infos) (roots_of infos ! k) ks else None))"

lemma walk_snoc: "walk kids i (ks @ [k]) = Some j \<longleftrightarrow> (\<exists>p. walk kids i ks = Some p \<and> k < length (kids p) \<and> kids p ! k = j)"
  by (induction kids i ks rule: walk.induct) auto

lemma locate_snoc:
  "v \<noteq> [] \<Longrightarrow> locate infos (v @ [k]) = Some j \<longleftrightarrow>
     (\<exists>p. locate infos v = Some p \<and> k < length (kids_of infos p) \<and> kids_of infos p ! k = j)"
  by (cases v) (auto simp: locate_def walk_snoc split: if_splits)

lemma locate_one: "locate infos [k] = Some j \<longleftrightarrow> k < length (roots_of infos) \<and> roots_of infos ! k = j"
  by (simp add: locate_def)

lemma kids_member: "c \<in> set (kids_of infos p) \<longleftrightarrow> (\<exists>ti \<in> set infos. tr_ID ti = c \<and> tr_Parent ti = p \<and> is_branch infos ti)"
  by (auto simp: kids_of_def)

lemma roots_member: "c \<in> set (roots_of infos) \<longleftrightarrow> (\<exists>ti \<in> set infos. tr_ID ti = c \<and> \<not> is_branch infos ti)"
  by (auto simp: roots_of_def)

lemma lists_distinct:
  assumes "distinct (map tr_ID infos)"
  shows "distinct (kids_of infos p)" "distinct (roots_of infos)"
  using assms by (auto simp: kids_of_def roots_of_def distinct_map_filter)

lemma same_info: "distinct (map tr_ID infos) \<Longrightarrow> x \<in> set infos \<Longrightarrow> y \<in> set infos \<Longrightarrow> tr_ID x = tr_ID y \<Longrightarrow> x = y"
  by (auto simp: distinct_map inj_on_def)

text \<open>An aria has one address.\<close>

lemma locate_unique:
  assumes "distinct (map tr_ID infos)"
  shows "locate infos u = Some j \<Longrightarrow> locate infos v = Some j \<Longrightarrow> u = v"
proof (induction u arbitrary: v j rule: rev_induct)
  case Nil
  then show ?case by (simp add: locate_def)
next
  case (snoc k u)
  obtain l v' where v: "v = v' @ [l]" using snoc.prems(2) by (cases v rule: rev_cases) (auto simp: locate_def)
  show ?case
  proof (cases "u = []")
    case True
    then have r: "k < length (roots_of infos)" "roots_of infos ! k = j" using snoc.prems(1) by (simp_all add: locate_one)
    then have "j \<in> set (roots_of infos)" using nth_mem by blast
    then have "j \<notin> set (kids_of infos p)" for p using same_info [OF assms] by (auto simp: roots_member kids_member)
    then have "v' = []" using snoc.prems(2) locate_snoc [of v' infos l j] v by (metis nth_mem)
    then show ?thesis using r snoc.prems(2) v True nth_eq_iff_index_eq [OF lists_distinct(2) [OF assms]] by (auto simp: locate_one)
  next
    case False
    then obtain p where p: "locate infos u = Some p" "k < length (kids_of infos p)" "kids_of infos p ! k = j"
      using snoc.prems(1) locate_snoc by blast
    then have jp: "j \<in> set (kids_of infos p)" using nth_mem by blast
    then have "j \<notin> set (roots_of infos)" using same_info [OF assms] by (auto simp: roots_member kids_member)
    then have "v' \<noteq> []" using snoc.prems(2) v by (auto simp: locate_one)
    then obtain q where q: "locate infos v' = Some q" "l < length (kids_of infos q)" "kids_of infos q ! l = j"
      using snoc.prems(2) v locate_snoc by blast
    then have "j \<in> set (kids_of infos q)" using nth_mem by blast
    with jp have "p = q" using same_info [OF assms] by (auto simp: kids_member)
    with p q have "u = v'" "k = l" using snoc.IH nth_eq_iff_index_eq [OF lists_distinct(1) [OF assms]] by auto
    then show ?thesis by (simp add: v)
  qed
qed

lemma locate_listed:
  assumes "locate infos v = Some j"
  shows "j \<in> set (map tr_ID infos)"
proof -
  obtain u k where v: "v = u @ [k]" using assms by (cases v rule: rev_cases) (auto simp: locate_def)
  have "j \<in> set (roots_of infos) \<or> (\<exists>p. j \<in> set (kids_of infos p))"
  proof (cases "u = []")
    case True
    then show ?thesis using assms v by (auto simp: locate_one)
  next
    case False
    then show ?thesis using assms v locate_snoc by (metis nth_mem)
  qed
  then show ?thesis by (auto simp: roots_member kids_member)
qed

lemma locate_prefix: "locate infos (u @ w) = Some j \<Longrightarrow> u \<noteq> [] \<Longrightarrow> \<exists>p. locate infos u = Some p"
  by (induction w arbitrary: j rule: rev_induct) (auto simp: locate_snoc simp flip: append_assoc)

text \<open>No address is longer than the list of trunks: its prefixes are addresses of different trunks.\<close>

lemma locate_depth:
  assumes "distinct (map tr_ID infos)" and "locate infos v = Some j"
  shows "length v \<le> length infos"
proof -
  let ?at = "\<lambda>n. the (locate infos (take n v))"
  have at: "locate infos (take n v) = Some (?at n)" if "n \<in> {1..length v}" for n
    using locate_prefix [of infos "take n v" "drop n v" j] assms(2) that by (cases v) auto
  have "inj_on ?at {1..length v}"
  proof (rule inj_onI)
    fix m n assume m: "m \<in> {1..length v}" and n: "n \<in> {1..length v}" and "?at m = ?at n"
    then have "take m v = take n v" using locate_unique [OF assms(1)] at by metis
    then have "length (take m v) = length (take n v)" by simp
    then show "m = n" using m n by simp
  qed
  moreover have "?at ` {1..length v} \<subseteq> set (map tr_ID infos)" using at locate_listed by blast
  ultimately have "card {1..length v} \<le> card (set (map tr_ID infos))"
    by (intro card_inj_on_le [of ?at]) auto
  then show ?thesis using card_length [of "map tr_ID infos"] by simp
qed

subsection \<open>\<open>assign\<close> writes the addresses\<close>

lemma foldl_unchanged: "(\<And>x v. x \<in> set xs \<Longrightarrow> g (f v x) = g v) \<Longrightarrow> g (foldl f v xs) = g v"
  by (induction xs arbitrary: v) auto

lemma foldl_enumerate_hit:
  assumes "k < length cs" and "\<And>m v. m < length cs \<Longrightarrow> m \<noteq> k \<Longrightarrow> g (f v (m, cs ! m)) = g v"
    and "\<And>v. g (f v (k, cs ! k)) = y"
  shows "g (foldl f v (enumerate 0 cs)) = y"
proof -
  let ?E = "enumerate 0 cs"
  have E: "?E = take k ?E @ (k, cs ! k) # drop (Suc k) ?E"
    using assms(1) id_take_nth_drop [of k ?E] by (simp add: nth_enumerate_eq)
  have "g (foldl f u (drop (Suc k) ?E)) = g u" for u
  proof (rule foldl_unchanged)
    fix x v assume "x \<in> set (drop (Suc k) ?E)"
    then obtain m where "m < length cs - Suc k" "x = (Suc k + m, cs ! (Suc k + m))"
      by (auto simp: in_set_conv_nth nth_enumerate_eq)
    then show "g (f v x) = g v" using assms(2) [of "Suc k + m"] by simp
  qed
  then show ?thesis by (subst E) (simp add: assms(3))
qed

lemma assign_other: "(\<And>ks. length ks < n \<Longrightarrow> walk kids i ks \<noteq> Some j) \<Longrightarrow> fmlookup (assign kids n i pre vec) j = fmlookup vec j"
proof (induction n arbitrary: i pre vec)
  case (Suc n)
  have "j \<noteq> i" using Suc.prems [of "[]"] by simp
  moreover have "fmlookup (assign kids n c (pre @ [int k]) v) j = fmlookup v j" if kc: "(k, c) \<in> set (enumerate 0 (kids i))" for k c v
  proof (rule Suc.IH)
    fix ks :: "nat list" assume "length ks < n"
    then show "walk kids c ks \<noteq> Some j" using Suc.prems [of "k # ks"] kc by (auto simp: in_set_enumerate_eq)
  qed
  then have "fmlookup (foldl (\<lambda>v (k, c). assign kids n c (pre @ [int k]) v) (fmupd i pre vec) (enumerate 0 (kids i))) j = fmlookup (fmupd i pre vec) j"
    by (intro foldl_unchanged [where g = "\<lambda>v. fmlookup v j"]) auto
  ultimately show ?case by simp
qed simp

lemma assign_hit:
  assumes "walk kids i ks = Some j" and "length ks < n" and "\<And>us. walk kids i us = Some j \<Longrightarrow> us = ks"
  shows "fmlookup (assign kids n i pre vec) j = Some (pre @ map int ks)"
  using assms
proof (induction ks arbitrary: n i pre vec)
  case Nil
  obtain m where n: "n = Suc m" using Nil.prems(2) by (cases n) simp_all
  have "fmlookup (assign kids m c (pre @ [int k]) v) j = fmlookup v j" if kc: "(k, c) \<in> set (enumerate 0 (kids i))" for k c v
    using Nil.prems(3) [of "k # _"] kc by (intro assign_other) (auto simp: in_set_enumerate_eq)
  then have "fmlookup (foldl (\<lambda>v (k, c). assign kids m c (pre @ [int k]) v) (fmupd i pre vec) (enumerate 0 (kids i))) j = fmlookup (fmupd i pre vec) j"
    by (intro foldl_unchanged [where g = "\<lambda>v. fmlookup v j"]) auto
  then show ?case using Nil.prems(1) by (simp add: n)
next
  case (Cons k ks)
  obtain m where n: "n = Suc m" using Cons.prems(2) by (cases n) simp_all
  have k: "k < length (kids i)" "walk kids (kids i ! k) ks = Some j" using Cons.prems(1) by (auto split: if_splits)
  have hit: "fmlookup (assign kids m (kids i ! k) (pre @ [int k]) v) j = Some (pre @ map int (k # ks))" for v
    using Cons.IH [OF k(2), of m "pre @ [int k]" v] Cons.prems(2) Cons.prems(3) [of "k # _"] k(1) n by simp
  have miss: "fmlookup (assign kids m (kids i ! l) (pre @ [int l]) v) j = fmlookup v j" if "l < length (kids i)" "l \<noteq> k" for l v
    using Cons.prems(3) [of "l # _"] that by (intro assign_other) auto
  show ?case unfolding n assign.simps
  proof (rule foldl_enumerate_hit [where g = "\<lambda>v. fmlookup v j", OF k(1)])
    show "fmlookup (case (k, kids i ! k) of (k, c) \<Rightarrow> assign kids m c (pre @ [int k]) v) j = Some (pre @ map int (k # ks))" for v
      unfolding prod.case by (rule hit)
    show "fmlookup (case (l, kids i ! l) of (k, c) \<Rightarrow> assign kids m c (pre @ [int k]) v) j = fmlookup v j"
      if "l < length (kids i)" "l \<noteq> k" for l v
      unfolding prod.case using that by (rule miss)
  qed
qed

lemma vectors_address:
  assumes d: "distinct (map tr_ID infos)"
  shows "fmlookup (vectorsLocked infos) j = Some v \<longleftrightarrow> (\<exists>ks. v = map int ks \<and> locate infos ks = Some j)"
proof (cases "\<exists>ks. locate infos ks = Some j")
  case True
  then obtain u where u: "locate infos u = Some j" by blast
  then obtain k ks where at: "locate infos (k # ks) = Some j" by (cases u) (auto simp: locate_def [of _ "[]"])
  then have k: "k < length (roots_of infos)" and w: "walk (kids_of infos) (roots_of infos ! k) ks = Some j"
    by (auto simp: locate_def split: if_splits)
  have len: "length ks < length infos" using locate_depth [OF d at] by simp
  have uniq: "l < length (roots_of infos) \<Longrightarrow> walk (kids_of infos) (roots_of infos ! l) us = Some j \<Longrightarrow> l = k \<and> us = ks" for l us
    using locate_unique [OF d at, of "l # us"] by (simp add: locate_def)
  have hit: "fmlookup (assign (kids_of infos) (length infos) (roots_of infos ! k) [int k] u) j = Some (map int (k # ks))" for u
    using assign_hit [OF w len, of "[int k]" u] uniq [OF k] by simp
  have miss: "fmlookup (assign (kids_of infos) (length infos) (roots_of infos ! l) [int l] u) j = fmlookup u j"
    if "l < length (roots_of infos)" "l \<noteq> k" for l u
    using uniq [OF that(1)] that(2) by (intro assign_other) auto
  have "fmlookup (vectorsLocked infos) j = Some (map int (k # ks))"
    unfolding vectorsLocked_def
  proof (rule foldl_enumerate_hit [where g = "\<lambda>v. fmlookup v j", OF k])
    show "fmlookup (case (k, roots_of infos ! k) of (k, r) \<Rightarrow> assign (kids_of infos) (length infos) r [int k] u) j = Some (map int (k # ks))" for u
      unfolding prod.case by (rule hit)
    show "fmlookup (case (l, roots_of infos ! l) of (k, r) \<Rightarrow> assign (kids_of infos) (length infos) r [int k] u) j = fmlookup u j"
      if "l < length (roots_of infos)" "l \<noteq> k" for l u
      unfolding prod.case using that by (rule miss)
  qed
  then show ?thesis using at locate_unique [OF d at] by (metis option.inject)
next
  case False
  then have "l < length (roots_of infos) \<Longrightarrow> walk (kids_of infos) (roots_of infos ! l) us \<noteq> Some j" for l us
    by (metis (mono_tags, lifting) list.simps(5) locate_def)
  then have "fmlookup (vectorsLocked infos) j = fmlookup (fmempty :: (string, int list) fmap) j"
    unfolding vectorsLocked_def
    by (intro foldl_unchanged [where g = "\<lambda>v. fmlookup v j"]) (auto simp: in_set_enumerate_eq intro!: assign_other)
  then show ?thesis using False by auto
qed

text \<open>In a forest without cycles every trunk has an address, below its parent's.\<close>

lemma locate_total:
  assumes "\<And>ti. ti \<in> set infos \<Longrightarrow> is_branch infos ti \<Longrightarrow> depth (tr_Parent ti) < (depth (tr_ID ti) :: nat)"
  shows "ti \<in> set infos \<Longrightarrow> \<exists>v. locate infos v = Some (tr_ID ti)"
proof (induction "depth (tr_ID ti)" arbitrary: ti rule: less_induct)
  case less
  show ?case
  proof (cases "is_branch infos ti")
    case False
    then have "tr_ID ti \<in> set (roots_of infos)" using less.prems by (auto simp: roots_member)
    then show ?thesis by (metis in_set_conv_nth locate_one)
  next
    case True
    then obtain p where p: "p \<in> set infos" "tr_ID p = tr_Parent ti" by (auto simp: is_branch_def)
    then obtain v where v: "locate infos v = Some (tr_Parent ti)" using less.hyps [of p] assms [OF less.prems True] by metis
    then have "v \<noteq> []" by (auto simp: locate_def)
    moreover have "tr_ID ti \<in> set (kids_of infos (tr_Parent ti))" using less.prems True by (auto simp: kids_member)
    ultimately show ?thesis using v by (metis in_set_conv_nth locate_snoc)
  qed
qed

subsection \<open>The topology is current\<close>

text \<open>A kept topology is never ahead of the forest, and of the same version it is the forest's.\<close>

definition topology_ok :: "'w figwal \<Rightarrow> 'w \<Rightarrow> topology option \<Rightarrow> bool" where
  "topology_ok F w t \<longleftrightarrow> (case t of None \<Rightarrow> True
     | Some tp \<Rightarrow> tp_version tp \<le> fw_Version F w \<and> (tp_version tp = fw_Version F w \<longrightarrow> tp = scan_topology F w))"

lemma topology_ok_step: "topology_ok F w t \<Longrightarrow> same_tree F w w' \<Longrightarrow> topology_ok F w' t"
  by (auto simp: topology_ok_def same_tree_def scan_topology_def Let_def split: option.splits)

lemma topologySnapshot_current:
  "topology_ok F (xs_trunks s) (xs_topology s) \<Longrightarrow> fst (topologySnapshot F s) = scan_topology F (xs_trunks s)"
  by (auto simp: topologySnapshot_def topology_ok_def Let_def split: option.splits)

lemma topologySnapshot_keeps:
  "xs_trunks (snd (topologySnapshot F s)) = xs_trunks s"
  "topology_ok F (xs_trunks s) (xs_topology s) \<Longrightarrow> topology_ok F (xs_trunks s) (xs_topology (snd (topologySnapshot F s)))"
  by (auto simp: topologySnapshot_def topology_ok_def scan_topology_def Let_def split: option.splits)

lemma same_tree_trans: "same_tree F w1 w2 \<Longrightarrow> same_tree F w2 w3 \<Longrightarrow> same_tree F w1 w3"
  by (auto simp: same_tree_def)

lemma same_trunks_trans: "same_trunks F w1 w2 \<Longrightarrow> same_trunks F w2 w3 \<Longrightarrow> same_trunks F w1 w3"
  by (auto simp: same_trunks_def keeps_records_def intro: same_tree_trans)

lemma same_trunks_refl [simp]: "same_trunks F w w"
  by (simp add: same_trunks_def keeps_records_def same_tree_def)

context figwal_store
begin

lemma birth_effect:
  assumes "writeStumpBirth F N stump p w = (err, w')"
  shows "same_trunks F w w' \<and> set (fw_Stumps F w') = set (fw_Stumps F w)"
  using assms by (auto simp: writeStumpBirth_def Let_def dest: stump_main stump_append
      split: option.splits sum.splits prod.splits intro: same_trunks_trans)

lemma CreateLoadout_effect:
  assumes "st_CreateLoadout F N name patch s = (res, s')"
  shows "same_trunks F (xs_trunks s) (xs_trunks s')" "xs_topology s' = xs_topology s"
    and "res = Inr i \<Longrightarrow> (\<exists>ver. contentVersion N patch = Inr ver \<and> i = loadoutStump name ver) \<and> i \<in> set (fw_Stumps F (xs_trunks s'))"
  using assms
  by (auto simp: st_CreateLoadout_def Let_def split: sum.splits prod.splits option.splits if_splits
      dest!: stump_created birth_effect intro: same_trunks_trans)

lemma CreateLoadout_known:
  "contentVersion N patch = Inr ver \<Longrightarrow> loadoutStump name ver \<in> set (fw_Stumps F (xs_trunks s)) \<Longrightarrow>
     st_CreateLoadout F N name patch s = (Inr (loadoutStump name ver), s)"
  by (simp add: st_CreateLoadout_def)

end

subsection \<open>Properties\<close>

lemma hex_digit_inj: "hex_digit m = hex_digit n \<longleftrightarrow> m mod 16 = n mod 16"
proof -
  have "distinct ''0123456789abcdef''" by simp
  then show ?thesis unfolding hex_digit_def by (subst nth_eq_iff_index_eq) auto
qed

lemma hexTrunkID_inj: "hexTrunkID a = hexTrunkID b \<Longrightarrow> a = b"
proof (induction a arbitrary: b)
  case (Cons x a)
  then obtain y b' where b: "b = y # b'" by (cases b) (auto simp: hexTrunkID_def)
  then have "hex_digit (of_char x div 16) = hex_digit (of_char y div 16)" "hex_digit (of_char x) = hex_digit (of_char y)"
    and rest: "hexTrunkID a = hexTrunkID b'"
    using Cons.prems by (simp_all add: hexTrunkID_def)
  then have "(of_char x :: nat) div 16 mod 16 = of_char y div 16 mod 16" "(of_char x :: nat) mod 16 = of_char y mod 16"
    by (simp_all add: hex_digit_inj)
  moreover have "(of_char x :: nat) < 256" "(of_char y :: nat) < 256" by simp_all
  ultimately have "(of_char x :: nat) = of_char y"
    by (metis div_mult_mod_eq less_mult_imp_div_less mod_less mult_2_right numeral_Bit0 numeral_times_numeral semiring_norm(12,13))
  then show ?case using Cons.IH [OF rest] b by simp
qed (cases b, auto simp: hexTrunkID_def)

text \<open>
  C22: an aria's vector is its address in the fork forest. Whatever the forest (ids are unique and
  no trunk is its own ancestor), every conversation gets a vector, the path of child indices, in
  the order of the ids, that leads to it; a branch has its parent's vector with one index more;
  and no other conversation has the same vector.
\<close>

theorem fork_vectors_address:
  assumes "distinct (map tr_ID infos)" and "t \<in> set infos"
    and "\<forall>ti \<in> set infos. is_branch infos ti \<longrightarrow> depth (tr_Parent ti) < (depth (tr_ID ti) :: nat)"
  shows "\<exists>ks. nv_Vector (view t (vectorsLocked infos)) = map int ks \<and> locate infos ks = Some (tr_ID t)
    \<and> (is_branch infos t \<longrightarrow> fmlookup (vectorsLocked infos) (tr_Parent t) = Some (map int (butlast ks))
         \<and> kids_of infos (tr_Parent t) ! last ks = tr_ID t)
    \<and> (\<forall>u \<in> set infos. nv_Vector (view u (vectorsLocked infos)) = map int ks \<longrightarrow> u = t)"
proof -
  note vec = vectors_address [OF assms(1)]
  have all: "\<exists>ks. fmlookup (vectorsLocked infos) (tr_ID u) = Some (map int ks) \<and> locate infos ks = Some (tr_ID u)" if "u \<in> set infos" for u
    using locate_total [of infos depth u] assms(3) that vec by blast
  then obtain ks where ks: "fmlookup (vectorsLocked infos) (tr_ID t) = Some (map int ks)" "locate infos ks = Some (tr_ID t)"
    using assms(2) by blast
  have "fmlookup (vectorsLocked infos) (tr_Parent t) = Some (map int (butlast ks)) \<and> kids_of infos (tr_Parent t) ! last ks = tr_ID t"
    if br: "is_branch infos t"
  proof -
    obtain v k where v: "ks = v @ [k]" using ks(2) by (cases ks rule: rev_cases) (auto simp: locate_def)
    have "tr_ID t \<notin> set (roots_of infos)" using same_info [OF assms(1)] assms(2) br by (auto simp: roots_member)
    then have "v \<noteq> []" using ks(2) v by (metis append_self_conv2 locate_one nth_mem)
    then obtain p where p: "locate infos v = Some p" "k < length (kids_of infos p)" "kids_of infos p ! k = tr_ID t"
      using ks(2) v locate_snoc by blast
    then have "tr_ID t \<in> set (kids_of infos p)" by (metis nth_mem)
    then have "p = tr_Parent t" using same_info [OF assms(1)] assms(2) by (auto simp: kids_member)
    then show ?thesis using p v vec by auto
  qed
  moreover have "u = t" if u: "u \<in> set infos" "nv_Vector (view u (vectorsLocked infos)) = map int ks" for u
  proof -
    obtain us where us: "fmlookup (vectorsLocked infos) (tr_ID u) = Some (map int us)" "locate infos us = Some (tr_ID u)"
      using all [OF u(1)] by blast
    then have "us = ks" using u(2) by (simp add: view_def Let_def inj_map_eq_map)
    then have "Some (tr_ID u) = Some (tr_ID t)" using us(2) ks(2) by metis
    then show ?thesis by (intro same_info [OF assms(1) u(1) assms(2)]) simp
  qed
  moreover have "nv_Vector (view t (vectorsLocked infos)) = map int ks" by (simp add: view_def Let_def ks(1))
  ultimately show ?thesis using ks(2) by blast
qed

definition demo_infos :: "trunk_info list" where
  "demo_infos = [\<lparr>tr_ID = ''b'', tr_Parent = ''a'', tr_Stump = [], tr_BranchedLT = 4\<rparr>,
     \<lparr>tr_ID = ''a'', tr_Parent = [], tr_Stump = ''l@1'', tr_BranchedLT = 2\<rparr>,
     \<lparr>tr_ID = ''c'', tr_Parent = ''b'', tr_Stump = [], tr_BranchedLT = 5\<rparr>]"

theorem fork_vectors_address_witness:
  "\<exists>ks. nv_Vector (view (demo_infos ! 2) (vectorsLocked demo_infos)) = map int ks \<and> locate demo_infos ks = Some ''c''"
proof -
  let ?depth = "\<lambda>i. if i = ''a'' then 0 else if i = ''b'' then 1 else (2 :: nat)"
  have "distinct (map tr_ID demo_infos)" "demo_infos ! 2 \<in> set demo_infos"
    and "\<forall>ti \<in> set demo_infos. is_branch demo_infos ti \<longrightarrow> ?depth (tr_Parent ti) < ?depth (tr_ID ti)"
    by (simp_all add: demo_infos_def is_branch_def)
  moreover have "tr_ID (demo_infos ! 2) = ''c''" by (simp add: demo_infos_def)
  ultimately show ?thesis using fork_vectors_address [of demo_infos "demo_infos ! 2" ?depth] by metis
qed

text \<open>
  C23: an id minted for a trunk is a valid aria id of eight characters; it is never the id of the
  root or of a loadout, and different random bytes give different ids.
\<close>

theorem minted_ids_valid:
  assumes "length rnd = 4"
  shows "ValidateAriaID (hexTrunkID rnd) = None \<and> length (hexTrunkID rnd) = 8 \<and> hexTrunkID rnd \<noteq> rootID
    \<and> CHR ''@'' \<notin> set (hexTrunkID rnd) \<and> (hexTrunkID rnd = hexTrunkID rnd' \<longrightarrow> rnd = rnd')"
proof -
  have len: "length (hexTrunkID s) = 2 * length s" for s by (induction s) (simp_all add: hexTrunkID_def)
  have ids: "\<forall>c \<in> set (hexTrunkID rnd). id_char c" using hex_digit_id by (auto simp: hexTrunkID_def)
  then have "CHR ''@'' \<notin> set (hexTrunkID rnd)" by (auto simp: id_char_def)
  moreover have "hexTrunkID rnd \<noteq> rootID" using len [of rnd] assms by auto
  ultimately show ?thesis using len [of rnd] assms scan_id_ok [OF ids] hexTrunkID_inj
    by (auto simp: ValidateAriaID_def MaxAriaIDLen_def)
qed

theorem minted_ids_valid_witness: "ValidateAriaID (hexTrunkID [CHR 0x00, CHR 0xFF, CHR 0x1A, CHR 0x7E]) = None"
  using minted_ids_valid [of "[CHR 0x00, CHR 0xFF, CHR 0x1A, CHR 0x7E]"] by simp

text \<open>
  creating a loadout is idempotent and does not disturb any conversation: the same name and
  patch give the same id without touching the store again, the id is listed, and it reads back as
  the name and the content version it was made from.
\<close>

theorem loadout_created_once:
  assumes "figwal_store F" and "st_CreateLoadout F N name patch s = (Inr i, s')"
    and "\<forall>body ver. se_hash N body = Inr ver \<longrightarrow> CHR ''@'' \<notin> set ver"
  shows "st_CreateLoadout F N name patch s' = (Inr i, s') \<and> i \<in> set (fw_Stumps F (xs_trunks s'))
    \<and> same_trunks F (xs_trunks s) (xs_trunks s') \<and> contentVersion N patch = Inr (snd (splitLoadoutKey i))
    \<and> fst (splitLoadoutKey i) = name"
proof -
  note eff = figwal_store.CreateLoadout_effect [OF assms(1,2)]
  obtain ver where ver: "contentVersion N patch = Inr ver" "i = loadoutStump name ver" using eff(3) by blast
  then have "CHR ''@'' \<notin> set ver" using assms(3) by (auto simp: contentVersion_def split: option.splits)
  then have "splitLoadoutKey i = (name, ver)" using ver(2) split_stump by blast
  then show ?thesis using eff ver figwal_store.CreateLoadout_known [OF assms(1) ver(1)] by simp
qed

definition demo_env :: store_env where
  "demo_env = (let J = \<lparr>rc_marshal = (\<lambda>_. Some ''x''), rc_unmarshal = (\<lambda>_. None), rc_zero = zero_patch, rc_quote = (\<lambda>s. s), rc_unquote = Some\<rparr>
     in \<lparr>se_patch = J, se_snapshot = \<lparr>rc_marshal = (\<lambda>_. Some ''{}''), rc_unmarshal = (\<lambda>_. Some fmempty), rc_zero = fmempty, rc_quote = (\<lambda>s. s), rc_unquote = Some\<rparr>,
         se_message = \<lparr>rc_marshal = (\<lambda>_. Some ''m''), rc_unmarshal = (\<lambda>_. Some zero_message), rc_zero = zero_message, rc_quote = (\<lambda>s. s), rc_unquote = Some\<rparr>,
         se_hash = (\<lambda>_. Inr ''h1''), se_quote = (\<lambda>s. s), se_now = 5\<rparr>)"

lemmas store_demo = demo_env_def st_CreateLoadout_def contentVersion_def loadoutStump_def writeStumpBirth_def
  stampLoadout_def mem_sel on_stump_def add_record_def chan_of_def empty_wal_def Let_def

theorem loadout_created_once_witness:
  "let s = snd (st_CreateLoadout mem_figwal demo_env ''l'' zero_patch \<lparr>xs_trunks = empty_wal, xs_topology = None\<rparr>)
   in st_CreateLoadout mem_figwal demo_env ''l'' zero_patch s = (Inr ''l@h1'', s) \<and> splitLoadoutKey ''l@h1'' = (''l'', ''h1'')"
proof -
  let ?s0 = "\<lparr>xs_trunks = empty_wal, xs_topology = None\<rparr>"
  let ?s = "snd (st_CreateLoadout mem_figwal demo_env ''l'' zero_patch ?s0)"
  have first: "st_CreateLoadout mem_figwal demo_env ''l'' zero_patch ?s0 = (Inr ''l@h1'', ?s)" by (simp add: store_demo)
  have hash: "\<forall>body ver. se_hash demo_env body = Inr ver \<longrightarrow> CHR ''@'' \<notin> set ver" by (simp add: demo_env_def Let_def)
  have "contentVersion demo_env zero_patch = Inr ''h1''" by (simp add: store_demo)
  then show ?thesis
    using loadout_created_once [OF mem_forest.figwal_store_axioms first hash] by (auto simp: Let_def prod_eq_iff)
qed


text \<open>A forest whose stumps cannot be written.\<close>

definition full_figwal :: "mem_wal figwal" where
  "full_figwal = mem_figwal\<lparr>fw_StumpAppendMain := (\<lambda>w s p. Inl ''disk full'')\<rparr>"

lemma full_sel:
  "trunk_live full_figwal = trunk_live mem_figwal" "records full_figwal = records mem_figwal" "channel_bounds full_figwal = channel_bounds mem_figwal"
  "next_main full_figwal = next_main mem_figwal" "same_tree full_figwal = same_tree mem_figwal"
  "keeps_records full_figwal = keeps_records mem_figwal" "same_trunks full_figwal = same_trunks mem_figwal"
  "new_trunk full_figwal = new_trunk mem_figwal" "sets_channel full_figwal = sets_channel mem_figwal"
proof -
  show l: "trunk_live full_figwal = trunk_live mem_figwal" and b: "channel_bounds full_figwal = channel_bounds mem_figwal"
    and t: "same_tree full_figwal = same_tree mem_figwal"
    by (simp_all add: full_figwal_def trunk_live_def channel_bounds_def same_tree_def fun_eq_iff)
  have "read_ok full_figwal = read_ok mem_figwal" by (simp add: read_ok_def full_figwal_def fun_eq_iff)
  then show r: "records full_figwal = records mem_figwal" by (intro ext) (simp only: records_def b)
  show "next_main full_figwal = next_main mem_figwal" by (simp add: next_main_def r fun_eq_iff)
  show k: "keeps_records full_figwal = keeps_records mem_figwal" by (simp add: keeps_records_def l r fun_eq_iff)
  have "fw_Head full_figwal = fw_Head mem_figwal" by (simp add: full_figwal_def)
  then show "same_trunks full_figwal = same_trunks mem_figwal" "new_trunk full_figwal = new_trunk mem_figwal"
    "sets_channel full_figwal = sets_channel mem_figwal"
    by (simp_all add: same_trunks_def new_trunk_def sets_channel_def l k t r fun_eq_iff)
qed

interpretation full_forest: figwal_store full_figwal
  using mem_forest.figwal_store_axioms unfolding figwal_store_def full_sel by (simp add: full_figwal_def)


end
