(* ===== verification/Xwal_Backend.thy ===== *)
theory Xwal_Backend
  imports Xwal_Store
begin

section \<open>The backend over the tree (\<open>internal/store/xwal_backend.go\<close>)\<close>

text \<open>
  \<open>XwalBackend\<close> is the \<open>Backend\<close> of the daemon: the tree of arias with four caches over it, the
  row caches of open logs, the folded chalkboards, the summaries and the topology. The locks make
  each operation one step. A cached log keeps its inner log, here the forest; since all of them
  share one forest, the copy in a handle is brought up to date before each call. The summaries are
  files beside the forest; \<open>disk_outcome\<close> says how a write goes. \<open>Kick\<close>, which only wakes the
  flusher, is left out.
\<close>

record 'w aria_handle =
  ah_ir :: "('w, message) cached_log"
  ah_trans :: "(string, ('w, rawjson list) cached_log) fmap"

record chalk_cache =
  cc_ready :: bool
  cc_state :: snapshot
  cc_patches :: "(lt, patch list) fmap"

record meta_cache =
  mc_loaded :: bool
  mc_value :: "aria_meta option"

record 'w xwal_backend =
  xb_root :: string
  xb_store :: "'w xwal_store"
  xb_open :: "(string, 'w aria_handle) fmap"
  xb_chalk :: "(string, chalk_cache) fmap"
  xb_metas :: "(string, meta_cache) fmap"
  xb_files :: "(string, string) fmap"

text \<open>JSON at the types of the backend; a failed \<open>Unmarshal\<close> is \<open>None\<close>.\<close>

record backend_env =
  bk_store :: store_env
  bk_rows :: "rawjson list row_codec"
  bk_encMeta :: "aria_meta option \<Rightarrow> string"
  bk_decMeta :: "string \<Rightarrow> aria_meta option"

abbreviation xb_w :: "'w xwal_backend \<Rightarrow> 'w" where
  "xb_w b \<equiv> xs_trunks (xb_store b)"

definition set_w :: "'w \<Rightarrow> 'w xwal_backend \<Rightarrow> 'w xwal_backend" where
  "set_w w b = b\<lparr>xb_store := (xb_store b)\<lparr>xs_trunks := w\<rparr>\<rparr>"

definition fresh_backend :: "string \<Rightarrow> 'w xwal_store \<Rightarrow> (string, string) fmap \<Rightarrow> 'w xwal_backend" where
  "fresh_backend dir s files =
     \<lparr>xb_root = dir, xb_store = s, xb_open = fmempty, xb_chalk = fmempty, xb_metas = fmempty, xb_files = files\<rparr>"

definition NewXwalBackend :: "string \<Rightarrow> string option \<Rightarrow> string + 'w \<Rightarrow> (string, string) fmap \<Rightarrow> string + 'w xwal_backend" where
  "NewXwalBackend dir mkdir opened files =
     (case OpenXwalStore dir mkdir opened of Inl err \<Rightarrow> Inl err | Inr s \<Rightarrow> Inr (fresh_backend dir s files))"

subsection \<open>Open logs\<close>

abbreviation ir_read :: "'w figwal \<Rightarrow> backend_env \<Rightarrow> string \<Rightarrow> 'w \<Rightarrow> message log_entry list" where
  "ir_read F E i \<equiv> xl_Read F (se_message (bk_store E)) i chanIR"

abbreviation trans_read :: "'w figwal \<Rightarrow> backend_env \<Rightarrow> string \<Rightarrow> string \<Rightarrow> 'w \<Rightarrow> rawjson list log_entry list" where
  "trans_read F E i ns \<equiv> xl_Read F (bk_rows E) i (transChannel ns)"

definition handleLocked :: "'w figwal \<Rightarrow> backend_env \<Rightarrow> string \<Rightarrow> 'w xwal_backend \<Rightarrow> (string + 'w aria_handle) \<times> 'w xwal_backend" where
  "handleLocked F E i b =
     (case fmlookup (xb_open b) i of
        Some h \<Rightarrow> (Inr h, b)
      | None \<Rightarrow>
          (case OpenNode F (xb_store b) i of
             Some err \<Rightarrow> (Inl err, b)
           | None \<Rightarrow>
               (let h = \<lparr>ah_ir = newCachedLog (ir_read F E i) (xb_w b), ah_trans = fmempty\<rparr>
                in (Inr h, b\<lparr>xb_open := fmupd i h (xb_open b)\<rparr>))))"

definition xb_Open :: "'w figwal \<Rightarrow> backend_env \<Rightarrow> string \<Rightarrow> 'w xwal_backend \<Rightarrow> (string + ('w, message) cached_log) \<times> 'w xwal_backend" where
  "xb_Open F E i b =
     (case handleLocked F E i b of
        (Inl err, b1) \<Rightarrow> (Inl err, b1)
      | (Inr h, b1) \<Rightarrow> (Inr ((ah_ir h)\<lparr>cl_inner := xb_w b1\<rparr>), b1))"

definition xb_OpenTranslation ::
  "'w figwal \<Rightarrow> backend_env \<Rightarrow> string \<Rightarrow> string \<Rightarrow> 'w xwal_backend \<Rightarrow> (string + ('w, rawjson list) cached_log) \<times> 'w xwal_backend" where
  "xb_OpenTranslation F E i ns b =
     (case handleLocked F E i b of
        (Inl err, b1) \<Rightarrow> (Inl err, b1)
      | (Inr h, b1) \<Rightarrow>
          (case fmlookup (ah_trans h) ns of
             Some c \<Rightarrow> (Inr (c\<lparr>cl_inner := xb_w b1\<rparr>), b1)
           | None \<Rightarrow>
               (let c = newCachedLog (trans_read F E i ns) (xb_w b1)
                in (Inr c, b1\<lparr>xb_open := fmupd i (h\<lparr>ah_trans := fmupd ns c (ah_trans h)\<rparr>) (xb_open b1)\<rparr>))))"

text \<open>The writes through the logs that \<open>Open\<close> and \<open>OpenTranslation\<close> return.\<close>

definition ir_Append ::
  "'w figwal \<Rightarrow> backend_env \<Rightarrow> string \<Rightarrow> message log_entry \<Rightarrow> 'w xwal_backend \<Rightarrow> string + (message log_entry \<times> 'w xwal_backend)" where
  "ir_Append F E i e b =
     (case fmlookup (xb_open b) i of
        None \<Rightarrow> Inl ''log is not open''
      | Some h \<Rightarrow>
          (case cl_Append (xl_Append F (se_message (bk_store E)) i chanIR True) ((ah_ir h)\<lparr>cl_inner := xb_w b\<rparr>) e of
             Inl err \<Rightarrow> Inl err
           | Inr (e', c) \<Rightarrow> Inr (e', (set_w (cl_inner c) b)\<lparr>xb_open := fmupd i (h\<lparr>ah_ir := c\<rparr>) (xb_open b)\<rparr>)))"

definition trans_Append ::
  "'w figwal \<Rightarrow> backend_env \<Rightarrow> string \<Rightarrow> string \<Rightarrow> rawjson list log_entry \<Rightarrow> 'w xwal_backend
     \<Rightarrow> string + (rawjson list log_entry \<times> 'w xwal_backend)" where
  "trans_Append F E i ns e b =
     (case xb_OpenTranslation F E i ns b of
        (Inl err, _) \<Rightarrow> Inl err
      | (Inr c0, b1) \<Rightarrow>
          (case cl_Append (xl_Append F (bk_rows E) i (transChannel ns) False) c0 e of
             Inl err \<Rightarrow> Inl err
           | Inr (e', c) \<Rightarrow>
               (let h = the (fmlookup (xb_open b1) i)
                in Inr (e', (set_w (cl_inner c) b1)\<lparr>xb_open := fmupd i (h\<lparr>ah_trans := fmupd ns c (ah_trans h)\<rparr>) (xb_open b1)\<rparr>))))"

definition trans_Clear :: "'w figwal \<Rightarrow> backend_env \<Rightarrow> string \<Rightarrow> string \<Rightarrow> 'w xwal_backend \<Rightarrow> string + 'w xwal_backend" where
  "trans_Clear F E i ns b =
     (case xb_OpenTranslation F E i ns b of
        (Inl err, _) \<Rightarrow> Inl err
      | (Inr c0, b1) \<Rightarrow>
          (case cl_Clear (xl_Clear F i (transChannel ns)) c0 of
             Inl err \<Rightarrow> Inl err
           | Inr c \<Rightarrow>
               (let h = the (fmlookup (xb_open b1) i)
                in Inr ((set_w (cl_inner c) b1)\<lparr>xb_open := fmupd i (h\<lparr>ah_trans := fmupd ns c (ah_trans h)\<rparr>) (xb_open b1)\<rparr>))))"

subsection \<open>The chalkboard channel\<close>

definition empty_chalk :: chalk_cache where
  "empty_chalk = \<lparr>cc_ready = False, cc_state = fmempty, cc_patches = fmempty\<rparr>"

definition chalkCache :: "string \<Rightarrow> 'w xwal_backend \<Rightarrow> chalk_cache \<times> 'w xwal_backend" where
  "chalkCache i b =
     (case fmlookup (xb_chalk b) i of
        Some c \<Rightarrow> (c, b)
      | None \<Rightarrow> (empty_chalk, b\<lparr>xb_chalk := fmupd i empty_chalk (xb_chalk b)\<rparr>))"

definition add_patch :: "lt \<Rightarrow> patch \<Rightarrow> (lt, patch list) fmap \<Rightarrow> (lt, patch list) fmap" where
  "add_patch k p m = (if \<not> patch_IsEmpty p then fmupd k ((case fmlookup m k of Some ps \<Rightarrow> ps | None \<Rightarrow> []) @ [p]) m else m)"

text \<open>The loop of \<open>loadChalkboardLocked\<close>; it sets and then deletes key by key, which is \<open>Apply\<close>.\<close>

fun chalk_loop ::
  "(lt \<Rightarrow> string + xwal_record) \<Rightarrow> patch row_codec \<Rightarrow> lt list \<Rightarrow> snapshot \<times> (lt, patch list) fmap
     \<Rightarrow> string + (snapshot \<times> (lt, patch list) fmap)" where
  "chalk_loop rd J [] acc = Inr acc"
| "chalk_loop rd J (t # ts) acc =
     (case rd t of
        Inl err \<Rightarrow> Inl err
      | Inr rec \<Rightarrow>
          (case rc_unmarshal J (xr_Payload rec) of
             None \<Rightarrow> Inl ''unmarshal''
           | Some p \<Rightarrow> chalk_loop rd J ts (fold fmdrop (p_remove p) (fst acc ++\<^sub>f p_set p), add_patch (xr_MainLT rec) p (snd acc))))"

definition load_chalk :: "'w figwal \<Rightarrow> backend_env \<Rightarrow> string \<Rightarrow> 'w xwal_store \<Rightarrow> string + (snapshot \<times> (lt, patch list) fmap)" where
  "load_chalk F E i s =
     (case OpenNode F s i of
        Some err \<Rightarrow> Inl err
      | None \<Rightarrow> chalk_loop (fw_ReadAt F (xs_trunks s) i chanChalkboard) (se_patch (bk_store E))
                  (times_of (channel_bounds F (xs_trunks s) i chanChalkboard)) (fmempty, fmempty))"

definition loadChalkboardLocked :: "'w figwal \<Rightarrow> backend_env \<Rightarrow> string \<Rightarrow> 'w xwal_store \<Rightarrow> chalk_cache \<Rightarrow> string + chalk_cache" where
  "loadChalkboardLocked F E i s c =
     (if cc_ready c then Inr c
      else case load_chalk F E i s of
             Inl err \<Rightarrow> Inl err
           | Inr (state, patches) \<Rightarrow> Inr \<lparr>cc_ready = True, cc_state = state, cc_patches = patches\<rparr>)"

definition with_chalk ::
  "'w figwal \<Rightarrow> backend_env \<Rightarrow> string \<Rightarrow> (chalk_cache \<Rightarrow> 'v) \<Rightarrow> 'w xwal_backend \<Rightarrow> (string + 'v) \<times> 'w xwal_backend" where
  "with_chalk F E i out b =
     (let (c, b1) = chalkCache i b
      in case loadChalkboardLocked F E i (xb_store b1) c of
           Inl err \<Rightarrow> (Inl err, b1)
         | Inr c' \<Rightarrow> (Inr (out c'), b1\<lparr>xb_chalk := fmupd i c' (xb_chalk b1)\<rparr>))"

definition xb_ChalkboardState :: "'w figwal \<Rightarrow> backend_env \<Rightarrow> string \<Rightarrow> 'w xwal_backend \<Rightarrow> (string + snapshot) \<times> 'w xwal_backend" where
  "xb_ChalkboardState F E i b = with_chalk F E i cc_state b"

definition xb_ChalkboardPatches :: "'w figwal \<Rightarrow> backend_env \<Rightarrow> string \<Rightarrow> 'w xwal_backend \<Rightarrow> (string + (lt, patch list) fmap) \<times> 'w xwal_backend" where
  "xb_ChalkboardPatches F E i b = with_chalk F E i cc_patches b"

definition xb_ApplyChalkboard :: "'w figwal \<Rightarrow> backend_env \<Rightarrow> string \<Rightarrow> patch \<Rightarrow> 'w xwal_backend \<Rightarrow> string option \<times> 'w xwal_backend" where
  "xb_ApplyChalkboard F E i p b =
     (let pb = (case rc_marshal (se_patch (bk_store E)) p of Some raw \<Rightarrow> raw | None \<Rightarrow> []);
          (c, b1) = chalkCache i b;
          mainLT = (if cc_ready c then
                      (case fmlookup (xb_open b1) i of
                         Some h \<Rightarrow> (case cl_PeekTail (ah_ir h) of Some tail \<Rightarrow> LT tail + 1 | None \<Rightarrow> 1)
                       | None \<Rightarrow> 0)
                    else 0)
      in case fw_Append F (xb_w b1) i chanChalkboard 0 pb [] of
           Inl err \<Rightarrow> (Some err, b1)
         | Inr (_, w) \<Rightarrow>
             (let c' = (if cc_ready c \<and> mainLT > 0
                        then c\<lparr>cc_state := snap_Apply (cc_state c) p, cc_patches := add_patch mainLT p (cc_patches c)\<rparr>
                        else c\<lparr>cc_ready := False\<rparr>)
              in (None, (set_w w b1)\<lparr>xb_chalk := fmupd i c' (xb_chalk b1)\<rparr>)))"

subsection \<open>The summaries\<close>

datatype disk_outcome = DiskOk | MkdirFails string | WriteFails string string | RenameFails string

definition metaPath :: "string \<Rightarrow> string \<Rightarrow> string" where
  "metaPath dir i = dir @ ''/_meta/'' @ i @ ''.json''"

text \<open>\<open>io\<close> is an error of \<open>os.ReadFile\<close> other than a missing file.\<close>

definition readJSON :: "(string \<Rightarrow> 'v option) \<Rightarrow> string option \<Rightarrow> string \<Rightarrow> (string, string) fmap \<Rightarrow> string + 'v option" where
  "readJSON dec io path files =
     (case fmlookup files path of
        None \<Rightarrow> Inr None
      | Some data \<Rightarrow>
          (case io of
             Some err \<Rightarrow> Inl err
           | None \<Rightarrow> (case dec data of None \<Rightarrow> Inl ''unmarshal'' | Some v \<Rightarrow> Inr (Some v))))"

definition writeJSON :: "disk_outcome \<Rightarrow> string \<Rightarrow> string \<Rightarrow> (string, string) fmap \<Rightarrow> string option \<times> (string, string) fmap" where
  "writeJSON oc path body files =
     (let tmp = path @ ''.tmp''
      in case oc of
           MkdirFails err \<Rightarrow> (Some err, files)
         | WriteFails err junk \<Rightarrow> (Some err, fmupd tmp junk files)
         | RenameFails err \<Rightarrow> (Some err, fmupd tmp body files)
         | DiskOk \<Rightarrow> (None, fmupd path body (fmdrop tmp files)))"

definition empty_meta :: meta_cache where
  "empty_meta = \<lparr>mc_loaded = False, mc_value = None\<rparr>"

definition metaCache :: "string \<Rightarrow> 'w xwal_backend \<Rightarrow> meta_cache \<times> 'w xwal_backend" where
  "metaCache i b =
     (case fmlookup (xb_metas b) i of
        Some c \<Rightarrow> (c, b)
      | None \<Rightarrow> (empty_meta, b\<lparr>xb_metas := fmupd i empty_meta (xb_metas b)\<rparr>))"

definition xb_Meta :: "backend_env \<Rightarrow> string option \<Rightarrow> string \<Rightarrow> 'w xwal_backend \<Rightarrow> (string + aria_meta option) \<times> 'w xwal_backend" where
  "xb_Meta E io i b =
     (let (c, b1) = metaCache i b
      in if mc_loaded c then (Inr (mc_value c), b1)
         else case readJSON (bk_decMeta E) io (metaPath (xb_root b1) i) (xb_files b1) of
                Inl err \<Rightarrow> (Inl err, b1)
              | Inr v \<Rightarrow> (Inr v, b1\<lparr>xb_metas := fmupd i \<lparr>mc_loaded = True, mc_value = v\<rparr> (xb_metas b1)\<rparr>))"

definition xb_SetMeta :: "backend_env \<Rightarrow> disk_outcome \<Rightarrow> string \<Rightarrow> aria_meta option \<Rightarrow> 'w xwal_backend \<Rightarrow> string option \<times> 'w xwal_backend" where
  "xb_SetMeta E oc i meta b =
     (let (c, b1) = metaCache i b
      in case writeJSON oc (metaPath (xb_root b1) i) (bk_encMeta E meta) (xb_files b1) of
           (Some err, files) \<Rightarrow> (Some err, b1\<lparr>xb_files := files\<rparr>)
         | (None, files) \<Rightarrow> (None, b1\<lparr>xb_files := files, xb_metas := fmupd i \<lparr>mc_loaded = True, mc_value = meta\<rparr> (xb_metas b1)\<rparr>))"

subsection \<open>The tree\<close>

definition xb_CreateLoadout :: "'w figwal \<Rightarrow> backend_env \<Rightarrow> string \<Rightarrow> patch \<Rightarrow> 'w xwal_backend \<Rightarrow> (string + string) \<times> 'w xwal_backend" where
  "xb_CreateLoadout F E name p b =
     (case st_CreateLoadout F (bk_store E) name p (xb_store b) of (r, s) \<Rightarrow> (r, b\<lparr>xb_store := s\<rparr>))"

definition xb_CreateConversation :: "'w figwal \<Rightarrow> string \<Rightarrow> 'w xwal_backend \<Rightarrow> string + (string \<times> 'w xwal_backend)" where
  "xb_CreateConversation F l b =
     (case st_CreateConversation F l (xb_store b) of Inl err \<Rightarrow> Inl err | Inr (i, s) \<Rightarrow> Inr (i, b\<lparr>xb_store := s\<rparr>))"

definition xb_Fork :: "'w figwal \<Rightarrow> string \<Rightarrow> 'w xwal_backend \<Rightarrow> string + ((string \<times> string) \<times> 'w xwal_backend)" where
  "xb_Fork F i b = (case st_Fork F i (xb_store b) of Inl err \<Rightarrow> Inl err | Inr (r, s) \<Rightarrow> Inr (r, b\<lparr>xb_store := s\<rparr>))"

definition xb_ForkAt :: "'w figwal \<Rightarrow> string \<Rightarrow> lt \<Rightarrow> 'w xwal_backend \<Rightarrow> string + ((string \<times> string) \<times> 'w xwal_backend)" where
  "xb_ForkAt F i t b = (case st_ForkAt F i t (xb_store b) of Inl err \<Rightarrow> Inl err | Inr (r, s) \<Rightarrow> Inr (r, b\<lparr>xb_store := s\<rparr>))"

definition xb_Promote :: "'w figwal \<Rightarrow> string \<Rightarrow> int \<Rightarrow> 'w xwal_backend \<Rightarrow> promote_error + (int \<times> 'w xwal_backend)" where
  "xb_Promote F i n b = (case st_Promote F i n (xb_store b) of Inl err \<Rightarrow> Inl err | Inr (c, s) \<Rightarrow> Inr (c, b\<lparr>xb_store := s\<rparr>))"

definition OwnerResolution :: "'w figwal \<Rightarrow> string \<Rightarrow> lt \<Rightarrow> 'w xwal_backend \<Rightarrow> string + owner_info" where
  "OwnerResolution F i t b =
     (case OwnerOf F i t (xb_store b) of
        Inl err \<Rightarrow> Inl err
      | Inr ow \<Rightarrow> Inr \<lparr>ow_Trunk = xo_Trunk ow, ow_Loadout = xo_Stump ow, ow_IsRoot = xo_IsRoot ow\<rparr>)"

definition on_store :: "('w xwal_store \<Rightarrow> 'v \<times> 'w xwal_store) \<Rightarrow> 'w xwal_backend \<Rightarrow> 'v \<times> 'w xwal_backend" where
  "on_store f b = (case f (xb_store b) of (v, s) \<Rightarrow> (v, b\<lparr>xb_store := s\<rparr>))"

definition dropHandle :: "string \<Rightarrow> 'w xwal_backend \<Rightarrow> 'w xwal_backend" where
  "dropHandle i b = b\<lparr>xb_open := fmdrop i (xb_open b)\<rparr>"

definition xb_Remove :: "'w figwal \<Rightarrow> string \<Rightarrow> bool \<Rightarrow> 'w xwal_backend \<Rightarrow> string option \<times> 'w xwal_backend" where
  "xb_Remove F i recursive b =
     (let b1 = dropHandle i b;
          b2 = b1\<lparr>xb_chalk := fmdrop i (xb_chalk b1), xb_metas := fmdrop i (xb_metas b1)\<rparr>;
          b3 = b2\<lparr>xb_files := fmdrop (metaPath (xb_root b2) i) (xb_files b2)\<rparr>
      in on_store (RemoveLeaf F i recursive) b3)"

definition xb_Close :: "'w xwal_backend \<Rightarrow> 'w xwal_backend" where
  "xb_Close b = b\<lparr>xb_open := fmempty, xb_chalk := fmempty, xb_metas := fmempty\<rparr>"

subsection \<open>A run of the backend\<close>

datatype backend_op =
    DoOpen string
  | DoOpenTranslation string string
  | DoAppend string "message log_entry"
  | DoAppendTranslation string string "rawjson list log_entry"
  | DoClearTranslation string string
  | DoState string
  | DoPatches string
  | DoApply string patch
  | DoMeta string "string option"
  | DoSetMeta string "aria_meta option" disk_outcome
  | DoLoadout string patch
  | DoConversation string
  | DoFork string
  | DoForkAt string lt
  | DoPromote string int
  | DoNodes
  | DoRemove string bool

definition succ_or :: "'w xwal_backend \<Rightarrow> 'e + ('v \<times> 'w xwal_backend) \<Rightarrow> 'w xwal_backend" where
  "succ_or b r = (case r of Inl _ \<Rightarrow> b | Inr (_, b') \<Rightarrow> b')"

fun xb_step :: "'w figwal \<Rightarrow> backend_env \<Rightarrow> 'w xwal_backend \<Rightarrow> backend_op \<Rightarrow> 'w xwal_backend" where
  "xb_step F E b (DoOpen i) = snd (xb_Open F E i b)"
| "xb_step F E b (DoOpenTranslation i ns) = snd (xb_OpenTranslation F E i ns b)"
| "xb_step F E b (DoAppend i e) = succ_or b (ir_Append F E i e b)"
| "xb_step F E b (DoAppendTranslation i ns e) = succ_or b (trans_Append F E i ns e b)"
| "xb_step F E b (DoClearTranslation i ns) = (case trans_Clear F E i ns b of Inl _ \<Rightarrow> b | Inr b' \<Rightarrow> b')"
| "xb_step F E b (DoState i) = snd (xb_ChalkboardState F E i b)"
| "xb_step F E b (DoPatches i) = snd (xb_ChalkboardPatches F E i b)"
| "xb_step F E b (DoApply i p) = snd (xb_ApplyChalkboard F E i p b)"
| "xb_step F E b (DoMeta i io) = snd (xb_Meta E io i b)"
| "xb_step F E b (DoSetMeta i m oc) = snd (xb_SetMeta E oc i m b)"
| "xb_step F E b (DoLoadout name p) = snd (xb_CreateLoadout F E name p b)"
| "xb_step F E b (DoConversation l) = succ_or b (xb_CreateConversation F l b)"
| "xb_step F E b (DoFork i) = succ_or b (xb_Fork F i b)"
| "xb_step F E b (DoForkAt i t) = succ_or b (xb_ForkAt F i t b)"
| "xb_step F E b (DoPromote i n) = succ_or b (xb_Promote F i n b)"
| "xb_step F E b DoNodes = snd (on_store (topologySnapshot F) b)"
| "xb_step F E b (DoRemove i recursive) = snd (xb_Remove F i recursive b)"

text \<open>
  What is asked of the calls: rows, patches and summaries that JSON does not change, translations
  keyed to a message, a chalkboard write only while the last message of the log decodes, and no
  recursive removal.
\<close>

fun op_ok :: "'w figwal \<Rightarrow> backend_env \<Rightarrow> 'w xwal_backend \<Rightarrow> backend_op \<Rightarrow> bool" where
  "op_ok F E b (DoAppend i e) = stable_row (se_message (bk_store E)) e"
| "op_ok F E b (DoAppendTranslation i ns e) = (stable_row (bk_rows E) e \<and> FigaroLT e \<noteq> 0)"
| "op_ok F E b (DoApply i p) = ((case rc_marshal (se_patch (bk_store E)) p of
      None \<Rightarrow> False | Some raw \<Rightarrow> rc_unmarshal (se_patch (bk_store E)) raw = Some p)
    \<and> (records F (xb_w b) i chanIR = [] \<or> decodeRecord (se_message (bk_store E)) (last (records F (xb_w b) i chanIR)) \<noteq> None))"
| "op_ok F E b (DoSetMeta i m oc) = (m \<noteq> None \<and> bk_decMeta E (bk_encMeta E m) = m)"
| "op_ok F E b (DoRemove i recursive) = (\<not> recursive)"
| "op_ok F E b _ = True"

fun run_ok :: "'w figwal \<Rightarrow> backend_env \<Rightarrow> 'w xwal_backend \<Rightarrow> backend_op list \<Rightarrow> bool" where
  "run_ok F E b [] = True"
| "run_ok F E b (op # ops) = (op_ok F E b op \<and> run_ok F E (xb_step F E b op) ops)"

subsection \<open>Coherence of the caches\<close>

definition log_current :: "('w \<Rightarrow> 'a log_entry list) \<Rightarrow> 'w \<Rightarrow> ('w, 'a) cached_log \<Rightarrow> bool" where
  "log_current rd w c \<longleftrightarrow> cl_rows c = rd w \<and> cl_byFK c = fk_index (rd w)"

definition handle_current :: "'w figwal \<Rightarrow> backend_env \<Rightarrow> 'w \<Rightarrow> string \<Rightarrow> 'w aria_handle \<Rightarrow> bool" where
  "handle_current F E w i h \<longleftrightarrow> log_current (ir_read F E i) w (ah_ir h)
     \<and> (\<forall>ns c. fmlookup (ah_trans h) ns = Some c \<longrightarrow> log_current (trans_read F E i ns) w c)"

definition opens_current :: "'w figwal \<Rightarrow> backend_env \<Rightarrow> 'w xwal_backend \<Rightarrow> bool" where
  "opens_current F E b \<longleftrightarrow> (\<forall>i h. fmlookup (xb_open b) i = Some h \<longrightarrow> trunk_live F (xb_w b) i \<and> handle_current F E (xb_w b) i h)"

definition chalks_current :: "'w figwal \<Rightarrow> backend_env \<Rightarrow> 'w xwal_backend \<Rightarrow> bool" where
  "chalks_current F E b \<longleftrightarrow> (\<forall>i c. fmlookup (xb_chalk b) i = Some c \<longrightarrow> cc_ready c \<longrightarrow>
     trunk_live F (xb_w b) i \<and> load_chalk F E i (xb_store b) = Inr (cc_state c, cc_patches c))"

definition metas_current :: "backend_env \<Rightarrow> 'w xwal_backend \<Rightarrow> bool" where
  "metas_current E b \<longleftrightarrow> (\<forall>i c. fmlookup (xb_metas b) i = Some c \<longrightarrow> mc_loaded c \<longrightarrow>
     readJSON (bk_decMeta E) None (metaPath (xb_root b) i) (xb_files b) = Inr (mc_value c))"

definition coherent :: "'w figwal \<Rightarrow> backend_env \<Rightarrow> 'w xwal_backend \<Rightarrow> bool" where
  "coherent F E b \<longleftrightarrow> opens_current F E b \<and> chalks_current F E b \<and> metas_current E b
     \<and> topology_ok F (xb_w b) (xs_topology (xb_store b))"

lemmas coherent_parts = coherent_def opens_current_def chalks_current_def metas_current_def

lemma newCachedLog_current: "log_current rd w (newCachedLog rd w)" "cl_inner (newCachedLog rd w) = w"
  by (simp_all add: newCachedLog_def cl_load_eq log_current_def)

lemma log_current_unique: "log_current rd w c \<Longrightarrow> c\<lparr>cl_inner := w\<rparr> = newCachedLog rd w"
  by (simp add: newCachedLog_def cl_load_eq log_current_def)

lemma log_current_cong: "rd w' = rd w \<Longrightarrow> log_current rd w' c = log_current rd w c"
  by (simp add: log_current_def)

lemma set_w_sel [simp]:
  "xb_w (set_w w b) = w" "xb_root (set_w w b) = xb_root b" "xb_open (set_w w b) = xb_open b" "xb_chalk (set_w w b) = xb_chalk b"
  "xb_metas (set_w w b) = xb_metas b" "xb_files (set_w w b) = xb_files b" "xs_topology (xb_store (set_w w b)) = xs_topology (xb_store b)"
  by (simp_all add: set_w_def)

context figwal_store
begin

text \<open>Loading a chalkboard is a fold over the records of its channel.\<close>

fun fold_chalk :: "patch row_codec \<Rightarrow> xwal_record list \<Rightarrow> snapshot \<times> (lt, patch list) fmap \<Rightarrow> string + (snapshot \<times> (lt, patch list) fmap)" where
  "fold_chalk J [] acc = Inr acc"
| "fold_chalk J (r # rs) acc =
     (case rc_unmarshal J (xr_Payload r) of
        None \<Rightarrow> Inl ''unmarshal''
      | Some p \<Rightarrow> fold_chalk J rs (snap_Apply (fst acc) p, add_patch (xr_MainLT r) p (snd acc)))"

lemma fold_chalk_append:
  "fold_chalk J (rs @ rs') acc = (case fold_chalk J rs acc of Inl err \<Rightarrow> Inl err | Inr acc' \<Rightarrow> fold_chalk J rs' acc')"
  by (induction J rs acc rule: fold_chalk.induct) (auto split: option.split)

lemma load_chalk_records:
  assumes "trunk_live F (xs_trunks s) i"
  shows "load_chalk F E i s = fold_chalk (se_patch (bk_store E)) (records F (xs_trunks s) i chanChalkboard) (fmempty, fmempty)"
proof -
  have "chalk_loop (fw_ReadAt F w i ch) J ts acc = fold_chalk J (concat (map (read_ok F w i ch) ts)) acc"
    if "\<forall>t \<in> set ts. \<exists>r. fw_ReadAt F w i ch t = Inr r" for w ch J ts acc
    using that by (induction ts arbitrary: acc) (auto simp: read_ok_def snap_Apply_def split: option.split)
  with readable [OF assms] assms show ?thesis by (simp add: load_chalk_def OpenNode_def trunk_live_def records_def)
qed

text \<open>The caches of arias whose records stay are still current.\<close>

lemma coherent_frame:
  assumes "coherent F E b" and "same_tree F (xb_w b) w'"
    and "\<And>j. trunk_live F (xb_w b) j \<Longrightarrow> fmlookup (xb_open b) j \<noteq> None \<or> fmlookup (xb_chalk b) j \<noteq> None \<Longrightarrow>
      trunk_live F w' j \<and> (\<forall>ch. records F w' j ch = records F (xb_w b) j ch)"
  shows "coherent F E (set_w w' b)"
proof -
  have "trunk_live F w' j \<and> handle_current F E w' j h" if h: "fmlookup (xb_open b) j = Some h" for j h
  proof -
    have l: "trunk_live F (xb_w b) j" "handle_current F E (xb_w b) j h" using assms(1) h by (auto simp: coherent_parts)
    moreover have l': "trunk_live F w' j" "\<And>ch. records F w' j ch = records F (xb_w b) j ch" using assms(3) [OF l(1)] h by auto
    ultimately show ?thesis by (auto simp: handle_current_def xl_Read_records log_current_def)
  qed
  moreover have "trunk_live F w' j \<and> load_chalk F E j (xb_store (set_w w' b)) = Inr (cc_state c, cc_patches c)"
    if c: "fmlookup (xb_chalk b) j = Some c" "cc_ready c" for j c
  proof -
    have l: "trunk_live F (xb_w b) j" "load_chalk F E j (xb_store b) = Inr (cc_state c, cc_patches c)"
      using assms(1) c by (auto simp: coherent_parts)
    moreover have l': "trunk_live F w' j" "\<And>ch. records F w' j ch = records F (xb_w b) j ch" using assms(3) [OF l(1)] c by auto
    ultimately show ?thesis by (simp add: load_chalk_records)
  qed
  ultimately show ?thesis using assms(1,2) topology_ok_step by (auto simp: coherent_parts)
qed

lemma coherent_same: "coherent F E b \<Longrightarrow> same_trunks F (xb_w b) w' \<Longrightarrow> coherent F E (set_w w' b)"
  by (rule coherent_frame) (auto simp: same_trunks_def keeps_records_def)

lemma coherent_new: "coherent F E b \<Longrightarrow> new_trunk F (xb_w b) i w' \<Longrightarrow> coherent F E (set_w w' b)"
  by (rule coherent_frame) (auto simp: new_trunk_def keeps_records_def)

end

subsection \<open>Every operation keeps the caches current\<close>

lemma transChannel_other [simp]: "transChannel ns \<noteq> chanIR" "chanIR \<noteq> transChannel ns" "transChannel ns \<noteq> chanChalkboard" "transChannel ns = transChannel ms \<longleftrightarrow> ns = ms"
  by (simp_all add: transChannel_def)

context figwal_store
begin

lemma sets_channel_live: "sets_channel F w i ch rs w' \<Longrightarrow> trunk_live F w' j = trunk_live F w j"
  by (simp add: sets_channel_def trunk_live_def)

lemma sets_channel_records: "sets_channel F w i ch rs w' \<Longrightarrow> trunk_live F w j \<Longrightarrow> records F w' j c = (if j = i \<and> c = ch then rs else records F w j c)"
  by (simp add: sets_channel_def)

text \<open>A write to one channel of an aria, with the aria's handle replaced.\<close>

lemma coherent_write:
  assumes coh: "coherent F E b" and st: "sets_channel F (xb_w b) i ch rs w'" and "ch \<noteq> chanChalkboard"
    and "handle_current F E w' i h'"
  shows "coherent F E ((set_w w' b)\<lparr>xb_open := fmupd i h' (xb_open b)\<rparr>)"
proof -
  note sr = sets_channel_records [OF st] and sl = sets_channel_live [OF st]
  have "trunk_live F w' j \<and> handle_current F E w' j h" if "fmlookup (fmupd i h' (xb_open b)) j = Some h" for j h
  proof (cases "j = i")
    case True
    then show ?thesis using that assms(4) st sl by (auto simp: sets_channel_def)
  next
    case False
    then have "trunk_live F (xb_w b) j" "handle_current F E (xb_w b) j h" using that coh by (auto simp: coherent_parts)
    with False show ?thesis by (simp add: handle_current_def log_current_def xl_Read_records sl sr)
  qed
  moreover have "trunk_live F w' j \<and> load_chalk F E j (xb_store (set_w w' b)) = Inr (cc_state c, cc_patches c)"
    if "fmlookup (xb_chalk b) j = Some c" "cc_ready c" for j c
  proof -
    have "trunk_live F (xb_w b) j" "load_chalk F E j (xb_store b) = Inr (cc_state c, cc_patches c)" using coh that by (auto simp: coherent_parts)
    with \<open>ch \<noteq> chanChalkboard\<close> show ?thesis by (simp add: load_chalk_records sl sr)
  qed
  moreover have "topology_ok F w' (xs_topology (xb_store b))"
    using coh st topology_ok_step by (auto simp: coherent_def sets_channel_def)
  ultimately show ?thesis using coh by (auto simp: coherent_parts)
qed

lemma handle_coherent:
  assumes "coherent F E b" and "handleLocked F E i b = (res, b')"
  shows "coherent F E b'" "xb_store b' = xb_store b" "xb_files b' = xb_files b" "xb_root b' = xb_root b"
    and "res = Inr h \<Longrightarrow> fmlookup (xb_open b') i = Some h \<and> trunk_live F (xb_w b) i \<and> handle_current F E (xb_w b) i h"
    and "res = Inl err \<Longrightarrow> \<not> trunk_live F (xb_w b) i"
  using assms newCachedLog_current
  by (auto simp: handleLocked_def Let_def OpenNode_def coherent_parts trunk_live_def handle_current_def split: option.splits if_splits)

lemma Open_coherent: "coherent F E b \<Longrightarrow> coherent F E (snd (xb_Open F E i b))"
  using handle_coherent(1) by (auto simp: xb_Open_def split: prod.splits sum.splits)

lemma OpenTranslation_coherent:
  assumes "coherent F E b" and "xb_OpenTranslation F E i ns b = (res, b')"
  shows "coherent F E b'" "xb_store b' = xb_store b"
    and "res = Inr c \<Longrightarrow> trunk_live F (xb_w b) i \<and> c = newCachedLog (trans_read F E i ns) (xb_w b)
      \<and> (\<exists>h. fmlookup (xb_open b') i = Some h \<and> handle_current F E (xb_w b) i h)"
proof -
  obtain r b1 where h1: "handleLocked F E i b = (r, b1)" by fastforce
  note H = handle_coherent [OF assms(1) h1]
  have "coherent F E b' \<and> xb_store b' = xb_store b \<and> (res = Inr c \<longrightarrow> trunk_live F (xb_w b) i \<and> c = newCachedLog (trans_read F E i ns) (xb_w b)
      \<and> (\<exists>h. fmlookup (xb_open b') i = Some h \<and> handle_current F E (xb_w b) i h))"
  proof (cases r)
    case (Inl err)
    then show ?thesis using assms(2) h1 H by (auto simp: xb_OpenTranslation_def)
  next
    case (Inr h)
    then have h: "fmlookup (xb_open b1) i = Some h" "trunk_live F (xb_w b) i" "handle_current F E (xb_w b) i h" using H(5) by auto
    show ?thesis
    proof (cases "fmlookup (ah_trans h) ns")
      case (Some c0)
      then have "log_current (trans_read F E i ns) (xb_w b) c0" using h(3) by (simp add: handle_current_def)
      then have "c0\<lparr>cl_inner := xb_w b\<rparr> = newCachedLog (trans_read F E i ns) (xb_w b)" by (rule log_current_unique)
      then show ?thesis using assms(2) h1 Inr Some H(1,2) h by (auto simp: xb_OpenTranslation_def)
    next
      case None
      let ?c = "newCachedLog (trans_read F E i ns) (xb_w b)"
      let ?h = "h\<lparr>ah_trans := fmupd ns ?c (ah_trans h)\<rparr>"
      have cur: "handle_current F E (xb_w b) i ?h" using h(3) newCachedLog_current(1) by (auto simp: handle_current_def)
      have b': "b' = b1\<lparr>xb_open := fmupd i ?h (xb_open b1)\<rparr>" "res = Inr ?c"
        using assms(2) h1 Inr None H(2) by (auto simp: xb_OpenTranslation_def Let_def)
      have "coherent F E b'" using H(1,2) h(2) cur by (auto simp: b' coherent_parts)
      then show ?thesis using b' h cur H(2) by auto
    qed
  qed
  then show "coherent F E b'" "xb_store b' = xb_store b"
    and "res = Inr c \<Longrightarrow> trunk_live F (xb_w b) i \<and> c = newCachedLog (trans_read F E i ns) (xb_w b)
      \<and> (\<exists>h. fmlookup (xb_open b') i = Some h \<and> handle_current F E (xb_w b) i h)" by auto
qed

text \<open>An append through a current cache, of a row that JSON does not change, leaves the cache current.\<close>

lemma cl_Append_current:
  assumes cur: "log_current (xl_Read F J i ch) w c" and "cl_inner c = w" and "trunk_live F w i"
    and app: "cl_Append (xl_Append F J i ch isMain) c e = Inr (e', c')" and "isMain = (ch = chanIR)"
    and "stable_row J e" and "ch = chanIR \<or> FigaroLT e \<noteq> 0"
  shows "\<exists>rs. sets_channel F w i ch rs (cl_inner c') \<and> log_current (xl_Read F J i ch) (cl_inner c') c'"
proof -
  have xl: "xl_Append F J i ch isMain w e = Inr (e', cl_inner c')" and rows: "cl_rows c' = cl_rows c @ [e']"
    and idx: "cl_byFK c' = fmupd (FigaroLT e') (length (cl_rows c)) (cl_byFK c)"
    using app assms(2) by (auto simp: cl_Append_def split: sum.splits)
  obtain r where st: "sets_channel F w i ch (records F w i ch @ [r]) (cl_inner c')" and "decodeRecord J r = Some e'"
    using xl_append_sets [OF xl assms(5)] assms(6,7) by metis
  then have "xl_Read F J i ch (cl_inner c') = xl_Read F J i ch w @ [e']"
    using assms(3) sets_channel_live [OF st] sets_channel_records [OF st]
    by (simp add: xl_Read_records) (simp add: decoded_def)
  then show ?thesis using st cur rows idx by (auto simp: log_current_def)
qed

lemma ir_Append_coherent:
  assumes coh: "coherent F E b" and app: "ir_Append F E i e b = Inr (e', b')" and "stable_row (se_message (bk_store E)) e"
  shows "coherent F E b'"
proof -
  let ?J = "se_message (bk_store E)"
  obtain h c where h: "fmlookup (xb_open b) i = Some h"
    and cl: "cl_Append (xl_Append F ?J i chanIR True) ((ah_ir h)\<lparr>cl_inner := xb_w b\<rparr>) e = Inr (e', c)"
    and b': "b' = (set_w (cl_inner c) b)\<lparr>xb_open := fmupd i (h\<lparr>ah_ir := c\<rparr>) (xb_open b)\<rparr>"
    using app by (auto simp: ir_Append_def split: option.splits sum.splits)
  have l: "trunk_live F (xb_w b) i" and cur: "handle_current F E (xb_w b) i h" using coh h by (auto simp: coherent_parts)
  obtain rs where st: "sets_channel F (xb_w b) i chanIR rs (cl_inner c)" and lc: "log_current (ir_read F E i) (cl_inner c) c"
    using cl_Append_current [OF _ _ l cl] cur assms(3) by (auto simp: handle_current_def log_current_def)
  have "handle_current F E (cl_inner c) i (h\<lparr>ah_ir := c\<rparr>)"
    using lc cur l sets_channel_records [OF st] sets_channel_live [OF st]
    by (auto simp: handle_current_def log_current_def xl_Read_records)
  then show ?thesis unfolding b' by (intro coherent_write [OF coh st]) simp_all
qed

lemma trans_handle:
  assumes "handle_current F E w i h" and "trunk_live F w i" and st: "sets_channel F w i (transChannel ns) rs w'"
    and "log_current (trans_read F E i ns) w' c"
  shows "handle_current F E w' i (h\<lparr>ah_trans := fmupd ns c (ah_trans h)\<rparr>)"
  using assms(1,2,4) sets_channel_records [OF st] sets_channel_live [OF st]
  by (auto simp: handle_current_def log_current_def xl_Read_records)

lemma trans_Append_coherent:
  assumes coh: "coherent F E b" and app: "trans_Append F E i ns e b = Inr (e', b')"
    and "stable_row (bk_rows E) e" and "FigaroLT e \<noteq> 0"
  shows "coherent F E b'"
proof -
  obtain c0 b1 c where o: "xb_OpenTranslation F E i ns b = (Inr c0, b1)"
    and cl: "cl_Append (xl_Append F (bk_rows E) i (transChannel ns) False) c0 e = Inr (e', c)"
    and b': "b' = (let h = the (fmlookup (xb_open b1) i) in
      (set_w (cl_inner c) b1)\<lparr>xb_open := fmupd i (h\<lparr>ah_trans := fmupd ns c (ah_trans h)\<rparr>) (xb_open b1)\<rparr>)"
    using app by (auto simp: trans_Append_def Let_def split: prod.splits sum.splits)
  note O = OpenTranslation_coherent [OF coh o]
  obtain h where l: "trunk_live F (xb_w b) i" and c0: "c0 = newCachedLog (trans_read F E i ns) (xb_w b)"
    and h: "fmlookup (xb_open b1) i = Some h" "handle_current F E (xb_w b) i h" using O(3) by blast
  obtain rs where st: "sets_channel F (xb_w b) i (transChannel ns) rs (cl_inner c)" and lc: "log_current (trans_read F E i ns) (cl_inner c) c"
    using cl_Append_current [OF newCachedLog_current(1) newCachedLog_current(2) l cl [unfolded c0]] assms(3,4) by auto
  show ?thesis unfolding b' Let_def h(1) option.sel
    using coherent_write [OF O(1), of i "transChannel ns" rs "cl_inner c"] st trans_handle [OF h(2) l st lc] O(2) by simp
qed

lemma trans_Clear_coherent:
  assumes coh: "coherent F E b" and clr: "trans_Clear F E i ns b = Inr b'"
  shows "coherent F E b'"
proof -
  obtain c0 b1 c where o: "xb_OpenTranslation F E i ns b = (Inr c0, b1)"
    and cl: "cl_Clear (xl_Clear F i (transChannel ns)) c0 = Inr c"
    and b': "b' = (let h = the (fmlookup (xb_open b1) i) in
      (set_w (cl_inner c) b1)\<lparr>xb_open := fmupd i (h\<lparr>ah_trans := fmupd ns c (ah_trans h)\<rparr>) (xb_open b1)\<rparr>)"
    using clr by (auto simp: trans_Clear_def Let_def split: prod.splits sum.splits)
  note O = OpenTranslation_coherent [OF coh o]
  obtain h where l: "trunk_live F (xb_w b) i" and c0: "c0 = newCachedLog (trans_read F E i ns) (xb_w b)"
    and h: "fmlookup (xb_open b1) i = Some h" "handle_current F E (xb_w b) i h" using O(3) by blast
  have "xl_Clear F i (transChannel ns) (xb_w b) = Inr (cl_inner c)" and c: "cl_rows c = []" "cl_byFK c = fmempty"
    using cl c0 newCachedLog_current(2) [of "trans_read F E i ns" "xb_w b"] by (auto simp: cl_Clear_def split: sum.splits)
  then have st: "sets_channel F (xb_w b) i (transChannel ns) [] (cl_inner c)" using clear_records by (simp add: xl_Clear_def)
  have "log_current (trans_read F E i ns) (cl_inner c) c"
    using sets_channel_records [OF st l] sets_channel_live [OF st] l c by (simp add: log_current_def xl_Read_records)
  then show ?thesis unfolding b' Let_def h(1) option.sel
    using coherent_write [OF O(1), of i "transChannel ns" "[]" "cl_inner c"] st trans_handle [OF h(2) l st] O(2) by simp
qed

end

lemma metaPath_inj [simp]: "metaPath d i = metaPath d j \<longleftrightarrow> i = j" "metaPath d i @ ''.tmp'' \<noteq> metaPath d j" "metaPath d j \<noteq> metaPath d i @ ''.tmp''"
proof -
  show "metaPath d i = metaPath d j \<longleftrightarrow> i = j" by (simp add: metaPath_def)
  have "last (metaPath d i @ ''.tmp'') \<noteq> last (metaPath d j)" by (simp add: metaPath_def)
  then show "metaPath d i @ ''.tmp'' \<noteq> metaPath d j" "metaPath d j \<noteq> metaPath d i @ ''.tmp''" by metis+
qed

lemma coherent_store: "b\<lparr>xb_store := (xb_store b)\<lparr>xs_trunks := w\<rparr>\<rparr> = set_w w b"
  by (simp add: set_w_def)

context figwal_store
begin

lemma coherent_chalk:
  "coherent F E b \<Longrightarrow> (cc_ready c \<Longrightarrow> trunk_live F (xb_w b) i \<and> load_chalk F E i (xb_store b) = Inr (cc_state c, cc_patches c)) \<Longrightarrow>
     coherent F E (b\<lparr>xb_chalk := fmupd i c (xb_chalk b)\<rparr>)"
  by (auto simp: coherent_parts split: if_splits)

lemma chalkCache_coherent:
  assumes "coherent F E b" and "chalkCache i b = (c, b1)"
  shows "coherent F E b1" "xb_store b1 = xb_store b" "xb_open b1 = xb_open b" "fmlookup (xb_chalk b1) i = Some c"
  using assms coherent_chalk [OF assms(1), of empty_chalk i] by (auto simp: chalkCache_def empty_chalk_def split: option.splits)

lemma load_chalk_live: "load_chalk F E i s = Inr r \<Longrightarrow> trunk_live F (xs_trunks s) i"
  by (simp add: load_chalk_def OpenNode_def trunk_live_def split: option.splits)

lemma load_chalk_w: "xs_trunks s' = xs_trunks s \<Longrightarrow> load_chalk F E i s' = load_chalk F E i s"
  by (simp add: load_chalk_def OpenNode_def split: option.split)

lemma with_chalk_coherent:
  assumes coh: "coherent F E b"
  shows "coherent F E (snd (with_chalk F E i out b))"
proof -
  obtain c b1 where c: "chalkCache i b = (c, b1)" by fastforce
  note C = chalkCache_coherent [OF coh c]
  show ?thesis
  proof (cases "loadChalkboardLocked F E i (xb_store b1) c")
    case (Inl err)
    then show ?thesis using C(1) by (simp add: with_chalk_def c)
  next
    case (Inr c')
    then have "trunk_live F (xb_w b1) i \<and> load_chalk F E i (xb_store b1) = Inr (cc_state c', cc_patches c')"
      using C(1,4) load_chalk_live by (auto simp: loadChalkboardLocked_def coherent_parts split: if_splits sum.splits)
    then show ?thesis using Inr coherent_chalk [OF C(1)] by (simp add: with_chalk_def c)
  qed
qed

lemma peek_next_main:
  assumes "trunk_live F w i" and "log_current (xl_Read F J i chanIR) w c"
    and "records F w i chanIR = [] \<or> decodeRecord J (last (records F w i chanIR)) \<noteq> None"
  shows "(case cl_PeekTail c of Some tail \<Rightarrow> LT tail + 1 | None \<Rightarrow> 1) = next_main F w i"
proof -
  have rows: "cl_rows c = decoded J (records F w i chanIR)" using assms(1,2) by (simp add: log_current_def xl_Read_records)
  show ?thesis
  proof (cases "records F w i chanIR" rule: rev_cases)
    case Nil
    then show ?thesis using rows by (simp add: cl_PeekTail_def next_main_def)
  next
    case (snoc rs r)
    then obtain e where "decodeRecord J r = Some e" using assms(3) by auto
    moreover from this have "LT e = xr_ChannelLT r" by (auto simp: decodeRecord_def split: option.splits if_splits)
    ultimately show ?thesis using rows snoc by (simp add: cl_PeekTail_def next_main_def decoded_def nth_append)
  qed
qed

lemma ApplyChalkboard_coherent:
  assumes coh: "coherent F E b" and ok: "op_ok F E b (DoApply i p)"
  shows "coherent F E (snd (xb_ApplyChalkboard F E i p b))"
proof -
  let ?J = "se_patch (bk_store E)"
  obtain raw where raw: "rc_marshal ?J p = Some raw" "rc_unmarshal ?J raw = Some p" using ok by (auto split: option.splits)
  obtain c b1 where c: "chalkCache i b = (c, b1)" by fastforce
  note b1 = chalkCache_coherent [OF coh c]
  show ?thesis
  proof (cases "fw_Append F (xb_w b) i chanChalkboard 0 raw []")
    case (Inl err)
    then show ?thesis using b1 by (simp add: xb_ApplyChalkboard_def Let_def raw c)
  next
    case (Inr tw)
    obtain t w where tw: "tw = (t, w)" by fastforce
    let ?r = "\<lparr>xr_ChannelLT = t, xr_MainLT = next_main F (xb_w b) i, xr_Payload = raw, xr_Meta = []\<rparr>"
    have st: "sets_channel F (xb_w b) i chanChalkboard (records F (xb_w b) i chanChalkboard @ [?r]) w"
      using append_records [of "xb_w b" i chanChalkboard 0 raw "[]" t w] Inr tw by simp
    note sr = sets_channel_records [OF st] and sl = sets_channel_live [OF st]
    have l: "trunk_live F (xb_w b) i" using st by (simp add: sets_channel_def)
    define k where "k = (if cc_ready c then (case fmlookup (xb_open b) i of
        Some h \<Rightarrow> (case cl_PeekTail (ah_ir h) of Some tail \<Rightarrow> LT tail + 1 | None \<Rightarrow> 1) | None \<Rightarrow> 0) else 0)"
    define c' where "c' = (if cc_ready c \<and> k > 0 then c\<lparr>cc_state := snap_Apply (cc_state c) p, cc_patches := add_patch k p (cc_patches c)\<rparr>
        else c\<lparr>cc_ready := False\<rparr>)"
    have eq: "snd (xb_ApplyChalkboard F E i p b) = (set_w w b1)\<lparr>xb_chalk := fmupd i c' (xb_chalk b1)\<rparr>"
      using Inr by (simp add: xb_ApplyChalkboard_def Let_def raw c tw b1 k_def c'_def)
    have load: "load_chalk F E i ((xb_store b)\<lparr>xs_trunks := w\<rparr>) = Inr (cc_state c', cc_patches c')" if "cc_ready c'"
    proof -
      have r: "cc_ready c" "k > 0" and c': "c' = c\<lparr>cc_state := snap_Apply (cc_state c) p, cc_patches := add_patch k p (cc_patches c)\<rparr>"
        using that by (auto simp: c'_def split: if_splits)
      then obtain h where h: "fmlookup (xb_open b) i = Some h" by (auto simp: k_def split: option.splits)
      then have "log_current (ir_read F E i) (xb_w b) (ah_ir h)" using coh by (auto simp: coherent_parts handle_current_def)
      moreover have "records F (xb_w b) i chanIR = [] \<or> decodeRecord (se_message (bk_store E)) (last (records F (xb_w b) i chanIR)) \<noteq> None"
        using ok by simp
      ultimately have k: "k = next_main F (xb_w b) i" using peek_next_main [OF l] r(1) h by (simp add: k_def)
      have "load_chalk F E i (xb_store b) = Inr (cc_state c, cc_patches c)"
        using b1 r(1) by (auto simp: coherent_parts)
      then show ?thesis using l sl sr by (simp add: load_chalk_records fold_chalk_append raw c' k)
    qed
    have "load_chalk F E j ((xb_store b)\<lparr>xs_trunks := w\<rparr>) = load_chalk F E j (xb_store b)" if "trunk_live F (xb_w b) j" "j \<noteq> i" for j
      using that sl sr by (simp add: load_chalk_records)
    moreover have "handle_current F E w j h = handle_current F E (xb_w b) j h" if "trunk_live F (xb_w b) j" for j h
      using that sl sr by (simp add: handle_current_def log_current_def xl_Read_records)
    moreover have "topology_ok F w (xs_topology (xb_store b))"
      using coh st topology_ok_step by (auto simp: coherent_def sets_channel_def)
    ultimately show ?thesis unfolding eq using b1 load l sl
      by (auto simp: coherent_parts set_w_def split: if_splits)
  qed
qed

lemma Meta_coherent: "coherent F E b \<Longrightarrow> coherent F E (snd (xb_Meta E io i b))"
  by (auto simp: xb_Meta_def metaCache_def Let_def coherent_parts empty_meta_def readJSON_def split: option.splits sum.splits if_splits)

lemma SetMeta_coherent:
  assumes "coherent F E b" and "op_ok F E b (DoSetMeta i m oc)"
  shows "coherent F E (snd (xb_SetMeta E oc i m b))"
proof -
  obtain c b1 where c: "metaCache i b = (c, b1)" by fastforce
  then have b1: "coherent F E b1" using assms(1) by (auto simp: metaCache_def coherent_parts empty_meta_def split: option.splits if_splits)
  obtain err files where w: "writeJSON oc (metaPath (xb_root b1) i) (bk_encMeta E m) (xb_files b1) = (err, files)" by fastforce
  have other: "fmlookup files (metaPath (xb_root b1) j) = fmlookup (xb_files b1) (metaPath (xb_root b1) j)" if "j \<noteq> i \<or> err \<noteq> None" for j
    using w that by (auto simp: writeJSON_def Let_def split: disk_outcome.splits)
  have own: "fmlookup files (metaPath (xb_root b1) i) = Some (bk_encMeta E m)" if "err = None"
    using w that by (auto simp: writeJSON_def Let_def split: disk_outcome.splits)
  obtain mm where mm: "m = Some mm" "bk_decMeta E (bk_encMeta E m) = m" using assms(2) by auto
  show ?thesis
  proof (cases err)
    case None
    have "readJSON (bk_decMeta E) None (metaPath (xb_root b1) i) files = Inr m" using own [OF None] mm by (simp add: readJSON_def)
    moreover have "readJSON (bk_decMeta E) None (metaPath (xb_root b1) j) files = readJSON (bk_decMeta E) None (metaPath (xb_root b1) j) (xb_files b1)"
      if "j \<noteq> i" for j using other that by (simp add: readJSON_def)
    ultimately show ?thesis using b1 by (auto simp: xb_SetMeta_def c w None coherent_parts)
  next
    case (Some e)
    then have "readJSON (bk_decMeta E) None (metaPath (xb_root b1) j) files = readJSON (bk_decMeta E) None (metaPath (xb_root b1) j) (xb_files b1)" for j
      using other by (simp add: readJSON_def)
    then show ?thesis using b1 by (auto simp: xb_SetMeta_def c w Some coherent_parts)
  qed
qed

lemma Remove_coherent:
  assumes coh: "coherent F E b"
  shows "coherent F E (snd (xb_Remove F i False b))"
proof -
  let ?b3 = "b\<lparr>xb_open := fmdrop i (xb_open b), xb_chalk := fmdrop i (xb_chalk b), xb_metas := fmdrop i (xb_metas b),
    xb_files := fmdrop (metaPath (xb_root b) i) (xb_files b)\<rparr>"
  have b3: "coherent F E ?b3" using coh by (auto simp: coherent_parts readJSON_def split: if_splits)
  have eq: "snd (xb_Remove F i False b) = snd (on_store (RemoveLeaf F i False) ?b3)"
    by (simp add: xb_Remove_def dropHandle_def Let_def)
  show ?thesis
  proof (cases "fw_Remove F (xb_w b) i False")
    case (Inl err)
    then show ?thesis using b3 by (simp add: eq on_store_def RemoveLeaf_def)
  next
    case (Inr w)
    then have "snd (xb_Remove F i False b) = set_w w ?b3" by (simp add: eq on_store_def RemoveLeaf_def set_w_def)
    moreover have "coherent F E (set_w w ?b3)"
      using removed [OF Inr] b3 by (intro coherent_frame) (auto simp: keeps_records_def split: if_splits)
    ultimately show ?thesis by simp
  qed
qed

lemma tree_coherent:
  assumes "coherent F E b"
  shows "coherent F E (snd (xb_CreateLoadout F E name p b))" "coherent F E (succ_or b (xb_CreateConversation F l b))"
    "coherent F E (succ_or b (xb_Fork F i b))" "coherent F E (succ_or b (xb_ForkAt F i t b))" "coherent F E (succ_or b (xb_Promote F i n b))"
    "coherent F E (snd (on_store (topologySnapshot F) b))"
proof -
  obtain r s where cl: "st_CreateLoadout F (bk_store E) name p (xb_store b) = (r, s)" by fastforce
  have "s = (xb_store b)\<lparr>xs_trunks := xs_trunks s\<rparr>" using CreateLoadout_effect(2) [OF cl] by simp
  then have "snd (xb_CreateLoadout F E name p b) = set_w (xs_trunks s) b" by (simp add: xb_CreateLoadout_def cl set_w_def)
  then show "coherent F E (snd (xb_CreateLoadout F E name p b))"
    using coherent_same [OF assms CreateLoadout_effect(1) [OF cl]] by simp
  show "coherent F E (succ_or b (xb_CreateConversation F l b))"
    using assms by (auto simp: succ_or_def xb_CreateConversation_def st_CreateConversation_def coherent_store
        split: sum.splits intro: coherent_new dest: spawned)
  show "coherent F E (succ_or b (xb_Fork F i b))"
    using assms by (auto simp: succ_or_def xb_Fork_def st_Fork_def coherent_store split: sum.splits intro: coherent_new dest: forked)
  show "coherent F E (succ_or b (xb_ForkAt F i t b))"
    using assms by (auto simp: succ_or_def xb_ForkAt_def st_ForkAt_def coherent_store split: sum.splits if_splits
        intro: coherent_new dest: forked_at spawned spawned_root)
  show "coherent F E (succ_or b (xb_Promote F i n b))"
    using assms by (auto simp: succ_or_def xb_Promote_def st_Promote_def coherent_store split: sum.splits intro: coherent_same dest: promoted)
  obtain t s' where ts: "topologySnapshot F (xb_store b) = (t, s')" by fastforce
  then have s': "xs_trunks s' = xb_w b" "topology_ok F (xb_w b) (xs_topology s')"
    using topologySnapshot_keeps [of F "xb_store b"] assms by (auto simp: coherent_def)
  then show "coherent F E (snd (on_store (topologySnapshot F) b))"
    using assms load_chalk_w [OF s'(1)] by (auto simp: on_store_def ts coherent_parts)
qed

lemma step_coherent: "coherent F E b \<Longrightarrow> op_ok F E b op \<Longrightarrow> coherent F E (xb_step F E b op)"
proof (cases op)
  case (DoOpenTranslation i ns)
  assume "coherent F E b"
  then show ?thesis using DoOpenTranslation OpenTranslation_coherent(1) by (cases "xb_OpenTranslation F E i ns b") auto
next
  case (DoApply i p)
  assume "coherent F E b" "op_ok F E b op"
  then show ?thesis using DoApply ApplyChalkboard_coherent by simp
next
  case (DoSetMeta i m oc)
  assume "coherent F E b" "op_ok F E b op"
  then show ?thesis using DoSetMeta SetMeta_coherent by simp
qed (auto simp: succ_or_def [of _ "ir_Append _ _ _ _ _"] succ_or_def [of _ "trans_Append _ _ _ _ _ _"]
      xb_ChalkboardState_def xb_ChalkboardPatches_def split: sum.splits
      intro: Open_coherent ir_Append_coherent trans_Append_coherent trans_Clear_coherent with_chalk_coherent Meta_coherent
        Remove_coherent tree_coherent)

lemma run_coherent: "coherent F E b \<Longrightarrow> run_ok F E b ops \<Longrightarrow> coherent F E (foldl (xb_step F E) b ops)"
  by (induction ops arbitrary: b) (auto intro: step_coherent)

end

subsection \<open>What a current cache answers\<close>

lemma step_root [simp]: "xb_root (xb_step F E b op) = xb_root b"
proof (cases op)
  case (DoOpenTranslation i ns)
  then show ?thesis by (auto simp: xb_OpenTranslation_def handleLocked_def Let_def split: option.split sum.split)
next
  case (DoAppendTranslation i ns e)
  then show ?thesis
    by (auto simp: succ_or_def trans_Append_def xb_OpenTranslation_def handleLocked_def Let_def split: option.splits sum.splits prod.splits)
next
  case (DoClearTranslation i ns)
  then show ?thesis
    by (auto simp: trans_Clear_def xb_OpenTranslation_def handleLocked_def Let_def split: option.splits sum.splits prod.splits)
qed (auto simp: succ_or_def xb_Open_def handleLocked_def ir_Append_def xb_ChalkboardState_def xb_ChalkboardPatches_def with_chalk_def chalkCache_def
      xb_ApplyChalkboard_def xb_Meta_def metaCache_def xb_SetMeta_def xb_CreateLoadout_def xb_CreateConversation_def xb_Fork_def xb_ForkAt_def
      xb_Promote_def on_store_def xb_Remove_def dropHandle_def Let_def split: option.split sum.split prod.split)

lemma run_root: "xb_root (foldl (xb_step F E) b ops) = xb_root b"
  by (induction ops arbitrary: b) simp_all

lemma fresh_coherent: "coherent F E (fresh_backend dir \<lparr>xs_trunks = w, xs_topology = None\<rparr> files)"
  by (simp add: fresh_backend_def coherent_parts topology_ok_def)

definition disk_board :: "'w figwal \<Rightarrow> backend_env \<Rightarrow> string \<Rightarrow> 'w \<Rightarrow> string + snapshot \<times> (lt, patch list) fmap" where
  "disk_board F E i w = load_chalk F E i \<lparr>xs_trunks = w, xs_topology = None\<rparr>"

context figwal_store
begin

lemma Open_answer:
  assumes "coherent F E b"
  shows "fst (xb_Open F E i b) = (case fw_Head F (xb_w b) i of Some err \<Rightarrow> Inl err | None \<Rightarrow> Inr (newCachedLog (ir_read F E i) (xb_w b)))"
proof (cases "fmlookup (xb_open b) i")
  case None
  then show ?thesis using newCachedLog_current
    by (auto simp: xb_Open_def handleLocked_def OpenNode_def Let_def newCachedLog_def cl_load_eq split: option.split)
next
  case (Some h)
  then have "fw_Head F (xb_w b) i = None" "log_current (ir_read F E i) (xb_w b) (ah_ir h)"
    using assms by (auto simp: coherent_parts trunk_live_def handle_current_def)
  then show ?thesis using Some log_current_unique by (simp add: xb_Open_def handleLocked_def)
qed

lemma OpenTranslation_answer:
  assumes "coherent F E b"
  shows "fst (xb_OpenTranslation F E i ns b) =
    (case fw_Head F (xb_w b) i of Some err \<Rightarrow> Inl err | None \<Rightarrow> Inr (newCachedLog (trans_read F E i ns) (xb_w b)))"
proof -
  obtain res b' where o: "xb_OpenTranslation F E i ns b = (res, b')" by fastforce
  note O = OpenTranslation_coherent [OF assms o]
  show ?thesis
  proof (cases res)
    case (Inl err)
    then have "fmlookup (xb_open b) i = None" "fw_Head F (xb_w b) i = Some err"
      using o by (auto simp: xb_OpenTranslation_def handleLocked_def OpenNode_def Let_def split: option.splits)
    then show ?thesis using o Inl by simp
  next
    case (Inr c)
    then show ?thesis using O(3) [of c] o by (simp add: trunk_live_def)
  qed
qed

lemma with_chalk_answer:
  assumes "coherent F E b"
  shows "fst (with_chalk F E i out b) = (case disk_board F E i (xb_w b) of Inl err \<Rightarrow> Inl err
    | Inr (s, ps) \<Rightarrow> Inr (out \<lparr>cc_ready = True, cc_state = s, cc_patches = ps\<rparr>))"
proof -
  obtain c b1 where c: "chalkCache i b = (c, b1)" by fastforce
  note C = chalkCache_coherent [OF assms c]
  have d: "disk_board F E i (xb_w b) = load_chalk F E i (xb_store b1)"
    unfolding disk_board_def by (rule load_chalk_w) (simp add: C(2))
  show ?thesis
  proof (cases "cc_ready c")
    case True
    then have "load_chalk F E i (xb_store b1) = Inr (cc_state c, cc_patches c)" using C(1,4) by (auto simp: coherent_parts)
    then show ?thesis using True d by (simp add: with_chalk_def c loadChalkboardLocked_def) (metis (full_types) chalk_cache.surjective old.unit.exhaust)
  next
    case False
    then show ?thesis by (simp add: with_chalk_def c loadChalkboardLocked_def d split: sum.split prod.split)
  qed
qed

lemma Meta_answer:
  "coherent F E b \<Longrightarrow> fst (xb_Meta E None i b) = readJSON (bk_decMeta E) None (metaPath (xb_root b) i) (xb_files b)"
  by (auto simp: xb_Meta_def metaCache_def empty_meta_def Let_def coherent_parts split: option.splits sum.splits)

lemma Nodes_answer: "coherent F E b \<Longrightarrow> fst (on_store (topologySnapshot F) b) = scan_topology F (xb_w b)"
  using topologySnapshot_current by (auto simp: on_store_def coherent_def split: prod.splits dest!: arg_cong [where f = fst])

end

subsection \<open>Properties\<close>


definition demo_patch :: patch where
  "demo_patch = \<lparr>p_set = fmupd ''k'' ''v'' fmempty, p_remove = []\<rparr>"

definition demo_meta :: aria_meta where
  "demo_meta = \<lparr>am_MessageCount = 1, am_TurnCount = 0, am_TokensIn = 0, am_TokensOut = 0, am_CacheReadTokens = 0, am_CacheWriteTokens = 0,
     am_LastActiveMS = 9, am_LastFigaroLT = 2, am_Provider = [], am_Model = [], am_Mantra = [], am_Cwd = [], am_LoadoutName = [],
     am_LoadoutVersion = [], am_ContextTokens = 0, am_ContextLimit = 0, am_ContextExact = False, am_CreatedAtMS = 5\<rparr>"

text \<open>JSON as a table of the values that occur.\<close>

definition demo_backend_env :: backend_env where
  "demo_backend_env = \<lparr>
     bk_store = \<lparr>
       se_patch = \<lparr>rc_marshal = (\<lambda>p. Some (if p = demo_patch then ''p'' else ''q'')),
         rc_unmarshal = (\<lambda>r. Some (if r = ''p'' then demo_patch else zero_patch)), rc_zero = zero_patch, rc_quote = (\<lambda>s. s), rc_unquote = Some\<rparr>,
       se_snapshot = \<lparr>rc_marshal = (\<lambda>_. Some ''{}''), rc_unmarshal = (\<lambda>_. Some fmempty), rc_zero = fmempty, rc_quote = (\<lambda>s. s), rc_unquote = Some\<rparr>,
       se_message = \<lparr>rc_marshal = (\<lambda>_. Some ''m''), rc_unmarshal = (\<lambda>_. Some zero_message), rc_zero = zero_message, rc_quote = (\<lambda>s. s), rc_unquote = Some\<rparr>,
       se_hash = (\<lambda>_. Inr ''h1''), se_quote = (\<lambda>s. s), se_now = 5\<rparr>,
     bk_rows = \<lparr>rc_marshal = (\<lambda>_. Some ''r''), rc_unmarshal = (\<lambda>_. Some []), rc_zero = [], rc_quote = (\<lambda>s. s), rc_unquote = Some\<rparr>,
     bk_encMeta = (\<lambda>_. ''{}''), bk_decMeta = (\<lambda>_. Some demo_meta)\<rparr>"

definition demo_calls :: "backend_op list" where
  "demo_calls = [DoLoadout ''l'' demo_patch, DoConversation ''l@h1'', DoOpen ''t'', DoState ''t'', DoAppend ''t'' (new_entry zero_message),
     DoApply ''t'' demo_patch, DoSetMeta ''t'' (Some demo_meta) DiskOk, DoNodes, DoFork ''t'']"

definition demo_start :: "mem_wal xwal_backend" where
  "demo_start = fresh_backend ''d'' \<lparr>xs_trunks = empty_wal, xs_topology = None\<rparr> fmempty"

lemma demo_run_ok: "run_ok mem_figwal demo_backend_env demo_start demo_calls"
  by code_simp


text \<open>
  C40: a removal that is refused is not without effect: when the library refuses to remove an aria
  because it has branches, the aria stays, but the backend has already deleted the file with its
  summary and forgotten its caches.
\<close>

theorem refused_remove_loses_summary:
  assumes "fw_Remove F (xb_w b) i False = Inl err"
  shows "fst (xb_Remove F i False b) = Some err \<and> xb_store (snd (xb_Remove F i False b)) = xb_store b
    \<and> fst (xb_Meta E None i (snd (xb_Remove F i False b))) = Inr None"
  using assms by (simp add: xb_Remove_def dropHandle_def on_store_def RemoveLeaf_def xb_Meta_def metaCache_def empty_meta_def readJSON_def Let_def)

theorem refused_remove_loses_summary_witness:
  "let b = foldl (xb_step mem_figwal demo_backend_env) demo_start demo_calls
   in fst (xb_Meta demo_backend_env None ''t'' b) = Inr (Some demo_meta)
     \<and> fst (xb_Remove mem_figwal ''t'' False b) = Some ''trunk has branches''
     \<and> fst (xb_Meta demo_backend_env None ''t'' (snd (xb_Remove mem_figwal ''t'' False b))) = Inr None"
proof -
  let ?b = "foldl (xb_step mem_figwal demo_backend_env) demo_start demo_calls"
  have "fw_Remove mem_figwal (xb_w ?b) ''t'' False = Inl ''trunk has branches''" by code_simp
  from refused_remove_loses_summary [OF this] have "fst (xb_Remove mem_figwal ''t'' False ?b) = Some ''trunk has branches''"
    "fst (xb_Meta demo_backend_env None ''t'' (snd (xb_Remove mem_figwal ''t'' False ?b))) = Inr None" by auto
  moreover have "fst (xb_Meta demo_backend_env None ''t'' ?b) = Inr (Some demo_meta)" by code_simp
  ultimately show ?thesis by (simp add: Let_def)
qed

text \<open>
  a recursive removal drops only the caches of the aria it names: a branch that is removed with it is
  still answered from memory, as if it existed.
\<close>

theorem removed_branch_still_answers:
  assumes "fw_Remove F (xb_w b) i True = Inr w'" and "j \<noteq> i"
    and "fmlookup (xb_chalk b) j = Some c" and "cc_ready c"
  shows "fst (xb_ChalkboardState F E j (snd (xb_Remove F i True b))) = Inr (cc_state c)"
  using assms by (simp add: xb_Remove_def dropHandle_def on_store_def RemoveLeaf_def xb_ChalkboardState_def with_chalk_def chalkCache_def
      loadChalkboardLocked_def Let_def)

end
