(* ===== verification/Xwal_Agents.thy ===== *)
theory Xwal_Agents
  imports Xwal_Backend
begin

section \<open>The backend as agents and the supervisor see it\<close>

text \<open>
  The calls an agent makes on its own aria (\<open>store_ops\<close>) and the calls the supervisor makes
  (\<open>backend_ops\<close>), given by \<open>XwalBackend\<close>. A read that fills a cache also returns the filled cache;
  here only its answer is kept, since the caches are transparent (\<open>Xwal_Backend\<close>). With that the
  contracts the agent and the supervisor were verified against hold of the store on disk, over any
  forest that keeps the contract of the log library: what is proved of agents and of the revival of
  arias holds of the program with its real store.
\<close>

definition open_rows :: "string \<Rightarrow> 'w xwal_backend \<Rightarrow> message log_entry list" where
  "open_rows i b = (case fmlookup (xb_open b) i of None \<Rightarrow> [] | Some h \<Rightarrow> cl_Read (ah_ir h))"

definition disk_ops :: "'w figwal \<Rightarrow> backend_env \<Rightarrow> disk_outcome \<Rightarrow> string \<Rightarrow> 'w xwal_backend store_ops" where
  "disk_ops F E oc i = \<lparr>
     so_read = open_rows i,
     so_append = (\<lambda>b e. ir_Append F E i e b),
     so_peek = (\<lambda>b. case fmlookup (xb_open b) i of None \<Rightarrow> None | Some h \<Rightarrow> cl_PeekTail (ah_ir h)),
     so_readFrom = (\<lambda>b k. case fmlookup (xb_open b) i of None \<Rightarrow> []
        | Some h \<Rightarrow> (case cl_ReadFrom (ah_ir h) k 0 of Inr es \<Rightarrow> es | Inl _ \<Rightarrow> [])),
     so_backed = True,
     so_applyChalkboard = (\<lambda>b p. case xb_ApplyChalkboard F E i p b of (Some err, _) \<Rightarrow> Inl err | (None, b') \<Rightarrow> Inr b'),
     so_cacheAppend = (\<lambda>b k c. case trans_Append F E i (ca_Namespace c)
          \<lparr>LT = 0, FigaroLT = k, Payload = ca_Payload c, Fingerprint = ca_Fingerprint c\<rparr> b of
        Inl err \<Rightarrow> Inl err | Inr (_, b') \<Rightarrow> Inr b'),
     so_setMeta = (\<lambda>b m. snd (xb_SetMeta E oc i (Some m) b))\<rparr>"

definition xwal_ops :: "'w figwal \<Rightarrow> backend_env \<Rightarrow> disk_outcome \<Rightarrow> 'w xwal_backend backend_ops" where
  "xwal_ops F E oc = \<lparr>
     bo_store = disk_ops F E oc,
     bo_rows = (\<lambda>b i. case fst (xb_Open F E i b) of Inl err \<Rightarrow> Inl err | Inr c \<Rightarrow> Inr (cl_Read c)),
     bo_chalkboardState = (\<lambda>b i. fst (xb_ChalkboardState F E i b)),
     bo_applyChalkboard = (\<lambda>b i p. case xb_ApplyChalkboard F E i p b of (Some err, _) \<Rightarrow> Inl err | (None, b') \<Rightarrow> Inr b'),
     bo_createLoadout = (\<lambda>b name p. xb_CreateLoadout F E name p b),
     bo_createConversation = (\<lambda>b l. xb_CreateConversation F l b),
     bo_fork = (\<lambda>b i. xb_Fork F i b),
     bo_forkAt = (\<lambda>b i t. xb_ForkAt F i t b),
     bo_promote = (\<lambda>b i n. xb_Promote F i n b),
     bo_ownerResolution = (\<lambda>b i t. OwnerResolution F i t b),
     bo_node = (\<lambda>b i. fst (st_Node F (xb_store b) i)),
     bo_nodes = (\<lambda>b. fst (st_Nodes F (xb_store b))),
     bo_conversations = (\<lambda>b. fst (st_Conversations F (xb_store b))),
     bo_conversationIDs = (\<lambda>b. fst (st_ConversationIDs F (xb_store b))),
     bo_meta = (\<lambda>b i. case fst (xb_Meta E None i b) of Inl _ \<Rightarrow> None | Inr m \<Rightarrow> m),
     bo_setMeta = (\<lambda>b i m. case xb_SetMeta E oc i (Some m) b of (Some err, _) \<Rightarrow> Inl err | (None, b') \<Rightarrow> Inr b'),
     bo_remove = (\<lambda>b i recursive. xb_Remove F i recursive b)\<rparr>"

text \<open>The agent has opened its log, and the next message will come after all rows it holds.\<close>

definition disk_inv :: "'w figwal \<Rightarrow> string \<Rightarrow> 'w xwal_backend \<Rightarrow> bool" where
  "disk_inv F i b \<longleftrightarrow> fmlookup (xb_open b) i \<noteq> None \<and> trunk_live F (xb_w b) i \<and> rows_timed (open_rows i b)
     \<and> (\<forall>e \<in> set (open_rows i b). LT e < next_main F (xb_w b) i)"

text \<open>Steps that leave the message log of the aria and its handle's rows alone.\<close>

definition same_ir :: "'w figwal \<Rightarrow> string \<Rightarrow> 'w xwal_backend \<Rightarrow> 'w xwal_backend \<Rightarrow> bool" where
  "same_ir F i b b' \<longleftrightarrow> open_rows i b' = open_rows i b \<and> (fmlookup (xb_open b) i \<noteq> None \<longrightarrow> fmlookup (xb_open b') i \<noteq> None)
     \<and> (trunk_live F (xb_w b) i \<longrightarrow> trunk_live F (xb_w b') i \<and> records F (xb_w b') i chanIR = records F (xb_w b) i chanIR)"

lemma disk_inv_same: "disk_inv F i b \<Longrightarrow> same_ir F i b b' \<Longrightarrow> disk_inv F i b' \<and> open_rows i b' = open_rows i b"
  by (auto simp: disk_inv_def same_ir_def next_main_def)

context figwal_store
begin

lemma ir_Append_effect:
  assumes app: "ir_Append F E i e b = Inr (e', b')"
  shows "open_rows i b' = open_rows i b @ [e']" "LT e' = next_main F (xb_w b) i" "FigaroLT e' = LT e'" "Payload e' = Payload e"
    and "trunk_live F (xb_w b) i \<Longrightarrow> trunk_live F (xb_w b') i \<and> next_main F (xb_w b') i = LT e' + 1" "fmlookup (xb_open b') i \<noteq> None"
    and "xb_chalk b' = xb_chalk b" "sets_channel F (xb_w b) i chanIR (records F (xb_w b') i chanIR) (xb_w b')"
proof -
  let ?J = "se_message (bk_store E)"
  obtain h c where h: "fmlookup (xb_open b) i = Some h"
    and cl: "cl_Append (xl_Append F ?J i chanIR True) ((ah_ir h)\<lparr>cl_inner := xb_w b\<rparr>) e = Inr (e', c)"
    and b': "b' = (set_w (cl_inner c) b)\<lparr>xb_open := fmupd i (h\<lparr>ah_ir := c\<rparr>) (xb_open b)\<rparr>"
    using app by (auto simp: ir_Append_def split: option.splits sum.splits)
  then have xl: "xl_Append F ?J i chanIR True (xb_w b) e = Inr (e', xb_w b')" and "cl_rows c = cl_rows (ah_ir h) @ [e']"
    by (auto simp: cl_Append_def split: sum.splits)
  then show "open_rows i b' = open_rows i b @ [e']" by (simp add: open_rows_def h b' cl_Read_def)
  obtain r where r: "sets_channel F (xb_w b) i chanIR (records F (xb_w b) i chanIR @ [r]) (xb_w b')" "xr_ChannelLT r = LT e'"
    "LT e' = next_main F (xb_w b) i" "Payload e' = Payload e" "FigaroLT e' = LT e'"
    using xl_append_sets [OF xl] by (metis (full_types))
  then show "LT e' = next_main F (xb_w b) i" "FigaroLT e' = LT e'" "Payload e' = Payload e" by simp_all
  show "fmlookup (xb_open b') i \<noteq> None" "xb_chalk b' = xb_chalk b" by (simp_all add: b')
  have rec: "trunk_live F (xb_w b) i \<Longrightarrow> records F (xb_w b') i chanIR = records F (xb_w b) i chanIR @ [r]"
    using sets_channel_records [OF r(1)] by simp
  then show "trunk_live F (xb_w b) i \<Longrightarrow> trunk_live F (xb_w b') i \<and> next_main F (xb_w b') i = LT e' + 1"
    using sets_channel_live [OF r(1)] r(2) by (simp add: next_main_def)
  show "sets_channel F (xb_w b) i chanIR (records F (xb_w b') i chanIR) (xb_w b')"
    using r(1) rec by (auto simp: sets_channel_def)
qed

lemma Apply_same_ir: "xb_ApplyChalkboard F E i p b = (None, b') \<Longrightarrow> same_ir F i b b'"
proof -
  assume ap: "xb_ApplyChalkboard F E i p b = (None, b')"
  obtain c b1 where c: "chalkCache i b = (c, b1)" by fastforce
  then have b1: "xb_store b1 = xb_store b" "xb_open b1 = xb_open b" by (auto simp: chalkCache_def split: option.splits)
  obtain pb t where "fw_Append F (xb_w b) i chanChalkboard 0 pb [] = Inr (t, xb_w b')" and o: "xb_open b' = xb_open b"
    using ap by (auto simp: xb_ApplyChalkboard_def Let_def c b1 split: sum.splits prod.splits)
  note st = append_records [OF this(1)]
  show ?thesis using sets_channel_live [OF st] sets_channel_records [OF st] o by (simp add: same_ir_def open_rows_def)
qed

lemma OpenTranslation_same_ir:
  "xb_OpenTranslation F E i ns b = (res, b') \<Longrightarrow> fmlookup (xb_open b) i \<noteq> None \<Longrightarrow>
     xb_store b' = xb_store b \<and> open_rows i b' = open_rows i b \<and> fmlookup (xb_open b') i \<noteq> None \<and> (\<forall>c. res = Inr c \<longrightarrow> cl_inner c = xb_w b)"
  using newCachedLog_current(2)
  by (auto simp: xb_OpenTranslation_def handleLocked_def open_rows_def Let_def split: option.splits)

lemma trans_same_ir:
  assumes "trans_Append F E i ns e b = Inr (e', b')" and "fmlookup (xb_open b) i \<noteq> None"
  shows "same_ir F i b b'"
proof -
  obtain c0 b1 c where o: "xb_OpenTranslation F E i ns b = (Inr c0, b1)"
    and cl: "cl_Append (xl_Append F (bk_rows E) i (transChannel ns) False) c0 e = Inr (e', c)"
    and b': "b' = (let h = the (fmlookup (xb_open b1) i) in
      (set_w (cl_inner c) b1)\<lparr>xb_open := fmupd i (h\<lparr>ah_trans := fmupd ns c (ah_trans h)\<rparr>) (xb_open b1)\<rparr>)"
    using assms(1) by (auto simp: trans_Append_def Let_def split: prod.splits sum.splits)
  note O = OpenTranslation_same_ir [OF o assms(2)]
  have "xl_Append F (bk_rows E) i (transChannel ns) False (xb_w b) e = Inr (e', cl_inner c)"
    using cl O by (auto simp: cl_Append_def split: sum.splits)
  then obtain r where "sets_channel F (xb_w b) i (transChannel ns) (records F (xb_w b) i (transChannel ns) @ [r]) (cl_inner c)"
    using xl_append_sets by (metis transChannel_other(1))
  note st = this
  show ?thesis using sets_channel_live [OF st] sets_channel_records [OF st] O
    by (auto simp: same_ir_def open_rows_def b' Let_def)
qed

lemma SetMeta_keeps: "xb_store (snd (xb_SetMeta E oc i m b)) = xb_store b" "xb_open (snd (xb_SetMeta E oc i m b)) = xb_open b"
  "xb_chalk (snd (xb_SetMeta E oc i m b)) = xb_chalk b"
  by (auto simp: xb_SetMeta_def metaCache_def Let_def split: option.splits prod.splits)

lemma SetMeta_same_ir: "same_ir F i b (snd (xb_SetMeta E oc i m b))"
  by (simp add: same_ir_def open_rows_def SetMeta_keeps)

end

lemma rows_timed_sorted: "rows_timed rows \<Longrightarrow> sorted (map FigaroLT rows)"
proof -
  assume t: "rows_timed rows"
  then have "map FigaroLT rows = map LT rows" by (simp add: rows_timed_def)
  then show ?thesis using t unfolding rows_timed_def strict_sorted_iff by metis
qed

lemma rows_timed_snoc: "rows_timed rows \<Longrightarrow> \<forall>e \<in> set rows. LT e < LT e' \<Longrightarrow> FigaroLT e' = LT e' \<Longrightarrow> LT e' > 0 \<Longrightarrow> rows_timed (rows @ [e'])"
  by (auto simp: rows_timed_def sorted_wrt_append)

sublocale figwal_store \<subseteq> disk: agent_store "disk_ops F E oc i" "disk_inv F i" for E oc i
proof
  fix b b' :: "'w xwal_backend" and m e k p c mm
  assume inv: "disk_inv F i b"
  then obtain h where h: "fmlookup (xb_open b) i = Some h" by (auto simp: disk_inv_def)
  have rows: "open_rows i b = cl_rows (ah_ir h)" by (simp add: open_rows_def h cl_Read_def)
  { assume "so_append (disk_ops F E oc i) b (new_entry m) = Inr (e, b')"
    then have app: "ir_Append F E i (new_entry m) b = Inr (e, b')" by (simp add: disk_ops_def)
    note A = ir_Append_effect [OF app]
    have "LT e > 0" using A(2) by (simp add: next_main_def)
    then show "disk_inv F i b'" using inv A rows_timed_snoc [of "open_rows i b" e]
      by (auto simp: disk_inv_def intro: less_SucI)
    show "so_read (disk_ops F E oc i) b' = so_read (disk_ops F E oc i) b @ [e]" using A(1) by (simp add: disk_ops_def)
    show "Payload e = m" using A(4) by (simp add: new_entry_def) }
  show "so_peek (disk_ops F E oc i) b = (if so_read (disk_ops F E oc i) b = [] then None else Some (last (so_read (disk_ops F E oc i) b)))"
    by (simp add: disk_ops_def h rows cl_PeekTail_def last_conv_nth)
  have "rows_timed (open_rows i b)" using inv by (simp add: disk_inv_def)
  then show "rows_timed (so_read (disk_ops F E oc i) b)" and "so_readFrom (disk_ops F E oc i) b k = filter (\<lambda>e. k \<le> FigaroLT e) (so_read (disk_ops F E oc i) b)"
    using readFrom_all [OF rows_timed_sorted, of "open_rows i b" k] by (simp_all add: disk_ops_def h rows cl_ReadFrom_def)
  { assume "so_applyChalkboard (disk_ops F E oc i) b p = Inr b'"
    then have "same_ir F i b b'" by (intro Apply_same_ir) (auto simp: disk_ops_def split: prod.splits option.splits)
    then show "disk_inv F i b' \<and> so_read (disk_ops F E oc i) b' = so_read (disk_ops F E oc i) b"
      using disk_inv_same [OF inv] by (simp add: disk_ops_def) }
  { assume "so_cacheAppend (disk_ops F E oc i) b k c = Inr b'"
    then have "same_ir F i b b'" using trans_same_ir h by (auto simp: disk_ops_def split: sum.splits)
    then show "disk_inv F i b' \<and> so_read (disk_ops F E oc i) b' = so_read (disk_ops F E oc i) b"
      using disk_inv_same [OF inv] by (simp add: disk_ops_def) }
  show "disk_inv F i (so_setMeta (disk_ops F E oc i) b mm) \<and> so_read (disk_ops F E oc i) (so_setMeta (disk_ops F E oc i) b mm) = so_read (disk_ops F E oc i) b"
    using disk_inv_same [OF inv SetMeta_same_ir] by (simp add: disk_ops_def)
qed

sublocale figwal_store \<subseteq> boards: board_backend "xwal_ops F E oc" for E oc
proof
  fix i j :: string and b b' :: "'w xwal_backend" and e e' m
  have board: "fst (xb_ChalkboardState F E j b') = fst (xb_ChalkboardState F E j b)"
    if "xb_chalk b' = xb_chalk b" "load_chalk F E j (xb_store b') = load_chalk F E j (xb_store b)" for b b' :: "'w xwal_backend"
    using that by (auto simp: xb_ChalkboardState_def with_chalk_def chalkCache_def loadChalkboardLocked_def Let_def split: option.split sum.split)
  { assume "so_append (bo_store (xwal_ops F E oc) i) b e = Inr (e', b')"
    then have app: "ir_Append F E i e b = Inr (e', b')" by (simp add: xwal_ops_def disk_ops_def)
    note A = ir_Append_effect(7,8) [OF app]
    have "load_chalk F E j (xb_store b') = load_chalk F E j (xb_store b)"
    proof (cases "trunk_live F (xb_w b) j")
      case True
      then show ?thesis using sets_channel_live [OF A(2)] sets_channel_records [OF A(2)] by (simp add: load_chalk_records)
    next
      case False
      then show ?thesis using A(2) by (auto simp: load_chalk_def OpenNode_def trunk_live_def sets_channel_def split: option.split)
    qed
    then show "bo_chalkboardState (xwal_ops F E oc) b' j = bo_chalkboardState (xwal_ops F E oc) b j"
      using board [OF A(1)] by (simp add: xwal_ops_def) }
  have "fst (xb_ChalkboardState F E j (snd (xb_SetMeta E oc i (Some m) b))) = fst (xb_ChalkboardState F E j b)"
    by (rule board) (simp_all only: SetMeta_keeps)
  then show "bo_chalkboardState (xwal_ops F E oc) (so_setMeta (bo_store (xwal_ops F E oc) i) b m) j = bo_chalkboardState (xwal_ops F E oc) b j"
    by (simp add: xwal_ops_def disk_ops_def)
qed

end
