(* ===== verification/Term_Screen.thy ===== *)
theory Term_Screen
  imports Term_Text Json_Struct
begin

section \<open>The drawing surface (\<open>terminal.go\<close>, \<open>fake.go\<close> of \<open>internal/livelog/render\<close>)\<close>

text \<open>
  The renderer draws on anything that takes bytes and has a size. \<open>FakeTerminal\<close> is the repository's
  own reference of what a terminal does with the control sequences the renderer writes. The
  locale \<open>screen\<close> is the contract the renderer relies on: each piece it writes acts on what is shown
  as \<open>vt_step\<close> says. \<open>FakeTerminal\<close> keeps it.
\<close>

subsection \<open>FakeTerminal\<close>

text \<open>A line is a list of runes, each given by its encoding.\<close>

record fake_terminal =
  ft_lines :: "string list list"
  ft_row :: nat
  ft_col :: nat
  ft_top :: nat
  ft_width :: nat
  ft_height :: nat
  ft_autowrap :: bool

definition NewFakeTerminal :: "nat \<Rightarrow> nat \<Rightarrow> fake_terminal" where
  "NewFakeTerminal width height =
     \<lparr>ft_lines = [], ft_row = 0, ft_col = 0, ft_top = 0, ft_width = width, ft_height = height, ft_autowrap = False\<rparr>"

definition ft_scroll :: "fake_terminal \<Rightarrow> fake_terminal" where
  "ft_scroll t = (if ft_height t > 0 \<and> ft_row t > ft_top t + ft_height t - 1
     then t\<lparr>ft_top := ft_row t - (ft_height t - 1)\<rparr> else t)"

definition ft_Resize :: "nat \<Rightarrow> nat \<Rightarrow> fake_terminal \<Rightarrow> fake_terminal" where
  "ft_Resize width height t =
     (let t1 = t\<lparr>ft_width := width, ft_height := height\<rparr>
      in if ft_height t1 > 0 \<and> ft_row t1 > ft_top t1 + ft_height t1 - 1
         then t1\<lparr>ft_top := ft_row t1 - (ft_height t1 - 1)\<rparr> else t1)"

definition ensure :: "nat \<Rightarrow> fake_terminal \<Rightarrow> fake_terminal" where
  "ensure r t = t\<lparr>ft_lines := ft_lines t @ replicate (r + 1 - length (ft_lines t)) []\<rparr>"

definition put :: "string \<Rightarrow> fake_terminal \<Rightarrow> fake_terminal" where
  "put r t =
     (let t1 = ensure (ft_row t) t;
          l = ft_lines t1 ! ft_row t1;
          l1 = l @ replicate (ft_col t1 + 1 - length l) '' '';
          t2 = t1\<lparr>ft_lines := (ft_lines t1)[ft_row t1 := l1[ft_col t1 := r]], ft_col := ft_col t1 + 1\<rparr>
      in if ft_col t2 \<ge> ft_width t2 \<and> ft_autowrap t2
         then (let t3 = ft_scroll (t2\<lparr>ft_row := ft_row t2 + 1, ft_col := 0\<rparr>) in ensure (ft_row t3) t3)
         else t2)"

text \<open>\<open>strconv.Atoi\<close> with its error ignored, on the digits of a control sequence.\<close>

definition atoi_or_0 :: "string \<Rightarrow> nat" where
  "atoi_or_0 s = (if s = [] then 0 else case digits_val 0 s of Some n \<Rightarrow> n | None \<Rightarrow> 0)"

definition first_param :: "string \<Rightarrow> string" where
  "first_param s = takeWhile (\<lambda>c. c \<noteq> CHR '';'') s"

definition cup_params :: "string \<Rightarrow> nat \<times> nat" where
  "cup_params s =
     (let a = first_param s; b = drop (length a + 1) s
      in (if a \<noteq> [] then atoi_or_0 a else 1, if b \<noteq> [] then atoi_or_0 b else 1))"

definition set_line :: "nat \<Rightarrow> string list \<Rightarrow> fake_terminal \<Rightarrow> fake_terminal" where
  "set_line k l t = t\<lparr>ft_lines := (ft_lines t)[k := l]\<rparr>"

definition ft_csi :: "string \<Rightarrow> string \<Rightarrow> fake_terminal \<Rightarrow> fake_terminal" where
  "ft_csi params final t =
     (let n = (if params \<noteq> [] then atoi_or_0 (first_param params) else 0)
      in if final = ''A'' then t\<lparr>ft_row := max (ft_top t) (ft_row t - n)\<rparr>
         else if final = ''B'' then
           (let row = ft_row t + n;
                row' = (if ft_height t > 0 \<and> row > ft_top t + ft_height t - 1 then ft_top t + ft_height t - 1 else row)
            in ensure row' (t\<lparr>ft_row := row'\<rparr>))
         else if final = ''H'' then
           (let (row, col) = cup_params params in ensure (row - 1) (t\<lparr>ft_row := row - 1, ft_col := col - 1\<rparr>))
         else if final = ''K'' then
           (let t1 = ensure (ft_row t) t; l = ft_lines t1 ! ft_row t1
            in if n = 2 then (set_line (ft_row t1) [] t1)\<lparr>ft_col := 0\<rparr>
               else if ft_col t1 < length l then set_line (ft_row t1) (take (ft_col t1) l) t1 else t1)
         else if final = ''J'' then
           (if n = 2 \<or> n = 3 then t\<lparr>ft_lines := [], ft_row := 0, ft_col := 0, ft_top := 0\<rparr>
            else let t1 = ensure (ft_row t) t; l = ft_lines t1 ! ft_row t1;
                     t2 = (if ft_col t1 < length l then set_line (ft_row t1) (take (ft_col t1) l) t1 else t1)
                 in t2\<lparr>ft_lines := take (ft_row t2 + 1) (ft_lines t2)\<rparr>)
         else t)"

text \<open>The regular expression \<open>fakeCSI\<close> behind an escape character: parameters, final letter, the rest.\<close>

definition csi_rune :: "string \<Rightarrow> bool" where
  "csi_rune r = (case r of [c] \<Rightarrow> (CHR ''0'' \<le> c \<and> c \<le> CHR ''9'') \<or> c = CHR '';'' | _ \<Rightarrow> False)"

definition match_csi :: "string list \<Rightarrow> (string \<times> string \<times> string list) option" where
  "match_csi rs =
     (case rs of
        [] \<Rightarrow> None
      | b # r \<Rightarrow>
          if b \<noteq> ''['' then None
          else let r1 = (if r \<noteq> [] \<and> hd r = ''?'' then drop 1 r else r)
               in case dropWhile csi_rune r1 of
                    [] \<Rightarrow> None
                  | f # rest \<Rightarrow> if isLetter f then Some (concat (takeWhile csi_rune r1), f, rest) else None)"

lemma match_csi_length: "match_csi rs = Some (ps, f, rest) \<Longrightarrow> length rest < length rs"
proof -
  assume m: "match_csi rs = Some (ps, f, rest)"
  obtain r where "rs = ''['' # r" and d: "dropWhile csi_rune (if r \<noteq> [] \<and> hd r = ''?'' then drop 1 r else r) = f # rest"
    using m by (auto simp: match_csi_def Let_def split: list.splits if_splits)
  then show ?thesis using length_dropWhile_le [of csi_rune "if r \<noteq> [] \<and> hd r = ''?'' then drop 1 r else r"]
    by (auto split: if_splits)
qed

function write_runes :: "string list \<Rightarrow> fake_terminal \<Rightarrow> fake_terminal" where
  "write_runes [] t = t"
| "write_runes (r # rs) t =
     (if r = [esc_char] then
        (case match_csi rs of
           Some (ps, f, rest) \<Rightarrow> write_runes rest (ft_csi ps f t)
         | None \<Rightarrow> write_runes rs t)
      else if r = [CHR 0x0D] then write_runes rs (t\<lparr>ft_col := 0\<rparr>)
      else if r = [nl] then
        (let t1 = ft_scroll (t\<lparr>ft_row := ft_row t + 1, ft_col := 0\<rparr>) in write_runes rs (ensure (ft_row t1) t1))
      else write_runes rs (put r t))"
  by pat_completeness auto
termination
  by (relation "measure (\<lambda>(rs, _). length rs)") (auto dest: match_csi_length)

declare write_runes.simps(2) [simp del]

definition ft_Write :: "string \<Rightarrow> fake_terminal \<Rightarrow> fake_terminal" where
  "ft_Write p t = write_runes (runes p) t"

definition ft_Screen :: "fake_terminal \<Rightarrow> string list" where
  "ft_Screen t = rev (dropWhile (\<lambda>l. l = []) (rev (map (\<lambda>l. trim_right '' '' (concat l)) (ft_lines t))))"

subsection \<open>What a drawing surface promises\<close>

text \<open>What is shown: the text of each line, the cursor's line, the first line of the viewport, its
  height, whether the cursor is at the start of its line, and whether long lines wrap.\<close>

record vterm =
  vm_line :: "nat \<Rightarrow> string"
  vm_row :: nat
  vm_top :: nat
  vm_height :: nat
  vm_home :: bool
  vm_wraps :: bool

text \<open>
  The visible runes of a row: ordinary runes, and control sequences that neither move the cursor
  nor erase; \<open>None\<close> when the row holds anything else.
\<close>

function row_scan :: "string list \<Rightarrow> string list option" where
  "row_scan [] = Some []"
| "row_scan (r # rs) =
     (if r = [esc_char] then
        (case match_csi rs of
           Some (ps, f, rest) \<Rightarrow> if f \<in> {''A'', ''B'', ''H'', ''K'', ''J''} then None else row_scan rest
         | None \<Rightarrow> None)
      else if r = [CHR 0x0D] \<or> r = [nl] then None
      else map_option (Cons r) (row_scan rs))"
  by pat_completeness auto
termination
  by (relation "measure length") (auto dest: match_csi_length)

declare row_scan.simps(2) [simp del]

definition row_ok :: "string \<Rightarrow> bool" where
  "row_ok s \<longleftrightarrow> utf8_valid s \<and> row_scan (runes s) \<noteq> None"

definition visible :: "string \<Rightarrow> string" where
  "visible s = (case row_scan (runes s) of Some rs \<Rightarrow> concat rs | None \<Rightarrow> [])"

text \<open>The pieces the renderer writes.\<close>

datatype tok = SyncOn | SyncOff | Up nat | Down nat | CR | CRLF | EraseLine | EraseDown | Row string

definition tok_str :: "tok \<Rightarrow> string" where
  "tok_str k =
     (case k of
        SyncOn \<Rightarrow> esc_char # ''[?2026h''
      | SyncOff \<Rightarrow> esc_char # ''[?2026l''
      | Up n \<Rightarrow> esc_char # ''['' @ show_nat n @ ''A''
      | Down n \<Rightarrow> esc_char # ''['' @ show_nat n @ ''B''
      | CR \<Rightarrow> [CHR 0x0D]
      | CRLF \<Rightarrow> [CHR 0x0D, nl]
      | EraseLine \<Rightarrow> esc_char # ''[2K''
      | EraseDown \<Rightarrow> esc_char # ''[J''
      | Row s \<Rightarrow> s)"

definition emit :: "tok list \<Rightarrow> string" where
  "emit ks = concat (map tok_str ks)"

definition vt_step :: "vterm \<Rightarrow> tok \<Rightarrow> vterm" where
  "vt_step v k =
     (case k of
        Up n \<Rightarrow> v\<lparr>vm_row := max (vm_top v) (vm_row v - n)\<rparr>
      | Down n \<Rightarrow> v\<lparr>vm_row := (if vm_height v > 0 \<and> vm_row v + n > vm_top v + vm_height v - 1
                               then vm_top v + vm_height v - 1 else vm_row v + n)\<rparr>
      | CR \<Rightarrow> v\<lparr>vm_home := True\<rparr>
      | CRLF \<Rightarrow> v\<lparr>vm_row := vm_row v + 1, vm_home := True,
                vm_top := (if vm_height v > 0 \<and> vm_row v + 1 > vm_top v + vm_height v - 1
                           then vm_row v + 1 - (vm_height v - 1) else vm_top v)\<rparr>
      | EraseLine \<Rightarrow> v\<lparr>vm_line := (vm_line v)(vm_row v := [])\<rparr>
      | EraseDown \<Rightarrow> v\<lparr>vm_line := (\<lambda>k. if vm_row v \<le> k then [] else vm_line v k)\<rparr>
      | Row s \<Rightarrow> v\<lparr>vm_line := (vm_line v)(vm_row v := visible s), vm_home := (visible s = [])\<rparr>
      | _ \<Rightarrow> v)"

text \<open>When a piece may be written: rows on an empty line from its start, erasures at a line's start.\<close>

definition valid_tok :: "tok \<Rightarrow> vterm \<Rightarrow> bool" where
  "valid_tok k v \<longleftrightarrow>
     (case k of
        Row s \<Rightarrow> row_ok s \<and> vm_home v \<and> vm_line v (vm_row v) = [] \<and> \<not> vm_wraps v
      | EraseLine \<Rightarrow> vm_home v
      | EraseDown \<Rightarrow> vm_home v
      | _ \<Rightarrow> True)"

fun valid_toks :: "tok list \<Rightarrow> vterm \<Rightarrow> bool" where
  "valid_toks [] v = True"
| "valid_toks (k # ks) v \<longleftrightarrow> valid_tok k v \<and> valid_toks ks (vt_step v k)"

lemma valid_toks_append: "valid_toks (ks @ ls) v \<longleftrightarrow> valid_toks ks v \<and> valid_toks ls (foldl vt_step v ks)"
  by (induction ks arbitrary: v) auto

locale screen =
  fixes draw :: "string \<Rightarrow> 't \<Rightarrow> 't" and view :: "'t \<Rightarrow> vterm"
  assumes write_nil: "draw [] t = t"
    and write_tok: "valid_tok k (view t) \<Longrightarrow> draw (tok_str k @ s) t = draw s (draw (tok_str k) t)"
    and view_tok: "valid_tok k (view t) \<Longrightarrow> view (draw (tok_str k) t) = vt_step (view t) k"
begin

text \<open>The contract for a whole drawing: what is shown after it is what its pieces do in turn.\<close>

lemma view_emit: "valid_toks ks (view t) \<Longrightarrow> view (draw (emit ks) t) = foldl vt_step (view t) ks"
proof (induction ks arbitrary: t)
  case (Cons k ks)
  then show ?case using view_tok [of k t] by (simp add: emit_def write_tok)
qed (simp add: emit_def write_nil)

end

subsection \<open>FakeTerminal keeps the contract\<close>

definition ft_view :: "fake_terminal \<Rightarrow> vterm" where
  "ft_view t = \<lparr>vm_line = (\<lambda>k. if k < length (ft_lines t) then concat (ft_lines t ! k) else []),
     vm_row = ft_row t, vm_top = ft_top t, vm_height = ft_height t, vm_home = (ft_col t = 0), vm_wraps = ft_autowrap t\<rparr>"

definition line_at :: "fake_terminal \<Rightarrow> nat \<Rightarrow> string list" where
  "line_at t k = (if k < length (ft_lines t) then ft_lines t ! k else [])"

lemma ensure_view [simp]: "ft_view (ensure r t) = ft_view t"
  by (auto simp: ft_view_def ensure_def fun_eq_iff nth_append)

lemma ensure_sel [simp]:
  "ft_row (ensure r t) = ft_row t" "ft_col (ensure r t) = ft_col t" "ft_top (ensure r t) = ft_top t"
  "ft_height (ensure r t) = ft_height t" "ft_width (ensure r t) = ft_width t" "ft_autowrap (ensure r t) = ft_autowrap t"
  "r < length (ft_lines (ensure r t))"
  by (simp_all add: ensure_def)

lemma match_csi_append: "match_csi rs = Some (ps, f, rest) \<Longrightarrow> match_csi (rs @ xs) = Some (ps, f, rest @ xs)"
proof -
  assume m: "match_csi rs = Some (ps, f, rest)"
  obtain r where r: "rs = ''['' # r" using m by (auto simp: match_csi_def split: list.splits if_splits)
  define r1 where "r1 = (if r \<noteq> [] \<and> hd r = ''?'' then drop 1 r else r)"
  have d: "dropWhile csi_rune r1 = f # rest" and f: "isLetter f" and ps: "ps = concat (takeWhile csi_rune r1)"
    using m by (auto simp: match_csi_def r Let_def simp flip: r1_def split: list.splits if_splits)
  have "r \<noteq> []" using d by (auto simp: r1_def)
  then have r1x: "(if r @ xs \<noteq> [] \<and> hd (r @ xs) = ''?'' then drop 1 (r @ xs) else r @ xs) = r1 @ xs"
    by (cases r) (auto simp: r1_def)
  have ex: "\<exists>x \<in> set r1. \<not> csi_rune x"
    using d by (metis dropWhile_eq_Nil_conv list.distinct(1))
  have "dropWhile csi_rune (r1 @ xs) = f # rest @ xs" "takeWhile csi_rune (r1 @ xs) = takeWhile csi_rune r1"
    using ex d by (auto simp: dropWhile_append1)
  then show ?thesis using f ps unfolding match_csi_def r by (simp only: append_Cons list.case r1x Let_def) simp
qed

lemma line_at_ensure [simp]: "line_at (ensure r t) k = line_at t k"
  by (auto simp: line_at_def ensure_def nth_append)

lemma ft_view_line: "vm_line (ft_view t) k = concat (line_at t k)"
  by (simp add: ft_view_def line_at_def)

lemma put_sel:
  assumes "\<not> ft_autowrap t"
  shows "ft_row (put r t) = ft_row t" "ft_col (put r t) = ft_col t + 1" "ft_top (put r t) = ft_top t"
    "ft_height (put r t) = ft_height t" "\<not> ft_autowrap (put r t)"
  using assms by (simp_all add: put_def Let_def)

lemma put_line:
  assumes "\<not> ft_autowrap t" and "ft_col t \<le> length (line_at t (ft_row t))"
  shows "line_at (put r t) k = (if k = ft_row t then take (ft_col t) (line_at t k) @ r # drop (ft_col t + 1) (line_at t k) else line_at t k)"
proof -
  let ?t = "ensure (ft_row t) t" and ?l = "line_at t (ft_row t)"
  have row: "ft_row t < length (ft_lines ?t)" by simp
  have l: "ft_lines ?t ! ft_row t = ?l" using row line_at_ensure [of "ft_row t" t "ft_row t"] unfolding line_at_def by simp
  have upd: "(?l @ replicate (ft_col t + 1 - length ?l) '' '')[ft_col t := r] = take (ft_col t) ?l @ r # drop (ft_col t + 1) ?l"
    using assms(2) by (cases "ft_col t = length ?l") (simp_all add: upd_conv_take_nth_drop list_update_append)
  have "line_at (put r t) k = (if k < length (ft_lines ?t) then (ft_lines ?t)[ft_row t := take (ft_col t) ?l @ r # drop (ft_col t + 1) ?l] ! k else [])"
    using assms(1) upd by (simp add: put_def Let_def line_at_def [of "fake_terminal.ft_lines_update _ _"] l line_at_def [of "ft_col_update _ _"])
  also have "\<dots> = (if k = ft_row t then take (ft_col t) ?l @ r # drop (ft_col t + 1) ?l else line_at ?t k)"
    using row by (auto simp: nth_list_update line_at_def [of ?t] simp del: line_at_ensure)
  finally show ?thesis by simp
qed

lemma puts_line:
  assumes "\<not> ft_autowrap t" and "ft_col t \<le> length (line_at t (ft_row t))"
  shows "line_at (fold put vs t) k = (if k = ft_row t
      then take (ft_col t) (line_at t k) @ vs @ drop (ft_col t + length vs) (line_at t k) else line_at t k)
    \<and> ft_row (fold put vs t) = ft_row t \<and> ft_col (fold put vs t) = ft_col t + length vs \<and> ft_top (fold put vs t) = ft_top t
    \<and> ft_height (fold put vs t) = ft_height t \<and> \<not> ft_autowrap (fold put vs t)"
  using assms
proof (induction vs arbitrary: t)
  case (Cons r vs)
  have t: "\<not> ft_autowrap (put r t)" "ft_col (put r t) \<le> length (line_at (put r t) (ft_row (put r t)))"
    using Cons.prems by (simp_all add: put_sel put_line)
  show ?case using Cons.IH [OF t] Cons.prems by (auto simp: put_sel put_line min_def add.commute)
qed simp

lemma row_scan_append:
  "row_scan rs = Some vs \<Longrightarrow> write_runes (rs @ xs) t = write_runes xs (fold put vs t)"
proof (induction rs arbitrary: vs t rule: row_scan.induct)
  case (2 r rs)
  show ?case
  proof (cases "r = [esc_char]")
    case True
    obtain ps f rest where m: "match_csi rs = Some (ps, f, rest)" and f: "f \<notin> {''A'', ''B'', ''H'', ''K'', ''J''}"
      and s: "row_scan rest = Some vs"
      using "2.prems" True by (auto simp: row_scan.simps(2) split: option.splits if_splits)
    have "write_runes (rest @ xs) t = write_runes xs (fold put vs t)" using 2(1) [OF True m _ _ f s] by simp
    moreover have "ft_csi ps f t = t" using f by (simp add: ft_csi_def Let_def)
    ultimately show ?thesis using True match_csi_append [OF m] by (simp add: write_runes.simps(2))
  next
    case False
    obtain vs' where vs: "r \<noteq> [CHR 0x0D]" "r \<noteq> [nl]" "row_scan rs = Some vs'" "vs = r # vs'"
      using "2.prems" False by (auto simp: row_scan.simps(2) split: if_splits)
    show ?thesis using 2(2) [OF False _ vs(3)] vs False by (simp add: write_runes.simps(2))
  qed
qed simp

lemma match_csi_sub: "match_csi rs = Some (ps, f, rest) \<Longrightarrow> set rest \<subseteq> set rs"
proof -
  assume m: "match_csi rs = Some (ps, f, rest)"
  obtain r where r: "rs = ''['' # r" and d: "dropWhile csi_rune (if r \<noteq> [] \<and> hd r = ''?'' then drop 1 r else r) = f # rest"
    using m by (auto simp: match_csi_def Let_def split: list.splits if_splits)
  have "set rest \<subseteq> set (dropWhile csi_rune (if r \<noteq> [] \<and> hd r = ''?'' then drop 1 r else r))" by (auto simp: d)
  then show ?thesis using r by (auto dest: set_dropWhileD in_set_dropD split: if_splits)
qed

lemma row_scan_sub: "row_scan rs = Some vs \<Longrightarrow> set vs \<subseteq> set rs"
proof (induction rs arbitrary: vs rule: row_scan.induct)
  case (2 r rs)
  show ?case
  proof (cases "r = [esc_char]")
    case True
    obtain ps f rest where m: "match_csi rs = Some (ps, f, rest)" and f: "f \<notin> {''A'', ''B'', ''H'', ''K'', ''J''}"
      and s: "row_scan rest = Some vs"
      using "2.prems" True by (auto simp: row_scan.simps(2) split: option.splits if_splits)
    have "set rest \<subseteq> set rs" using match_csi_sub [OF m] .
    moreover have "set vs \<subseteq> set rest" using 2(1) [OF True m _ _ f s] by simp
    ultimately show ?thesis by auto
  next
    case False
    obtain vs' where vs: "r \<noteq> [CHR 0x0D]" "r \<noteq> [nl]" "row_scan rs = Some vs'" "vs = r # vs'"
      using "2.prems" False by (auto simp: row_scan.simps(2) split: if_splits)
    show ?thesis using 2(2) [OF False _ vs(3)] vs by auto
  qed
qed simp

text \<open>What a written piece does to the terminal.\<close>

definition ft_tok :: "tok \<Rightarrow> fake_terminal \<Rightarrow> fake_terminal" where
  "ft_tok k t =
     (case k of
        Up n \<Rightarrow> ft_csi (show_nat n) ''A'' t
      | Down n \<Rightarrow> ft_csi (show_nat n) ''B'' t
      | CR \<Rightarrow> t\<lparr>ft_col := 0\<rparr>
      | CRLF \<Rightarrow> (let t1 = ft_scroll (t\<lparr>ft_row := ft_row t + 1, ft_col := 0\<rparr>) in ensure (ft_row t1) t1)
      | EraseLine \<Rightarrow> ft_csi ''2'' ''K'' t
      | EraseDown \<Rightarrow> ft_csi [] ''J'' t
      | Row s \<Rightarrow> fold put (the (row_scan (runes s))) t
      | _ \<Rightarrow> t)"

lemma show_nat_codes: "c \<in> set (show_nat n) \<Longrightarrow> CHR ''0'' \<le> c \<and> c \<le> CHR ''9''"
proof (induction n rule: show_nat.induct)
  case (1 n)
  have d: "CHR ''0'' \<le> (char_of (48 + d) :: char) \<and> char_of (48 + d) \<le> CHR ''9''" if "d < 10" for d :: nat
    using that by (simp add: less_eq_char_def)
  show ?case using 1 d [of n] d [of "n mod 10"] by (subst (asm) show_nat.simps) (auto split: if_splits)
qed

lemma ascii_digit: "CHR ''0'' \<le> c \<Longrightarrow> c \<le> CHR ''9'' \<Longrightarrow> (of_char c :: nat) < 0x80"
  by (simp add: less_eq_char_def)

lemma csi_string:
  assumes "list_all (\<lambda>c. CHR ''0'' \<le> c \<and> c \<le> CHR ''9'') ds" and "isLetter [f]" and "pre = [] \<or> pre = ''?''"
  shows "runes (esc_char # ''['' @ pre @ ds @ [f] @ s) = [esc_char] # ''['' # map (\<lambda>c. [c]) (pre @ ds @ [f]) @ runes s"
    and "write_runes ([esc_char] # ''['' # map (\<lambda>c. [c]) (pre @ ds @ [f]) @ xs) t = write_runes xs (ft_csi ds [f] t)"
proof -
  have f: "(of_char f :: nat) < 0x80" using assms(2) by (auto simp: isLetter_def less_eq_char_def)
  have "list_all (\<lambda>b. (of_char b :: nat) < 0x80) (esc_char # ''['' @ pre @ ds @ [f])"
    using f assms(1,3) by (auto simp: list_all_iff ascii_digit)
  then have "list_all rune_one (map (\<lambda>b. [b]) (esc_char # ''['' @ pre @ ds @ [f]))" by (auto simp: list_all_iff)
  from runes_concat [OF this, of s]
  show "runes (esc_char # ''['' @ pre @ ds @ [f] @ s) = [esc_char] # ''['' # map (\<lambda>c. [c]) (pre @ ds @ [f]) @ runes s" by simp
  have dig: "list_all csi_rune (map (\<lambda>c. [c]) ds)" using assms(1) by (auto simp: list_all_iff csi_rune_def)
  have nf: "\<not> csi_rune [f]" using assms(2) by (auto simp: isLetter_def csi_rune_def less_eq_char_def)
  have dw: "dropWhile csi_rune (map (\<lambda>c. [c]) ds @ [f] # xs) = [f] # xs"
    using dig nf by (subst dropWhile_append2) (auto simp: list_all_iff)
  have tw: "takeWhile csi_rune (map (\<lambda>c. [c]) ds @ [f] # xs) = map (\<lambda>c. [c]) ds"
    using dig nf by (subst takeWhile_append2) (auto simp: list_all_iff)
  have q: "\<not> (map (\<lambda>c. [c]) ds @ [f] # xs \<noteq> [] \<and> hd (map (\<lambda>c. [c]) ds @ [f] # xs) = ''?'')"
    using assms(1,2) by (cases ds) (auto simp: isLetter_def less_eq_char_def)
  have "match_csi (''['' # map (\<lambda>c. [c]) (pre @ ds @ [f]) @ xs) = Some (ds, [f], xs)"
    using assms(2,3) q dw tw by (auto simp: match_csi_def Let_def)
  then show "write_runes ([esc_char] # ''['' # map (\<lambda>c. [c]) (pre @ ds @ [f]) @ xs) t = write_runes xs (ft_csi ds [f] t)"
    by (simp add: write_runes.simps(2))
qed

lemma csi_draw:
  assumes "list_all (\<lambda>c. CHR ''0'' \<le> c \<and> c \<le> CHR ''9'') ds" and "isLetter [f]" and "pre = [] \<or> pre = ''?''"
  shows "ft_Write ((esc_char # ''['' @ pre @ ds @ [f]) @ s) t = ft_Write s (ft_csi ds [f] t)"
  using csi_string [OF assms] by (simp add: ft_Write_def)

lemma row_draw:
  assumes "row_ok s"
  shows "ft_Write (s @ x) t = ft_Write x (ft_tok (Row s) t)"
proof -
  have "runes (s @ x) = runes s @ runes x"
    using runes_concat [OF runes_all_one, of s x] concat_runes [of s] assms by (simp add: row_ok_def)
  moreover obtain vs where "row_scan (runes s) = Some vs" using assms by (auto simp: row_ok_def)
  ultimately show ?thesis using row_scan_append by (simp add: ft_Write_def ft_tok_def)
qed

lemma crlf_draw: "ft_Write ([CHR 0x0D] @ s) t = ft_Write s (ft_tok CR t)"
    "ft_Write ([CHR 0x0D, nl] @ s) t = ft_Write s (ft_tok CRLF t)"
proof -
  have r: "runes ([CHR 0x0D] @ s) = [CHR 0x0D] # runes s" "runes ([CHR 0x0D, nl] @ s) = [CHR 0x0D] # [nl] # runes s"
    using runes_Cons [of "[CHR 0x0D]" s] runes_Cons [of "[CHR 0x0D]" "nl # s"] runes_Cons [of "[nl]" s] by simp_all
  show "ft_Write ([CHR 0x0D] @ s) t = ft_Write s (ft_tok CR t)"
    "ft_Write ([CHR 0x0D, nl] @ s) t = ft_Write s (ft_tok CRLF t)"
    unfolding ft_Write_def r by (simp_all add: write_runes.simps(2) ft_tok_def Let_def)
qed

lemma tok_draw: "valid_tok k (ft_view t) \<Longrightarrow> ft_Write (tok_str k @ s) t = ft_Write s (ft_tok k t)"
proof -
  assume v: "valid_tok k (ft_view t)"
  have num: "list_all (\<lambda>c. CHR ''0'' \<le> c \<and> c \<le> CHR ''9'') (show_nat n)" for n by (simp add: list_all_iff show_nat_codes)
  have l: "isLetter ''A''" "isLetter ''B''" "isLetter ''K''" "isLetter ''J''" "isLetter ''h''" "isLetter ''l''" by (simp_all add: isLetter_def)
  have d: "list_all (\<lambda>c. CHR ''0'' \<le> c \<and> c \<le> CHR ''9'') ''2''" "list_all (\<lambda>c. CHR ''0'' \<le> c \<and> c \<le> CHR ''9'') ''2026''" by simp_all
  have none: "ft_csi ps ''h'' t = t" "ft_csi ps ''l'' t = t" for ps by (simp_all add: ft_csi_def Let_def)
  show ?thesis
  proof (cases k)
    case (Row x)
    then show ?thesis using row_draw v by (simp add: tok_str_def valid_tok_def)
  next
    case (Up n)
    then show ?thesis using csi_draw [OF num l(1), of "[]" n] by (simp add: tok_str_def ft_tok_def)
  next
    case (Down n)
    then show ?thesis using csi_draw [OF num l(2), of "[]" n] by (simp add: tok_str_def ft_tok_def)
  next
    case CR
    then show ?thesis using crlf_draw by (simp add: tok_str_def)
  next
    case CRLF
    then show ?thesis using crlf_draw by (simp add: tok_str_def)
  next
    case EraseLine
    then show ?thesis using csi_draw [OF d(1) l(3), of "[]"] by (simp add: tok_str_def ft_tok_def)
  next
    case EraseDown
    then show ?thesis using csi_draw [OF _ l(4), of "[]" "[]"] by (simp add: tok_str_def ft_tok_def)
  next
    case SyncOn
    then show ?thesis using csi_draw [OF d(2) l(5), of "''?''"] none by (simp add: tok_str_def ft_tok_def)
  next
    case SyncOff
    then show ?thesis using csi_draw [OF d(2) l(6), of "''?''"] none by (simp add: tok_str_def ft_tok_def)
  qed
qed

lemma param_digits: "list_all (\<lambda>c. CHR ''0'' \<le> c \<and> c \<le> CHR ''9'') ds \<Longrightarrow> first_param ds = ds"
  by (auto simp: first_param_def list_all_iff takeWhile_eq_all_conv less_eq_char_def)

lemma param_nat: "atoi_or_0 (first_param (show_nat n)) = n"
proof -
  have "first_param (show_nat n) = show_nat n" by (rule param_digits) (simp add: list_all_iff show_nat_codes)
  then show ?thesis by (simp add: atoi_or_0_def show_nat_ne digits_val_show)
qed

lemma line_at_set: "k < length (ft_lines t) \<Longrightarrow> line_at (set_line k l t) j = (if j = k then l else line_at t j)"
  by (auto simp: line_at_def set_line_def)

lemma ft_view_sel [simp]: "vm_row (ft_view t) = ft_row t" "vm_top (ft_view t) = ft_top t" "vm_height (ft_view t) = ft_height t"
    "vm_home (ft_view t) = (ft_col t = 0)" "vm_wraps (ft_view t) = ft_autowrap t"
  by (simp_all add: ft_view_def)

lemma view_eqI:
  assumes "\<And>k. concat (line_at t k) = vm_line v k" and "ft_row t = vm_row v" "ft_top t = vm_top v" "ft_height t = vm_height v"
    and "(ft_col t = 0) = vm_home v" "ft_autowrap t = vm_wraps v"
  shows "ft_view t = v"
proof -
  have "vm_line (ft_view t) = vm_line v" by (rule ext) (simp add: ft_view_line assms(1))
  then show ?thesis using assms(2-) by (intro vterm.equality) simp_all
qed

lemma line_at_other [simp]: "line_at (ft_row_update f t) = line_at t" "line_at (ft_col_update g t) = line_at t"
    "line_at (ft_top_update f t) = line_at t"
  by (simp_all add: line_at_def fun_eq_iff)

lemma line_at_take:
  "r < length (ft_lines u) \<Longrightarrow> line_at (u\<lparr>ft_lines := take (r + 1) (ft_lines u)\<rparr>) j = (if j \<le> r then line_at u j else [])"
  by (auto simp: line_at_def)

lemma tok_view: "valid_tok k (ft_view t) \<Longrightarrow> ft_view (ft_tok k t) = vt_step (ft_view t) k"
proof (cases k)
  case (Row s)
  assume "valid_tok k (ft_view t)"
  then have ok: "row_ok s" "ft_col t = 0" "concat (line_at t (ft_row t)) = []" "\<not> ft_autowrap t"
    using Row by (simp_all add: valid_tok_def ft_view_line)
  obtain vs where vs: "row_scan (runes s) = Some vs" using ok(1) by (auto simp: row_ok_def)
  have ne: "[] \<notin> set vs" using row_scan_sub [OF vs] runes_nonempty by blast
  have rest: "concat (drop n (line_at t (ft_row t))) = []" for n
    using ok(3) by (metis append_is_Nil_conv append_take_drop_id concat_append)
  have "vs = [] \<longleftrightarrow> concat vs = []" using ne by (cases vs) auto
  then show ?thesis unfolding Row using puts_line [of t vs] ok rest vs
    by (intro view_eqI) (simp_all add: ft_tok_def vt_step_def visible_def ft_view_line)
next
  case (Down n)
  have "show_nat n \<noteq> []" by (rule show_nat_ne)
  then show ?thesis unfolding Down
    by (intro view_eqI) (simp_all add: ft_tok_def vt_step_def ft_csi_def Let_def param_nat ft_view_line)
next
  case (Up n)
  have "show_nat n \<noteq> []" by (rule show_nat_ne)
  then show ?thesis unfolding Up
    by (intro view_eqI) (simp_all add: ft_tok_def vt_step_def ft_csi_def Let_def param_nat ft_view_line)
next
  case CRLF
  then show ?thesis
    by (intro view_eqI) (simp_all add: ft_tok_def vt_step_def Let_def ft_scroll_def ft_view_line)
next
  case EraseLine
  assume v: "valid_tok k (ft_view t)"
  have "atoi_or_0 (first_param ''2'') = 2" by code_simp
  then show ?thesis using EraseLine v
    by (intro view_eqI) (simp_all add: ft_tok_def vt_step_def ft_csi_def Let_def ft_view_line line_at_set valid_tok_def, simp_all add: set_line_def)
next
  case EraseDown
  assume v: "valid_tok k (ft_view t)"
  let ?t = "ensure (ft_row t) t"
  let ?t2 = "if ft_col ?t < length (ft_lines ?t ! ft_row t) then set_line (ft_row t) (take (ft_col ?t) (ft_lines ?t ! ft_row t)) ?t else ?t"
  have "ft_lines ?t ! ft_row t = line_at ?t (ft_row t)" by (simp add: line_at_def [of ?t] del: line_at_ensure)
  then have here: "ft_lines ?t ! ft_row t = line_at t (ft_row t)" by simp
  have l2: "line_at ?t2 j = (if j = ft_row t then [] else line_at t j)" for j
    using v EraseDown here by (auto simp: valid_tok_def line_at_set)
  have len: "ft_row t < length (ft_lines ?t2)" by (simp add: set_line_def)
  have "line_at (?t2\<lparr>ft_lines := take (ft_row t + 1) (ft_lines ?t2)\<rparr>) j = (if j < ft_row t then line_at t j else [])" for j
    using line_at_take [OF len] l2 [of j] by (simp split del: if_split) auto
  moreover have "ft_tok EraseDown t = ?t2\<lparr>ft_lines := take (ft_row t + 1) (ft_lines ?t2)\<rparr>"
    by (simp add: ft_tok_def ft_csi_def Let_def) (simp add: set_line_def)
  ultimately show ?thesis unfolding EraseDown using v EraseDown
    by (intro view_eqI) (auto simp: vt_step_def ft_view_line set_line_def)
qed (auto intro!: view_eqI simp: ft_tok_def vt_step_def ft_view_line)

interpretation fake: screen ft_Write ft_view
proof
  show "ft_Write [] t = t" for t by (simp add: ft_Write_def)
  show "ft_Write (tok_str k @ s) t = ft_Write s (ft_Write (tok_str k) t)" if "valid_tok k (ft_view t)" for k t s
    using tok_draw [OF that, of s] tok_draw [OF that, of "[]"] by (simp add: ft_Write_def)
  show "ft_view (ft_Write (tok_str k) t) = vt_step (ft_view t) k" if "valid_tok k (ft_view t)" for k t
    using tok_draw [OF that, of "[]"] tok_view [OF that] by (simp add: ft_Write_def)
qed

end
