(* ===== verification/Incipit.thy ===== *)
theory Incipit
  imports Term_Screen Aria_Wire
begin

section \<open>The inline renderer (\<open>internal/livelog/render/incipit.go\<close>)\<close>

text \<open>
  The renderer prints closed messages once and redraws the open message in place, line by line,
  with relative cursor movements. It keeps what it believes to be on screen: the rows of the open
  message, how many of them have scrolled out of the viewport, and the cursor's row. Each operation
  returns the pieces it writes and the new state; the view of nodes, the rows that close a message
  and the header are callbacks and come, with the size of the terminal, in \<open>incipit_env\<close>.

  On every surface that keeps the contract \<open>screen\<close>, what is shown is what was committed followed by
  the open message (\<open>inline_shown\<close>, and \<open>inline_view_exact\<close> for \<open>FakeTerminal\<close>).
\<close>

record incipit_env =
  ie_view :: "node \<Rightarrow> int \<Rightarrow> int \<Rightarrow> string list"
  ie_Bookend :: "string list option"
  ie_Rule :: "string option"
  ie_Header :: "(string \<Rightarrow> string) option"
  ie_width :: int
  ie_height :: nat

record incipit =
  ic_tick :: int
  ic_liveLT :: int
  ic_role :: string
  ic_live :: "string list"
  ic_vt :: nat
  ic_cur :: nat

definition NewIncipit :: incipit where
  "NewIncipit = \<lparr>ic_tick = 0, ic_liveLT = 0, ic_role = [], ic_live = [], ic_vt = 0, ic_cur = 0\<rparr>"

subsection \<open>Rows\<close>

definition row_at :: "string list \<Rightarrow> nat \<Rightarrow> string" where
  "row_at rows k = (if k < length rows then rows ! k else [])"

definition diff_step :: "string list \<Rightarrow> string list \<Rightarrow> (nat \<times> nat) option \<Rightarrow> nat \<Rightarrow> (nat \<times> nat) option" where
  "diff_step old new acc k =
     (if row_at old k \<noteq> row_at new k then Some (case acc of None \<Rightarrow> k | Some (first, _) \<Rightarrow> first, k) else acc)"

definition diffRange :: "string list \<Rightarrow> string list \<Rightarrow> (nat \<times> nat) option" where
  "diffRange old new = foldl (diff_step old new) None [0..<(if length old > length new then length old else length new)]"

definition ic_header :: "incipit_env \<Rightarrow> string \<Rightarrow> string" where
  "ic_header e role = (case ie_Header e of None \<Rightarrow> [] | Some f \<Rightarrow> f role)"

definition ic_seal :: "incipit_env \<Rightarrow> string \<Rightarrow> string list" where
  "ic_seal e role =
     (case (if role = ''assistant'' then ie_Bookend e else None) of
        Some rows \<Rightarrow> rows
      | None \<Rightarrow> (case ie_Rule e of Some r \<Rightarrow> [r] | None \<Rightarrow> []))"

definition renderNodes :: "incipit_env \<Rightarrow> int \<Rightarrow> node list \<Rightarrow> string list" where
  "renderNodes e tick nodes =
     (let w = (if ie_width e \<le> 0 then 80 else ie_width e)
      in concat (map (\<lambda>(k, n). (if k > 0 then [[]] else []) @ map (\<lambda>l. clip l w) (ie_view e n w tick)) (enumerate (0 :: nat) nodes)))"

definition seal_rows :: "incipit_env \<Rightarrow> string \<Rightarrow> string list" where
  "seal_rows e role = (if ic_seal e role \<noteq> [] then [] # map (\<lambda>s. clip s (ie_width e)) (ic_seal e role) else [])"

definition header_rows :: "incipit_env \<Rightarrow> string \<Rightarrow> string list" where
  "header_rows e role = (if ic_header e role \<noteq> [] then [ic_header e role, []] else [])"

definition ic_compose :: "incipit_env \<Rightarrow> incipit \<Rightarrow> node list \<Rightarrow> string list" where
  "ic_compose e i nodes = [] # header_rows e (ic_role i) @ renderNodes e (ic_tick i) nodes @ seal_rows e (ic_role i)"

subsection \<open>Painting\<close>

definition vmove :: "nat \<Rightarrow> incipit \<Rightarrow> tok list \<times> incipit" where
  "vmove target i =
     (if target > ic_cur i then [Down (target - ic_cur i)]
      else if target < ic_cur i then [Up (ic_cur i - target)] else [], i\<lparr>ic_cur := target\<rparr>)"

definition paint_cell :: "string list \<Rightarrow> nat \<Rightarrow> tok list" where
  "paint_cell rows k = EraseLine # (if k < length rows then [Row (rows ! k)] else [])"

definition next_row :: "nat \<Rightarrow> incipit \<Rightarrow> incipit" where
  "next_row h i =
     (let i1 = i\<lparr>ic_cur := ic_cur i + 1\<rparr>
      in if h > 0 \<and> ic_cur i1 > ic_vt i1 + h - 1 then i1\<lparr>ic_vt := ic_cur i1 - (h - 1)\<rparr> else i1)"

fun paint_rest :: "nat \<Rightarrow> string list \<Rightarrow> nat list \<Rightarrow> incipit \<Rightarrow> tok list \<times> incipit" where
  "paint_rest h rows [] i = ([], i)"
| "paint_rest h rows (k # ks) i =
     (let (ts, i2) = paint_rest h rows ks (next_row h i) in (CRLF # paint_cell rows k @ ts, i2))"

definition goto_row :: "nat \<Rightarrow> nat \<Rightarrow> incipit \<Rightarrow> tok list \<times> incipit" where
  "goto_row h first i =
     (if h > 0 then
        (let bottom = ic_vt i + h - 1
         in if first > bottom then
              (let (m, i1) = vmove bottom i
               in (m @ replicate (first - bottom) CRLF, i1\<lparr>ic_vt := ic_vt i1 + (first - bottom), ic_cur := first\<rparr>))
            else vmove first i)
      else vmove first i)"

definition paint :: "nat \<Rightarrow> string list \<Rightarrow> incipit \<Rightarrow> tok list \<times> incipit" where
  "paint h newRows i =
     (case diffRange (ic_live i) newRows of
        None \<Rightarrow> ([], i)
      | Some (first, final) \<Rightarrow>
          (let (t1, i1) = goto_row h first i;
               (t2, i2) = paint_rest h newRows [first + 1..<final + 1] i1;
               (t3, i3) = vmove (ic_vt i2) (i2\<lparr>ic_cur := final\<rparr>)
           in ([SyncOn] @ t1 @ [CR] @ paint_cell newRows first @ t2 @ t3 @ [CR, SyncOff], i3\<lparr>ic_live := newRows\<rparr>)))"

subsection \<open>Operations\<close>

definition ic_reset :: "incipit \<Rightarrow> incipit" where
  "ic_reset i = i\<lparr>ic_liveLT := 0, ic_role := [], ic_live := [], ic_vt := 0, ic_cur := 0\<rparr>"

definition dropBelow :: "incipit \<Rightarrow> tok list" where
  "dropBelow i = replicate (length (ic_live i) - ic_vt i) CRLF"

definition print_rows :: "string list \<Rightarrow> tok list" where
  "print_rows rows = concat (map (\<lambda>r. [Row r, CRLF]) rows)"

definition nodes_of :: "aria_msg \<Rightarrow> node list" where
  "nodes_of m = (case msg_nodes m of None \<Rightarrow> [] | Some ns \<Rightarrow> ns)"

definition ic_Seal :: "incipit_env \<Rightarrow> aria_msg \<Rightarrow> incipit \<Rightarrow> tok list \<times> incipit" where
  "ic_Seal e m i =
     (if msg_lt m = ic_liveLT i \<and> ic_liveLT i \<noteq> 0 then (dropBelow i, ic_reset i)
      else (CRLF # (if ic_header e (msg_role m) \<noteq> [] then [Row (ic_header e (msg_role m)), CRLF, CRLF] else [])
              @ print_rows (renderNodes e (ic_tick i) (nodes_of m)), i))"

definition printMessage :: "incipit_env \<Rightarrow> incipit \<Rightarrow> aria_msg \<Rightarrow> tok list" where
  "printMessage e i m =
     (let body = renderNodes e (ic_tick i) (nodes_of m)
      in if body = [] then [] else print_rows ([] # header_rows e (msg_role m) @ body @ seal_rows e (msg_role m)))"

definition ic_Open :: "incipit_env \<Rightarrow> int \<Rightarrow> string \<Rightarrow> node list \<Rightarrow> incipit \<Rightarrow> tok list \<times> incipit" where
  "ic_Open e lt role nodes i =
     (let (t0, i0) = (if lt \<noteq> ic_liveLT i
                      then (if ic_liveLT i \<noteq> 0 then dropBelow i else [], (ic_reset i)\<lparr>ic_liveLT := lt\<rparr>)
                      else ([], i));
          i1 = i0\<lparr>ic_role := role\<rparr>;
          (t1, i2) = paint (ie_height e) (ic_compose e i1 nodes) i1
      in (t0 @ t1, i2))"

definition ic_Tick :: "incipit_env \<Rightarrow> node list \<Rightarrow> incipit \<Rightarrow> tok list \<times> incipit" where
  "ic_Tick e nodes i =
     (if ic_liveLT i = 0 then ([], i)
      else let i1 = i\<lparr>ic_tick := ic_tick i + 1\<rparr> in paint (ie_height e) (ic_compose e i1 nodes) i1)"

definition ic_Resize :: "incipit_env \<Rightarrow> node list \<Rightarrow> incipit \<Rightarrow> tok list \<times> incipit" where
  "ic_Resize e nodes i =
     (if ic_liveLT i = 0 then ([], i)
      else let i1 = i\<lparr>ic_live := [], ic_vt := 0, ic_cur := 0\<rparr>;
               (ts, i2) = paint (ie_height e) (ic_compose e i1 nodes) i1
           in (EraseDown # ts, i2))"

definition ic_Resume :: "incipit_env \<Rightarrow> aria_msg list \<Rightarrow> int \<Rightarrow> string \<Rightarrow> node list \<Rightarrow> incipit \<Rightarrow> tok list \<times> incipit" where
  "ic_Resume e msgs openLT openRole open_nodes i =
     (let i1 = ic_reset i; ts = EraseDown # concat (map (printMessage e i1) msgs)
      in if openLT \<noteq> 0 then (let (t2, i2) = ic_Open e openLT openRole open_nodes i1 in (ts @ t2, i2)) else (ts, i1))"

definition AbandonOpen :: "incipit_env \<Rightarrow> string \<Rightarrow> incipit \<Rightarrow> tok list \<times> incipit" where
  "AbandonOpen e line i =
     ((if ic_liveLT i \<noteq> 0 then replicate (length (ic_live i) - ic_vt i) CRLF else [])
        @ (if line \<noteq> [] then [CRLF, Row (clip line (ie_width e)), CRLF] else []), ic_reset i)"

subsection \<open>The changed rows\<close>

lemma diff_fold:
  assumes "foldl (diff_step old new) None [0..<n] = d"
  shows "case d of
      None \<Rightarrow> \<forall>k<n. row_at old k = row_at new k
    | Some (f, l) \<Rightarrow> f \<le> l \<and> l < n \<and> row_at old f \<noteq> row_at new f \<and> row_at old l \<noteq> row_at new l
        \<and> (\<forall>k<n. k < f \<or> l < k \<longrightarrow> row_at old k = row_at new k)"
  using assms
proof (induction n arbitrary: d)
  case (Suc n)
  obtain d0 where d0: "foldl (diff_step old new) None [0..<n] = d0" by simp
  have d: "d = diff_step old new d0 n" using Suc.prems d0 by simp
  show ?case using Suc.IH [OF d0] unfolding d
    by (cases d0) (auto simp: diff_step_def less_Suc_eq)
qed simp

lemma row_at_over: "k \<ge> length rows \<Longrightarrow> row_at rows k = []"
  by (simp add: row_at_def)

lemma diffRange_spec:
  "case diffRange old new of
      None \<Rightarrow> \<forall>k<max (length old) (length new). row_at old k = row_at new k
    | Some (f, l) \<Rightarrow> f \<le> l \<and> l < max (length old) (length new) \<and> row_at old f \<noteq> row_at new f \<and> row_at old l \<noteq> row_at new l
        \<and> (\<forall>k<max (length old) (length new). k < f \<or> l < k \<longrightarrow> row_at old k = row_at new k)"
proof (rule diff_fold)
  have "(if length old > length new then length old else length new) = max (length old) (length new)" by auto
  then show "foldl (diff_step old new) None [0..<max (length old) (length new)] = diffRange old new"
    by (simp add: diffRange_def)
qed

lemma diffRange_None: "diffRange old new = None \<Longrightarrow> row_at old k = row_at new k"
  using diffRange_spec [of old new] by (cases "k < max (length old) (length new)") (auto simp: row_at_over)

lemma diffRange_Some:
  assumes "diffRange old new = Some (f, l)"
  shows "f \<le> l" "l < max (length old) (length new)" "row_at old f \<noteq> row_at new f" "row_at old l \<noteq> row_at new l"
    "k < f \<or> l < k \<Longrightarrow> row_at old k = row_at new k"
proof -
  have *: "f \<le> l \<and> l < max (length old) (length new) \<and> row_at old f \<noteq> row_at new f \<and> row_at old l \<noteq> row_at new l
      \<and> (\<forall>k<max (length old) (length new). k < f \<or> l < k \<longrightarrow> row_at old k = row_at new k)"
    using diffRange_spec [of old new] assms by simp
  then show "f \<le> l" "l < max (length old) (length new)" "row_at old f \<noteq> row_at new f" "row_at old l \<noteq> row_at new l"
    by blast+
  show "row_at old k = row_at new k" if "k < f \<or> l < k"
    using * that by (cases "k < max (length old) (length new)") (auto simp: row_at_over)
qed

subsection \<open>The live region on the screen\<close>

definition shown_texts :: "string list \<Rightarrow> string list" where
  "shown_texts rows = filter (\<lambda>t. t \<noteq> []) (map visible rows)"

definition lines_upto :: "vterm \<Rightarrow> nat \<Rightarrow> string list" where
  "lines_upto v n = filter (\<lambda>t. t \<noteq> []) (map (vm_line v) [0..<n])"

text \<open>
  The frames the renderer composes: an empty row, then a row that is not empty, and a last row that
  is not empty; every row is a single line.
\<close>

definition frame_ok :: "string list \<Rightarrow> bool" where
  "frame_ok rows \<longleftrightarrow> length rows \<ge> 2 \<and> rows ! 0 = [] \<and> rows ! 1 \<noteq> [] \<and> last rows \<noteq> [] \<and> list_all row_ok rows"

text \<open>
  What the renderer believes is so: the region starts at line \<open>base\<close>, whose first row is blank (the
  line may hold committed text there), the cursor is at its first visible row, its rows are
  shown, and nothing is shown below. \<open>cursor_at\<close> is the part that holds while it is being painted.
\<close>

definition cursor_at :: "vterm \<Rightarrow> nat \<Rightarrow> nat \<Rightarrow> nat \<Rightarrow> bool" where
  "cursor_at v base k vt \<longleftrightarrow> vm_row v = base + k \<and> vt \<le> k \<and> \<not> vm_wraps v \<and> vm_height v \<ge> 2
     \<and> vm_top v \<le> base + vt \<and> (vt > 0 \<longrightarrow> vm_top v = base + vt) \<and> base + k < vm_top v + vm_height v"

definition live_region :: "vterm \<Rightarrow> nat \<Rightarrow> string list \<Rightarrow> string list \<Rightarrow> nat \<Rightarrow> bool" where
  "live_region v base H live vt \<longleftrightarrow> cursor_at v base vt vt \<and> vm_home v
     \<and> base + length live \<le> vm_top v + vm_height v
     \<and> lines_upto v (base + 1) = H \<and> (\<forall>k\<ge>1. vm_line v (base + k) = visible (row_at live k))
     \<and> (live = [] \<longrightarrow> vm_line v base = [] \<and> vt = 0) \<and> (live \<noteq> [] \<longrightarrow> hd live = [])"

lemma visible_Nil [simp]: "visible [] = []"
  by (simp add: visible_def)

lemma lines_upto_cong: "(\<And>k. k < n \<Longrightarrow> vm_line v k = vm_line w k) \<Longrightarrow> lines_upto v n = lines_upto w n"
  unfolding lines_upto_def by (intro arg_cong [where f = "filter _"] map_cong) auto

lemma lines_upto_Suc: "lines_upto v (Suc n) = lines_upto v n @ (if vm_line v n = [] then [] else [vm_line v n])"
  by (simp add: lines_upto_def)

lemma lines_upto_blank: "(\<And>k. n \<le> k \<Longrightarrow> vm_line v k = []) \<Longrightarrow> n \<le> m \<Longrightarrow> lines_upto v m = lines_upto v n"
  by (induction m) (auto simp: lines_upto_Suc le_Suc_eq)

lemma shown_texts_append: "shown_texts (a @ b) = shown_texts a @ shown_texts b"
  by (simp add: shown_texts_def)

lemma lines_upto_rows:
  assumes "\<And>k. k < length rows \<Longrightarrow> vm_line v (n + k) = visible (rows ! k)"
  shows "lines_upto v (n + length rows) = lines_upto v n @ shown_texts rows"
  using assms
proof (induction rows rule: rev_induct)
  case (snoc r rows)
  have "lines_upto v (n + length rows) = lines_upto v n @ shown_texts rows"
    using snoc.prems by (intro snoc.IH) (auto simp: nth_append split: if_splits)
  moreover have "vm_line v (n + length rows) = visible r" using snoc.prems [of "length rows"] by simp
  ultimately show ?case by (simp add: lines_upto_Suc shown_texts_append) (simp add: shown_texts_def)
qed (simp add: shown_texts_def)

text \<open>What is shown in all is what was committed and the rows of the region.\<close>

lemma region_shows:
  assumes "live_region v base H live vt" and "base + max 1 (length live) \<le> n"
  shows "lines_upto v n = H @ shown_texts live"
proof -
  have below: "vm_line v k = []" if "base + max 1 (length live) \<le> k" for k
  proof -
    have all: "\<forall>k\<ge>1. vm_line v (base + k) = visible (row_at live k)" using assms(1) unfolding live_region_def by blast
    have "vm_line v (base + (k - base)) = visible (row_at live (k - base))" using all that by (metis add_le_imp_le_diff le_trans max.cobounded1 add.commute)
    then show ?thesis using that by (simp add: row_at_over)
  qed
  have "lines_upto v n = lines_upto v (base + max 1 (length live))" using lines_upto_blank below assms(2) by blast
  also have "\<dots> = H @ shown_texts live"
  proof (cases live)
    case Nil
    then show ?thesis using assms(1) by (simp add: live_region_def shown_texts_def)
  next
    case (Cons r rows)
    have "vm_line v (base + 1 + k) = visible (rows ! k)" if "k < length rows" for k
      using assms(1) that Cons by (auto simp: live_region_def row_at_def dest!: spec [of _ "Suc k"])
    then have "lines_upto v (base + 1 + length rows) = H @ shown_texts rows"
      using lines_upto_rows [of rows v "base + 1"] assms(1) by (simp add: live_region_def)
    then show ?thesis using Cons assms(1) by (simp add: live_region_def shown_texts_def)
  qed
  finally show ?thesis .
qed

subsection \<open>Painting keeps the region\<close>

lemma vm_height_step [simp]: "vm_height (vt_step v k) = vm_height v"
  by (cases k) (simp_all add: vt_step_def)

lemma cell_step:
  assumes "vm_home v" and "\<not> vm_wraps v" and "list_all row_ok rows"
  shows "valid_toks (paint_cell rows k) v \<and> foldl vt_step v (paint_cell rows k)
    = v\<lparr>vm_line := (vm_line v)(vm_row v := visible (row_at rows k)), vm_home := (visible (row_at rows k) = [])\<rparr>"
  using assms by (auto simp: paint_cell_def valid_tok_def vt_step_def row_at_def list_all_length)

lemma crlf_step:
  assumes "cursor_at v base k (ic_vt i)" and "ic_cur i = k" and "h = vm_height v"
  shows "cursor_at (vt_step v CRLF) base (k + 1) (ic_vt (next_row h i)) \<and> ic_cur (next_row h i) = k + 1
    \<and> vm_top v \<le> vm_top (vt_step v CRLF)"
  using assms by (auto simp: cursor_at_def vt_step_def next_row_def Let_def split: if_splits)

lemma crlf_other [simp]:
  "vm_line (vt_step v CRLF) = vm_line v" "vm_height (vt_step v CRLF) = vm_height v" "vm_home (vt_step v CRLF)"
  "valid_tok CRLF v" "vm_wraps (vt_step v CRLF) = vm_wraps v" "vm_row (vt_step v CRLF) = vm_row v + 1"
  by (simp_all add: vt_step_def valid_tok_def)

lemma cursor_at_line: "cursor_at (v\<lparr>vm_line := l, vm_home := b\<rparr>) base k vt = cursor_at v base k vt"
  by (simp add: cursor_at_def)

lemma next_row_other [simp]:
  "ic_live (next_row h i) = ic_live i" "ic_liveLT (next_row h i) = ic_liveLT i" "ic_role (next_row h i) = ic_role i" "ic_tick (next_row h i) = ic_tick i"
  by (simp_all add: next_row_def Let_def)

definition same_message :: "incipit \<Rightarrow> incipit \<Rightarrow> bool" where
  "same_message i j \<longleftrightarrow> ic_live j = ic_live i \<and> ic_liveLT j = ic_liveLT i \<and> ic_role j = ic_role i \<and> ic_tick j = ic_tick i"

lemma paint_rest_steps:
  assumes "cursor_at v base k (ic_vt i)" and "ic_cur i = k" and "h = vm_height v" and "list_all row_ok rows"
    and "paint_rest h rows [k + 1..<k + 1 + n] i = (ts, i')"
  shows "valid_toks ts v \<and> cursor_at (foldl vt_step v ts) base (k + n) (ic_vt i') \<and> ic_cur i' = k + n
    \<and> vm_height (foldl vt_step v ts) = h \<and> vm_top v \<le> vm_top (foldl vt_step v ts) \<and> same_message i i'
    \<and> vm_line (foldl vt_step v ts)
        = (\<lambda>j. if base + k < j \<and> j \<le> base + k + n then visible (row_at rows (j - base)) else vm_line v j)"
  using assms
proof (induction n arbitrary: v k i ts)
  case 0
  then show ?case by (auto simp: same_message_def fun_eq_iff)
next
  case (Suc n)
  have up: "[k + 1..<k + 1 + Suc n] = (k + 1) # [k + 1 + 1..<k + 1 + 1 + n]" by (simp add: upt_rec)
  let ?i = "next_row h i" and ?c = "vt_step v CRLF"
  let ?v = "foldl vt_step ?c (paint_cell rows (k + 1))"
  obtain ts' where ts': "paint_rest h rows [k + 1 + 1..<k + 1 + 1 + n] ?i = (ts', i')" and ts: "ts = CRLF # paint_cell rows (k + 1) @ ts'"
    using Suc.prems(5) unfolding up by (auto split: prod.splits)
  note c = crlf_step [OF Suc.prems(1,2,3)]
  have cell: "valid_toks (paint_cell rows (k + 1)) ?c" and
    v: "?v = ?c\<lparr>vm_line := (vm_line v)(base + (k + 1) := visible (row_at rows (k + 1))), vm_home := (visible (row_at rows (k + 1)) = [])\<rparr>"
    using cell_step [of ?c rows "k + 1"] Suc.prems(1,4) by (auto simp: cursor_at_def)
  have "cursor_at ?v base (k + 1) (ic_vt ?i)" unfolding v cursor_at_line using c by blast
  moreover have "h = vm_height ?v" unfolding v using Suc.prems(3) by simp
  ultimately have IH: "valid_toks ts' ?v \<and> cursor_at (foldl vt_step ?v ts') base (k + 1 + n) (ic_vt i') \<and> ic_cur i' = k + 1 + n
      \<and> vm_height (foldl vt_step ?v ts') = h \<and> vm_top ?v \<le> vm_top (foldl vt_step ?v ts') \<and> same_message ?i i'
      \<and> vm_line (foldl vt_step ?v ts')
        = (\<lambda>j. if base + (k + 1) < j \<and> j \<le> base + (k + 1) + n then visible (row_at rows (j - base)) else vm_line ?v j)"
    using c ts' Suc.prems(4) by (intro Suc.IH) auto
  have fold: "foldl vt_step v ts = foldl vt_step ?v ts'" by (simp add: ts)
  have "valid_toks ts v" using IH cell by (simp add: ts valid_toks_append)
  moreover have "vm_top v \<le> vm_top ?v" unfolding v using c by simp
  moreover have "vm_line ?v = (vm_line v)(base + (k + 1) := visible (row_at rows (k + 1)))" unfolding v by simp
  ultimately show ?case unfolding fold using IH by (auto simp: same_message_def fun_eq_iff)
qed

lemma crlfs_scroll:
  assumes "cursor_at v base k vt" and "k = vt + vm_height v - 1" and "vm_top v = base + vt"
  shows "cursor_at (foldl vt_step v (replicate n CRLF)) base (k + n) (vt + n)
    \<and> vm_line (foldl vt_step v (replicate n CRLF)) = vm_line v
    \<and> vm_height (foldl vt_step v (replicate n CRLF)) = vm_height v
    \<and> vm_top (foldl vt_step v (replicate n CRLF)) = base + vt + n \<and> valid_toks (replicate n CRLF) v"
  using assms
proof (induction n arbitrary: v k vt)
  case (Suc n)
  have "cursor_at (vt_step v CRLF) base (Suc k) (Suc vt)" "vm_top (vt_step v CRLF) = base + Suc vt"
    using Suc.prems by (auto simp: cursor_at_def vt_step_def)
  with Suc.IH [of "vt_step v CRLF" "Suc k" "Suc vt"] Suc.prems show ?case by (simp add: cursor_at_def)
qed simp

lemma down_step:
  assumes "vm_row v + n < vm_top v + vm_height v"
  shows "vt_step v (Down n) = v\<lparr>vm_row := vm_row v + n\<rparr>"
  using assms by (auto simp: vt_step_def)

lemma vmove_down:
  assumes "vm_row v = base + ic_cur i" and "ic_cur i \<le> k" and "base + k < vm_top v + vm_height v"
  shows "foldl vt_step v (fst (vmove k i)) = v\<lparr>vm_row := base + k\<rparr> \<and> valid_toks (fst (vmove k i)) v \<and> snd (vmove k i) = i\<lparr>ic_cur := k\<rparr>"
  using assms down_step [of v "k - ic_cur i"] by (auto simp: vmove_def valid_tok_def)

definition positioned :: "vterm \<Rightarrow> vterm \<Rightarrow> nat \<Rightarrow> string list \<Rightarrow> string list \<Rightarrow> bool" where
  "positioned v v' base H live \<longleftrightarrow> vm_line v' = vm_line v \<and> vm_height v' = vm_height v \<and> vm_top v \<le> vm_top v'
     \<and> lines_upto v (base + 1) = H \<and> (\<forall>k\<ge>1. vm_line v (base + k) = visible (row_at live k))
     \<and> base + length live \<le> vm_top v + vm_height v"

lemma region_positioned: "live_region v base H live vt \<Longrightarrow> vm_line v' = vm_line v \<Longrightarrow> vm_height v' = vm_height v \<Longrightarrow> vm_top v \<le> vm_top v'
    \<Longrightarrow> positioned v v' base H live"
  by (auto simp: live_region_def positioned_def)

text \<open>
  The first paint of a message on the last line of the viewport: the terminal does not move the
  cursor down, and the region's blank first row falls on the line above.
\<close>

lemma goto_first:
  assumes r: "live_region v base H [] 0" and "ic_vt i = 0" "ic_cur i = 0"
  shows "\<exists>base' v'. valid_toks (fst (goto_row (vm_height v) 1 i)) v \<and> foldl vt_step v (fst (goto_row (vm_height v) 1 i)) = v'
    \<and> cursor_at v' base' 1 0 \<and> snd (goto_row (vm_height v) 1 i) = i\<lparr>ic_cur := 1\<rparr> \<and> positioned v v' base' H []"
proof -
  have h: "vm_height v \<ge> 2" and row: "vm_row v = base" using r by (auto simp: live_region_def cursor_at_def)
  have goto: "goto_row (vm_height v) 1 i = ([Down 1], i\<lparr>ic_cur := 1\<rparr>)" using h assms(2,3) by (simp add: goto_row_def vmove_def Let_def)
  show ?thesis
  proof (cases "base + 1 < vm_top v + vm_height v")
    case True
    have "vt_step v (Down 1) = v\<lparr>vm_row := base + 1\<rparr>" using down_step [of v 1] True row h by simp
    moreover have "cursor_at (v\<lparr>vm_row := base + 1\<rparr>) base 1 0" using r True by (auto simp: live_region_def cursor_at_def)
    moreover have "positioned v (v\<lparr>vm_row := base + 1\<rparr>) base H []" by (rule region_positioned [OF r]) simp_all
    ultimately show ?thesis unfolding goto by (auto simp: valid_tok_def)
  next
    case False
    have b: "vm_top v + vm_height v = base + 1" using r False by (auto simp: live_region_def cursor_at_def)
    have step: "vt_step v (Down 1) = v" using b h row by (simp add: vt_step_def)
    have base: "base = Suc (base - 1)" using b h by simp
    have all: "\<forall>k\<ge>1. vm_line v (base + k) = []" and here: "vm_line v base = []"
      using r by (auto simp: live_region_def row_at_def)
    have blank: "vm_line v (base - 1 + k) = []" if "k \<ge> 1" for k
    proof (cases "k = 1")
      case True
      then show ?thesis using here base by simp
    next
      case False
      then have "base - 1 + k = base + (k - 1)" "k - 1 \<ge> 1" using that base by simp_all
      then show ?thesis using all by metis
    qed
    have "lines_upto v (Suc base) = H" using r by (simp add: live_region_def)
    then have "lines_upto v base = H" using here by (simp add: lines_upto_Suc)
    then have "positioned v v (base - 1) H []" using blank base b by (simp add: positioned_def row_at_def)
    moreover have "cursor_at v (base - 1) 1 0" using r b base h by (auto simp: live_region_def cursor_at_def)
    ultimately show ?thesis unfolding goto using step by (auto simp: valid_tok_def)
  qed
qed

lemma goto_later:
  assumes r: "live_region v base H (ic_live i) (ic_vt i)" and "ic_cur i = ic_vt i" and "ic_vt i \<le> f"
    and room: "f < length (ic_live i) \<or> ic_vt i > 0"
  shows "\<exists>v' vt'. valid_toks (fst (goto_row (vm_height v) f i)) v \<and> foldl vt_step v (fst (goto_row (vm_height v) f i)) = v'
    \<and> cursor_at v' base f vt' \<and> snd (goto_row (vm_height v) f i) = i\<lparr>ic_vt := vt', ic_cur := f\<rparr> \<and> positioned v v' base H (ic_live i)"
proof -
  let ?h = "vm_height v" and ?bottom = "ic_vt i + vm_height v - 1"
  have h: "?h \<ge> 2" and row: "vm_row v = base + ic_cur i" and top: "vm_top v \<le> base + ic_vt i" "ic_vt i > 0 \<longrightarrow> vm_top v = base + ic_vt i"
    and len: "base + length (ic_live i) \<le> vm_top v + ?h"
    using r assms(2) by (auto simp: live_region_def cursor_at_def)
  show ?thesis
  proof (cases "f > ?bottom")
    case False
    then have goto: "goto_row ?h f i = vmove f i" by (simp add: goto_row_def Let_def)
    have inside: "base + f < vm_top v + ?h" using room top len False h by auto
    have "cursor_at (v\<lparr>vm_row := base + f\<rparr>) base f (ic_vt i)" using r assms(3) inside by (auto simp: live_region_def cursor_at_def)
    moreover have "positioned v (v\<lparr>vm_row := base + f\<rparr>) base H (ic_live i)" by (rule region_positioned [OF r]) simp_all
    moreover have "ic_cur i \<le> f" using assms(2,3) by simp
    moreover have "i\<lparr>ic_cur := f\<rparr> = i\<lparr>ic_vt := ic_vt i, ic_cur := f\<rparr>" by simp
    ultimately show ?thesis unfolding goto using vmove_down [OF row _ inside] by metis
  next
    case True
    then have vt: "ic_vt i > 0" using room top len h by auto
    have inside: "base + ?bottom < vm_top v + ?h" using top vt h by simp
    let ?v1 = "v\<lparr>vm_row := base + ?bottom\<rparr>"
    have c1: "cursor_at ?v1 base ?bottom (ic_vt i)" using r h inside by (auto simp: live_region_def cursor_at_def)
    have m: "foldl vt_step v (fst (vmove ?bottom i)) = ?v1" "valid_toks (fst (vmove ?bottom i)) v" "snd (vmove ?bottom i) = i\<lparr>ic_cur := ?bottom\<rparr>"
      using vmove_down [OF row _ inside] assms(2) h by auto
    have goto: "goto_row ?h f i = (fst (vmove ?bottom i) @ replicate (f - ?bottom) CRLF,
        i\<lparr>ic_vt := ic_vt i + (f - ?bottom), ic_cur := f\<rparr>)"
      using True h m(3) by (cases "vmove ?bottom i") (simp add: goto_row_def Let_def)
    let ?v2 = "foldl vt_step ?v1 (replicate (f - ?bottom) CRLF)"
    have s: "cursor_at ?v2 base (?bottom + (f - ?bottom)) (ic_vt i + (f - ?bottom))" "vm_line ?v2 = vm_line v" "vm_height ?v2 = ?h"
      "vm_top ?v2 = base + ic_vt i + (f - ?bottom)" "valid_toks (replicate (f - ?bottom) CRLF) ?v1"
      using crlfs_scroll [OF c1, of "f - ?bottom"] top vt by simp_all
    have "?bottom + (f - ?bottom) = f" using True by simp
    then have "cursor_at ?v2 base f (ic_vt i + (f - ?bottom))" using s(1) by simp
    moreover have "positioned v ?v2 base H (ic_live i)" using s top vt by (intro region_positioned [OF r]) simp_all
    ultimately show ?thesis unfolding goto using m s(5) by (auto simp: valid_toks_append)
  qed
qed

text \<open>Once the cursor is at the first changed row, the frame is drawn and the cursor parked.\<close>

lemma paint_from:
  assumes c: "cursor_at v1 base f (ic_vt i1)" and "ic_cur i1 = f" and "vm_home v1" and h: "vm_height v1 = vm_height v"
    and pos: "positioned v v1 base H old" and d: "diffRange old new = Some (f, l)" and ok: "frame_ok new" and f: "f \<ge> 1"
    and rest: "paint_rest (vm_height v) new [f + 1..<l + 1] i1 = (t2, i2)"
    and ts: "ts = paint_cell new f @ t2 @ fst (vmove (ic_vt i2) (i2\<lparr>ic_cur := l\<rparr>)) @ [CR, SyncOff]"
  shows "valid_toks ts v1 \<and> live_region (foldl vt_step v1 ts) base H new (ic_vt i2) \<and> vm_height (foldl vt_step v1 ts) = vm_height v
    \<and> same_message i1 i2"
proof -
  let ?h = "vm_height v"
  have rows: "list_all row_ok new" and nb: "\<not> vm_wraps v1" using ok c by (auto simp: frame_ok_def cursor_at_def)
  let ?v2 = "foldl vt_step v1 (paint_cell new f)"
  have cell: "valid_toks (paint_cell new f) v1"
    and v2: "?v2 = v1\<lparr>vm_line := (vm_line v1)(base + f := visible (row_at new f)), vm_home := (visible (row_at new f) = [])\<rparr>"
    using cell_step [OF assms(3) nb rows, of f] c by (auto simp: cursor_at_def)
  have fl: "f \<le> l" using diffRange_Some(1) [OF d] .
  have up: "[f + 1..<l + 1] = [f + 1..<f + 1 + (l - f)]" using fl by simp
  have c2: "cursor_at ?v2 base f (ic_vt i1)" unfolding v2 cursor_at_line by (rule c)
  have h2: "?h = vm_height ?v2" unfolding v2 using h by simp
  let ?v3 = "foldl vt_step ?v2 t2"
  have s: "valid_toks t2 ?v2" "cursor_at ?v3 base l (ic_vt i2)" "vm_height ?v3 = ?h" "vm_top ?v2 \<le> vm_top ?v3" "same_message i1 i2"
    "vm_line ?v3 = (\<lambda>j. if base + f < j \<and> j \<le> base + l then visible (row_at new (j - base)) else vm_line ?v2 j)"
    using paint_rest_steps [OF c2 assms(2) h2 rows, of "l - f" t2 i2] rest fl unfolding up by auto
  have vt: "ic_vt i2 \<le> l" using s(2) by (simp add: cursor_at_def)
  let ?m = "fst (vmove (ic_vt i2) (i2\<lparr>ic_cur := l\<rparr>))"
  let ?v4 = "foldl vt_step ?v3 ?m"
  have v4: "?v4 = ?v3\<lparr>vm_row := base + ic_vt i2\<rparr> \<and> valid_toks ?m ?v3"
    using s(2) vt by (auto simp: vmove_def vt_step_def valid_tok_def cursor_at_def max_def)
  have fin: "foldl vt_step v1 ts = ?v3\<lparr>vm_row := base + ic_vt i2, vm_home := True\<rparr>"
    using v4 by (simp add: ts vt_step_def)
  have valid: "valid_toks ts v1" using cell s(1) v4 by (auto simp: ts valid_toks_append valid_tok_def)
  have cur: "cursor_at (foldl vt_step v1 ts) base (ic_vt i2) (ic_vt i2)" unfolding fin using s(2) vt by (auto simp: cursor_at_def)
  have line: "vm_line (foldl vt_step v1 ts) = (\<lambda>j. if base + f \<le> j \<and> j \<le> base + l then visible (row_at new (j - base)) else vm_line v j)"
    unfolding fin using s(6) fl pos by (auto simp: v2 positioned_def fun_eq_iff)
  have top: "vm_top v \<le> vm_top ?v3" using pos s(4) by (simp add: positioned_def v2)
  have all: "vm_line (foldl vt_step v1 ts) (base + k) = visible (row_at new k)" if "k \<ge> 1" for k
  proof (cases "k < f \<or> l < k")
    case True
    then have "row_at old k = row_at new k" using diffRange_Some(5) [OF d] by blast
    then show ?thesis using pos that True unfolding line by (auto simp: positioned_def)
  qed (simp add: line)
  have len: "base + length new \<le> vm_top ?v3 + ?h"
  proof (cases "length new \<le> length old")
    case True
    then show ?thesis using pos top by (simp add: positioned_def)
  next
    case False
    have ne: "row_at old (length new - 1) \<noteq> row_at new (length new - 1)"
      using ok False by (cases "new = []") (auto simp: frame_ok_def row_at_def last_conv_nth)
    have "length new - 1 \<le> l" using diffRange_Some(5) [OF d, of "length new - 1"] ne by (meson not_le)
    then have "length new \<le> l + 1" by simp
    moreover have "base + l < vm_top ?v3 + ?h" using s(2,3) by (simp add: cursor_at_def)
    ultimately show ?thesis by linarith
  qed
  have "lines_upto (foldl vt_step v1 ts) (base + 1) = H"
    using pos f by (simp add: positioned_def) (auto simp: line intro!: lines_upto_cong)
  then have "live_region (foldl vt_step v1 ts) base H new (ic_vt i2)"
    using cur all len ok s(3) by (auto simp: live_region_def fin frame_ok_def hd_conv_nth)
  then show ?thesis using valid s(3,5) fin by simp
qed

text \<open>
  When a frame can be painted in place: no row above the viewport changes, and rows are not merely
  added below an unchanged frame that has not scrolled.
\<close>

definition paint_ok :: "string list \<Rightarrow> incipit \<Rightarrow> bool" where
  "paint_ok new i = (case diffRange (ic_live i) new of
     None \<Rightarrow> True
   | Some (f, _) \<Rightarrow> ic_vt i \<le> f \<and> (ic_live i = [] \<or> f < length (ic_live i) \<or> ic_vt i > 0))"

lemma shown_texts_at: "length rows \<le> n \<Longrightarrow> shown_texts rows = filter (\<lambda>t. t \<noteq> []) (map (\<lambda>k. visible (row_at rows k)) [0..<n])"
proof (induction n)
  case (Suc n)
  show ?case
  proof (cases "length rows \<le> n")
    case True
    then show ?thesis using Suc.IH by (simp add: row_at_over)
  next
    case False
    then have "length rows = Suc n" using Suc.prems by simp
    then have "map (\<lambda>k. visible (row_at rows k)) [0..<Suc n] = map visible rows"
      by (intro nth_equalityI) (simp_all add: row_at_def del: upt_Suc)
    then show ?thesis by (simp add: shown_texts_def)
  qed
qed (simp add: shown_texts_def)

lemma shown_texts_same: "(\<And>k. row_at old k = row_at new k) \<Longrightarrow> shown_texts old = shown_texts new"
  using shown_texts_at [of old "max (length old) (length new)"] shown_texts_at [of new "max (length old) (length new)"] by simp

lemma paint_region:
  assumes r: "live_region v base H (ic_live i) (ic_vt i)" and cur: "ic_cur i = ic_vt i" and ok: "frame_ok new" "paint_ok new i"
    and p: "paint (vm_height v) new i = (ts, i')"
  shows "valid_toks ts v \<and> (\<exists>base'. live_region (foldl vt_step v ts) base' H (ic_live i') (ic_vt i')) \<and> ic_cur i' = ic_vt i'
    \<and> vm_height (foldl vt_step v ts) = vm_height v \<and> ic_liveLT i' = ic_liveLT i \<and> shown_texts (ic_live i') = shown_texts new"
proof (cases "diffRange (ic_live i) new")
  case None
  then show ?thesis using p r cur shown_texts_same [OF diffRange_None [OF None]] by (auto simp: paint_def)
next
  case (Some fl)
  obtain f l where d: "diffRange (ic_live i) new = Some (f, l)" using Some by (cases fl) auto
  let ?h = "vm_height v"
  have hd0: "row_at (ic_live i) 0 = []" using r by (cases "ic_live i") (auto simp: live_region_def row_at_def)
  have "row_at new 0 = []" using ok(1) by (auto simp: frame_ok_def row_at_def)
  then have f1: "f \<ge> 1" using diffRange_Some(3) [OF d] hd0 by (metis less_one not_le)
  have fe: "f = 1" if "ic_live i = []"
  proof -
    have "row_at (ic_live i) 1 \<noteq> row_at new 1" using ok(1) that by (auto simp: frame_ok_def row_at_def)
    then have "\<not> 1 < f" using diffRange_Some(5) [OF d, of 1] by auto
    then show ?thesis using f1 by simp
  qed
  have "\<exists>base' v' vt'. valid_toks (fst (goto_row ?h f i)) v \<and> foldl vt_step v (fst (goto_row ?h f i)) = v'
      \<and> cursor_at v' base' f vt' \<and> snd (goto_row ?h f i) = i\<lparr>ic_vt := vt', ic_cur := f\<rparr> \<and> positioned v v' base' H (ic_live i)"
  proof (cases "ic_live i = []")
    case True
    then have z: "ic_vt i = 0" using r by (simp add: live_region_def)
    have e: "i\<lparr>ic_vt := 0, ic_cur := f\<rparr> = i\<lparr>ic_cur := f\<rparr>" using z by (cases i) simp
    show ?thesis using goto_first [of v base H i] r z cur True fe e by metis
  next
    case False
    then show ?thesis using goto_later [OF r cur] ok(2) d by (simp add: paint_ok_def) blast
  qed
  then obtain base' v' vt' where g: "valid_toks (fst (goto_row ?h f i)) v" "foldl vt_step v (fst (goto_row ?h f i)) = v'"
    "cursor_at v' base' f vt'" "snd (goto_row ?h f i) = i\<lparr>ic_vt := vt', ic_cur := f\<rparr>" "positioned v v' base' H (ic_live i)" by blast
  let ?i1 = "i\<lparr>ic_vt := vt', ic_cur := f\<rparr>" and ?v1 = "v'\<lparr>vm_home := True\<rparr>"
  obtain t2 i2 where rest: "paint_rest ?h new [f + 1..<l + 1] ?i1 = (t2, i2)" by fastforce
  let ?tail = "paint_cell new f @ t2 @ fst (vmove (ic_vt i2) (i2\<lparr>ic_cur := l\<rparr>)) @ [CR, SyncOff]"
  have ts: "ts = [SyncOn] @ fst (goto_row ?h f i) @ [CR] @ ?tail" and i': "i' = i2\<lparr>ic_cur := ic_vt i2, ic_live := new\<rparr>"
    using p d g(4) rest by (auto simp: paint_def Let_def vmove_def split: prod.splits)
  have "cursor_at ?v1 base' f (ic_vt ?i1)" "positioned v ?v1 base' H (ic_live i)" "vm_height ?v1 = ?h"
    using g(3,5) by (auto simp: cursor_at_def positioned_def)
  from paint_from [OF this(1) _ _ this(3,2) d ok(1) f1 rest refl]
  have fin: "valid_toks ?tail ?v1" "live_region (foldl vt_step ?v1 ?tail) base' H new (ic_vt i2)" "vm_height (foldl vt_step ?v1 ?tail) = ?h"
    "same_message ?i1 i2" by simp_all
  have "foldl vt_step v ts = foldl vt_step ?v1 ?tail" using g(2) by (simp add: ts vt_step_def)
  moreover have "valid_toks ts v" using g(1,2) fin(1) by (simp add: ts valid_toks_append valid_tok_def vt_step_def)
  ultimately show ?thesis using fin i' by (auto simp: same_message_def)
qed

subsection \<open>Committing rows\<close>

text \<open>Nothing is open: the cursor is on a blank line with nothing below.\<close>

definition idle :: "vterm \<Rightarrow> string list \<Rightarrow> bool" where
  "idle v H \<longleftrightarrow> vm_top v \<le> vm_row v \<and> vm_row v < vm_top v + vm_height v \<and> vm_height v \<ge> 2 \<and> vm_home v \<and> \<not> vm_wraps v
     \<and> lines_upto v (vm_row v) = H \<and> (\<forall>k\<ge>vm_row v. vm_line v k = [])"

lemma idle_region: "idle v H \<Longrightarrow> live_region v (vm_row v) H [] 0"
  by (auto simp: idle_def live_region_def cursor_at_def row_at_def lines_upto_Suc)

lemma region_idle: "live_region v base H [] vt \<Longrightarrow> idle v H"
proof -
  assume r: "live_region v base H [] vt"
  then have row: "vm_row v = base" and all: "\<forall>k\<ge>1. vm_line v (base + k) = []" and b: "vm_line v base = []" "lines_upto v (Suc base) = H"
    by (auto simp: live_region_def cursor_at_def row_at_def)
  have "vm_line v k = []" if "k \<ge> base" for k
    using all b(1) that by (cases "k = base") (auto dest: spec [of _ "k - base"])
  then show ?thesis using r row b by (auto simp: live_region_def cursor_at_def idle_def lines_upto_Suc)
qed

lemma idle_crlf: "idle v H \<Longrightarrow> idle (vt_step v CRLF) H"
  by (auto simp: idle_def vt_step_def lines_upto_Suc cong: lines_upto_cong) (auto simp: lines_upto_def)

lemma idle_row:
  assumes "idle v H" and "row_ok r"
  shows "valid_toks [Row r, CRLF] v \<and> idle (foldl vt_step v [Row r, CRLF]) (H @ shown_texts [r])"
proof -
  let ?v = "foldl vt_step v [Row r, CRLF]"
  have line: "vm_line ?v = (vm_line v)(vm_row v := visible r)" and row: "vm_row ?v = Suc (vm_row v)"
    by (simp_all add: vt_step_def)
  have "lines_upto ?v (vm_row v) = lines_upto v (vm_row v)" by (rule lines_upto_cong) (simp add: vt_step_def)
  then have "lines_upto ?v (Suc (vm_row v)) = H @ shown_texts [r]"
    using assms(1) line by (simp add: lines_upto_Suc idle_def shown_texts_def)
  moreover have "\<forall>k\<ge>Suc (vm_row v). vm_line ?v k = []" using assms(1) by (auto simp: vt_step_def idle_def)
  ultimately show ?thesis using assms row by (auto simp: idle_def valid_tok_def vt_step_def)
qed

lemma idle_rows:
  "idle v H \<Longrightarrow> list_all row_ok rows \<Longrightarrow> valid_toks (print_rows rows) v \<and> idle (foldl vt_step v (print_rows rows)) (H @ shown_texts rows)
     \<and> vm_height (foldl vt_step v (print_rows rows)) = vm_height v"
proof (induction rows arbitrary: v H)
  case (Cons r rows)
  note one = idle_row [OF Cons.prems(1), of r]
  have h: "vm_height (foldl vt_step v [Row r, CRLF]) = vm_height v" by (simp add: vt_step_def)
  have "valid_toks (print_rows rows) (foldl vt_step v [Row r, CRLF])"
    "idle (foldl vt_step (foldl vt_step v [Row r, CRLF]) (print_rows rows)) (H @ shown_texts [r] @ shown_texts rows)"
    "vm_height (foldl vt_step (foldl vt_step v [Row r, CRLF]) (print_rows rows)) = vm_height v"
    using Cons.IH [of "foldl vt_step v [Row r, CRLF]" "H @ shown_texts [r]"] one Cons.prems(2) h by simp_all
  moreover have "print_rows (r # rows) = [Row r, CRLF] @ print_rows rows" by (simp add: print_rows_def)
  moreover have "shown_texts (r # rows) = shown_texts [r] @ shown_texts rows" by (simp add: shown_texts_def)
  ultimately show ?case using one Cons.prems(2) by (simp only: valid_toks_append foldl_append list.pred_inject)
qed (simp add: print_rows_def shown_texts_def)

lemma crlfs_on_screen:
  fixes n :: nat
  assumes "vm_top v \<le> vm_row v" "vm_row v < vm_top v + vm_height v" "vm_height v \<ge> 2" "vm_home v"
  defines "w \<equiv> foldl vt_step v (replicate n CRLF)"
  shows "valid_toks (replicate n CRLF) v \<and> vm_row w = vm_row v + n \<and> vm_line w = vm_line v \<and> vm_height w = vm_height v
    \<and> vm_wraps w = vm_wraps v \<and> vm_home w \<and> vm_top w \<le> vm_row w \<and> vm_row w < vm_top w + vm_height w"
  using assms(1-4) unfolding w_def
proof (induction n arbitrary: v)
  case (Suc n)
  have "vm_top (vt_step v CRLF) \<le> vm_row (vt_step v CRLF)" "vm_row (vt_step v CRLF) < vm_top (vt_step v CRLF) + vm_height v"
    using Suc.prems by (auto simp: vt_step_def)
  with Suc.IH [of "vt_step v CRLF"] Suc.prems show ?case by simp
qed simp

text \<open>Releasing the region commits its rows.\<close>

lemma drop_idle:
  assumes r: "live_region v base H live vt"
  defines "ts \<equiv> replicate (length live - vt) CRLF"
  shows "valid_toks ts v \<and> idle (foldl vt_step v ts) (H @ shown_texts live) \<and> vm_height (foldl vt_step v ts) = vm_height v"
proof -
  have c: "vm_row v = base + vt" "vm_top v \<le> vm_row v" "vm_row v < vm_top v + vm_height v" "vm_height v \<ge> 2" "vm_home v" "\<not> vm_wraps v"
    using r by (auto simp: live_region_def cursor_at_def)
  let ?w = "foldl vt_step v ts"
  note s = crlfs_on_screen [OF c(2-5), of "length live - vt", folded ts_def]
  have row: "vm_row ?w = base + max vt (length live)" using s c(1) by auto
  have all: "\<forall>k\<ge>1. vm_line v (base + k) = visible (row_at live k)" and e: "live = [] \<longrightarrow> vm_line v base = [] \<and> vt = 0"
    using r by (auto simp: live_region_def)
  have blank: "vm_line v k = []" if "k \<ge> base + max vt (length live)" for k
  proof (cases "k = base")
    case True
    then show ?thesis using that e by simp
  next
    case False
    then have "vm_line v (base + (k - base)) = visible (row_at live (k - base))" using all that by (metis One_nat_def Suc_leI add_leD1 le_neq_implies_less zero_less_diff)
    then show ?thesis using that by (simp add: row_at_over)
  qed
  have "lines_upto v (Suc (base + max vt (length live))) = H @ shown_texts live" by (rule region_shows [OF r]) auto
  then have "lines_upto ?w (vm_row ?w) = H @ shown_texts live"
    using blank [of "base + max vt (length live)"] s unfolding row by (simp add: lines_upto_Suc lines_upto_def)
  then show ?thesis using s blank c row by (simp add: idle_def add.assoc)
qed

subsection \<open>Sequences of operations\<close>

datatype incipit_op = DoOpen int string "node list" | DoTick "node list" | DoSeal aria_msg | DoAbandon string

definition ic_step :: "incipit_env \<Rightarrow> incipit_op \<Rightarrow> incipit \<Rightarrow> tok list \<times> incipit" where
  "ic_step e op i =
     (case op of
        DoOpen lt role nodes \<Rightarrow> ic_Open e lt role nodes i
      | DoTick nodes \<Rightarrow> ic_Tick e nodes i
      | DoSeal m \<Rightarrow> ic_Seal e m i
      | DoAbandon line \<Rightarrow> AbandonOpen e line i)"

text \<open>The state in which a frame is painted, and the rows a message that was never open is printed with.\<close>

definition opened :: "int \<Rightarrow> string \<Rightarrow> incipit \<Rightarrow> incipit" where
  "opened lt role i = (if lt \<noteq> ic_liveLT i then (ic_reset i)\<lparr>ic_liveLT := lt\<rparr> else i)\<lparr>ic_role := role\<rparr>"

definition ticked :: "incipit \<Rightarrow> incipit" where
  "ticked i = i\<lparr>ic_tick := ic_tick i + 1\<rparr>"

definition printed_rows :: "incipit_env \<Rightarrow> incipit \<Rightarrow> aria_msg \<Rightarrow> string list" where
  "printed_rows e i m = header_rows e (msg_role m) @ renderNodes e (ic_tick i) (nodes_of m)"

definition frame_fits :: "incipit_env \<Rightarrow> node list \<Rightarrow> incipit \<Rightarrow> bool" where
  "frame_fits e nodes i \<longleftrightarrow> frame_ok (ic_compose e i nodes) \<and> paint_ok (ic_compose e i nodes) i"

definition op_fits :: "nat \<Rightarrow> incipit_env \<Rightarrow> incipit_op \<Rightarrow> incipit \<Rightarrow> bool" where
  "op_fits h e op i \<longleftrightarrow> ie_height e = h \<and>
     (case op of
        DoOpen lt role nodes \<Rightarrow> lt \<noteq> 0 \<and> frame_fits e nodes (opened lt role i)
      | DoTick nodes \<Rightarrow> ic_liveLT i = 0 \<or> frame_fits e nodes (ticked i)
      | DoSeal m \<Rightarrow> if msg_lt m = ic_liveLT i \<and> ic_liveLT i \<noteq> 0 then True
                     else ic_liveLT i = 0 \<and> list_all row_ok (printed_rows e i m)
      | DoAbandon line \<Rightarrow> row_ok (clip line (ie_width e)))"

text \<open>The texts an operation commits to the scrollback.\<close>

definition committed_by :: "incipit_env \<Rightarrow> incipit_op \<Rightarrow> incipit \<Rightarrow> string list" where
  "committed_by e op i =
     (case op of
        DoOpen lt role nodes \<Rightarrow> if lt \<noteq> ic_liveLT i then shown_texts (ic_live i) else []
      | DoTick nodes \<Rightarrow> []
      | DoSeal m \<Rightarrow> if msg_lt m = ic_liveLT i \<and> ic_liveLT i \<noteq> 0 then shown_texts (ic_live i) else shown_texts (printed_rows e i m)
      | DoAbandon line \<Rightarrow> shown_texts (ic_live i) @ (if line \<noteq> [] then shown_texts [clip line (ie_width e)] else []))"

fun play :: "(string \<Rightarrow> 't \<Rightarrow> 't) \<Rightarrow> (incipit_env \<times> incipit_op) list \<Rightarrow> 't \<times> incipit \<Rightarrow> 't \<times> incipit" where
  "play draw [] s = s"
| "play draw ((e, op) # ops) (t, i) = (let (ts, i') = ic_step e op i in play draw ops (draw (emit ts) t, i'))"

fun play_fits :: "nat \<Rightarrow> (incipit_env \<times> incipit_op) list \<Rightarrow> incipit \<Rightarrow> bool" where
  "play_fits h [] i = True"
| "play_fits h ((e, op) # ops) i \<longleftrightarrow> op_fits h e op i \<and> play_fits h ops (snd (ic_step e op i))"

fun play_committed :: "(incipit_env \<times> incipit_op) list \<Rightarrow> incipit \<Rightarrow> string list" where
  "play_committed [] i = []"
| "play_committed ((e, op) # ops) i = committed_by e op i @ play_committed ops (snd (ic_step e op i))"

definition shows_all :: "vterm \<Rightarrow> nat \<Rightarrow> string list \<Rightarrow> incipit \<Rightarrow> bool" where
  "shows_all v h H i \<longleftrightarrow> (\<exists>base. live_region v base H (ic_live i) (ic_vt i)) \<and> ic_cur i = ic_vt i \<and> vm_height v = h
     \<and> (ic_liveLT i = 0 \<longrightarrow> ic_live i = [])"

lemma idle_shows: "idle v H \<Longrightarrow> ic_live i = [] \<Longrightarrow> ic_vt i = 0 \<Longrightarrow> ic_cur i = 0 \<Longrightarrow> vm_height v = h \<Longrightarrow> shows_all v h H i"
  using idle_region by (auto simp: shows_all_def)

lemma shows_idle: "shows_all v h H i \<Longrightarrow> ic_live i = [] \<Longrightarrow> idle v H"
  using region_idle by (auto simp: shows_all_def)

lemma ic_reset_sel [simp]:
  "ic_live (ic_reset i) = []" "ic_vt (ic_reset i) = 0" "ic_cur (ic_reset i) = 0" "ic_liveLT (ic_reset i) = 0" "ic_tick (ic_reset i) = ic_tick i"
  by (simp_all add: ic_reset_def)

lemma opened_sel [simp]: "ic_liveLT (opened lt role i) = lt"
  by (simp add: opened_def)

lemma drop_shows:
  assumes "shows_all v h H i" and "ic_live j = []" "ic_vt j = 0" "ic_cur j = 0"
  shows "valid_toks (dropBelow i) v \<and> idle (foldl vt_step v (dropBelow i)) (H @ shown_texts (ic_live i))
    \<and> shows_all (foldl vt_step v (dropBelow i)) h (H @ shown_texts (ic_live i)) j"
proof -
  obtain base where r: "live_region v base H (ic_live i) (ic_vt i)" and h: "vm_height v = h" using assms(1) by (auto simp: shows_all_def)
  show ?thesis using drop_idle [OF r] idle_shows assms(2-) h by (simp add: dropBelow_def)
qed

lemma paint_shows:
  assumes "shows_all v h H i" and "frame_fits e nodes i" and "ic_liveLT i \<noteq> 0" and "ie_height e = h"
    and "paint (ie_height e) (ic_compose e i nodes) i = (ts, i')"
  shows "valid_toks ts v \<and> shows_all (foldl vt_step v ts) h H i'"
proof -
  obtain base where "live_region v base H (ic_live i) (ic_vt i)" "ic_cur i = ic_vt i" "vm_height v = h"
    using assms(1) by (auto simp: shows_all_def)
  with paint_region [of v base H i "ic_compose e i nodes" ts i'] assms(2-) show ?thesis
    by (auto simp: frame_fits_def shows_all_def)
qed

lemma open_shows:
  assumes s: "shows_all v h H i" and ok: "op_fits h e (DoOpen lt role nodes) i" and st: "ic_Open e lt role nodes i = (ts, i')"
  shows "valid_toks ts v \<and> shows_all (foldl vt_step v ts) h (H @ committed_by e (DoOpen lt role nodes) i) i'"
proof -
  let ?j = "opened lt role i"
  let ?t0 = "if lt \<noteq> ic_liveLT i \<and> ic_liveLT i \<noteq> 0 then dropBelow i else []"
  obtain t1 where p: "paint (ie_height e) (ic_compose e ?j nodes) ?j = (t1, i')" and ts: "ts = ?t0 @ t1"
    using st by (auto simp: ic_Open_def opened_def Let_def split: prod.splits if_splits)
  have "valid_toks ?t0 v \<and> shows_all (foldl vt_step v ?t0) h (H @ committed_by e (DoOpen lt role nodes) i) ?j"
  proof (cases "lt \<noteq> ic_liveLT i \<and> ic_liveLT i \<noteq> 0")
    case True
    then have "ic_live ?j = []" "ic_vt ?j = 0" "ic_cur ?j = 0" by (simp_all add: opened_def)
    then show ?thesis using drop_shows [OF s] True by (simp add: committed_by_def)
  next
    case False
    then show ?thesis using s ok by (auto simp: shows_all_def committed_by_def opened_def op_fits_def shown_texts_def ic_reset_def live_region_def)
  qed
  then show ?thesis
    using paint_shows [of "foldl vt_step v ?t0" h "H @ committed_by e (DoOpen lt role nodes) i" ?j e nodes t1 i'] ok p
    by (simp add: ts valid_toks_append op_fits_def split del: if_split)
qed

lemma seal_shows:
  assumes s: "shows_all v h H i" and ok: "op_fits h e (DoSeal m) i" and st: "ic_Seal e m i = (ts, i')"
  shows "valid_toks ts v \<and> shows_all (foldl vt_step v ts) h (H @ committed_by e (DoSeal m) i) i'"
proof (cases "msg_lt m = ic_liveLT i \<and> ic_liveLT i \<noteq> 0")
  case True
  then show ?thesis using drop_shows [OF s, of "ic_reset i"] st by (simp add: ic_Seal_def committed_by_def)
next
  case False
  let ?hd = "ic_header e (msg_role m)" and ?rows = "renderNodes e (ic_tick i) (nodes_of m)"
  let ?t1 = "if ?hd \<noteq> [] then [Row ?hd, CRLF] @ [CRLF] else []"
  have live: "ic_live i = []" "list_all row_ok (header_rows e (msg_role m))" "list_all row_ok ?rows" and h: "vm_height v = h"
    using False ok s by (auto simp: op_fits_def shows_all_def printed_rows_def split: if_splits)
  have z: "ic_vt i = 0" "ic_cur i = 0" using s live(1) by (auto simp: shows_all_def live_region_def)
  have ts: "ts = [CRLF] @ ?t1 @ print_rows ?rows" "i' = i" using st False by (auto simp: ic_Seal_def split: if_splits)
  let ?v0 = "vt_step v CRLF" let ?v1 = "foldl vt_step ?v0 ?t1"
  have i0: "idle ?v0 H" using idle_crlf [OF shows_idle [OF s live(1)]] .
  have "valid_toks ?t1 ?v0 \<and> idle ?v1 (H @ shown_texts (header_rows e (msg_role m))) \<and> vm_height ?v1 = h"
  proof (cases "?hd = []")
    case True
    then show ?thesis using i0 h by (simp add: header_rows_def shown_texts_def)
  next
    case False
    then have "row_ok ?hd" using live(2) by (simp add: header_rows_def)
    from idle_row [OF i0 this] have "valid_toks [Row ?hd, CRLF] ?v0" "idle (vt_step (foldl vt_step ?v0 [Row ?hd, CRLF]) CRLF) (H @ shown_texts [?hd])"
      using idle_crlf by blast+
    moreover have "shown_texts (header_rows e (msg_role m)) = shown_texts [?hd]" using False by (simp add: header_rows_def shown_texts_def)
    ultimately show ?thesis using False h by (simp add: valid_toks_append)
  qed
  then have "valid_toks ts v" "idle (foldl vt_step v ts) (H @ shown_texts (printed_rows e i m))" "vm_height (foldl vt_step v ts) = h"
    using idle_rows [of ?v1 "H @ shown_texts (header_rows e (msg_role m))" ?rows] live(3) unfolding ts by (auto simp: valid_toks_append printed_rows_def shown_texts_append)
  then show ?thesis using idle_shows live(1) z ts(2) False by (auto simp: committed_by_def)
qed

lemma abandon_shows:
  assumes s: "shows_all v h H i" and ok: "op_fits h e (DoAbandon line) i" and st: "AbandonOpen e line i = (ts, i')"
  shows "valid_toks ts v \<and> shows_all (foldl vt_step v ts) h (H @ committed_by e (DoAbandon line) i) i'"
proof -
  let ?t0 = "if ic_liveLT i \<noteq> 0 then dropBelow i else []"
  let ?t1 = "if line \<noteq> [] then [CRLF] @ [Row (clip line (ie_width e)), CRLF] else []"
  have ts: "ts = ?t0 @ ?t1" "i' = ic_reset i" using st by (auto simp: AbandonOpen_def dropBelow_def)
  have h: "vm_height v = h" using s by (simp add: shows_all_def)
  let ?v0 = "foldl vt_step v ?t0"
  have 0: "valid_toks ?t0 v" "idle ?v0 (H @ shown_texts (ic_live i))" "vm_height ?v0 = h"
    using drop_shows [OF s, of "ic_reset i"] shows_idle [OF s] s h by (auto simp: shows_all_def shown_texts_def)
  have r: "row_ok (clip line (ie_width e))" using ok by (simp add: op_fits_def)
  have "valid_toks ?t1 ?v0 \<and> idle (foldl vt_step ?v0 ?t1) (H @ committed_by e (DoAbandon line) i) \<and> vm_height (foldl vt_step ?v0 ?t1) = h"
    using idle_row [OF idle_crlf [OF 0(2)] r] 0 by (auto simp: committed_by_def)
  then show ?thesis using 0(1) idle_shows [of "foldl vt_step v ts" _ "ic_reset i" h] unfolding ts by (auto simp: valid_toks_append)
qed

lemma step_shows:
  assumes s: "shows_all v h H i" and ok: "op_fits h e op i" and st: "ic_step e op i = (ts, i')"
  shows "valid_toks ts v \<and> shows_all (foldl vt_step v ts) h (H @ committed_by e op i) i'"
proof (cases op)
  case (DoTick nodes)
  have "shows_all v h H (ticked i)" using s by (simp add: shows_all_def ticked_def)
  then show ?thesis using paint_shows [of v h H "ticked i" e nodes ts i'] s ok st DoTick
    by (auto simp: ic_step_def ic_Tick_def committed_by_def op_fits_def Let_def ticked_def split: if_splits)
qed (use open_shows [OF s] seal_shows [OF s] abandon_shows [OF s] ok st in \<open>auto simp: ic_step_def\<close>)

context screen
begin

lemma inline_shown:
  "shows_all (view t) h H i \<Longrightarrow> play_fits h ops i \<Longrightarrow> play draw ops (t, i) = (t', i')
     \<Longrightarrow> shows_all (view t') h (H @ play_committed ops i) i'"
proof (induction ops arbitrary: t H i)
  case (Cons eop ops)
  obtain e op where eop: "eop = (e, op)" by fastforce
  obtain ts j where st: "ic_step e op i = (ts, j)" by fastforce
  note one = step_shows [OF Cons.prems(1) _ st]
  have "shows_all (view (draw (emit ts) t)) h (H @ committed_by e op i) j"
    using one view_emit [of ts t] Cons.prems(2) eop by simp
  then show ?case using Cons.IH [of "draw (emit ts) t" "H @ committed_by e op i" j] Cons.prems(2,3) eop st by simp
qed simp

end

text \<open>
  C3: the inline view neither loses, repeats nor reorders text. Draw any sequence of openings,
  updates, ticks, seals and abandonments on the reference terminal. As long as every frame starts
  with a blank row, is made of single-line rows and ends in a visible one, no row that has
  scrolled out of the viewport changes, a frame that has not scrolled does not merely grow below
  its end, and messages that were never open are printed only while none is, the terminal shows,
  blank lines aside, exactly the rows committed so far in their order, followed by the rows of
  the open message.
\<close>

theorem inline_view_exact:
  assumes "h \<ge> 2" and "play_fits h ops NewIncipit" and "play ft_Write ops (NewFakeTerminal w h, NewIncipit) = (t, i)"
  shows "filter (\<lambda>l. l \<noteq> []) (map concat (ft_lines t)) = play_committed ops NewIncipit @ shown_texts (ic_live i)"
proof -
  let ?v = "ft_view (NewFakeTerminal w h)"
  have "idle ?v []" using assms(1) by (simp add: idle_def lines_upto_def ft_view_def NewFakeTerminal_def)
  then have start: "shows_all ?v h [] NewIncipit" by (rule idle_shows) (simp_all add: NewIncipit_def NewFakeTerminal_def)
  have "shows_all (ft_view t) h (play_committed ops NewIncipit) i" using fake.inline_shown [OF start assms(2,3)] by simp
  then obtain base where r: "live_region (ft_view t) base (play_committed ops NewIncipit) (ic_live i) (ic_vt i)" by (auto simp: shows_all_def)
  let ?n = "length (ft_lines t)" and ?m = "base + max 1 (length (ic_live i))"
  have "lines_upto (ft_view t) (max ?n ?m) = lines_upto (ft_view t) ?n"
    by (rule lines_upto_blank) (simp_all add: ft_view_def)
  moreover have "lines_upto (ft_view t) (max ?n ?m) = play_committed ops NewIncipit @ shown_texts (ic_live i)"
    by (rule region_shows [OF r]) simp
  moreover have "map (vm_line (ft_view t)) [0..<?n] = map concat (ft_lines t)"
    by (intro nth_equalityI) (simp_all add: ft_view_def)
  ultimately show ?thesis by (simp add: lines_upto_def)
qed

definition demo_node :: "string \<Rightarrow> node" where
  "demo_node md = zero_node\<lparr>n_markdown := md\<rparr>"

definition demo_ienv :: "nat \<Rightarrow> incipit_env" where
  "demo_ienv h = \<lparr>ie_view = (\<lambda>n w tick. split_on nl (n_markdown n)), ie_Bookend = Some [''--''], ie_Rule = Some ''=='',
     ie_Header = Some (\<lambda>role. role), ie_width = 20, ie_height = h\<rparr>"

definition demo_talk :: "(incipit_env \<times> incipit_op) list" where
  "demo_talk = map (\<lambda>op. (demo_ienv 6, op))
     [DoSeal \<lparr>msg_lt = 1, msg_role = ''user'', msg_nodes = Some [demo_node ''hi'']\<rparr>,
      DoOpen 2 ''assistant'' [demo_node ''a''], DoOpen 2 ''assistant'' [demo_node ''ab'', demo_node ''c''],
      DoTick [demo_node ''ab'', demo_node ''cd''],
      DoSeal \<lparr>msg_lt = 2, msg_role = ''assistant'', msg_nodes = None\<rparr>, DoAbandon ''bye'']"

theorem inline_view_exact_witness:
  "filter (\<lambda>l. l \<noteq> []) (map concat (ft_lines (fst (play ft_Write demo_talk (NewFakeTerminal 20 6, NewIncipit)))))
   = [''user'', ''hi'', ''assistant'', ''ab'', ''cd'', ''--'', ''bye'']"
proof -
  have "play_fits 6 demo_talk NewIncipit" by code_simp
  moreover have "play_committed demo_talk NewIncipit = [''user'', ''hi'', ''assistant'', ''ab'', ''cd'', ''--'', ''bye'']" by code_simp
  moreover have "ic_live (snd (play ft_Write demo_talk (NewFakeTerminal 20 6, NewIncipit))) = []" by code_simp
  ultimately show ?thesis
    using inline_view_exact [of 6 demo_talk 20 "fst (play ft_Write demo_talk (NewFakeTerminal 20 6, NewIncipit))"
        "snd (play ft_Write demo_talk (NewFakeTerminal 20 6, NewIncipit))"]
    by (simp add: shown_texts_def)
qed

subsection \<open>Where the picture breaks\<close>

text \<open>
  A resize erases committed text. A message opened on the last line of the viewport starts one
  line too high, its blank first row on the last committed line (the terminal does not move down
  there); repainting after a resize erases from that line on.
\<close>

definition before_resize :: "fake_terminal \<times> incipit" where
  "before_resize = play ft_Write (map (\<lambda>op. (demo_ienv 6, op))
     [DoSeal \<lparr>msg_lt = 1, msg_role = ''user'', msg_nodes = Some [demo_node ''p'', demo_node ''q'']\<rparr>, DoAbandon ''bye'',
      DoOpen 2 ''assistant'' [demo_node ''a'']]) (NewFakeTerminal 20 6, NewIncipit)"

theorem resize_erases_committed:
  "ft_Screen (fst before_resize) = [[], ''user'', [], ''p'', [], ''q'', [], ''bye'', ''assistant'', [], ''a'', [], ''--'']
   \<and> ft_Screen (ft_Write (emit (fst (ic_Resize (demo_ienv 6) [demo_node ''a''] (snd before_resize)))) (fst before_resize))
     = [[], ''user'', [], ''p'', [], ''q'', [], [], ''assistant'', [], ''a'', [], ''--'']"
  by code_simp

text \<open>
  A row that has scrolled out of the viewport and changes is painted at the top of the viewport
  instead, with every row behind it shifted: text is shown twice and the end is lost from its place.
\<close>

definition scrolled_turn :: "(incipit_env \<times> incipit_op) list" where
  "scrolled_turn = map (\<lambda>op. (demo_ienv 4, op))
     [DoOpen 2 ''assistant'' [demo_node ''a'', demo_node ''b'', demo_node ''c''],
      DoOpen 2 ''assistant'' [demo_node ''x'', demo_node ''b'', demo_node ''c'']]"

theorem scrolled_row_misplaced:
  "ft_Screen (fst (play ft_Write scrolled_turn (NewFakeTerminal 20 4, NewIncipit)))
   = [[], ''assistant'', [], ''a'', [], ''b'', ''x'', ''c'', [], ''--'']"
  by code_simp

end
