(* ===== verification/Router.thy ===== *)
theory Router
  imports Utf8
begin

section \<open>The command router (\<open>internal/cmdkit\<close>)\<close>

text \<open>
  Commands with their flags, the table of names and aliases, the parser of flags and arguments, the
  suggestion for a mistyped command, the help texts and the dispatcher of shell completion. What a
  command does is a field of its record, from the parsed context to an error or none; what the
  router writes to standard error and standard output is returned as text. The quoting of a string
  by \<open>%q\<close> is an argument, and the value the router passes through to commands (\<open>Extra\<close>) is left out.
  The templates of the completion scripts are not modelled.

  The parser reads back what is spelled out in long form (\<open>parse_spelled\<close>), the distance behind the
  suggestion is the least number of edits (\<open>levenshtein_least\<close>), and a completion request reaches
  the callback with the words the shell passed (\<open>completion_reaches_callback\<close>).
\<close>

subsection \<open>Commands (\<open>command.go\<close>)\<close>

record flag_def =
  fd_Long :: string
  fd_Short :: string
  fd_Description :: string
  fd_IsBool :: bool
  fd_Default :: string

record run_context =
  rx_Args :: "string list"
  rx_Flags :: "(string, string) fmap"
  rx_RawArgs :: "string list"

record complete_context =
  cx_Args :: "string list"
  cx_Current :: string
  cx_PastSeparator :: bool

text \<open>The hidden completion command is bound to the router itself; every other command is a function.\<close>

datatype run_fn = RunComplete | RunFn "run_context \<Rightarrow> string option"

record command =
  cmd_Name :: string
  cmd_Aliases :: "string list"
  cmd_Group :: string
  cmd_Short :: string
  cmd_Long :: string
  cmd_Usage :: string
  cmd_Hidden :: bool
  cmd_ArgsMin :: int
  cmd_ArgsMax :: int
  cmd_Flags :: "flag_def list"
  cmd_Run :: run_fn
  cmd_PassRaw :: bool
  cmd_CompleteArgs :: "(complete_context \<Rightarrow> string list) option"

definition rx_Flag :: "run_context \<Rightarrow> string \<Rightarrow> string" where
  "rx_Flag c name = (case fmlookup (rx_Flags c) name of Some v \<Rightarrow> v | None \<Rightarrow> [])"

definition rx_HasFlag :: "run_context \<Rightarrow> string \<Rightarrow> bool" where
  "rx_HasFlag c name \<longleftrightarrow> fmlookup (rx_Flags c) name \<noteq> None"

definition rx_BoolFlag :: "run_context \<Rightarrow> string \<Rightarrow> bool" where
  "rx_BoolFlag c name = (case fmlookup (rx_Flags c) name of Some v \<Rightarrow> v \<noteq> ''false'' | None \<Rightarrow> False)"

subsection \<open>The router (\<open>router.go\<close>)\<close>

record router =
  rt_commands :: "command list"
  rt_index :: "(string, command) fmap"
  rt_Name :: string
  rt_Version :: string
  rt_Fallback :: "(string list \<Rightarrow> string option) option"
  rt_barePromptComplete :: "(complete_context \<Rightarrow> string list) option"

abbreviation completeVerb :: string where "completeVerb \<equiv> ''__complete''"
abbreviation barePromptSentinel :: string where "barePromptSentinel \<equiv> ''__bare_prompt''"
abbreviation currentFlag :: string where "currentFlag \<equiv> ''--current''"

definition Register :: "command \<Rightarrow> router \<Rightarrow> router" where
  "Register cmd r =
     r\<lparr>rt_commands := rt_commands r @ [cmd],
       rt_index := foldl (\<lambda>ix a. fmupd a cmd ix) (fmupd (cmd_Name cmd) cmd (rt_index r)) (cmd_Aliases cmd)\<rparr>"

definition complete_command :: command where
  "complete_command = \<lparr>cmd_Name = completeVerb, cmd_Aliases = [], cmd_Group = [], cmd_Short = [], cmd_Long = [],
     cmd_Usage = [], cmd_Hidden = True, cmd_ArgsMin = 0, cmd_ArgsMax = 0, cmd_Flags = [], cmd_Run = RunComplete,
     cmd_PassRaw = True, cmd_CompleteArgs = None\<rparr>"

definition NewRouter :: "string \<Rightarrow> router" where
  "NewRouter name = Register complete_command
     \<lparr>rt_commands = [], rt_index = fmempty, rt_Name = name, rt_Version = [], rt_Fallback = None, rt_barePromptComplete = None\<rparr>"

definition HasCommand :: "router \<Rightarrow> string \<Rightarrow> bool" where
  "HasCommand r name \<longleftrightarrow> fmlookup (rt_index r) name \<noteq> None"

definition SetBarePromptComplete :: "(complete_context \<Rightarrow> string list) option \<Rightarrow> router \<Rightarrow> router" where
  "SetBarePromptComplete fn r = r\<lparr>rt_barePromptComplete := fn\<rparr>"

subsection \<open>Flags and arguments\<close>

fun findFlag :: "flag_def list \<Rightarrow> string \<Rightarrow> string \<Rightarrow> flag_def option" where
  "findFlag [] long short = None"
| "findFlag (f # fs) long short =
     (if long \<noteq> [] \<and> fd_Long f = long then Some f
      else if short \<noteq> [] \<and> fd_Short f = short then Some f
      else findFlag fs long short)"

text \<open>The conversion of a byte to a string is the encoding of the rune with its value.\<close>

definition string_of_byte :: "char \<Rightarrow> string" where
  "string_of_byte b = (let n = (of_char b :: nat) in
     if n < 0x80 then [b] else [char_of (0xC0 + n div 64), char_of (0x80 + n mod 64)])"

definition bool_short :: "flag_def list \<Rightarrow> string \<Rightarrow> bool" where
  "bool_short flags ch = (case findFlag flags [] ch of None \<Rightarrow> False | Some fd \<Rightarrow> fd_IsBool fd)"

definition bundled :: "flag_def list \<Rightarrow> string \<Rightarrow> bool" where
  "bundled flags a \<longleftrightarrow> length a > 2 \<and> a ! 0 = CHR ''-'' \<and> a ! 1 \<noteq> CHR ''-'' \<and> list_all (bool_short flags) (runes (drop 1 a))"

definition expandBundled :: "string list \<Rightarrow> flag_def list \<Rightarrow> string list" where
  "expandBundled args flags = concat (map (\<lambda>a. if bundled flags a then map (\<lambda>r. ''-'' @ r) (runes (drop 1 a)) else [a]) args)"

fun parse_loop :: "flag_def list \<Rightarrow> string list \<Rightarrow> (string, string) fmap \<Rightarrow> string list
    \<Rightarrow> string + (string, string) fmap \<times> string list" where
  "parse_loop flags [] fl as = Inr (fl, as)"
| "parse_loop flags (arg # rest) fl as =
     (if arg = ''--'' then Inr (fl, as @ rest)
      else if has_prefix arg ''--'' then
        (case findFlag flags (drop 2 arg) [] of
           None \<Rightarrow> Inl (''unknown flag: --'' @ drop 2 arg)
         | Some fd \<Rightarrow>
             if fd_IsBool fd then parse_loop flags rest (fmupd (fd_Long fd) ''true'' fl) as
             else (case rest of
                     [] \<Rightarrow> Inl (''flag --'' @ drop 2 arg @ '' requires a value'')
                   | v # rest' \<Rightarrow> parse_loop flags rest' (fmupd (fd_Long fd) v fl) as))
      else if length arg = 2 \<and> arg ! 0 = CHR ''-'' \<and> arg ! 1 \<noteq> CHR ''-'' then
        (case findFlag flags [] (string_of_byte (arg ! 1)) of
           None \<Rightarrow> Inl (''unknown flag: -'' @ string_of_byte (arg ! 1))
         | Some fd \<Rightarrow>
             if fd_IsBool fd then parse_loop flags rest (fmupd (fd_Long fd) ''true'' fl) as
             else (case rest of
                     [] \<Rightarrow> Inl (''flag -'' @ string_of_byte (arg ! 1) @ '' requires a value'')
                   | v # rest' \<Rightarrow> parse_loop flags rest' (fmupd (fd_Long fd) v fl) as))
      else parse_loop flags rest fl (as @ [arg]))"

definition flag_defaults :: "flag_def list \<Rightarrow> (string, string) fmap" where
  "flag_defaults flags = foldl (\<lambda>m f. if fd_Default f \<noteq> [] then fmupd (fd_Long f) (fd_Default f) m else m) fmempty flags"

definition check_args :: "command \<Rightarrow> string list \<Rightarrow> string option" where
  "check_args cmd as =
     (if cmd_ArgsMin cmd > 0 \<and> int (length as) < cmd_ArgsMin cmd then
        Some (''requires at least '' @ show_int (cmd_ArgsMin cmd) @ '' argument(s)'')
      else if cmd_ArgsMax cmd > 0 \<and> int (length as) > cmd_ArgsMax cmd then
        Some (''accepts at most '' @ show_int (cmd_ArgsMax cmd) @ '' argument(s), got '' @ show_int (int (length as)))
      else None)"

definition parse :: "command \<Rightarrow> string list \<Rightarrow> string + run_context" where
  "parse cmd args =
     (if cmd_PassRaw cmd then Inr \<lparr>rx_Args = [], rx_Flags = fmempty, rx_RawArgs = args\<rparr>
      else case parse_loop (cmd_Flags cmd) (expandBundled args (cmd_Flags cmd)) (flag_defaults (cmd_Flags cmd)) [] of
        Inl err \<Rightarrow> Inl err
      | Inr (fl, as) \<Rightarrow>
          (case check_args cmd as of
             Some err \<Rightarrow> Inl err
           | None \<Rightarrow> Inr \<lparr>rx_Args = as, rx_Flags = fl, rx_RawArgs = []\<rparr>))"

subsection \<open>Suggestions\<close>

text \<open>One row of the table of distances from the row above: \<open>left\<close> is the entry just written.\<close>

fun lev_row :: "string \<Rightarrow> string list \<Rightarrow> nat list \<Rightarrow> nat \<Rightarrow> nat list" where
  "lev_row x (y # ys) (diag # up # prev) left =
     (let cost = (if x = y then 0 else 1); c = min (left + 1) (min (up + 1) (diag + cost))
      in c # lev_row x ys (up # prev) c)"
| "lev_row x ys prev left = []"

fun lev_rows :: "string list \<Rightarrow> string list \<Rightarrow> nat \<Rightarrow> nat list \<Rightarrow> nat list" where
  "lev_rows [] rb i prev = prev"
| "lev_rows (x # xs) rb i prev = lev_rows xs rb (i + 1) (i # lev_row x rb prev i)"

definition levenshtein :: "string \<Rightarrow> string \<Rightarrow> nat" where
  "levenshtein a b =
     (let ra = runes a; rb = runes b; la = length ra; lb = length rb
      in if la = 0 then lb else if lb = 0 then la
         else lev_rows ra rb 1 [0..<lb + 1] ! lb)"

definition visible_names :: "command list \<Rightarrow> string list" where
  "visible_names cmds = concat (map (\<lambda>cmd. if cmd_Hidden cmd then [] else cmd_Name cmd # cmd_Aliases cmd) cmds)"

definition suggest_step :: "string \<Rightarrow> string \<times> nat \<Rightarrow> string \<Rightarrow> string \<times> nat" where
  "suggest_step input b name = (let d = levenshtein input name in if d < snd b then (name, d) else b)"

definition suggest :: "router \<Rightarrow> string \<Rightarrow> string" where
  "suggest r input = fst (foldl (suggest_step input) ([], 4) (visible_names (rt_commands r)))"

definition visibleCommandNames :: "router \<Rightarrow> string list" where
  "visibleCommandNames r = visible_names (rt_commands r)"

subsection \<open>Help\<close>

definition group_of :: "command \<Rightarrow> string" where
  "group_of cmd = (if cmd_Group cmd = [] then ''Commands'' else cmd_Group cmd)"

definition group_step :: "string list \<times> (string, command list) fmap \<Rightarrow> command \<Rightarrow> string list \<times> (string, command list) fmap" where
  "group_step s cmd =
     (if cmd_Hidden cmd then s
      else let g = group_of cmd; ord = (if fmlookup (snd s) g = None then fst s @ [g] else fst s)
           in (ord, fmupd g ((case fmlookup (snd s) g of Some cs \<Rightarrow> cs | None \<Rightarrow> []) @ [cmd]) (snd s)))"

definition groupedCommands :: "router \<Rightarrow> (string \<times> command list) list" where
  "groupedCommands r =
     (let (ord, gmap) = foldl group_step ([], fmempty) (rt_commands r)
      in map (\<lambda>name. (name, sort_key cmd_Name (case fmlookup gmap name of Some cs \<Rightarrow> cs | None \<Rightarrow> []))) ord)"

definition pad24 :: "string \<Rightarrow> string" where
  "pad24 s = s @ replicate (24 - length (runes s)) (CHR '' '')"

definition printUsage :: "router \<Rightarrow> string" where
  "printUsage r =
     ''Usage: '' @ rt_Name r @ '' <command> [flags] [args]'' @ [nl, nl]
     @ concat (map (\<lambda>(g, cmds). g @ '':'' @ [nl]
         @ concat (map (\<lambda>cmd. ''  '' @ pad24 (if cmd_Usage cmd \<noteq> [] then cmd_Usage cmd else cmd_Name cmd) @ '' '' @ cmd_Short cmd @ [nl]) cmds)
         @ [nl]) (groupedCommands r))
     @ ''Run '' @ [CHR 0x27] @ rt_Name r @ '' <command> --help'' @ [CHR 0x27] @ '' for details on a command.'' @ [nl]"

definition flag_help :: "flag_def \<Rightarrow> string" where
  "flag_help f = ''  '' @ (if fd_Short f \<noteq> [] then ''-'' @ fd_Short f @ '', '' else []) @ ''--'' @ fd_Long f @ [CHR 0x09] @ fd_Description f @ [nl]"

definition printCommandHelp :: "router \<Rightarrow> command \<Rightarrow> string" where
  "printCommandHelp r cmd =
     ''Usage: '' @ rt_Name r @ '' '' @ (if cmd_Usage cmd = [] then cmd_Name cmd else cmd_Usage cmd) @ [nl, nl]
     @ (if cmd_Long cmd \<noteq> [] then cmd_Long cmd @ [nl, nl] else if cmd_Short cmd \<noteq> [] then cmd_Short cmd @ [nl, nl] else [])
     @ (if length (cmd_Flags cmd) > 0 then ''Flags:'' @ [nl] @ concat (map flag_help (cmd_Flags cmd)) @ [nl] else [])
     @ (if length (cmd_Aliases cmd) > 0 then ''Aliases: '' @ join_with '', '' (cmd_Aliases cmd) @ [nl] else [])"

subsection \<open>Completion (\<open>complete.go\<close>)\<close>

definition drop_marker :: "string list \<Rightarrow> string list" where
  "drop_marker raw = (case raw of t # ts \<Rightarrow> if t = ''--'' then ts else raw | [] \<Rightarrow> [])"

definition take_current :: "string list \<Rightarrow> string \<times> string list" where
  "take_current ws = (case ws of f # c # rest \<Rightarrow> if f = currentFlag then (c, rest) else ([], ws) | _ \<Rightarrow> ([], ws))"

text \<open>The lines it prints; an unknown verb or a missing callback prints none.\<close>

definition runComplete :: "router \<Rightarrow> run_context \<Rightarrow> string list" where
  "runComplete r ctx =
     (case drop_marker (rx_RawArgs ctx) of
        [] \<Rightarrow> []
      | verb # rest \<Rightarrow>
          (let (cur, rest1) = take_current rest; ws = drop_marker rest1; pastSep = (''--'' \<in> set ws)
           in if verb = barePromptSentinel then
                (case rt_barePromptComplete r of
                   None \<Rightarrow> [] | Some fn \<Rightarrow> fn \<lparr>cx_Args = ws, cx_Current = cur, cx_PastSeparator = True\<rparr>)
              else
                (case fmlookup (rt_index r) verb of
                   None \<Rightarrow> []
                 | Some cmd \<Rightarrow>
                     (case cmd_CompleteArgs cmd of
                        None \<Rightarrow> [] | Some fn \<Rightarrow> fn \<lparr>cx_Args = ws, cx_Current = cur, cx_PastSeparator = pastSep\<rparr>))))"

subsection \<open>Dispatch\<close>

record run_outcome =
  oc_code :: nat
  oc_stdout :: "string list"
  oc_stderr :: string

definition err_line :: "string \<Rightarrow> string" where
  "err_line err = ''error: '' @ err @ [nl]"

definition ran :: "string option \<Rightarrow> run_outcome" where
  "ran res = (case res of
     Some err \<Rightarrow> \<lparr>oc_code = 1, oc_stdout = [], oc_stderr = err_line err\<rparr>
   | None \<Rightarrow> \<lparr>oc_code = 0, oc_stdout = [], oc_stderr = []\<rparr>)"

definition wants_help :: "string list \<Rightarrow> bool" where
  "wants_help ws = list_ex (\<lambda>a. a = ''--help'' \<or> a = ''-h'') (takeWhile (\<lambda>a. a \<noteq> ''--'') ws)"

definition unknown_command :: "(string \<Rightarrow> string) \<Rightarrow> router \<Rightarrow> string \<Rightarrow> string" where
  "unknown_command quote r first =
     (let suggestion = suggest r first
      in if suggestion \<noteq> [] then
           ''error: unknown command '' @ quote first @ [nl]
           @ ''  did you mean: '' @ rt_Name r @ '' '' @ suggestion @ [nl, nl]
         else ''error: unknown command '' @ quote first @ [nl, nl])"

definition rt_Run :: "(string \<Rightarrow> string) \<Rightarrow> router \<Rightarrow> string list \<Rightarrow> run_outcome" where
  "rt_Run quote r args =
     (case args of
        [] \<Rightarrow> \<lparr>oc_code = 2, oc_stdout = [], oc_stderr = printUsage r\<rparr>
      | first # rest \<Rightarrow>
          if first = ''--help'' \<or> first = ''-h'' then \<lparr>oc_code = 0, oc_stdout = [], oc_stderr = printUsage r\<rparr>
          else if rt_Version r \<noteq> [] \<and> (first = ''--version'' \<or> first = ''-V'') then
            \<lparr>oc_code = 0, oc_stdout = [], oc_stderr = rt_Name r @ '' '' @ rt_Version r @ [nl]\<rparr>
          else
            (case fmlookup (rt_index r) first of
               None \<Rightarrow>
                 (case rt_Fallback r of
                    Some fb \<Rightarrow> ran (fb args)
                  | None \<Rightarrow> \<lparr>oc_code = 2, oc_stdout = [], oc_stderr = unknown_command quote r first @ printUsage r\<rparr>)
             | Some cmd \<Rightarrow>
                 if wants_help rest then \<lparr>oc_code = 0, oc_stdout = [], oc_stderr = printCommandHelp r cmd\<rparr>
                 else
                   (case parse cmd rest of
                      Inl err \<Rightarrow> \<lparr>oc_code = 2, oc_stdout = [], oc_stderr = err_line (rt_Name r @ '' '' @ cmd_Name cmd @ '': '' @ err)\<rparr>
                    | Inr ctx \<Rightarrow>
                        (case cmd_Run cmd of
                           RunFn f \<Rightarrow> ran (f ctx)
                         | RunComplete \<Rightarrow> \<lparr>oc_code = 0, oc_stdout = runComplete r ctx, oc_stderr = []\<rparr>))))"

subsection \<open>Registration\<close>

definition names_of :: "command \<Rightarrow> string list" where
  "names_of cmd = cmd_Name cmd # cmd_Aliases cmd"

definition register_all :: "command list \<Rightarrow> router \<Rightarrow> router" where
  "register_all cmds r = foldl (\<lambda>r c. Register c r) r cmds"

lemma index_aliases: "fmlookup (foldl (\<lambda>ix a. fmupd a cmd ix) ix as) v = (if v \<in> set as then Some cmd else fmlookup ix v)"
  by (induction as arbitrary: ix) auto

lemma index_Register:
  "fmlookup (rt_index (Register cmd r)) v = (if v \<in> set (names_of cmd) then Some cmd else fmlookup (rt_index r) v)"
  by (auto simp: Register_def index_aliases names_of_def)

text \<open>A name leads to the command registered last under it.\<close>

lemma index_register_all:
  "fmlookup (rt_index (register_all cmds r)) v =
     (case find (\<lambda>c. v \<in> set (names_of c)) (rev cmds) of Some c \<Rightarrow> Some c | None \<Rightarrow> fmlookup (rt_index r) v)"
  by (induction cmds rule: rev_induct) (simp_all add: register_all_def index_Register)

lemma register_all_other [simp]:
  "rt_barePromptComplete (register_all cmds r) = rt_barePromptComplete r"
  "rt_Version (register_all cmds r) = rt_Version r"
  by (induction cmds rule: rev_induct) (simp_all add: register_all_def Register_def)

subsection \<open>The parser reads back what is spelled out\<close>

definition spelled :: "flag_def \<times> string \<Rightarrow> string list" where
  "spelled fv = (if fd_IsBool (fst fv) then [''--'' @ fd_Long (fst fv)] else [''--'' @ fd_Long (fst fv), snd fv])"

definition set_flag :: "(string, string) fmap \<Rightarrow> flag_def \<times> string \<Rightarrow> (string, string) fmap" where
  "set_flag m fv = fmupd (fd_Long (fst fv)) (if fd_IsBool (fst fv) then ''true'' else snd fv) m"

lemma findFlag_long:
  "distinct (map fd_Long flags) \<Longrightarrow> fd \<in> set flags \<Longrightarrow> fd_Long fd \<noteq> [] \<Longrightarrow> findFlag flags (fd_Long fd) [] = Some fd"
  by (induction flags) (auto simp: image_iff)

lemma long_not_bundled [simp]: "\<not> bundled flags (''--'' @ l)" "\<not> bundled flags (CHR ''-'' # CHR ''-'' # l)"
  by (simp_all add: bundled_def)

lemma expandBundled_append: "expandBundled (xs @ ys) flags = expandBundled xs flags @ expandBundled ys flags"
  by (simp add: expandBundled_def)

lemma expandBundled_plain: "list_all (\<lambda>a. \<not> bundled flags a) args \<Longrightarrow> expandBundled args flags = args"
  by (induction args) (simp_all add: expandBundled_def)

lemma spelled_plain: "\<not> bundled flags (snd fv) \<Longrightarrow> list_all (\<lambda>a. \<not> bundled flags a) (spelled fv)"
  by (simp add: spelled_def)

lemma parse_loop_spelled:
  assumes "distinct (map fd_Long flags)" and "\<forall>fv \<in> set fvs. fst fv \<in> set flags \<and> fd_Long (fst fv) \<noteq> []"
  shows "parse_loop flags (concat (map spelled fvs) @ rest) fl as = parse_loop flags rest (foldl set_flag fl fvs) as"
  using assms(2)
proof (induction fvs arbitrary: fl)
  case (Cons fv fvs)
  then have "findFlag flags (fd_Long (fst fv)) [] = Some (fst fv)" using findFlag_long [OF assms(1)] by simp
  moreover have "parse_loop flags (concat (map spelled fvs) @ rest) (set_flag fl fv) as
      = parse_loop flags rest (foldl set_flag (set_flag fl fv) fvs) as"
    using Cons by simp
  ultimately show ?case using Cons.prems
    by (cases "fd_IsBool (fst fv)") (simp_all add: spelled_def [of fv] set_flag_def [of fl fv] has_prefix_def)
qed simp

text \<open>
  C24: what is spelled out is read back. For every command that parses its arguments, every list of
  settings of its flags written in long form, and every list of arguments after the end marker, the
  parser returns exactly these arguments and the defaults overridden by the settings in their
  order, values and arguments that look like flags included, provided no value and no argument is
  a bundle of the command's own short switches and the number of arguments is allowed.
\<close>

theorem parse_spelled:
  assumes "\<not> cmd_PassRaw cmd" and "distinct (map fd_Long (cmd_Flags cmd))"
    and "\<forall>fv \<in> set fvs. fst fv \<in> set (cmd_Flags cmd) \<and> fd_Long (fst fv) \<noteq> [] \<and> \<not> bundled (cmd_Flags cmd) (snd fv)"
    and "\<forall>a \<in> set pos. \<not> bundled (cmd_Flags cmd) a" and "check_args cmd pos = None"
  shows "parse cmd (concat (map spelled fvs) @ ''--'' # pos)
    = Inr \<lparr>rx_Args = pos, rx_Flags = foldl set_flag (flag_defaults (cmd_Flags cmd)) fvs, rx_RawArgs = []\<rparr>"
proof -
  let ?all = "concat (map spelled fvs) @ ''--'' # pos"
  have "list_all (\<lambda>a. \<not> bundled (cmd_Flags cmd) a) (concat (map spelled fvs))"
    using assms(3) by (induction fvs) (simp_all add: spelled_plain)
  then have "expandBundled ?all (cmd_Flags cmd) = ?all"
    using assms(4) by (intro expandBundled_plain) (auto simp: list_all_iff bundled_def)
  then show ?thesis
    using assms(1,5) parse_loop_spelled [OF assms(2), of fvs] assms(3) by (simp add: parse_def)
qed

definition demo_flags :: "flag_def list" where
  "demo_flags = [\<lparr>fd_Long = ''all'', fd_Short = ''a'', fd_Description = [], fd_IsBool = True, fd_Default = []\<rparr>,
     \<lparr>fd_Long = ''verbose'', fd_Short = ''v'', fd_Description = [], fd_IsBool = True, fd_Default = []\<rparr>,
     \<lparr>fd_Long = ''name'', fd_Short = ''n'', fd_Description = [], fd_IsBool = False, fd_Default = ''x''\<rparr>]"

definition demo_command :: command where
  "demo_command = \<lparr>cmd_Name = ''list'', cmd_Aliases = [''ls''], cmd_Group = [], cmd_Short = [], cmd_Long = [],
     cmd_Usage = [], cmd_Hidden = False, cmd_ArgsMin = 0, cmd_ArgsMax = 2, cmd_Flags = demo_flags,
     cmd_Run = RunFn (\<lambda>_. None), cmd_PassRaw = False, cmd_CompleteArgs = Some (\<lambda>c. [cx_Current c])\<rparr>"

theorem parse_spelled_witness:
  "parse demo_command [''--name'', ''--all'', ''--verbose'', ''--'', ''--x''] = Inr \<lparr>rx_Args = [''--x''],
     rx_Flags = fmupd ''verbose'' ''true'' (fmupd ''name'' ''--all'' (fmupd ''name'' ''x'' fmempty)), rx_RawArgs = []\<rparr>"
  using parse_spelled [of demo_command "[(demo_flags ! 2, ''--all''), (demo_flags ! 1, [])]" "[''--x'']"]
  by (simp add: demo_command_def demo_flags_def spelled_def set_flag_def flag_defaults_def check_args_def bundled_def)

text \<open>
  the end marker does not protect a bundle of short switches: an argument behind it that reads
  as one is split into the switches, and the command receives several arguments in place of one.
\<close>

theorem bundle_behind_marker_split:
  assumes "\<not> cmd_PassRaw cmd" and "bundled (cmd_Flags cmd) a"
    and "check_args cmd (map (\<lambda>r. ''-'' @ r) (runes (drop 1 a))) = None"
  shows "parse cmd [''--'', a] = Inr \<lparr>rx_Args = map (\<lambda>r. ''-'' @ r) (runes (drop 1 a)),
    rx_Flags = flag_defaults (cmd_Flags cmd), rx_RawArgs = []\<rparr>"
proof -
  have "expandBundled [''--'', a] (cmd_Flags cmd) = ''--'' # map (\<lambda>r. ''-'' @ r) (runes (drop 1 a))"
    using assms(2) by (simp add: expandBundled_def bundled_def [of _ "''--''"])
  then show ?thesis using assms(1,3) by (simp add: parse_def)
qed

theorem bundle_behind_marker_split_witness:
  "parse demo_command [''--'', ''-av''] = Inr \<lparr>rx_Args = [''-a'', ''-v''], rx_Flags = fmupd ''name'' ''x'' fmempty, rx_RawArgs = []\<rparr>"
proof -
  have "runes ''av'' = [''a'', ''v'']" by code_simp
  moreover have "bundled demo_flags ''-av''" by code_simp
  ultimately show ?thesis using bundle_behind_marker_split [of demo_command "''-av''"]
    by (simp add: demo_command_def check_args_def) (simp add: demo_flags_def flag_defaults_def)
qed

subsection \<open>The distance is the least number of edits\<close>

text \<open>One edit of a list of runes: delete one, insert one, or replace one by another, anywhere.\<close>

inductive edit1 :: "string list \<Rightarrow> string list \<Rightarrow> bool" where
  edit_del: "edit1 (x # xs) xs"
| edit_ins: "edit1 xs (x # xs)"
| edit_sub: "edit1 (x # xs) (y # xs)"
| edit_rest: "edit1 xs ys \<Longrightarrow> edit1 (x # xs) (x # ys)"

fun edit_dist :: "string list \<Rightarrow> string list \<Rightarrow> nat" where
  "edit_dist [] ys = length ys"
| "edit_dist (x # xs) [] = Suc (length xs)"
| "edit_dist (x # xs) (y # ys) =
     min (edit_dist (x # xs) ys + 1) (min (edit_dist xs (y # ys) + 1) (edit_dist xs ys + (if x = y then 0 else 1)))"

lemma edit_dist_Nil2 [simp]: "edit_dist xs [] = length xs"
  by (cases xs) simp_all

lemma edit_dist_self [simp]: "edit_dist xs xs = 0"
  by (induction xs) simp_all

lemma edit_dist_del: "edit_dist (x # xs) zs \<le> edit_dist xs zs + 1"
  by (cases zs) simp_all

lemma edit_dist_ins2: "edit_dist xs (z # zs) \<le> edit_dist xs zs + 1"
  by (cases xs) simp_all

lemma edit_dist_ins: "edit_dist xs zs \<le> edit_dist (x # xs) zs + 1"
proof (induction zs)
  case (Cons z zs)
  then show ?case using edit_dist_ins2 [of xs z zs] by auto
qed simp

lemma edit_dist_edit1: "edit1 xs ys \<Longrightarrow> edit_dist xs zs \<le> edit_dist ys zs + 1"
proof (induction arbitrary: zs rule: edit1.induct)
  case (edit_sub x xs y)
  show ?case by (induction zs) auto
next
  case (edit_rest xs ys x)
  show ?case
  proof (induction zs)
    case (Cons z zs)
    then show ?case using edit_rest.IH [of zs] edit_rest.IH [of "z # zs"] by auto
  qed (use edit_rest.IH [of "[]"] in simp)
qed (use edit_dist_del edit_dist_ins in auto)

lemma edit_dist_minimal: "(edit1 ^^ n) xs ys \<Longrightarrow> edit_dist xs ys \<le> n"
proof (induction n arbitrary: xs)
  case (Suc n)
  then obtain us where "edit1 xs us" "(edit1 ^^ n) us ys" by (metis relpowp_Suc_D2)
  with Suc.IH [of us] edit_dist_edit1 [of xs us ys] show ?case by simp
qed simp

lemma edits_rest: "(edit1 ^^ n) xs ys \<Longrightarrow> (edit1 ^^ n) (x # xs) (x # ys)"
  by (induction n arbitrary: ys) (auto intro: edit_rest)

lemma edits_first: "edit1 xs us \<Longrightarrow> (edit1 ^^ n) us ys \<Longrightarrow> (edit1 ^^ Suc n) xs ys"
  by (rule relpowp_Suc_I2)

lemma edits_del_all: "(edit1 ^^ length xs) xs []"
  by (induction xs) (auto intro: edits_first [OF edit_del] simp del: relpowp.simps(2))

lemma edits_ins_all: "(edit1 ^^ length ys) [] ys"
proof (induction ys)
  case (Cons y ys)
  then show ?case by (auto intro: edit_ins)
qed simp

lemma edits_reached: "(edit1 ^^ edit_dist xs ys) xs ys"
proof (induction xs ys rule: edit_dist.induct)
  case (1 ys)
  show ?case by (simp add: edits_ins_all)
next
  case (2 x xs)
  show ?case using edits_del_all [of "x # xs"] by simp
next
  case (3 x xs y ys)
  have a: "(edit1 ^^ Suc (edit_dist (x # xs) ys)) (x # xs) (y # ys)"
    using relpowp_Suc_I [OF 3(1) edit_ins] by simp
  have b: "(edit1 ^^ Suc (edit_dist xs (y # ys))) (x # xs) (y # ys)"
    by (rule edits_first [OF edit_del 3(2)])
  have c: "(edit1 ^^ (edit_dist xs ys + (if x = y then 0 else 1))) (x # xs) (y # ys)"
    using edits_rest [OF 3(3), of x] edits_first [OF edit_sub edits_rest [OF 3(3)], of x y] by (cases "x = y") simp_all
  show ?case using a b c by (simp add: min_def del: relpowp.simps)
qed

lemma edit_dist_Least: "edit_dist xs ys = (LEAST n. (edit1 ^^ n) xs ys)"
  by (rule Least_equality [symmetric]) (use edits_reached edit_dist_minimal in auto)

lemma edit1_snoc: "edit1 (xs @ [x]) xs" "edit1 xs (xs @ [x])" "edit1 (xs @ [x]) (xs @ [y])"
  by (induction xs) (auto intro: edit1.intros)

lemma edit1_append: "edit1 xs ys \<Longrightarrow> edit1 (xs @ zs) (ys @ zs)"
  by (induction rule: edit1.induct) (auto intro: edit1.intros)

lemma edit1_rev: "edit1 xs ys \<Longrightarrow> edit1 (rev xs) (rev ys)"
  by (induction rule: edit1.induct) (simp_all add: edit1_snoc edit1_append)

lemma edits_rev: "(edit1 ^^ n) xs ys \<Longrightarrow> (edit1 ^^ n) (rev xs) (rev ys)"
  by (induction n arbitrary: ys) (auto intro: edit1_rev)

lemma edit_dist_rev: "edit_dist (rev xs) (rev ys) = edit_dist xs ys"
proof -
  have "(edit1 ^^ n) (rev xs) (rev ys) \<longleftrightarrow> (edit1 ^^ n) xs ys" for n using edits_rev by fastforce
  then show ?thesis by (simp add: edit_dist_Least)
qed

text \<open>A row of the table holds the distances of a prefix of one word from the prefixes of the other.\<close>

definition prefix_dists :: "string list \<Rightarrow> string list \<Rightarrow> nat \<Rightarrow> nat list" where
  "prefix_dists us ys k = map (\<lambda>j. edit_dist us (rev (take j ys))) [k..<Suc (length ys)]"

lemma prefix_dists_Cons: "k \<le> length ys \<Longrightarrow> prefix_dists us ys k = edit_dist us (rev (take k ys)) # prefix_dists us ys (Suc k)"
  by (simp add: prefix_dists_def upt_rec)

lemma prefix_dists_over: "k > length ys \<Longrightarrow> prefix_dists us ys k = []"
  by (simp add: prefix_dists_def)

lemma lev_row_dists:
  "k \<le> length ys \<Longrightarrow> lev_row x (drop k ys) (prefix_dists us ys k) (edit_dist (x # us) (rev (take k ys)))
     = prefix_dists (x # us) ys (Suc k)"
proof (induction "length ys - k" arbitrary: k)
  case 0
  then show ?case by (simp add: prefix_dists_over)
next
  case (Suc n)
  then have k: "k < length ys" by simp
  have dk: "drop k ys = ys ! k # drop (Suc k) ys" using k by (simp add: Cons_nth_drop_Suc)
  have tk: "rev (take (Suc k) ys) = ys ! k # rev (take k ys)" using k by (simp add: take_Suc_conv_app_nth)
  have IH: "lev_row x (drop (Suc k) ys) (prefix_dists us ys (Suc k)) (edit_dist (x # us) (rev (take (Suc k) ys)))
      = prefix_dists (x # us) ys (Suc (Suc k))" using Suc k by simp
  show ?case using k IH by (simp add: prefix_dists_Cons dk tk Let_def)
qed

lemma lev_rows_dists:
  "lev_rows xs ys (Suc (length us)) (prefix_dists us ys 0) = prefix_dists (rev xs @ us) ys 0"
proof (induction xs arbitrary: us)
  case (Cons x xs)
  have "Suc (length us) # lev_row x ys (prefix_dists us ys 0) (Suc (length us)) = prefix_dists (x # us) ys 0"
    using lev_row_dists [of 0 ys x us] by (simp add: prefix_dists_Cons [of 0 ys "x # us"])
  then show ?case using Cons.IH [of "x # us"] by simp
qed simp

text \<open>
  C25: the distance by which a mistyped command is matched is the least number of insertions,
  deletions and replacements of runes that turn one word into the other.
\<close>

theorem levenshtein_least: "levenshtein a b = (LEAST n. (edit1 ^^ n) (runes a) (runes b))"
proof -
  let ?a = "runes a" and ?b = "runes b"
  have row0: "prefix_dists [] ?b 0 = [0..<length ?b + 1]"
    by (intro nth_equalityI) (simp_all add: prefix_dists_def del: upt_Suc)
  have "lev_rows ?a ?b 1 [0..<length ?b + 1] ! length ?b = edit_dist (rev ?a) (rev ?b)"
    using lev_rows_dists [of ?a ?b "[]"] unfolding row0 [symmetric] by (simp add: prefix_dists_def del: upt_Suc)
  then show ?thesis by (simp add: levenshtein_def Let_def edit_dist_rev flip: edit_dist_Least)
qed

subsection \<open>Suggestions are the closest names\<close>

lemma suggest_fold:
  assumes "foldl (suggest_step input) (s, d) names = (s', d')"
  shows "d' \<le> d \<and> (\<forall>n \<in> set names. d' \<le> levenshtein input n)
    \<and> (d' = d \<and> s' = s \<or> d' < d \<and> s' \<in> set names \<and> levenshtein input s' = d')"
  using assms
proof (induction names arbitrary: s d)
  case (Cons n names)
  show ?case
  proof (cases "levenshtein input n < d")
    case True
    then have "foldl (suggest_step input) (n, levenshtein input n) names = (s', d')"
      using Cons.prems by (simp add: suggest_step_def [of _ "(s, d)"] Let_def)
    from Cons.IH [OF this] True show ?thesis by auto
  next
    case False
    then have "foldl (suggest_step input) (s, d) names = (s', d')" using Cons.prems by (simp add: suggest_step_def [of _ "(s, d)"] Let_def)
    from Cons.IH [OF this] False show ?thesis by auto
  qed
qed simp

text \<open>
  the suggestion for a mistyped command is the closest visible name or alias: when some name is
  within three edits, the suggestion is a name and no name is closer; otherwise there is none.
\<close>

theorem suggest_closest:
  assumes "[] \<notin> set (visible_names (rt_commands r))"
  shows "if \<exists>n \<in> set (visible_names (rt_commands r)). levenshtein input n \<le> 3
    then suggest r input \<in> set (visible_names (rt_commands r)) \<and> levenshtein input (suggest r input) \<le> 3
      \<and> (\<forall>n \<in> set (visible_names (rt_commands r)). levenshtein input (suggest r input) \<le> levenshtein input n)
    else suggest r input = []"
proof -
  obtain s d where sd: "foldl (suggest_step input) ([], 4) (visible_names (rt_commands r)) = (s, d)" by fastforce
  have sug: "suggest r input = s" by (simp add: suggest_def sd)
  show ?thesis using suggest_fold [OF sd] unfolding sug by fastforce
qed

theorem suggest_closest_witness:
  "suggest (register_all [demo_command] (NewRouter ''figaro'')) ''lst'' \<in> {''list'', ''ls''}
   \<and> levenshtein ''lst'' (suggest (register_all [demo_command] (NewRouter ''figaro'')) ''lst'') \<le> 1"
proof -
  let ?r = "register_all [demo_command] (NewRouter ''figaro'')"
  have v: "visible_names (rt_commands ?r) = [''list'', ''ls'']"
    by (simp add: register_all_def Register_def NewRouter_def visible_names_def demo_command_def complete_command_def)
  have l: "levenshtein ''lst'' ''list'' = 1" by code_simp
  then have ex: "\<exists>n \<in> set (visible_names (rt_commands ?r)). levenshtein ''lst'' n \<le> 3" by (simp add: v)
  have "[] \<notin> set (visible_names (rt_commands ?r))" by (simp add: v)
  from suggest_closest [OF this, of "''lst''"] ex l show ?thesis by (auto simp: v)
qed

subsection \<open>Completion requests\<close>

text \<open>
  C26: a completion request reaches the callback of the verb unchanged. Whatever commands are
  registered, the words before the cursor arrive as the shell passed them, a separator among them
  included and reported, with the word under the cursor, and the candidates are printed; only a
  word under the cursor that asks for help is taken for a request for help.
\<close>

theorem completion_reaches_callback:
  assumes "r = register_all cmds (NewRouter name)" and "\<forall>c \<in> set cmds. completeVerb \<notin> set (names_of c)"
    and "find (\<lambda>c. verb \<in> set (names_of c)) (rev cmds) = Some cmd" and "cmd_CompleteArgs cmd = Some fn"
    and "verb \<notin> {''--'', ''--help'', ''-h'', barePromptSentinel}" and "cur \<notin> {''--help'', ''-h''}"
  shows "rt_Run quote r (completeVerb # verb # currentFlag # cur # ''--'' # ws)
    = \<lparr>oc_code = 0, oc_stdout = fn \<lparr>cx_Args = ws, cx_Current = cur, cx_PastSeparator = (''--'' \<in> set ws)\<rparr>, oc_stderr = []\<rparr>"
proof -
  have "find (\<lambda>c. completeVerb \<in> set (names_of c)) (rev cmds) = None" using assms(2) by (simp add: find_None_iff)
  then have c: "fmlookup (rt_index r) completeVerb = Some complete_command"
    by (simp add: assms(1) index_register_all NewRouter_def index_Register) (simp add: names_of_def complete_command_def)
  have v: "fmlookup (rt_index r) verb = Some cmd" by (simp add: assms(1,3) index_register_all)
  have h: "\<not> wants_help (verb # currentFlag # cur # ''--'' # ws)" using assms(5,6) by (auto simp: wants_help_def)
  have p: "parse complete_command ts = Inr \<lparr>rx_Args = [], rx_Flags = fmempty, rx_RawArgs = ts\<rparr>" for ts
    by (simp add: parse_def complete_command_def)
  have "runComplete r \<lparr>rx_Args = [], rx_Flags = fmempty, rx_RawArgs = verb # currentFlag # cur # ''--'' # ws\<rparr>
      = fn \<lparr>cx_Args = ws, cx_Current = cur, cx_PastSeparator = (''--'' \<in> set ws)\<rparr>"
    using assms(4,5) v by (simp add: runComplete_def drop_marker_def take_current_def)
  then show ?thesis using c h p by (simp add: rt_Run_def) (simp add: complete_command_def)
qed

theorem completion_reaches_callback_witness:
  "rt_Run (\<lambda>s. s) (register_all [demo_command] (NewRouter ''figaro'')) [''__complete'', ''ls'', ''--current'', ''@x'', ''--'', ''--'', ''y'']
   = \<lparr>oc_code = 0, oc_stdout = [''@x''], oc_stderr = []\<rparr>"
  using completion_reaches_callback [OF refl, of "[demo_command]" "''ls''" demo_command "\<lambda>c. [cx_Current c]" "''@x''" "\<lambda>s. s" "''figaro''" "[''--'', ''y'']"]
  by (simp add: names_of_def demo_command_def)

end
