(* ===== verification/Truncate.thy ===== *)
theory Truncate
  imports Utf8
begin

section \<open>Bounding tool output (\<open>internal/tool/truncate.go\<close>)\<close>

text \<open>
  The limits the tools put on what the model gets to read: \<open>truncateMiddle\<close> elides the middle
  of a text by runes, \<open>TruncateHead\<close> keeps leading lines and \<open>TruncateTail\<close> trailing lines
  under a line limit and a byte limit, and \<open>FormatSize\<close> prints a byte count. The lemmas show
  that each result respects its limits, that it is a prefix (a suffix) of the content made of
  as many whole lines as fit, and that a cut never opens in the middle of an encoded rune.
\<close>

definition MaxOutputLines :: int where "MaxOutputLines = 2000"
definition MaxOutputBytes :: int where "MaxOutputBytes = 50 * 1024"
definition MaxOutputChars :: int where "MaxOutputChars = 30000"

abbreviation nl :: string where "nl \<equiv> [CHR 0x0A]"

text \<open>The lines of a text as \<open>strings.Split(s, "\n")\<close> gives them, and their join.\<close>

abbreviation lines_of :: "string \<Rightarrow> string list" where "lines_of \<equiv> split_on (CHR 0x0A)"
abbreviation unlines :: "string list \<Rightarrow> string" where "unlines \<equiv> join_with nl"

subsection \<open>Eliding the middle\<close>

text \<open>
  \<open>env\<close> is the value of \<open>FIGARO_BASH_MAX_OUTPUT_CHARS\<close> as \<open>strconv.Atoi\<close> reads it: \<open>None\<close>
  when the variable is empty or not a number.
\<close>

definition maxOutputChars :: "int option \<Rightarrow> int" where
  "maxOutputChars env =
     (case env of Some n \<Rightarrow> if n > 0 then n else MaxOutputChars | None \<Rightarrow> MaxOutputChars)"

definition ellipsis_rune :: string where "ellipsis_rune = [CHR 0xE2, CHR 0x80, CHR 0xA6]"

definition middle_marker :: "nat \<Rightarrow> string" where
  "middle_marker dropped =
     nl @ ellipsis_rune @ '' ['' @ show_nat dropped @ '' characters truncated] '' @ ellipsis_rune @ nl"

definition truncateMiddle :: "string \<Rightarrow> int \<Rightarrow> string" where
  "truncateMiddle s mx =
     (if mx \<le> 0 then s
      else let rs = runes s; n = length rs; m = nat mx in
        if n \<le> m then s
        else let head = m div 2; tail = m - head; dropped = n - head - tail in
          concat (take head rs) @ middle_marker dropped @ concat (drop (n - tail) rs))"

subsection \<open>Results and options\<close>

text \<open>\<open>TruncatedBy\<close> is a string type whose three constants are the only values the code makes.\<close>

datatype truncated_by = TruncatedByNone | TruncatedByLines | TruncatedByBytes

record truncation_result =
  Content :: string
  Truncated :: bool
  TruncatedBy :: truncated_by
  TotalLines :: nat
  TotalBytes :: nat
  OutputLines :: nat
  OutputBytes :: nat
  LastLinePartial :: bool
  FirstLineExceedsLimit :: bool
  tr_MaxLines :: nat
  tr_MaxBytes :: nat

record truncation_options =
  MaxLines :: int
  MaxBytes :: int

definition withDefaults :: "truncation_options \<Rightarrow> truncation_options" where
  "withDefaults opts =
     (let o1 = (if MaxLines opts \<le> 0 then opts\<lparr>MaxLines := MaxOutputLines\<rparr> else opts)
      in if MaxBytes o1 \<le> 0 then o1\<lparr>MaxBytes := MaxOutputBytes\<rparr> else o1)"

text \<open>The limits in force, which are positive.\<close>

definition lim_lines :: "truncation_options \<Rightarrow> nat" where
  "lim_lines opts = nat (MaxLines (withDefaults opts))"

definition lim_bytes :: "truncation_options \<Rightarrow> nat" where
  "lim_bytes opts = nat (MaxBytes (withDefaults opts))"

lemma lim_pos [simp]: "lim_lines opts > 0" "lim_bytes opts > 0"
  by (auto simp: lim_lines_def lim_bytes_def withDefaults_def MaxOutputLines_def MaxOutputBytes_def Let_def)

definition untruncated :: "string \<Rightarrow> nat \<Rightarrow> nat \<Rightarrow> truncation_result" where
  "untruncated content ml mb =
     \<lparr>Content = content, Truncated = False, TruncatedBy = TruncatedByNone,
      TotalLines = length (lines_of content), TotalBytes = length content,
      OutputLines = length (lines_of content), OutputBytes = length content,
      LastLinePartial = False, FirstLineExceedsLimit = False,
      tr_MaxLines = ml, tr_MaxBytes = mb\<rparr>"

subsection \<open>\<open>TruncateHead\<close>\<close>

text \<open>The loop over the lines: \<open>i\<close> counts the lines kept, \<open>byteCount\<close> the bytes of their join.\<close>

fun head_loop :: "nat \<Rightarrow> nat \<Rightarrow> nat \<Rightarrow> nat \<Rightarrow> string list \<Rightarrow> string list \<Rightarrow> string list \<times> truncated_by" where
  "head_loop ml mb i byteCount kept [] = (kept, TruncatedByLines)"
| "head_loop ml mb i byteCount kept (line # rest) =
     (if i \<ge> ml then (kept, TruncatedByLines)
      else let cost = length line + (if i > 0 then 1 else 0) in
        if byteCount + cost > mb then (kept, TruncatedByBytes)
        else head_loop ml mb (i + 1) (byteCount + cost) (kept @ [line]) rest)"

definition TruncateHead :: "string \<Rightarrow> truncation_options \<Rightarrow> truncation_result" where
  "TruncateHead content opts =
     (let ml = lim_lines opts; mb = lim_bytes opts; ls = lines_of content in
      if length ls \<le> ml \<and> length content \<le> mb then untruncated content ml mb
      else if length (ls ! 0) > mb then
        \<lparr>Content = [], Truncated = True, TruncatedBy = TruncatedByBytes,
         TotalLines = length ls, TotalBytes = length content, OutputLines = 0, OutputBytes = 0,
         LastLinePartial = False, FirstLineExceedsLimit = True, tr_MaxLines = ml, tr_MaxBytes = mb\<rparr>
      else let (kept, by) = head_loop ml mb 0 0 [] ls; out = unlines kept in
        \<lparr>Content = out, Truncated = True, TruncatedBy = by,
         TotalLines = length ls, TotalBytes = length content,
         OutputLines = length kept, OutputBytes = length out,
         LastLinePartial = False, FirstLineExceedsLimit = False, tr_MaxLines = ml, tr_MaxBytes = mb\<rparr>)"

subsection \<open>\<open>TruncateTail\<close>\<close>

text \<open>The last \<open>maxBytes\<close> bytes, less the continuation bytes the cut would open with.\<close>

definition truncateBytesFromEnd :: "string \<Rightarrow> nat \<Rightarrow> string" where
  "truncateBytesFromEnd s maxBytes =
     (if length s \<le> maxBytes then s
      else dropWhile (\<lambda>b. \<not> RuneStart b) (drop (length s - maxBytes) s))"

text \<open>The loop from the last line backwards: the argument list is the lines still above.\<close>

fun tail_loop :: "nat \<Rightarrow> nat \<Rightarrow> nat \<Rightarrow> string list \<Rightarrow> string list \<Rightarrow> string list \<times> nat \<times> truncated_by \<times> bool" where
  "tail_loop ml mb byteCount kept [] = (kept, byteCount, TruncatedByLines, False)"
| "tail_loop ml mb byteCount kept (line # upper) =
     (if length kept \<ge> ml then (kept, byteCount, TruncatedByLines, False)
      else let cost = length line + (if length kept > 0 then 1 else 0) in
        if byteCount + cost > mb then
          (if length kept = 0
           then let tail = truncateBytesFromEnd line mb in ([tail], length tail, TruncatedByBytes, True)
           else (kept, byteCount, TruncatedByBytes, False))
        else tail_loop ml mb (byteCount + cost) (line # kept) upper)"

definition TruncateTail :: "string \<Rightarrow> truncation_options \<Rightarrow> truncation_result" where
  "TruncateTail content opts =
     (let ml = lim_lines opts; mb = lim_bytes opts; ls = lines_of content in
      if length ls \<le> ml \<and> length content \<le> mb then untruncated content ml mb
      else let (kept, byteCount, by0, partial) = tail_loop ml mb 0 [] (rev ls);
               by = (if length kept \<ge> ml \<and> byteCount \<le> mb then TruncatedByLines else by0);
               out = unlines kept in
        \<lparr>Content = out, Truncated = True, TruncatedBy = by,
         TotalLines = length ls, TotalBytes = length content,
         OutputLines = length kept, OutputBytes = length out,
         LastLinePartial = partial, FirstLineExceedsLimit = False, tr_MaxLines = ml, tr_MaxBytes = mb\<rparr>)"

subsection \<open>\<open>FormatSize\<close>\<close>

text \<open>
  \<open>%.1f\<close> prints the exact quotient (a division by a power of two is exact in \<open>float64\<close>
  below \<open>2 ^ 53\<close> bytes) rounded to tenths, half to even.
\<close>

definition div_half_even :: "nat \<Rightarrow> nat \<Rightarrow> nat" where
  "div_half_even a b =
     (let q = a div b; r = a mod b in
      if 2 * r < b then q else if 2 * r > b then q + 1 else if even q then q else q + 1)"

definition show_tenths :: "nat \<Rightarrow> nat \<Rightarrow> string" where
  "show_tenths a b = (let t = div_half_even (10 * a) b in show_nat (t div 10) @ ''.'' @ show_nat (t mod 10))"

definition FormatSize :: "nat \<Rightarrow> string" where
  "FormatSize bytes =
     (if bytes < 1024 then show_nat bytes @ ''B''
      else if bytes < 1024 * 1024 then show_tenths bytes 1024 @ ''KB''
      else show_tenths bytes (1024 * 1024) @ ''MB'')"

subsection \<open>How many whole lines fit\<close>

text \<open>
  The reference for both cuts: \<open>k\<close> lines taken by \<open>sel\<close> (from the front or from the back)
  fit when they respect the two limits.
\<close>

definition fits :: "(nat \<Rightarrow> string list \<Rightarrow> string list) \<Rightarrow> nat \<Rightarrow> nat \<Rightarrow> string list \<Rightarrow> nat \<Rightarrow> bool" where
  "fits sel ml mb ls k \<longleftrightarrow> k \<le> ml \<and> k \<le> length ls \<and> length (unlines (sel k ls)) \<le> mb"

lemma fitsD: "fits sel ml mb ls k \<Longrightarrow> k \<le> ml \<and> k \<le> length ls \<and> length (unlines (sel k ls)) \<le> mb"
  by (simp add: fits_def)

lemma length_unlines_snoc:
  "length (unlines (xs @ [x])) = length (unlines xs) + (length x + (if length xs > 0 then 1 else 0))"
  by (cases "xs = []") (simp_all add: join_with_append)

lemma length_unlines_Cons:
  "length (unlines (x # xs)) = length (unlines xs) + (length x + (if length xs > 0 then 1 else 0))"
  by (cases xs) simp_all

lemma unlines_take_mono: "length (unlines (take k xs)) \<le> length (unlines (take (Suc k) xs))"
  by (cases "k < length xs") (auto simp: take_Suc_conv_app_nth length_unlines_snoc simp del: take_Suc)

lemma last_n_Suc: "k < length xs \<Longrightarrow> last_n (Suc k) xs = xs ! (length xs - Suc k) # last_n k xs"
  by (simp add: last_n_def Cons_nth_drop_Suc [symmetric] Suc_diff_Suc)

lemma unlines_last_n_mono: "length (unlines (last_n k xs)) \<le> length (unlines (last_n (Suc k) xs))"
  by (cases "k < length xs") (auto simp: last_n_Suc length_unlines_Cons)

text \<open>Where the length grows with the count, a count that fits and whose successor does not is the largest.\<close>

lemma fits_Max:
  assumes mono: "\<And>j. length (unlines (sel j ls)) \<le> length (unlines (sel (Suc j) ls))"
    and k: "fits sel ml mb ls k" and k1: "\<not> fits sel ml mb ls (Suc k)"
  shows "Max {j. fits sel ml mb ls j} = k"
proof (rule Max_eqI)
  show "finite {j. fits sel ml mb ls j}"
    by (rule finite_subset [of _ "{..ml}"]) (auto simp: fits_def)
  fix j assume "j \<in> {j. fits sel ml mb ls j}"
  then have j: "fits sel ml mb ls j" by simp
  show "j \<le> k"
  proof (rule ccontr)
    assume "\<not> j \<le> k"
    then have "Suc k \<le> j" by simp
    from lift_Suc_mono_le [of "\<lambda>i. length (unlines (sel i ls))", OF mono this] j k1 \<open>Suc k \<le> j\<close>
    show False by (auto simp: fits_def)
  qed
qed (use k in simp)

lemma head_loop_fits:
  assumes "fits take ml mb (kept @ rest) (length kept)"
    and "head_loop ml mb (length kept) (length (unlines kept)) kept rest = (out, why)"
  shows "\<exists>k. out = take k (kept @ rest) \<and> k = length out
    \<and> fits take ml mb (kept @ rest) k \<and> \<not> fits take ml mb (kept @ rest) (Suc k)"
  using assms
proof (induction rest arbitrary: kept)
  case Nil
  then show ?case by (intro exI [of _ "length kept"]) (auto simp: fits_def)
next
  case (Cons line rest)
  let ?n = "length (unlines (kept @ [line]))"
  show ?case
  proof (cases "length kept \<ge> ml \<or> ?n > mb")
    case True
    then show ?thesis using Cons.prems
      by (intro exI [of _ "length kept"])
        (auto simp: fits_def Let_def length_unlines_snoc split: if_splits)
  next
    case False
    then have "fits take ml mb ((kept @ [line]) @ rest) (length (kept @ [line]))"
      and "head_loop ml mb (length (kept @ [line])) ?n (kept @ [line]) rest = (out, why)"
      using Cons.prems by (auto simp: fits_def Let_def length_unlines_snoc split: if_splits)
    from Cons.IH [OF this] show ?thesis by simp
  qed
qed

lemma TruncateHead_cut:
  fixes content opts
  defines "r \<equiv> TruncateHead content opts" and "ls \<equiv> lines_of content"
  shows "Content r = unlines (take (OutputLines r) ls)
    \<and> OutputLines r = Max {k. fits take (lim_lines opts) (lim_bytes opts) ls k}
    \<and> OutputBytes r = length (Content r) \<and> OutputBytes r \<le> lim_bytes opts
    \<and> Truncated r = (OutputLines r < length ls)
    \<and> FirstLineExceedsLimit r = (length (hd ls) > lim_bytes opts)
    \<and> FirstLineExceedsLimit r = (OutputLines r = 0)"
proof -
  let ?ml = "lim_lines opts" and ?mb = "lim_bytes opts"
  let ?F = "fits take ?ml ?mb ls"
  have ls: "ls \<noteq> []" "unlines ls = content" by (simp_all add: ls_def)
  note M = fits_Max [of take ls, OF unlines_take_mono]
  have first: "?F 1 \<longleftrightarrow> length (hd ls) \<le> ?mb"
    using ls lim_pos(1) [of opts] by (cases ls) (auto simp: fits_def Suc_le_eq simp del: lim_pos)
  have le: "length (hd ls) \<le> length content"
    using ls by (cases ls) (auto simp: join_with_Cons split: if_splits)
  consider (all) "length ls \<le> ?ml" "length content \<le> ?mb"
    | (big) "\<not> (length ls \<le> ?ml \<and> length content \<le> ?mb)" "length (hd ls) > ?mb"
    | (some) "\<not> (length ls \<le> ?ml \<and> length content \<le> ?mb)" "length (hd ls) \<le> ?mb"
    by linarith
  then show ?thesis
  proof cases
    case all
    then have "Max {k. ?F k} = length ls" by (intro M) (simp_all add: fits_def ls)
    with all le ls show ?thesis
      by (auto simp: r_def TruncateHead_def untruncated_def ls_def Let_def)
  next
    case big
    then have "Max {k. ?F k} = 0" using first by (intro M) (simp_all add: fits_def)
    with big ls show ?thesis
      by (auto simp: r_def TruncateHead_def ls_def [symmetric] Let_def hd_conv_nth)
  next
    case some
    obtain kept why where loop: "head_loop ?ml ?mb 0 0 [] ls = (kept, why)" by fastforce
    from head_loop_fits [of ?ml ?mb "[]" ls] loop obtain k
      where k: "kept = take k ls" "k = length kept" "?F k" "\<not> ?F (Suc k)"
      by (auto simp: fits_def)
    have mx: "Max {k. ?F k} = k" by (rule M) (use k in simp_all)
    have "k \<noteq> 0" using k(4) first some(2) by (cases k) simp_all
    moreover have "k < length ls"
      using k(3) some(1) ls by (cases "k = length ls") (auto simp: fits_def)
    moreover have "r = \<lparr>Content = unlines kept, Truncated = True, TruncatedBy = why,
         TotalLines = length ls, TotalBytes = length content,
         OutputLines = length kept, OutputBytes = length (unlines kept), LastLinePartial = False,
         FirstLineExceedsLimit = False, tr_MaxLines = ?ml, tr_MaxBytes = ?mb\<rparr>"
      using some loop ls(1)
      by (simp only: r_def TruncateHead_def ls_def [symmetric] Let_def hd_conv_nth if_False not_le [symmetric] prod.case) (simp add: hd_conv_nth)
    ultimately show ?thesis
      using some(2) fitsD [OF k(3)] by (simp add: mx k(1) [symmetric] k(2) [symmetric])
  qed
qed

text \<open>
  The head cut is exact: it keeps as many leading lines as the two limits admit and reports
  their number and size, it says \<open>Truncated\<close> just when lines are missing, and it shows
  nothing just when the first line alone exceeds the byte limit.
\<close>

theorem TruncateHead_exact:
  fixes content opts
  defines "r \<equiv> TruncateHead content opts" and "ls \<equiv> lines_of content"
  shows "Content r = unlines (take (OutputLines r) ls)
    \<and> OutputLines r = Max {k. fits take (lim_lines opts) (lim_bytes opts) ls k}
    \<and> OutputBytes r = length (Content r) \<and> OutputBytes r \<le> lim_bytes opts
    \<and> Truncated r = (OutputLines r < length ls)
    \<and> FirstLineExceedsLimit r = (length (hd ls) > lim_bytes opts)
    \<and> FirstLineExceedsLimit r = (OutputLines r = 0)"
  unfolding r_def ls_def by (rule TruncateHead_cut)

lemma last_n_ends [simp]:
  "last_n 0 xs = []" "last_n (length ys) (xs @ ys) = ys" "last_n (length ys) (xs @ y # ys) = ys"
  "last_n (Suc (length ys)) (xs @ y # ys) = y # ys"
  by (simp_all add: last_n_def)

lemma tail_loop_fits:
  assumes "ls = rev upper @ kept" "fits last_n ml mb ls (length kept)"
    and "tail_loop ml mb (length (unlines kept)) kept upper = (out, n, why, False)"
  shows "out = last_n (length out) ls \<and> n = length (unlines out)
    \<and> fits last_n ml mb ls (length out) \<and> \<not> fits last_n ml mb ls (Suc (length out))"
  using assms
proof (induction upper arbitrary: kept)
  case Nil
  then show ?case by (auto simp: fits_def)
next
  case (Cons line upper)
  let ?n = "length (unlines (line # kept))"
  show ?case
  proof (cases "length kept \<ge> ml \<or> ?n > mb")
    case True
    then show ?thesis using Cons.prems
      by (auto simp: fits_def Let_def length_unlines_Cons split: if_splits)
  next
    case False
    then have "fits last_n ml mb ls (length (line # kept))"
      and "tail_loop ml mb ?n (line # kept) upper = (out, n, why, False)"
      using Cons.prems
      by (auto simp: fits_def Let_def length_unlines_Cons split: if_splits)
    from Cons.IH [OF _ this] Cons.prems(1) show ?thesis by simp
  qed
qed

lemma tail_loop_partial:
  assumes "tail_loop ml mb n kept upper = (out, m, why, True)"
    and "kept = [] \<Longrightarrow> n = 0"
  shows "kept = [] \<and> ml > 0 \<and> upper \<noteq> [] \<and> length (hd upper) > mb
    \<and> out = [truncateBytesFromEnd (hd upper) mb]"
  using assms
proof (induction upper arbitrary: n kept)
  case (Cons line upper)
  show ?case
  proof (cases "kept = []")
    case True
    with Cons.prems Cons.IH [of "n + length line" "line # kept"] show ?thesis
      by (auto simp: Let_def split: if_splits)
  qed (use Cons in \<open>auto simp: Let_def split: if_splits\<close>)
qed simp

subsection \<open>The tail cut\<close>

declare utf8_shape.simps(2) [simp del]

lemma RuneStart_nl [simp]: "RuneStart (CHR 0x0A)"
  by (simp add: RuneStart_def)

lemma utf8_shape_split:
  assumes "utf8_shape (a @ b)" "b = [] \<or> RuneStart (hd b)"
  shows "utf8_shape a \<and> utf8_shape b"
proof (cases "b = []")
  case False
  then show ?thesis
    using utf8_shape_cut [OF assms(1), of "length a"] assms(2) by (simp add: nth_append hd_conv_nth)
qed (use assms(1) in simp)

lemma utf8_shape_singleton: "utf8_shape nl"
  by (simp add: lead_len_def utf8_shape.simps(2))

lemma utf8_shape_nl: "utf8_shape (a @ nl @ b) \<Longrightarrow> utf8_shape a \<and> utf8_shape b"
  using utf8_shape_split [of a "nl @ b"] utf8_shape_append [OF utf8_shape_singleton, of b]
  by (metis RuneStart_nl append_Cons list.sel(1))

lemma unlines_suffix:
  assumes "front @ kept = ls" "kept \<noteq> []"
  shows "suffix (unlines kept) (unlines ls) \<and> (utf8_shape (unlines ls) \<longrightarrow> utf8_shape (unlines kept))"
proof (cases "front = []")
  case False
  with assms have "unlines ls = unlines front @ nl @ unlines kept" by (auto simp: join_with_append)
  then show ?thesis using utf8_shape_nl [of "unlines front" "unlines kept"]
    by (metis suffix_appendI suffix_order.refl)
qed (use assms in auto)

lemma truncateBytesFromEnd_spec:
  "suffix (truncateBytesFromEnd s n) s \<and> length (truncateBytesFromEnd s n) \<le> n
   \<and> (utf8_shape s \<longrightarrow> utf8_shape (truncateBytesFromEnd s n))"
proof (cases "length s \<le> n")
  case False
  let ?d = "drop (length s - n) s"
  let ?t = "dropWhile (\<lambda>b. \<not> RuneStart b) ?d"
  have suf: "suffix ?t s" by (meson suffix_dropWhile suffix_drop suffix_order.trans)
  have "length ?t \<le> length ?d" by (rule length_dropWhile_le)
  then have "length ?t \<le> n" using False by simp
  moreover obtain a where "s = a @ ?t" using suf by (auto simp only: suffix_def)
  then have "utf8_shape s \<longrightarrow> utf8_shape ?t"
    using hd_dropWhile [of "\<lambda>b. \<not> RuneStart b" ?d] utf8_shape_split [of a ?t] by metis
  ultimately show ?thesis using False suf by (simp add: truncateBytesFromEnd_def)
qed (simp add: truncateBytesFromEnd_def)

text \<open>
  C21: The tail cut: it respects both limits and shows a suffix of the content that does not open in
  the middle of a rune. When the last line alone exceeds the byte limit the result is the end of
  that line; otherwise it is as many whole trailing lines as the two limits admit.
\<close>

theorem TruncateTail_exact:
  fixes content opts
  defines "r \<equiv> TruncateTail content opts" and "ls \<equiv> lines_of content"
    and "m \<equiv> Max {k. fits last_n (lim_lines opts) (lim_bytes opts) (lines_of content) k}"
  shows "suffix (Content r) content
    \<and> OutputBytes r = length (Content r) \<and> OutputBytes r \<le> lim_bytes opts
    \<and> OutputLines r \<le> lim_lines opts
    \<and> LastLinePartial r = (length (last ls) > lim_bytes opts)
    \<and> (if LastLinePartial r then Content r = truncateBytesFromEnd (last ls) (lim_bytes opts)
       else Content r = unlines (last_n m ls) \<and> OutputLines r = m)
    \<and> Truncated r = (Content r \<noteq> content)
    \<and> (utf8_shape content \<longrightarrow> utf8_shape (Content r))"
proof -
  let ?ml = "lim_lines opts" and ?mb = "lim_bytes opts"
  let ?F = "fits last_n ?ml ?mb ls"
  have ls: "ls \<noteq> []" "unlines ls = content" by (simp_all add: ls_def)
  have split: "butlast ls @ [last ls] = ls" using ls by simp
  have lastline: "suffix (last ls) content" "utf8_shape content \<longrightarrow> utf8_shape (last ls)"
    using unlines_suffix [OF split] ls by simp_all
  have M: "m = k" if "?F k" "\<not> ?F (Suc k)" for k
    using fits_Max [of last_n ls, OF unlines_last_n_mono that] by (simp add: m_def ls_def)
  have one: "?F 1 \<longleftrightarrow> length (last ls) \<le> ?mb"
    using ls last_n_ends(4) [of "[]" "butlast ls" "last ls"] lim_pos(1) [of opts]
    by (auto simp: fits_def Suc_le_eq split simp del: lim_pos)
  show ?thesis
  proof (cases "length ls \<le> ?ml \<and> length content \<le> ?mb")
    case True
    then have "m = length ls" by (intro M) (simp_all add: fits_def ls)
    moreover have "length (last ls) \<le> ?mb"
      using True suffix_length_le [OF lastline(1)] by simp
    ultimately show ?thesis using True ls
      by (simp add: r_def TruncateTail_def untruncated_def ls_def Let_def)
  next
    case False
    obtain kept n why p where loop: "tail_loop ?ml ?mb 0 [] (rev ls) = (kept, n, why, p)"
      by (metis prod_cases4)
    have r: "r = \<lparr>Content = unlines kept, Truncated = True,
         TruncatedBy = (if length kept \<ge> ?ml \<and> n \<le> ?mb then TruncatedByLines else why),
         TotalLines = length ls, TotalBytes = length content,
         OutputLines = length kept, OutputBytes = length (unlines kept), LastLinePartial = p,
         FirstLineExceedsLimit = False, tr_MaxLines = ?ml, tr_MaxBytes = ?mb\<rparr>"
      using False loop by (simp only: r_def TruncateTail_def ls_def [symmetric] Let_def if_False prod.case)
    show ?thesis
    proof (cases p)
      case True
      with tail_loop_partial loop ls have kept: "length (last ls) > ?mb"
        "kept = [truncateBytesFromEnd (last ls) ?mb]" by (fastforce simp: hd_rev)+
      have "kept \<noteq> [content]"
        using kept suffix_length_le [OF lastline(1)] truncateBytesFromEnd_spec [of "last ls" ?mb] by auto
      then show ?thesis
        using True kept lastline truncateBytesFromEnd_spec [of "last ls" ?mb] lim_pos(1) [of opts]
        by (auto simp: r suffix_order.trans Suc_le_eq simp del: lim_pos)
    next
      case np: False
      from tail_loop_fits [of ls "rev ls" "[]" ?ml ?mb kept n why] loop np
      have k: "kept = last_n (length kept) ls" "?F (length kept)" "\<not> ?F (Suc (length kept))"
        by (auto simp: fits_def)
      have m: "m = length kept" using M k by simp
      have last: "length (last ls) \<le> ?mb"
      proof (rule ccontr)
        assume "\<not> ?thesis"
        then have "p" using loop split lim_pos(1) [of opts] by (cases "rev ls") (auto simp: Let_def simp del: lim_pos split: if_splits)
        with np show False by simp
      qed
      with one k(3) have ne: "kept \<noteq> []" by auto
      have lt: "length kept < length ls"
        using k(1) fitsD [OF k(2)] False ls by (cases "length kept = length ls") auto
      have front: "take (length ls - length kept) ls @ kept = ls"
        by (subst (2) k(1)) (simp add: last_n_def)
      have "take (length ls - length kept) ls \<noteq> []" using lt ls(1) by simp
      then have "unlines kept \<noteq> content"
        using front ne ls(2) join_with_append [of "take (length ls - length kept) ls" kept nl] by auto
      then show ?thesis
        using np last ne fitsD [OF k(2)] unlines_suffix [OF front ne] ls(2)
        by (simp add: r m k(1) [symmetric])
    qed
  qed
qed

theorem TruncateTail_exact_witness:
  "utf8_shape (''ab'' @ nl @ ''cd'')
   \<and> suffix (Content (TruncateTail (''ab'' @ nl @ ''cd'') \<lparr>MaxLines = 1, MaxBytes = 0\<rparr>)) (''ab'' @ nl @ ''cd'')
   \<and> utf8_shape (Content (TruncateTail (''ab'' @ nl @ ''cd'') \<lparr>MaxLines = 1, MaxBytes = 0\<rparr>))"
proof -
  have "utf8_shape (''ab'' @ nl @ ''cd'')" by (simp add: utf8_shape.simps(2) lead_len_def)
  then show ?thesis
    using TruncateTail_exact [of "''ab'' @ nl @ ''cd''" "\<lparr>MaxLines = 1, MaxBytes = 0\<rparr>"] by blast
qed

text \<open>
  What the byte limit does to a long last line that ends in a newline: the last "line" is then
  the empty one after the newline, it is kept, and the long line before it no longer fits. Not
  one byte of the text is shown.
\<close>

lemma TruncateTail_drops_long_line:
  assumes "CHR 0x0A \<notin> set line" "lim_bytes opts \<le> length line"
  shows "Content (TruncateTail (line @ nl) opts) = [] \<and> Truncated (TruncateTail (line @ nl) opts)"
proof -
  have "lines_of (line @ nl) = [line, []]"
    using split_on_append_sep [of "CHR 0x0A" line "[]"] split_on_plain [OF assms(1)] by simp
  then show ?thesis using assms(2) lim_pos(1) [of opts]
    by (auto simp: TruncateTail_def Let_def simp del: lim_pos split: if_splits)
qed

subsection \<open>The middle cut\<close>

lemma take_drop_three: "i \<le> j \<Longrightarrow> xs = take i xs @ drop i (take j xs) @ drop j xs"
  by (metis append.assoc append_take_drop_id min.absorb1 take_take)

text \<open>
  The middle cut keeps the first and the last half of the budget: what is shown is made of the
  budgeted runes, the marker names the number of runes left out, and a text within the budget
  is untouched.
\<close>

lemma truncateMiddle_spec:
  fixes s mx
  defines "rs \<equiv> runes s"
  assumes mx: "mx > 0"
  shows "if int (length rs) \<le> mx then truncateMiddle s mx = s
    else \<exists>a b c. rs = a @ b @ c \<and> int (length a) = mx div 2 \<and> int (length a + length c) = mx
      \<and> truncateMiddle s mx = concat a @ middle_marker (length b) @ concat c"
proof (cases "int (length rs) \<le> mx")
  case True
  then show ?thesis using mx by (auto simp: truncateMiddle_def rs_def Let_def nat_le_iff)
next
  case False
  define m n where "m = nat mx" and "n = length rs"
  have m: "mx = int m" "m < n" using mx False by (auto simp: m_def n_def)
  let ?h = "m div 2" and ?t = "m - m div 2"
  have "rs = take ?h rs @ drop ?h (take (n - ?t) rs) @ drop (n - ?t) rs"
    using take_drop_three [of ?h "n - ?t" rs] m(2) by simp
  moreover have "truncateMiddle s mx = concat (take ?h rs) @ middle_marker (n - ?h - ?t) @ concat (drop (n - ?t) rs)"
    using m mx by (simp add: truncateMiddle_def Let_def m_def n_def flip: rs_def)
  moreover have "length (drop ?h (take (n - ?t) rs)) = n - ?h - ?t" by (simp add: n_def)
  moreover have "int (length (take ?h rs)) = mx div 2"
    using m by (simp add: n_def [symmetric] zdiv_int min_def)
  moreover have "int (length (take ?h rs) + length (drop (n - ?t) rs)) = mx"
    using m by (simp add: n_def [symmetric] min_def)
  ultimately have "rs = take ?h rs @ drop ?h (take (n - ?t) rs) @ drop (n - ?t) rs
    \<and> int (length (take ?h rs)) = mx div 2 \<and> int (length (take ?h rs) + length (drop (n - ?t) rs)) = mx
    \<and> truncateMiddle s mx = concat (take ?h rs) @ middle_marker (length (drop ?h (take (n - ?t) rs))) @ concat (drop (n - ?t) rs)"
    by simp
  then show ?thesis using False by (simp only: if_False) blast
qed

end
