(* ===== verification/Text_Edit.thy ===== *)
theory Text_Edit
  imports Truncate "HOL-Library.Multiset"
begin

section \<open>Matching and applying text edits (\<open>internal/tool\<close>: \<open>linending.go\<close>, \<open>fuzzy.go\<close>, \<open>editdiff.go\<close>)\<close>

text \<open>
  The text half of the edit tool: line endings and the byte order mark, the fuzzy normal form
  in which an old text is looked up when it does not occur literally, the resolution of a list
  of replacements against one base text, and the line-numbered diff. Unicode's NFKC form
  (\<open>golang.org/x/text\<close>) and the opcodes of the line matcher (\<open>go-difflib\<close>) are parameters.
\<close>

subsection \<open>\<open>strings.Count\<close>\<close>

text \<open>Non-overlapping occurrences from the left; the empty text counts once per rune, plus one.\<close>

function count_from :: "string \<Rightarrow> string \<Rightarrow> nat" where
  "count_from sep s =
     (if sep = [] \<or> s = [] then 0
      else if has_prefix s sep then Suc (count_from sep (drop (length sep) s))
      else count_from sep (tl s))"
  by pat_completeness auto
termination
  by (relation "measure (\<lambda>(_, s). length s)") auto

declare count_from.simps [simp del]

definition strings_Count :: "string \<Rightarrow> string \<Rightarrow> nat" where
  "strings_Count s sep = (if sep = [] then length (runes s) + 1 else count_from sep s)"

subsection \<open>Line endings\<close>

abbreviation carriage :: char where "carriage \<equiv> CHR 0x0D"
abbreviation crlf :: string where "crlf \<equiv> [CHR 0x0D, CHR 0x0A]"

datatype line_ending = LineEndingLF | LineEndingCRLF

definition DetectLineEnding :: "string \<Rightarrow> line_ending" where
  "DetectLineEnding content =
     (case index_of content nl of
        None \<Rightarrow> LineEndingLF
      | Some lf \<Rightarrow>
          (case index_of content crlf of
             None \<Rightarrow> LineEndingLF
           | Some c \<Rightarrow> if c < lf then LineEndingCRLF else LineEndingLF))"

definition NormalizeToLF :: "string \<Rightarrow> string" where
  "NormalizeToLF content = replace_all [carriage] nl (replace_all crlf nl content)"

definition RestoreLineEndings :: "string \<Rightarrow> line_ending \<Rightarrow> string" where
  "RestoreLineEndings content ending =
     (if ending = LineEndingCRLF then replace_all nl crlf content else content)"

definition utf8BOM :: string where
  "utf8BOM = [CHR 0xEF, CHR 0xBB, CHR 0xBF]"

definition StripBOM :: "string \<Rightarrow> string \<times> string" where
  "StripBOM content =
     (if has_prefix content utf8BOM then (utf8BOM, drop (length utf8BOM) content) else ([], content))"

subsection \<open>The fuzzy normal form\<close>

text \<open>The encoding of a code point below \<open>0x10000\<close>, so that the runes read as in the source.\<close>

definition enc :: "nat \<Rightarrow> string" where
  "enc c =
     (if c < 0x80 then [char_of c]
      else if c < 0x800 then [char_of (0xC0 + c div 64), char_of (0x80 + c mod 64)]
      else [char_of (0xE0 + c div 4096), char_of (0x80 + c div 64 mod 64), char_of (0x80 + c mod 64)])"

definition fuzzy_quotes :: "string list" where
  "fuzzy_quotes = map enc [0x2018, 0x2019, 0x201A, 0x201B]"

definition fuzzy_dquotes :: "string list" where
  "fuzzy_dquotes = map enc [0x201C, 0x201D, 0x201E, 0x201F]"

definition fuzzy_dashes :: "string list" where
  "fuzzy_dashes = map enc [0x2010, 0x2011, 0x2012, 0x2013, 0x2014, 0x2015, 0x2212]"

definition fuzzy_spaces :: "string list" where
  "fuzzy_spaces = map enc
     [0x00A0, 0x2002, 0x2003, 0x2004, 0x2005, 0x2006, 0x2007, 0x2008, 0x2009, 0x200A,
      0x202F, 0x205F, 0x3000]"

definition fuzzy_rune :: "string \<Rightarrow> string" where
  "fuzzy_rune r =
     (if r \<in> set fuzzy_quotes then [CHR 0x27]
      else if r \<in> set fuzzy_dquotes then [CHR 0x22]
      else if r \<in> set fuzzy_dashes then ''-''
      else if r \<in> set fuzzy_spaces then '' ''
      else r)"

definition NormalizeForFuzzyMatch :: "(string \<Rightarrow> string) \<Rightarrow> string \<Rightarrow> string" where
  "NormalizeForFuzzyMatch nfkc text0 =
     (let text1 = nfkc text0;
          text2 = unlines (map (trim_right [CHR '' '', CHR 0x09, carriage]) (lines_of text1))
      in concat (map fuzzy_rune (runes text2)))"

record fuzzy_match =
  Found :: bool
  Index :: nat
  MatchLength :: nat
  UsedFuzzyMatch :: bool
  ContentForReplacement :: string

definition FuzzyFind :: "(string \<Rightarrow> string) \<Rightarrow> string \<Rightarrow> string \<Rightarrow> fuzzy_match" where
  "FuzzyFind nfkc haystack needle =
     (case index_of haystack needle of
        Some i \<Rightarrow> \<lparr>Found = True, Index = i, MatchLength = length needle, UsedFuzzyMatch = False,
                    ContentForReplacement = haystack\<rparr>
      | None \<Rightarrow>
          let normHay = NormalizeForFuzzyMatch nfkc haystack;
              normNeedle = NormalizeForFuzzyMatch nfkc needle
          in case index_of normHay normNeedle of
               Some i \<Rightarrow> \<lparr>Found = True, Index = i, MatchLength = length normNeedle,
                           UsedFuzzyMatch = True, ContentForReplacement = normHay\<rparr>
             | None \<Rightarrow> \<lparr>Found = False, Index = 0, MatchLength = 0, UsedFuzzyMatch = False,
                         ContentForReplacement = haystack\<rparr>)"

definition CountFuzzyOccurrences :: "(string \<Rightarrow> string) \<Rightarrow> string \<Rightarrow> string \<Rightarrow> nat" where
  "CountFuzzyOccurrences nfkc haystack needle =
     (if needle = [] then 0
      else strings_Count (NormalizeForFuzzyMatch nfkc haystack) (NormalizeForFuzzyMatch nfkc needle))"

subsection \<open>Resolving and applying the edits\<close>

record edit_op =
  OldText :: string
  NewText :: string

record applied_edits =
  baseContent :: string
  newContent :: string

text \<open>The failures, each with the arguments its message is built from.\<close>

datatype edit_error =
    NoEdits
  | EmptyOldText nat nat
  | NotFound nat nat
  | DuplicateMatch nat nat nat
  | EditsOverlap nat nat
  | NoChange nat

definition norm_edit :: "edit_op \<Rightarrow> edit_op" where
  "norm_edit e = \<lparr>OldText = NormalizeToLF (OldText e), NewText = NormalizeToLF (NewText e)\<rparr>"

text \<open>The loop that normalizes the edits and refuses an empty old text.\<close>

fun norm_edits :: "nat \<Rightarrow> nat \<Rightarrow> edit_op list \<Rightarrow> edit_error + edit_op list" where
  "norm_edits n i [] = Inr []"
| "norm_edits n i (e # es) =
     (if OldText e = [] then Inl (EmptyOldText i n)
      else case norm_edits n (i + 1) es of Inl err \<Rightarrow> Inl err | Inr r \<Rightarrow> Inr (norm_edit e # r))"

definition needsFuzzy :: "(string \<Rightarrow> string) \<Rightarrow> string \<Rightarrow> edit_op list \<Rightarrow> bool" where
  "needsFuzzy nfkc normalized es \<longleftrightarrow>
     list_ex (\<lambda>e. let m = FuzzyFind nfkc normalized (OldText e) in Found m \<and> UsedFuzzyMatch m) es"

record matched =
  editIndex :: nat
  start :: nat
  len :: nat
  newText :: string

fun resolve_edits :: "(string \<Rightarrow> string) \<Rightarrow> string \<Rightarrow> nat \<Rightarrow> nat \<Rightarrow> edit_op list \<Rightarrow> edit_error + matched list" where
  "resolve_edits nfkc base n i [] = Inr []"
| "resolve_edits nfkc base n i (e # es) =
     (let m = FuzzyFind nfkc base (OldText e) in
      if \<not> Found m then Inl (NotFound i n)
      else let occ = CountFuzzyOccurrences nfkc base (OldText e) in
        if occ > 1 then Inl (DuplicateMatch i n occ)
        else case resolve_edits nfkc base n (i + 1) es of
               Inl err \<Rightarrow> Inl err
             | Inr r \<Rightarrow> Inr (\<lparr>editIndex = i, start = Index m, len = MatchLength m, newText = NewText e\<rparr> # r))"

fun check_overlap :: "matched list \<Rightarrow> edit_error option" where
  "check_overlap (p # q # rest) =
     (if start p + len p > start q then Some (EditsOverlap (editIndex p) (editIndex q))
      else check_overlap (q # rest))"
| "check_overlap _ = None"

definition replace_region :: "string \<Rightarrow> matched \<Rightarrow> string" where
  "replace_region out r = take (start r) out @ newText r @ drop (start r + len r) out"

text \<open>
  \<open>sort.Slice\<close> orders by start. Two matches with the same start overlap, whichever comes first,
  unless they are empty.
\<close>

definition applyEditsToNormalized ::
  "(string \<Rightarrow> string) \<Rightarrow> string \<Rightarrow> edit_op list \<Rightarrow> edit_error + applied_edits" where
  "applyEditsToNormalized nfkc normalized edits =
     (if length edits = 0 then Inl NoEdits
      else case norm_edits (length edits) 0 edits of
        Inl err \<Rightarrow> Inl err
      | Inr es \<Rightarrow>
          let base = (if needsFuzzy nfkc normalized es then NormalizeForFuzzyMatch nfkc normalized
                      else normalized)
          in case resolve_edits nfkc base (length es) 0 es of
               Inl err \<Rightarrow> Inl err
             | Inr ms \<Rightarrow>
                 let sorted = sort_key start ms in
                 (case check_overlap sorted of
                    Some err \<Rightarrow> Inl err
                  | None \<Rightarrow>
                      let out = foldl replace_region base (rev sorted) in
                      if out = base then Inl (NoChange (length es))
                      else Inr \<lparr>baseContent = base, newContent = out\<rparr>))"

subsection \<open>Error messages\<close>

definition notFoundError :: "string \<Rightarrow> nat \<Rightarrow> nat \<Rightarrow> string" where
  "notFoundError path idx n =
     (if n = 1 then ''could not find the exact text in '' @ path @ ''. The old text must match exactly including all whitespace and newlines.''
      else ''could not find edits['' @ show_nat idx @ ''] in '' @ path @ ''. The oldText must match exactly including all whitespace and newlines.'')"

definition duplicateMatchError :: "string \<Rightarrow> nat \<Rightarrow> nat \<Rightarrow> nat \<Rightarrow> string" where
  "duplicateMatchError path idx n occurrences =
     (if n = 1 then ''found '' @ show_nat occurrences @ '' occurrences of the text in '' @ path @ ''. The text must be unique. Please provide more context to make it unique.''
      else ''found '' @ show_nat occurrences @ '' occurrences of edits['' @ show_nat idx @ ''] in '' @ path @ ''. Each oldText must be unique. Please provide more context to make it unique.'')"

definition emptyOldTextError :: "string \<Rightarrow> nat \<Rightarrow> nat \<Rightarrow> string" where
  "emptyOldTextError path idx n =
     (if n = 1 then ''oldText must not be empty in '' @ path
      else ''edits['' @ show_nat idx @ ''].oldText must not be empty in '' @ path)"

definition noChangeError :: "string \<Rightarrow> nat \<Rightarrow> string" where
  "noChangeError path n =
     (if n = 1 then ''no changes made to '' @ path @ ''. The replacement produced identical content. This might indicate an issue with special characters or the text not existing as expected.''
      else ''no changes made to '' @ path @ ''. The replacements produced identical content.'')"

fun edit_message :: "string \<Rightarrow> edit_error \<Rightarrow> string" where
  "edit_message path NoEdits = ''edits must contain at least one replacement''"
| "edit_message path (EmptyOldText i n) = emptyOldTextError path i n"
| "edit_message path (NotFound i n) = notFoundError path i n"
| "edit_message path (DuplicateMatch i n occ) = duplicateMatchError path i n occ"
| "edit_message path (EditsOverlap i j) =
     ''edits['' @ show_nat i @ ''] and edits['' @ show_nat j @ ''] overlap in '' @ path
     @ ''. merge them into one edit or target disjoint regions''"
| "edit_message path (NoChange n) = noChangeError path n"

subsection \<open>An applied edit replaces the matched regions and nothing else\<close>

text \<open>\<open>weave gaps xs\<close> alternates gaps and inserted texts, with a gap at both ends.\<close>

fun weave :: "string list \<Rightarrow> string list \<Rightarrow> string" where
  "weave (g # gs) (x # xs) = g @ x @ weave gs xs"
| "weave gs [] = concat gs"
| "weave [] xs = concat xs"

text \<open>Matches in order, disjoint and inside the text from position \<open>p\<close> on.\<close>

fun chain :: "nat \<Rightarrow> string \<Rightarrow> matched list \<Rightarrow> bool" where
  "chain p base [] \<longleftrightarrow> p \<le> length base"
| "chain p base (r # rs) \<longleftrightarrow> p \<le> start r \<and> chain (start r + len r) base rs"

fun gaps_of :: "nat \<Rightarrow> string \<Rightarrow> matched list \<Rightarrow> string list" where
  "gaps_of p base [] = [drop p base]"
| "gaps_of p base (r # rs) = take (start r - p) (drop p base) # gaps_of (start r + len r) base rs"

definition region :: "string \<Rightarrow> matched \<Rightarrow> string" where
  "region base r = take (len r) (drop (start r) base)"

lemma chain_bound: "chain p base rs \<Longrightarrow> p \<le> length base"
  by (induction rs arbitrary: p) fastforce+

lemma length_gaps_of [simp]: "length (gaps_of p base rs) = Suc (length rs)"
  by (induction rs arbitrary: p) simp_all

lemma take_split_at: "p \<le> q \<Longrightarrow> take p xs @ take (q - p) (drop p xs) = take q xs"
  by (metis le_add_diff_inverse take_add)

lemma drop_split_at: "p \<le> q \<Longrightarrow> take (q - p) (drop p xs) @ drop q xs = drop p xs"
  by (metis append_take_drop_id drop_drop le_add_diff_inverse2)

lemma weave_regions:
  "chain p base rs \<Longrightarrow> weave (gaps_of p base rs) (map (region base) rs) = drop p base"
proof (induction rs arbitrary: p)
  case (Cons r rs)
  then show ?case
    by (simp add: region_def)
      (metis append_take_drop_id drop_drop drop_split_at add.commute)
qed simp

lemma foldr_replace:
  "chain p base rs \<Longrightarrow>
   foldr (\<lambda>r out. replace_region out r) rs base = take p base @ weave (gaps_of p base rs) (map newText rs)"
proof (induction rs arbitrary: p)
  case (Cons r rs)
  let ?q = "start r + len r"
  have q: "?q \<le> length base" "p \<le> start r" "chain ?q base rs"
    using Cons.prems chain_bound by auto
  let ?W = "weave (gaps_of ?q base rs) (map newText rs)"
  have "take (start r) base = take p base @ take (start r - p) (drop p base)"
    by (rule take_split_at [OF q(2), symmetric])
  moreover have "replace_region (take ?q base @ ?W) r = take (start r) base @ newText r @ ?W"
    using q(1) by (simp add: replace_region_def min_def)
  ultimately show ?case by (simp add: Cons.IH [OF q(3)])
qed simp

lemma check_overlap_chain:
  assumes "sorted (map start rs)" "check_overlap rs = None"
    and "\<forall>r \<in> set rs. start r + len r \<le> length base" and "p \<le> length base"
    and "rs \<noteq> [] \<longrightarrow> p \<le> start (hd rs)"
  shows "chain p base rs"
  using assms
proof (induction rs arbitrary: p rule: check_overlap.induct)
  case (1 a b rest)
  then show ?case by (auto split: if_splits)
qed auto

lemma sort_key_map: "sort_key g (map f xs) = map f (sort_key (g \<circ> f) xs)"
proof (induction xs)
  case (Cons x xs)
  have "insort_key g (f x) (map f ys) = map f (insort_key (g \<circ> f) x ys)" for ys
    by (induction ys) simp_all
  with Cons show ?case by (simp add: o_def)
qed simp

text \<open>The match \<open>resolve_edits\<close> records for the edit at position \<open>i\<close>.\<close>

definition match_at :: "(string \<Rightarrow> string) \<Rightarrow> string \<Rightarrow> nat \<times> edit_op \<Rightarrow> matched" where
  "match_at nfkc base = (\<lambda>(i, e). let m = FuzzyFind nfkc base (OldText e) in
     \<lparr>editIndex = i, start = Index m, len = MatchLength m, newText = NewText e\<rparr>)"

lemma resolve_edits_Inr:
  "resolve_edits nfkc base n i es = Inr ms \<Longrightarrow>
   ms = map (match_at nfkc base) (enumerate i es)
   \<and> (\<forall>e \<in> set es. Found (FuzzyFind nfkc base (OldText e)) \<and> CountFuzzyOccurrences nfkc base (OldText e) \<le> 1)"
proof (induction es arbitrary: i ms)
  case (Cons e es)
  then obtain r where "resolve_edits nfkc base n (i + 1) es = Inr r"
    by (auto simp: Let_def split: if_splits sum.splits)
  with Cons show ?case by (auto simp: Let_def match_at_def split: if_splits)
qed simp

lemma norm_edits_Inr: "norm_edits n i es = Inr r \<Longrightarrow> r = map norm_edit es \<and> (\<forall>e \<in> set es. OldText e \<noteq> [])"
  by (induction n i es arbitrary: r rule: norm_edits.induct) (auto split: if_splits sum.splits)

lemma norm_edits_length: "norm_edits n i es = Inr r \<Longrightarrow> length r = length es"
  by (drule norm_edits_Inr) simp

text \<open>What the matcher promises of a found text: the region it names holds \<open>tgt e\<close>.\<close>

lemma apply_edits_weave:
  assumes ms: "resolve_edits nfkc base n 0 es = Inr ms" and "check_overlap (sort_key start ms) = None"
    and tgt: "\<And>e. e \<in> set es \<Longrightarrow> Found (FuzzyFind nfkc base (OldText e)) \<Longrightarrow>
      let m = FuzzyFind nfkc base (OldText e) in
      Index m + MatchLength m \<le> length base \<and> take (MatchLength m) (drop (Index m) base) = tgt e"
  shows "\<exists>gaps es'. mset es' = mset es \<and> length gaps = Suc (length es')
    \<and> base = weave gaps (map tgt es')
    \<and> foldl replace_region base (rev (sort_key start ms)) = weave gaps (map NewText es')"
proof -
  let ?f = "match_at nfkc base"
  define ps where "ps = sort_key (start \<circ> ?f) (enumerate 0 es)"
  have R: "ms = map ?f (enumerate 0 es)"
    and found: "\<And>e. e \<in> set es \<Longrightarrow> Found (FuzzyFind nfkc base (OldText e))"
    using resolve_edits_Inr [OF ms] by auto
  have srt: "sort_key start ms = map ?f ps" by (simp add: R ps_def sort_key_map)
  have mem: "snd q \<in> set es" if "q \<in> set ps" for q
    using that by (auto simp: ps_def in_set_enumerate_eq) (metis nth_mem)
  have q: "start (?f q) + len (?f q) \<le> length base \<and> region base (?f q) = tgt (snd q)"
    "newText (?f q) = NewText (snd q)" if "q \<in> set ps" for q
    using tgt [OF mem [OF that] found [OF mem [OF that]]]
    by (auto simp: match_at_def region_def Let_def split: prod.splits)
  have ch: "chain 0 base (map ?f ps)"
  proof (rule check_overlap_chain)
    show "sorted (map start (map ?f ps))" by (metis srt sorted_sort_key)
    show "check_overlap (map ?f ps) = None" using assms(2) by (simp add: srt)
  qed (use q in auto)
  let ?g = "gaps_of 0 base (map ?f ps)"
  have "map (region base) (map ?f ps) = map tgt (map snd ps)" using q by simp
  then have b: "base = weave ?g (map tgt (map snd ps))" using weave_regions [OF ch] by (simp only: drop0)
  have nt: "map newText (map ?f ps) = map NewText (map snd ps)" using q by simp
  have o: "foldl replace_region base (rev (sort_key start ms)) = weave ?g (map NewText (map snd ps))"
    using foldr_replace [OF ch] unfolding nt by (simp add: srt foldl_conv_foldr)
  have m: "mset (map snd ps) = mset es"
    by (simp add: ps_def) (metis map_snd_enumerate mset_map)
  show ?thesis
    by (intro exI [of _ ?g] exI [of _ "map snd ps"] conjI) (use m b o in \<open>simp_all only: length_gaps_of length_map\<close>)
qed

lemma FuzzyFind_exact:
  assumes "Found (FuzzyFind nfkc base x)" "\<not> UsedFuzzyMatch (FuzzyFind nfkc base x)"
  shows "let m = FuzzyFind nfkc base x in
    Index m + MatchLength m \<le> length base \<and> take (MatchLength m) (drop (Index m) base) = x"
  using assms index_of_Some [of base x]
  by (auto simp: FuzzyFind_def Let_def split: option.splits)

text \<open>
  The edits that match literally: on success the base is the text itself, and the result differs
  from it only in that each old text, found at disjoint places, gives way to its new text, all
  of them matched against the original. No edit counts more than one occurrence of its old text
  in normal form.
\<close>

lemma edits_weave:
  assumes ok: "applyEditsToNormalized nfkc s edits = Inr a"
    and literal: "\<not> needsFuzzy nfkc s (map norm_edit edits)"
  shows "baseContent a = s \<and> newContent a \<noteq> s
    \<and> (\<exists>gaps es. mset es = mset (map norm_edit edits) \<and> length gaps = Suc (length es)
        \<and> s = weave gaps (map OldText es) \<and> newContent a = weave gaps (map NewText es)
        \<and> (\<forall>e \<in> set es. CountFuzzyOccurrences nfkc s (OldText e) \<le> 1))"
proof -
  let ?es = "map norm_edit edits"
  obtain es0 where e0: "norm_edits (length edits) 0 edits = Inr es0"
    using ok by (auto simp: applyEditsToNormalized_def split: if_splits sum.splits)
  then have es: "norm_edits (length edits) 0 edits = Inr ?es" using norm_edits_Inr by blast
  obtain ms where ms: "resolve_edits nfkc s (length edits) 0 ?es = Inr ms"
    using ok literal by (auto simp: applyEditsToNormalized_def es split: if_splits sum.splits)
  let ?out = "foldl replace_region s (rev (sort_key start ms))"
  have co: "check_overlap (sort_key start ms) = None" and a: "a = \<lparr>baseContent = s, newContent = ?out\<rparr>"
    and ne: "?out \<noteq> s"
    using ok literal by (simp_all add: applyEditsToNormalized_def es ms Let_def split: if_splits option.splits)
  have "let m = FuzzyFind nfkc s (OldText e) in
      Index m + MatchLength m \<le> length s \<and> take (MatchLength m) (drop (Index m) s) = OldText e"
    if "e \<in> set (map norm_edit edits)" "Found (FuzzyFind nfkc s (OldText e))" for e
    using FuzzyFind_exact [OF that(2)] that literal by (auto simp: needsFuzzy_def list_ex_iff Let_def)
  from apply_edits_weave [where tgt = OldText, OF ms co this] obtain gaps es
    where w: "mset es = mset (map norm_edit edits)" "length gaps = Suc (length es)"
      "s = weave gaps (map OldText es)" "?out = weave gaps (map NewText es)"
    by blast
  have "\<forall>e \<in> set es. CountFuzzyOccurrences nfkc s (OldText e) \<le> 1"
    using resolve_edits_Inr [OF ms] mset_eq_setD [OF w(1)] by auto
  with w ne show ?thesis unfolding a applied_edits.simps by blast
qed

subsection \<open>Line endings survive an edit\<close>

lemma replace_all_Nil [simp]: "replace_all old new [] = []"
  by (simp add: replace_all.simps)

lemma replace_all_Cons:
  "replace_all (c # cs) new (x # xs) =
     (if x = c \<and> has_prefix xs cs then new @ replace_all (c # cs) new (drop (length cs) xs)
      else x # replace_all (c # cs) new xs)"
  by (subst replace_all.simps) (auto simp: has_prefix_def)

lemma replace_all_single: "replace_all [c] new s = concat (map (\<lambda>x. if x = c then new else [x]) s)"
  by (induction s) (auto simp: replace_all_Cons has_prefix_def)

lemma Restore_append: "RestoreLineEndings (a @ b) e = RestoreLineEndings a e @ RestoreLineEndings b e"
  by (simp add: RestoreLineEndings_def replace_all_single)

lemma Restore_weave:
  "length gs = Suc (length xs) \<Longrightarrow>
   RestoreLineEndings (weave gs xs) e
   = weave (map (\<lambda>t. RestoreLineEndings t e) gs) (map (\<lambda>t. RestoreLineEndings t e) xs)"
proof (induction gs xs rule: weave.induct)
  case (2 gs)
  then show ?case by (cases gs) simp_all
qed (simp_all add: Restore_append)

text \<open>A text whose line breaks are all LF, or all CRLF.\<close>

definition uniform_endings :: "string \<Rightarrow> bool" where
  "uniform_endings s \<longleftrightarrow> carriage \<notin> set s \<or> s = RestoreLineEndings (NormalizeToLF s) LineEndingCRLF"

lemma replace_all_absent: "c \<notin> set s \<Longrightarrow> replace_all (c # cs) new s = s"
  by (induction s) (auto simp: replace_all_Cons)

lemma Normalize_absent: "carriage \<notin> set s \<Longrightarrow> NormalizeToLF s = s"
  by (simp add: NormalizeToLF_def replace_all_absent)

lemma carriage_replaced: "carriage \<notin> set (replace_all [carriage] nl s)"
  by (simp add: replace_all_single)

lemma index_of_CRLF:
  assumes "carriage \<notin> set t"
  shows "map_option Suc (index_of (replace_all nl crlf t) crlf) = index_of (replace_all nl crlf t) nl"
proof -
  have "map_option Suc (index_of (concat (map (\<lambda>x. if x = CHR 0x0A then crlf else [x]) t)) crlf)
    = index_of (concat (map (\<lambda>x. if x = CHR 0x0A then crlf else [x]) t)) nl"
    using assms by (induction t) (auto simp: option.map_comp)
  then show ?thesis by (simp add: replace_all_single)
qed

text \<open>The ending detected in a uniform text is the one that restores it.\<close>

lemma Restore_detected:
  assumes "uniform_endings s"
  shows "RestoreLineEndings (NormalizeToLF s) (DetectLineEnding s) = s"
proof (cases "carriage \<in> set s")
  case False
  have "index_of s crlf = None"
    using False by (subst index_of_None) auto
  then show ?thesis
    by (auto simp: Normalize_absent [OF False] DetectLineEnding_def RestoreLineEndings_def split: option.splits)
next
  case True
  define t where "t = NormalizeToLF s"
  have t: "carriage \<notin> set t" by (simp add: t_def NormalizeToLF_def carriage_replaced)
  have s: "s = replace_all nl crlf t"
    using assms True by (simp add: uniform_endings_def RestoreLineEndings_def t_def)
  have "index_of s nl \<noteq> None"
  proof -
    have "CHR 0x0A \<in> set t"
    proof (rule ccontr)
      assume "CHR 0x0A \<notin> set t"
      then have "s = t" by (simp add: s replace_all_absent)
      with t True show False by simp
    qed
    then obtain a b where "t = a @ CHR 0x0A # b" by (auto simp: in_set_conv_decomp)
    then have "s = (replace_all nl crlf a @ [carriage]) @ nl @ replace_all nl crlf b"
      by (simp add: s replace_all_single)
    then show ?thesis by (subst index_of_None) blast
  qed
  then have "DetectLineEnding s = LineEndingCRLF"
    using index_of_CRLF [OF t] by (auto simp: s DetectLineEnding_def split: option.splits)
  with assms True show ?thesis by (simp add: uniform_endings_def)
qed

subsection \<open>The line-numbered diff\<close>

text \<open>An opcode of \<open>difflib\<close>: tag \<open>e\<close> (equal), \<open>d\<close> (delete), \<open>i\<close> (insert) or \<open>r\<close> (replace).\<close>

record opcode =
  Tag :: char
  I1 :: nat
  I2 :: nat
  J1 :: nat
  J2 :: nat

datatype diff_entry = DLine char nat string | DEllipsis

definition splitForDiff :: "string \<Rightarrow> string list" where
  "splitForDiff s =
     (let ls = lines_of s in if length ls > 1 \<and> last ls = [] then butlast ls else ls)"

definition numbered :: "char \<Rightarrow> nat \<Rightarrow> string list \<Rightarrow> diff_entry list" where
  "numbered pre n ls = map (\<lambda>(k, l). DLine pre k l) (enumerate n ls)"

definition slice :: "nat \<Rightarrow> nat \<Rightarrow> 'a list \<Rightarrow> 'a list" where
  "slice i j xs = drop i (take j xs)"

text \<open>The lines shown of an equal block, by whether changes come before and after it.\<close>

definition equal_entries :: "nat \<Rightarrow> bool \<Rightarrow> bool \<Rightarrow> opcode \<Rightarrow> string list \<Rightarrow> diff_entry list" where
  "equal_entries ctx hasLeading hasTrailing op newLines =
     (let segment = slice (J1 op) (J2 op) newLines; n = length segment; oldNum = I1 op + 1 in
      if hasLeading \<and> hasTrailing then
        (if n \<le> ctx * 2 then numbered CHR '' '' oldNum segment
         else numbered CHR '' '' oldNum (take ctx segment) @ [DEllipsis]
              @ numbered CHR '' '' (oldNum + (n - ctx)) (drop (n - ctx) segment))
      else if hasLeading then
        numbered CHR '' '' oldNum (take ctx segment) @ (if n > ctx then [DEllipsis] else [])
      else if hasTrailing then
        (if n > ctx then DEllipsis # numbered CHR '' '' (I2 op - ctx + 1) (drop (n - ctx) segment)
         else numbered CHR '' '' oldNum segment)
      else [])"

definition change_entries :: "opcode \<Rightarrow> string list \<Rightarrow> string list \<Rightarrow> diff_entry list" where
  "change_entries op oldLines newLines =
     (if Tag op = CHR ''d'' \<or> Tag op = CHR ''r''
      then numbered CHR ''-'' (I1 op + 1) (slice (I1 op) (I2 op) oldLines) else [])
     @ (if Tag op = CHR ''i'' \<or> Tag op = CHR ''r''
        then numbered CHR ''+'' (J1 op + 1) (slice (J1 op) (J2 op) newLines) else [])"

text \<open>The loop over the opcodes; \<open>i\<close> is the position, \<open>n\<close> their number.\<close>

fun diff_loop :: "nat \<Rightarrow> nat \<Rightarrow> nat \<Rightarrow> string list \<Rightarrow> string list \<Rightarrow> opcode list \<Rightarrow> nat \<Rightarrow> diff_entry list \<times> nat" where
  "diff_loop ctx n i oldLines newLines [] firstChanged = ([], firstChanged)"
| "diff_loop ctx n i oldLines newLines (op # ops) firstChanged =
     (if Tag op = CHR ''e'' then
        let (out, fc) = diff_loop ctx n (i + 1) oldLines newLines ops firstChanged
        in (equal_entries ctx (i > 0) (i + 1 < n) op newLines @ out, fc)
      else
        let fc0 = (if firstChanged = 0 then J1 op + 1 else firstChanged);
            (out, fc) = diff_loop ctx n (i + 1) oldLines newLines ops fc0
        in (change_entries op oldLines newLines @ out, fc))"

definition pad_left :: "nat \<Rightarrow> string \<Rightarrow> string" where
  "pad_left w s = replicate (w - length s) CHR '' '' @ s"

fun fmt_entry :: "nat \<Rightarrow> diff_entry \<Rightarrow> string" where
  "fmt_entry w (DLine pre n t) = pre # pad_left w (show_nat n) @ '' '' @ t"
| "fmt_entry w DEllipsis = '' '' @ replicate w CHR '' '' @ '' ...''"

record diff_result =
  Diff_text :: string
  FirstChangedLine :: nat

definition GenerateDiff ::
  "(string list \<Rightarrow> string list \<Rightarrow> opcode list) \<Rightarrow> string \<Rightarrow> string \<Rightarrow> int \<Rightarrow> diff_result" where
  "GenerateDiff getOpCodes oldC newC contextLines =
     (let ctx = (if contextLines \<le> 0 then 4 else nat contextLines);
          oldLines = splitForDiff oldC; newLines = splitForDiff newC;
          width = length (show_nat (max (length oldLines) (length newLines)));
          ops = getOpCodes oldLines newLines;
          (out, fc) = diff_loop ctx (length ops) 0 oldLines newLines ops 0
      in \<lparr>Diff_text = unlines (map (fmt_entry width) out), FirstChangedLine = fc\<rparr>)"

text \<open>
  What \<open>GetOpCodes\<close> documents of an opcode: its ranges lie in the two sequences and an equal
  block holds the same lines in both.
\<close>

definition opcode_ok :: "string list \<Rightarrow> string list \<Rightarrow> opcode \<Rightarrow> bool" where
  "opcode_ok old new op \<longleftrightarrow>
     I1 op \<le> I2 op \<and> I2 op \<le> length old \<and> J1 op \<le> J2 op \<and> J2 op \<le> length new
     \<and> Tag op \<in> {CHR ''e'', CHR ''d'', CHR ''i'', CHR ''r''}
     \<and> (Tag op = CHR ''e'' \<longrightarrow> slice (I1 op) (I2 op) old = slice (J1 op) (J2 op) new)"

text \<open>An entry tells the truth about the two texts: its line has the number it prints.\<close>

fun entry_true :: "string list \<Rightarrow> string list \<Rightarrow> diff_entry \<Rightarrow> bool" where
  "entry_true old new DEllipsis \<longleftrightarrow> True"
| "entry_true old new (DLine pre n t) \<longleftrightarrow>
     (let ls = (if pre = CHR ''+'' then new else old) in 1 \<le> n \<and> n \<le> length ls \<and> ls ! (n - 1) = t)"

lemma take_min_length: "take (min (length xs) n) xs = take n xs"
  by (simp add: min_def)

lemma numbered_slice_true:
  assumes "slice i j ls = seg" "i + off + length sub \<le> i + length seg" "j \<le> length ls"
    and "sub = take (length sub) (drop off seg)" "ls = (if pre = CHR ''+'' then new else old)"
    and "e \<in> set (numbered pre (i + off + 1) sub)"
  shows "entry_true old new e"
proof -
  obtain k where k: "k < length sub" "e = DLine pre (i + off + 1 + k) (sub ! k)"
    using assms(6) by (auto simp: numbered_def in_set_conv_nth nth_enumerate_eq)
  have "sub ! k = take (length sub) (drop off seg) ! k" by (subst assms(4)) (rule refl)
  also have "\<dots> = seg ! (off + k)" using k(1) assms(2) by simp
  also have "\<dots> = ls ! (i + off + k)"
    using k(1) assms(1-3) by (auto simp: slice_def add.assoc)
  finally have "sub ! k = ls ! (i + off + k)" .
  moreover have "i + off + k < length ls"
    using k(1) assms(1-3) by (auto simp: slice_def)
  ultimately show ?thesis by (simp add: k assms(5) [symmetric])
qed

lemma entries_true:
  assumes ok: "opcode_ok old new op"
    and "e \<in> set (if Tag op = CHR ''e'' then equal_entries ctx lead trail op new else change_entries op old new)"
  shows "entry_true old new e"
proof (cases "Tag op = CHR ''e''")
  case True
  define seg where "seg = slice (J1 op) (J2 op) new"
  have seg: "slice (I1 op) (I2 op) old = seg" "I2 op \<le> length old"
    using ok True by (auto simp: opcode_ok_def seg_def)
  have len: "I2 op = I1 op + length seg"
    using arg_cong [OF seg(1), of length] seg(2) ok by (auto simp: slice_def opcode_ok_def)
  note T = numbered_slice_true [OF seg(1) _ seg(2), where pre = "CHR '' ''" and new = new and old = old and e = e]
  have "e = DEllipsis \<or> e \<in> set (numbered CHR '' '' (I1 op + 0 + 1) (take ctx seg))
    \<or> e \<in> set (numbered CHR '' '' (I1 op + 0 + 1) seg)
    \<or> e \<in> set (numbered CHR '' '' (I1 op + (length seg - ctx) + 1) (drop (length seg - ctx) seg))"
    using assms(2) True len
    by (auto simp: equal_entries_def Let_def seg_def [symmetric] split: if_splits)
  then show ?thesis
    using T [of 0 "take ctx seg"] T [of 0 seg] T [of "length seg - ctx" "drop (length seg - ctx) seg"]
    by (auto simp: take_min_length)
next
  case False
  have "slice (I1 op) (I2 op) old = slice (I1 op) (I2 op) old" by simp
  from numbered_slice_true [OF this, of 0 "slice (I1 op) (I2 op) old" "CHR ''-''" new old e]
    numbered_slice_true [of "J1 op" "J2 op" new "slice (J1 op) (J2 op) new" 0 "slice (J1 op) (J2 op) new" "CHR ''+''" new old e]
  show ?thesis using False assms
    by (auto simp: change_entries_def opcode_ok_def split: if_splits)
qed

lemma diff_loop_true:
  assumes "\<forall>op \<in> set ops. opcode_ok old new op"
  shows "(\<forall>e \<in> set (fst (diff_loop ctx n i old new ops f)). entry_true old new e)
    \<and> (\<forall>op \<in> set ops. Tag op \<noteq> CHR ''e'' \<longrightarrow>
         set (change_entries op old new) \<subseteq> set (fst (diff_loop ctx n i old new ops f)))
    \<and> (f = 0 \<longrightarrow> snd (diff_loop ctx n i old new ops f) =
         (case filter (\<lambda>op. Tag op \<noteq> CHR ''e'') ops of [] \<Rightarrow> 0 | op # _ \<Rightarrow> J1 op + 1))
    \<and> (f \<noteq> 0 \<longrightarrow> snd (diff_loop ctx n i old new ops f) = f)"
  using assms
proof (induction ctx n i old new ops f rule: diff_loop.induct)
  case (2 ctx n i old new op ops f)
  have ok: "opcode_ok old new op" and oks: "\<forall>op \<in> set ops. opcode_ok old new op" using "2.prems" by simp_all
  note T = entries_true [OF ok, of _ ctx "i > 0" "i + 1 < n"]
  show ?case
  proof (cases "Tag op = CHR ''e''")
    case True
    with "2.IH"(1) [OF True oks] T show ?thesis by (fastforce split: prod.splits)
  next
    case False
    with "2.IH"(2) [OF False refl oks] T show ?thesis by (fastforce split: prod.splits if_splits)
  qed
qed simp

text \<open>
  The diff tells the truth: given opcodes as the matcher documents them, every printed line
  (\<open>-\<close>, \<open>+\<close> or context) carries the number that line has in the old text, the new text or the
  old text; every deleted and every inserted line is printed; and \<open>FirstChangedLine\<close> is where
  the first change lands in the new text, or 0 when there is none.
\<close>

theorem GenerateDiff_true:
  fixes oldC newC
  defines "old \<equiv> splitForDiff oldC" and "new \<equiv> splitForDiff newC"
  assumes "\<forall>op \<in> set (getOpCodes old new). opcode_ok old new op"
  shows "\<exists>out w.
    Diff_text (GenerateDiff getOpCodes oldC newC ctx) = unlines (map (fmt_entry w) out)
    \<and> (\<forall>e \<in> set out. entry_true old new e)
    \<and> (\<forall>op \<in> set (getOpCodes old new). Tag op \<noteq> CHR ''e'' \<longrightarrow> set (change_entries op old new) \<subseteq> set out)
    \<and> FirstChangedLine (GenerateDiff getOpCodes oldC newC ctx) =
        (case filter (\<lambda>op. Tag op \<noteq> CHR ''e'') (getOpCodes old new) of [] \<Rightarrow> 0 | op # _ \<Rightarrow> J1 op + 1)"
proof -
  let ?ops = "getOpCodes old new"
  let ?c = "if ctx \<le> 0 then 4 else nat ctx"
  let ?r = "diff_loop ?c (length ?ops) 0 old new ?ops 0"
  let ?w = "length (show_nat (max (length old) (length new)))"
  have "GenerateDiff getOpCodes oldC newC ctx =
    \<lparr>Diff_text = unlines (map (fmt_entry ?w) (fst ?r)), FirstChangedLine = snd ?r\<rparr>"
    by (simp add: GenerateDiff_def Let_def old_def new_def split: prod.split)
  with diff_loop_true [OF assms(3), of ?c "length ?ops" 0 0] show ?thesis
    by (intro exI [of _ "fst ?r"] exI [of _ ?w]) (auto simp only: diff_result.simps)
qed

subsection \<open>What the uniqueness check does not see\<close>

text \<open>
  \<open>strings.Count\<close> counts occurrences that do not overlap, so an old text that occurs twice with
  a shared part passes as unique, and the first occurrence is replaced.
\<close>

lemma overlapping_duplicate_accepted:
  assumes "\<And>s. set s \<subseteq> set ''a'' \<Longrightarrow> nfkc s = s"
  shows "applyEditsToNormalized nfkc ''aaa'' [\<lparr>OldText = ''aa'', NewText = ''b''\<rparr>]
    = Inr \<lparr>baseContent = ''aaa'', newContent = ''ba''\<rparr>"
proof -
  have r: "runes ''aa'' = [''a'', ''a'']" "runes ''aaa'' = [''a'', ''a'', ''a'']"
    by (simp_all add: runes.simps(2) rune_width_def byte_in_def)
  have f: "fuzzy_rune ''a'' = ''a''"
    by (simp add: fuzzy_rune_def fuzzy_quotes_def fuzzy_dquotes_def fuzzy_dashes_def fuzzy_spaces_def enc_def)
  have n: "NormalizeForFuzzyMatch nfkc ''aa'' = ''aa''" "NormalizeForFuzzyMatch nfkc ''aaa'' = ''aaa''"
    by (simp_all add: NormalizeForFuzzyMatch_def assms trim_right_def r f Let_def)
  have c: "count_from ''aa'' ''aaa'' = 1"
    by (subst count_from.simps, simp add: has_prefix_def, subst count_from.simps,
        simp add: has_prefix_def count_from.simps)
  have l: "NormalizeToLF ''aa'' = ''aa''" "NormalizeToLF ''b'' = ''b''"
    by (simp_all add: Normalize_absent)
  show ?thesis
    by (simp add: applyEditsToNormalized_def norm_edit_def l needsFuzzy_def FuzzyFind_def
        CountFuzzyOccurrences_def strings_Count_def n c replace_region_def)
qed

end
