(* ===== verification/File_Tools.thy ===== *)
theory File_Tools
  imports Complex_Main Text_Edit Store_Log Message
begin

section \<open>The file tools (\<open>internal/tool\<close>: \<open>read.go\<close>, \<open>write.go\<close>, \<open>edit.go\<close>)\<close>

text \<open>
  The three tools that touch files. The file system is a finite map from paths to contents;
  what the operating system may refuse is an environment (\<open>os_env\<close>): an error per path for
  reads, directory creation and writes, and what a failed write leaves behind. Each tool runs
  its read-modify-write under the lock of its path (theory \<open>File_Lock\<close>), so an operation here is
  one step of the file system.
\<close>

subsection \<open>Paths (\<open>path/filepath\<close> on Unix)\<close>

definition IsAbs :: "string \<Rightarrow> bool" where
  "IsAbs path \<longleftrightarrow> has_prefix path ''/''"

text \<open>The elements of a cleaned path: \<open>out\<close> holds those kept so far, the last first.\<close>

fun clean_elems :: "bool \<Rightarrow> string list \<Rightarrow> string list \<Rightarrow> string list" where
  "clean_elems rooted out [] = rev out"
| "clean_elems rooted out (e # es) =
     (if e = [] \<or> e = ''.'' then clean_elems rooted out es
      else if e = ''..'' then
        (case out of
           o' # os \<Rightarrow> if o' \<noteq> ''..'' then clean_elems rooted os es else clean_elems rooted (e # out) es
         | [] \<Rightarrow> if rooted then clean_elems rooted [] es else clean_elems rooted [e] es)
      else clean_elems rooted (e # out) es)"

definition path_Clean :: "string \<Rightarrow> string" where
  "path_Clean path =
     (let rooted = IsAbs path; es = clean_elems rooted [] (split_on CHR ''/'' path) in
      if rooted then CHR ''/'' # join_with ''/'' es
      else if es = [] then ''.'' else join_with ''/'' es)"

definition path_Join :: "string list \<Rightarrow> string" where
  "path_Join elem =
     (case dropWhile (\<lambda>e. e = []) elem of [] \<Rightarrow> [] | es \<Rightarrow> path_Clean (join_with ''/'' es))"

definition tool_path :: "string \<Rightarrow> string \<Rightarrow> string" where
  "tool_path cwd path = (if IsAbs path then path else path_Join [cwd, path])"

subsection \<open>The operating system\<close>

type_synonym files = "(string, string) fmap"

record os_env =
  read_fault :: "string \<Rightarrow> string option"
  mkdir_fault :: "string \<Rightarrow> string option"
  write_fault :: "string \<Rightarrow> (string \<times> string option) option"

definition os_ReadFile :: "os_env \<Rightarrow> files \<Rightarrow> string \<Rightarrow> string + string" where
  "os_ReadFile env fs path =
     (case read_fault env path of
        Some err \<Rightarrow> Inl err
      | None \<Rightarrow> (case fmlookup fs path of
                   None \<Rightarrow> Inl (''open '' @ path @ '': no such file or directory'')
                 | Some d \<Rightarrow> Inr d))"

text \<open>A failed write may leave the old content, or some other content, behind.\<close>

definition os_WriteFile :: "os_env \<Rightarrow> string \<Rightarrow> string \<Rightarrow> files \<Rightarrow> string option \<times> files" where
  "os_WriteFile env path data fs =
     (case write_fault env path of
        None \<Rightarrow> (None, fmupd path data fs)
      | Some (err, left) \<Rightarrow> (Some err, case left of None \<Rightarrow> fs | Some d \<Rightarrow> fmupd path d fs))"

subsection \<open>Read\<close>

record read_request =
  rr_Path :: string
  rr_Offset :: int
  rr_Limit :: int

record read_result =
  rs_Content :: string
  rs_Truncation :: truncation_result

datatype tool_error = ToolError string | ToolPanic runtime_panic

definition default_opts :: truncation_options where
  "default_opts = \<lparr>MaxLines = 0, MaxBytes = 0\<rparr>"

definition too_big_note :: "nat \<Rightarrow> nat \<Rightarrow> string \<Rightarrow> string" where
  "too_big_note startDisplay lineBytes path =
     ''[Line '' @ show_nat startDisplay @ '' is '' @ FormatSize lineBytes @ '', exceeds ''
     @ FormatSize (nat MaxOutputBytes) @ '' limit. Use bash: sed -n '' @ [CHR 0x27] @ show_nat startDisplay
     @ ''p'' @ [CHR 0x27] @ '' '' @ path @ '' | head -c '' @ show_nat (nat MaxOutputBytes) @ '']''"

definition showing :: "nat \<Rightarrow> nat \<Rightarrow> nat \<Rightarrow> string" where
  "showing a b n = ''[Showing lines '' @ show_nat a @ ''-'' @ show_nat b @ '' of '' @ show_nat n"

definition continue_at :: "nat \<Rightarrow> string" where
  "continue_at offset = '' Use offset='' @ show_nat offset @ '' to continue.]''"

text \<open>The note after the shown lines: lines \<open>s\<close> to \<open>e\<close> (exclusive, from 0) were selected.\<close>

definition read_note :: "truncation_result \<Rightarrow> bool \<Rightarrow> nat \<Rightarrow> nat \<Rightarrow> nat \<Rightarrow> string" where
  "read_note trunc userLimited s e totalLines =
     (let startDisplay = s + 1 in
      if Truncated trunc then
        let endDisplay = startDisplay + OutputLines trunc - 1; nextOffset = endDisplay + 1 in
        if TruncatedBy trunc = TruncatedByLines
        then nl @ nl @ showing startDisplay endDisplay totalLines @ ''.'' @ continue_at nextOffset
        else nl @ nl @ showing startDisplay endDisplay totalLines
             @ '' ('' @ FormatSize (nat MaxOutputBytes) @ '' limit).'' @ continue_at nextOffset
      else if userLimited \<and> e < totalLines then
        nl @ nl @ ''['' @ show_nat (totalLines - e) @ '' more lines in file.'' @ continue_at (e + 1)
      else if \<not> userLimited \<and> e - s > 0 \<and> s > 0 then
        nl @ nl @ showing startDisplay (startDisplay + (e - s) - 1) totalLines @ ''.]''
      else [])"

definition Read :: "os_env \<Rightarrow> files \<Rightarrow> string \<Rightarrow> read_request \<Rightarrow> tool_error + read_result" where
  "Read env fs cwd req =
     (if rr_Path req = [] then Inl (ToolError ''path is required'')
      else case os_ReadFile env fs (tool_path cwd (rr_Path req)) of
        Inl err \<Rightarrow> Inl (ToolError err)
      | Inr content \<Rightarrow>
          let allLines = lines_of content;
              totalLines = length allLines;
              startLine = (if rr_Offset req > 0 then rr_Offset req - 1 else 0)
          in if startLine \<ge> int totalLines then
               Inl (ToolError (''offset '' @ show_int (startLine + 1) @ '' is beyond end of file (''
                    @ show_nat totalLines @ '' lines total)''))
             else
               let userLimited = (rr_Limit req > 0);
                   e0 = wrap64 (startLine + rr_Limit req);
                   endLine = (if userLimited then (if e0 > int totalLines then int totalLines else e0)
                              else int totalLines)
               in if endLine < startLine then Inl (ToolPanic SliceBoundsOutOfRange)
                  else
                    let s = nat startLine; e = nat endLine;
                        trunc = TruncateHead (unlines (slice s e allLines)) default_opts
                    in if FirstLineExceedsLimit trunc then
                         Inr \<lparr>rs_Content = too_big_note (s + 1) (length (allLines ! s)) (rr_Path req),
                              rs_Truncation = trunc\<rparr>
                       else Inr \<lparr>rs_Content = Content trunc @ read_note trunc userLimited s e totalLines,
                                 rs_Truncation = trunc\<rparr>)"

subsection \<open>Following the offsets\<close>

text \<open>
  \<open>shows_lines r ls s k\<close>: the result shows the \<open>k\<close> lines from line \<open>s\<close> on, followed by a note
  that names the next offset just when lines are left.
\<close>

definition shows_lines :: "read_result \<Rightarrow> string list \<Rightarrow> nat \<Rightarrow> nat \<Rightarrow> bool" where
  "shows_lines r ls s k \<longleftrightarrow>
     (\<exists>note. rs_Content r = unlines (take k (drop s ls)) @ note
        \<and> (if s + k < length ls then \<exists>pre. note = pre @ continue_at (s + k + 1)
           else note = [] \<or> note = nl @ nl @ showing (s + 1) (length ls) (length ls) @ ''.]''))"

lemma head_cut_range:
  fixes c opts
  defines "k \<equiv> OutputLines (TruncateHead c opts)"
  shows "k \<le> length (lines_of c)" "length (unlines (take k (lines_of c))) \<le> lim_bytes opts"
proof -
  let ?P = "\<lambda>k. fits take (lim_lines opts) (lim_bytes opts) (lines_of c) k"
  have "finite {k. ?P k}" by (rule finite_subset [of _ "{..lim_lines opts}"]) (auto simp: fits_def)
  moreover have "?P 0" by (simp add: fits_def)
  ultimately have "Max {k. ?P k} \<in> {k. ?P k}" by (intro Max_in) auto
  then have "?P k" using TruncateHead_cut [of c opts] by (simp add: k_def)
  then show "k \<le> length (lines_of c)" "length (unlines (take k (lines_of c))) \<le> lim_bytes opts"
    by (simp_all add: fits_def)
qed

lemma slice_props:
  "length (slice i j xs) = min j (length xs) - i" "set (slice i j xs) \<subseteq> set xs"
  by (auto simp: slice_def dest!: in_set_dropD in_set_takeD)

lemma lines_of_slice:
  assumes "i < j" "j \<le> length (lines_of c)"
  shows "lines_of (unlines (slice i j (lines_of c))) = slice i j (lines_of c)"
proof (rule split_join)
  show "slice i j (lines_of c) \<noteq> []" using assms by (simp add: slice_def)
  show "CHR 0x0A \<notin> set x" if "x \<in> set (slice i j (lines_of c))" for x
    using that slice_props(2) split_on_no_sep by fast
qed

lemma take_slice: "k \<le> length (slice i j xs) \<Longrightarrow> take k (slice i j xs) = take k (drop i xs)"
  by (simp add: slice_def drop_take)

lemma default_lim_bytes [simp]: "lim_bytes default_opts = nat MaxOutputBytes"
  by (simp add: lim_bytes_def withDefaults_def default_opts_def MaxOutputBytes_def MaxOutputLines_def Let_def)

lemma read_note_next:
  assumes "s < e" "e \<le> n" "k \<le> e - s" "k = OutputLines trunc" "Truncated trunc = (k < e - s)"
    "\<not> userLimited \<longrightarrow> e = n"
  shows "if s + k < n then \<exists>pre. read_note trunc userLimited s e n = pre @ continue_at (s + k + 1)
    else read_note trunc userLimited s e n = []
      \<or> read_note trunc userLimited s e n = nl @ nl @ showing (s + 1) n n @ ''.]''"
proof (cases "k < e - s")
  case True
  then have "s + k < n" using assms(2) by simp
  moreover have "\<exists>pre. read_note trunc userLimited s e n = pre @ continue_at (s + k + 1)"
    using True assms(4,5)
    by (cases "TruncatedBy trunc = TruncatedByLines") (simp_all add: read_note_def Let_def append_assoc [symmetric] del: append_assoc)
  ultimately show ?thesis by simp
next
  case False
  then have e: "e = s + k" "\<not> Truncated trunc" using assms(1,3,5) by auto
  then show ?thesis using assms(1,2,6)
    by (cases "s + k < n") (auto simp: read_note_def Let_def append_assoc [symmetric] simp del: append_assoc)
qed

text \<open>One read from line \<open>s\<close> of a readable file, its first line within the byte limit.\<close>

lemma Read_shows:
  fixes content req
  defines "ls \<equiv> lines_of content" and "s \<equiv> nat (if rr_Offset req > 0 then rr_Offset req - 1 else 0)"
  assumes path: "rr_Path req \<noteq> []" "os_ReadFile env fs (tool_path cwd (rr_Path req)) = Inr content"
    and s: "s < length ls" and fits: "length (ls ! s) \<le> nat MaxOutputBytes"
    and small: "int s + rr_Limit req < 2 ^ 63"
  shows "\<exists>r k. Read env fs cwd req = Inr r \<and> k > 0 \<and> s + k \<le> length ls \<and> shows_lines r ls s k"
proof -
  let ?lim = "rr_Limit req"
  define e where "e = (if ?lim > 0 then min (length ls) (s + nat ?lim) else length ls)"
  have e: "s < e" "e \<le> length ls" using s by (auto simp: e_def)
  define sel where "sel = slice s e ls"
  define trunc where "trunc = TruncateHead (unlines sel) default_opts"
  define k where "k = OutputLines trunc"
  have sel: "lines_of (unlines sel) = sel" "length sel = e - s" "hd sel = ls ! s"
    using lines_of_slice [of s e content] e
    by (simp_all add: sel_def ls_def slice_props slice_def hd_drop_conv_nth)
  have T: "Content trunc = unlines (take k sel)" "Truncated trunc = (k < e - s)"
    "FirstLineExceedsLimit trunc = False" "FirstLineExceedsLimit trunc = (k = 0)"
    using TruncateHead_cut [of "unlines sel" default_opts] fits
    by (auto simp add: trunc_def k_def sel)
  have k: "k \<le> e - s" using head_cut_range(1) [of "unlines sel" default_opts] by (simp add: sel k_def trunc_def)
  have shown: "Content trunc = unlines (take k (drop s ls))"
    using T(1) k by (simp add: sel_def take_slice sel(2) [unfolded sel_def])
  have wr: "wrap64 (int s + ?lim) = int s + ?lim" if "?lim > 0"
    by (rule wrap64_id) (use small that in auto)
  let ?so = "if rr_Offset req > 0 then rr_Offset req - 1 else 0"
  have so: "?so = int s" by (simp add: s_def)
  have "Read env fs cwd req = Inr \<lparr>rs_Content = Content trunc @ read_note trunc (?lim > 0) s e (length ls), rs_Truncation = trunc\<rparr>"
  proof -
    have e0: "(if ?lim > 0 then (if wrap64 (int s + ?lim) > int (length ls) then int (length ls) else wrap64 (int s + ?lim)) else int (length ls)) = int e"
      using wr by (auto simp: e_def min_def)
    show ?thesis
      unfolding Read_def path(2) sum.case Let_def so ls_def [symmetric] e0
      using path(1) s e T(3) by (simp add: sel_def [symmetric] trunc_def [symmetric])
  qed
  moreover have "shows_lines \<lparr>rs_Content = Content trunc @ read_note trunc (?lim > 0) s e (length ls), rs_Truncation = trunc\<rparr> ls s k"
    unfolding shows_lines_def
  proof (intro exI conjI)
    show "rs_Content \<lparr>rs_Content = Content trunc @ read_note trunc (?lim > 0) s e (length ls), rs_Truncation = trunc\<rparr>
      = unlines (take k (drop s ls)) @ read_note trunc (?lim > 0) s e (length ls)" by (simp add: shown)
    have "\<not> ?lim > 0 \<longrightarrow> e = length ls" by (simp add: e_def)
    from read_note_next [OF e k k_def T(2) this]
    show "if s + k < length ls then \<exists>pre. read_note trunc (?lim > 0) s e (length ls) = pre @ continue_at (s + k + 1)
      else read_note trunc (?lim > 0) s e (length ls) = []
        \<or> read_note trunc (?lim > 0) s e (length ls) = nl @ nl @ showing (s + 1) (length ls) (length ls) @ ''.]''" .
  qed
  ultimately show ?thesis using T(3,4) k e by (intro exI conjI) auto
qed

definition read_req :: "string \<Rightarrow> nat \<Rightarrow> int \<Rightarrow> read_request" where
  "read_req path offset limit = \<lparr>rr_Path = path, rr_Offset = int offset, rr_Limit = limit\<rparr>"

lemma Read_pages:
  assumes path: "path \<noteq> []" "os_ReadFile env fs (tool_path cwd path) = Inr content"
    and fits: "\<forall>l \<in> set (lines_of content). length l \<le> nat MaxOutputBytes"
    and small: "int (length (lines_of content)) + limit < 2 ^ 63"
    and "s \<le> length (lines_of content)"
  shows "\<exists>ks. s + sum_list ks = length (lines_of content) \<and> (\<forall>k \<in> set ks. k > 0)
    \<and> (\<forall>i < length ks. \<exists>r. Read env fs cwd (read_req path (s + sum_list (take i ks) + 1) limit) = Inr r
        \<and> shows_lines r (lines_of content) (s + sum_list (take i ks)) (ks ! i))"
  using assms(5)
proof (induction "length (lines_of content) - s" arbitrary: s rule: less_induct)
  case less
  let ?ls = "lines_of content"
  show ?case
  proof (cases "s = length ?ls")
    case True
    then show ?thesis by (intro exI [of _ "[]"]) simp
  next
    case False
    with less.prems have s: "s < length ?ls" by simp
    from Read_shows [of "read_req path (s + 1) limit" env fs cwd content] path s fits small
    obtain r k where r: "Read env fs cwd (read_req path (s + 1) limit) = Inr r" "k > 0"
      "s + k \<le> length ?ls" "shows_lines r ?ls s k"
      by (auto simp: read_req_def)
    have "length ?ls - (s + k) < length ?ls - s" using r(2) s by simp
    from less.hyps [OF this r(3)] obtain ks where ks: "s + k + sum_list ks = length ?ls" "\<forall>k \<in> set ks. k > 0"
      and rest: "\<forall>i < length ks. \<exists>r. Read env fs cwd (read_req path (s + k + sum_list (take i ks) + 1) limit) = Inr r
        \<and> shows_lines r ?ls (s + k + sum_list (take i ks)) (ks ! i)"
      by auto
    have "\<exists>r. Read env fs cwd (read_req path (s + sum_list (take i (k # ks)) + 1) limit) = Inr r
        \<and> shows_lines r ?ls (s + sum_list (take i (k # ks))) ((k # ks) ! i)" if "i < length (k # ks)" for i
      using that r(1,4) rest by (cases i) (auto simp: add.assoc)
    then show ?thesis using ks r(2) by (intro exI [of _ "k # ks"]) (simp add: add.assoc)
  qed
qed


definition calm_os :: os_env where
  "calm_os = \<lparr>read_fault = \<lambda>_. None, mkdir_fault = \<lambda>_. None, write_fault = \<lambda>_. None\<rparr>"


text \<open>
  The end of the window is computed in 64-bit arithmetic: a limit near the largest integer,
  together with an offset that is valid for the file, wraps to a negative end and the slice
  expression panics.
\<close>

lemma Read_limit_overflow:
  assumes "path \<noteq> []" "os_ReadFile env fs (tool_path cwd path) = Inr content"
    and "2 \<le> offset" "offset \<le> length (lines_of content)" "length (lines_of content) < 2 ^ 62"
  shows "Read env fs cwd (read_req path offset (2 ^ 63 - 1)) = Inl (ToolPanic SliceBoundsOutOfRange)"
proof -
  have "wrap64 (int offset - 1 + (2 ^ 63 - 1)) < 0"
  proof -
    have "int offset < 2 ^ 62" using assms(4,5) by (metis of_nat_less_iff of_nat_numeral of_nat_power order.strict_trans1)
    moreover obtain m where "offset = m + 2" using assms(3) by (metis add.commute le_Suc_ex)
    ultimately show ?thesis
      using mod_add_self1 [of "2 ^ 64" "int m"] by (simp add: wrap64_def algebra_simps)
  qed
  then show ?thesis using assms by (simp add: Read_def read_req_def Let_def)
qed

subsection \<open>Write\<close>

record write_result =
  wr_Path :: string
  BytesWritten :: nat

definition Write :: "os_env \<Rightarrow> string \<Rightarrow> string \<Rightarrow> string \<Rightarrow> files \<Rightarrow> (string + write_result) \<times> files" where
  "Write env cwd path0 content fs =
     (if path0 = [] then (Inl ''path is required'', fs)
      else let path = tool_path cwd path0 in
        case mkdir_fault env path of
          Some err \<Rightarrow> (Inl err, fs)
        | None \<Rightarrow>
            (case os_WriteFile env path content fs of
               (Some err, fs') \<Rightarrow> (Inl err, fs')
             | (None, fs') \<Rightarrow> (Inr \<lparr>wr_Path = path, BytesWritten = length content\<rparr>, fs')))"

subsection \<open>Edit\<close>

record edit_request =
  er_Path :: string
  er_Edits :: "edit_op list"

record edit_result =
  es_Path :: string
  EditsApplied :: nat
  es_Diff :: string
  es_FirstChangedLine :: nat

definition Edit ::
  "(string \<Rightarrow> string) \<Rightarrow> (string list \<Rightarrow> string list \<Rightarrow> opcode list) \<Rightarrow> os_env \<Rightarrow> string \<Rightarrow>
   edit_request \<Rightarrow> files \<Rightarrow> (string + edit_result) \<times> files" where
  "Edit nfkc getOpCodes env cwd req fs =
     (if er_Path req = [] then (Inl ''path is required'', fs)
      else if length (er_Edits req) = 0 then (Inl ''edits must contain at least one replacement'', fs)
      else let path = tool_path cwd (er_Path req) in
        case os_ReadFile env fs path of
          Inl err \<Rightarrow> (Inl err, fs)
        | Inr raw \<Rightarrow>
            let (bom, stripped) = StripBOM raw;
                ending = DetectLineEnding stripped;
                normalized = NormalizeToLF stripped
            in case applyEditsToNormalized nfkc normalized (er_Edits req) of
                 Inl err \<Rightarrow> (Inl (edit_message (er_Path req) err), fs)
               | Inr applied \<Rightarrow>
                   let final = bom @ RestoreLineEndings (newContent applied) ending in
                   (case os_WriteFile env path final fs of
                      (Some err, fs') \<Rightarrow> (Inl err, fs')
                    | (None, fs') \<Rightarrow>
                        let diff = GenerateDiff getOpCodes (baseContent applied) (newContent applied) 4 in
                        (Inr \<lparr>es_Path = path, EditsApplied = length (er_Edits req),
                             es_Diff = Diff_text diff, es_FirstChangedLine = FirstChangedLine diff\<rparr>, fs')))"

subsection \<open>An edit changes the named file only, and there only the matched text\<close>

lemma StripBOM_append: "StripBOM raw = (bom, stripped) \<Longrightarrow> raw = bom @ stripped"
  by (auto simp: StripBOM_def has_prefix_def prefix_def split: if_splits)

lemma Edit_Inr:
  assumes "Edit nfkc ops env cwd req fs = (Inr res, fs')"
  shows "\<exists>raw applied. os_ReadFile env fs (tool_path cwd (er_Path req)) = Inr raw
    \<and> applyEditsToNormalized nfkc (NormalizeToLF (snd (StripBOM raw))) (er_Edits req) = Inr applied
    \<and> es_Path res = tool_path cwd (er_Path req)
    \<and> fs' = fmupd (tool_path cwd (er_Path req))
        (fst (StripBOM raw) @ RestoreLineEndings (newContent applied) (DetectLineEnding (snd (StripBOM raw)))) fs"
  using assms
  by (auto simp: Edit_def Let_def os_WriteFile_def split: if_splits sum.splits option.splits prod.splits)

text \<open>
  C17: A successful edit of a file with uniform line endings whose old texts occur literally: the
  bytes before and after agree except that each old text, in the file's own line endings, gives
  way to its new text in the same endings; byte order mark and gaps are kept byte for byte and
  no other file changes.
\<close>

theorem Edit_keeps_the_rest:
  assumes ok: "Edit nfkc ops env cwd req fs = (Inr res, fs')"
    and raw: "os_ReadFile env fs (tool_path cwd (er_Path req)) = Inr raw"
    and uniform: "uniform_endings (snd (StripBOM raw))"
    and literal: "\<not> needsFuzzy nfkc (NormalizeToLF (snd (StripBOM raw))) (map norm_edit (er_Edits req))"
  shows "\<exists>gaps es end. mset es = mset (map norm_edit (er_Edits req)) \<and> length gaps = Suc (length es)
    \<and> raw = fst (StripBOM raw) @ weave gaps (map (\<lambda>e. RestoreLineEndings (OldText e) end) es)
    \<and> fs' = fmupd (es_Path res)
        (fst (StripBOM raw) @ weave gaps (map (\<lambda>e. RestoreLineEndings (NewText e) end) es)) fs"
proof -
  obtain bom st where b: "StripBOM raw = (bom, st)" by (cases "StripBOM raw")
  define le where "le = DetectLineEnding st"
  let ?R = "\<lambda>t. RestoreLineEndings t le"
  from Edit_Inr [OF ok] raw obtain applied
    where a: "applyEditsToNormalized nfkc (NormalizeToLF st) (er_Edits req) = Inr applied"
      and p: "es_Path res = tool_path cwd (er_Path req)"
      and f: "fs' = fmupd (tool_path cwd (er_Path req)) (bom @ ?R (newContent applied)) fs"
    by (auto simp: b le_def)
  from edits_weave [OF a] literal obtain gaps es
    where w: "mset es = mset (map norm_edit (er_Edits req))" "length gaps = Suc (length es)"
      "NormalizeToLF st = weave gaps (map OldText es)" "newContent applied = weave gaps (map NewText es)"
    by (auto simp: b)
  have "st = ?R (NormalizeToLF st)" using Restore_detected uniform by (simp add: b le_def)
  also have "\<dots> = weave (map ?R gaps) (map (\<lambda>e. ?R (OldText e)) es)"
    by (simp add: w(2,3) Restore_weave o_def)
  finally have r1: "raw = bom @ weave (map ?R gaps) (map (\<lambda>e. ?R (OldText e)) es)"
    using StripBOM_append [OF b] by simp
  have r2: "?R (newContent applied) = weave (map ?R gaps) (map (\<lambda>e. ?R (NewText e)) es)"
    by (simp add: w(2,4) Restore_weave o_def)
  show ?thesis unfolding b fst_conv
    by (intro exI [of _ "map ?R gaps"] exI [of _ es] exI [of _ le] conjI)
      (simp_all only: w(1,2) length_map f p r2 r1 [symmetric])
qed

definition one_edit :: edit_request where
  "one_edit = \<lparr>er_Path = ''/f'', er_Edits = [\<lparr>OldText = ''b'', NewText = ''c''\<rparr>]\<rparr>"

definition one_file :: files where
  "one_file = fmupd ''/f'' ''ab'' fmempty"

lemma one_edit_runs:
  "applyEditsToNormalized (\<lambda>s. s) ''ab'' (er_Edits one_edit) = Inr \<lparr>baseContent = ''ab'', newContent = ''ac''\<rparr>"
  "os_ReadFile calm_os one_file (tool_path ''/'' (er_Path one_edit)) = Inr ''ab''"
  "StripBOM ''ab'' = ([], ''ab'')" "NormalizeToLF ''ab'' = ''ab''"
  "\<not> needsFuzzy (\<lambda>s. s) ''ab'' (map norm_edit (er_Edits one_edit))"
proof -
  have r: "runes ''ab'' = [''a'', ''b'']" "runes ''b'' = [''b'']"
    by (simp_all add: runes.simps(2) rune_width_def byte_in_def)
  have f: "fuzzy_rune ''a'' = ''a''" "fuzzy_rune ''b'' = ''b''"
    by (simp_all add: fuzzy_rune_def fuzzy_quotes_def fuzzy_dquotes_def fuzzy_dashes_def fuzzy_spaces_def enc_def)
  have n: "NormalizeForFuzzyMatch (\<lambda>s. s) ''ab'' = ''ab''" "NormalizeForFuzzyMatch (\<lambda>s. s) ''b'' = ''b''"
    by (simp_all add: NormalizeForFuzzyMatch_def trim_right_def r f Let_def)
  have c: "count_from ''b'' ''ab'' = 1"
    by (subst count_from.simps, simp add: has_prefix_def, subst count_from.simps,
        simp add: has_prefix_def count_from.simps)
  have l: "NormalizeToLF ''b'' = ''b''" "NormalizeToLF ''c'' = ''c''"
    by (simp_all add: Normalize_absent)
  show "NormalizeToLF ''ab'' = ''ab''" by (simp add: Normalize_absent)
  show nf: "\<not> needsFuzzy (\<lambda>s. s) ''ab'' (map norm_edit (er_Edits one_edit))"
    by (simp add: one_edit_def norm_edit_def l needsFuzzy_def FuzzyFind_def)
  show "applyEditsToNormalized (\<lambda>s. s) ''ab'' (er_Edits one_edit) = Inr \<lparr>baseContent = ''ab'', newContent = ''ac''\<rparr>"
    by (simp add: one_edit_def applyEditsToNormalized_def norm_edit_def l needsFuzzy_def FuzzyFind_def
        CountFuzzyOccurrences_def strings_Count_def n c replace_region_def)
  show "os_ReadFile calm_os one_file (tool_path ''/'' (er_Path one_edit)) = Inr ''ab''"
    by (simp add: os_ReadFile_def calm_os_def tool_path_def IsAbs_def has_prefix_def one_file_def one_edit_def)
  show "StripBOM ''ab'' = ([], ''ab'')" by (simp add: StripBOM_def utf8BOM_def has_prefix_def)
qed

theorem Edit_keeps_the_rest_witness:
  "\<exists>fs' gaps (es :: edit_op list) end. snd (Edit (\<lambda>s. s) (\<lambda>_ _. []) calm_os ''/'' one_edit one_file) = fs'
    \<and> ''ab'' = [] @ weave gaps (map (\<lambda>e. RestoreLineEndings (OldText e) end) es)
    \<and> fs' = fmupd ''/f'' ([] @ weave gaps (map (\<lambda>e. RestoreLineEndings (NewText e) end) es)) one_file"
proof -
  have p: "tool_path ''/'' (er_Path one_edit) = ''/f''"
    by (simp add: one_edit_def tool_path_def IsAbs_def has_prefix_def)
  have w: "os_WriteFile calm_os q d fs = (None, fmupd q d fs)" for q d fs
    by (simp add: os_WriteFile_def calm_os_def)
  have ne: "er_Path one_edit \<noteq> []" "er_Edits one_edit \<noteq> []" by (simp_all add: one_edit_def)
  obtain res fs' where ok: "Edit (\<lambda>s. s) (\<lambda>_ _. []) calm_os ''/'' one_edit one_file = (Inr res, fs')"
    and rp: "es_Path res = ''/f''"
    using one_edit_runs(2) by (simp add: Edit_def one_edit_runs(1,3,4) ne w p Let_def)
  have "uniform_endings (snd (StripBOM ''ab''))" by (simp add: one_edit_runs uniform_endings_def)
  from Edit_keeps_the_rest [OF ok one_edit_runs(2) this, unfolded one_edit_runs(3) snd_conv fst_conv one_edit_runs(4),
      OF one_edit_runs(5)]
  show ?thesis unfolding ok snd_conv rp by blast
qed

text \<open>
  What an edit may do to the files on any path through it: no file other than the named one
  changes, and that one changes only when the write ran, a refused edit leaves it as it was.
\<close>

lemma Edit_frame:
  fixes env nfkc ops cwd req fs
  defines "out \<equiv> Edit nfkc ops env cwd req fs" and "path \<equiv> tool_path cwd (er_Path req)"
  shows "fmdrop path (snd out) = fmdrop path fs"
    and "write_fault env path = None \<Longrightarrow> fst out = Inl err \<Longrightarrow> snd out = fs"
  by (auto simp: out_def path_def Edit_def Let_def os_WriteFile_def
      split: if_splits sum.splits option.splits prod.splits intro: fmap_ext)

subsection \<open>The calls of the model\<close>

text \<open>
  \<open>Execute\<close> of the three tools: the arguments as decoded JSON (\<open>float_of\<close> reads the text of a
  number as a \<open>float64\<close>, \<open>int_of_float\<close> is the conversion \<open>int(x)\<close>), the result as content
  blocks.
\<close>

definition str_arg :: "(string \<times> json) list \<Rightarrow> string \<Rightarrow> string" where
  "str_arg args key = (case map_of args key of Some (JStr s) \<Rightarrow> s | _ \<Rightarrow> [])"

definition pos_arg :: "(string \<Rightarrow> rat) \<Rightarrow> (rat \<Rightarrow> int) \<Rightarrow> (string \<times> json) list \<Rightarrow> string \<Rightarrow> int" where
  "pos_arg float_of int_of_float args key =
     (case map_of args key of
        Some (JNum t) \<Rightarrow> if float_of t > 0 then int_of_float (float_of t) else 0
      | _ \<Rightarrow> 0)"

text \<open>
  \<open>detectImageMIME\<close> asks \<open>http.DetectContentType\<close> for the first 512 bytes; the four image
  types are recognised by these signatures.
\<close>

definition byte_string :: "nat list \<Rightarrow> string" where
  "byte_string = map char_of"

definition DetectImage :: "string \<Rightarrow> string option" where
  "DetectImage buf =
     (if has_prefix buf ''GIF87a'' \<or> has_prefix buf ''GIF89a'' then Some ''image/gif''
      else if length buf \<ge> 14 \<and> has_prefix buf ''RIFF'' \<and> has_prefix (drop 8 buf) ''WEBPVP'' then Some ''image/webp''
      else if has_prefix buf (byte_string [0x89, 0x50, 0x4E, 0x47, 0x0D, 0x0A, 0x1A, 0x0A]) then Some ''image/png''
      else if has_prefix buf (byte_string [0xFF, 0xD8, 0xFF]) then Some ''image/jpeg''
      else None)"

definition detectImageMIME :: "os_env \<Rightarrow> files \<Rightarrow> string \<Rightarrow> string option" where
  "detectImageMIME env fs path =
     (case os_ReadFile env fs path of
        Inl _ \<Rightarrow> None
      | Inr d \<Rightarrow> let buf = take 512 d in if buf = [] then None else DetectImage buf)"

definition b64 :: "nat \<Rightarrow> char" where
  "b64 i = ''ABCDEFGHIJKLMNOPQRSTUVWXYZabcdefghijklmnopqrstuvwxyz0123456789+/'' ! i"

fun base64 :: "string \<Rightarrow> string" where
  "base64 (a # b # c # rest) =
     (let x = of_char a :: nat; y = of_char b; z = of_char c in
      [b64 (x div 4), b64 (x mod 4 * 16 + y div 16), b64 (y mod 16 * 4 + z div 64), b64 (z mod 64)] @ base64 rest)"
| "base64 [a, b] =
     (let x = of_char a :: nat; y = of_char b in
      [b64 (x div 4), b64 (x mod 4 * 16 + y div 16), b64 (y mod 16 * 4), CHR ''=''])"
| "base64 [a] = (let x = of_char a :: nat in [b64 (x div 4), b64 (x mod 4 * 16), CHR ''='', CHR ''=''])"
| "base64 [] = []"

definition path_Base :: "string \<Rightarrow> string" where
  "path_Base path =
     (if path = [] then ''.''
      else let p = trim_right ''/'' path in if p = [] then ''/'' else last (split_on CHR ''/'' p))"

definition Read_Execute ::
  "(string \<Rightarrow> rat) \<Rightarrow> (rat \<Rightarrow> int) \<Rightarrow> os_env \<Rightarrow> files \<Rightarrow> string \<Rightarrow> (string \<times> json) list \<Rightarrow> tool_error + content list" where
  "Read_Execute float_of int_of_float env fs cwd args =
     (let path = str_arg args ''path'' in
      if path = [] then Inl (ToolError ''path is required'')
      else let absPath = tool_path cwd path in
        case detectImageMIME env fs absPath of
          Some mimeType \<Rightarrow>
            (case os_ReadFile env fs absPath of
               Inl err \<Rightarrow> Inl (ToolError err)
             | Inr data \<Rightarrow>
                 Inr [TextContent (''[Image: '' @ path_Base absPath @ '' ('' @ mimeType @ '', '' @ FormatSize (length data) @ '')]''),
                      ImageContent mimeType (base64 data)])
        | None \<Rightarrow>
            (case Read env fs cwd \<lparr>rr_Path = path, rr_Offset = pos_arg float_of int_of_float args ''offset'',
                                   rr_Limit = pos_arg float_of int_of_float args ''limit''\<rparr> of
               Inl err \<Rightarrow> Inl err
             | Inr res \<Rightarrow> Inr [TextContent (rs_Content res)]))"

definition Write_Execute ::
  "os_env \<Rightarrow> string \<Rightarrow> (string \<times> json) list \<Rightarrow> files \<Rightarrow> (string + content list) \<times> files" where
  "Write_Execute env cwd args fs =
     (case Write env cwd (str_arg args ''path'') (str_arg args ''content'') fs of
        (Inl err, fs') \<Rightarrow> (Inl err, fs')
      | (Inr res, fs') \<Rightarrow>
          (Inr [TextContent (''Wrote '' @ show_nat (BytesWritten res) @ '' bytes to '' @ wr_Path res)], fs'))"

fun parse_edits :: "nat \<Rightarrow> json list \<Rightarrow> string + edit_op list" where
  "parse_edits i [] = Inr []"
| "parse_edits i (JObj m # items) =
     (case parse_edits (i + 1) items of
        Inl err \<Rightarrow> Inl err
      | Inr r \<Rightarrow> Inr (\<lparr>OldText = str_arg m ''old_text'', NewText = str_arg m ''new_text''\<rparr> # r))"
| "parse_edits i (_ # items) = Inl (''edits['' @ show_nat i @ ''] must be an object'')"

definition parseEditArgs :: "(string \<times> json) list \<Rightarrow> string + edit_request" where
  "parseEditArgs args =
     (let path = str_arg args ''path'' in
      if path = [] then Inl ''path is required''
      else case map_of args ''edits'' of
        Some (JArr rawEdits) \<Rightarrow>
          if length rawEdits = 0 then Inl ''edits must contain at least one replacement''
          else (case parse_edits 0 rawEdits of
                  Inl err \<Rightarrow> Inl err
                | Inr edits \<Rightarrow> Inr \<lparr>er_Path = path, er_Edits = edits\<rparr>)
      | _ \<Rightarrow> Inl ''edits must be an array'')"

definition Edit_Execute ::
  "(string \<Rightarrow> string) \<Rightarrow> (string list \<Rightarrow> string list \<Rightarrow> opcode list) \<Rightarrow> os_env \<Rightarrow> string \<Rightarrow>
   (string \<times> json) list \<Rightarrow> files \<Rightarrow> (string + content list) \<times> files" where
  "Edit_Execute nfkc getOpCodes env cwd args fs =
     (case parseEditArgs args of
        Inl err \<Rightarrow> (Inl err, fs)
      | Inr req \<Rightarrow>
          (case Edit nfkc getOpCodes env cwd req fs of
             (Inl err, fs') \<Rightarrow> (Inl err, fs')
           | (Inr res, fs') \<Rightarrow>
               (Inr [TextContent
                 (''Successfully applied '' @ show_nat (EditsApplied res) @ '' edit(s) to '' @ es_Path res
                  @ (if es_Diff res \<noteq> [] then nl @ nl @ es_Diff res else []))], fs')))"

text \<open>What a written file then reads as, with the same arguments: the bytes that were written.\<close>

lemma Write_then_read:
  assumes "Write env cwd path content fs = (Inr res, fs')" "read_fault env (wr_Path res) = None"
  shows "os_ReadFile env fs' (tool_path cwd path) = Inr content \<and> BytesWritten res = length content"
  using assms
  by (auto simp: Write_def os_WriteFile_def os_ReadFile_def Let_def split: if_splits option.splits prod.splits)

end
