(* ===== verification/File_Lock.thy ===== *)
theory File_Lock
  imports File_Tools
begin

section \<open>Per-path serialization (\<open>internal/tool/filelock.go\<close>)\<close>

text \<open>
  \<open>WithFileMutex\<close> runs a function under a mutex that belongs to the cleaned path. The table of
  mutexes is global; an entry is created by the first goroutine that asks for a path and deleted
  by the last one that releases it, so over time a path has several mutex objects. The model is
  a step relation over goroutines: each critical section of \<open>fileLocksMu\<close> and each operation on
  a mutex object is one step. The invariant shows that at any time all goroutines that hold or
  wait for a path use the same mutex object, which gives mutual exclusion, that no entry is ever
  left behind, and that a waiting goroutine is never stuck.
\<close>

text \<open>\<open>fileLockKey\<close>: \<open>getwd\<close> is the working directory that \<open>filepath.Abs\<close> uses, if it is known.\<close>

definition fileLockKey :: "string option \<Rightarrow> string \<Rightarrow> string" where
  "fileLockKey getwd path =
     path_Clean (if IsAbs path then path
                 else case getwd of Some wd \<Rightarrow> path_Join [wd, path] | None \<Rightarrow> path)"

subsection \<open>Mutex objects and goroutines\<close>

type_synonym mutex_id = nat

record file_mutex =
  locked :: bool
  refCount :: nat

datatype lock_pc =
    Outside
  | Waiting string mutex_id
  | Inside string mutex_id
  | Unlocked string mutex_id

record lock_state =
  fileLocks :: "string \<Rightarrow> mutex_id option"
  mutexes :: "mutex_id \<Rightarrow> file_mutex"
  nextMutex :: mutex_id
  pcs :: "nat \<Rightarrow> lock_pc"

definition lock_init :: lock_state where
  "lock_init = \<lparr>fileLocks = \<lambda>_. None, mutexes = \<lambda>_. \<lparr>locked = False, refCount = 0\<rparr>,
     nextMutex = 0, pcs = \<lambda>_. Outside\<rparr>"

definition set_pc :: "nat \<Rightarrow> lock_pc \<Rightarrow> lock_state \<Rightarrow> lock_state" where
  "set_pc t p s = s\<lparr>pcs := (pcs s)(t := p)\<rparr>"

definition upd_mutex :: "mutex_id \<Rightarrow> (file_mutex \<Rightarrow> file_mutex) \<Rightarrow> lock_state \<Rightarrow> lock_state" where
  "upd_mutex m f s = s\<lparr>mutexes := (mutexes s)(m := f (mutexes s m))\<rparr>"

text \<open>The first half of \<open>acquireFileMutex\<close>, under \<open>fileLocksMu\<close>: find or create, and count.\<close>

definition acquire_enter :: "nat \<Rightarrow> string \<Rightarrow> lock_state \<Rightarrow> lock_state" where
  "acquire_enter t key s =
     (case fileLocks s key of
        Some m \<Rightarrow> set_pc t (Waiting key m) (upd_mutex m (\<lambda>f. f\<lparr>refCount := refCount f + 1\<rparr>) s)
      | None \<Rightarrow>
          let m = nextMutex s in
          set_pc t (Waiting key m)
            (s\<lparr>fileLocks := (fileLocks s)(key \<mapsto> m), nextMutex := m + 1,
               mutexes := (mutexes s)(m := \<lparr>locked = False, refCount = 1\<rparr>)\<rparr>))"

text \<open>The second half of \<open>releaseFileMutex\<close>, under \<open>fileLocksMu\<close>.\<close>

definition release_leave :: "nat \<Rightarrow> string \<Rightarrow> mutex_id \<Rightarrow> lock_state \<Rightarrow> lock_state" where
  "release_leave t key m s =
     (let s1 = upd_mutex m (\<lambda>f. f\<lparr>refCount := refCount f - 1\<rparr>) s;
          s2 = (if refCount (mutexes s1 m) = 0 then s1\<lparr>fileLocks := (fileLocks s1)(key := None)\<rparr> else s1)
      in set_pc t Outside s2)"

inductive lock_step :: "lock_state \<Rightarrow> lock_state \<Rightarrow> bool" where
  enter: "pcs s t = Outside \<Longrightarrow> lock_step s (acquire_enter t key s)"
| lock: "pcs s t = Waiting key m \<Longrightarrow> \<not> locked (mutexes s m) \<Longrightarrow>
    lock_step s (set_pc t (Inside key m) (upd_mutex m (\<lambda>f. f\<lparr>locked := True\<rparr>) s))"
| unlock: "pcs s t = Inside key m \<Longrightarrow>
    lock_step s (set_pc t (Unlocked key m) (upd_mutex m (\<lambda>f. f\<lparr>locked := False\<rparr>) s))"
| leave: "pcs s t = Unlocked key m \<Longrightarrow> lock_step s (release_leave t key m s)"

inductive_cases lock_stepE: "lock_step s s'"

inductive lock_reachable :: "lock_state \<Rightarrow> bool" where
  start: "lock_reachable lock_init"
| step: "lock_reachable s \<Longrightarrow> lock_step s s' \<Longrightarrow> lock_reachable s'"

subsection \<open>The invariant\<close>

text \<open>The key and the mutex object a goroutine is using.\<close>

fun uses :: "lock_pc \<Rightarrow> (string \<times> mutex_id) option" where
  "uses Outside = None"
| "uses (Waiting k m) = Some (k, m)"
| "uses (Inside k m) = Some (k, m)"
| "uses (Unlocked k m) = Some (k, m)"

definition users :: "lock_state \<Rightarrow> mutex_id \<Rightarrow> nat set" where
  "users s m = {t. \<exists>k. uses (pcs s t) = Some (k, m)}"

definition holders :: "lock_state \<Rightarrow> mutex_id \<Rightarrow> nat set" where
  "holders s m = {t. \<exists>k. pcs s t = Inside k m}"

text \<open>A mutex object is locked by exactly one goroutine, or free.\<close>

definition held_ok :: "nat set \<Rightarrow> bool \<Rightarrow> bool \<Rightarrow> bool" where
  "held_ok H l allocated \<longleftrightarrow> (\<exists>t. H = {t}) \<and> l \<or> H = {} \<and> (allocated \<longrightarrow> \<not> l)"

definition lock_inv :: "lock_state \<Rightarrow> bool" where
  "lock_inv s \<longleftrightarrow>
     (\<forall>t k m. uses (pcs s t) = Some (k, m) \<longrightarrow> fileLocks s k = Some m)
     \<and> (\<forall>k m. fileLocks s k = Some m \<longrightarrow> m < nextMutex s \<and> users s m \<noteq> {})
     \<and> (\<forall>k k' m. fileLocks s k = Some m \<and> fileLocks s k' = Some m \<longrightarrow> k = k')
     \<and> (\<forall>m. finite (users s m) \<and> (m < nextMutex s \<longrightarrow> refCount (mutexes s m) = card (users s m)))
     \<and> (\<forall>m. held_ok (holders s m) (locked (mutexes s m)) (m < nextMutex s))"

lemma held_ok_simps [simp]: "held_ok {t} True b" "held_ok {} False b" "held_ok {t} False b \<longleftrightarrow> False"
  by (auto simp: held_ok_def)

lemma held_ok_cases: "held_ok H l True \<Longrightarrow> H = {} \<and> \<not> l \<or> (\<exists>t. H = {t}) \<and> l"
  by (auto simp: held_ok_def)

lemma users_set_pc:
  "users (set_pc t p s) m =
     (if \<exists>k. uses p = Some (k, m) then insert t (users s m) else users s m - {t})"
  by (auto simp: users_def set_pc_def)

lemma holders_set_pc:
  "holders (set_pc t p s) m = (if \<exists>k. p = Inside k m then insert t (holders s m) else holders s m - {t})"
  by (auto simp: holders_def set_pc_def)

lemma users_frame [simp]:
  "users (upd_mutex m f s) = users s" "users (s\<lparr>fileLocks := L\<rparr>) = users s"
  "users (s\<lparr>nextMutex := n\<rparr>) = users s" "users (s\<lparr>mutexes := M\<rparr>) = users s"
  "holders (upd_mutex m f s) = holders s" "holders (s\<lparr>fileLocks := L\<rparr>) = holders s"
  "holders (s\<lparr>nextMutex := n\<rparr>) = holders s" "holders (s\<lparr>mutexes := M\<rparr>) = holders s"
  by (simp_all add: users_def holders_def upd_mutex_def fun_eq_iff)

lemma frame_simps [simp]:
  "pcs (upd_mutex m f s) = pcs s" "fileLocks (upd_mutex m f s) = fileLocks s"
  "nextMutex (upd_mutex m f s) = nextMutex s"
  "mutexes (upd_mutex m f s) = (mutexes s)(m := f (mutexes s m))"
  "pcs (set_pc t p s) = (pcs s)(t := p)" "fileLocks (set_pc t p s) = fileLocks s"
  "nextMutex (set_pc t p s) = nextMutex s" "mutexes (set_pc t p s) = mutexes s"
  by (simp_all add: upd_mutex_def set_pc_def)

lemma lock_invD:
  assumes "lock_inv s"
  shows "uses (pcs s t) = Some (k, m) \<Longrightarrow> fileLocks s k = Some m"
    "fileLocks s k = Some m \<Longrightarrow> m < nextMutex s \<and> users s m \<noteq> {}"
    "fileLocks s k = Some m \<Longrightarrow> fileLocks s k' = Some m \<Longrightarrow> k = k'"
    "finite (users s m)" "m < nextMutex s \<Longrightarrow> refCount (mutexes s m) = card (users s m)"
    "held_ok (holders s m) (locked (mutexes s m)) (m < nextMutex s)"
  using assms by (auto simp: lock_inv_def)

lemma lock_invI:
  assumes "\<And>t k m. uses (pcs s t) = Some (k, m) \<Longrightarrow> fileLocks s k = Some m"
    "\<And>k m. fileLocks s k = Some m \<Longrightarrow> m < nextMutex s \<and> users s m \<noteq> {}"
    "\<And>k k' m. fileLocks s k = Some m \<Longrightarrow> fileLocks s k' = Some m \<Longrightarrow> k = k'"
    "\<And>m. finite (users s m)" "\<And>m. m < nextMutex s \<Longrightarrow> refCount (mutexes s m) = card (users s m)"
    "\<And>m. held_ok (holders s m) (locked (mutexes s m)) (m < nextMutex s)"
  shows "lock_inv s"
  unfolding lock_inv_def using assms by (intro conjI allI impI) blast+

lemma users_fresh: "lock_inv s \<Longrightarrow> nextMutex s \<le> m \<Longrightarrow> users s m = {} \<and> holders s m = {}"
proof -
  assume inv: "lock_inv s" and m: "nextMutex s \<le> m"
  have "users s m = {}"
    using lock_invD(1) [OF inv] lock_invD(2) [OF inv] m by (fastforce simp: users_def)
  moreover have "holders s m \<subseteq> users s m" by (auto simp: holders_def users_def)
  ultimately show ?thesis by simp
qed

lemma outside_no_use: "pcs s t = Outside \<Longrightarrow> t \<notin> users s m \<and> t \<notin> holders s m"
  by (auto simp: users_def holders_def)

lemma enter_inv:
  assumes inv: "lock_inv s" and t: "pcs s t = Outside"
  shows "lock_inv (acquire_enter t key s)"
proof (cases "fileLocks s key")
  case (Some m)
  note D = lock_invD [OF inv] and out = outside_no_use [OF t]
  have "held_ok (holders s m) (locked (mutexes s m)) True" using D(6) [of m] D(2) [OF Some] by simp
  then show ?thesis
    unfolding acquire_enter_def Some option.case
    by (intro lock_invI; use D out Some in \<open>auto simp: users_set_pc holders_set_pc split: if_splits\<close>)
next
  case None
  note D = lock_invD [OF inv] and out = outside_no_use [OF t]
  have fresh: "fileLocks s k \<noteq> Some (nextMutex s)" for k using D(2) by blast
  show ?thesis
    unfolding acquire_enter_def None option.case Let_def
    by (rule lock_invI; use D out None fresh users_fresh [OF inv, of "nextMutex s"] in
      \<open>force simp: users_set_pc holders_set_pc less_Suc_eq split: if_splits\<close>)
qed

lemma lock_inv_lock:
  assumes inv: "lock_inv s" and t: "pcs s t = Waiting key m" and free: "\<not> locked (mutexes s m)"
  shows "lock_inv (set_pc t (Inside key m) (upd_mutex m (\<lambda>f. f\<lparr>locked := True\<rparr>) s))"
proof -
  note D = lock_invD [OF inv]
  have tu: "t \<in> users s m" "\<And>m'. m' \<noteq> m \<Longrightarrow> t \<notin> users s m'" "\<And>m'. t \<notin> holders s m'"
    using t by (auto simp: users_def holders_def)
  have use: "users (set_pc t (Inside key m) s') m' = users s m'" if "users s' = users s" for m' s'
    using tu that by (cases "m' = m") (auto simp: users_set_pc insert_absorb)
  have key: "fileLocks s key = Some m" using D(1) [of t key m] t by simp
  have "holders s m = {}" using D(6) [of m] D(2) [OF key] free by (auto dest: held_ok_cases)
  then show ?thesis
    by (intro lock_invI)
      (use D t tu key in \<open>auto simp: use holders_set_pc split: if_splits\<close>)
qed

lemma lock_inv_unlock:
  assumes inv: "lock_inv s" and t: "pcs s t = Inside key m"
  shows "lock_inv (set_pc t (Unlocked key m) (upd_mutex m (\<lambda>f. f\<lparr>locked := False\<rparr>) s))"
proof -
  note D = lock_invD [OF inv]
  have tu: "t \<in> users s m" "\<And>m'. m' \<noteq> m \<Longrightarrow> t \<notin> users s m'" "\<And>m'. m' \<noteq> m \<Longrightarrow> t \<notin> holders s m'"
    and th: "t \<in> holders s m"
    using t by (auto simp: users_def holders_def)
  have use: "users (set_pc t (Unlocked key m) s') m' = users s m'" if "users s' = users s" for m' s'
    using tu that by (cases "m' = m") (auto simp: users_set_pc insert_absorb)
  have key: "fileLocks s key = Some m" using D(1) [of t key m] t by simp
  have "holders s m = {t}" using D(6) [of m] D(2) [OF key] th by (auto dest: held_ok_cases)
  then show ?thesis
    by (intro lock_invI)
      (use D t tu key in \<open>auto simp: use holders_set_pc split: if_splits\<close>)
qed

lemma lock_inv_leave:
  assumes inv: "lock_inv s" and t: "pcs s t = Unlocked key m"
  shows "lock_inv (release_leave t key m s)"
proof -
  note D = lock_invD [OF inv]
  have tu: "t \<in> users s m" "\<And>m'. m' \<noteq> m \<Longrightarrow> t \<notin> users s m'" "\<And>m'. t \<notin> holders s m'"
    using t by (auto simp: users_def holders_def)
  have key: "fileLocks s key = Some m" using D(1) [of t key m] t by simp
  have rc: "refCount (mutexes s m) - 1 = card (users s m - {t})"
    using D(2) [OF key] D(5) [of m] tu(1) by (simp add: card_Diff_singleton)
  have fin: "finite (users s m - {t})" using D(4) by simp
  have use: "users (release_leave t key m s) m' = (if m' = m then users s m - {t} else users s m')"
    "holders (release_leave t key m s) m' = holders s m'" for m'
    using tu by (auto simp: release_leave_def Let_def users_set_pc holders_set_pc)
  have st: "pcs (release_leave t key m s) = (pcs s)(t := Outside)"
    "nextMutex (release_leave t key m s) = nextMutex s"
    "mutexes (release_leave t key m s) = (mutexes s)(m := (mutexes s m)\<lparr>refCount := refCount (mutexes s m) - 1\<rparr>)"
    "fileLocks (release_leave t key m s)
     = (if users s m - {t} = {} then (fileLocks s)(key := None) else fileLocks s)"
    using rc fin by (auto simp: release_leave_def Let_def)
  have others: "users s m - {t} \<noteq> {}" if "uses (pcs s t') = Some (k, m)" "t' \<noteq> t" for t' k
    using that by (auto simp: users_def)
  have only: "k = key" if "fileLocks s k = Some m" for k using D(3) [OF that key] .
  show ?thesis
  proof (rule lock_invI)
    fix t' k m' assume "uses (pcs (release_leave t key m s) t') = Some (k, m')"
    then have u: "uses (pcs s t') = Some (k, m')" "t' \<noteq> t" by (auto simp: st split: if_splits)
    then have "fileLocks s k = Some m'" by (rule_tac D(1))
    then show "fileLocks (release_leave t key m s) k = Some m'"
      using others [of t' k] u key unfolding st by (cases "k = key") auto
  next
    fix k m' assume "fileLocks (release_leave t key m s) k = Some m'"
    then show "m' < nextMutex (release_leave t key m s) \<and> users (release_leave t key m s) m' \<noteq> {}"
      using D(2) only by (fastforce simp: st use split: if_splits)
  next
    fix k k' m'
    show "fileLocks (release_leave t key m s) k = Some m' \<Longrightarrow>
      fileLocks (release_leave t key m s) k' = Some m' \<Longrightarrow> k = k'"
      using D(3) by (auto simp: st split: if_splits)
  qed (use D rc fin in \<open>auto simp: st use\<close>)
qed

lemma lock_reachable_inv: "lock_reachable s \<Longrightarrow> lock_inv s"
proof (induction rule: lock_reachable.induct)
  case start
  show ?case by (rule lock_invI) (auto simp: lock_init_def users_def holders_def)
next
  case (step s s')
  from step.hyps(2) step.IH show ?case
    by cases (auto intro: enter_inv lock_inv_lock lock_inv_unlock lock_inv_leave)
qed

text \<open>
  C18: File operations on one path are serialized: in every interleaving at most one goroutine is
  inside the critical section of a path, although mutex objects come and go; a goroutine that
  waits for a mutex can take it, or the goroutine that holds it is inside the same path and will
  release it; and once every goroutine has left, the table of locks is empty again.
\<close>

theorem file_operations_serialized:
  assumes "lock_reachable s"
  shows "(pcs s t = Inside k m \<and> pcs s t' = Inside k m' \<longrightarrow> t = t')
    \<and> (pcs s t = Waiting k m \<longrightarrow> \<not> locked (mutexes s m) \<or> (\<exists>t''. pcs s t'' = Inside k m))
    \<and> ((\<forall>t. pcs s t = Outside) \<longrightarrow> fileLocks s k = None)"
proof (intro conjI impI)
  note D = lock_invD [OF lock_reachable_inv [OF assms]]
  have one: "held_ok (holders s m) (locked (mutexes s m)) True" if "uses (pcs s t) = Some (k, m)" for t k m
    using D(1) [OF that] D(2) D(6) [of m] by fastforce
  show "t = t'" if in2: "pcs s t = Inside k m \<and> pcs s t' = Inside k m'"
  proof -
    have "m = m'" using D(1) [of t k m] D(1) [of t' k m'] in2 by simp
    then have "t \<in> holders s m" "t' \<in> holders s m" using in2 by (auto simp: holders_def)
    then show ?thesis using held_ok_cases [OF one [of t k m]] in2 by auto
  qed
  show "\<not> locked (mutexes s m) \<or> (\<exists>t''. pcs s t'' = Inside k m)" if w: "pcs s t = Waiting k m"
  proof -
    from held_ok_cases [OF one [of t k m]] w
    consider "\<not> locked (mutexes s m)" | t'' where "holders s m = {t''}" by auto
    then show ?thesis
    proof cases
      case 2
      then obtain k' where i: "pcs s t'' = Inside k' m" by (auto simp: holders_def)
      have "k' = k" using D(1) [of t'' k' m] D(1) [of t k m] i w D(3) by simp
      with i show ?thesis by blast
    qed simp
  qed
  show "fileLocks s k = None" if "\<forall>t. pcs s t = Outside"
    using D(2) [of k] that by (cases "fileLocks s k") (auto simp: users_def)
qed

theorem file_operations_serialized_witness:
  "\<exists>s. lock_reachable s \<and> pcs s 0 = Waiting ''/f'' 0 \<and> \<not> locked (mutexes s 0)"
proof -
  let ?s = "acquire_enter 0 ''/f'' lock_init"
  have r: "lock_reachable ?s"
    by (rule lock_reachable.step [OF lock_reachable.start lock_step.enter]) (simp add: lock_init_def)
  have w: "pcs ?s 0 = Waiting ''/f'' 0" "\<forall>t k m. pcs ?s t \<noteq> Inside k m"
    by (simp_all add: acquire_enter_def lock_init_def Let_def set_pc_def)
  from file_operations_serialized [OF r, of 0 "''/f''" 0] w have "\<not> locked (mutexes ?s 0)" by simp
  with r w show ?thesis by blast
qed

end
