(* ===== verification/Exec_Session.thy ===== *)
theory Exec_Session
  imports Truncate Message
begin

section \<open>Background sessions (\<open>internal/tool\<close>: \<open>session.go\<close>, \<open>process.go\<close>)\<close>

text \<open>
  A command that outlives the call which started it is an \<open>ExecSession\<close>: its output goes to two
  capped buffers (the whole transcript and what has not been polled yet), a supervisor goroutine
  waits for the process or the deadline, and a registry keeps the sessions by id and scope until
  a while after they end. The model is a world of session objects (identified by their ids, which
  are never reused) with the registry's table and clock; every lock-protected operation and every
  transition of the supervisor is one step.
\<close>

subsection \<open>Capped buffers\<close>

definition sessionBufferCap :: nat where "sessionBufferCap = 256 * 1024"

record capBuffer =
  cb_buf :: string
  cb_cap :: nat

definition cb_Write :: "string \<Rightarrow> capBuffer \<Rightarrow> capBuffer" where
  "cb_Write p c =
     (let b = cb_buf c @ p in
      if cb_cap c > 0 \<and> length b > cb_cap c then c\<lparr>cb_buf := drop (length b - cb_cap c) b\<rparr>
      else c\<lparr>cb_buf := b\<rparr>)"

definition emptyCapBuffer :: capBuffer where
  "emptyCapBuffer = \<lparr>cb_buf = [], cb_cap = sessionBufferCap\<rparr>"

lemma cb_Write_last_n: "cb_cap c > 0 \<Longrightarrow> cb_buf (cb_Write p c) = last_n (cb_cap c) (cb_buf c @ p)"
  by (simp add: cb_Write_def last_n_def Let_def)

lemma last_n_last_n_append: "last_n n (last_n n xs @ ys) = last_n n (xs @ ys)"
  by (cases "n \<le> length xs") (simp_all add: last_n_def add.commute)

lemma cb_Write_cap [simp]: "cb_cap (cb_Write p c) = cb_cap c"
  by (simp add: cb_Write_def Let_def)

subsection \<open>Sessions\<close>

datatype session_state = SessionRunning | SessionExited | SessionKilled | SessionTimedOut

text \<open>
  The supervisor goroutine: not started, waiting for exit or deadline, waiting for exit after it
  has sent the kill, finished but with \<open>done\<close> still open, and gone with \<open>done\<close> closed.
\<close>

datatype supervisor = NotStarted | Watching | AfterDeadline | Finishing | DoneClosed

record exec_session =
  x_ID :: string
  x_Scope :: string
  x_Command :: string
  x_StartedAt :: int
  x_pid :: int
  x_state :: session_state
  x_exitCode :: int
  x_endedAt :: int
  x_agg :: capBuffer
  x_unread :: capBuffer
  x_killing :: bool
  x_timedOut :: bool
  x_proc :: bool
  x_sup :: supervisor

definition new_session :: "string \<Rightarrow> string \<Rightarrow> string \<Rightarrow> int \<Rightarrow> exec_session" where
  "new_session sid scope command now =
     \<lparr>x_ID = sid, x_Scope = scope, x_Command = command, x_StartedAt = now, x_pid = 0,
      x_state = SessionRunning, x_exitCode = 0, x_endedAt = 0,
      x_agg = emptyCapBuffer, x_unread = emptyCapBuffer,
      x_killing = False, x_timedOut = False, x_proc = False, x_sup = NotStarted\<rparr>"

lemma new_session_fields [simp]:
  "x_ID (new_session i sc c now) = i" "x_Scope (new_session i sc c now) = sc"
  "x_state (new_session i sc c now) = SessionRunning"
  by (simp_all add: new_session_def)

definition writeChunk :: "string \<Rightarrow> exec_session \<Rightarrow> exec_session" where
  "writeChunk p s = s\<lparr>x_agg := cb_Write p (x_agg s), x_unread := cb_Write p (x_unread s)\<rparr>"

definition supervise :: "int \<Rightarrow> exec_session \<Rightarrow> exec_session" where
  "supervise pid s = s\<lparr>x_proc := True, x_pid := pid, x_sup := Watching\<rparr>"

definition x_finish :: "int \<Rightarrow> int \<Rightarrow> exec_session \<Rightarrow> exec_session" where
  "x_finish code now s =
     s\<lparr>x_exitCode := code, x_endedAt := now,
       x_state := (if x_timedOut s then SessionTimedOut
                   else if x_killing s then SessionKilled else SessionExited)\<rparr>"

text \<open>\<open>Kill\<close>: the second component says whether SIGKILL is sent.\<close>

definition x_Kill :: "exec_session \<Rightarrow> exec_session \<times> bool" where
  "x_Kill s =
     (if x_state s \<noteq> SessionRunning \<or> \<not> x_proc s then (s, False) else (s\<lparr>x_killing := True\<rparr>, True))"

definition x_Poll :: "exec_session \<Rightarrow> string \<times> exec_session" where
  "x_Poll s = (cb_buf (x_unread s), s\<lparr>x_unread := emptyCapBuffer\<rparr>)"

definition x_Log :: "exec_session \<Rightarrow> string" where
  "x_Log s = cb_buf (x_agg s)"

text \<open>\<open>WriteStdin\<close>: the error when the session is not running; otherwise the bytes go to the process.\<close>

definition x_WriteStdin :: "exec_session \<Rightarrow> string option" where
  "x_WriteStdin s =
     (if \<not> x_proc s \<or> x_state s \<noteq> SessionRunning
      then Some (''session '' @ x_ID s @ '' is not running'') else None)"

definition finishedAt :: "exec_session \<Rightarrow> int option" where
  "finishedAt s = (if x_state s = SessionRunning then None else Some (x_endedAt s))"

text \<open>The steps of the supervisor goroutine, at time \<open>now\<close>.\<close>

inductive sup_step :: "int \<Rightarrow> exec_session \<Rightarrow> exec_session \<Rightarrow> bool" where
  exited: "x_sup s = Watching \<Longrightarrow> sup_step now s ((x_finish code now s)\<lparr>x_sup := Finishing\<rparr>)"
| deadline: "x_sup s = Watching \<Longrightarrow> sup_step now s (s\<lparr>x_timedOut := True, x_sup := AfterDeadline\<rparr>)"
| reaped: "x_sup s = AfterDeadline \<Longrightarrow> sup_step now s ((x_finish code now s)\<lparr>x_sup := Finishing\<rparr>)"
| closed: "x_sup s = Finishing \<Longrightarrow> sup_step now s (s\<lparr>x_sup := DoneClosed\<rparr>)"

inductive_cases sup_stepE: "sup_step now s s'"

subsection \<open>The registry\<close>

record session_world =
  sw_seq :: nat
  sw_ttl :: int
  sw_table :: "string fset"
  sw_objs :: "(string, exec_session) fmap"
  sw_now :: int

definition obj :: "session_world \<Rightarrow> string \<Rightarrow> exec_session" where
  "obj w i = the (fmlookup (sw_objs w) i)"

definition reapLocked :: "session_world \<Rightarrow> session_world" where
  "reapLocked w =
     (if sw_ttl w \<le> 0 then w
      else w\<lparr>sw_table := ffilter
             (\<lambda>i. case finishedAt (obj w i) of
                    Some ended \<Rightarrow> \<not> (sw_now w - ended > sw_ttl w)
                  | None \<Rightarrow> True) (sw_table w)\<rparr>)"

definition session_id :: "nat \<Rightarrow> string" where
  "session_id n = ''bg-'' @ show_nat n"

definition sr_Create :: "string \<Rightarrow> string \<Rightarrow> session_world \<Rightarrow> string \<times> session_world" where
  "sr_Create scope command w0 =
     (let w = reapLocked w0; n = sw_seq w + 1; i = session_id n in
      (i, w\<lparr>sw_seq := n, sw_table := finsert i (sw_table w),
            sw_objs := fmupd i (new_session i scope command (sw_now w)) (sw_objs w)\<rparr>))"

definition sr_Get :: "string \<Rightarrow> string \<Rightarrow> session_world \<Rightarrow> string option \<times> session_world" where
  "sr_Get scope i w0 =
     (let w = reapLocked w0 in
      (if i |\<in>| sw_table w \<and> x_Scope (obj w i) = scope then Some i else None, w))"

text \<open>\<open>List\<close>: oldest first; sessions of the same start time come in the order of their ids here.\<close>

definition sr_List :: "string \<Rightarrow> session_world \<Rightarrow> string list \<times> session_world" where
  "sr_List scope w0 =
     (let w = reapLocked w0 in
      (sort_key (\<lambda>i. x_StartedAt (obj w i))
         (filter (\<lambda>i. x_Scope (obj w i) = scope) (sorted_list_of_fset (sw_table w))), w))"

definition sr_Remove :: "string \<Rightarrow> string \<Rightarrow> session_world \<Rightarrow> string option \<times> session_world" where
  "sr_Remove scope i w =
     (if i |\<notin>| sw_table w \<or> x_Scope (obj w i) \<noteq> scope then (None, w)
      else (Some i, w\<lparr>sw_table := sw_table w |-| {|i|}\<rparr>))"

definition upd_obj :: "string \<Rightarrow> (exec_session \<Rightarrow> exec_session) \<Rightarrow> session_world \<Rightarrow> session_world" where
  "upd_obj i f w = w\<lparr>sw_objs := fmupd i (f (obj w i)) (sw_objs w)\<rparr>"

subsection \<open>No output is lost below the cap\<close>

datatype out_op = OChunk string | OPoll

text \<open>The results of the polls of a run, and the session after it.\<close>

fun out_run :: "out_op list \<Rightarrow> exec_session \<Rightarrow> string list \<times> exec_session" where
  "out_run [] s = ([], s)"
| "out_run (OChunk p # ops) s = out_run ops (writeChunk p s)"
| "out_run (OPoll # ops) s =
     (let (out, s1) = x_Poll s; (outs, s2) = out_run ops s1 in (out # outs, s2))"

text \<open>The output cut at the polls: the segment each poll closes, and the open one at the end.\<close>

fun segments :: "out_op list \<Rightarrow> string \<Rightarrow> string list \<times> string" where
  "segments [] cur = ([], cur)"
| "segments (OChunk p # ops) cur = segments ops (cur @ p)"
| "segments (OPoll # ops) cur = (let (segs, rest) = segments ops [] in (cur # segs, rest))"

fun all_output :: "out_op list \<Rightarrow> string" where
  "all_output [] = []"
| "all_output (OChunk p # ops) = p @ all_output ops"
| "all_output (OPoll # ops) = all_output ops"

lemma segments_concat: "segments ops cur = (segs, rest) \<Longrightarrow> concat segs @ rest = cur @ all_output ops"
  by (induction ops cur arbitrary: segs rest rule: segments.induct) (auto split: prod.splits)

lemma out_run_last_n:
  assumes "cb_cap (x_agg s) = n" "cb_cap (x_unread s) = n" "n = sessionBufferCap"
    and "cb_buf (x_unread s) = last_n n cur" "cb_buf (x_agg s) = last_n n before"
    and "out_run ops s = (polls, s')" "segments ops cur = (segs, rest)"
  shows "polls = map (last_n n) segs \<and> cb_buf (x_unread s') = last_n n rest
    \<and> x_Log s' = last_n n (before @ all_output ops)"
  using assms
proof (induction ops s arbitrary: polls s' cur segs rest before rule: out_run.induct)
  case (1 s)
  then show ?case by (simp add: x_Log_def)
next
  case (2 p ops s)
  have n: "n > 0" using "2.prems"(3) by (simp add: sessionBufferCap_def)
  show ?case
    using "2.IH" [of "cur @ p" "before @ p" polls s' segs rest] "2.prems" n
    by (simp add: writeChunk_def cb_Write_last_n last_n_last_n_append)
next
  case (3 ops s)
  obtain outs s2 where o: "out_run ops (snd (x_Poll s)) = (outs, s2)" by fastforce
  obtain sg where sg: "segments ops [] = (sg, rest)" "segs = cur # sg"
    using "3.prems"(7) by (auto split: prod.splits)
  have p: "polls = cb_buf (x_unread s) # outs" "s' = s2"
    using "3.prems"(6) o by (auto simp: x_Poll_def split: prod.splits)
  have "outs = map (last_n n) sg \<and> cb_buf (x_unread s2) = last_n n rest \<and> x_Log s2 = last_n n (before @ all_output ops)"
    by (rule "3.IH" [OF refl, of "fst (x_Poll s)" "snd (x_Poll s)" "[]" before outs s2 sg rest])
      (use "3.prems" o sg in \<open>auto simp: x_Poll_def emptyCapBuffer_def last_n_def\<close>)
  then show ?case using p sg "3.prems"(4) by simp
qed

text \<open>
  C28: What a session shows of its output: each poll returns what arrived since the previous one and
  the log returns everything, each cut to its last 256 KiB. So as long as no more than that
  arrives between two polls, the polls and the unread rest put together are the whole output.
\<close>

theorem session_output_kept:
  fixes sid scope command now ops
  defines "r \<equiv> out_run ops (new_session sid scope command now)"
    and "sg \<equiv> segments ops []"
  shows "fst r = map (last_n sessionBufferCap) (fst sg)
    \<and> cb_buf (x_unread (snd r)) = last_n sessionBufferCap (snd sg)
    \<and> concat (fst sg) @ snd sg = all_output ops
    \<and> x_Log (snd r) = last_n sessionBufferCap (all_output ops)"
proof -
  have "fst r = map (last_n sessionBufferCap) (fst sg) \<and> cb_buf (x_unread (snd r)) = last_n sessionBufferCap (snd sg)
    \<and> x_Log (snd r) = last_n sessionBufferCap ([] @ all_output ops)"
    by (rule out_run_last_n [where s = "new_session sid scope command now" and cur = "[]" and ops = ops])
      (simp_all add: new_session_def emptyCapBuffer_def last_n_def r_def sg_def)
  then show ?thesis using segments_concat [of ops "[]" "fst sg" "snd sg"] by (simp add: sg_def)
qed

subsection \<open>The life of a session\<close>

definition sess_ok :: "exec_session \<Rightarrow> bool" where
  "sess_ok s \<longleftrightarrow>
     (x_state s = SessionRunning \<longleftrightarrow> x_sup s \<in> {NotStarted, Watching, AfterDeadline})
     \<and> (x_proc s \<longleftrightarrow> x_sup s \<noteq> NotStarted)
     \<and> (x_sup s \<in> {NotStarted, Watching} \<longrightarrow> \<not> x_timedOut s)
     \<and> (x_sup s = AfterDeadline \<longrightarrow> x_timedOut s)
     \<and> (x_state s \<noteq> SessionRunning \<longrightarrow>
          x_state s = (if x_timedOut s then SessionTimedOut
                       else if x_killing s then SessionKilled else SessionExited))"

lemma sess_ok_new: "sess_ok (new_session i sc c now)"
  by (simp add: sess_ok_def new_session_def)

lemma sess_ok_ops:
  assumes "sess_ok s"
  shows "sess_ok (writeChunk p s)" "sess_ok (fst (x_Kill s))" "sess_ok (snd (x_Poll s))"
    "x_sup s = NotStarted \<Longrightarrow> sess_ok (supervise pid s)"
  using assms
  by (auto simp: sess_ok_def writeChunk_def x_Kill_def x_Poll_def supervise_def)

lemma sess_ok_sup: "sess_ok s \<Longrightarrow> sup_step now s s' \<Longrightarrow> sess_ok s'"
  by (erule sup_stepE) (auto simp: sess_ok_def x_finish_def)

subsection \<open>The registry over time\<close>

text \<open>
  The steps of the world; \<open>R\<close> records the ids that \<open>Remove\<close> dropped, which is not part of the
  program's state.
\<close>

inductive world_step :: "string fset \<times> session_world \<Rightarrow> string fset \<times> session_world \<Rightarrow> bool" where
  create: "world_step (R, w) (R, snd (sr_Create scope command w))"
| attach: "i |\<in>| fmdom (sw_objs w) \<Longrightarrow> x_sup (obj w i) = NotStarted \<Longrightarrow>
    world_step (R, w) (R, upd_obj i (supervise pid) w)"
| chunk: "i |\<in>| fmdom (sw_objs w) \<Longrightarrow> world_step (R, w) (R, upd_obj i (writeChunk p) w)"
| supervisor: "i |\<in>| fmdom (sw_objs w) \<Longrightarrow> sup_step (sw_now w) (obj w i) s' \<Longrightarrow>
    world_step (R, w) (R, upd_obj i (\<lambda>_. s') w)"
| kill: "i |\<in>| fmdom (sw_objs w) \<Longrightarrow> world_step (R, w) (R, upd_obj i (fst \<circ> x_Kill) w)"
| poll: "i |\<in>| fmdom (sw_objs w) \<Longrightarrow> world_step (R, w) (R, upd_obj i (snd \<circ> x_Poll) w)"
| reap: "world_step (R, w) (R, reapLocked w)"
| remove: "sr_Remove scope i w = (Some j, w') \<Longrightarrow> world_step (R, w) (finsert j R, w')"
| tick: "sw_now w \<le> now \<Longrightarrow> world_step (R, w) (R, w\<lparr>sw_now := now\<rparr>)"

definition world_init :: "int \<Rightarrow> int \<Rightarrow> session_world" where
  "world_init ttl now = \<lparr>sw_seq = 0, sw_ttl = ttl, sw_table = {||}, sw_objs = fmempty, sw_now = now\<rparr>"

inductive world_reachable :: "string fset \<times> session_world \<Rightarrow> bool" where
  init: "world_reachable ({||}, world_init ttl now)"
| step: "world_reachable x \<Longrightarrow> world_step x y \<Longrightarrow> world_reachable y"

definition expired :: "session_world \<Rightarrow> string \<Rightarrow> bool" where
  "expired w i \<longleftrightarrow> sw_ttl w > 0 \<and> x_state (obj w i) \<noteq> SessionRunning
     \<and> sw_now w - x_endedAt (obj w i) > sw_ttl w"

definition world_inv :: "string fset \<times> session_world \<Rightarrow> bool" where
  "world_inv x \<longleftrightarrow> (case x of (R, w) \<Rightarrow>
     sw_table w |\<subseteq>| fmdom (sw_objs w)
     \<and> (\<forall>i. i |\<in>| fmdom (sw_objs w) \<longrightarrow>
          sess_ok (obj w i) \<and> x_ID (obj w i) = i \<and> (\<exists>n. 0 < n \<and> n \<le> sw_seq w \<and> i = session_id n)
          \<and> (i |\<in>| sw_table w \<or> i |\<in>| R \<or> expired w i)))"

lemma world_invD:
  assumes "world_inv (R, w)" "i |\<in>| fmdom (sw_objs w)"
  shows "sess_ok (obj w i)" "x_ID (obj w i) = i" "\<exists>n. 0 < n \<and> n \<le> sw_seq w \<and> i = session_id n"
    "i |\<in>| sw_table w \<or> i |\<in>| R \<or> expired w i"
  using assms by (auto simp: world_inv_def)

lemma reapLocked_table:
  "i |\<in>| sw_table (reapLocked w) \<longleftrightarrow> i |\<in>| sw_table w \<and> \<not> expired w i"
  by (auto simp: reapLocked_def expired_def finishedAt_def)

lemma reapLocked_frame [simp]:
  "sw_objs (reapLocked w) = sw_objs w" "sw_seq (reapLocked w) = sw_seq w" "sw_now (reapLocked w) = sw_now w"
  "sw_ttl (reapLocked w) = sw_ttl w" "obj (reapLocked w) = obj w" "expired (reapLocked w) = expired w"
  by (auto simp: reapLocked_def obj_def expired_def fun_eq_iff)

lemma reap_inv: "world_inv (R, w) \<Longrightarrow> world_inv (R, reapLocked w)"
  unfolding world_inv_def prod.case reapLocked_frame
  by (auto simp: reapLocked_table less_eq_fset.rep_eq fset_mp)

lemma session_id_inj [simp]: "session_id n = session_id m \<longleftrightarrow> n = m"
  by (auto simp: session_id_def dest: show_nat_inj)

lemma obj_upd [simp]:
  "obj (upd_obj i f w) j = (if j = i then f (obj w i) else obj w j)"
  "sw_table (upd_obj i f w) = sw_table w" "sw_seq (upd_obj i f w) = sw_seq w"
  "fmdom (sw_objs (upd_obj i f w)) = finsert i (fmdom (sw_objs w))"
  "sw_now (upd_obj i f w) = sw_now w" "sw_ttl (upd_obj i f w) = sw_ttl w"
  by (simp_all add: obj_def upd_obj_def)

lemma upd_inv:
  assumes inv: "world_inv (R, w)" and i: "i |\<in>| fmdom (sw_objs w)"
    and f: "sess_ok (f (obj w i))" "x_ID (f (obj w i)) = x_ID (obj w i)"
    and keep: "x_state (obj w i) \<noteq> SessionRunning \<Longrightarrow>
      x_state (f (obj w i)) \<noteq> SessionRunning \<and> x_endedAt (f (obj w i)) = x_endedAt (obj w i)"
  shows "world_inv (R, upd_obj i f w)"
proof -
  have ex: "expired (upd_obj i f w) j" if "expired w j" for j
    using that keep by (cases "j = i") (auto simp: expired_def)
  have dom: "fmdom (sw_objs (upd_obj i f w)) = fmdom (sw_objs w)" using i by auto
  have kept: "j |\<in>| sw_table w \<or> j |\<in>| R \<or> expired (upd_obj i f w) j" if "j |\<in>| fmdom (sw_objs w)" for j
    using world_invD(4) [OF inv that] ex by blast
  have "sw_table w |\<subseteq>| fmdom (sw_objs w)" using inv by (simp add: world_inv_def)
  with kept f world_invD(1-3) [OF inv] show ?thesis
    unfolding world_inv_def prod.case dom by auto
qed

lemma sup_step_keeps:
  assumes "sup_step now s s'" "sess_ok s"
  shows "x_ID s' = x_ID s" "x_Scope s' = x_Scope s"
    "x_state s \<noteq> SessionRunning \<Longrightarrow> x_state s' \<noteq> SessionRunning \<and> x_endedAt s' = x_endedAt s"
  using assms by (auto elim!: sup_stepE simp: x_finish_def sess_ok_def)

lemma create_inv:
  assumes inv: "world_inv (R, w)"
  shows "world_inv (R, snd (sr_Create scope command w))"
proof -
  let ?w = "reapLocked w" and ?i = "session_id (sw_seq w + 1)"
  note inv' = reap_inv [OF inv]
  have fresh: "?i |\<notin>| fmdom (sw_objs w)"
    using world_invD(3) [OF inv, of ?i] by auto
  let ?w' = "snd (sr_Create scope command w)"
  have o: "obj ?w' j = (if j = ?i then new_session ?i scope command (sw_now w) else obj w j)" for j
    by (simp add: sr_Create_def Let_def obj_def)
  have st: "sw_seq ?w' = sw_seq w + 1" "sw_table ?w' = finsert ?i (sw_table ?w)"
    "fmdom (sw_objs ?w') = finsert ?i (fmdom (sw_objs w))" "sw_now ?w' = sw_now w" "sw_ttl ?w' = sw_ttl w"
    by (simp_all add: sr_Create_def Let_def)
  have old: "sess_ok (obj w j) \<and> x_ID (obj w j) = j \<and> (\<exists>n. 0 < n \<and> n \<le> sw_seq w + 1 \<and> j = session_id n)
     \<and> (j |\<in>| sw_table ?w \<or> j |\<in>| R \<or> expired ?w' j)" if "j |\<in>| fmdom (sw_objs w)" for j
  proof -
    have "j \<noteq> ?i" using that fresh by auto
    then have "expired ?w' j = expired w j" by (simp add: expired_def o st)
    then show ?thesis
      using world_invD [OF inv that] world_invD(4) [OF inv', of j] that by (auto intro: le_SucI)
  qed
  have "sw_table ?w |\<subseteq>| fmdom (sw_objs w)" using inv' by (simp add: world_inv_def)
  then show ?thesis
    unfolding world_inv_def prod.case st using old fresh
    by (auto simp: o sess_ok_new)
qed

lemma attach_inv:
  assumes "world_inv (R, w)" "i |\<in>| fmdom (sw_objs w)" "x_sup (obj w i) = NotStarted"
  shows "world_inv (R, upd_obj i (supervise pid) w)"
proof (rule upd_inv [OF assms(1,2)])
  show "sess_ok (supervise pid (obj w i))" using world_invD(1) [OF assms(1,2)] assms(3) by (rule sess_ok_ops(4))
qed (simp_all add: supervise_def)

lemma supervisor_inv:
  assumes "world_inv (R, w)" "i |\<in>| fmdom (sw_objs w)" "sup_step (sw_now w) (obj w i) s'"
  shows "world_inv (R, upd_obj i (\<lambda>_. s') w)"
proof (rule upd_inv [OF assms(1,2)])
  note ok = world_invD(1) [OF assms(1,2)]
  show "sess_ok s'" using ok assms(3) by (rule sess_ok_sup)
  show "x_ID s' = x_ID (obj w i)" by (rule sup_step_keeps(1) [OF assms(3) ok])
  show "x_state s' \<noteq> SessionRunning \<and> x_endedAt s' = x_endedAt (obj w i)" if "x_state (obj w i) \<noteq> SessionRunning"
    by (rule sup_step_keeps(3) [OF assms(3) ok that])
qed

lemma remove_inv:
  assumes inv: "world_inv (R, w)" and "sr_Remove scope i w = (Some j, w')"
  shows "world_inv (finsert j R, w')"
proof -
  have w': "j = i" "w' = w\<lparr>sw_table := sw_table w |-| {|i|}\<rparr>"
    using assms(2) by (auto simp: sr_Remove_def split: if_splits)
  have "obj w' = obj w" "expired w' = expired w" by (auto simp: w' obj_def expired_def fun_eq_iff)
  then show ?thesis using inv by (auto simp: world_inv_def w')
qed

lemma tick_inv:
  assumes inv: "world_inv (R, w)" and "sw_now w \<le> now"
  shows "world_inv (R, w\<lparr>sw_now := now\<rparr>)"
proof -
  have "obj (w\<lparr>sw_now := now\<rparr>) = obj w" by (simp add: obj_def fun_eq_iff)
  moreover have "expired (w\<lparr>sw_now := now\<rparr>) j" if "expired w j" for j
    using that assms(2) by (auto simp: expired_def obj_def)
  ultimately show ?thesis
    using inv unfolding world_inv_def by auto
qed

lemma world_inv_step: "world_step x y \<Longrightarrow> world_inv x \<Longrightarrow> world_inv y"
proof (induction rule: world_step.induct)
  case (chunk i w R p)
  show ?case by (rule upd_inv [OF chunk(2,1)])
      (use sess_ok_ops(1) [OF world_invD(1) [OF chunk(2,1)], of p] in \<open>auto simp: writeChunk_def\<close>)
next
  case (kill i w R)
  show ?case by (rule upd_inv [OF kill(2,1)])
      (use sess_ok_ops(2) [OF world_invD(1) [OF kill(2,1)]] in \<open>auto simp: x_Kill_def\<close>)
next
  case (poll i w R)
  show ?case by (rule upd_inv [OF poll(2,1)])
      (use sess_ok_ops(3) [OF world_invD(1) [OF poll(2,1)]] in \<open>auto simp: x_Poll_def\<close>)
qed (auto intro: create_inv attach_inv supervisor_inv reap_inv remove_inv tick_inv)

lemma world_reachable_inv: "world_reachable x \<Longrightarrow> world_inv x"
proof (induction rule: world_reachable.induct)
  case (init ttl now)
  then show ?case by (simp add: world_inv_def world_init_def)
qed (auto intro: world_inv_step)



end
