(* ===== verification/Bash_Tool.thy ===== *)
theory Bash_Tool
  imports Exec_Session File_Tools
begin

section \<open>Running commands (\<open>internal/tool\<close>: \<open>bash.go\<close>, \<open>exec_local.go\<close>, \<open>process.go\<close>)\<close>

text \<open>
  What happens around the child process: the environment it gets, how its end is classified,
  how its output is cleaned and bounded, and how the bash and process tools report it. The
  process itself is the operating system's: its exit, the timer and the cancellation are inputs.
\<close>

subsection \<open>The child's environment\<close>

text \<open>The key of a \<open>KEY=VAL\<close> entry: the text before the first \<open>=\<close>, when that is not empty.\<close>

definition env_key :: "string \<Rightarrow> string option" where
  "env_key kv = (case index_of kv ''='' of Some eq \<Rightarrow> if eq > 0 then Some (take eq kv) else None | None \<Rightarrow> None)"

datatype transformer = EnvSanitizer "string list" | CwdResolver "string option"

record exec_request =
  ex_Command :: string
  ex_Cwd :: string
  ex_Env :: "string list"
  ex_Timeout :: int
  ex_PTY :: bool

text \<open>\<open>CwdResolver\<close> carries what its function returns now; \<open>None\<close> is a nil function.\<close>

fun tf_Apply :: "transformer \<Rightarrow> exec_request \<Rightarrow> exec_request" where
  "tf_Apply (EnvSanitizer _) req = req"
| "tf_Apply (CwdResolver fn) req =
     (if ex_Cwd req \<noteq> [] then req else case fn of None \<Rightarrow> req | Some d \<Rightarrow> req\<lparr>ex_Cwd := d\<rparr>)"

fun denied_of :: "transformer list \<Rightarrow> string list" where
  "denied_of [] = []"
| "denied_of (EnvSanitizer ks # ts) = ks @ denied_of ts"
| "denied_of (CwdResolver _ # ts) = denied_of ts"

definition stripDenied :: "string list \<Rightarrow> transformer list \<Rightarrow> string list" where
  "stripDenied base ts =
     (let denied = denied_of ts in
      if length denied = 0 then base
      else filter (\<lambda>kv. case env_key kv of Some k \<Rightarrow> k \<notin> set denied | None \<Rightarrow> True) base)"

text \<open>The index of the last entry of each key.\<close>

definition env_index :: "string list \<Rightarrow> string \<Rightarrow> nat option" where
  "env_index base = fold (\<lambda>(i, kv) m. case env_key kv of Some k \<Rightarrow> m(k \<mapsto> i) | None \<Rightarrow> m) (enumerate 0 base) (\<lambda>_. None)"

fun merge_loop :: "string list \<Rightarrow> string list \<Rightarrow> (string \<Rightarrow> nat option) \<Rightarrow> string list" where
  "merge_loop [] out idx = out"
| "merge_loop (kv # overrides) out idx =
     (case env_key kv of
        None \<Rightarrow> merge_loop overrides out idx
      | Some key \<Rightarrow>
          (case idx key of
             Some i \<Rightarrow> merge_loop overrides (out[i := kv]) idx
           | None \<Rightarrow> merge_loop overrides (out @ [kv]) (idx(key \<mapsto> length out))))"

definition mergeEnv :: "string list \<Rightarrow> string list \<Rightarrow> string list" where
  "mergeEnv base overrides =
     (if length overrides = 0 then base else merge_loop overrides base (env_index base))"

definition DefaultDaemonEnvDenylist :: "string list" where
  "DefaultDaemonEnvDenylist =
     [''_FIGARO_DAEMON'', ''HUSH_AGENT_CHILD'', ''HUSH_MANAGED_CONFIG_DIR'',
      ''HUSH_MANAGED_STATE_DIR'', ''HUSH_MANAGED_RUNTIME_DIR'']"

definition bashToolEnv :: "string list" where
  "bashToolEnv = [''FIGARO_NO_BIND=1'', ''GIT_EDITOR=true'', ''GIT_SEQUENCE_EDITOR=true'', ''EDITOR=true'']"

record cmd =
  cmd_Command :: string
  cmd_Dir :: string
  cmd_Env :: "string list"

definition buildCmd :: "string list \<Rightarrow> transformer list \<Rightarrow> exec_request \<Rightarrow> string + cmd" where
  "buildCmd environ ts req0 =
     (let req = fold tf_Apply ts req0 in
      if ex_Command req = [] then Inl ''command is required''
      else Inr \<lparr>cmd_Command = ex_Command req, cmd_Dir = ex_Cwd req,
                cmd_Env = mergeEnv (stripDenied environ ts) (ex_Env req)\<rparr>)"

text \<open>
  What the child sees under a key: \<open>os/exec\<close> keeps the last of several entries with one key.
\<close>

definition env_get :: "string list \<Rightarrow> string \<Rightarrow> string option" where
  "env_get env k = map_option (\<lambda>kv. drop (length k + 1) kv) (find (\<lambda>kv. env_key kv = Some k) (rev env))"

subsection \<open>Waiting for the end\<close>

datatype wait_err = WNil | WExit int | WOther string

text \<open>What the \<open>select\<close> of \<open>waitCmd\<close> received, and what the drain after a kill got in time.\<close>

datatype wait_outcome = OnDone wait_err | OnTimeout "wait_err option" | OnCancel "wait_err option"

record exec_result =
  xr_ExitCode :: int
  xr_TimedOut :: bool
  xr_Canceled :: bool

definition drainAfterKill :: "wait_err option \<Rightarrow> wait_err" where
  "drainAfterKill got = (case got of Some e \<Rightarrow> e | None \<Rightarrow> WNil)"

definition waitCmd :: "wait_outcome \<Rightarrow> string + exec_result" where
  "waitCmd oc =
     (let timedOut = (case oc of OnTimeout _ \<Rightarrow> True | _ \<Rightarrow> False);
          canceled = (case oc of OnCancel _ \<Rightarrow> True | _ \<Rightarrow> False);
          waitErr = (case oc of OnDone e \<Rightarrow> e | OnTimeout g \<Rightarrow> drainAfterKill g | OnCancel g \<Rightarrow> drainAfterKill g)
      in case waitErr of
           WNil \<Rightarrow> Inr \<lparr>xr_ExitCode = 0, xr_TimedOut = timedOut, xr_Canceled = canceled\<rparr>
         | WExit c \<Rightarrow> Inr \<lparr>xr_ExitCode = c, xr_TimedOut = timedOut, xr_Canceled = canceled\<rparr>
         | WOther err \<Rightarrow>
             if \<not> timedOut \<and> \<not> canceled then Inl err
             else Inr \<lparr>xr_ExitCode = 0, xr_TimedOut = timedOut, xr_Canceled = canceled\<rparr>)"

subsection \<open>Cleaning the output\<close>

definition esc :: char where "esc = CHR 0x1B"
definition bel :: char where "bel = CHR 0x07"

definition csi_param :: "char \<Rightarrow> bool" where
  "csi_param c \<longleftrightarrow> 0x20 \<le> (of_char c :: nat) \<and> (of_char c :: nat) < 0x40"

text \<open>The rest after an OSC sequence: past BEL or ESC backslash, or the end.\<close>

fun skip_osc :: "string \<Rightarrow> string" where
  "skip_osc [] = []"
| "skip_osc (c # cs) =
     (if c = bel then cs
      else if c = esc \<and> cs \<noteq> [] \<and> hd cs = CHR 0x5C then tl cs
      else skip_osc cs)"

lemma skip_osc_length: "length (skip_osc s) \<le> length s"
  by (induction s) (auto simp: le_SucI)

function stripANSI :: "string \<Rightarrow> string" where
  "stripANSI [] = []"
| "stripANSI (c # cs) =
     (if c \<noteq> esc then c # stripANSI cs
      else case cs of
        [] \<Rightarrow> []
      | d # ds \<Rightarrow>
          if d = CHR ''['' then stripANSI (tl (dropWhile csi_param ds))
          else if d = CHR '']'' then stripANSI (skip_osc ds)
          else stripANSI ds)"
  by pat_completeness auto
termination
  by (relation "measure length") (use skip_osc_length length_dropWhile_le [of csi_param] in \<open>auto simp: less_Suc_eq_le le_SucI le_diff_conv\<close>)

declare stripANSI.simps(2) [simp del]

text \<open>
  \<open>strings.Map\<close> over the runes (an invalid byte is the replacement rune); \<open>format_rune\<close> decides
  Unicode's categories Cf and Cs.
\<close>

definition keep_rune :: "(string \<Rightarrow> bool) \<Rightarrow> string \<Rightarrow> bool" where
  "keep_rune format_rune r \<longleftrightarrow>
     (if r \<in> {[CHR 0x09], [CHR 0x0A], [CHR 0x0D]} then True
      else if length r = 1 \<and> ((of_char (hd r) :: nat) < 0x20 \<or> (of_char (hd r) :: nat) = 0x7F) then False
      else \<not> format_rune r)"

definition sanitizeOutput :: "(string \<Rightarrow> bool) \<Rightarrow> string \<Rightarrow> string" where
  "sanitizeOutput format_rune s = concat (filter (keep_rune format_rune) (runes (stripANSI s)))"

subsection \<open>\<open>time.Duration\<close> as text\<close>

definition pad_zero :: "nat \<Rightarrow> string \<Rightarrow> string" where
  "pad_zero w s = replicate (w - length s) CHR ''0'' @ s"

text \<open>\<open>v / 10 ^ prec\<close> with its fraction, trailing zeros dropped.\<close>

definition show_frac :: "nat \<Rightarrow> nat \<Rightarrow> string" where
  "show_frac v prec =
     (let f = v mod 10 ^ prec; fs = trim_right ''0'' (pad_zero prec (show_nat f)) in
      show_nat (v div 10 ^ prec) @ (if f = 0 then [] else ''.'' @ fs))"

definition show_duration :: "int \<Rightarrow> string" where
  "show_duration d =
     (let u = nat \<bar>d\<bar>; sign = (if d < 0 then ''-'' else []);
          v = u div 1000000000
      in if d = 0 then ''0s''
         else if u < 1000 then sign @ show_nat u @ ''ns''
         else if u < 1000000 then sign @ show_frac u 3 @ [CHR 0xC2, CHR 0xB5] @ ''s''
         else if u < 1000000000 then sign @ show_frac u 6 @ ''ms''
         else sign
           @ (if v div 3600 > 0 then show_nat (v div 3600) @ ''h'' else [])
           @ (if v div 60 > 0 then show_nat (v div 60 mod 60) @ ''m'' else [])
           @ show_frac ((v mod 60) * 1000000000 + u mod 1000000000) 9 @ ''s'')"

text \<open>\<open>d.Round(time.Second)\<close>, half away from zero.\<close>

definition round_second :: "int \<Rightarrow> int" where
  "round_second d =
     (let m = 1000000000; u = \<bar>d\<bar>; r = u mod m; q = (if r + r < m then u - r else u + m - r)
      in if d < 0 then - q else q)"

subsection \<open>Reports of the bash tool\<close>

definition DefaultYield :: int where "DefaultYield = 10 * 1000000000"
definition DefaultHardTimeout :: int where "DefaultHardTimeout = 30 * 60 * 1000000000"
definition defaultScope :: string where "defaultScope = ''default''"

record bash_request =
  br_Command :: string
  br_Timeout :: int
  br_PTY :: bool
  br_YieldMs :: int
  br_Background :: bool

record bash_result =
  Output :: string
  ExitCode :: int
  TimedOut :: bool
  Canceled :: bool
  Backgrounded :: bool
  SessionID :: string
  Truncation :: "truncation_result option"

definition bash_scope :: "string option \<Rightarrow> string" where
  "bash_scope scopeFn = (case scopeFn of Some s \<Rightarrow> if s \<noteq> [] then s else defaultScope | None \<Rightarrow> defaultScope)"

definition formatResult ::
  "(string \<Rightarrow> bool) \<Rightarrow> int option \<Rightarrow> string \<Rightarrow> int \<Rightarrow> bool \<Rightarrow> bool \<Rightarrow> int \<Rightarrow> bash_result" where
  "formatResult format_rune env raw0 exitCode timedOut canceled timeout =
     (let raw = truncateMiddle (sanitizeOutput format_rune raw0) (maxOutputChars env);
          trunc = TruncateTail raw default_opts;
          out1 = (if Content trunc = [] then ''(no output)'' else Content trunc);
          out2 = (if Truncated trunc
                  then out1 @ nl @ nl @ ''[Output truncated to last '' @ show_int MaxOutputLines @ '' lines / ''
                       @ show_int (MaxOutputBytes div 1024) @ ''KB]''
                  else out1);
          out3 = out2 @ (if timedOut then nl @ nl @ ''Command timed out after '' @ show_duration timeout
                         else if canceled then nl @ nl @ ''Command aborted''
                         else if exitCode \<noteq> 0 then nl @ nl @ ''Command exited with code '' @ show_int exitCode
                         else [])
      in \<lparr>Output = out3, ExitCode = exitCode, TimedOut = timedOut, Canceled = canceled,
          Backgrounded = False, SessionID = [], Truncation = Some trunc\<rparr>)"

definition backgroundedResult :: "(string \<Rightarrow> bool) \<Rightarrow> exec_session \<Rightarrow> bash_result" where
  "backgroundedResult format_rune s =
     (let msg = ''Command still running (session '' @ x_ID s @ '', pid '' @ show_int (x_pid s)
                @ ''). Use the process tool for follow-up.'';
          out = sanitizeOutput format_rune (x_Log s)
      in \<lparr>Output = (if out \<noteq> [] then Content (TruncateTail out default_opts) @ nl @ nl @ msg else msg),
          ExitCode = 0, TimedOut = False, Canceled = False, Backgrounded = True,
          SessionID = x_ID s, Truncation = None\<rparr>)"

text \<open>\<open>runBlocking\<close>: \<open>out\<close> is what the executor streamed, \<open>res\<close> what it returned.\<close>

definition runBlocking ::
  "(string \<Rightarrow> bool) \<Rightarrow> int option \<Rightarrow> string \<Rightarrow> (string + exec_result) \<Rightarrow> bash_request \<Rightarrow> string + bash_result" where
  "runBlocking format_rune env out res req =
     (case res of
        Inl err \<Rightarrow> Inl err
      | Inr r \<Rightarrow> Inr (formatResult format_rune env out (xr_ExitCode r) (xr_TimedOut r) (xr_Canceled r) (br_Timeout req)))"

definition hard_timeout :: "bash_request \<Rightarrow> int" where
  "hard_timeout req = (if br_Timeout req = 0 then DefaultHardTimeout else br_Timeout req)"

definition yield_after :: "bash_request \<Rightarrow> int" where
  "yield_after req = (if br_YieldMs req = 0 \<and> \<not> br_Background req then DefaultYield else br_YieldMs req)"

text \<open>
  \<open>runSession\<close> up to its \<open>select\<close>: the session is created and the process started (\<open>started\<close> is
  the pid or the error); a background request returns at once. \<open>Inl\<close> is the returned value,
  \<open>Inr\<close> the id of the session it waits for.
\<close>

definition runSession_begin ::
  "(string \<Rightarrow> bool) \<Rightarrow> string option \<Rightarrow> (string + int) \<Rightarrow> bash_request \<Rightarrow> session_world \<Rightarrow>
   ((string + bash_result) + string) \<times> session_world" where
  "runSession_begin format_rune scopeFn started req w =
     (let scope = bash_scope scopeFn; (i, w1) = sr_Create scope (br_Command req) w in
      case started of
        Inl err \<Rightarrow> (Inl (Inl err), snd (sr_Remove scope i w1))
      | Inr pid \<Rightarrow>
          let w2 = upd_obj i (supervise pid) w1 in
          if br_Background req then (Inl (Inr (backgroundedResult format_rune (obj w2 i))), w2)
          else (Inr i, w2))"

datatype session_event = SessDone | SessYield | SessCanceled

text \<open>
  The branch of the \<open>select\<close> that was taken, in the world of that moment; for the cancelled
  branch the world is the one after \<open>Kill\<close> and \<open><-sess.Done()\<close>.
\<close>

definition runSession_end ::
  "(string \<Rightarrow> bool) \<Rightarrow> int option \<Rightarrow> string option \<Rightarrow> bash_request \<Rightarrow> string \<Rightarrow> session_event \<Rightarrow> session_world \<Rightarrow>
   bash_result \<times> session_world" where
  "runSession_end format_rune env scopeFn req i ev w =
     (let scope = bash_scope scopeFn; s = obj w i; hard = hard_timeout req in
      case ev of
        SessDone \<Rightarrow>
          (formatResult format_rune env (x_Log s) (x_exitCode s) (x_state s = SessionTimedOut) False hard,
           snd (sr_Remove scope i w))
      | SessYield \<Rightarrow> (backgroundedResult format_rune s, w)
      | SessCanceled \<Rightarrow>
          (formatResult format_rune env (x_Log s) (x_exitCode s) False True hard, snd (sr_Remove scope i w)))"

text \<open>
  \<open>run\<close>: which path a request takes. \<open>canBackground\<close> says whether the executor can start
  processes in the background, \<open>hasSessions\<close> whether there is a session registry.
\<close>

datatype run_path = RunRefused string | RunSession | RunBlocking

definition bash_run :: "bool \<Rightarrow> bool \<Rightarrow> bash_request \<Rightarrow> run_path" where
  "bash_run canBackground hasSessions req =
     (if br_Command req = [] then RunRefused ''command is required''
      else if canBackground \<and> hasSessions \<and> \<not> br_PTY req then RunSession
      else RunBlocking)"

text \<open>
  A foreground command whose session ended leaves no session behind and reports the exit code
  the process had; one that outlives its window stays in the registry under its id.
\<close>

lemma runSession_end_table:
  assumes "i |\<in>| sw_table w" "x_Scope (obj w i) = bash_scope scopeFn"
  shows "i |\<in>| sw_table (snd (runSession_end fr env scopeFn req i ev w)) \<longleftrightarrow> ev = SessYield"
    "ev \<noteq> SessYield \<Longrightarrow> ExitCode (fst (runSession_end fr env scopeFn req i ev w)) = x_exitCode (obj w i)"
  using assms
  by (auto simp: runSession_end_def Let_def sr_Remove_def formatResult_def split: session_event.splits)

subsection \<open>The process tool\<close>

fun state_text :: "session_state \<Rightarrow> string" where
  "state_text SessionRunning = ''running''"
| "state_text SessionExited = ''exited''"
| "state_text SessionKilled = ''killed''"
| "state_text SessionTimedOut = ''timed_out''"

definition formatStatus :: "int \<Rightarrow> exec_session \<Rightarrow> string" where
  "formatStatus now s =
     x_ID s @ '' ['' @ state_text (x_state s) @ ''] pid='' @ show_int (x_pid s)
     @ (if x_state s \<noteq> SessionRunning then '' exit='' @ show_int (x_exitCode s)
        else '' up='' @ show_duration (round_second (now - x_StartedAt s)))
     @ ''  '' @ (if length (x_Command s) > 60 then take 57 (x_Command s) @ ''...'' else x_Command s)"

definition nonEmpty :: "string \<Rightarrow> string" where
  "nonEmpty s = (if s = [] then ''(no output)'' else s)"

definition pt_list :: "string \<Rightarrow> session_world \<Rightarrow> string \<times> session_world" where
  "pt_list scope w =
     (let (ids, w1) = sr_List scope w in
      (if ids = [] then ''No background sessions.''
       else trim_right nl (concat (map (\<lambda>i. formatStatus (sw_now w1) (obj w1 i) @ nl) ids)), w1))"

text \<open>A reply, an error, or (for \<open>kill\<close>) a wait for the end of the session whose status is the reply.\<close>

datatype process_reply = Reply string | Refused string | AwaitDone string

text \<open>
  \<open>Execute\<close>; \<open>quoted\<close> is \<open>%q\<close>, \<open>stdin_err\<close> the error of writing to the process's input and
  \<open>kill_err\<close> the error of sending it a signal.
\<close>

definition Process_Execute ::
  "(string \<Rightarrow> string) \<Rightarrow> string option \<Rightarrow> string option \<Rightarrow> string option \<Rightarrow> (string \<times> json) list \<Rightarrow>
   session_world \<Rightarrow> process_reply \<times> session_world" where
  "Process_Execute quoted scopeFn stdin_err kill_err args w =
     (let action = str_arg args ''action''; scope = bash_scope scopeFn; i = str_arg args ''session'';
          unknown = Refused (''unknown session '' @ quoted i)
      in if action = [] then (Refused ''action is required'', w)
         else if action = ''list'' then (let (t, w1) = pt_list scope w in (Reply t, w1))
         else if i = [] then (Refused (''session is required for action '' @ quoted action), w)
         else if action = ''poll'' then
           (case sr_Get scope i w of
              (None, w1) \<Rightarrow> (unknown, w1)
            | (Some _, w1) \<Rightarrow>
                (Reply (formatStatus (sw_now w1) (obj w1 i) @ nl @ nl @ nonEmpty (fst (x_Poll (obj w1 i)))),
                 upd_obj i (snd \<circ> x_Poll) w1))
         else if action = ''log'' then
           (case sr_Get scope i w of
              (None, w1) \<Rightarrow> (unknown, w1)
            | (Some _, w1) \<Rightarrow>
                (Reply (formatStatus (sw_now w1) (obj w1 i) @ nl @ nl @ nonEmpty (x_Log (obj w1 i))), w1))
         else if action = ''write'' then
           (case sr_Get scope i w of
              (None, w1) \<Rightarrow> (unknown, w1)
            | (Some _, w1) \<Rightarrow>
                let d0 = str_arg args ''input''; d = (if has_suffix d0 nl then d0 else d0 @ nl) in
                (case x_WriteStdin (obj w1 i) of
                   Some err \<Rightarrow> (Refused err, w1)
                 | None \<Rightarrow>
                     (case stdin_err of
                        Some err \<Rightarrow> (Refused err, w1)
                      | None \<Rightarrow> (Reply (''Wrote '' @ show_nat (length d) @ '' bytes to session '' @ i @ '' stdin.''), w1))))
         else if action = ''kill'' then
           (case sr_Get scope i w of
              (None, w1) \<Rightarrow> (unknown, w1)
            | (Some _, w1) \<Rightarrow>
                (case (snd (x_Kill (obj w1 i)), kill_err) of
                   (True, Some err) \<Rightarrow> (Refused err, upd_obj i (fst \<circ> x_Kill) w1)
                 | _ \<Rightarrow> (AwaitDone i, upd_obj i (fst \<circ> x_Kill) w1)))
         else if action = ''remove'' then
           (case sr_Remove scope i w of
              (None, w1) \<Rightarrow> (unknown, w1)
            | (Some _, w1) \<Rightarrow> (Reply (''Removed session '' @ i @ ''.''), upd_obj i (fst \<circ> x_Kill) w1))
         else (Refused (''unknown action '' @ quoted action), w))"

subsection \<open>The environment of a child\<close>

lemma stripDenied_key:
  "kv \<in> set (stripDenied base ts) \<Longrightarrow> env_key kv = Some k \<Longrightarrow> k \<notin> set (denied_of ts)"
  by (auto simp: stripDenied_def Let_def split: if_splits)

text \<open>The index agrees with the entries: the last entry of each key.\<close>

definition index_ok :: "(string \<Rightarrow> nat option) \<Rightarrow> string list \<Rightarrow> bool" where
  "index_ok idx env \<longleftrightarrow>
     (\<forall>k i. idx k = Some i \<longrightarrow> i < length env \<and> env_key (env ! i) = Some k
        \<and> (\<forall>j. i < j \<and> j < length env \<longrightarrow> env_key (env ! j) \<noteq> Some k))
     \<and> (\<forall>k j. idx k = None \<and> j < length env \<longrightarrow> env_key (env ! j) \<noteq> Some k)"

lemma index_ok_snoc:
  "index_ok idx env \<Longrightarrow>
   index_ok (case env_key kv of Some k \<Rightarrow> idx(k \<mapsto> length env) | None \<Rightarrow> idx) (env @ [kv])"
  by (auto simp: index_ok_def nth_append less_Suc_eq split: option.splits)

lemma env_index_ok: "index_ok (env_index base) base"
proof (induction base rule: rev_induct)
  case Nil
  then show ?case by (simp add: env_index_def index_ok_def)
next
  case (snoc kv base)
  have "env_index (base @ [kv]) =
    (case env_key kv of Some k \<Rightarrow> (env_index base)(k \<mapsto> length base) | None \<Rightarrow> env_index base)"
    by (simp add: env_index_def enumerate_append_eq split: option.split)
  with index_ok_snoc [OF snoc] show ?case by simp
qed

lemma find_rev_Some:
  assumes "i < length env" "P (env ! i)" "\<forall>j. i < j \<and> j < length env \<longrightarrow> \<not> P (env ! j)"
  shows "find P (rev env) = Some (env ! i)"
proof -
  have "env = take i env @ env ! i # drop (Suc i) env" using assms(1) by (simp add: id_take_nth_drop)
  moreover have "\<forall>x \<in> set (rev (drop (Suc i) env)). \<not> P x"
    using assms(3) by (auto simp: in_set_conv_nth)
  then have "find P (rev (drop (Suc i) env)) = None" by (simp add: find_None_iff)
  moreover have "find P (xs @ y # ys) = Some y" if "find P xs = None" "P y" for xs y ys
    using that by (induction xs) auto
  ultimately show ?thesis using assms(2) by (metis append_Cons append.assoc append_Nil rev.simps(2) rev_append)
qed

lemma env_get_index:
  assumes "index_ok idx env"
  shows "env_get env k = map_option (\<lambda>i. drop (length k + 1) (env ! i)) (idx k)"
proof (cases "idx k")
  case None
  then have "find (\<lambda>kv. env_key kv = Some k) (rev env) = None"
    using assms by (auto simp: index_ok_def find_None_iff in_set_conv_nth)
  then show ?thesis using None by (simp add: env_get_def)
next
  case (Some i)
  then show ?thesis
    using assms find_rev_Some [of i env "\<lambda>kv. env_key kv = Some k"] by (simp add: index_ok_def env_get_def)
qed

lemma index_okD:
  assumes "index_ok idx env"
  shows "idx k = Some i \<Longrightarrow> i < length env" "idx k = Some i \<Longrightarrow> env_key (env ! i) = Some k"
    "idx k = Some i \<Longrightarrow> i < j \<Longrightarrow> j < length env \<Longrightarrow> env_key (env ! j) \<noteq> Some k"
    "idx k = None \<Longrightarrow> j < length env \<Longrightarrow> env_key (env ! j) \<noteq> Some k"
  using assms by (auto simp: index_ok_def)

lemma index_ok_inj: "index_ok idx env \<Longrightarrow> idx k = Some i \<Longrightarrow> idx k' = Some i \<Longrightarrow> k = k'"
  using index_okD(2) [of idx env k i] index_okD(2) [of idx env k' i] by simp

lemma index_ok_update:
  assumes ok: "index_ok idx env" and k: "idx k = Some i" and kv: "env_key kv = Some k"
  shows "index_ok idx (env[i := kv])"
proof -
  have same: "env_key (env[i := kv] ! j) = env_key (env ! j)" for j
    using index_okD(2) [OF ok k] kv index_okD(1) [OF ok k] by (cases "j = i") simp_all
  show ?thesis using ok unfolding index_ok_def same length_list_update .
qed

lemma find_append: "find P (xs @ ys) = (case find P xs of None \<Rightarrow> find P ys | Some x \<Rightarrow> Some x)"
  by (induction xs) auto

text \<open>Overriding as a map: an override wins over the base, and a later override over an earlier one.\<close>

lemma merge_loop_get:
  assumes "index_ok idx out"
  shows "env_get (merge_loop overrides out idx) k =
    (case env_get overrides k of Some v \<Rightarrow> Some v | None \<Rightarrow> env_get out k)"
  using assms
proof (induction overrides out idx rule: merge_loop.induct)
  case (1 out idx)
  then show ?case by (simp add: env_get_def)
next
  case (2 kv overrides out idx)
  have cons: "env_get (kv # overrides) k =
    (case env_get overrides k of Some v \<Rightarrow> Some v
     | None \<Rightarrow> if env_key kv = Some k then Some (drop (length k + 1) kv) else None)"
    by (simp add: env_get_def find_append split: option.split)
  show ?case
  proof (cases "env_key kv")
    case None
    with 2 show ?thesis by (simp add: cons split: option.split)
  next
    case (Some key)
    show ?thesis
    proof (cases "idx key")
      case None
      let ?idx = "idx(key \<mapsto> length out)"
      have ok: "index_ok ?idx (out @ [kv])" using index_ok_snoc [OF "2.prems", of kv] Some by simp
      have "env_get (out @ [kv]) k = (if key = k then Some (drop (length k + 1) kv) else env_get out k)"
        using Some by (simp add: env_get_def)
      then show ?thesis
        unfolding merge_loop.simps Some None option.case "2.IH"(2) [OF Some None ok] cons
        by (simp split: option.split)
    next
      case (Some i)
      note idx = Some and key = \<open>env_key kv = Some key\<close>
      have ok: "index_ok idx (out[i := kv])" using index_ok_update [OF "2.prems" idx key] .
      have "i < length out" using "2.prems" idx by (auto simp: index_ok_def)
      then have "env_get (out[i := kv]) k = (if key = k then Some (drop (length k + 1) kv) else env_get out k)"
        using env_get_index [OF ok, of k] env_get_index [OF "2.prems", of k] idx "2.prems"
        index_ok_inj [OF "2.prems" idx, of k] by (cases "idx k") (auto simp: nth_list_update)
      then show ?thesis
        unfolding merge_loop.simps key idx option.case "2.IH"(3) [OF key idx ok] cons
        by (simp split: option.split)
    qed
  qed
qed

lemma mergeEnv_get:
  "env_get (mergeEnv base overrides) k =
     (case env_get overrides k of Some v \<Rightarrow> Some v | None \<Rightarrow> env_get base k)"
  using merge_loop_get [OF env_index_ok] by (auto simp: mergeEnv_def env_get_def)

lemma stripDenied_get:
  "env_get (stripDenied base ts) k = (if k \<in> set (denied_of ts) then None else env_get base k)"
proof (cases "k \<in> set (denied_of ts)")
  case True
  then have "\<forall>kv \<in> set (rev (stripDenied base ts)). env_key kv \<noteq> Some k" using stripDenied_key by fastforce
  then have "find (\<lambda>kv. env_key kv = Some k) (rev (stripDenied base ts)) = None" by (auto simp: find_None_iff)
  with True show ?thesis by (simp add: env_get_def)
next
  case False
  have "find P (filter Q xs) = find P xs" if "\<And>x. P x \<Longrightarrow> Q x" for P Q and xs :: "string list"
    using that by (induction xs) auto
  from this [of "\<lambda>kv. env_key kv = Some k"] False show ?thesis
    by (simp add: env_get_def stripDenied_def Let_def rev_filter)
qed

lemma tf_Apply_Env: "ex_Env (fold tf_Apply ts req) = ex_Env req" "ex_Command (fold tf_Apply ts req) = ex_Command req"
proof -
  have "ex_Env (tf_Apply t r) = ex_Env r \<and> ex_Command (tf_Apply t r) = ex_Command r" for t r
    by (cases t) (auto split: option.split)
  then have "ex_Env (fold tf_Apply ts req) = ex_Env req \<and> ex_Command (fold tf_Apply ts req) = ex_Command req"
    by (induction ts arbitrary: req) simp_all
  then show "ex_Env (fold tf_Apply ts req) = ex_Env req" "ex_Command (fold tf_Apply ts req) = ex_Command req" by auto
qed

text \<open>The wiring of the agent's shell: the default sanitizer and the chalkboard's directory.\<close>

definition agent_transformers :: "string option \<Rightarrow> transformer list" where
  "agent_transformers cwdFn = [EnvSanitizer DefaultDaemonEnvDenylist, CwdResolver cwdFn]"

lemma bashToolEnv_get:
  "env_get bashToolEnv ''FIGARO_NO_BIND'' = Some ''1''"
  "k \<in> set DefaultDaemonEnvDenylist \<Longrightarrow> env_get bashToolEnv k = None"
  by (auto simp: bashToolEnv_def DefaultDaemonEnvDenylist_def env_get_def env_key_def)

text \<open>
  C29: A command of the bash tool cannot mistake itself for the daemon or rebind its shell: whatever
  the daemon's own environment holds, in the child none of the daemon variables is set and
  \<open>FIGARO_NO_BIND\<close> is 1; every variable that is neither denied nor overridden is passed on.
\<close>

theorem child_environment_safe:
  assumes "buildCmd environ (agent_transformers cwdFn) req = Inr c" "ex_Env req = bashToolEnv"
  shows "env_get (cmd_Env c) ''FIGARO_NO_BIND'' = Some ''1''
    \<and> (k \<in> set DefaultDaemonEnvDenylist \<longrightarrow> env_get (cmd_Env c) k = None)
    \<and> (k \<notin> set DefaultDaemonEnvDenylist \<and> env_get bashToolEnv k = None \<longrightarrow>
         env_get (cmd_Env c) k = env_get environ k)"
proof -
  have "cmd_Env c = mergeEnv (stripDenied environ (agent_transformers cwdFn)) bashToolEnv"
    using assms by (auto simp: buildCmd_def Let_def tf_Apply_Env split: if_splits)
  then show ?thesis
    by (auto simp: mergeEnv_get stripDenied_get bashToolEnv_get agent_transformers_def)
qed

theorem child_environment_safe_witness:
  "\<exists>c. buildCmd [''_FIGARO_DAEMON=1'', ''HOME=/h''] (agent_transformers None)
         \<lparr>ex_Command = ''ls'', ex_Cwd = [], ex_Env = bashToolEnv, ex_Timeout = 0, ex_PTY = False\<rparr> = Inr c
     \<and> env_get (cmd_Env c) ''_FIGARO_DAEMON'' = None"
proof -
  let ?req = "\<lparr>ex_Command = ''ls'', ex_Cwd = [], ex_Env = bashToolEnv, ex_Timeout = 0, ex_PTY = False\<rparr>"
  obtain c where "buildCmd [''_FIGARO_DAEMON=1'', ''HOME=/h''] (agent_transformers None) ?req = Inr c"
    by (simp add: buildCmd_def Let_def tf_Apply_Env)
  with child_environment_safe [OF this, of "''_FIGARO_DAEMON''"] show ?thesis
    by (auto simp: DefaultDaemonEnvDenylist_def)
qed

subsection \<open>Clean output\<close>

lemma stripANSI_no_esc: "esc \<notin> set (stripANSI s)"
proof (induction s rule: stripANSI.induct)
  case (2 c cs)
  then show ?case by (auto simp: stripANSI.simps(2) split: list.splits)
qed simp

text \<open>A control byte other than tab, line feed and carriage return.\<close>

definition control :: "char \<Rightarrow> bool" where
  "control c \<longleftrightarrow> ((of_char c :: nat) < 0x20 \<or> (of_char c :: nat) = 0x7F) \<and> c \<notin> {CHR 0x09, CHR 0x0A, CHR 0x0D}"

lemma rune_bytes:
  assumes "r \<in> set (runes s)" "c \<in> set r" "(of_char c :: nat) < 0x80"
  shows "r = [c]"
  using assms
proof (induction s rule: runes.induct)
  case (2 b bs)
  define w where "w = rune_width (b # bs)"
  show ?case
  proof (cases "w = 0")
    case True
    with 2 show ?thesis by (auto simp: runes.simps(2) Let_def w_def rune_error_def)
  next
    case False
    show ?thesis
    proof (cases "r = take w (b # bs)")
      case True
      have sh: "lead_len b = w" "w - 1 \<le> length bs" "\<forall>c \<in> set (take (w - 1) bs). \<not> RuneStart c"
        using rune_width_shape [of b bs w] False by (auto simp: w_def)
      have r: "r = b # take (w - 1) bs" using True False by (cases w) auto
      have "RuneStart c" using "2.prems"(3) by (simp add: RuneStart_def)
      with sh(3) r "2.prems"(2) have c: "c = b" by auto
      then have "w = 1" using sh(1) "2.prems"(3) by (simp add: lead_len_def)
      with r c show ?thesis by simp
    next
      case neq: False
      with "2.prems" False 2 show ?thesis by (auto simp: runes.simps(2) Let_def w_def)
    qed
  qed
qed simp


subsection \<open>A long last line disappears\<close>

lemma stripANSI_plain: "esc \<notin> set s \<Longrightarrow> stripANSI s = s"
  by (induction s) (auto simp: stripANSI.simps(2))

definition wide_rune :: string where
  "wide_rune = [CHR 0xE4, CHR 0xB8, CHR 0xAD]"

lemma runes_wide: "runes (concat (replicate n wide_rune) @ nl) = replicate n wide_rune @ [nl]"
proof (induction n)
  case 0
  show ?case by (simp add: runes.simps(2) rune_width_def byte_in_def)
next
  case (Suc n)
  have "rune_width (wide_rune @ t) = 3" for t
    by (simp add: wide_rune_def rune_width_def byte_in_def accept_lo_def accept_hi_def)
  then have "runes (wide_rune @ t) = wide_rune # runes t" for t
    by (simp add: wide_rune_def runes.simps(2) Let_def)
  with Suc show ?case by simp
qed

lemma set_wide: "set (concat (replicate n wide_rune)) \<subseteq> set wide_rune"
  by (induction n) auto

text \<open>
  A command that prints one line of 20000 three-byte runes and a newline is reported as having
  printed nothing: the line is within the character limit but, being longer than the byte limit,
  it is dropped whole once the empty line after its newline has been kept.
\<close>

theorem long_line_reported_empty:
  assumes "\<not> format_rune wide_rune"
  shows "Output (formatResult format_rune None (concat (replicate 20000 wide_rune) @ nl) 0 False False t) =
    ''(no output)'' @ nl @ nl @ ''[Output truncated to last '' @ show_int 2000 @ '' lines / '' @ show_int 50 @ ''KB]''"
proof -
  define line where "line = concat (replicate 20000 wide_rune)"
  have len: "length line = 60000" by (simp add: line_def length_concat wide_rune_def sum_list_replicate)
  have chars: "set line \<subseteq> set wide_rune" unfolding line_def by (rule set_wide)
  have strip: "stripANSI (line @ nl) = line @ nl"
    by (rule stripANSI_plain) (use chars in \<open>auto simp: wide_rune_def esc_def\<close>)
  have keep: "keep_rune format_rune wide_rune" "keep_rune format_rune nl"
    using assms by (simp_all add: keep_rune_def wide_rune_def)
  have san: "sanitizeOutput format_rune (line @ nl) = line @ nl"
    unfolding sanitizeOutput_def strip unfolding line_def runes_wide by (simp add: keep)
  have mid: "truncateMiddle (line @ nl) MaxOutputChars = line @ nl"
    unfolding truncateMiddle_def line_def runes_wide Let_def by (simp add: MaxOutputChars_def)
  have "CHR 0x0A \<notin> set line" using chars by (auto simp: wide_rune_def)
  moreover have "lim_bytes default_opts \<le> length line" by (simp add: len MaxOutputBytes_def)
  ultimately have "Content (TruncateTail (line @ nl) default_opts) = []" "Truncated (TruncateTail (line @ nl) default_opts)"
    using TruncateTail_drops_long_line by blast+
  then show ?thesis
    unfolding line_def [symmetric]
    by (simp add: formatResult_def Let_def san maxOutputChars_def mid MaxOutputLines_def MaxOutputBytes_def)
qed

theorem long_line_reported_empty_witness:
  "Output (formatResult (\<lambda>_. False) None (concat (replicate 20000 wide_rune) @ nl) 0 False False 0) =
    ''(no output)'' @ nl @ nl @ ''[Output truncated to last '' @ show_int 2000 @ '' lines / '' @ show_int 50 @ ''KB]''"
  by (rule long_line_reported_empty) simp

end
