(* ===== verification/Tool_Registry.thy ===== *)
theory Tool_Registry
  imports Message
begin

section \<open>The tools an agent offers (\<open>internal/tool\<close>: \<open>registry.go\<close>, \<open>summarize.go\<close>, \<open>preview.go\<close>)\<close>

text \<open>
  A name-keyed collection of tools. A tool is its name and the two optional methods the display
  asks for (\<open>Summarize\<close>, \<open>PreviewArg\<close>), absent when the tool does not implement them; what a
  tool does when it runs is the business of the tool theories.
\<close>

record tool =
  t_Name :: string
  t_Summarize :: "(args \<Rightarrow> string) option"
  t_PreviewArg :: "string option"

type_synonym tools = "(string, tool) fmap"

datatype register_error = NilTool | EmptyName | DuplicateTool string

text \<open>A nil tool is \<open>None\<close>.\<close>

definition tr_Register :: "tool option \<Rightarrow> tools \<Rightarrow> register_error option \<times> tools" where
  "tr_Register t r =
     (case t of
        None \<Rightarrow> (Some NilTool, r)
      | Some u \<Rightarrow>
          if t_Name u = [] then (Some EmptyName, r)
          else if fmlookup r (t_Name u) \<noteq> None then (Some (DuplicateTool (t_Name u)), r)
          else (None, fmupd (t_Name u) u r))"

text \<open>\<open>MustRegister\<close>: the panic carries the error, and what was registered before it stays.\<close>

fun tr_MustRegister :: "tool option list \<Rightarrow> tools \<Rightarrow> register_error option \<times> tools" where
  "tr_MustRegister [] r = (None, r)"
| "tr_MustRegister (t # ts) r =
     (case tr_Register t r of (Some err, r') \<Rightarrow> (Some err, r') | (None, r') \<Rightarrow> tr_MustRegister ts r')"

definition tr_Get :: "string \<Rightarrow> tools \<Rightarrow> tool option" where
  "tr_Get name r = fmlookup r name"

definition tr_Names :: "tools \<Rightarrow> string list" where
  "tr_Names r = fmkeys r"

definition tr_List :: "tools \<Rightarrow> tool list" where
  "tr_List r = sort_key t_Name (map (\<lambda>k. the (fmlookup r k)) (fmkeys r))"

definition tr_Len :: "tools \<Rightarrow> nat" where
  "tr_Len r = fcard (fmdom r)"

definition Summarizer :: "tools option \<Rightarrow> string \<Rightarrow> args \<Rightarrow> string" where
  "Summarizer r name as =
     (case r of
        None \<Rightarrow> []
      | Some ts \<Rightarrow>
          (case tr_Get name ts of
             None \<Rightarrow> []
           | Some t \<Rightarrow> (case t_Summarize t of None \<Rightarrow> [] | Some f \<Rightarrow> f as)))"

definition PreviewArger :: "tools option \<Rightarrow> string \<Rightarrow> string" where
  "PreviewArger r name =
     (case r of
        None \<Rightarrow> []
      | Some ts \<Rightarrow>
          (case tr_Get name ts of
             None \<Rightarrow> []
           | Some t \<Rightarrow> (case t_PreviewArg t of None \<Rightarrow> [] | Some a \<Rightarrow> a)))"

subsection \<open>The registry as a map\<close>

text \<open>Every tool stands under its own, non-empty name.\<close>

definition tools_ok :: "tools \<Rightarrow> bool" where
  "tools_ok r \<longleftrightarrow> (\<forall>k t. fmlookup r k = Some t \<longrightarrow> t_Name t = k \<and> k \<noteq> [])"

lemma tr_Register_ok [wf_intros]: "tools_ok r \<Longrightarrow> tools_ok (snd (tr_Register t r))"
  by (auto simp: tools_ok_def tr_Register_def split: option.splits)

lemma tr_MustRegister_ok [wf_intros]: "tools_ok r \<Longrightarrow> tools_ok (snd (tr_MustRegister ts r))"
proof (induction ts r rule: tr_MustRegister.induct)
  case (2 t ts r)
  have "tools_ok (snd (tr_Register t r))" using "2.prems" by (rule tr_Register_ok)
  with "2.IH" show ?case by (cases "tr_Register t r") (auto split: option.splits)
qed simp

lemma tr_List_names: "tools_ok r \<Longrightarrow> map t_Name (tr_List r) = tr_Names r"
proof -
  assume ok: "tools_ok r"
  have "(t_Name \<circ> (\<lambda>k. the (fmlookup r k))) k = k" if "k \<in> set (fmkeys r)" for k
    using ok that by (auto simp: tools_ok_def fmlookup_dom'_iff)
  then have m: "map t_Name (map (\<lambda>k. the (fmlookup r k)) (fmkeys r)) = fmkeys r"
    unfolding map_map by (rule map_idI)
  then have "sorted (map t_Name (map (\<lambda>k. the (fmlookup r k)) (fmkeys r)))" by simp
  then have "tr_List r = map (\<lambda>k. the (fmlookup r k)) (fmkeys r)"
    unfolding tr_List_def by (rule sort_key_id_if_sorted)
  with m show ?thesis by (simp add: tr_Names_def)
qed

text \<open>
  A registration either succeeds and adds exactly the tool under its name, or leaves the
  registry as it was: a name once taken keeps its first tool.
\<close>

lemma tr_Register_lookup:
  "tr_Register (Some t) r = (None, r') \<Longrightarrow>
   tr_Get n r' = (if n = t_Name t then Some t else tr_Get n r) \<and> tr_Get (t_Name t) r = None
   \<and> tr_Len r' = tr_Len r + 1"
  "tr_Register t0 r = (Some err, r') \<Longrightarrow> r' = r"
  by (auto simp: tr_Register_def tr_Get_def tr_Len_def fcard_finsert_disjoint fmlookup_dom_iff
      split: if_splits option.splits)

end
