(* ===== verification/Aria_Client.thy ===== *)
theory Aria_Client
  imports Aria_Server
begin

section \<open>The aria client (\<open>internal/livelog/aria/client.go\<close>)\<close>

record aria_client =
  ac_closed :: "aria_msg list"
  ac_closedSeen :: "int fset"
  ac_closedFloor :: int
  ac_closedLimit :: int
  ac_lastCommittedLT :: int
  ac_openLT :: int
  ac_openRole :: string
  ac_openV :: int
  ac_openOrder :: "string list"
  ac_openBlock :: "(string, node) fmap"

datatype aria_event =
    OnMetrics aria_metrics
  | OnClosed aria_msg
  | OnLive int string "node list"
  | OnDesync int

definition NewClient :: aria_client where
  "NewClient = \<lparr>ac_closed = [], ac_closedSeen = {||}, ac_closedFloor = 0, ac_closedLimit = 0, ac_lastCommittedLT = 0,
     ac_openLT = 0, ac_openRole = [], ac_openV = 0, ac_openOrder = [], ac_openBlock = fmempty\<rparr>"

definition trimClosed :: "aria_client \<Rightarrow> aria_client" where
  "trimClosed c =
     (if ac_closedLimit c \<le> 0 \<or> int (length (ac_closed c)) \<le> ac_closedLimit c then c
      else let sorted = sort_key msg_lt (ac_closed c);
               kept = drop (length sorted - nat (ac_closedLimit c)) sorted;
               c1 = c\<lparr>ac_closed := kept, ac_closedSeen := fset_of_list (map msg_lt kept)\<rparr>
           in if length kept > 0 \<and> msg_lt (kept ! 0) > ac_closedFloor c
              then c1\<lparr>ac_closedFloor := msg_lt (kept ! 0)\<rparr> else c1)"

definition SetClosedLimit :: "aria_client \<Rightarrow> int \<Rightarrow> aria_client" where
  "SetClosedLimit c limit = trimClosed (c\<lparr>ac_closedLimit := limit\<rparr>)"

definition Cursor :: "aria_client \<Rightarrow> int" where
  "Cursor c = ac_lastCommittedLT c"

definition OpenAnimating :: "aria_client \<Rightarrow> bool" where
  "OpenAnimating c =
     (if ac_openLT c = 0 then False
      else \<exists>n \<in> fmran' (ac_openBlock c). n_type n = NodeTool \<and> n_status n = StatusRunning)"

definition seenClosed :: "aria_client \<Rightarrow> int \<Rightarrow> bool" where
  "seenClosed c lt \<longleftrightarrow> lt < ac_closedFloor c \<or> lt |\<in>| ac_closedSeen c"

definition advanceCommitted :: "int \<Rightarrow> aria_client \<Rightarrow> aria_client" where
  "advanceCommitted lt c = (if lt > ac_lastCommittedLT c then c\<lparr>ac_lastCommittedLT := lt\<rparr> else c)"

definition openNodes :: "aria_client \<Rightarrow> node list" where
  "openNodes c = map (block_at (ac_openBlock c)) (ac_openOrder c)"

definition resetOpen :: "aria_client \<Rightarrow> aria_client" where
  "resetOpen c = c\<lparr>ac_openLT := 0, ac_openRole := [], ac_openV := 0, ac_openOrder := [], ac_openBlock := fmempty\<rparr>"

text \<open>One iteration over \<open>r.Committed\<close>: the client, the finalized messages, \<open>desync\<close>.\<close>

definition mark_seen :: "int \<Rightarrow> aria_client \<Rightarrow> aria_client" where
  "mark_seen lt c = c\<lparr>ac_closedSeen := finsert lt (ac_closedSeen c)\<rparr>"

definition apply_committed ::
  "committed \<Rightarrow> aria_client \<times> aria_msg list \<times> int \<Rightarrow> aria_client \<times> aria_msg list \<times> int" where
  "apply_committed cm st =
     (let (c, finalized, desync) = st
      in if cm_Full cm then
           (let unseen = \<not> seenClosed c (cm_lt cm);
                c1 = (if unseen then mark_seen (cm_lt cm) c else c);
                fin = (if unseen
                       then finalized @ [\<lparr>msg_lt = cm_lt cm, msg_role = cm_role cm, msg_nodes = cm_nodes cm\<rparr>]
                       else finalized);
                c2 = (if cm_lt cm = ac_openLT c1 then resetOpen c1 else c1)
            in (advanceCommitted (cm_lt cm) c2, fin, desync))
         else if ac_openLT c = cm_lt cm \<and> ac_openV c = cm_v cm then
           (let unseen = cm_lt cm |\<notin>| ac_closedSeen c;
                c1 = (if unseen then mark_seen (cm_lt cm) c else c);
                fin = (if unseen
                       then finalized @ [\<lparr>msg_lt = cm_lt cm, msg_role = ac_openRole c, msg_nodes = Some (openNodes c)\<rparr>]
                       else finalized)
            in (resetOpen (advanceCommitted (cm_lt cm) c1), fin, desync))
         else (c, finalized, ac_lastCommittedLT c))"

text \<open>Folding the node deltas of a live frame.\<close>

definition apply_node :: "node_delta \<Rightarrow> aria_client \<Rightarrow> aria_client" where
  "apply_node nd c =
     (let cur = fmlookup (ac_openBlock c) (nd_id nd);
          base = (case cur of Some n \<Rightarrow> n | None \<Rightarrow> zero_node);
          c1 = (if cur = None then c\<lparr>ac_openOrder := ac_openOrder c @ [nd_id nd]\<rparr> else c)
      in c1\<lparr>ac_openBlock := fmupd (nd_id nd) (foldDelta base nd) (ac_openBlock c1)\<rparr>)"

definition apply_live :: "live \<Rightarrow> aria_client \<Rightarrow> aria_client" where
  "apply_live f c =
     (let c1 = (if ac_openLT c \<noteq> l_lt f
                then c\<lparr>ac_openLT := l_lt f, ac_openRole := l_role f, ac_openOrder := [], ac_openBlock := fmempty\<rparr>
                else c);
          c2 = (if l_role f \<noteq> [] then c1\<lparr>ac_openRole := l_role f\<rparr> else c1)
      in (fold apply_node (l_nodes f) c2)\<lparr>ac_openV := l_v f\<rparr>)"

definition ac_Apply :: "aria_client \<Rightarrow> aria_read \<Rightarrow> aria_client \<times> aria_event list" where
  "ac_Apply c r =
     (let (c1, finalized, desync) = fold apply_committed (ar_committed r) (c, [], -1);
          c2 = trimClosed (c1\<lparr>ac_closed := ac_closed c1 @ finalized\<rparr>);
          c3 = (case ar_live r of None \<Rightarrow> c2 | Some f \<Rightarrow> apply_live f c2);
          live_ev = (case ar_live r of None \<Rightarrow> [] | Some f \<Rightarrow> [OnLive (ac_openLT c3) (ac_openRole c3) (openNodes c3)])
      in (c3, (case ar_metrics r of None \<Rightarrow> [] | Some m \<Rightarrow> [OnMetrics m])
            @ map OnClosed finalized @ live_ev @ (if desync \<ge> 0 then [OnDesync desync] else [])))"

record aria_view =
  vw_closed :: "aria_msg list"
  vw_open :: "aria_msg option"

definition ac_View :: "aria_client \<Rightarrow> aria_view" where
  "ac_View c =
     \<lparr>vw_closed = sort_key msg_lt (ac_closed c),
      vw_open = (if ac_openLT c \<noteq> 0
                 then Some \<lparr>msg_lt = ac_openLT c, msg_role = ac_openRole c, msg_nodes = Some (openNodes c)\<rparr>
                 else None)\<rparr>"

end
