(* ===== verification/Aria_Sync.thy ===== *)
theory Aria_Sync
  imports Aria_Client
begin

section \<open>Server and client together\<close>

text \<open>
  One subscriber of a running server. \<open>srv_step\<close> is what the agent does to its server, with main
  times that grow; \<open>live_sys\<close> interleaves those steps with the client taking pages from its
  mailbox. The client attaches by subscribing and reading the whole aria in one step.
\<close>

inductive srv_step :: "aria_server \<Rightarrow> int \<Rightarrow> aria_server \<Rightarrow> int \<Rightarrow> bool" where
  step_open: "h < lt \<Longrightarrow> srv_step s h (sv_Open s lt role) lt"
| step_update: "\<forall>n \<in> set nodes. texts_short n \<Longrightarrow> srv_step s h (sv_Update s nodes) h"
| step_close: "sv_open s = Some om \<Longrightarrow> om_order om \<noteq> [] \<Longrightarrow> srv_step s h (sv_Close s) h"
| step_abandon: "srv_step s h (sv_Abandon s) h"
| step_commit: "h < msg_lt m \<Longrightarrow> msg_nodes m \<noteq> None \<Longrightarrow> srv_step s h (sv_Commit s m) (msg_lt m)"
| step_subscribe: "srv_step s h (snd (sv_Subscribe s)) h"

inductive srv_reach :: "aria_server \<Rightarrow> int \<Rightarrow> bool" where
  reach_new: "srv_reach NewServer 0"
| reach_step: "srv_reach s h \<Longrightarrow> srv_step s h s' h' \<Longrightarrow> srv_reach s' h'"

inductive live_sys :: "int \<Rightarrow> aria_server \<Rightarrow> aria_client \<Rightarrow> aria_event list \<Rightarrow> int \<Rightarrow> bool" for k where
  sys_attach: "srv_reach s h \<Longrightarrow> sv_Subscribe s = (k, s') \<Longrightarrow> ac_Apply NewClient (sv_Read s' 0) = (c, evs)
    \<Longrightarrow> live_sys k s' c evs h"
| sys_server: "live_sys k s c evs h \<Longrightarrow> srv_step s h s' h' \<Longrightarrow> live_sys k s' c evs h'"
| sys_pump: "live_sys k s c evs h \<Longrightarrow> fmlookup (sv_subs s) k = Some (r # rs) \<Longrightarrow> ac_Apply c r = (c', es)
    \<Longrightarrow> live_sys k (s\<lparr>sv_subs := fmupd k rs (sv_subs s)\<rparr>) c' (evs @ es) h"

subsection \<open>The server's invariant\<close>

definition srv_inv :: "aria_server \<Rightarrow> int \<Rightarrow> bool" where
  "srv_inv s h \<longleftrightarrow> 0 \<le> h
     \<and> (\<forall>m \<in> set (sv_closed s). 0 < msg_lt m \<and> msg_lt m \<le> h \<and> msg_nodes m \<noteq> None)
     \<and> distinct (map msg_lt (sv_closed s))
     \<and> (\<forall>i. sv_nextID s \<le> i \<longrightarrow> fmlookup (sv_subs s) i = None)
     \<and> (case sv_open s of None \<Rightarrow> True
        | Some om \<Rightarrow> om_wf om \<and> 0 < om_lt om \<and> om_lt om \<le> h \<and> om_lt om \<notin> msg_lt ` set (sv_closed s)
            \<and> 0 \<le> om_ver om \<and> (om_order om = [] \<longleftrightarrow> om_ver om = 0))"

definition update_open :: "node list \<Rightarrow> open_msg \<Rightarrow> open_msg" where
  "update_open nodes om =
     (let (om', ds) = update_loop 0 nodes om in if ds = [] then om' else om'\<lparr>om_ver := om_ver om' + 1\<rparr>)"

lemma sv_Update_open: "sv_open (sv_Update s nodes) = map_option (update_open nodes) (sv_open s)"
  "sv_closed (sv_Update s nodes) = sv_closed s" "sv_nextID (sv_Update s nodes) = sv_nextID s"
  by (auto simp: sv_Update_def update_open_def Let_def split_beta split: option.splits)

lemma update_open_simps [simp]:
  "om_lt (update_open nodes om) = om_lt om"
  "om_order (update_open nodes om) = om_order (fst (update_loop 0 nodes om))"
  "om_ver (update_open nodes om) = (if snd (update_loop 0 nodes om) = [] then om_ver om else om_ver om + 1)"
  by (simp_all add: update_open_def split_beta Let_def update_loop_keeps)

lemma update_open_wf: "om_wf om \<Longrightarrow> \<forall>n \<in> set nodes. texts_short n \<Longrightarrow> om_wf (update_open nodes om)"
  using update_loop_wf [of om nodes 0] by (simp add: update_open_def split_beta Let_def om_wf_def)

lemma update_open_ver:
  assumes "om_wf om" "om_order om = [] \<longleftrightarrow> om_ver om = 0" "0 \<le> om_ver om"
  shows "om_order (update_open nodes om) = [] \<longleftrightarrow> om_ver (update_open nodes om) = 0"
proof (cases "om_order om = []")
  case True
  then show ?thesis using assms update_loop_order [OF assms(1), where ns = nodes and i = 0] by (cases "nodes = []") auto
next
  case False
  then have "om_order (fst (update_loop 0 nodes om)) \<noteq> []"
    using update_loop_prefix [of om 0 nodes] by auto
  with False assms(2,3) show ?thesis by auto
qed

lemma sv_subs_Update: "fmlookup (sv_subs (sv_Update s nodes)) i = None \<longleftrightarrow> fmlookup (sv_subs s) i = None"
  by (auto simp: sv_Update_def Let_def split_beta split: option.splits)

lemma srv_inv_step: "srv_step s h s' h' \<Longrightarrow> srv_inv s h \<Longrightarrow> srv_inv s' h' \<and> h \<le> h'"
proof (induction rule: srv_step.induct)
  case (step_open h lt s role)
  then show ?case by (auto simp: srv_inv_def sv_Open_def om_wf_def)
next
  case (step_update nodes s h)
  show ?case
  proof (cases "sv_open s")
    case None
    with step_update show ?thesis by (simp add: sv_Update_def)
  next
    case (Some om)
    with step_update show ?thesis
      by (simp add: srv_inv_def sv_Update_open sv_subs_Update update_open_wf update_open_ver del: update_open_simps(2,3))
         simp
  qed
next
  case (step_close s om h)
  then show ?case by (auto simp: srv_inv_def sv_Close_def sealed_nodes_def Let_def)
next
  case (step_abandon s h)
  then show ?case by (auto simp: srv_inv_def sv_Abandon_def)
next
  case (step_commit h m s)
  then show ?case by (force simp: srv_inv_def sv_Commit_def split: option.splits)
next
  case (step_subscribe s h)
  then show ?case by (auto simp: srv_inv_def sv_Subscribe_def split: option.splits)
qed

lemma srv_inv_reach: "srv_reach s h \<Longrightarrow> srv_inv s h"
  by (induction rule: srv_reach.induct) (auto simp: srv_inv_def NewServer_def dest: srv_inv_step)

subsection \<open>A client that has taken every page\<close>

definition clean_msg :: "aria_msg \<Rightarrow> aria_msg" where
  "clean_msg m = m\<lparr>msg_nodes := map_option (map wire) (msg_nodes m)\<rparr>"

definition open_synced :: "open_msg \<Rightarrow> aria_client \<Rightarrow> bool" where
  "open_synced om c \<longleftrightarrow> ac_openLT c = om_lt om \<and> ac_openRole c = om_role om \<and> ac_openV c = om_ver om - 1
     \<and> ac_openOrder c = om_order om \<and> ac_openBlock c = fmmap wire (om_block om)"

definition synced :: "aria_server \<Rightarrow> int \<Rightarrow> aria_client \<Rightarrow> bool" where
  "synced s h c \<longleftrightarrow>
     map clean_msg (ac_closed c) = map clean_msg (sv_closed s)
     \<and> fset (ac_closedSeen c) = msg_lt ` set (sv_closed s)
     \<and> ac_closedFloor c = 0 \<and> ac_closedLimit c = 0 \<and> ac_openLT c \<le> h
     \<and> (case sv_open s of None \<Rightarrow> True
        | Some om \<Rightarrow> (if om_order om = [] then ac_openLT c \<noteq> om_lt om else open_synced om c))"

subsubsection \<open>Live frames\<close>

lemma apply_node_simps [simp]:
  "ac_openLT (apply_node d c) = ac_openLT c" "ac_openRole (apply_node d c) = ac_openRole c"
  "ac_closed (apply_node d c) = ac_closed c" "ac_closedSeen (apply_node d c) = ac_closedSeen c"
  "ac_closedFloor (apply_node d c) = ac_closedFloor c" "ac_closedLimit (apply_node d c) = ac_closedLimit c"
  "ac_lastCommittedLT (apply_node d c) = ac_lastCommittedLT c"
  by (simp_all add: apply_node_def Let_def)

lemma fold_apply_node_simps [simp]:
  "ac_openLT (fold apply_node ds c) = ac_openLT c" "ac_openRole (fold apply_node ds c) = ac_openRole c"
  "ac_closed (fold apply_node ds c) = ac_closed c" "ac_closedSeen (fold apply_node ds c) = ac_closedSeen c"
  "ac_closedFloor (fold apply_node ds c) = ac_closedFloor c" "ac_closedLimit (fold apply_node ds c) = ac_closedLimit c"
  "ac_lastCommittedLT (fold apply_node ds c) = ac_lastCommittedLT c"
  by (induction ds arbitrary: c) simp_all

definition blocks_synced :: "open_msg \<Rightarrow> aria_client \<Rightarrow> bool" where
  "blocks_synced om c \<longleftrightarrow> ac_openOrder c = om_order om \<and> ac_openBlock c = fmmap wire (om_block om)"

lemma node_delta_id [simp]: "nd_id (node_delta_of nid old n) = nid"
  by (simp add: node_delta_of_def Let_def split: option.split)

lemma apply_node_synced:
  fixes n :: node and nid :: string
  assumes "blocks_synced om c" and "om_wf om"
  defines "d \<equiv> node_delta_of nid (fmlookup (om_block om) nid) n"
  shows "blocks_synced (put_block nid n om) (if nd_Empty d then c else apply_node d c)"
proof (cases "fmlookup (om_block om) nid")
  case None
  then have d: "d = fullSet nid n" by (simp add: d_def node_delta_of_def)
  from None assms(1) show ?thesis
    by (simp add: d fullSet_not_Empty apply_node_def Let_def blocks_synced_def put_block_def foldDelta_fullSet
        fmap_ext)
next
  case (Some old)
  then have sh: "texts_short old" using assms(2) by (auto simp: om_wf_def)
  have fd: "foldDelta (wire old) d = wire n" unfolding d_def Some by (rule foldDelta_update [OF sh])
  have id: "nd_id d = nid" by (simp add: d_def)
  show ?thesis
  proof (cases "nd_Empty d")
    case True
    then have "wire old = wire n" using fd by (simp add: foldDelta_Empty)
    then have "fmmap wire (om_block om) = fmmap wire (fmupd nid n (om_block om))"
      using Some by (intro fmap_ext) auto
    with True Some assms(1) show ?thesis by (simp add: blocks_synced_def put_block_def)
  next
    case False
    then show ?thesis using Some assms(1) fd id
      by (simp add: blocks_synced_def put_block_def apply_node_def Let_def fmap_ext)
  qed
qed

lemma update_loop_synced:
  "blocks_synced om c \<Longrightarrow> om_wf om \<Longrightarrow> \<forall>n \<in> set ns. texts_short n \<Longrightarrow>
     blocks_synced (fst (update_loop i ns om)) (fold apply_node (snd (update_loop i ns om)) c)"
proof (induction ns arbitrary: i om c)
  case (Cons n ns)
  let ?d = "node_delta_of (blockID i n) (fmlookup (om_block om) (blockID i n)) n"
  have "blocks_synced (put_block (blockID i n) n om) (if nd_Empty ?d then c else apply_node ?d c)"
    by (rule apply_node_synced [OF Cons.prems(1,2)])
  then have "blocks_synced (fst (update_loop i (n # ns) om))
      (fold apply_node (snd (update_loop (i + 1) ns (put_block (blockID i n) n om))) (if nd_Empty ?d then c else apply_node ?d c))"
    unfolding update_loop_Cons using Cons.prems by (intro Cons.IH) (simp_all add: put_block_wf)
  then show ?case by (simp add: update_loop.simps(2) [of i n ns om] Let_def split_beta split: if_splits)
qed simp

lemma trimClosed_unbounded [simp]: "ac_closedLimit c = 0 \<Longrightarrow> trimClosed c = c"
  by (simp add: trimClosed_def)

lemma Apply_live_page:
  "ac_closedLimit c = 0 \<Longrightarrow> ac_Apply c (zero_read\<lparr>ar_live := Some f\<rparr>) =
     (apply_live f c, [OnLive (ac_openLT (apply_live f c)) (ac_openRole (apply_live f c)) (openNodes (apply_live f c))])"
  by (simp add: ac_Apply_def zero_read_def Let_def)

lemma apply_live_simps [simp]:
  "ac_closed (apply_live f c) = ac_closed c" "ac_closedSeen (apply_live f c) = ac_closedSeen c"
  "ac_closedFloor (apply_live f c) = ac_closedFloor c" "ac_closedLimit (apply_live f c) = ac_closedLimit c"
  "ac_openLT (apply_live f c) = l_lt f" "ac_openV (apply_live f c) = l_v f"
  "ac_openRole (apply_live f c) = (if l_role f \<noteq> [] \<or> ac_openLT c \<noteq> l_lt f then l_role f else ac_openRole c)"
  by (simp_all add: apply_live_def Let_def)

lemma apply_live_update:
  assumes "om_wf om" "om_order om = [] \<longleftrightarrow> om_ver om = 0"
    and "if om_order om = [] then ac_openLT c \<noteq> om_lt om else open_synced om c"
    and "\<forall>n \<in> set nodes. texts_short n" and "snd (update_loop 0 nodes om) \<noteq> []"
  shows "open_synced (update_open nodes om)
    (apply_live \<lparr>l_lt = om_lt om, l_v = om_ver om, l_role = (if om_ver om = 0 then om_role om else []),
        l_nodes = snd (update_loop 0 nodes om)\<rparr> c)" (is "open_synced _ (apply_live ?f c)")
proof -
  define c1 where "c1 = (if ac_openLT c \<noteq> om_lt om
      then c\<lparr>ac_openLT := om_lt om, ac_openRole := l_role ?f, ac_openOrder := [], ac_openBlock := fmempty\<rparr> else c)"
  define c2 where "c2 = (if l_role ?f \<noteq> [] then c1\<lparr>ac_openRole := l_role ?f\<rparr> else c1)"
  have "blocks_synced om c2"
  proof (cases "om_order om = []")
    case True
    moreover from this have "om_block om = fmempty"
      using assms(1) by (metis empty_set fmdom'_empty fmdom'_notD fmap_ext fmempty_lookup empty_iff om_wf_def)
    ultimately show ?thesis using assms(3) by (simp add: blocks_synced_def c2_def c1_def)
  next
    case False
    with assms(3) show ?thesis by (simp add: blocks_synced_def c2_def c1_def open_synced_def)
  qed
  then have "blocks_synced (fst (update_loop 0 nodes om)) (fold apply_node (snd (update_loop 0 nodes om)) c2)"
    by (rule update_loop_synced [OF _ assms(1,4)])
  moreover have "om_role (update_open nodes om) = om_role om" "om_block (update_open nodes om) = om_block (fst (update_loop 0 nodes om))"
    by (simp_all add: update_open_def split_beta Let_def update_loop_keeps)
  moreover have "apply_live ?f c = (fold apply_node (snd (update_loop 0 nodes om)) c2)\<lparr>ac_openV := om_ver om\<rparr>"
    by (simp add: apply_live_def Let_def c2_def c1_def)
  moreover have "ac_openRole c2 = om_role om" "ac_openLT c2 = om_lt om"
    using assms(2,3) by (auto simp: c2_def c1_def open_synced_def)
  ultimately show ?thesis using assms(5) by (simp add: open_synced_def blocks_synced_def)
qed

subsubsection \<open>Closed messages\<close>

lemma Apply_full_page:
  assumes "msg_nodes m \<noteq> None" "\<not> seenClosed c (msg_lt m)" "msg_lt m \<noteq> ac_openLT c" "ac_closedLimit c = 0"
  shows "ac_Apply c (zero_read\<lparr>ar_committed := [committed_of m]\<rparr>) =
    (advanceCommitted (msg_lt m) (mark_seen (msg_lt m) c)\<lparr>ac_closed := ac_closed c @ [m]\<rparr>, [OnClosed m])"
  using assms
  by (simp add: ac_Apply_def zero_read_def apply_committed_def cm_Full_def committed_of_def Let_def mark_seen_def
      advanceCommitted_def trimClosed_def)

lemma Apply_marker_page:
  assumes "ac_openLT c = lt" "ac_openV c = v" "lt |\<notin>| ac_closedSeen c" "ac_closedLimit c = 0"
  shows "ac_Apply c (zero_read\<lparr>ar_committed := [\<lparr>cm_lt = lt, cm_v = v, cm_role = [], cm_nodes = None\<rparr>]\<rparr>) =
    ((resetOpen (advanceCommitted lt (mark_seen lt c)))
       \<lparr>ac_closed := ac_closed c @ [\<lparr>msg_lt = lt, msg_role = ac_openRole c, msg_nodes = Some (openNodes c)\<rparr>]\<rparr>,
     [OnClosed \<lparr>msg_lt = lt, msg_role = ac_openRole c, msg_nodes = Some (openNodes c)\<rparr>])"
  using assms
  by (simp add: ac_Apply_def zero_read_def apply_committed_def cm_Full_def Let_def mark_seen_def resetOpen_def
      advanceCommitted_def trimClosed_def)

lemma client_simps [simp]:
  "ac_closed (advanceCommitted lt c) = ac_closed c" "ac_closedSeen (advanceCommitted lt c) = ac_closedSeen c"
  "ac_closedFloor (advanceCommitted lt c) = ac_closedFloor c" "ac_closedLimit (advanceCommitted lt c) = ac_closedLimit c"
  "ac_openLT (advanceCommitted lt c) = ac_openLT c" "ac_openRole (advanceCommitted lt c) = ac_openRole c"
  "ac_openV (advanceCommitted lt c) = ac_openV c" "ac_openOrder (advanceCommitted lt c) = ac_openOrder c"
  "ac_openBlock (advanceCommitted lt c) = ac_openBlock c"
  by (simp_all add: advanceCommitted_def)

lemma openNodes_synced:
  assumes "open_synced om c" "om_wf om"
  shows "map wire (openNodes c) = map wire (map (block_at (om_block om)) (om_order om))"
  using assms by (auto simp: openNodes_def open_synced_def block_at_def om_wf_def fmlookup_dom'_iff split: option.splits)

subsubsection \<open>Pages in sequence\<close>

fun run_pages :: "aria_client \<Rightarrow> aria_read list \<Rightarrow> aria_client \<times> aria_event list" where
  "run_pages c [] = (c, [])"
| "run_pages c (r # rs) = (let (c', es) = ac_Apply c r; (c'', es') = run_pages c' rs in (c'', es @ es'))"

lemma run_pages_append:
  "run_pages c (rs @ ts) = (let (c', es) = run_pages c rs; (c'', es') = run_pages c' ts in (c'', es @ es'))"
  by (induction rs arbitrary: c) (simp_all add: split_beta Let_def)

definition no_desync :: "aria_event list \<Rightarrow> bool" where
  "no_desync es \<longleftrightarrow> (\<forall>lt. OnDesync lt \<notin> set es)"

definition catches_up :: "aria_server \<Rightarrow> int \<Rightarrow> aria_client \<Rightarrow> aria_read list \<Rightarrow> bool" where
  "catches_up s h c box \<longleftrightarrow> synced s h (fst (run_pages c box)) \<and> no_desync (snd (run_pages c box))"

lemma catches_up_snoc:
  "catches_up s' h' c (box @ rs) \<longleftrightarrow>
     no_desync (snd (run_pages c box)) \<and> catches_up s' h' (fst (run_pages c box)) rs"
  by (auto simp: catches_up_def run_pages_append Let_def split_beta no_desync_def)

lemma catches_up_Nil: "catches_up s h c [] \<longleftrightarrow> synced s h c"
  by (simp add: catches_up_def no_desync_def)

lemma update_step:
  assumes inv: "srv_inv s h" and syn: "synced s h c" and sh: "\<forall>n \<in> set nodes. texts_short n"
    and box: "fmlookup (sv_subs s) k = Some box"
  shows "\<exists>rs. fmlookup (sv_subs (sv_Update s nodes)) k = Some (box @ rs) \<and> catches_up (sv_Update s nodes) h c rs"
proof (cases "sv_open s")
  case None
  then show ?thesis using syn box by (intro exI [of _ "[]"]) (simp add: sv_Update_def catches_up_Nil)
next
  case (Some om)
  have om: "om_wf om" "om_order om = [] \<longleftrightarrow> om_ver om = 0" using inv Some by (auto simp: srv_inv_def)
  have cs: "if om_order om = [] then ac_openLT c \<noteq> om_lt om else open_synced om c"
    using syn Some by (simp add: synced_def)
  let ?ds = "snd (update_loop 0 nodes om)"
  show ?thesis
  proof (cases "?ds = []")
    case True
    have "synced (sv_Update s nodes) h c"
    proof (cases "om_order om = []")
      case empty: True
      then have "nodes = []" using update_loop_order(2) [OF om(1)] True by blast
      with empty syn Some show ?thesis by (simp add: synced_def sv_Update_open)
    next
      case False
      have "blocks_synced (fst (update_loop 0 nodes om)) (fold apply_node ?ds c)"
        using False cs by (intro update_loop_synced [OF _ om(1) sh]) (simp add: blocks_synced_def open_synced_def)
      moreover have "om_order (fst (update_loop 0 nodes om)) \<noteq> []"
        using False update_loop_prefix [of om 0 nodes] by auto
      ultimately show ?thesis using False cs True syn Some
        by (simp add: synced_def sv_Update_open open_synced_def blocks_synced_def)
           (simp add: update_open_def split_beta update_loop_keeps)
    qed
    moreover have "sv_subs (sv_Update s nodes) = sv_subs s"
      using True Some by (simp add: sv_Update_def Let_def split_beta)
    ultimately show ?thesis using box by (intro exI [of _ "[]"]) (simp add: catches_up_Nil)
  next
    case False
    let ?f = "\<lparr>l_lt = om_lt om, l_v = om_ver om, l_role = (if om_ver om = 0 then om_role om else []), l_nodes = ?ds\<rparr>"
    have sub: "fmlookup (sv_subs (sv_Update s nodes)) k = Some (box @ [zero_read\<lparr>ar_live := Some ?f\<rparr>])"
      using False Some box by (simp add: sv_Update_def Let_def split_beta update_loop_keeps)
    have os: "open_synced (update_open nodes om) (apply_live ?f c)" by (rule apply_live_update [OF om cs sh False])
    have "om_order (update_open nodes om) \<noteq> []"
      using False by (intro notI) (metis om(1) snd_conv update_loop.simps(1) update_loop_order(1) update_open_simps(2))
    moreover have "om_lt om \<le> h" using inv Some by (simp add: srv_inv_def)
    ultimately have "synced (sv_Update s nodes) h (apply_live ?f c)"
      using syn Some os by (simp add: synced_def sv_Update_open del: update_open_simps)
    moreover have "ac_closedLimit c = 0" using syn by (simp add: synced_def)
    ultimately have "catches_up (sv_Update s nodes) h c [zero_read\<lparr>ar_live := Some ?f\<rparr>]"
      by (simp add: catches_up_def Apply_live_page no_desync_def)
    with sub show ?thesis by blast
  qed
qed

lemma close_step:
  assumes inv: "srv_inv s h" and syn: "synced s h c" and om: "sv_open s = Some om" "om_order om \<noteq> []"
    and box: "fmlookup (sv_subs s) k = Some box"
  shows "\<exists>rs. fmlookup (sv_subs (sv_Close s)) k = Some (box @ rs) \<and> catches_up (sv_Close s) h c rs"
proof -
  have wf: "om_wf om" "0 < om_ver om" "0 < om_lt om" "om_lt om \<le> h" "om_lt om \<notin> msg_lt ` set (sv_closed s)"
    using inv om by (auto simp: srv_inv_def)
  have os: "open_synced om c" using syn om by (simp add: synced_def)
  let ?p = "zero_read\<lparr>ar_committed := [\<lparr>cm_lt = om_lt om, cm_v = om_ver om - 1, cm_role = [], cm_nodes = None\<rparr>]\<rparr>"
  have sub: "fmlookup (sv_subs (sv_Close s)) k = Some (box @ [?p])"
    using om wf(2) box by (simp add: sv_Close_def Let_def)
  have "om_lt om |\<notin>| ac_closedSeen c" using syn wf(5) by (simp add: synced_def)
  then have ap: "ac_Apply c ?p = ((resetOpen (advanceCommitted (om_lt om) (mark_seen (om_lt om) c)))
       \<lparr>ac_closed := ac_closed c @ [\<lparr>msg_lt = om_lt om, msg_role = ac_openRole c, msg_nodes = Some (openNodes c)\<rparr>]\<rparr>,
     [OnClosed \<lparr>msg_lt = om_lt om, msg_role = ac_openRole c, msg_nodes = Some (openNodes c)\<rparr>])"
    using os syn by (intro Apply_marker_page) (simp_all add: open_synced_def synced_def)
  have "map clean_msg (ac_closed c) = map clean_msg (sv_closed s)"
    "fset (ac_closedSeen c) = msg_lt ` set (sv_closed s)" using syn by (simp_all add: synced_def)
  then have "synced (sv_Close s) h (fst (ac_Apply c ?p))"
    using os om openNodes_synced [OF os wf(1)] syn wf(3,4)
    by (simp add: ap synced_def sv_Close_def Let_def sealed_nodes_def clean_msg_def resetOpen_def mark_seen_def open_synced_def)
  then show ?thesis using sub by (intro exI) (auto simp: catches_up_def ap no_desync_def)
qed

lemma commit_step:
  assumes inv: "srv_inv s h" and syn: "synced s h c" and m: "h < msg_lt m" "msg_nodes m \<noteq> None"
    and box: "fmlookup (sv_subs s) k = Some box"
  shows "\<exists>rs. fmlookup (sv_subs (sv_Commit s m)) k = Some (box @ rs) \<and> catches_up (sv_Commit s m) (msg_lt m) c rs"
proof -
  let ?p = "zero_read\<lparr>ar_committed := [committed_of m]\<rparr>"
  have "\<forall>m' \<in> set (sv_closed s). msg_lt m' \<le> h" "0 \<le> h" using inv by (auto simp: srv_inv_def)
  then have "\<not> seenClosed c (msg_lt m)" "msg_lt m \<noteq> ac_openLT c" "ac_closedLimit c = 0"
    using syn m(1) by (force simp: synced_def seenClosed_def)+
  note ap = Apply_full_page [OF m(2) this]
  have "synced (sv_Commit s m) (msg_lt m) (fst (ac_Apply c ?p))"
    using syn m(1) by (auto simp: ap synced_def sv_Commit_def mark_seen_def open_synced_def split: option.splits)
  then show ?thesis using box
    by (intro exI [of _ "[?p]"]) (auto simp: catches_up_def ap no_desync_def sv_Commit_def)
qed

lemma srv_step_catches_up:
  "srv_step s h s' h' \<Longrightarrow> srv_inv s h \<Longrightarrow> synced s h c \<Longrightarrow> fmlookup (sv_subs s) k = Some box \<Longrightarrow>
     \<exists>rs. fmlookup (sv_subs s') k = Some (box @ rs) \<and> catches_up s' h' c rs"
proof (induction rule: srv_step.induct)
  case (step_open h lt s role)
  then have "synced (sv_Open s lt role) lt c" by (auto simp: synced_def sv_Open_def)
  with step_open show ?case by (intro exI [of _ "[]"]) (simp add: catches_up_Nil, simp add: sv_Open_def)
next
  case (step_abandon s h)
  then show ?case by (intro exI [of _ "[]"]) (auto simp: catches_up_Nil synced_def sv_Abandon_def)
next
  case (step_subscribe s h)
  then have "k \<noteq> sv_nextID s" by (auto simp: srv_inv_def)
  with step_subscribe show ?case
    by (intro exI [of _ "[]"]) (auto simp: catches_up_Nil synced_def sv_Subscribe_def)
qed (auto intro: update_step close_step commit_step)

subsubsection \<open>Attaching\<close>

lemma fold_full_pages:
  assumes "distinct (map msg_lt ms)" "\<forall>m \<in> set ms. msg_nodes m \<noteq> None \<and> 0 < msg_lt m \<and> msg_lt m |\<notin>| ac_closedSeen c"
    and "ac_openLT c = 0" "ac_closedFloor c = 0"
  shows "\<exists>cur. fold apply_committed (map committed_of ms) (c, fin, -1) =
    (c\<lparr>ac_closedSeen := ac_closedSeen c |\<union>| fset_of_list (map msg_lt ms), ac_lastCommittedLT := cur\<rparr>, fin @ ms, -1)"
  using assms
proof (induction ms arbitrary: c fin)
  case (Cons m ms)
  let ?c = "advanceCommitted (msg_lt m) (mark_seen (msg_lt m) c)"
  have step: "apply_committed (committed_of m) (c, fin, -1) = (?c, fin @ [m], -1)"
    using Cons.prems by (auto simp: apply_committed_def committed_of_def cm_Full_def seenClosed_def Let_def mark_seen_def)
  have "\<forall>m' \<in> set ms. msg_nodes m' \<noteq> None \<and> 0 < msg_lt m' \<and> msg_lt m' |\<notin>| ac_closedSeen ?c"
    using Cons.prems(1,2) by (auto simp: mark_seen_def) (metis imageI)
  then obtain cur where "fold apply_committed (map committed_of ms) (?c, fin @ [m], -1) =
    (?c\<lparr>ac_closedSeen := ac_closedSeen ?c |\<union>| fset_of_list (map msg_lt ms), ac_lastCommittedLT := cur\<rparr>, (fin @ [m]) @ ms, -1)"
    using Cons.IH [of ?c "fin @ [m]"] Cons.prems by (auto simp: mark_seen_def)
  then show ?case
    by (intro exI [of _ cur]) (simp add: step mark_seen_def advanceCommitted_def)
next
  case Nil
  show ?case by (intro exI [of _ "ac_lastCommittedLT c"]) simp
qed

lemma fold_full_nodes:
  fixes f :: "string \<Rightarrow> node"
  assumes "distinct ids" "\<forall>i \<in> set ids. fmlookup (ac_openBlock c) i = None"
  defines "r \<equiv> fold apply_node (map (\<lambda>i. fullSet i (f i)) ids) c"
  shows "ac_openOrder r = ac_openOrder c @ ids
    \<and> (\<forall>i. fmlookup (ac_openBlock r) i = (if i \<in> set ids then Some (wire (f i)) else fmlookup (ac_openBlock c) i))"
  using assms(1,2) unfolding r_def
proof (induction ids arbitrary: c)
  case (Cons i ids)
  let ?c = "apply_node (fullSet i (f i)) c"
  have c: "ac_openOrder ?c = ac_openOrder c @ [i]" "ac_openBlock ?c = fmupd i (wire (f i)) (ac_openBlock c)"
    using Cons.prems by (simp_all add: apply_node_def Let_def foldDelta_fullSet)
  have "\<forall>j \<in> set ids. fmlookup (ac_openBlock ?c) j = None" using Cons.prems by (auto simp: c)
  with Cons.IH [of ?c] Cons.prems(1) show ?case by (simp add: c)
qed simp

lemma attach_synced:
  assumes "srv_inv s h" and "ac_Apply NewClient (sv_Read s 0) = (c, evs)"
  shows "synced s h c \<and> no_desync evs"
proof -
  have inv: "distinct (map msg_lt (sv_closed s))" "\<forall>m \<in> set (sv_closed s). msg_nodes m \<noteq> None \<and> 0 < msg_lt m"
    "0 \<le> h" using assms(1) by (auto simp: srv_inv_def)
  obtain cur where "fold apply_committed (map committed_of (sv_closed s)) (NewClient, [], -1) =
      (NewClient\<lparr>ac_closedSeen := fset_of_list (map msg_lt (sv_closed s)), ac_lastCommittedLT := cur\<rparr>, sv_closed s, -1)"
    using fold_full_pages [OF inv(1), of NewClient "[]"] inv(2) by (auto simp: NewClient_def)
  moreover have "filter (\<lambda>m. \<not> msg_lt m \<le> 0) (sv_closed s) = sv_closed s" using inv(2) by (auto simp: filter_id_conv)
  moreover define c0 where "c0 = NewClient\<lparr>ac_closedSeen := fset_of_list (map msg_lt (sv_closed s)),
    ac_lastCommittedLT := cur, ac_closed := sv_closed s\<rparr>"
  ultimately have c: "c = (case ar_live (sv_Read s 0) of None \<Rightarrow> c0 | Some f \<Rightarrow> apply_live f c0)" and "no_desync evs"
    using assms(2) by (auto simp: ac_Apply_def sv_Read_def zero_read_def NewClient_def no_desync_def Let_def split: option.splits)
  have c0: "synced (s\<lparr>sv_open := None\<rparr>) h c0" "ac_openLT c0 = 0" "ac_openBlock c0 = fmempty" "ac_openOrder c0 = []"
    using inv(3) by (auto simp: synced_def c0_def NewClient_def fset_of_list.rep_eq)
  have "synced s h c"
  proof (cases "\<exists>om. sv_open s = Some om \<and> om_order om \<noteq> []")
    case False
    then have "ar_live (sv_Read s 0) = None" by (auto simp: sv_Read_def split: option.splits)
    with False c0 assms(1) show ?thesis by (auto simp: c synced_def srv_inv_def split: option.splits)
  next
    case True
    then obtain om where om: "sv_open s = Some om" "om_order om \<noteq> []" by blast
    have wf: "om_wf om" "0 < om_lt om" "om_lt om \<le> h" "0 < om_ver om" using assms(1) om by (auto simp: srv_inv_def)
    define c1 where "c1 = c0\<lparr>ac_openLT := om_lt om, ac_openRole := om_role om, ac_openOrder := [], ac_openBlock := fmempty\<rparr>"
    define r where "r = fold apply_node (map (\<lambda>i. fullSet i (block_at (om_block om) i)) (om_order om)) c1"
    have blk: "ac_openOrder r = om_order om"
      "\<forall>i. fmlookup (ac_openBlock r) i = (if i \<in> set (om_order om) then Some (wire (block_at (om_block om) i)) else None)"
      using fold_full_nodes [of "om_order om" c1 "block_at (om_block om)"] wf(1) c0
      by (auto simp: r_def c1_def om_wf_def)
    have "ac_openBlock r = fmmap wire (om_block om)"
      using wf(1) blk(2) by (intro fmap_ext) (auto simp: om_wf_def block_at_def fmlookup_dom'_iff split: option.splits)
    moreover have "c = r\<lparr>ac_openV := om_ver om - 1\<rparr>"
      using om wf c0(2) by (cases c0) (simp add: c sv_Read_def apply_live_def live_snapshot_def r_def c1_def Let_def)
    moreover have "ac_openLT r = om_lt om" "ac_openRole r = om_role om" by (simp_all add: r_def c1_def)
    ultimately have "open_synced om c" using blk(1) by (simp add: open_synced_def)
    moreover have "ac_closed c = ac_closed c0" "ac_closedSeen c = ac_closedSeen c0" "ac_closedFloor c = 0" "ac_closedLimit c = 0"
      using om c0(1) by (simp_all add: c sv_Read_def synced_def)
    ultimately show ?thesis using om wf(3) c0(1) by (simp add: synced_def open_synced_def)
  qed
  with \<open>no_desync evs\<close> show ?thesis by simp
qed

subsection \<open>Properties\<close>

lemma live_sys_inv:
  "live_sys k s c evs h \<Longrightarrow>
     srv_inv s h \<and> no_desync evs \<and> (\<exists>box. fmlookup (sv_subs s) k = Some box \<and> catches_up s h c box)"
proof (induction rule: live_sys.induct)
  case (sys_attach s h s' c evs)
  have "srv_step s h s' h" using sys_attach(2) step_subscribe [of s h] by simp
  then have inv: "srv_inv s' h" using srv_inv_reach [OF sys_attach(1)] srv_inv_step by blast
  moreover have "fmlookup (sv_subs s') k = Some []" using sys_attach(2) by (auto simp: sv_Subscribe_def)
  ultimately show ?case using attach_synced [OF inv sys_attach(3)] by (simp add: catches_up_Nil)
next
  case (sys_server s c evs h s' h')
  then obtain box where box: "fmlookup (sv_subs s) k = Some box" "catches_up s h c box" by blast
  then have "synced s h (fst (run_pages c box))" by (simp add: catches_up_def)
  with sys_server box obtain rs where "fmlookup (sv_subs s') k = Some (box @ rs)" "catches_up s' h' (fst (run_pages c box)) rs"
    using srv_step_catches_up by blast
  with sys_server box show ?case using srv_inv_step [OF sys_server.hyps(2)]
    by (auto simp: catches_up_snoc) (auto simp: catches_up_def)
next
  case (sys_pump s c evs h r rs c' es)
  let ?s = "s\<lparr>sv_subs := fmupd k rs (sv_subs s)\<rparr>"
  have run: "run_pages c (r # rs) = (fst (run_pages c' rs), es @ snd (run_pages c' rs))"
    using sys_pump(3) by (simp add: split_beta Let_def)
  have "catches_up s h c (r # rs)" using sys_pump.IH sys_pump(2) by simp
  then have "catches_up s h c' rs" "no_desync es" unfolding catches_up_def run by (auto simp: no_desync_def)
  then have "catches_up ?s h c' rs" by (simp add: catches_up_def synced_def)
  moreover have "srv_inv ?s h" using sys_pump.IH sys_pump(2) unfolding srv_inv_def by (auto split: option.splits)
  ultimately show ?case using \<open>no_desync es\<close> sys_pump.IH by (auto simp: no_desync_def)
qed



text \<open>
  \<open>ReadBefore\<close> answers the page of at most \<open>limit\<close> closed messages directly below the cursor,
  oldest first and in full, when the closed messages are in the order of their times.
\<close>

theorem ReadBefore_correct:
  assumes "sorted (map msg_lt (sv_closed s))" and "0 < beforeLT" and "0 < limit"
  shows "sv_ReadBefore s beforeLT limit =
    zero_read\<lparr>ar_committed := map committed_of (last_n (nat limit) (filter (\<lambda>m. msg_lt m < beforeLT) (sv_closed s)))\<rparr>"
proof -
  define hi where "hi = sort_search (length (sv_closed s)) (\<lambda>i. beforeLT \<le> msg_lt (sv_closed s ! i))"
  have tk: "take hi (sv_closed s) = filter (\<lambda>m. msg_lt m < beforeLT) (sv_closed s)"
    unfolding hi_def by (rule sort_search_sorted(1) [OF assms(1)])
  have "nat (int hi - limit) = hi - nat limit" using assms(3) by (simp add: nat_diff_distrib')
  moreover have "hi \<le> length (sv_closed s)" by (simp add: hi_def sort_search_le)
  ultimately have "drop (nat (if int hi - limit < 0 then 0 else int hi - limit)) (take hi (sv_closed s))
      = last_n (nat limit) (take hi (sv_closed s))"
    using assms(3) by (auto simp: last_n_def min_def)
  with assms(2,3) show ?thesis by (simp add: sv_ReadBefore_def Let_def tk flip: hi_def)
qed

theorem ReadBefore_correct_witness:
  "let m = (\<lambda>i. \<lparr>msg_lt = i, msg_role = ''user'', msg_nodes = Some []\<rparr>); s = sv_Restore NewServer (map m [1, 2, 4, 7])
   in ar_committed (sv_ReadBefore s 7 2) = map (\<lambda>i. committed_of (m i)) [2, 4]"
  unfolding Let_def
  by (subst ReadBefore_correct) (simp_all add: sv_Restore_def NewServer_def last_n_def zero_read_def)

lemma trimClosed_bound: "0 < ac_closedLimit c \<Longrightarrow> int (length (ac_closed (trimClosed c))) \<le> ac_closedLimit c"
  by (auto simp: trimClosed_def Let_def)

lemma trimClosed_limit [simp]: "ac_closedLimit (trimClosed c) = ac_closedLimit c"
  by (simp add: trimClosed_def Let_def)

lemma fold_committed_limit:
  "ac_closedLimit (fst (fold apply_committed cms st)) = ac_closedLimit (fst st)"
proof (induction cms arbitrary: st)
  case (Cons cm cms)
  have "ac_closedLimit (fst (apply_committed cm st)) = ac_closedLimit (fst st)"
    by (cases st) (simp add: apply_committed_def Let_def mark_seen_def resetOpen_def)
  with Cons show ?case by simp
qed simp

text \<open>
  a client with a retention limit never holds more closed messages than the limit after a
  page, and the snapshot of a message below its floor (one it has dropped) is not delivered
  again.
\<close>

theorem retention_limit:
  assumes "0 < ac_closedLimit c" and "ac_Apply c r = (c', evs)"
  shows "int (length (ac_closed c')) \<le> ac_closedLimit c \<and> ac_closedLimit c' = ac_closedLimit c
    \<and> (\<forall>m. msg_lt m < ac_closedFloor c' \<and> msg_nodes m \<noteq> None \<longrightarrow>
          OnClosed m \<notin> set (snd (ac_Apply c' (zero_read\<lparr>ar_committed := [committed_of m]\<rparr>))))"
proof -
  obtain c1 fin ds where f: "fold apply_committed (ar_committed r) (c, [], -1) = (c1, fin, ds)" by (cases "fold apply_committed (ar_committed r) (c, [], -1)")
  have l: "ac_closedLimit c1 = ac_closedLimit c" using fold_committed_limit [of "ar_committed r" "(c, [], -1)"] f by simp
  let ?c2 = "trimClosed (c1\<lparr>ac_closed := ac_closed c1 @ fin\<rparr>)"
  have c': "c' = (case ar_live r of None \<Rightarrow> ?c2 | Some g \<Rightarrow> apply_live g ?c2)"
    using assms(2) f by (auto simp: ac_Apply_def Let_def)
  have "ac_closed c' = ac_closed ?c2" "ac_closedLimit c' = ac_closedLimit c"
    by (simp_all add: c' l split: option.split)
  moreover have "int (length (ac_closed ?c2)) \<le> ac_closedLimit c"
    using trimClosed_bound [of "c1\<lparr>ac_closed := ac_closed c1 @ fin\<rparr>"] assms(1) l by simp
  moreover have "OnClosed m \<notin> set (snd (ac_Apply c' (zero_read\<lparr>ar_committed := [committed_of m]\<rparr>)))"
    if "msg_lt m < ac_closedFloor c'" "msg_nodes m \<noteq> None" for m
    using that by (simp add: ac_Apply_def zero_read_def apply_committed_def committed_of_def cm_Full_def seenClosed_def Let_def)
  ultimately show ?thesis by simp
qed

theorem retention_limit_witness:
  "let m = (\<lambda>i. \<lparr>msg_lt = i, msg_role = ''user'', msg_nodes = Some []\<rparr>);
       c = SetClosedLimit NewClient 2;
       c' = fst (ac_Apply c (zero_read\<lparr>ar_committed := map (\<lambda>i. committed_of (m i)) [3, 1, 2]\<rparr>))
   in length (ac_closed c') \<le> 2 \<and> map msg_lt (ac_closed c') = [2, 3]"
proof -
  let ?m = "\<lambda>i. \<lparr>msg_lt = i, msg_role = ''user'', msg_nodes = Some []\<rparr>"
  let ?c = "SetClosedLimit NewClient 2"
  let ?a = "ac_Apply ?c (zero_read\<lparr>ar_committed := map (\<lambda>i. committed_of (?m i)) [3, 1, 2]\<rparr>)"
  have "ac_closedLimit ?c = 2" by (simp add: SetClosedLimit_def NewClient_def)
  then have "int (length (ac_closed (fst ?a))) \<le> 2"
    using retention_limit [of ?c _ "fst ?a" "snd ?a"] by simp
  moreover have "map msg_lt (ac_closed (fst ?a)) = [2, 3]" by code_simp
  ultimately show ?thesis by (simp add: Let_def)
qed


text \<open>
  folding pages is not idempotent. A client that has read a snapshot which already contains
  an update, and then takes the frame of that update from its mailbox, splices the text in twice
  and holds a text the server never had, without a desync.
\<close>

theorem overlap_double_applies:
  "let p = (\<lambda>t. zero_node\<lparr>n_type := NodeProse, n_markdown := t\<rparr>);
       s0 = sv_Update (sv_Open NewServer 1 ''assistant'') [p ''ab''];
       s1 = sv_Update (snd (sv_Subscribe s0)) [p ''abc''];
       c = fst (ac_Apply NewClient (sv_Read s1 0));
       r = run_pages c (the (fmlookup (sv_subs s1) 0))
   in map n_markdown (openNodes c) = [''abc''] \<and> map n_markdown (openNodes (fst r)) = [''abcc'']
      \<and> list_all (\<lambda>e. case e of OnDesync lt \<Rightarrow> False | _ \<Rightarrow> True) (snd r)"
  by code_simp

end
