(* ===== verification/Restore_Race.thy ===== *)
theory Restore_Race
  imports Registry
begin

section \<open>Concurrent restores and kills (\<open>restoreByID\<close>, \<open>restoreOne\<close>, \<open>Registry.Kill\<close>)\<close>

text \<open>
  The handlers of the supervisor run one goroutine per request. This theory takes the two that
  create and destroy the agent of an existing aria apart into the steps another goroutine can
  observe: \<open>restoreByID\<close> with its per-aria lock, the second lookup, the construction of the agent
  (\<open>NewAgent\<close> repairs the tail of the log, so a second agent of the aria must not be writing to
  it), its registration or, when the registry refuses, its disposal; and \<open>Registry.Kill\<close> with
  the agent's own \<open>Kill\<close>, which returns when its final appends are done, between the two critical
  sections. An agent is an aria id with a serial number; \<open>rc_alive\<close> holds the agents whose
  goroutine may still write. Any interleaving of any number of goroutines is a run. \<open>create\<close> mints
  an id no other request knows and is not part of the race.
\<close>

type_synonym inst = "string \<times> nat"

datatype pc =
    Idle
  | Waiting string
  | Holding string
  | Checked string
  | Built inst
  | Discarding inst
  | Leaving string
  | KillWait inst
  | KillDone inst

record race =
  rc_reg :: "inst registry"
  rc_alive :: "inst set"
  rc_lock :: "string \<Rightarrow> nat option"
  rc_pc :: "nat \<Rightarrow> pc"
  rc_serial :: nat

definition race0 :: race where
  "race0 = \<lparr>rc_reg = NewRegistry, rc_alive = {}, rc_lock = (\<lambda>_. None), rc_pc = (\<lambda>_. Idle), rc_serial = 0\<rparr>"

definition goto :: "nat \<Rightarrow> pc \<Rightarrow> race \<Rightarrow> race" where
  "goto t p s = s\<lparr>rc_pc := (rc_pc s)(t := p)\<rparr>"

definition set_lock :: "string \<Rightarrow> nat option \<Rightarrow> race \<Rightarrow> race" where
  "set_lock i l s = s\<lparr>rc_lock := (rc_lock s)(i := l)\<rparr>"

definition set_alive :: "inst set \<Rightarrow> race \<Rightarrow> race" where
  "set_alive A s = s\<lparr>rc_alive := A\<rparr>"

definition set_reg :: "inst registry \<Rightarrow> race \<Rightarrow> race" where
  "set_reg r s = s\<lparr>rc_reg := r\<rparr>"

text \<open>\<open>restoreByID\<close> and \<open>restoreOne\<close>, step by step, in goroutine \<open>t\<close>.\<close>

inductive restore_step :: "nat \<Rightarrow> race \<Rightarrow> race \<Rightarrow> bool" for t where
  miss: "rc_pc s t = Idle \<Longrightarrow> rg_Get (rc_reg s) i = None \<Longrightarrow> restore_step t s (goto t (Waiting i) s)"
| lock: "rc_pc s t = Waiting i \<Longrightarrow> rc_lock s i = None \<Longrightarrow> restore_step t s (goto t (Holding i) (set_lock i (Some t) s))"
| hit: "rc_pc s t = Holding i \<Longrightarrow> rg_Get (rc_reg s) i \<noteq> None \<Longrightarrow> restore_step t s (goto t (Leaving i) s)"
| still_missing: "rc_pc s t = Holding i \<Longrightarrow> rg_Get (rc_reg s) i = None \<Longrightarrow> restore_step t s (goto t (Checked i) s)"
| unavailable: "rc_pc s t = Checked i \<Longrightarrow> restore_step t s (goto t (Leaving i) s)"
| build: "rc_pc s t = Checked i \<Longrightarrow>
    restore_step t s (goto t (Built (i, rc_serial s))
      (set_alive (insert (i, rc_serial s) (rc_alive s)) (s\<lparr>rc_serial := rc_serial s + 1\<rparr>)))"
| published: "rc_pc s t = Built a \<Longrightarrow> rg_Register fst a (rc_reg s) = (None, r) \<Longrightarrow>
    restore_step t s (goto t (Leaving (fst a)) (set_reg r s))"
| refused: "rc_pc s t = Built a \<Longrightarrow> rg_Register fst a (rc_reg s) = (Some e, r) \<Longrightarrow>
    restore_step t s (goto t (Discarding a) (set_reg r s))"
| discard: "rc_pc s t = Discarding a \<Longrightarrow>
    restore_step t s (goto t (Leaving (fst a)) (set_alive (rc_alive s - {a}) s))"
| unlock: "rc_pc s t = Leaving i \<Longrightarrow> restore_step t s (goto t Idle (set_lock i None s))"

text \<open>\<open>Registry.Kill\<close>.\<close>

inductive kill_step :: "nat \<Rightarrow> race \<Rightarrow> race \<Rightarrow> bool" for t where
  mark: "rc_pc s t = Idle \<Longrightarrow> kill_begin i (rc_reg s) = (Inr a, r) \<Longrightarrow> kill_step t s (goto t (KillWait a) (set_reg r s))"
| drained: "rc_pc s t = KillWait a \<Longrightarrow> kill_step t s (goto t (KillDone a) (set_alive (rc_alive s - {a}) s))"
| unpublish: "rc_pc s t = KillDone a \<Longrightarrow> kill_step t s (goto t Idle (set_reg (kill_finish (fst a) (rc_reg s)) s))"

text \<open>The other requests on the registry.\<close>

inductive other_step :: "race \<Rightarrow> race \<Rightarrow> bool" where
  "other_step s (set_reg (snd (rg_Bind pid i n (rc_reg s))) s)"
| "other_step s (set_reg (rg_Unbind pid (rc_reg s)) s)"
| "other_step s (set_reg (SetDraining (rc_reg s)) s)"

inductive race_reachable :: "race \<Rightarrow> bool" where
  start: "race_reachable race0"
| restoring: "race_reachable s \<Longrightarrow> restore_step t s s' \<Longrightarrow> race_reachable s'"
| killing: "race_reachable s \<Longrightarrow> kill_step t s s' \<Longrightarrow> race_reachable s'"
| other: "race_reachable s \<Longrightarrow> other_step s s' \<Longrightarrow> race_reachable s'"

inductive_cases restore_stepE: "restore_step t s s'"
inductive_cases kill_stepE: "kill_step t s s'"

subsection \<open>The invariant\<close>

text \<open>What a program counter says: the lock it holds, the aria it knows to be absent, the agent it is about to publish or to discard, the agent it kills.\<close>

fun locks :: "pc \<Rightarrow> string option" where
  "locks (Holding i) = Some i"
| "locks (Checked i) = Some i"
| "locks (Built a) = Some (fst a)"
| "locks (Discarding a) = Some (fst a)"
| "locks (Leaving i) = Some i"
| "locks _ = None"

fun absent :: "pc \<Rightarrow> string option" where
  "absent (Checked i) = Some i"
| "absent (Built a) = Some (fst a)"
| "absent (Discarding a) = Some (fst a)"
| "absent _ = None"

fun owns :: "pc \<Rightarrow> inst option" where
  "owns (Built a) = Some a"
| "owns (Discarding a) = Some a"
| "owns _ = None"

fun kills :: "pc \<Rightarrow> inst option" where
  "kills (KillWait a) = Some a"
| "kills (KillDone a) = Some a"
| "kills _ = None"

definition race_inv :: "race \<Rightarrow> bool" where
  "race_inv s \<longleftrightarrow>
     reg_inv fst (rc_reg s) \<and>
     (\<forall>a \<in> rc_alive s. fmlookup (rg_figaros (rc_reg s)) (fst a) = Some a \<or> (\<exists>t. owns (rc_pc s t) = Some a)) \<and>
     (\<forall>t i. locks (rc_pc s t) = Some i \<longrightarrow> rc_lock s i = Some t) \<and>
     (\<forall>t i. absent (rc_pc s t) = Some i \<longrightarrow> fmlookup (rg_figaros (rc_reg s)) i = None) \<and>
     (\<forall>t a. kills (rc_pc s t) = Some a \<longrightarrow>
        fst a |\<in>| rg_killing (rc_reg s) \<and> fmlookup (rg_figaros (rc_reg s)) (fst a) = Some a) \<and>
     (\<forall>t u a b. kills (rc_pc s t) = Some a \<longrightarrow> kills (rc_pc s u) = Some b \<longrightarrow> fst a = fst b \<longrightarrow> t = u) \<and>
     (\<forall>t a. rc_pc s t = KillDone a \<longrightarrow> a \<notin> rc_alive s)"

lemma race_invD:
  assumes "race_inv s"
  shows "reg_inv fst (rc_reg s)"
    and "a \<in> rc_alive s \<Longrightarrow> fmlookup (rg_figaros (rc_reg s)) (fst a) = Some a \<or> (\<exists>t. owns (rc_pc s t) = Some a)"
    and "locks (rc_pc s t) = Some i \<Longrightarrow> rc_lock s i = Some t"
    and "absent (rc_pc s t) = Some i \<Longrightarrow> fmlookup (rg_figaros (rc_reg s)) i = None"
    and "kills (rc_pc s t) = Some a \<Longrightarrow>
        fst a |\<in>| rg_killing (rc_reg s) \<and> fmlookup (rg_figaros (rc_reg s)) (fst a) = Some a"
    and "kills (rc_pc s t) = Some a \<Longrightarrow> kills (rc_pc s u) = Some b \<Longrightarrow> fst a = fst b \<Longrightarrow> t = u"
    and "rc_pc s t = KillDone a \<Longrightarrow> a \<notin> rc_alive s"
  using assms unfolding race_inv_def by blast+

lemma owns_absent: "owns p = Some a \<Longrightarrow> absent p = Some (fst a) \<and> locks p = Some (fst a)"
  by (cases p) auto

lemma absent_locks: "absent p = Some i \<Longrightarrow> locks p = Some i"
  by (cases p) auto

text \<open>Two live agents of one aria are the same agent.\<close>

lemma race_inv_unique:
  assumes inv: "race_inv s" and "a \<in> rc_alive s" "b \<in> rc_alive s" "fst a = fst b"
  shows "a = b"
proof -
  note A = race_invD(2) [OF inv]
  have same: "t = u" if "owns (rc_pc s t) = Some a" "owns (rc_pc s u) = Some b" for t u
    using that owns_absent race_invD(3) [OF inv] assms(4) by (metis option.inject)
  have clash: "\<not> (owns (rc_pc s t) = Some c \<and> fmlookup (rg_figaros (rc_reg s)) (fst c) = Some d)" for t c d
    using owns_absent race_invD(4) [OF inv] by (metis option.distinct(1))
  show ?thesis
    using A [OF assms(2)] A [OF assms(3)] same clash assms(4) by (metis option.inject)
qed

lemma checked_nobody_alive:
  assumes inv: "race_inv s" and pc: "rc_pc s t = Checked i" and "a \<in> rc_alive s"
  shows "fst a \<noteq> i"
proof
  assume eq: "fst a = i"
  have none: "fmlookup (rg_figaros (rc_reg s)) i = None" and lk: "rc_lock s i = Some t"
    using race_invD(3,4) [OF inv, of t i] pc by simp_all
  from race_invD(2) [OF inv assms(3)] none eq obtain u where u: "owns (rc_pc s u) = Some a" by auto
  then have "rc_lock s i = Some u" using owns_absent race_invD(3) [OF inv] eq by blast
  with lk have "u = t" by simp
  with u pc show False by simp
qed

lemma sel_simps [simp]:
  "rc_pc (goto t p s) = (rc_pc s)(t := p)" "rc_reg (goto t p s) = rc_reg s" "rc_alive (goto t p s) = rc_alive s"
  "rc_lock (goto t p s) = rc_lock s" "rc_serial (goto t p s) = rc_serial s"
  "rc_pc (set_lock i l s) = rc_pc s" "rc_reg (set_lock i l s) = rc_reg s" "rc_alive (set_lock i l s) = rc_alive s"
  "rc_lock (set_lock i l s) = (rc_lock s)(i := l)" "rc_serial (set_lock i l s) = rc_serial s"
  "rc_pc (set_reg r s) = rc_pc s" "rc_reg (set_reg r s) = r" "rc_alive (set_reg r s) = rc_alive s"
  "rc_lock (set_reg r s) = rc_lock s"
  "rc_pc (set_alive A s) = rc_pc s" "rc_reg (set_alive A s) = rc_reg s" "rc_alive (set_alive A s) = A"
  "rc_lock (set_alive A s) = rc_lock s"
  "rc_pc (s\<lparr>rc_serial := n\<rparr>) = rc_pc s" "rc_reg (s\<lparr>rc_serial := n\<rparr>) = rc_reg s" "rc_lock (s\<lparr>rc_serial := n\<rparr>) = rc_lock s"
  by (simp_all add: goto_def set_lock_def set_reg_def set_alive_def)

text \<open>
  A step of one goroutine that leaves the registry and the live agents alone: enough to look at
  the goroutine that moves and at the locks.
\<close>

lemma move_inv:
  assumes inv: "race_inv s" and s': "rc_pc s' = (rc_pc s)(t := p)" "rc_reg s' = rc_reg s" "rc_alive s' = rc_alive s"
    and "kills p = None" "kills (rc_pc s t) = None" "owns p = owns (rc_pc s t)"
    and "\<And>i. locks p = Some i \<Longrightarrow> rc_lock s' i = Some t"
    and "\<And>i u. u \<noteq> t \<Longrightarrow> locks (rc_pc s u) = Some i \<Longrightarrow> rc_lock s' i = Some u"
    and "\<And>i. absent p = Some i \<Longrightarrow> fmlookup (rg_figaros (rc_reg s)) i = None"
  shows "race_inv s'"
proof -
  have own: "owns (((rc_pc s)(t := p)) u) = owns (rc_pc s u)" for u using assms(7) by simp
  have kill: "kills (((rc_pc s)(t := p)) u) = kills (rc_pc s u)" for u using assms(5,6) by simp
  have fin: "((rc_pc s)(t := p)) u = KillDone a \<Longrightarrow> rc_pc s u = KillDone a" for u a
    using assms(5) by (cases "u = t") auto
  have lk: "locks (((rc_pc s)(t := p)) u) = Some i \<Longrightarrow> rc_lock s' i = Some u" for u i using assms(8,9) by (cases "u = t") auto
  have ab: "absent (((rc_pc s)(t := p)) u) = Some i \<Longrightarrow> fmlookup (rg_figaros (rc_reg s)) i = None" for u i
    using assms(10) race_invD(4) [OF inv] by (cases "u = t") auto
  show ?thesis
    unfolding race_inv_def s' own kill using race_invD [OF inv] lk ab fin by blast
qed

lemma goto_inv:
  assumes "race_inv s" and "kills p = None" "kills (rc_pc s t) = None" "owns p = owns (rc_pc s t)"
    and "\<And>i. locks p = Some i \<Longrightarrow> locks (rc_pc s t) = Some i"
    and "\<And>i. absent p = Some i \<Longrightarrow> fmlookup (rg_figaros (rc_reg s)) i = None"
  shows "race_inv (goto t p s)"
  by (rule move_inv [OF assms(1), where t = t and p = p]) (use assms race_invD(3) [OF assms(1)] in simp_all)

text \<open>Steps on the registry that leave the set of figaros and the kills under way as they are.\<close>

lemma set_reg_inv:
  assumes "race_inv s" "reg_inv fst r" "rg_figaros r = rg_figaros (rc_reg s)" "rg_killing r = rg_killing (rc_reg s)"
  shows "race_inv (set_reg r s)"
  unfolding race_inv_def sel_simps assms(3,4) using race_invD [OF assms(1)] assms(2) by blast

lemma lock_inv:
  assumes "rc_pc s t = Waiting i" "rc_lock s i = None" "race_inv s"
  shows "race_inv (goto t (Holding i) (set_lock i (Some t) s))"
  by (rule move_inv [OF assms(3), where t = t and p = "Holding i"]) (use assms race_invD(3) [OF assms(3)] in fastforce)+

lemma unlock_inv:
  assumes "rc_pc s t = Leaving i" "race_inv s"
  shows "race_inv (goto t Idle (set_lock i None s))"
proof (rule move_inv [OF assms(2), where t = t and p = Idle])
  fix j u
  assume "u \<noteq> t" "locks (rc_pc s u) = Some j"
  moreover have "rc_lock s i = Some t" using race_invD(3) [OF assms(2), of t i] assms(1) by simp
  ultimately show "rc_lock (goto t Idle (set_lock i None s)) j = Some u"
    using race_invD(3) [OF assms(2), of u j] by auto
qed (use assms in simp_all)

lemma build_inv:
  assumes pc: "rc_pc s t = Checked i" and inv: "race_inv s"
  shows "race_inv (goto t (Built (i, n)) (set_alive (insert (i, n) (rc_alive s)) (s\<lparr>rc_serial := m\<rparr>)))"
proof -
  let ?a = "(i, n)"
  note D = race_invD [OF inv]
  have lk: "rc_lock s i = Some t" and none: "fmlookup (rg_figaros (rc_reg s)) i = None" using D(3) [of t] D(4) [of t] pc by simp_all
  have "kills (rc_pc s u) \<noteq> Some ?a" for u using D(5) [of u ?a] none by auto
  then have kd: "rc_pc s u \<noteq> KillDone ?a" for u by (metis kills.simps(2))
  have kill: "kills (((rc_pc s)(t := Built ?a)) u) = kills (rc_pc s u)" for u using pc by simp
  have "owns (rc_pc s u) = Some b \<Longrightarrow> owns (((rc_pc s)(t := Built ?a)) u) = Some b" for u b using pc by auto
  then have own: "\<exists>u. owns (rc_pc s u) = Some b \<Longrightarrow> \<exists>u. owns (((rc_pc s)(t := Built ?a)) u) = Some b" for b by blast
  have own_a: "\<exists>u. owns (((rc_pc s)(t := Built ?a)) u) = Some ?a" by (rule exI [of _ t]) simp
  have "locks (((rc_pc s)(t := Built ?a)) u) = Some j \<Longrightarrow> rc_lock s j = Some u" for u j
    using D(3) lk by (cases "u = t") auto
  moreover have "absent (((rc_pc s)(t := Built ?a)) u) = Some j \<Longrightarrow> fmlookup (rg_figaros (rc_reg s)) j = None" for u j
    using D(4) none by (cases "u = t") auto
  moreover have "((rc_pc s)(t := Built ?a)) u = KillDone b \<Longrightarrow> b \<notin> insert ?a (rc_alive s)" for u b
    using D(7) kd by (cases "u = t") auto
  ultimately show ?thesis
    unfolding race_inv_def sel_simps kill using D(1,2,5,6) own own_a by blast
qed

lemma published_inv:
  assumes pc: "rc_pc s t = Built a" and reg: "rg_Register fst a (rc_reg s) = (None, r)" and inv: "race_inv s"
  shows "race_inv (goto t (Leaving (fst a)) (set_reg r s))"
proof -
  let ?p = "(rc_pc s)(t := Leaving (fst a))"
  note D = race_invD [OF inv]
  have none: "fmlookup (rg_figaros (rc_reg s)) (fst a) = None" and lk: "rc_lock s (fst a) = Some t" using D(3) [of t] D(4) [of t] pc by simp_all
  have r: "reg_inv fst r" "rg_figaros r = fmupd (fst a) a (rg_figaros (rc_reg s))" "rg_killing r = rg_killing (rc_reg s)"
    using Register_inv [OF D(1), of a] reg by (auto simp: rg_Register_def split: if_splits)
  have kill: "kills (?p u) = kills (rc_pc s u)" for u using pc by simp
  have alive: "fmlookup (rg_figaros r) (fst b) = Some b \<or> (\<exists>u. owns (?p u) = Some b)" if b: "b \<in> rc_alive s" for b
  proof (cases "owns (rc_pc s t) = Some b")
    case True
    with pc r show ?thesis by simp
  next
    case False
    then have "fmlookup (rg_figaros (rc_reg s)) (fst b) = Some b \<or> (\<exists>u. u \<noteq> t \<and> owns (rc_pc s u) = Some b)"
      using D(2) [OF b] by auto
    then show ?thesis using none r(2) by auto
  qed
  have "locks (?p u) = Some j \<Longrightarrow> rc_lock s j = Some u" for u j using D(3) lk by (cases "u = t") auto
  moreover have "absent (?p u) = Some j \<Longrightarrow> fmlookup (rg_figaros r) j = None" for u j
    using D(3,4) [of u j] absent_locks lk r(2) by (cases "u = t") auto
  moreover have "kills (rc_pc s u) = Some b \<Longrightarrow> fmlookup (rg_figaros r) (fst b) = Some b" for u b
    using D(5) [of u b] none r(2) by auto
  moreover have "?p u = KillDone b \<Longrightarrow> b \<notin> rc_alive s" for u b using D(7) by (cases "u = t") auto
  ultimately show ?thesis
    unfolding race_inv_def sel_simps kill r(3) using r(1) D(5,6) alive by blast
qed

text \<open>An agent whose goroutine has ended is taken out of the live ones.\<close>

lemma ended_inv:
  assumes inv: "race_inv s" and "rc_pc s t = Discarding a \<and> p = Leaving (fst a) \<or> rc_pc s t = KillWait a \<and> p = KillDone a"
  shows "race_inv (goto t p (set_alive (rc_alive s - {a}) s))"
proof -
  let ?p = "(rc_pc s)(t := p)"
  note D = race_invD [OF inv]
  have kill: "kills (?p u) = kills (rc_pc s u)" for u using assms(2) by auto
  have "fmlookup (rg_figaros (rc_reg s)) (fst b) = Some b \<or> (\<exists>u. owns (?p u) = Some b)"
    if b: "b \<in> rc_alive s - {a}" for b
  proof -
    have "owns (rc_pc s t) \<noteq> Some b" using b assms(2) by auto
    then show ?thesis using D(2) [of b] b by (metis DiffE fun_upd_other)
  qed
  moreover have "locks (?p u) = Some j \<Longrightarrow> rc_lock s j = Some u" for u j
    using D(3) assms(2) by (cases "u = t") auto
  moreover have "absent (?p u) = Some j \<Longrightarrow> fmlookup (rg_figaros (rc_reg s)) j = None" for u j
    using D(4) assms(2) by (cases "u = t") auto
  moreover have "?p u = KillDone b \<Longrightarrow> b \<notin> rc_alive s - {a}" for u b
    using D(7) [of u b] assms(2) by (cases "u = t") auto
  ultimately show ?thesis
    unfolding race_inv_def sel_simps kill using D(1,5,6) by blast
qed

lemma restore_step_inv: "restore_step t s s' \<Longrightarrow> race_inv s \<Longrightarrow> race_inv s'"
proof (induction rule: restore_step.induct)
  case (refused s a e r)
  then have "r = rc_reg s" by (auto simp: rg_Register_def split: if_splits)
  moreover have "race_inv (goto t (Discarding a) s)"
    using refused race_invD(4) [OF refused(3), of t] by (intro goto_inv) simp_all
  ultimately show ?case by (simp add: set_reg_def)
next
  case (discard s a)
  then show ?case by (intro ended_inv) simp_all
qed (simp_all add: lock_inv unlock_inv build_inv published_inv, (rule goto_inv; simp add: rg_Get_def)+)

lemma mark_inv:
  assumes pc: "rc_pc s t = Idle" and kb: "kill_begin i (rc_reg s) = (Inr a, r)" and inv: "race_inv s"
  shows "race_inv (goto t (KillWait a) (set_reg r s))"
proof -
  let ?p = "(rc_pc s)(t := KillWait a)"
  note D = race_invD [OF inv]
  have a: "fmlookup (rg_figaros (rc_reg s)) i = Some a" "i |\<notin>| rg_killing (rc_reg s)" "i = fst a"
    and r: "rg_figaros r = rg_figaros (rc_reg s)" "rg_killing r = finsert i (rg_killing (rc_reg s))" "reg_inv fst r"
    using kb kill_begin_inv [OF D(1), of i] reg_invD(1) [OF D(1)]
    by (auto simp: kill_begin_def split: option.splits if_splits)
  have fresh: "kills (rc_pc s u) = Some b \<Longrightarrow> fst b \<noteq> fst a" for u b using D(5) [of u b] a by auto
  have kill: "kills (?p u) = (if u = t then Some a else kills (rc_pc s u))" for u by simp
  have "\<exists>u. owns (rc_pc s u) = Some b \<Longrightarrow> \<exists>u. owns (?p u) = Some b" for b
    using pc by (metis fun_upd_other option.distinct(1) owns.simps(3))
  moreover have "locks (?p u) = Some j \<Longrightarrow> rc_lock s j = Some u" for u j using D(3) by (cases "u = t") auto
  moreover have "absent (?p u) = Some j \<Longrightarrow> fmlookup (rg_figaros (rc_reg s)) j = None" for u j
    using D(4) by (cases "u = t") auto
  moreover have "?p u = KillDone b \<Longrightarrow> b \<notin> rc_alive s" for u b using D(7) by (cases "u = t") auto
  moreover have "kills (?p u) = Some b \<Longrightarrow> fst b |\<in>| rg_killing r \<and> fmlookup (rg_figaros (rc_reg s)) (fst b) = Some b" for u b
    using D(5) [of u b] a r(2) by (cases "u = t") auto
  moreover have "kills (?p u) = Some b \<Longrightarrow> kills (?p v) = Some c \<Longrightarrow> fst b = fst c \<Longrightarrow> u = v" for u v b c
    unfolding kill using D(6) fresh by (metis option.inject)
  ultimately show ?thesis
    unfolding race_inv_def sel_simps r(1) using r(3) D(2) by blast
qed

lemma unpublish_inv:
  assumes pc: "rc_pc s t = KillDone a" and inv: "race_inv s"
  shows "race_inv (goto t Idle (set_reg (kill_finish (fst a) (rc_reg s)) s))"
proof -
  let ?p = "(rc_pc s)(t := Idle)" and ?r = "kill_finish (fst a) (rc_reg s)"
  note D = race_invD [OF inv]
  have r: "rg_figaros ?r = fmdrop (fst a) (rg_figaros (rc_reg s))" "rg_killing ?r = rg_killing (rc_reg s) |-| {|fst a|}" "reg_inv fst ?r"
    using kill_finish_inv [OF D(1)] by (auto simp: kill_finish_def)
  have reg: "fmlookup (rg_figaros (rc_reg s)) (fst a) = Some a" and dead: "a \<notin> rc_alive s" using D(5) [of t a] D(7) [of t a] pc by simp_all
  have "fmlookup (rg_figaros ?r) (fst b) = Some b \<or> (\<exists>u. owns (?p u) = Some b)" if b: "b \<in> rc_alive s" for b
  proof (cases "\<exists>u. owns (rc_pc s u) = Some b")
    case True
    then obtain u where u: "owns (rc_pc s u) = Some b" by blast
    with pc have "u \<noteq> t" by auto
    with u have "owns (?p u) = Some b" by simp
    then show ?thesis by blast
  next
    case False
    with D(2) [OF b] have "fmlookup (rg_figaros (rc_reg s)) (fst b) = Some b" by simp
    moreover from this reg dead b have "fst b \<noteq> fst a" by (metis option.inject)
    ultimately have "fmlookup (rg_figaros ?r) (fst b) = Some b" unfolding r(1) by simp
    then show ?thesis ..
  qed
  moreover have "locks (?p u) = Some j \<Longrightarrow> rc_lock s j = Some u" for u j using D(3) by (cases "u = t") auto
  moreover have "absent (?p u) = Some j \<Longrightarrow> fmlookup (rg_figaros ?r) j = None" for u j
    using D(4) r(1) by (cases "u = t") auto
  moreover have "?p u = KillDone b \<Longrightarrow> b \<notin> rc_alive s" for u b using D(7) by (cases "u = t") auto
  moreover have "kills (?p u) = Some b \<Longrightarrow> fst b |\<in>| rg_killing ?r \<and> fmlookup (rg_figaros ?r) (fst b) = Some b" for u b
    using D(5) [of u b] D(6) [of u b t a] pc r by (cases "u = t") auto
  moreover have "kills (?p u) = Some b \<Longrightarrow> kills (?p v) = Some c \<Longrightarrow> fst b = fst c \<Longrightarrow> u = v" for u v b c
    using D(6) by (auto split: if_splits)
  ultimately show ?thesis
    unfolding race_inv_def sel_simps using r(3) by blast
qed

lemma kill_step_inv: "kill_step t s s' \<Longrightarrow> race_inv s \<Longrightarrow> race_inv s'"
  by (induction rule: kill_step.induct) (auto intro: mark_inv unpublish_inv ended_inv)

lemma other_step_inv: "other_step s s' \<Longrightarrow> race_inv s \<Longrightarrow> race_inv s'"
proof (induction rule: other_step.induct)
  case (1 s pid i n)
  note reg = race_invD(1) [OF 1]
  have "rg_figaros (snd (rg_Bind pid i n (rc_reg s))) = rg_figaros (rc_reg s)"
    "rg_killing (snd (rg_Bind pid i n (rc_reg s))) = rg_killing (rc_reg s)"
    using rg_Bind_ok(2,3) [OF reg, of i pid n] by (cases "fmlookup (rg_figaros (rc_reg s)) i"; simp add: rg_Bind_missing)+
  with 1 reg show ?case by (intro set_reg_inv rg_Bind_inv)
next
  case (2 s pid)
  note reg = race_invD(1) [OF 2]
  show ?case unfolding rg_Unbind_def
    by (intro set_reg_inv 2 unbindLocked_inv reg unbindLocked_lookup [OF reg])
next
  case (3 s)
  then show ?case using race_invD(1) [OF 3]
    by (intro set_reg_inv SetDraining_inv) (simp_all add: SetDraining_def)
qed

lemma race0_inv: "race_inv race0"
  by (simp add: race_inv_def race0_def NewRegistry_inv)

lemma race_reachable_inv: "race_reachable s \<Longrightarrow> race_inv s"
  by (induction rule: race_reachable.induct)
     (auto intro: race0_inv restore_step_inv kill_step_inv other_step_inv)


subsection \<open>Properties\<close>

lemma kill_done_nobody_alive:
  assumes inv: "race_inv s" and pc: "rc_pc s t = KillDone (i, m)"
  shows "(i, n) \<notin> rc_alive s"
proof
  assume alive: "(i, n) \<in> rc_alive s"
  have reg: "fmlookup (rg_figaros (rc_reg s)) i = Some (i, m)" and dead: "(i, m) \<notin> rc_alive s"
    using pc race_invD(5) [OF inv, of t "(i, m)"] race_invD(7) [OF inv, of t "(i, m)"] by simp_all
  from race_invD(2) [OF inv alive] reg dead alive obtain u where "owns (rc_pc s u) = Some (i, n)" by auto
  with owns_absent race_invD(4) [OF inv] reg show False by (metis fst_conv option.distinct(1))
qed

text \<open>A run that restores the aria \<open>a\<close> and begins to kill it.\<close>

definition race_example :: race where
  "race_example =
     \<lparr>rc_reg = snd (kill_begin ''a'' (snd (rg_Register fst (''a'', 0) NewRegistry))), rc_alive = {(''a'', 0)},
      rc_lock = (\<lambda>_. None), rc_pc = (\<lambda>_. Idle)(1 := KillWait (''a'', 0)), rc_serial = 1\<rparr>"

lemma race_example_reachable: "race_reachable race_example"
proof -
  let ?s1 = "goto 0 (Waiting ''a'') race0"
  let ?s2 = "goto 0 (Holding ''a'') (set_lock ''a'' (Some 0) ?s1)"
  let ?s3 = "goto 0 (Checked ''a'') ?s2"
  let ?s4 = "goto 0 (Built (''a'', rc_serial ?s3))
    (set_alive (insert (''a'', rc_serial ?s3) (rc_alive ?s3)) (?s3\<lparr>rc_serial := rc_serial ?s3 + 1\<rparr>))"
  let ?r = "snd (rg_Register fst (''a'', 0) NewRegistry)"
  let ?s5 = "goto 0 (Leaving ''a'') (set_reg ?r ?s4)"
  let ?s6 = "goto 0 Idle (set_lock ''a'' None ?s5)"
  let ?s7 = "goto 1 (KillWait (''a'', 0)) (set_reg (snd (kill_begin ''a'' ?r)) ?s6)"
  have r0: "rc_reg race0 = NewRegistry" "rc_pc race0 u = Idle" "rc_serial race0 = 0" "rc_lock race0 i = None" for u i
    by (simp_all add: race0_def)
  have s1: "race_reachable ?s1"
    by (rule restoring [OF start restore_step.miss]) (simp_all add: race0_def rg_Get_def NewRegistry_def)
  have s2: "race_reachable ?s2"
    by (rule restoring [OF s1 restore_step.lock]) (simp_all add: r0)
  have s3: "race_reachable ?s3"
    by (rule restoring [OF s2 restore_step.still_missing]) (simp_all add: r0 rg_Get_def NewRegistry_def)
  have s4: "race_reachable ?s4"
    by (rule restoring [OF s3 restore_step.build]) simp
  have ser: "rc_serial ?s3 = 0" by (simp add: r0)
  have "restore_step 0 ?s4 (goto 0 (Leaving (fst (''a'', 0 :: nat))) (set_reg ?r ?s4))"
    by (rule restore_step.published) (simp_all add: ser r0 rg_Register_def NewRegistry_def)
  then have s5: "race_reachable ?s5" using s4 by (metis fst_conv restoring)
  have s6: "race_reachable ?s6"
    by (rule restoring [OF s5 restore_step.unlock]) simp
  have "kill_step 1 ?s6 ?s7"
    by (rule kill_step.mark [where i = "''a''"]) (simp_all add: r0 rg_Register_def kill_begin_def NewRegistry_def)
  then have "race_reachable ?s7" using s6 killing by blast
  moreover have "?s7 = race_example"
    by (simp add: race_example_def race0_def goto_def set_lock_def set_alive_def set_reg_def fun_eq_iff)
  ultimately show ?thesis by simp
qed

text \<open>
  C14: Of every aria at most one agent is alive, under every interleaving of restores, kills, bindings
  and the drain of a shutdown. So the construction of an agent, which repairs the tail of the
  aria's log, never runs beside a live agent of the same aria, and when a kill unpublishes an id
  no agent of it is alive any more.
\<close>

theorem one_agent_per_aria:
  assumes "race_reachable s"
  shows "((i, m) \<in> rc_alive s \<and> (i, n) \<in> rc_alive s \<longrightarrow> m = n)
    \<and> (rc_pc s t = Checked i \<longrightarrow> (i, n) \<notin> rc_alive s)
    \<and> (rc_pc s t = KillDone (i, m) \<longrightarrow> (i, n) \<notin> rc_alive s)"
proof -
  note inv = race_reachable_inv [OF assms]
  show ?thesis
    using race_inv_unique [OF inv, of "(i, m)" "(i, n)"] checked_nobody_alive [OF inv, of t i "(i, n)"]
      kill_done_nobody_alive [OF inv, of t i m n] by auto
qed

theorem one_agent_per_aria_witness:
  "race_reachable race_example \<and> {n. (''a'', n) \<in> rc_alive race_example} = {0}"
proof -
  have "(''a'', 0) \<in> rc_alive race_example" by (simp add: race_example_def)
  then show ?thesis
    using race_example_reachable one_agent_per_aria [OF race_example_reachable, of "''a''" 0] by blast
qed

end
