(* ===== verification/Protocol_Query.thy ===== *)
theory Protocol_Query
  imports Protocol
begin

section \<open>Queries and forks of the supervisor (\<open>list\<close>, \<open>ariaRead\<close>, \<open>fork\<close>, \<open>metaBackfill\<close>)\<close>

text \<open>
  The requests that read across the registry and the backend, and the fork of a conversation. The
  hash of a loadout as it is on disk (\<open>currentLoadoutHash\<close>, an outfit read and a digest of the
  write-ahead-log library) is the parameter \<open>hash\<close>; its cache is modelled by itself. The workers of
  \<open>enrichList\<close> write disjoint entries, so the model fills them one after the other. A trunk's
  ancestors are walked with fuel: the walk ends at a node without a parent or at a loadout, and
  \<open>ancestry_walks_end\<close> shows that the depth of the tree is enough.
\<close>

subsection \<open>Reading the rows of an aria\<close>

definition ariaReadHardCap :: int where
  "ariaReadHardCap = 1000"

record aria_read_entry =
  re_LT :: lt
  re_Payload :: "string option"

record aria_read_response =
  rr_Entries :: "aria_read_entry list"
  rr_Total :: nat
  rr_NextFrom :: lt

datatype read_error = EmptyID | ReadNoBackend | OpenFailed string | MarshalFailed lt | Panicked runtime_panic

fun encode_page :: "(message \<Rightarrow> string option) \<Rightarrow> message log_entry list \<Rightarrow> read_error + aria_read_entry list" where
  "encode_page enc [] = Inr []"
| "encode_page enc (e # es) =
     (case enc (Payload e) of
        None \<Rightarrow> Inl (MarshalFailed (LT e))
      | Some raw \<Rightarrow> (case encode_page enc es of
                       Inl err \<Rightarrow> Inl err
                     | Inr out \<Rightarrow> Inr (\<lparr>re_LT = LT e, re_Payload = Some raw\<rparr> # out)))"

definition read_limit :: "int \<Rightarrow> int" where
  "read_limit n = (if n \<le> 0 \<or> n > ariaReadHardCap then ariaReadHardCap else n)"

definition aria_page ::
  "(message \<Rightarrow> string option) \<Rightarrow> message log_entry list \<Rightarrow> lt \<Rightarrow> lt \<Rightarrow> int \<Rightarrow> read_error + aria_read_response" where
  "aria_page enc rows from before n =
     (let limit = read_limit n
      in if before > 0 then
           (case readPage rows 0 before limit of
              Inl p \<Rightarrow> Inl (Panicked p)
            | Inr (selected, tot) \<Rightarrow>
                Inr \<lparr>rr_Entries = map (\<lambda>e. \<lparr>re_LT = LT e, re_Payload = enc (Payload e)\<rparr>) selected, rr_Total = tot,
                     rr_NextFrom = (case selected of [] \<Rightarrow> 0 | e # _ \<Rightarrow> LT e)\<rparr>)
         else
           (case readPage rows from 0 (wrap64 (limit + 1)) of
              Inl p \<Rightarrow> Inl (Panicked p)
            | Inr (selected, tot) \<Rightarrow>
                (let page = (if int (length selected) > limit then take (nat limit) selected else selected)
                 in case encode_page enc page of
                      Inl err \<Rightarrow> Inl err
                    | Inr out \<Rightarrow> Inr \<lparr>rr_Entries = out, rr_Total = tot,
                                      rr_NextFrom = (if int (length selected) > limit then LT (selected ! nat limit) else 0)\<rparr>)))"

definition ariaRead ::
  "'b backend_ops option \<Rightarrow> (message \<Rightarrow> string option) \<Rightarrow> 'b \<Rightarrow> string \<Rightarrow> lt \<Rightarrow> lt \<Rightarrow> int \<Rightarrow> read_error + aria_read_response" where
  "ariaRead B enc b i from before n =
     (if i = [] then Inl EmptyID
      else case B of
             None \<Rightarrow> Inl ReadNoBackend
           | Some ops \<Rightarrow> (case bo_rows ops b i of Inl e \<Rightarrow> Inl (OpenFailed e) | Inr rows \<Rightarrow> aria_page enc rows from before n))"

text \<open>A client that follows \<open>NextFrom\<close> until it is 0, for at most \<open>fuel\<close> requests.\<close>

fun follow :: "nat \<Rightarrow> (message \<Rightarrow> string option) \<Rightarrow> message log_entry list \<Rightarrow> lt \<Rightarrow> int \<Rightarrow> (read_error + lt list list) option" where
  "follow 0 enc rows from n = None"
| "follow (Suc fuel) enc rows from n =
     (case aria_page enc rows from 0 n of
        Inl e \<Rightarrow> Some (Inl e)
      | Inr resp \<Rightarrow>
          (let page = map re_LT (rr_Entries resp)
           in if rr_NextFrom resp = 0 then Some (Inr [page])
              else case follow fuel enc rows (rr_NextFrom resp) n of
                     None \<Rightarrow> None
                   | Some (Inl e) \<Rightarrow> Some (Inl e)
                   | Some (Inr ps) \<Rightarrow> Some (Inr (page # ps))))"

subsection \<open>Listing\<close>

record figaro_entry =
  fe_ID :: string
  fe_State :: string
  fe_Provider :: string
  fe_Model :: string
  fe_MessageCount :: int
  fe_TokensIn :: int
  fe_TokensOut :: int
  fe_CacheReadTokens :: int
  fe_CacheWriteTokens :: int
  fe_ContextTokens :: int
  fe_ContextLimit :: int
  fe_ContextExact :: bool
  fe_CreatedAt :: int
  fe_LastActive :: int
  fe_Mantra :: string
  fe_Cwd :: string
  fe_LoadoutName :: string
  fe_LoadoutVer :: string
  fe_BoundPIDs :: "int list"
  fe_Vector :: "int list"
  fe_Trunk :: string
  fe_Parent :: string
  fe_Frozen :: bool
  fe_BranchedLT :: lt
  fe_Kind :: string

definition zero_entry :: figaro_entry where
  "zero_entry = \<lparr>fe_ID = [], fe_State = [], fe_Provider = [], fe_Model = [], fe_MessageCount = 0, fe_TokensIn = 0, fe_TokensOut = 0,
     fe_CacheReadTokens = 0, fe_CacheWriteTokens = 0, fe_ContextTokens = 0, fe_ContextLimit = 0, fe_ContextExact = False,
     fe_CreatedAt = 0, fe_LastActive = 0, fe_Mantra = [], fe_Cwd = [], fe_LoadoutName = [], fe_LoadoutVer = [], fe_BoundPIDs = [],
     fe_Vector = [], fe_Trunk = [], fe_Parent = [], fe_Frozen = False, fe_BranchedLT = 0, fe_Kind = []\<rparr>"

record list_request =
  lq_IDsOnly :: bool
  lq_Global :: bool

definition nullKind :: string where "nullKind = ''null''"
definition loadoutKind :: string where "loadoutKind = ''loadout''"
definition conversationKind :: string where "conversationKind = ''conversation''"

definition loadoutVerLabel :: "string \<Rightarrow> string \<Rightarrow> string" where
  "loadoutVerLabel stampedHash current =
     (if stampedHash = [] then []
      else if current \<noteq> [] \<and> stampedHash = current then ''live''
      else if length stampedHash > 8 then take 8 stampedHash
      else stampedHash)"

text \<open>\<open>currentLoadoutHash\<close>: a cached digest is used for three seconds.\<close>

definition currentLoadoutHash :: "(string \<Rightarrow> string) \<Rightarrow> int \<Rightarrow> string \<Rightarrow> (string, string \<times> int) fmap \<Rightarrow> string \<times> (string, string \<times> int) fmap" where
  "currentLoadoutHash digest now name cache =
     (case fmlookup cache name of
        Some (h, at0) \<Rightarrow> (if now - at0 < 3000 then (h, cache) else (digest name, fmupd name (digest name, now) cache))
      | None \<Rightarrow> (digest name, fmupd name (digest name, now) cache))"

definition live_entry :: "(string \<Rightarrow> string) \<Rightarrow> (string, int list) fmap \<Rightarrow> bool \<Rightarrow> figaro_info \<Rightarrow> figaro_entry" where
  "live_entry hash bound idsOnly info =
     (let e = zero_entry\<lparr>fe_ID := fi_ID info, fe_State := fi_State info, fe_Provider := fi_Provider info, fe_Model := fi_Model info,
                fe_MessageCount := fi_MessageCount info, fe_TokensIn := fi_TokensIn info, fe_TokensOut := fi_TokensOut info,
                fe_CacheReadTokens := fi_CacheReadTokens info, fe_CacheWriteTokens := fi_CacheWriteTokens info,
                fe_ContextTokens := fi_ContextTokens info, fe_ContextLimit := fi_ContextLimit info,
                fe_ContextExact := fi_ContextExact info, fe_CreatedAt := fi_CreatedAt info, fe_LastActive := fi_LastActive info,
                fe_Mantra := fi_Mantra info, fe_Cwd := fi_Cwd info, fe_LoadoutName := fi_LoadoutName info,
                fe_BoundPIDs := (case fmlookup bound (fi_ID info) of None \<Rightarrow> [] | Some ps \<Rightarrow> ps)\<rparr>
      in if \<not> idsOnly \<and> fi_LoadoutName info \<noteq> []
         then e\<lparr>fe_LoadoutVer := loadoutVerLabel (fi_LoadoutVersion info) (hash (fi_LoadoutName info))\<rparr> else e)"

definition dormant_entry :: "bool \<Rightarrow> aria_meta option \<Rightarrow> string \<Rightarrow> figaro_entry" where
  "dormant_entry idsOnly meta i =
     (let e = zero_entry\<lparr>fe_ID := i, fe_State := ''dormant''\<rparr>
      in case meta of
           Some m \<Rightarrow>
             (if \<not> idsOnly then e
              else let e1 = e\<lparr>fe_MessageCount := am_MessageCount m, fe_TokensIn := am_TokensIn m, fe_TokensOut := am_TokensOut m,
                              fe_CacheReadTokens := am_CacheReadTokens m, fe_CacheWriteTokens := am_CacheWriteTokens m\<rparr>
                   in if am_LastActiveMS m \<noteq> 0 then e1\<lparr>fe_LastActive := am_LastActiveMS m\<rparr> else e1)
         | None \<Rightarrow> e)"

text \<open>The loop over the conversations that are not live: the new entries, the tasks, the ids seen.\<close>

fun dormant_loop ::
  "bool \<Rightarrow> (string \<Rightarrow> aria_meta option) \<Rightarrow> string list \<Rightarrow> string set \<times> figaro_entry list \<times> (nat \<times> string) list
     \<Rightarrow> string set \<times> figaro_entry list \<times> (nat \<times> string) list" where
  "dormant_loop idsOnly meta [] st = st"
| "dormant_loop idsOnly meta (i # is) (seen, result, tasks) =
     (if i \<in> seen then dormant_loop idsOnly meta is (seen, result, tasks)
      else dormant_loop idsOnly meta is
             (insert i seen, result @ [dormant_entry idsOnly (meta i) i],
              if idsOnly then tasks else tasks @ [(length result, i)]))"

fun anchor_loop :: "node_view list \<Rightarrow> string set \<times> figaro_entry list \<Rightarrow> string set \<times> figaro_entry list" where
  "anchor_loop [] st = st"
| "anchor_loop (n # ns) (seen, result) =
     (if nv_Kind n = conversationKind \<or> nv_ID n \<in> seen then anchor_loop ns (seen, result)
      else anchor_loop ns (insert (nv_ID n) seen, result @ [zero_entry\<lparr>fe_ID := nv_ID n, fe_State := ''anchor''\<rparr>]))"

definition fillFromMeta :: "(string \<Rightarrow> string) \<Rightarrow> aria_meta \<Rightarrow> figaro_entry \<Rightarrow> figaro_entry" where
  "fillFromMeta hash m e =
     (let e1 = e\<lparr>fe_MessageCount := am_MessageCount m, fe_TokensIn := am_TokensIn m, fe_TokensOut := am_TokensOut m,
                 fe_CacheReadTokens := am_CacheReadTokens m, fe_CacheWriteTokens := am_CacheWriteTokens m,
                 fe_ContextTokens := am_ContextTokens m, fe_ContextLimit := am_ContextLimit m, fe_ContextExact := am_ContextExact m,
                 fe_Provider := am_Provider m, fe_Model := am_Model m, fe_Mantra := am_Mantra m, fe_Cwd := am_Cwd m,
                 fe_LoadoutName := am_LoadoutName m\<rparr>;
          e2 = (if am_CreatedAtMS m \<noteq> 0 then e1\<lparr>fe_CreatedAt := am_CreatedAtMS m\<rparr> else e1);
          e3 = (if am_LastActiveMS m \<noteq> 0 then e2\<lparr>fe_LastActive := am_LastActiveMS m\<rparr> else e2)
      in if am_LoadoutName m \<noteq> [] then e3\<lparr>fe_LoadoutVer := loadoutVerLabel (am_LoadoutVersion m) (hash (am_LoadoutName m))\<rparr> else e3)"

definition enrichList ::
  "(string \<Rightarrow> string) \<Rightarrow> (string \<Rightarrow> aria_meta option) \<Rightarrow> (nat \<times> string) list \<Rightarrow> figaro_entry list \<Rightarrow> figaro_entry list" where
  "enrichList hash meta tasks result =
     fold (\<lambda>(k, i) res. case meta i of None \<Rightarrow> res | Some m \<Rightarrow> res[k := fillFromMeta hash m (res ! k)]) tasks result"

definition fillFromNode :: "(string \<Rightarrow> string) \<Rightarrow> (string, node_view) fmap \<Rightarrow> figaro_entry \<Rightarrow> figaro_entry" where
  "fillFromNode hash nodes e =
     (case fmlookup nodes (fe_ID e) of
        None \<Rightarrow> e
      | Some n \<Rightarrow>
          (let e1 = e\<lparr>fe_Vector := nv_Vector n, fe_Trunk := nv_Trunk n, fe_Parent := nv_Parent n, fe_Frozen := nv_Frozen n,
                      fe_BranchedLT := nv_BranchedLT n, fe_Kind := nv_Kind n\<rparr>;
               e2 = (if nv_Kind n = loadoutKind
                     then e1\<lparr>fe_LoadoutName := nv_Loadout n, fe_LoadoutVer := loadoutVerLabel (nv_Version n) (hash (nv_Loadout n))\<rparr>
                     else e1)
           in if nv_Frozen n \<and> fe_State e2 \<noteq> ''active'' then e2\<lparr>fe_State := ''frozen''\<rparr> else e2))"

text \<open>The snapshot of the forest: the nodes, and the ids of the conversations among them.\<close>

definition list_nodes :: "'b backend_ops option \<Rightarrow> list_request \<Rightarrow> 'b \<Rightarrow> node_view list \<times> string list" where
  "list_nodes B req b =
     (case B of
        None \<Rightarrow> ([], [])
      | Some ops \<Rightarrow>
          (if lq_IDsOnly req \<and> \<not> lq_Global req then ([], bo_conversationIDs ops b)
           else let ns = (if lq_Global req then bo_nodes ops b else bo_conversations ops b)
                in (ns, map nv_ID (filter (\<lambda>n. nv_Kind n = conversationKind) ns))))"

definition list_figaros ::
  "'b backend_ops option \<Rightarrow> (figaro_handle \<Rightarrow> figaro_info) \<Rightarrow> (string \<Rightarrow> string) \<Rightarrow> list_request \<Rightarrow> 'b world \<Rightarrow> figaro_entry list" where
  "list_figaros B Info hash req w =
     (let live = rg_List Info (fst w);
          bound = BoundPIDsByFigaro (fst w);
          meta = (\<lambda>i. case B of None \<Rightarrow> None | Some ops \<Rightarrow> bo_meta ops (snd w) i);
          (nodes, convs) = list_nodes B req (snd w);
          (seen, res, tasks) = dormant_loop (lq_IDsOnly req) meta convs
             (set (map fi_ID live), map (live_entry hash bound (lq_IDsOnly req)) live, []);
          res1 = (if lq_Global req then snd (anchor_loop nodes (seen, res)) else res)
      in if lq_IDsOnly req then res1
         else map (fillFromNode hash (fmap_of_list (rev (map (\<lambda>n. (nv_ID n, n)) nodes)))) (enrichList hash meta tasks res1))"

subsection \<open>Forks and the ancestry of a trunk\<close>

text \<open>\<open>loadoutAncestor\<close> and \<open>messageCountAt\<close> climb the parents; \<open>None\<close> when the fuel is used up.\<close>

fun loadoutAncestor :: "nat \<Rightarrow> (string \<Rightarrow> node_view option) \<Rightarrow> string \<Rightarrow> string option" where
  "loadoutAncestor 0 node i = (if i = [] then Some [] else None)"
| "loadoutAncestor (Suc fuel) node i =
     (if i = [] then Some []
      else case node i of
             None \<Rightarrow> Some []
           | Some n \<Rightarrow> (if nv_Kind n = loadoutKind then Some (nv_ID n) else loadoutAncestor fuel node (nv_Parent n)))"

fun count_climb :: "nat \<Rightarrow> (string \<Rightarrow> node_view option) \<Rightarrow> string \<Rightarrow> int \<Rightarrow> int option" where
  "count_climb fuel node i count =
     (if count \<le> 0 then Some count
      else case node i of
             None \<Rightarrow> Some count
           | Some n \<Rightarrow>
               (if nv_Parent n = [] then Some count
                else if (case node (nv_Parent n) of Some p \<Rightarrow> nv_Kind p = loadoutKind | None \<Rightarrow> False) then Some (count - 1)
                else case fuel of 0 \<Rightarrow> None | Suc f \<Rightarrow> count_climb f node (nv_Parent n) count))"

declare count_climb.simps [simp del]

definition messageCountAt :: "nat \<Rightarrow> (string \<Rightarrow> node_view option) \<Rightarrow> string \<Rightarrow> lt \<Rightarrow> int option" where
  "messageCountAt fuel node i atMainLT =
     (let count = wrap64 (int atMainLT);
          count1 = (if count > 0 then count - 1 else count)
      in map_option (max 0) (count_climb fuel node i count1))"

definition zero_meta :: aria_meta where
  "zero_meta = \<lparr>am_MessageCount = 0, am_TurnCount = 0, am_TokensIn = 0, am_TokensOut = 0, am_CacheReadTokens = 0, am_CacheWriteTokens = 0,
     am_LastActiveMS = 0, am_LastFigaroLT = 0, am_Provider = [], am_Model = [], am_Mantra = [], am_Cwd = [], am_LoadoutName = [],
     am_LoadoutVersion = [], am_ContextTokens = 0, am_ContextLimit = 0, am_ContextExact = False, am_CreatedAtMS = 0\<rparr>"

definition forkMetaSnapshot :: "'b backend_ops \<Rightarrow> (figaro_handle \<Rightarrow> figaro_info) \<Rightarrow> 'b world \<Rightarrow> string \<Rightarrow> aria_meta" where
  "forkMetaSnapshot B Info w parent =
     (let m = (case bo_meta B (snd w) parent of None \<Rightarrow> zero_meta | Some m \<Rightarrow> m)
      in case rg_Get (fst w) parent of
           None \<Rightarrow> m
         | Some f \<Rightarrow>
             (let info = Info f
              in m\<lparr>am_MessageCount := fi_MessageCount info, am_TokensIn := fi_TokensIn info, am_TokensOut := fi_TokensOut info,
                   am_CacheReadTokens := fi_CacheReadTokens info, am_CacheWriteTokens := fi_CacheWriteTokens info,
                   am_Provider := fi_Provider info, am_Model := fi_Model info, am_Mantra := fi_Mantra info, am_Cwd := fi_Cwd info,
                   am_LoadoutName := fi_LoadoutName info, am_LoadoutVersion := fi_LoadoutVersion info,
                   am_ContextTokens := fi_ContextTokens info, am_ContextLimit := fi_ContextLimit info,
                   am_ContextExact := fi_ContextExact info, am_CreatedAtMS := fi_CreatedAt info,
                   am_LastActiveMS := fi_LastActive info, am_LastFigaroLT := fi_LastFigaroLT info\<rparr>))"

definition zero_owner :: owner_info where
  "zero_owner = \<lparr>ow_Trunk = [], ow_Loadout = [], ow_IsRoot = False\<rparr>"

text \<open>The summary of the new branch, before it is written.\<close>

definition fork_meta :: "nat \<Rightarrow> (string \<Rightarrow> node_view option) \<Rightarrow> int \<Rightarrow> aria_meta \<Rightarrow> string \<Rightarrow> lt \<Rightarrow> owner_info \<Rightarrow> aria_meta option" where
  "fork_meta fuel node now m parent atMainLT owner =
     (let m1 = m\<lparr>am_CreatedAtMS := now, am_LastActiveMS := now\<rparr>
      in if atMainLT = 0 then Some m1
         else case (messageCountAt fuel node parent atMainLT,
                    if ow_IsRoot owner then Some [] else if ow_Loadout owner \<noteq> [] then Some (ow_Loadout owner) else loadoutAncestor fuel node parent) of
                (Some count, Some loadoutID) \<Rightarrow>
                  (let m2 = zero_meta\<lparr>am_CreatedAtMS := now, am_LastActiveMS := now, am_MessageCount := count, am_LastFigaroLT := atMainLT\<rparr>
                   in if ow_IsRoot owner then Some m2
                      else case node loadoutID of
                             Some l \<Rightarrow> Some (if nv_Kind l = loadoutKind
                                             then m2\<lparr>am_LoadoutName := nv_Loadout l, am_LoadoutVersion := nv_Version l\<rparr> else m2)
                           | None \<Rightarrow> Some m2)
              | _ \<Rightarrow> None)"

definition seedForkMeta ::
  "'b backend_ops \<Rightarrow> nat \<Rightarrow> int \<Rightarrow> aria_meta \<Rightarrow> string \<Rightarrow> string \<Rightarrow> lt \<Rightarrow> owner_info \<Rightarrow> 'b \<Rightarrow> 'b option" where
  "seedForkMeta B fuel now m parent child atMainLT owner b =
     (case fork_meta fuel (bo_node B b) now m parent atMainLT owner of
        None \<Rightarrow> None
      | Some m1 \<Rightarrow> Some (case bo_setMeta B b child m1 of Inl _ \<Rightarrow> b | Inr b1 \<Rightarrow> b1))"

datatype fork_note = NoNote | AtRoot lt | InLoadout lt string | InTrunk lt string

text \<open>
  \<open>fork\<close>: who owns the point, the fork itself (on the actor of the live trunk, if there is one:
  the same steps), the summary of the new branch, its own id on its chalkboard. The outer \<open>None\<close> is
  an ancestry deeper than the fuel.
\<close>

definition run_fork ::
  "'b backend_ops \<Rightarrow> proto_env \<Rightarrow> nat \<Rightarrow> (figaro_handle \<Rightarrow> figaro_info) \<Rightarrow> string \<Rightarrow> lt \<Rightarrow> owner_info \<Rightarrow> 'b world
     \<Rightarrow> ((string + (string \<times> string)) \<times> 'b world) option" where
  "run_fork B E fuel Info i atMainLT owner w =
     (let parentMeta = forkMetaSnapshot B Info w i
      in case (if atMainLT > 0 then bo_forkAt B (snd w) i atMainLT else bo_fork B (snd w) i) of
           Inl err \<Rightarrow> Some (Inl err, w)
         | Inr ((cont, alt), b1) \<Rightarrow>
             (case seedForkMeta B fuel (pe_now E) parentMeta i alt atMainLT owner b1 of
                None \<Rightarrow> None
              | Some b2 \<Rightarrow>
                  (let b3 = (if alt \<noteq> [] \<and> alt \<noteq> i
                             then (case bo_applyChalkboard B b2 alt \<lparr>p_set = fmupd ''aria_id'' (pe_quote E alt) fmempty, p_remove = []\<rparr> of
                                     Inl _ \<Rightarrow> b2 | Inr b' \<Rightarrow> b')
                             else b2)
                   in Some (Inr (cont, alt), (fst w, b3)))))"

definition fork ::
  "'b backend_ops option \<Rightarrow> proto_env \<Rightarrow> nat \<Rightarrow> (figaro_handle \<Rightarrow> figaro_info) \<Rightarrow> string \<Rightarrow> lt \<Rightarrow> 'b world
     \<Rightarrow> ((proto_error + (string \<times> string \<times> fork_note)) \<times> 'b world) option" where
  "fork B E fuel Info i atMainLT w =
     (case B of
        None \<Rightarrow> Some (Inl NoBackend, w)
      | Some ops \<Rightarrow>
          (let owner = (if atMainLT > 0 then (case bo_ownerResolution ops (snd w) i atMainLT of Inr ow \<Rightarrow> ow | Inl _ \<Rightarrow> zero_owner) else zero_owner);
               note0 = (if ow_IsRoot owner then AtRoot atMainLT
                        else if ow_Loadout owner \<noteq> [] then InLoadout atMainLT (ow_Loadout owner)
                        else if ow_Trunk owner \<noteq> [] \<and> ow_Trunk owner \<noteq> i then InTrunk atMainLT (ow_Trunk owner)
                        else NoNote)
           in case run_fork ops E fuel Info i atMainLT owner w of
                None \<Rightarrow> None
              | Some (Inl err, w1) \<Rightarrow> Some (Inl (BackendFailed err), w1)
              | Some (Inr (cont, alt), w1) \<Rightarrow> Some (Inr (cont, alt, note0), w1)))"

subsection \<open>Upgrading old summaries (\<open>backfill.go\<close>)\<close>

definition backfill_meta :: "proto_env \<Rightarrow> snapshot \<Rightarrow> aria_meta \<Rightarrow> aria_meta option" where
  "backfill_meta E snap m =
     (let get = raw_value (pe_string E) [] snap
      in if am_Mantra m \<noteq> [] \<or> am_LoadoutName m \<noteq> [] \<or> am_Cwd m \<noteq> [] then None
         else if get ''mantra'' = [] \<and> get ''system.cwd'' = [] \<and> get ''system.loadout_name'' = [] then None
         else Some (m\<lparr>am_Mantra := get ''mantra'', am_Cwd := get ''system.cwd'', am_LoadoutName := get ''system.loadout_name'',
                      am_LoadoutVersion := get ''system.loadout_version'',
                      am_Provider := (if am_Provider m = [] then get ''system.provider'' else am_Provider m),
                      am_Model := (if am_Model m = [] then get ''system.model'' else am_Model m)\<rparr>))"

definition backfill_one :: "'b backend_ops \<Rightarrow> proto_env \<Rightarrow> 'f registry \<Rightarrow> string \<Rightarrow> 'b \<times> nat \<Rightarrow> 'b \<times> nat" where
  "backfill_one B E r i st =
     (let (b, filled) = st
      in if rg_Get r i \<noteq> None then st
         else case bo_meta B b i of
                None \<Rightarrow> st
              | Some m \<Rightarrow>
                  (case bo_chalkboardState B b i of
                     Inl _ \<Rightarrow> st
                   | Inr snap \<Rightarrow>
                       (case backfill_meta E snap m of
                          None \<Rightarrow> st
                        | Some m1 \<Rightarrow> (case bo_setMeta B b i m1 of Inl _ \<Rightarrow> st | Inr b1 \<Rightarrow> (b1, filled + 1)))))"

text \<open>\<open>stop\<close> is the position at which the context ends, if it does.\<close>

definition metaBackfill :: "'b backend_ops option \<Rightarrow> proto_env \<Rightarrow> 'f registry \<Rightarrow> nat option \<Rightarrow> 'b \<Rightarrow> 'b \<times> nat" where
  "metaBackfill B E r stop b =
     (case B of
        None \<Rightarrow> (b, 0)
      | Some ops \<Rightarrow>
          (let ids = bo_conversationIDs ops b
           in fold (backfill_one ops E r) (case stop of None \<Rightarrow> ids | Some n \<Rightarrow> take n ids) (b, 0)))"

subsection \<open>Paging through an aria\<close>

lemma encode_page_ok: "\<forall>e \<in> set es. enc (Payload e) \<noteq> None \<Longrightarrow> \<exists>out. encode_page enc es = Inr out \<and> map re_LT out = map LT es"
  by (induction es) auto

lemma read_limit_bounds: "1 \<le> read_limit n" "read_limit n \<le> 1000" "wrap64 (read_limit n + 1) = read_limit n + 1"
  by (auto simp: read_limit_def ariaReadHardCap_def)

lemma timed_sorted:
  assumes "rows_timed rows"
  shows "sorted (map FigaroLT rows)" "map FigaroLT rows = map LT rows" "e \<in> set rows \<Longrightarrow> FigaroLT e = LT e" "e \<in> set rows \<Longrightarrow> 0 < LT e"
proof -
  show eq: "map FigaroLT rows = map LT rows" using assms by (simp add: rows_timed_def)
  show "sorted (map FigaroLT rows)" unfolding eq using assms by (simp add: rows_timed_def strict_sorted_imp_sorted)
  show "e \<in> set rows \<Longrightarrow> FigaroLT e = LT e" "e \<in> set rows \<Longrightarrow> 0 < LT e" using assms by (simp_all add: rows_timed_def)
qed

text \<open>The rows from the first row that did not fit are what is left.\<close>

lemma rest_from:
  assumes "rows_timed rows" and "k < length sel" and sel: "sel = filter (\<lambda>e. from \<le> FigaroLT e) rows"
  shows "filter (\<lambda>e. LT (sel ! k) \<le> FigaroLT e) rows = drop k sel"
proof -
  have "sorted_wrt (<) (map FigaroLT rows)" using assms(1) by (simp add: timed_sorted(2) [OF assms(1)] rows_timed_def)
  then have srt: "sorted_wrt (<) (map FigaroLT sel)" unfolding sel by (simp add: sorted_wrt_map sorted_wrt_filter)
  have mem: "sel ! k \<in> set sel" using assms(2) by simp
  then have in_rows: "sel ! k \<in> set rows" and ge: "from \<le> FigaroLT (sel ! k)" by (auto simp: sel)
  have lt: "LT (sel ! k) = FigaroLT (sel ! k)" using timed_sorted(3) [OF assms(1) in_rows] by simp
  have "filter (\<lambda>e. FigaroLT (sel ! k) \<le> FigaroLT e) rows = filter (\<lambda>e. FigaroLT (sel ! k) \<le> FigaroLT e) sel"
    unfolding sel filter_filter using ge [unfolded sel] by (intro filter_cong) auto
  also have "\<dots> = filter (\<lambda>e. FigaroLT (sel ! k) \<le> FigaroLT e) (take k sel) @ filter (\<lambda>e. FigaroLT (sel ! k) \<le> FigaroLT e) (drop k sel)"
    by (metis append_take_drop_id filter_append)
  also have "\<dots> = drop k sel"
  proof -
    have "FigaroLT x < FigaroLT (sel ! k)" if "x \<in> set (take k sel)" for x
    proof -
      from that obtain i where "i < k" "x = sel ! i" using assms(2) by (auto simp: in_set_conv_nth)
      then show ?thesis using sorted_wrt_nth_less [OF srt, of i k] assms(2) by simp
    qed
    moreover have "FigaroLT (sel ! k) \<le> FigaroLT x" if "x \<in> set (drop k sel)" for x
    proof -
      from that obtain i where i': "i < length sel - k" "x = sel ! (k + i)" by (auto simp: in_set_conv_nth)
      then have i: "k + i < length sel" "x = sel ! (k + i)" by linarith+
      show ?thesis using sorted_wrt_nth_less [OF srt, of k "k + i"] i by (cases "i = 0") auto
    qed
    ultimately have "filter (\<lambda>e. FigaroLT (sel ! k) \<le> FigaroLT e) (take k sel) = []"
      "filter (\<lambda>e. FigaroLT (sel ! k) \<le> FigaroLT e) (drop k sel) = drop k sel"
      by (auto simp: filter_empty_conv filter_id_conv not_le)
    then show ?thesis by simp
  qed
  finally show ?thesis by (simp add: lt)
qed

lemma aria_page_from:
  fixes n :: int and "from" :: lt
  assumes "rows_timed rows" and "int (length rows) + 1001 < 2 ^ 63" and "\<forall>e \<in> set rows. enc (Payload e) \<noteq> None"
  defines "l \<equiv> nat (read_limit n)" and "sel \<equiv> filter (\<lambda>e. from \<le> FigaroLT e) rows"
  shows "\<exists>out. aria_page enc rows from 0 n = Inr out \<and> map re_LT (rr_Entries out) = map LT (take l sel)
     \<and> rr_Total out = length rows \<and> rr_NextFrom out = (if length sel > l then LT (sel ! l) else 0)"
proof -
  note lim = read_limit_bounds [of n]
  have page: "readPage rows from 0 (read_limit n + 1) = Inr (take (Suc l) sel, length rows)"
    using readPage_from [OF timed_sorted(1) [OF assms(1)], of "read_limit n + 1" "from"] assms(2) lim
    by (simp add: l_def sel_def Let_def nat_add_distrib)
  have rl: "read_limit n = int l" using lim by (simp add: l_def)
  obtain out where out: "encode_page enc (take l sel) = Inr out" "map re_LT out = map LT (take l sel)"
  proof -
    have "set (take l sel) \<subseteq> set rows" using set_take_subset [of l sel] by (auto simp: sel_def)
    then have "\<forall>e \<in> set (take l sel). enc (Payload e) \<noteq> None" using assms(3) by blast
    from encode_page_ok [OF this] that show thesis by blast
  qed
  show ?thesis
  proof (cases "length sel > l")
    case True
    then have "take l (take (Suc l) sel) = take l sel" by simp
    with True show ?thesis using out page by (simp add: aria_page_def rl lim(3) [unfolded rl])
  next
    case False
    with out page show ?thesis by (simp add: aria_page_def rl lim(3) [unfolded rl])
  qed
qed

lemma follow_pages:
  assumes "rows_timed rows" and "int (length rows) + 1001 < 2 ^ 63" and "\<forall>e \<in> set rows. enc (Payload e) \<noteq> None"
    and "length (filter (\<lambda>e. from \<le> FigaroLT e) rows) < fuel"
  shows "\<exists>ps. follow fuel enc rows from n = Some (Inr ps) \<and> concat ps = map LT (filter (\<lambda>e. from \<le> FigaroLT e) rows)
    \<and> (\<forall>p \<in> set ps. length p \<le> nat (read_limit n))"
  using assms(4)
proof (induction fuel arbitrary: "from")
  case (Suc fuel)
  define sel where "sel = filter (\<lambda>e. from \<le> FigaroLT e) rows"
  let ?l = "nat (read_limit n)"
  obtain out where out: "aria_page enc rows from 0 n = Inr out" "map re_LT (rr_Entries out) = map LT (take ?l sel)"
      "rr_NextFrom out = (if length sel > ?l then LT (sel ! ?l) else 0)"
    using aria_page_from [OF assms(1-3), of "from" n] by (auto simp: sel_def)
  show ?case
  proof (cases "length sel > ?l")
    case False
    then show ?thesis using out by (auto simp: sel_def [symmetric])
  next
    case True
    note rest = rest_from [OF assms(1) True sel_def]
    have "sel ! ?l \<in> set rows" using nth_mem [OF True] by (simp add: sel_def)
    then have pos: "0 < LT (sel ! ?l)" by (rule timed_sorted(4) [OF assms(1)])
    have "length (drop ?l sel) < fuel" using Suc.prems True read_limit_bounds(1) [of n] by (simp add: sel_def [symmetric])
    then obtain ps where ps: "follow fuel enc rows (LT (sel ! ?l)) n = Some (Inr ps)" "concat ps = map LT (drop ?l sel)"
        "\<forall>p \<in> set ps. length p \<le> ?l"
      using Suc.IH [of "LT (sel ! ?l)"] by (auto simp: rest)
    have "map LT (take ?l sel) @ map LT (drop ?l sel) = map LT sel" by (metis append_take_drop_id map_append)
    then show ?thesis using out ps True pos by (auto simp: sel_def [symmetric] Let_def)
  qed
qed simp

subsection \<open>Climbing ends\<close>

lemma loadoutAncestor_ends:
  assumes "\<And>i n. node i = Some n \<Longrightarrow> nv_Parent n \<noteq> [] \<Longrightarrow> depth (nv_Parent n) < depth i" and "depth i < fuel"
  shows "loadoutAncestor fuel node i \<noteq> None"
  using assms(2)
proof (induction fuel arbitrary: i)
  case (Suc fuel)
  have "loadoutAncestor fuel node (nv_Parent n) \<noteq> None" if "node i = Some n" for n
  proof (cases "nv_Parent n = []")
    case True
    then show ?thesis by (cases fuel) auto
  next
    case False
    then show ?thesis using Suc assms(1) [OF that False] by auto
  qed
  then show ?case by (auto split: option.split)
qed simp

lemma count_climb_ends:
  assumes "\<And>i n. node i = Some n \<Longrightarrow> nv_Parent n \<noteq> [] \<Longrightarrow> depth (nv_Parent n) < depth i" and "depth i \<le> fuel"
  shows "\<exists>c. count_climb fuel node i count = Some c \<and> count - 1 \<le> c \<and> c \<le> count"
  using assms(2)
proof (induction fuel arbitrary: i)
  case 0
  have "node i = Some n \<Longrightarrow> nv_Parent n = []" for n using assms(1) [of i n] 0 by auto
  then show ?case by (auto simp: count_climb.simps [of 0] split: option.split)
next
  case (Suc fuel)
  have "\<exists>c. count_climb fuel node (nv_Parent n) count = Some c \<and> count - 1 \<le> c \<and> c \<le> count"
    if "node i = Some n" "nv_Parent n \<noteq> []" for n
    using Suc.IH [of "nv_Parent n"] assms(1) [OF that] Suc.prems by simp
  then show ?case by (auto simp: count_climb.simps [of "Suc fuel"] split: option.split)
qed

subsection \<open>Properties\<close>

text \<open>
  C35: A client that reads an aria page by page, following \<open>NextFrom\<close> until it is 0, sees every row
  exactly once and in order after at most one request per row, whatever limit it asks for, and no
  page is longer than the hard cap.
\<close>

theorem aria_read_tiles:
  assumes "rows_timed rows" and "int (length rows) + 1001 < 2 ^ 63" and "\<forall>e \<in> set rows. enc (Payload e) \<noteq> None"
  shows "\<exists>ps. follow (Suc (length rows)) enc rows 0 n = Some (Inr ps) \<and> concat ps = map LT rows
    \<and> (\<forall>p \<in> set ps. int (length p) \<le> ariaReadHardCap)"
proof -
  have "length (filter (\<lambda>e. 0 \<le> FigaroLT e) rows) < Suc (length rows)" by simp
  from follow_pages [OF assms this, of n] obtain ps where
    "follow (Suc (length rows)) enc rows 0 n = Some (Inr ps)" "concat ps = map LT rows" "\<forall>p \<in> set ps. length p \<le> nat (read_limit n)"
    by auto
  then show ?thesis using read_limit_bounds [of n] by (auto simp: ariaReadHardCap_def)
qed

theorem aria_read_tiles_witness:
  "let rows = map (\<lambda>i. \<lparr>LT = i, FigaroLT = i, Payload = zero_message, Fingerprint = []\<rparr>) [1, 2, 5]
   in \<exists>ps. follow 4 (\<lambda>_. Some []) rows 0 2 = Some (Inr ps) \<and> concat ps = [1, 2, 5]"
proof -
  let ?rows = "map (\<lambda>i. \<lparr>LT = i, FigaroLT = i, Payload = zero_message, Fingerprint = []\<rparr>) [1, 2, 5]"
  have "rows_timed ?rows" by (simp add: rows_timed_def)
  from aria_read_tiles [OF this, of "\<lambda>_. Some []" 2] show ?thesis by (auto simp: Let_def numeral_eq_Suc)
qed

text \<open>What the later stages of a listing may not change: the id of an entry, and its state up to \<open>frozen\<close>.\<close>

definition tag :: "figaro_entry \<Rightarrow> string \<times> string" where
  "tag e = (fe_ID e, fe_State e)"

lemma dormant_loop_tags:
  assumes "dormant_loop b meta is (seen, res, tasks) = (seen', res', tasks')" and "seen = fe_ID ` set res" and "distinct (map fe_ID res)"
  shows "seen' = fe_ID ` set res' \<and> distinct (map fe_ID res') \<and> seen' = seen \<union> set is
    \<and> (\<forall>e \<in> set res'. e \<in> set res \<or> (fe_ID e \<notin> seen \<and> fe_State e = ''dormant''))"
  using assms
proof (induction b meta "is" "(seen, res, tasks)" arbitrary: seen res tasks rule: dormant_loop.induct)
  case (2 b meta i "is" seen res tasks)
  show ?case
  proof (cases "i \<in> seen")
    case True
    then show ?thesis using 2 by auto
  next
    case False
    let ?e = "dormant_entry b (meta i) i"
    have e: "fe_ID ?e = i" "fe_State ?e = ''dormant''" by (auto simp: dormant_entry_def Let_def split: option.split)
    have "dormant_loop b meta is (insert i seen, res @ [?e], if b then tasks else tasks @ [(length res, i)]) = (seen', res', tasks')"
      using 2(3) False by simp
    note IH = 2(2) [OF False this]
    have st: "insert i seen = fe_ID ` set (res @ [?e])" "distinct (map fe_ID (res @ [?e]))" using 2(4,5) False e by auto
    have "x \<in> set res' \<Longrightarrow> x \<in> set res \<or> (fe_ID x \<notin> seen \<and> fe_State x = ''dormant'')" for x
      using IH [OF st] e False by (cases "x = ?e") auto
    then show ?thesis using IH [OF st] by auto
  qed
qed auto

lemma anchor_loop_tags:
  assumes "anchor_loop ns (seen, res) = (seen', res')" and "seen = fe_ID ` set res" and "distinct (map fe_ID res)"
  shows "distinct (map fe_ID res') \<and> fe_ID ` set res' = seen \<union> nv_ID ` {n \<in> set ns. nv_Kind n \<noteq> conversationKind}
    \<and> (\<forall>e \<in> set res'. e \<in> set res \<or> fe_ID e \<notin> seen)"
  using assms
proof (induction ns "(seen, res)" arbitrary: seen res rule: anchor_loop.induct)
  case (2 n ns seen res)
  show ?case
  proof (cases "nv_Kind n = conversationKind \<or> nv_ID n \<in> seen")
    case True
    then show ?thesis using 2 by auto
  next
    case False
    then have "anchor_loop ns (insert (nv_ID n) seen, res @ [zero_entry\<lparr>fe_ID := nv_ID n, fe_State := ''anchor''\<rparr>]) = (seen', res')"
      using 2(3) by simp
    from 2(2) [OF False this] 2(4,5) False show ?thesis by auto
  qed
qed auto

lemma enrichList_tags: "map tag (enrichList hash meta tasks res) = map tag res"
proof (induction tasks arbitrary: res)
  case (Cons t tasks)
  have keep: "tag (fillFromMeta hash m e) = tag e" for m e by (simp add: tag_def fillFromMeta_def Let_def)
  have "map tag (res[k := fillFromMeta hash m (res ! k)]) = map tag res" for k m
    by (cases "k < length res") (simp_all add: map_update keep list_update_same_conv list_update_beyond)
  with Cons show ?case by (auto simp: enrichList_def split: option.split prod.split)
qed (simp add: enrichList_def)

lemma fillFromNode_tag: "fe_ID (fillFromNode hash ns e) = fe_ID e" "fe_State (fillFromNode hash ns e) \<in> {fe_State e, ''frozen''}"
  by (auto simp: fillFromNode_def Let_def split: option.split)

lemma tags_ids: "map tag xs = map tag ys \<Longrightarrow> map fe_ID xs = map fe_ID ys"
proof -
  assume "map tag xs = map tag ys"
  then have "map fst (map tag xs) = map fst (map tag ys)" by simp
  then show ?thesis by (simp add: tag_def comp_def)
qed

text \<open>
  A listing names every aria exactly once: the running figaros, the conversations of the backend and,
  when asked for globally, every node of the forest; and a running figaro is never shown as dormant.
  (\<open>Info\<close> reports the id and one of the two states the agent has.)
\<close>

theorem list_names_once:
  fixes B :: "'b backend_ops option" and hash :: "string \<Rightarrow> string" and req :: list_request
  assumes "reg_reachable fh_ID (fst w)" and info: "\<And>h. fi_ID (Info h) = fh_ID h \<and> fi_State (Info h) \<in> {''active'', ''idle''}"
  defines "out \<equiv> list_figaros B Info hash req w"
  shows "distinct (map fe_ID out)
    \<and> set (map fe_ID out) = fmdom' (rg_figaros (fst w)) \<union> set (snd (list_nodes B req (snd w)))
        \<union> (if lq_Global req then nv_ID ` set (fst (list_nodes B req (snd w))) else {})
    \<and> (\<forall>e \<in> set out. fe_ID e \<in> fmdom' (rg_figaros (fst w)) \<longrightarrow> fe_State e \<in> {''active'', ''idle'', ''frozen''})"
proof -
  note inv = reachable_inv [OF assms(1)]
  define live where "live = map (live_entry hash (BoundPIDsByFigaro (fst w)) (lq_IDsOnly req)) (rg_List Info (fst w))"
  define meta where "meta = (\<lambda>i. case B of None \<Rightarrow> None | Some ops \<Rightarrow> bo_meta ops (snd w) i)"
  obtain nodes convs where nc: "list_nodes B req (snd w) = (nodes, convs)" by fastforce
  obtain seen res tasks where dl: "dormant_loop (lq_IDsOnly req) meta convs (set (map fi_ID (rg_List Info (fst w))), live, []) = (seen, res, tasks)"
    by (metis prod.exhaust)
  define res1 where "res1 = (if lq_Global req then snd (anchor_loop nodes (seen, res)) else res)"
  define res2 where "res2 = (if lq_IDsOnly req then res1
    else map (fillFromNode hash (fmap_of_list (rev (map (\<lambda>n. (nv_ID n, n)) nodes)))) (enrichList hash meta tasks res1))"
  have out: "out = res2"
    unfolding out_def list_figaros_def Let_def nc res2_def res1_def using dl by (simp add: live_def meta_def)
  have id_live: "map fe_ID live = fmkeys (rg_figaros (fst w))" "fi_ID ` set (rg_List Info (fst w)) = fe_ID ` set live"
    "\<forall>e \<in> set live. fe_State e \<in> {''active'', ''idle''}"
  proof -
    have "map fi_ID (rg_List Info (fst w)) = rg_List fh_ID (fst w)" using info by (simp add: rg_List_def)
    moreover have e: "fe_ID (live_entry h bd b i) = fi_ID i" "fe_State (live_entry h bd b i) = fi_State i" for h bd b i
      by (simp_all add: live_entry_def Let_def)
    ultimately show "map fe_ID live = fmkeys (rg_figaros (fst w))" by (simp add: live_def comp_def rg_List_ID [OF inv])
    show "fi_ID ` set (rg_List Info (fst w)) = fe_ID ` set live" by (simp add: live_def image_image e)
    show "\<forall>e \<in> set live. fe_State e \<in> {''active'', ''idle''}" using info by (auto simp: live_def e rg_List_def)
  qed
  have dist: "distinct (map fe_ID live)" and dom: "fe_ID ` set live = fmdom' (rg_figaros (fst w))"
    unfolding id_live(1) using arg_cong [OF id_live(1), of set] by simp_all
  note D = dormant_loop_tags [OF dl, unfolded set_map id_live(2), OF refl dist]
  have r1: "distinct (map fe_ID res1)"
    "fe_ID ` set res1 = fmdom' (rg_figaros (fst w)) \<union> set convs \<union> (if lq_Global req then nv_ID ` set nodes else {})"
    "\<forall>e \<in> set res1. fe_ID e \<in> fmdom' (rg_figaros (fst w)) \<longrightarrow> fe_State e \<in> {''active'', ''idle''}"
  proof -
    obtain s' r' where al: "anchor_loop nodes (seen, res) = (s', r')" by fastforce
    have seen: "seen = fe_ID ` set res" and dres: "distinct (map fe_ID res)" using D by auto
    have "seen = fe_ID ` set live \<union> set convs" using D by (elim conjE)
    then have seen_eq: "seen = fmdom' (rg_figaros (fst w)) \<union> set convs" unfolding dom .
    note A = anchor_loop_tags [OF al seen dres]
    have conv: "lq_Global req \<Longrightarrow> nv_ID ` {n \<in> set nodes. nv_Kind n = conversationKind} \<subseteq> set convs"
      using nc by (auto simp: list_nodes_def Let_def split: option.splits if_splits)
    have nodes: "nv_ID ` set nodes = nv_ID ` {n \<in> set nodes. nv_Kind n \<noteq> conversationKind} \<union> nv_ID ` {n \<in> set nodes. nv_Kind n = conversationKind}" by auto
    show "distinct (map fe_ID res1)" using D A al by (simp add: res1_def)
    show "fe_ID ` set res1 = fmdom' (rg_figaros (fst w)) \<union> set convs \<union> (if lq_Global req then nv_ID ` set nodes else {})"
    proof (cases "lq_Global req")
      case True
      have "fe_ID ` set r' = seen \<union> nv_ID ` {n \<in> set nodes. nv_Kind n \<noteq> conversationKind}" using A by blast
      moreover note seen_eq
      moreover have "res1 = r'" using True al by (simp add: res1_def)
      ultimately show ?thesis unfolding nodes using True conv [OF True] by (simp del: fmlookup_dom'_iff) blast
    next
      case False
      then have "res1 = res" by (simp add: res1_def)
      moreover note seen_eq
      ultimately show ?thesis using False seen by simp
    qed
    show "\<forall>e \<in> set res1. fe_ID e \<in> fmdom' (rg_figaros (fst w)) \<longrightarrow> fe_State e \<in> {''active'', ''idle''}"
    proof (intro ballI impI)
      fix e assume e: "e \<in> set res1" "fe_ID e \<in> fmdom' (rg_figaros (fst w))"
      have "e \<in> set res"
      proof (cases "lq_Global req")
        case True
        then have "e \<in> set r'" using e(1) al by (simp add: res1_def)
        with A have "e \<in> set res \<or> fe_ID e \<notin> seen" by (elim conjE) (erule (1) bspec)
        then show ?thesis using e(2) seen_eq by blast
      qed (use e(1) in \<open>simp add: res1_def\<close>)
      with D have "e \<in> set live \<or> (fe_ID e \<notin> fe_ID ` set live \<and> fe_State e = ''dormant'')" by (elim conjE) (erule (1) bspec)
      then have "e \<in> set live" using e(2) dom by auto
      then show "fe_State e \<in> {''active'', ''idle''}" using id_live(3) by blast
    qed
  qed
  let ?en = "enrichList hash meta tasks res1"
  note tags = enrichList_tags [of hash meta tasks res1]
  have ids2: "map fe_ID res2 = map fe_ID res1"
    using tags_ids [OF tags] by (simp add: res2_def comp_def fillFromNode_tag)
  have state2: "fe_State e \<in> {''active'', ''idle'', ''frozen''}" if mem: "e \<in> set res2" and reg: "fe_ID e \<in> fmdom' (rg_figaros (fst w))" for e
  proof (cases "lq_IDsOnly req")
    case True
    then show ?thesis using mem reg r1(3) by (auto simp: res2_def)
  next
    case False
    then obtain x where x: "x \<in> set ?en" "e = fillFromNode hash (fmap_of_list (rev (map (\<lambda>n. (nv_ID n, n)) nodes))) x"
      using mem by (auto simp: res2_def)
    have "tag x \<in> set (map tag res1)" using x(1) tags by (metis image_eqI set_map)
    then obtain y where y: "y \<in> set res1" "fe_ID y = fe_ID x" "fe_State y = fe_State x" by (auto simp: tag_def)
    have "fe_ID y \<in> fmdom' (rg_figaros (fst w))" using reg unfolding x(2) fillFromNode_tag(1) y(2) .
    then have "fe_State x \<in> {''active'', ''idle''}" using bspec [OF r1(3) y(1)] unfolding y(3) by blast
    then show ?thesis
      using fillFromNode_tag(2) [of hash "fmap_of_list (rev (map (\<lambda>n. (nv_ID n, n)) nodes))" x] unfolding x(2) by auto
  qed
  show ?thesis unfolding out nc ids2 fst_conv snd_conv set_map using r1(1,2) state2 by blast
qed


definition plain_info :: "figaro_handle \<Rightarrow> figaro_info" where
  "plain_info h = agent_Info plain_env (fh_ID h) (fresh_agent (NewMemLog :: message mem_log))"

lemma plain_info_ok: "fi_ID (plain_info h) = fh_ID h \<and> fi_State (plain_info h) \<in> {''active'', ''idle''}"
  by (simp add: plain_info_def agent_Info_def Let_def)

theorem list_names_once_witness:
  "let out = list_figaros (Some mem_backend) plain_info (\<lambda>_. []) \<lparr>lq_IDsOnly = True, lq_Global = False\<rparr> (one_binding, one_aria)
   in distinct (map fe_ID out) \<and> set (map fe_ID out) = {''a''}"
proof -
  have "rg_figaros one_binding = fmupd ''a'' \<lparr>fh_ID = ''a'', fh_SocketPath = ''a.sock''\<rparr> fmempty"
    by (simp add: one_binding_def rg_Bind_def rg_Register_def NewRegistry_def unbindLocked_def Let_def)
  then have dom: "fmdom' (rg_figaros one_binding) = {''a''}" by simp
  have nodes: "list_nodes (Some mem_backend) \<lparr>lq_IDsOnly = True, lq_Global = False\<rparr> one_aria = ([], [''a''])"
    by (simp add: list_nodes_def mem_backend_def one_aria_def)
  show ?thesis
    using list_names_once [of "(one_binding, one_aria)" plain_info "Some mem_backend" "\<lambda>_. []" "\<lparr>lq_IDsOnly = True, lq_Global = False\<rparr>"]
      one_binding_reachable plain_info_ok by (simp add: nodes dom Let_def)
qed

text \<open>
  The walks up the ancestry of a trunk, which decide the loadout and the message count of a fork, end
  in every forest (every parent is nearer to the root), and the count is what the fork point says
  less the two ceremonial messages at most.
\<close>

theorem ancestry_walks_end:
  assumes "\<And>i n. node i = Some n \<Longrightarrow> nv_Parent n \<noteq> [] \<Longrightarrow> depth (nv_Parent n) < depth i" and "depth i < fuel" and "0 < t" "int t < 2 ^ 63"
  shows "loadoutAncestor fuel node i \<noteq> None
    \<and> (\<exists>c. messageCountAt fuel node i t = Some c \<and> 0 \<le> c \<and> int t - 2 \<le> c \<and> c \<le> int t - 1)"
proof -
  obtain c where c: "count_climb fuel node i (int t - 1) = Some c" "int t - 2 \<le> c" "c \<le> int t - 1"
    using count_climb_ends [of node depth i fuel "int t - 1"] assms(1,2) by force
  have "wrap64 (int t) = int t" using assms(4) by simp
  then have "messageCountAt fuel node i t = Some (max 0 c)" using c assms(3) by (simp add: messageCountAt_def Let_def)
  then show ?thesis using loadoutAncestor_ends [of node depth i fuel] assms c by auto
qed

theorem ancestry_walks_end_witness:
  "let node = (\<lambda>i. if i = ''c'' then Some \<lparr>nv_ID = ''c'', nv_Parent = ''l'', nv_Kind = conversationKind, nv_Loadout = [], nv_Version = [],
         nv_Frozen = False, nv_Trunk = [], nv_Vector = [], nv_BranchedLT = 0\<rparr>
       else if i = ''l'' then Some \<lparr>nv_ID = ''l'', nv_Parent = [], nv_Kind = loadoutKind, nv_Loadout = ''x'', nv_Version = [],
         nv_Frozen = True, nv_Trunk = [], nv_Vector = [], nv_BranchedLT = 0\<rparr> else None)
   in loadoutAncestor 2 node ''c'' \<noteq> None \<and> (\<exists>c. messageCountAt 2 node ''c'' 5 = Some c \<and> 3 \<le> c \<and> c \<le> 4)"
proof -
  let ?node = "\<lambda>i. if i = ''c'' then Some \<lparr>nv_ID = ''c'', nv_Parent = ''l'', nv_Kind = conversationKind, nv_Loadout = [], nv_Version = [],
         nv_Frozen = False, nv_Trunk = [], nv_Vector = [], nv_BranchedLT = 0\<rparr>
       else if i = ''l'' then Some \<lparr>nv_ID = ''l'', nv_Parent = [], nv_Kind = loadoutKind, nv_Loadout = ''x'', nv_Version = [],
         nv_Frozen = True, nv_Trunk = [], nv_Vector = [], nv_BranchedLT = 0\<rparr> else None"
  have "\<And>i n. ?node i = Some n \<Longrightarrow> nv_Parent n \<noteq> [] \<Longrightarrow> (if nv_Parent n = ''c'' then 1 else 0) < (if i = ''c'' then 1 else (0 :: nat))"
    by (auto split: if_splits)
  from ancestry_walks_end [of ?node "\<lambda>i. if i = ''c'' then 1 else 0" "''c''" 2 5, OF this] show ?thesis
    unfolding Let_def by auto
qed

text \<open>
  The upgrade of old summaries runs once: a summary it wrote carries an identity and is never touched
  again, and it only fills in what was empty, never the counters.
\<close>

theorem backfill_once:
  assumes "backfill_meta E snap m = Some m'"
  shows "backfill_meta E snap' m' = None
    \<and> m' = m\<lparr>am_Mantra := am_Mantra m', am_Cwd := am_Cwd m', am_LoadoutName := am_LoadoutName m',
             am_LoadoutVersion := am_LoadoutVersion m', am_Provider := am_Provider m', am_Model := am_Model m'\<rparr>
    \<and> (am_Provider m \<noteq> [] \<longrightarrow> am_Provider m' = am_Provider m) \<and> (am_Model m \<noteq> [] \<longrightarrow> am_Model m' = am_Model m)"
proof -
  define get where "get = raw_value (pe_string E) [] snap"
  have none: "am_Mantra m = [] \<and> am_LoadoutName m = [] \<and> am_Cwd m = []"
    and some: "get ''mantra'' \<noteq> [] \<or> get ''system.cwd'' \<noteq> [] \<or> get ''system.loadout_name'' \<noteq> []"
    using assms unfolding backfill_meta_def Let_def get_def [symmetric] by (auto split: if_splits)
  have m': "m' = m\<lparr>am_Mantra := get ''mantra'', am_Cwd := get ''system.cwd'', am_LoadoutName := get ''system.loadout_name'',
                      am_LoadoutVersion := get ''system.loadout_version'',
                      am_Provider := (if am_Provider m = [] then get ''system.provider'' else am_Provider m),
                      am_Model := (if am_Model m = [] then get ''system.model'' else am_Model m)\<rparr>"
    using assms none some unfolding backfill_meta_def Let_def get_def [symmetric] by (simp split: if_splits)
  have "am_Mantra m' \<noteq> [] \<or> am_LoadoutName m' \<noteq> [] \<or> am_Cwd m' \<noteq> []" using some unfolding m' by simp blast
  then have "backfill_meta E snap' m' = None" by (simp add: backfill_meta_def)
  then show ?thesis unfolding m' by simp
qed

end
